(* ===== verification/WlPrelude.thy ===== *)
theory WlPrelude
  imports Main "HOL-Library.Word"
begin

unbundle bit_operations_syntax

text \<open>
  Shared base of the WL1271 driver development: the C integer types as machine words, the
  driver-wide status codes of \<^verbatim>\<open>utils/tidef.h\<close>, the collections of rules that the
  component theories use, and the generic lemmas on words and lists that several of them share.
\<close>

section \<open>C types and status codes\<close>

type_synonym TI_UINT8 = "8 word"
type_synonym TI_UINT16 = "16 word"
type_synonym TI_UINT32 = "32 word"

text \<open>\<open>TI_OK\<close> is 0 and \<open>TI_NOK\<close> is 1 in \<^verbatim>\<open>tidef.h\<close>; no component below does arithmetic on them.\<close>

datatype TI_STATUS = TI_OK | TI_NOK

section \<open>Rule collections\<close>

named_theorems inv_rules \<open>operations that keep a component's invariant\<close>
named_theorems refine_simps \<open>equations between a concrete operation and its abstraction\<close>

section \<open>Words\<close>

lemma and_push_bit_1_neq_0:
  fixes x :: "'a::len word"
  shows "(x AND push_bit n 1 \<noteq> 0) = bit x n"
proof
  assume "bit x n"
  then have "bit (x AND push_bit n 1) n"
    by (auto simp: bit_simps dest: bit_imp_le_length)
  then show "x AND push_bit n 1 \<noteq> 0" by auto
next
  assume "x AND push_bit n 1 \<noteq> 0"
  then obtain k where "bit (x AND push_bit n 1) k"
    by (metis bit_0_eq bit_word_eqI bot_apply bot_bool_def)
  then show "bit x n" by (auto simp: bit_simps)
qed

lemma unat_Suc_word:
  fixes x :: "'a::len word"
  assumes "unat x + 1 < 2 ^ LENGTH('a)"
  shows "unat (x + 1) = unat x + 1"
  using assms by (simp add: unat_word_ariths)

lemma unat_add_small:
  fixes x y :: "'a::len word"
  assumes "unat x + unat y < 2 ^ LENGTH('a)"
  shows "unat (x + y) = unat x + unat y"
  using assms by (simp add: unat_word_ariths)

lemma unat_sub_small:
  fixes x y :: "'a::len word"
  assumes "unat y \<le> unat x"
  shows "unat (x - y) = unat x - unat y"
  using assms by (simp add: unat_sub word_le_nat_alt)

lemma unat_Suc_less:
  fixes x y :: "'a::len word"
  assumes "x < y"
  shows "unat (x + 1) = Suc (unat x)" "x + 1 \<le> y"
proof -
  have less: "unat x < unat y" using assms by (simp add: word_less_nat_alt)
  then have "unat x + 1 < 2 ^ LENGTH('a)" 
    using unsigned_less [of y, where ?'a = nat] by linarith
  then have eq: "unat (x + 1) = unat x + 1" by (rule unat_Suc_word)
  then show "unat (x + 1) = Suc (unat x)" by simp
  from eq less show "x + 1 \<le> y" by (simp add: word_le_nat_alt)
qed

lemma unat_pred_word:
  fixes x :: "'a::len word"
  assumes "x \<noteq> 0"
  shows "unat (x - 1) = unat x - 1" "x - 1 \<le> x"
proof -
  have "unat x \<noteq> 0" using assms by (simp add: unat_eq_0)
  then show "unat (x - 1) = unat x - 1" by (simp add: unat_sub_small)
  then show "x - 1 \<le> x" by (simp add: word_le_nat_alt)
qed

section \<open>Sums over a table whose entries are replaced\<close>

lemma sum_list_map_update:
  fixes f :: "'a \<Rightarrow> 'b::comm_monoid_add"
  assumes "i < length xs"
  shows "sum_list (map f (xs[i := x])) + f (xs ! i) = sum_list (map f xs) + f x"
  using assms
proof (induction xs arbitrary: i)
  case (Cons y ys)
  show ?case
  proof (cases i)
    case 0
    then show ?thesis by (simp add: add.commute add.left_commute)
  next
    case (Suc j)
    with Cons.IH [of j] Cons.prems show ?thesis by (simp add: add.assoc)
  qed
qed simp

end
