(* ===== verification/WlRate.thy ===== *)
theory WlRate
  imports WlPrelude
begin

text \<open>
  The rate conversions of \<^verbatim>\<open>utils/rate.c\<close>: between the driver's rate index
  (\<open>ERate\<close>, \<^verbatim>\<open>TWD/TWDriver/TWDriverRate.h\<close>), the octets of the 802.11 rate
  elements (\<open>ENetRate\<close>, \<^verbatim>\<open>utils/rate.h\<close>), the driver's rate bitmap, the firmware's
  bitmap and the numeric Mbps values. Every \<open>switch\<close> is an \<open>if\<close> chain or a \<open>case\<close> in the
  source's order. A C buffer with its length is the list of its first \<open>len\<close> octets; the C
  functions return \<open>TI_OK\<close> and write through pointers, the model returns what they write.
\<close>

section \<open>Rate types\<close>

text \<open>Driver rates, \<^verbatim>\<open>TWDriverRate.h\<close>; \<open>DRV_RATE_MAX\<close> is \<open>DRV_RATE_MCS_7\<close>.\<close>

datatype ERate =
    DRV_RATE_AUTO
  | DRV_RATE_1M
  | DRV_RATE_2M
  | DRV_RATE_5_5M
  | DRV_RATE_11M
  | DRV_RATE_22M
  | DRV_RATE_6M
  | DRV_RATE_9M
  | DRV_RATE_12M
  | DRV_RATE_18M
  | DRV_RATE_24M
  | DRV_RATE_36M
  | DRV_RATE_48M
  | DRV_RATE_54M
  | DRV_RATE_MCS_0
  | DRV_RATE_MCS_1
  | DRV_RATE_MCS_2
  | DRV_RATE_MCS_3
  | DRV_RATE_MCS_4
  | DRV_RATE_MCS_5
  | DRV_RATE_MCS_6
  | DRV_RATE_MCS_7
  | DRV_RATE_INVALID

text \<open>The values of the enumeration.\<close>

fun ERate_val :: "ERate \<Rightarrow> nat" where
  "ERate_val DRV_RATE_AUTO = 0"
| "ERate_val DRV_RATE_1M = 1"
| "ERate_val DRV_RATE_2M = 2"
| "ERate_val DRV_RATE_5_5M = 3"
| "ERate_val DRV_RATE_11M = 4"
| "ERate_val DRV_RATE_22M = 5"
| "ERate_val DRV_RATE_6M = 6"
| "ERate_val DRV_RATE_9M = 7"
| "ERate_val DRV_RATE_12M = 8"
| "ERate_val DRV_RATE_18M = 9"
| "ERate_val DRV_RATE_24M = 10"
| "ERate_val DRV_RATE_36M = 11"
| "ERate_val DRV_RATE_48M = 12"
| "ERate_val DRV_RATE_54M = 13"
| "ERate_val DRV_RATE_MCS_0 = 14"
| "ERate_val DRV_RATE_MCS_1 = 15"
| "ERate_val DRV_RATE_MCS_2 = 16"
| "ERate_val DRV_RATE_MCS_3 = 17"
| "ERate_val DRV_RATE_MCS_4 = 18"
| "ERate_val DRV_RATE_MCS_5 = 19"
| "ERate_val DRV_RATE_MCS_6 = 20"
| "ERate_val DRV_RATE_MCS_7 = 21"
| "ERate_val DRV_RATE_INVALID = 0xFF"

definition RATE_TO_MASK :: "ERate \<Rightarrow> TI_UINT32" where
  "RATE_TO_MASK R = push_bit (ERate_val R - 1) 1"

abbreviation (input) DRV_RATE_MASK_1_BARKER :: TI_UINT32 where
  "DRV_RATE_MASK_1_BARKER \<equiv> RATE_TO_MASK DRV_RATE_1M"
abbreviation (input) DRV_RATE_MASK_2_BARKER :: TI_UINT32 where
  "DRV_RATE_MASK_2_BARKER \<equiv> RATE_TO_MASK DRV_RATE_2M"
abbreviation (input) DRV_RATE_MASK_5_5_CCK :: TI_UINT32 where
  "DRV_RATE_MASK_5_5_CCK \<equiv> RATE_TO_MASK DRV_RATE_5_5M"
abbreviation (input) DRV_RATE_MASK_11_CCK :: TI_UINT32 where
  "DRV_RATE_MASK_11_CCK \<equiv> RATE_TO_MASK DRV_RATE_11M"
abbreviation (input) DRV_RATE_MASK_22_PBCC :: TI_UINT32 where
  "DRV_RATE_MASK_22_PBCC \<equiv> RATE_TO_MASK DRV_RATE_22M"
abbreviation (input) DRV_RATE_MASK_6_OFDM :: TI_UINT32 where
  "DRV_RATE_MASK_6_OFDM \<equiv> RATE_TO_MASK DRV_RATE_6M"
abbreviation (input) DRV_RATE_MASK_9_OFDM :: TI_UINT32 where
  "DRV_RATE_MASK_9_OFDM \<equiv> RATE_TO_MASK DRV_RATE_9M"
abbreviation (input) DRV_RATE_MASK_12_OFDM :: TI_UINT32 where
  "DRV_RATE_MASK_12_OFDM \<equiv> RATE_TO_MASK DRV_RATE_12M"
abbreviation (input) DRV_RATE_MASK_18_OFDM :: TI_UINT32 where
  "DRV_RATE_MASK_18_OFDM \<equiv> RATE_TO_MASK DRV_RATE_18M"
abbreviation (input) DRV_RATE_MASK_24_OFDM :: TI_UINT32 where
  "DRV_RATE_MASK_24_OFDM \<equiv> RATE_TO_MASK DRV_RATE_24M"
abbreviation (input) DRV_RATE_MASK_36_OFDM :: TI_UINT32 where
  "DRV_RATE_MASK_36_OFDM \<equiv> RATE_TO_MASK DRV_RATE_36M"
abbreviation (input) DRV_RATE_MASK_48_OFDM :: TI_UINT32 where
  "DRV_RATE_MASK_48_OFDM \<equiv> RATE_TO_MASK DRV_RATE_48M"
abbreviation (input) DRV_RATE_MASK_54_OFDM :: TI_UINT32 where
  "DRV_RATE_MASK_54_OFDM \<equiv> RATE_TO_MASK DRV_RATE_54M"
abbreviation (input) DRV_RATE_MASK_MCS_0_OFDM :: TI_UINT32 where
  "DRV_RATE_MASK_MCS_0_OFDM \<equiv> RATE_TO_MASK DRV_RATE_MCS_0"
abbreviation (input) DRV_RATE_MASK_MCS_1_OFDM :: TI_UINT32 where
  "DRV_RATE_MASK_MCS_1_OFDM \<equiv> RATE_TO_MASK DRV_RATE_MCS_1"
abbreviation (input) DRV_RATE_MASK_MCS_2_OFDM :: TI_UINT32 where
  "DRV_RATE_MASK_MCS_2_OFDM \<equiv> RATE_TO_MASK DRV_RATE_MCS_2"
abbreviation (input) DRV_RATE_MASK_MCS_3_OFDM :: TI_UINT32 where
  "DRV_RATE_MASK_MCS_3_OFDM \<equiv> RATE_TO_MASK DRV_RATE_MCS_3"
abbreviation (input) DRV_RATE_MASK_MCS_4_OFDM :: TI_UINT32 where
  "DRV_RATE_MASK_MCS_4_OFDM \<equiv> RATE_TO_MASK DRV_RATE_MCS_4"
abbreviation (input) DRV_RATE_MASK_MCS_5_OFDM :: TI_UINT32 where
  "DRV_RATE_MASK_MCS_5_OFDM \<equiv> RATE_TO_MASK DRV_RATE_MCS_5"
abbreviation (input) DRV_RATE_MASK_MCS_6_OFDM :: TI_UINT32 where
  "DRV_RATE_MASK_MCS_6_OFDM \<equiv> RATE_TO_MASK DRV_RATE_MCS_6"
abbreviation (input) DRV_RATE_MASK_MCS_7_OFDM :: TI_UINT32 where
  "DRV_RATE_MASK_MCS_7_OFDM \<equiv> RATE_TO_MASK DRV_RATE_MCS_7"

text \<open>
  Octets of the rate elements, \<^verbatim>\<open>utils/rate.h\<close>. The same constants are compared with
  octets of a frame and with 32-bit arguments, so they are numerals of any word type.
\<close>

abbreviation (input) NET_BASIC_MASK :: "'a::len word" where "NET_BASIC_MASK \<equiv> 0x80"
abbreviation (input) NET_RATE_AUTO :: "'a::len word" where "NET_RATE_AUTO \<equiv> 0x00"
abbreviation (input) NET_RATE_1M :: "'a::len word" where "NET_RATE_1M \<equiv> 0x02"
abbreviation (input) NET_RATE_2M :: "'a::len word" where "NET_RATE_2M \<equiv> 0x04"
abbreviation (input) NET_RATE_5_5M :: "'a::len word" where "NET_RATE_5_5M \<equiv> 0x0B"
abbreviation (input) NET_RATE_11M :: "'a::len word" where "NET_RATE_11M \<equiv> 0x16"
abbreviation (input) NET_RATE_22M :: "'a::len word" where "NET_RATE_22M \<equiv> 0x2C"
abbreviation (input) NET_RATE_6M :: "'a::len word" where "NET_RATE_6M \<equiv> 0x0C"
abbreviation (input) NET_RATE_9M :: "'a::len word" where "NET_RATE_9M \<equiv> 0x12"
abbreviation (input) NET_RATE_12M :: "'a::len word" where "NET_RATE_12M \<equiv> 0x18"
abbreviation (input) NET_RATE_18M :: "'a::len word" where "NET_RATE_18M \<equiv> 0x24"
abbreviation (input) NET_RATE_24M :: "'a::len word" where "NET_RATE_24M \<equiv> 0x30"
abbreviation (input) NET_RATE_36M :: "'a::len word" where "NET_RATE_36M \<equiv> 0x48"
abbreviation (input) NET_RATE_48M :: "'a::len word" where "NET_RATE_48M \<equiv> 0x60"
abbreviation (input) NET_RATE_54M :: "'a::len word" where "NET_RATE_54M \<equiv> 0x6C"
abbreviation (input) NET_RATE_MCS0 :: "'a::len word" where "NET_RATE_MCS0 \<equiv> 0x0D"
abbreviation (input) NET_RATE_MCS1 :: "'a::len word" where "NET_RATE_MCS1 \<equiv> 0x1A"
abbreviation (input) NET_RATE_MCS2 :: "'a::len word" where "NET_RATE_MCS2 \<equiv> 0x27"
abbreviation (input) NET_RATE_MCS3 :: "'a::len word" where "NET_RATE_MCS3 \<equiv> 0x34"
abbreviation (input) NET_RATE_MCS4 :: "'a::len word" where "NET_RATE_MCS4 \<equiv> 0x4E"
abbreviation (input) NET_RATE_MCS5 :: "'a::len word" where "NET_RATE_MCS5 \<equiv> 0x68"
abbreviation (input) NET_RATE_MCS6 :: "'a::len word" where "NET_RATE_MCS6 \<equiv> 0x75"
abbreviation (input) NET_RATE_MCS7 :: "'a::len word" where "NET_RATE_MCS7 \<equiv> 0x7F"
abbreviation (input) NET_RATE_1M_BASIC :: "'a::len word" where
  "NET_RATE_1M_BASIC \<equiv> 0x82"
abbreviation (input) NET_RATE_2M_BASIC :: "'a::len word" where
  "NET_RATE_2M_BASIC \<equiv> 0x84"
abbreviation (input) NET_RATE_5_5M_BASIC :: "'a::len word" where
  "NET_RATE_5_5M_BASIC \<equiv> 0x8B"
abbreviation (input) NET_RATE_11M_BASIC :: "'a::len word" where
  "NET_RATE_11M_BASIC \<equiv> 0x96"
abbreviation (input) NET_RATE_22M_BASIC :: "'a::len word" where
  "NET_RATE_22M_BASIC \<equiv> 0xAC"
abbreviation (input) NET_RATE_6M_BASIC :: "'a::len word" where
  "NET_RATE_6M_BASIC \<equiv> 0x8C"
abbreviation (input) NET_RATE_9M_BASIC :: "'a::len word" where
  "NET_RATE_9M_BASIC \<equiv> 0x92"
abbreviation (input) NET_RATE_12M_BASIC :: "'a::len word" where
  "NET_RATE_12M_BASIC \<equiv> 0x98"
abbreviation (input) NET_RATE_18M_BASIC :: "'a::len word" where
  "NET_RATE_18M_BASIC \<equiv> 0xA4"
abbreviation (input) NET_RATE_24M_BASIC :: "'a::len word" where
  "NET_RATE_24M_BASIC \<equiv> 0xB0"
abbreviation (input) NET_RATE_36M_BASIC :: "'a::len word" where
  "NET_RATE_36M_BASIC \<equiv> 0xC8"
abbreviation (input) NET_RATE_48M_BASIC :: "'a::len word" where
  "NET_RATE_48M_BASIC \<equiv> 0xE0"
abbreviation (input) NET_RATE_54M_BASIC :: "'a::len word" where
  "NET_RATE_54M_BASIC \<equiv> 0xEC"
abbreviation (input) NET_RATE_MCS0_BASIC :: "'a::len word" where
  "NET_RATE_MCS0_BASIC \<equiv> 0x8D"
abbreviation (input) NET_RATE_MCS1_BASIC :: "'a::len word" where
  "NET_RATE_MCS1_BASIC \<equiv> 0x9A"
abbreviation (input) NET_RATE_MCS2_BASIC :: "'a::len word" where
  "NET_RATE_MCS2_BASIC \<equiv> 0xA7"
abbreviation (input) NET_RATE_MCS3_BASIC :: "'a::len word" where
  "NET_RATE_MCS3_BASIC \<equiv> 0xB4"
abbreviation (input) NET_RATE_MCS4_BASIC :: "'a::len word" where
  "NET_RATE_MCS4_BASIC \<equiv> 0xCE"
abbreviation (input) NET_RATE_MCS5_BASIC :: "'a::len word" where
  "NET_RATE_MCS5_BASIC \<equiv> 0xE8"
abbreviation (input) NET_RATE_MCS6_BASIC :: "'a::len word" where
  "NET_RATE_MCS6_BASIC \<equiv> 0xF5"
abbreviation (input) NET_RATE_MCS7_BASIC :: "'a::len word" where
  "NET_RATE_MCS7_BASIC \<equiv> 0xFF"

text \<open>The rate sets of the user interface, \<^verbatim>\<open>utils/rate.h\<close>, in the enumeration's order.\<close>

datatype EBasicRateSet =
    BASIC_RATE_SET_1_2
  | BASIC_RATE_SET_1_2_5_5_11
  | BASIC_RATE_SET_UP_TO_12
  | BASIC_RATE_SET_UP_TO_18
  | BASIC_RATE_SET_1_2_5_5_6_11_12_24
  | BASIC_RATE_SET_UP_TO_36
  | BASIC_RATE_SET_UP_TO_48
  | BASIC_RATE_SET_UP_TO_54
  | BASIC_RATE_SET_UP_TO_24
  | BASIC_RATE_SET_6_12_24
  | BASIC_RATE_SET_ALL_MCS_RATES

datatype ESupportedRateSet =
    SUPPORTED_RATE_SET_1_2
  | SUPPORTED_RATE_SET_1_2_5_5_11
  | SUPPORTED_RATE_SET_1_2_5_5_11_22
  | SUPPORTED_RATE_SET_UP_TO_18
  | SUPPORTED_RATE_SET_UP_TO_24
  | SUPPORTED_RATE_SET_UP_TO_36
  | SUPPORTED_RATE_SET_UP_TO_48
  | SUPPORTED_RATE_SET_UP_TO_54
  | SUPPORTED_RATE_SET_ALL
  | SUPPORTED_RATE_SET_ALL_OFDM
  | SUPPORTED_RATE_SET_ALL_MCS_RATES

text \<open>The firmware's rate policy index, \<^verbatim>\<open>TWD/FirmwareApi/public_types.h\<close>.\<close>

datatype ETxRateClassId =
    txPolicyMcs7
  | txPolicyMcs6
  | txPolicyMcs5
  | txPolicyMcs4
  | txPolicyMcs3
  | txPolicyMcs2
  | txPolicyMcs1
  | txPolicyMcs0
  | txPolicy54
  | txPolicy48
  | txPolicy36
  | txPolicy24
  | txPolicy22
  | txPolicy18
  | txPolicy12
  | txPolicy11
  | txPolicy9
  | txPolicy6
  | txPolicy5_5
  | txPolicy2
  | txPolicy1
  | MAX_NUM_OF_TX_RATES_IN_CLASS
  | TX_RATE_INDEX_ENUM_MAX_SIZE

section \<open>Single rates\<close>

definition rate_NetToDrv :: "TI_UINT32 \<Rightarrow> ERate" where
  "rate_NetToDrv rate =
    (if rate = NET_RATE_1M \<or> rate = NET_RATE_1M_BASIC then DRV_RATE_1M
     else if rate = NET_RATE_2M \<or> rate = NET_RATE_2M_BASIC then DRV_RATE_2M
     else if rate = NET_RATE_5_5M \<or> rate = NET_RATE_5_5M_BASIC then DRV_RATE_5_5M
     else if rate = NET_RATE_11M \<or> rate = NET_RATE_11M_BASIC then DRV_RATE_11M
     else if rate = NET_RATE_22M \<or> rate = NET_RATE_22M_BASIC then DRV_RATE_22M
     else if rate = NET_RATE_6M \<or> rate = NET_RATE_6M_BASIC then DRV_RATE_6M
     else if rate = NET_RATE_9M \<or> rate = NET_RATE_9M_BASIC then DRV_RATE_9M
     else if rate = NET_RATE_12M \<or> rate = NET_RATE_12M_BASIC then DRV_RATE_12M
     else if rate = NET_RATE_18M \<or> rate = NET_RATE_18M_BASIC then DRV_RATE_18M
     else if rate = NET_RATE_24M \<or> rate = NET_RATE_24M_BASIC then DRV_RATE_24M
     else if rate = NET_RATE_36M \<or> rate = NET_RATE_36M_BASIC then DRV_RATE_36M
     else if rate = NET_RATE_48M \<or> rate = NET_RATE_48M_BASIC then DRV_RATE_48M
     else if rate = NET_RATE_54M \<or> rate = NET_RATE_54M_BASIC then DRV_RATE_54M
     else if rate = NET_RATE_MCS0 \<or> rate = NET_RATE_MCS0_BASIC then DRV_RATE_MCS_0
     else if rate = NET_RATE_MCS1 \<or> rate = NET_RATE_MCS1_BASIC then DRV_RATE_MCS_1
     else if rate = NET_RATE_MCS2 \<or> rate = NET_RATE_MCS2_BASIC then DRV_RATE_MCS_2
     else if rate = NET_RATE_MCS3 \<or> rate = NET_RATE_MCS3_BASIC then DRV_RATE_MCS_3
     else if rate = NET_RATE_MCS4 \<or> rate = NET_RATE_MCS4_BASIC then DRV_RATE_MCS_4
     else if rate = NET_RATE_MCS5 \<or> rate = NET_RATE_MCS5_BASIC then DRV_RATE_MCS_5
     else if rate = NET_RATE_MCS6 \<or> rate = NET_RATE_MCS6_BASIC then DRV_RATE_MCS_6
     else if rate = NET_RATE_MCS7 \<or> rate = NET_RATE_MCS7_BASIC then DRV_RATE_MCS_7
     else DRV_RATE_INVALID)"

fun rate_DrvToNet :: "ERate \<Rightarrow> TI_UINT32" where
  "rate_DrvToNet DRV_RATE_AUTO = NET_RATE_AUTO"
| "rate_DrvToNet DRV_RATE_1M = NET_RATE_1M"
| "rate_DrvToNet DRV_RATE_2M = NET_RATE_2M"
| "rate_DrvToNet DRV_RATE_5_5M = NET_RATE_5_5M"
| "rate_DrvToNet DRV_RATE_11M = NET_RATE_11M"
| "rate_DrvToNet DRV_RATE_22M = NET_RATE_22M"
| "rate_DrvToNet DRV_RATE_6M = NET_RATE_6M"
| "rate_DrvToNet DRV_RATE_9M = NET_RATE_9M"
| "rate_DrvToNet DRV_RATE_12M = NET_RATE_12M"
| "rate_DrvToNet DRV_RATE_18M = NET_RATE_18M"
| "rate_DrvToNet DRV_RATE_24M = NET_RATE_24M"
| "rate_DrvToNet DRV_RATE_36M = NET_RATE_36M"
| "rate_DrvToNet DRV_RATE_48M = NET_RATE_48M"
| "rate_DrvToNet DRV_RATE_54M = NET_RATE_54M"
| "rate_DrvToNet DRV_RATE_MCS_0 = NET_RATE_MCS0"
| "rate_DrvToNet DRV_RATE_MCS_1 = NET_RATE_MCS1"
| "rate_DrvToNet DRV_RATE_MCS_2 = NET_RATE_MCS2"
| "rate_DrvToNet DRV_RATE_MCS_3 = NET_RATE_MCS3"
| "rate_DrvToNet DRV_RATE_MCS_4 = NET_RATE_MCS4"
| "rate_DrvToNet DRV_RATE_MCS_5 = NET_RATE_MCS5"
| "rate_DrvToNet DRV_RATE_MCS_6 = NET_RATE_MCS6"
| "rate_DrvToNet DRV_RATE_MCS_7 = NET_RATE_MCS7"
| "rate_DrvToNet DRV_RATE_INVALID = NET_RATE_AUTO"

fun rate_DrvToNumber :: "ERate \<Rightarrow> TI_UINT32" where
  "rate_DrvToNumber DRV_RATE_1M = 1"
| "rate_DrvToNumber DRV_RATE_2M = 2"
| "rate_DrvToNumber DRV_RATE_5_5M = 5"
| "rate_DrvToNumber DRV_RATE_11M = 11"
| "rate_DrvToNumber DRV_RATE_22M = 22"
| "rate_DrvToNumber DRV_RATE_6M = 6"
| "rate_DrvToNumber DRV_RATE_9M = 9"
| "rate_DrvToNumber DRV_RATE_12M = 12"
| "rate_DrvToNumber DRV_RATE_18M = 18"
| "rate_DrvToNumber DRV_RATE_24M = 24"
| "rate_DrvToNumber DRV_RATE_36M = 36"
| "rate_DrvToNumber DRV_RATE_48M = 48"
| "rate_DrvToNumber DRV_RATE_54M = 54"
| "rate_DrvToNumber DRV_RATE_MCS_0 = 6"
| "rate_DrvToNumber DRV_RATE_MCS_1 = 13"
| "rate_DrvToNumber DRV_RATE_MCS_2 = 19"
| "rate_DrvToNumber DRV_RATE_MCS_3 = 26"
| "rate_DrvToNumber DRV_RATE_MCS_4 = 39"
| "rate_DrvToNumber DRV_RATE_MCS_5 = 52"
| "rate_DrvToNumber DRV_RATE_MCS_6 = 58"
| "rate_DrvToNumber DRV_RATE_MCS_7 = 65"
| "rate_DrvToNumber DRV_RATE_AUTO = 0"
| "rate_DrvToNumber DRV_RATE_INVALID = 0"

definition rate_NumberToDrv :: "TI_UINT32 \<Rightarrow> ERate" where
  "rate_NumberToDrv rate =
    (if rate = 0x1 then DRV_RATE_1M
     else if rate = 0x2 then DRV_RATE_2M
     else if rate = 0x5 then DRV_RATE_5_5M
     else if rate = 0xB then DRV_RATE_11M
     else if rate = 0x16 then DRV_RATE_22M
     else if rate = 0x6 then DRV_RATE_6M
     else if rate = 0x9 then DRV_RATE_9M
     else if rate = 0xC then DRV_RATE_12M
     else if rate = 0x12 then DRV_RATE_18M
     else if rate = 0x18 then DRV_RATE_24M
     else if rate = 0x24 then DRV_RATE_36M
     else if rate = 0x30 then DRV_RATE_48M
     else if rate = 0x36 then DRV_RATE_54M
     else if rate = 0x7 then DRV_RATE_MCS_0
     else if rate = 0xD then DRV_RATE_MCS_1
     else if rate = 0x13 then DRV_RATE_MCS_2
     else if rate = 0x1A then DRV_RATE_MCS_3
     else if rate = 0x27 then DRV_RATE_MCS_4
     else if rate = 0x34 then DRV_RATE_MCS_5
     else if rate = 0x3A then DRV_RATE_MCS_6
     else if rate = 0x41 then DRV_RATE_MCS_7
     else DRV_RATE_6M)"

text \<open>\<open>rate_PolicyToDrv\<close> returns its status and the rate it writes through \<open>eAppRate\<close>.\<close>

fun rate_PolicyToDrv :: "ETxRateClassId \<Rightarrow> TI_STATUS \<times> ERate" where
  "rate_PolicyToDrv txPolicy1 = (TI_OK, DRV_RATE_1M)"
| "rate_PolicyToDrv txPolicy2 = (TI_OK, DRV_RATE_2M)"
| "rate_PolicyToDrv txPolicy5_5 = (TI_OK, DRV_RATE_5_5M)"
| "rate_PolicyToDrv txPolicy11 = (TI_OK, DRV_RATE_11M)"
| "rate_PolicyToDrv txPolicy22 = (TI_OK, DRV_RATE_22M)"
| "rate_PolicyToDrv txPolicy6 = (TI_OK, DRV_RATE_6M)"
| "rate_PolicyToDrv txPolicy9 = (TI_OK, DRV_RATE_9M)"
| "rate_PolicyToDrv txPolicy12 = (TI_OK, DRV_RATE_12M)"
| "rate_PolicyToDrv txPolicy18 = (TI_OK, DRV_RATE_18M)"
| "rate_PolicyToDrv txPolicy24 = (TI_OK, DRV_RATE_24M)"
| "rate_PolicyToDrv txPolicy36 = (TI_OK, DRV_RATE_36M)"
| "rate_PolicyToDrv txPolicy48 = (TI_OK, DRV_RATE_48M)"
| "rate_PolicyToDrv txPolicy54 = (TI_OK, DRV_RATE_54M)"
| "rate_PolicyToDrv txPolicyMcs0 = (TI_OK, DRV_RATE_MCS_0)"
| "rate_PolicyToDrv txPolicyMcs1 = (TI_OK, DRV_RATE_MCS_1)"
| "rate_PolicyToDrv txPolicyMcs2 = (TI_OK, DRV_RATE_MCS_2)"
| "rate_PolicyToDrv txPolicyMcs3 = (TI_OK, DRV_RATE_MCS_3)"
| "rate_PolicyToDrv txPolicyMcs4 = (TI_OK, DRV_RATE_MCS_4)"
| "rate_PolicyToDrv txPolicyMcs5 = (TI_OK, DRV_RATE_MCS_5)"
| "rate_PolicyToDrv txPolicyMcs6 = (TI_OK, DRV_RATE_MCS_6)"
| "rate_PolicyToDrv txPolicyMcs7 = (TI_OK, DRV_RATE_MCS_7)"
| "rate_PolicyToDrv MAX_NUM_OF_TX_RATES_IN_CLASS = (TI_NOK, DRV_RATE_INVALID)"
| "rate_PolicyToDrv TX_RATE_INDEX_ENUM_MAX_SIZE = (TI_NOK, DRV_RATE_INVALID)"

section \<open>Bitmaps and rate elements\<close>

definition rate_GetMaxFromDrvBitmap :: "TI_UINT32 \<Rightarrow> ERate" where
  "rate_GetMaxFromDrvBitmap uRateBitMap =
    (if uRateBitMap AND DRV_RATE_MASK_MCS_7_OFDM \<noteq> 0 then DRV_RATE_MCS_7
     else if uRateBitMap AND DRV_RATE_MASK_MCS_6_OFDM \<noteq> 0 then DRV_RATE_MCS_6
     else if uRateBitMap AND DRV_RATE_MASK_MCS_5_OFDM \<noteq> 0 then DRV_RATE_MCS_5
     else if uRateBitMap AND DRV_RATE_MASK_MCS_4_OFDM \<noteq> 0 then DRV_RATE_MCS_4
     else if uRateBitMap AND DRV_RATE_MASK_MCS_3_OFDM \<noteq> 0 then DRV_RATE_MCS_3
     else if uRateBitMap AND DRV_RATE_MASK_MCS_2_OFDM \<noteq> 0 then DRV_RATE_MCS_2
     else if uRateBitMap AND DRV_RATE_MASK_MCS_1_OFDM \<noteq> 0 then DRV_RATE_MCS_1
     else if uRateBitMap AND DRV_RATE_MASK_MCS_0_OFDM \<noteq> 0 then DRV_RATE_MCS_0
     else if uRateBitMap AND DRV_RATE_MASK_54_OFDM \<noteq> 0 then DRV_RATE_54M
     else if uRateBitMap AND DRV_RATE_MASK_48_OFDM \<noteq> 0 then DRV_RATE_48M
     else if uRateBitMap AND DRV_RATE_MASK_36_OFDM \<noteq> 0 then DRV_RATE_36M
     else if uRateBitMap AND DRV_RATE_MASK_24_OFDM \<noteq> 0 then DRV_RATE_24M
     else if uRateBitMap AND DRV_RATE_MASK_22_PBCC \<noteq> 0 then DRV_RATE_22M
     else if uRateBitMap AND DRV_RATE_MASK_18_OFDM \<noteq> 0 then DRV_RATE_18M
     else if uRateBitMap AND DRV_RATE_MASK_12_OFDM \<noteq> 0 then DRV_RATE_12M
     else if uRateBitMap AND DRV_RATE_MASK_11_CCK \<noteq> 0 then DRV_RATE_11M
     else if uRateBitMap AND DRV_RATE_MASK_9_OFDM \<noteq> 0 then DRV_RATE_9M
     else if uRateBitMap AND DRV_RATE_MASK_6_OFDM \<noteq> 0 then DRV_RATE_6M
     else if uRateBitMap AND DRV_RATE_MASK_5_5_CCK \<noteq> 0 then DRV_RATE_5_5M
     else if uRateBitMap AND DRV_RATE_MASK_2_BARKER \<noteq> 0 then DRV_RATE_2M
     else if uRateBitMap AND DRV_RATE_MASK_1_BARKER \<noteq> 0 then DRV_RATE_1M
     else DRV_RATE_INVALID)"

definition rate_ValidateNet :: "TI_UINT32 \<Rightarrow> TI_STATUS" where
  "rate_ValidateNet eRate =
    (if eRate \<in> {NET_RATE_1M, NET_RATE_1M_BASIC, NET_RATE_2M, NET_RATE_2M_BASIC,
         NET_RATE_5_5M, NET_RATE_5_5M_BASIC, NET_RATE_11M, NET_RATE_11M_BASIC,
         NET_RATE_22M, NET_RATE_22M_BASIC, NET_RATE_6M, NET_RATE_6M_BASIC,
         NET_RATE_9M, NET_RATE_9M_BASIC, NET_RATE_12M, NET_RATE_12M_BASIC,
         NET_RATE_18M, NET_RATE_18M_BASIC, NET_RATE_24M, NET_RATE_24M_BASIC,
         NET_RATE_36M, NET_RATE_36M_BASIC, NET_RATE_48M, NET_RATE_48M_BASIC,
         NET_RATE_54M, NET_RATE_54M_BASIC}
     then TI_OK else TI_NOK)"

text \<open>
  \<open>NET_BASIC_RATE\<close> and \<open>NET_ACTIVE_RATE\<close> are the macros of \<^verbatim>\<open>rate.h\<close>; the loops
  walk the string from its first octet, \<open>TI_MAX\<close> is the maximum of the two enumeration values.
\<close>

definition NET_BASIC_RATE :: "TI_UINT8 \<Rightarrow> bool" where
  "NET_BASIC_RATE rate = (rate AND NET_BASIC_MASK \<noteq> 0)"

definition NET_ACTIVE_RATE :: "TI_UINT8 \<Rightarrow> bool" where
  "NET_ACTIVE_RATE rate = (\<not> NET_BASIC_RATE rate)"

fun rate_GetMaxBasicFromStr :: "TI_UINT8 list \<Rightarrow> TI_UINT32 \<Rightarrow> TI_UINT32" where
  "rate_GetMaxBasicFromStr [] eMaxRate = eMaxRate"
| "rate_GetMaxBasicFromStr (c # cs) eMaxRate =
     rate_GetMaxBasicFromStr cs
       (if NET_BASIC_RATE c \<and> rate_ValidateNet (ucast c) = TI_OK
        then max (ucast c) eMaxRate else eMaxRate)"

fun rate_GetMaxActiveFromStr :: "TI_UINT8 list \<Rightarrow> TI_UINT32 \<Rightarrow> TI_UINT32" where
  "rate_GetMaxActiveFromStr [] eMaxRate = eMaxRate"
| "rate_GetMaxActiveFromStr (c # cs) eMaxRate =
     rate_GetMaxActiveFromStr cs
       (if NET_ACTIVE_RATE c \<and> rate_ValidateNet (ucast c) = TI_OK
        then max (ucast c) eMaxRate else eMaxRate)"

text \<open>
  One block of \<open>rate_DrvBitmapToNetStr\<close>: \<open>string[i++]\<close> appends the basic or the plain octet
  of a rate that the supported bitmap holds; \<open>i\<close> is the length of what was written.
\<close>

definition rate_StrAppend ::
  "TI_UINT32 \<Rightarrow> TI_UINT32 \<Rightarrow> TI_UINT32 \<Rightarrow> TI_UINT8 \<Rightarrow> TI_UINT8 \<Rightarrow> TI_UINT8 list \<Rightarrow> TI_UINT8 list"
where
  "rate_StrAppend uSupp uBasic rateMask basicOctet octet string =
     (if uSupp AND rateMask \<noteq> 0
      then string @ [if uBasic AND rateMask \<noteq> 0 then basicOctet else octet]
      else string)"

text \<open>The result is \<open>(string, len, firstOfdmRate)\<close>.\<close>

definition rate_DrvBitmapToNetStr ::
  "TI_UINT32 \<Rightarrow> TI_UINT32 \<Rightarrow> TI_UINT8 list \<times> nat \<times> nat" where
  "rate_DrvBitmapToNetStr uSupp uBasic =
    (let s = [];
         s = rate_StrAppend uSupp uBasic DRV_RATE_MASK_1_BARKER NET_RATE_1M_BASIC NET_RATE_1M s;
         s = rate_StrAppend uSupp uBasic DRV_RATE_MASK_2_BARKER NET_RATE_2M_BASIC NET_RATE_2M s;
         s = rate_StrAppend uSupp uBasic DRV_RATE_MASK_5_5_CCK NET_RATE_5_5M_BASIC NET_RATE_5_5M s;
         s = rate_StrAppend uSupp uBasic DRV_RATE_MASK_11_CCK NET_RATE_11M_BASIC NET_RATE_11M s;
         s = rate_StrAppend uSupp uBasic DRV_RATE_MASK_22_PBCC NET_RATE_22M_BASIC NET_RATE_22M s;
         firstOfdmRate = length s;
         s = rate_StrAppend uSupp uBasic DRV_RATE_MASK_6_OFDM NET_RATE_6M_BASIC NET_RATE_6M s;
         s = rate_StrAppend uSupp uBasic DRV_RATE_MASK_9_OFDM NET_RATE_9M_BASIC NET_RATE_9M s;
         s = rate_StrAppend uSupp uBasic DRV_RATE_MASK_12_OFDM NET_RATE_12M_BASIC NET_RATE_12M s;
         s = rate_StrAppend uSupp uBasic DRV_RATE_MASK_18_OFDM NET_RATE_18M_BASIC NET_RATE_18M s;
         s = rate_StrAppend uSupp uBasic DRV_RATE_MASK_24_OFDM NET_RATE_24M_BASIC NET_RATE_24M s;
         s = rate_StrAppend uSupp uBasic DRV_RATE_MASK_36_OFDM NET_RATE_36M_BASIC NET_RATE_36M s;
         s = rate_StrAppend uSupp uBasic DRV_RATE_MASK_48_OFDM NET_RATE_48M_BASIC NET_RATE_48M s;
         s = rate_StrAppend uSupp uBasic DRV_RATE_MASK_54_OFDM NET_RATE_54M_BASIC NET_RATE_54M s
     in (s, length s, firstOfdmRate))"

definition rate_DrvBitmapToNetStrIncluding11n ::
  "TI_UINT32 \<Rightarrow> TI_UINT32 \<Rightarrow> TI_UINT8 list \<times> nat" where
  "rate_DrvBitmapToNetStrIncluding11n uSupp uBasic =
    (let (s, i, firstOfdmRate) = rate_DrvBitmapToNetStr uSupp uBasic;
         s = rate_StrAppend uSupp uBasic DRV_RATE_MASK_MCS_0_OFDM NET_RATE_MCS0_BASIC NET_RATE_MCS0 s;
         s = rate_StrAppend uSupp uBasic DRV_RATE_MASK_MCS_1_OFDM NET_RATE_MCS1_BASIC NET_RATE_MCS1 s;
         s = rate_StrAppend uSupp uBasic DRV_RATE_MASK_MCS_2_OFDM NET_RATE_MCS2_BASIC NET_RATE_MCS2 s;
         s = rate_StrAppend uSupp uBasic DRV_RATE_MASK_MCS_3_OFDM NET_RATE_MCS3_BASIC NET_RATE_MCS3 s;
         s = rate_StrAppend uSupp uBasic DRV_RATE_MASK_MCS_4_OFDM NET_RATE_MCS4_BASIC NET_RATE_MCS4 s;
         s = rate_StrAppend uSupp uBasic DRV_RATE_MASK_MCS_5_OFDM NET_RATE_MCS5_BASIC NET_RATE_MCS5 s;
         s = rate_StrAppend uSupp uBasic DRV_RATE_MASK_MCS_6_OFDM NET_RATE_MCS6_BASIC NET_RATE_MCS6 s;
         s = rate_StrAppend uSupp uBasic DRV_RATE_MASK_MCS_7_OFDM NET_RATE_MCS7_BASIC NET_RATE_MCS7 s
     in (s, firstOfdmRate))"

text \<open>The body of the loop in \<open>rate_NetStrToDrvBitmap\<close>.\<close>

definition rate_NetOctetToBitmap :: "TI_UINT32 \<Rightarrow> TI_UINT8 \<Rightarrow> TI_UINT32" where
  "rate_NetOctetToBitmap bm c =
    (if c = NET_RATE_1M \<or> c = NET_RATE_1M_BASIC then bm OR DRV_RATE_MASK_1_BARKER
     else if c = NET_RATE_2M \<or> c = NET_RATE_2M_BASIC then bm OR DRV_RATE_MASK_2_BARKER
     else if c = NET_RATE_5_5M \<or> c = NET_RATE_5_5M_BASIC then bm OR DRV_RATE_MASK_5_5_CCK
     else if c = NET_RATE_11M \<or> c = NET_RATE_11M_BASIC then bm OR DRV_RATE_MASK_11_CCK
     else if c = NET_RATE_22M \<or> c = NET_RATE_22M_BASIC then bm OR DRV_RATE_MASK_22_PBCC
     else if c = NET_RATE_6M \<or> c = NET_RATE_6M_BASIC then bm OR DRV_RATE_MASK_6_OFDM
     else if c = NET_RATE_9M \<or> c = NET_RATE_9M_BASIC then bm OR DRV_RATE_MASK_9_OFDM
     else if c = NET_RATE_12M \<or> c = NET_RATE_12M_BASIC then bm OR DRV_RATE_MASK_12_OFDM
     else if c = NET_RATE_18M \<or> c = NET_RATE_18M_BASIC then bm OR DRV_RATE_MASK_18_OFDM
     else if c = NET_RATE_24M \<or> c = NET_RATE_24M_BASIC then bm OR DRV_RATE_MASK_24_OFDM
     else if c = NET_RATE_36M \<or> c = NET_RATE_36M_BASIC then bm OR DRV_RATE_MASK_36_OFDM
     else if c = NET_RATE_48M \<or> c = NET_RATE_48M_BASIC then bm OR DRV_RATE_MASK_48_OFDM
     else if c = NET_RATE_54M \<or> c = NET_RATE_54M_BASIC then bm OR DRV_RATE_MASK_54_OFDM
     else if c = NET_RATE_MCS0 \<or> c = NET_RATE_MCS0_BASIC then bm OR DRV_RATE_MASK_MCS_0_OFDM
     else if c = NET_RATE_MCS1 \<or> c = NET_RATE_MCS1_BASIC then bm OR DRV_RATE_MASK_MCS_1_OFDM
     else if c = NET_RATE_MCS2 \<or> c = NET_RATE_MCS2_BASIC then bm OR DRV_RATE_MASK_MCS_2_OFDM
     else if c = NET_RATE_MCS3 \<or> c = NET_RATE_MCS3_BASIC then bm OR DRV_RATE_MASK_MCS_3_OFDM
     else if c = NET_RATE_MCS4 \<or> c = NET_RATE_MCS4_BASIC then bm OR DRV_RATE_MASK_MCS_4_OFDM
     else if c = NET_RATE_MCS5 \<or> c = NET_RATE_MCS5_BASIC then bm OR DRV_RATE_MASK_MCS_5_OFDM
     else if c = NET_RATE_MCS6 \<or> c = NET_RATE_MCS6_BASIC then bm OR DRV_RATE_MASK_MCS_6_OFDM
     else if c = NET_RATE_MCS7 \<or> c = NET_RATE_MCS7_BASIC then bm OR DRV_RATE_MASK_MCS_7_OFDM
     else bm)"

definition rate_NetStrToDrvBitmap :: "TI_UINT8 list \<Rightarrow> TI_UINT32" where
  "rate_NetStrToDrvBitmap string = foldl rate_NetOctetToBitmap 0 string"

definition rate_NetBasicOctetToBitmap :: "TI_UINT32 \<Rightarrow> TI_UINT8 \<Rightarrow> TI_UINT32" where
  "rate_NetBasicOctetToBitmap bm c =
    (if c = NET_RATE_1M_BASIC then bm OR DRV_RATE_MASK_1_BARKER
     else if c = NET_RATE_2M_BASIC then bm OR DRV_RATE_MASK_2_BARKER
     else if c = NET_RATE_5_5M_BASIC then bm OR DRV_RATE_MASK_5_5_CCK
     else if c = NET_RATE_11M_BASIC then bm OR DRV_RATE_MASK_11_CCK
     else if c = NET_RATE_22M_BASIC then bm OR DRV_RATE_MASK_22_PBCC
     else if c = NET_RATE_6M_BASIC then bm OR DRV_RATE_MASK_6_OFDM
     else if c = NET_RATE_9M_BASIC then bm OR DRV_RATE_MASK_9_OFDM
     else if c = NET_RATE_12M_BASIC then bm OR DRV_RATE_MASK_12_OFDM
     else if c = NET_RATE_18M_BASIC then bm OR DRV_RATE_MASK_18_OFDM
     else if c = NET_RATE_24M_BASIC then bm OR DRV_RATE_MASK_24_OFDM
     else if c = NET_RATE_36M_BASIC then bm OR DRV_RATE_MASK_36_OFDM
     else if c = NET_RATE_48M_BASIC then bm OR DRV_RATE_MASK_48_OFDM
     else if c = NET_RATE_54M_BASIC then bm OR DRV_RATE_MASK_54_OFDM
     else if c = NET_RATE_MCS0_BASIC then bm OR DRV_RATE_MASK_MCS_0_OFDM
     else if c = NET_RATE_MCS1_BASIC then bm OR DRV_RATE_MASK_MCS_1_OFDM
     else if c = NET_RATE_MCS2_BASIC then bm OR DRV_RATE_MASK_MCS_2_OFDM
     else if c = NET_RATE_MCS3_BASIC then bm OR DRV_RATE_MASK_MCS_3_OFDM
     else if c = NET_RATE_MCS4_BASIC then bm OR DRV_RATE_MASK_MCS_4_OFDM
     else if c = NET_RATE_MCS5_BASIC then bm OR DRV_RATE_MASK_MCS_5_OFDM
     else if c = NET_RATE_MCS6_BASIC then bm OR DRV_RATE_MASK_MCS_6_OFDM
     else if c = NET_RATE_MCS7_BASIC then bm OR DRV_RATE_MASK_MCS_7_OFDM
     else bm)"

definition rate_NetBasicStrToDrvBitmap :: "TI_UINT8 list \<Rightarrow> TI_UINT32" where
  "rate_NetBasicStrToDrvBitmap string = foldl rate_NetBasicOctetToBitmap 0 string"

text \<open>Only the first octet of the MCS set of the HT capabilities element is read.\<close>

definition rate_McsNetStrToDrvBitmap :: "TI_UINT8 \<Rightarrow> TI_UINT32" where
  "rate_McsNetStrToDrvBitmap string0 = push_bit (ERate_val DRV_RATE_MCS_0 - 1) (ucast string0)"

text \<open>Firmware rate bits, \<^verbatim>\<open>public_types.h\<close>: not in the order of the driver's bitmap.\<close>

abbreviation (input) HW_BIT_RATE_1MBPS :: TI_UINT32 where "HW_BIT_RATE_1MBPS \<equiv> push_bit 0 1"
abbreviation (input) HW_BIT_RATE_2MBPS :: TI_UINT32 where "HW_BIT_RATE_2MBPS \<equiv> push_bit 1 1"
abbreviation (input) HW_BIT_RATE_5_5MBPS :: TI_UINT32 where "HW_BIT_RATE_5_5MBPS \<equiv> push_bit 2 1"
abbreviation (input) HW_BIT_RATE_11MBPS :: TI_UINT32 where "HW_BIT_RATE_11MBPS \<equiv> push_bit 5 1"
abbreviation (input) HW_BIT_RATE_22MBPS :: TI_UINT32 where "HW_BIT_RATE_22MBPS \<equiv> push_bit 8 1"
abbreviation (input) HW_BIT_RATE_6MBPS :: TI_UINT32 where "HW_BIT_RATE_6MBPS \<equiv> push_bit 3 1"
abbreviation (input) HW_BIT_RATE_9MBPS :: TI_UINT32 where "HW_BIT_RATE_9MBPS \<equiv> push_bit 4 1"
abbreviation (input) HW_BIT_RATE_12MBPS :: TI_UINT32 where "HW_BIT_RATE_12MBPS \<equiv> push_bit 6 1"
abbreviation (input) HW_BIT_RATE_18MBPS :: TI_UINT32 where "HW_BIT_RATE_18MBPS \<equiv> push_bit 7 1"
abbreviation (input) HW_BIT_RATE_24MBPS :: TI_UINT32 where "HW_BIT_RATE_24MBPS \<equiv> push_bit 9 1"
abbreviation (input) HW_BIT_RATE_36MBPS :: TI_UINT32 where "HW_BIT_RATE_36MBPS \<equiv> push_bit 10 1"
abbreviation (input) HW_BIT_RATE_48MBPS :: TI_UINT32 where "HW_BIT_RATE_48MBPS \<equiv> push_bit 11 1"
abbreviation (input) HW_BIT_RATE_54MBPS :: TI_UINT32 where "HW_BIT_RATE_54MBPS \<equiv> push_bit 12 1"
abbreviation (input) HW_BIT_RATE_MCS_0 :: TI_UINT32 where "HW_BIT_RATE_MCS_0 \<equiv> push_bit 13 1"
abbreviation (input) HW_BIT_RATE_MCS_1 :: TI_UINT32 where "HW_BIT_RATE_MCS_1 \<equiv> push_bit 14 1"
abbreviation (input) HW_BIT_RATE_MCS_2 :: TI_UINT32 where "HW_BIT_RATE_MCS_2 \<equiv> push_bit 15 1"
abbreviation (input) HW_BIT_RATE_MCS_3 :: TI_UINT32 where "HW_BIT_RATE_MCS_3 \<equiv> push_bit 16 1"
abbreviation (input) HW_BIT_RATE_MCS_4 :: TI_UINT32 where "HW_BIT_RATE_MCS_4 \<equiv> push_bit 17 1"
abbreviation (input) HW_BIT_RATE_MCS_5 :: TI_UINT32 where "HW_BIT_RATE_MCS_5 \<equiv> push_bit 18 1"
abbreviation (input) HW_BIT_RATE_MCS_6 :: TI_UINT32 where "HW_BIT_RATE_MCS_6 \<equiv> push_bit 19 1"
abbreviation (input) HW_BIT_RATE_MCS_7 :: TI_UINT32 where "HW_BIT_RATE_MCS_7 \<equiv> push_bit 20 1"

definition rate_DrvBitmapToHwBitmap :: "TI_UINT32 \<Rightarrow> TI_UINT32" where
  "rate_DrvBitmapToHwBitmap uDrvBitMap =
    (let hw = 0;
         hw = (if uDrvBitMap AND DRV_RATE_MASK_1_BARKER \<noteq> 0 then hw OR HW_BIT_RATE_1MBPS else hw);
         hw = (if uDrvBitMap AND DRV_RATE_MASK_2_BARKER \<noteq> 0 then hw OR HW_BIT_RATE_2MBPS else hw);
         hw = (if uDrvBitMap AND DRV_RATE_MASK_5_5_CCK \<noteq> 0 then hw OR HW_BIT_RATE_5_5MBPS else hw);
         hw = (if uDrvBitMap AND DRV_RATE_MASK_11_CCK \<noteq> 0 then hw OR HW_BIT_RATE_11MBPS else hw);
         hw = (if uDrvBitMap AND DRV_RATE_MASK_22_PBCC \<noteq> 0 then hw OR HW_BIT_RATE_22MBPS else hw);
         hw = (if uDrvBitMap AND DRV_RATE_MASK_6_OFDM \<noteq> 0 then hw OR HW_BIT_RATE_6MBPS else hw);
         hw = (if uDrvBitMap AND DRV_RATE_MASK_9_OFDM \<noteq> 0 then hw OR HW_BIT_RATE_9MBPS else hw);
         hw = (if uDrvBitMap AND DRV_RATE_MASK_12_OFDM \<noteq> 0 then hw OR HW_BIT_RATE_12MBPS else hw);
         hw = (if uDrvBitMap AND DRV_RATE_MASK_18_OFDM \<noteq> 0 then hw OR HW_BIT_RATE_18MBPS else hw);
         hw = (if uDrvBitMap AND DRV_RATE_MASK_24_OFDM \<noteq> 0 then hw OR HW_BIT_RATE_24MBPS else hw);
         hw = (if uDrvBitMap AND DRV_RATE_MASK_36_OFDM \<noteq> 0 then hw OR HW_BIT_RATE_36MBPS else hw);
         hw = (if uDrvBitMap AND DRV_RATE_MASK_48_OFDM \<noteq> 0 then hw OR HW_BIT_RATE_48MBPS else hw);
         hw = (if uDrvBitMap AND DRV_RATE_MASK_54_OFDM \<noteq> 0 then hw OR HW_BIT_RATE_54MBPS else hw);
         hw = (if uDrvBitMap AND DRV_RATE_MASK_MCS_0_OFDM \<noteq> 0 then hw OR HW_BIT_RATE_MCS_0 else hw);
         hw = (if uDrvBitMap AND DRV_RATE_MASK_MCS_1_OFDM \<noteq> 0 then hw OR HW_BIT_RATE_MCS_1 else hw);
         hw = (if uDrvBitMap AND DRV_RATE_MASK_MCS_2_OFDM \<noteq> 0 then hw OR HW_BIT_RATE_MCS_2 else hw);
         hw = (if uDrvBitMap AND DRV_RATE_MASK_MCS_3_OFDM \<noteq> 0 then hw OR HW_BIT_RATE_MCS_3 else hw);
         hw = (if uDrvBitMap AND DRV_RATE_MASK_MCS_4_OFDM \<noteq> 0 then hw OR HW_BIT_RATE_MCS_4 else hw);
         hw = (if uDrvBitMap AND DRV_RATE_MASK_MCS_5_OFDM \<noteq> 0 then hw OR HW_BIT_RATE_MCS_5 else hw);
         hw = (if uDrvBitMap AND DRV_RATE_MASK_MCS_6_OFDM \<noteq> 0 then hw OR HW_BIT_RATE_MCS_6 else hw);
         hw = (if uDrvBitMap AND DRV_RATE_MASK_MCS_7_OFDM \<noteq> 0 then hw OR HW_BIT_RATE_MCS_7 else hw)
     in hw)"

text \<open>The two switches of \<open>rate_BasicToDrvBitmap\<close>: for the b/g bands (\<open>bDot11a\<close> false) and for the a band.\<close>

fun rate_BasicToDrvBitmap_bg :: "EBasicRateSet \<Rightarrow> TI_UINT32" where
  "rate_BasicToDrvBitmap_bg BASIC_RATE_SET_1_2 =
     (DRV_RATE_MASK_1_BARKER OR DRV_RATE_MASK_2_BARKER)"
| "rate_BasicToDrvBitmap_bg BASIC_RATE_SET_1_2_5_5_11 =
     (DRV_RATE_MASK_1_BARKER OR DRV_RATE_MASK_2_BARKER OR DRV_RATE_MASK_5_5_CCK OR
      DRV_RATE_MASK_11_CCK)"
| "rate_BasicToDrvBitmap_bg BASIC_RATE_SET_UP_TO_12 =
     (DRV_RATE_MASK_1_BARKER OR DRV_RATE_MASK_2_BARKER OR DRV_RATE_MASK_5_5_CCK OR
      DRV_RATE_MASK_11_CCK OR DRV_RATE_MASK_6_OFDM OR DRV_RATE_MASK_9_OFDM OR
      DRV_RATE_MASK_12_OFDM)"
| "rate_BasicToDrvBitmap_bg BASIC_RATE_SET_UP_TO_18 =
     (DRV_RATE_MASK_1_BARKER OR DRV_RATE_MASK_2_BARKER OR DRV_RATE_MASK_5_5_CCK OR
      DRV_RATE_MASK_11_CCK OR DRV_RATE_MASK_6_OFDM OR DRV_RATE_MASK_9_OFDM OR
      DRV_RATE_MASK_12_OFDM OR DRV_RATE_MASK_18_OFDM)"
| "rate_BasicToDrvBitmap_bg BASIC_RATE_SET_UP_TO_24 =
     (DRV_RATE_MASK_1_BARKER OR DRV_RATE_MASK_2_BARKER OR DRV_RATE_MASK_5_5_CCK OR
      DRV_RATE_MASK_11_CCK OR DRV_RATE_MASK_6_OFDM OR DRV_RATE_MASK_9_OFDM OR
      DRV_RATE_MASK_12_OFDM OR DRV_RATE_MASK_18_OFDM OR DRV_RATE_MASK_24_OFDM)"
| "rate_BasicToDrvBitmap_bg BASIC_RATE_SET_UP_TO_36 =
     (DRV_RATE_MASK_1_BARKER OR DRV_RATE_MASK_2_BARKER OR DRV_RATE_MASK_5_5_CCK OR
      DRV_RATE_MASK_11_CCK OR DRV_RATE_MASK_6_OFDM OR DRV_RATE_MASK_9_OFDM OR
      DRV_RATE_MASK_12_OFDM OR DRV_RATE_MASK_18_OFDM OR DRV_RATE_MASK_24_OFDM OR
      DRV_RATE_MASK_36_OFDM)"
| "rate_BasicToDrvBitmap_bg BASIC_RATE_SET_UP_TO_48 =
     (DRV_RATE_MASK_1_BARKER OR DRV_RATE_MASK_2_BARKER OR DRV_RATE_MASK_5_5_CCK OR
      DRV_RATE_MASK_11_CCK OR DRV_RATE_MASK_6_OFDM OR DRV_RATE_MASK_9_OFDM OR
      DRV_RATE_MASK_12_OFDM OR DRV_RATE_MASK_18_OFDM OR DRV_RATE_MASK_24_OFDM OR
      DRV_RATE_MASK_36_OFDM OR DRV_RATE_MASK_48_OFDM)"
| "rate_BasicToDrvBitmap_bg BASIC_RATE_SET_UP_TO_54 =
     (DRV_RATE_MASK_1_BARKER OR DRV_RATE_MASK_2_BARKER OR DRV_RATE_MASK_5_5_CCK OR
      DRV_RATE_MASK_11_CCK OR DRV_RATE_MASK_6_OFDM OR DRV_RATE_MASK_9_OFDM OR
      DRV_RATE_MASK_12_OFDM OR DRV_RATE_MASK_18_OFDM OR DRV_RATE_MASK_24_OFDM OR
      DRV_RATE_MASK_36_OFDM OR DRV_RATE_MASK_48_OFDM OR DRV_RATE_MASK_54_OFDM)"
| "rate_BasicToDrvBitmap_bg BASIC_RATE_SET_6_12_24 =
     (DRV_RATE_MASK_6_OFDM OR DRV_RATE_MASK_12_OFDM OR DRV_RATE_MASK_24_OFDM)"
| "rate_BasicToDrvBitmap_bg BASIC_RATE_SET_1_2_5_5_6_11_12_24 =
     (DRV_RATE_MASK_1_BARKER OR DRV_RATE_MASK_2_BARKER OR DRV_RATE_MASK_5_5_CCK OR
      DRV_RATE_MASK_11_CCK OR DRV_RATE_MASK_6_OFDM OR DRV_RATE_MASK_12_OFDM OR
      DRV_RATE_MASK_24_OFDM)"
| "rate_BasicToDrvBitmap_bg BASIC_RATE_SET_ALL_MCS_RATES =
     (DRV_RATE_MASK_MCS_0_OFDM OR DRV_RATE_MASK_MCS_1_OFDM OR DRV_RATE_MASK_MCS_2_OFDM OR
      DRV_RATE_MASK_MCS_3_OFDM OR DRV_RATE_MASK_MCS_4_OFDM OR DRV_RATE_MASK_MCS_5_OFDM OR
      DRV_RATE_MASK_MCS_6_OFDM OR DRV_RATE_MASK_MCS_7_OFDM OR DRV_RATE_MASK_1_BARKER OR
      DRV_RATE_MASK_2_BARKER OR DRV_RATE_MASK_5_5_CCK OR DRV_RATE_MASK_11_CCK)"

fun rate_BasicToDrvBitmap_a :: "EBasicRateSet \<Rightarrow> TI_UINT32" where
  "rate_BasicToDrvBitmap_a BASIC_RATE_SET_UP_TO_12 =
     (DRV_RATE_MASK_6_OFDM OR DRV_RATE_MASK_9_OFDM OR DRV_RATE_MASK_12_OFDM)"
| "rate_BasicToDrvBitmap_a BASIC_RATE_SET_UP_TO_18 =
     (DRV_RATE_MASK_6_OFDM OR DRV_RATE_MASK_9_OFDM OR DRV_RATE_MASK_12_OFDM OR
      DRV_RATE_MASK_18_OFDM)"
| "rate_BasicToDrvBitmap_a BASIC_RATE_SET_UP_TO_24 =
     (DRV_RATE_MASK_6_OFDM OR DRV_RATE_MASK_9_OFDM OR DRV_RATE_MASK_12_OFDM OR
      DRV_RATE_MASK_18_OFDM OR DRV_RATE_MASK_24_OFDM)"
| "rate_BasicToDrvBitmap_a BASIC_RATE_SET_UP_TO_36 =
     (DRV_RATE_MASK_6_OFDM OR DRV_RATE_MASK_9_OFDM OR DRV_RATE_MASK_12_OFDM OR
      DRV_RATE_MASK_18_OFDM OR DRV_RATE_MASK_24_OFDM OR DRV_RATE_MASK_36_OFDM)"
| "rate_BasicToDrvBitmap_a BASIC_RATE_SET_UP_TO_48 =
     (DRV_RATE_MASK_6_OFDM OR DRV_RATE_MASK_9_OFDM OR DRV_RATE_MASK_12_OFDM OR
      DRV_RATE_MASK_18_OFDM OR DRV_RATE_MASK_24_OFDM OR DRV_RATE_MASK_36_OFDM OR
      DRV_RATE_MASK_48_OFDM)"
| "rate_BasicToDrvBitmap_a BASIC_RATE_SET_UP_TO_54 =
     (DRV_RATE_MASK_6_OFDM OR DRV_RATE_MASK_9_OFDM OR DRV_RATE_MASK_12_OFDM OR
      DRV_RATE_MASK_18_OFDM OR DRV_RATE_MASK_24_OFDM OR DRV_RATE_MASK_36_OFDM OR
      DRV_RATE_MASK_48_OFDM OR DRV_RATE_MASK_54_OFDM)"
| "rate_BasicToDrvBitmap_a BASIC_RATE_SET_6_12_24 =
     (DRV_RATE_MASK_6_OFDM OR DRV_RATE_MASK_12_OFDM OR DRV_RATE_MASK_24_OFDM)"
| "rate_BasicToDrvBitmap_a BASIC_RATE_SET_ALL_MCS_RATES =
     (DRV_RATE_MASK_MCS_0_OFDM OR DRV_RATE_MASK_MCS_1_OFDM OR DRV_RATE_MASK_MCS_2_OFDM OR
      DRV_RATE_MASK_MCS_3_OFDM OR DRV_RATE_MASK_MCS_4_OFDM OR DRV_RATE_MASK_MCS_5_OFDM OR
      DRV_RATE_MASK_MCS_6_OFDM OR DRV_RATE_MASK_MCS_7_OFDM OR DRV_RATE_MASK_6_OFDM OR
      DRV_RATE_MASK_12_OFDM OR DRV_RATE_MASK_24_OFDM)"
| "rate_BasicToDrvBitmap_a _ =
     (DRV_RATE_MASK_6_OFDM OR DRV_RATE_MASK_12_OFDM OR DRV_RATE_MASK_24_OFDM)"

definition rate_BasicToDrvBitmap :: "EBasicRateSet \<Rightarrow> bool \<Rightarrow> TI_UINT32" where
  "rate_BasicToDrvBitmap eBasicRateSet bDot11a =
     (if \<not> bDot11a then rate_BasicToDrvBitmap_bg eBasicRateSet else rate_BasicToDrvBitmap_a eBasicRateSet)"

text \<open>The two switches of \<open>rate_SupportedToDrvBitmap\<close>: for the b/g bands (\<open>bDot11a\<close> false) and for the a band.\<close>

fun rate_SupportedToDrvBitmap_bg :: "ESupportedRateSet \<Rightarrow> TI_UINT32" where
  "rate_SupportedToDrvBitmap_bg SUPPORTED_RATE_SET_1_2 =
     (DRV_RATE_MASK_1_BARKER OR DRV_RATE_MASK_2_BARKER)"
| "rate_SupportedToDrvBitmap_bg SUPPORTED_RATE_SET_1_2_5_5_11 =
     (DRV_RATE_MASK_1_BARKER OR DRV_RATE_MASK_2_BARKER OR DRV_RATE_MASK_5_5_CCK OR
      DRV_RATE_MASK_11_CCK)"
| "rate_SupportedToDrvBitmap_bg SUPPORTED_RATE_SET_1_2_5_5_11_22 =
     (DRV_RATE_MASK_1_BARKER OR DRV_RATE_MASK_2_BARKER OR DRV_RATE_MASK_5_5_CCK OR
      DRV_RATE_MASK_11_CCK OR DRV_RATE_MASK_22_PBCC)"
| "rate_SupportedToDrvBitmap_bg SUPPORTED_RATE_SET_UP_TO_18 =
     (DRV_RATE_MASK_1_BARKER OR DRV_RATE_MASK_2_BARKER OR DRV_RATE_MASK_5_5_CCK OR
      DRV_RATE_MASK_11_CCK OR DRV_RATE_MASK_6_OFDM OR DRV_RATE_MASK_9_OFDM OR
      DRV_RATE_MASK_12_OFDM OR DRV_RATE_MASK_18_OFDM)"
| "rate_SupportedToDrvBitmap_bg SUPPORTED_RATE_SET_UP_TO_24 =
     (DRV_RATE_MASK_1_BARKER OR DRV_RATE_MASK_2_BARKER OR DRV_RATE_MASK_5_5_CCK OR
      DRV_RATE_MASK_11_CCK OR DRV_RATE_MASK_6_OFDM OR DRV_RATE_MASK_9_OFDM OR
      DRV_RATE_MASK_12_OFDM OR DRV_RATE_MASK_18_OFDM OR DRV_RATE_MASK_24_OFDM)"
| "rate_SupportedToDrvBitmap_bg SUPPORTED_RATE_SET_UP_TO_36 =
     (DRV_RATE_MASK_1_BARKER OR DRV_RATE_MASK_2_BARKER OR DRV_RATE_MASK_5_5_CCK OR
      DRV_RATE_MASK_11_CCK OR DRV_RATE_MASK_6_OFDM OR DRV_RATE_MASK_9_OFDM OR
      DRV_RATE_MASK_12_OFDM OR DRV_RATE_MASK_18_OFDM OR DRV_RATE_MASK_24_OFDM OR
      DRV_RATE_MASK_36_OFDM)"
| "rate_SupportedToDrvBitmap_bg SUPPORTED_RATE_SET_UP_TO_48 =
     (DRV_RATE_MASK_1_BARKER OR DRV_RATE_MASK_2_BARKER OR DRV_RATE_MASK_5_5_CCK OR
      DRV_RATE_MASK_11_CCK OR DRV_RATE_MASK_6_OFDM OR DRV_RATE_MASK_9_OFDM OR
      DRV_RATE_MASK_12_OFDM OR DRV_RATE_MASK_18_OFDM OR DRV_RATE_MASK_24_OFDM OR
      DRV_RATE_MASK_36_OFDM OR DRV_RATE_MASK_48_OFDM)"
| "rate_SupportedToDrvBitmap_bg SUPPORTED_RATE_SET_UP_TO_54 =
     (DRV_RATE_MASK_1_BARKER OR DRV_RATE_MASK_2_BARKER OR DRV_RATE_MASK_5_5_CCK OR
      DRV_RATE_MASK_11_CCK OR DRV_RATE_MASK_6_OFDM OR DRV_RATE_MASK_9_OFDM OR
      DRV_RATE_MASK_12_OFDM OR DRV_RATE_MASK_18_OFDM OR DRV_RATE_MASK_24_OFDM OR
      DRV_RATE_MASK_36_OFDM OR DRV_RATE_MASK_48_OFDM OR DRV_RATE_MASK_54_OFDM)"
| "rate_SupportedToDrvBitmap_bg SUPPORTED_RATE_SET_ALL =
     (DRV_RATE_MASK_1_BARKER OR DRV_RATE_MASK_2_BARKER OR DRV_RATE_MASK_5_5_CCK OR
      DRV_RATE_MASK_11_CCK OR DRV_RATE_MASK_22_PBCC OR DRV_RATE_MASK_6_OFDM OR
      DRV_RATE_MASK_9_OFDM OR DRV_RATE_MASK_12_OFDM OR DRV_RATE_MASK_18_OFDM OR
      DRV_RATE_MASK_24_OFDM OR DRV_RATE_MASK_36_OFDM OR DRV_RATE_MASK_48_OFDM OR
      DRV_RATE_MASK_54_OFDM)"
| "rate_SupportedToDrvBitmap_bg SUPPORTED_RATE_SET_ALL_OFDM =
     (DRV_RATE_MASK_6_OFDM OR DRV_RATE_MASK_9_OFDM OR DRV_RATE_MASK_12_OFDM OR
      DRV_RATE_MASK_18_OFDM OR DRV_RATE_MASK_24_OFDM OR DRV_RATE_MASK_36_OFDM OR
      DRV_RATE_MASK_48_OFDM OR DRV_RATE_MASK_54_OFDM)"
| "rate_SupportedToDrvBitmap_bg SUPPORTED_RATE_SET_ALL_MCS_RATES =
     (DRV_RATE_MASK_MCS_0_OFDM OR DRV_RATE_MASK_MCS_1_OFDM OR DRV_RATE_MASK_MCS_2_OFDM OR
      DRV_RATE_MASK_MCS_3_OFDM OR DRV_RATE_MASK_MCS_4_OFDM OR DRV_RATE_MASK_MCS_5_OFDM OR
      DRV_RATE_MASK_MCS_6_OFDM OR DRV_RATE_MASK_MCS_7_OFDM OR DRV_RATE_MASK_1_BARKER OR
      DRV_RATE_MASK_2_BARKER OR DRV_RATE_MASK_5_5_CCK OR DRV_RATE_MASK_11_CCK OR
      DRV_RATE_MASK_22_PBCC OR DRV_RATE_MASK_6_OFDM OR DRV_RATE_MASK_9_OFDM OR
      DRV_RATE_MASK_12_OFDM OR DRV_RATE_MASK_18_OFDM OR DRV_RATE_MASK_24_OFDM OR
      DRV_RATE_MASK_36_OFDM OR DRV_RATE_MASK_48_OFDM OR DRV_RATE_MASK_54_OFDM)"

fun rate_SupportedToDrvBitmap_a :: "ESupportedRateSet \<Rightarrow> TI_UINT32" where
  "rate_SupportedToDrvBitmap_a SUPPORTED_RATE_SET_UP_TO_18 =
     (DRV_RATE_MASK_6_OFDM OR DRV_RATE_MASK_9_OFDM OR DRV_RATE_MASK_12_OFDM OR
      DRV_RATE_MASK_18_OFDM)"
| "rate_SupportedToDrvBitmap_a SUPPORTED_RATE_SET_UP_TO_24 =
     (DRV_RATE_MASK_6_OFDM OR DRV_RATE_MASK_9_OFDM OR DRV_RATE_MASK_12_OFDM OR
      DRV_RATE_MASK_18_OFDM OR DRV_RATE_MASK_24_OFDM)"
| "rate_SupportedToDrvBitmap_a SUPPORTED_RATE_SET_UP_TO_36 =
     (DRV_RATE_MASK_6_OFDM OR DRV_RATE_MASK_9_OFDM OR DRV_RATE_MASK_12_OFDM OR
      DRV_RATE_MASK_18_OFDM OR DRV_RATE_MASK_24_OFDM OR DRV_RATE_MASK_36_OFDM)"
| "rate_SupportedToDrvBitmap_a SUPPORTED_RATE_SET_UP_TO_48 =
     (DRV_RATE_MASK_6_OFDM OR DRV_RATE_MASK_9_OFDM OR DRV_RATE_MASK_12_OFDM OR
      DRV_RATE_MASK_18_OFDM OR DRV_RATE_MASK_24_OFDM OR DRV_RATE_MASK_36_OFDM OR
      DRV_RATE_MASK_48_OFDM)"
| "rate_SupportedToDrvBitmap_a SUPPORTED_RATE_SET_UP_TO_54 =
     (DRV_RATE_MASK_6_OFDM OR DRV_RATE_MASK_9_OFDM OR DRV_RATE_MASK_12_OFDM OR
      DRV_RATE_MASK_18_OFDM OR DRV_RATE_MASK_24_OFDM OR DRV_RATE_MASK_36_OFDM OR
      DRV_RATE_MASK_48_OFDM OR DRV_RATE_MASK_54_OFDM)"
| "rate_SupportedToDrvBitmap_a SUPPORTED_RATE_SET_ALL =
     (DRV_RATE_MASK_6_OFDM OR DRV_RATE_MASK_9_OFDM OR DRV_RATE_MASK_12_OFDM OR
      DRV_RATE_MASK_18_OFDM OR DRV_RATE_MASK_24_OFDM OR DRV_RATE_MASK_36_OFDM OR
      DRV_RATE_MASK_48_OFDM OR DRV_RATE_MASK_54_OFDM)"
| "rate_SupportedToDrvBitmap_a SUPPORTED_RATE_SET_ALL_OFDM =
     (DRV_RATE_MASK_6_OFDM OR DRV_RATE_MASK_9_OFDM OR DRV_RATE_MASK_12_OFDM OR
      DRV_RATE_MASK_18_OFDM OR DRV_RATE_MASK_24_OFDM OR DRV_RATE_MASK_36_OFDM OR
      DRV_RATE_MASK_48_OFDM OR DRV_RATE_MASK_54_OFDM)"
| "rate_SupportedToDrvBitmap_a SUPPORTED_RATE_SET_ALL_MCS_RATES =
     (DRV_RATE_MASK_MCS_0_OFDM OR DRV_RATE_MASK_MCS_1_OFDM OR DRV_RATE_MASK_MCS_2_OFDM OR
      DRV_RATE_MASK_MCS_3_OFDM OR DRV_RATE_MASK_MCS_4_OFDM OR DRV_RATE_MASK_MCS_5_OFDM OR
      DRV_RATE_MASK_MCS_6_OFDM OR DRV_RATE_MASK_MCS_7_OFDM OR DRV_RATE_MASK_6_OFDM OR
      DRV_RATE_MASK_9_OFDM OR DRV_RATE_MASK_12_OFDM OR DRV_RATE_MASK_18_OFDM OR
      DRV_RATE_MASK_24_OFDM OR DRV_RATE_MASK_36_OFDM OR DRV_RATE_MASK_48_OFDM OR
      DRV_RATE_MASK_54_OFDM)"
| "rate_SupportedToDrvBitmap_a _ =
     (DRV_RATE_MASK_6_OFDM OR DRV_RATE_MASK_9_OFDM OR DRV_RATE_MASK_12_OFDM OR
      DRV_RATE_MASK_18_OFDM OR DRV_RATE_MASK_24_OFDM OR DRV_RATE_MASK_36_OFDM OR
      DRV_RATE_MASK_48_OFDM OR DRV_RATE_MASK_54_OFDM)"

definition rate_SupportedToDrvBitmap :: "ESupportedRateSet \<Rightarrow> bool \<Rightarrow> TI_UINT32" where
  "rate_SupportedToDrvBitmap eSupportedRateSet bDot11a =
     (if \<not> bDot11a then rate_SupportedToDrvBitmap_bg eSupportedRateSet else rate_SupportedToDrvBitmap_a eSupportedRateSet)"

text \<open>The two masks are in-out parameters; the result is \<open>(supported, basic)\<close>.\<close>

definition rate_ValidateVsBand :: "TI_UINT32 \<Rightarrow> TI_UINT32 \<Rightarrow> bool \<Rightarrow> TI_UINT32 \<times> TI_UINT32" where
  "rate_ValidateVsBand supportedMask basicMask bDot11a =
    (let supp = (if bDot11a
                 then supportedMask AND NOT (DRV_RATE_MASK_1_BARKER OR DRV_RATE_MASK_2_BARKER OR
                   DRV_RATE_MASK_5_5_CCK OR DRV_RATE_MASK_11_CCK OR DRV_RATE_MASK_22_PBCC)
                 else supportedMask);
         basic = basicMask AND supp;
         basic = (if basic = 0
                  then (if bDot11a
                        then DRV_RATE_MASK_6_OFDM OR DRV_RATE_MASK_12_OFDM OR DRV_RATE_MASK_24_OFDM
                        else DRV_RATE_MASK_1_BARKER OR DRV_RATE_MASK_2_BARKER)
                  else basic)
     in (supp, basic))"

definition rate_GetDrvBitmapForDefaultBasicSet :: TI_UINT32 where
  "rate_GetDrvBitmapForDefaultBasicSet = rate_BasicToDrvBitmap BASIC_RATE_SET_1_2_5_5_11 False"

definition rate_GetDrvBitmapForDefaultSupporteSet :: TI_UINT32 where
  "rate_GetDrvBitmapForDefaultSupporteSet =
     rate_SupportedToDrvBitmap SUPPORTED_RATE_SET_1_2_5_5_11 False"
section \<open>Library lemmas\<close>

lemma rate_mask_neq_0 [simp]: "(x AND RATE_TO_MASK R \<noteq> 0) = bit x (ERate_val R - 1)"
  unfolding RATE_TO_MASK_def by (rule and_push_bit_1_neq_0)

lemma rate_mask_eq_0 [simp]: "(x AND RATE_TO_MASK R = 0) = (\<not> bit x (ERate_val R - 1))"
  using rate_mask_neq_0 [of x R] by blast

lemma rate_mask_absorb:
  "bit x (ERate_val R - Suc 0) \<Longrightarrow> x AND RATE_TO_MASK R = RATE_TO_MASK R"
  by (rule bit_word_eqI) (auto simp: RATE_TO_MASK_def bit_simps)

lemma rate_mask_none: "\<not> bit x (ERate_val R - Suc 0) \<Longrightarrow> x AND RATE_TO_MASK R = 0"
  by simp

text \<open>The 21 rates that have a bit, an octet and a firmware bit.\<close>

definition real_rate :: "ERate \<Rightarrow> bool" where
  "real_rate r \<longleftrightarrow> r \<noteq> DRV_RATE_AUTO \<and> r \<noteq> DRV_RATE_INVALID"

lemma rate_NetOctetToBitmap_or: "rate_NetOctetToBitmap bm c = bm OR rate_NetOctetToBitmap 0 c"
  by (simp add: rate_NetOctetToBitmap_def)

lemma rate_NetStr_snoc:
  "rate_NetStrToDrvBitmap (s @ [c]) = rate_NetOctetToBitmap (rate_NetStrToDrvBitmap s) c"
  "rate_NetBasicStrToDrvBitmap (s @ [c]) = rate_NetBasicOctetToBitmap (rate_NetBasicStrToDrvBitmap s) c"
  by (simp_all add: rate_NetStrToDrvBitmap_def rate_NetBasicStrToDrvBitmap_def)

lemma rate_NetStr_StrAppend:
  assumes "\<And>bm. rate_NetOctetToBitmap bm octet = bm OR RATE_TO_MASK R"
    and "\<And>bm. rate_NetOctetToBitmap bm basicOctet = bm OR RATE_TO_MASK R"
  shows "rate_NetStrToDrvBitmap (rate_StrAppend supp basic (RATE_TO_MASK R) basicOctet octet s) =
    rate_NetStrToDrvBitmap s OR (supp AND RATE_TO_MASK R)"
  by (auto simp: rate_StrAppend_def rate_NetStr_snoc assms rate_mask_absorb rate_mask_none)

lemma rate_NetBasicStr_StrAppend:
  assumes "\<And>bm. rate_NetBasicOctetToBitmap bm octet = bm"
    and "\<And>bm. rate_NetBasicOctetToBitmap bm basicOctet = bm OR RATE_TO_MASK R"
  shows "rate_NetBasicStrToDrvBitmap (rate_StrAppend supp basic (RATE_TO_MASK R) basicOctet octet s) =
    rate_NetBasicStrToDrvBitmap s OR ((supp AND basic) AND RATE_TO_MASK R)"
proof (cases "bit (supp AND basic) (ERate_val R - Suc 0)")
  case True
  note absorb = rate_mask_absorb [OF True]
  from True show ?thesis
    by (simp add: rate_StrAppend_def rate_NetStr_snoc assms bit_simps absorb)
next
  case False
  note none = rate_mask_none [OF False]
  from False show ?thesis
    by (auto simp: rate_StrAppend_def rate_NetStr_snoc assms bit_simps none)
qed

lemmas rate_unfold_masks = RATE_TO_MASK_def push_bit_eq_mult

lemma rate_NetStr_full:
  "rate_NetStrToDrvBitmap (fst (rate_DrvBitmapToNetStrIncluding11n supp basic)) = supp AND 0x1FFFFF"
  by (simp add: rate_DrvBitmapToNetStrIncluding11n_def rate_DrvBitmapToNetStr_def Let_def
        rate_NetStr_StrAppend rate_NetOctetToBitmap_def)
     (simp add: rate_NetStrToDrvBitmap_def RATE_TO_MASK_def flip: bit.conj_disj_distrib)

lemma rate_NetBasicStr_full:
  "rate_NetBasicStrToDrvBitmap (fst (rate_DrvBitmapToNetStrIncluding11n supp basic)) =
   (supp AND basic) AND 0x1FFFFF"
  by (simp add: rate_DrvBitmapToNetStrIncluding11n_def rate_DrvBitmapToNetStr_def Let_def
        rate_NetBasicStr_StrAppend rate_NetBasicOctetToBitmap_def)
     (simp add: rate_NetBasicStrToDrvBitmap_def RATE_TO_MASK_def flip: bit.conj_disj_distrib)

text \<open>The order in which \<open>rate_GetMaxFromDrvBitmap\<close> tests the bits.\<close>

definition rate_max_order :: "ERate list" where
  "rate_max_order =
    [DRV_RATE_MCS_7, DRV_RATE_MCS_6, DRV_RATE_MCS_5, DRV_RATE_MCS_4, DRV_RATE_MCS_3,
     DRV_RATE_MCS_2, DRV_RATE_MCS_1, DRV_RATE_MCS_0, DRV_RATE_54M, DRV_RATE_48M, DRV_RATE_36M,
     DRV_RATE_24M, DRV_RATE_22M, DRV_RATE_18M, DRV_RATE_12M, DRV_RATE_11M, DRV_RATE_9M,
     DRV_RATE_6M, DRV_RATE_5_5M, DRV_RATE_2M, DRV_RATE_1M]"

definition in_drv_bitmap :: "TI_UINT32 \<Rightarrow> ERate \<Rightarrow> bool" where
  "in_drv_bitmap bm r \<longleftrightarrow> real_rate r \<and> bit bm (ERate_val r - 1)"

definition is_11n_rate :: "ERate \<Rightarrow> bool" where
  "is_11n_rate r \<longleftrightarrow> DRV_RATE_54M \<noteq> r \<and> real_rate r \<and> ERate_val r > ERate_val DRV_RATE_54M"

text \<open>\<open>r\<close> is at most as fast as \<open>r'\<close>: 11n rates above the others, then by Mbps.\<close>

definition rate_le :: "ERate \<Rightarrow> ERate \<Rightarrow> bool" where
  "rate_le r r' \<longleftrightarrow> (is_11n_rate r = is_11n_rate r' \<and> rate_DrvToNumber r \<le> rate_DrvToNumber r')
     \<or> (\<not> is_11n_rate r \<and> is_11n_rate r')"

lemma real_rate_in_order: "real_rate r \<Longrightarrow> r \<in> set rate_max_order"
  by (cases r) (simp_all add: real_rate_def rate_max_order_def)

lemma rate_max_order_sorted: "sorted_wrt (\<lambda>r r'. rate_le r' r) rate_max_order"
  by (simp add: rate_max_order_def rate_le_def is_11n_rate_def real_rate_def)

lemma rate_GetMax_find:
  "rate_GetMaxFromDrvBitmap bm =
     (case find (in_drv_bitmap bm) rate_max_order of None \<Rightarrow> DRV_RATE_INVALID | Some r \<Rightarrow> r)"
  by (simp add: rate_GetMaxFromDrvBitmap_def rate_max_order_def in_drv_bitmap_def real_rate_def)

lemma find_sorted_wrt_max:
  assumes "sorted_wrt (\<lambda>x y. R y x) xs" "find P xs = Some x" "y \<in> set xs" "P y" "R x x"
  shows "R y x"
  using assms by (induction xs) (auto split: if_splits)

text \<open>The firmware bit of each rate.\<close>

fun HwBit_val :: "ERate \<Rightarrow> nat" where
  "HwBit_val DRV_RATE_11M = 5"
| "HwBit_val DRV_RATE_22M = 8"
| "HwBit_val DRV_RATE_6M = 3"
| "HwBit_val DRV_RATE_9M = 4"
| "HwBit_val DRV_RATE_12M = 6"
| "HwBit_val DRV_RATE_18M = 7"
| "HwBit_val r = ERate_val r - 1"

lemma bit_if_OR_push_1:
  "bit (if c then hw OR push_bit n 1 else hw :: TI_UINT32) k = (bit hw k \<or> (c \<and> k = n \<and> n < 32))"
  by (auto simp: bit_simps)

lemma rate_HwBitmap_bit:
  assumes "real_rate r"
  shows "bit (rate_DrvBitmapToHwBitmap bm) (HwBit_val r) = bit bm (ERate_val r - 1)"
  using assms
  unfolding rate_DrvBitmapToHwBitmap_def Let_def bit_if_OR_push_1 rate_mask_neq_0
  by (cases r) (simp_all add: real_rate_def)

lemma real_rate_val: "real_rate r \<Longrightarrow> ERate_val r - 1 < 21"
  by (cases r) (simp_all add: real_rate_def)

lemma bit_and_rate_bits:
  "bit (bm AND 0x1FFFFF :: TI_UINT32) k = (k < 21 \<and> bit bm k)"
proof -
  have "bm AND 0x1FFFFF = bm AND Bit_Operations.mask 21" by (simp add: mask_eq_exp_minus_1)
  then show ?thesis by (simp only: bit_and_iff bit_mask_iff) auto
qed

lemma rate_HwBitmap_cong:
  "rate_DrvBitmapToHwBitmap (bm AND 0x1FFFFF) = rate_DrvBitmapToHwBitmap bm"
proof -
  have "bit (bm AND 0x1FFFFF) (ERate_val r - 1) = bit bm (ERate_val r - 1)" if "real_rate r" for r
    using real_rate_val [OF that] by (simp add: bit_and_rate_bits)
  then show ?thesis
    by (simp only: rate_DrvBitmapToHwBitmap_def rate_mask_neq_0 real_rate_def ERate.distinct
        not_False_eq_True simp_thms)
qed

lemma rate_max_order_bits:
  "map (\<lambda>r. ERate_val r - 1) rate_max_order =
     [20,19,18,17,16,15,14,13,12,11,10,9,4,8,7,3,6,5,2,1,0]"
  by (simp add: rate_max_order_def)

lemma rate_bit_index:
  "k < 21 \<Longrightarrow> k \<in> set [20,19,18,17,16,15,14,13,12,11,10,9,4,8,7,3,6,5,2,1,0::nat]"
  by (auto simp: less_Suc_eq numeral_eq_Suc)

lemma rate_max_order_real: "r \<in> set rate_max_order \<Longrightarrow> real_rate r"
  by (auto simp: rate_max_order_def real_rate_def)

lemma ex_rate_of_bit:
  assumes "k < 21"
  shows "\<exists>r. real_rate r \<and> ERate_val r - 1 = k"
proof -
  from assms have "k \<in> (\<lambda>r. ERate_val r - 1) ` set rate_max_order"
    by (metis rate_bit_index rate_max_order_bits list.set_map)
  then show ?thesis by (auto dest: rate_max_order_real)
qed

lemma rate_bits_eqI:
  assumes "\<And>r. real_rate r \<Longrightarrow> bit a (ERate_val r - 1) = bit b (ERate_val r - 1)"
  shows "a AND 0x1FFFFF = b AND (0x1FFFFF :: TI_UINT32)"
  by (rule bit_word_eqI) (metis assms bit_and_rate_bits ex_rate_of_bit)

lemma rate_bits_zeroD:
  "bm AND 0x1FFFFF = (0 :: TI_UINT32) \<longleftrightarrow> (\<forall>r. \<not> in_drv_bitmap bm r)"
  using rate_bits_eqI [of bm 0]
  by (metis bit_0_eq bit_and_rate_bits bot_apply bot_bool_def in_drv_bitmap_def real_rate_val
      and_zero_eq zero_and_eq)

section \<open>Properties\<close>

text \<open>
  Round trip of the rate sets through their 802.11 octet string: parsing the string that
  \<open>rate_DrvBitmapToNetStrIncluding11n\<close> writes for a supported and a basic bitmap gives back the
  supported bitmap restricted to the 21 bits that name rates, and its basic parser gives back
  exactly the basic rates that are supported.
\<close>

theorem rate_net_str_roundtrip:
  "rate_NetStrToDrvBitmap (fst (rate_DrvBitmapToNetStrIncluding11n supp basic)) = supp AND 0x1FFFFF \<and>
   rate_NetBasicStrToDrvBitmap (fst (rate_DrvBitmapToNetStrIncluding11n supp basic)) =
     (supp AND basic) AND 0x1FFFFF"
  by (simp only: rate_NetStr_full rate_NetBasicStr_full simp_thms)

text \<open>
  \<open>rate_GetMaxFromDrvBitmap\<close> is a maximum: it returns \<open>DRV_RATE_INVALID\<close> exactly when no rate bit
  is set, and otherwise a rate of the bitmap that no rate of the bitmap exceeds, where 11n rates
  are above all others and rates of one kind are compared by their Mbps.
\<close>

theorem rate_GetMax_is_maximum:
  "(if bm AND 0x1FFFFF = 0 then rate_GetMaxFromDrvBitmap bm = DRV_RATE_INVALID
    else in_drv_bitmap bm (rate_GetMaxFromDrvBitmap bm) \<and>
         (\<forall>r. in_drv_bitmap bm r \<longrightarrow> rate_le r (rate_GetMaxFromDrvBitmap bm)))"
proof (cases "find (in_drv_bitmap bm) rate_max_order")
  case None
  then have "\<not> in_drv_bitmap bm r" for r
    using real_rate_in_order [of r] by (auto simp: find_None_iff in_drv_bitmap_def)
  then show ?thesis by (simp add: rate_GetMax_find None rate_bits_zeroD)
next
  case (Some x)
  then have x: "in_drv_bitmap bm x" by (auto simp: find_Some_iff)
  have "rate_le r x" if "in_drv_bitmap bm r" for r
    using find_sorted_wrt_max [OF rate_max_order_sorted Some _ that]
      real_rate_in_order [of r] that by (simp add: in_drv_bitmap_def rate_le_def)
  with Some x show ?thesis by (auto simp: rate_GetMax_find rate_bits_zeroD)
qed

theorem rate_GetMax_is_maximum_witness:
  "rate_le DRV_RATE_11M (rate_GetMaxFromDrvBitmap (RATE_TO_MASK DRV_RATE_11M OR RATE_TO_MASK DRV_RATE_54M))"
  using rate_GetMax_is_maximum [of "RATE_TO_MASK DRV_RATE_11M OR RATE_TO_MASK DRV_RATE_54M"]
  by (simp add: RATE_TO_MASK_def in_drv_bitmap_def real_rate_def bit_simps split: if_splits)

text \<open>
  The translation to the firmware's bitmap loses nothing and invents nothing: two driver
  bitmaps have the same firmware bitmap exactly when they agree on the 21 bits that name rates.
\<close>

theorem rate_HwBitmap_injective:
  "rate_DrvBitmapToHwBitmap a = rate_DrvBitmapToHwBitmap b \<longleftrightarrow> a AND 0x1FFFFF = b AND 0x1FFFFF"
proof
  assume "rate_DrvBitmapToHwBitmap a = rate_DrvBitmapToHwBitmap b"
  then show "a AND 0x1FFFFF = b AND 0x1FFFFF"
    by (intro rate_bits_eqI) (simp only: flip: rate_HwBitmap_bit)
next
  assume "a AND 0x1FFFFF = b AND 0x1FFFFF"
  then show "rate_DrvBitmapToHwBitmap a = rate_DrvBitmapToHwBitmap b"
    using rate_HwBitmap_cong [of a] rate_HwBitmap_cong [of b] by simp
qed

text \<open>
  Octets of single rates: the octet of a rate and the same octet with the basic-rate flag read
  back as that rate, and every octet that reads as a rate is that rate's octet once the flag is
  cleared.
\<close>

theorem rate_net_octet_roundtrip:
  assumes "real_rate r"
  shows "rate_NetToDrv octet = r \<longleftrightarrow> octet = rate_DrvToNet r \<or> octet = rate_DrvToNet r OR NET_BASIC_MASK"
  using assms by (cases r) (simp_all add: real_rate_def rate_NetToDrv_def)

theorem rate_net_octet_roundtrip_witness: "rate_NetToDrv 0xEC = DRV_RATE_54M"
  using rate_net_octet_roundtrip [of DRV_RATE_54M "0xEC"] by (simp add: real_rate_def)

text \<open>
  C40. \<open>rate_NumberToDrv\<close> inverts \<open>rate_DrvToNumber\<close> on every rate but \<open>DRV_RATE_MCS_0\<close>: MCS 0 is sent
  as the number 6, which reads back as the 6 Mbps OFDM rate.
\<close>

theorem rate_number_roundtrip_but_MCS_0:
  assumes "real_rate r"
  shows "rate_NumberToDrv (rate_DrvToNumber r) = (if r = DRV_RATE_MCS_0 then DRV_RATE_6M else r)"
  using assms by (cases r) (simp_all add: real_rate_def rate_NumberToDrv_def)

theorem rate_number_roundtrip_but_MCS_0_witness:
  "rate_NumberToDrv (rate_DrvToNumber DRV_RATE_MCS_0) = DRV_RATE_6M"
  using rate_number_roundtrip_but_MCS_0 [of DRV_RATE_MCS_0] by (simp add: real_rate_def)

text \<open>
  Band validation: the basic set that \<open>rate_ValidateVsBand\<close> leaves is never empty, on the a band
  the supported set holds no CCK or PBCC rate and the basic set none either, nothing is added to
  the supported set, and the basic set is the supported part of the old one unless that is empty.
\<close>

theorem rate_ValidateVsBand_spec:
  "let (s, b) = rate_ValidateVsBand supp basic dot11a in
     b \<noteq> 0 \<and> s = supp AND s \<and>
     (if dot11a then s AND 0x1F = 0 \<and> b AND 0x1F = 0 else s = supp) \<and>
     (if basic AND s = 0 then b = rate_BasicToDrvBitmap
          (if dot11a then BASIC_RATE_SET_6_12_24 else BASIC_RATE_SET_1_2) dot11a
      else b = basic AND s)"
  by (cases dot11a)
     (simp_all add: rate_ValidateVsBand_def rate_BasicToDrvBitmap_def RATE_TO_MASK_def Let_def and.assoc)

end
