(* ===== verification/WlQueue.thy ===== *)
theory WlQueue
  imports WlPrelude
begin

text \<open>
  The generic queue of \<^verbatim>\<open>utils/queue.c\<close>: a doubly linked ring of node headers that live
  inside the queued items, closed through the head node of the queue object. The memory is a map
  from addresses to node headers, so the pointer updates of the source are function updates, and the
  addresses of items and of their node headers differ by \<open>uNodeHeaderOffset\<close>. The theory also holds
  the contract of a bounded FIFO as a locale, its client lemmas, a list implementation of it that
  the components above use, and the interpretations of the contract on both. \<open>TI_DBG\<close> is defined in
  every build of the driver, so its statements are part of the model; the trace calls are not.
\<close>

section \<open>Memory and queue object\<close>

type_synonym addr = "32 word"

record TQueNodeHdr =
  pNext :: addr
  pPrev :: addr

type_synonym que_heap = "addr \<Rightarrow> TQueNodeHdr"

text \<open>\<open>tHead\<close> is the address of the queue's own node, which is the address of the queue object.\<close>

record TQueue =
  tHead :: addr
  uCount :: TI_UINT32
  uLimit :: TI_UINT32
  uMaxCount :: TI_UINT32
  uOverflow :: TI_UINT32
  uNodeHeaderOffset :: TI_UINT32
  que_hOs :: addr
  que_hReport :: addr

definition QUE_UNLIMITED_SIZE :: TI_UINT32 where
  "QUE_UNLIMITED_SIZE = 0xFFFFFFFF"

section \<open>Internal functions\<close>

definition set_pNext :: "addr \<Rightarrow> addr \<Rightarrow> que_heap \<Rightarrow> que_heap" where
  "set_pNext a v h = h(a := (h a)\<lparr>pNext := v\<rparr>)"

definition set_pPrev :: "addr \<Rightarrow> addr \<Rightarrow> que_heap \<Rightarrow> que_heap" where
  "set_pPrev a v h = h(a := (h a)\<lparr>pPrev := v\<rparr>)"

definition InsertNode :: "addr \<Rightarrow> addr \<Rightarrow> addr \<Rightarrow> que_heap \<Rightarrow> que_heap" where
  "InsertNode pNode prev nxt h =
     (let h = set_pPrev nxt pNode h;
          h = set_pNext pNode nxt h;
          h = set_pPrev pNode prev h
      in set_pNext prev pNode h)"

definition RemoveNode :: "addr \<Rightarrow> addr \<Rightarrow> que_heap \<Rightarrow> que_heap" where
  "RemoveNode prev nxt h = (let h = set_pPrev nxt prev h in set_pNext prev nxt h)"

definition AddToHead :: "addr \<Rightarrow> addr \<Rightarrow> que_heap \<Rightarrow> que_heap" where
  "AddToHead pNode pListHead h = InsertNode pNode pListHead (pNext (h pListHead)) h"

definition AddToTail :: "addr \<Rightarrow> addr \<Rightarrow> que_heap \<Rightarrow> que_heap" where
  "AddToTail pNode pListHead h = InsertNode pNode (pPrev (h pListHead)) pListHead h"

definition DelFromTail :: "addr \<Rightarrow> que_heap \<Rightarrow> que_heap" where
  "DelFromTail pNode h = RemoveNode (pPrev (h pNode)) (pNext (h pNode)) h"

section \<open>External functions\<close>

text \<open>
  A handle is \<open>None\<close> for the null pointer. \<open>que_Create\<close> gets the address that the allocator returned
  (0 when it failed). \<open>que_Requeue\<close> and \<open>que_Size\<close> read the queue object with no null test.
\<close>

definition que_Create ::
  "addr \<Rightarrow> addr \<Rightarrow> addr \<Rightarrow> TI_UINT32 \<Rightarrow> TI_UINT32 \<Rightarrow> que_heap \<Rightarrow> TQueue option \<times> que_heap" where
  "que_Create pQue hOs hReport limit offs h =
     (if pQue = 0 then (None, h)
      else (Some \<lparr>tHead = pQue, uCount = 0, uLimit = limit, uMaxCount = 0, uOverflow = 0,
                  uNodeHeaderOffset = offs, que_hOs = hOs, que_hReport = hReport\<rparr>,
            set_pNext pQue pQue (set_pPrev pQue pQue h)))"

definition que_Destroy :: "TQueue option \<Rightarrow> TI_STATUS \<times> TQueue option" where
  "que_Destroy hQue = (TI_OK, None)"

definition que_Init :: "TQueue \<Rightarrow> addr \<Rightarrow> addr \<Rightarrow> TI_STATUS \<times> TQueue" where
  "que_Init pQue hOs hReport = (TI_OK, pQue\<lparr>que_hOs := hOs, que_hReport := hReport\<rparr>)"

definition count_up :: "TQueue \<Rightarrow> TQueue" where
  "count_up q =
     (let c = uCount q + 1
      in q\<lparr>uCount := c, uMaxCount := (if c > uMaxCount q then c else uMaxCount q)\<rparr>)"

fun que_Enqueue :: "TQueue option \<Rightarrow> addr \<Rightarrow> que_heap \<Rightarrow> TI_STATUS \<times> TQueue option \<times> que_heap" where
  "que_Enqueue None hItem h = (TI_NOK, None, h)"
| "que_Enqueue (Some q) hItem h =
     (if uCount q < uLimit q then
        (let hdr = hItem + uNodeHeaderOffset q in
         if pNext (h hdr) \<noteq> 0 then (TI_NOK, Some q, h)
         else (TI_OK, Some (count_up q), AddToHead hdr (tHead q) h))
      else (TI_NOK, Some (q\<lparr>uOverflow := uOverflow q + 1\<rparr>), h))"

fun que_Dequeue :: "TQueue option \<Rightarrow> que_heap \<Rightarrow> addr \<times> TQueue option \<times> que_heap" where
  "que_Dequeue None h = (0, None, h)"
| "que_Dequeue (Some q) h =
     (if uCount q \<noteq> 0 then
        (let hItem = pPrev (h (tHead q)) - uNodeHeaderOffset q;
             h' = DelFromTail (pPrev (h (tHead q))) h;
             q' = q\<lparr>uCount := uCount q - 1\<rparr>;
             h' = set_pNext (hItem + uNodeHeaderOffset q) 0 h'
         in (hItem, Some q', h'))
      else (0, Some q, h))"

definition que_Requeue :: "TQueue \<Rightarrow> addr \<Rightarrow> que_heap \<Rightarrow> TI_STATUS \<times> TQueue \<times> que_heap" where
  "que_Requeue q hItem h =
     (if uCount q < uLimit q then
        (let hdr = hItem + uNodeHeaderOffset q in
         if pNext (h hdr) \<noteq> 0 then (TI_NOK, q, h)
         else (TI_OK, count_up q, AddToTail hdr (tHead q) h))
      else (TI_NOK, q\<lparr>uOverflow := uOverflow q + 1\<rparr>, h))"

definition que_Size :: "TQueue \<Rightarrow> TI_UINT32" where
  "que_Size q = uCount q"

section \<open>The ring and the items of a queue\<close>

text \<open>\<open>linked h L\<close>: consecutive addresses of \<open>L\<close> point at each other.\<close>

fun linked :: "que_heap \<Rightarrow> addr list \<Rightarrow> bool" where
  "linked h (a # b # xs) = (pNext (h a) = b \<and> pPrev (h b) = a \<and> linked h (b # xs))"
| "linked h xs = True"

text \<open>The nodes from the oldest on: \<open>pPrev\<close> of the head is the queue's tail, the first to leave.\<close>

fun walk_prev :: "que_heap \<Rightarrow> nat \<Rightarrow> addr \<Rightarrow> addr list" where
  "walk_prev h 0 a = []"
| "walk_prev h (Suc n) a = pPrev (h a) # walk_prev h n (pPrev (h a))"

definition que_nodes :: "TQueue \<Rightarrow> que_heap \<Rightarrow> addr list" where
  "que_nodes q h = walk_prev h (unat (uCount q)) (tHead q)"

definition que_items :: "TQueue \<Rightarrow> que_heap \<Rightarrow> addr list" where
  "que_items q h = map (\<lambda>n. n - uNodeHeaderOffset q) (que_nodes q h)"

definition ring :: "que_heap \<Rightarrow> addr \<Rightarrow> addr list \<Rightarrow> bool" where
  "ring h a ns \<longleftrightarrow> linked h (a # rev ns @ [a]) \<and> distinct (a # ns) \<and> 0 \<notin> set (a # ns)"

definition que_inv :: "TQueue \<Rightarrow> que_heap \<Rightarrow> bool" where
  "que_inv q h \<longleftrightarrow> ring h (tHead q) (que_nodes q h) \<and> uCount q \<le> uLimit q \<and> uCount q \<le> uMaxCount q"

subsection \<open>Rings\<close>

lemma pNext_set [simp]:
  "pNext (set_pNext a v h x) = (if x = a then v else pNext (h x))"
  "pNext (set_pPrev a v h x) = pNext (h x)"
  by (auto simp: set_pNext_def set_pPrev_def)

lemma pPrev_set [simp]:
  "pPrev (set_pNext a v h x) = pPrev (h x)"
  "pPrev (set_pPrev a v h x) = (if x = a then v else pPrev (h x))"
  by (auto simp: set_pNext_def set_pPrev_def)

lemma linked_append:
  "linked h (xs @ a # ys) \<longleftrightarrow> linked h (xs @ [a]) \<and> linked h (a # ys)"
proof (induction xs)
  case (Cons x xs)
  then show ?case by (cases xs) auto
qed simp

lemma linked_frame:
  assumes "\<And>x. x \<in> set (butlast L) \<Longrightarrow> pNext (h' x) = pNext (h x)"
    and "\<And>x. x \<in> set (tl L) \<Longrightarrow> pPrev (h' x) = pPrev (h x)"
  shows "linked h' L = linked h L"
  using assms
proof (induction L rule: induct_list012)
  case (3 a b xs)
  then have "linked h' (b # xs) = linked h (b # xs)" by (intro 3(2)) (cases xs; auto)+
  with 3 show ?case by auto
qed simp_all

lemma set_tl_subset: "x \<in> set (tl xs) \<Longrightarrow> x \<in> set xs"
  by (cases xs) auto

lemma InsertNode_pNext:
  "pNext (InsertNode n a b h x) = (if x = a then n else if x = n then b else pNext (h x))"
  by (simp add: InsertNode_def Let_def)

lemma InsertNode_pPrev:
  "pPrev (InsertNode n a b h x) = (if x = n then a else if x = b then n else pPrev (h x))"
  by (simp add: InsertNode_def Let_def)

lemma RemoveNode_pNext: "pNext (RemoveNode a b h x) = (if x = a then b else pNext (h x))"
  by (simp add: RemoveNode_def Let_def)

lemma RemoveNode_pPrev: "pPrev (RemoveNode a b h x) = (if x = b then a else pPrev (h x))"
  by (simp add: RemoveNode_def Let_def)

text \<open>
  Both ends of a gap: the nodes before \<open>a\<close> keep their links when only \<open>a\<close>'s \<open>pNext\<close> and nodes
  outside change, and likewise for the nodes after \<open>b\<close>.
\<close>

lemma linked_upto:
  assumes "linked h (xs @ [a])"
    and "\<And>x. x \<in> set xs \<Longrightarrow> pNext (h' x) = pNext (h x)"
    and "\<And>x. x \<in> set (tl (xs @ [a])) \<Longrightarrow> pPrev (h' x) = pPrev (h x)"
  shows "linked h' (xs @ [a])"
  using assms by (subst linked_frame [of _ h' h]) auto

lemma linked_from:
  assumes "linked h (b # ys)"
    and "\<And>x. x \<in> set (butlast (b # ys)) \<Longrightarrow> pNext (h' x) = pNext (h x)"
    and "\<And>x. x \<in> set ys \<Longrightarrow> pPrev (h' x) = pPrev (h x)"
  shows "linked h' (b # ys)"
  using assms by (subst linked_frame [of _ h' h]) auto

lemma linked_gap:
  assumes "linked h (xs @ a # ms @ b # ys)"
  shows "linked h (xs @ [a])" "linked h (b # ys)"
proof -
  from assms have *: "linked h (xs @ [a])" "linked h ((a # ms) @ b # ys)"
    by (simp_all add: linked_append [of _ xs a "ms @ b # ys"])
  then show "linked h (xs @ [a])" "linked h (b # ys)"
    by (simp_all only: linked_append [of _ "a # ms" b ys])
qed

lemma linked_insert:
  assumes "linked h (xs @ a # b # ys)" and "n \<notin> set (xs @ a # b # ys)"
    and "a \<notin> set (xs @ butlast (b # ys))" and "b \<notin> set (tl (xs @ [a]) @ ys)"
  shows "linked (InsertNode n a b h) (xs @ a # n # b # ys)"
proof -
  let ?h = "InsertNode n a b h"
  have *: "linked h (xs @ [a])" "linked h (b # ys)"
    using linked_gap [of h xs a "[]" b ys] assms(1) by simp_all
  have 1: "linked ?h (xs @ [a])"
    using *(1) assms by (rule_tac linked_upto [of h])
      (auto simp: InsertNode_pNext InsertNode_pPrev dest: set_tl_subset)
  have 2: "linked ?h (b # ys)"
    using *(2) assms by (rule_tac linked_from [of h])
      (auto simp: InsertNode_pNext InsertNode_pPrev dest: in_set_butlastD split: if_splits)
  from 1 2 assms(2) show ?thesis
    by (subst linked_append) (auto simp: InsertNode_pNext InsertNode_pPrev)
qed

lemma linked_remove:
  assumes "linked h (xs @ a # n # b # ys)"
    and "a \<notin> set (xs @ butlast (b # ys))" and "b \<notin> set (tl (xs @ [a]) @ ys)"
  shows "linked (RemoveNode a b h) (xs @ a # b # ys)"
proof -
  let ?h = "RemoveNode a b h"
  have *: "linked h (xs @ [a])" "linked h (b # ys)"
    using linked_gap [of h xs a "[n]" b ys] assms(1) by simp_all
  have 1: "linked ?h (xs @ [a])"
    using *(1) assms by (rule_tac linked_upto [of h])
      (auto simp: RemoveNode_pNext RemoveNode_pPrev)
  have 2: "linked ?h (b # ys)"
    using *(2) assms by (rule_tac linked_from [of h])
      (auto simp: RemoveNode_pNext RemoveNode_pPrev split: if_splits)
  from 1 2 show ?thesis
    by (subst linked_append) (simp add: RemoveNode_pNext RemoveNode_pPrev)
qed

lemma walk_prev_linked: "linked h (rev ns @ [a]) \<Longrightarrow> walk_prev h (length ns) a = ns"
proof (induction ns arbitrary: a)
  case (Cons m ms)
  then have "linked h (rev ms @ [m])" "pPrev (h a) = m"
    using linked_append [of h "rev ms" m "[a]"] by simp_all
  with Cons show ?case by simp
qed simp

lemma linked_tl: "linked h (a # L) \<Longrightarrow> linked h L"
  by (cases L) auto

lemma ring_walk: "ring h a ns \<Longrightarrow> walk_prev h (length ns) a = ns"
  by (auto simp: ring_def intro: walk_prev_linked dest: linked_tl)

subsection \<open>The ring operations on the list of nodes\<close>

lemma ring_AddToHead:
  assumes "ring h a ns" "n \<notin> set (a # ns)" "n \<noteq> 0"
  shows "ring (AddToHead n a h) a (ns @ [n])"
proof -
  obtain b ys where b: "rev ns @ [a] = b # ys" by (cases "rev ns @ [a]") auto
  then have s: "set (b # ys) = set (a # ns)" "butlast (b # ys) = rev ns"
    by (metis set_rev set_append Un_commute empty_set list.simps(15) insert_is_Un, metis butlast_snoc)
  have l: "linked h ([] @ a # b # ys)" using assms(1) b by (simp add: ring_def)
  then have nx: "pNext (h a) = b" by simp
  have d: "distinct (b # ys)" using assms(1) b [symmetric] by (simp add: ring_def)
  have "a \<notin> set (butlast (b # ys))" using assms(1) s(2) by (simp add: ring_def)
  then have "linked (InsertNode n a b h) ([] @ a # n # b # ys)"
    using assms(2) s(1) d l by (intro linked_insert) simp_all
  then have "linked (AddToHead n a h) (a # rev (ns @ [n]) @ [a])"
    by (simp add: AddToHead_def nx b)
  with assms show ?thesis by (auto simp: ring_def)
qed

lemma rev_snoc_split:
  obtains xs b where "a # rev ns = xs @ [b]" "set (xs @ [b]) = set (a # ns)"
    "distinct (xs @ [b]) = distinct (a # ns)" "set (tl (xs @ [b])) = set ns"
proof -
  obtain xs b where b: "a # rev ns = xs @ [b]" by (metis append_butlast_last_id list.discI)
  show ?thesis by (rule that [OF b]) (simp_all only: b [symmetric], simp_all)
qed

lemma ring_AddToTail:
  assumes "ring h a ns" "n \<notin> set (a # ns)" "n \<noteq> 0"
  shows "ring (AddToTail n a h) a (n # ns)"
proof -
  obtain xs b where b: "a # rev ns = xs @ [b]" and s: "set (xs @ [b]) = set (a # ns)"
    "distinct (xs @ [b]) = distinct (a # ns)" "set (tl (xs @ [b])) = set ns"
    by (rule rev_snoc_split)
  have split: "a # rev ns @ zs = xs @ b # zs" for zs using arg_cong [OF b, of "\<lambda>l. l @ zs"] by simp
  have l: "linked h (xs @ b # a # [])" using assms(1) unfolding ring_def split by blast
  then have p: "pPrev (h a) = b" using linked_append [of h xs b "[a]"] by simp
  have d: "b \<notin> set xs" using assms(1) s(2) by (simp add: ring_def)
  have "linked (InsertNode n b a h) (xs @ b # n # a # [])"
  proof (rule linked_insert [OF l])
    show "n \<notin> set (xs @ [b, a])" using s(1) assms(2) by auto
    show "a \<notin> set (tl (xs @ [b]) @ [])" using s(3) assms(1) by (simp add: ring_def)
  qed (use d in simp)
  then have "linked (AddToTail n a h) (a # rev (n # ns) @ [a])"
    by (simp add: AddToTail_def p split)
  with assms show ?thesis by (auto simp: ring_def)
qed

lemma ring_DelFromTail:
  assumes "ring h a (m # ns)"
  shows "pPrev (h a) = m" "ring (set_pNext m 0 (DelFromTail m h)) a ns"
proof -
  obtain xs b where b: "a # rev ns = xs @ [b]" and s: "set (xs @ [b]) = set (a # ns)"
    "distinct (xs @ [b]) = distinct (a # ns)" "set (tl (xs @ [b])) = set ns"
    by (rule rev_snoc_split)
  have split: "a # rev ns @ zs = xs @ b # zs" for zs using arg_cong [OF b, of "\<lambda>l. l @ zs"] by simp
  have "linked h (a # rev ns @ [m, a])" using assms by (simp add: ring_def)
  then have l: "linked h (xs @ b # m # a # [])" unfolding split .
  then have p: "pPrev (h a) = m" "pPrev (h m) = b" "pNext (h m) = a"
    using linked_append [of h xs b "[m, a]"] by simp_all
  show "pPrev (h a) = m" by (rule p)
  have d: "b \<notin> set xs" using assms(1) s(2) by (simp add: ring_def)
  have "linked (RemoveNode b a h) (xs @ b # a # [])"
  proof (rule linked_remove [OF l])
    show "a \<notin> set (tl (xs @ [b]) @ [])" using s(3) assms(1) by (simp add: ring_def)
  qed (use d in simp)
  then have "linked (DelFromTail m h) (a # rev ns @ [a])"
    by (simp add: DelFromTail_def p split)
  moreover have "m \<notin> set (butlast (a # rev ns @ [a]))" using assms
    by (auto simp: ring_def butlast_append)
  ultimately have "linked (set_pNext m 0 (DelFromTail m h)) (a # rev ns @ [a])"
    by (subst linked_frame [of _ _ "DelFromTail m h"]) auto
  with assms show "ring (set_pNext m 0 (DelFromTail m h)) a ns" by (auto simp: ring_def)
qed

lemma linked_pNext_in: "linked h L \<Longrightarrow> x \<in> set (butlast L) \<Longrightarrow> pNext (h x) \<in> set (tl L)"
proof (induction L rule: induct_list012)
  case (3 a b xs)
  then show ?case by (cases "x = a") (auto split: if_splits dest: set_tl_subset)
qed simp_all

lemma ring_pNext_neq_0:
  assumes "ring h a ns" "x \<in> set (a # ns)"
  shows "pNext (h x) \<noteq> 0"
proof -
  have "x \<in> set (butlast (a # rev ns @ [a]))" using assms(2) by (simp add: butlast_append)
  moreover have "linked h (a # rev ns @ [a])" using assms(1) by (simp add: ring_def)
  ultimately have "pNext (h x) \<in> set (tl (a # rev ns @ [a]))" by (rule linked_pNext_in [rotated])
  with assms(1) show ?thesis by (auto simp: ring_def)
qed

section \<open>The contract of a bounded FIFO\<close>

text \<open>
  A queue promises what the list of its items, oldest first, shows: an item that is already queued
  or that exceeds the limit is refused and changes nothing, an enqueued item goes to the end, a
  requeued one to the front, and the front is the item dequeued next.
\<close>

definition fifo_enq :: "nat \<Rightarrow> 'a list \<Rightarrow> 'a \<Rightarrow> TI_STATUS \<times> 'a list" where
  "fifo_enq lim xs a =
     (if length xs < lim \<and> a \<notin> set xs then (TI_OK, xs @ [a]) else (TI_NOK, xs))"

definition fifo_req :: "nat \<Rightarrow> 'a list \<Rightarrow> 'a \<Rightarrow> TI_STATUS \<times> 'a list" where
  "fifo_req lim xs a =
     (if length xs < lim \<and> a \<notin> set xs then (TI_OK, a # xs) else (TI_NOK, xs))"

fun fifo_deq :: "'a list \<Rightarrow> 'a option \<times> 'a list" where
  "fifo_deq [] = (None, [])"
| "fifo_deq (x # xs) = (Some x, xs)"

text \<open>Sequences of calls and what they return.\<close>

datatype 'a qop = Enq 'a | Req 'a | Deq

datatype 'a qres = Status TI_STATUS | Item "'a option"

fun qop_items :: "'a qop \<Rightarrow> 'a set" where
  "qop_items (Enq a) = {a}"
| "qop_items (Req a) = {a}"
| "qop_items Deq = {}"

fun queue_run ::
  "('s \<Rightarrow> 'a \<Rightarrow> TI_STATUS \<times> 's) \<Rightarrow> ('s \<Rightarrow> 'a \<Rightarrow> TI_STATUS \<times> 's) \<Rightarrow> ('s \<Rightarrow> 'a option \<times> 's) \<Rightarrow>
   's \<Rightarrow> 'a qop list \<Rightarrow> 'a qres list \<times> 's" where
  "queue_run enq req deq s [] = ([], s)"
| "queue_run enq req deq s (op # ops) =
     (let (r, s) = (case op of
            Enq a \<Rightarrow> (let (st, s) = enq s a in (Status st, s))
          | Req a \<Rightarrow> (let (st, s) = req s a in (Status st, s))
          | Deq \<Rightarrow> (let (i, s) = deq s in (Item i, s)));
          (rs, s) = queue_run enq req deq s ops
      in (r # rs, s))"

lemma fifo_drain:
  "queue_run enq req fifo_deq xs (replicate (length xs) Deq) = (map (\<lambda>x. Item (Some x)) xs, [])"
  by (induction xs) simp_all

lemma fifo_fill:
  assumes "distinct (ys @ xs)" "length ys + length xs \<le> lim"
  shows "queue_run (fifo_enq lim) req deq ys (map Enq xs @ ops) =
    (let (rs, s) = queue_run (fifo_enq lim) req deq (ys @ xs) ops
     in (replicate (length xs) (Status TI_OK) @ rs, s))"
  using assms
proof (induction xs arbitrary: ys)
  case (Cons x xs)
  then have "fifo_enq lim ys x = (TI_OK, ys @ [x])" by (simp add: fifo_enq_def)
  with Cons.IH [of "ys @ [x]"] Cons.prems show ?case by (simp split: prod.splits)
qed simp

lemma fifo_fill_drain:
  assumes "distinct xs" "length xs \<le> lim"
  shows "fst (queue_run (fifo_enq lim) req fifo_deq [] (map Enq xs @ replicate (length xs) Deq)) =
    replicate (length xs) (Status TI_OK) @ map (\<lambda>x. Item (Some x)) xs"
  using fifo_fill [of "[]" xs lim] assms by (simp add: fifo_drain)

locale bounded_fifo =
  fixes U :: "'a set" and inv :: "'s \<Rightarrow> bool" and items :: "'s \<Rightarrow> 'a list" and limit :: "'s \<Rightarrow> nat"
    and enq :: "'s \<Rightarrow> 'a \<Rightarrow> TI_STATUS \<times> 's" and req :: "'s \<Rightarrow> 'a \<Rightarrow> TI_STATUS \<times> 's"
    and deq :: "'s \<Rightarrow> 'a option \<times> 's"
  assumes bounded: "inv s \<Longrightarrow> length (items s) \<le> limit s"
    and enq_law: "inv s \<Longrightarrow> a \<in> U \<Longrightarrow> enq s a = (st, s') \<Longrightarrow>
      inv s' \<and> limit s' = limit s \<and> fifo_enq (limit s) (items s) a = (st, items s')"
    and req_law: "inv s \<Longrightarrow> a \<in> U \<Longrightarrow> req s a = (st, s') \<Longrightarrow>
      inv s' \<and> limit s' = limit s \<and> fifo_req (limit s) (items s) a = (st, items s')"
    and deq_law: "inv s \<Longrightarrow> deq s = (r, s') \<Longrightarrow>
      inv s' \<and> limit s' = limit s \<and> fifo_deq (items s) = (r, items s')"
begin

lemma run_refines:
  assumes "inv s" "\<forall>op \<in> set ops. qop_items op \<subseteq> U" "queue_run enq req deq s ops = (rs, s')"
  shows "inv s' \<and> limit s' = limit s \<and>
    queue_run (fifo_enq (limit s)) (fifo_req (limit s)) fifo_deq (items s) ops = (rs, items s')"
  using assms
proof (induction ops arbitrary: s rs)
  case (Cons op ops)
  obtain r s1 rs1 where
    1: "(case op of Enq a \<Rightarrow> (let (st, s) = enq s a in (Status st, s))
          | Req a \<Rightarrow> (let (st, s) = req s a in (Status st, s))
          | Deq \<Rightarrow> (let (i, s) = deq s in (Item i, s))) = (r, s1)" and
    2: "queue_run enq req deq s1 ops = (rs1, s')" and rs: "rs = r # rs1"
    using Cons.prems(3) by (auto split: prod.splits)
  have step: "inv s1 \<and> limit s1 = limit s \<and>
      (case op of Enq a \<Rightarrow> (let (st, s) = fifo_enq (limit s) (items s) a in (Status st, s))
          | Req a \<Rightarrow> (let (st, s) = fifo_req (limit s) (items s) a in (Status st, s))
          | Deq \<Rightarrow> (let (i, s) = fifo_deq (items s) in (Item i, s))) = (r, items s1)"
  proof (cases op)
    case (Enq a)
    with 1 obtain st where "enq s a = (st, s1)" "r = Status st" by (auto split: prod.splits)
    with enq_law [of s a st s1] Cons.prems(1,2) show ?thesis by (simp add: Enq)
  next
    case (Req a)
    with 1 obtain st where "req s a = (st, s1)" "r = Status st" by (auto split: prod.splits)
    with req_law [of s a st s1] Cons.prems(1,2) show ?thesis by (simp add: Req)
  next
    case Deq
    with 1 obtain i where "deq s = (i, s1)" "r = Item i" by (auto split: prod.splits)
    with deq_law [of s i s1] Cons.prems(1) show ?thesis by (simp add: Deq)
  qed
  then have "inv s' \<and> limit s' = limit s1 \<and>
      queue_run (fifo_enq (limit s1)) (fifo_req (limit s1)) fifo_deq (items s1) ops = (rs1, items s')"
    using Cons.IH [of s1 rs1] 2 Cons.prems(2) by simp
  with step rs show ?case by simp
qed simp

text \<open>Filling an empty queue and draining it returns the items in the order they came.\<close>

lemma fill_drain:
  assumes "inv s" "items s = []" "set xs \<subseteq> U" "distinct xs" "length xs \<le> limit s"
  shows "fst (queue_run enq req deq s (map Enq xs @ replicate (length xs) Deq)) =
    replicate (length xs) (Status TI_OK) @ map (\<lambda>x. Item (Some x)) xs"
proof -
  obtain rs s' where run: "queue_run enq req deq s (map Enq xs @ replicate (length xs) Deq) = (rs, s')"
    by (rule prod.exhaust)
  have "\<forall>op\<in>set (map Enq xs @ replicate (length xs) Deq). qop_items op \<subseteq> U"
    using assms(3) by auto
  from run_refines [OF assms(1) this run] assms(2) fifo_fill_drain [OF assms(4,5)] run
  show ?thesis by (metis fst_conv)
qed

end

section \<open>The queue module keeps the contract\<close>

type_synonym que_state = "TQueue \<times> que_heap"

definition que_enq :: "que_state \<Rightarrow> addr \<Rightarrow> TI_STATUS \<times> que_state" where
  "que_enq s i = (case que_Enqueue (Some (fst s)) i (snd s) of (st, q, h) \<Rightarrow> (st, the q, h))"

definition que_req :: "que_state \<Rightarrow> addr \<Rightarrow> TI_STATUS \<times> que_state" where
  "que_req s i = que_Requeue (fst s) i (snd s)"

definition que_deq :: "que_state \<Rightarrow> addr option \<times> que_state" where
  "que_deq s = (case que_Dequeue (Some (fst s)) (snd s) of
     (i, q, h) \<Rightarrow> (if i = 0 then None else Some i, the q, h))"

text \<open>
  \<open>U\<close> is the set of the items that the owner may queue: none is null or has its node header at
  address 0, and the header of one that is not queued has a null \<open>pNext\<close>, as after allocation with
  zeroed memory and after each dequeue.
\<close>

definition que_wf :: "addr set \<Rightarrow> que_state \<Rightarrow> bool" where
  "que_wf U s \<longleftrightarrow> que_inv (fst s) (snd s) \<and> 0 \<notin> U \<and> set (que_items (fst s) (snd s)) \<subseteq> U \<and>
     (\<forall>a\<in>U. a + uNodeHeaderOffset (fst s) \<noteq> 0) \<and>
     (\<forall>a\<in>U. a \<notin> set (que_items (fst s) (snd s)) \<longrightarrow>
        pNext (snd s (a + uNodeHeaderOffset (fst s))) = 0)"

lemma length_que_nodes [simp]: "length (que_nodes q h) = unat (uCount q)"
proof -
  have "length (walk_prev h n a) = n" for n a by (induction n arbitrary: a) auto
  then show ?thesis by (simp add: que_nodes_def)
qed

lemma que_nodes_eq: "ring h (tHead q) ns \<Longrightarrow> length ns = unat (uCount q) \<Longrightarrow> que_nodes q h = ns"
  unfolding que_nodes_def by (metis ring_walk)

lemma set_que_items: "a \<in> set (que_items q h) \<longleftrightarrow> a + uNodeHeaderOffset q \<in> set (que_nodes q h)"
  by (force simp: que_items_def algebra_simps)

lemma que_linked_iff:
  assumes "que_wf U (q, h)" "a \<in> U"
  shows "pNext (h (a + uNodeHeaderOffset q)) \<noteq> 0 \<longleftrightarrow> a \<in> set (que_items q h)"
  using assms ring_pNext_neq_0 [of h "tHead q" "que_nodes q h" "a + uNodeHeaderOffset q"]
  by (auto simp: que_wf_def que_inv_def set_que_items)

lemma count_up_sel [simp]:
  "tHead (count_up q) = tHead q" "uLimit (count_up q) = uLimit q" "uCount (count_up q) = uCount q + 1"
  "uNodeHeaderOffset (count_up q) = uNodeHeaderOffset q"
  "uMaxCount (count_up q) = max (uCount q + 1) (uMaxCount q)"
  by (auto simp: count_up_def Let_def max_def)

text \<open>Both ways of adding a node: the ring and the nodes outside it are all that matters.\<close>

lemma que_add_wf:
  assumes wf: "que_wf U (q, h)" and a: "a \<in> U" "a \<notin> set (que_items q h)" and lt: "uCount q < uLimit q"
    and ring: "ring h' (tHead q) ns'" and ns': "set ns' = insert (a + uNodeHeaderOffset q) (set (que_nodes q h))"
      "length ns' = Suc (length (que_nodes q h))"
    and frame: "\<And>x. x \<noteq> a + uNodeHeaderOffset q \<Longrightarrow> pNext (h x) = 0 \<Longrightarrow> pNext (h' x) = 0"
  shows "que_wf U (count_up q, h')" "que_items (count_up q) h' = map (\<lambda>n. n - uNodeHeaderOffset q) ns'"
proof -
  have nodes: "que_nodes (count_up q) h' = ns'"
    using ring ns' lt by (intro que_nodes_eq) (simp_all add: unat_Suc_less)
  then show items: "que_items (count_up q) h' = map (\<lambda>n. n - uNodeHeaderOffset q) ns'"
    by (simp add: que_items_def)
  have inv: "que_inv (count_up q) h'"
    using ring lt nodes by (simp add: que_inv_def unat_Suc_less)
  have in_items: "b \<in> set (que_items (count_up q) h') \<longleftrightarrow> b = a \<or> b \<in> set (que_items q h)" for b
    by (simp add: set_que_items nodes ns')
  have "pNext (h' (b + uNodeHeaderOffset q)) = 0"
    if "b \<in> U" "b \<notin> set (que_items (count_up q) h')" for b
    using that wf by (intro frame) (auto simp: in_items que_wf_def)
  with wf a inv show "que_wf U (count_up q, h')" by (auto simp: que_wf_def in_items)
qed

lemma que_Overflow_wf:
  assumes "que_wf U (q, h)"
  shows "que_wf U (q\<lparr>uOverflow := n\<rparr>, h)" "que_items (q\<lparr>uOverflow := n\<rparr>) h = que_items q h"
  using assms by (simp_all add: que_wf_def que_inv_def que_items_def que_nodes_def)

lemma InsertNode_frame:
  assumes "x \<noteq> n" "pNext (h x) = 0" "pNext (h a) \<noteq> 0"
  shows "pNext (InsertNode n a b h x) = 0"
  using assms by (auto simp: InsertNode_pNext)

lemma que_ring: "que_wf U (q, h) \<Longrightarrow> ring h (tHead q) (que_nodes q h)"
  by (simp add: que_wf_def que_inv_def)

lemma que_pPrev_head_linked:
  assumes "ring h a ns"
  shows "pNext (h (pPrev (h a))) \<noteq> 0"
proof (cases ns)
  case Nil
  with assms show ?thesis by (simp add: ring_def)
next
  case (Cons m ms)
  with assms ring_DelFromTail(1) [of h a m ms] ring_pNext_neq_0 [of h a ns m] show ?thesis by simp
qed

lemma que_add_nodes:
  assumes wf: "que_wf U (q, h)" and a: "a \<in> U" "a \<notin> set (que_items q h)" and lt: "uCount q < uLimit q"
  defines "n \<equiv> a + uNodeHeaderOffset q"
  shows "que_wf U (count_up q, AddToHead n (tHead q) h)"
    and "que_items (count_up q) (AddToHead n (tHead q) h) = que_items q h @ [a]"
    and "que_wf U (count_up q, AddToTail n (tHead q) h)"
    and "que_items (count_up q) (AddToTail n (tHead q) h) = a # que_items q h"
proof -
  note ring = que_ring [OF wf]
  have lk: "pNext (h (tHead q)) \<noteq> 0" "pNext (h (pPrev (h (tHead q)))) \<noteq> 0"
    using ring_pNext_neq_0 [OF ring] que_pPrev_head_linked [OF ring] by simp_all
  have n: "n \<notin> set (tHead q # que_nodes q h)" "n \<noteq> 0"
    using que_linked_iff [OF wf a(1)] ring_pNext_neq_0 [OF ring, of n] a wf
    by (auto simp: n_def que_wf_def)
  note add = que_add_wf [OF wf a lt, folded n_def]
  have "ring (AddToHead n (tHead q) h) (tHead q) (que_nodes q h @ [n])"
    by (rule ring_AddToHead [OF ring n])
  note H = add [OF this, simplified]
  show "que_wf U (count_up q, AddToHead n (tHead q) h)"
    by (rule H(1)) (use lk(1) in \<open>simp add: AddToHead_def InsertNode_frame\<close>)
  show "que_items (count_up q) (AddToHead n (tHead q) h) = que_items q h @ [a]"
    by (subst H(2)) (use lk(1) in \<open>simp_all add: AddToHead_def InsertNode_frame que_items_def n_def\<close>)
  have "ring (AddToTail n (tHead q) h) (tHead q) (n # que_nodes q h)"
    by (rule ring_AddToTail [OF ring n])
  note T = add [OF this, simplified]
  show "que_wf U (count_up q, AddToTail n (tHead q) h)"
    by (rule T(1)) (use lk(2) in \<open>simp add: AddToTail_def InsertNode_frame\<close>)
  show "que_items (count_up q) (AddToTail n (tHead q) h) = a # que_items q h"
    by (subst T(2)) (use lk(2) in \<open>simp_all add: AddToTail_def InsertNode_frame que_items_def n_def\<close>)
qed

lemma que_full_iff:
  assumes "que_wf U (q, h)"
  shows "uCount q < uLimit q \<longleftrightarrow> length (que_items q h) < unat (uLimit q)"
  by (simp add: que_items_def word_less_nat_alt)

lemma que_enq_law:
  assumes "que_wf U s" "a \<in> U" "que_enq s a = (st, s')"
  shows "que_wf U s' \<and> unat (uLimit (fst s')) = unat (uLimit (fst s)) \<and>
    fifo_enq (unat (uLimit (fst s))) (que_items (fst s) (snd s)) a = (st, que_items (fst s') (snd s'))"
proof (cases s)
  case (Pair q h)
  with assms que_full_iff [of U q h] que_linked_iff [of U q h a] que_add_nodes(1,2) [of U q h a]
    que_Overflow_wf [of U q h "uOverflow q + 1"]
  show ?thesis by (auto simp: que_enq_def fifo_enq_def Let_def split: if_splits)
qed

lemma que_req_law:
  assumes "que_wf U s" "a \<in> U" "que_req s a = (st, s')"
  shows "que_wf U s' \<and> unat (uLimit (fst s')) = unat (uLimit (fst s)) \<and>
    fifo_req (unat (uLimit (fst s))) (que_items (fst s) (snd s)) a = (st, que_items (fst s') (snd s'))"
proof (cases s)
  case (Pair q h)
  with assms que_full_iff [of U q h] que_linked_iff [of U q h a] que_add_nodes(3,4) [of U q h a]
    que_Overflow_wf [of U q h "uOverflow q + 1"]
  show ?thesis by (auto simp: que_req_def que_Requeue_def fifo_req_def Let_def split: if_splits)
qed

lemma que_deq_nonempty:
  assumes wf: "que_wf U (q, h)" and items: "que_items q h = a # as"
  defines "n \<equiv> a + uNodeHeaderOffset q"
  shows "pPrev (h (tHead q)) = n"
    and "que_wf U (q\<lparr>uCount := uCount q - 1\<rparr>, set_pNext n 0 (DelFromTail n h))"
    and "que_items (q\<lparr>uCount := uCount q - 1\<rparr>) (set_pNext n 0 (DelFromTail n h)) = as"
proof -
  let ?q = "q\<lparr>uCount := uCount q - 1\<rparr>" and ?h = "set_pNext n 0 (DelFromTail n h)"
  obtain ns where ns: "que_nodes q h = n # ns" "as = map (\<lambda>n. n - uNodeHeaderOffset q) ns"
    using items by (auto simp: que_items_def n_def)
  have ring: "ring h (tHead q) (n # ns)" using que_ring [OF wf] ns(1) by simp
  note del = ring_DelFromTail [OF ring]
  show "pPrev (h (tHead q)) = n" by (rule del(1))
  have len: "Suc (length ns) = unat (uCount q)" using ns(1) length_que_nodes [of q h] by simp
  then have nz: "uCount q \<noteq> 0" by auto
  with len have "length ns = unat (uCount ?q)" by (simp add: unat_pred_word)
  then have nodes: "que_nodes ?q ?h = ns" using del(2) by (intro que_nodes_eq) simp_all
  then show its: "que_items ?q ?h = as" using ns(2) by (simp add: que_items_def)
  have "uCount q - 1 \<le> uLimit q \<and> uCount q - 1 \<le> uMaxCount q"
    using wf unat_pred_word(2) [OF nz] by (auto simp: que_wf_def que_inv_def intro: order.trans)
  then have "que_inv ?q ?h" using del(2) nodes by (simp add: que_inv_def)
  moreover have lk: "pNext (h (pPrev (h n))) \<noteq> 0"
  proof -
    have "linked h (tHead q # rev ns @ [n, tHead q])" using ring by (simp add: ring_def)
    then have "linked h ((tHead q # rev ns) @ [n])"
      using linked_append [of h "tHead q # rev ns" n "[tHead q]"] by simp
    then have "pPrev (h n) \<in> set (tHead q # rev ns)"
      by (metis append_Cons last_in_set linked_append list.discI append_butlast_last_id
          linked.simps(1) append_assoc append_Nil)
    then show ?thesis using ring_pNext_neq_0 [OF ring] by auto
  qed
  have zero: "pNext (?h x) = 0" if "pNext (h x) = 0 \<or> x = n" for x
    using that lk by (auto simp: DelFromTail_def RemoveNode_pNext)
  have "pNext (?h (b + uNodeHeaderOffset q)) = 0" if "b \<in> U" "b \<notin> set as" for b
    by (rule zero) (use wf items that in \<open>auto simp: que_wf_def n_def\<close>)
  ultimately show "que_wf U (?q, ?h)" using wf items its by (auto simp: que_wf_def)
qed

lemma que_deq_law:
  assumes wf: "que_wf U s" and deq: "que_deq s = (r, s')"
  shows "que_wf U s' \<and> unat (uLimit (fst s')) = unat (uLimit (fst s)) \<and>
    fifo_deq (que_items (fst s) (snd s)) = (r, que_items (fst s') (snd s'))"
proof (cases s)
  case (Pair q h)
  show ?thesis
  proof (cases "que_items q h")
    case Nil
    then have "uCount q = 0" by (simp add: que_items_def) (metis length_que_nodes list.size(3) unat_eq_0)
    with Nil Pair wf deq show ?thesis by (auto simp: que_deq_def)
  next
    case (Cons a as)
    then have "unat (uCount q) \<noteq> 0" using length_que_nodes [of q h]
      by (metis length_map list.distinct(1) list.size(3) que_items_def length_0_conv)
    then have nz: "uCount q \<noteq> 0" by auto
    have "a \<noteq> 0" using wf Cons Pair by (auto simp: que_wf_def)
    with nz Cons Pair wf deq que_deq_nonempty [of U q h a as] show ?thesis
      by (auto simp: que_deq_def Let_def)
  qed
qed

interpretation que: bounded_fifo U "que_wf U" "\<lambda>s. que_items (fst s) (snd s)"
    "\<lambda>s. unat (uLimit (fst s))" que_enq que_req que_deq for U
proof unfold_locales
  show "length (que_items (fst s) (snd s)) \<le> unat (uLimit (fst s))" if "que_wf U s" for s
    using that by (simp add: que_wf_def que_inv_def que_items_def word_le_nat_alt)
qed (rule que_enq_law que_req_law que_deq_law; assumption)+

section \<open>Properties\<close>

lemma que_Create_wf:
  assumes "que_Create pQue hOs hReport lim offs h0 = (Some q, h)"
    and "0 \<notin> U" "\<forall>a\<in>U. a + offs \<noteq> 0 \<and> a + offs \<noteq> pQue \<and> pNext (h0 (a + offs)) = 0"
  shows "que_wf U (q, h) \<and> que_items q h = [] \<and> uLimit q = lim"
  using assms
  by (auto simp: que_Create_def que_wf_def que_inv_def que_items_def que_nodes_def ring_def
      split: if_splits)

text \<open>
  C33. The pointer ring refines a bounded FIFO list: for every sequence of enqueue, requeue and dequeue
  calls on a created queue, over items whose node headers are zeroed at the start, the statuses and
  the items returned are those of the list, and the items left in memory are those of the list.
\<close>

theorem que_refines_fifo:
  assumes "que_Create pQue hOs hReport lim offs h0 = (Some q, h)"
    and "0 \<notin> U" "\<forall>a\<in>U. a + offs \<noteq> 0 \<and> a + offs \<noteq> pQue \<and> pNext (h0 (a + offs)) = 0"
    and "\<forall>op\<in>set ops. qop_items op \<subseteq> U"
    and "queue_run que_enq que_req que_deq (q, h) ops = (rs, q', h')"
  shows "queue_run (fifo_enq (unat lim)) (fifo_req (unat lim)) fifo_deq [] ops = (rs, que_items q' h') \<and>
    que_inv q' h' \<and> uCount q' \<le> lim"
  using que_Create_wf [OF assms(1-3)] que.run_refines [of U "(q, h)" ops rs "(q', h')"] assms(4,5)
  by (auto simp: que_wf_def que_inv_def word_le_nat_alt)

theorem que_refines_fifo_witness:
  "fst (queue_run (fifo_enq 2) (fifo_req 2) fifo_deq ([] :: addr list) [Enq 16, Enq 32, Enq 48, Deq]) =
   fst (queue_run que_enq que_req que_deq
     (the (fst (que_Create 8 0 0 2 4 (\<lambda>_. \<lparr>pNext = 0, pPrev = 0\<rparr>))),
      snd (que_Create 8 0 0 2 4 (\<lambda>_. \<lparr>pNext = 0, pPrev = 0\<rparr>))) [Enq 16, Enq 32, Enq 48, Deq])"
proof -
  let ?c = "que_Create 8 0 0 2 4 (\<lambda>_. \<lparr>pNext = 0, pPrev = 0\<rparr>)"
  let ?ops = "[Enq 16, Enq 32, Enq 48, Deq] :: addr qop list"
  obtain q h where c: "?c = (Some q, h)" by (simp add: que_Create_def)
  obtain rs q' h' where r: "queue_run que_enq que_req que_deq (q, h) ?ops = (rs, q', h')"
    by (metis prod_cases3)
  show ?thesis using que_refines_fifo [OF c, of "{16, 32, 48}" ?ops rs q' h'] r c by simp
qed

text \<open>
  Nothing is lost or reordered: items queued up to the limit, however many nodes share the memory,
  are dequeued in the order they were enqueued, and the queue is empty afterwards.
\<close>

theorem que_fill_drain_order:
  assumes "que_wf U (q, h)" "que_items q h = []" "set xs \<subseteq> U" "distinct xs" "length xs \<le> unat (uLimit q)"
  shows "fst (queue_run que_enq que_req que_deq (q, h) (map Enq xs @ replicate (length xs) Deq)) =
    replicate (length xs) (Status TI_OK) @ map (\<lambda>x. Item (Some x)) xs"
  using que.fill_drain [of U "(q, h)" xs] assms by simp

theorem que_fill_drain_order_witness:
  "fst (queue_run que_enq que_req que_deq
     (the (fst (que_Create 8 0 0 3 4 (\<lambda>_. \<lparr>pNext = 0, pPrev = 0\<rparr>))),
      snd (que_Create 8 0 0 3 4 (\<lambda>_. \<lparr>pNext = 0, pPrev = 0\<rparr>))) [Enq 16, Enq 48, Enq 32, Deq, Deq, Deq]) =
   [Status TI_OK, Status TI_OK, Status TI_OK, Item (Some 16), Item (Some 48), Item (Some 32)]"
proof -
  let ?c = "que_Create 8 0 0 3 4 (\<lambda>_. \<lparr>pNext = 0, pPrev = 0\<rparr>)"
  obtain q h where c: "?c = (Some q, h)" by (simp add: que_Create_def)
  have "que_wf {16, 32, 48} (q, h) \<and> que_items q h = [] \<and> uLimit q = 3"
    by (rule que_Create_wf [OF c]) simp_all
  then show ?thesis using que_fill_drain_order [of "{16, 32, 48}" q h "[16, 48, 32]"] c
    by simp
qed

end
