(* ===== verification/WlTxn.thy ===== *)
theory WlTxn
  imports WlQueue
begin

text \<open>
  The transaction structure that the transfer layers hand to the bus (\<^verbatim>\<open>Txn/BusDrv.h\<close>,
  \<^verbatim>\<open>Txn/TxnDefs.h\<close>): its record, the bit fields of \<open>uTxnParams\<close> with the macros that read and
  write them, and the laws of those macros.
\<close>

section \<open>Transaction structure\<close>

datatype ETxnStatus = TXN_STATUS_NONE | TXN_STATUS_OK | TXN_STATUS_COMPLETE | TXN_STATUS_PENDING | TXN_STATUS_ERROR

text \<open>The queue link of the structure is part of the memory of theory \<open>WlQueue\<close>.\<close>

record TTxnStruct =
  uTxnParams :: TI_UINT32
  uHwAddr :: TI_UINT32
  fTxnDoneCb :: addr
  hCbHandle :: addr
  aLen :: "TI_UINT16 list"
  aBuf :: "addr list"

definition TXN_PARAM_STATUS_OK :: TI_UINT32 where "TXN_PARAM_STATUS_OK = 0"
definition TXN_PARAM_STATUS_ERROR :: TI_UINT32 where "TXN_PARAM_STATUS_ERROR = 1"
definition TXN_PARAM_STATUS_RECOVERY :: TI_UINT32 where "TXN_PARAM_STATUS_RECOVERY = 2"
definition TXN_DIRECTION_WRITE :: TI_UINT32 where "TXN_DIRECTION_WRITE = 0"
definition TXN_DIRECTION_READ :: TI_UINT32 where "TXN_DIRECTION_READ = 1"
definition TXN_HIGH_PRIORITY :: TI_UINT32 where "TXN_HIGH_PRIORITY = 0"
definition TXN_LOW_PRIORITY :: TI_UINT32 where "TXN_LOW_PRIORITY = 1"
definition TXN_INC_ADDR :: TI_UINT32 where "TXN_INC_ADDR = 0"
definition TXN_FIXED_ADDR :: TI_UINT32 where "TXN_FIXED_ADDR = 1"
definition TXN_AGGREGATE_OFF :: TI_UINT32 where "TXN_AGGREGATE_OFF = 0"
definition TXN_AGGREGATE_ON :: TI_UINT32 where "TXN_AGGREGATE_ON = 1"
definition TXN_FUNC_ID_WLAN :: TI_UINT32 where "TXN_FUNC_ID_WLAN = 2"

section \<open>The fields of \<open>uTxnParams\<close>\<close>

definition TXN_PARAM_GET_PRIORITY :: "TTxnStruct \<Rightarrow> TI_UINT32" where
  "TXN_PARAM_GET_PRIORITY t = drop_bit 0 (uTxnParams t AND 0x00000003)"
definition TXN_PARAM_GET_FUNC_ID :: "TTxnStruct \<Rightarrow> TI_UINT32" where
  "TXN_PARAM_GET_FUNC_ID t = drop_bit 2 (uTxnParams t AND 0x0000000C)"
definition TXN_PARAM_GET_DIRECTION :: "TTxnStruct \<Rightarrow> TI_UINT32" where
  "TXN_PARAM_GET_DIRECTION t = drop_bit 4 (uTxnParams t AND 0x00000010)"
definition TXN_PARAM_GET_FIXED_ADDR :: "TTxnStruct \<Rightarrow> TI_UINT32" where
  "TXN_PARAM_GET_FIXED_ADDR t = drop_bit 5 (uTxnParams t AND 0x00000020)"
definition TXN_PARAM_GET_MORE :: "TTxnStruct \<Rightarrow> TI_UINT32" where
  "TXN_PARAM_GET_MORE t = drop_bit 6 (uTxnParams t AND 0x00000040)"
definition TXN_PARAM_GET_SINGLE_STEP :: "TTxnStruct \<Rightarrow> TI_UINT32" where
  "TXN_PARAM_GET_SINGLE_STEP t = drop_bit 7 (uTxnParams t AND 0x00000080)"
definition TXN_PARAM_GET_STATUS :: "TTxnStruct \<Rightarrow> TI_UINT32" where
  "TXN_PARAM_GET_STATUS t = drop_bit 8 (uTxnParams t AND 0x00000F00)"
definition TXN_PARAM_GET_AGGREGATE :: "TTxnStruct \<Rightarrow> TI_UINT32" where
  "TXN_PARAM_GET_AGGREGATE t = drop_bit 12 (uTxnParams t AND 0x00001000)"
definition TXN_PARAM_GET_END_OF_BURST :: "TTxnStruct \<Rightarrow> TI_UINT32" where
  "TXN_PARAM_GET_END_OF_BURST t = drop_bit 13 (uTxnParams t AND 0x00002000)"

definition TXN_PARAM_SET_PRIORITY :: "TI_UINT32 \<Rightarrow> TTxnStruct \<Rightarrow> TTxnStruct" where
  "TXN_PARAM_SET_PRIORITY v t = t\<lparr>uTxnParams := (uTxnParams t AND NOT 0x00000003) OR push_bit 0 v\<rparr>"
definition TXN_PARAM_SET_FUNC_ID :: "TI_UINT32 \<Rightarrow> TTxnStruct \<Rightarrow> TTxnStruct" where
  "TXN_PARAM_SET_FUNC_ID v t = t\<lparr>uTxnParams := (uTxnParams t AND NOT 0x0000000C) OR push_bit 2 v\<rparr>"
definition TXN_PARAM_SET_DIRECTION :: "TI_UINT32 \<Rightarrow> TTxnStruct \<Rightarrow> TTxnStruct" where
  "TXN_PARAM_SET_DIRECTION v t = t\<lparr>uTxnParams := (uTxnParams t AND NOT 0x00000010) OR push_bit 4 v\<rparr>"
definition TXN_PARAM_SET_FIXED_ADDR :: "TI_UINT32 \<Rightarrow> TTxnStruct \<Rightarrow> TTxnStruct" where
  "TXN_PARAM_SET_FIXED_ADDR v t = t\<lparr>uTxnParams := (uTxnParams t AND NOT 0x00000020) OR push_bit 5 v\<rparr>"
definition TXN_PARAM_SET_MORE :: "TI_UINT32 \<Rightarrow> TTxnStruct \<Rightarrow> TTxnStruct" where
  "TXN_PARAM_SET_MORE v t = t\<lparr>uTxnParams := (uTxnParams t AND NOT 0x00000040) OR push_bit 6 v\<rparr>"
definition TXN_PARAM_SET_SINGLE_STEP :: "TI_UINT32 \<Rightarrow> TTxnStruct \<Rightarrow> TTxnStruct" where
  "TXN_PARAM_SET_SINGLE_STEP v t = t\<lparr>uTxnParams := (uTxnParams t AND NOT 0x00000080) OR push_bit 7 v\<rparr>"
definition TXN_PARAM_SET_STATUS :: "TI_UINT32 \<Rightarrow> TTxnStruct \<Rightarrow> TTxnStruct" where
  "TXN_PARAM_SET_STATUS v t = t\<lparr>uTxnParams := (uTxnParams t AND NOT 0x00000F00) OR push_bit 8 v\<rparr>"
definition TXN_PARAM_SET_AGGREGATE :: "TI_UINT32 \<Rightarrow> TTxnStruct \<Rightarrow> TTxnStruct" where
  "TXN_PARAM_SET_AGGREGATE v t = t\<lparr>uTxnParams := (uTxnParams t AND NOT 0x00001000) OR push_bit 12 v\<rparr>"
definition TXN_PARAM_SET_END_OF_BURST :: "TI_UINT32 \<Rightarrow> TTxnStruct \<Rightarrow> TTxnStruct" where
  "TXN_PARAM_SET_END_OF_BURST v t = t\<lparr>uTxnParams := (uTxnParams t AND NOT 0x00002000) OR push_bit 13 v\<rparr>"

definition TXN_PARAM_SET ::
  "TI_UINT32 \<Rightarrow> TI_UINT32 \<Rightarrow> TI_UINT32 \<Rightarrow> TI_UINT32 \<Rightarrow> TTxnStruct \<Rightarrow> TTxnStruct" where
  "TXN_PARAM_SET uPriority uId uDirection uAddrMode t =
     (let t = TXN_PARAM_SET_PRIORITY uPriority t;
          t = TXN_PARAM_SET_FUNC_ID uId t;
          t = TXN_PARAM_SET_DIRECTION uDirection t
      in TXN_PARAM_SET_FIXED_ADDR uAddrMode t)"

definition BUILD_TTxnStruct ::
  "TI_UINT32 \<Rightarrow> addr \<Rightarrow> TI_UINT32 \<Rightarrow> addr \<Rightarrow> addr \<Rightarrow> TTxnStruct \<Rightarrow> TTxnStruct" where
  "BUILD_TTxnStruct uAddr pBuf uLen fCB hCB t =
     t\<lparr>aBuf := (aBuf t)[0 := pBuf], aLen := (aLen t)[0 := ucast uLen, 1 := 0], uHwAddr := uAddr,
       hCbHandle := hCB, fTxnDoneCb := fCB\<rparr>"

section \<open>Reading back what was written\<close>

lemma field_get_set:
  fixes x v :: "'a::len word"
  assumes "n + w \<le> LENGTH('a)"
  shows "drop_bit n ((x AND NOT (push_bit n (mask w)) OR push_bit n v) AND push_bit n (mask w)) = take_bit w v"
  by (rule bit_word_eqI) (use assms in \<open>auto simp: bit_simps\<close>)

lemma field_get_set_other:
  fixes x v :: "'a::len word"
  assumes "n + w \<le> m \<or> m + k \<le> n" "take_bit k v = v"
  shows "drop_bit n ((x AND NOT (push_bit m (mask k)) OR push_bit m v) AND push_bit n (mask w)) =
    drop_bit n (x AND push_bit n (mask w))"
proof (rule bit_word_eqI)
  fix i assume i: "i < LENGTH('a)"
  have "bit v j \<Longrightarrow> j < k" for j using assms(2) by (metis bit_take_bit_iff)
  then show "bit (drop_bit n ((x AND NOT (push_bit m (mask k)) OR push_bit m v) AND push_bit n (mask w))) i =
    bit (drop_bit n (x AND push_bit n (mask w))) i"
    using assms(1) by (fastforce simp: bit_simps)
qed

lemma txn_field_masks:
  "(0x00000003 :: TI_UINT32) = push_bit 0 (mask 2)" "(0x0000000C :: TI_UINT32) = push_bit 2 (mask 2)"
  "(0x00000010 :: TI_UINT32) = push_bit 4 (mask 1)" "(0x00000020 :: TI_UINT32) = push_bit 5 (mask 1)"
  "(0x00000040 :: TI_UINT32) = push_bit 6 (mask 1)" "(0x00000080 :: TI_UINT32) = push_bit 7 (mask 1)"
  "(0x00000F00 :: TI_UINT32) = push_bit 8 (mask 4)" "(0x00001000 :: TI_UINT32) = push_bit 12 (mask 1)"
  "(0x00002000 :: TI_UINT32) = push_bit 13 (mask 1)"
  by (simp_all add: mask_eq_exp_minus_1)

lemmas txn_get_defs =
  TXN_PARAM_GET_PRIORITY_def TXN_PARAM_GET_FUNC_ID_def TXN_PARAM_GET_DIRECTION_def
  TXN_PARAM_GET_FIXED_ADDR_def TXN_PARAM_GET_MORE_def TXN_PARAM_GET_SINGLE_STEP_def
  TXN_PARAM_GET_STATUS_def TXN_PARAM_GET_AGGREGATE_def TXN_PARAM_GET_END_OF_BURST_def

lemmas txn_set_defs =
  TXN_PARAM_SET_PRIORITY_def TXN_PARAM_SET_FUNC_ID_def TXN_PARAM_SET_DIRECTION_def
  TXN_PARAM_SET_FIXED_ADDR_def TXN_PARAM_SET_MORE_def TXN_PARAM_SET_SINGLE_STEP_def
  TXN_PARAM_SET_STATUS_def TXN_PARAM_SET_AGGREGATE_def TXN_PARAM_SET_END_OF_BURST_def

lemma uTxnParams_update [simp]: "uTxnParams (t\<lparr>uTxnParams := x\<rparr>) = x"
  by simp

text \<open>Written values that fit their field read back, and leave every other field alone.\<close>

lemma field_eqs:
  fixes x v :: TI_UINT32
  assumes "n + w \<le> 32" "take_bit w v = v"
  shows "drop_bit n ((x AND NOT (push_bit n (mask w)) OR push_bit n v) AND push_bit n (mask w)) = v"
  using assms by (subst field_get_set) simp_all

lemma TXN_SET_STATUS_get:
  assumes "take_bit 4 v = v"
  shows "TXN_PARAM_GET_STATUS (TXN_PARAM_SET_STATUS v t) = v"
    and "TXN_PARAM_GET_FUNC_ID (TXN_PARAM_SET_STATUS v t) = TXN_PARAM_GET_FUNC_ID t"
    and "TXN_PARAM_GET_PRIORITY (TXN_PARAM_SET_STATUS v t) = TXN_PARAM_GET_PRIORITY t"
    and "TXN_PARAM_GET_AGGREGATE (TXN_PARAM_SET_STATUS v t) = TXN_PARAM_GET_AGGREGATE t"
    and "TXN_PARAM_GET_SINGLE_STEP (TXN_PARAM_SET_STATUS v t) = TXN_PARAM_GET_SINGLE_STEP t"
  unfolding txn_get_defs txn_set_defs txn_field_masks uTxnParams_update
  by (rule field_eqs field_get_set_other; use assms in simp)+

lemma TXN_PARAM_SET_get:
  assumes "take_bit 2 p = p" "take_bit 2 i = i" "take_bit 1 d = d" "take_bit 1 a = a"
  shows "TXN_PARAM_GET_PRIORITY (TXN_PARAM_SET p i d a t) = p"
    and "TXN_PARAM_GET_FUNC_ID (TXN_PARAM_SET p i d a t) = i"
    and "TXN_PARAM_GET_DIRECTION (TXN_PARAM_SET p i d a t) = d"
    and "TXN_PARAM_GET_FIXED_ADDR (TXN_PARAM_SET p i d a t) = a"
    and "TXN_PARAM_GET_SINGLE_STEP (TXN_PARAM_SET p i d a t) = TXN_PARAM_GET_SINGLE_STEP t"
    and "TXN_PARAM_GET_AGGREGATE (TXN_PARAM_SET p i d a t) = TXN_PARAM_GET_AGGREGATE t"
    and "TXN_PARAM_GET_STATUS (TXN_PARAM_SET p i d a t) = TXN_PARAM_GET_STATUS t"
  unfolding txn_get_defs txn_set_defs TXN_PARAM_SET_def Let_def txn_field_masks uTxnParams_update
  by (rule field_eqs | rule trans [OF field_get_set_other] | rule refl | rule assms | (simp; fail))+

end
