(* ===== verification/WlTxCtrlBlk.thy ===== *)
theory WlTxCtrlBlk
  imports WlTxn
begin

text \<open>
  The table of transmit control blocks of \<^verbatim>\<open>TWD/Data_Service/txCtrlBlk.c\<close>. A pointer to an entry
  of the table is its index, the null pointer is \<open>None\<close>. The free entries are chained through
  \<open>pNextFreeEntry\<close> from entry 0, which is never allocated; the last entry ends the chain. The theory
  also holds the contract of a pool of identifiers and its interpretation on the table.
\<close>

section \<open>Data\<close>

definition CTRL_BLK_ENTRIES_NUM :: nat where
  "CTRL_BLK_ENTRIES_NUM = 160"

text \<open>The descriptor that is copied to the firmware, \<^verbatim>\<open>public_descriptors.h\<close>.\<close>

record TxIfDescriptor_t =
  td_length :: TI_UINT16
  extraMemBlks :: TI_UINT8
  totalMemBlks :: TI_UINT8
  startTime :: TI_UINT32
  lifeTime :: TI_UINT16
  txAttr :: TI_UINT16
  descID :: TI_UINT8
  td_tid :: TI_UINT8
  aid :: TI_UINT8
  td_reserved :: TI_UINT8

record TTxPktParams =
  pInputPkt :: addr
  uInputPktLen :: TI_UINT32
  uDriverDelay :: TI_UINT32
  uPktType :: TI_UINT8
  uHeadroomSize :: TI_UINT8
  uFlags :: TI_UINT16

record TTxCtrlBlk =
  tTxnStruct :: TTxnStruct
  tTxDescriptor :: TxIfDescriptor_t
  aPktHdr :: "TI_UINT8 list"
  tTxPktParams :: TTxPktParams
  pNextFreeEntry :: "nat option"
  pNextAggregEntry :: "nat option"

record TTxCtrlBlkObj =
  aTxCtrlBlkTbl :: "TTxCtrlBlk list"
  uNumUsedEntries :: TI_UINT32

section \<open>Operations\<close>

definition zero_ctrl_blk :: TTxCtrlBlk where
  "zero_ctrl_blk =
    \<lparr>tTxnStruct = \<lparr>uTxnParams = 0, uHwAddr = 0, fTxnDoneCb = 0, hCbHandle = 0,
                   aLen = replicate 4 0, aBuf = replicate 4 0\<rparr>,
     tTxDescriptor = \<lparr>td_length = 0, extraMemBlks = 0, totalMemBlks = 0, startTime = 0, lifeTime = 0,
                      txAttr = 0, descID = 0, td_tid = 0, aid = 0, td_reserved = 0\<rparr>,
     aPktHdr = replicate 48 0,
     tTxPktParams = \<lparr>pInputPkt = 0, uInputPktLen = 0, uDriverDelay = 0, uPktType = 0,
                     uHeadroomSize = 0, uFlags = 0\<rparr>,
     pNextFreeEntry = None, pNextAggregEntry = None\<rparr>"

text \<open>Allocation zeroes the whole object; \<open>None\<close> when the allocator fails.\<close>

definition txCtrlBlk_Create :: "bool \<Rightarrow> TTxCtrlBlkObj option" where
  "txCtrlBlk_Create alloc_ok =
     (if \<not> alloc_ok then None
      else Some \<lparr>aTxCtrlBlkTbl = replicate CTRL_BLK_ENTRIES_NUM zero_ctrl_blk, uNumUsedEntries = 0\<rparr>)"

definition txCtrlBlk_Destroy :: "TTxCtrlBlkObj option \<Rightarrow> TI_STATUS \<times> TTxCtrlBlkObj option" where
  "txCtrlBlk_Destroy hTxCtrlBlk = (TI_OK, None)"

text \<open>One round of the loop of \<open>txCtrlBlk_Init\<close>; \<open>entry + 1\<close> is the address after the entry.\<close>

definition init_entry :: "nat \<Rightarrow> TTxCtrlBlk \<Rightarrow> TTxCtrlBlk" where
  "init_entry entry b =
     b\<lparr>tTxDescriptor := (tTxDescriptor b)\<lparr>descID := of_nat entry, aid := 1, td_reserved := 0\<rparr>,
       pNextFreeEntry := Some (entry + 1),
       tTxnStruct := TXN_PARAM_SET TXN_LOW_PRIORITY TXN_FUNC_ID_WLAN TXN_DIRECTION_WRITE TXN_FIXED_ADDR
         (tTxnStruct b)\<rparr>"

definition txCtrlBlk_Init :: "TTxCtrlBlkObj \<Rightarrow> TI_STATUS \<times> TTxCtrlBlkObj" where
  "txCtrlBlk_Init o1 =
     (let tbl = foldl (\<lambda>t e. t[e := init_entry e (t ! e)]) (aTxCtrlBlkTbl o1) [0..<CTRL_BLK_ENTRIES_NUM];
          l = CTRL_BLK_ENTRIES_NUM - 1;
          tbl = tbl[l := (tbl ! l)\<lparr>pNextFreeEntry := None\<rparr>]
      in (TI_OK, o1\<lparr>aTxCtrlBlkTbl := tbl, uNumUsedEntries := 0\<rparr>))"

definition set_next :: "nat \<Rightarrow> nat option \<Rightarrow> TTxCtrlBlk list \<Rightarrow> TTxCtrlBlk list" where
  "set_next e v t = t[e := (t ! e)\<lparr>pNextFreeEntry := v\<rparr>]"

text \<open>
  The first entry's link is never null (\<open>cb_inv\<close> below); the source would follow a null
  pointer there, the model returns no entry.
\<close>

definition txCtrlBlk_Alloc :: "TTxCtrlBlkObj \<Rightarrow> nat option \<times> TTxCtrlBlkObj" where
  "txCtrlBlk_Alloc o1 =
     (case pNextFreeEntry (aTxCtrlBlkTbl o1 ! 0) of
        None \<Rightarrow> (None, o1)
      | Some cur \<Rightarrow>
          (case pNextFreeEntry (aTxCtrlBlkTbl o1 ! cur) of
             None \<Rightarrow> (None, o1)
           | Some nxt \<Rightarrow>
               (let t = set_next 0 (Some nxt) (aTxCtrlBlkTbl o1);
                    t = set_next cur None t;
                    t = t[cur := (t ! cur)\<lparr>tTxPktParams :=
                          (tTxPktParams (t ! cur))\<lparr>uFlags := 0, uHeadroomSize := 0\<rparr>\<rparr>]
                in (Some cur, o1\<lparr>aTxCtrlBlkTbl := t, uNumUsedEntries := uNumUsedEntries o1 + 1\<rparr>))))"

definition txCtrlBlk_Free :: "TTxCtrlBlkObj \<Rightarrow> nat \<Rightarrow> TTxCtrlBlkObj" where
  "txCtrlBlk_Free o1 cur =
     (if pNextFreeEntry (aTxCtrlBlkTbl o1 ! cur) \<noteq> None then o1
      else (let t = set_next cur (pNextFreeEntry (aTxCtrlBlkTbl o1 ! 0)) (aTxCtrlBlkTbl o1);
                t = set_next 0 (Some cur) t
            in o1\<lparr>aTxCtrlBlkTbl := t, uNumUsedEntries := uNumUsedEntries o1 - 1\<rparr>))"

text \<open>The index is the entry's address; the table has 160 entries and \<open>descId\<close> is not checked.\<close>

definition txCtrlBlk_GetPointer :: "TTxCtrlBlkObj \<Rightarrow> TI_UINT8 \<Rightarrow> nat" where
  "txCtrlBlk_GetPointer o1 descId = unat descId"

section \<open>The contract of a pool\<close>

text \<open>
  A pool hands out identifiers of \<open>ids\<close> that are not in use, refuses only when all are, and takes
  back exactly those in use; giving back one that is not in use changes nothing.
\<close>

datatype 'a pool_op = Alloc | Release 'a

fun pool_run :: "('s \<Rightarrow> 'a option \<times> 's) \<Rightarrow> ('s \<Rightarrow> 'a \<Rightarrow> 's) \<Rightarrow> 's \<Rightarrow> 'a pool_op list \<Rightarrow> 'a option list \<times> 's" where
  "pool_run alc rel s [] = ([], s)"
| "pool_run alc rel s (Alloc # ops) =
     (let (r, s) = alc s; (rs, s) = pool_run alc rel s ops in (r # rs, s))"
| "pool_run alc rel s (Release a # ops) = pool_run alc rel (rel s a) ops"

text \<open>The results that a correct pool may give when \<open>out\<close> are in use at the start, and what is in use after.\<close>

fun pool_ok :: "'a set \<Rightarrow> 'a set \<Rightarrow> 'a pool_op list \<Rightarrow> 'a option list \<Rightarrow> 'a set \<Rightarrow> bool" where
  "pool_ok ids out [] rs out' = (rs = [] \<and> out' = out)"
| "pool_ok ids out (Alloc # ops) (Some a # rs) out' =
     (a \<in> ids - out \<and> pool_ok ids (insert a out) ops rs out')"
| "pool_ok ids out (Alloc # ops) (None # rs) out' = (out = ids \<and> pool_ok ids out ops rs out')"
| "pool_ok ids out (Alloc # ops) [] out' = False"
| "pool_ok ids out (Release a # ops) rs out' = pool_ok ids (out - {a}) ops rs out'"

locale id_pool =
  fixes ids :: "'a set" and inv :: "'s \<Rightarrow> bool" and used :: "'s \<Rightarrow> 'a set"
    and alc :: "'s \<Rightarrow> 'a option \<times> 's" and rel :: "'s \<Rightarrow> 'a \<Rightarrow> 's"
  assumes alc_some: "inv s \<Longrightarrow> alc s = (Some a, s') \<Longrightarrow> inv s' \<and> a \<in> ids - used s \<and> used s' = insert a (used s)"
    and alc_none: "inv s \<Longrightarrow> alc s = (None, s') \<Longrightarrow> s' = s \<and> used s = ids"
    and rel_law: "inv s \<Longrightarrow> a \<in> ids \<Longrightarrow> inv (rel s a) \<and> used (rel s a) = used s - {a}"
begin

lemma run_ok:
  assumes "inv s" "\<forall>a. Release a \<in> set ops \<longrightarrow> a \<in> ids" "pool_run alc rel s ops = (rs, s')"
  shows "inv s' \<and> pool_ok ids (used s) ops rs (used s')"
  using assms
proof (induction ops arbitrary: s rs)
  case (Cons op ops)
  show ?case
  proof (cases op)
    case Alloc
    obtain r s1 where r: "alc s = (r, s1)" by fastforce
    obtain rs1 where rs1: "pool_run alc rel s1 ops = (rs1, s')" "rs = r # rs1"
      using Cons.prems(3) r by (auto simp: Alloc split: prod.splits)
    show ?thesis
      using r rs1 Cons.IH [of s1 rs1] Cons.prems alc_some [of s _ s1] alc_none [of s s1]
      by (cases r) (auto simp: Alloc)
  next
    case (Release a)
    then show ?thesis
      using Cons.IH [of "rel s a" rs] Cons.prems rel_law [of s a] by auto
  qed
qed simp

end

section \<open>The table is a pool\<close>

fun chain :: "TTxCtrlBlk list \<Rightarrow> nat \<Rightarrow> nat list \<Rightarrow> bool" where
  "chain t a [] = (pNextFreeEntry (t ! a) = None)"
| "chain t a (b # bs) = (pNextFreeEntry (t ! a) = Some b \<and> chain t b bs)"

definition allocable :: "nat set" where
  "allocable = {1..<CTRL_BLK_ENTRIES_NUM - 1}"

definition cb_used :: "TTxCtrlBlkObj \<Rightarrow> nat set" where
  "cb_used o1 = {i \<in> allocable. pNextFreeEntry (aTxCtrlBlkTbl o1 ! i) = None}"

text \<open>The free entries \<open>fl\<close> are chained between entry 0 and the last one, the others have null links.\<close>

definition cb_inv :: "TTxCtrlBlkObj \<Rightarrow> bool" where
  "cb_inv o1 \<longleftrightarrow> length (aTxCtrlBlkTbl o1) = CTRL_BLK_ENTRIES_NUM \<and>
     uNumUsedEntries o1 = of_nat (card (cb_used o1)) \<and>
     (\<exists>fl. distinct fl \<and> set fl = allocable - cb_used o1 \<and>
        chain (aTxCtrlBlkTbl o1) 0 (fl @ [CTRL_BLK_ENTRIES_NUM - 1]))"

lemma chain_frame:
  "(\<And>x. x \<in> set (a # xs) \<Longrightarrow> pNextFreeEntry (t' ! x) = pNextFreeEntry (t ! x)) \<Longrightarrow> chain t' a xs = chain t a xs"
  by (induction xs arbitrary: a) auto

lemma pNext_set_next:
  "e < length t \<Longrightarrow> pNextFreeEntry (set_next e v t ! i) = (if i = e then v else pNextFreeEntry (t ! i))"
  by (simp add: set_next_def nth_list_update)

lemma length_set_next [simp]: "length (set_next e v t) = length t"
  by (simp add: set_next_def)

lemma pNext_update_params:
  "pNextFreeEntry (t[c := (t ! c)\<lparr>tTxPktParams := p\<rparr>] ! i) = pNextFreeEntry (t ! i)"
  by (cases "c < length t"; cases "i = c") (auto simp: nth_list_update list_update_beyond)

lemma allocable_simps [simp]:
  "finite allocable" "0 \<notin> allocable" "159 \<notin> allocable" "i \<in> allocable \<Longrightarrow> i < 159" "i \<in> allocable \<Longrightarrow> i < 160"
  by (simp_all add: allocable_def CTRL_BLK_ENTRIES_NUM_def)

lemma cb_used_sub: "cb_used o1 \<subseteq> allocable" "finite (cb_used o1)"
  by (auto simp: cb_used_def)

text \<open>The invariant names the first free entry.\<close>

lemma cb_inv_first:
  assumes "cb_inv o1"
  obtains (full) "pNextFreeEntry (aTxCtrlBlkTbl o1 ! 0) = Some 159" "pNextFreeEntry (aTxCtrlBlkTbl o1 ! 159) = None"
      "cb_used o1 = allocable"
    | (free) c fl nxt where "pNextFreeEntry (aTxCtrlBlkTbl o1 ! 0) = Some c"
      "pNextFreeEntry (aTxCtrlBlkTbl o1 ! c) = Some nxt" "c \<in> allocable - cb_used o1" "distinct (c # fl)"
      "set (c # fl) = allocable - cb_used o1" "chain (aTxCtrlBlkTbl o1) c (fl @ [159])"
proof -
  obtain fl where fl: "distinct fl" "set fl = allocable - cb_used o1" "chain (aTxCtrlBlkTbl o1) 0 (fl @ [159])"
    using assms by (auto simp: cb_inv_def CTRL_BLK_ENTRIES_NUM_def)
  show ?thesis
  proof (cases fl)
    case Nil
    with fl show ?thesis using cb_used_sub(1) [of o1] by (intro full) auto
  next
    case (Cons c fl')
    with fl(3) obtain nxt where "pNextFreeEntry (aTxCtrlBlkTbl o1 ! c) = Some nxt" by (cases fl') auto
    with fl Cons show ?thesis by (intro free [of c nxt fl']) auto
  qed
qed


lemma cb_usedI:
  assumes "\<And>i. i \<in> allocable \<Longrightarrow> pNextFreeEntry (aTxCtrlBlkTbl o2 ! i) = None \<longleftrightarrow> i \<in> A" "A \<subseteq> allocable"
  shows "cb_used o2 = A"
  using assms by (auto simp: cb_used_def)

lemma cb_invI:
  assumes "length (aTxCtrlBlkTbl o1) = CTRL_BLK_ENTRIES_NUM" "uNumUsedEntries o1 = of_nat (card (cb_used o1))"
    "distinct fl" "set fl = allocable - cb_used o1" "chain (aTxCtrlBlkTbl o1) 0 (fl @ [159])"
  shows "cb_inv o1"
  using assms by (auto simp: cb_inv_def CTRL_BLK_ENTRIES_NUM_def)

lemma txCtrlBlk_Alloc_some:
  assumes inv: "cb_inv o1" and alc: "txCtrlBlk_Alloc o1 = (Some c, o2)"
  shows "cb_inv o2 \<and> c \<in> allocable - cb_used o1 \<and> cb_used o2 = insert c (cb_used o1)"
  using inv
proof (cases rule: cb_inv_first)
  case full
  with alc show ?thesis by (simp add: txCtrlBlk_Alloc_def)
next
  case (free c' fl nxt)
  let ?t = "aTxCtrlBlkTbl o1" and ?t2 = "aTxCtrlBlkTbl o2"
  from alc free have [simp]: "c' = c" by (auto simp: txCtrlBlk_Alloc_def Let_def)
  have len: "length ?t = 160" using inv by (simp add: cb_inv_def CTRL_BLK_ENTRIES_NUM_def)
  have c: "c < 160" "c \<noteq> 0" "c \<notin> cb_used o1" "c \<in> allocable"
    using free(3) by (auto simp: allocable_def CTRL_BLK_ENTRIES_NUM_def)
  have nx: "pNextFreeEntry (?t2 ! i) =
      (if i = c then None else if i = 0 then Some nxt else pNextFreeEntry (?t ! i))" for i
    using alc free(1,2) c len
    by (auto simp: txCtrlBlk_Alloc_def Let_def pNext_update_params pNext_set_next)
  have used: "cb_used o2 = insert c (cb_used o1)"
    by (rule cb_usedI) (use c in \<open>auto simp: nx cb_used_def\<close>)
  have "chain ?t2 0 (fl @ [159])"
  proof (cases fl)
    case Nil
    with free show ?thesis using c by (auto simp: nx)
  next
    case (Cons b bs)
    have "b \<noteq> 0" "c \<notin> set (b # bs @ [159])" "0 \<notin> set (bs @ [159])" 
      using free(4,5) c Cons by (auto simp: allocable_def CTRL_BLK_ENTRIES_NUM_def)
    then have "chain ?t2 b (bs @ [159]) = chain ?t b (bs @ [159])"
      by (intro chain_frame) (auto simp: nx)
    with free Cons c show ?thesis by (auto simp: nx)
  qed
  moreover have "uNumUsedEntries o2 = of_nat (card (cb_used o2))"
    using alc free(1,2) inv c cb_used_sub(2) [of o1] by (auto simp: txCtrlBlk_Alloc_def Let_def used cb_inv_def)
  moreover have "length ?t2 = CTRL_BLK_ENTRIES_NUM"
    using alc free(1,2) inv by (auto simp: txCtrlBlk_Alloc_def Let_def cb_inv_def)
  moreover have "distinct fl" "set fl = allocable - cb_used o2" using free(4,5) used by auto
  ultimately have "cb_inv o2" by (intro cb_invI)
  with used c show ?thesis by simp
qed

lemma txCtrlBlk_Alloc_none:
  assumes "cb_inv o1" "txCtrlBlk_Alloc o1 = (None, o2)"
  shows "o2 = o1 \<and> cb_used o1 = allocable"
  using assms(1)
  by (cases rule: cb_inv_first) (use assms(2) in \<open>auto simp: txCtrlBlk_Alloc_def Let_def\<close>)

lemma txCtrlBlk_Free_law:
  assumes inv: "cb_inv o1" and c: "c \<in> allocable"
  shows "cb_inv (txCtrlBlk_Free o1 c) \<and> cb_used (txCtrlBlk_Free o1 c) = cb_used o1 - {c}"
proof (cases "c \<in> cb_used o1")
  case False
  then have "pNextFreeEntry (aTxCtrlBlkTbl o1 ! c) \<noteq> None" using c by (simp add: cb_used_def)
  with False inv show ?thesis by (simp add: txCtrlBlk_Free_def)
next
  case True
  let ?t = "aTxCtrlBlkTbl o1" and ?o2 = "txCtrlBlk_Free o1 c"
  let ?t2 = "aTxCtrlBlkTbl ?o2"
  obtain fl where fl: "distinct fl" "set fl = allocable - cb_used o1" "chain ?t 0 (fl @ [159])"
    using inv by (auto simp: cb_inv_def CTRL_BLK_ENTRIES_NUM_def)
  have len: "length ?t = 160" using inv by (simp add: cb_inv_def CTRL_BLK_ENTRIES_NUM_def)
  have nn: "pNextFreeEntry (?t ! c) = None" using True by (simp add: cb_used_def)
  have c': "c < 160" "c \<noteq> 0" using c by (auto simp: allocable_def CTRL_BLK_ENTRIES_NUM_def)
  have nx: "pNextFreeEntry (?t2 ! i) =
      (if i = 0 then Some c else if i = c then pNextFreeEntry (?t ! 0) else pNextFreeEntry (?t ! i))" for i
    using c' len nn by (auto simp: txCtrlBlk_Free_def Let_def pNext_set_next)
  have first: "pNextFreeEntry (?t ! 0) \<noteq> None" using fl(3) by (cases fl) auto
  have used: "cb_used ?o2 = cb_used o1 - {c}"
  proof (rule cb_usedI)
    fix i assume i: "i \<in> allocable"
    then have "i \<noteq> 0" by (auto simp: allocable_def)
    with i first show "pNextFreeEntry (?t2 ! i) = None \<longleftrightarrow> i \<in> cb_used o1 - {c}"
      by (simp add: nx cb_used_def)
  qed (auto simp: cb_used_def)
  have out: "0 \<notin> set (fl @ [159])" "c \<notin> set (fl @ [159])" 
    using allocable_simps(2,3) c fl(2) True by (simp, metis (no_types) DiffD2 Un_iff empty_set insertE list.simps(15) empty_iff set_append)
  have "chain ?t2 0 ((c # fl) @ [159])"
  proof (cases fl)
    case Nil
    with fl(3) c' c show ?thesis by (auto simp: nx)
  next
    case (Cons b bs)
    with out have "chain ?t2 b (bs @ [159]) = chain ?t b (bs @ [159])"
      by (intro chain_frame) (auto simp: nx)
    with Cons fl(3) c' show ?thesis by (auto simp: nx)
  qed
  moreover have "uNumUsedEntries ?o2 = of_nat (card (cb_used ?o2))"
  proof -
    have "0 < card (cb_used o1)" using True cb_used_sub(2) [of o1] by (auto simp: card_gt_0_iff)
    then have "of_nat (card (cb_used o1 - {c})) = (of_nat (card (cb_used o1)) - 1 :: TI_UINT32)"
      by (simp only: card_Diff_singleton [OF True] of_nat_diff of_nat_1 Suc_le_eq One_nat_def
            semiring_1_class.of_nat_simps) simp
    then show ?thesis unfolding used using inv nn
      by (simp add: txCtrlBlk_Free_def Let_def cb_inv_def)
  qed
  moreover have "length ?t2 = CTRL_BLK_ENTRIES_NUM"
    using inv by (simp add: txCtrlBlk_Free_def Let_def cb_inv_def)
  moreover have "distinct (c # fl)" "set (c # fl) = allocable - cb_used ?o2"
    using fl True c used by auto
  ultimately have "cb_inv ?o2" by (intro cb_invI)
  with used show ?thesis by simp
qed

interpretation cb: id_pool allocable cb_inv cb_used txCtrlBlk_Alloc txCtrlBlk_Free
  by unfold_locales (rule txCtrlBlk_Alloc_some txCtrlBlk_Alloc_none txCtrlBlk_Free_law; assumption)+

section \<open>Initialisation\<close>

lemma foldl_update_upt:
  assumes "n \<le> length t"
  shows "foldl (\<lambda>t e. t[e := f e (t ! e)]) t [0..<n] = map (\<lambda>e. f e (t ! e)) [0..<n] @ drop n t"
  using assms
proof (induction n)
  case (Suc n)
  then have "drop n t = t ! n # drop (Suc n) t" by (simp add: Cons_nth_drop_Suc)
  with Suc show ?case by (simp add: nth_append list_update_append)
qed simp

lemma txCtrlBlk_Init_nth:
  assumes "length (aTxCtrlBlkTbl o1) = CTRL_BLK_ENTRIES_NUM" "i < CTRL_BLK_ENTRIES_NUM"
  shows "aTxCtrlBlkTbl (snd (txCtrlBlk_Init o1)) ! i =
    (if i = 159 then (init_entry i (aTxCtrlBlkTbl o1 ! i))\<lparr>pNextFreeEntry := None\<rparr>
     else init_entry i (aTxCtrlBlkTbl o1 ! i))"
  using assms
  by (simp add: txCtrlBlk_Init_def Let_def foldl_update_upt nth_list_update) (auto simp: CTRL_BLK_ENTRIES_NUM_def)

lemma length_txCtrlBlk_Init:
  "length (aTxCtrlBlkTbl o1) = CTRL_BLK_ENTRIES_NUM \<Longrightarrow>
   length (aTxCtrlBlkTbl (snd (txCtrlBlk_Init o1))) = CTRL_BLK_ENTRIES_NUM"
  by (simp add: txCtrlBlk_Init_def Let_def foldl_update_upt)

lemma chain_upt:
  assumes "\<And>i. a \<le> i \<Longrightarrow> i < b \<Longrightarrow> pNextFreeEntry (t ! i) = Some (Suc i)"
    and "pNextFreeEntry (t ! b) = None" "a < b"
  shows "chain t a ([Suc a..<b] @ [b])"
  using assms
proof (induction "b - a" arbitrary: a)
  case (Suc n)
  show ?case
  proof (cases "Suc a = b")
    case True
    with Suc.prems show ?thesis by simp
  next
    case False
    with Suc.prems(3) have lt: "Suc a < b" by simp
    with Suc.hyps have "chain t (Suc a) ([Suc (Suc a)..<b] @ [b])"
      by (intro Suc.hyps(1)) (use Suc.prems in auto)
    with lt Suc.prems show ?thesis by (simp add: upt_conv_Cons)
  qed
qed simp

lemma txCtrlBlk_Init_inv:
  assumes "length (aTxCtrlBlkTbl o1) = CTRL_BLK_ENTRIES_NUM"
  shows "cb_inv (snd (txCtrlBlk_Init o1)) \<and> cb_used (snd (txCtrlBlk_Init o1)) = {}"
proof -
  let ?o2 = "snd (txCtrlBlk_Init o1)"
  let ?t2 = "aTxCtrlBlkTbl ?o2"
  have nx: "pNextFreeEntry (?t2 ! i) = (if i = 159 then None else Some (Suc i))" if "i < 160" for i
    using txCtrlBlk_Init_nth [OF assms, of i] that
    by (simp add: CTRL_BLK_ENTRIES_NUM_def init_entry_def)
  have used: "cb_used ?o2 = {}"
    by (rule cb_usedI) (auto simp: nx allocable_def CTRL_BLK_ENTRIES_NUM_def)
  have "chain ?t2 0 ([Suc 0..<159] @ [159])" by (rule chain_upt) (simp_all add: nx)
  then have "cb_inv ?o2"
  proof (rule cb_invI [OF length_txCtrlBlk_Init [OF assms], rotated -1])
    show "uNumUsedEntries ?o2 = of_nat (card (cb_used ?o2))"
      unfolding used by (simp add: txCtrlBlk_Init_def Let_def)
    show "set [Suc 0..<159] = allocable - cb_used ?o2"
      unfolding used by (auto simp: allocable_def CTRL_BLK_ENTRIES_NUM_def)
  qed simp
  with used show ?thesis by simp
qed

text \<open>Allocation and release touch neither the descriptors' identifiers nor the transaction attributes.\<close>

definition cb_fixed :: "TTxCtrlBlkObj \<Rightarrow> (TI_UINT8 \<times> TTxnStruct) list" where
  "cb_fixed o1 = map (\<lambda>b. (descID (tTxDescriptor b), tTxnStruct b)) (aTxCtrlBlkTbl o1)"

lemma cb_fixed_update:
  assumes "descID (tTxDescriptor v) = descID (tTxDescriptor (t ! e))" "tTxnStruct v = tTxnStruct (t ! e)"
  shows "map (\<lambda>b. (descID (tTxDescriptor b), tTxnStruct b)) (t[e := v]) =
    map (\<lambda>b. (descID (tTxDescriptor b), tTxnStruct b)) t"
  by (cases "e < length t") (simp_all add: map_update list_update_same_conv assms list_update_beyond)

lemma cb_fixed_set_next:
  "map (\<lambda>b. (descID (tTxDescriptor b), tTxnStruct b)) (set_next e v t) =
    map (\<lambda>b. (descID (tTxDescriptor b), tTxnStruct b)) t"
  unfolding set_next_def by (rule cb_fixed_update) simp_all

lemma cb_fixed_steps:
  "cb_fixed (snd (txCtrlBlk_Alloc o1)) = cb_fixed o1" "cb_fixed (txCtrlBlk_Free o1 a) = cb_fixed o1"
  unfolding cb_fixed_def txCtrlBlk_Alloc_def txCtrlBlk_Free_def Let_def
  by (auto simp: cb_fixed_update cb_fixed_set_next split: option.splits)

lemma cb_fixed_run:
  "cb_fixed (snd (pool_run txCtrlBlk_Alloc txCtrlBlk_Free o1 ops)) = cb_fixed o1"
proof (induction ops arbitrary: o1)
  case (Cons op ops)
  show ?case
  proof (cases op)
    case Alloc
    with Cons [of "snd (txCtrlBlk_Alloc o1)"] show ?thesis
      by (cases "txCtrlBlk_Alloc o1") (use cb_fixed_steps(1) [of o1] in \<open>auto split: prod.splits\<close>)
  next
    case (Release a)
    with Cons [of "txCtrlBlk_Free o1 a"] show ?thesis by (simp add: cb_fixed_steps)
  qed
qed simp

section \<open>Properties\<close>

text \<open>
  C32. The control blocks are a pool of 158 identifiers: from an initialised table, whatever the order of
  allocations and releases (double releases included), an allocation returns an entry that is not
  in use, neither entry 0 nor the last one, and fails only when all 158 are in use; a release frees
  exactly its entry; and the usage counter is the number of entries in use.
\<close>

theorem txCtrlBlk_pool:
  assumes "length (aTxCtrlBlkTbl o1) = CTRL_BLK_ENTRIES_NUM" "\<forall>a. Release a \<in> set ops \<longrightarrow> a \<in> allocable"
    and "pool_run txCtrlBlk_Alloc txCtrlBlk_Free (snd (txCtrlBlk_Init o1)) ops = (rs, o2)"
  shows "pool_ok allocable {} ops rs (cb_used o2) \<and> uNumUsedEntries o2 = of_nat (card (cb_used o2))"
proof -
  have "cb_inv o2 \<and> pool_ok allocable {} ops rs (cb_used o2)"
    using txCtrlBlk_Init_inv [OF assms(1)] cb.run_ok [OF _ assms(2,3)] by simp
  then show ?thesis by (simp add: cb_inv_def)
qed

theorem txCtrlBlk_pool_witness:
  "\<exists>rs o2. pool_run txCtrlBlk_Alloc txCtrlBlk_Free
      (snd (txCtrlBlk_Init (the (txCtrlBlk_Create True)))) [Alloc, Alloc, Release 5, Release 5] = (rs, o2) \<and>
    pool_ok allocable {} [Alloc, Alloc, Release 5, Release 5] rs (cb_used o2)"
proof -
  let ?o = "the (txCtrlBlk_Create True)" and ?ops = "[Alloc, Alloc, Release 5, Release 5] :: nat pool_op list"
  obtain rs o2 where r: "pool_run txCtrlBlk_Alloc txCtrlBlk_Free (snd (txCtrlBlk_Init ?o)) ?ops = (rs, o2)"
    by (rule prod.exhaust)
  have "length (aTxCtrlBlkTbl ?o) = CTRL_BLK_ENTRIES_NUM" by (simp add: txCtrlBlk_Create_def)
  from txCtrlBlk_pool [OF this _ r] r show ?thesis
    by (auto simp: allocable_def CTRL_BLK_ENTRIES_NUM_def)
qed

text \<open>
  The descriptor identifier that the firmware returns leads back to its control block, and every block
  keeps the bus attributes of a low-priority fixed-address write for the WLAN function, after any
  sequence of allocations and releases.
\<close>

theorem txCtrlBlk_descID_roundtrip:
  assumes "length (aTxCtrlBlkTbl o1) = CTRL_BLK_ENTRIES_NUM" "i < CTRL_BLK_ENTRIES_NUM"
    and "o2 = snd (pool_run txCtrlBlk_Alloc txCtrlBlk_Free (snd (txCtrlBlk_Init o1)) ops)"
  shows "txCtrlBlk_GetPointer o2 (descID (tTxDescriptor (aTxCtrlBlkTbl o2 ! i))) = i \<and>
    TXN_PARAM_GET_FUNC_ID (tTxnStruct (aTxCtrlBlkTbl o2 ! i)) = TXN_FUNC_ID_WLAN \<and>
    TXN_PARAM_GET_PRIORITY (tTxnStruct (aTxCtrlBlkTbl o2 ! i)) = TXN_LOW_PRIORITY \<and>
    TXN_PARAM_GET_DIRECTION (tTxnStruct (aTxCtrlBlkTbl o2 ! i)) = TXN_DIRECTION_WRITE \<and>
    TXN_PARAM_GET_FIXED_ADDR (tTxnStruct (aTxCtrlBlkTbl o2 ! i)) = TXN_FIXED_ADDR"
proof -
  let ?oi = "snd (txCtrlBlk_Init o1)"
  have fixed: "cb_fixed o2 = cb_fixed ?oi" unfolding assms(3) by (rule cb_fixed_run)
  then have len: "length (aTxCtrlBlkTbl o2) = CTRL_BLK_ENTRIES_NUM"
    using length_txCtrlBlk_Init [OF assms(1)] by (metis cb_fixed_def length_map)
  have "cb_fixed o2 ! i = cb_fixed ?oi ! i" by (simp add: fixed)
  with len length_txCtrlBlk_Init [OF assms(1)] assms(2) txCtrlBlk_Init_nth [OF assms(1,2)]
  have "descID (tTxDescriptor (aTxCtrlBlkTbl o2 ! i)) = of_nat i \<and>
      tTxnStruct (aTxCtrlBlkTbl o2 ! i) = TXN_PARAM_SET TXN_LOW_PRIORITY TXN_FUNC_ID_WLAN
        TXN_DIRECTION_WRITE TXN_FIXED_ADDR (tTxnStruct (aTxCtrlBlkTbl o1 ! i))"
    by (simp add: cb_fixed_def init_entry_def split: if_splits)
  moreover have "unat (of_nat i :: TI_UINT8) = i"
    using assms(2) by (simp add: CTRL_BLK_ENTRIES_NUM_def unat_of_nat)
  ultimately show ?thesis
    by (simp add: txCtrlBlk_GetPointer_def TXN_PARAM_SET_get TXN_LOW_PRIORITY_def TXN_FUNC_ID_WLAN_def
        TXN_DIRECTION_WRITE_def TXN_FIXED_ADDR_def)
qed

theorem txCtrlBlk_descID_roundtrip_witness:
  "txCtrlBlk_GetPointer (snd (txCtrlBlk_Init (the (txCtrlBlk_Create True))))
     (descID (tTxDescriptor (aTxCtrlBlkTbl (snd (txCtrlBlk_Init (the (txCtrlBlk_Create True)))) ! 159))) = 159"
  using txCtrlBlk_descID_roundtrip 
    [of "the (txCtrlBlk_Create True)" 159 "snd (txCtrlBlk_Init (the (txCtrlBlk_Create True)))" "[]"]
  by (simp add: txCtrlBlk_Create_def CTRL_BLK_ENTRIES_NUM_def)

end
