(* ===== verification/WlTxHwQueue.thy ===== *)
theory WlTxHwQueue
  imports WlTxCtrlBlk
begin

text \<open>
  Accounting of the firmware's transmit memory, \<^verbatim>\<open>TWD/Data_Service/txHwQueue.c\<close>: blocks
  of 252 bytes are estimated and charged to the packet's access category before it is sent, some are
  reserved per category, and the firmware's counters of freed blocks and finished packets give them
  back. All counters keep their C widths; the firmware status is little-endian, as the host's, so
  the \<open>ENDIAN_HANDLE\<close> macros are the identity.
\<close>

section \<open>Data\<close>

definition MAX_NUM_OF_AC :: nat where "MAX_NUM_OF_AC = 4"
definition NUM_TX_DESCRIPTORS :: TI_UINT32 where "NUM_TX_DESCRIPTORS = 32"
definition BLKS_HW_ALLOC_SPARE :: TI_UINT32 where "BLKS_HW_ALLOC_SPARE = 2"
definition MAX_HEADER_SIZE :: TI_UINT32 where "MAX_HEADER_SIZE = 48"

text \<open>Access categories are numbered as in \<^verbatim>\<open>tiQosTypes.h\<close>.\<close>

definition QOS_AC_BE :: nat where "QOS_AC_BE = 0"
definition QOS_AC_BK :: nat where "QOS_AC_BK = 1"
definition QOS_AC_VI :: nat where "QOS_AC_VI = 2"
definition QOS_AC_VO :: nat where "QOS_AC_VO = 3"

definition WMEQosTagToACTable :: "nat list" where
  "WMEQosTagToACTable =
    [QOS_AC_BE, QOS_AC_BK, QOS_AC_BK, QOS_AC_BE, QOS_AC_VI, QOS_AC_VI, QOS_AC_VO, QOS_AC_VO]"

datatype ETxHwQueStatus =
    TX_HW_QUE_STATUS_SUCCESS
  | TX_HW_QUE_STATUS_STOP_CURRENT
  | TX_HW_QUE_STATUS_STOP_NEXT

record TTxHwQueueInfo =
  uNumBlksThresh :: TI_UINT32
  uNumBlksUsed :: TI_UINT32
  uNumBlksReserved :: TI_UINT32
  uAllocatedBlksCntr :: TI_UINT32
  uFwFreedBlksCntr :: TI_UINT32
  uNumBlksCausedBusy :: TI_UINT32
  bQueueBusy :: bool

text \<open>The callback is \<open>None\<close> until it is registered; its handle is part of it.\<close>

record TTxHwQueue =
  fUpdateBusyMapCb :: "(addr \<times> addr) option"
  uNumTotalBlks :: TI_UINT32
  uNumTotalBlksFree :: TI_UINT32
  uNumTotalBlksReserved :: TI_UINT32
  uNumUsedDescriptors :: TI_UINT32
  uFwTxResultsCntr :: TI_UINT8
  uDrvTxPacketsCntr :: TI_UINT8
  aTxHwQueueInfo :: "TTxHwQueueInfo list"

section \<open>Configuration\<close>

definition txHwQueue_Create :: "bool \<Rightarrow> TTxHwQueue option" where
  "txHwQueue_Create alloc_ok =
     (if \<not> alloc_ok then None
      else Some \<lparr>fUpdateBusyMapCb = None, uNumTotalBlks = 0, uNumTotalBlksFree = 0,
        uNumTotalBlksReserved = 0, uNumUsedDescriptors = 0, uFwTxResultsCntr = 0, uDrvTxPacketsCntr = 0,
        aTxHwQueueInfo = replicate MAX_NUM_OF_AC
          \<lparr>uNumBlksThresh = 0, uNumBlksUsed = 0, uNumBlksReserved = 0, uAllocatedBlksCntr = 0,
           uFwFreedBlksCntr = 0, uNumBlksCausedBusy = 0, bQueueBusy = False\<rparr>\<rparr>)"

definition txHwQueue_Destroy :: "TTxHwQueue option \<Rightarrow> TI_STATUS \<times> TTxHwQueue option" where
  "txHwQueue_Destroy h = (TI_OK, None)"

text \<open>\<open>TxBlocksThresholdPerAc\<close> of the initialisation parameters holds bytes.\<close>

definition txHwQueue_Config :: "TTxHwQueue \<Rightarrow> TI_UINT8 list \<Rightarrow> TTxHwQueue" where
  "txHwQueue_Config q thr =
     q\<lparr>aTxHwQueueInfo := foldl (\<lambda>a i. a[i := (a ! i)\<lparr>uNumBlksThresh := ucast (thr ! i)\<rparr>])
         (aTxHwQueueInfo q) [0..<MAX_NUM_OF_AC]\<rparr>"

definition restart_info :: "TTxHwQueueInfo \<Rightarrow> TTxHwQueueInfo" where
  "restart_info i =
     i\<lparr>uNumBlksUsed := 0, uAllocatedBlksCntr := 0, uFwFreedBlksCntr := 0, uNumBlksCausedBusy := 0,
       bQueueBusy := False, uNumBlksReserved := uNumBlksThresh i\<rparr>"

definition txHwQueue_Restart :: "TTxHwQueue \<Rightarrow> TTxHwQueue" where
  "txHwQueue_Restart q =
     (let q = q\<lparr>uNumTotalBlksFree := uNumTotalBlks q, uNumTotalBlksReserved := 0,
                uNumUsedDescriptors := 0, uFwTxResultsCntr := 0, uDrvTxPacketsCntr := 0\<rparr>
      in foldl (\<lambda>q i.
           (let info = restart_info (aTxHwQueueInfo q ! i)
            in q\<lparr>aTxHwQueueInfo := (aTxHwQueueInfo q)[i := info],
                 uNumTotalBlksReserved := uNumTotalBlksReserved q + uNumBlksReserved info\<rparr>))
         q [0..<MAX_NUM_OF_AC])"

definition txHwQueue_SetHwInfo :: "TTxHwQueue \<Rightarrow> TI_UINT32 \<Rightarrow> TTxHwQueue" where
  "txHwQueue_SetHwInfo q NumTxBlocks = txHwQueue_Restart (q\<lparr>uNumTotalBlks := NumTxBlocks - 1\<rparr>)"

text \<open>\<open>TWD_INT_UPDATE_BUSY_MAP\<close> is the only identifier that is accepted.\<close>

definition txHwQueue_RegisterCb :: "TTxHwQueue \<Rightarrow> bool \<Rightarrow> addr \<Rightarrow> addr \<Rightarrow> TTxHwQueue" where
  "txHwQueue_RegisterCb q is_UPDATE_BUSY_MAP fCbFunc hCbHndl =
     (if is_UPDATE_BUSY_MAP
      then q\<lparr>fUpdateBusyMapCb := (if fCbFunc = 0 then None else Some (fCbFunc, hCbHndl))\<rparr>
      else q)"

section \<open>Allocation\<close>

text \<open>The rough estimate of \<open>txHwQueue_AllocResources\<close>, before and with the spare blocks.\<close>

definition hw_blocks :: "TI_UINT16 \<Rightarrow> TI_UINT32" where
  "hw_blocks len =
     (let uNumBlksToAlloc = drop_bit 8 (ucast len + 20);
          uExcludedLength = push_bit 2 uNumBlksToAlloc + ((ucast len + 20) AND 0xFF) + MAX_HEADER_SIZE - 14;
          uNumBlksToAlloc = uNumBlksToAlloc + (if uExcludedLength > 252 then 2 else 1)
      in uNumBlksToAlloc + BLKS_HW_ALLOC_SPARE)"

definition txHwQueue_CheckResources :: "TTxHwQueue \<Rightarrow> TTxHwQueueInfo \<Rightarrow> TI_UINT32" where
  "txHwQueue_CheckResources q info =
     (if uNumUsedDescriptors q < NUM_TX_DESCRIPTORS
      then uNumTotalBlksFree q - (uNumTotalBlksReserved q - uNumBlksReserved info)
      else 0)"

definition txHwQueue_AllocResources ::
  "TTxHwQueue \<Rightarrow> TxIfDescriptor_t \<Rightarrow> ETxHwQueStatus \<times> TTxHwQueue \<times> TxIfDescriptor_t" where
  "txHwQueue_AllocResources q d =
     (let uNumBlksToAlloc = hw_blocks (td_length d);
          uQueueId = WMEQosTagToACTable ! unat (td_tid d);
          info = aTxHwQueueInfo q ! uQueueId;
          uAvailableBlks = txHwQueue_CheckResources q info
      in if uNumBlksToAlloc > uAvailableBlks then
           (TX_HW_QUE_STATUS_STOP_CURRENT,
            q\<lparr>aTxHwQueueInfo := (aTxHwQueueInfo q)[uQueueId :=
                info\<lparr>uNumBlksCausedBusy := uNumBlksToAlloc, bQueueBusy := True\<rparr>]\<rparr>, d)
         else
           (let d = d\<lparr>extraMemBlks := ucast BLKS_HW_ALLOC_SPARE, totalMemBlks := ucast uNumBlksToAlloc\<rparr>;
                q = q\<lparr>uNumUsedDescriptors := uNumUsedDescriptors q + 1,
                      uDrvTxPacketsCntr := uDrvTxPacketsCntr q + 1\<rparr>;
                uReservedBlks = uNumBlksReserved info;
                info = info\<lparr>uAllocatedBlksCntr := uAllocatedBlksCntr info + uNumBlksToAlloc\<rparr>;
                (info, tot) =
                  (if uReservedBlks \<noteq> 0 then
                     if uNumBlksToAlloc > uReservedBlks
                     then (info\<lparr>uNumBlksReserved := 0\<rparr>, uNumTotalBlksReserved q - uReservedBlks)
                     else (info\<lparr>uNumBlksReserved := uReservedBlks - uNumBlksToAlloc\<rparr>,
                           uNumTotalBlksReserved q - uNumBlksToAlloc)
                   else (info, uNumTotalBlksReserved q));
                info = info\<lparr>uNumBlksUsed := uNumBlksUsed info + uNumBlksToAlloc\<rparr>;
                q = q\<lparr>uNumTotalBlksReserved := tot,
                      uNumTotalBlksFree := uNumTotalBlksFree q - uNumBlksToAlloc\<rparr>
            in if push_bit 1 uNumBlksToAlloc > uAvailableBlks
               then (TX_HW_QUE_STATUS_STOP_NEXT,
                     q\<lparr>aTxHwQueueInfo := (aTxHwQueueInfo q)[uQueueId :=
                         info\<lparr>uNumBlksCausedBusy := uNumBlksToAlloc, bQueueBusy := True\<rparr>]\<rparr>, d)
               else (TX_HW_QUE_STATUS_SUCCESS,
                     q\<lparr>aTxHwQueueInfo := (aTxHwQueueInfo q)[uQueueId := info]\<rparr>, d)))"

section \<open>Release\<close>

definition txHwQueue_UpdateFreeBlocks :: "TTxHwQueue \<Rightarrow> nat \<Rightarrow> TI_UINT32 \<Rightarrow> TTxHwQueue" where
  "txHwQueue_UpdateFreeBlocks q uQueueId uFreeBlocks =
     (let info = aTxHwQueueInfo q ! uQueueId
      in if uFreeBlocks = uFwFreedBlksCntr info then q
         else
           (let newUsedBlks = uAllocatedBlksCntr info - uFreeBlocks;
                numBlksToFree = uNumBlksUsed info - newUsedBlks;
                info = info\<lparr>uFwFreedBlksCntr := uFreeBlocks, uNumBlksUsed := newUsedBlks\<rparr>;
                lowThreshold = uNumBlksThresh info;
                (info, tot) =
                  (if newUsedBlks < lowThreshold then
                     (let newReserved = lowThreshold - newUsedBlks
                      in (info\<lparr>uNumBlksReserved := newReserved\<rparr>,
                          uNumTotalBlksReserved q +
                            (if numBlksToFree > newReserved then newReserved else numBlksToFree)))
                   else (info, uNumTotalBlksReserved q))
            in q\<lparr>uNumTotalBlksFree := uNumTotalBlksFree q + numBlksToFree,
                 uNumTotalBlksReserved := tot,
                 aTxHwQueueInfo := (aTxHwQueueInfo q)[uQueueId := info]\<rparr>))"

text \<open>The used descriptors from the firmware's results counter; both counters are bytes.\<close>

definition update_descriptors :: "TTxHwQueue \<Rightarrow> TI_UINT8 \<Rightarrow> TTxHwQueue" where
  "update_descriptors q txResultsCntr =
     (if txResultsCntr \<noteq> uFwTxResultsCntr q then
        q\<lparr>uFwTxResultsCntr := txResultsCntr,
          uNumUsedDescriptors :=
            (if txResultsCntr \<le> uDrvTxPacketsCntr q
             then ucast (uDrvTxPacketsCntr q) - ucast txResultsCntr
             else 0x100 - (ucast txResultsCntr - ucast (uDrvTxPacketsCntr q)))\<rparr>
      else q)"

text \<open>One round of the loop that wakes the stopped queues: the queue and the backpressure bitmap.\<close>

definition wake_queue :: "TTxHwQueue \<times> TI_UINT32 \<Rightarrow> nat \<Rightarrow> TTxHwQueue \<times> TI_UINT32" where
  "wake_queue = (\<lambda>(q, uBackpressure) i.
     (let info = aTxHwQueueInfo q ! i
      in if bQueueBusy info \<and> uNumBlksCausedBusy info \<le> txHwQueue_CheckResources q info
         then (q\<lparr>aTxHwQueueInfo := (aTxHwQueueInfo q)[i := info\<lparr>bQueueBusy := False\<rparr>]\<rparr>,
               uBackpressure OR push_bit i 1)
         else (q, uBackpressure)))"

text \<open>
  \<open>txReleasedBlks\<close> and \<open>txResultsCntr\<close> are the fields of the firmware status that are read. The last
  component of the result is the bitmap that the callback is called with, if it is.
\<close>

definition txHwQueue_UpdateFreeResources ::
  "TTxHwQueue \<Rightarrow> TI_UINT8 \<Rightarrow> TI_UINT32 list \<Rightarrow> TTxHwQueue \<times> TI_UINT32 option" where
  "txHwQueue_UpdateFreeResources q txResultsCntr txReleasedBlks =
     (let q = update_descriptors q txResultsCntr;
          q = foldl (\<lambda>q i. txHwQueue_UpdateFreeBlocks q i (txReleasedBlks ! i)) q [0..<MAX_NUM_OF_AC];
          (q, uBackpressure) = foldl wake_queue (q, 0) [0..<MAX_NUM_OF_AC]
      in (q, if uBackpressure > 0 \<and> fUpdateBusyMapCb q \<noteq> None then Some uBackpressure else None))"

section \<open>The estimate of the blocks\<close>

lemma hw_blocks_unat:
  "unat (hw_blocks len) =
     (let n = unat len + 20; b = n div 256 in b + (if 4 * b + n mod 256 + 34 > 252 then 4 else 3))"
proof -
  define n where "n = unat len + 20"
  have len: "unat len < 65536" using unsigned_less [of len, where ?'a = nat] by simp
  have uc: "unat (ucast len :: TI_UINT32) = unat len"
    using len by (simp add: unsigned_ucast_eq take_bit_nat_eq_self)
  have 0: "unat (ucast len + 20 :: TI_UINT32) = n"
    using len uc by (simp add: unat_word_ariths n_def)
  have n: "n < 65556" using len by (simp add: n_def)
  have b: "unat (drop_bit 8 (ucast len + 20 :: TI_UINT32)) = n div 256"
    using n by (simp only: unsigned_drop_bit_eq 0) (simp add: drop_bit_eq_div take_bit_nat_eq_self)
  have "(ucast len + 20 :: TI_UINT32) AND 0xFF = take_bit 8 (ucast len + 20)"
    by (simp add: take_bit_eq_mask mask_eq_exp_minus_1)
  then have r: "unat ((ucast len + 20 :: TI_UINT32) AND 0xFF) = n mod 256"
    by (simp only: unsigned_take_bit_eq 0) (simp add: take_bit_eq_mod)
  let ?b = "drop_bit 8 (ucast len + 20) :: TI_UINT32"
  have e: "unat (push_bit 2 ?b + ((ucast len + 20) AND 0xFF) + MAX_HEADER_SIZE - 14) = 4 * (n div 256) + n mod 256 + 34"
  proof -
    have "unat (push_bit 2 ?b) = 4 * (n div 256)"
      using n b by (simp add: push_bit_eq_mult unat_word_ariths)
    then have "unat (push_bit 2 ?b + ((ucast len + 20) AND 0xFF)) = 4 * (n div 256) + n mod 256"
      using n r by (simp add: unat_word_ariths)
    then have "unat (push_bit 2 ?b + ((ucast len + 20) AND 0xFF) + MAX_HEADER_SIZE) = 4 * (n div 256) + n mod 256 + 48"
      using n by (simp add: unat_word_ariths MAX_HEADER_SIZE_def)
    then show ?thesis by (simp add: unat_sub word_le_nat_alt)
  qed
  have w: "unat (?b + c + d) = n div 256 + unat c + unat d" if "unat c \<le> 2" "unat d \<le> 2" for c d :: TI_UINT32
    using n b that by (simp add: unat_word_ariths)
  have "252 < push_bit 2 ?b + ((ucast len + 20) AND 0xFF) + MAX_HEADER_SIZE - 14 \<longleftrightarrow>
      252 < 4 * (n div 256) + n mod 256 + 34"
    by (simp only: word_less_nat_alt e) simp
  then show ?thesis
    by (auto simp: hw_blocks_def Let_def n_def [symmetric] BLKS_HW_ALLOC_SPARE_def w)
qed

lemma hw_blocks_exact:
  assumes "unat len \<le> 13803"
  shows "unat (hw_blocks len) = (unat len + 54 + 251) div 252 + 2"
proof -
  define b r where "b = (unat len + 20) div 256" and "r = (unat len + 20) mod 256"
  have n: "unat len + 20 = 256 * b + r" "r < 256" by (simp_all add: b_def r_def)
  have "b \<le> 53" using n assms by simp
  have "unat (hw_blocks len) = b + (if 4 * b + r + 34 > 252 then 4 else 3)"
    by (simp add: hw_blocks_unat Let_def b_def r_def)
  moreover have "unat len + 54 + 251 = 252 * b + (4 * b + r + 285)" using n by simp
  moreover have "(252 * b + (4 * b + r + 285)) div 252 = b + (4 * b + r + 285) div 252" by simp
  moreover have "(4 * b + r + 285) div 252 = (if 4 * b + r + 34 > 252 then 2 else 1)"
    using \<open>b \<le> 53\<close> n(2) by (auto intro!: div_nat_eqI)
  ultimately show ?thesis by auto
qed

section \<open>The invariant of the accounting\<close>

definition sum_over :: "('a \<Rightarrow> TI_UINT32) \<Rightarrow> 'a list \<Rightarrow> nat" where
  "sum_over f xs = sum_list (map (\<lambda>x. unat (f x)) xs)"

lemma sum_over_update:
  "i < length xs \<Longrightarrow> sum_over f (xs[i := x]) + unat (f (xs ! i)) = sum_over f xs + unat (f x)"
proof (induction xs arbitrary: i)
  case (Cons y ys)
  show ?case
  proof (cases i)
    case 0
    then show ?thesis by (simp add: sum_over_def)
  next
    case (Suc j)
    with Cons.IH [of j] Cons.prems show ?thesis by (simp add: sum_over_def)
  qed
qed simp

lemma sum_over_nth: "i < length xs \<Longrightarrow> unat (f (xs ! i)) \<le> sum_over f xs"
proof (induction xs arbitrary: i)
  case (Cons y ys)
  then show ?case by (cases i) (auto simp: sum_over_def intro: trans_le_add2)
qed simp

text \<open>
  Per queue: what is reserved is what is missing up to the threshold, and what is used is the
  difference of the two counters. In total: used and free blocks make up all blocks, and the
  reserved ones are free. Free descriptors are counted by the byte counters.
\<close>

definition info_ok :: "TTxHwQueueInfo \<Rightarrow> bool" where
  "info_ok i \<longleftrightarrow> unat (uNumBlksReserved i) = unat (uNumBlksThresh i) - unat (uNumBlksUsed i) \<and>
     uNumBlksUsed i = uAllocatedBlksCntr i - uFwFreedBlksCntr i"

definition hwq_inv :: "TTxHwQueue \<Rightarrow> bool" where
  "hwq_inv q \<longleftrightarrow> length (aTxHwQueueInfo q) = MAX_NUM_OF_AC \<and> (\<forall>i\<in>set (aTxHwQueueInfo q). info_ok i) \<and>
     unat (uNumTotalBlksFree q) + sum_over uNumBlksUsed (aTxHwQueueInfo q) = unat (uNumTotalBlks q) \<and>
     unat (uNumTotalBlksReserved q) = sum_over uNumBlksReserved (aTxHwQueueInfo q) \<and>
     uNumTotalBlksReserved q \<le> uNumTotalBlksFree q \<and>
     uNumUsedDescriptors q = ucast (uDrvTxPacketsCntr q - uFwTxResultsCntr q) \<and>
     uNumUsedDescriptors q \<le> NUM_TX_DESCRIPTORS"

lemma CheckResources_unat:
  assumes "hwq_inv q" "i < MAX_NUM_OF_AC" "uNumUsedDescriptors q < NUM_TX_DESCRIPTORS"
  shows "unat (txHwQueue_CheckResources q (aTxHwQueueInfo q ! i)) + unat (uNumTotalBlksReserved q) =
      unat (uNumTotalBlksFree q) + unat (uNumBlksReserved (aTxHwQueueInfo q ! i))"
    "uNumBlksReserved (aTxHwQueueInfo q ! i) \<le> uNumTotalBlksReserved q"
proof -
  have res: "unat (uNumBlksReserved (aTxHwQueueInfo q ! i)) \<le> unat (uNumTotalBlksReserved q)"
    using assms sum_over_nth [of i "aTxHwQueueInfo q" uNumBlksReserved] by (simp add: hwq_inv_def)
  moreover have "unat (uNumTotalBlksReserved q) \<le> unat (uNumTotalBlksFree q)"
    using assms(1) by (simp add: hwq_inv_def word_le_nat_alt)
  ultimately show "unat (txHwQueue_CheckResources q (aTxHwQueueInfo q ! i)) + unat (uNumTotalBlksReserved q) =
      unat (uNumTotalBlksFree q) + unat (uNumBlksReserved (aTxHwQueueInfo q ! i))"
    using assms(3) by (simp add: txHwQueue_CheckResources_def unat_sub_small)
  from res show "uNumBlksReserved (aTxHwQueueInfo q ! i) \<le> uNumTotalBlksReserved q"
    by (simp add: word_le_nat_alt)
qed

text \<open>Replacing the numbers of one queue; the other clauses of the invariant concern the totals.\<close>

lemma hwq_inv_update:
  assumes inv: "hwq_inv q" and i: "i < MAX_NUM_OF_AC" and ok: "info_ok info"
    and thr: "aTxHwQueueInfo q' = (aTxHwQueueInfo q)[i := info]"
    and tot: "uNumTotalBlks q' = uNumTotalBlks q"
    and free: "unat (uNumTotalBlksFree q') + unat (uNumBlksUsed info) =
      unat (uNumTotalBlksFree q) + unat (uNumBlksUsed (aTxHwQueueInfo q ! i))"
    and res: "unat (uNumTotalBlksReserved q') + unat (uNumBlksReserved (aTxHwQueueInfo q ! i)) =
      unat (uNumTotalBlksReserved q) + unat (uNumBlksReserved info)"
    and le: "uNumTotalBlksReserved q' \<le> uNumTotalBlksFree q'"
    and desc: "uNumUsedDescriptors q' = ucast (uDrvTxPacketsCntr q' - uFwTxResultsCntr q')"
      "uNumUsedDescriptors q' \<le> NUM_TX_DESCRIPTORS"
  shows "hwq_inv q'"
proof -
  have len: "i < length (aTxHwQueueInfo q)" using inv i by (simp add: hwq_inv_def)
  have "\<forall>x\<in>set (aTxHwQueueInfo q'). info_ok x"
    using inv ok set_update_subset_insert [of "aTxHwQueueInfo q" i info] by (auto simp: hwq_inv_def thr)
  with inv len tot free res le desc sum_over_update [OF len, of uNumBlksUsed info]
    sum_over_update [OF len, of uNumBlksReserved info]
  show ?thesis by (simp add: hwq_inv_def thr)
qed

lemma info_ok_nth: "hwq_inv q \<Longrightarrow> i < MAX_NUM_OF_AC \<Longrightarrow> info_ok (aTxHwQueueInfo q ! i)"
  by (auto simp: hwq_inv_def)

lemma hwq_used_free:
  assumes "hwq_inv q" "i < MAX_NUM_OF_AC"
  shows "unat (uNumTotalBlksFree q) + unat (uNumBlksUsed (aTxHwQueueInfo q ! i)) \<le> unat (uNumTotalBlks q)"
  using assms sum_over_nth [of i "aTxHwQueueInfo q" uNumBlksUsed] by (simp add: hwq_inv_def)

lemma tid_queue: "unat tid < 8 \<Longrightarrow> WMEQosTagToACTable ! unat (tid :: TI_UINT8) < MAX_NUM_OF_AC"
  by (auto simp: WMEQosTagToACTable_def QOS_AC_BE_def QOS_AC_BK_def QOS_AC_VI_def QOS_AC_VO_def
      MAX_NUM_OF_AC_def nth_Cons less_Suc_eq numeral_eq_Suc split: nat.splits)

text \<open>The busy flag and its block count are free of constraints.\<close>

lemma hwq_inv_busy:
  assumes "hwq_inv q" "i < MAX_NUM_OF_AC" "info = aTxHwQueueInfo q ! i"
  shows "hwq_inv (q\<lparr>aTxHwQueueInfo := (aTxHwQueueInfo q)[i := info\<lparr>uNumBlksCausedBusy := n, bQueueBusy := b\<rparr>]\<rparr>)"
    "hwq_inv (q\<lparr>aTxHwQueueInfo := (aTxHwQueueInfo q)[i := info\<lparr>bQueueBusy := b\<rparr>]\<rparr>)"
  using assms info_ok_nth [OF assms(1,2)]
  by (auto intro!: hwq_inv_update [OF assms(1,2)] simp: info_ok_def, auto simp: hwq_inv_def)

lemma unat_ucast_8_32 [simp]: "unat (ucast (k :: TI_UINT8) :: TI_UINT32) = unat k"
  using unsigned_less [of k, where ?'a = nat] by (simp add: unsigned_ucast_eq take_bit_nat_eq_self)

lemma ucast_8_32_Suc:
  fixes k :: TI_UINT8
  assumes "unat k < 255"
  shows "(ucast k :: TI_UINT32) + 1 = ucast (k + 1)"
  using assms by (simp add: word_unat_eq_iff unat_Suc_word)

text \<open>
  The numbers after a successful allocation of \<open>n\<close> blocks for queue \<open>i\<close>; whether the queue is
  then marked busy makes no difference to them.
\<close>

lemma hwq_inv_alloc:
  assumes inv: "hwq_inv q" and i: "i < MAX_NUM_OF_AC" and n: "n \<noteq> 0"
    and av: "n \<le> txHwQueue_CheckResources q (aTxHwQueueInfo q ! i)"
    and used: "uNumBlksUsed info = uNumBlksUsed (aTxHwQueueInfo q ! i) + n"
    and cnt: "uAllocatedBlksCntr info = uAllocatedBlksCntr (aTxHwQueueInfo q ! i) + n"
      "uFwFreedBlksCntr info = uFwFreedBlksCntr (aTxHwQueueInfo q ! i)"
      "uNumBlksThresh info = uNumBlksThresh (aTxHwQueueInfo q ! i)"
    and res: "uNumBlksReserved info = uNumBlksReserved (aTxHwQueueInfo q ! i) -
        min n (uNumBlksReserved (aTxHwQueueInfo q ! i))"
    and tot: "tot = uNumTotalBlksReserved q - min n (uNumBlksReserved (aTxHwQueueInfo q ! i))"
  shows "hwq_inv (q\<lparr>uNumUsedDescriptors := uNumUsedDescriptors q + 1,
      uDrvTxPacketsCntr := uDrvTxPacketsCntr q + 1, uNumTotalBlksReserved := tot,
      uNumTotalBlksFree := uNumTotalBlksFree q - n, aTxHwQueueInfo := (aTxHwQueueInfo q)[i := info]\<rparr>)"
proof -
  let ?o = "aTxHwQueueInfo q ! i"
  have lt: "uNumUsedDescriptors q < NUM_TX_DESCRIPTORS"
    using av n by (auto simp: txHwQueue_CheckResources_def split: if_splits)
  note chk = CheckResources_unat [OF inv i lt]
  have av': "unat n \<le> unat (txHwQueue_CheckResources q ?o)" using av by (simp add: word_le_nat_alt)
  have rr: "unat (uNumBlksReserved ?o) \<le> unat (uNumTotalBlksReserved q)"
    using chk(2) by (simp add: word_le_nat_alt)
  have le: "unat (uNumTotalBlksReserved q) \<le> unat (uNumTotalBlksFree q)"
    using inv by (simp add: hwq_inv_def word_le_nat_alt)
  have nfree: "unat n \<le> unat (uNumTotalBlksFree q)" using av' chk(1) rr by linarith
  have m: "unat (min n (uNumBlksReserved ?o)) = min (unat n) (unat (uNumBlksReserved ?o))"
    by (simp add: min_def word_le_nat_alt)
  have free': "unat (uNumTotalBlksFree q - n) = unat (uNumTotalBlksFree q) - unat n"
    using nfree by (rule unat_sub_small)
  have used': "unat (uNumBlksUsed info) = unat (uNumBlksUsed ?o) + unat n"
  proof -
    have "unat (uNumBlksUsed ?o) + unat n \<le> unat (uNumTotalBlks q)"
      using hwq_used_free [OF inv i] nfree by linarith
    also have "\<dots> < 2 ^ 32" using unsigned_less [of "uNumTotalBlks q", where ?'a = nat] by simp
    finally show ?thesis unfolding used by (intro unat_add_small) simp
  qed
  have res': "unat (uNumBlksReserved info) = unat (uNumBlksReserved ?o) - unat n"
    unfolding res by (subst unat_sub_small) (simp_all add: m)
  have tot': "unat tot = unat (uNumTotalBlksReserved q) - min (unat n) (unat (uNumBlksReserved ?o))"
    unfolding tot using rr by (subst unat_sub_small) (simp_all add: m)
  have ok: "info_ok info"
    using info_ok_nth [OF inv i] used' res' by (simp add: info_ok_def used cnt)
  let ?k = "uDrvTxPacketsCntr q - uFwTxResultsCntr q"
  have d: "uNumUsedDescriptors q = ucast ?k" using inv by (simp add: hwq_inv_def)
  with lt have "unat ?k < 32" by (simp add: NUM_TX_DESCRIPTORS_def word_less_nat_alt)
  then have d': "uNumUsedDescriptors q + 1 = ucast (uDrvTxPacketsCntr q + 1 - uFwTxResultsCntr q)"
    using ucast_8_32_Suc [of ?k] by (simp add: d algebra_simps)
  have le': "tot \<le> uNumTotalBlksFree q - n"
    using av' chk(1) rr le by (simp add: word_le_nat_alt free' tot')
  have dl: "uNumUsedDescriptors q + 1 \<le> NUM_TX_DESCRIPTORS" using lt by (rule inc_le)
  show ?thesis
    by (rule hwq_inv_update [OF inv i ok])
       (use nfree rr used' free' res' tot' d' dl le' in simp_all)
qed

lemma hw_blocks_bounds: "3 \<le> unat (hw_blocks len)" "unat (hw_blocks len) < 1000"
proof -
  have "unat len < 65536" using unsigned_less [of len, where ?'a = nat] by simp
  then have "(unat len + 20) div 256 \<le> 256" by (simp add: div_le_mono [of _ 65555 256, simplified])
  then show "3 \<le> unat (hw_blocks len)" "unat (hw_blocks len) < 1000"
    by (simp_all add: hw_blocks_unat Let_def)
qed

lemma txHwQueue_AllocResources_inv [inv_rules]:
  assumes inv: "hwq_inv q" and tid: "unat (td_tid d) < 8" and alc: "txHwQueue_AllocResources q d = (st, q', d')"
  shows "hwq_inv q'"
proof (cases "hw_blocks (td_length d) >
    txHwQueue_CheckResources q (aTxHwQueueInfo q ! (WMEQosTagToACTable ! unat (td_tid d)))")
  case True
  then show ?thesis using alc hwq_inv_busy(1) [OF inv tid_queue [OF tid] refl]
    by (auto simp: txHwQueue_AllocResources_def Let_def)
next
  case False
  let ?n = "hw_blocks (td_length d)" and ?i = "WMEQosTagToACTable ! unat (td_tid d)"
  let ?o = "aTxHwQueueInfo q ! ?i"
  have n: "?n \<noteq> 0" using hw_blocks_bounds(1) [of "td_length d"] by auto
  have av: "?n \<le> txHwQueue_CheckResources q ?o" using False by simp
  let ?info = "aTxHwQueueInfo q' ! ?i" and ?tot = "uNumTotalBlksReserved q'"
  have "?i < length (aTxHwQueueInfo q)" using inv tid_queue [OF tid] by (simp add: hwq_inv_def)
  have q': "q' = q\<lparr>uNumUsedDescriptors := uNumUsedDescriptors q + 1,
      uDrvTxPacketsCntr := uDrvTxPacketsCntr q + 1, uNumTotalBlksReserved := ?tot,
      uNumTotalBlksFree := uNumTotalBlksFree q - ?n, aTxHwQueueInfo := (aTxHwQueueInfo q)[?i := ?info]\<rparr>"
    and info: "uNumBlksUsed ?info = uNumBlksUsed ?o + ?n"
      "uAllocatedBlksCntr ?info = uAllocatedBlksCntr ?o + ?n"
      "uFwFreedBlksCntr ?info = uFwFreedBlksCntr ?o" "uNumBlksThresh ?info = uNumBlksThresh ?o"
      "uNumBlksReserved ?info = uNumBlksReserved ?o - min ?n (uNumBlksReserved ?o)"
      "?tot = uNumTotalBlksReserved q - min ?n (uNumBlksReserved ?o)"
    using alc False \<open>?i < length (aTxHwQueueInfo q)\<close>
    by (auto simp: txHwQueue_AllocResources_def Let_def min_def not_less split: if_splits)
  show ?thesis by (subst q') (rule hwq_inv_alloc [OF inv tid_queue [OF tid] n av info])
qed

text \<open>What the firmware may report of a queue: it has freed no more blocks than the queue uses.\<close>

definition fw_freed_ok :: "TTxHwQueueInfo \<Rightarrow> TI_UINT32 \<Rightarrow> bool" where
  "fw_freed_ok i freed \<longleftrightarrow> uAllocatedBlksCntr i - freed \<le> uNumBlksUsed i"

lemma txHwQueue_UpdateFreeBlocks_inv [inv_rules]:
  assumes inv: "hwq_inv q" and i: "i < MAX_NUM_OF_AC" and fw: "fw_freed_ok (aTxHwQueueInfo q ! i) freed"
  shows "hwq_inv (txHwQueue_UpdateFreeBlocks q i freed)"
proof (cases "freed = uFwFreedBlksCntr (aTxHwQueueInfo q ! i)")
  case True
  with inv show ?thesis by (simp add: txHwQueue_UpdateFreeBlocks_def)
next
  case False
  let ?o = "aTxHwQueueInfo q ! i" and ?q = "txHwQueue_UpdateFreeBlocks q i freed"
  let ?new = "uAllocatedBlksCntr ?o - freed"
  let ?info = "aTxHwQueueInfo ?q ! i"
  have len: "length (aTxHwQueueInfo q) = MAX_NUM_OF_AC" using inv by (simp add: hwq_inv_def)
  have new: "unat ?new \<le> unat (uNumBlksUsed ?o)" using fw by (simp add: fw_freed_ok_def word_le_nat_alt)
  then have freeing: "unat (uNumBlksUsed ?o - ?new) = unat (uNumBlksUsed ?o) - unat ?new"
    by (rule unat_sub_small)
  have infoo: "aTxHwQueueInfo ?q = (aTxHwQueueInfo q)[i := ?info]"
    using False len i by (auto simp: txHwQueue_UpdateFreeBlocks_def Let_def split: if_splits)
  have sel: "uNumBlksUsed ?info = ?new" "uAllocatedBlksCntr ?info = uAllocatedBlksCntr ?o"
      "uFwFreedBlksCntr ?info = freed" "uNumBlksThresh ?info = uNumBlksThresh ?o"
      "uNumBlksReserved ?info = (if ?new < uNumBlksThresh ?o then uNumBlksThresh ?o - ?new else uNumBlksReserved ?o)"
    using False len i by (auto simp: txHwQueue_UpdateFreeBlocks_def Let_def)
  have tots: "uNumTotalBlks ?q = uNumTotalBlks q"
      "uNumTotalBlksFree ?q = uNumTotalBlksFree q + (uNumBlksUsed ?o - ?new)"
      "uNumTotalBlksReserved ?q = uNumTotalBlksReserved q +
         (if ?new < uNumBlksThresh ?o then min (uNumBlksThresh ?o - ?new) (uNumBlksUsed ?o - ?new) else 0)"
      "uNumUsedDescriptors ?q = uNumUsedDescriptors q" "uDrvTxPacketsCntr ?q = uDrvTxPacketsCntr q"
      "uFwTxResultsCntr ?q = uFwTxResultsCntr q"
    using False by (auto simp: txHwQueue_UpdateFreeBlocks_def Let_def min_def not_less)
  have o: "unat (uNumBlksReserved ?o) = unat (uNumBlksThresh ?o) - unat (uNumBlksUsed ?o)"
    using info_ok_nth [OF inv i] by (simp add: info_ok_def)
  have res: "unat (uNumBlksReserved ?info) = unat (uNumBlksThresh ?o) - unat ?new"
    using o new by (auto simp: sel word_less_nat_alt unat_sub_small)
  have free: "unat (uNumTotalBlksFree ?q) = unat (uNumTotalBlksFree q) + (unat (uNumBlksUsed ?o) - unat ?new)"
  proof -
    have "unat (uNumTotalBlksFree q) + unat (uNumBlksUsed ?o) < 2 ^ 32"
      using hwq_used_free [OF inv i] unsigned_less [of "uNumTotalBlks q", where ?'a = nat] by simp
    then show ?thesis unfolding tots by (subst unat_add_small) (simp_all add: freeing)
  qed
  have le0: "unat (uNumTotalBlksReserved q) \<le> unat (uNumTotalBlksFree q)"
    using inv by (simp add: hwq_inv_def word_le_nat_alt)
  have tot: "unat (uNumTotalBlksReserved ?q) = unat (uNumTotalBlksReserved q) +
      (min (unat (uNumBlksThresh ?o)) (unat (uNumBlksUsed ?o)) - unat ?new)"
  proof -
    let ?m = "if ?new < uNumBlksThresh ?o then min (uNumBlksThresh ?o - ?new) (uNumBlksUsed ?o - ?new) else 0"
    have m: "unat ?m = min (unat (uNumBlksThresh ?o)) (unat (uNumBlksUsed ?o)) - unat ?new"
      using new by (auto simp: min_def word_less_nat_alt word_le_nat_alt unat_sub_small freeing)
    have "unat (uNumTotalBlksReserved q) + unat ?m < 2 ^ LENGTH(32)"
      unfolding m using le0 hwq_used_free [OF inv i] unsigned_less [of "uNumTotalBlks q", where ?'a = nat]
      by simp
    from unat_add_small [OF this] show ?thesis unfolding tots(3) m .
  qed
  show ?thesis
  proof (rule hwq_inv_update [OF inv i _ infoo tots(1)])
    show "info_ok ?info" using res by (simp add: info_ok_def sel)
    show "uNumTotalBlksReserved ?q \<le> uNumTotalBlksFree ?q"
      using le0 by (simp add: word_le_nat_alt tot free)
  qed (use inv new o res free tot in \<open>auto simp: sel(1) tots(4-6) hwq_inv_def\<close>)
qed

lemma sub_8_32:
  fixes d r :: TI_UINT8
  shows "(if r \<le> d then ucast d - ucast r else 0x100 - (ucast r - ucast d)) = (ucast (d - r) :: TI_UINT32)"
proof -
  have d: "unat d < 256" "unat r < 256"
    using unsigned_less [of d, where ?'a = nat] unsigned_less [of r, where ?'a = nat] by simp_all
  show ?thesis
  proof (cases "r \<le> d")
    case True
    then show ?thesis by (simp add: word_unat_eq_iff unat_sub_small word_le_nat_alt)
  next
    case False
    then have lt: "unat d < unat r" by (simp add: word_le_nat_alt)
    have "unat (d - r) = 256 - (unat r - unat d)"
      using lt d by (simp add: unat_sub_if_size size_word_def)
    moreover have "unat (0x100 - (ucast r - ucast d :: TI_UINT32)) = 256 - (unat r - unat d)"
      using lt d by (simp add: unat_sub_small)
    ultimately show ?thesis using False by (simp add: word_unat_eq_iff)
  qed
qed

lemma update_descriptors_inv [inv_rules]:
  assumes inv: "hwq_inv q" and fw: "unat (uDrvTxPacketsCntr q - r) \<le> unat (uNumUsedDescriptors q)"
  shows "hwq_inv (update_descriptors q r)"
proof -
  have "uNumUsedDescriptors q \<le> NUM_TX_DESCRIPTORS" using inv unfolding hwq_inv_def by blast
  then have "unat (uNumUsedDescriptors q) \<le> unat NUM_TX_DESCRIPTORS" by (simp only: word_le_nat_alt)
  with fw have "ucast (uDrvTxPacketsCntr q - r) \<le> NUM_TX_DESCRIPTORS"
    by (simp add: word_le_nat_alt)
  with inv show ?thesis unfolding update_descriptors_def hwq_inv_def by (auto simp: sub_8_32)
qed

text \<open>The firmware report as a whole: results and freed blocks of packets that are on the way.\<close>

definition fw_report_ok :: "TTxHwQueue \<Rightarrow> TI_UINT8 \<Rightarrow> TI_UINT32 list \<Rightarrow> bool" where
  "fw_report_ok q txResultsCntr released \<longleftrightarrow>
     unat (uDrvTxPacketsCntr q - txResultsCntr) \<le> unat (uNumUsedDescriptors q) \<and>
     (\<forall>i<MAX_NUM_OF_AC. fw_freed_ok (aTxHwQueueInfo q ! i) (released ! i))"

lemma UpdateFreeBlocks_other:
  "i \<noteq> j \<Longrightarrow> aTxHwQueueInfo (txHwQueue_UpdateFreeBlocks q i f) ! j = aTxHwQueueInfo q ! j"
  by (simp add: txHwQueue_UpdateFreeBlocks_def Let_def)

lemma UpdateFreeBlocks_fold:
  assumes "hwq_inv q" "\<forall>i<MAX_NUM_OF_AC. fw_freed_ok (aTxHwQueueInfo q ! i) (rel ! i)" "n \<le> MAX_NUM_OF_AC"
  shows "hwq_inv (foldl (\<lambda>q i. txHwQueue_UpdateFreeBlocks q i (rel ! i)) q [0..<n]) \<and>
    (\<forall>j\<ge>n. aTxHwQueueInfo (foldl (\<lambda>q i. txHwQueue_UpdateFreeBlocks q i (rel ! i)) q [0..<n]) ! j =
      aTxHwQueueInfo q ! j)"
  using assms(3)
proof (induction n)
  case (Suc n)
  then show ?case using assms(1,2)
    by (auto simp: UpdateFreeBlocks_other intro!: txHwQueue_UpdateFreeBlocks_inv)
qed (simp add: assms(1))

text \<open>The loop that wakes queues, round by round; \<open>woken\<close> is its condition on the state before the loop.\<close>

definition woken :: "TTxHwQueue \<Rightarrow> nat \<Rightarrow> bool" where
  "woken q i \<longleftrightarrow> bQueueBusy (aTxHwQueueInfo q ! i) \<and>
     uNumBlksCausedBusy (aTxHwQueueInfo q ! i) \<le> txHwQueue_CheckResources q (aTxHwQueueInfo q ! i)"

lemma CheckResources_cong [simp]:
  "txHwQueue_CheckResources (q\<lparr>aTxHwQueueInfo := a\<rparr>) = txHwQueue_CheckResources q"
  "txHwQueue_CheckResources q (i\<lparr>bQueueBusy := b\<rparr>) = txHwQueue_CheckResources q i"
  by (auto simp: txHwQueue_CheckResources_def)

lemma wake_queue_fold:
  assumes "length (aTxHwQueueInfo q) = MAX_NUM_OF_AC" "n \<le> MAX_NUM_OF_AC"
  shows "foldl wake_queue (q, 0) [0..<n] =
    (q\<lparr>aTxHwQueueInfo := map (\<lambda>i. if i < n \<and> woken q i then (aTxHwQueueInfo q ! i)\<lparr>bQueueBusy := False\<rparr>
        else aTxHwQueueInfo q ! i) [0..<MAX_NUM_OF_AC]\<rparr>,
     foldl (\<lambda>bm i. if woken q i then bm OR push_bit i 1 else bm) 0 [0..<n])"
  using assms(2)
proof (induction n)
  case 0
  have "map (\<lambda>i. aTxHwQueueInfo q ! i) [0..<MAX_NUM_OF_AC] = aTxHwQueueInfo q"
    using assms(1) by (metis map_nth)
  then show ?case by simp
next
  case (Suc n)
  have "map (\<lambda>i. if i < Suc n \<and> woken q i then (aTxHwQueueInfo q ! i)\<lparr>bQueueBusy := False\<rparr>
        else aTxHwQueueInfo q ! i) [0..<MAX_NUM_OF_AC] =
      (if woken q n then (map (\<lambda>i. if i < n \<and> woken q i then (aTxHwQueueInfo q ! i)\<lparr>bQueueBusy := False\<rparr>
        else aTxHwQueueInfo q ! i) [0..<MAX_NUM_OF_AC])[n := (aTxHwQueueInfo q ! n)\<lparr>bQueueBusy := False\<rparr>]
       else map (\<lambda>i. if i < n \<and> woken q i then (aTxHwQueueInfo q ! i)\<lparr>bQueueBusy := False\<rparr>
        else aTxHwQueueInfo q ! i) [0..<MAX_NUM_OF_AC])"
    using Suc.prems by (intro nth_equalityI) (auto simp: nth_list_update less_Suc_eq)
  with Suc show ?case by (simp add: wake_queue_def Let_def woken_def [of q n])
qed

lemma wake_bits:
  "n \<le> 32 \<Longrightarrow> bit (foldl (\<lambda>bm i. if P i then bm OR push_bit i 1 else bm) (0 :: TI_UINT32) [0..<n]) k = (k < n \<and> P k)"
proof (induction n)
  case (Suc n)
  then show ?case by (auto simp: bit_simps less_Suc_eq)
qed simp

lemma wake_fold_inv:
  assumes "hwq_inv q" "n \<le> MAX_NUM_OF_AC"
  shows "hwq_inv (fst (foldl wake_queue (q, b) [0..<n]))"
  using assms(2)
proof (induction n)
  case (Suc n)
  then have "hwq_inv (fst (foldl wake_queue (q, b) [0..<n]))" "n < MAX_NUM_OF_AC" by simp_all
  from hwq_inv_busy(2) [OF this refl] this(1) show ?case
    by (cases "foldl wake_queue (q, b) [0..<n]") (simp add: wake_queue_def Let_def)
qed (simp add: assms(1))

lemma txHwQueue_UpdateFreeResources_inv [inv_rules]:
  assumes inv: "hwq_inv q" and fw: "fw_report_ok q r rel"
  shows "hwq_inv (fst (txHwQueue_UpdateFreeResources q r rel))"
proof -
  let ?q1 = "update_descriptors q r"
  let ?q2 = "foldl (\<lambda>q i. txHwQueue_UpdateFreeBlocks q i (rel ! i)) ?q1 [0..<MAX_NUM_OF_AC]"
  have "hwq_inv ?q1" using update_descriptors_inv [OF inv] fw by (simp add: fw_report_ok_def)
  moreover have "aTxHwQueueInfo ?q1 = aTxHwQueueInfo q" by (simp add: update_descriptors_def)
  ultimately have "hwq_inv ?q2" using UpdateFreeBlocks_fold [of ?q1 rel MAX_NUM_OF_AC] fw
    by (simp add: fw_report_ok_def)
  from wake_fold_inv [OF this, of MAX_NUM_OF_AC 0] show ?thesis
    by (simp add: txHwQueue_UpdateFreeResources_def Let_def split: prod.splits)
       (metis fst_conv)
qed

section \<open>Restart\<close>

text \<open>What the configuration must satisfy: the thresholds fit in the blocks that the firmware has.\<close>

definition hwq_cfg_ok :: "TTxHwQueue \<Rightarrow> bool" where
  "hwq_cfg_ok q \<longleftrightarrow> length (aTxHwQueueInfo q) = MAX_NUM_OF_AC \<and>
     sum_over uNumBlksThresh (aTxHwQueueInfo q) \<le> unat (uNumTotalBlks q)"

lemma txHwQueue_Restart_inv:
  assumes "hwq_cfg_ok q"
  shows "hwq_inv (txHwQueue_Restart q)"
proof -
  obtain a b c d where info: "aTxHwQueueInfo q = [a, b, c, d]"
    using assms by (auto simp: hwq_cfg_ok_def MAX_NUM_OF_AC_def numeral_eq_Suc length_Suc_conv)
  have upt: "[0..<MAX_NUM_OF_AC] = [0, 1, 2, 3]" by (simp add: MAX_NUM_OF_AC_def upt_rec)
  have sum: "unat (uNumBlksThresh a) + unat (uNumBlksThresh b) + unat (uNumBlksThresh c) + unat (uNumBlksThresh d)
      \<le> unat (uNumTotalBlks q)"
    using assms by (simp add: hwq_cfg_ok_def info sum_over_def)
  also have "\<dots> < 2 ^ 32" using unsigned_less [of "uNumTotalBlks q", where ?'a = nat] by simp
  finally have "unat (uNumBlksThresh a + uNumBlksThresh b + uNumBlksThresh c + uNumBlksThresh d) =
      unat (uNumBlksThresh a) + unat (uNumBlksThresh b) + unat (uNumBlksThresh c) + unat (uNumBlksThresh d)"
    by (simp add: unat_word_ariths)
  with sum show ?thesis
    by (simp add: txHwQueue_Restart_def Let_def upt info restart_info_def hwq_inv_def info_ok_def
        sum_over_def word_le_nat_alt NUM_TX_DESCRIPTORS_def) (simp add: MAX_NUM_OF_AC_def)
qed

section \<open>Reachable states\<close>

text \<open>
  The module is restarted in a configured state, then packets ask for resources and the firmware
  reports, in any order; the callback may be registered at any time.
\<close>

inductive hwq_step :: "TTxHwQueue \<Rightarrow> TTxHwQueue \<Rightarrow> bool" where
  alloc: "unat (td_tid d) < 8 \<Longrightarrow> txHwQueue_AllocResources q d = (st, q', d') \<Longrightarrow> hwq_step q q'"
| report: "fw_report_ok q r rel \<Longrightarrow> txHwQueue_UpdateFreeResources q r rel = (q', cb) \<Longrightarrow> hwq_step q q'"
| register: "hwq_step q (txHwQueue_RegisterCb q b f h)"

inductive hwq_reach :: "TTxHwQueue \<Rightarrow> bool" where
  restart: "hwq_cfg_ok q \<Longrightarrow> hwq_reach (txHwQueue_Restart q)"
| step: "hwq_reach q \<Longrightarrow> hwq_step q q' \<Longrightarrow> hwq_reach q'"

lemma hwq_step_inv:
  assumes "hwq_step q q'" "hwq_inv q"
  shows "hwq_inv q'"
  using assms(1)
proof (cases rule: hwq_step.cases)
  case (alloc d st d')
  with assms(2) show ?thesis by (auto intro: inv_rules)
next
  case (report r rel cb)
  with txHwQueue_UpdateFreeResources_inv [OF assms(2), of r rel] show ?thesis by simp
next
  case (register b f h)
  with assms(2) show ?thesis unfolding txHwQueue_RegisterCb_def hwq_inv_def by auto
qed

lemma hwq_reach_invariant: "hwq_reach q \<Longrightarrow> hwq_inv q"
  by (induction rule: hwq_reach.induct) (auto intro: txHwQueue_Restart_inv hwq_step_inv)

lemma UpdateFreeBlocks_busy:
  "bQueueBusy (aTxHwQueueInfo (txHwQueue_UpdateFreeBlocks q i f) ! j) = bQueueBusy (aTxHwQueueInfo q ! j)"
  "fUpdateBusyMapCb (txHwQueue_UpdateFreeBlocks q i f) = fUpdateBusyMapCb q"
  "length (aTxHwQueueInfo (txHwQueue_UpdateFreeBlocks q i f)) = length (aTxHwQueueInfo q)"
  by (cases "i < length (aTxHwQueueInfo q)")
     (auto simp: txHwQueue_UpdateFreeBlocks_def Let_def nth_list_update list_update_beyond)

lemma UpdateFreeBlocks_busy_fold:
  "bQueueBusy (aTxHwQueueInfo (foldl (\<lambda>q i. txHwQueue_UpdateFreeBlocks q i (rel ! i)) q xs) ! j) =
     bQueueBusy (aTxHwQueueInfo q ! j)"
  "fUpdateBusyMapCb (foldl (\<lambda>q i. txHwQueue_UpdateFreeBlocks q i (rel ! i)) q xs) = fUpdateBusyMapCb q"
  "length (aTxHwQueueInfo (foldl (\<lambda>q i. txHwQueue_UpdateFreeBlocks q i (rel ! i)) q xs)) =
     length (aTxHwQueueInfo q)"
  by (induction xs arbitrary: q) (simp_all add: UpdateFreeBlocks_busy)

text \<open>A configured state for the witnesses: 99 blocks, 10 of them reserved for each queue.\<close>

definition hwq_start :: TTxHwQueue where
  "hwq_start = txHwQueue_SetHwInfo (txHwQueue_Config (the (txHwQueue_Create True)) [10, 10, 10, 10]) 100"

lemma hwq_start_reach: "hwq_reach hwq_start"
  unfolding hwq_start_def txHwQueue_SetHwInfo_def
  by (rule hwq_reach.restart) code_simp

section \<open>Properties\<close>

text \<open>
  C4. Conservation of the firmware's memory: in every state that restarts, packet requests and truthful
  firmware reports can reach, free and used blocks add up to all blocks, the reserved total is the
  sum of what each queue lacks to its threshold and is covered by free blocks, and at most 32
  descriptors are in use, as many as the two byte counters differ by.
\<close>

theorem txHwQueue_conservation:
  assumes "hwq_reach q"
  shows "unat (uNumTotalBlksFree q) + (\<Sum>i\<leftarrow>aTxHwQueueInfo q. unat (uNumBlksUsed i)) = unat (uNumTotalBlks q) \<and>
    unat (uNumTotalBlksReserved q) =
      (\<Sum>i\<leftarrow>aTxHwQueueInfo q. unat (uNumBlksThresh i) - unat (uNumBlksUsed i)) \<and>
    uNumTotalBlksReserved q \<le> uNumTotalBlksFree q \<and>
    unat (uNumUsedDescriptors q) = unat (uDrvTxPacketsCntr q - uFwTxResultsCntr q) \<and>
    unat (uNumUsedDescriptors q) \<le> 32"
proof -
  note inv = hwq_reach_invariant [OF assms]
  have "(\<Sum>i\<leftarrow>aTxHwQueueInfo q. unat (uNumBlksThresh i) - unat (uNumBlksUsed i)) =
      sum_over uNumBlksReserved (aTxHwQueueInfo q)"
    unfolding sum_over_def using inv by (intro arg_cong [of _ _ sum_list] map_cong) (auto simp: hwq_inv_def info_ok_def)
  moreover have "unat (uNumUsedDescriptors q) \<le> unat NUM_TX_DESCRIPTORS"
    using inv unfolding hwq_inv_def word_le_nat_alt by blast
  ultimately show ?thesis using inv
    unfolding hwq_inv_def sum_over_def by (auto simp: NUM_TX_DESCRIPTORS_def)
qed

text \<open>
  The low threshold is a guarantee: while a descriptor is free, a packet whose blocks keep its queue
  within the queue's threshold is never refused, whatever the other queues hold.
\<close>

theorem txHwQueue_threshold_guarantee:
  assumes "hwq_reach q" "uNumUsedDescriptors q < NUM_TX_DESCRIPTORS" "unat (td_tid d) < 8"
    and "i = WMEQosTagToACTable ! unat (td_tid d)"
    and "unat (uNumBlksUsed (aTxHwQueueInfo q ! i)) + unat (hw_blocks (td_length d)) \<le>
      unat (uNumBlksThresh (aTxHwQueueInfo q ! i))"
  shows "fst (txHwQueue_AllocResources q d) \<noteq> TX_HW_QUE_STATUS_STOP_CURRENT"
proof -
  note inv = hwq_reach_invariant [OF assms(1)]
  have i: "i < MAX_NUM_OF_AC" using tid_queue [OF assms(3)] assms(4) by simp
  have "unat (hw_blocks (td_length d)) \<le> unat (uNumBlksReserved (aTxHwQueueInfo q ! i))"
    using info_ok_nth [OF inv i] assms(5) by (simp add: info_ok_def)
  moreover have "unat (uNumTotalBlksReserved q) \<le> unat (uNumTotalBlksFree q)"
    using inv by (simp add: hwq_inv_def word_le_nat_alt)
  ultimately have "hw_blocks (td_length d) \<le> txHwQueue_CheckResources q (aTxHwQueueInfo q ! i)"
    using CheckResources_unat(1) [OF inv i assms(2)] by (simp add: word_le_nat_alt)
  then show ?thesis using assms(4) by (auto simp: txHwQueue_AllocResources_def Let_def not_less split: prod.splits)
qed

text \<open>
  The estimate is exact for every length up to 13803 bytes (an 802.11 frame is far shorter): the
  packet is charged the least number of 252-byte blocks that hold its data and the 54 bytes of
  overhead, plus the two spare blocks, and the byte in the descriptor holds that number.
\<close>

theorem txHwQueue_estimate_exact:
  assumes "unat (td_length d) \<le> 13803" "txHwQueue_AllocResources q d = (st, q', d')"
    and "st \<noteq> TX_HW_QUE_STATUS_STOP_CURRENT"
  shows "unat (totalMemBlks d') = (unat (td_length d) + 54 + 251) div 252 + 2 \<and>
    252 * (unat (totalMemBlks d') - 2) \<ge> unat (td_length d) + 54"
proof -
  have n: "unat (hw_blocks (td_length d)) = (unat (td_length d) + 54 + 251) div 252 + 2"
    by (rule hw_blocks_exact [OF assms(1)])
  have "(unat (td_length d) + 54 + 251) div 252 \<le> 55" using assms(1) by (simp add: div_le_mono [of _ 14108 252, simplified])
  with n have "unat (ucast (hw_blocks (td_length d)) :: TI_UINT8) = unat (hw_blocks (td_length d))"
    by (simp add: unsigned_ucast_eq take_bit_nat_eq_self)
  moreover have "totalMemBlks d' = ucast (hw_blocks (td_length d))"
    using assms(2,3) by (auto simp: txHwQueue_AllocResources_def Let_def split: if_splits prod.splits)
  ultimately show ?thesis using n by simp
qed

text \<open>
  No stopped queue is forgotten: after a firmware report, a queue that is still marked busy lacks the
  blocks or the descriptor for the packet that stopped it, and the bitmap passed to the registered
  callback names exactly the queues that were busy before and are not any more.
\<close>

theorem txHwQueue_backpressure:
  assumes "hwq_reach q" "txHwQueue_UpdateFreeResources q r rel = (q', cb)"
    and "fUpdateBusyMapCb q = Some f" "i < MAX_NUM_OF_AC"
  shows "(bQueueBusy (aTxHwQueueInfo q' ! i) \<longrightarrow>
      uNumBlksCausedBusy (aTxHwQueueInfo q' ! i) > txHwQueue_CheckResources q' (aTxHwQueueInfo q' ! i)) \<and>
    ((\<exists>bm. cb = Some bm \<and> bit bm i) \<longleftrightarrow>
      bQueueBusy (aTxHwQueueInfo q ! i) \<and> \<not> bQueueBusy (aTxHwQueueInfo q' ! i))"
proof -
  define q2 where "q2 = foldl (\<lambda>q i. txHwQueue_UpdateFreeBlocks q i (rel ! i)) (update_descriptors q r) [0..<MAX_NUM_OF_AC]"
  define bm :: TI_UINT32 where
    "bm = foldl (\<lambda>bm i. if woken q2 i then bm OR push_bit i 1 else bm) 0 [0..<MAX_NUM_OF_AC]"
  have len: "length (aTxHwQueueInfo q2) = MAX_NUM_OF_AC"
    using hwq_reach_invariant [OF assms(1)]
    by (simp add: q2_def UpdateFreeBlocks_busy_fold hwq_inv_def update_descriptors_def)
  have cbf: "fUpdateBusyMapCb q2 = Some f" and busy: "bQueueBusy (aTxHwQueueInfo q2 ! i) = bQueueBusy (aTxHwQueueInfo q ! i)"
    using assms(3) by (simp_all add: q2_def UpdateFreeBlocks_busy_fold update_descriptors_def)
  let ?a = "map (\<lambda>i. if i < MAX_NUM_OF_AC \<and> woken q2 i then (aTxHwQueueInfo q2 ! i)\<lparr>bQueueBusy := False\<rparr>
    else aTxHwQueueInfo q2 ! i) [0..<MAX_NUM_OF_AC]"
  have "foldl wake_queue (q2, 0) [0..<MAX_NUM_OF_AC] = (q2\<lparr>aTxHwQueueInfo := ?a\<rparr>, bm)"
    unfolding bm_def by (rule wake_queue_fold [OF len order.refl])
  with assms(2) cbf have q': "q' = q2\<lparr>aTxHwQueueInfo := ?a\<rparr>" and cb: "cb = (if bm > 0 then Some bm else None)"
    unfolding txHwQueue_UpdateFreeResources_def Let_def q2_def [symmetric] by (simp_all split: if_splits)
  have bit: "bit bm k = (k < MAX_NUM_OF_AC \<and> woken q2 k)" for k
    unfolding bm_def by (rule wake_bits) (simp add: MAX_NUM_OF_AC_def)
  have "(\<exists>b. cb = Some b \<and> bit b i) \<longleftrightarrow> bit bm i"
    unfolding cb by (cases "bm = 0") (simp_all add: word_gt_0)
  then have bits: "(\<exists>b. cb = Some b \<and> bit b i) \<longleftrightarrow> woken q2 i"
    using assms(4) by (simp only: bit simp_thms)
  have info: "aTxHwQueueInfo q' ! i = (if woken q2 i then (aTxHwQueueInfo q2 ! i)\<lparr>bQueueBusy := False\<rparr>
      else aTxHwQueueInfo q2 ! i)" using assms(4) by (simp add: q')
  have chk: "txHwQueue_CheckResources q' = txHwQueue_CheckResources q2" by (simp add: q')
  show ?thesis unfolding bits info chk busy [symmetric] by (simp add: woken_def not_le)
qed

theorem txHwQueue_conservation_witness:
  "unat (uNumTotalBlksFree hwq_start) + (\<Sum>i\<leftarrow>aTxHwQueueInfo hwq_start. unat (uNumBlksUsed i)) =
   unat (uNumTotalBlks hwq_start)"
  using txHwQueue_conservation [OF hwq_start_reach] by simp

text \<open>A best-effort packet of 1500 bytes.\<close>

definition hwq_packet :: TxIfDescriptor_t where
  "hwq_packet = (tTxDescriptor zero_ctrl_blk)\<lparr>td_length := 1500\<rparr>"

lemma hwq_start_simps:
  "aTxHwQueueInfo hwq_start ! 0 = restart_info
     \<lparr>uNumBlksThresh = 10, uNumBlksUsed = 0, uNumBlksReserved = 0, uAllocatedBlksCntr = 0,
      uFwFreedBlksCntr = 0, uNumBlksCausedBusy = 0, bQueueBusy = False\<rparr>"
  "uNumUsedDescriptors hwq_start = 0" "unat (hw_blocks (td_length hwq_packet)) = 9"
  by code_simp+

theorem txHwQueue_threshold_guarantee_witness:
  "fst (txHwQueue_AllocResources hwq_start hwq_packet) \<noteq> TX_HW_QUE_STATUS_STOP_CURRENT"
  using txHwQueue_threshold_guarantee [of hwq_start hwq_packet 0] hwq_start_reach hwq_start_simps
  by (simp add: restart_info_def NUM_TX_DESCRIPTORS_def WMEQosTagToACTable_def QOS_AC_BE_def
      hwq_packet_def zero_ctrl_blk_def)

theorem txHwQueue_estimate_exact_witness:
  "unat (totalMemBlks (snd (snd (txHwQueue_AllocResources hwq_start hwq_packet)))) = 9"
proof -
  obtain st q' d' where r: "txHwQueue_AllocResources hwq_start hwq_packet = (st, q', d')"
    by (metis prod_cases3)
  have "fst (txHwQueue_AllocResources hwq_start hwq_packet) \<noteq> TX_HW_QUE_STATUS_STOP_CURRENT"
    by code_simp
  with r txHwQueue_estimate_exact [of hwq_packet hwq_start st q' d'] show ?thesis
    by (simp add: hwq_packet_def zero_ctrl_blk_def)
qed

theorem txHwQueue_backpressure_witness:
  "\<exists>q' cb. txHwQueue_UpdateFreeResources (txHwQueue_RegisterCb hwq_start True 1 1) 0 [0, 0, 0, 0] = (q', cb) \<and>
    ((\<exists>bm. cb = Some bm \<and> bit bm 0) \<longleftrightarrow>
      bQueueBusy (aTxHwQueueInfo (txHwQueue_RegisterCb hwq_start True 1 1) ! 0) \<and>
      \<not> bQueueBusy (aTxHwQueueInfo q' ! 0))"
proof -
  let ?q = "txHwQueue_RegisterCb hwq_start True 1 1"
  have "hwq_reach ?q" by (rule hwq_reach.step [OF hwq_start_reach hwq_step.register])
  moreover obtain q' cb where "txHwQueue_UpdateFreeResources ?q 0 [0, 0, 0, 0] = (q', cb)"
    by (rule prod.exhaust)
  moreover have "fUpdateBusyMapCb ?q = Some (1, 1)" by (simp add: txHwQueue_RegisterCb_def)
  ultimately show ?thesis using txHwQueue_backpressure [of ?q 0 "[0, 0, 0, 0]" q' cb "(1, 1)" 0]
    by (simp add: MAX_NUM_OF_AC_def)
qed

end
