(* ===== verification/WlRxQueue.thy ===== *)
theory WlRxQueue
  imports WlPrelude "HOL-Library.Multiset"
begin

text \<open>
  The receive reorder queue of \<^verbatim>\<open>TWD/Data_Service/RxQueue.c\<close>: per traffic identifier (TID)
  a cyclic array of eight entries holds the frames that came before the expected sequence number
  (ESN) of a block-ack session. A received buffer is its address, the two descriptor fields the
  module reads or writes, and the memory that follows the descriptor, read as little-endian words
  as the \<open>COPY_WLAN_WORD\<close> of a little-endian host does. The buffers handed to the registered
  callback are collected in \<open>rxOut\<close>, in order, and \<open>rxTimer\<close> tells whether the module's timer runs.
\<close>

section \<open>Data\<close>

definition RX_QUEUE_ARRAY_SIZE :: nat where "RX_QUEUE_ARRAY_SIZE = 8"
definition RX_QUEUE_ARRAY_SIZE_BIT_MASK :: "'a::len word" where "RX_QUEUE_ARRAY_SIZE_BIT_MASK = 0x7"
definition RX_QUEUE_WIN_SIZE :: TI_UINT32 where "RX_QUEUE_WIN_SIZE = 8"
definition SEQ_NUM_WRAP :: TI_UINT32 where "SEQ_NUM_WRAP = 0x1000"
definition SEQ_NUM_MASK :: TI_UINT32 where "SEQ_NUM_MASK = 0xFFF"
definition MAX_NUM_OF_802_1d_TAGS :: nat where "MAX_NUM_OF_802_1d_TAGS = 8"

definition TAG_CLASS_QOS_DATA :: TI_UINT8 where "TAG_CLASS_QOS_DATA = 3"
definition TAG_CLASS_BA_EVENT :: TI_UINT8 where "TAG_CLASS_BA_EVENT = 6"
definition TAG_CLASS_AMSDU :: TI_UINT8 where "TAG_CLASS_AMSDU = 7"
definition RX_DESC_STATUS_DRIVER_RX_Q_FAIL :: TI_UINT8 where "RX_DESC_STATUS_DRIVER_RX_Q_FAIL = 3"
definition RX_DESC_STATUS_MASK :: TI_UINT8 where "RX_DESC_STATUS_MASK = 7"

record RxPkt =
  rx_buf :: "32 word"
  rx_status :: TI_UINT8
  packet_class_tag :: TI_UINT8
  rx_data :: "nat \<Rightarrow> TI_UINT8"

record TRxQueuePacketEntry =
  pPacket :: "RxPkt option"
  tStatus :: TI_STATUS
  uFrameSn :: TI_UINT16

record TRxQueueTidDataBase =
  aPaketsQueue :: "TRxQueuePacketEntry list"
  aTidBaEstablished :: bool
  aWinStartArrayInex :: TI_UINT32
  aTidWinSize :: TI_UINT32
  aTidExpectedSn :: TI_UINT16

record TPacketTimeout =
  bPacketMiss :: bool
  aPacketsStored :: TI_UINT16
  aFrameTid :: TI_UINT8

record TRxQueue =
  tSa1ArrayMng :: "TRxQueueTidDataBase list"
  tPacketTimeout :: TPacketTimeout
  rx_hTimer :: "32 word"
  rxCb :: "32 word \<times> 32 word"
  rxTimer :: bool
  rxOut :: "RxPkt list"

section \<open>Frame fields\<close>

definition COPY_WLAN_WORD :: "RxPkt \<Rightarrow> nat \<Rightarrow> TI_UINT16" where
  "COPY_WLAN_WORD p offs = ucast (rx_data p offs) OR push_bit 8 (ucast (rx_data p (offs + 1)))"

text \<open>Offsets in \<open>dot11_header_t\<close>, and the sizes of the headers before the body.\<close>

definition hdr_fc :: nat where "hdr_fc = 0"
definition hdr_seqCtrl :: nat where "hdr_seqCtrl = 22"
definition hdr_qosControl :: nat where "hdr_qosControl = 24"
definition sizeof_dot11_BarFrameHeader_t :: nat where "sizeof_dot11_BarFrameHeader_t = 16"
definition sizeof_dot11_mgmtHeader_t :: nat where "sizeof_dot11_mgmtHeader_t = 24"

definition IS_QOS_FRAME :: "TI_UINT16 \<Rightarrow> bool" where
  "IS_QOS_FRAME fc = (fc AND 0xFC = 0x88 \<or> fc AND 0xFC = 0xC8)"

definition BA_SESSION_IS_A_BIGGER_THAN_B :: "TI_UINT32 \<Rightarrow> TI_UINT32 \<Rightarrow> bool" where
  "BA_SESSION_IS_A_BIGGER_THAN_B A B = ((A - B) AND 0xFFF < 0x7FF \<and> A \<noteq> B)"

section \<open>Module operations\<close>

definition zero_entry :: TRxQueuePacketEntry where
  "zero_entry = \<lparr>pPacket = None, tStatus = TI_OK, uFrameSn = 0\<rparr>"

definition RxQueue_Create :: "bool \<Rightarrow> TRxQueue option" where
  "RxQueue_Create alloc_ok =
     (if \<not> alloc_ok then None
      else Some \<lparr>tSa1ArrayMng = replicate MAX_NUM_OF_802_1d_TAGS
          \<lparr>aPaketsQueue = replicate RX_QUEUE_ARRAY_SIZE zero_entry, aTidBaEstablished = False,
           aWinStartArrayInex = 0, aTidWinSize = 0, aTidExpectedSn = 0\<rparr>,
        tPacketTimeout = \<lparr>bPacketMiss = False, aPacketsStored = 0, aFrameTid = 0\<rparr>,
        rx_hTimer = 0, rxCb = (0, 0), rxTimer = False, rxOut = []\<rparr>)"

definition RxQueue_Destroy :: "TRxQueue option \<Rightarrow> TI_STATUS \<times> TRxQueue option" where
  "RxQueue_Destroy h = (case h of None \<Rightarrow> (TI_NOK, None) | Some q \<Rightarrow> (TI_OK, None))"

text \<open>\<open>hTimer\<close> is the result of \<open>tmr_CreateTimer\<close>; one callback identifier is accepted.\<close>

definition RxQueue_Init :: "TRxQueue \<Rightarrow> 32 word \<Rightarrow> TI_STATUS \<times> TRxQueue" where
  "RxQueue_Init q hTimer = (TI_OK, q\<lparr>rx_hTimer := hTimer\<rparr>)"

definition RxQueue_Register_CB :: "TRxQueue \<Rightarrow> bool \<Rightarrow> 32 word \<Rightarrow> 32 word \<Rightarrow> TRxQueue" where
  "RxQueue_Register_CB q is_RECEIVE_PACKET CBFunc CBObj =
     (if is_RECEIVE_PACKET then q\<lparr>rxCb := (CBFunc, CBObj)\<rparr> else q)"

definition RxQueue_PassPacket :: "TI_STATUS \<Rightarrow> RxPkt \<Rightarrow> TRxQueue \<Rightarrow> TRxQueue" where
  "RxQueue_PassPacket st p q =
     (let p = (if st = TI_OK then p
               else p\<lparr>rx_status := (rx_status p AND NOT RX_DESC_STATUS_MASK) OR
                                   RX_DESC_STATUS_DRIVER_RX_Q_FAIL\<rparr>)
      in q\<lparr>rxOut := rxOut q @ [p]\<rparr>)"

definition tidDB :: "TRxQueue \<Rightarrow> nat \<Rightarrow> TRxQueueTidDataBase" where
  "tidDB q tid = tSa1ArrayMng q ! tid"

definition updTid :: "nat \<Rightarrow> (TRxQueueTidDataBase \<Rightarrow> TRxQueueTidDataBase) \<Rightarrow> TRxQueue \<Rightarrow> TRxQueue" where
  "updTid tid f q = q\<lparr>tSa1ArrayMng := (tSa1ArrayMng q)[tid := f (tSa1ArrayMng q ! tid)]\<rparr>"

definition updTimeout :: "(TPacketTimeout \<Rightarrow> TPacketTimeout) \<Rightarrow> TRxQueue \<Rightarrow> TRxQueue" where
  "updTimeout f q = q\<lparr>tPacketTimeout := f (tPacketTimeout q)\<rparr>"

definition tmr_StartTimer :: "TRxQueue \<Rightarrow> TRxQueue" where
  "tmr_StartTimer q = q\<lparr>rxTimer := True\<rparr>"

definition tmr_StopTimer :: "TRxQueue \<Rightarrow> TRxQueue" where
  "tmr_StopTimer q = q\<lparr>rxTimer := False\<rparr>"

text \<open>If a packet is missed: stop the timer; the same four lines in four places.\<close>

definition stop_miss :: "TRxQueue \<Rightarrow> TRxQueue" where
  "stop_miss q =
     (if bPacketMiss (tPacketTimeout q)
      then updTimeout (\<lambda>t. t\<lparr>bPacketMiss := False\<rparr>) (tmr_StopTimer q) else q)"

text \<open>If packets are stored: start the timer for the TID of the current frame.\<close>

definition start_if_stored :: "TI_UINT8 \<Rightarrow> TRxQueue \<Rightarrow> TRxQueue" where
  "start_if_stored uFrameTid q =
     (if aPacketsStored (tPacketTimeout q) \<noteq> 0
      then updTimeout (\<lambda>t. t\<lparr>bPacketMiss := True, aFrameTid := uFrameTid\<rparr>) (tmr_StartTimer q) else q)"

text \<open>
  The entry that the window starts at; an index outside the array, which the mask excludes after
  the first step, reads as empty.
\<close>

definition win_start :: "TRxQueueTidDataBase \<Rightarrow> TRxQueuePacketEntry" where
  "win_start tb = (let i = unat (aWinStartArrayInex tb) in
     if i < length (aPaketsQueue tb) then aPaketsQueue tb ! i else zero_entry)"

definition clear_win_start :: "TRxQueueTidDataBase \<Rightarrow> TRxQueueTidDataBase" where
  "clear_win_start tb = tb\<lparr>aPaketsQueue := (aPaketsQueue tb)[unat (aWinStartArrayInex tb) :=
     (win_start tb)\<lparr>pPacket := None\<rparr>]\<rparr>"

definition next_index :: "TRxQueueTidDataBase \<Rightarrow> TRxQueueTidDataBase" where
  "next_index tb = tb\<lparr>aWinStartArrayInex := (aWinStartArrayInex tb + 1) AND RX_QUEUE_ARRAY_SIZE_BIT_MASK\<rparr>"

definition next_sn :: "TRxQueueTidDataBase \<Rightarrow> TRxQueueTidDataBase" where
  "next_sn tb = tb\<lparr>aTidExpectedSn := (aTidExpectedSn tb + 1) AND 0xFFF\<rparr>"

text \<open>Pass the packet at the window start, if there is one, and empty its entry.\<close>

definition pass_win_start :: "nat \<Rightarrow> TRxQueue \<Rightarrow> TRxQueue" where
  "pass_win_start tid q =
     (case pPacket (win_start (tidDB q tid)) of
        None \<Rightarrow> q
      | Some p \<Rightarrow>
          (let q = RxQueue_PassPacket (tStatus (win_start (tidDB q tid))) p q;
               q = updTid tid clear_win_start q
           in updTimeout (\<lambda>t. t\<lparr>aPacketsStored := aPacketsStored t - 1\<rparr>) q))"

text \<open>One round of \<open>RxQueue_CloseBaSession\<close>'s loop, and the function.\<close>

definition close_round :: "nat \<Rightarrow> TRxQueue \<Rightarrow> TRxQueue" where
  "close_round tid q = updTid tid next_index (pass_win_start tid q)"

definition RxQueue_CloseBaSession :: "TI_UINT8 \<Rightarrow> TRxQueue \<Rightarrow> TRxQueue" where
  "RxQueue_CloseBaSession uFrameTid q =
     (let tid = unat uFrameTid in
      if tid \<ge> MAX_NUM_OF_802_1d_TAGS then q
      else if aTidBaEstablished (tidDB q tid) then
        (let q = updTid tid (\<lambda>tb. tb\<lparr>aTidBaEstablished := False\<rparr>) q;
             q = foldl (\<lambda>q i. close_round tid q) q [0..<RX_QUEUE_ARRAY_SIZE]
         in stop_miss q)
      else q)"

section \<open>The loops over saved packets\<close>

definition count_some :: "TRxQueueTidDataBase \<Rightarrow> nat" where
  "count_some tb = length (filter (\<lambda>e. pPacket e \<noteq> None) (aPaketsQueue tb))"

lemma length_filter_update:
  "i < length xs \<Longrightarrow> P (xs ! i) \<Longrightarrow> \<not> P x \<Longrightarrow>
   Suc (length (filter P (xs[i := x]))) = length (filter P xs)"
proof (induction xs arbitrary: i)
  case (Cons y ys)
  then show ?case by (cases i) auto
qed simp

lemma count_some_clear:
  assumes "pPacket (win_start tb) = Some p"
  shows "Suc (count_some (clear_win_start tb)) = count_some tb"
proof -
  have "unat (aWinStartArrayInex tb) < length (aPaketsQueue tb)"
    using assms by (auto simp: win_start_def Let_def zero_entry_def split: if_splits)
  with assms show ?thesis
    by (simp add: count_some_def clear_win_start_def length_filter_update win_start_def)
qed

lemma count_some_next [simp]:
  "count_some (next_index tb) = count_some tb" "count_some (next_sn tb) = count_some tb"
  by (simp_all add: count_some_def next_index_def next_sn_def)

text \<open>Pass all consecutive saved packets from the window start on.\<close>

definition pass_step :: "nat \<Rightarrow> TRxQueue \<Rightarrow> TRxQueue" where
  "pass_step tid q = updTid tid (\<lambda>tb. next_sn (next_index tb)) (pass_win_start tid q)"

lemma tidDB_updTid: "tid < length (tSa1ArrayMng q) \<Longrightarrow> tidDB (updTid tid f q) tid = f (tidDB q tid)"
  by (simp add: tidDB_def updTid_def)

lemma tidDB_simps [simp]:
  "tidDB (RxQueue_PassPacket st p q) tid = tidDB q tid" "tidDB (updTimeout g q) tid = tidDB q tid"
  "tidDB (tmr_StartTimer q) tid = tidDB q tid" "tidDB (tmr_StopTimer q) tid = tidDB q tid"
  by (simp_all add: tidDB_def RxQueue_PassPacket_def Let_def updTimeout_def tmr_StartTimer_def tmr_StopTimer_def)

lemma length_tids [simp]:
  "length (tSa1ArrayMng (RxQueue_PassPacket st p q)) = length (tSa1ArrayMng q)"
  "length (tSa1ArrayMng (updTimeout g q)) = length (tSa1ArrayMng q)"
  "length (tSa1ArrayMng (updTid t f q)) = length (tSa1ArrayMng q)"
  "length (tSa1ArrayMng (tmr_StartTimer q)) = length (tSa1ArrayMng q)"
  "length (tSa1ArrayMng (tmr_StopTimer q)) = length (tSa1ArrayMng q)"
  by (simp_all add: RxQueue_PassPacket_def Let_def updTimeout_def updTid_def tmr_StartTimer_def tmr_StopTimer_def)

lemma length_tids_pass [simp]: "length (tSa1ArrayMng (pass_win_start tid q)) = length (tSa1ArrayMng q)"
  by (simp add: pass_win_start_def Let_def split: option.splits)

lemma tidDB_pass:
  assumes "tid < length (tSa1ArrayMng q)"
  shows "tidDB (pass_win_start tid q) tid =
    (if pPacket (win_start (tidDB q tid)) = None then tidDB q tid else clear_win_start (tidDB q tid))"
  using assms by (auto simp: pass_win_start_def Let_def tidDB_updTid split: option.splits)

function pass_saved :: "nat \<Rightarrow> TRxQueue \<Rightarrow> TRxQueue" where
  "pass_saved tid q =
     (if tid < length (tSa1ArrayMng q) \<and> pPacket (win_start (tidDB q tid)) \<noteq> None
      then pass_saved tid (pass_step tid q) else q)"
  by auto
termination
proof (relation "measure (\<lambda>(tid, q). count_some (tidDB q tid))")
  fix tid q
  assume *: "tid < length (tSa1ArrayMng q) \<and> pPacket (win_start (tidDB q tid)) \<noteq> None"
  then obtain p where "pPacket (win_start (tidDB q tid)) = Some p" by auto
  with * count_some_clear [OF this]
  show "((tid, pass_step tid q), (tid, q)) \<in> measure (\<lambda>(tid, q). count_some (tidDB q tid))"
    by (simp add: pass_step_def tidDB_updTid tidDB_pass)
qed simp

declare pass_saved.simps [simp del]

text \<open>Part 3: pass what is saved below the new window start, at most a window; the rounds made are returned.\<close>

function part3_loop :: "nat \<Rightarrow> TI_UINT16 \<Rightarrow> nat \<Rightarrow> TRxQueue \<Rightarrow> nat \<times> TRxQueue" where
  "part3_loop tid uNewWinStartSn i q =
     (if BA_SESSION_IS_A_BIGGER_THAN_B (ucast uNewWinStartSn) (ucast (aTidExpectedSn (tidDB q tid))) \<and>
         i < RX_QUEUE_ARRAY_SIZE \<and> i < unat (aTidWinSize (tidDB q tid))
      then part3_loop tid uNewWinStartSn (i + 1) (pass_step tid q)
      else (i, q))"
  by auto
termination by (relation "measure (\<lambda>(tid, n, i, q). RX_QUEUE_ARRAY_SIZE - i)") auto

declare part3_loop.simps [simp del]

text \<open>Block-ack request: \<open>i < uWinStartDelta\<close> or a packet at the window start, at most eight rounds.\<close>

function bar_loop :: "nat \<Rightarrow> TI_UINT16 \<Rightarrow> nat \<Rightarrow> TRxQueue \<Rightarrow> TRxQueue" where
  "bar_loop tid uWinStartDelta i q =
     (if (i < unat uWinStartDelta \<or> pPacket (win_start (tidDB q tid)) \<noteq> None) \<and>
         i < RX_QUEUE_ARRAY_SIZE \<and> i < unat RX_QUEUE_WIN_SIZE
      then bar_loop tid uWinStartDelta (i + 1) (updTid tid next_index (pass_win_start tid q))
      else q)"
  by auto
termination by (relation "measure (\<lambda>(tid, n, i, q). RX_QUEUE_ARRAY_SIZE - i)") auto

declare bar_loop.simps [simp del]

section \<open>\<open>RxQueue_ReceivePacket\<close>\<close>

text \<open>\<open>(TI_UINT16)((uFrameSn + SEQ_NUM_WRAP - aTidExpectedSn) & SEQ_NUM_MASK)\<close> from the window start.\<close>

definition save_index :: "TRxQueueTidDataBase \<Rightarrow> TI_UINT16 \<Rightarrow> TI_UINT16" where
  "save_index tb sn =
     (ucast (aWinStartArrayInex tb) +
      ucast ((ucast sn + SEQ_NUM_WRAP - ucast (aTidExpectedSn tb)) AND SEQ_NUM_MASK))
     AND RX_QUEUE_ARRAY_SIZE_BIT_MASK"

definition win_end :: "TRxQueueTidDataBase \<Rightarrow> TI_UINT32" where
  "win_end tb = ucast (aTidExpectedSn tb) + aTidWinSize tb - 1"

definition rx_part1 :: "TI_UINT8 \<Rightarrow> RxPkt \<Rightarrow> TRxQueue \<Rightarrow> TRxQueue" where
  "rx_part1 uFrameTid p q =
     (let tid = unat uFrameTid;
          q = stop_miss q;
          q = RxQueue_PassPacket TI_OK p q;
          q = updTid tid (\<lambda>tb. next_index (next_sn tb)) q;
          q = pass_saved tid q;
          q = updTid tid (\<lambda>tb. tb\<lparr>aTidExpectedSn := aTidExpectedSn tb AND 0xFFF\<rparr>) q
      in start_if_stored uFrameTid q)"

definition rx_part2 :: "TI_UINT8 \<Rightarrow> TI_UINT16 \<Rightarrow> RxPkt \<Rightarrow> TRxQueue \<Rightarrow> TRxQueue" where
  "rx_part2 uFrameTid sn p q =
     (let tid = unat uFrameTid;
          uSaveIndex = unat (save_index (tidDB q tid) sn)
      in if pPacket (aPaketsQueue (tidDB q tid) ! uSaveIndex) = None then
           (let q = updTid tid (\<lambda>tb. tb\<lparr>aPaketsQueue := (aPaketsQueue tb)[uSaveIndex :=
                      \<lparr>pPacket = Some p, tStatus = TI_OK, uFrameSn = sn\<rparr>]\<rparr>) q;
                q = updTimeout (\<lambda>t. t\<lparr>aPacketsStored := aPacketsStored t + 1\<rparr>) q
            in if \<not> bPacketMiss (tPacketTimeout q)
               then updTimeout (\<lambda>t. t\<lparr>bPacketMiss := True, aFrameTid := uFrameTid\<rparr>) (tmr_StartTimer q)
               else q)
         else RxQueue_PassPacket TI_NOK p q)"

definition rx_part3 :: "TI_UINT8 \<Rightarrow> TI_UINT16 \<Rightarrow> RxPkt \<Rightarrow> TRxQueue \<Rightarrow> TRxQueue" where
  "rx_part3 uFrameTid sn p q =
     (let tid = unat uFrameTid;
          uNewWinStartSn = ucast ((ucast sn + SEQ_NUM_WRAP - aTidWinSize (tidDB q tid) + 1) AND SEQ_NUM_MASK);
          q = stop_miss q;
          q = updTid tid (\<lambda>tb. next_sn (next_index tb)) q;
          (i, q) = part3_loop tid uNewWinStartSn 0 q;
          q = (if i = unat (aTidWinSize (tidDB q tid))
               then updTid tid (\<lambda>tb. tb\<lparr>aTidExpectedSn := uNewWinStartSn\<rparr>) q
               else pass_saved tid q);
          q = (if aTidExpectedSn (tidDB q tid) = sn then
                 updTid tid next_sn (RxQueue_PassPacket TI_OK p q)
               else
                 (let uSaveIndex = unat (save_index (tidDB q tid) sn);
                      q = updTid tid (\<lambda>tb. tb\<lparr>aPaketsQueue := (aPaketsQueue tb)[uSaveIndex :=
                            (aPaketsQueue tb ! uSaveIndex)\<lparr>tStatus := TI_OK, pPacket := Some p\<rparr>]\<rparr>) q
                  in updTimeout (\<lambda>t. t\<lparr>aPacketsStored := aPacketsStored t + 1\<rparr>) q));
          q = updTid tid (\<lambda>tb. tb\<lparr>aTidExpectedSn := aTidExpectedSn tb AND 0xFFF\<rparr>) q
      in start_if_stored uFrameTid q)"

definition frame_sn :: "RxPkt \<Rightarrow> TI_UINT16" where
  "frame_sn p = drop_bit 4 (COPY_WLAN_WORD p hdr_seqCtrl AND 0xFFF0)"

definition frame_tid :: "RxPkt \<Rightarrow> TI_UINT8" where
  "frame_tid p = ucast (COPY_WLAN_WORD p hdr_qosControl AND 0x000F)"

definition rx_data_frame :: "RxPkt \<Rightarrow> TRxQueue \<Rightarrow> TRxQueue" where
  "rx_data_frame p q =
     (let uFrameTid = frame_tid p; tid = unat uFrameTid
      in if tid \<ge> MAX_NUM_OF_802_1d_TAGS then RxQueue_PassPacket TI_NOK p q
         else if \<not> aTidBaEstablished (tidDB q tid) then RxQueue_PassPacket TI_OK p q
         else
           (let sn = frame_sn p; tb = tidDB q tid
            in if sn = aTidExpectedSn tb then rx_part1 uFrameTid p q
               else if \<not> BA_SESSION_IS_A_BIGGER_THAN_B (ucast sn) (ucast (aTidExpectedSn tb))
               then RxQueue_PassPacket TI_OK p q
               else if \<not> BA_SESSION_IS_A_BIGGER_THAN_B (ucast sn) (win_end tb)
               then rx_part2 uFrameTid sn p q
               else rx_part3 uFrameTid sn p q))"

definition rx_bar :: "RxPkt \<Rightarrow> TRxQueue \<Rightarrow> TRxQueue" where
  "rx_bar p q =
     (let body = sizeof_dot11_BarFrameHeader_t;
          uFrameTid = ucast (drop_bit 12 (COPY_WLAN_WORD p body AND 0xF000));
          tid = unat uFrameTid
      in if tid \<ge> MAX_NUM_OF_802_1d_TAGS then RxQueue_PassPacket TI_NOK p q
         else if \<not> aTidBaEstablished (tidDB q tid) then RxQueue_PassPacket TI_NOK p q
         else
           (let ssn = drop_bit 4 (COPY_WLAN_WORD p (body + 2) AND 0xFFF0);
                q = (if BA_SESSION_IS_A_BIGGER_THAN_B (ucast ssn) (ucast (aTidExpectedSn (tidDB q tid))) then
                       (let uWinStartDelta = ssn - aTidExpectedSn (tidDB q tid);
                            q = stop_miss q;
                            q = bar_loop tid uWinStartDelta 0 q;
                            q = start_if_stored uFrameTid q
                        in updTid tid (\<lambda>tb. tb\<lparr>aTidExpectedSn := ssn\<rparr>) q)
                     else q)
            in RxQueue_PassPacket TI_OK p q))"

definition rx_addba :: "RxPkt \<Rightarrow> TRxQueue \<Rightarrow> TRxQueue" where
  "rx_addba p q =
     (let body = sizeof_dot11_mgmtHeader_t + 1 + 2;
          uBAParameterField = COPY_WLAN_WORD p body;
          tid = unat (drop_bit 2 (uBAParameterField AND 0x003C))
      in if tid \<ge> MAX_NUM_OF_802_1d_TAGS then RxQueue_PassPacket TI_NOK p q
         else if aTidBaEstablished (tidDB q tid) then RxQueue_PassPacket TI_NOK p q
         else
           (let w = ucast (drop_bit 6 (uBAParameterField AND 0xFFC0)) :: TI_UINT32;
                w = (if w > RX_QUEUE_WIN_SIZE then RX_QUEUE_WIN_SIZE else w);
                ssn = drop_bit 4 (COPY_WLAN_WORD p (body + 4) AND 0xFFF0);
                q = updTid tid (\<lambda>tb. tb\<lparr>aTidWinSize := w, aTidBaEstablished := True, aTidExpectedSn := ssn,
                      aWinStartArrayInex := 0, aPaketsQueue := replicate RX_QUEUE_ARRAY_SIZE zero_entry\<rparr>) q
            in RxQueue_PassPacket TI_OK p q))"

definition rx_delba :: "RxPkt \<Rightarrow> TRxQueue \<Rightarrow> TRxQueue" where
  "rx_delba p q =
     (let body = sizeof_dot11_mgmtHeader_t + 1 + 1;
          uFrameTid = ucast (drop_bit 12 (COPY_WLAN_WORD p body AND 0xF000));
          tid = unat uFrameTid
      in if tid \<ge> MAX_NUM_OF_802_1d_TAGS then RxQueue_PassPacket TI_NOK p q
         else if \<not> aTidBaEstablished (tidDB q tid) then RxQueue_PassPacket TI_NOK p q
         else RxQueue_PassPacket TI_OK p (RxQueue_CloseBaSession uFrameTid q))"

text \<open>The firmware's class tag is corrected from the frame itself.\<close>

definition fix_class_tag :: "RxPkt \<Rightarrow> RxPkt" where
  "fix_class_tag p =
     (if IS_QOS_FRAME (COPY_WLAN_WORD p hdr_fc) \<and> packet_class_tag p \<noteq> TAG_CLASS_QOS_DATA \<and>
         packet_class_tag p \<noteq> TAG_CLASS_AMSDU
      then p\<lparr>packet_class_tag := (if COPY_WLAN_WORD p hdr_qosControl AND 0x0080 \<noteq> 0
               then TAG_CLASS_AMSDU else TAG_CLASS_QOS_DATA)\<rparr>
      else p)"

definition RxQueue_ReceivePacket :: "RxPkt \<Rightarrow> TRxQueue \<Rightarrow> TRxQueue" where
  "RxQueue_ReceivePacket p0 q =
     (let p = fix_class_tag p0; tag = packet_class_tag p
      in if tag \<noteq> TAG_CLASS_QOS_DATA \<and> tag \<noteq> TAG_CLASS_BA_EVENT \<and> tag \<noteq> TAG_CLASS_AMSDU
         then RxQueue_PassPacket TI_OK p q
         else if tag = TAG_CLASS_QOS_DATA \<or> tag = TAG_CLASS_AMSDU then rx_data_frame p q
         else
           (let sub = COPY_WLAN_WORD p hdr_fc AND 0xF0; action = rx_data p (sizeof_dot11_mgmtHeader_t + 1)
            in if sub = 0x80 then rx_bar p q
               else if sub = 0xD0 then
                 (if action = 0 then rx_addba p q
                  else if action = 2 then rx_delba p q
                  else RxQueue_PassPacket TI_NOK p q)
               else RxQueue_PassPacket TI_NOK p q))"

section \<open>\<open>RxQueue_PacketTimeOut\<close>\<close>

text \<open>
  The search for the first stored packet has no bound: its result is \<open>None\<close> when it never ends.
\<close>

partial_function (option) find_first_stored :: "nat \<Rightarrow> TRxQueue \<Rightarrow> TRxQueue option" where
  "find_first_stored tid q =
     (if pPacket (win_start (tidDB q tid)) = None
      then find_first_stored tid (updTid tid (\<lambda>tb. next_sn (next_index tb)) q) else Some q)"

text \<open>The second loop also stops when the counter of stored packets is 0.\<close>

function send_stored :: "nat \<Rightarrow> TRxQueue \<Rightarrow> TRxQueue" where
  "send_stored tid q =
     (if tid < length (tSa1ArrayMng q) \<and> aPacketsStored (tPacketTimeout q) > 0 \<and>
         pPacket (win_start (tidDB q tid)) \<noteq> None
      then send_stored tid (pass_step tid q) else q)"
  by auto
termination
proof (relation "measure (\<lambda>(tid, q). count_some (tidDB q tid))")
  fix tid q
  assume *: "tid < length (tSa1ArrayMng q) \<and> aPacketsStored (tPacketTimeout q) > 0 \<and>
    pPacket (win_start (tidDB q tid)) \<noteq> None"
  then obtain p where "pPacket (win_start (tidDB q tid)) = Some p" by auto
  with * count_some_clear [OF this]
  show "((tid, pass_step tid q), (tid, q)) \<in> measure (\<lambda>(tid, q). count_some (tidDB q tid))"
    by (simp add: pass_step_def tidDB_updTid tidDB_pass)
qed simp

declare send_stored.simps [simp del]

text \<open>The timer has expired, so it does not run; \<open>None\<close> when the function does not return.\<close>

definition RxQueue_PacketTimeOut :: "TRxQueue \<Rightarrow> TRxQueue option" where
  "RxQueue_PacketTimeOut q0 =
     (let q = updTimeout (\<lambda>t. t\<lparr>bPacketMiss := False\<rparr>) (q0\<lparr>rxTimer := False\<rparr>);
          tid = unat (aFrameTid (tPacketTimeout q))
      in case (if aPacketsStored (tPacketTimeout q) \<noteq> 0
               then map_option (send_stored tid) (find_first_stored tid q) else Some q) of
           None \<Rightarrow> None
         | Some q \<Rightarrow> Some (if aPacketsStored (tPacketTimeout q) \<noteq> 0
             then updTimeout (\<lambda>t. t\<lparr>bPacketMiss := True\<rparr>) (tmr_StartTimer q) else q))"

end
