(* ===== verification/WlRxReorder.thy ===== *)
theory WlRxReorder
  imports WlRxQueue
begin

text \<open>
  What the receive reorder queue of theory \<open>WlRxQueue\<close> keeps: every buffer is delivered or stored
  exactly once, the array of a block-ack session is aligned with its expected sequence number, and
  delivery is in sequence order. It also shows where the code does not keep it: at the wrap of the
  window's end, in block-ack requests that stop inside a run of saved packets, and in the timeout
  of a TID that has nothing stored.
\<close>

section \<open>Sequence numbers\<close>

text \<open>How far \<open>s\<close> is ahead of \<open>e\<close>, modulo 4096.\<close>

definition sn_off :: "nat \<Rightarrow> nat \<Rightarrow> nat" where
  "sn_off e s = (s + 4096 - e) mod 4096"

lemma and_FFF: "unat (x AND 0xFFF) = unat (x :: 'a::len word) mod 4096" if "12 \<le> LENGTH('a)"
proof -
  have "x AND 0xFFF = take_bit 12 x" by (simp add: take_bit_eq_mask mask_eq_exp_minus_1)
  then show ?thesis using that by (simp only: unsigned_take_bit_eq) (simp add: take_bit_eq_mod)
qed

lemma and_7: "unat (x AND 7) = unat (x :: 'a::len word) mod 8" if "3 \<le> LENGTH('a)"
proof -
  have "x AND 7 = take_bit 3 x" by (simp add: take_bit_eq_mask mask_eq_exp_minus_1)
  then show ?thesis using that by (simp only: unsigned_take_bit_eq) (simp add: take_bit_eq_mod)
qed

lemma unat_ucast_16_32 [simp]: "unat (ucast (x :: TI_UINT16) :: TI_UINT32) = unat x"
  using unsigned_less [of x, where ?'a = nat] by (simp add: unsigned_ucast_eq take_bit_nat_eq_self)

lemma sub_mod_4096:
  fixes a b :: TI_UINT32
  assumes "unat b \<le> unat a + 8192"
  shows "unat (a - b) mod 4096 = (unat a + 8192 - unat b) mod 4096"
proof (cases "b \<le> a")
  case True
  then have "unat a + 8192 - unat b = unat (a - b) + 2 * 4096"
    by (simp add: unat_sub_small word_le_nat_alt)
  then show ?thesis by (metis mod_mult_self1)
next
  case False
  then have "unat (a - b) = unat a + 4294967296 - unat b"
    by (simp add: unat_sub_if_size size_word_def word_le_nat_alt)
  also have "\<dots> = (unat a + 8192 - unat b) + 1048574 * 4096" using assms by simp
  finally show ?thesis by (simp only: mod_mult_self1)
qed

lemma sn_off_less: "sn_off e s < 4096" by (simp add: sn_off_def)

lemma sn_off_if: "e < 4096 \<Longrightarrow> s < 4096 \<Longrightarrow> sn_off e s = (if e \<le> s then s - e else s + 4096 - e)"
  unfolding sn_off_def by (cases "e \<le> s") (simp_all add: mod_if)

lemma add_mod_4096_if: "e < 4096 \<Longrightarrow> d < 4096 \<Longrightarrow> (e + d) mod 4096 = (if e + d < 4096 then e + d else e + d - (4096::nat))"
  by (simp add: mod_if)

lemma sn_off_0: "e < 4096 \<Longrightarrow> s < 4096 \<Longrightarrow> sn_off e s = 0 \<longleftrightarrow> s = e"
  by (simp add: sn_off_if)

lemma sn_off_add: "e < 4096 \<Longrightarrow> d < 4096 \<Longrightarrow> sn_off e ((e + d) mod 4096) = d"
  by (cases "e + d < 4096") (simp_all add: sn_off_if add_mod_4096_if)

lemma sn_off_inv: "e < 4096 \<Longrightarrow> s < 4096 \<Longrightarrow> s = (e + sn_off e s) mod 4096"
  by (simp add: sn_off_if add_mod_4096_if)

lemma sn_off_step:
  assumes "e < 4096" "s < 4096" "n \<le> sn_off e s"
  shows "sn_off ((e + n) mod 4096) s = sn_off e s - n"
proof -
  have "n < 4096" using assms(3) sn_off_less [of e s] by simp
  with assms show ?thesis by (auto simp: sn_off_if add_mod_4096_if split: if_splits)
qed

lemma bigger_off:
  fixes a b :: TI_UINT16
  assumes "unat a < 4096" "unat b < 4096"
  shows "BA_SESSION_IS_A_BIGGER_THAN_B (ucast a) (ucast b) \<longleftrightarrow>
    0 < sn_off (unat b) (unat a) \<and> sn_off (unat b) (unat a) < 2047"
proof -
  have "unat ((ucast a - ucast b :: TI_UINT32) AND 0xFFF) = sn_off (unat b) (unat a)"
  proof -
    have "unat ((ucast a - ucast b :: TI_UINT32) AND 0xFFF) = (unat a + 8192 - unat b) mod 4096"
      using assms sub_mod_4096 [of "ucast b" "ucast a"] by (simp add: and_FFF)
    also have "unat a + 8192 - unat b = (unat a + 4096 - unat b) + 4096" using assms by simp
    finally show ?thesis by (simp add: sn_off_def)
  qed
  moreover have "(ucast a :: TI_UINT32) = ucast b \<longleftrightarrow> sn_off (unat b) (unat a) = 0"
    using assms by (simp add: sn_off_0 word_unat_eq_iff)
  ultimately show ?thesis by (auto simp: BA_SESSION_IS_A_BIGGER_THAN_B_def word_less_nat_alt)
qed

lemma win_end_unat:
  assumes "unat (aTidExpectedSn tb) < 4096" "1 \<le> unat (aTidWinSize tb)" "unat (aTidWinSize tb) \<le> 8"
  shows "unat (win_end tb) = unat (aTidExpectedSn tb) + unat (aTidWinSize tb) - 1"
proof -
  have "unat (ucast (aTidExpectedSn tb) + aTidWinSize tb :: TI_UINT32) =
      unat (aTidExpectedSn tb) + unat (aTidWinSize tb)"
    using assms by (simp add: unat_word_ariths)
  with assms show ?thesis unfolding win_end_def by (subst unat_sub_small) simp_all
qed

lemma bigger_end:
  fixes sn :: TI_UINT16
  assumes tb: "unat (aTidExpectedSn tb) < 4096" "1 \<le> unat (aTidWinSize tb)" "unat (aTidWinSize tb) \<le> 8"
    and sn: "unat sn < 4096" and d: "d = sn_off (unat (aTidExpectedSn tb)) (unat sn)" "0 < d" "d < 2047"
  shows "BA_SESSION_IS_A_BIGGER_THAN_B (ucast sn) (win_end tb) \<longleftrightarrow>
    unat (aTidWinSize tb) \<le> d \<or>
    (d + 1 = unat (aTidWinSize tb) \<and> 4096 \<le> unat (aTidExpectedSn tb) + d)"
proof -
  let ?e = "unat (aTidExpectedSn tb)" and ?w = "unat (aTidWinSize tb)"
  note we = win_end_unat [OF tb]
  have s: "unat sn = (?e + d) mod 4096" unfolding d(1) by (rule sn_off_inv [OF tb(1) sn])
  have s': "unat sn = (if ?e + d < 4096 then ?e + d else ?e + d - 4096)"
    using s d(3) tb(1) by (simp add: add_mod_4096_if)
  have le: "unat (win_end tb) \<le> unat sn + 8192" using we tb by simp
  have v: "unat ((ucast sn - win_end tb :: TI_UINT32) AND 0xFFF) =
      (if ?w \<le> d + 1 then d + 1 - ?w else 4096 + d + 1 - ?w)"
  proof -
    have "unat ((ucast sn - win_end tb :: TI_UINT32) AND 0xFFF) = (unat sn + 8192 - unat (win_end tb)) mod 4096"
      using sub_mod_4096 [of "win_end tb" "ucast sn"] le by (simp add: and_FFF)
    moreover have "unat sn + 8192 - unat (win_end tb) =
        (if ?w \<le> d + 1 then d + 1 - ?w else 4096 + d + 1 - ?w) +
        (if ?e + d < 4096 then if ?w \<le> d + 1 then 2 else 1 else if ?w \<le> d + 1 then 1 else 0) * 4096"
      using we tb s' by auto
    moreover have "(if ?w \<le> d + 1 then d + 1 - ?w else 4096 + d + 1 - ?w) < 4096" using d(3) by auto
    ultimately show ?thesis by (simp only: mod_mult_self1 mod_less)
  qed
  have eq: "(ucast sn :: TI_UINT32) = win_end tb \<longleftrightarrow> d + 1 = ?w \<and> ?e + d < 4096"
    using we tb s' d(3) by (auto simp: word_unat_eq_iff)
  show ?thesis unfolding BA_SESSION_IS_A_BIGGER_THAN_B_def word_less_nat_alt v eq
    using tb(2,3) d(2,3) by auto
qed

lemma save_index_unat:
  assumes "unat (aTidExpectedSn tb) < 4096" "unat (aWinStartArrayInex tb) < 8" "unat sn < 4096"
  shows "unat (save_index tb sn) =
    (unat (aWinStartArrayInex tb) + sn_off (unat (aTidExpectedSn tb)) (unat sn)) mod 8"
proof -
  have "unat (ucast sn + SEQ_NUM_WRAP - ucast (aTidExpectedSn tb) :: TI_UINT32) =
      unat sn + 4096 - unat (aTidExpectedSn tb)"
  proof (subst unat_sub_small)
    show "unat (ucast (aTidExpectedSn tb) :: TI_UINT32) \<le> unat (ucast sn + SEQ_NUM_WRAP)"
      using assms by (simp add: SEQ_NUM_WRAP_def unat_word_ariths)
    show "unat (ucast sn + SEQ_NUM_WRAP) - unat (ucast (aTidExpectedSn tb) :: TI_UINT32) =
      unat sn + 4096 - unat (aTidExpectedSn tb)"
      using assms by (simp add: SEQ_NUM_WRAP_def unat_word_ariths)
  qed
  then have o: "unat ((ucast sn + SEQ_NUM_WRAP - ucast (aTidExpectedSn tb) :: TI_UINT32) AND SEQ_NUM_MASK) =
      sn_off (unat (aTidExpectedSn tb)) (unat sn)"
    by (simp add: SEQ_NUM_MASK_def and_FFF sn_off_def)
  let ?x = "(ucast sn + SEQ_NUM_WRAP - ucast (aTidExpectedSn tb) :: TI_UINT32) AND SEQ_NUM_MASK"
  have "unat (ucast ?x :: TI_UINT16) = sn_off (unat (aTidExpectedSn tb)) (unat sn)"
    using o sn_off_less [of "unat (aTidExpectedSn tb)" "unat sn"]
    by (simp add: unsigned_ucast_eq take_bit_nat_eq_self)
  moreover have "unat (ucast (aWinStartArrayInex tb) :: TI_UINT16) = unat (aWinStartArrayInex tb)"
    using assms(2) by (simp add: unsigned_ucast_eq take_bit_nat_eq_self)
  ultimately show ?thesis
    using assms(2) sn_off_less [of "unat (aTidExpectedSn tb)" "unat sn"]
    by (simp add: save_index_def RX_QUEUE_ARRAY_SIZE_BIT_MASK_def and_7 unat_word_ariths)
qed
section \<open>Accounting of the buffers\<close>

definition entry_buf :: "TRxQueuePacketEntry \<Rightarrow> 32 word multiset" where
  "entry_buf e = (case pPacket e of None \<Rightarrow> {#} | Some p \<Rightarrow> {#rx_buf p#})"

definition saved :: "TRxQueueTidDataBase \<Rightarrow> 32 word multiset" where
  "saved tb = sum_list (map entry_buf (aPaketsQueue tb))"

definition all_saved :: "TRxQueue \<Rightarrow> 32 word multiset" where
  "all_saved q = sum_list (map saved (tSa1ArrayMng q))"

definition delivered :: "TRxQueue \<Rightarrow> 32 word multiset" where
  "delivered q = mset (map rx_buf (rxOut q))"

text \<open>The counter of stored packets, modulo its width.\<close>

definition counted :: "TRxQueue \<Rightarrow> bool" where
  "counted q \<longleftrightarrow> aPacketsStored (tPacketTimeout q) = of_nat (size (all_saved q))"

lemma all_saved_updTid:
  assumes "tid < length (tSa1ArrayMng q)"
  shows "all_saved (updTid tid f q) + saved (tidDB q tid) = all_saved q + saved (f (tidDB q tid))"
  using sum_list_map_update [OF assms, of saved "f (tSa1ArrayMng q ! tid)"]
  by (simp add: all_saved_def updTid_def tidDB_def)

lemma all_saved_updTid_same:
  assumes "saved (f (tidDB q tid)) = saved (tidDB q tid)"
  shows "all_saved (updTid tid f q) = all_saved q"
proof (cases "tid < length (tSa1ArrayMng q)")
  case True
  from all_saved_updTid [OF this, of f] assms show ?thesis by simp
next
  case False
  then show ?thesis by (simp add: all_saved_def updTid_def list_update_beyond)
qed

lemma saved_next [simp]:
  "saved (next_index tb) = saved tb" "saved (next_sn tb) = saved tb"
  "saved (tb\<lparr>aTidExpectedSn := e\<rparr>) = saved tb" "saved (tb\<lparr>aTidBaEstablished := b\<rparr>) = saved tb"
  by (simp_all add: saved_def next_index_def next_sn_def)

lemma saved_clear:
  assumes "pPacket (win_start tb) = Some p"
  shows "saved tb = add_mset (rx_buf p) (saved (clear_win_start tb))"
proof -
  have i: "unat (aWinStartArrayInex tb) < length (aPaketsQueue tb)"
    using assms by (auto simp: win_start_def Let_def zero_entry_def split: if_splits)
  have "entry_buf (aPaketsQueue tb ! unat (aWinStartArrayInex tb)) = {#rx_buf p#}"
    using assms i by (simp add: entry_buf_def win_start_def)
  with sum_list_map_update [OF i, of entry_buf "(win_start tb)\<lparr>pPacket := None\<rparr>"] show ?thesis
    by (simp add: saved_def clear_win_start_def entry_buf_def)
qed

lemma acct_simps [simp]:
  "all_saved (RxQueue_PassPacket st p q) = all_saved q"
  "all_saved (updTimeout g q) = all_saved q" "all_saved (tmr_StartTimer q) = all_saved q"
  "all_saved (tmr_StopTimer q) = all_saved q" "all_saved (q\<lparr>rxTimer := b\<rparr>) = all_saved q"
  "delivered (RxQueue_PassPacket st p q) = add_mset (rx_buf p) (delivered q)"
  "delivered (updTimeout g q) = delivered q" "delivered (tmr_StartTimer q) = delivered q"
  "delivered (tmr_StopTimer q) = delivered q" "delivered (updTid t f q) = delivered q"
  "delivered (q\<lparr>rxTimer := b\<rparr>) = delivered q"
  by (simp_all add: all_saved_def delivered_def RxQueue_PassPacket_def Let_def updTimeout_def
      tmr_StartTimer_def tmr_StopTimer_def updTid_def)

lemma timeout_simps [simp]:
  "tPacketTimeout (RxQueue_PassPacket st p q) = tPacketTimeout q"
  "tPacketTimeout (updTid t f q) = tPacketTimeout q"
  "tPacketTimeout (updTimeout g q) = g (tPacketTimeout q)"
  "tPacketTimeout (tmr_StartTimer q) = tPacketTimeout q" "tPacketTimeout (tmr_StopTimer q) = tPacketTimeout q"
  by (simp_all add: RxQueue_PassPacket_def Let_def updTimeout_def updTid_def tmr_StartTimer_def tmr_StopTimer_def)

text \<open>\<open>kept q q'\<close>: nothing enters or leaves the module, and the counter follows.\<close>

definition kept :: "TRxQueue \<Rightarrow> TRxQueue \<Rightarrow> bool" where
  "kept q q' \<longleftrightarrow> delivered q' + all_saved q' = delivered q + all_saved q \<and> (counted q \<longrightarrow> counted q')"

lemma kept_refl [simp, intro]: "kept q q" by (simp add: kept_def)

lemma kept_trans [trans]: "kept q q1 \<Longrightarrow> kept q1 q2 \<Longrightarrow> kept q q2" by (auto simp: kept_def)

lemma kept_stop_miss: "kept q (stop_miss q)"
  by (simp add: kept_def counted_def stop_miss_def)

lemma kept_start_if_stored: "kept q (start_if_stored t q)"
  by (simp add: kept_def counted_def start_if_stored_def)

lemma kept_updTid: "saved (f (tidDB q tid)) = saved (tidDB q tid) \<Longrightarrow> kept q (updTid tid f q)"
  by (simp add: kept_def counted_def all_saved_updTid_same)

lemma kept_pass_win_start:
  assumes "tid < length (tSa1ArrayMng q)"
  shows "kept q (pass_win_start tid q)"
proof (cases "pPacket (win_start (tidDB q tid))")
  case None
  then show ?thesis by (simp add: pass_win_start_def)
next
  case (Some p)
  let ?q = "updTid tid clear_win_start (RxQueue_PassPacket (tStatus (win_start (tidDB q tid))) p q)"
  have s: "add_mset (rx_buf p) (all_saved ?q) = all_saved q"
    using all_saved_updTid [of tid "RxQueue_PassPacket (tStatus (win_start (tidDB q tid))) p q" clear_win_start]
      saved_clear [OF Some] assms by simp
  then have "delivered ?q + all_saved ?q = delivered q + all_saved q" by simp
  moreover have "of_nat (size (all_saved q)) - 1 = (of_nat (size (all_saved ?q)) :: TI_UINT16)"
    unfolding s [symmetric] by simp
  ultimately show ?thesis using Some by (simp add: pass_win_start_def kept_def counted_def)
qed

lemma kept_pass_step: "tid < length (tSa1ArrayMng q) \<Longrightarrow> kept q (pass_step tid q)"
  unfolding pass_step_def by (rule kept_trans [OF kept_pass_win_start kept_updTid]) simp_all

lemma length_pass_step [simp]: "length (tSa1ArrayMng (pass_step tid q)) = length (tSa1ArrayMng q)"
  by (simp add: pass_step_def)

lemma kept_pass_saved: "kept q (pass_saved tid q)"
proof (induction tid q rule: pass_saved.induct)
  case (1 tid q)
  then show ?case by (subst pass_saved.simps) (auto intro: kept_trans [OF kept_pass_step])
qed

lemma kept_send_stored: "kept q (send_stored tid q)"
proof (induction tid q rule: send_stored.induct)
  case (1 tid q)
  then show ?case by (subst send_stored.simps) (auto intro: kept_trans [OF kept_pass_step])
qed

lemma kept_part3_loop: "tid < length (tSa1ArrayMng q) \<Longrightarrow> kept q (snd (part3_loop tid n i q))"
proof (induction tid n i q rule: part3_loop.induct)
  case (1 tid n i q)
  then show ?case by (subst part3_loop.simps) (auto intro: kept_trans [OF kept_pass_step])
qed

lemma kept_close_round: "tid < length (tSa1ArrayMng q) \<Longrightarrow> kept q (close_round tid q)"
  unfolding close_round_def by (rule kept_trans [OF kept_pass_win_start kept_updTid]) simp_all

lemma kept_bar_loop: "tid < length (tSa1ArrayMng q) \<Longrightarrow> kept q (bar_loop tid n i q)"
proof (induction tid n i q rule: bar_loop.induct)
  case (1 tid n i q)
  then show ?case
    by (subst bar_loop.simps) (auto intro: kept_trans [OF kept_close_round [unfolded close_round_def]])
qed

section \<open>The window as a list from the expected sequence number on\<close>

definition tid_wf :: "TRxQueueTidDataBase \<Rightarrow> bool" where
  "tid_wf tb \<longleftrightarrow> length (aPaketsQueue tb) = 8 \<and> unat (aWinStartArrayInex tb) < 8 \<and>
     unat (aTidExpectedSn tb) < 4096 \<and> (\<forall>e\<in>set (aPaketsQueue tb). tStatus e = TI_OK)"

definition win :: "TRxQueueTidDataBase \<Rightarrow> nat \<Rightarrow> RxPkt option" where
  "win tb k = (if k < 8 then pPacket (aPaketsQueue tb ! ((unat (aWinStartArrayInex tb) + k) mod 8)) else None)"

definition esn :: "TRxQueueTidDataBase \<Rightarrow> nat" where
  "esn tb = unat (aTidExpectedSn tb)"

lemma win_start_win: "tid_wf tb \<Longrightarrow> pPacket (win_start tb) = win tb 0"
  by (simp add: win_start_def win_def tid_wf_def Let_def)

lemma next_index_unat:
  "tid_wf tb \<Longrightarrow> unat (aWinStartArrayInex (next_index tb)) = (unat (aWinStartArrayInex tb) + 1) mod 8"
  by (simp add: next_index_def RX_QUEUE_ARRAY_SIZE_BIT_MASK_def and_7 tid_wf_def unat_word_ariths)

lemma next_sn_esn: "tid_wf tb \<Longrightarrow> esn (next_sn tb) = (esn tb + 1) mod 4096"
  by (simp add: next_sn_def esn_def and_FFF tid_wf_def unat_word_ariths)

lemma tid_wf_next: "tid_wf tb \<Longrightarrow> tid_wf (next_index tb)" "tid_wf tb \<Longrightarrow> tid_wf (next_sn tb)"
  using next_index_unat [of tb] next_sn_esn [of tb]
  by (simp_all add: tid_wf_def esn_def) (simp_all add: next_index_def next_sn_def)

lemma win_start_status: "tid_wf tb \<Longrightarrow> tStatus (win_start tb) = TI_OK"
  by (simp add: tid_wf_def win_start_def Let_def)

lemma tid_wf_clear: "tid_wf tb \<Longrightarrow> tid_wf (clear_win_start tb)"
  using win_start_status [of tb]
  by (auto simp: tid_wf_def clear_win_start_def dest!: set_update_subset_insert [THEN subsetD])

lemma mod_8_add_eq: "i < 8 \<Longrightarrow> k < 8 \<Longrightarrow> (i + k) mod 8 = i \<longleftrightarrow> k = (0::nat)"
  by presburger

lemma win_clear: "tid_wf tb \<Longrightarrow> win (clear_win_start tb) k = (if k = 0 then None else win tb k)"
  using mod_8_add_eq [of "unat (aWinStartArrayInex tb)" k]
  by (auto simp: win_def clear_win_start_def tid_wf_def nth_list_update)

lemma esn_simps [simp]:
  "esn (clear_win_start tb) = esn tb" "esn (next_index tb) = esn tb" "win (next_sn tb) = win tb"
  "aTidWinSize (clear_win_start tb) = aTidWinSize tb" "aTidWinSize (next_index tb) = aTidWinSize tb"
  "aTidWinSize (next_sn tb) = aTidWinSize tb"
  "aTidBaEstablished (clear_win_start tb) = aTidBaEstablished tb"
  "aTidBaEstablished (next_index tb) = aTidBaEstablished tb"
  "aTidBaEstablished (next_sn tb) = aTidBaEstablished tb"
  by (simp_all add: esn_def clear_win_start_def next_index_def next_sn_def win_def fun_eq_iff)

lemma win_next_index:
  assumes "tid_wf tb" "win tb 0 = None"
  shows "win (next_index tb) k = win tb (k + 1)"
proof -
  have "aPaketsQueue (next_index tb) = aPaketsQueue tb" by (simp add: next_index_def)
  moreover have "((unat (aWinStartArrayInex tb) + 1) mod 8 + k) mod 8 =
      (unat (aWinStartArrayInex tb) + (k + 1)) mod 8" by presburger
  moreover have "pPacket (aPaketsQueue tb ! ((unat (aWinStartArrayInex tb) + 8) mod 8)) = None"
    using assms by (simp add: win_def tid_wf_def)
  ultimately show ?thesis using next_index_unat [OF assms(1)]
    by (cases "k = 7") (auto simp: win_def)
qed

text \<open>What one step of any of the loops does to its TID: drop the first place of the window.\<close>

definition tb_step :: "TRxQueueTidDataBase \<Rightarrow> TRxQueueTidDataBase" where
  "tb_step tb = next_sn (next_index (if pPacket (win_start tb) = None then tb else clear_win_start tb))"

lemma tidDB_pass_step:
  "tid < length (tSa1ArrayMng q) \<Longrightarrow> tidDB (pass_step tid q) tid = tb_step (tidDB q tid)"
  by (simp add: pass_step_def tidDB_updTid tidDB_pass tb_step_def)

lemma tb_step:
  assumes "tid_wf tb"
  shows "tid_wf (tb_step tb)" "win (tb_step tb) k = win tb (k + 1)" "esn (tb_step tb) = (esn tb + 1) mod 4096"
    "aTidWinSize (tb_step tb) = aTidWinSize tb" "aTidBaEstablished (tb_step tb) = aTidBaEstablished tb"
proof -
  let ?t = "if pPacket (win_start tb) = None then tb else clear_win_start tb"
  have t: "tid_wf ?t" "win ?t 0 = None" "esn ?t = esn tb"
    using assms by (auto simp: tid_wf_clear win_clear win_start_win)
  have "win ?t (k + 1) = win tb (k + 1)" using assms by (simp add: win_clear)
  then show "win (tb_step tb) k = win tb (k + 1)"
    unfolding tb_step_def by (simp only: esn_simps win_next_index [OF t(1,2)])
  show "tid_wf (tb_step tb)" unfolding tb_step_def by (intro tid_wf_next t)
  show "esn (tb_step tb) = (esn tb + 1) mod 4096"
    unfolding tb_step_def using t by (simp add: next_sn_esn tid_wf_next)
  show "aTidWinSize (tb_step tb) = aTidWinSize tb" "aTidBaEstablished (tb_step tb) = aTidBaEstablished tb"
    by (simp_all add: tb_step_def)
qed

text \<open>The same step without the sequence number, of the two loops that end or move a session.\<close>

definition tb_istep :: "TRxQueueTidDataBase \<Rightarrow> TRxQueueTidDataBase" where
  "tb_istep tb = next_index (if pPacket (win_start tb) = None then tb else clear_win_start tb)"

lemma tidDB_close_round:
  "tid < length (tSa1ArrayMng q) \<Longrightarrow> tidDB (close_round tid q) tid = tb_istep (tidDB q tid)"
  by (simp add: close_round_def tidDB_updTid tidDB_pass tb_istep_def)

lemma tb_istep:
  assumes "tid_wf tb"
  shows "tid_wf (tb_istep tb)" "win (tb_istep tb) k = win tb (k + 1)" "esn (tb_istep tb) = esn tb"
    "aTidWinSize (tb_istep tb) = aTidWinSize tb" "aTidBaEstablished (tb_istep tb) = aTidBaEstablished tb"
proof -
  let ?t = "if pPacket (win_start tb) = None then tb else clear_win_start tb"
  have t: "tid_wf ?t" "win ?t 0 = None"
    using assms by (auto simp: tid_wf_clear win_clear win_start_win)
  have "win ?t (k + 1) = win tb (k + 1)" using assms by (simp add: win_clear)
  then show "win (tb_istep tb) k = win tb (k + 1)"
    unfolding tb_istep_def by (simp only: win_next_index [OF t])
  show "tid_wf (tb_istep tb)" unfolding tb_istep_def by (intro tid_wf_next t)
  show "esn (tb_istep tb) = esn tb" "aTidWinSize (tb_istep tb) = aTidWinSize tb"
    "aTidBaEstablished (tb_istep tb) = aTidBaEstablished tb" by (simp_all add: tb_istep_def)
qed

lemma win_beyond: "8 \<le> k \<Longrightarrow> win tb k = None"
  by (simp add: win_def)


end
