(* ===== verification/WlRxWindow.thy ===== *)
theory WlRxWindow
  imports WlRxReorder
begin

text \<open>
  The loops of the receive reorder queue as repeated rounds on the window of one TID, and what the
  loops of each part of \<open>RxQueue_ReceivePacket\<close> do to the window and to the output.
\<close>

section \<open>The loops as repeated steps\<close>

definition wpkts :: "(nat \<Rightarrow> RxPkt option) \<Rightarrow> nat \<Rightarrow> RxPkt list" where
  "wpkts W n = map (\<lambda>k. the (W k)) (filter (\<lambda>k. W k \<noteq> None) [0..<n])"

text \<open>The packets at the first \<open>n\<close> places of the window.\<close>

abbreviation head_pkts :: "TRxQueueTidDataBase \<Rightarrow> nat \<Rightarrow> RxPkt list" where
  "head_pkts tb n \<equiv> wpkts (win tb) n"

lemma rxOut_simps [simp]:
  "rxOut (RxQueue_PassPacket TI_OK p q) = rxOut q @ [p]"
  "rxOut (updTid t f q) = rxOut q" "rxOut (updTimeout g q) = rxOut q"
  "rxOut (tmr_StartTimer q) = rxOut q" "rxOut (tmr_StopTimer q) = rxOut q"
  by (simp_all add: RxQueue_PassPacket_def Let_def updTid_def updTimeout_def
      tmr_StartTimer_def tmr_StopTimer_def)

lemma rxOut_pass_win_start:
  assumes "tid_wf (tidDB q tid)"
  shows "rxOut (pass_win_start tid q) = rxOut q @ head_pkts (tidDB q tid) 1"
  using win_start_win [OF assms] win_start_status [OF assms]
  by (auto simp: pass_win_start_def wpkts_def Let_def split: option.splits)

lemma rxOut_pass_step:
  assumes "tid_wf (tidDB q tid)"
  shows "rxOut (pass_step tid q) = rxOut q @ head_pkts (tidDB q tid) 1"
  using rxOut_pass_win_start [OF assms] by (simp add: pass_step_def)

lemma tidDB_other:
  "t \<noteq> tid \<Longrightarrow> tidDB (updTid tid f q) t = tidDB q t"
  by (simp add: tidDB_def updTid_def)

lemma pass_step_other: "t \<noteq> tid \<Longrightarrow> tidDB (pass_step tid q) t = tidDB q t"
  by (simp add: pass_step_def pass_win_start_def tidDB_other Let_def split: option.splits)

lemma rxOut_close_round:
  assumes "tid_wf (tidDB q tid)"
  shows "rxOut (close_round tid q) = rxOut q @ head_pkts (tidDB q tid) 1"
  using rxOut_pass_win_start [OF assms] by (simp add: close_round_def)

lemma close_round_other: "t \<noteq> tid \<Longrightarrow> tidDB (close_round tid q) t = tidDB q t"
  by (simp add: close_round_def pass_win_start_def tidDB_other Let_def split: option.splits)

lemma length_close_round [simp]: "length (tSa1ArrayMng (close_round tid q)) = length (tSa1ArrayMng q)"
  by (simp add: close_round_def)

text \<open>
  The contract of one round: it drops the first place of its TID's window, delivers what is there,
  leaves the other TIDs alone and keeps the accounts; \<open>inc\<close> is what it adds to the expected
  sequence number.
\<close>

locale tid_round =
  fixes rnd :: "nat \<Rightarrow> TRxQueue \<Rightarrow> TRxQueue"
    and stp :: "TRxQueueTidDataBase \<Rightarrow> TRxQueueTidDataBase"
    and inc :: nat
  assumes rnd_tid: "tid < length (tSa1ArrayMng q) \<Longrightarrow> tidDB (rnd tid q) tid = stp (tidDB q tid)"
    and rnd_other: "t \<noteq> tid \<Longrightarrow> tidDB (rnd tid q) t = tidDB q t"
    and rnd_length: "length (tSa1ArrayMng (rnd tid q)) = length (tSa1ArrayMng q)"
    and rnd_out: "tid_wf (tidDB q tid) \<Longrightarrow> rxOut (rnd tid q) = rxOut q @ head_pkts (tidDB q tid) 1"
    and rnd_kept: "tid < length (tSa1ArrayMng q) \<Longrightarrow> kept q (rnd tid q)"
    and stp_wf: "tid_wf tb \<Longrightarrow> tid_wf (stp tb)"
    and stp_win: "tid_wf tb \<Longrightarrow> win (stp tb) k = win tb (k + 1)"
    and stp_esn: "tid_wf tb \<Longrightarrow> esn (stp tb) = (esn tb + inc) mod 4096"
    and stp_size: "tid_wf tb \<Longrightarrow> aTidWinSize (stp tb) = aTidWinSize tb"
    and stp_est: "tid_wf tb \<Longrightarrow> aTidBaEstablished (stp tb) = aTidBaEstablished tb"
begin

lemma stps:
  assumes "tid_wf tb"
  shows "tid_wf ((stp ^^ n) tb)" "win ((stp ^^ n) tb) k = win tb (k + n)"
    "esn ((stp ^^ n) tb) = (esn tb + n * inc) mod 4096"
    "aTidWinSize ((stp ^^ n) tb) = aTidWinSize tb"
    "aTidBaEstablished ((stp ^^ n) tb) = aTidBaEstablished tb"
proof -
  have "tid_wf ((stp ^^ n) tb) \<and> (\<forall>k. win ((stp ^^ n) tb) k = win tb (k + n)) \<and>
      esn ((stp ^^ n) tb) = (esn tb + n * inc) mod 4096 \<and> aTidWinSize ((stp ^^ n) tb) = aTidWinSize tb \<and>
      aTidBaEstablished ((stp ^^ n) tb) = aTidBaEstablished tb"
  proof (induction n)
    case 0
    then show ?case using assms by (simp add: tid_wf_def esn_def)
  next
    case (Suc n)
    then show ?case
      by (simp add: stp_wf stp_win stp_esn stp_size stp_est mod_add_right_eq add.commute add.left_commute)
  qed
  then show "tid_wf ((stp ^^ n) tb)" "win ((stp ^^ n) tb) k = win tb (k + n)"
    "esn ((stp ^^ n) tb) = (esn tb + n * inc) mod 4096"
    "aTidWinSize ((stp ^^ n) tb) = aTidWinSize tb"
    "aTidBaEstablished ((stp ^^ n) tb) = aTidBaEstablished tb" by auto
qed

lemma head_pkts_Suc:
  assumes "tid_wf tb"
  shows "head_pkts tb (Suc n) = head_pkts tb 1 @ head_pkts (stp tb) n"
proof -
  have "[0..<Suc n] = 0 # map Suc [0..<n]" by (simp add: upt_conv_Cons map_Suc_upt)
  then show ?thesis
    by (simp add: wpkts_def filter_map comp_def stp_win [OF assms])
qed

lemma rounds:
  assumes "tid < length (tSa1ArrayMng q)" "tid_wf (tidDB q tid)"
  shows "length (tSa1ArrayMng ((rnd tid ^^ n) q)) = length (tSa1ArrayMng q)"
    "tidDB ((rnd tid ^^ n) q) tid = (stp ^^ n) (tidDB q tid)"
    "t \<noteq> tid \<Longrightarrow> tidDB ((rnd tid ^^ n) q) t = tidDB q t"
    "rxOut ((rnd tid ^^ n) q) = rxOut q @ head_pkts (tidDB q tid) n"
    "kept q ((rnd tid ^^ n) q)"
proof -
  have "length (tSa1ArrayMng ((rnd tid ^^ n) q)) = length (tSa1ArrayMng q) \<and>
      tidDB ((rnd tid ^^ n) q) tid = (stp ^^ n) (tidDB q tid) \<and>
      (\<forall>t. t \<noteq> tid \<longrightarrow> tidDB ((rnd tid ^^ n) q) t = tidDB q t) \<and>
      rxOut ((rnd tid ^^ n) q) = rxOut q @ head_pkts (tidDB q tid) n \<and> kept q ((rnd tid ^^ n) q)"
    using assms
  proof (induction n arbitrary: q)
    case 0
    then show ?case by (simp add: wpkts_def)
  next
    case (Suc n)
    have "tid < length (tSa1ArrayMng (rnd tid q))" "tid_wf (tidDB (rnd tid q) tid)"
      using Suc.prems by (simp_all add: rnd_length rnd_tid stp_wf)
    note IH = Suc.IH [OF this]
    have "tidDB ((rnd tid ^^ Suc n) q) tid = (stp ^^ Suc n) (tidDB q tid)"
      using IH Suc.prems by (simp add: rnd_tid funpow_Suc_right del: funpow.simps)
    moreover have "rxOut ((rnd tid ^^ Suc n) q) = rxOut q @ head_pkts (tidDB q tid) (Suc n)"
      using IH Suc.prems
      by (simp add: rnd_tid rnd_out head_pkts_Suc [OF Suc.prems(2), of n] funpow_Suc_right del: funpow.simps)
    moreover have "kept q ((rnd tid ^^ Suc n) q)"
      using IH kept_trans [OF rnd_kept [OF Suc.prems(1)]] by (simp add: funpow_Suc_right del: funpow.simps)
    ultimately show ?case
      using IH by (simp add: rnd_other rnd_length funpow_Suc_right del: funpow.simps)
  qed
  then show "length (tSa1ArrayMng ((rnd tid ^^ n) q)) = length (tSa1ArrayMng q)"
    "tidDB ((rnd tid ^^ n) q) tid = (stp ^^ n) (tidDB q tid)"
    "t \<noteq> tid \<Longrightarrow> tidDB ((rnd tid ^^ n) q) t = tidDB q t"
    "rxOut ((rnd tid ^^ n) q) = rxOut q @ head_pkts (tidDB q tid) n"
    "kept q ((rnd tid ^^ n) q)" by auto
qed

end

interpretation ps: tid_round pass_step tb_step 1
  by unfold_locales
    (simp_all add: tidDB_pass_step pass_step_other rxOut_pass_step kept_pass_step tb_step)

interpretation cr: tid_round close_round tb_istep 0
  by unfold_locales
    (simp_all add: tidDB_close_round close_round_other rxOut_close_round kept_close_round tb_istep,
     simp add: tid_wf_def esn_def)

lemma pass_saved_rounds:
  assumes "tid < length (tSa1ArrayMng q)" "tid_wf (tidDB q tid)"
  obtains n where "pass_saved tid q = (pass_step tid ^^ n) q" "\<forall>k<n. win (tidDB q tid) k \<noteq> None"
    "win (tidDB q tid) n = None"
proof -
  have "\<exists>n. pass_saved tid q = (pass_step tid ^^ n) q \<and> (\<forall>k<n. win (tidDB q tid) k \<noteq> None) \<and> win (tidDB q tid) n = None"
    using assms
  proof (induction tid q rule: pass_saved.induct)
    case (1 tid q)
    show ?case
    proof (cases "pPacket (win_start (tidDB q tid)) = None")
      case True
      with 1(3) show ?thesis by (intro exI [of _ 0]) (simp add: pass_saved.simps [of tid q] win_start_win)
    next
      case False
      have "tid < length (tSa1ArrayMng (pass_step tid q))" "tid_wf (tidDB (pass_step tid q) tid)"
        using 1(2,3) by (simp_all add: tidDB_pass_step tb_step)
      from 1(1) [OF conjI [OF 1(2) False] this]
      obtain n where n: "pass_saved tid (pass_step tid q) = (pass_step tid ^^ n) (pass_step tid q)"
        "\<forall>k<n. win (tb_step (tidDB q tid)) k \<noteq> None" "win (tb_step (tidDB q tid)) n = None"
        using 1(2) by (auto simp: tidDB_pass_step)
      have "pass_saved tid q = (pass_step tid ^^ Suc n) q"
        using False 1(2) n(1) by (subst pass_saved.simps) (simp add: funpow_Suc_right del: funpow.simps)
      moreover have "\<forall>k<Suc n. win (tidDB q tid) k \<noteq> None"
        using n(2) False win_start_win [OF 1(3)] by (auto simp: tb_step [OF 1(3)] less_Suc_eq_0_disj)
      moreover have "win (tidDB q tid) (Suc n) = None" using n(3) by (simp add: tb_step [OF 1(3)])
      ultimately show ?thesis by blast
    qed
  qed
  then show ?thesis using that by blast
qed

lemma part3_loop_rounds:
  assumes "tid < length (tSa1ArrayMng q)" "tid_wf (tidDB q tid)" "unat ns < 4096"
    "sn_off (esn (tidDB q tid)) (unat ns) < 2047" "unat (aTidWinSize (tidDB q tid)) \<le> 8"
    "i \<le> unat (aTidWinSize (tidDB q tid))"
    "n = min (sn_off (esn (tidDB q tid)) (unat ns)) (unat (aTidWinSize (tidDB q tid)) - i)"
  shows "part3_loop tid ns i q = (i + n, (pass_step tid ^^ n) q)"
  using assms
proof (induction "unat (aTidWinSize (tidDB q tid)) - i" arbitrary: i q n)
  case 0
  then have "i = unat (aTidWinSize (tidDB q tid))" "n = 0" by simp_all
  then show ?case by (simp add: part3_loop.simps)
next
  case (Suc w)
  let ?tb = "tidDB q tid"
  have e: "unat (aTidExpectedSn ?tb) < 4096" using Suc.prems(2) by (simp add: tid_wf_def)
  note big = bigger_off [OF Suc.prems(3) e]
  show ?case
  proof (cases "sn_off (esn ?tb) (unat ns) = 0")
    case True
    then show ?thesis using Suc.prems(7) big by (simp add: part3_loop.simps [of tid ns i q] esn_def)
  next
    case False
    let ?q = "pass_step tid q"
    have s: "tidDB ?q tid = tb_step ?tb" using Suc.prems(1) by (simp add: tidDB_pass_step)
    have o: "sn_off (esn (tidDB ?q tid)) (unat ns) = sn_off (esn ?tb) (unat ns) - 1"
      unfolding s tb_step(3) [OF Suc.prems(2)]
      using False Suc.prems(3) e sn_off_step [of "esn ?tb" "unat ns" 1] by (simp add: esn_def)
    have w: "aTidWinSize (tidDB ?q tid) = aTidWinSize ?tb" unfolding s by (simp add: tb_step(4) Suc.prems(2))
    have "part3_loop tid ns (i + 1) ?q = (i + 1 + (n - 1), (pass_step tid ^^ (n - 1)) ?q)"
    proof (rule Suc.hyps(1))
      show "w = unat (aTidWinSize (tidDB ?q tid)) - (i + 1)" using Suc.hyps(2) w by simp
      show "tid_wf (tidDB ?q tid)" unfolding s by (simp add: tb_step(1) Suc.prems(2))
      show "i + 1 \<le> unat (aTidWinSize (tidDB ?q tid))" using Suc.hyps(2) w by simp
      show "n - 1 = min (sn_off (esn (tidDB ?q tid)) (unat ns)) (unat (aTidWinSize (tidDB ?q tid)) - (i + 1))"
        unfolding o w Suc.prems(7) by simp
    qed (use Suc.prems o w in simp_all)
    moreover have "part3_loop tid ns i q = part3_loop tid ns (i + 1) ?q"
    proof -
      have "i < unat (aTidWinSize ?tb)" "i < 8" using Suc.hyps(2) Suc.prems(5) by simp_all
      with False Suc.prems(4) big show ?thesis
        by (subst part3_loop.simps) (simp add: esn_def RX_QUEUE_ARRAY_SIZE_def)
    qed
    moreover have "0 < n" using Suc.prems(7) Suc.hyps(2) False by simp
    ultimately show ?thesis by (cases n) (simp_all add: funpow_Suc_right del: funpow.simps)
  qed
qed

lemma part3_loop_behind:
  assumes "tid_wf (tidDB q tid)" "unat ns < 4096" "2047 \<le> sn_off (esn (tidDB q tid)) (unat ns)"
  shows "part3_loop tid ns i q = (i, q)"
proof -
  have e: "unat (aTidExpectedSn (tidDB q tid)) < 4096" using assms(1) by (simp add: tid_wf_def)
  show ?thesis using bigger_off [OF assms(2) e] assms(3) by (simp add: part3_loop.simps [of tid ns i q] esn_def)
qed

lemma bar_loop_rounds:
  assumes "tid < length (tSa1ArrayMng q)" "tid_wf (tidDB q tid)" "i \<le> 8"
  obtains r where "bar_loop tid dlt i q = (close_round tid ^^ r) q" "i + r \<le> 8"
    "i + r < 8 \<Longrightarrow> unat dlt \<le> i + r \<and> win (tidDB q tid) r = None"
    "\<And>k. k < r \<Longrightarrow> i + k < unat dlt \<or> win (tidDB q tid) k \<noteq> None"
proof -
  have "\<exists>r. bar_loop tid dlt i q = (close_round tid ^^ r) q \<and> i + r \<le> 8 \<and>
    (i + r < 8 \<longrightarrow> unat dlt \<le> i + r \<and> win (tidDB q tid) r = None) \<and>
    (\<forall>k<r. i + k < unat dlt \<or> win (tidDB q tid) k \<noteq> None)"
    using assms
  proof (induction "8 - i" arbitrary: i q)
    case 0
    then have "bar_loop tid dlt i q = q" by (subst bar_loop.simps) (simp add: RX_QUEUE_ARRAY_SIZE_def)
    with 0 show ?case by (intro exI [of _ 0]) simp
  next
    case (Suc m)
    let ?tb = "tidDB q tid"
    show ?case
    proof (cases "i < unat dlt \<or> win ?tb 0 \<noteq> None")
      case False
      then show ?thesis using Suc.prems
        by (intro exI [of _ 0]) (simp add: bar_loop.simps [of tid dlt i q] win_start_win)
    next
      case True
      let ?q = "close_round tid q"
      have s: "tidDB ?q tid = tb_istep ?tb" using Suc.prems(1) by (simp add: tidDB_close_round)
      have "\<exists>r. bar_loop tid dlt (i + 1) ?q = (close_round tid ^^ r) ?q \<and> i + 1 + r \<le> 8 \<and>
        (i + 1 + r < 8 \<longrightarrow> unat dlt \<le> i + 1 + r \<and> win (tidDB ?q tid) r = None) \<and>
        (\<forall>k<r. i + 1 + k < unat dlt \<or> win (tidDB ?q tid) k \<noteq> None)"
        by (rule Suc.hyps(1)) (use Suc.hyps(2) Suc.prems s tb_istep in simp_all)
      then obtain r where r: "bar_loop tid dlt (i + 1) ?q = (close_round tid ^^ r) ?q" "i + 1 + r \<le> 8"
        "i + 1 + r < 8 \<longrightarrow> unat dlt \<le> i + 1 + r \<and> win (tidDB ?q tid) r = None"
        "\<forall>k<r. i + 1 + k < unat dlt \<or> win (tidDB ?q tid) k \<noteq> None" by blast
      have "bar_loop tid dlt i q = bar_loop tid dlt (i + 1) ?q"
        using True Suc.hyps(2) Suc.prems
        by (subst bar_loop.simps) (simp add: RX_QUEUE_ARRAY_SIZE_def RX_QUEUE_WIN_SIZE_def win_start_win close_round_def)
      with r True show ?thesis unfolding s tb_istep(2) [OF Suc.prems(2)]
        by (intro exI [of _ "Suc r"]) (auto simp: funpow_Suc_right less_Suc_eq_0_disj simp del: funpow.simps)
    qed
  qed
  then show ?thesis using that by blast
qed

lemma foldl_rounds: "foldl (\<lambda>q i. close_round tid q) q xs = (close_round tid ^^ length xs) q"
proof (induction xs arbitrary: q)
  case (Cons x xs)
  then show ?case by (simp add: funpow_swap1)
qed simp

section \<open>Composing the parts\<close>

text \<open>
  \<open>moved tid s out W b q q'\<close>: from \<open>q\<close> to \<open>q'\<close> the TID's expected sequence number advances by \<open>s\<close>,
  its window becomes \<open>W\<close>, the packets \<open>out\<close> are delivered, the buffers \<open>b\<close> enter the module, and
  nothing else changes but the timeout's fields.
\<close>

definition moved :: "nat \<Rightarrow> nat \<Rightarrow> RxPkt list \<Rightarrow> (nat \<Rightarrow> RxPkt option) \<Rightarrow> 32 word multiset \<Rightarrow>
    TRxQueue \<Rightarrow> TRxQueue \<Rightarrow> bool" where
  "moved tid s out W b q q' \<longleftrightarrow>
     tid < length (tSa1ArrayMng q) \<and> tid_wf (tidDB q tid) \<and> tid_wf (tidDB q' tid) \<and>
     length (tSa1ArrayMng q') = length (tSa1ArrayMng q) \<and> (\<forall>t. t \<noteq> tid \<longrightarrow> tidDB q' t = tidDB q t) \<and>
     esn (tidDB q' tid) = (esn (tidDB q tid) + s) mod 4096 \<and> win (tidDB q' tid) = W \<and>
     aTidWinSize (tidDB q' tid) = aTidWinSize (tidDB q tid) \<and>
     aTidBaEstablished (tidDB q' tid) = aTidBaEstablished (tidDB q tid) \<and>
     rxOut q' = rxOut q @ out \<and>
     delivered q' + all_saved q' = delivered q + all_saved q + b \<and> (counted q \<longrightarrow> counted q')"

lemma moved_trans:
  assumes "moved tid s1 out1 W1 b1 q q1" "moved tid s2 out2 W2 b2 q1 q2"
  shows "moved tid (s1 + s2) (out1 @ out2) W2 (b1 + b2) q q2"
  using assms by (auto simp: moved_def mod_add_left_eq add.assoc)

lemma movedD:
  assumes "moved tid s out W b q q'"
  shows "tid < length (tSa1ArrayMng q')" "tid_wf (tidDB q' tid)"
    "esn (tidDB q' tid) = (esn (tidDB q tid) + s) mod 4096" "win (tidDB q' tid) = W"
    "aTidWinSize (tidDB q' tid) = aTidWinSize (tidDB q tid)"
  using assms by (auto simp: moved_def)

lemma esn_less: "tid_wf tb \<Longrightarrow> esn tb < 4096"
  by (simp add: tid_wf_def esn_def)

lemma moved_rounds:
  assumes "tid < length (tSa1ArrayMng q)" "tid_wf (tidDB q tid)"
  shows "moved tid n (head_pkts (tidDB q tid) n) (\<lambda>k. win (tidDB q tid) (k + n)) {#} q ((pass_step tid ^^ n) q)"
  using ps.rounds [OF assms, where n = n] ps.stps [OF assms(2), where n = n] assms
  by (auto simp: moved_def kept_def)

lemma moved_pass:
  assumes "tid < length (tSa1ArrayMng q)" "tid_wf (tidDB q tid)"
  shows "moved tid 0 [p] (win (tidDB q tid)) {#rx_buf p#} q (RxQueue_PassPacket TI_OK p q)"
  using assms by (simp add: moved_def esn_less counted_def)

lemma moved_timer:
  assumes "tid < length (tSa1ArrayMng q)" "tid_wf (tidDB q tid)"
  shows "moved tid 0 [] (win (tidDB q tid)) {#} q (stop_miss q)"
    "moved tid 0 [] (win (tidDB q tid)) {#} q (start_if_stored t q)"
  using assms by (simp_all add: moved_def esn_less counted_def stop_miss_def start_if_stored_def)

lemma updTid_same: "tid < length (tSa1ArrayMng q) \<Longrightarrow> f (tidDB q tid) = tidDB q tid \<Longrightarrow> updTid tid f q = q"
  by (simp add: updTid_def tidDB_def)

lemma mask_esn:
  assumes "tid < length (tSa1ArrayMng q)" "tid_wf (tidDB q tid)"
  shows "updTid tid (\<lambda>tb. tb\<lparr>aTidExpectedSn := aTidExpectedSn tb AND 0xFFF\<rparr>) q = q"
proof -
  have "aTidExpectedSn (tidDB q tid) AND 0xFFF = aTidExpectedSn (tidDB q tid)"
    using assms(2) by (simp add: word_unat_eq_iff and_FFF tid_wf_def)
  with assms(1) show ?thesis by (simp add: updTid_same)
qed

text \<open>Storing a packet at an empty place.\<close>

lemma add_mod_8_inj: "a < 8 \<Longrightarrow> k < 8 \<Longrightarrow> d < 8 \<Longrightarrow> (a + k) mod 8 = (a + d) mod 8 \<longleftrightarrow> k = (d::nat)"
  by (auto simp: mod_if split: if_splits)

lemma win_store:
  assumes "tid_wf tb" "d < 8" "i = (unat (aWinStartArrayInex tb) + d) mod 8"
  shows "win (tb\<lparr>aPaketsQueue := (aPaketsQueue tb)[i := e]\<rparr>) = (win tb)(d := pPacket e)"
proof
  fix k
  have "k < 8 \<Longrightarrow> (unat (aWinStartArrayInex tb) + k) mod 8 = i \<longleftrightarrow> k = d"
    using assms add_mod_8_inj by (simp add: tid_wf_def)
  moreover have "i < 8" using assms(3) by simp
  ultimately show "win (tb\<lparr>aPaketsQueue := (aPaketsQueue tb)[i := e]\<rparr>) k = ((win tb)(d := pPacket e)) k"
    using assms by (auto simp: win_def tid_wf_def nth_list_update)
qed

lemma saved_store:
  assumes "tid_wf tb" "d < 8" "i = (unat (aWinStartArrayInex tb) + d) mod 8" "win tb d = None" "pPacket e = Some p"
  shows "saved (tb\<lparr>aPaketsQueue := (aPaketsQueue tb)[i := e]\<rparr>) = add_mset (rx_buf p) (saved tb)"
proof -
  have i: "i < length (aPaketsQueue tb)" using assms(1,3) by (simp add: tid_wf_def)
  have "pPacket (aPaketsQueue tb ! i) = None" using assms(2-4) by (simp add: win_def)
  with sum_list_map_update [OF i, of entry_buf e] assms(5) show ?thesis
    by (simp add: saved_def entry_buf_def)
qed

lemma moved_store:
  assumes q: "tid < length (tSa1ArrayMng q)" "tid_wf (tidDB q tid)"
    and d: "d < 8" "i = (unat (aWinStartArrayInex (tidDB q tid)) + d) mod 8" "win (tidDB q tid) d = None"
    and e: "pPacket (e (tidDB q tid)) = Some p" "tStatus (e (tidDB q tid)) = TI_OK"
  shows "moved tid 0 [] ((win (tidDB q tid))(d \<mapsto> p)) {#rx_buf p#} q
    (updTimeout (\<lambda>t. t\<lparr>aPacketsStored := aPacketsStored t + 1\<rparr>)
      (updTid tid (\<lambda>tb. tb\<lparr>aPaketsQueue := (aPaketsQueue tb)[i := e tb]\<rparr>) q))"
proof -
  let ?f = "\<lambda>tb. tb\<lparr>aPaketsQueue := (aPaketsQueue tb)[i := e tb]\<rparr>"
  have "all_saved (updTid tid ?f q) = add_mset (rx_buf p) (all_saved q)"
    using all_saved_updTid [OF q(1), of ?f] saved_store [OF q(2) d e(1)] by simp
  moreover have "tid_wf (?f (tidDB q tid))"
    using q(2) e(2) by (auto simp: tid_wf_def dest!: set_update_subset_insert [THEN subsetD])
  moreover have "win (?f (tidDB q tid)) = (win (tidDB q tid))(d \<mapsto> p)"
    using win_store [OF q(2) d(1,2)] e(1) by simp
  moreover have "esn (?f (tidDB q tid)) = esn (tidDB q tid)" by (simp add: esn_def)
  ultimately show ?thesis
    using q by (simp add: moved_def tidDB_updTid tidDB_other esn_less counted_def add.commute)
qed

end
