(* ===== verification/WlRxAccept.thy ===== *)
theory WlRxAccept
  imports WlRxWindow
begin

text \<open>
  What the three parts of \<open>RxQueue_ReceivePacket\<close> do to the window of a data frame's TID, stated with
  one operation \<open>accept\<close>: move the window, store the frame, release what is consecutive. The
  reordering buffer of IEEE 802.11n is the same operation (\<open>reorder_rx\<close>).
\<close>

section \<open>The reordering buffer of the standard\<close>

text \<open>How many consecutive places from the window start on are taken.\<close>

definition run :: "(nat \<Rightarrow> RxPkt option) \<Rightarrow> nat" where
  "run W = length (takeWhile (\<lambda>k. W k \<noteq> None) [0..<8])"

text \<open>
  Accepting a frame: the window moves by \<open>s\<close> places, releasing what falls below; the frame is stored
  at place \<open>j\<close>; what is consecutive from the window start on is released. The result is the shift of
  the expected sequence number, the packets released and the window after it.
\<close>

definition accept :: "nat \<Rightarrow> nat \<Rightarrow> RxPkt \<Rightarrow> (nat \<Rightarrow> RxPkt option) \<Rightarrow> nat \<times> RxPkt list \<times> (nat \<Rightarrow> RxPkt option)" where
  "accept s j p W =
     (let W1 = (\<lambda>k. W (k + s))(j \<mapsto> p); m = run W1
      in (s + m, wpkts W s @ wpkts W1 m, \<lambda>k. W1 (k + m)))"

text \<open>
  The receive reordering buffer of IEEE 802.11n for a frame \<open>d\<close> places ahead of the window start,
  \<open>w\<close> the window size: a frame beyond the window moves it so that the frame takes the last place.
\<close>

definition reorder_rx :: "nat \<Rightarrow> nat \<Rightarrow> RxPkt \<Rightarrow> (nat \<Rightarrow> RxPkt option) \<Rightarrow> nat \<times> RxPkt list \<times> (nat \<Rightarrow> RxPkt option)" where
  "reorder_rx w d p W = (if d < w then accept 0 d p W else accept (d - w + 1) (w - 1) p W)"

lemma run_unique:
  assumes "\<forall>k<m. W k \<noteq> None" "W m = None" "\<forall>k\<ge>8. W k = None"
  shows "run W = m"
proof -
  have m: "m \<le> 8" using assms(1,3) by (metis linorder_not_le order_refl)
  have "takeWhile (\<lambda>k. W k \<noteq> None) [0..<8] = takeWhile (\<lambda>k. W k \<noteq> None) ([0..<m] @ [m..<8])"
    using m upt_add_eq_append [of 0 m "8 - m"] by simp
  also have "\<dots> = [0..<m] @ takeWhile (\<lambda>k. W k \<noteq> None) [m..<8]"
    using assms(1) by (intro takeWhile_append2) simp
  also have "takeWhile (\<lambda>k. W k \<noteq> None) [m..<8] = []"
    using assms(2) m by (cases "m = 8") (simp_all add: upt_conv_Cons)
  finally show ?thesis by (simp add: run_def)
qed

lemma run_0: "W 0 = None \<Longrightarrow> run W = 0"
  by (simp add: run_def upt_conv_Cons)

lemma wpkts_0 [simp]: "wpkts W 0 = []"
  by (simp add: wpkts_def)

lemma wpkts_add: "wpkts W (m + n) = wpkts W m @ wpkts (\<lambda>k. W (k + m)) n"
proof -
  have "[0..<m + n] = [0..<m] @ map (\<lambda>k. k + m) [0..<n]"
    using upt_add_eq_append [of 0 m n] map_add_upt [of m n] by (simp add: add.commute)
  then show ?thesis by (simp add: wpkts_def filter_map comp_def)
qed

lemma wpkts_empty: "(\<And>k. k < n \<Longrightarrow> W k = None) \<Longrightarrow> wpkts W n = []"
  by (simp add: wpkts_def filter_empty_conv)

lemma wpkts_1: "wpkts W (Suc 0) = (case W 0 of None \<Rightarrow> [] | Some p \<Rightarrow> [p])"
  by (simp add: wpkts_def split: option.splits)

lemma wpkts_beyond: "n \<le> m \<Longrightarrow> (\<And>k. n \<le> k \<Longrightarrow> W k = None) \<Longrightarrow> wpkts W m = wpkts W n"
  using wpkts_add [of W n "m - n"] wpkts_empty [of "m - n" "\<lambda>k. W (k + n)"] by simp

lemma moved_saved:
  assumes "tid < length (tSa1ArrayMng q)" "tid_wf (tidDB q tid)" "W = win (tidDB q tid)"
  shows "moved tid (run W) (wpkts W (run W)) (\<lambda>k. W (k + run W)) {#} q (pass_saved tid q)"
proof -
  obtain m where m: "pass_saved tid q = (pass_step tid ^^ m) q" "\<forall>k<m. W k \<noteq> None" "W m = None"
    using pass_saved_rounds [OF assms(1,2)] assms(3) by metis
  have "run W = m" using m(2,3) by (rule run_unique) (simp add: assms(3) win_beyond)
  then show ?thesis using moved_rounds [OF assms(1,2), of m] m(1) assms(3) by simp
qed

section \<open>Part 1: the expected frame\<close>

lemma next_sn_index: "next_index (next_sn tb) = next_sn (next_index tb)"
  by (cases tb) (simp add: next_index_def next_sn_def)

lemma skip_first:
  assumes "tid < length (tSa1ArrayMng q)" "tid_wf (tidDB q tid)" "win (tidDB q tid) 0 = None"
  shows "updTid tid (\<lambda>tb. next_index (next_sn tb)) q = pass_step tid q"
    "updTid tid (\<lambda>tb. next_sn (next_index tb)) q = pass_step tid q"
  using assms win_start_win [OF assms(2)]
  by (simp_all add: pass_step_def pass_win_start_def next_sn_index)

lemma moved_part1:
  assumes q: "unat t < length (tSa1ArrayMng q)" "tid_wf (tidDB q (unat t))" "win (tidDB q (unat t)) 0 = None"
    and W: "W = win (tidDB q (unat t))"
    and r: "accept 0 0 p W = (s, out, W')"
  shows "moved (unat t) s out W' {#rx_buf p#} q (rx_part1 t p q)"
proof -
  let ?tid = "unat t"
  define q1 where "q1 = RxQueue_PassPacket TI_OK p (stop_miss q)"
  define q2 where "q2 = pass_step ?tid q1"
  define q3 where "q3 = pass_saved ?tid q2"
  let ?W2 = "\<lambda>k. W (k + 1)"
  have a: "moved ?tid 0 [p] W {#rx_buf p#} q q1"
    using moved_trans [OF moved_timer(1) [OF q(1,2)] moved_pass, of p] movedD [OF moved_timer(1) [OF q(1,2)]] W
    by (simp add: q1_def)
  note a' = movedD [OF a]
  have b: "moved ?tid 1 [] ?W2 {#} q1 q2"
    using moved_rounds [OF a'(1,2), of 1] q(3) W a'(4) by (simp add: q2_def wpkts_1)
  note b' = movedD [OF b]
  have c: "moved ?tid (run ?W2) (wpkts ?W2 (run ?W2)) (\<lambda>k. ?W2 (k + run ?W2)) {#} q2 q3"
    unfolding q3_def by (rule moved_saved [OF b'(1,2)]) (simp add: b'(4))
  note c' = movedD [OF c]
  have e: "rx_part1 t p q = start_if_stored t q3"
    using skip_first(1) [OF a'(1,2)] q(3) W a'(4) mask_esn [OF c'(1,2)]
    by (simp add: rx_part1_def Let_def q1_def q2_def q3_def)
  have "moved ?tid (0 + 1 + run ?W2) ([p] @ [] @ wpkts ?W2 (run ?W2)) (\<lambda>k. ?W2 (k + run ?W2)) {#rx_buf p#} q (rx_part1 t p q)"
    using moved_trans [OF moved_trans [OF moved_trans [OF a b] c] moved_timer(2) [OF c'(1,2)]] c'(4)
    unfolding e by simp
  moreover have "run (W(0 \<mapsto> p)) = Suc (run ?W2)"
  proof (rule run_unique)
    let ?V = "W(0 \<mapsto> p)"
    have run2: "(\<forall>k<run ?W2. ?W2 k \<noteq> None) \<and> ?W2 (run ?W2) = None"
    proof -
      obtain m where "\<forall>k<m. ?W2 k \<noteq> None" "?W2 m = None"
        using pass_saved_rounds [OF b'(1,2)] b'(4) by metis
      moreover from this have "run ?W2 = m" by (rule run_unique) (simp add: W win_beyond)
      ultimately show ?thesis by simp
    qed
    then show "\<forall>k<Suc (run ?W2). ?V k \<noteq> None" "?V (Suc (run ?W2)) = None"
      by (auto simp: less_Suc_eq_0_disj)
    show "\<forall>k\<ge>8. ?V k = None" by (simp add: W win_beyond)
  qed
  moreover have "wpkts (W(0 \<mapsto> p)) (Suc (run ?W2)) = p # wpkts ?W2 (run ?W2)"
    using wpkts_add [of "W(0 \<mapsto> p)" 1 "run ?W2"] by (simp add: wpkts_1)
  ultimately show ?thesis using r by (simp add: accept_def)
qed

section \<open>Part 2: a frame inside the window\<close>

lemma moved_part2:
  assumes q: "unat t < length (tSa1ArrayMng q)" "tid_wf (tidDB q (unat t))"
    and d: "d < w" "w \<le> 8" "d = sn_off (esn (tidDB q (unat t))) (unat sn)" "unat sn < 4096" "0 < d"
    and W: "W = win (tidDB q (unat t))" "W 0 = None" "W d = None"
    and r: "accept 0 d p W = (s, out, W')"
  shows "moved (unat t) s out W' {#rx_buf p#} q (rx_part2 t sn p q)"
proof -
  let ?tid = "unat t" and ?tb = "tidDB q (unat t)"
  let ?i = "unat (save_index ?tb sn)"
  have i: "?i = (unat (aWinStartArrayInex ?tb) + d) mod 8"
    using save_index_unat [of ?tb sn] q(2) d by (simp add: tid_wf_def esn_def)
  have v: "pPacket (aPaketsQueue ?tb ! ?i) = None"
    using W d i by (simp add: win_def)
  have st: "moved ?tid 0 [] (W(d \<mapsto> p)) {#rx_buf p#} q
    (updTimeout (\<lambda>t. t\<lparr>aPacketsStored := aPacketsStored t + 1\<rparr>)
      (updTid ?tid (\<lambda>tb. tb\<lparr>aPaketsQueue := (aPaketsQueue tb)[?i := \<lparr>pPacket = Some p, tStatus = TI_OK, uFrameSn = sn\<rparr>]\<rparr>) q))"
    (is "moved _ _ _ _ _ _ ?q")
    using moved_store [OF q _ i, of "\<lambda>_. \<lparr>pPacket = Some p, tStatus = TI_OK, uFrameSn = sn\<rparr>" p] d W by simp
  have "moved ?tid 0 [] (W(d \<mapsto> p)) {#rx_buf p#} q (rx_part2 t sn p q)"
    using v st by (simp add: rx_part2_def Let_def moved_def counted_def)
  moreover have "run (W(d \<mapsto> p)) = 0" using W(2) d(5) by (simp add: run_0)
  ultimately show ?thesis using r by (simp add: accept_def fun_upd_def cong: if_cong)
qed


section \<open>Part 3: a frame beyond the window\<close>

lemma run_taken: "k < run W \<Longrightarrow> W k \<noteq> None"
proof -
  assume k: "k < run W"
  then have "takeWhile (\<lambda>k. W k \<noteq> None) [0..<8] ! k \<in> set (takeWhile (\<lambda>k. W k \<noteq> None) [0..<8])"
    by (simp add: run_def)
  then have "W (takeWhile (\<lambda>k. W k \<noteq> None) [0..<8] ! k) \<noteq> None" by (blast dest: set_takeWhileD)
  moreover have "k < 8" using k length_takeWhile_le [of "\<lambda>k. W k \<noteq> None" "[0..<8]"] by (simp add: run_def)
  ultimately show ?thesis using k by (simp add: run_def takeWhile_nth)
qed

lemma run_free: "W (run W) = None" if "\<forall>k\<ge>8. W k = None"
proof (cases "run W < 8")
  case True
  then have "\<not> W ([0..<8] ! run W) \<noteq> None"
    using nth_length_takeWhile [of "\<lambda>k. W k \<noteq> None" "[0..<8]"] by (simp add: run_def)
  with True show ?thesis by simp
next
  case False
  with that show ?thesis by simp
qed

text \<open>
  The code releases the run first and then stores the frame, or passes it where the run reaches it:
  the same as storing it first, when nothing is stored at its place or above.
\<close>

lemma accept_run:
  assumes "W3 = (\<lambda>k. W (k + s))" "\<forall>k\<ge>j. W3 k = None" "j < 8"
  shows "run W3 \<le> j" and "accept s j p W =
    (if run W3 = j then (s + (j + 1), wpkts W s @ wpkts W3 j @ [p], \<lambda>k. W3 (k + j))
     else (s + run W3, wpkts W s @ wpkts W3 (run W3), (\<lambda>k. W3 (k + run W3))(j - run W3 \<mapsto> p)))"
proof -
  let ?m = "run W3" and ?W1 = "W3(j \<mapsto> p)"
  have b: "\<forall>k\<ge>8. W3 k = None" using assms(2,3) by simp
  show mj: "?m \<le> j" using run_taken [of j W3] assms(2) by (meson leI order_refl)
  have same: "wpkts ?W1 n = wpkts W3 n" if "n \<le> j" for n
    using that by (auto simp: wpkts_def intro!: map_cong filter_cong)
  show "accept s j p W =
    (if run W3 = j then (s + (j + 1), wpkts W s @ wpkts W3 j @ [p], \<lambda>k. W3 (k + j))
     else (s + run W3, wpkts W s @ wpkts W3 (run W3), (\<lambda>k. W3 (k + run W3))(j - run W3 \<mapsto> p)))"
  proof (cases "?m = j")
    case True
    have r: "run ?W1 = j + 1"
      by (rule run_unique) (use True run_taken [of _ W3] assms(2,3) in \<open>auto simp: less_Suc_eq\<close>)
    have "wpkts ?W1 (j + 1) = wpkts W3 j @ [p]"
      using wpkts_add [of ?W1 j 1] same [of j] by (simp add: wpkts_1)
    moreover have "(\<lambda>k. ?W1 (k + (j + 1))) = (\<lambda>k. W3 (k + j))" using assms(2) by (auto simp: fun_eq_iff)
    ultimately show ?thesis using True r unfolding accept_def assms(1) [symmetric] by (simp add: Let_def)
  next
    case False
    then have lt: "?m < j" using mj by simp
    have r: "run ?W1 = ?m"
      by (rule run_unique) (use lt run_taken [of _ W3] run_free [OF b] b assms(3) in auto)
    moreover have "(\<lambda>k. ?W1 (k + ?m)) = (\<lambda>k. W3 (k + ?m))(j - ?m \<mapsto> p)" using lt by (auto simp: fun_eq_iff)
    ultimately show ?thesis using False lt same [of ?m] unfolding accept_def assms(1) [symmetric] by (simp add: Let_def)
  qed
qed


lemma moved_set_esn:
  assumes q: "tid < length (tSa1ArrayMng q)" "tid_wf (tidDB q tid)" and e: "unat e = (esn (tidDB q tid) + s) mod 4096"
  shows "moved tid s [] (win (tidDB q tid)) {#} q (updTid tid (\<lambda>tb. tb\<lparr>aTidExpectedSn := e\<rparr>) q)"
proof -
  let ?f = "\<lambda>tb. tb\<lparr>aTidExpectedSn := e\<rparr>"
  have "unat e < 4096" unfolding e by simp
  then have "tid_wf (?f (tidDB q tid))" using q(2) by (simp add: tid_wf_def)
  moreover have "win (?f (tidDB q tid)) = win (tidDB q tid)" by (simp add: win_def fun_eq_iff)
  moreover have "all_saved (updTid tid ?f q) = all_saved q" by (simp add: all_saved_updTid_same)
  ultimately show ?thesis using q e by (simp add: moved_def tidDB_updTid tidDB_other counted_def esn_def)
qed

text \<open>The end of Part 3: pass the frame, or store it.\<close>

definition part3_end :: "nat \<Rightarrow> TI_UINT16 \<Rightarrow> RxPkt \<Rightarrow> TRxQueue \<Rightarrow> TRxQueue" where
  "part3_end tid sn p q =
     (if aTidExpectedSn (tidDB q tid) = sn then updTid tid next_sn (RxQueue_PassPacket TI_OK p q)
      else updTimeout (\<lambda>t. t\<lparr>aPacketsStored := aPacketsStored t + 1\<rparr>)
        (updTid tid (\<lambda>tb. tb\<lparr>aPaketsQueue := (aPaketsQueue tb)[unat (save_index (tidDB q tid) sn) :=
           (aPaketsQueue tb ! unat (save_index (tidDB q tid) sn))\<lparr>tStatus := TI_OK, pPacket := Some p\<rparr>]\<rparr>) q))"

lemma moved_part3_end:
  assumes q: "tid < length (tSa1ArrayMng q)" "tid_wf (tidDB q tid)" and sn: "unat sn < 4096"
    and j: "j = sn_off (esn (tidDB q tid)) (unat sn)" "j < 8" "win (tidDB q tid) j = None"
  shows "moved tid (if j = 0 then 1 else 0) (if j = 0 then [p] else [])
    (if j = 0 then win (tidDB q tid) else (win (tidDB q tid))(j \<mapsto> p)) {#rx_buf p#} q (part3_end tid sn p q)"
proof (cases "j = 0")
  case True
  then have eq: "aTidExpectedSn (tidDB q tid) = sn"
    using j(1) sn esn_less [OF q(2)] by (simp add: sn_off_0 esn_def word_unat_eq_iff)
  have a: "moved tid 0 [p] (win (tidDB q tid)) {#rx_buf p#} q (RxQueue_PassPacket TI_OK p q)"
    using moved_pass [OF q] .
  note a' = movedD [OF a]
  let ?e = "(aTidExpectedSn (tidDB q tid) + 1) AND 0xFFF"
  have ne: "unat ?e = (esn (tidDB (RxQueue_PassPacket TI_OK p q) tid) + 1) mod 4096"
    using next_sn_esn [OF q(2)] by (simp add: next_sn_def esn_def)
  have "updTid tid next_sn (RxQueue_PassPacket TI_OK p q) =
    updTid tid (\<lambda>tb. tb\<lparr>aTidExpectedSn := ?e\<rparr>) (RxQueue_PassPacket TI_OK p q)"
    by (simp add: updTid_def next_sn_def tidDB_def RxQueue_PassPacket_def)
  with moved_trans [OF a moved_set_esn [OF a'(1,2) ne]] True eq show ?thesis
    by (simp add: part3_end_def)
next
  case False
  then have ne: "aTidExpectedSn (tidDB q tid) \<noteq> sn"
    using j(1) sn_off_0 [OF esn_less [OF q(2)] sn] by (auto simp: esn_def)
  have i: "unat (save_index (tidDB q tid) sn) = (unat (aWinStartArrayInex (tidDB q tid)) + j) mod 8"
    using save_index_unat [of "tidDB q tid" sn] q(2) sn j(1) by (simp add: tid_wf_def esn_def)
  show ?thesis using moved_store [OF q j(2) i j(3),
      of "\<lambda>tb. (aPaketsQueue tb ! unat (save_index (tidDB q tid) sn))\<lparr>tStatus := TI_OK, pPacket := Some p\<rparr>" p] ne False
    by (simp add: part3_end_def)
qed

lemma rx_part3_alt:
  "rx_part3 t sn p q =
     (let tid = unat t;
          ns = ucast ((ucast sn + SEQ_NUM_WRAP - aTidWinSize (tidDB q tid) + 1) AND SEQ_NUM_MASK);
          r = part3_loop tid ns 0 (updTid tid (\<lambda>tb. next_sn (next_index tb)) (stop_miss q));
          q3 = (if fst r = unat (aTidWinSize (tidDB (snd r) tid))
                then updTid tid (\<lambda>tb. tb\<lparr>aTidExpectedSn := ns\<rparr>) (snd r) else pass_saved tid (snd r))
      in start_if_stored t (updTid tid (\<lambda>tb. tb\<lparr>aTidExpectedSn := aTidExpectedSn tb AND 0xFFF\<rparr>) (part3_end tid sn p q3)))"
  by (simp add: rx_part3_def part3_end_def Let_def split_beta cong: if_cong)

text \<open>The common last steps, from a state in which the window has moved by \<open>s\<close>.\<close>

lemma moved_part3_tail:
  assumes a: "moved (unat t) (s + m) (wpkts W s @ wpkts W3 m) (\<lambda>k. W3 (k + m)) {#} q q3"
    and W: "W3 = (\<lambda>k. W (k + s))" "\<forall>k\<ge>j. W3 k = None" "j < 8" "m = run W3"
    and sn: "unat sn < 4096" "sn_off (esn (tidDB q (unat t))) (unat sn) = s + j"
    and r: "accept s j p W = (s', out, W')"
  shows "moved (unat t) s' out W' {#rx_buf p#} q (start_if_stored t
    (updTid (unat t) (\<lambda>tb. tb\<lparr>aTidExpectedSn := aTidExpectedSn tb AND 0xFFF\<rparr>) (part3_end (unat t) sn p q3)))"
proof -
  let ?tid = "unat t"
  note a' = movedD [OF a]
  note ac = accept_run [OF W(1-3)]
  have e: "esn (tidDB q ?tid) < 4096" using a by (auto simp: moved_def intro: esn_less)
  have j: "j - m = sn_off (esn (tidDB q3 ?tid)) (unat sn)"
    unfolding a'(3) using sn_off_step [OF e sn(1), of "s + m"] sn(2) ac(1) W(4) by simp
  have "win (tidDB q3 ?tid) (j - m) = None" unfolding a'(4) using W(2,4) ac(1) by simp
  then have b: "moved ?tid (if j - m = 0 then 1 else 0) (if j - m = 0 then [p] else [])
    (if j - m = 0 then win (tidDB q3 ?tid) else (win (tidDB q3 ?tid))(j - m \<mapsto> p)) {#rx_buf p#} q3 (part3_end ?tid sn p q3)"
    using W(3) by (intro moved_part3_end [OF a'(1,2) sn(1) j]) auto
  note c = moved_trans [OF a b]
  note c' = movedD [OF c]
  have "moved ?tid s' out W' {#rx_buf p#} q (part3_end ?tid sn p q3)"
  proof (cases "m = j")
    case True
    with c r ac(2) W(4) a'(4) show ?thesis by auto
  next
    case False
    with ac(1) W(4) have "j - m \<noteq> 0" by simp
    with c r ac(2) W(4) a'(4) False show ?thesis by auto
  qed
  then have d: "moved ?tid s' out W' {#rx_buf p#} q (part3_end ?tid sn p q3)" .
  note d' = movedD [OF d]
  show ?thesis unfolding mask_esn [OF d'(1,2)] using moved_trans [OF d moved_timer(2) [OF d'(1,2)]] d'(4) by simp
qed


lemma new_start_unat:
  fixes sn :: TI_UINT16 and w :: TI_UINT32
  assumes "unat sn < 4096" "unat w \<le> 8"
  shows "unat (ucast ((ucast sn + SEQ_NUM_WRAP - w + 1) AND SEQ_NUM_MASK) :: TI_UINT16) =
    (unat sn + 4097 - unat w) mod 4096"
proof -
  have "unat (ucast sn + SEQ_NUM_WRAP :: TI_UINT32) = unat sn + 4096"
    using assms by (simp add: SEQ_NUM_WRAP_def unat_word_ariths)
  then have "unat (ucast sn + SEQ_NUM_WRAP - w) = unat sn + 4096 - unat w"
    using assms by (subst unat_sub_small) simp_all
  then have "unat (ucast sn + SEQ_NUM_WRAP - w + 1) = unat sn + 4097 - unat w"
    using assms by (simp add: unat_word_ariths)
  then have "unat ((ucast sn + SEQ_NUM_WRAP - w + 1) AND SEQ_NUM_MASK) = (unat sn + 4097 - unat w) mod 4096"
    by (simp add: SEQ_NUM_MASK_def and_FFF)
  moreover have "(unat sn + 4097 - unat w) mod 4096 < 4096" by simp
  ultimately show ?thesis by (simp add: unsigned_ucast_eq take_bit_nat_eq_self del: mod_less_divisor)
qed

lemma new_start_eq:
  assumes "e < 4096" "d < 4096" "s = (e + d) mod 4096" "w \<le> d + 1" "1 \<le> w" "w \<le> 8"
  shows "(s + 4097 - w) mod 4096 = (e + (d + 1 - w)) mod (4096::nat)"
proof (cases "e + d < 4096")
  case True
  then have "s + 4097 - w = e + (d + 1 - w) + 4096" using assms by simp
  then show ?thesis by (simp only: mod_add_self2)
next
  case False
  then have "s = e + d - 4096" using assms by (simp add: add_mod_4096_if)
  then have "s + 4097 - w = e + (d + 1 - w)" using assms False by simp
  then show ?thesis by simp
qed

lemma moved_part3:
  assumes q: "unat t < length (tSa1ArrayMng q)" "tid_wf (tidDB q (unat t))"
    and w: "w = unat (aTidWinSize (tidDB q (unat t)))" "1 \<le> w" "w \<le> 8"
    and d: "d = sn_off (esn (tidDB q (unat t))) (unat sn)" "w \<le> d" "d < 2047" "unat sn < 4096"
    and W: "W = win (tidDB q (unat t))" "W 0 = None" "\<forall>k\<ge>w. W k = None"
    and r: "accept (d - w + 1) (w - 1) p W = (s', out, W')"
  shows "moved (unat t) s' out W' {#rx_buf p#} q (rx_part3 t sn p q)"
proof -
  let ?tid = "unat t"
  let ?e = "esn (tidDB q ?tid)"
  define ns :: TI_UINT16 where "ns = ucast ((ucast sn + SEQ_NUM_WRAP - aTidWinSize (tidDB q ?tid) + 1) AND SEQ_NUM_MASK)"
  define q0 where "q0 = stop_miss q"
  define q1 where "q1 = pass_step ?tid q0"
  define n where "n = min (d - w) w"
  define q2 where "q2 = (pass_step ?tid ^^ n) q1"
  define W3 where "W3 = (\<lambda>k. W (k + (d - w + 1)))"
  have e: "?e < 4096" using q(2) by (rule esn_less)
  have sn: "unat sn = (?e + d) mod 4096" unfolding d(1) by (rule sn_off_inv [OF e d(4)])
  have a: "moved ?tid 0 [] W {#} q q0" using moved_timer(1) [OF q] W by (simp add: q0_def)
  note a' = movedD [OF a]
  have b: "moved ?tid (n + 1) (wpkts W (n + 1)) (\<lambda>k. W (k + (n + 1))) {#} q q2"
    using moved_trans [OF a moved_rounds [OF a'(1,2), of "n + 1"]] a'(4)
    by (simp add: q2_def q1_def funpow_Suc_right del: funpow.simps)
  note b' = movedD [OF b]
  have c: "moved ?tid 1 (wpkts W 1) (\<lambda>k. W (k + 1)) {#} q q1"
    using moved_trans [OF a moved_rounds [OF a'(1,2), of 1]] a'(4) by (simp add: q1_def)
  note c' = movedD [OF c]
  have ns: "unat ns = (?e + 1 + (d - w)) mod 4096"
    using new_start_unat [OF d(4), of "aTidWinSize (tidDB q ?tid)"] new_start_eq [OF e _ sn] w d by (simp add: ns_def Suc_diff_le)
  then have ns4: "unat ns < 4096" by simp
  have "sn_off (esn (tidDB q1 ?tid)) (unat ns) = d - w"
    unfolding c'(3) ns using sn_off_add [of "(?e + 1) mod 4096" "d - w"] d(3) by (simp add: mod_add_left_eq)
  then have loop: "part3_loop ?tid ns 0 q1 = (n, q2)"
    using part3_loop_rounds [OF c'(1,2) ns4, of 0 n] w d(3) c'(5) by (simp add: n_def q2_def)
  define q3 where "q3 = (if n = w then updTid ?tid (\<lambda>tb. tb\<lparr>aTidExpectedSn := ns\<rparr>) q2 else pass_saved ?tid q2)"
  have m3: "moved ?tid (d - w + 1 + run W3) (wpkts W (d - w + 1) @ wpkts W3 (run W3)) (\<lambda>k. W3 (k + run W3)) {#} q q3"
  proof (cases "w \<le> d - w")
    case True
    then have n: "n = w" by (simp add: n_def)
    have none: "W (k + (n + 1)) = None" "W3 k = None" for k
      using W(3) True by (simp_all add: n W3_def)
    then have r0: "run W3 = 0" by (simp add: run_0)
    have en: "unat ns = (esn (tidDB q2 ?tid) + (d - w - n)) mod 4096"
    proof -
      have "?e + 1 + (d - w) = ?e + (n + 1) + (d - w - n)" using True n by simp
      then show ?thesis unfolding b'(3) ns by (simp only: mod_add_left_eq)
    qed
    have wp: "wpkts W (d - w + 1) = wpkts W (n + 1)"
      by (rule wpkts_beyond) (use True n W(3) in auto)
    have ww: "win (tidDB q2 ?tid) = (\<lambda>k. W3 (k + run W3))" using b'(4) none by (simp add: fun_eq_iff)
    have "moved ?tid (n + 1 + (d - w - n)) (wpkts W (n + 1) @ []) (win (tidDB q2 ?tid)) ({#} + {#}) q q3"
      using moved_trans [OF b moved_set_esn [OF b'(1,2) en]] by (simp add: q3_def n)
    then show ?thesis using True n r0 wp ww by simp
  next
    case False
    then have n: "n = d - w" "n \<noteq> w" by (simp_all add: n_def)
    have "W3 = win (tidDB q2 ?tid)" using b'(4) n by (simp add: W3_def)
    from moved_trans [OF b moved_saved [OF b'(1,2) this]] show ?thesis using n by (simp add: q3_def)
  qed
  have "rx_part3 t sn p q = start_if_stored t
    (updTid ?tid (\<lambda>tb. tb\<lparr>aTidExpectedSn := aTidExpectedSn tb AND 0xFFF\<rparr>) (part3_end ?tid sn p q3))"
    unfolding rx_part3_alt Let_def ns_def [symmetric] q0_def [symmetric]
    using skip_first(2) [OF a'(1,2)] a'(4) W(2) loop b'(5) w(1) by (simp add: q1_def [symmetric] q3_def)
  moreover have "\<forall>k\<ge>w - 1. W3 k = None" using W(3) d(2) by (auto simp: W3_def)
  moreover have "sn_off ?e (unat sn) = d - w + 1 + (w - 1)" using d w by simp
  ultimately show ?thesis
    using moved_part3_tail [OF m3 W3_def _ _ refl d(4) _ r] w by simp
qed

text \<open>
  The last place of a window that reaches beyond 4095 is taken for a place beyond it: the window
  moves by one, so that the expected frame is given up, and the frame is stored one place lower.
\<close>

lemma moved_part3_wrap:
  assumes q: "unat t < length (tSa1ArrayMng q)" "tid_wf (tidDB q (unat t))"
    and w: "w = unat (aTidWinSize (tidDB q (unat t)))" "2 \<le> w" "w \<le> 8"
    and d: "d = sn_off (esn (tidDB q (unat t))) (unat sn)" "d = w - 1" "unat sn < 4096"
    and W: "W = win (tidDB q (unat t))" "W 0 = None" "\<forall>k\<ge>w - 1. W k = None"
    and r: "accept 1 (d - 1) p W = (s', out, W')"
  shows "moved (unat t) s' out W' {#rx_buf p#} q (rx_part3 t sn p q)"
proof -
  let ?tid = "unat t"
  let ?e = "esn (tidDB q ?tid)"
  define ns :: TI_UINT16 where "ns = ucast ((ucast sn + SEQ_NUM_WRAP - aTidWinSize (tidDB q ?tid) + 1) AND SEQ_NUM_MASK)"
  define q0 where "q0 = stop_miss q"
  define q1 where "q1 = pass_step ?tid q0"
  define W3 where "W3 = (\<lambda>k. W (k + 1))"
  have e: "?e < 4096" using q(2) by (rule esn_less)
  have sn: "unat sn = (?e + d) mod 4096" unfolding d(1) by (rule sn_off_inv [OF e d(3)])
  have a: "moved ?tid 0 [] W {#} q q0" using moved_timer(1) [OF q] W by (simp add: q0_def)
  note a' = movedD [OF a]
  have c: "moved ?tid 1 (wpkts W 1) W3 {#} q q1"
    using moved_trans [OF a moved_rounds [OF a'(1,2), of 1]] a'(4) by (simp add: q1_def W3_def)
  note c' = movedD [OF c]
  have ns: "unat ns = ?e"
    using new_start_unat [OF d(3), of "aTidWinSize (tidDB q ?tid)"] new_start_eq [OF e _ sn, of w] w d(2) e
    by (simp add: ns_def)
  have "2047 \<le> sn_off (esn (tidDB q1 ?tid)) (unat ns)"
    unfolding c'(3) ns using e by (auto simp: sn_off_def mod_if)
  then have loop: "part3_loop ?tid ns 0 q1 = (0, q1)"
    using part3_loop_behind [OF c'(2)] ns e by simp
  define q3 where "q3 = pass_saved ?tid q1"
  have m3: "moved ?tid (1 + run W3) (wpkts W 1 @ wpkts W3 (run W3)) (\<lambda>k. W3 (k + run W3)) {#} q q3"
    using moved_trans [OF c moved_saved [OF c'(1,2) c'(4) [symmetric]]] by (simp add: q3_def)
  have "rx_part3 t sn p q = start_if_stored t
    (updTid ?tid (\<lambda>tb. tb\<lparr>aTidExpectedSn := aTidExpectedSn tb AND 0xFFF\<rparr>) (part3_end ?tid sn p q3))"
    unfolding rx_part3_alt Let_def ns_def [symmetric] q0_def [symmetric]
    using skip_first(2) [OF a'(1,2)] a'(4) W(2) loop c'(5) w(1,2) by (simp add: q1_def [symmetric] q3_def)
  moreover have "\<forall>k\<ge>d - 1. W3 k = None" using W(3) d(2) w(2) by (auto simp: W3_def)
  moreover have "sn_off ?e (unat sn) = 1 + (d - 1)" using d w by simp
  ultimately show ?thesis
    using moved_part3_tail [OF m3 W3_def _ _ refl d(3) _ r] w d(2) by simp
qed

end
