(* ===== verification/WlRxInv.thy ===== *)
theory WlRxInv
  imports WlRxAccept
begin

text \<open>
  The invariant of the receive reorder queue, the order of delivery, and what every packet does to
  both when it is a data frame, by the placing of the code.
\<close>

section \<open>The invariant\<close>

definition stored_ok :: "nat \<Rightarrow> nat \<Rightarrow> (nat \<Rightarrow> RxPkt option) \<Rightarrow> bool" where
  "stored_ok e w W \<longleftrightarrow> (\<forall>k<8. case W k of None \<Rightarrow> True
     | Some p \<Rightarrow> 1 \<le> k \<and> k < w \<and> unat (frame_sn p) = (e + k) mod 4096)"

definition tid_inv :: "TRxQueueTidDataBase \<Rightarrow> bool" where
  "tid_inv tb \<longleftrightarrow> tid_wf tb \<and>
     (if aTidBaEstablished tb
      then 1 \<le> unat (aTidWinSize tb) \<and> unat (aTidWinSize tb) \<le> 8 \<and>
           stored_ok (esn tb) (unat (aTidWinSize tb)) (win tb)
      else \<forall>k<8. win tb k = None)"

definition rxq_inv :: "TRxQueue \<Rightarrow> bool" where
  "rxq_inv q \<longleftrightarrow> length (tSa1ArrayMng q) = 8 \<and> (\<forall>t<8. tid_inv (tidDB q t)) \<and> counted q"

lemma stored_okD:
  assumes "stored_ok e w (win tb)" "win tb k = Some p"
  shows "1 \<le> k" "k < w" "unat (frame_sn p) = (e + k) mod 4096"
proof -
  have "k < 8" using assms(2) by (simp add: win_def split: if_splits)
  with assms show "1 \<le> k" "k < w" "unat (frame_sn p) = (e + k) mod 4096"
    by (auto simp: stored_ok_def split: option.splits)
qed

lemma stored_ok_win:
  assumes "stored_ok e w (win tb)"
  shows "win tb 0 = None" "w \<le> k \<Longrightarrow> win tb k = None"
  using stored_okD [OF assms] by (metis not_None_eq not_one_le_zero, metis linorder_not_le not_None_eq)

lemma frame_sn_less: "unat (frame_sn p) < 4096"
proof -
  have "unat (COPY_WLAN_WORD p hdr_seqCtrl AND 0xFFF0) < 65536"
    using unsigned_less [of "COPY_WLAN_WORD p hdr_seqCtrl AND 0xFFF0", where ?'a = nat] by simp
  then show ?thesis by (simp add: frame_sn_def drop_bit_eq_div unat_div)
qed

text \<open>
  Delivered in order: the sequence numbers are \<open>e + n\<close> modulo 4096 for strictly increasing \<open>n\<close>, all
  below the shift \<open>s\<close> of the expected sequence number.
\<close>

definition in_order :: "nat \<Rightarrow> nat \<Rightarrow> RxPkt list \<Rightarrow> bool" where
  "in_order e s out \<longleftrightarrow> (\<exists>ns. map (\<lambda>p. unat (frame_sn p)) out = map (\<lambda>n. (e + n) mod 4096) ns \<and>
     sorted_wrt (<) ns \<and> (\<forall>n\<in>set ns. n < s))"

lemma in_order_append:
  assumes "in_order e s out" "in_order ((e + s) mod 4096) s' out'"
  shows "in_order e (s + s') (out @ out')"
proof -
  obtain ns where ns: "map (\<lambda>p. unat (frame_sn p)) out = map (\<lambda>n. (e + n) mod 4096) ns"
    "sorted_wrt (<) ns" "\<forall>n\<in>set ns. n < s" using assms(1) by (auto simp: in_order_def)
  obtain ns' where ns': "map (\<lambda>p. unat (frame_sn p)) out' = map (\<lambda>n. ((e + s) mod 4096 + n) mod 4096) ns'"
    "sorted_wrt (<) ns'" "\<forall>n\<in>set ns'. n < s'" using assms(2) by (auto simp: in_order_def)
  show ?thesis unfolding in_order_def
  proof (intro exI [of _ "ns @ map ((+) s) ns'"] conjI)
    show "map (\<lambda>p. unat (frame_sn p)) (out @ out') = map (\<lambda>n. (e + n) mod 4096) (ns @ map ((+) s) ns')"
      using ns(1) ns'(1) by (simp add: mod_add_left_eq add.assoc comp_def)
    show "sorted_wrt (<) (ns @ map ((+) s) ns')"
      using ns ns' by (auto simp: sorted_wrt_append sorted_wrt_map)
    show "\<forall>n\<in>set (ns @ map ((+) s) ns'). n < s + s'" using ns(3) ns'(3) by auto
  qed
qed

lemma in_order_wpkts:
  assumes "\<And>k p. W k = Some p \<Longrightarrow> unat (frame_sn p) = (e + k) mod 4096"
  shows "in_order e n (wpkts W n)"
  unfolding in_order_def
proof (intro exI [of _ "filter (\<lambda>k. W k \<noteq> None) [0..<n]"] conjI)
  show "map (\<lambda>p. unat (frame_sn p)) (wpkts W n) = map (\<lambda>n. (e + n) mod 4096) (filter (\<lambda>k. W k \<noteq> None) [0..<n])"
    using assms by (auto simp: wpkts_def)
qed (auto intro: sorted_wrt_filter)

lemma accept_ok:
  assumes W: "\<forall>k p. W k = Some p \<longrightarrow> 1 \<le> k \<and> k < w \<and> unat (frame_sn p) = (e + k) mod 4096"
    and p: "unat (frame_sn p) = (e + s + j) mod 4096" "j < w" "w \<le> 8"
    and r: "accept s j p W = (s', out, W')"
  shows "in_order e s' out" "stored_ok ((e + s') mod 4096) w W'"
proof -
  define W1 where "W1 = (\<lambda>k. W (k + s))(j \<mapsto> p)"
  have r': "s' = s + run W1" "out = wpkts W s @ wpkts W1 (run W1)" "W' = (\<lambda>k. W1 (k + run W1))"
    using r by (auto simp: accept_def Let_def W1_def)
  have W1: "k < w \<and> unat (frame_sn x) = ((e + s) mod 4096 + k) mod 4096" if "W1 k = Some x" for k x
  proof (cases "k = j")
    case True
    with that p show ?thesis by (simp add: W1_def mod_add_left_eq)
  next
    case False
    with that W have "k + s < w \<and> unat (frame_sn x) = (e + (k + s)) mod 4096" by (simp add: W1_def)
    moreover have "e + (k + s) = (e + s) + k" by simp
    ultimately show ?thesis by (simp only: mod_add_left_eq) simp
  qed
  have "in_order e s (wpkts W s)" by (rule in_order_wpkts) (use W in blast)
  moreover have "in_order ((e + s) mod 4096) (run W1) (wpkts W1 (run W1))" by (rule in_order_wpkts) (use W1 in blast)
  ultimately show "in_order e s' out" unfolding r' by (rule in_order_append)
  have "\<forall>k\<ge>8. W1 k = None" using W1 p(3) by (metis linorder_not_le not_None_eq order.strict_trans2)
  then have free: "W1 (run W1) = None" by (rule run_free)
  show "stored_ok ((e + s') mod 4096) w W'"
    unfolding stored_ok_def
  proof (intro allI impI)
    fix k :: nat
    assume "k < 8"
    show "case W' k of None \<Rightarrow> True | Some p \<Rightarrow> 1 \<le> k \<and> k < w \<and> unat (frame_sn p) = ((e + s') mod 4096 + k) mod 4096"
    proof (cases "W' k")
      case (Some x)
      then have "W1 (k + run W1) = Some x" by (simp add: r')
      note x = W1 [OF this] this
      have "e + s + (k + run W1) = (e + s') + k" by (simp add: r')
      with x(1) have "unat (frame_sn x) = ((e + s') mod 4096 + k) mod 4096" by (simp only: mod_add_left_eq)
      moreover have "k \<noteq> 0" using x(2) free by (metis add_0 option.distinct(1))
      ultimately show ?thesis using Some x(1) by simp
    qed simp
  qed
qed


section \<open>Data frames\<close>

text \<open>How the code places a frame \<open>d\<close> ahead of the expected sequence number \<open>e\<close>: the shift and the place.\<close>

definition placing :: "nat \<Rightarrow> nat \<Rightarrow> nat \<Rightarrow> nat \<times> nat" where
  "placing e w d = (if w \<le> d then (d - w + 1, w - 1)
     else if d + 1 = w \<and> 4096 \<le> e + d then (1, d - 1) else (0, d))"

lemma no_dup_win:
  assumes "stored_ok (esn tb) w (win tb)" "d = sn_off (esn tb) (unat (frame_sn p))" "tid_wf tb"
    and "\<forall>k x. win tb k = Some x \<longrightarrow> frame_sn x \<noteq> frame_sn p"
  shows "win tb d = None"
proof (rule ccontr)
  assume "win tb d \<noteq> None"
  then obtain x where x: "win tb d = Some x" by blast
  have "unat (frame_sn x) = unat (frame_sn p)"
    unfolding stored_okD(3) [OF assms(1) x] assms(2)
    by (rule sn_off_inv [OF esn_less [OF assms(3)] frame_sn_less, symmetric])
  with assms(4) x show False by (simp add: word_unat_eq_iff)
qed

lemma dup_win:
  assumes "stored_ok (esn tb) w (win tb)" "d = sn_off (esn tb) (unat (frame_sn p))" "tid_wf tb"
    and "win tb d = None"
  shows "\<forall>k x. win tb k = Some x \<longrightarrow> frame_sn x \<noteq> frame_sn p"
proof (intro allI impI notI)
  fix k x
  assume x: "win tb k = Some x" and eq: "frame_sn x = frame_sn p"
  have "k < 8" using x by (simp add: win_def split: if_splits)
  moreover have "unat (frame_sn p) = (esn tb + k) mod 4096" using stored_okD(3) [OF assms(1) x] eq by simp
  ultimately have "d = k" using assms(2) sn_off_add [OF esn_less [OF assms(3)], of k] by simp
  with x assms(4) show False by simp
qed

lemma data_frame_moved:
  assumes t_def: "t = unat (frame_tid p)"
  assumes tb_def: "tb = tidDB q t"
  assumes d_def: "d = sn_off (esn tb) (unat (frame_sn p))"
  assumes w_def: "w = unat (aTidWinSize tb)"
  assumes inv: "rxq_inv q" and t: "t < 8" "aTidBaEstablished tb" and d: "d < 2047"
    and dup: "\<forall>k x. win tb k = Some x \<longrightarrow> frame_sn x \<noteq> frame_sn p"
    and r: "placing (esn tb) w d = (s, j)" "accept s j p (win tb) = (s', out, W')"
  shows "moved t s' out W' {#rx_buf p#} q (rx_data_frame p q)"
proof -
  let ?sn = "frame_sn p" and ?ft = "frame_tid p"
  have q: "t < length (tSa1ArrayMng q)" "tid_wf tb"
    using inv t by (auto simp: rxq_inv_def tid_inv_def tb_def)
  have tb: "1 \<le> w" "w \<le> 8" "stored_ok (esn tb) w (win tb)"
    using inv t by (auto simp: rxq_inv_def tid_inv_def tb_def w_def)
  have W: "win tb 0 = None" "\<forall>k\<ge>w. win tb k = None" using stored_ok_win [OF tb(3)] by auto
  have Wd: "win tb d = None" by (rule no_dup_win [OF tb(3) d_def q(2) dup])
  have e: "unat (aTidExpectedSn tb) < 4096" using q(2) by (simp add: tid_wf_def)
  have sn: "unat ?sn < 4096" by (rule frame_sn_less)
  note Q = q [unfolded t_def tb_def] and TB = tb_def [unfolded t_def]
  have f: "rx_data_frame p q =
     (if ?sn = aTidExpectedSn tb then rx_part1 ?ft p q
      else if \<not> BA_SESSION_IS_A_BIGGER_THAN_B (ucast ?sn) (ucast (aTidExpectedSn tb)) then RxQueue_PassPacket TI_OK p q
      else if \<not> BA_SESSION_IS_A_BIGGER_THAN_B (ucast ?sn) (win_end tb) then rx_part2 ?ft ?sn p q
      else rx_part3 ?ft ?sn p q)"
    using t by (simp add: rx_data_frame_def Let_def MAX_NUM_OF_802_1d_TAGS_def t_def tb_def)
  have big: "BA_SESSION_IS_A_BIGGER_THAN_B (ucast ?sn) (ucast (aTidExpectedSn tb)) \<longleftrightarrow> 0 < d"
    using bigger_off [OF sn e] d by (simp add: esn_def d_def)
  have eq: "?sn = aTidExpectedSn tb \<longleftrightarrow> d = 0"
    using sn_off_0 [OF esn_less [OF q(2)] sn] by (simp add: d_def esn_def word_unat_eq_iff)
  show ?thesis
  proof (cases "d = 0")
    case True
    with e tb(1) r have a: "accept 0 0 p (win tb) = (s', out, W')" by (simp add: placing_def esn_def)
    have "moved t s' out W' {#rx_buf p#} q (rx_part1 ?ft p q)"
      unfolding t_def by (rule moved_part1 [OF Q W(1) [unfolded TB] refl a [unfolded TB]])
    then show ?thesis unfolding f using eq True by simp
  next
    case False
    have endw: "BA_SESSION_IS_A_BIGGER_THAN_B (ucast ?sn) (win_end tb) \<longleftrightarrow>
      w \<le> d \<or> (d + 1 = w \<and> 4096 \<le> esn tb + d)"
      using bigger_end [OF e _ _ sn _ _ d] False tb(1,2) by (simp add: esn_def d_def w_def)
    consider (in_win) "d < w" "\<not> (d + 1 = w \<and> 4096 \<le> esn tb + d)" | (beyond) "w \<le> d"
      | (wrap) "d + 1 = w" "4096 \<le> esn tb + d" by linarith
    then show ?thesis
    proof cases
      case in_win
      with r have a: "accept 0 d p (win tb) = (s', out, W')" by (auto simp: placing_def)
      have "moved t s' out W' {#rx_buf p#} q (rx_part2 ?ft ?sn p q)"
        unfolding t_def
        by (rule moved_part2 [OF Q in_win(1) tb(2) d_def [unfolded TB] sn _ refl W(1) [unfolded TB] Wd [unfolded TB] a [unfolded TB]])
          (use False in simp)
      then show ?thesis unfolding f using eq False big endw in_win by auto
    next
      case beyond
      with r have a: "accept (d - w + 1) (w - 1) p (win tb) = (s', out, W')" by (auto simp: placing_def)
      have "moved t s' out W' {#rx_buf p#} q (rx_part3 ?ft ?sn p q)"
        unfolding t_def
        by (rule moved_part3 [OF Q w_def [unfolded TB] tb(1,2) d_def [unfolded TB] beyond d sn refl W [unfolded TB] a [unfolded TB]])
      then show ?thesis unfolding f using eq False big endw beyond by simp
    next
      case wrap
      with r have a: "accept 1 (d - 1) p (win tb) = (s', out, W')" by (auto simp: placing_def)
      have w2: "2 \<le> w" "d = w - 1" using wrap(1) False by simp_all
      have "win tb k = None" if "w - 1 \<le> k" for k
        using W(2) Wd that w2(2) by (cases "k = d") auto
      then have "moved t s' out W' {#rx_buf p#} q (rx_part3 ?ft ?sn p q)"
        unfolding t_def
        by (intro moved_part3_wrap [OF Q w_def [unfolded TB] w2(1) tb(2) d_def [unfolded TB] w2(2) sn refl W(1) [unfolded TB] _ a [unfolded TB]])
          (simp add: TB)
      then show ?thesis unfolding f using eq False big endw wrap by simp
    qed
  qed
qed

lemma placing_ok:
  assumes "placing e w d = (s, j)" "e < 4096" "1 \<le> w"
  shows "s + j = d" "j < w"
  using assms by (auto simp: placing_def split: if_splits)

text \<open>
  A second copy of a stored frame is handed up with the driver's failure status and changes nothing
  else, unless its place is the last one of a window that wraps at 4096.
\<close>

definition rx_rejected :: "RxPkt \<Rightarrow> TRxQueue \<Rightarrow> TRxQueue" where
  "rx_rejected p q = q\<lparr>rxOut := rxOut q @ [p\<lparr>rx_status := (rx_status p AND NOT 7) OR 3\<rparr>]\<rparr>"

lemma rx_rejected_pass: "RxQueue_PassPacket TI_NOK p q = rx_rejected p q"
  by (simp add: RxQueue_PassPacket_def rx_rejected_def RX_DESC_STATUS_MASK_def RX_DESC_STATUS_DRIVER_RX_Q_FAIL_def Let_def)

lemma data_frame_copy:
  assumes inv: "rxq_inv q" and t: "unat (frame_tid p) = t" "t < 8" "aTidBaEstablished (tidDB q t)"
    and d: "d = sn_off (esn (tidDB q t)) (unat (frame_sn p))" "win (tidDB q t) d \<noteq> None"
    and nw: "\<not> (d + 1 = unat (aTidWinSize (tidDB q t)) \<and> 4096 \<le> esn (tidDB q t) + d)"
  shows "rx_data_frame p q = rx_rejected p q"
proof -
  let ?tb = "tidDB q t" and ?sn = "frame_sn p" and ?w = "unat (aTidWinSize (tidDB q t))"
  have wf: "tid_wf ?tb" and w: "1 \<le> ?w" "?w \<le> 8" "stored_ok (esn ?tb) ?w (win ?tb)"
    using inv t by (auto simp: rxq_inv_def tid_inv_def)
  have d1: "1 \<le> d" "d < ?w" using d(2) stored_okD [OF w(3)] by blast+
  have e: "unat (aTidExpectedSn ?tb) < 4096" using wf by (simp add: tid_wf_def)
  have d0: "sn_off (unat (aTidExpectedSn ?tb)) (unat ?sn) = d" by (simp add: d(1) esn_def)
  have "?sn \<noteq> aTidExpectedSn ?tb" using d1(1) d0 by (auto simp: sn_off_def)
  moreover have "BA_SESSION_IS_A_BIGGER_THAN_B (ucast ?sn) (ucast (aTidExpectedSn ?tb))"
    using bigger_off [OF frame_sn_less e] d0 d1 w(2) by simp
  moreover have "\<not> BA_SESSION_IS_A_BIGGER_THAN_B (ucast ?sn) (win_end ?tb)"
    using bigger_end [OF e w(1,2) frame_sn_less d0 [symmetric]] d1 w(2) nw by (simp add: esn_def)
  ultimately have "rx_data_frame p q = rx_part2 (frame_tid p) ?sn p q"
    using t by (simp add: rx_data_frame_def Let_def MAX_NUM_OF_802_1d_TAGS_def)
  moreover have "pPacket (aPaketsQueue ?tb ! unat (save_index ?tb ?sn)) \<noteq> None"
    using save_index_unat [OF e _ frame_sn_less, of p] wf d(2) d1 w(2) d0
    by (simp add: win_def tid_wf_def)
  ultimately show ?thesis unfolding rx_rejected_pass [symmetric]
    using t(1) by (auto simp: rx_part2_def Let_def)
qed

text \<open>A frame behind the expected sequence number is passed as it is.\<close>

lemma data_frame_late:
  assumes inv: "rxq_inv q" and t: "unat (frame_tid p) = t" "t < 8" "aTidBaEstablished (tidDB q t)"
    and d: "2047 \<le> sn_off (esn (tidDB q t)) (unat (frame_sn p))"
  shows "rx_data_frame p q = RxQueue_PassPacket TI_OK p q"
proof -
  have e: "unat (aTidExpectedSn (tidDB q t)) < 4096" using inv t by (auto simp: rxq_inv_def tid_inv_def tid_wf_def)
  have "frame_sn p \<noteq> aTidExpectedSn (tidDB q t)" using d by (auto simp: esn_def sn_off_def)
  then show ?thesis using bigger_off [OF frame_sn_less e] d t
    by (simp add: rx_data_frame_def Let_def MAX_NUM_OF_802_1d_TAGS_def esn_def)
qed

end
