(* ===== verification/WlRxEvents.thy ===== *)
theory WlRxEvents
  imports WlRxInv
begin

text \<open>
  Every packet keeps the accounts and the invariant of the receive reorder queue: data frames,
  block-ack requests, ADDBA and DELBA frames, the end of a session, the timeout.
\<close>

section \<open>What a step gives for the whole module\<close>

lemma moved_inv:
  assumes m: "moved t s out W' b q q'" and inv: "rxq_inv q" and t: "t < 8" "aTidBaEstablished (tidDB q t)"
    and W: "stored_ok ((esn (tidDB q t) + s) mod 4096) (unat (aTidWinSize (tidDB q t))) W'"
  shows "rxq_inv q'"
proof -
  note m' = m [unfolded moved_def]
  have "tid_inv (tidDB q' x)" if "x < 8" for x
  proof (cases "x = t")
    case True
    have "tid_inv (tidDB q t)" using inv t(1) by (simp add: rxq_inv_def)
    with m' t(2) W True show ?thesis by (simp add: tid_inv_def)
  next
    case False
    with m' inv that show ?thesis by (simp add: rxq_inv_def)
  qed
  with m' inv show ?thesis by (simp add: rxq_inv_def)
qed

lemma inv_tid:
  assumes "rxq_inv q" "t < 8"
  shows "t < length (tSa1ArrayMng q)" "tid_wf (tidDB q t)" "tid_inv (tidDB q t)"
  using assms by (auto simp: rxq_inv_def tid_inv_def)

lemma inv_est:
  assumes "rxq_inv q" "t < 8" "aTidBaEstablished (tidDB q t)"
  shows "1 \<le> unat (aTidWinSize (tidDB q t))" "unat (aTidWinSize (tidDB q t)) \<le> 8"
    "stored_ok (esn (tidDB q t)) (unat (aTidWinSize (tidDB q t))) (win (tidDB q t))"
  using inv_tid [OF assms(1,2)] assms(3) by (auto simp: tid_inv_def)

lemma inv_timeout [simp]:
  "rxq_inv (stop_miss q) = rxq_inv q" "rxq_inv (start_if_stored t q) = rxq_inv q"
  "rxq_inv (RxQueue_PassPacket st p q) = rxq_inv q"
  by (auto simp: rxq_inv_def counted_def stop_miss_def start_if_stored_def)

lemma acct_stop_miss [simp]:
  "delivered (stop_miss q) = delivered q" "all_saved (stop_miss q) = all_saved q"
  by (simp_all add: stop_miss_def)

text \<open>\<open>gains b q q'\<close>: the buffers \<open>b\<close> enter, none is lost or duplicated, and the invariant holds.\<close>

definition gains :: "32 word multiset \<Rightarrow> TRxQueue \<Rightarrow> TRxQueue \<Rightarrow> bool" where
  "gains b q q' \<longleftrightarrow> rxq_inv q' \<and> delivered q' + all_saved q' = delivered q + all_saved q + b"

lemma gains_pass: "rxq_inv q \<Longrightarrow> gains {#rx_buf p#} q (RxQueue_PassPacket st p q)"
  by (simp add: gains_def)

lemma gains_then_pass: "gains {#} q q' \<Longrightarrow> gains {#rx_buf p#} q (RxQueue_PassPacket st p q')"
  by (simp add: gains_def)

lemma saved_empty:
  assumes "tid_wf tb" "\<forall>k<8. win tb k = None"
  shows "saved tb = {#}"
proof -
  have "pPacket (aPaketsQueue tb ! i) = None" if "i < 8" for i
  proof -
    let ?a = "unat (aWinStartArrayInex tb)"
    have "?a < 8" using assms(1) by (simp add: tid_wf_def)
    then have "(?a + (i + 8 - ?a) mod 8) mod 8 = i" using that by (simp add: mod_add_right_eq)
    moreover have "win tb ((i + 8 - ?a) mod 8) = None" using assms(2) by simp
    ultimately show ?thesis by (simp add: win_def)
  qed
  then have "\<forall>e\<in>set (aPaketsQueue tb). entry_buf e = {#}"
    using assms(1) by (auto simp: in_set_conv_nth tid_wf_def entry_buf_def)
  moreover have "\<forall>e\<in>set es. entry_buf e = {#} \<Longrightarrow> sum_list (map entry_buf es) = {#}" for es
    by (induction es) auto
  ultimately show ?thesis by (simp add: saved_def)
qed

section \<open>Data frames\<close>

text \<open>A second copy of the stored last frame of a window that wraps at 4096.\<close>

definition rx_dist :: "TRxQueue \<Rightarrow> nat \<Rightarrow> RxPkt \<Rightarrow> nat" where
  "rx_dist q t p = sn_off (esn (tidDB q t)) (unat (frame_sn p))"

definition wrap_copy :: "RxPkt \<Rightarrow> TRxQueue \<Rightarrow> bool" where
  "wrap_copy p q = (let t = unat (frame_tid p); d = rx_dist q t p in
     t < 8 \<and> d + 1 = unat (aTidWinSize (tidDB q t)) \<and> 4096 \<le> esn (tidDB q t) + d \<and> win (tidDB q t) d \<noteq> None)"

lemma gains_rejected: "rxq_inv q \<Longrightarrow> gains {#rx_buf p#} q (rx_rejected p q)"
  using gains_pass [of q p TI_NOK] by (simp add: rx_rejected_pass)

lemma gains_data_frame:
  assumes inv: "rxq_inv q" and nl: "\<not> wrap_copy p q"
  shows "gains {#rx_buf p#} q (rx_data_frame p q)"
proof -
  let ?t = "unat (frame_tid p)"
  let ?d = "sn_off (esn (tidDB q ?t)) (unat (frame_sn p))"
  consider (big) "8 \<le> ?t" | (closed) "?t < 8" "\<not> aTidBaEstablished (tidDB q ?t)"
    | (late) "?t < 8" "aTidBaEstablished (tidDB q ?t)" "2047 \<le> ?d"
    | (copy) "?t < 8" "aTidBaEstablished (tidDB q ?t)" "win (tidDB q ?t) ?d \<noteq> None"
    | (ok) "?t < 8" "aTidBaEstablished (tidDB q ?t)" "?d < 2047" "win (tidDB q ?t) ?d = None" by (metis linorder_not_le)
  then show ?thesis
  proof cases
    case big
    then show ?thesis using inv by (simp add: rx_data_frame_def Let_def MAX_NUM_OF_802_1d_TAGS_def gains_pass)
  next
    case closed
    then show ?thesis using inv by (simp add: rx_data_frame_def Let_def MAX_NUM_OF_802_1d_TAGS_def gains_pass)
  next
    case late
    then show ?thesis using data_frame_late [OF inv refl late] inv by (simp add: gains_pass)
  next
    case copy
    have "rx_data_frame p q = rx_rejected p q"
      by (rule data_frame_copy [OF inv refl copy(1,2) refl copy(3)]) (use nl copy in \<open>auto simp: wrap_copy_def rx_dist_def Let_def\<close>)
    then show ?thesis using gains_rejected [OF inv] by simp
  next
    case ok
    note w = inv_est [OF inv ok(1,2)]
    note dup = dup_win [OF w(3) refl inv_tid(2) [OF inv ok(1)] ok(4)]
    let ?e = "esn (tidDB q ?t)" and ?w = "unat (aTidWinSize (tidDB q ?t))"
    obtain s j where sj: "placing ?e ?w ?d = (s, j)" by force
    obtain s' out W' where a: "accept s j p (win (tidDB q ?t)) = (s', out, W')" by (metis prod_cases3)
    note m = data_frame_moved [OF refl refl refl refl inv ok(1-3) dup sj a]
    have e: "?e < 4096" using inv_tid(2) [OF inv ok(1)] by (rule esn_less)
    note pl = placing_ok [OF sj e w(1)]
    have "unat (frame_sn p) = (?e + s + j) mod 4096"
      using sn_off_inv [OF e frame_sn_less [of p]] pl(1) by (simp add: add.assoc)
    moreover have "\<forall>k x. win (tidDB q ?t) k = Some x \<longrightarrow> 1 \<le> k \<and> k < ?w \<and> unat (frame_sn x) = (?e + k) mod 4096"
      using stored_okD [OF w(3)] by blast
    ultimately have "stored_ok ((?e + s') mod 4096) ?w W'" using accept_ok(2) [OF _ _ pl(2) w(2) a] by blast
    from moved_inv [OF m inv ok(1,2) this] m show ?thesis by (simp add: gains_def moved_def)
  qed
qed

section \<open>Block-ack requests\<close>

lemma moved_irounds:
  assumes "tid < length (tSa1ArrayMng q)" "tid_wf (tidDB q tid)"
  shows "moved tid 0 (head_pkts (tidDB q tid) n) (\<lambda>k. win (tidDB q tid) (k + n)) {#} q ((close_round tid ^^ n) q)"
  using cr.rounds [OF assms, where n = n] cr.stps [OF assms(2), where n = n] assms
  by (auto simp: moved_def kept_def)

definition bar_ft :: "RxPkt \<Rightarrow> TI_UINT8" where
  "bar_ft p = ucast (drop_bit 12 (COPY_WLAN_WORD p sizeof_dot11_BarFrameHeader_t AND 0xF000))"

definition bar_tid :: "RxPkt \<Rightarrow> nat" where
  "bar_tid p = unat (bar_ft p)"

definition bar_ssn :: "RxPkt \<Rightarrow> TI_UINT16" where
  "bar_ssn p = drop_bit 4 (COPY_WLAN_WORD p (sizeof_dot11_BarFrameHeader_t + 2) AND 0xFFF0)"

lemma rx_bar_alt:
  "rx_bar p q =
     (if bar_tid p \<ge> 8 then RxQueue_PassPacket TI_NOK p q
      else if \<not> aTidBaEstablished (tidDB q (bar_tid p)) then RxQueue_PassPacket TI_NOK p q
      else RxQueue_PassPacket TI_OK p
        (if BA_SESSION_IS_A_BIGGER_THAN_B (ucast (bar_ssn p)) (ucast (aTidExpectedSn (tidDB q (bar_tid p))))
         then updTid (bar_tid p) (\<lambda>tb. tb\<lparr>aTidExpectedSn := bar_ssn p\<rparr>)
           (start_if_stored (bar_ft p) (bar_loop (bar_tid p) (bar_ssn p - aTidExpectedSn (tidDB q (bar_tid p))) 0 (stop_miss q)))
         else q))"
  unfolding rx_bar_def Let_def bar_ssn_def bar_tid_def bar_ft_def MAX_NUM_OF_802_1d_TAGS_def by (rule refl)

lemma shift_4_less: "unat (drop_bit 4 (x :: TI_UINT16)) < 4096"
  using unsigned_less [of x, where ?'a = nat] by (simp add: drop_bit_eq_div unat_div)

lemma bar_delta:
  fixes ssn e :: TI_UINT16
  assumes "unat ssn < 4096" "unat e < 4096"
  shows "unat e \<le> unat ssn \<Longrightarrow> unat (ssn - e) = sn_off (unat e) (unat ssn)"
    "unat ssn < unat e \<Longrightarrow> 8 \<le> unat (ssn - e)"
  using assms by (simp_all add: unat_sub_if_size word_size sn_off_if word_le_nat_alt)

lemma moved_bar:
  assumes inv: "rxq_inv q" and t: "bar_tid p = t" "t < 8" "aTidBaEstablished (tidDB q t)"
    and d: "d = sn_off (esn (tidDB q t)) (unat (bar_ssn p))" "0 < d" "d < 2047"
  obtains r where "moved t d (head_pkts (tidDB q t) r @ [p]) (\<lambda>k. win (tidDB q t) (k + r)) {#rx_buf p#} q (rx_bar p q)"
    "r \<le> 8" "r < 8 \<Longrightarrow> esn (tidDB q t) \<le> unat (bar_ssn p) \<and> d \<le> r \<and> win (tidDB q t) r = None"
    "\<And>k. k < r \<Longrightarrow> k < d \<or> esn (tidDB q t) > unat (bar_ssn p) \<or> win (tidDB q t) k \<noteq> None"
proof -
  let ?tb = "tidDB q t" and ?ssn = "bar_ssn p"
  define q0 where "q0 = stop_miss q"
  note q = inv_tid [OF inv t(2)]
  have ssn: "unat ?ssn < 4096" unfolding bar_ssn_def by (rule shift_4_less)
  have e: "unat (aTidExpectedSn ?tb) < 4096" using q(2) by (simp add: tid_wf_def)
  have big: "BA_SESSION_IS_A_BIGGER_THAN_B (ucast ?ssn) (ucast (aTidExpectedSn ?tb))"
    using bigger_off [OF ssn e] d by (simp add: esn_def)
  have a: "moved t 0 [] (win ?tb) {#} q q0" using moved_timer(1) [OF q(1,2)] by (simp add: q0_def)
  note a' = movedD [OF a]
  let ?dlt = "?ssn - aTidExpectedSn ?tb"
  obtain r where r: "bar_loop t ?dlt 0 q0 = (close_round t ^^ r) q0" "0 + r \<le> 8"
    "0 + r < 8 \<Longrightarrow> unat ?dlt \<le> 0 + r \<and> win (tidDB q0 t) r = None"
    "\<And>k. k < r \<Longrightarrow> 0 + k < unat ?dlt \<or> win (tidDB q0 t) k \<noteq> None"
    using bar_loop_rounds [OF a'(1,2), of 0 ?dlt] by (metis zero_le)
  define q1 where "q1 = (close_round t ^^ r) q0"
  have b: "moved t 0 (head_pkts ?tb r) (\<lambda>k. win ?tb (k + r)) {#} q q1"
    using moved_trans [OF a moved_irounds [OF a'(1,2), of r]] a'(4) by (simp add: q1_def)
  note b' = movedD [OF b]
  have c: "moved t 0 (head_pkts ?tb r) (\<lambda>k. win ?tb (k + r)) {#} q (start_if_stored (bar_ft p) q1)"
    using moved_trans [OF b moved_timer(2) [OF b'(1,2)]] b'(4) by simp
  note c' = movedD [OF c]
  have en: "unat ?ssn = (esn (tidDB (start_if_stored (bar_ft p) q1) t) + d) mod 4096"
    using c'(3) sn_off_inv [OF esn_less [OF q(2)] ssn] esn_less [OF q(2)] unfolding d(1) by simp
  let ?q2 = "updTid t (\<lambda>tb. tb\<lparr>aTidExpectedSn := ?ssn\<rparr>) (start_if_stored (bar_ft p) q1)"
  have f: "moved t d (head_pkts ?tb r) (\<lambda>k. win ?tb (k + r)) {#} q ?q2"
    using moved_trans [OF c moved_set_esn [OF c'(1,2) en]] c'(4) by simp
  note f' = movedD [OF f]
  have "rx_bar p q = RxQueue_PassPacket TI_OK p ?q2"
    using t big r(1) by (simp add: rx_bar_alt q0_def [symmetric] q1_def)
  then have "moved t d (head_pkts ?tb r @ [p]) (\<lambda>k. win ?tb (k + r)) {#rx_buf p#} q (rx_bar p q)"
    using moved_trans [OF f moved_pass [OF f'(1,2)], of p] f'(4) by simp
  then show ?thesis
  proof (rule that [of r])
    show "r \<le> 8" using r(2) by simp
    assume "r < 8"
    with r(3) a'(4) have le: "unat ?dlt \<le> r" "win ?tb r = None" by simp_all
    with \<open>r < 8\<close> bar_delta(2) [OF ssn e] have "esn ?tb \<le> unat ?ssn" by (force simp: esn_def)
    then show "esn ?tb \<le> unat ?ssn \<and> d \<le> r \<and> win ?tb r = None"
      using le bar_delta(1) [OF ssn e] by (simp add: d(1) esn_def)
  next
    fix k
    assume "k < r"
    with r(4) a'(4) have "k < unat ?dlt \<or> win ?tb k \<noteq> None" by simp
    then show "k < d \<or> esn ?tb > unat ?ssn \<or> win ?tb k \<noteq> None"
      using bar_delta(1) [OF ssn e] by (auto simp: d(1) esn_def not_less)
  qed
qed

text \<open>A request is aligned when the run of saved packets does not pass its start.\<close>

definition bar_aligned :: "RxPkt \<Rightarrow> TRxQueueTidDataBase \<Rightarrow> bool" where
  "bar_aligned p tb = (let d = sn_off (esn tb) (unat (bar_ssn p)) in
     0 < d \<and> d < 8 \<and> esn tb \<le> unat (bar_ssn p) \<longrightarrow> win tb d = None)"

lemma rx_bar_behind:
  assumes inv: "rxq_inv q" and t: "bar_tid p = t" "t < 8" "aTidBaEstablished (tidDB q t)"
    and d: "d = sn_off (esn (tidDB q t)) (unat (bar_ssn p))" "\<not> (0 < d \<and> d < 2047)"
  shows "rx_bar p q = RxQueue_PassPacket TI_OK p q"
proof -
  have e: "unat (aTidExpectedSn (tidDB q t)) < 4096" using inv_tid(2) [OF inv t(2)] by (simp add: tid_wf_def)
  have ssn: "unat (bar_ssn p) < 4096" unfolding bar_ssn_def by (rule shift_4_less)
  have "\<not> BA_SESSION_IS_A_BIGGER_THAN_B (ucast (bar_ssn p)) (ucast (aTidExpectedSn (tidDB q t)))"
    using bigger_off [OF ssn e] d by (simp add: esn_def)
  with t show ?thesis by (simp add: rx_bar_alt)
qed

lemma gains_bar:
  assumes inv: "rxq_inv q"
    and al: "bar_tid p < 8 \<and> aTidBaEstablished (tidDB q (bar_tid p)) \<longrightarrow> bar_aligned p (tidDB q (bar_tid p))"
  shows "gains {#rx_buf p#} q (rx_bar p q)"
proof (cases "bar_tid p < 8 \<and> aTidBaEstablished (tidDB q (bar_tid p))")
  case False
  have "rx_bar p q = RxQueue_PassPacket TI_NOK p q"
    using False by (auto simp: rx_bar_alt)
  then show ?thesis using inv by (simp add: gains_pass)
next
  case True
  let ?t = "bar_tid p"
  let ?tb = "tidDB q ?t"
  let ?w = "unat (aTidWinSize ?tb)"
  define d where "d = sn_off (esn ?tb) (unat (bar_ssn p))"
  show ?thesis
  proof (cases "0 < d \<and> d < 2047")
    case False
    then show ?thesis using rx_bar_behind [OF inv refl _ _ d_def] True inv by (simp add: gains_pass)
  next
    case d: True
    obtain r where r: "moved ?t d (head_pkts ?tb r @ [p]) (\<lambda>k. win ?tb (k + r)) {#rx_buf p#} q (rx_bar p q)"
      "r \<le> 8" "r < 8 \<Longrightarrow> esn ?tb \<le> unat (bar_ssn p) \<and> d \<le> r \<and> win ?tb r = None"
      "\<And>k. k < r \<Longrightarrow> k < d \<or> esn ?tb > unat (bar_ssn p) \<or> win ?tb k \<noteq> None"
      using moved_bar [OF inv refl _ _ d_def] True d by metis
    have ok: "stored_ok (esn ?tb) ?w (win ?tb)" using inv_est [OF inv] True by blast
    have "stored_ok ((esn ?tb + d) mod 4096) ?w (\<lambda>k. win ?tb (k + r))"
    proof (cases "r = 8")
      case True
      then show ?thesis by (simp add: stored_ok_def win_beyond)
    next
      case False
      with r(2,3) have le: "esn ?tb \<le> unat (bar_ssn p)" "d \<le> r" "r < 8" by auto
      then have "win ?tb d = None"
        using al True d by (simp add: bar_aligned_def Let_def d_def [symmetric])
      with r(4) [of d] le have "r = d" by (cases "d < r") auto
      show ?thesis unfolding stored_ok_def \<open>r = d\<close>
      proof (intro allI impI)
        fix k :: nat
        show "case win ?tb (k + d) of None \<Rightarrow> True | Some x \<Rightarrow>
          1 \<le> k \<and> k < ?w \<and> unat (frame_sn x) = ((esn ?tb + d) mod 4096 + k) mod 4096"
        proof (cases "win ?tb (k + d)")
          case (Some x)
          note s = stored_okD [OF ok Some]
          have "esn ?tb + (k + d) = (esn ?tb + d) + k" by simp
          with s(3) have "unat (frame_sn x) = ((esn ?tb + d) mod 4096 + k) mod 4096" by (simp only: mod_add_left_eq)
          moreover have "k \<noteq> 0" using Some \<open>win ?tb d = None\<close> by (metis add_0 option.distinct(1))
          ultimately show ?thesis using Some s(2) by simp
        qed simp
      qed
    qed
    from moved_inv [OF r(1) inv _ _ this] True r(1) show ?thesis by (simp add: gains_def moved_def)
  qed
qed

section \<open>Opening and closing a session\<close>

lemma close_session:
  assumes inv: "rxq_inv q" and t: "unat t < 8" "aTidBaEstablished (tidDB q (unat t))"
  shows "gains {#} q (RxQueue_CloseBaSession t q)"
    "rxOut (RxQueue_CloseBaSession t q) = rxOut q @ head_pkts (tidDB q (unat t)) 8"
    "\<not> aTidBaEstablished (tidDB (RxQueue_CloseBaSession t q) (unat t))"
proof -
  let ?t = "unat t"
  let ?f = "\<lambda>tb. tb\<lparr>aTidBaEstablished := False\<rparr>"
  define q1 where "q1 = updTid ?t ?f q"
  define q2 where "q2 = (close_round ?t ^^ 8) q1"
  note it = inv_tid [OF inv t(1)]
  have tb1: "tidDB q1 ?t = ?f (tidDB q ?t)" using it(1) by (simp add: q1_def tidDB_updTid)
  have w1: "win (tidDB q1 ?t) = win (tidDB q ?t)" unfolding tb1 by (simp add: win_def fun_eq_iff)
  have wf1: "tid_wf (tidDB q1 ?t)" using it(2) unfolding tb1 by (simp add: tid_wf_def)
  have l1: "?t < length (tSa1ArrayMng q1)" using it(1) by (simp add: q1_def)
  have k1: "kept q q1" unfolding q1_def by (rule kept_updTid) simp
  note rs = cr.rounds [OF l1 wf1, where n = 8] and ss = cr.stps [OF wf1, where n = 8]
  have e: "RxQueue_CloseBaSession t q = stop_miss q2"
    using t by (simp add: RxQueue_CloseBaSession_def Let_def MAX_NUM_OF_802_1d_TAGS_def q2_def q1_def
        foldl_rounds RX_QUEUE_ARRAY_SIZE_def)
  have none: "\<forall>k<8. win (tidDB q2 ?t) k = None" unfolding q2_def rs(2) ss(2) by (simp add: win_beyond)
  have est: "\<not> aTidBaEstablished (tidDB q2 ?t)" using ss(5) unfolding q2_def rs(2) by (simp add: tb1)
  have wf2: "tid_wf (tidDB q2 ?t)" unfolding q2_def rs(2) by (rule ss(1))
  have k2: "kept q q2" unfolding q2_def by (rule kept_trans [OF k1 rs(5)])
  have "tid_inv (tidDB q2 x)" if "x < 8" for x
  proof (cases "x = ?t")
    case True
    with none est wf2 show ?thesis by (simp add: tid_inv_def)
  next
    case False
    then have "tidDB q2 x = tidDB q x" unfolding q2_def using rs(3) by (simp add: q1_def tidDB_other)
    with inv that show ?thesis by (simp add: rxq_inv_def)
  qed
  moreover have "length (tSa1ArrayMng q2) = 8" unfolding q2_def rs(1) using inv by (simp add: q1_def rxq_inv_def)
  ultimately have "rxq_inv q2" using k2 inv by (simp add: rxq_inv_def kept_def)
  then show "gains {#} q (RxQueue_CloseBaSession t q)"
    unfolding e using k2 by (simp add: gains_def kept_def)
  show "rxOut (RxQueue_CloseBaSession t q) = rxOut q @ head_pkts (tidDB q ?t) 8"
    unfolding e using rs(4) w1 by (simp add: q2_def q1_def stop_miss_def)
  show "\<not> aTidBaEstablished (tidDB (RxQueue_CloseBaSession t q) ?t)"
    unfolding e using est by (simp add: stop_miss_def)
qed

definition addba_param :: "RxPkt \<Rightarrow> TI_UINT16" where
  "addba_param p = COPY_WLAN_WORD p (sizeof_dot11_mgmtHeader_t + 1 + 2)"

text \<open>The buffer size field of an ADDBA request; the module takes 0 as it is.\<close>

definition addba_size :: "RxPkt \<Rightarrow> nat" where
  "addba_size p = unat (drop_bit 6 (addba_param p AND 0xFFC0))"


definition addba_tid :: "RxPkt \<Rightarrow> nat" where
  "addba_tid p = unat (drop_bit 2 (addba_param p AND 0x003C))"

lemma rx_addba_alt:
  "rx_addba p q =
     (if addba_tid p \<ge> 8 then RxQueue_PassPacket TI_NOK p q
      else if aTidBaEstablished (tidDB q (addba_tid p)) then RxQueue_PassPacket TI_NOK p q
      else RxQueue_PassPacket TI_OK p
        (updTid (addba_tid p) (\<lambda>tb. tb\<lparr>
           aTidWinSize := (if ucast (drop_bit 6 (addba_param p AND 0xFFC0)) > RX_QUEUE_WIN_SIZE then RX_QUEUE_WIN_SIZE
             else ucast (drop_bit 6 (addba_param p AND 0xFFC0))),
           aTidBaEstablished := True,
           aTidExpectedSn := drop_bit 4 (COPY_WLAN_WORD p (sizeof_dot11_mgmtHeader_t + 1 + 2 + 4) AND 0xFFF0),
           aWinStartArrayInex := 0, aPaketsQueue := replicate RX_QUEUE_ARRAY_SIZE zero_entry\<rparr>) q))"
  unfolding rx_addba_def Let_def addba_param_def addba_tid_def MAX_NUM_OF_802_1d_TAGS_def by (rule refl)

lemma win_zero: "win (tb\<lparr>aTidWinSize := w, aTidBaEstablished := b, aTidExpectedSn := e, aWinStartArrayInex := 0,
    aPaketsQueue := replicate RX_QUEUE_ARRAY_SIZE zero_entry\<rparr>) = (\<lambda>k. None)"
  by (simp add: win_def RX_QUEUE_ARRAY_SIZE_def zero_entry_def fun_eq_iff)

lemma gains_addba:
  assumes inv: "rxq_inv q"
    and sz: "addba_tid p < 8 \<and> \<not> aTidBaEstablished (tidDB q (addba_tid p)) \<longrightarrow> addba_size p \<noteq> 0"
  shows "gains {#rx_buf p#} q (rx_addba p q)"
proof (cases "addba_tid p < 8 \<and> \<not> aTidBaEstablished (tidDB q (addba_tid p))")
  case False
  then have "rx_addba p q = RxQueue_PassPacket TI_NOK p q" by (auto simp: rx_addba_alt)
  then show ?thesis using inv by (simp add: gains_pass)
next
  case True
  let ?t = "addba_tid p"
  define w :: TI_UINT32 where "w = (if ucast (drop_bit 6 (addba_param p AND 0xFFC0)) > RX_QUEUE_WIN_SIZE then RX_QUEUE_WIN_SIZE
             else ucast (drop_bit 6 (addba_param p AND 0xFFC0)))"
  define e :: TI_UINT16 where "e = drop_bit 4 (COPY_WLAN_WORD p (sizeof_dot11_mgmtHeader_t + 1 + 2 + 4) AND 0xFFF0)"
  define f :: "TRxQueueTidDataBase \<Rightarrow> TRxQueueTidDataBase" where "f = (\<lambda>tb. tb\<lparr>aTidWinSize := w, aTidBaEstablished := True, aTidExpectedSn := e,
    aWinStartArrayInex := 0, aPaketsQueue := replicate RX_QUEUE_ARRAY_SIZE zero_entry\<rparr>)"
  have alt: "rx_addba p q = RxQueue_PassPacket TI_OK p (updTid ?t f q)"
    using True unfolding rx_addba_alt f_def w_def e_def by simp
  note it = inv_tid [OF inv conjunct1 [OF True]]
  have sz8: "unat (ucast (drop_bit 6 (addba_param p AND 0xFFC0)) :: TI_UINT32) = addba_size p"
    unfolding addba_size_def by (rule unat_ucast_16_32)
  have w: "1 \<le> unat w" "unat w \<le> 8"
    using sz True sz8 by (auto simp: w_def RX_QUEUE_WIN_SIZE_def word_less_nat_alt not_less Suc_le_eq)
  have e: "unat e < 4096" unfolding e_def by (rule shift_4_less)
  have win: "win (f tb) = (\<lambda>k. None)" for tb unfolding f_def by (rule win_zero)
  have "tid_wf (f tb)" for tb using e
    by (simp add: f_def tid_wf_def RX_QUEUE_ARRAY_SIZE_def zero_entry_def)
  then have ti: "tid_inv (f tb)" for tb
    using w by (simp add: tid_inv_def win stored_ok_def) (simp add: f_def)
  have "saved (tidDB q ?t) = {#}" "saved (f (tidDB q ?t)) = {#}"
    using it(2,3) True saved_empty by (auto simp: tid_inv_def win \<open>\<And>tb. tid_wf (f tb)\<close> intro!: saved_empty)
  then have s: "all_saved (updTid ?t f q) = all_saved q" by (simp add: all_saved_updTid_same)
  have "tid_inv (tidDB (updTid ?t f q) x)" if "x < 8" for x
    using that ti inv it(1) by (cases "x = ?t") (simp_all add: tidDB_updTid tidDB_other rxq_inv_def)
  then have "rxq_inv (updTid ?t f q)" using inv s by (simp add: rxq_inv_def counted_def)
  then show ?thesis unfolding alt using s by (simp add: gains_def)
qed

lemma gains_delba:
  assumes inv: "rxq_inv q"
  shows "gains {#rx_buf p#} q (rx_delba p q)"
proof -
  define ft where "ft = (ucast (drop_bit 12 (COPY_WLAN_WORD p (sizeof_dot11_mgmtHeader_t + 1 + 1) AND 0xF000)) :: TI_UINT8)"
  have "rx_delba p q =
     (if unat ft \<ge> 8 then RxQueue_PassPacket TI_NOK p q
      else if \<not> aTidBaEstablished (tidDB q (unat ft)) then RxQueue_PassPacket TI_NOK p q
      else RxQueue_PassPacket TI_OK p (RxQueue_CloseBaSession ft q))"
    unfolding rx_delba_def Let_def ft_def MAX_NUM_OF_802_1d_TAGS_def by (rule refl)
  then show ?thesis using inv close_session(1) [OF inv]
    by (simp add: gains_pass gains_then_pass)
qed

section \<open>Every packet\<close>

text \<open>
  What the accounts and the invariant need of a packet: it is not a second copy of the last frame of a
  window that wraps at 4096, a block-ack request does not start at a stored frame of the window, and an
  ADDBA request that opens a session has a buffer size. The code makes none of these checks.
\<close>

definition rx_sane :: "RxPkt \<Rightarrow> TRxQueue \<Rightarrow> bool" where
  "rx_sane p0 q =
     (let p = fix_class_tag p0; tag = packet_class_tag p in
      if tag = TAG_CLASS_QOS_DATA \<or> tag = TAG_CLASS_AMSDU
      then \<not> wrap_copy p q
      else if tag = TAG_CLASS_BA_EVENT
      then (let sub = COPY_WLAN_WORD p hdr_fc AND 0xF0; action = rx_data p (sizeof_dot11_mgmtHeader_t + 1) in
        if sub = 0x80 then bar_tid p < 8 \<and> aTidBaEstablished (tidDB q (bar_tid p)) \<longrightarrow> bar_aligned p (tidDB q (bar_tid p))
        else if sub = 0xD0 \<and> action = 0
        then addba_tid p < 8 \<and> \<not> aTidBaEstablished (tidDB q (addba_tid p)) \<longrightarrow> addba_size p \<noteq> 0
        else True)
      else True)"

lemma fix_class_tag_buf [simp]: "rx_buf (fix_class_tag p) = rx_buf p"
  by (simp add: fix_class_tag_def)

lemma gains_receive:
  assumes "rxq_inv q" "rx_sane p q"
  shows "gains {#rx_buf p#} q (RxQueue_ReceivePacket p q)"
proof -
  define p' where "p' = fix_class_tag p"
  have b: "rx_buf p' = rx_buf p" by (simp add: p'_def)
  let ?tag = "packet_class_tag p'"
  consider (other) "?tag \<noteq> TAG_CLASS_QOS_DATA \<and> ?tag \<noteq> TAG_CLASS_BA_EVENT \<and> ?tag \<noteq> TAG_CLASS_AMSDU"
    | (data) "?tag = TAG_CLASS_QOS_DATA \<or> ?tag = TAG_CLASS_AMSDU"
    | (ba) "?tag = TAG_CLASS_BA_EVENT" "\<not> (?tag = TAG_CLASS_QOS_DATA \<or> ?tag = TAG_CLASS_AMSDU)" by blast
  then show ?thesis
  proof cases
    case other
    then have "RxQueue_ReceivePacket p q = RxQueue_PassPacket TI_OK p' q"
      by (simp add: RxQueue_ReceivePacket_def Let_def p'_def)
    then show ?thesis using gains_pass [OF assms(1), of p'] b by simp
  next
    case data
    then have "RxQueue_ReceivePacket p q = rx_data_frame p' q"
      unfolding RxQueue_ReceivePacket_def Let_def p'_def [symmetric] by auto
    moreover have "\<not> wrap_copy p' q"
      using assms(2) data unfolding rx_sane_def Let_def p'_def [symmetric] by auto
    ultimately show ?thesis using gains_data_frame [OF assms(1), of p'] b by auto
  next
    case ba
    let ?sub = "COPY_WLAN_WORD p' hdr_fc AND 0xF0" and ?action = "rx_data p' (sizeof_dot11_mgmtHeader_t + 1)"
    have e: "RxQueue_ReceivePacket p q =
      (if ?sub = 0x80 then rx_bar p' q
       else if ?sub = 0xD0 then (if ?action = 0 then rx_addba p' q else if ?action = 2 then rx_delba p' q
         else RxQueue_PassPacket TI_NOK p' q)
       else RxQueue_PassPacket TI_NOK p' q)"
      using ba unfolding RxQueue_ReceivePacket_def Let_def p'_def [symmetric] by simp
    have s: "if ?sub = 0x80 then bar_tid p' < 8 \<and> aTidBaEstablished (tidDB q (bar_tid p')) \<longrightarrow> bar_aligned p' (tidDB q (bar_tid p'))
        else if ?sub = 0xD0 \<and> ?action = 0
        then addba_tid p' < 8 \<and> \<not> aTidBaEstablished (tidDB q (addba_tid p')) \<longrightarrow> addba_size p' \<noteq> 0
        else True"
      using assms(2) ba unfolding rx_sane_def Let_def p'_def [symmetric] by simp
    show ?thesis unfolding e b [symmetric] using s
      by (auto simp: gains_pass [OF assms(1)] gains_delba [OF assms(1)] intro: gains_bar [OF assms(1)] gains_addba [OF assms(1)] split: if_splits)
  qed
qed

section \<open>The timeout\<close>

lemma find_first_rounds:
  assumes "tid < length (tSa1ArrayMng q)" "tid_wf (tidDB q tid)"
    "\<forall>k<n. win (tidDB q tid) k = None" "win (tidDB q tid) n \<noteq> None"
  shows "find_first_stored tid q = Some ((pass_step tid ^^ n) q)"
  using assms
proof (induction n arbitrary: q)
  case 0
  then show ?case by (subst find_first_stored.simps) (auto simp: win_start_win)
next
  case (Suc n)
  have s: "tidDB (pass_step tid q) tid = tb_step (tidDB q tid)" by (rule tidDB_pass_step [OF Suc.prems(1)])
  have "find_first_stored tid q = find_first_stored tid (pass_step tid q)"
    using Suc.prems skip_first(2) [OF Suc.prems(1,2)]
    by (subst find_first_stored.simps) (simp add: win_start_win)
  also have "\<dots> = Some ((pass_step tid ^^ n) (pass_step tid q))"
    by (rule Suc.IH) (use Suc.prems in \<open>simp_all add: s tb_step\<close>)
  finally show ?case by (simp add: funpow_Suc_right del: funpow.simps)
qed

text \<open>The search for a stored packet ends only where there is one.\<close>

lemma find_first_some:
  assumes "find_first_stored tid q = Some q'" "tid < length (tSa1ArrayMng q)" "tid_wf (tidDB q tid)"
  shows "\<exists>k. win (tidDB q tid) k \<noteq> None"
proof -
  have "tid < length (tSa1ArrayMng q) \<and> tid_wf (tidDB q tid) \<longrightarrow> (\<exists>k. win (tidDB q tid) k \<noteq> None)"
  proof (rule find_first_stored.raw_induct [OF _ assms(1)])
    fix f tid q q'
    assume IH: "\<And>tid q q'. f tid q = Some q' \<Longrightarrow>
        tid < length (tSa1ArrayMng q) \<and> tid_wf (tidDB q tid) \<longrightarrow> (\<exists>k. win (tidDB q tid) k \<noteq> None)"
      and body: "(if pPacket (win_start (tidDB q tid)) = None
        then f tid (updTid tid (\<lambda>tb. next_sn (next_index tb)) q) else Some q) = Some q'"
    show "tid < length (tSa1ArrayMng q) \<and> tid_wf (tidDB q tid) \<longrightarrow> (\<exists>k. win (tidDB q tid) k \<noteq> None)"
    proof
      assume q: "tid < length (tSa1ArrayMng q) \<and> tid_wf (tidDB q tid)"
      show "\<exists>k. win (tidDB q tid) k \<noteq> None"
      proof (cases "pPacket (win_start (tidDB q tid)) = None")
        case False
        then show ?thesis using q by (metis win_start_win)
      next
        case True
        then have p: "updTid tid (\<lambda>tb. next_sn (next_index tb)) q = pass_step tid q"
          using skip_first(2) q by (simp add: win_start_win)
        from body True have "f tid (pass_step tid q) = Some q'" unfolding p by simp
        from IH [OF this] q obtain k where "win (tb_step (tidDB q tid)) k \<noteq> None"
          by (auto simp: tidDB_pass_step tb_step)
        then show ?thesis using q tb_step(2) by metis
      qed
    qed
  qed
  with assms(2,3) show ?thesis by blast
qed

lemma size_sum_list_le:
  "\<forall>x\<in>set xs. size (f x) \<le> n \<Longrightarrow> size (sum_list (map f xs) :: 'a multiset) \<le> n * length xs"
  by (induction xs) auto

lemma size_all_saved:
  assumes "rxq_inv q"
  shows "size (all_saved q) \<le> 64"
proof -
  have "size (saved tb) \<le> 8" if "tid_wf tb" for tb
    using size_sum_list_le [of "aPaketsQueue tb" entry_buf 1] that
    by (auto simp: saved_def entry_buf_def tid_wf_def split: option.splits)
  moreover have "\<forall>tb\<in>set (tSa1ArrayMng q). tid_wf tb"
    using assms by (auto simp: rxq_inv_def tid_inv_def in_set_conv_nth tidDB_def)
  ultimately show ?thesis
    using size_sum_list_le [of "tSa1ArrayMng q" saved 8] assms by (simp add: all_saved_def rxq_inv_def)
qed

lemma start_saved:
  assumes "tid < length (tSa1ArrayMng q)" "pPacket (win_start (tidDB q tid)) \<noteq> None"
  shows "0 < size (all_saved q)"
proof -
  obtain p where p: "pPacket (win_start (tidDB q tid)) = Some p" using assms(2) by blast
  from saved_clear [OF this] all_saved_updTid [OF assms(1), of clear_win_start]
  have "all_saved q = add_mset (rx_buf p) (all_saved (updTid tid clear_win_start q))" by simp
  then show ?thesis by simp
qed

text \<open>While the counter counts what is stored, its test in the second loop changes nothing.\<close>

lemma send_is_pass:
  assumes "tid < length (tSa1ArrayMng q)" "counted q" "size (all_saved q) \<le> 64"
  shows "send_stored tid q = pass_saved tid q"
  using assms
proof (induction tid q rule: pass_saved.induct)
  case (1 tid q)
  show ?case
  proof (cases "pPacket (win_start (tidDB q tid)) = None")
    case True
    then show ?thesis by (simp add: send_stored.simps [of tid q] pass_saved.simps [of tid q])
  next
    case False
    have "unat (of_nat (size (all_saved q)) :: TI_UINT16) = size (all_saved q)"
      using 1(4) by (simp add: unsigned_of_nat take_bit_nat_eq_self)
    with start_saved [OF 1(2) False] have "(of_nat (size (all_saved q)) :: TI_UINT16) \<noteq> 0" by (metis less_irrefl unsigned_0)
    then have pos: "aPacketsStored (tPacketTimeout q) > 0" using 1(3) by (simp add: counted_def word_neq_0_conv)
    have k: "kept q (pass_step tid q)" by (rule kept_pass_step [OF 1(2)])
    obtain p where p: "pPacket (win_start (tidDB q tid)) = Some p" using False by blast
    have "size (delivered (pass_step tid q)) = Suc (size (delivered q))"
      using p by (simp add: pass_step_def pass_win_start_def Let_def)
    moreover from k have "size (delivered (pass_step tid q)) + size (all_saved (pass_step tid q)) =
      size (delivered q) + size (all_saved q)" unfolding kept_def by (metis size_union)
    ultimately have "size (all_saved (pass_step tid q)) \<le> 64" using 1(4) by simp
    with 1(1) [OF conjI [OF 1(2) False]] k 1(2,3)
    have "send_stored tid (pass_step tid q) = pass_saved tid (pass_step tid q)" by (simp add: kept_def)
    with False 1(2) pos show ?thesis
      by (simp add: send_stored.simps [of tid q] pass_saved.simps [of tid q])
  qed
qed

lemma first_place:
  assumes "win tb k \<noteq> None"
  obtains n where "\<forall>k<n. win tb k = None" "win tb n \<noteq> None" "n \<le> k"
  using LeastI [of "\<lambda>n. win tb n \<noteq> None" k] not_less_Least [of _ "\<lambda>n. win tb n \<noteq> None"]
    Least_le [of "\<lambda>n. win tb n \<noteq> None" k] assms that by blast

lemma timeout_moved:
  assumes inv: "rxq_inv q" and t: "t = unat (aFrameTid (tPacketTimeout q))" "t < 8"
    and c: "aPacketsStored (tPacketTimeout q) \<noteq> 0" and k: "win (tidDB q t) k \<noteq> None"
  obtains q' s out W' where "RxQueue_PacketTimeOut q = Some q'" "moved t s out W' {#} q q'" "out \<noteq> []"
    "gains {#} q q'" "in_order (esn (tidDB q t)) s out"
proof -
  let ?tb = "tidDB q t"
  note it = inv_tid [OF inv t(2)]
  have est: "aTidBaEstablished ?tb"
    using it(3) k by (auto simp: tid_inv_def win_def split: if_splits)
  note w = inv_est [OF inv t(2) est]
  define q0 where "q0 = updTimeout (\<lambda>t. t\<lparr>bPacketMiss := False\<rparr>) (q\<lparr>rxTimer := False\<rparr>)"
  have a: "moved t 0 [] (win ?tb) {#} q q0"
    using it(1,2) by (simp add: moved_def q0_def tidDB_def updTimeout_def counted_def all_saved_def delivered_def esn_less)
  note a' = movedD [OF a]
  have inv0: "rxq_inv q0" using inv by (simp add: q0_def rxq_inv_def tidDB_def updTimeout_def counted_def all_saved_def)
  obtain n where n: "\<forall>k<n. win ?tb k = None" "win ?tb n \<noteq> None" using first_place [OF k] by metis
  define q1 where "q1 = (pass_step t ^^ n) q0"
  have f: "find_first_stored t q0 = Some q1"
    unfolding q1_def by (rule find_first_rounds [OF a'(1,2)]) (use n a'(4) in simp_all)
  have b: "moved t n (head_pkts ?tb n) (\<lambda>k. win ?tb (k + n)) {#} q q1"
    using moved_trans [OF a moved_rounds [OF a'(1,2), of n]] a'(4) by (simp add: q1_def)
  note b' = movedD [OF b]
  let ?V = "\<lambda>k. win ?tb (k + n)"
  define q2 where "q2 = pass_saved t q1"
  have e2: "send_stored t q1 = q2"
  proof -
    have k1: "kept q0 q1" unfolding q1_def by (rule ps.rounds(5) [OF a'(1,2)])
    have "counted q1" "delivered q1 = delivered q0" "all_saved q1 = all_saved q0"
    proof -
      show "counted q1" using k1 inv0 by (simp add: kept_def rxq_inv_def)
      have "rxOut q1 = rxOut q0"
        unfolding q1_def using ps.rounds(4) [OF a'(1,2), of n] n(1) a'(4) by (simp add: wpkts_empty)
      then show "delivered q1 = delivered q0" by (simp add: delivered_def)
      then show "all_saved q1 = all_saved q0" using k1 by (simp add: kept_def)
    qed
    then show ?thesis unfolding q2_def using size_all_saved [OF inv0] b'(1) by (intro send_is_pass) simp_all
  qed
  have c2: "moved t (n + run ?V) (head_pkts ?tb n @ wpkts ?V (run ?V)) (\<lambda>k. ?V (k + run ?V)) {#} q q2"
    using moved_trans [OF b moved_saved [OF b'(1,2) b'(4) [symmetric]]] by (simp add: q2_def)
  define q' where "q' = (if aPacketsStored (tPacketTimeout q2) \<noteq> 0
    then updTimeout (\<lambda>t. t\<lparr>bPacketMiss := True\<rparr>) (tmr_StartTimer q2) else q2)"
  have "aFrameTid (tPacketTimeout q0) = aFrameTid (tPacketTimeout q)"
    "aPacketsStored (tPacketTimeout q0) = aPacketsStored (tPacketTimeout q)" by (simp_all add: q0_def updTimeout_def)
  then have "RxQueue_PacketTimeOut q = Some q'"
    using c f e2 t(1) unfolding RxQueue_PacketTimeOut_def Let_def q0_def [symmetric] q'_def by simp
  moreover have m: "moved t (n + run ?V) (head_pkts ?tb n @ wpkts ?V (run ?V)) (\<lambda>k. ?V (k + run ?V)) {#} q q'"
    using c2 by (auto simp: q'_def moved_def counted_def)
  moreover have ord: "in_order (esn ?tb) (n + run ?V) (head_pkts ?tb n @ wpkts ?V (run ?V))"
    unfolding wpkts_add [symmetric] using stored_okD(3) [OF w(3)] by (rule in_order_wpkts)
  moreover have vb: "\<forall>k\<ge>8. ?V k = None" by (simp add: win_beyond)
  moreover have "0 < run ?V" using run_free [OF vb] n(2) by (cases "run ?V") auto
  then have "wpkts ?V (run ?V) \<noteq> []" using n(2)
    by (auto simp: wpkts_def filter_empty_conv intro!: bexI [of _ 0])
  moreover have "stored_ok ((esn ?tb + (n + run ?V)) mod 4096) (unat (aTidWinSize ?tb)) (\<lambda>k. ?V (k + run ?V))"
    unfolding stored_ok_def
  proof (intro allI impI)
    fix k :: nat
    show "case ?V (k + run ?V) of None \<Rightarrow> True | Some p \<Rightarrow> 1 \<le> k \<and> k < unat (aTidWinSize ?tb) \<and>
      unat (frame_sn p) = ((esn ?tb + (n + run ?V)) mod 4096 + k) mod 4096"
    proof (cases "?V (k + run ?V)")
      case (Some x)
      note s = stored_okD [OF w(3) Some]
      have "esn ?tb + (k + run ?V + n) = (esn ?tb + (n + run ?V)) + k" by simp
      with s(3) have "unat (frame_sn x) = ((esn ?tb + (n + run ?V)) mod 4096 + k) mod 4096"
        by (simp only: mod_add_left_eq)
      moreover have "k \<noteq> 0" using Some run_free [OF vb] by (metis add_0 option.distinct(1))
      ultimately show ?thesis using Some s(2) by simp
    qed simp
  qed
  from moved_inv [OF m inv t(2) est this] m have "gains {#} q q'" by (simp add: gains_def moved_def)
  ultimately show ?thesis using that [OF _ m _ _ ord] by simp
qed

section \<open>The TID of the timer\<close>

abbreviation timer_tid :: "TRxQueue \<Rightarrow> nat" where
  "timer_tid q \<equiv> unat (aFrameTid (tPacketTimeout q))"

lemma timer_tid_rounds [simp]:
  "timer_tid (pass_win_start tid q) = timer_tid q" "timer_tid (pass_step tid q) = timer_tid q"
  "timer_tid (close_round tid q) = timer_tid q" "timer_tid (stop_miss q) = timer_tid q"
  by (auto simp: pass_win_start_def pass_step_def close_round_def stop_miss_def Let_def split: option.splits)

lemma timer_tid_pass_saved [simp]: "timer_tid (pass_saved tid q) = timer_tid q"
proof (induction tid q rule: pass_saved.induct)
  case (1 tid q)
  then show ?case by (subst pass_saved.simps) auto
qed

lemma timer_tid_send_stored [simp]: "timer_tid (send_stored tid q) = timer_tid q"
proof (induction tid q rule: send_stored.induct)
  case (1 tid q)
  then show ?case by (subst send_stored.simps) auto
qed

lemma timer_tid_part3_loop [simp]: "timer_tid (snd (part3_loop tid n i q)) = timer_tid q"
proof (induction tid n i q rule: part3_loop.induct)
  case (1 tid n i q)
  then show ?case by (subst part3_loop.simps) auto
qed

lemma timer_tid_bar_loop [simp]: "timer_tid (bar_loop tid n i q) = timer_tid q"
proof (induction tid n i q rule: bar_loop.induct)
  case (1 tid n i q)
  then show ?case by (subst bar_loop.simps) auto
qed

lemma timer_tid_find_first:
  assumes "find_first_stored tid q = Some q'"
  shows "timer_tid q' = timer_tid q"
proof (rule find_first_stored.raw_induct [OF _ assms])
  fix f tid q q'
  assume IH: "\<And>tid q q'. f tid q = Some q' \<Longrightarrow> timer_tid q' = timer_tid q"
    and body: "(if pPacket (win_start (tidDB q tid)) = None
      then f tid (updTid tid (\<lambda>tb. next_sn (next_index tb)) q) else Some q) = Some q'"
  show "timer_tid q' = timer_tid q"
  proof (cases "pPacket (win_start (tidDB q tid)) = None")
    case True
    with body have "f tid (updTid tid (\<lambda>tb. next_sn (next_index tb)) q) = Some q'" by simp
    from IH [OF this] show ?thesis by simp
  next
    case False
    with body show ?thesis by simp
  qed
qed

lemma timer_tid_close: "timer_tid (RxQueue_CloseBaSession t q) = timer_tid q"
proof -
  have "timer_tid (foldl (\<lambda>q i. close_round tid q) q xs) = timer_tid q" for tid q and xs :: "nat list"
    by (induction xs arbitrary: q) simp_all
  then show ?thesis by (simp add: RxQueue_CloseBaSession_def Let_def)
qed

lemma timer_tid_start: "timer_tid q < 8 \<Longrightarrow> unat t < 8 \<Longrightarrow> timer_tid (start_if_stored t q) < 8"
  by (simp add: start_if_stored_def)

lemma timer_tid_receive:
  assumes "timer_tid q < 8"
  shows "timer_tid (RxQueue_ReceivePacket p q) < 8"
proof -
  have part3: "timer_tid (rx_part3 t sn p q) < 8" if "unat t < 8" for t sn p
    unfolding rx_part3_alt Let_def by (rule timer_tid_start) (use assms that in \<open>simp_all add: part3_end_def\<close>)
  have data: "timer_tid (rx_data_frame p q) < 8" for p
    using assms by (auto simp: rx_data_frame_def Let_def MAX_NUM_OF_802_1d_TAGS_def rx_part1_def rx_part2_def
        intro!: timer_tid_start part3)
  have bar: "timer_tid (rx_bar p q) < 8" for p
    using assms by (auto simp: rx_bar_alt bar_tid_def intro!: timer_tid_start)
  show ?thesis
    using assms data bar
    by (auto simp: RxQueue_ReceivePacket_def Let_def rx_addba_alt rx_delba_def timer_tid_close)
qed

lemma timer_tid_timeout: "RxQueue_PacketTimeOut q = Some q' \<Longrightarrow> timer_tid q' = timer_tid q"
  by (auto simp: RxQueue_PacketTimeOut_def Let_def split: if_splits option.splits dest!: timer_tid_find_first)

text \<open>A timeout that returns has found a stored packet of its TID, or nothing is stored at all.\<close>

lemma gains_timeout:
  assumes "rxq_inv q" "timer_tid q < 8" "RxQueue_PacketTimeOut q = Some q'"
  shows "gains {#} q q'"
proof (cases "aPacketsStored (tPacketTimeout q) = 0")
  case True
  then have "q' = updTimeout (\<lambda>t. t\<lparr>bPacketMiss := False\<rparr>) (q\<lparr>rxTimer := False\<rparr>)"
    using assms(3) by (simp add: RxQueue_PacketTimeOut_def Let_def updTimeout_def)
  then show ?thesis using assms(1)
    by (simp add: updTimeout_def gains_def rxq_inv_def tidDB_def counted_def all_saved_def delivered_def)
next
  case False
  define q0 where "q0 = updTimeout (\<lambda>t. t\<lparr>bPacketMiss := False\<rparr>) (q\<lparr>rxTimer := False\<rparr>)"
  have tb: "tidDB q0 (timer_tid q) = tidDB q (timer_tid q)" "length (tSa1ArrayMng q0) = length (tSa1ArrayMng q)"
    "aFrameTid (tPacketTimeout q0) = aFrameTid (tPacketTimeout q)"
    "aPacketsStored (tPacketTimeout q0) = aPacketsStored (tPacketTimeout q)"
    by (simp_all add: q0_def tidDB_def updTimeout_def)
  obtain q1 where "find_first_stored (timer_tid q) q0 = Some q1"
    using assms(3) False tb unfolding RxQueue_PacketTimeOut_def Let_def q0_def [symmetric]
    by (auto split: option.splits if_splits)
  from find_first_some [OF this] inv_tid [OF assms(1,2)] tb
  obtain k where "win (tidDB q (timer_tid q)) k \<noteq> None" by auto
  from timeout_moved [OF assms(1) refl assms(2) False this] assms(3) show ?thesis by (metis option.inject)
qed

end
