(* ===== verification/WlRxProps.thy ===== *)
theory WlRxProps
  imports WlRxEvents
begin

text \<open>
  The properties of the receive reorder queue: what it promises in every reachable state, the
  standard's reordering buffer it implements, and the inputs for which it does not.
\<close>

section \<open>Reachable states\<close>

text \<open>
  \<open>rx_reach b q\<close>: the module is in state \<open>q\<close> after the buffers \<open>b\<close> were given to it, none of them one of
  the three packets that \<open>rx_sane\<close> excludes. Any order of packets, ends of sessions and timeouts is in it;
  a timeout that never returns has no next state.
\<close>

inductive rx_reach :: "32 word multiset \<Rightarrow> TRxQueue \<Rightarrow> bool" where
  create: "RxQueue_Create True = Some q \<Longrightarrow> rx_reach {#} q"
| init: "rx_reach b q \<Longrightarrow> rx_reach b (snd (RxQueue_Init q h))"
| register: "rx_reach b q \<Longrightarrow> rx_reach b (RxQueue_Register_CB q r f obj)"
| receive: "rx_reach b q \<Longrightarrow> rx_sane p q \<Longrightarrow> rx_reach (add_mset (rx_buf p) b) (RxQueue_ReceivePacket p q)"
| close: "rx_reach b q \<Longrightarrow> rx_reach b (RxQueue_CloseBaSession t q)"
| timeout: "rx_reach b q \<Longrightarrow> RxQueue_PacketTimeOut q = Some q' \<Longrightarrow> rx_reach b q'"

declare rx_reach.intros [intro]

lemma sum_replicate_empty: "sum_list (replicate n {#}) = {#}"
  by (induction n) simp_all

lemma create_inv: "RxQueue_Create True = Some q \<Longrightarrow> rxq_inv q \<and> delivered q + all_saved q = {#}"
proof -
  assume *: "RxQueue_Create True = Some q"
  have tb: "tidDB q t = \<lparr>aPaketsQueue = replicate 8 zero_entry, aTidBaEstablished = False,
      aWinStartArrayInex = 0, aTidWinSize = 0, aTidExpectedSn = 0\<rparr>" if "t < 8" for t
    using * that by (auto simp: RxQueue_Create_def tidDB_def MAX_NUM_OF_802_1d_TAGS_def RX_QUEUE_ARRAY_SIZE_def)
  have "all_saved q = {#}" "delivered q = {#}" "aPacketsStored (tPacketTimeout q) = 0" "length (tSa1ArrayMng q) = 8"
    using * by (auto simp: RxQueue_Create_def all_saved_def saved_def delivered_def entry_buf_def zero_entry_def
        MAX_NUM_OF_802_1d_TAGS_def RX_QUEUE_ARRAY_SIZE_def sum_replicate_empty)
  then show ?thesis
    by (simp add: rxq_inv_def counted_def tb tid_inv_def tid_wf_def win_def zero_entry_def)
qed

lemma gains_close: "rxq_inv q \<Longrightarrow> gains {#} q (RxQueue_CloseBaSession t q)"
  using close_session(1) [of q t]
  by (cases "unat t < 8 \<and> aTidBaEstablished (tidDB q (unat t))")
    (auto simp: RxQueue_CloseBaSession_def MAX_NUM_OF_802_1d_TAGS_def Let_def gains_def)

lemma reach_timer: "rx_reach b q \<Longrightarrow> timer_tid q < 8"
proof (induction rule: rx_reach.induct)
  case (create q)
  then show ?case by (auto simp: RxQueue_Create_def)
next
  case (init b q h)
  then show ?case by (simp add: RxQueue_Init_def)
next
  case (register b q r f obj)
  then show ?case by (simp add: RxQueue_Register_CB_def)
next
  case (receive b q p)
  then show ?case by (simp add: timer_tid_receive)
next
  case (close b q t)
  then show ?case by (simp add: timer_tid_close)
next
  case (timeout b q q')
  then show ?case by (simp add: timer_tid_timeout)
qed

lemma reach_inv: "rx_reach b q \<Longrightarrow> rxq_inv q \<and> delivered q + all_saved q = b"
proof (induction rule: rx_reach.induct)
  case (create q)
  then show ?case by (rule create_inv)
next
  case (init b q h)
  then show ?case by (simp add: RxQueue_Init_def rxq_inv_def tidDB_def counted_def all_saved_def delivered_def)
next
  case (register b q r f obj)
  then show ?case by (simp add: RxQueue_Register_CB_def rxq_inv_def tidDB_def counted_def all_saved_def delivered_def)
next
  case (receive b q p)
  then show ?case using gains_receive [of q p] by (simp add: gains_def)
next
  case (close b q t)
  then show ?case using gains_close [of q t] by (simp add: gains_def)
next
  case (timeout b q q')
  then show ?case using gains_timeout [of q q'] reach_timer by (auto simp: gains_def)
qed

section \<open>Example frames\<close>

definition qos_frame :: "32 word \<Rightarrow> TI_UINT8 \<Rightarrow> TI_UINT16 \<Rightarrow> RxPkt" where
  "qos_frame b t sn = \<lparr>rx_buf = b, rx_status = 0, packet_class_tag = TAG_CLASS_QOS_DATA,
     rx_data = (\<lambda>i. if i = 0 then 0x88 else if i = 22 then ucast (push_bit 4 sn)
                    else if i = 23 then ucast (drop_bit 4 sn) else if i = 24 then t else 0)\<rparr>"

definition addba_frame :: "32 word \<Rightarrow> TI_UINT8 \<Rightarrow> TI_UINT16 \<Rightarrow> TI_UINT16 \<Rightarrow> RxPkt" where
  "addba_frame b t wsize ssn = (let par = push_bit 2 (ucast t) OR push_bit 6 wsize in
     \<lparr>rx_buf = b, rx_status = 0, packet_class_tag = TAG_CLASS_BA_EVENT,
      rx_data = (\<lambda>i. if i = 0 then 0xD0 else if i = 27 then ucast par else if i = 28 then ucast (drop_bit 8 par)
                     else if i = 31 then ucast (push_bit 4 ssn) else if i = 32 then ucast (drop_bit 4 ssn) else 0)\<rparr>)"

definition delba_frame :: "32 word \<Rightarrow> TI_UINT8 \<Rightarrow> RxPkt" where
  "delba_frame b t = \<lparr>rx_buf = b, rx_status = 0, packet_class_tag = TAG_CLASS_BA_EVENT,
     rx_data = (\<lambda>i. if i = 0 then 0xD0 else if i = 25 then 2 else if i = 27 then push_bit 4 t else 0)\<rparr>"

definition bar_frame :: "32 word \<Rightarrow> TI_UINT8 \<Rightarrow> TI_UINT16 \<Rightarrow> RxPkt" where
  "bar_frame b t ssn = \<lparr>rx_buf = b, rx_status = 0, packet_class_tag = TAG_CLASS_BA_EVENT,
     rx_data = (\<lambda>i. if i = 0 then 0x84 else if i = 17 then push_bit 4 t
                    else if i = 18 then ucast (push_bit 4 ssn) else if i = 19 then ucast (drop_bit 4 ssn) else 0)\<rparr>"

definition rx_new :: TRxQueue where "rx_new = the (RxQueue_Create True)"

definition rx_all :: "RxPkt list \<Rightarrow> TRxQueue \<Rightarrow> TRxQueue" where
  "rx_all ps q = foldl (\<lambda>q p. RxQueue_ReceivePacket p q) q ps"

fun sane_all :: "RxPkt list \<Rightarrow> TRxQueue \<Rightarrow> bool" where
  "sane_all [] q = True"
| "sane_all (p # ps) q = (rx_sane p q \<and> sane_all ps (RxQueue_ReceivePacket p q))"

lemma rx_new_create: "RxQueue_Create True = Some rx_new"
  by (simp add: rx_new_def RxQueue_Create_def)

lemma rx_all_reach:
  "rx_reach b q \<Longrightarrow> sane_all ps q \<Longrightarrow> rx_reach (b + mset (map rx_buf ps)) (rx_all ps q)"
proof (induction ps arbitrary: b q)
  case (Cons p ps)
  from Cons.IH [OF rx_reach.receive [OF Cons.prems(1)]] Cons.prems(2) show ?case by (simp add: rx_all_def)
qed (simp add: rx_all_def)

lemma rx_new_reach: "sane_all ps rx_new \<Longrightarrow> rx_reach (mset (map rx_buf ps)) (rx_all ps rx_new)"
  using rx_all_reach [OF rx_reach.create [OF rx_new_create]] by simp

lemma rx_new_inv: "sane_all ps rx_new \<Longrightarrow> rxq_inv (rx_all ps rx_new)"
  using reach_inv [OF rx_new_reach] by blast

section \<open>Properties\<close>

text \<open>
  C2. In every state reached by creation, registration, received packets, ends of sessions and timeouts
  that return, the module has delivered or holds exactly the buffers it was given, each once, and its
  invariant holds: every stored packet of a session is at the place of its sequence number, inside the
  window and ahead of the expected number, a closed session holds nothing, and the counter counts what
  is stored. Copies of stored frames and late frames are among the packets. Three packets are not, which
  the code does not look for: a second copy of the last frame of a window that wraps at 4096
  (\<open>rxQueue_wrap_leak\<close> loses a buffer), a block-ack request that starts at a stored frame
  (\<open>rxQueue_bar_cuts_run\<close> breaks the numbering), and an ADDBA request without a buffer size.
\<close>

theorem rxQueue_no_loss:
  assumes "rx_reach b q"
  shows "rxq_inv q \<and> delivered q + all_saved q = b"
  by (rule reach_inv [OF assms])

theorem rxQueue_no_loss_witness:
  "rxq_inv (rx_all [addba_frame 1 0 8 10, qos_frame 2 0 11, qos_frame 3 0 13] rx_new) \<and>
   delivered (rx_all [addba_frame 1 0 8 10, qos_frame 2 0 11, qos_frame 3 0 13] rx_new) +
   all_saved (rx_all [addba_frame 1 0 8 10, qos_frame 2 0 11, qos_frame 3 0 13] rx_new) = {#1, 2, 3#}"
proof -
  have "sane_all [addba_frame 1 0 8 10, qos_frame 2 0 11, qos_frame 3 0 13] rx_new" by code_simp
  from rxQueue_no_loss [OF rx_new_reach [OF this]] show ?thesis
    by (simp add: qos_frame_def addba_frame_def Let_def)
qed

text \<open>A data frame, after the class tag was corrected.\<close>

definition is_data :: "RxPkt \<Rightarrow> bool" where
  "is_data p \<longleftrightarrow> packet_class_tag p = TAG_CLASS_QOS_DATA \<or> packet_class_tag p = TAG_CLASS_AMSDU"

lemma receive_data: "is_data p \<Longrightarrow> RxQueue_ReceivePacket p q = rx_data_frame p q"
  by (auto simp: is_data_def RxQueue_ReceivePacket_def fix_class_tag_def Let_def)

text \<open>A frame that the reordering buffer takes in: not behind the expected number, and no copy of a stored one.\<close>

definition rx_taken :: "TRxQueue \<Rightarrow> nat \<Rightarrow> RxPkt \<Rightarrow> bool" where
  "rx_taken q t p \<longleftrightarrow> rx_dist q t p < 2047 \<and> win (tidDB q t) (rx_dist q t p) = None"

lemma receive_moved:
  assumes inv: "rxq_inv q" and p: "is_data p" "rx_taken q t p"
    and t: "t = unat (frame_tid p)" "t < 8" "aTidBaEstablished (tidDB q t)"
    and r: "placing (esn (tidDB q t)) (unat (aTidWinSize (tidDB q t))) (rx_dist q t p) = (s, j)"
      "accept s j p (win (tidDB q t)) = (s', out, W')"
  shows "moved t s' out W' {#rx_buf p#} q (RxQueue_ReceivePacket p q)"
  unfolding receive_data [OF p(1)]
  using data_frame_moved [OF t(1) refl refl refl inv t(2,3) _ dup_win [OF inv_est(3) [OF inv t(2,3)] refl inv_tid(2) [OF inv t(2)]]
      r [unfolded rx_dist_def]] p(2) by (simp add: rx_taken_def rx_dist_def)

text \<open>
  C1. In a state that satisfies the invariant of C2 the queue implements the reordering buffer of IEEE
  802.11n for every data frame of an open session, except the last one of a window that wraps at 4096: a
  frame that is 2047 or more ahead of the expected number, which the code takes for one behind it, is
  handed up as it is; a copy of a stored frame is handed up with the driver's failure status; neither
  changes anything else. For every other frame the packets delivered, the window and the expected number
  are those of the standard.
\<close>

theorem rxQueue_reorders_as_80211n:
  assumes "rxq_inv q" "is_data p" "t = unat (frame_tid p)" "t < 8" "aTidBaEstablished (tidDB q t)"
    and "d = rx_dist q t p" "w = unat (aTidWinSize (tidDB q t))"
    and "\<not> (d + 1 = w \<and> 4096 \<le> esn (tidDB q t) + d)"
    and "reorder_rx w d p (win (tidDB q t)) = (s, out, W')"
  shows "if 2047 \<le> d then RxQueue_ReceivePacket p q = q\<lparr>rxOut := rxOut q @ [p]\<rparr>
    else if win (tidDB q t) d \<noteq> None then RxQueue_ReceivePacket p q = rx_rejected p q
    else rxOut (RxQueue_ReceivePacket p q) = rxOut q @ out \<and>
      win (tidDB (RxQueue_ReceivePacket p q) t) = W' \<and>
      esn (tidDB (RxQueue_ReceivePacket p q) t) = (esn (tidDB q t) + s) mod 4096 \<and>
      (\<forall>u. u \<noteq> t \<longrightarrow> tidDB (RxQueue_ReceivePacket p q) u = tidDB q u)"
proof -
  consider (late) "2047 \<le> d" | (copy) "d < 2047" "win (tidDB q t) d \<noteq> None" | (taken) "rx_taken q t p"
    using assms(6) by (metis linorder_not_le rx_taken_def)
  then show ?thesis
  proof cases
    case late
    then show ?thesis
      using data_frame_late [OF assms(1) assms(3) [symmetric] assms(4,5)] assms(6)
      by (simp add: receive_data [OF assms(2)] rx_dist_def RxQueue_PassPacket_def)
  next
    case copy
    then show ?thesis
      using data_frame_copy [OF assms(1) assms(3) [symmetric] assms(4,5) assms(6) [unfolded rx_dist_def]] assms(7,8)
      by (simp add: receive_data [OF assms(2)])
  next
    case taken
    obtain s0 j where sj: "placing (esn (tidDB q t)) w d = (s0, j)" by force
    moreover have "accept s0 j p (win (tidDB q t)) = (s, out, W')"
      using assms(8,9) sj by (auto simp: placing_def reorder_rx_def split: if_splits)
    ultimately have "moved t s out W' {#rx_buf p#} q (RxQueue_ReceivePacket p q)"
      using receive_moved [OF assms(1,2) taken assms(3-5)] assms(6,7) by simp
    then show ?thesis using taken assms(6) by (auto simp: moved_def rx_taken_def)
  qed
qed

theorem rxQueue_reorders_as_80211n_witness:
  "let q = rx_all [addba_frame 1 0 8 10, qos_frame 2 0 11] rx_new; p = qos_frame 3 0 10; c = qos_frame 4 0 11
   in map rx_buf (rxOut (RxQueue_ReceivePacket p q)) = [1, 3, 2] \<and> esn (tidDB (RxQueue_ReceivePacket p q) 0) = 12 \<and>
      RxQueue_ReceivePacket c q = rx_rejected c q"
proof -
  define q where "q = rx_all [addba_frame 1 0 8 10, qos_frame 2 0 11] rx_new"
  define p where "p = qos_frame 3 0 10"
  define c where "c = qos_frame 4 0 11"
  define r where "r = reorder_rx 8 0 p (win (tidDB q 0))"
  define r' where "r' = reorder_rx 8 1 c (win (tidDB q 0))"
  have inv: "rxq_inv q" unfolding q_def by (rule rx_new_inv) code_simp
  have h: "is_data p" "unat (frame_tid p) = 0" "aTidBaEstablished (tidDB q 0)"
    "rx_dist q 0 p = 0" "unat (aTidWinSize (tidDB q 0)) = 8" "esn (tidDB q 0) = 10" "map rx_buf (rxOut q) = [1]"
    "fst r = 2" "map rx_buf (fst (snd r)) = [3, 2]" "map_option rx_buf (win (tidDB q 0) 0) = None"
    "is_data c" "unat (frame_tid c) = 0" "rx_dist q 0 c = 1" "map_option rx_buf (win (tidDB q 0) 1) = Some 2"
    unfolding q_def p_def c_def r_def by code_simp+
  have r: "reorder_rx 8 0 p (win (tidDB q 0)) = (fst r, fst (snd r), snd (snd r))"
    "reorder_rx 8 1 c (win (tidDB q 0)) = (fst r', fst (snd r'), snd (snd r'))" by (simp_all add: r_def r'_def)
  from rxQueue_reorders_as_80211n [OF inv h(1) h(2) [symmetric] _ h(3) h(4) [symmetric] h(5) [symmetric] _ r(1)] h
  have 1: "rxOut (RxQueue_ReceivePacket p q) = rxOut q @ fst (snd r)" "esn (tidDB (RxQueue_ReceivePacket p q) 0) = 12"
    by simp_all
  from rxQueue_reorders_as_80211n [OF inv h(11) h(12) [symmetric] _ h(3) h(13) [symmetric] h(5) [symmetric] _ r(2)] h
  have "RxQueue_ReceivePacket c q = rx_rejected c q" by auto
  with 1 h show ?thesis by (simp add: q_def [symmetric] p_def [symmetric] c_def [symmetric] Let_def del: map_append) simp
qed

text \<open>
  A run of data frames of one TID, in any order, with copies and late frames, and what the reordering
  buffer delivers in it: the packets that the frames it takes in bring out.
\<close>

fun data_run :: "nat \<Rightarrow> RxPkt list \<Rightarrow> TRxQueue \<Rightarrow> bool" where
  "data_run t [] q = True"
| "data_run t (p # ps) q = (is_data p \<and> \<not> wrap_copy p q \<and> unat (frame_tid p) = t \<and>
     data_run t ps (RxQueue_ReceivePacket p q))"

fun reordered :: "nat \<Rightarrow> RxPkt list \<Rightarrow> TRxQueue \<Rightarrow> RxPkt list" where
  "reordered t [] q = []"
| "reordered t (p # ps) q =
     (if rx_taken q t p then drop (length (rxOut q)) (rxOut (RxQueue_ReceivePacket p q)) else []) @
     reordered t ps (RxQueue_ReceivePacket p q)"

lemma receive_gains: "rxq_inv q \<Longrightarrow> is_data p \<Longrightarrow> \<not> wrap_copy p q \<Longrightarrow> gains {#rx_buf p#} q (RxQueue_ReceivePacket p q)"
  using gains_data_frame [of q p] by (simp add: receive_data)

lemma receive_not_taken:
  assumes "rxq_inv q" "is_data p" "\<not> wrap_copy p q" "unat (frame_tid p) = t" "t < 8" "aTidBaEstablished (tidDB q t)"
    and "\<not> rx_taken q t p"
  shows "RxQueue_ReceivePacket p q \<in> {RxQueue_PassPacket TI_OK p q, rx_rejected p q}"
proof (cases "2047 \<le> rx_dist q t p")
  case True
  then show ?thesis using data_frame_late [OF assms(1,4-6)] by (simp add: receive_data [OF assms(2)] rx_dist_def)
next
  case False
  then have "win (tidDB q t) (rx_dist q t p) \<noteq> None" using assms(7) by (simp add: rx_taken_def)
  with data_frame_copy [OF assms(1,4-6) rx_dist_def] assms(3-5)
  show ?thesis by (auto simp: receive_data [OF assms(2)] wrap_copy_def Let_def)
qed

lemma receive_in_order:
  assumes inv: "rxq_inv q" and p: "is_data p" "rx_taken q t p" "unat (frame_tid p) = t"
    and t: "t < 8" "aTidBaEstablished (tidDB q t)"
  obtains s out W' where "moved t s out W' {#rx_buf p#} q (RxQueue_ReceivePacket p q)"
    "in_order (esn (tidDB q t)) s out"
proof -
  let ?e = "esn (tidDB q t)" and ?w = "unat (aTidWinSize (tidDB q t))" and ?d = "rx_dist q t p"
  obtain s0 j where sj: "placing ?e ?w ?d = (s0, j)" by force
  obtain s out W' where a: "accept s0 j p (win (tidDB q t)) = (s, out, W')" by (metis prod_cases3)
  have m: "moved t s out W' {#rx_buf p#} q (RxQueue_ReceivePacket p q)"
    by (rule receive_moved [OF inv p(1,2) _ t sj a]) (use p(3) in simp)
  note w = inv_est [OF inv t]
  have e: "?e < 4096" using inv_tid(2) [OF inv t(1)] by (rule esn_less)
  note pl = placing_ok [OF sj e w(1)]
  have sn: "unat (frame_sn p) = (?e + s0 + j) mod 4096"
    using sn_off_inv [OF e frame_sn_less [of p]] pl(1) by (simp add: rx_dist_def add.assoc)
  have "\<forall>k x. win (tidDB q t) k = Some x \<longrightarrow> 1 \<le> k \<and> k < ?w \<and> unat (frame_sn x) = (?e + k) mod 4096"
    using stored_okD [OF w(3)] by blast
  from accept_ok(1) [OF this sn pl(2) w(2) a] show ?thesis by (rule that [OF m])
qed

text \<open>
  C3. Over any run of data frames of an open session, in whatever order they arrive, what the reordering
  buffer delivers has strictly increasing sequence numbers from the expected one on, all below the new
  expected number: it delivers nothing out of order or twice. Every frame that it does not take in, a
  late frame or a copy of a stored one, is handed up by itself and changes nothing else. The run starts
  in a state that satisfies the invariant of C2 and has no second copy of the last frame of a window that
  wraps at 4096.
\<close>

theorem rxQueue_in_order:
  assumes "rxq_inv q" "t < 8" "aTidBaEstablished (tidDB q t)" "data_run t ps q"
  shows "(\<exists>s. in_order (esn (tidDB q t)) s (reordered t ps q) \<and>
      esn (tidDB (rx_all ps q) t) = (esn (tidDB q t) + s) mod 4096) \<and>
    (\<forall>i<length ps. rx_taken (rx_all (take i ps) q) t (ps ! i) \<or>
      rx_all (take (Suc i) ps) q \<in> {RxQueue_PassPacket TI_OK (ps ! i) (rx_all (take i ps) q),
        rx_rejected (ps ! i) (rx_all (take i ps) q)})"
  using assms
proof (induction ps arbitrary: q)
  case Nil
  then have "esn (tidDB q t) < 4096" by (intro esn_less inv_tid)
  then show ?case by (auto simp: rx_all_def in_order_def intro!: exI [of _ 0])
next
  case (Cons p ps)
  let ?q = "RxQueue_ReceivePacket p q"
  have p: "is_data p" "\<not> wrap_copy p q" "unat (frame_tid p) = t" using Cons.prems(4) by simp_all
  have inv: "rxq_inv ?q" using receive_gains [OF Cons.prems(1) p(1,2)] by (simp add: gains_def)
  obtain s out where m: "esn (tidDB ?q t) = (esn (tidDB q t) + s) mod 4096" "aTidBaEstablished (tidDB ?q t)"
    "in_order (esn (tidDB q t)) s out" "reordered t (p # ps) q = out @ reordered t ps ?q"
    "rx_taken q t p \<or> ?q \<in> {RxQueue_PassPacket TI_OK p q, rx_rejected p q}"
  proof (cases "rx_taken q t p")
    case True
    obtain s out W' where "moved t s out W' {#rx_buf p#} q ?q" "in_order (esn (tidDB q t)) s out"
      using receive_in_order [OF Cons.prems(1) p(1) True p(3) Cons.prems(2,3)] by metis
    with Cons.prems(3) True show ?thesis by (intro that [of s out]) (simp_all add: moved_def)
  next
    case False
    note nt = receive_not_taken [OF Cons.prems(1) p Cons.prems(2,3) False]
    then have "tidDB ?q t = tidDB q t" by (auto simp: rx_rejected_def tidDB_def RxQueue_PassPacket_def Let_def)
    moreover have "esn (tidDB q t) < 4096" using inv_tid(2) [OF Cons.prems(1,2)] by (rule esn_less)
    ultimately show ?thesis using Cons.prems(3) False nt
      by (intro that [of 0 "[]"]) (auto simp: in_order_def)
  qed
  have data: "data_run t ps ?q" using Cons.prems(4) by simp
  note IH = Cons.IH [OF inv Cons.prems(2) m(2) data]
  from IH obtain s' where s': "in_order (esn (tidDB ?q t)) s' (reordered t ps ?q)"
    "esn (tidDB (rx_all ps ?q) t) = (esn (tidDB ?q t) + s') mod 4096" by blast
  have all: "rx_all (p # xs) q = rx_all xs ?q" for xs by (simp add: rx_all_def)
  have "in_order (esn (tidDB q t)) (s + s') (reordered t (p # ps) q)"
    unfolding m(4) using in_order_append [OF m(3)] s'(1) m(1) by simp
  moreover have "esn (tidDB (rx_all (p # ps) q) t) = (esn (tidDB q t) + (s + s')) mod 4096"
    unfolding all s'(2) m(1) by (simp add: mod_add_left_eq add.assoc)
  moreover have "rx_taken (rx_all (take i (p # ps)) q) t ((p # ps) ! i) \<or>
      rx_all (take (Suc i) (p # ps)) q \<in> {RxQueue_PassPacket TI_OK ((p # ps) ! i) (rx_all (take i (p # ps)) q),
        rx_rejected ((p # ps) ! i) (rx_all (take i (p # ps)) q)}" if "i < length (p # ps)" for i
  proof (cases i)
    case 0
    with m(5) show ?thesis by (simp add: rx_all_def)
  next
    case (Suc k)
    with that IH show ?thesis by (simp add: all)
  qed
  ultimately show ?case by blast
qed

theorem rxQueue_in_order_witness:
  "let q = rx_all [addba_frame 1 0 8 4094] rx_new;
       ps = [qos_frame 2 0 0, qos_frame 3 0 4095, qos_frame 6 0 0, qos_frame 4 0 4094, qos_frame 7 0 4095, qos_frame 5 0 9]
   in (\<exists>s. in_order 4094 s (reordered 0 ps q)) \<and> map rx_buf (reordered 0 ps q) = [4, 3, 2] \<and>
     map rx_buf (rxOut (rx_all ps q)) = [1, 6, 4, 3, 2, 7]"
proof -
  define q where "q = rx_all [addba_frame 1 0 8 4094] rx_new"
  define ps where "ps = [qos_frame 2 0 0, qos_frame 3 0 4095, qos_frame 6 0 0, qos_frame 4 0 4094, qos_frame 7 0 4095, qos_frame 5 0 9]"
  have inv: "rxq_inv q" unfolding q_def by (rule rx_new_inv) code_simp
  have h: "aTidBaEstablished (tidDB q 0)" "data_run 0 ps q" "esn (tidDB q 0) = 4094"
    "map rx_buf (reordered 0 ps q) = [4, 3, 2]" "map rx_buf (rxOut (rx_all ps q)) = [1, 6, 4, 3, 2, 7]"
    unfolding q_def ps_def by code_simp+
  from rxQueue_in_order [OF inv _ h(1,2)] h show ?thesis
    by (auto simp: q_def [symmetric] ps_def [symmetric] Let_def)
qed

text \<open>
  A block-ack request ahead of the expected number that does not cut a run of saved packets
  delivers exactly what is stored below its start, then itself, and moves the window to its start.
\<close>

theorem rxQueue_bar_moves_window:
  assumes "rxq_inv q" "t = bar_tid p" "t < 8" "aTidBaEstablished (tidDB q t)"
    and "d = sn_off (esn (tidDB q t)) (unat (bar_ssn p))" "0 < d" "d < 2047"
    and "esn (tidDB q t) \<le> unat (bar_ssn p)" "bar_aligned p (tidDB q t)"
  shows "rxOut (rx_bar p q) = rxOut q @ head_pkts (tidDB q t) d @ [p] \<and>
    aTidExpectedSn (tidDB (rx_bar p q) t) = bar_ssn p \<and>
    win (tidDB (rx_bar p q) t) = (\<lambda>k. win (tidDB q t) (k + d))"
proof -
  let ?tb = "tidDB q t"
  obtain r where r: "moved t d (head_pkts ?tb r @ [p]) (\<lambda>k. win ?tb (k + r)) {#rx_buf p#} q (rx_bar p q)"
    "r \<le> 8" "r < 8 \<Longrightarrow> esn ?tb \<le> unat (bar_ssn p) \<and> d \<le> r \<and> win ?tb r = None"
    "\<And>k. k < r \<Longrightarrow> k < d \<or> esn ?tb > unat (bar_ssn p) \<or> win ?tb k \<noteq> None"
    using moved_bar [OF assms(1) assms(2) [symmetric] assms(3-7)] by metis
  have same: "head_pkts ?tb r = head_pkts ?tb d \<and> (\<lambda>k. win ?tb (k + r)) = (\<lambda>k. win ?tb (k + d))"
  proof (cases "d < 8")
    case True
    have "win ?tb d = None" using assms(5,6,8,9) True by (simp add: bar_aligned_def Let_def)
    with r(4) [of d] assms(8) have "\<not> d < r" by auto
    moreover have "d \<le> r" using r(2,3) True by (cases "r < 8") auto
    ultimately have "r = d" by simp
    then show ?thesis by simp
  next
    case False
    then have "r = 8" using r(2,3) by (cases "r < 8") auto
    with False show ?thesis
      using wpkts_beyond [of 8 d "win ?tb"] by (auto simp: win_beyond)
  qed
  have ssn: "unat (bar_ssn p) < 4096" unfolding bar_ssn_def by (rule shift_4_less)
  have "esn (tidDB (rx_bar p q) t) = unat (bar_ssn p)"
    using r(1) sn_off_inv [OF _ ssn, of "esn ?tb"] esn_less [OF inv_tid(2) [OF assms(1,3)]] assms(5)
    by (simp add: moved_def)
  then have "aTidExpectedSn (tidDB (rx_bar p q) t) = bar_ssn p" by (simp add: esn_def word_unat_eq_iff)
  with r(1) same show ?thesis by (simp add: moved_def)
qed

theorem rxQueue_bar_moves_window_witness:
  "let q = rx_all [addba_frame 1 0 8 10, qos_frame 2 0 11, qos_frame 3 0 14] rx_new; p = bar_frame 4 0 13
   in map rx_buf (rxOut (rx_bar p q)) = [1, 2, 4] \<and> aTidExpectedSn (tidDB (rx_bar p q) 0) = 13"
proof -
  define q where "q = rx_all [addba_frame 1 0 8 10, qos_frame 2 0 11, qos_frame 3 0 14] rx_new"
  define p where "p = bar_frame 4 0 13"
  have inv: "rxq_inv q" unfolding q_def by (rule rx_new_inv) code_simp
  have h: "bar_tid p = 0" "aTidBaEstablished (tidDB q 0)" "sn_off (esn (tidDB q 0)) (unat (bar_ssn p)) = 3"
    "esn (tidDB q 0) \<le> unat (bar_ssn p)" "bar_aligned p (tidDB q 0)" "bar_ssn p = 13"
    "map rx_buf (rxOut q @ head_pkts (tidDB q 0) 3 @ [p]) = [1, 2, 4]"
    unfolding q_def p_def by code_simp+
  from rxQueue_bar_moves_window [OF inv h(1) [symmetric] _ h(2) h(3) [symmetric] _ _ h(4,5)] h(6,7) show ?thesis
    by (simp add: q_def [symmetric] p_def [symmetric] Let_def del: map_append)
qed

text \<open>
  Ending a session delivers everything the TID has stored, in window order, closes the session
  and leaves the module's invariant and accounts intact.
\<close>

theorem rxQueue_close_flushes:
  assumes "rxq_inv q" "unat t < 8" "aTidBaEstablished (tidDB q (unat t))"
  shows "rxOut (RxQueue_CloseBaSession t q) = rxOut q @ head_pkts (tidDB q (unat t)) 8 \<and>
    in_order (esn (tidDB q (unat t))) 8 (head_pkts (tidDB q (unat t)) 8) \<and>
    \<not> aTidBaEstablished (tidDB (RxQueue_CloseBaSession t q) (unat t)) \<and>
    saved (tidDB (RxQueue_CloseBaSession t q) (unat t)) = {#} \<and> rxq_inv (RxQueue_CloseBaSession t q)"
proof -
  note c = close_session [OF assms]
  have inv: "rxq_inv (RxQueue_CloseBaSession t q)" using c(1) by (simp add: gains_def)
  note tb = inv_tid [OF inv assms(2)]
  have "saved (tidDB (RxQueue_CloseBaSession t q) (unat t)) = {#}"
    using tb(3) c(3) by (intro saved_empty [OF tb(2)]) (simp add: tid_inv_def)
  moreover have "in_order (esn (tidDB q (unat t))) 8 (head_pkts (tidDB q (unat t)) 8)"
    using stored_okD(3) [OF inv_est(3) [OF assms]] by (rule in_order_wpkts)
  ultimately show ?thesis using c inv by blast
qed

theorem rxQueue_close_flushes_witness:
  "let q = rx_all [addba_frame 1 0 8 10, qos_frame 2 0 14, qos_frame 3 0 11] rx_new
   in map rx_buf (rxOut (RxQueue_CloseBaSession 0 q)) = [1, 3, 2]"
proof -
  define q where "q = rx_all [addba_frame 1 0 8 10, qos_frame 2 0 14, qos_frame 3 0 11] rx_new"
  have inv: "rxq_inv q" unfolding q_def by (rule rx_new_inv) code_simp
  have h: "aTidBaEstablished (tidDB q 0)" "map rx_buf (rxOut q @ head_pkts (tidDB q 0) 8) = [1, 3, 2]"
    unfolding q_def by code_simp+
  from rxQueue_close_flushes [OF inv, of 0] h show ?thesis
    by (simp add: q_def [symmetric] Let_def del: map_append)
qed


text \<open>
  C24. When the timer expires for a TID that has something stored, the callback returns: it gives up
  the missing frames, delivers at least the first run of stored packets in order, and keeps the
  invariant and every buffer.
\<close>

theorem rxQueue_timeout_progress:
  assumes "rxq_inv q" "t = unat (aFrameTid (tPacketTimeout q))" "t < 8"
    and "aPacketsStored (tPacketTimeout q) \<noteq> 0" "win (tidDB q t) k \<noteq> None"
  shows "\<exists>q' s out. RxQueue_PacketTimeOut q = Some q' \<and> rxOut q' = rxOut q @ out \<and> out \<noteq> [] \<and>
    in_order (esn (tidDB q t)) s out \<and> esn (tidDB q' t) = (esn (tidDB q t) + s) mod 4096 \<and>
    rxq_inv q' \<and> delivered q' + all_saved q' = delivered q + all_saved q"
proof -
  obtain q' s out W' where r: "RxQueue_PacketTimeOut q = Some q'" "moved t s out W' {#} q q'" "out \<noteq> []"
    "gains {#} q q'" "in_order (esn (tidDB q t)) s out"
    using timeout_moved [OF assms] by metis
  then show ?thesis by (intro exI [of _ q'] exI [of _ s] exI [of _ out]) (simp add: moved_def gains_def)
qed

theorem rxQueue_timeout_progress_witness:
  "\<exists>q' s out. RxQueue_PacketTimeOut (rx_all [addba_frame 1 0 8 10, qos_frame 2 0 14, qos_frame 3 0 12] rx_new) = Some q' \<and>
     out \<noteq> [] \<and> in_order 10 s out"
proof -
  define q where "q = rx_all [addba_frame 1 0 8 10, qos_frame 2 0 14, qos_frame 3 0 12] rx_new"
  have inv: "rxq_inv q" unfolding q_def by (rule rx_new_inv) code_simp
  have h: "unat (aFrameTid (tPacketTimeout q)) = 0" "aPacketsStored (tPacketTimeout q) = 2"
    "map_option rx_buf (win (tidDB q 0) 4) = Some 2" "esn (tidDB q 0) = 10"
    unfolding q_def by code_simp+
  from h(3) have "win (tidDB q 0) 4 \<noteq> None" by auto
  from rxQueue_timeout_progress [OF inv h(1) [symmetric] _ _ this] h(2,4) show ?thesis
    unfolding q_def [symmetric] by auto
qed

section \<open>Where the queue falls short\<close>

text \<open>
  When the timer expires for a TID that has nothing stored while another TID has, the callback
  never returns: its search for the first stored packet has no end.
\<close>

theorem rxQueue_timeout_diverges:
  assumes "rxq_inv q" "t = unat (aFrameTid (tPacketTimeout q))" "t < 8"
    and "aPacketsStored (tPacketTimeout q) \<noteq> 0" "\<forall>k. win (tidDB q t) k = None"
  shows "RxQueue_PacketTimeOut q = None"
proof -
  define q0 where "q0 = updTimeout (\<lambda>t. t\<lparr>bPacketMiss := False\<rparr>) (q\<lparr>rxTimer := False\<rparr>)"
  have tb: "tidDB q0 t = tidDB q t" "length (tSa1ArrayMng q0) = length (tSa1ArrayMng q)"
    "aFrameTid (tPacketTimeout q0) = aFrameTid (tPacketTimeout q)"
    "aPacketsStored (tPacketTimeout q0) = aPacketsStored (tPacketTimeout q)"
    by (simp_all add: q0_def tidDB_def updTimeout_def)
  have "find_first_stored t q0 = None"
  proof (cases "find_first_stored t q0")
    case (Some q1)
    from find_first_some [OF this] inv_tid [OF assms(1,3)] tb assms(5) show ?thesis by simp
  qed
  with assms(2,4) tb show ?thesis
    unfolding RxQueue_PacketTimeOut_def Let_def q0_def [symmetric] by simp
qed

text \<open>
  Such a state is reached by four packets: TID 0 stores a frame, then TID 5 receives its expected
  frame, which restarts the timer for TID 5.
\<close>

theorem rxQueue_timeout_diverges_witness:
  "let ps = [addba_frame 1 0 8 10, addba_frame 2 5 8 20, qos_frame 3 0 11, qos_frame 4 5 20]
   in rx_reach {#1, 2, 3, 4#} (rx_all ps rx_new) \<and> rxTimer (rx_all ps rx_new) \<and>
      RxQueue_PacketTimeOut (rx_all ps rx_new) = None"
proof -
  define ps where "ps = [addba_frame 1 0 8 10, addba_frame 2 5 8 20, qos_frame 3 0 11, qos_frame 4 5 20]"
  define q where "q = rx_all ps rx_new"
  have sane: "sane_all ps rx_new" unfolding ps_def by code_simp
  have bufs: "mset (map rx_buf ps) = {#1, 2, 3, 4#}"
    by (simp add: ps_def qos_frame_def addba_frame_def Let_def)
  have h: "unat (aFrameTid (tPacketTimeout q)) = 5" "aPacketsStored (tPacketTimeout q) = 1"
    "list_all (\<lambda>k. win (tidDB q 5) k = None) [0..<8]" "rxTimer q"
    unfolding q_def ps_def by code_simp+
  have "\<forall>k. win (tidDB q 5) k = None"
    using h(3) by (auto simp: list_all_iff win_beyond)
  from rxQueue_timeout_diverges [OF rx_new_inv [OF sane, folded q_def] h(1) [symmetric] _ _ this] h(2)
  have "RxQueue_PacketTimeOut q = None" by simp
  with rx_new_reach [OF sane] bufs h(4) show ?thesis
    unfolding ps_def [symmetric] q_def [symmetric] Let_def by (simp add: q_def)
qed

text \<open>
  The last frame of a window that wraps at 4096 is taken for a frame beyond the window, although
  the standard only stores it: the expected frame is given up, what was waiting for it is delivered,
  and the expected number moves on.
\<close>

theorem rxQueue_wrap_gives_up:
  assumes "rxq_inv q" "is_data p" "win (tidDB q t) d = None"
    and "t = unat (frame_tid p)" "t < 8" "aTidBaEstablished (tidDB q t)"
    and "d = rx_dist q t p" "2 \<le> w" "w = unat (aTidWinSize (tidDB q t))" "d + 1 = w" "4096 \<le> esn (tidDB q t) + d"
    and "accept 1 (d - 1) p (win (tidDB q t)) = (s, out, W')"
  shows "rxOut (RxQueue_ReceivePacket p q) = rxOut q @ out \<and>
    win (tidDB (RxQueue_ReceivePacket p q) t) = W' \<and>
    esn (tidDB (RxQueue_ReceivePacket p q) t) = (esn (tidDB q t) + s) mod 4096 \<and> 1 \<le> s \<and>
    reorder_rx w d p (win (tidDB q t)) = (0, [], (win (tidDB q t))(d \<mapsto> p))"
proof -
  note w = inv_est [OF assms(1,5,6)]
  have pl: "placing (esn (tidDB q t)) w d = (1, d - 1)" using assms(10,11) by (simp add: placing_def)
  have "d < 2047" using assms(9,10) w(2) by simp
  then have "rx_taken q t p" using assms(3,7) by (simp add: rx_taken_def)
  with receive_moved [OF assms(1,2) _ assms(4-6) _ assms(12)] pl assms(7,9)
  have "moved t s out W' {#rx_buf p#} q (RxQueue_ReceivePacket p q)" by simp
  moreover have "1 \<le> s" using assms(12) by (auto simp: accept_def Let_def)
  moreover have "win (tidDB q t) 0 = None" using stored_ok_win(1) [OF w(3)] .
  then have "reorder_rx w d p (win (tidDB q t)) = (0, [], (win (tidDB q t))(d \<mapsto> p))"
    using assms(8,10) by (simp add: reorder_rx_def accept_def run_0 fun_upd_def cong: if_cong)
  ultimately show ?thesis by (simp add: moved_def)
qed

text \<open>
  With a window of eight at 4090: frame 4091 is stored, the frame 1 delivers it, and the expected
  frame 4090, when it comes, is delivered behind it.
\<close>

theorem rxQueue_wrap_gives_up_witness:
  "let q = rx_all [addba_frame 1 0 8 4090, qos_frame 2 0 4091] rx_new; p = qos_frame 3 0 1
   in map rx_buf (rxOut (RxQueue_ReceivePacket p q)) = [1, 2] \<and> esn (tidDB (RxQueue_ReceivePacket p q) 0) = 4092 \<and>
      map rx_buf (rxOut (rx_all [p, qos_frame 4 0 4090] q)) = [1, 2, 4]"
proof -
  define q where "q = rx_all [addba_frame 1 0 8 4090, qos_frame 2 0 4091] rx_new"
  define p where "p = qos_frame 3 0 1"
  define r where "r = accept 1 6 p (win (tidDB q 0))"
  have inv: "rxq_inv q" unfolding q_def by (rule rx_new_inv) code_simp
  have h: "is_data p" "map_option rx_buf (win (tidDB q 0) 7) = None" "unat (frame_tid p) = 0" "aTidBaEstablished (tidDB q 0)"
    "rx_dist q 0 p = 7" "unat (aTidWinSize (tidDB q 0)) = 8" "esn (tidDB q 0) = 4090" "map rx_buf (rxOut q) = [1]"
    "fst r = 2" "map rx_buf (fst (snd r)) = [2]" "map rx_buf (rxOut (rx_all [p, qos_frame 4 0 4090] q)) = [1, 2, 4]"
    unfolding q_def p_def r_def by code_simp+
  have "accept 1 (7 - 1) p (win (tidDB q 0)) = (fst r, fst (snd r), snd (snd r))" by (simp add: r_def)
  from rxQueue_wrap_gives_up [OF inv h(1) _ h(3) [symmetric] _ h(4) h(5) [symmetric] _ h(6) [symmetric] _ _ this]
    h show ?thesis by (simp add: q_def [symmetric] p_def [symmetric] Let_def)
qed

text \<open>
  A second copy of that frame overwrites the stored one: the first buffer is neither delivered nor
  held any more, so it is lost. In the middle of the window the same copy is rejected.
\<close>

theorem rxQueue_wrap_leak:
  "let q = rx_all [addba_frame 1 0 8 4089, qos_frame 2 0 1, qos_frame 3 0 1] rx_new
   in delivered q + all_saved q = {#1, 3#} \<and>
      delivered (rx_all [addba_frame 1 0 8 100, qos_frame 2 0 101, qos_frame 3 0 101] rx_new) +
      all_saved (rx_all [addba_frame 1 0 8 100, qos_frame 2 0 101, qos_frame 3 0 101] rx_new) = {#1, 2, 3#}"
  by code_simp

text \<open>
  A block-ack request whose start is the first of a run of saved packets delivers the run too, but
  sets the expected number to its start: the next frame in sequence is then held back, waiting for one
  that was already delivered.
\<close>

theorem rxQueue_bar_cuts_run:
  "let q = rx_all [addba_frame 1 0 8 10, qos_frame 2 0 12, bar_frame 3 0 12] rx_new
   in map rx_buf (rxOut q) = [1, 2, 3] \<and> esn (tidDB q 0) = 12 \<and>
      map rx_buf (rxOut (RxQueue_ReceivePacket (qos_frame 4 0 13) q)) = [1, 2, 3]"
  by code_simp

text \<open>
  Ending the session of one TID stops the timer although packets of another TID stay stored: no
  timer runs for them, and none is wanted by the module's own flag.
\<close>

theorem rxQueue_close_stops_timer:
  "let q = rx_all [addba_frame 1 0 8 10, addba_frame 2 5 8 20, qos_frame 3 0 11, delba_frame 4 5] rx_new
   in aPacketsStored (tPacketTimeout q) = 1 \<and> saved (tidDB q 0) = {#3#} \<and> \<not> rxTimer q \<and> \<not> bPacketMiss (tPacketTimeout q)"
  by code_simp

text \<open>
  A data frame with a TID above 7, and a second copy of a frame that is stored inside a window that
  does not wrap, are handed up with the driver's failure status and change nothing else.
\<close>

theorem rxQueue_rejects:
  assumes "rxq_inv q" "is_data p" "t = unat (frame_tid p)"
    and "8 \<le> t \<or> (t < 8 \<and> aTidBaEstablished (tidDB q t) \<and> win (tidDB q t) (rx_dist q t p) \<noteq> None \<and>
      esn (tidDB q t) + rx_dist q t p < 4096)"
  shows "RxQueue_ReceivePacket p q = rx_rejected p q"
proof (cases "8 \<le> t")
  case True
  then show ?thesis using assms(3)
    by (simp add: receive_data [OF assms(2)] rx_data_frame_def Let_def MAX_NUM_OF_802_1d_TAGS_def rx_rejected_pass)
next
  case False
  with assms(4) data_frame_copy [OF assms(1) assms(3) [symmetric] _ _ rx_dist_def] show ?thesis
    by (simp add: receive_data [OF assms(2)])
qed

theorem rxQueue_rejects_witness:
  "let q = rx_all [addba_frame 1 0 8 10, qos_frame 2 0 12] rx_new
   in RxQueue_ReceivePacket (qos_frame 3 0 12) q = rx_rejected (qos_frame 3 0 12) q \<and>
      RxQueue_ReceivePacket (qos_frame 4 9 0) q = rx_rejected (qos_frame 4 9 0) q"
proof -
  define q where "q = rx_all [addba_frame 1 0 8 10, qos_frame 2 0 12] rx_new"
  have inv: "rxq_inv q" unfolding q_def by (rule rx_new_inv) code_simp
  have h: "is_data (qos_frame 3 0 12)" "unat (frame_tid (qos_frame 3 0 12)) = 0" "aTidBaEstablished (tidDB q 0)"
    "rx_dist q 0 (qos_frame 3 0 12) = 2" "map_option rx_buf (win (tidDB q 0) 2) = Some 2" "esn (tidDB q 0) = 10"
    "is_data (qos_frame 4 9 0)" "unat (frame_tid (qos_frame 4 9 0)) = 9"
    unfolding q_def by code_simp+
  from rxQueue_rejects [OF inv h(1) h(2) [symmetric]] rxQueue_rejects [OF inv h(7) h(8) [symmetric]] h show ?thesis
    unfolding q_def [symmetric] Let_def by auto
qed

end
