(* ===== verification/WlTxnQueue.thy ===== *)
theory WlTxnQueue
  imports WlTxn "HOL-Library.Sublist" "HOL-Library.Multiset"
begin

text \<open>
  The transaction queue of \<^verbatim>\<open>Txn/TxnQueue.c\<close>: functional drivers open queues by priority, their
  transactions are sent to the bus driver one at a time, and completed ones are reported to the
  driver's callback. A transaction is its address; its structure is in the memory \<open>txnMem\<close>. A queue
  is the list of its items, oldest first (theory \<open>WlQueue\<close> shows that the pointer queue is one), and
  \<open>None\<close> before it is created. The bus driver is a parameter: its answer to the transactions sent so
  far. The client is a parameter too: the transactions that a callback submits. The logs \<open>accLog\<close>
  (accepted), \<open>busLog\<close> (sent), \<open>cbLog\<close> (reported), \<open>retLog\<close> (completed in the caller's context) and
  \<open>dropLog\<close> only record what happens; no operation reads them.
\<close>

section \<open>Data\<close>

datatype EFuncState = FUNC_STATE_NONE | FUNC_STATE_STOPPED | FUNC_STATE_RUNNING | FUNC_STATE_RESTART

record TFuncInfo =
  eState :: EFuncState
  uNumPrios :: TI_UINT32
  fTxnQueueDoneCb :: addr
  fi_hCbHandle :: addr
  pSingleStep :: "addr option"

record TTxnQObj =
  aFuncInfo :: "TFuncInfo list"
  aTxnQueues :: "addr list option list list"
  hTxnDoneQueue :: "addr list option"
  pCurrTxn :: "addr option"
  uMinFuncId :: nat
  uMaxFuncId :: nat
  bSchedulerBusy :: bool
  bSchedulerPend :: bool
  fConnectCb :: addr
  hConnectCb :: addr
  pAggregQueue :: "(nat \<times> nat) option"
  txnMem :: "addr \<Rightarrow> TTxnStruct"
  accLog :: "addr list"
  busLog :: "addr list"
  cbLog :: "addr list"
  retLog :: "addr list"
  dropLog :: "addr list"

definition MAX_FUNCTIONS :: nat where "MAX_FUNCTIONS = 4"
definition MAX_PRIORITY :: nat where "MAX_PRIORITY = 2"
definition TXN_QUE_SIZE :: nat where "TXN_QUE_SIZE = unat QUE_UNLIMITED_SIZE"

definition no_func :: TFuncInfo where
  "no_func = \<lparr>eState = FUNC_STATE_NONE, uNumPrios = 0, fTxnQueueDoneCb = 0, fi_hCbHandle = 0, pSingleStep = None\<rparr>"

definition func_info :: "TTxnQObj \<Rightarrow> nat \<Rightarrow> TFuncInfo" where
  "func_info q f = (if f < length (aFuncInfo q) then aFuncInfo q ! f else no_func)"

definition upd_func :: "nat \<Rightarrow> (TFuncInfo \<Rightarrow> TFuncInfo) \<Rightarrow> TTxnQObj \<Rightarrow> TTxnQObj" where
  "upd_func f g q = q\<lparr>aFuncInfo := (aFuncInfo q)[f := g (func_info q f)]\<rparr>"

definition txn_queue :: "TTxnQObj \<Rightarrow> nat \<Rightarrow> nat \<Rightarrow> addr list option" where
  "txn_queue q f p = (if f < length (aTxnQueues q) \<and> p < length (aTxnQueues q ! f) then aTxnQueues q ! f ! p else None)"

definition set_queue :: "nat \<Rightarrow> nat \<Rightarrow> addr list option \<Rightarrow> TTxnQObj \<Rightarrow> TTxnQObj" where
  "set_queue f p h q = q\<lparr>aTxnQueues := (aTxnQueues q)[f := (aTxnQueues q ! f)[p := h]]\<rparr>"

text \<open>The items of a handle; a null handle has none.\<close>

definition items_h :: "addr list option \<Rightarrow> addr list" where
  "items_h h = (case h of None \<Rightarrow> [] | Some xs \<Rightarrow> xs)"

definition queued :: "TTxnQObj \<Rightarrow> addr list" where
  "queued q = concat (map (\<lambda>qs. concat (map items_h qs)) (aTxnQueues q))"

text \<open>
  Enqueue and dequeue on a handle. All the module's queues link a transaction through the same node
  (\<open>tTxnQNode\<close>), so an item that is in any of them is refused.
\<close>

definition enq_h :: "bool \<Rightarrow> addr list option \<Rightarrow> addr \<Rightarrow> TI_STATUS \<times> addr list option" where
  "enq_h is_linked h t = (case h of None \<Rightarrow> (TI_NOK, None)
     | Some xs \<Rightarrow> if is_linked then (TI_NOK, Some xs)
         else (let (st, ys) = fifo_enq TXN_QUE_SIZE xs t in (st, Some ys)))"

definition deq_h :: "addr list option \<Rightarrow> addr option \<times> addr list option" where
  "deq_h h = (case h of None \<Rightarrow> (None, None) | Some xs \<Rightarrow> (let (r, ys) = fifo_deq xs in (r, Some ys)))"

definition linked_txn :: "TTxnQObj \<Rightarrow> addr \<Rightarrow> bool" where
  "linked_txn q t \<longleftrightarrow> t \<in> set (queued q) \<or> t \<in> set (items_h (hTxnDoneQueue q))"

abbreviation txn_func :: "TTxnQObj \<Rightarrow> addr \<Rightarrow> nat" where
  "txn_func q t \<equiv> unat (TXN_PARAM_GET_FUNC_ID (txnMem q t))"
abbreviation txn_prio :: "TTxnQObj \<Rightarrow> addr \<Rightarrow> nat" where
  "txn_prio q t \<equiv> unat (TXN_PARAM_GET_PRIORITY (txnMem q t))"

section \<open>Creation and registration\<close>

definition txnQ_Create :: "bool \<Rightarrow> bool \<Rightarrow> (addr \<Rightarrow> TTxnStruct) \<Rightarrow> TTxnQObj option" where
  "txnQ_Create alloc_ok busDrv_ok mem =
     (if \<not> alloc_ok then None
      else if \<not> busDrv_ok then None
      else Some \<lparr>aFuncInfo = replicate MAX_FUNCTIONS no_func,
        aTxnQueues = replicate MAX_FUNCTIONS (replicate MAX_PRIORITY None), hTxnDoneQueue = None, pCurrTxn = None,
        uMinFuncId = MAX_FUNCTIONS, uMaxFuncId = 0, bSchedulerBusy = False, bSchedulerPend = False,
        fConnectCb = 0, hConnectCb = 0, pAggregQueue = None, txnMem = mem, accLog = [], busLog = [], cbLog = [], retLog = [], dropLog = []\<rparr>)"

definition txnQ_Destroy :: "TTxnQObj option \<Rightarrow> TI_STATUS \<times> TTxnQObj option" where
  "txnQ_Destroy h = (TI_OK, None)"

definition txnQ_Init :: "bool \<Rightarrow> TTxnQObj \<Rightarrow> TTxnQObj" where
  "txnQ_Init que_ok q = q\<lparr>hTxnDoneQueue := (if que_ok then Some [] else None)\<rparr>"

text \<open>The bus driver's answer \<open>st\<close> is returned; it calls \<open>fConnectCb\<close> when the connection is done.\<close>

definition txnQ_ConnectBus :: "addr \<Rightarrow> addr \<Rightarrow> TI_STATUS \<Rightarrow> TTxnQObj \<Rightarrow> TI_STATUS \<times> TTxnQObj" where
  "txnQ_ConnectBus cb hCb st q = (st, q\<lparr>fConnectCb := cb, hConnectCb := hCb\<rparr>)"

text \<open>\<open>que_ok i\<close> tells whether the allocation of queue \<open>i\<close> succeeds.\<close>

fun open_queues :: "nat \<Rightarrow> (nat \<Rightarrow> bool) \<Rightarrow> nat list \<Rightarrow> TTxnQObj \<Rightarrow> bool \<times> TTxnQObj" where
  "open_queues f que_ok [] q = (True, q)"
| "open_queues f que_ok (i # is) q =
     (if que_ok i then open_queues f que_ok is (set_queue f i (Some []) q)
      else (False, set_queue f i None q))"

definition txnQ_Open :: "nat \<Rightarrow> TI_UINT32 \<Rightarrow> addr \<Rightarrow> addr \<Rightarrow> (nat \<Rightarrow> bool) \<Rightarrow> TTxnQObj \<Rightarrow> TI_STATUS \<times> TTxnQObj" where
  "txnQ_Open uFuncId numPrios cb hCb que_ok q =
     (if uFuncId \<ge> MAX_FUNCTIONS \<or> unat numPrios > MAX_PRIORITY then (TI_NOK, q)
      else
        (let q = upd_func uFuncId (\<lambda>fi. fi\<lparr>uNumPrios := numPrios, fTxnQueueDoneCb := cb, fi_hCbHandle := hCb,
                   eState := FUNC_STATE_STOPPED\<rparr>) q;
             (ok, q) = open_queues uFuncId que_ok [0..<unat numPrios] q
         in if \<not> ok then (TI_NOK, q)
            else
              (let q = (if uFuncId < uMinFuncId q then q\<lparr>uMinFuncId := uFuncId\<rparr> else q);
                   q = (if uFuncId > uMaxFuncId q then q\<lparr>uMaxFuncId := uFuncId\<rparr> else q)
               in (TI_OK, q))))"

text \<open>A destroyed queue is \<open>None\<close>: the code leaves the freed address behind, which nothing may use.\<close>

definition close_queue :: "nat \<Rightarrow> TTxnQObj \<Rightarrow> nat \<Rightarrow> TTxnQObj" where
  "close_queue f q i = (set_queue f i None q)\<lparr>dropLog := dropLog q @ items_h (txn_queue q f i)\<rparr>"

definition open_ids :: "TTxnQObj \<Rightarrow> nat list" where
  "open_ids q = filter (\<lambda>i. eState (func_info q i) \<noteq> FUNC_STATE_NONE) [0..<MAX_FUNCTIONS]"

definition txnQ_Close :: "nat \<Rightarrow> TTxnQObj \<Rightarrow> TTxnQObj" where
  "txnQ_Close uFuncId q =
     (let q = foldl (close_queue uFuncId) q [0..<unat (uNumPrios (func_info q uFuncId))];
          q = upd_func uFuncId (\<lambda>fi. fi\<lparr>uNumPrios := 0, fTxnQueueDoneCb := 0, fi_hCbHandle := 0,
                eState := FUNC_STATE_NONE\<rparr>) q;
          q = q\<lparr>uMinFuncId := MAX_FUNCTIONS, uMaxFuncId := 0\<rparr>
      in foldl (\<lambda>q i.
           (let q = (if i < uMinFuncId q then q\<lparr>uMinFuncId := i\<rparr> else q)
            in if i > uMaxFuncId q then q\<lparr>uMaxFuncId := i\<rparr> else q)) q (open_ids q))"

section \<open>Clearing a function's queues\<close>

text \<open>One round of the loop over the priorities: the queue is emptied and no callback is made.\<close>

definition clear_queue :: "nat \<Rightarrow> TTxnQObj \<Rightarrow> nat \<Rightarrow> TTxnQObj" where
  "clear_queue f q i = (case txn_queue q f i of None \<Rightarrow> q
     | Some xs \<Rightarrow> (set_queue f i (Some []) q)\<lparr>dropLog := dropLog q @ xs\<rparr>)"

definition drop_single :: "nat \<Rightarrow> TTxnQObj \<Rightarrow> TTxnQObj" where
  "drop_single f q = (case pSingleStep (func_info q f) of None \<Rightarrow> q | Some t \<Rightarrow> q\<lparr>dropLog := dropLog q @ [t]\<rparr>)"

definition txnQ_ClearQueues :: "nat \<Rightarrow> TTxnQObj \<Rightarrow> TTxnQObj" where
  "txnQ_ClearQueues uFuncId q =
     (let q = upd_func uFuncId (\<lambda>fi. fi\<lparr>pSingleStep := None\<rparr>) (drop_single uFuncId q);
          q = foldl (clear_queue uFuncId) q [0..<unat (uNumPrios (func_info q uFuncId))]
      in upd_func uFuncId (\<lambda>fi. fi\<lparr>eState := FUNC_STATE_RUNNING\<rparr>) q)"

section \<open>Selection\<close>

fun sel_single :: "nat list \<Rightarrow> TTxnQObj \<Rightarrow> (addr \<times> TTxnQObj) option" where
  "sel_single [] q = None"
| "sel_single (f # fs) q = (case pSingleStep (func_info q f) of
       Some t \<Rightarrow> Some (t, upd_func f (\<lambda>fi. fi\<lparr>pSingleStep := None\<rparr>) q)
     | None \<Rightarrow> sel_single fs q)"

fun sel_prio :: "(nat \<times> nat) list \<Rightarrow> TTxnQObj \<Rightarrow> (addr \<times> TTxnQObj) option" where
  "sel_prio [] q = None"
| "sel_prio ((p, f) # r) q =
     (if eState (func_info q f) = FUNC_STATE_RUNNING \<and> unat (uNumPrios (func_info q f)) > p then
        (case deq_h (txn_queue q f p) of
           (Some t, h) \<Rightarrow>
             (let q = set_queue f p h q
              in Some (t, if TXN_PARAM_GET_AGGREGATE (txnMem q t) = TXN_AGGREGATE_ON
                          then q\<lparr>pAggregQueue := Some (f, p)\<rparr> else q))
         | (None, _) \<Rightarrow> sel_prio r q)
      else sel_prio r q)"

definition func_range :: "TTxnQObj \<Rightarrow> nat list" where
  "func_range q = [uMinFuncId q..<Suc (uMaxFuncId q)]"

definition prio_range :: "TTxnQObj \<Rightarrow> (nat \<times> nat) list" where
  "prio_range q = List.product [0..<MAX_PRIORITY] (func_range q)"

definition txnQ_SelectTxn :: "TTxnQObj \<Rightarrow> (addr \<times> TTxnQObj) option" where
  "txnQ_SelectTxn q =
     (case pAggregQueue q of
        Some (f, p) \<Rightarrow>
          (case deq_h (txn_queue q f p) of
             (Some t, h) \<Rightarrow>
               (let q = set_queue f p h q
                in Some (t, if TXN_PARAM_GET_AGGREGATE (txnMem q t) = TXN_AGGREGATE_OFF
                            then q\<lparr>pAggregQueue := None\<rparr> else q))
           | (None, _) \<Rightarrow> None)
      | None \<Rightarrow>
          (case sel_single (func_range q) q of Some r \<Rightarrow> Some r
           | None \<Rightarrow> sel_prio (prio_range q) q))"

section \<open>Submitting\<close>

text \<open>The first half of \<open>txnQ_Transact\<close>: \<open>False\<close> when the transaction was not accepted.\<close>

definition txn_submit :: "addr \<Rightarrow> TTxnQObj \<Rightarrow> bool \<times> TTxnQObj" where
  "txn_submit t q =
     (let f = txn_func q t; p = txn_prio q t
      in if TXN_PARAM_GET_SINGLE_STEP (txnMem q t) \<noteq> 0
         then (True, (upd_func f (\<lambda>fi. fi\<lparr>pSingleStep := Some t\<rparr>) (drop_single f q))\<lparr>accLog := accLog q @ [t]\<rparr>)
         else (let (st, h) = enq_h (linked_txn q t) (txn_queue q f p) t
               in if st = TI_OK then (True, (set_queue f p h q)\<lparr>accLog := accLog q @ [t]\<rparr>) else (False, q)))"

text \<open>
  What a callback submits while the scheduler is busy: each accepted transaction marks the scheduler
  pending, a refused one returns before it gets there.
\<close>

fun busy_submits :: "addr list \<Rightarrow> TTxnQObj \<Rightarrow> TTxnQObj" where
  "busy_submits [] q = q"
| "busy_submits (t # ts) q = busy_submits ts
     (let (ok, q) = txn_submit t q in if ok then q\<lparr>bSchedulerPend := True\<rparr> else q)"

text \<open>
  What the callback of a restart submits: the scheduler is idle, finds the bus occupied and returns.
\<close>

fun idle_submits :: "addr list \<Rightarrow> TTxnQObj \<Rightarrow> TTxnQObj" where
  "idle_submits [] q = q"
| "idle_submits (t # ts) q = idle_submits ts (snd (txn_submit t q))"

section \<open>What waits to be sent\<close>

definition singles :: "TTxnQObj \<Rightarrow> addr list" where
  "singles q = concat (map (\<lambda>fi. case pSingleStep fi of None \<Rightarrow> [] | Some t \<Rightarrow> [t]) (aFuncInfo q))"

definition waiting :: "TTxnQObj \<Rightarrow> addr multiset" where
  "waiting q = mset (queued q) + mset (singles q)"

lemma mset_queued: "mset (queued q) = sum_list (map (\<lambda>qs. sum_list (map (\<lambda>h. mset (items_h h)) qs)) (aTxnQueues q))"
  by (simp add: queued_def mset_concat comp_def)

lemma mset_singles:
  "mset (singles q) = sum_list (map (\<lambda>fi. mset (case pSingleStep fi of None \<Rightarrow> [] | Some t \<Rightarrow> [t])) (aFuncInfo q))"
  by (simp add: singles_def mset_concat comp_def)

lemma queued_set_range:
  assumes "f < length (aTxnQueues q)" "p < length (aTxnQueues q ! f)"
  shows "mset (queued (set_queue f p h q)) + mset (items_h (txn_queue q f p)) = mset (queued q) + mset (items_h h)"
proof -
  have f: "f < length (aTxnQueues q)" "p < length (aTxnQueues q ! f)" "txn_queue q f p = aTxnQueues q ! f ! p"
    using assms by (auto simp: txn_queue_def)
  let ?g = "\<lambda>qs. sum_list (map (\<lambda>h. mset (items_h h)) qs)"
  have A: "?g ((aTxnQueues q ! f)[p := h]) + mset (items_h (txn_queue q f p)) = ?g (aTxnQueues q ! f) + mset (items_h h)"
    using sum_list_map_update [OF f(2), of "\<lambda>h. mset (items_h h)" h] f(3) by simp
  have B: "mset (queued (set_queue f p h q)) + ?g (aTxnQueues q ! f) = mset (queued q) + ?g ((aTxnQueues q ! f)[p := h])"
    using sum_list_map_update [OF f(1), of ?g "(aTxnQueues q ! f)[p := h]"] by (simp add: mset_queued set_queue_def)
  let ?x = "?g (aTxnQueues q ! f)" and ?x' = "?g ((aTxnQueues q ! f)[p := h])" and ?a = "mset (items_h (txn_queue q f p))"
  have "mset (queued (set_queue f p h q)) + ?x + ?a = mset (queued q) + (?x' + ?a)" unfolding B by (rule add.assoc)
  then have "(mset (queued (set_queue f p h q)) + ?a) + ?x = (mset (queued q) + mset (items_h h)) + ?x"
    unfolding A by (simp only: ac_simps)
  then show ?thesis by (rule add_right_imp_eq)
qed

lemma queued_set_queue:
  assumes "txn_queue q f p \<noteq> None"
  shows "mset (queued (set_queue f p h q)) + mset (items_h (txn_queue q f p)) = mset (queued q) + mset (items_h h)"
  using assms by (intro queued_set_range) (auto simp: txn_queue_def split: if_splits)

lemma queued_set_empty:
  assumes "items_h h = []" "items_h (txn_queue q f p) = []"
  shows "mset (queued (set_queue f p h q)) = mset (queued q)"
proof (cases "f < length (aTxnQueues q) \<and> p < length (aTxnQueues q ! f)")
  case True
  with queued_set_range [of f q p h] assms show ?thesis by simp
next
  case False
  then have "set_queue f p h q = q" by (auto simp: set_queue_def list_update_beyond)
  then show ?thesis by simp
qed

lemma singles_upd_func:
  "mset (singles (upd_func f g q)) + mset (case pSingleStep (func_info q f) of None \<Rightarrow> [] | Some t \<Rightarrow> [t]) =
   mset (singles q) + (if f < length (aFuncInfo q) then mset (case pSingleStep (g (func_info q f)) of None \<Rightarrow> [] | Some t \<Rightarrow> [t]) else {#})"
proof (cases "f < length (aFuncInfo q)")
  case True
  from sum_list_map_update [OF this, of "\<lambda>fi. mset (case pSingleStep fi of None \<Rightarrow> [] | Some t \<Rightarrow> [t])" "g (func_info q f)"]
  show ?thesis using True by (simp add: mset_singles upd_func_def func_info_def)
next
  case False
  then show ?thesis by (simp add: mset_singles upd_func_def func_info_def no_func_def list_update_beyond)
qed

lemma queue_frames [simp]:
  "queued (upd_func f g q) = queued q" "singles (set_queue f p h q) = singles q"
  "queued (q\<lparr>pAggregQueue := a\<rparr>) = queued q" "singles (q\<lparr>pAggregQueue := a\<rparr>) = singles q"
  by (simp_all add: queued_def singles_def upd_func_def set_queue_def)

lemma deq_h_some: "deq_h h = (Some t, h') \<Longrightarrow> items_h h = t # items_h h' \<and> h \<noteq> None \<and> h' \<noteq> None"
  by (cases h; cases "the h") (auto simp: deq_h_def items_h_def)

lemma deq_h_none: "deq_h h = (None, h') \<longleftrightarrow> items_h h = [] \<and> h' = h"
  by (cases h; cases "the h") (auto simp: deq_h_def items_h_def)

lemma sel_single_waiting:
  "sel_single fs q = Some (t, q') \<Longrightarrow> mset (singles q) = add_mset t (mset (singles q')) \<and> queued q' = queued q"
proof (induction fs)
  case (Cons f fs)
  show ?case
  proof (cases "pSingleStep (func_info q f)")
    case (Some x)
    have "f < length (aFuncInfo q)" using Some by (auto simp: func_info_def no_func_def split: if_splits)
    with Some Cons.prems singles_upd_func [of f "\<lambda>fi. fi\<lparr>pSingleStep := None\<rparr>" q] show ?thesis by auto
  qed (use Cons in simp)
qed simp

lemma set_queue_waiting:
  assumes "deq_h (txn_queue q f p) = (Some t, h)"
  shows "mset (queued q) = add_mset t (mset (queued (set_queue f p h q)))"
  using deq_h_some [OF assms] queued_set_queue [of q f p h] by simp

lemma sel_prio_waiting:
  "sel_prio r q = Some (t, q') \<Longrightarrow> mset (queued q) = add_mset t (mset (queued q')) \<and> singles q' = singles q"
proof (induction r q rule: sel_prio.induct)
  case (2 p f r q)
  show ?case
  proof (cases "eState (func_info q f) = FUNC_STATE_RUNNING \<and> unat (uNumPrios (func_info q f)) > p")
    case True
    obtain x h where d: "deq_h (txn_queue q f p) = (x, h)" by force
    show ?thesis
    proof (cases x)
      case None
      with 2 True d show ?thesis by auto
    next
      case (Some y)
      with 2 True d set_queue_waiting [of q f p y h] show ?thesis by (auto simp: Let_def)
    qed
  qed (use 2 in auto)
qed simp

lemma select_waiting:
  assumes "txnQ_SelectTxn q = Some (t, q')"
  shows "waiting q = add_mset t (waiting q')"
proof (cases "pAggregQueue q")
  case None
  show ?thesis
  proof (cases "sel_single (func_range q) q")
    case None
    with assms \<open>pAggregQueue q = None\<close> have "sel_prio (prio_range q) q = Some (t, q')" by (simp add: txnQ_SelectTxn_def)
    from sel_prio_waiting [OF this] show ?thesis by (simp add: waiting_def)
  next
    case (Some r)
    with assms \<open>pAggregQueue q = None\<close> have "sel_single (func_range q) q = Some (t, q')" by (simp add: txnQ_SelectTxn_def)
    from sel_single_waiting [OF this] show ?thesis by (simp add: waiting_def)
  qed
next
  case (Some fp)
  obtain f p where fp: "fp = (f, p)" by force
  obtain x h where d: "deq_h (txn_queue q f p) = (x, h)" by force
  with assms Some fp obtain y where y: "x = Some y" by (cases x) (auto simp: txnQ_SelectTxn_def)
  from set_queue_waiting [of q f p y h] d y assms Some fp show ?thesis
    by (auto simp: txnQ_SelectTxn_def waiting_def Let_def)
qed

section \<open>The scheduler\<close>

text \<open>
  The first loop: send while something is selected and the bus driver completes it at once. The
  result is the status of the input transaction. \<open>busDrv_Transact\<close> answers from the transactions sent
  so far, the last of them being the new one.
\<close>

definition done_enqueue :: "addr \<Rightarrow> TTxnQObj \<Rightarrow> TTxnQObj" where
  "done_enqueue t q =
     (let (st, h) = enq_h (linked_txn q t) (hTxnDoneQueue q) t
      in if st = TI_OK then q\<lparr>hTxnDoneQueue := h\<rparr> else q\<lparr>hTxnDoneQueue := h, dropLog := dropLog q @ [t]\<rparr>)"

definition send_txn :: "addr \<Rightarrow> TTxnQObj \<Rightarrow> TTxnQObj" where
  "send_txn t q = q\<lparr>pCurrTxn := Some t, busLog := busLog q @ [t]\<rparr>"

definition complete_txn :: "addr option \<Rightarrow> addr \<Rightarrow> TTxnQObj \<Rightarrow> TTxnQObj" where
  "complete_txn pInputTxn t q =
     (let q = q\<lparr>pCurrTxn := None\<rparr>
      in if Some t \<noteq> pInputTxn then done_enqueue t q else q\<lparr>retLog := retLog q @ [t]\<rparr>)"

lemma waiting_frames [simp]:
  "waiting (send_txn t q) = waiting q" "waiting (complete_txn i t q) = waiting q" "waiting (done_enqueue t q) = waiting q"
  by (simp_all add: waiting_def queued_def singles_def send_txn_def complete_txn_def done_enqueue_def Let_def split_beta)

function send_loop :: "(addr list \<Rightarrow> ETxnStatus) \<Rightarrow> addr option \<Rightarrow> ETxnStatus \<Rightarrow> TTxnQObj \<Rightarrow> ETxnStatus \<times> TTxnQObj" where
  "send_loop busDrv_Transact pInputTxn eInputTxnStatus q =
     (case txnQ_SelectTxn q of
        None \<Rightarrow> (eInputTxnStatus, q)
      | Some (t, q1) \<Rightarrow>
          (let q2 = send_txn t q1;
               eStatus = busDrv_Transact (busLog q2);
               eInputTxnStatus = (if Some t = pInputTxn then eStatus else eInputTxnStatus)
           in if eStatus \<noteq> TXN_STATUS_PENDING
              then send_loop busDrv_Transact pInputTxn eInputTxnStatus (complete_txn pInputTxn t q2)
              else (eInputTxnStatus, q2)))"
  by pat_completeness auto
termination
  by (relation "measure (\<lambda>(_, _, _, q). size (waiting q))") (auto dest!: select_waiting)

declare send_loop.simps [simp del]

text \<open>
  The second loop: report the completed transactions. \<open>client\<close> answers with the transactions that a
  callback submits, from the transactions reported so far.
\<close>

definition report_txn :: "(addr list \<Rightarrow> addr list) \<Rightarrow> addr \<Rightarrow> TTxnQObj \<Rightarrow> TTxnQObj" where
  "report_txn client t q =
     (let q = q\<lparr>cbLog := cbLog q @ [t]\<rparr> in busy_submits (client (cbLog q)) q)"

lemma submit_done [simp]: "hTxnDoneQueue (snd (txn_submit t q)) = hTxnDoneQueue q"
  by (simp add: txn_submit_def Let_def split_beta upd_func_def set_queue_def drop_single_def split: option.splits)

lemma busy_submits_done [simp]: "hTxnDoneQueue (busy_submits ts q) = hTxnDoneQueue q"
proof (induction ts arbitrary: q)
  case (Cons t ts)
  then show ?case using submit_done [of t q] by (simp add: Let_def split_beta)
qed simp

function done_loop :: "(addr list \<Rightarrow> addr list) \<Rightarrow> TTxnQObj \<Rightarrow> TTxnQObj" where
  "done_loop client q =
     (case deq_h (hTxnDoneQueue q) of
        (None, _) \<Rightarrow> q
      | (Some t, h) \<Rightarrow> done_loop client (report_txn client t (q\<lparr>hTxnDoneQueue := h\<rparr>)))"
  by pat_completeness auto
termination
  by (relation "measure (\<lambda>(_, q). length (items_h (hTxnDoneQueue q)))")
    (auto simp: report_txn_def Let_def dest!: deq_h_some [OF sym])

declare done_loop.simps [simp del]

definition txnQ_Scheduler ::
  "(addr list \<Rightarrow> ETxnStatus) \<Rightarrow> (addr list \<Rightarrow> addr list) \<Rightarrow> addr option \<Rightarrow> TTxnQObj \<Rightarrow> ETxnStatus \<times> TTxnQObj" where
  "txnQ_Scheduler bus client pInputTxn q =
     (if pCurrTxn q \<noteq> None then (TXN_STATUS_PENDING, q)
      else (let (st, q) = send_loop bus pInputTxn TXN_STATUS_PENDING q in (st, done_loop client q)))"

text \<open>The scheduler runs again as long as a callback asked for it; it may do so for ever.\<close>

partial_function (option) run_again ::
  "(addr list \<Rightarrow> ETxnStatus) \<Rightarrow> (addr list \<Rightarrow> addr list) \<Rightarrow> TTxnQObj \<Rightarrow> TTxnQObj option" where
  "run_again bus client q =
     (if \<not> bSchedulerPend q then Some (q\<lparr>bSchedulerBusy := False\<rparr>)
      else run_again bus client (snd (txnQ_Scheduler bus client None (q\<lparr>bSchedulerPend := False\<rparr>))))"

definition txnQ_RunScheduler ::
  "(addr list \<Rightarrow> ETxnStatus) \<Rightarrow> (addr list \<Rightarrow> addr list) \<Rightarrow> addr option \<Rightarrow> TTxnQObj \<Rightarrow> (ETxnStatus \<times> TTxnQObj) option" where
  "txnQ_RunScheduler bus client pInputTxn q =
     (if bSchedulerBusy q then Some (TXN_STATUS_PENDING, q\<lparr>bSchedulerPend := True\<rparr>)
      else (let (st, q) = txnQ_Scheduler bus client pInputTxn (q\<lparr>bSchedulerBusy := True\<rparr>)
            in map_option (\<lambda>q. (st, q)) (run_again bus client q)))"

section \<open>The external functions that use the scheduler\<close>

definition txnQ_Transact ::
  "(addr list \<Rightarrow> ETxnStatus) \<Rightarrow> (addr list \<Rightarrow> addr list) \<Rightarrow> addr \<Rightarrow> TTxnQObj \<Rightarrow> (ETxnStatus \<times> TTxnQObj) option" where
  "txnQ_Transact bus client t q =
     (let (ok, q) = txn_submit t q
      in if ok then txnQ_RunScheduler bus client (Some t) q else Some (TXN_STATUS_ERROR, q))"

definition txnQ_Run ::
  "(addr list \<Rightarrow> ETxnStatus) \<Rightarrow> (addr list \<Rightarrow> addr list) \<Rightarrow> nat \<Rightarrow> TTxnQObj \<Rightarrow> TTxnQObj option" where
  "txnQ_Run bus client uFuncId q =
     map_option snd (txnQ_RunScheduler bus client None (upd_func uFuncId (\<lambda>fi. fi\<lparr>eState := FUNC_STATE_RUNNING\<rparr>) q))"

definition txnQ_Stop :: "nat \<Rightarrow> TTxnQObj \<Rightarrow> TTxnQObj" where
  "txnQ_Stop uFuncId q = upd_func uFuncId (\<lambda>fi. fi\<lparr>eState := FUNC_STATE_STOPPED\<rparr>) q"

definition txnQ_Restart :: "nat \<Rightarrow> TTxnQObj \<Rightarrow> ETxnStatus \<times> TTxnQObj" where
  "txnQ_Restart uFuncId q =
     (case pCurrTxn q of
        Some t \<Rightarrow>
          if txn_func q t = uFuncId
          then (TXN_STATUS_PENDING, upd_func uFuncId (\<lambda>fi. fi\<lparr>eState := FUNC_STATE_RESTART\<rparr>) q)
          else (TXN_STATUS_COMPLETE, txnQ_ClearQueues uFuncId q)
      | None \<Rightarrow> (TXN_STATUS_COMPLETE, txnQ_ClearQueues uFuncId q))"

definition txnQ_TxnDoneCb ::
  "(addr list \<Rightarrow> ETxnStatus) \<Rightarrow> (addr list \<Rightarrow> addr list) \<Rightarrow> addr \<Rightarrow> TTxnQObj \<Rightarrow> TTxnQObj option" where
  "txnQ_TxnDoneCb bus client t q =
     (let f = txn_func q t;
          q = (if eState (func_info q f) = FUNC_STATE_RESTART then
                 (let q = txnQ_ClearQueues f q;
                      q = q\<lparr>txnMem := (txnMem q)(t := TXN_PARAM_SET_STATUS TXN_PARAM_STATUS_RECOVERY (txnMem q t)),
                            cbLog := cbLog q @ [t]\<rparr>
                  in idle_submits (client (cbLog q)) q)
               else done_enqueue t q);
          q = q\<lparr>pCurrTxn := None\<rparr>
      in map_option snd (txnQ_RunScheduler bus client None q))"

end
