(* ===== verification/WlTxnInv.thy ===== *)
theory WlTxnInv
  imports WlTxnQueue
begin

text \<open>
  What the transaction queue keeps: an invariant of its small steps is one of the scheduler and of
  every external function (locale \<open>txn_inv\<close>), interpreted for the accounts of the transactions and
  for their order.
\<close>

section \<open>Invariants of the small steps\<close>

text \<open>
  The contract of an invariant: selecting and sending, completing, submitting, reporting, clearing
  and the state changes keep it. The flags of the scheduler have no part in it.
\<close>

locale txn_inv =
  fixes I :: "TTxnQObj \<Rightarrow> bool"
  assumes I_send: "I q \<Longrightarrow> pCurrTxn q = None \<Longrightarrow> txnQ_SelectTxn q = Some (t, q1) \<Longrightarrow> I (send_txn t q1)"
    and I_complete: "I q \<Longrightarrow> pCurrTxn q = Some t \<Longrightarrow> I (complete_txn inp t q)"
    and I_done: "I q \<Longrightarrow> pCurrTxn q = Some t \<Longrightarrow> I ((done_enqueue t q)\<lparr>pCurrTxn := None\<rparr>)"
    and I_submit: "I q \<Longrightarrow> I (snd (txn_submit t q))"
    and I_report: "I q \<Longrightarrow> deq_h (hTxnDoneQueue q) = (Some t, h) \<Longrightarrow>
      I (q\<lparr>hTxnDoneQueue := h, cbLog := cbLog q @ [t]\<rparr>)"
    and I_recover: "I q \<Longrightarrow> pCurrTxn q = Some t \<Longrightarrow>
      I (q\<lparr>txnMem := (txnMem q)(t := TXN_PARAM_SET_STATUS TXN_PARAM_STATUS_RECOVERY (txnMem q t)),
           cbLog := cbLog q @ [t], pCurrTxn := None\<rparr>)"
    and I_busy: "I (q\<lparr>bSchedulerBusy := b\<rparr>) = I q"
    and I_pend: "I (q\<lparr>bSchedulerPend := b\<rparr>) = I q"
    and I_state: "s \<noteq> FUNC_STATE_NONE \<Longrightarrow> I q \<Longrightarrow> I (upd_func f (\<lambda>fi. fi\<lparr>eState := s\<rparr>) q)"
    and I_clear: "I q \<Longrightarrow> I (txnQ_ClearQueues f q)"
begin

lemma I_send_loop:
  "I q \<Longrightarrow> pCurrTxn q = None \<Longrightarrow> I (snd (send_loop bus inp st q))"
proof (induction bus inp st q rule: send_loop.induct)
  case (1 bus inp st q)
  show ?case
  proof (cases "txnQ_SelectTxn q")
    case None
    with 1 show ?thesis by (simp add: send_loop.simps [of bus inp st q])
  next
    case (Some r)
    obtain t q1 where r: "r = (t, q1)" by force
    have s: "I (send_txn t q1)" using I_send 1(2,3) Some r by blast
    have c: "pCurrTxn (send_txn t q1) = Some t" by (simp add: send_txn_def)
    have n: "pCurrTxn (complete_txn inp t (send_txn t q1)) = None"
      by (simp add: complete_txn_def done_enqueue_def Let_def split_beta)
    show ?thesis
    proof (cases "bus (busLog (send_txn t q1)) = TXN_STATUS_PENDING")
      case True
      with s Some r show ?thesis by (simp add: send_loop.simps [of bus inp st q] Let_def)
    next
      case False
      from 1(1) [OF Some r [symmetric] refl refl refl False [unfolded not_not] I_complete [OF s c] n] False Some r
      show ?thesis by (simp add: send_loop.simps [of bus inp st q] Let_def)
    qed
  qed
qed

lemma I_busy_submits: "I q \<Longrightarrow> I (busy_submits ts q)"
proof (induction ts arbitrary: q)
  case (Cons t ts)
  then show ?case using I_submit [of q t] I_pend by (simp add: Let_def split_beta)
qed simp

lemma I_idle_submits: "I q \<Longrightarrow> I (idle_submits ts q)"
  by (induction ts arbitrary: q) (simp_all add: I_submit)

lemma I_report_txn:
  assumes "I q" "deq_h (hTxnDoneQueue q) = (Some t, h)"
  shows "I (report_txn client t (q\<lparr>hTxnDoneQueue := h\<rparr>))"
  using I_busy_submits [OF I_report [OF assms]] by (simp add: report_txn_def Let_def)

lemma I_done_loop: "I q \<Longrightarrow> I (done_loop client q)"
proof (induction client q rule: done_loop.induct)
  case (1 client q)
  obtain r h where d: "deq_h (hTxnDoneQueue q) = (r, h)" by force
  show ?case
  proof (cases r)
    case None
    with 1(2) d show ?thesis by (simp add: done_loop.simps [of client q])
  next
    case (Some t)
    with d have d': "deq_h (hTxnDoneQueue q) = (Some t, h)" by simp
    from 1(1) [OF d' [symmetric] refl I_report_txn [OF 1(2) d']] d' show ?thesis
      by (simp add: done_loop.simps [of client q])
  qed
qed

lemma I_Scheduler: "I q \<Longrightarrow> I (snd (txnQ_Scheduler bus client inp q))"
  using I_done_loop [OF I_send_loop [of q bus inp TXN_STATUS_PENDING]]
  by (auto simp: txnQ_Scheduler_def split_beta)

lemma I_run_again: "run_again bus client q = Some q' \<Longrightarrow> I q \<Longrightarrow> I q'"
proof (induction rule: run_again.raw_induct [rotated 1, consumes 1])
  case (1 f bus client q q')
  show ?case
  proof (cases "bSchedulerPend q")
    case True
    with 1(2) have "f bus client (snd (txnQ_Scheduler bus client None (q\<lparr>bSchedulerPend := False\<rparr>))) = Some q'" by simp
    from 1(1) [OF this] 1(3) I_Scheduler I_pend show ?thesis by blast
  next
    case False
    with 1(2,3) I_busy show ?thesis by auto
  qed
qed

lemma I_RunScheduler: "I q \<Longrightarrow> txnQ_RunScheduler bus client inp q = Some (st, q') \<Longrightarrow> I q'"
  using I_Scheduler [of "q\<lparr>bSchedulerBusy := True\<rparr>" bus client inp] I_run_again I_busy I_pend
  by (auto simp: txnQ_RunScheduler_def Let_def split_beta split: if_splits)

lemma I_Transact: "I q \<Longrightarrow> txnQ_Transact bus client t q = Some (st, q') \<Longrightarrow> I q'"
  using I_submit [of q t] I_RunScheduler
  by (auto simp: txnQ_Transact_def Let_def split_beta split: if_splits)

lemma I_Run: "I q \<Longrightarrow> txnQ_Run bus client f q = Some q' \<Longrightarrow> I q'"
  using I_RunScheduler I_state by (fastforce simp: txnQ_Run_def)

lemma I_Stop: "I q \<Longrightarrow> I (txnQ_Stop f q)"
  by (simp add: txnQ_Stop_def I_state)

lemma I_Restart: "I q \<Longrightarrow> I (snd (txnQ_Restart f q))"
  by (auto simp: txnQ_Restart_def I_state I_clear split: option.splits)

end

lemma submit_curr: "snd (txn_submit t (q\<lparr>pCurrTxn := c\<rparr>)) = (snd (txn_submit t q))\<lparr>pCurrTxn := c\<rparr>"
  by (simp add: txn_submit_def Let_def split_beta drop_single_def upd_func_def func_info_def set_queue_def
      txn_queue_def linked_txn_def queued_def split: option.splits)

lemma idle_submits_curr: "idle_submits ts (q\<lparr>pCurrTxn := c\<rparr>) = (idle_submits ts q)\<lparr>pCurrTxn := c\<rparr>"
  by (induction ts arbitrary: q) (simp_all add: submit_curr)

lemma clear_curr [simp]: "pCurrTxn (txnQ_ClearQueues f q) = pCurrTxn q"
proof -
  have "pCurrTxn (foldl (clear_queue f) q xs) = pCurrTxn q" for q xs
    by (induction xs arbitrary: q) (simp_all add: clear_queue_def set_queue_def split: option.splits)
  then show ?thesis by (simp add: txnQ_ClearQueues_def Let_def upd_func_def drop_single_def split: option.splits)
qed

context txn_inv
begin

lemma I_TxnDoneCb:
  assumes "I q" "pCurrTxn q = Some t" "txnQ_TxnDoneCb bus client t q = Some q'"
  shows "I q'"
proof (cases "eState (func_info q (txn_func q t)) = FUNC_STATE_RESTART")
  case True
  let ?c = "txnQ_ClearQueues (txn_func q t) q"
  let ?m = "?c\<lparr>txnMem := (txnMem ?c)(t := TXN_PARAM_SET_STATUS TXN_PARAM_STATUS_RECOVERY (txnMem ?c t)),
    cbLog := cbLog ?c @ [t]\<rparr>"
  have "I (?m\<lparr>pCurrTxn := None\<rparr>)" using I_recover [OF I_clear [OF assms(1)], where t = t] assms(2) by simp
  from I_idle_submits [OF this] have "I ((idle_submits (client (cbLog ?m)) ?m)\<lparr>pCurrTxn := None\<rparr>)"
    unfolding idle_submits_curr by simp
  from I_RunScheduler [OF this] assms(3) True show ?thesis
    by (auto simp: txnQ_TxnDoneCb_def Let_def)
next
  case False
  from I_RunScheduler [OF I_done [OF assms(1,2)]] assms(3) False show ?thesis
    by (auto simp: txnQ_TxnDoneCb_def Let_def)
qed

end

section \<open>Well-formed objects\<close>

lemma select_cases:
  assumes "txnQ_SelectTxn q = Some (t, q1)"
  obtains (single) f where "pSingleStep (func_info q f) = Some t" "f < length (aFuncInfo q)"
      "q1 = upd_func f (\<lambda>fi. fi\<lparr>pSingleStep := None\<rparr>) q"
  | (queue) f p h a where "deq_h (txn_queue q f p) = (Some t, h)" "q1 = (set_queue f p h q)\<lparr>pAggregQueue := a\<rparr>"
proof -
  have s: "sel_single fs q = Some (t, q1) \<Longrightarrow> \<exists>f. pSingleStep (func_info q f) = Some t \<and> f < length (aFuncInfo q) \<and>
      q1 = upd_func f (\<lambda>fi. fi\<lparr>pSingleStep := None\<rparr>) q" for fs
  proof (induction fs)
    case (Cons f fs)
    then show ?case by (auto simp: func_info_def no_func_def split: option.splits if_splits)
  qed simp
  have p: "sel_prio r q = Some (t, q1) \<Longrightarrow> \<exists>f p h a. deq_h (txn_queue q f p) = (Some t, h) \<and>
      q1 = (set_queue f p h q)\<lparr>pAggregQueue := a\<rparr>" for r
  proof (induction r q rule: sel_prio.induct)
    case (2 p f r q)
    have "set_queue f p h q = (set_queue f p h q)\<lparr>pAggregQueue := pAggregQueue q\<rparr>" for h
      by (simp add: set_queue_def)
    with 2 show ?case by (auto simp: Let_def split: if_splits prod.splits option.splits) metis+
  qed simp
  show thesis
  proof (cases "pAggregQueue q")
    case None
    then have "sel_single (func_range q) q = Some (t, q1) \<or> sel_prio (prio_range q) q = Some (t, q1)"
      using assms by (auto simp: txnQ_SelectTxn_def split: option.splits)
    then show thesis using s p single queue by blast
  next
    case (Some fp)
    have "set_queue f p h q = (set_queue f p h q)\<lparr>pAggregQueue := pAggregQueue q\<rparr>" for f p h
      by (simp add: set_queue_def)
    with Some assms show thesis
      by (auto simp: txnQ_SelectTxn_def Let_def split: if_splits prod.splits option.splits intro: queue) (metis queue)+
  qed
qed

definition txnq_wf :: "TTxnQObj \<Rightarrow> bool" where
  "txnq_wf q \<longleftrightarrow> length (aFuncInfo q) = 4 \<and> length (aTxnQueues q) = 4 \<and> (\<forall>qs\<in>set (aTxnQueues q). length qs = 2) \<and>
     (\<forall>f p. unat (uNumPrios (func_info q f)) \<le> p \<longrightarrow> txn_queue q f p = None) \<and>
     (\<forall>f. eState (func_info q f) = FUNC_STATE_NONE \<longrightarrow> uNumPrios (func_info q f) = 0)"

lemma txn_func_less: "txn_func q t < 4"
proof -
  have "TXN_PARAM_GET_FUNC_ID x = take_bit 2 (drop_bit 2 (uTxnParams x))" for x
    unfolding TXN_PARAM_GET_FUNC_ID_def txn_field_masks by (rule bit_word_eqI) (auto simp: bit_simps)
  then show ?thesis using take_bit_nat_less_exp [of 2] by (simp add: unsigned_take_bit_eq)
qed

lemma func_info_upd:
  "func_info (upd_func f g q) f' = (if f' = f \<and> f < length (aFuncInfo q) then g (func_info q f) else func_info q f')"
  by (auto simp: func_info_def upd_func_def)

lemma txn_queue_set:
  "txn_queue (set_queue f p h q) f' p' =
    (if f' = f \<and> p' = p \<and> f < length (aTxnQueues q) \<and> p < length (aTxnQueues q ! f) then h else txn_queue q f' p')"
  by (cases "f' = f"; cases "f < length (aTxnQueues q)") (auto simp: txn_queue_def set_queue_def nth_list_update list_update_beyond)

lemma queue_func_frames [simp]:
  "txn_queue (upd_func f g q) f' p' = txn_queue q f' p'" "func_info (set_queue f p h q) f' = func_info q f'"
  "length (aFuncInfo (upd_func f g q)) = length (aFuncInfo q)" "aFuncInfo (set_queue f p h q) = aFuncInfo q"
  "length (aTxnQueues (set_queue f p h q)) = length (aTxnQueues q)" "aTxnQueues (upd_func f g q) = aTxnQueues q"
  by (simp_all add: txn_queue_def upd_func_def func_info_def set_queue_def)

lemma lengths_set_queue:
  "\<forall>qs\<in>set (aTxnQueues q). length qs = n \<Longrightarrow> \<forall>qs\<in>set (aTxnQueues (set_queue f p h q)). length qs = n"
proof (cases "f < length (aTxnQueues q)")
  case True
  moreover assume *: "\<forall>qs\<in>set (aTxnQueues q). length qs = n"
  ultimately have "length (aTxnQueues q ! f) = n" by simp
  with * show ?thesis by (auto simp: set_queue_def dest!: set_update_subset_insert [THEN subsetD])
qed (simp add: set_queue_def list_update_beyond)

lemma wf_set_queue:
  assumes "txnq_wf q" "h = None \<or> p < unat (uNumPrios (func_info q f))"
  shows "txnq_wf (set_queue f p h q)"
  using assms lengths_set_queue [of q 2 f p h] by (auto simp: txnq_wf_def txn_queue_set)

lemma wf_upd_func:
  assumes "txnq_wf q" "uNumPrios (g (func_info q f)) = uNumPrios (func_info q f)"
    "eState (g (func_info q f)) = eState (func_info q f) \<or> eState (g (func_info q f)) \<noteq> FUNC_STATE_NONE"
  shows "txnq_wf (upd_func f g q)"
  using assms by (auto simp: txnq_wf_def func_info_upd)

lemma queue_used:
  assumes "txnq_wf q" "txn_queue q f p \<noteq> None"
  shows "p < unat (uNumPrios (func_info q f))"
  using assms unfolding txnq_wf_def by (meson linorder_not_le)

text \<open>Fields that the well-formedness does not read.\<close>

lemma wf_frames [simp]:
  "txnq_wf (q\<lparr>pAggregQueue := a\<rparr>) = txnq_wf q" "txnq_wf (q\<lparr>hTxnDoneQueue := d\<rparr>) = txnq_wf q"
  "txnq_wf (q\<lparr>pCurrTxn := c\<rparr>) = txnq_wf q" "txnq_wf (q\<lparr>bSchedulerBusy := b\<rparr>) = txnq_wf q"
  "txnq_wf (q\<lparr>bSchedulerPend := b\<rparr>) = txnq_wf q" "txnq_wf (q\<lparr>txnMem := m\<rparr>) = txnq_wf q"
  "txnq_wf (q\<lparr>accLog := l\<rparr>) = txnq_wf q" "txnq_wf (q\<lparr>busLog := l\<rparr>) = txnq_wf q"
  "txnq_wf (q\<lparr>cbLog := l\<rparr>) = txnq_wf q" "txnq_wf (q\<lparr>retLog := l\<rparr>) = txnq_wf q" "txnq_wf (q\<lparr>dropLog := l\<rparr>) = txnq_wf q"
  by (simp_all add: txnq_wf_def func_info_def txn_queue_def)

lemma wf_select:
  assumes "txnq_wf q" "txnQ_SelectTxn q = Some (t, q1)"
  shows "txnq_wf q1"
  using assms(2)
proof (cases rule: select_cases)
  case (single f)
  with assms(1) show ?thesis by (simp add: wf_upd_func)
next
  case (queue f p h a)
  from deq_h_some [OF queue(1)] queue_used [OF assms(1), of f p] have "p < unat (uNumPrios (func_info q f))" by simp
  with queue(2) assms(1) show ?thesis by (simp add: wf_set_queue)
qed

lemma wf_done_enqueue: "txnq_wf q \<Longrightarrow> txnq_wf (done_enqueue t q)"
  by (simp add: done_enqueue_def Let_def split_beta)

lemma wf_complete: "txnq_wf q \<Longrightarrow> txnq_wf (complete_txn inp t q)"
  by (simp add: complete_txn_def Let_def wf_done_enqueue)

lemma wf_drop_single: "txnq_wf (drop_single f q) = txnq_wf q"
  by (simp add: drop_single_def split: option.splits)

lemma enq_h_ok: "enq_h l h t = (TI_OK, h') \<Longrightarrow> \<exists>xs. h = Some xs \<and> h' = Some (xs @ [t])"
  by (auto simp: enq_h_def fifo_enq_def Let_def split: option.splits if_splits)


lemma wf_submit: "txnq_wf q \<Longrightarrow> txnq_wf (snd (txn_submit t q))"
proof -
  assume wf: "txnq_wf q"
  obtain st h where e: "enq_h (linked_txn q t) (txn_queue q (txn_func q t) (txn_prio q t)) t = (st, h)" by force
  have "st = TI_OK \<Longrightarrow> txn_prio q t < unat (uNumPrios (func_info q (txn_func q t)))"
    using enq_h_ok [of _ _ t h] e queue_used [OF wf] by fastforce
  with e wf show ?thesis
    by (auto simp: txn_submit_def Let_def wf_drop_single intro!: wf_upd_func wf_set_queue)
qed

lemma wf_clear_queue: "txnq_wf q \<Longrightarrow> txnq_wf (clear_queue f q i)"
  using queue_used [of q f i] by (auto simp: clear_queue_def intro: wf_set_queue split: option.splits)

lemma wf_clear: "txnq_wf q \<Longrightarrow> txnq_wf (txnQ_ClearQueues f q)"
proof -
  have "txnq_wf q \<Longrightarrow> txnq_wf (foldl (clear_queue f) q xs)" for q xs
    by (induction xs arbitrary: q) (simp_all add: wf_clear_queue)
  moreover assume "txnq_wf q"
  ultimately show ?thesis by (simp add: txnQ_ClearQueues_def Let_def wf_upd_func wf_drop_single)
qed

interpretation wfq: txn_inv txnq_wf
  by unfold_locales
    (auto simp: send_txn_def wf_select wf_complete wf_done_enqueue wf_submit wf_clear intro!: wf_upd_func)

section \<open>Accounts\<close>

definition curr_txn :: "TTxnQObj \<Rightarrow> addr multiset" where
  "curr_txn q = (case pCurrTxn q of None \<Rightarrow> {#} | Some t \<Rightarrow> {#t#})"

text \<open>Every accepted transaction waits, is on the bus, is completed but not reported, or has left.\<close>

definition txn_acct :: "TTxnQObj \<Rightarrow> bool" where
  "txn_acct q \<longleftrightarrow> mset (accLog q) = waiting q + curr_txn q + mset (items_h (hTxnDoneQueue q)) +
     mset (cbLog q) + mset (retLog q) + mset (dropLog q)"

lemma waiting_upd [simp]:
  "waiting (q\<lparr>pAggregQueue := a\<rparr>) = waiting q" "waiting (q\<lparr>hTxnDoneQueue := d\<rparr>) = waiting q"
  "waiting (q\<lparr>pCurrTxn := c\<rparr>) = waiting q" "waiting (q\<lparr>bSchedulerBusy := b\<rparr>) = waiting q"
  "waiting (q\<lparr>bSchedulerPend := b\<rparr>) = waiting q" "waiting (q\<lparr>txnMem := m\<rparr>) = waiting q"
  "waiting (q\<lparr>accLog := l\<rparr>) = waiting q" "waiting (q\<lparr>busLog := l\<rparr>) = waiting q"
  "waiting (q\<lparr>cbLog := l\<rparr>) = waiting q" "waiting (q\<lparr>retLog := l\<rparr>) = waiting q" "waiting (q\<lparr>dropLog := l\<rparr>) = waiting q"
  by (simp_all add: waiting_def queued_def singles_def)

lemma select_logs:
  assumes "txnQ_SelectTxn q = Some (t, q1)"
  shows "accLog q1 = accLog q" "busLog q1 = busLog q" "cbLog q1 = cbLog q" "retLog q1 = retLog q" "dropLog q1 = dropLog q"
    "pCurrTxn q1 = pCurrTxn q" "hTxnDoneQueue q1 = hTxnDoneQueue q" "txnMem q1 = txnMem q"
  using assms by (cases rule: select_cases; simp add: upd_func_def set_queue_def)+

lemma enq_h_items:
  "enq_h l h t = (st, h') \<Longrightarrow> items_h h' = (if st = TI_OK then items_h h @ [t] else items_h h)"
  by (auto simp: enq_h_def items_h_def fifo_enq_def Let_def split: option.splits if_splits)

lemma acct_done_enqueue:
  assumes "txn_acct q" "pCurrTxn q = Some t"
  shows "txn_acct ((done_enqueue t q)\<lparr>pCurrTxn := None\<rparr>)"
proof -
  obtain st h where e: "enq_h (linked_txn q t) (hTxnDoneQueue q) t = (st, h)" by force
  from assms enq_h_items [OF e] show ?thesis
    by (simp add: txn_acct_def curr_txn_def done_enqueue_def e Let_def)
qed

lemma done_enqueue_curr: "done_enqueue t (q\<lparr>pCurrTxn := c\<rparr>) = (done_enqueue t q)\<lparr>pCurrTxn := c\<rparr>"
  by (simp add: done_enqueue_def Let_def split_beta linked_txn_def queued_def)

lemma acct_complete:
  assumes "txn_acct q" "pCurrTxn q = Some t"
  shows "txn_acct (complete_txn inp t q)"
proof (cases "Some t = inp")
  case True
  then show ?thesis using assms by (simp add: True [symmetric] complete_txn_def Let_def txn_acct_def curr_txn_def)
next
  case False
  with acct_done_enqueue [OF assms] show ?thesis by (simp add: complete_txn_def Let_def done_enqueue_curr)
qed

lemma acct_send:
  assumes "txn_acct q" "pCurrTxn q = None" "txnQ_SelectTxn q = Some (t, q1)"
  shows "txn_acct (send_txn t q1)"
  using assms(1,2) select_waiting [OF assms(3)] select_logs [OF assms(3)]
  by (simp add: txn_acct_def curr_txn_def send_txn_def)

lemma waiting_upd_func:
  "waiting (upd_func f g q) + mset (case pSingleStep (func_info q f) of None \<Rightarrow> [] | Some t \<Rightarrow> [t]) =
   waiting q + (if f < length (aFuncInfo q) then mset (case pSingleStep (g (func_info q f)) of None \<Rightarrow> [] | Some t \<Rightarrow> [t]) else {#})"
  using singles_upd_func [of f g q] by (simp add: waiting_def add.assoc)

lemma waiting_set_queue:
  assumes "txn_queue q f p \<noteq> None"
  shows "waiting (set_queue f p h q) + mset (items_h (txn_queue q f p)) = waiting q + mset (items_h h)"
  using queued_set_queue [OF assms, of h] by (simp add: waiting_def ac_simps)

lemma drop_single_frames [simp]:
  "waiting (drop_single f q) = waiting q" "func_info (drop_single f q) f' = func_info q f'"
  "aFuncInfo (drop_single f q) = aFuncInfo q" "accLog (drop_single f q) = accLog q" "cbLog (drop_single f q) = cbLog q"
  "retLog (drop_single f q) = retLog q" "hTxnDoneQueue (drop_single f q) = hTxnDoneQueue q" "pCurrTxn (drop_single f q) = pCurrTxn q"
  "dropLog (drop_single f q) = dropLog q @ (case pSingleStep (func_info q f) of None \<Rightarrow> [] | Some t \<Rightarrow> [t])"
  by (simp_all add: drop_single_def func_info_def split: option.splits)

lemma upd_func_logs [simp]:
  "accLog (upd_func f g q) = accLog q" "cbLog (upd_func f g q) = cbLog q" "retLog (upd_func f g q) = retLog q"
  "dropLog (upd_func f g q) = dropLog q" "hTxnDoneQueue (upd_func f g q) = hTxnDoneQueue q"
  "pCurrTxn (upd_func f g q) = pCurrTxn q" "busLog (upd_func f g q) = busLog q" "txnMem (upd_func f g q) = txnMem q"
  "accLog (set_queue f p h q) = accLog q" "cbLog (set_queue f p h q) = cbLog q" "retLog (set_queue f p h q) = retLog q"
  "dropLog (set_queue f p h q) = dropLog q" "hTxnDoneQueue (set_queue f p h q) = hTxnDoneQueue q"
  "pCurrTxn (set_queue f p h q) = pCurrTxn q" "busLog (set_queue f p h q) = busLog q" "txnMem (set_queue f p h q) = txnMem q"
  by (simp_all add: upd_func_def set_queue_def)

lemma acct_submit:
  assumes "txn_acct q" "txnq_wf q"
  shows "txn_acct (snd (txn_submit t q))"
proof (cases "TXN_PARAM_GET_SINGLE_STEP (txnMem q t) = 0")
  case False
  have "txn_func q t < length (aFuncInfo q)" using assms(2) txn_func_less by (simp add: txnq_wf_def)
  with waiting_upd_func [of "txn_func q t" "\<lambda>fi. fi\<lparr>pSingleStep := Some t\<rparr>" "drop_single (txn_func q t) q"] assms(1) False
  show ?thesis
    by (simp add: txn_submit_def Let_def txn_acct_def curr_txn_def ac_simps)
next
  case True
  obtain st h where e: "enq_h (linked_txn q t) (txn_queue q (txn_func q t) (txn_prio q t)) t = (st, h)" by force
  show ?thesis
  proof (cases "st = TI_OK")
    case False
    with True e assms(1) show ?thesis by (simp add: txn_submit_def Let_def)
  next
    case ok: True
    with enq_h_ok [of _ _ t h] e have "txn_queue q (txn_func q t) (txn_prio q t) \<noteq> None" by fastforce
    from waiting_set_queue [OF this, of h] enq_h_items [OF e] ok
    have "waiting (set_queue (txn_func q t) (txn_prio q t) h q) = add_mset t (waiting q)" by simp
    with True e ok assms(1) show ?thesis by (simp add: txn_submit_def Let_def txn_acct_def curr_txn_def)
  qed
qed

lemma acct_clear_queue: "txn_acct q \<Longrightarrow> txn_acct (clear_queue f q i)"
  using waiting_set_queue [of q f i "Some []"]
  by (auto simp: clear_queue_def txn_acct_def curr_txn_def items_h_def ac_simps split: option.splits)

lemma acct_clear: "txn_acct q \<Longrightarrow> txn_acct (txnQ_ClearQueues f q)"
proof -
  have l: "txn_acct q \<Longrightarrow> txn_acct (foldl (clear_queue f) q xs)" for q xs
    by (induction xs arbitrary: q) (simp_all add: acct_clear_queue)
  have u: "txn_acct (upd_func f (\<lambda>fi. fi\<lparr>eState := s\<rparr>) q) = txn_acct q" for q s
    using waiting_upd_func [of f "\<lambda>fi. fi\<lparr>eState := s\<rparr>" q]
    by (cases "f < length (aFuncInfo q)") (auto simp: txn_acct_def curr_txn_def func_info_def no_func_def)
  assume "txn_acct q"
  then have "txn_acct (upd_func f (\<lambda>fi. fi\<lparr>pSingleStep := None\<rparr>) (drop_single f q))"
    using waiting_upd_func [of f "\<lambda>fi. fi\<lparr>pSingleStep := None\<rparr>" "drop_single f q"]
    by (simp add: txn_acct_def curr_txn_def ac_simps)
  from l [OF this] show ?thesis by (simp add: txnQ_ClearQueues_def Let_def u)
qed


interpretation acc: txn_inv "\<lambda>q. txnq_wf q \<and> txn_acct q"
proof (unfold_locales, goal_cases)
  case (1 q t q1)
  then show ?case using wfq.I_send acct_send by blast
next
  case (2 q t inp)
  then show ?case by (simp add: wf_complete acct_complete)
next
  case (3 q t)
  then show ?case by (simp add: wf_done_enqueue acct_done_enqueue)
next
  case (4 q t)
  then show ?case by (simp add: wf_submit acct_submit)
next
  case (5 q t h)
  with deq_h_some [OF 5(2)] show ?case by (simp add: txn_acct_def curr_txn_def)
next
  case (6 q t)
  then show ?case by (simp add: txn_acct_def curr_txn_def)
next
  case (7 q b)
  then show ?case by (simp add: txn_acct_def curr_txn_def)
next
  case (8 q b)
  then show ?case by (simp add: txn_acct_def curr_txn_def)
next
  case (9 s q f)
  with waiting_upd_func [of f "\<lambda>fi. fi\<lparr>eState := s\<rparr>" q] show ?case
    by (cases "f < length (aFuncInfo q)")
      (auto simp: txn_acct_def curr_txn_def func_info_def no_func_def intro: wfq.I_state)
next
  case (10 q f)
  then show ?case by (simp add: wf_clear acct_clear)
qed

section \<open>Order\<close>

text \<open>The regular transactions of function \<open>f\<close> and priority \<open>p\<close>.\<close>

definition is_class :: "(addr \<Rightarrow> TTxnStruct) \<Rightarrow> nat \<Rightarrow> nat \<Rightarrow> addr \<Rightarrow> bool" where
  "is_class mem f p t \<longleftrightarrow> TXN_PARAM_GET_SINGLE_STEP (mem t) = 0 \<and>
     unat (TXN_PARAM_GET_FUNC_ID (mem t)) = f \<and> unat (TXN_PARAM_GET_PRIORITY (mem t)) = p"

text \<open>
  What was sent of a class and then what waits in its queue is a subsequence of what was accepted;
  a queue holds its own class, and a single-step slot holds no regular transaction.
\<close>

definition txn_order :: "TTxnQObj \<Rightarrow> bool" where
  "txn_order q \<longleftrightarrow> (\<forall>f p.
     subseq (filter (is_class (txnMem q) f p) (busLog q) @ items_h (txn_queue q f p))
            (filter (is_class (txnMem q) f p) (accLog q)) \<and>
     (\<forall>t\<in>set (items_h (txn_queue q f p)). is_class (txnMem q) f p t) \<and>
     (\<forall>t. pSingleStep (func_info q f) = Some t \<longrightarrow> TXN_PARAM_GET_SINGLE_STEP (txnMem q t) \<noteq> 0))"

lemma send_frames [simp]:
  "txn_queue (send_txn t q) f p = txn_queue q f p" "func_info (send_txn t q) f = func_info q f"
  "txnMem (send_txn t q) = txnMem q" "accLog (send_txn t q) = accLog q" "busLog (send_txn t q) = busLog q @ [t]"
  by (simp_all add: send_txn_def txn_queue_def func_info_def)

lemma aggr_frames [simp]:
  "txn_queue (q\<lparr>pAggregQueue := a\<rparr>) f p = txn_queue q f p" "func_info (q\<lparr>pAggregQueue := a\<rparr>) f = func_info q f"
  by (simp_all add: txn_queue_def func_info_def)

lemma order_send:
  assumes o: "txn_order q" and s: "txnQ_SelectTxn q = Some (t, q1)"
  shows "txn_order (send_txn t q1)"
  using s
proof (cases rule: select_cases)
  case (single f)
  from o single(1) have "\<not> is_class (txnMem q) f' p' t" for f' p' by (auto simp: txn_order_def is_class_def)
  with o single(3) show ?thesis by (auto simp: txn_order_def func_info_upd)
next
  case (queue f p h a)
  note d = deq_h_some [OF queue(1)]
  have c: "is_class (txnMem q) f p t" using o d by (auto simp: txn_order_def)
  have other: "is_class (txnMem q) f' p' t \<Longrightarrow> f' = f \<and> p' = p" for f' p' using c by (auto simp: is_class_def)
  have r: "f < length (aTxnQueues q) \<and> p < length (aTxnQueues q ! f)"
    using d by (auto simp: txn_queue_def split: if_splits)
  have q1: "txn_queue (send_txn t q1) f' p' = (if f' = f \<and> p' = p then h else txn_queue q f' p')" for f' p'
    using queue(2) txn_queue_set [of f p h q f' p'] r by auto
  have logs: "txnMem (send_txn t q1) = txnMem q" "accLog (send_txn t q1) = accLog q"
    "busLog (send_txn t q1) = busLog q @ [t]" "func_info (send_txn t q1) f' = func_info q f'" for f'
    using queue(2) by simp_all
  show ?thesis
    unfolding txn_order_def logs
  proof (intro allI conjI)
    fix f' p'
    show "subseq (filter (is_class (txnMem q) f' p') (busLog q @ [t]) @ items_h (txn_queue (send_txn t q1) f' p'))
        (filter (is_class (txnMem q) f' p') (accLog q))"
    proof (cases "f' = f \<and> p' = p")
      case True
      have "subseq (filter (is_class (txnMem q) f p) (busLog q) @ items_h (txn_queue q f p))
          (filter (is_class (txnMem q) f p) (accLog q))" using o by (simp add: txn_order_def)
      moreover have "items_h (txn_queue q f p) = t # items_h h" using d by blast
      ultimately show ?thesis using True c q1 by simp
    next
      case False
      with o q1 other [of f' p'] show ?thesis by (auto simp: txn_order_def)
    qed
    show "\<forall>t'\<in>set (items_h (txn_queue (send_txn t q1) f' p')). is_class (txnMem q) f' p' t'"
      using o d q1 by (auto simp: txn_order_def)
    show "pSingleStep (func_info q f') = Some x \<longrightarrow> TXN_PARAM_GET_SINGLE_STEP (txnMem q x) \<noteq> 0" for x
      using o by (auto simp: txn_order_def)
  qed
qed

text \<open>A step that leaves the logs and slots alone and shortens or keeps the queues.\<close>

lemma order_shrink:
  assumes "txn_order q" "\<And>t f p. is_class (txnMem q') f p t = is_class (txnMem q) f p t"
    "\<And>t. (TXN_PARAM_GET_SINGLE_STEP (txnMem q' t) = 0) = (TXN_PARAM_GET_SINGLE_STEP (txnMem q t) = 0)"
    "accLog q' = accLog q" "busLog q' = busLog q"
    "\<And>f p. txn_queue q' f p = txn_queue q f p \<or> items_h (txn_queue q' f p) = []"
    "\<And>f. pSingleStep (func_info q' f) = pSingleStep (func_info q f) \<or> pSingleStep (func_info q' f) = None"
  shows "txn_order q'"
  unfolding txn_order_def
proof (intro allI conjI)
  fix f p
  have m: "is_class (txnMem q') f p = is_class (txnMem q) f p" using assms(2) by (simp add: fun_eq_iff)
  have s: "subseq (filter (is_class (txnMem q) f p) (busLog q) @ items_h (txn_queue q f p))
      (filter (is_class (txnMem q) f p) (accLog q))" using assms(1) by (simp add: txn_order_def)
  then have "subseq (filter (is_class (txnMem q) f p) (busLog q)) (filter (is_class (txnMem q) f p) (accLog q))"
    by (metis subseq_order.trans list_emb_append2 subseq_rev_drop_many subseq_order.order_refl)
  with s assms(6) [of f p] show "subseq (filter (is_class (txnMem q') f p) (busLog q') @ items_h (txn_queue q' f p))
      (filter (is_class (txnMem q') f p) (accLog q'))"
    unfolding m assms(4,5) by auto
  show "\<forall>t\<in>set (items_h (txn_queue q' f p)). is_class (txnMem q') f p t"
    using assms(1) assms(6) [of f p] unfolding m by (auto simp: txn_order_def)
  show "pSingleStep (func_info q' f) = Some t \<longrightarrow> TXN_PARAM_GET_SINGLE_STEP (txnMem q' t) \<noteq> 0" for t
    using assms(1,3,7) by (metis option.distinct(1) txn_order_def)
qed


lemma log_frames [simp]:
  "txn_queue (q\<lparr>hTxnDoneQueue := d\<rparr>) f p = txn_queue q f p" "func_info (q\<lparr>hTxnDoneQueue := d\<rparr>) f = func_info q f"
  "txn_queue (q\<lparr>pCurrTxn := c\<rparr>) f p = txn_queue q f p" "func_info (q\<lparr>pCurrTxn := c\<rparr>) f = func_info q f"
  "txn_queue (q\<lparr>bSchedulerBusy := b\<rparr>) f p = txn_queue q f p" "func_info (q\<lparr>bSchedulerBusy := b\<rparr>) f = func_info q f"
  "txn_queue (q\<lparr>bSchedulerPend := b\<rparr>) f p = txn_queue q f p" "func_info (q\<lparr>bSchedulerPend := b\<rparr>) f = func_info q f"
  "txn_queue (q\<lparr>txnMem := m\<rparr>) f p = txn_queue q f p" "func_info (q\<lparr>txnMem := m\<rparr>) f = func_info q f"
  "txn_queue (q\<lparr>accLog := l\<rparr>) f p = txn_queue q f p" "func_info (q\<lparr>accLog := l\<rparr>) f = func_info q f"
  "txn_queue (q\<lparr>cbLog := l\<rparr>) f p = txn_queue q f p" "func_info (q\<lparr>cbLog := l\<rparr>) f = func_info q f"
  "txn_queue (q\<lparr>retLog := l\<rparr>) f p = txn_queue q f p" "func_info (q\<lparr>retLog := l\<rparr>) f = func_info q f"
  "txn_queue (q\<lparr>dropLog := l\<rparr>) f p = txn_queue q f p" "func_info (q\<lparr>dropLog := l\<rparr>) f = func_info q f"
  by (simp_all add: txn_queue_def func_info_def)

lemma order_frames [simp]:
  "txn_order (q\<lparr>hTxnDoneQueue := d\<rparr>) = txn_order q" "txn_order (q\<lparr>pCurrTxn := c\<rparr>) = txn_order q"
  "txn_order (q\<lparr>bSchedulerBusy := b\<rparr>) = txn_order q" "txn_order (q\<lparr>bSchedulerPend := b\<rparr>) = txn_order q"
  "txn_order (q\<lparr>cbLog := l\<rparr>) = txn_order q" "txn_order (q\<lparr>retLog := l\<rparr>) = txn_order q"
  "txn_order (q\<lparr>dropLog := l\<rparr>) = txn_order q"
  by (simp_all add: txn_order_def)

lemma order_done_enqueue [simp]: "txn_order (done_enqueue t q) = txn_order q"
  by (simp add: done_enqueue_def Let_def split_beta)

lemma order_complete [simp]: "txn_order (complete_txn inp t q) = txn_order q"
  by (simp add: complete_txn_def Let_def)

lemma drop_single_more [simp]:
  "txn_queue (drop_single f q) f' p = txn_queue q f' p" "txnMem (drop_single f q) = txnMem q"
  "busLog (drop_single f q) = busLog q"
  by (simp_all add: drop_single_def split: option.splits)

lemma order_submit:
  assumes o: "txn_order q" and wf: "txnq_wf q"
  shows "txn_order (snd (txn_submit t q))"
proof (cases "TXN_PARAM_GET_SINGLE_STEP (txnMem q t) = 0")
  case False
  then have n: "\<not> is_class (txnMem q) f p t" for f p by (simp add: is_class_def)
  from o n False show ?thesis
    by (auto simp: txn_submit_def Let_def txn_order_def func_info_upd)
next
  case True
  let ?f = "txn_func q t" and ?p = "txn_prio q t"
  obtain st h where e: "enq_h (linked_txn q t) (txn_queue q ?f ?p) t = (st, h)" by force
  show ?thesis
  proof (cases "st = TI_OK")
    case False
    with True e o show ?thesis by (simp add: txn_submit_def Let_def)
  next
    case ok: True
    with enq_h_ok [of _ _ t h] e have "txn_queue q ?f ?p \<noteq> None" by fastforce
    then have r: "?f < length (aTxnQueues q) \<and> ?p < length (aTxnQueues q ! ?f)"
      by (auto simp: txn_queue_def split: if_splits)
    have it: "items_h h = items_h (txn_queue q ?f ?p) @ [t]" using enq_h_items [OF e] ok by simp
    have c: "is_class (txnMem q) f p t \<longleftrightarrow> f = ?f \<and> p = ?p" for f p using True by (auto simp: is_class_def)
    let ?q = "(set_queue ?f ?p h q)\<lparr>accLog := accLog q @ [t]\<rparr>"
    have q': "txn_queue ?q f p = (if f = ?f \<and> p = ?p then h else txn_queue q f p)" for f p
      using r txn_queue_set [of ?f ?p h q f p] by simp
    have "txn_order ?q"
      unfolding txn_order_def
    proof (intro allI conjI)
      fix f p
      have s: "subseq (filter (is_class (txnMem q) f p) (busLog q) @ items_h (txn_queue q f p))
          (filter (is_class (txnMem q) f p) (accLog q))" using o by (simp add: txn_order_def)
      have logs: "txnMem ?q = txnMem q" "busLog ?q = busLog q" "accLog ?q = accLog q @ [t]" by simp_all
      show "subseq (filter (is_class (txnMem ?q) f p) (busLog ?q) @ items_h (txn_queue ?q f p))
          (filter (is_class (txnMem ?q) f p) (accLog ?q))"
      proof (cases "f = ?f \<and> p = ?p")
        case True
        then show ?thesis unfolding logs q' using c [of f p] it list_emb_append_mono [OF s, of "[t]" "[t]"] by simp
      next
        case False
        then have "\<not> is_class (txnMem q) f p t" unfolding c .
        moreover have "txn_queue ?q f p = txn_queue q f p" unfolding q' using False by (rule if_not_P)
        ultimately show ?thesis unfolding logs using s by simp
      qed
      show "\<forall>x\<in>set (items_h (txn_queue ?q f p)). is_class (txnMem ?q) f p x"
        using o it q' c by (auto simp: txn_order_def)
      show "pSingleStep (func_info ?q f) = Some x \<longrightarrow> TXN_PARAM_GET_SINGLE_STEP (txnMem ?q x) \<noteq> 0" for x
        using o by (auto simp: txn_order_def)
    qed
    with True e ok show ?thesis by (simp add: txn_submit_def Let_def)
  qed
qed

lemma clear_queue_frames:
  "accLog (clear_queue f q i) = accLog q" "busLog (clear_queue f q i) = busLog q" "txnMem (clear_queue f q i) = txnMem q"
  "func_info (clear_queue f q i) f' = func_info q f'"
  "txn_queue (clear_queue f q i) f' p = txn_queue q f' p \<or> items_h (txn_queue (clear_queue f q i) f' p) = []"
  by (auto simp: clear_queue_def txn_queue_set items_h_def split: option.splits)

lemma order_clear:
  assumes "txn_order q"
  shows "txn_order (txnQ_ClearQueues f q)"
proof -
  have l: "txn_order q \<Longrightarrow> txn_order (foldl (clear_queue f) q xs)" for q xs
  proof (induction xs arbitrary: q)
    case (Cons x xs)
    have "txn_order (clear_queue f q x)"
      by (rule order_shrink [OF Cons.prems]) (use clear_queue_frames [of f q x] in auto)
    then show ?case using Cons.IH by simp
  qed simp
  have "txn_order (upd_func f (\<lambda>fi. fi\<lparr>pSingleStep := None\<rparr>) (drop_single f q))"
    by (rule order_shrink [OF assms]) (auto simp: func_info_upd)
  from l [OF this] have "txn_order (upd_func f (\<lambda>fi. fi\<lparr>eState := FUNC_STATE_RUNNING\<rparr>)
      (foldl (clear_queue f) (upd_func f (\<lambda>fi. fi\<lparr>pSingleStep := None\<rparr>) (drop_single f q)) xs))" for xs
    by (rule order_shrink) (auto simp: func_info_upd)
  then show ?thesis by (simp add: txnQ_ClearQueues_def Let_def)
qed

lemma recovery_class:
  "is_class (mem(t := TXN_PARAM_SET_STATUS TXN_PARAM_STATUS_RECOVERY (mem t))) f p x = is_class mem f p x"
  "(TXN_PARAM_GET_SINGLE_STEP ((mem(t := TXN_PARAM_SET_STATUS TXN_PARAM_STATUS_RECOVERY (mem t))) x) = 0) =
   (TXN_PARAM_GET_SINGLE_STEP (mem x) = 0)"
  using TXN_SET_STATUS_get [of TXN_PARAM_STATUS_RECOVERY "mem t"]
  by (auto simp: is_class_def TXN_PARAM_STATUS_RECOVERY_def)

interpretation ord: txn_inv "\<lambda>q. txnq_wf q \<and> txn_order q"
proof (unfold_locales, goal_cases)
  case (1 q t q1)
  then show ?case using wfq.I_send order_send by blast
next
  case (2 q t inp)
  then show ?case by (simp add: wf_complete)
next
  case (3 q t)
  then show ?case by (simp add: wf_done_enqueue)
next
  case (4 q t)
  then show ?case by (simp add: wf_submit order_submit)
next
  case (6 q t)
  have "txn_order (q\<lparr>txnMem := (txnMem q)(t := TXN_PARAM_SET_STATUS TXN_PARAM_STATUS_RECOVERY (txnMem q t))\<rparr>)"
    by (rule order_shrink [of q]) (use 6 in \<open>simp_all add: recovery_class del: fun_upd_apply\<close>)
  with 6 show ?case by (simp add: txn_order_def)
next
  case (9 s q f)
  have "txn_order (upd_func f (\<lambda>fi. fi\<lparr>eState := s\<rparr>) q)"
    by (rule order_shrink [of q]) (use 9 in \<open>simp_all add: func_info_upd\<close>)
  with 9 show ?case using wfq.I_state by blast
next
  case (10 q f)
  then show ?case by (simp add: wf_clear order_clear)
qed auto

end
