(* ===== verification/WlTxnReach.thy ===== *)
theory WlTxnReach
  imports WlTxnInv
begin

text \<open>
  The reachable states of the transaction queue and what holds in all of them, the choice of the next
  transaction as a condition on the queues, and the measure that makes the scheduler return.
\<close>

section \<open>Reachable states\<close>

text \<open>
  A function is opened while it is not registered, the bus driver completes the transaction it has,
  and a transaction's structure stays as it is from its submission on.
\<close>

inductive txnq_reach :: "(addr list \<Rightarrow> ETxnStatus) \<Rightarrow> (addr list \<Rightarrow> addr list) \<Rightarrow> TTxnQObj \<Rightarrow> bool"
  for bus client where
  create: "txnQ_Create True True mem = Some q \<Longrightarrow> txnq_reach bus client (txnQ_Init ok q)"
| opened: "txnq_reach bus client q \<Longrightarrow> eState (func_info q f) = FUNC_STATE_NONE \<Longrightarrow>
    txnq_reach bus client (snd (txnQ_Open f n cb hCb que_ok q))"
| close: "txnq_reach bus client q \<Longrightarrow> txnq_reach bus client (txnQ_Close f q)"
| transact: "txnq_reach bus client q \<Longrightarrow> txnQ_Transact bus client t q = Some (st, q') \<Longrightarrow> txnq_reach bus client q'"
| completed: "txnq_reach bus client q \<Longrightarrow> pCurrTxn q = Some t \<Longrightarrow> txnQ_TxnDoneCb bus client t q = Some q' \<Longrightarrow>
    txnq_reach bus client q'"
| run: "txnq_reach bus client q \<Longrightarrow> txnQ_Run bus client f q = Some q' \<Longrightarrow> txnq_reach bus client q'"
| stop: "txnq_reach bus client q \<Longrightarrow> txnq_reach bus client (txnQ_Stop f q)"
| restart: "txnq_reach bus client q \<Longrightarrow> txnq_reach bus client (snd (txnQ_Restart f q))"

declare txnq_reach.intros [intro]

lemma wf_no_func:
  assumes "txnq_wf q" "eState (func_info q f) = FUNC_STATE_NONE"
  shows "txn_queue q f p = None"
  using assms unfolding txnq_wf_def by (metis le0 unsigned_0)

lemma func_range_frames [simp]:
  "txnq_wf (q\<lparr>uMinFuncId := a\<rparr>) = txnq_wf q" "txnq_wf (q\<lparr>uMaxFuncId := a\<rparr>) = txnq_wf q"
  "txn_acct (q\<lparr>uMinFuncId := a\<rparr>) = txn_acct q" "txn_acct (q\<lparr>uMaxFuncId := a\<rparr>) = txn_acct q"
  "txn_order (q\<lparr>uMinFuncId := a\<rparr>) = txn_order q" "txn_order (q\<lparr>uMaxFuncId := a\<rparr>) = txn_order q"
  by (simp_all add: txnq_wf_def txn_acct_def txn_order_def func_info_def txn_queue_def waiting_def queued_def
      singles_def curr_txn_def)

text \<open>The three invariants together.\<close>

definition txnq_inv :: "TTxnQObj \<Rightarrow> bool" where
  "txnq_inv q \<longleftrightarrow> txnq_wf q \<and> txn_acct q \<and> txn_order q"

lemma acct_set_empty:
  "items_h h = [] \<Longrightarrow> items_h (txn_queue q f p) = [] \<Longrightarrow> txn_acct (set_queue f p h q) = txn_acct q"
  using queued_set_empty [of h q f p] by (simp add: txn_acct_def waiting_def curr_txn_def)

lemma order_set_empty:
  assumes "txn_order q" "items_h h = []"
  shows "txn_order (set_queue f p h q)"
  by (rule order_shrink [OF assms(1)]) (use assms(2) in \<open>auto simp: txn_queue_set\<close>)

lemma inv_open_queues:
  assumes "txnq_inv q" "\<forall>i\<in>set is. i < unat (uNumPrios (func_info q f))" "\<forall>p. items_h (txn_queue q f p) = []"
  shows "txnq_inv (snd (open_queues f que_ok is q))"
  using assms
proof (induction "is" arbitrary: q)
  case (Cons i "is")
  have e: "items_h (Some []) = []" "items_h None = []" by (simp_all add: items_h_def)
  have q': "txnq_inv (set_queue f i h q) \<and> (\<forall>p. items_h (txn_queue (set_queue f i h q) f p) = [])" if "items_h h = []" for h
    using Cons.prems that
    by (auto simp: txnq_inv_def acct_set_empty txn_queue_set intro!: wf_set_queue order_set_empty)
  show ?case using Cons.IH [of "set_queue f i (Some []) q"] q' [OF e(1)] q' [OF e(2)] Cons.prems(2) by simp
qed simp

lemma inv_open:
  assumes inv: "txnq_inv q" and n: "eState (func_info q f) = FUNC_STATE_NONE"
  shows "txnq_inv (snd (txnQ_Open f n cb hCb que_ok q))"
proof (cases "f \<ge> MAX_FUNCTIONS \<or> unat n > MAX_PRIORITY")
  case True
  with inv show ?thesis by (simp add: txnQ_Open_def)
next
  case False
  let ?g = "\<lambda>fi. fi\<lparr>uNumPrios := n, fTxnQueueDoneCb := cb, fi_hCbHandle := hCb, eState := FUNC_STATE_STOPPED\<rparr>"
  let ?q = "upd_func f ?g q"
  have none: "txn_queue q f p = None" for p using wf_no_func [OF _ n] inv by (simp add: txnq_inv_def)
  have f: "f < length (aFuncInfo q)" using False inv by (simp add: txnq_inv_def txnq_wf_def MAX_FUNCTIONS_def)
  have "txnq_wf ?q" using inv none by (auto simp: txnq_inv_def txnq_wf_def func_info_upd)
  moreover have "txn_acct ?q"
    using inv waiting_upd_func [of f ?g q] f by (simp add: txnq_inv_def txn_acct_def curr_txn_def)
  moreover have "txn_order ?q"
    by (rule order_shrink [of q]) (use inv in \<open>simp_all add: txnq_inv_def func_info_upd\<close>)
  ultimately have "txnq_inv ?q" by (simp add: txnq_inv_def)
  moreover have "\<forall>i\<in>set [0..<unat n]. i < unat (uNumPrios (func_info ?q f))" using f by (simp add: func_info_upd)
  moreover have "\<forall>p. items_h (txn_queue ?q f p) = []" by (simp add: none items_h_def)
  ultimately have o: "txnq_inv (snd (open_queues f que_ok [0..<unat n] ?q))" by (rule inv_open_queues)
  then show ?thesis using False by (simp add: txnQ_Open_def Let_def split_beta) (auto simp: txnq_inv_def)
qed

lemma inv_close_queue:
  assumes "txnq_inv q"
  shows "txnq_inv (close_queue f q i)" "txn_queue (close_queue f q i) f i = None"
    "txn_queue q f p = None \<Longrightarrow> txn_queue (close_queue f q i) f p = None"
    "func_info (close_queue f q i) f' = func_info q f'"
proof -
  have wf: "txnq_wf (close_queue f q i)" using assms by (simp add: close_queue_def txnq_inv_def wf_set_queue)
  have o: "txn_order (close_queue f q i)"
    using assms by (simp add: close_queue_def txnq_inv_def order_set_empty items_h_def)
  have "txn_acct (close_queue f q i)"
  proof (cases "txn_queue q f i")
    case None
    with assms show ?thesis
      using acct_set_empty [of None q f i] by (simp add: close_queue_def txnq_inv_def items_h_def txn_acct_def curr_txn_def)
  next
    case (Some xs)
    with assms waiting_set_queue [of q f i None] show ?thesis
      by (simp add: close_queue_def txnq_inv_def txn_acct_def curr_txn_def items_h_def ac_simps)
  qed
  with wf o show "txnq_inv (close_queue f q i)" by (simp add: txnq_inv_def)
  show "txn_queue (close_queue f q i) f i = None"
    by (auto simp: close_queue_def txn_queue_set) (auto simp: txn_queue_def)
  show "txn_queue q f p = None \<Longrightarrow> txn_queue (close_queue f q i) f p = None"
    "func_info (close_queue f q i) f' = func_info q f'"
    by (simp_all add: close_queue_def txn_queue_set)
qed

lemma inv_close: "txnq_inv q \<Longrightarrow> txnq_inv (txnQ_Close f q)"
proof -
  assume inv: "txnq_inv q"
  have l: "txnq_inv q \<Longrightarrow> txnq_inv (foldl (close_queue f) q xs) \<and>
      (\<forall>p. p \<in> set xs \<or> txn_queue q f p = None \<longrightarrow> txn_queue (foldl (close_queue f) q xs) f p = None) \<and>
      (\<forall>f'. func_info (foldl (close_queue f) q xs) f' = func_info q f')" for q xs
  proof (induction xs arbitrary: q)
    case (Cons i xs)
    note c = inv_close_queue [OF Cons.prems, where f = f and i = i]
    from Cons.IH [OF c(1)] c(2-4) show ?case by auto
  qed simp
  let ?q1 = "foldl (close_queue f) q [0..<unat (uNumPrios (func_info q f))]"
  let ?g = "\<lambda>fi. fi\<lparr>uNumPrios := 0, fTxnQueueDoneCb := 0, fi_hCbHandle := 0, eState := FUNC_STATE_NONE\<rparr>"
  let ?q2 = "upd_func f ?g ?q1"
  note l1 = l [OF inv, of "[0..<unat (uNumPrios (func_info q f))]"]
  have none: "txn_queue ?q1 f p = None" for p
    using l1 inv by (cases "p < unat (uNumPrios (func_info q f))") (auto simp: txnq_inv_def txnq_wf_def)
  have "txnq_wf ?q2" using l1 none by (auto simp: txnq_inv_def txnq_wf_def func_info_upd)
  moreover have "txn_acct ?q2"
  proof (cases "f < length (aFuncInfo ?q1)")
    case True
    with l1 waiting_upd_func [of f ?g ?q1] show ?thesis by (simp add: txnq_inv_def txn_acct_def curr_txn_def)
  next
    case False
    then have "?q2 = ?q1" by (simp add: upd_func_def list_update_beyond)
    with l1 show ?thesis by (simp add: txnq_inv_def)
  qed
  moreover have "txn_order ?q2"
    by (rule order_shrink [of ?q1]) (use l1 in \<open>simp_all add: txnq_inv_def func_info_upd\<close>)
  ultimately have i2: "txnq_inv (?q2\<lparr>uMinFuncId := MAX_FUNCTIONS, uMaxFuncId := 0\<rparr>)" by (simp add: txnq_inv_def)
  have "txnq_inv q \<Longrightarrow> txnq_inv (foldl (\<lambda>q i. (let q = (if i < uMinFuncId q then q\<lparr>uMinFuncId := i\<rparr> else q)
            in if i > uMaxFuncId q then q\<lparr>uMaxFuncId := i\<rparr> else q)) q xs)" for q xs
    by (induction xs arbitrary: q) (simp_all add: Let_def txnq_inv_def)
  from this [OF i2] show ?thesis by (simp add: txnQ_Close_def Let_def)
qed

lemma reach_txnq_inv: "txnq_reach bus client q \<Longrightarrow> txnq_inv q"
proof (induction rule: txnq_reach.induct)
  case (create mem q ok)
  have sing: "singles (txnQ_Init ok q) = []" and qu: "queued (txnQ_Init ok q) = []"
    and fi: "func_info (txnQ_Init ok q) f = no_func" and tq: "txn_queue (txnQ_Init ok q) f p = None" for f p
    using create by (auto simp: txnQ_Create_def txnQ_Init_def singles_def queued_def func_info_def txn_queue_def
        no_func_def MAX_FUNCTIONS_def MAX_PRIORITY_def items_h_def nth_Cons' eval_nat_numeral)
  have l: "length (aFuncInfo (txnQ_Init ok q)) = 4" "length (aTxnQueues (txnQ_Init ok q)) = 4"
    "\<forall>qs\<in>set (aTxnQueues (txnQ_Init ok q)). length qs = 2" "accLog (txnQ_Init ok q) = []" "busLog (txnQ_Init ok q) = []"
    "cbLog (txnQ_Init ok q) = []" "retLog (txnQ_Init ok q) = []" "dropLog (txnQ_Init ok q) = []"
    "pCurrTxn (txnQ_Init ok q) = None" "items_h (hTxnDoneQueue (txnQ_Init ok q)) = []"
    using create by (auto simp: txnQ_Create_def txnQ_Init_def MAX_FUNCTIONS_def MAX_PRIORITY_def items_h_def)
  have n: "items_h None = []" by (simp add: items_h_def)
  show ?case
    by (simp add: txnq_inv_def txn_acct_def txn_order_def txnq_wf_def waiting_def sing qu fi tq l curr_txn_def n)
      (simp add: no_func_def)
next
  case (opened q f n cb hCb que_ok)
  then show ?case by (intro inv_open)
next
  case (close q f)
  then show ?case by (intro inv_close)
next
  case (transact q t st q')
  then show ?case using acc.I_Transact ord.I_Transact unfolding txnq_inv_def by blast
next
  case (completed q t q')
  then show ?case using acc.I_TxnDoneCb ord.I_TxnDoneCb unfolding txnq_inv_def by blast
next
  case (run q f q')
  then show ?case using acc.I_Run ord.I_Run unfolding txnq_inv_def by blast
next
  case (stop q f)
  then show ?case using acc.I_Stop ord.I_Stop unfolding txnq_inv_def by blast
next
  case (restart q f)
  then show ?case using acc.I_Restart ord.I_Restart unfolding txnq_inv_def by blast
qed


section \<open>Selection\<close>

lemma sel_single_none: "sel_single fs q = None \<longleftrightarrow> (\<forall>f\<in>set fs. pSingleStep (func_info q f) = None)"
  by (induction fs) (auto split: option.splits)

text \<open>A function's queue that may be served.\<close>

definition serves :: "TTxnQObj \<Rightarrow> nat \<Rightarrow> nat \<Rightarrow> bool" where
  "serves q f p \<longleftrightarrow> eState (func_info q f) = FUNC_STATE_RUNNING \<and> p < unat (uNumPrios (func_info q f)) \<and>
     items_h (txn_queue q f p) \<noteq> []"

lemma sel_prio_none: "sel_prio r q = None \<longleftrightarrow> (\<forall>(p, f)\<in>set r. \<not> serves q f p)"
proof (induction r q rule: sel_prio.induct)
  case (2 p f r q)
  obtain x h where d: "deq_h (txn_queue q f p) = (x, h)" by force
  show ?case
  proof (cases x)
    case None
    with 2 d deq_h_none [of "txn_queue q f p" h] show ?thesis by (auto simp: serves_def)
  next
    case (Some t)
    with 2 d deq_h_some [of "txn_queue q f p" t h] show ?thesis by (auto simp: serves_def Let_def)
  qed
qed simp

lemma select_none:
  "txnQ_SelectTxn q = None \<longleftrightarrow>
     (case pAggregQueue q of Some (f, p) \<Rightarrow> items_h (txn_queue q f p) = []
      | None \<Rightarrow> (\<forall>f\<in>set (func_range q). pSingleStep (func_info q f) = None) \<and>
          (\<forall>(p, f)\<in>set (prio_range q). \<not> serves q f p))"
proof (cases "pAggregQueue q")
  case None
  then show ?thesis
    using sel_single_none [of "func_range q" q] sel_prio_none [of "prio_range q" q]
    by (auto simp: txnQ_SelectTxn_def split: option.splits)
next
  case (Some fp)
  obtain f p where fp: "fp = (f, p)" by force
  obtain x h where d: "deq_h (txn_queue q f p) = (x, h)" by force
  with Some fp deq_h_none [of "txn_queue q f p"] deq_h_some [of "txn_queue q f p"] show ?thesis
    by (cases x) (auto simp: txnQ_SelectTxn_def Let_def)
qed

lemma serves_frames [simp]:
  "serves (q\<lparr>hTxnDoneQueue := d\<rparr>) = serves q" "serves (q\<lparr>cbLog := l\<rparr>) = serves q"
  "serves (q\<lparr>bSchedulerBusy := b\<rparr>) = serves q"
  by (simp_all add: fun_eq_iff serves_def func_info_def txn_queue_def)

lemma range_frames [simp]:
  "func_range (q\<lparr>hTxnDoneQueue := d\<rparr>) = func_range q" "func_range (q\<lparr>cbLog := l\<rparr>) = func_range q"
  "func_range (q\<lparr>bSchedulerBusy := b\<rparr>) = func_range q" "prio_range (q\<lparr>hTxnDoneQueue := d\<rparr>) = prio_range q"
  "prio_range (q\<lparr>cbLog := l\<rparr>) = prio_range q" "prio_range (q\<lparr>bSchedulerBusy := b\<rparr>) = prio_range q"
  by (simp_all add: func_range_def prio_range_def)

lemma info_frames [simp]:
  "func_info (q\<lparr>hTxnDoneQueue := d\<rparr>) f = func_info q f" "func_info (q\<lparr>cbLog := l\<rparr>) f = func_info q f"
  "func_info (q\<lparr>bSchedulerBusy := b\<rparr>) f = func_info q f" "func_info (q\<lparr>txnMem := m\<rparr>) f = func_info q f"
  "func_info (q\<lparr>pCurrTxn := c\<rparr>) f = func_info q f" "txn_queue (q\<lparr>pCurrTxn := c\<rparr>) f p = txn_queue q f p"
  "txn_queue (q\<lparr>txnMem := m\<rparr>) f p = txn_queue q f p" "txn_queue (q\<lparr>hTxnDoneQueue := d\<rparr>) f p = txn_queue q f p"
  "txn_queue (q\<lparr>cbLog := l\<rparr>) f p = txn_queue q f p" "txn_queue (q\<lparr>bSchedulerBusy := b\<rparr>) f p = txn_queue q f p"
  by (simp_all add: func_info_def txn_queue_def)

lemma select_frames [simp]:
  "txnQ_SelectTxn (q\<lparr>hTxnDoneQueue := d\<rparr>) = None \<longleftrightarrow> txnQ_SelectTxn q = None"
  "txnQ_SelectTxn (q\<lparr>cbLog := l\<rparr>) = None \<longleftrightarrow> txnQ_SelectTxn q = None"
  "txnQ_SelectTxn (q\<lparr>bSchedulerBusy := b\<rparr>) = None \<longleftrightarrow> txnQ_SelectTxn q = None"
  unfolding select_none by (simp_all split: option.splits)

section \<open>The scheduler returns and leaves no work\<close>

lemma submit_frames [simp]:
  "cbLog (snd (txn_submit t q)) = cbLog q" "bSchedulerPend (snd (txn_submit t q)) = bSchedulerPend q"
  "pCurrTxn (snd (txn_submit t q)) = pCurrTxn q"
  by (auto simp: txn_submit_def Let_def split_beta upd_func_def set_queue_def drop_single_def split: option.splits)

lemma submit_refused: "\<not> fst (txn_submit t q) \<Longrightarrow> snd (txn_submit t q) = q"
  by (auto simp: txn_submit_def Let_def split_beta split: if_splits)

lemma busy_submits_log [simp]: "cbLog (busy_submits ts q) = cbLog q" "pCurrTxn (busy_submits ts q) = pCurrTxn q"
proof -
  have "cbLog (busy_submits ts q) = cbLog q \<and> pCurrTxn (busy_submits ts q) = pCurrTxn q"
  proof (induction ts arbitrary: q)
    case (Cons t ts)
    then show ?case using submit_frames [of t q] by (simp add: Let_def split_beta)
  qed simp
  then show "cbLog (busy_submits ts q) = cbLog q" "pCurrTxn (busy_submits ts q) = pCurrTxn q" by auto
qed

lemma busy_submits_pend: "bSchedulerPend q \<Longrightarrow> bSchedulerPend (busy_submits ts q)"
proof (induction ts arbitrary: q)
  case (Cons t ts)
  then show ?case using submit_frames(2) [of t q] by (simp add: Let_def split_beta)
qed simp

lemma busy_submits_idle: "\<not> bSchedulerPend (busy_submits ts q) \<Longrightarrow> busy_submits ts q = q"
proof (induction ts arbitrary: q)
  case (Cons t ts)
  have "\<not> fst (txn_submit t q)"
    using Cons.prems busy_submits_pend [of "(snd (txn_submit t q))\<lparr>bSchedulerPend := True\<rparr>" ts]
    by (auto simp: Let_def split_beta)
  with Cons submit_refused [OF this] show ?case by (simp add: Let_def split_beta)
qed simp

lemma report_idle:
  "\<not> bSchedulerPend (report_txn client t q) \<Longrightarrow> report_txn client t q = q\<lparr>cbLog := cbLog q @ [t]\<rparr>"
  using busy_submits_idle by (auto simp: report_txn_def Let_def)

lemma report_log [simp]: "cbLog (report_txn client t q) = cbLog q @ [t]" "pCurrTxn (report_txn client t q) = pCurrTxn q"
  by (simp_all add: report_txn_def Let_def)

lemma report_pend: "bSchedulerPend q \<Longrightarrow> bSchedulerPend (report_txn client t q)"
  by (simp add: report_txn_def Let_def busy_submits_pend)

lemma done_loop_eq:
  "done_loop client q = (case fst (deq_h (hTxnDoneQueue q)) of None \<Rightarrow> q
     | Some t \<Rightarrow> done_loop client (report_txn client t (q\<lparr>hTxnDoneQueue := snd (deq_h (hTxnDoneQueue q))\<rparr>)))"
  by (subst done_loop.simps) (simp split: prod.splits option.splits)

lemma done_loop_induct [case_names step]:
  assumes step: "\<And>q. (\<And>t. fst (deq_h (hTxnDoneQueue q)) = Some t \<Longrightarrow>
      P (report_txn client t (q\<lparr>hTxnDoneQueue := snd (deq_h (hTxnDoneQueue q))\<rparr>))) \<Longrightarrow> P q"
  shows "P q"
proof (induction "length (items_h (hTxnDoneQueue q))" arbitrary: q rule: less_induct)
  case less
  show ?case
  proof (rule step)
    fix t assume "fst (deq_h (hTxnDoneQueue q)) = Some t"
    then have "deq_h (hTxnDoneQueue q) = (Some t, snd (deq_h (hTxnDoneQueue q)))" by (metis prod.collapse)
    from deq_h_some [OF this] show "P (report_txn client t (q\<lparr>hTxnDoneQueue := snd (deq_h (hTxnDoneQueue q))\<rparr>))"
      by (intro less.hyps) (simp add: report_txn_def Let_def)
  qed
qed

lemma done_loop_mono:
  "length (cbLog q) \<le> length (cbLog (done_loop client q))" "bSchedulerPend q \<Longrightarrow> bSchedulerPend (done_loop client q)"
  "pCurrTxn (done_loop client q) = pCurrTxn q"
proof -
  have "length (cbLog q) \<le> length (cbLog (done_loop client q)) \<and> (bSchedulerPend q \<longrightarrow> bSchedulerPend (done_loop client q)) \<and>
     pCurrTxn (done_loop client q) = pCurrTxn q"
  proof (induction q rule: done_loop_induct [where client = client])
    case (step q)
    let ?q = "q\<lparr>hTxnDoneQueue := snd (deq_h (hTxnDoneQueue q))\<rparr>"
    show ?case
    proof (cases "fst (deq_h (hTxnDoneQueue q))")
      case None
      then show ?thesis by (simp add: done_loop_eq [of client q])
    next
      case (Some t)
      from step [OF Some] report_pend [of ?q client t] Some show ?thesis
        by (simp add: done_loop_eq [of client q])
    qed
  qed
  then show "length (cbLog q) \<le> length (cbLog (done_loop client q))"
    "bSchedulerPend q \<Longrightarrow> bSchedulerPend (done_loop client q)"
    "pCurrTxn (done_loop client q) = pCurrTxn q" by auto
qed

text \<open>If the loop ends with no request pending, then no callback submitted anything.\<close>

lemma done_loop_idle:
  "\<not> bSchedulerPend (done_loop client q) \<Longrightarrow>
     (txnQ_SelectTxn (done_loop client q) = None \<longleftrightarrow> txnQ_SelectTxn q = None)"
proof (induction q rule: done_loop_induct [where client = client])
  case (step q)
  let ?q = "q\<lparr>hTxnDoneQueue := snd (deq_h (hTxnDoneQueue q))\<rparr>"
  show ?case
  proof (cases "fst (deq_h (hTxnDoneQueue q))")
    case None
    then show ?thesis by (simp add: done_loop_eq [of client q])
  next
    case (Some t)
    have d: "done_loop client q = done_loop client (report_txn client t ?q)" using Some by (simp add: done_loop_eq [of client q])
    have n: "\<not> bSchedulerPend (report_txn client t ?q)"
      using done_loop_mono(2) [of "report_txn client t ?q" client] step(2) d by auto
    from step(1) [OF Some] step(2) report_idle [OF n] show ?thesis by (simp add: d)
  qed
qed

text \<open>A silent client leaves nothing pending.\<close>

lemma done_loop_silent:
  assumes "\<And>l. n \<le> length l \<Longrightarrow> client l = []"
  shows "\<not> bSchedulerPend q \<Longrightarrow> n \<le> Suc (length (cbLog q)) \<Longrightarrow> \<not> bSchedulerPend (done_loop client q)"
proof (induction q rule: done_loop_induct [where client = client])
  case (step q)
  let ?q = "q\<lparr>hTxnDoneQueue := snd (deq_h (hTxnDoneQueue q))\<rparr>"
  show ?case
  proof (cases "fst (deq_h (hTxnDoneQueue q))")
    case None
    with step show ?thesis by (simp add: done_loop_eq [of client q])
  next
    case (Some t)
    from step(3) have "client (cbLog q @ [t]) = []" by (intro assms) simp
    then have "\<not> bSchedulerPend (report_txn client t ?q)" using step(2) by (simp add: report_txn_def Let_def)
    from step(1) [OF Some this] step(3) Some show ?thesis by (simp add: done_loop_eq [of client q])
  qed
qed

lemma done_loop_reports:
  assumes "bSchedulerPend (done_loop client q)" "\<not> bSchedulerPend q"
  shows "length (cbLog q) < length (cbLog (done_loop client q))"
proof (cases "fst (deq_h (hTxnDoneQueue q))")
  case None
  with assms show ?thesis by (simp add: done_loop_eq [of client q])
next
  case (Some t)
  let ?q = "q\<lparr>hTxnDoneQueue := snd (deq_h (hTxnDoneQueue q))\<rparr>"
  from done_loop_mono(1) [of "report_txn client t ?q" client] Some show ?thesis
    by (simp add: done_loop_eq [of client q])
qed

lemma select_log_frames:
  "txnQ_SelectTxn q = Some (t, q1) \<Longrightarrow> cbLog q1 = cbLog q \<and> bSchedulerPend q1 = bSchedulerPend q"
  by (erule select_cases) (simp_all add: upd_func_def set_queue_def)

lemma complete_frames [simp]:
  "cbLog (complete_txn i t q) = cbLog q" "bSchedulerPend (complete_txn i t q) = bSchedulerPend q"
  "pCurrTxn (complete_txn i t q) = None"
  by (simp_all add: complete_txn_def done_enqueue_def Let_def split_beta)

lemma send_loop_result:
  assumes "pCurrTxn q = None"
  shows "cbLog (snd (send_loop bus i st q)) = cbLog q \<and> bSchedulerPend (snd (send_loop bus i st q)) = bSchedulerPend q \<and>
     (pCurrTxn (snd (send_loop bus i st q)) = None \<longrightarrow> txnQ_SelectTxn (snd (send_loop bus i st q)) = None)"
  using assms
proof (induction bus i st q rule: send_loop.induct)
  case (1 bus i st q)
  show ?case
  proof (cases "txnQ_SelectTxn q")
    case None
    with 1 show ?thesis by (simp add: send_loop.simps [of bus i st q])
  next
    case (Some r)
    obtain t q1 where r: "r = (t, q1)" by force
    have fr: "cbLog q1 = cbLog q" "bSchedulerPend q1 = bSchedulerPend q" using select_log_frames Some r by blast+
    show ?thesis
    proof (cases "bus (busLog (send_txn t q1)) = TXN_STATUS_PENDING")
      case True
      with Some r fr show ?thesis by (simp add: send_loop.simps [of bus i st q] Let_def) (simp add: send_txn_def)
    next
      case False
      let ?st = "if Some t = i then bus (busLog (send_txn t q1)) else st"
      have "send_loop bus i st q = send_loop bus i ?st (complete_txn i t (send_txn t q1))"
        using Some r False by (simp add: send_loop.simps [of bus i st q] Let_def)
      with 1(1) [OF Some r [symmetric] refl refl refl False [unfolded not_not]] fr show ?thesis
        by (simp add: send_txn_def)
    qed
  qed
qed

text \<open>One round of the scheduler.\<close>

lemma scheduler_round:
  fixes bus client i
  assumes "\<not> bSchedulerPend q"
  defines "q' \<equiv> snd (txnQ_Scheduler bus client i q)"
  shows "\<not> bSchedulerPend q' \<Longrightarrow> pCurrTxn q' = None \<Longrightarrow> txnQ_SelectTxn q' = None"
    "bSchedulerPend q' \<Longrightarrow> length (cbLog q) < length (cbLog q')"
    "(\<And>l. n \<le> length l \<Longrightarrow> client l = []) \<Longrightarrow> n \<le> Suc (length (cbLog q)) \<Longrightarrow> \<not> bSchedulerPend q'"
    "length (cbLog q) \<le> length (cbLog q')"
proof -
  let ?s = "snd (send_loop bus i TXN_STATUS_PENDING q)"
  have e: "q' = (if pCurrTxn q \<noteq> None then q else done_loop client ?s)"
    by (simp add: q'_def txnQ_Scheduler_def split_beta)
  have s: "pCurrTxn q = None \<Longrightarrow> cbLog ?s = cbLog q \<and> bSchedulerPend ?s = bSchedulerPend q \<and>
     (pCurrTxn ?s = None \<longrightarrow> txnQ_SelectTxn ?s = None)" by (rule send_loop_result)
  show "\<not> bSchedulerPend q' \<Longrightarrow> pCurrTxn q' = None \<Longrightarrow> txnQ_SelectTxn q' = None"
    using s done_loop_idle [of client ?s] done_loop_mono(3) [of client ?s] by (auto simp: e split: if_splits)
  show "bSchedulerPend q' \<Longrightarrow> length (cbLog q) < length (cbLog q')"
    using s done_loop_reports [of client ?s] assms(1) by (auto simp: e split: if_splits)
  show "\<not> bSchedulerPend q'" if "\<And>l. n \<le> length l \<Longrightarrow> client l = []" "n \<le> Suc (length (cbLog q))"
    using s done_loop_silent [of n client ?s] that assms(1) by (auto simp: e split: if_splits)
  show "length (cbLog q) \<le> length (cbLog q')"
    using s done_loop_mono(1) [where q = "?s"] by (auto simp: e)
qed

lemma run_again_ok:
  assumes "\<And>l. n \<le> length l \<Longrightarrow> client l = []"
    and "\<not> bSchedulerPend q \<Longrightarrow> pCurrTxn q = None \<Longrightarrow> txnQ_SelectTxn q = None"
  shows "\<exists>q'. run_again bus client q = Some q' \<and> \<not> bSchedulerBusy q' \<and> \<not> bSchedulerPend q' \<and>
     (pCurrTxn q' \<noteq> None \<or> txnQ_SelectTxn q' = None)"
  using assms(2)
proof (induction "n - length (cbLog q) + (if bSchedulerPend q then 1 else 0 :: nat)" arbitrary: q rule: less_induct)
  case less
  let ?q = "q\<lparr>bSchedulerPend := False\<rparr>"
  let ?r = "snd (txnQ_Scheduler bus client None ?q)"
  show ?case
  proof (cases "bSchedulerPend q")
    case False
    with less.prems show ?thesis by (cases "pCurrTxn q") (simp_all add: run_again.simps [of bus client q])
  next
    case True
    note r = scheduler_round [where q = "?q" and bus = bus and client = client and i = None]
    have "n - length (cbLog ?r) + (if bSchedulerPend ?r then 1 else 0) < n - length (cbLog q) + 1"
      using r(2,4) r(3) [OF _ assms(1)] by (cases "bSchedulerPend ?r"; cases "n \<le> Suc (length (cbLog q))") auto
    then obtain q' where "run_again bus client ?r = Some q' \<and> \<not> bSchedulerBusy q' \<and> \<not> bSchedulerPend q' \<and>
        (pCurrTxn q' \<noteq> None \<or> txnQ_SelectTxn q' = None)"
      using less.hyps [of ?r] r(1) True by auto
    with True show ?thesis by (simp add: run_again.simps [of bus client q])
  qed
qed


text \<open>Between the calls of the external functions the scheduler is neither busy nor asked for.\<close>

definition txnq_quiet :: "TTxnQObj \<Rightarrow> bool" where
  "txnq_quiet q \<longleftrightarrow> \<not> bSchedulerBusy q \<and> \<not> bSchedulerPend q"

lemma run_again_quiet: "run_again bus client q = Some q' \<Longrightarrow> txnq_quiet q'"
proof (induction rule: run_again.raw_induct [rotated 1, consumes 1])
  case (1 f bus client q q')
  show ?case
  proof (cases "bSchedulerPend q")
    case True
    with 1(2) have "f bus client (snd (txnQ_Scheduler bus client None (q\<lparr>bSchedulerPend := False\<rparr>))) = Some q'" by simp
    from 1(1) [OF this] show ?thesis .
  next
    case False
    with 1(2) show ?thesis by (auto simp: txnq_quiet_def)
  qed
qed

lemma run_quiet: "\<not> bSchedulerBusy q \<Longrightarrow> txnQ_RunScheduler bus client i q = Some (st, q') \<Longrightarrow> txnq_quiet q'"
  by (auto simp: txnQ_RunScheduler_def split_beta intro: run_again_quiet)

lemma quiet_frames [simp]:
  "txnq_quiet (upd_func f g q) = txnq_quiet q" "txnq_quiet (set_queue f p h q) = txnq_quiet q"
  "txnq_quiet (drop_single f q) = txnq_quiet q" "txnq_quiet (q\<lparr>dropLog := l\<rparr>) = txnq_quiet q"
  "txnq_quiet (q\<lparr>accLog := l\<rparr>) = txnq_quiet q" "txnq_quiet (q\<lparr>uMinFuncId := a\<rparr>) = txnq_quiet q"
  "txnq_quiet (q\<lparr>uMaxFuncId := a\<rparr>) = txnq_quiet q" "txnq_quiet (q\<lparr>cbLog := l\<rparr>) = txnq_quiet q"
  "txnq_quiet (q\<lparr>txnMem := m\<rparr>) = txnq_quiet q" "txnq_quiet (q\<lparr>pCurrTxn := c\<rparr>) = txnq_quiet q"
  "txnq_quiet (done_enqueue t q) = txnq_quiet q"
  by (simp_all add: txnq_quiet_def upd_func_def set_queue_def drop_single_def done_enqueue_def Let_def split_beta
      split: option.splits)

lemma quiet_foldl: "(\<And>q x. txnq_quiet (h q x) = txnq_quiet q) \<Longrightarrow> txnq_quiet (foldl h q xs) = txnq_quiet q"
  by (induction xs arbitrary: q) simp_all

lemma quiet_ops [simp]:
  "txnq_quiet (snd (txn_submit t q)) = txnq_quiet q" "txnq_quiet (txnQ_ClearQueues f q) = txnq_quiet q"
  "txnq_quiet (txnQ_Close f q) = txnq_quiet q" "txnq_quiet (idle_submits ts q) = txnq_quiet q"
  "txnq_quiet (snd (txnQ_Open f n cb hCb que_ok q)) = txnq_quiet q"
proof -
  show sub: "txnq_quiet (snd (txn_submit t q)) = txnq_quiet q" for t q
    by (simp add: txn_submit_def Let_def split_beta)
  have "txnq_quiet (clear_queue f q i) = txnq_quiet q" for q i by (simp add: clear_queue_def split: option.splits)
  then show "txnq_quiet (txnQ_ClearQueues f q) = txnq_quiet q" by (simp add: txnQ_ClearQueues_def Let_def quiet_foldl)
  have "txnq_quiet (close_queue f q i) = txnq_quiet q" for q i by (simp add: close_queue_def)
  then show "txnq_quiet (txnQ_Close f q) = txnq_quiet q" by (simp add: txnQ_Close_def Let_def quiet_foldl)
  show "txnq_quiet (idle_submits ts q) = txnq_quiet q" by (induction ts arbitrary: q) (simp_all add: sub)
  have "txnq_quiet (snd (open_queues f que_ok xs q)) = txnq_quiet q" for xs q
    by (induction xs arbitrary: q) simp_all
  then show "txnq_quiet (snd (txnQ_Open f n cb hCb que_ok q)) = txnq_quiet q"
    by (simp add: txnQ_Open_def Let_def split_beta)
qed

lemma transact_quiet: "txnq_quiet q \<Longrightarrow> txnQ_Transact bus client t q = Some (st, q') \<Longrightarrow> txnq_quiet q'"
  using quiet_ops(1) [of t q] run_quiet [of "snd (txn_submit t q)" bus client "Some t" st q']
  by (auto simp: txnQ_Transact_def split_beta txnq_quiet_def split: if_splits)

text \<open>A completed transaction goes to the done queue, or is reported to its restarted function.\<close>

definition done_state :: "(addr list \<Rightarrow> addr list) \<Rightarrow> addr \<Rightarrow> TTxnQObj \<Rightarrow> TTxnQObj" where
  "done_state client t q =
     (let f = txn_func q t
      in (if eState (func_info q f) = FUNC_STATE_RESTART then
            (let q = txnQ_ClearQueues f q;
                 q = q\<lparr>txnMem := (txnMem q)(t := TXN_PARAM_SET_STATUS TXN_PARAM_STATUS_RECOVERY (txnMem q t)),
                       cbLog := cbLog q @ [t]\<rparr>
             in idle_submits (client (cbLog q)) q)
          else done_enqueue t q)\<lparr>pCurrTxn := None\<rparr>)"

lemma TxnDoneCb_eq:
  "txnQ_TxnDoneCb bus client t q = map_option snd (txnQ_RunScheduler bus client None (done_state client t q))"
  by (simp add: txnQ_TxnDoneCb_def done_state_def Let_def)

lemma done_state_quiet: "txnq_quiet (done_state client t q) = txnq_quiet q"
  by (simp add: done_state_def Let_def)

lemma reach_quiet: "txnq_reach bus client q \<Longrightarrow> txnq_quiet q"
proof (induction rule: txnq_reach.induct)
  case (create mem q ok)
  then show ?case by (auto simp: txnQ_Create_def txnQ_Init_def txnq_quiet_def)
next
  case (transact q t st q')
  then show ?case using transact_quiet by blast
next
  case (completed q t q')
  then have b: "\<not> bSchedulerBusy (done_state client t q)" using done_state_quiet [of client t q] by (simp add: txnq_quiet_def)
  from completed obtain st where "txnQ_RunScheduler bus client None (done_state client t q) = Some (st, q')"
    unfolding TxnDoneCb_eq map_option_eq_Some by (metis prod.collapse)
  with b show ?case by (rule run_quiet)
next
  case (run q f q')
  let ?q = "upd_func f (\<lambda>fi. fi\<lparr>eState := FUNC_STATE_RUNNING\<rparr>) q"
  have "txnq_quiet ?q" using run by simp
  then have b: "\<not> bSchedulerBusy ?q" unfolding txnq_quiet_def by (rule conjunct1)
  from run obtain st where "txnQ_RunScheduler bus client None ?q = Some (st, q')"
    unfolding txnQ_Run_def map_option_eq_Some by (metis prod.collapse)
  with b show ?case by (rule run_quiet)
next
  case (restart q f)
  then show ?case by (cases "pCurrTxn q") (simp_all add: txnQ_Restart_def)
qed (simp_all add: txnQ_Stop_def)

lemma run_returns:
  assumes "txnq_quiet q" "\<And>l. n \<le> length l \<Longrightarrow> client l = []"
  shows "\<exists>st q'. txnQ_RunScheduler bus client i q = Some (st, q') \<and> (pCurrTxn q' \<noteq> None \<or> txnQ_SelectTxn q' = None)"
proof -
  let ?q = "q\<lparr>bSchedulerBusy := True\<rparr>"
  note r = scheduler_round [where q = ?q and bus = bus and client = client and i = i]
  have "\<exists>q'. run_again bus client (snd (txnQ_Scheduler bus client i ?q)) = Some q' \<and> \<not> bSchedulerBusy q' \<and>
      \<not> bSchedulerPend q' \<and> (pCurrTxn q' \<noteq> None \<or> txnQ_SelectTxn q' = None)"
    by (rule run_again_ok [OF assms(2)]) (use r(1) assms(1) in \<open>auto simp: txnq_quiet_def\<close>)
  then show ?thesis using assms(1) by (auto simp: txnQ_RunScheduler_def split_beta txnq_quiet_def)
qed

end
