(* ===== verification/WlTxnProps.thy ===== *)
theory WlTxnProps
  imports WlTxnReach
begin

text \<open>
  The properties of the transaction queue: that the scheduler returns and leaves no work, its accounts
  and its order in every reachable state, the choice of the next transaction, and restarts.
\<close>

section \<open>The scheduler returns\<close>

text \<open>
  C12. The scheduler returns and conserves work: in every state that the external functions reach, if
  the clients' callbacks submit no more transactions once n of them have been reported, then
  txnQ_Transact, txnQ_Run and txnQ_TxnDoneCb return, and afterwards a
  transaction is on the bus or nothing can be sent (or, for txnQ_Transact, the transaction was
  refused and nothing changed).
\<close>

theorem txnQ_returns:
  assumes "txnq_reach bus client q" "\<forall>l. n \<le> length l \<longrightarrow> client l = []"
  shows "(\<exists>st q'. txnQ_Transact bus client t q = Some (st, q') \<and>
      (st = TXN_STATUS_ERROR \<and> q' = q \<or> pCurrTxn q' \<noteq> None \<or> txnQ_SelectTxn q' = None)) \<and>
    (\<exists>q'. txnQ_Run bus client f q = Some q' \<and> (pCurrTxn q' \<noteq> None \<or> txnQ_SelectTxn q' = None)) \<and>
    (\<exists>q'. txnQ_TxnDoneCb bus client c q = Some q' \<and> (pCurrTxn q' \<noteq> None \<or> txnQ_SelectTxn q' = None))"
proof (intro conjI)
  have c: "\<And>l. n \<le> length l \<Longrightarrow> client l = []" using assms(2) by blast
  have q: "txnq_quiet q" by (rule reach_quiet [OF assms(1)])
  have R: "txnq_quiet q \<Longrightarrow> \<exists>st q'. txnQ_RunScheduler bus client i q = Some (st, q') \<and>
      (pCurrTxn q' \<noteq> None \<or> txnQ_SelectTxn q' = None)" for q i by (rule run_returns [OF _ c])
  show "\<exists>st q'. txnQ_Transact bus client t q = Some (st, q') \<and>
      (st = TXN_STATUS_ERROR \<and> q' = q \<or> pCurrTxn q' \<noteq> None \<or> txnQ_SelectTxn q' = None)"
  proof (cases "fst (txn_submit t q)")
    case True
    then show ?thesis using R [of "snd (txn_submit t q)" "Some t"] q by (auto simp: txnQ_Transact_def split_beta)
  next
    case False
    with submit_refused [OF False] show ?thesis by (simp add: txnQ_Transact_def split_beta)
  qed
  show "\<exists>q'. txnQ_Run bus client f q = Some q' \<and> (pCurrTxn q' \<noteq> None \<or> txnQ_SelectTxn q' = None)"
    using R [of "upd_func f (\<lambda>fi. fi\<lparr>eState := FUNC_STATE_RUNNING\<rparr>) q" None] q by (auto simp: txnQ_Run_def)
  show "\<exists>q'. txnQ_TxnDoneCb bus client c q = Some q' \<and> (pCurrTxn q' \<noteq> None \<or> txnQ_SelectTxn q' = None)"
    using R [of "done_state client c q" None] q by (auto simp: TxnDoneCb_eq done_state_quiet)
qed


section \<open>Accounts and order\<close>

text \<open>
  C11. No transaction is lost or duplicated: in every reachable state the accepted transactions are
  exactly those that wait in a queue or a single-step slot, the one on the bus, those that wait for
  their report, those reported or returned to the caller, and those dropped (by a restart, a close, an
  overwritten single step, or a done queue that cannot take them). A queue exists only below its
  function's number of priorities, and the scheduler is neither busy nor asked for.
\<close>

theorem txnQ_accounts:
  assumes "txnq_reach bus client q"
  shows "mset (accLog q) = waiting q + curr_txn q + mset (items_h (hTxnDoneQueue q)) + mset (cbLog q) +
      mset (retLog q) + mset (dropLog q) \<and>
    (\<forall>f p. txn_queue q f p \<noteq> None \<longrightarrow> p < unat (uNumPrios (func_info q f))) \<and>
    \<not> bSchedulerBusy q \<and> \<not> bSchedulerPend q"
  using reach_txnq_inv [OF assms] reach_quiet [OF assms] queue_used
  by (auto simp: txnq_inv_def txn_acct_def txnq_quiet_def)

text \<open>
  C13. First in, first out: for every function and priority, the regular transactions that were sent
  to the bus and then those that wait in the queue stand in the order in which they were accepted.
\<close>

theorem txnQ_fifo:
  assumes "txnq_reach bus client q"
  shows "subseq (filter (is_class (txnMem q) f p) (busLog q) @ items_h (txn_queue q f p))
      (filter (is_class (txnMem q) f p) (accLog q))"
  using reach_txnq_inv [OF assms] by (simp add: txnq_inv_def txn_order_def)

section \<open>The choice of the next transaction\<close>

lemma sel_single_first:
  "sel_single fs q = Some (t, q') \<Longrightarrow> sorted fs \<Longrightarrow> \<exists>f\<in>set fs. pSingleStep (func_info q f) = Some t \<and>
     (\<forall>g\<in>set fs. g < f \<longrightarrow> pSingleStep (func_info q g) = None)"
proof (induction fs)
  case (Cons f fs)
  show ?case
  proof (cases "pSingleStep (func_info q f)")
    case None
    with Cons show ?thesis by auto
  next
    case (Some x)
    with Cons.prems show ?thesis by (intro bexI [of _ f]) auto
  qed
qed simp

text \<open>Priority first, then the function number.\<close>

definition before :: "nat \<times> nat \<Rightarrow> nat \<times> nat \<Rightarrow> bool" where
  "before x y \<longleftrightarrow> fst x < fst y \<or> fst x = fst y \<and> snd x < snd y"

lemma prio_range_sorted: "sorted_wrt before (prio_range q)"
proof -
  have "sorted_wrt (<) (func_range q)" unfolding func_range_def by (rule sorted_wrt_upt)
  then show ?thesis
    by (auto simp: prio_range_def MAX_PRIORITY_def eval_nat_numeral sorted_wrt_append sorted_wrt_map before_def)
qed

lemma sel_prio_skip:
  assumes "\<not> serves q f p"
  shows "sel_prio ((p, f) # r) q = sel_prio r q"
proof -
  obtain x h where d: "deq_h (txn_queue q f p) = (x, h)" by force
  with assms deq_h_some [of "txn_queue q f p" _ h] show ?thesis by (cases x) (auto simp: serves_def)
qed

lemma sel_prio_take:
  assumes "serves q f p" "sel_prio ((p, f) # r) q = Some (t, q')"
  shows "\<exists>ts. items_h (txn_queue q f p) = t # ts"
proof -
  obtain x h where d: "deq_h (txn_queue q f p) = (x, h)" by force
  with assms deq_h_none [of "txn_queue q f p" h] deq_h_some [of "txn_queue q f p" _ h] show ?thesis
    by (cases x) (auto simp: serves_def Let_def)
qed

lemma sel_prio_first:
  "sel_prio r q = Some (t, q') \<Longrightarrow> sorted_wrt before r \<Longrightarrow> \<exists>(p, f)\<in>set r. serves q f p \<and>
     (\<exists>ts. items_h (txn_queue q f p) = t # ts) \<and> (\<forall>(p', f')\<in>set r. before (p', f') (p, f) \<longrightarrow> \<not> serves q f' p')"
proof (induction r)
  case (Cons x r)
  obtain p f where x: "x = (p, f)" by force
  show ?case
  proof (cases "serves q f p")
    case True
    from Cons.prems(2) have "\<forall>y\<in>set r. \<not> before y (p, f)" unfolding x by (fastforce simp: before_def)
    moreover have "\<not> before (p, f) (p, f)" by (simp add: before_def)
    ultimately show ?thesis using True sel_prio_take [OF True Cons.prems(1) [unfolded x]] unfolding x
      by (intro bexI [of _ "(p, f)"]) auto
  next
    case False
    with Cons.prems(1) have "sel_prio r q = Some (t, q')" by (simp add: x sel_prio_skip del: sel_prio.simps)
    with Cons have "\<exists>(p, f)\<in>set r. serves q f p \<and> (\<exists>ts. items_h (txn_queue q f p) = t # ts) \<and>
       (\<forall>(p', f')\<in>set r. before (p', f') (p, f) \<longrightarrow> \<not> serves q f' p')" by simp
    with False show ?thesis unfolding x by fastforce
  qed
qed simp

text \<open>
  The choice of the next transaction, in every state outside an aggregation: a single step comes
  before every queue, of the lowest function that has one; without single steps the transaction is
  the oldest of the queue of the best priority, and at that priority of the lowest function, among
  the non-empty queues of the running functions; and nothing is chosen only when there is neither.
\<close>

theorem txnQ_priority:
  assumes "pAggregQueue q = None"
  shows "case txnQ_SelectTxn q of
      None \<Rightarrow> (\<forall>f\<in>set (func_range q). pSingleStep (func_info q f) = None \<and> (\<forall>p<2. \<not> serves q f p))
    | Some (t, q') \<Rightarrow>
        (\<exists>f\<in>set (func_range q). pSingleStep (func_info q f) = Some t \<and>
           (\<forall>g\<in>set (func_range q). g < f \<longrightarrow> pSingleStep (func_info q g) = None)) \<or>
        (\<forall>f\<in>set (func_range q). pSingleStep (func_info q f) = None) \<and>
        (\<exists>p<2. \<exists>f\<in>set (func_range q). serves q f p \<and> (\<exists>ts. items_h (txn_queue q f p) = t # ts) \<and>
           (\<forall>p'<2. \<forall>f'\<in>set (func_range q). p' < p \<or> p' = p \<and> f' < f \<longrightarrow> \<not> serves q f' p'))"
proof (cases "txnQ_SelectTxn q")
  case None
  show ?thesis using assms None [unfolded select_none] unfolding None by (auto simp: prio_range_def MAX_PRIORITY_def)
next
  case (Some r)
  obtain t q' where r: "r = (t, q')" by force
  show ?thesis
  proof (cases "sel_single (func_range q) q")
    case None
    with Some r assms have "sel_prio (prio_range q) q = Some (t, q')" by (simp add: txnQ_SelectTxn_def)
    from sel_prio_first [OF this prio_range_sorted] None Some r show ?thesis
      by (fastforce simp: sel_single_none prio_range_def MAX_PRIORITY_def before_def)
  next
    case (Some x)
    with \<open>txnQ_SelectTxn q = Some r\<close> r assms have s: "sel_single (func_range q) q = Some (t, q')" by (simp add: txnQ_SelectTxn_def)
    have "sorted (func_range q)" by (simp add: func_range_def del: upt_Suc)
    from sel_single_first [OF s this] \<open>txnQ_SelectTxn q = Some r\<close> r show ?thesis by simp
  qed
qed

text \<open>
  A burst is not interrupted: in every reachable state within an aggregation, only the queue that
  started it is served - not even a single step comes between - its oldest transaction is next, and
  the aggregation goes on until a transaction of that queue without the aggregation mark.
\<close>

theorem txnQ_burst:
  assumes "txnq_reach bus client q" "pAggregQueue q = Some (f, p)"
  shows "case txnQ_SelectTxn q of
      None \<Rightarrow> items_h (txn_queue q f p) = []
    | Some (t, q') \<Rightarrow> is_class (txnMem q) f p t \<and> items_h (txn_queue q f p) = t # items_h (txn_queue q' f p) \<and>
        pAggregQueue q' = (if TXN_PARAM_GET_AGGREGATE (txnMem q t) = TXN_AGGREGATE_OFF then None else Some (f, p))"
proof -
  obtain x h where d: "deq_h (txn_queue q f p) = (x, h)" by force
  show ?thesis
  proof (cases x)
    case None
    with d assms(2) deq_h_none [of "txn_queue q f p" h] show ?thesis by (simp add: txnQ_SelectTxn_def)
  next
    case (Some t)
    from deq_h_some [OF d [unfolded Some]] have i: "items_h (txn_queue q f p) = t # items_h h" by simp
    then have "f < length (aTxnQueues q) \<and> p < length (aTxnQueues q ! f)"
      by (auto simp: txn_queue_def items_h_def split: if_splits)
    moreover have "is_class (txnMem q) f p t"
      using reach_txnq_inv [OF assms(1)] i unfolding txnq_inv_def txn_order_def by (metis list.set_intros(1))
    ultimately show ?thesis using d Some assms(2) i
      by (simp add: txnQ_SelectTxn_def Let_def txn_queue_set) (simp add: set_queue_def)
  qed
qed


section \<open>Restart\<close>

lemma clear_queues_result:
  "func_info (foldl (clear_queue f) q xs) g = func_info q g"
  "txnMem (foldl (clear_queue f) q xs) = txnMem q" "cbLog (foldl (clear_queue f) q xs) = cbLog q"
  "items_h (txn_queue (foldl (clear_queue f) q xs) g p) =
     (if g = f \<and> p \<in> set xs then [] else items_h (txn_queue q g p))"
proof -
  have c: "func_info (clear_queue f q i) g = func_info q g" "txnMem (clear_queue f q i) = txnMem q"
    "cbLog (clear_queue f q i) = cbLog q" for q i g
    by (simp_all add: clear_queue_def set_queue_def func_info_def split: option.splits)
  have d: "items_h (txn_queue (clear_queue f q i) g p) = (if g = f \<and> p = i then [] else items_h (txn_queue q g p))" for q i g p
    by (auto simp: clear_queue_def txn_queue_set items_h_def split: option.splits if_splits)
      (auto simp: txn_queue_def split: if_splits)
  show "func_info (foldl (clear_queue f) q xs) g = func_info q g"
    "txnMem (foldl (clear_queue f) q xs) = txnMem q" "cbLog (foldl (clear_queue f) q xs) = cbLog q"
    "items_h (txn_queue (foldl (clear_queue f) q xs) g p) =
       (if g = f \<and> p \<in> set xs then [] else items_h (txn_queue q g p))"
    by (induction xs arbitrary: q) (auto simp: c d)
qed

text \<open>A cleared function runs and has nothing to send; the other functions are as they were.\<close>

definition cleared :: "nat \<Rightarrow> TTxnQObj \<Rightarrow> TTxnQObj \<Rightarrow> bool" where
  "cleared f q c \<longleftrightarrow> eState (func_info c f) = FUNC_STATE_RUNNING \<and> pSingleStep (func_info c f) = None \<and>
     uNumPrios (func_info c f) = uNumPrios (func_info q f) \<and> (\<forall>p. items_h (txn_queue c f p) = []) \<and>
     (\<forall>g p. g \<noteq> f \<longrightarrow> func_info c g = func_info q g \<and> items_h (txn_queue c g p) = items_h (txn_queue q g p)) \<and>
     cbLog c = cbLog q"

lemma clear_cleared:
  assumes "txnq_wf q" "f < 4"
  shows "cleared f q (txnQ_ClearQueues f q)" "txnMem (txnQ_ClearQueues f q) = txnMem q"
proof -
  have none: "unat (uNumPrios (func_info q f)) \<le> p \<Longrightarrow> items_h (txn_queue q f p) = []" for p
    using assms(1) by (simp add: txnq_wf_def items_h_def)
  have len: "length (aFuncInfo q) = 4" using assms(1) by (simp add: txnq_wf_def)
  have ds: "func_info (drop_single f q) = func_info q" "txn_queue (drop_single f q) = txn_queue q"
    "aFuncInfo (drop_single f q) = aFuncInfo q" "txnMem (drop_single f q) = txnMem q" "cbLog (drop_single f q) = cbLog q"
    by (auto simp: drop_single_def func_info_def txn_queue_def fun_eq_iff split: option.splits)
  have al: "length (aFuncInfo (foldl (clear_queue f) q xs)) = length (aFuncInfo q)" for q xs
    by (induction xs arbitrary: q) (simp_all add: clear_queue_def split: option.splits)
  show "txnMem (txnQ_ClearQueues f q) = txnMem q"
    by (simp add: txnQ_ClearQueues_def Let_def upd_func_def clear_queues_result ds)
  have cb: "cbLog (upd_func f g q) = cbLog q" for g q by (simp add: upd_func_def)
  show "cleared f q (txnQ_ClearQueues f q)"
    using none len assms(2)
    by (auto simp: cleared_def txnQ_ClearQueues_def Let_def func_info_upd clear_queues_result ds al cb not_less)
qed


text \<open>
  C30. Restart, in every reachable state: while the function has a transaction on the bus the restart
  answers PENDING and is put off (nothing is removed, and the function's queues are closed to the
  bus). Otherwise it answers COMPLETE and the queues are cleared at once. When the transaction on the
  bus completes and its function still waits for the restart, whatever was called meanwhile, the
  function's queues are cleared and it runs again, this one transaction is reported with the RECOVERY
  status, what the callback submits is queued, and the scheduler runs with the bus free. Nothing of
  another function is touched by the clearing, and the dropped transactions are not reported.
\<close>

theorem txnQ_restart:
  assumes "txnq_reach bus client q" "f < 4" "txnQ_Restart f q = (st, q1)"
  shows "(if \<exists>t. pCurrTxn q = Some t \<and> txn_func q t = f
      then st = TXN_STATUS_PENDING \<and> (\<forall>p. \<not> serves q1 f p) \<and> waiting q1 = waiting q \<and> pCurrTxn q1 = pCurrTxn q \<and>
        eState (func_info q1 f) = FUNC_STATE_RESTART
      else st = TXN_STATUS_COMPLETE \<and> cleared f q q1 \<and> pCurrTxn q1 = pCurrTxn q) \<and>
    (\<forall>t. pCurrTxn q = Some t \<and> txn_func q t = f \<and> eState (func_info q f) = FUNC_STATE_RESTART \<longrightarrow>
      (\<exists>c. cleared f q c \<and> pCurrTxn c = Some t \<and>
         txnMem c = (txnMem q)(t := TXN_PARAM_SET_STATUS TXN_PARAM_STATUS_RECOVERY (txnMem q t)) \<and>
         txnQ_TxnDoneCb bus client t q = map_option snd (txnQ_RunScheduler bus client None
           ((idle_submits (client (cbLog q @ [t])) (c\<lparr>cbLog := cbLog q @ [t]\<rparr>))\<lparr>pCurrTxn := None\<rparr>))))"
proof (intro conjI allI impI)
  have wf: "txnq_wf q" using reach_txnq_inv [OF assms(1)] by (simp add: txnq_inv_def)
  then have len: "f < length (aFuncInfo q)" using assms(2) by (simp add: txnq_wf_def)
  let ?r = "upd_func f (\<lambda>fi. fi\<lparr>eState := FUNC_STATE_RESTART\<rparr>) q"
  show "if \<exists>t. pCurrTxn q = Some t \<and> txn_func q t = f
      then st = TXN_STATUS_PENDING \<and> (\<forall>p. \<not> serves q1 f p) \<and> waiting q1 = waiting q \<and> pCurrTxn q1 = pCurrTxn q \<and>
        eState (func_info q1 f) = FUNC_STATE_RESTART
      else st = TXN_STATUS_COMPLETE \<and> cleared f q q1 \<and> pCurrTxn q1 = pCurrTxn q"
  proof (cases "\<exists>t. pCurrTxn q = Some t \<and> txn_func q t = f")
    case False
    with assms(3) have "st = TXN_STATUS_COMPLETE" "q1 = txnQ_ClearQueues f q"
      by (auto simp: txnQ_Restart_def split: option.splits if_splits)
    with False clear_cleared [OF wf assms(2)] show ?thesis by simp
  next
    case True
    with assms(3) have "st = TXN_STATUS_PENDING" "q1 = ?r" by (auto simp: txnQ_Restart_def)
    with True len show ?thesis
      using waiting_upd_func [of f "\<lambda>fi. fi\<lparr>eState := FUNC_STATE_RESTART\<rparr>" q]
      by (auto simp: serves_def func_info_upd)
  qed
  fix t assume t: "pCurrTxn q = Some t \<and> txn_func q t = f \<and> eState (func_info q f) = FUNC_STATE_RESTART"
  let ?k = "txnQ_ClearQueues f q"
  let ?c = "?k\<lparr>txnMem := (txnMem q)(t := TXN_PARAM_SET_STATUS TXN_PARAM_STATUS_RECOVERY (txnMem q t))\<rparr>"
  note k = clear_cleared [OF wf assms(2)]
  have cb: "cbLog ?k = cbLog q" using k(1) by (simp add: cleared_def)
  have "cleared f q ?c" using k(1) by (simp add: cleared_def)
  moreover have "pCurrTxn ?c = Some t" using t by simp
  moreover have "done_state client t q =
      (idle_submits (client (cbLog q @ [t])) (?c\<lparr>cbLog := cbLog q @ [t]\<rparr>))\<lparr>pCurrTxn := None\<rparr>"
    using t by (simp add: done_state_def Let_def k(2) cb)
  ultimately show "\<exists>c. cleared f q c \<and> pCurrTxn c = Some t \<and>
      txnMem c = (txnMem q)(t := TXN_PARAM_SET_STATUS TXN_PARAM_STATUS_RECOVERY (txnMem q t)) \<and>
      txnQ_TxnDoneCb bus client t q = map_option snd (txnQ_RunScheduler bus client None
        ((idle_submits (client (cbLog q @ [t])) (c\<lparr>cbLog := cbLog q @ [t]\<rparr>))\<lparr>pCurrTxn := None\<rparr>))"
    by (intro exI [of _ ?c]) (simp add: TxnDoneCb_eq)
qed


section \<open>A scenario\<close>

text \<open>
  Function 2 with two priorities, as the WLAN driver opens it, on a bus that answers PENDING:
  transaction 1 is a regular one of priority 1, transaction 2 of priority 0, transaction 3 opens a
  burst at priority 1, and transaction 4 is a single step.
\<close>

definition ex_txn :: "TI_UINT32 \<Rightarrow> TTxnStruct" where
  "ex_txn p = \<lparr>uTxnParams = p, uHwAddr = 0, fTxnDoneCb = 0, hCbHandle = 0, aLen = [4, 0], aBuf = [0, 0]\<rparr>"

definition ex_mem :: "addr \<Rightarrow> TTxnStruct" where
  "ex_mem t = ex_txn (if t = 1 then 0x09 else if t = 2 then 0x08 else if t = 3 then 0x1009 else 0x89)"

definition ex_bus :: "addr list \<Rightarrow> ETxnStatus" where "ex_bus l = TXN_STATUS_PENDING"
definition ex_client :: "addr list \<Rightarrow> addr list" where "ex_client l = []"

definition ex_obj :: "EFuncState \<Rightarrow> addr list \<Rightarrow> addr list \<Rightarrow> addr option \<Rightarrow> (nat \<times> nat) option \<Rightarrow> addr list \<Rightarrow> addr list \<Rightarrow> TTxnQObj" where
  "ex_obj st q0 q1 cur agg accs sent =
     \<lparr>aFuncInfo = [no_func, no_func, \<lparr>eState = st, uNumPrios = 2, fTxnQueueDoneCb = 7, fi_hCbHandle = 8,
        pSingleStep = None\<rparr>, no_func],
      aTxnQueues = [[None, None], [None, None], [Some q0, Some q1], [None, None]], hTxnDoneQueue = Some [],
      pCurrTxn = cur, uMinFuncId = 2, uMaxFuncId = 2, bSchedulerBusy = False, bSchedulerPend = False,
      fConnectCb = 0, hConnectCb = 0, pAggregQueue = agg, txnMem = ex_mem, accLog = accs, busLog = sent, cbLog = [], retLog = [], dropLog = []\<rparr>"

definition ex_q3 :: TTxnQObj where
  "ex_q3 = ex_obj FUNC_STATE_RUNNING [2] [1] (Some 3) (Some (2, 1)) [3, 1, 2] [3]"

lemma ex_lists:
  "[a, b, c, d][2 := x] = [a, b, x, d]" "[a, b, c, d] ! 2 = c" "[0..<2] = [0, 1::nat]" "[2..<3] = [2::nat]"
  "length [a, b, c, d] = 4" "length [u, v] = 2" "[u, v][1 := x] = [u, x]" "[u, v] ! 1 = v" "[u, v][0 := x] = [x, v]"
  "replicate 4 a = [a, a, a, a]" "replicate 2 a = [a, a]"
  by (simp_all add: upt_conv_Cons numeral_2_eq_2 [symmetric]) (simp_all add: eval_nat_numeral)

lemma ex_fields:
  "unat (TXN_PARAM_GET_FUNC_ID (ex_mem 1)) = 2" "unat (TXN_PARAM_GET_FUNC_ID (ex_mem 2)) = 2"
  "unat (TXN_PARAM_GET_FUNC_ID (ex_mem 3)) = 2" "unat (TXN_PARAM_GET_PRIORITY (ex_mem 1)) = 1"
  "unat (TXN_PARAM_GET_PRIORITY (ex_mem 2)) = 0" "unat (TXN_PARAM_GET_PRIORITY (ex_mem 3)) = 1"
  "TXN_PARAM_GET_SINGLE_STEP (ex_mem 1) = 0" "TXN_PARAM_GET_SINGLE_STEP (ex_mem 2) = 0"
  "TXN_PARAM_GET_SINGLE_STEP (ex_mem 3) = 0" "TXN_PARAM_GET_AGGREGATE (ex_mem 3) = TXN_AGGREGATE_ON"
  "unat (TXN_PARAM_GET_FUNC_ID (ex_mem 4)) = 2" "TXN_PARAM_GET_SINGLE_STEP (ex_mem 4) = 1"
  by code_simp+

lemmas ex_eval = ex_obj_def txnQ_RunScheduler_def txnQ_Scheduler_def send_loop.simps done_loop.simps run_again.simps
  txnQ_SelectTxn_def func_range_def prio_range_def MAX_PRIORITY_def upd_func_def func_info_def set_queue_def
  txn_queue_def items_h_def deq_h_def enq_h_def linked_txn_def queued_def send_txn_def
  no_func_def Let_def ex_bus_def ex_client_def ex_lists txn_submit_def fifo_enq_def ex_fields

lemma ex_open: "snd (txnQ_Open 2 2 7 8 (\<lambda>_. True) (txnQ_Init True (the (txnQ_Create True True ex_mem)))) =
    ex_obj FUNC_STATE_STOPPED [] [] None None [] []"
  by (simp add: txnQ_Create_def txnQ_Init_def txnQ_Open_def MAX_FUNCTIONS_def ex_eval)

lemma ex_run: "txnQ_Run ex_bus ex_client 2 (ex_obj FUNC_STATE_STOPPED [] [] None None [] []) =
    Some (ex_obj FUNC_STATE_RUNNING [] [] None None [] [])"
  by (simp add: txnQ_Run_def ex_eval)


lemma que_size [simp]: "TXN_QUE_SIZE = 4294967295"
  by (simp add: TXN_QUE_SIZE_def QUE_UNLIMITED_SIZE_def)

lemma ex_burst: "txnQ_Transact ex_bus ex_client 3 (ex_obj FUNC_STATE_RUNNING [] [] None None [] []) =
    Some (TXN_STATUS_PENDING, ex_obj FUNC_STATE_RUNNING [] [] (Some 3) (Some (2, 1)) [3] [3])"
  by (simp add: txnQ_Transact_def ex_eval)

lemma ex_wait: "txnQ_Transact ex_bus ex_client 1 (ex_obj FUNC_STATE_RUNNING [] [] (Some 3) (Some (2, 1)) [3] [3]) =
    Some (TXN_STATUS_PENDING, ex_obj FUNC_STATE_RUNNING [] [1] (Some 3) (Some (2, 1)) [3, 1] [3])"
  "txnQ_Transact ex_bus ex_client 2 (ex_obj FUNC_STATE_RUNNING [] [1] (Some 3) (Some (2, 1)) [3, 1] [3]) =
    Some (TXN_STATUS_PENDING, ex_obj FUNC_STATE_RUNNING [2] [1] (Some 3) (Some (2, 1)) [3, 1, 2] [3])"
  by (simp_all add: txnQ_Transact_def ex_eval)


lemma ex_reach:
  "txnq_reach ex_bus ex_client (ex_obj FUNC_STATE_RUNNING [] [] None None [] [])"
  "txnq_reach ex_bus ex_client (ex_obj FUNC_STATE_RUNNING [] [] (Some 3) (Some (2, 1)) [3] [3])"
  "txnq_reach ex_bus ex_client ex_q3"
proof -
  have "txnQ_Create True True ex_mem = Some (the (txnQ_Create True True ex_mem))" by (simp add: txnQ_Create_def)
  then have "txnq_reach ex_bus ex_client (txnQ_Init True (the (txnQ_Create True True ex_mem)))" by (rule txnq_reach.create)
  moreover have "eState (func_info (txnQ_Init True (the (txnQ_Create True True ex_mem))) 2) = FUNC_STATE_NONE"
    by (simp add: txnQ_Create_def txnQ_Init_def MAX_FUNCTIONS_def ex_eval)
  ultimately have "txnq_reach ex_bus ex_client (ex_obj FUNC_STATE_STOPPED [] [] None None [] [])"
    unfolding ex_open [symmetric] by (rule txnq_reach.opened)
  from txnq_reach.run [OF this ex_run]
  show r: "txnq_reach ex_bus ex_client (ex_obj FUNC_STATE_RUNNING [] [] None None [] [])" .
  from txnq_reach.transact [OF this ex_burst]
  show b: "txnq_reach ex_bus ex_client (ex_obj FUNC_STATE_RUNNING [] [] (Some 3) (Some (2, 1)) [3] [3])" .
  from txnq_reach.transact [OF txnq_reach.transact [OF b ex_wait(1)] ex_wait(2)]
  show "txnq_reach ex_bus ex_client ex_q3" unfolding ex_q3_def .
qed

lemma ex_q3_facts:
  "pCurrTxn ex_q3 = Some 3" "pAggregQueue ex_q3 = Some (2, 1)" "accLog ex_q3 = [3, 1, 2]" "busLog ex_q3 = [3]"
  "txn_func ex_q3 3 = 2" "cbLog ex_q3 = []"
  by (simp_all add: ex_q3_def ex_eval)

text \<open>The properties at concrete states.\<close>

lemma txnQ_accounts_witness:
  "mset [3, 1, 2] = waiting ex_q3 + curr_txn ex_q3 + mset (items_h (hTxnDoneQueue ex_q3)) + mset (cbLog ex_q3) +
      mset (retLog ex_q3) + mset (dropLog ex_q3)"
  using txnQ_accounts [OF ex_reach(3)] by (simp add: ex_q3_facts)

lemma txnQ_fifo_witness:
  "subseq (filter (is_class (txnMem ex_q3) 2 1) [3] @ items_h (txn_queue ex_q3 2 1)) (filter (is_class (txnMem ex_q3) 2 1) [3, 1, 2])"
  using txnQ_fifo [OF ex_reach(3), of 2 1] by (simp only: ex_q3_facts)

lemma txnQ_returns_witness:
  "\<exists>q'. txnQ_TxnDoneCb ex_bus ex_client 3 ex_q3 = Some q' \<and> (pCurrTxn q' \<noteq> None \<or> txnQ_SelectTxn q' = None)"
  using txnQ_returns [OF ex_reach(3), of 0 1 2 3] by (simp add: ex_client_def)

lemma txnQ_priority_witness:
  "\<exists>t q'. txnQ_SelectTxn (ex_q3\<lparr>pAggregQueue := None\<rparr>) = Some (t, q') \<and> t = 2"
proof -
  let ?q = "ex_q3\<lparr>pAggregQueue := None\<rparr>"
  have p: "\<forall>f\<in>set (func_range ?q). pSingleStep (func_info ?q f) = None" "serves ?q 2 0" "func_range ?q = [2]"
    "items_h (txn_queue ?q 2 0) = [2]"
    by (simp_all add: ex_q3_def serves_def ex_eval)
  have "pAggregQueue ?q = None" by simp
  from txnQ_priority [OF this] p show ?thesis
    by (cases "txnQ_SelectTxn ?q") (auto simp: less_2_cases_iff)
qed

lemma txnQ_burst_witness:
  "\<exists>q'. txnQ_SelectTxn ex_q3 = Some (1, q') \<and> pAggregQueue q' = None"
proof -
  have i: "items_h (txn_queue ex_q3 2 1) = [1]" "TXN_PARAM_GET_AGGREGATE (txnMem ex_q3 1) = TXN_AGGREGATE_OFF"
    by (simp add: ex_q3_def ex_eval, code_simp)
  from txnQ_burst [OF ex_reach(3) ex_q3_facts(2)] i show ?thesis
    by (cases "txnQ_SelectTxn ex_q3") auto
qed

lemma txnQ_restart_witness:
  "fst (txnQ_Restart 2 ex_q3) = TXN_STATUS_PENDING \<and> (\<exists>c. cleared 2 (snd (txnQ_Restart 2 ex_q3)) c \<and> pCurrTxn c = Some 3 \<and>
     txnQ_TxnDoneCb ex_bus ex_client 3 (snd (txnQ_Restart 2 ex_q3)) =
       map_option snd (txnQ_RunScheduler ex_bus ex_client None
         ((idle_submits (ex_client (cbLog (snd (txnQ_Restart 2 ex_q3)) @ [3]))
            (c\<lparr>cbLog := cbLog (snd (txnQ_Restart 2 ex_q3)) @ [3]\<rparr>))\<lparr>pCurrTxn := None\<rparr>)))"
proof -
  have f: "(2::nat) < 4" by simp
  let ?q = "snd (txnQ_Restart 2 ex_q3)"
  have 1: "fst (txnQ_Restart 2 ex_q3) = TXN_STATUS_PENDING" "pCurrTxn ?q = Some 3" "eState (func_info ?q 2) = FUNC_STATE_RESTART"
    using txnQ_restart [OF ex_reach(3) f, of "fst (txnQ_Restart 2 ex_q3)" ?q] by (auto simp: ex_q3_facts)
  have "txnMem ?q = txnMem ex_q3" by (simp add: txnQ_Restart_def txnQ_ClearQueues_def drop_single_def clear_queues_result upd_func_def Let_def split: option.splits)
  then have "txn_func ?q 3 = 2" using ex_q3_facts by simp
  then have "\<exists>c. cleared 2 ?q c \<and> pCurrTxn c = Some 3 \<and>
     txnQ_TxnDoneCb ex_bus ex_client 3 ?q = map_option snd (txnQ_RunScheduler ex_bus ex_client None
         ((idle_submits (ex_client (cbLog ?q @ [3])) (c\<lparr>cbLog := cbLog ?q @ [3]\<rparr>))\<lparr>pCurrTxn := None\<rparr>))"
    using txnQ_restart [OF txnq_reach.restart [OF ex_reach(3), of 2] f, of "fst (txnQ_Restart 2 ?q)" "snd (txnQ_Restart 2 ?q)"] 1(2,3)
    by auto
  with 1(1) show ?thesis by blast
qed

text \<open>The object after a restart during the burst.\<close>

definition ex_mem_rec :: "addr \<Rightarrow> TTxnStruct" where
  "ex_mem_rec = ex_mem(3 := TXN_PARAM_SET_STATUS TXN_PARAM_STATUS_RECOVERY (ex_mem 3))"

definition ex_after :: "addr list \<Rightarrow> addr option \<Rightarrow> addr list \<Rightarrow> TTxnQObj" where
  "ex_after q0 single accs =
     \<lparr>aFuncInfo = [no_func, no_func, \<lparr>eState = FUNC_STATE_RUNNING, uNumPrios = 2, fTxnQueueDoneCb = 7, fi_hCbHandle = 8,
        pSingleStep = single\<rparr>, no_func],
      aTxnQueues = [[None, None], [None, None], [Some q0, Some []], [None, None]], hTxnDoneQueue = Some [],
      pCurrTxn = None, uMinFuncId = 2, uMaxFuncId = 2, bSchedulerBusy = False, bSchedulerPend = False,
      fConnectCb = 0, hConnectCb = 0, pAggregQueue = Some (2, 1), txnMem = ex_mem_rec, accLog = accs, busLog = [3], cbLog = [3], retLog = [], dropLog = []\<rparr>"

lemma ex_fields_rec:
  "unat (TXN_PARAM_GET_FUNC_ID (ex_mem_rec 2)) = 2" "unat (TXN_PARAM_GET_PRIORITY (ex_mem_rec 2)) = 0"
  "TXN_PARAM_GET_SINGLE_STEP (ex_mem_rec 2) = 0" "unat (TXN_PARAM_GET_FUNC_ID (ex_mem_rec 4)) = 2"
  "TXN_PARAM_GET_SINGLE_STEP (ex_mem_rec 4) = 1"
  by code_simp+

lemma ex_restart: "txnQ_Restart 2 (ex_obj FUNC_STATE_RUNNING [] [] (Some 3) (Some (2, 1)) [3] [3]) =
    (TXN_STATUS_PENDING, ex_obj FUNC_STATE_RESTART [] [] (Some 3) (Some (2, 1)) [3] [3])"
  by (simp add: txnQ_Restart_def ex_eval)

lemma ex_restart_done: "txnQ_TxnDoneCb ex_bus ex_client 3 (ex_obj FUNC_STATE_RESTART [] [] (Some 3) (Some (2, 1)) [3] [3]) =
    Some (ex_after [] None [3])"
  by (simp add: txnQ_TxnDoneCb_def txnQ_ClearQueues_def drop_single_def clear_queue_def ex_after_def ex_mem_rec_def ex_eval)

lemma ex_restart_send: "txnQ_Transact ex_bus ex_client 2 (ex_after [] None [3]) =
    Some (TXN_STATUS_PENDING, ex_after [2] None [3, 2])"
  by (simp add: txnQ_Transact_def ex_after_def ex_fields_rec ex_eval)

lemma ex_restart_single: "txnQ_Transact ex_bus ex_client 4 (ex_after [2] None [3, 2]) =
    Some (TXN_STATUS_PENDING, ex_after [2] (Some 4) [3, 2, 4])"
  by (simp add: txnQ_Transact_def ex_after_def ex_fields_rec drop_single_def ex_eval)

lemma ex_restart_run: "txnQ_Run ex_bus ex_client 2 (ex_after [2] (Some 4) [3, 2, 4]) = Some (ex_after [2] (Some 4) [3, 2, 4])"
  by (simp add: txnQ_Run_def ex_after_def ex_eval)

text \<open>
  A restart in the middle of a burst leaves the queue of the burst selected: after the restart of
  function 2 and the completion of its transaction 3 the bus is free and the burst's queue is empty,
  but a new transaction of the better priority is accepted and not sent, and so is a single step -
  neither by its own txnQ_Transact nor by txnQ_Run - because txnQ_SelectTxn still serves nothing but
  the empty queue: txnQ_ClearQueues does not reset pAggregQueue.
\<close>

theorem txnQ_restart_starves:
  "\<exists>q1 q2 q3 q4 q5. txnq_reach ex_bus ex_client q5 \<and>
     txnQ_Restart 2 (ex_obj FUNC_STATE_RUNNING [] [] (Some 3) (Some (2, 1)) [3] [3]) = (TXN_STATUS_PENDING, q1) \<and>
     txnQ_TxnDoneCb ex_bus ex_client 3 q1 = Some q2 \<and>
     txnQ_Transact ex_bus ex_client 2 q2 = Some (TXN_STATUS_PENDING, q3) \<and>
     txnQ_Transact ex_bus ex_client 4 q3 = Some (TXN_STATUS_PENDING, q4) \<and>
     txnQ_Run ex_bus ex_client 2 q4 = Some q5 \<and>
     pCurrTxn q5 = None \<and> serves q5 2 0 \<and> pSingleStep (func_info q5 2) = Some 4 \<and> busLog q5 = [3] \<and>
     txnQ_SelectTxn q5 = None"
proof -
  note steps = ex_restart ex_restart_done ex_restart_send ex_restart_single ex_restart_run
  have q1: "txnq_reach ex_bus ex_client (ex_obj FUNC_STATE_RESTART [] [] (Some 3) (Some (2, 1)) [3] [3])"
    using txnq_reach.restart [OF ex_reach(2), of 2] unfolding steps(1) snd_conv .
  have "pCurrTxn (ex_obj FUNC_STATE_RESTART [] [] (Some 3) (Some (2, 1)) [3] [3]) = Some 3" by (simp add: ex_obj_def)
  from txnq_reach.run [OF txnq_reach.transact [OF txnq_reach.transact
        [OF txnq_reach.completed [OF q1 this steps(2)] steps(3)] steps(4)] steps(5)]
  have "txnq_reach ex_bus ex_client (ex_after [2] (Some 4) [3, 2, 4])" .
  moreover have "serves (ex_after [2] (Some 4) [3, 2, 4]) 2 0" "txnQ_SelectTxn (ex_after [2] (Some 4) [3, 2, 4]) = None"
    "pSingleStep (func_info (ex_after [2] (Some 4) [3, 2, 4]) 2) = Some 4"
    "pCurrTxn (ex_after [2] (Some 4) [3, 2, 4]) = None" "busLog (ex_after [2] (Some 4) [3, 2, 4]) = [3]"
    by (simp_all add: ex_after_def serves_def ex_eval)
  ultimately show ?thesis using steps by blast
qed

end
