(* ===== verification/WlCmdMbox.thy ===== *)
theory WlCmdMbox
  imports WlTxn
begin

text \<open>
  The command mailbox of \<^verbatim>\<open>TWD/FW_Transfer/CmdMBox.c\<close>: one command at a time is written to the
  firmware's mailbox, the firmware is triggered, and the reply is read back. A buffer is its bytes.
  What is handed to the bus interface is recorded in \<open>twCalls\<close>, with the data of the transaction in
  place of the address of its buffer; the answer of the bus to a read is a parameter. The timer is the
  flag \<open>timerOn\<close> that it runs. The end of a command (\<open>cmdMbox_CommandComplete\<close>) enters the command
  queue and is part of theory \<open>WlCmdQueue\<close>.
\<close>

section \<open>Commands and the mailbox object\<close>

definition CMD_INTERROGATE :: TI_UINT16 where "CMD_INTERROGATE = 1"
definition CMD_TEST :: TI_UINT16 where "CMD_TEST = 23"

definition CMD_STATUS_SUCCESS :: TI_UINT16 where "CMD_STATUS_SUCCESS = 1"
definition CMD_STATUS_UNKNOWN_CMD :: TI_UINT16 where "CMD_STATUS_UNKNOWN_CMD = 2"
definition CMD_STATUS_UNKNOWN_IE :: TI_UINT16 where "CMD_STATUS_UNKNOWN_IE = 3"
definition CMD_STATUS_REJECT_MEAS_SG_ACTIVE :: TI_UINT16 where "CMD_STATUS_REJECT_MEAS_SG_ACTIVE = 11"
definition CMD_STATUS_TIMEOUT :: TI_UINT16 where "CMD_STATUS_TIMEOUT = 21"

definition MAX_CMD_PARAMS :: nat where "MAX_CMD_PARAMS = 610"
definition CMDMBOX_HEADER_LEN :: TI_UINT32 where "CMDMBOX_HEADER_LEN = 4"

record Command_t =
  cmdID :: TI_UINT16
  cmdStatus :: TI_UINT16
  parameters :: "8 word list"

text \<open>Calls of the bus interface: power, writes and reads of the mailbox and of registers.\<close>

datatype TwCall = TwAwake | TwSleep | TwWriteCmd addr Command_t TI_UINT32 | TwTrigger | TwReadCmd addr TI_UINT32 | TwReadPtr

text \<open>
  \<open>tCmdWrite\<close> and \<open>tCmdRead\<close> are the mailbox images of \<open>aCmdTxn[0]\<close> and \<open>aCmdTxn[1]\<close>. \<open>fErrorCb\<close> tells
  that the error callback, which is \<open>cmdQueue_Error\<close>, is set.
\<close>

record TCmdMbox =
  mb_fCb :: addr
  mb_hCb :: addr
  fErrorCb :: bool
  hCmdMboxTimer :: bool
  timerOn :: bool
  tCmdWrite :: Command_t
  tCmdRead :: Command_t
  bCmdInProgress :: bool
  uFwAddr :: TI_UINT32
  uWriteLen :: TI_UINT32
  uReadLen :: TI_UINT32
  twCalls :: "TwCall list"

text \<open>The return codes of these modules mix \<open>TI_STATUS\<close> and transaction states.\<close>

datatype CmdRc = RcTi TI_STATUS | RcTxn ETxnStatus

definition RC_CONVERT :: "CmdRc \<Rightarrow> TI_STATUS" where
  "RC_CONVERT rc = (if rc = RcTxn TXN_STATUS_OK \<or> rc = RcTxn TXN_STATUS_COMPLETE \<or> rc = RcTxn TXN_STATUS_PENDING \<or>
      rc = RcTi TI_OK then TI_OK else TI_NOK)"

text \<open>\<open>os_memoryCopy\<close> of the first \<open>n\<close> bytes.\<close>

definition copy_bytes :: "nat \<Rightarrow> 'a list \<Rightarrow> 'a list \<Rightarrow> 'a list" where
  "copy_bytes n src dst = take n src @ drop n dst"

definition tw_call :: "TwCall \<Rightarrow> 'a TCmdMbox_scheme \<Rightarrow> 'a TCmdMbox_scheme" where
  "tw_call c m = m\<lparr>twCalls := twCalls m @ [c]\<rparr>"

section \<open>Operations\<close>

definition no_command :: Command_t where
  "no_command = \<lparr>cmdID = 0, cmdStatus = 0, parameters = replicate MAX_CMD_PARAMS 0\<rparr>"

definition cmdMbox_Create :: "bool \<Rightarrow> TCmdMbox option" where
  "cmdMbox_Create alloc_ok =
     (if \<not> alloc_ok then None
      else Some \<lparr>mb_fCb = 0, mb_hCb = 0, fErrorCb = False, hCmdMboxTimer = False, timerOn = False, tCmdWrite = no_command,
        tCmdRead = no_command, bCmdInProgress = False, uFwAddr = 0, uWriteLen = 0, uReadLen = 0, twCalls = []\<rparr>)"

definition cmdMbox_Destroy :: "TCmdMbox option \<Rightarrow> TI_STATUS \<times> TCmdMbox option" where
  "cmdMbox_Destroy m = (TI_OK, None)"

definition cmdMbox_Init :: "bool \<Rightarrow> 'a TCmdMbox_scheme \<Rightarrow> TI_STATUS \<times> 'a TCmdMbox_scheme" where
  "cmdMbox_Init tmr_ok m =
     (let m = m\<lparr>uFwAddr := 0, uReadLen := 0, uWriteLen := 0, bCmdInProgress := False, fErrorCb := True,
            hCmdMboxTimer := tmr_ok\<rparr>
      in (if tmr_ok then TI_OK else TI_NOK, m))"

text \<open>The length that is written: with the header, rounded up to 32 bits.\<close>

definition mbox_write_len :: "TI_UINT32 \<Rightarrow> TI_UINT32" where
  "mbox_write_len n =
     (let w = n + CMDMBOX_HEADER_LEN in if w AND 0x3 \<noteq> 0 then (w + 4) AND 0xFFFFFFFC else w)"

definition cmdMbox_SendCommand ::
  "TI_UINT16 \<Rightarrow> 8 word list \<Rightarrow> TI_UINT32 \<Rightarrow> TI_UINT32 \<Rightarrow> 'a TCmdMbox_scheme \<Rightarrow> CmdRc \<times> 'a TCmdMbox_scheme" where
  "cmdMbox_SendCommand cmdType pParamsBuf writeLen readLen m =
     (if bCmdInProgress m then (RcTi TI_NOK, m)
      else
        (let m = m\<lparr>uReadLen := readLen + CMDMBOX_HEADER_LEN\<rparr>;
             pCmd = \<lparr>cmdID = cmdType, cmdStatus = 0,
                     parameters = copy_bytes (unat writeLen) pParamsBuf (parameters (tCmdWrite m))\<rparr>;
             m = m\<lparr>tCmdWrite := pCmd, uWriteLen := mbox_write_len writeLen, bCmdInProgress := True\<rparr>;
             m = tw_call (TwWriteCmd (uFwAddr m) pCmd (uWriteLen m)) m;
             m = m\<lparr>timerOn := True\<rparr>
         in (RcTxn TXN_STATUS_PENDING, tw_call TwTrigger m)))"

text \<open>The bus fills the read image with the first \<open>uReadLen\<close> bytes of the firmware's mailbox.\<close>

definition mbox_read :: "Command_t \<Rightarrow> 'a TCmdMbox_scheme \<Rightarrow> 'a TCmdMbox_scheme" where
  "mbox_read fw m =
     (if uReadLen m < CMDMBOX_HEADER_LEN then m
      else m\<lparr>tCmdRead := \<lparr>cmdID = cmdID fw, cmdStatus = cmdStatus fw,
               parameters = copy_bytes (unat (uReadLen m - CMDMBOX_HEADER_LEN)) (parameters fw) (parameters (tCmdRead m))\<rparr>\<rparr>)"

text \<open>\<open>rc\<close> and \<open>v\<close> are the answer of the bus and the register value that it reads.\<close>

definition cmdMbox_ConfigHw :: "addr \<Rightarrow> addr \<Rightarrow> ETxnStatus \<Rightarrow> TI_UINT32 \<Rightarrow> 'a TCmdMbox_scheme \<Rightarrow> CmdRc \<times> 'a TCmdMbox_scheme" where
  "cmdMbox_ConfigHw fCb hCb rc v m =
     (let m = tw_call TwReadPtr (m\<lparr>mb_fCb := fCb, mb_hCb := hCb\<rparr>)
      in (RcTxn rc, if rc = TXN_STATUS_COMPLETE then m\<lparr>uFwAddr := v\<rparr> else m))"

text \<open>The callback of a pending read; the second component is the call of the state machine that waits.\<close>

definition cmdMbox_ConfigHwCb :: "TI_UINT32 \<Rightarrow> 'a TCmdMbox_scheme \<Rightarrow> 'a TCmdMbox_scheme \<times> (addr \<times> addr \<times> TI_STATUS)" where
  "cmdMbox_ConfigHwCb v m = (let m = m\<lparr>uFwAddr := v\<rparr> in (m, (mb_fCb m, mb_hCb m, TI_OK)))"

definition cmdMbox_Restart :: "'a TCmdMbox_scheme \<Rightarrow> TI_STATUS \<times> 'a TCmdMbox_scheme" where
  "cmdMbox_Restart m = (TI_OK, m\<lparr>timerOn := False, bCmdInProgress := False, uReadLen := 0, uWriteLen := 0\<rparr>)"

definition cmdMbox_GetStatus :: "'a TCmdMbox_scheme \<Rightarrow> TI_STATUS \<times> TI_UINT16" where
  "cmdMbox_GetStatus m =
     (if cmdStatus (tCmdRead m) = CMD_STATUS_SUCCESS then TI_OK else TI_NOK, cmdStatus (tCmdRead m))"

definition cmdMbox_GetMboxAddress :: "'a TCmdMbox_scheme \<Rightarrow> TI_UINT32" where
  "cmdMbox_GetMboxAddress m = uFwAddr m"

definition cmdMbox_GetCmdParams :: "'a TCmdMbox_scheme \<Rightarrow> 8 word list" where
  "cmdMbox_GetCmdParams m = take (unat (uReadLen m - CMDMBOX_HEADER_LEN)) (parameters (tCmdRead m))"

end
