(* ===== verification/WlCmdQueue.thy ===== *)
theory WlCmdQueue
  imports WlCmdMbox
begin

text \<open>
  The command queue of \<^verbatim>\<open>TWD/Ctrl/CmdQueue.c\<close>: a ring of 30 commands that are sent through the
  mailbox one at a time, with a callback for each result and a list of callbacks saved for recovery.
  The object extends that of the mailbox, because each calls the other. \<open>cbCalls\<close> records the
  callbacks that are made; the client is a parameter that answers a callback with the commands which it
  sends. \<open>accCmds\<close>, \<open>sentCmds\<close> and \<open>outCmds\<close> record the commands that were queued, sent, and that left
  the queue; no operation reads them.
\<close>

section \<open>Data\<close>

datatype ECmdQueueSmEvents = CMDQUEUE_EVENT_RUN | CMDQUEUE_EVENT_COMPLETE | CMDQUEUE_EVENT_NUM
datatype ECmdQueueSmStates = CMDQUEUE_STATE_IDLE | CMDQUEUE_STATE_WAIT_FOR_COMPLETION

definition CMDQUEUE_QUEUE_DEPTH :: TI_UINT32 where "CMDQUEUE_QUEUE_DEPTH = 30"
definition CMDQUEUE_INFO_ELEM_HEADER_LEN :: TI_UINT32 where "CMDQUEUE_INFO_ELEM_HEADER_LEN = 4"

record TCmdQueueNode =
  cmdType :: TI_UINT16
  uParamsLen :: TI_UINT32
  n_fCb :: addr
  n_hCb :: addr
  aParamsBuf :: "8 word list"
  pInterrogateBuf :: addr

record TCmdQueueRecoveryNode =
  r_fCb :: addr
  r_hCb :: addr
  r_pInterrogateBuf :: addr

text \<open>The status that a callback receives.\<close>

datatype CbStatus = CbTi TI_STATUS | SG_REJECT_MEAS_SG_ACTIVE | CMD_STATUS_FW_RESET

text \<open>
  A callback: of a command with its results, without results, the generic one, and the failure one.
\<close>

datatype CmdCb = InterrogateCb addr addr CbStatus addr "8 word list" | ResultCb addr addr CbStatus
  | RecoveryInterrogateCb addr addr CbStatus addr
  | GenericCb addr addr TI_UINT16 TI_UINT16 CbStatus | FailureCb addr addr TI_STATUS

text \<open>How a command leaves the queue: with a result, or by a restart after or before it was sent.\<close>

datatype CmdEnd = Completed CbStatus | Aborted | Dropped

record TCmdQueue = TCmdMbox +
  state :: ECmdQueueSmStates
  fCmdCompleteCb :: addr
  hCmdCompleteCb :: addr
  fFailureCb :: addr
  hFailureCb :: addr
  aCmdQueue :: "TCmdQueueNode list"
  aRecoveryQueue :: "TCmdQueueRecoveryNode list"
  head :: TI_UINT32
  tail :: TI_UINT32
  uNumberOfCommandInQueue :: TI_UINT32
  uMaxNumberOfCommandInQueue :: TI_UINT32
  uNumberOfRecoveryNodes :: TI_UINT32
  uCmdSendCounter :: TI_UINT32
  uCmdCompltCounter :: TI_UINT32
  bErrorFlag :: bool
  bMboxEnabled :: bool
  bAwake :: bool
  cbCalls :: "CmdCb list"
  accCmds :: "TCmdQueueNode list"
  sentCmds :: "TCmdQueueNode list"
  outCmds :: "(TCmdQueueNode \<times> CmdEnd) list"

text \<open>A request to send a command: type, parameter bytes and their number, callback, handle, result buffer.\<close>

record CmdReq =
  q_type :: TI_UINT16
  q_buf :: "8 word list"
  q_len :: TI_UINT32
  q_fCb :: addr
  q_hCb :: addr
  q_pCb :: addr

section \<open>Creation\<close>

definition no_node :: TCmdQueueNode where
  "no_node = \<lparr>cmdType = 0, uParamsLen = 0, n_fCb = 0, n_hCb = 0, aParamsBuf = replicate MAX_CMD_PARAMS 0, pInterrogateBuf = 0\<rparr>"

definition no_recovery :: TCmdQueueRecoveryNode where
  "no_recovery = \<lparr>r_fCb = 0, r_hCb = 0, r_pInterrogateBuf = 0\<rparr>"

text \<open>The memory of a new object is zero; the mailbox object \<open>m\<close> is created on its own.\<close>

definition cmdQueue_Create :: "bool \<Rightarrow> TCmdMbox \<Rightarrow> TCmdQueue option" where
  "cmdQueue_Create alloc_ok m =
     (if \<not> alloc_ok then None
      else Some (TCmdMbox.extend m
        \<lparr>state = CMDQUEUE_STATE_IDLE, fCmdCompleteCb = 0, hCmdCompleteCb = 0, fFailureCb = 0, hFailureCb = 0,
         aCmdQueue = replicate (unat CMDQUEUE_QUEUE_DEPTH) no_node,
         aRecoveryQueue = replicate (unat CMDQUEUE_QUEUE_DEPTH) no_recovery, head = 0, tail = 0,
         uNumberOfCommandInQueue = 0, uMaxNumberOfCommandInQueue = 0, uNumberOfRecoveryNodes = 0,
         uCmdSendCounter = 0, uCmdCompltCounter = 0, bErrorFlag = False, bMboxEnabled = False, bAwake = False,
         cbCalls = [], accCmds = [], sentCmds = [], outCmds = []\<rparr>))"

definition cmdQueue_Destroy :: "TCmdQueue option \<Rightarrow> TI_STATUS \<times> TCmdQueue option" where
  "cmdQueue_Destroy q = (TI_OK, None)"

definition cmdQueue_Init :: "bool \<Rightarrow> TCmdQueue \<Rightarrow> TI_STATUS \<times> TCmdQueue" where
  "cmdQueue_Init tmr_ok q =
     (let q = q\<lparr>head := 0, tail := 0, uNumberOfCommandInQueue := 0, uMaxNumberOfCommandInQueue := 0,
            state := CMDQUEUE_STATE_IDLE, fCmdCompleteCb := 0, hCmdCompleteCb := 0, fFailureCb := 0, hFailureCb := 0,
            bErrorFlag := False, bMboxEnabled := False, bAwake := False\<rparr>
      in (TI_OK, snd (cmdMbox_Init tmr_ok q)))"

section \<open>Sending\<close>

definition cmd_head :: "TCmdQueue \<Rightarrow> TCmdQueueNode" where
  "cmd_head q = aCmdQueue q ! unat (head q)"

text \<open>The lengths to write and to read for a command.\<close>

definition cmd_lens :: "TCmdQueueNode \<Rightarrow> TI_UINT32 \<times> TI_UINT32" where
  "cmd_lens c =
     (if cmdType c = CMD_INTERROGATE then (CMDQUEUE_INFO_ELEM_HEADER_LEN, uParamsLen c)
      else if cmdType c = CMD_TEST then (uParamsLen c, uParamsLen c)
      else (uParamsLen c, 0))"

definition queue_awake :: "TCmdQueue \<Rightarrow> TCmdQueue" where
  "queue_awake q = (if \<not> bAwake q then (tw_call TwAwake q)\<lparr>bAwake := True\<rparr> else q)"

text \<open>The event RUN of the state machine, the only one that can come from within a callback.\<close>

definition cmdQueue_Run :: "TCmdQueue \<Rightarrow> CmdRc \<times> TCmdQueue" where
  "cmdQueue_Run q =
     (case state q of
        CMDQUEUE_STATE_IDLE \<Rightarrow>
          (let q = q\<lparr>state := CMDQUEUE_STATE_WAIT_FOR_COMPLETION\<rparr>;
               pHead = cmd_head q;
               q = q\<lparr>uCmdSendCounter := uCmdSendCounter q + 1\<rparr>;
               q = queue_awake q;
               (writeLen, readLen) = cmd_lens pHead;
               (rc, q) = cmdMbox_SendCommand (cmdType pHead) (aParamsBuf pHead) writeLen readLen q
           in (rc, if rc = RcTxn TXN_STATUS_PENDING then q\<lparr>sentCmds := sentCmds q @ [pHead]\<rparr> else q))
      | CMDQUEUE_STATE_WAIT_FOR_COMPLETION \<Rightarrow> (RcTxn TXN_STATUS_PENDING, q))"

definition new_node :: "CmdReq \<Rightarrow> TCmdQueueNode \<Rightarrow> TCmdQueueNode" where
  "new_node r old = \<lparr>cmdType = q_type r, uParamsLen = q_len r, n_fCb = q_fCb r, n_hCb = q_hCb r,
     aParamsBuf = copy_bytes (unat (q_len r)) (q_buf r) (aParamsBuf old), pInterrogateBuf = q_pCb r\<rparr>"

definition cmdQueue_Push :: "CmdReq \<Rightarrow> TCmdQueue \<Rightarrow> CmdRc \<times> TCmdQueue" where
  "cmdQueue_Push r q =
     (if \<not> bMboxEnabled q then (RcTi TI_OK, q)
      else if uNumberOfCommandInQueue q = CMDQUEUE_QUEUE_DEPTH then (RcTi TI_NOK, q)
      else
        (let c = new_node r (aCmdQueue q ! unat (tail q));
             q = q\<lparr>aCmdQueue := (aCmdQueue q)[unat (tail q) := c], accCmds := accCmds q @ [c]\<rparr>;
             q = q\<lparr>tail := tail q + 1\<rparr>;
             q = (if tail q = CMDQUEUE_QUEUE_DEPTH then q\<lparr>tail := 0\<rparr> else q);
             q = q\<lparr>uNumberOfCommandInQueue := uNumberOfCommandInQueue q + 1\<rparr>;
             q = (if uMaxNumberOfCommandInQueue q < uNumberOfCommandInQueue q
                  then q\<lparr>uMaxNumberOfCommandInQueue := uNumberOfCommandInQueue q\<rparr> else q)
         in if uNumberOfCommandInQueue q = 1 then cmdQueue_Run q else (RcTi TI_OK, q)))"

definition cmdQueue_SendCommand :: "CmdReq \<Rightarrow> TCmdQueue \<Rightarrow> TI_STATUS \<times> TCmdQueue" where
  "cmdQueue_SendCommand r q =
     (if bErrorFlag q then (TI_NOK, q)
      else (let (rc, q) = cmdQueue_Push r q in (RC_CONVERT rc, q)))"

text \<open>What a callback sends.\<close>

fun send_cmds :: "CmdReq list \<Rightarrow> TCmdQueue \<Rightarrow> TCmdQueue" where
  "send_cmds [] q = q"
| "send_cmds (r # rs) q = send_cmds rs (snd (cmdQueue_SendCommand r q))"

definition call_back :: "(CmdCb list \<Rightarrow> CmdReq list) \<Rightarrow> CmdCb \<Rightarrow> TCmdQueue \<Rightarrow> TCmdQueue" where
  "call_back client cb q = (let q = q\<lparr>cbCalls := cbCalls q @ [cb]\<rparr> in send_cmds (client (cbCalls q)) q)"

section \<open>Completion\<close>

text \<open>The first two bytes of the parameters, as a little-endian host reads them.\<close>

definition cmd_param :: "TCmdQueueNode \<Rightarrow> TI_UINT16" where
  "cmd_param c = ucast (aParamsBuf c ! 0) OR push_bit 8 (ucast (aParamsBuf c ! 1))"

definition cmd_status :: "TCmdQueue \<Rightarrow> CbStatus" where
  "cmd_status q =
     (let (status, cmdStatus) = cmdMbox_GetStatus q
      in if status \<noteq> TI_OK \<and> cmdStatus = CMD_STATUS_REJECT_MEAS_SG_ACTIVE then SG_REJECT_MEAS_SG_ACTIVE else CbTi status)"

text \<open>The callback for a result, if there is one.\<close>

definition cmd_callback :: "TCmdQueueNode \<Rightarrow> CbStatus \<Rightarrow> TCmdQueue \<Rightarrow> CmdCb option" where
  "cmd_callback c status q =
     (if n_fCb c \<noteq> 0 then
        (if pInterrogateBuf c \<noteq> 0
         then Some (InterrogateCb (n_fCb c) (n_hCb c) status (pInterrogateBuf c) (cmdMbox_GetCmdParams q))
         else Some (ResultCb (n_fCb c) (n_hCb c) status))
      else if fCmdCompleteCb q \<noteq> 0
        then Some (GenericCb (fCmdCompleteCb q) (hCmdCompleteCb q) (cmdType c) (cmd_param c) status)
      else None)"

definition pop_head :: "TCmdQueue \<Rightarrow> TCmdQueue" where
  "pop_head q =
     (let q = q\<lparr>head := head q + 1\<rparr>;
          q = (if head q \<ge> CMDQUEUE_QUEUE_DEPTH then q\<lparr>head := 0\<rparr> else q)
      in q\<lparr>uNumberOfCommandInQueue := uNumberOfCommandInQueue q - 1\<rparr>)"

text \<open>After the callback: the next command is sent, or the chip may sleep.\<close>

definition cmd_next :: "TCmdQueue \<Rightarrow> CmdRc \<times> TCmdQueue" where
  "cmd_next q =
     (if uNumberOfCommandInQueue q > 0 then cmdQueue_Run (q\<lparr>state := CMDQUEUE_STATE_IDLE\<rparr>)
      else (RcTi TI_OK, (tw_call TwSleep q)\<lparr>bAwake := False, state := CMDQUEUE_STATE_IDLE\<rparr>))"

definition cmdQueue_SM ::
  "(CmdCb list \<Rightarrow> CmdReq list) \<Rightarrow> ECmdQueueSmEvents \<Rightarrow> TCmdQueue \<Rightarrow> CmdRc \<times> TCmdQueue" where
  "cmdQueue_SM client event q =
     (case event of
        CMDQUEUE_EVENT_RUN \<Rightarrow> cmdQueue_Run q
      | CMDQUEUE_EVENT_COMPLETE \<Rightarrow>
          (if state q = CMDQUEUE_STATE_IDLE then (RcTi TI_NOK, q)
           else
             (let c = cmd_head q;
                  q = pop_head q;
                  q = q\<lparr>uCmdCompltCounter := uCmdCompltCounter q + 1\<rparr>;
                  status = cmd_status q;
                  q = q\<lparr>bErrorFlag := (status = CbTi TI_NOK), outCmds := outCmds q @ [(c, Completed status)]\<rparr>;
                  q = (case cmd_callback c status q of None \<Rightarrow> q | Some cb \<Rightarrow> call_back client cb q)
              in cmd_next q))
      | CMDQUEUE_EVENT_NUM \<Rightarrow> (RcTi TI_NOK, q))"

definition cmdQueue_ResultReceived :: "(CmdCb list \<Rightarrow> CmdReq list) \<Rightarrow> TCmdQueue \<Rightarrow> CmdRc \<times> TCmdQueue" where
  "cmdQueue_ResultReceived client q = cmdQueue_SM client CMDQUEUE_EVENT_COMPLETE q"

text \<open>The mailbox's side of a completion: \<open>rc\<close> is the bus's answer to the read, \<open>fw\<close> what it reads.\<close>

definition cmdMbox_TransferComplete :: "(CmdCb list \<Rightarrow> CmdReq list) \<Rightarrow> TCmdQueue \<Rightarrow> TI_STATUS \<times> TCmdQueue" where
  "cmdMbox_TransferComplete client q =
     (TI_OK, snd (cmdQueue_ResultReceived client (q\<lparr>bCmdInProgress := False\<rparr>)))"

definition cmdMbox_CommandComplete ::
  "(CmdCb list \<Rightarrow> CmdReq list) \<Rightarrow> ETxnStatus \<Rightarrow> Command_t \<Rightarrow> TCmdQueue \<Rightarrow> ETxnStatus \<times> TCmdQueue" where
  "cmdMbox_CommandComplete client rc fw q =
     (let q = q\<lparr>timerOn := False\<rparr>;
          q = tw_call (TwReadCmd (uFwAddr q) (uReadLen q)) q
      in (TXN_STATUS_COMPLETE,
          if rc = TXN_STATUS_COMPLETE then snd (cmdMbox_TransferComplete client (mbox_read fw q)) else q))"

section \<open>Recovery\<close>

text \<open>One round of the loop that saves the callbacks.\<close>

definition save_round :: "TCmdQueue \<times> TI_UINT32 \<Rightarrow> nat \<Rightarrow> TCmdQueue \<times> TI_UINT32" where
  "save_round s _ =
     (let (q, first) = s;
          pHead = aCmdQueue q ! unat first;
          q = (if n_fCb pHead \<noteq> 0
               then q\<lparr>aRecoveryQueue := (aRecoveryQueue q)[unat (uNumberOfRecoveryNodes q) :=
                        \<lparr>r_fCb = n_fCb pHead, r_hCb = n_hCb pHead, r_pInterrogateBuf = pInterrogateBuf pHead\<rparr>],
                      uNumberOfRecoveryNodes := uNumberOfRecoveryNodes q + 1\<rparr>
               else q);
          first = first + 1;
          first = (if first = CMDQUEUE_QUEUE_DEPTH then 0 else first)
      in (q, first))"

text \<open>The commands in the queue, from the head on.\<close>

definition pending :: "TCmdQueue \<Rightarrow> TCmdQueueNode list" where
  "pending q = map (\<lambda>i. aCmdQueue q ! ((unat (head q) + i) mod 30)) [0..<unat (uNumberOfCommandInQueue q)]"

definition abort_log :: "TCmdQueue \<Rightarrow> (TCmdQueueNode \<times> CmdEnd) list" where
  "abort_log q = (case pending q of [] \<Rightarrow> [] | c # cs \<Rightarrow> (c, Aborted) # map (\<lambda>c. (c, Dropped)) cs)"

definition cmdQueue_Restart :: "TCmdQueue \<Rightarrow> TI_STATUS \<times> TCmdQueue" where
  "cmdQueue_Restart q =
     (let out = outCmds q @ abort_log q;
          q = q\<lparr>state := CMDQUEUE_STATE_IDLE, bAwake := False, uNumberOfRecoveryNodes := 0\<rparr>;
          (q, _) = foldl save_round (q, head q) [0..<unat (uNumberOfCommandInQueue q)]
      in (TI_OK, q\<lparr>head := 0, tail := 0, uNumberOfCommandInQueue := 0, outCmds := out\<rparr>))"

definition recovery_cb :: "TCmdQueueRecoveryNode \<Rightarrow> CmdCb" where
  "recovery_cb r =
     (if r_pInterrogateBuf r \<noteq> 0 then RecoveryInterrogateCb (r_fCb r) (r_hCb r) CMD_STATUS_FW_RESET (r_pInterrogateBuf r)
      else ResultCb (r_fCb r) (r_hCb r) CMD_STATUS_FW_RESET)"

text \<open>The loop reads the number of saved callbacks in every round; a callback cannot change it.\<close>

definition cmdQueue_EndReconfig :: "(CmdCb list \<Rightarrow> CmdReq list) \<Rightarrow> TCmdQueue \<Rightarrow> TI_STATUS \<times> TCmdQueue" where
  "cmdQueue_EndReconfig client q =
     (let q = foldl (\<lambda>q i. call_back client (recovery_cb (aRecoveryQueue q ! i)) q) q [0..<unat (uNumberOfRecoveryNodes q)]
      in (TI_OK, q\<lparr>uNumberOfRecoveryNodes := 0\<rparr>))"

section \<open>Registration, switches and errors\<close>

definition cmdQueue_RegisterCmdCompleteGenericCb :: "addr \<Rightarrow> addr \<Rightarrow> TCmdQueue \<Rightarrow> TI_STATUS \<times> TCmdQueue" where
  "cmdQueue_RegisterCmdCompleteGenericCb fCb hCb q =
     (if fCb = 0 \<or> hCb = 0 then (TI_NOK, q) else (TI_OK, q\<lparr>fCmdCompleteCb := fCb, hCmdCompleteCb := hCb\<rparr>))"

definition cmdQueue_RegisterForErrorCb :: "addr \<Rightarrow> addr \<Rightarrow> TCmdQueue \<Rightarrow> TI_STATUS \<times> TCmdQueue" where
  "cmdQueue_RegisterForErrorCb fCb hCb q =
     (if fCb = 0 \<or> hCb = 0 then (TI_NOK, q) else (TI_OK, q\<lparr>hFailureCb := hCb, fFailureCb := fCb\<rparr>))"

definition cmdQueue_EnableMbox :: "TCmdQueue \<Rightarrow> TI_STATUS \<times> TCmdQueue" where
  "cmdQueue_EnableMbox q = (TI_OK, q\<lparr>bMboxEnabled := True\<rparr>)"

definition cmdQueue_DisableMbox :: "TCmdQueue \<Rightarrow> TI_STATUS \<times> TCmdQueue" where
  "cmdQueue_DisableMbox q = (TI_OK, q\<lparr>bMboxEnabled := False\<rparr>)"

definition cmdQueue_Error :: "TI_UINT16 \<Rightarrow> TCmdQueue \<Rightarrow> TI_STATUS \<times> TCmdQueue" where
  "cmdQueue_Error status q =
     (TI_OK,
      if status \<noteq> CMD_STATUS_UNKNOWN_CMD \<and> status \<noteq> CMD_STATUS_UNKNOWN_IE \<and> fFailureCb q \<noteq> 0
      then q\<lparr>cbCalls := cbCalls q @ [FailureCb (fFailureCb q) (hFailureCb q) TI_NOK]\<rparr> else q)"

definition cmdQueue_GetMaxNumberOfCommands :: "TCmdQueue \<Rightarrow> TI_UINT32" where
  "cmdQueue_GetMaxNumberOfCommands q = uMaxNumberOfCommandInQueue q"

text \<open>The timer expires.\<close>

definition cmdMbox_TimeOut :: "TCmdQueue \<Rightarrow> TCmdQueue" where
  "cmdMbox_TimeOut q =
     (let q = q\<lparr>timerOn := False\<rparr> in if fErrorCb q then snd (cmdQueue_Error CMD_STATUS_TIMEOUT q) else q)"

text \<open>The calls of both modules in \<^verbatim>\<open>TWD_Stop\<close>, when the driver stops or recovers.\<close>

definition twd_stop :: "TCmdQueue \<Rightarrow> TCmdQueue" where
  "twd_stop q = snd (cmdQueue_DisableMbox (snd (cmdQueue_Restart (snd (cmdMbox_Restart q)))))"

end
