(* ===== verification/WlCmdInv.thy ===== *)
theory WlCmdInv
  imports WlCmdQueue
begin

text \<open>
  What the command queue and the mailbox keep together: the ring holds the pending commands, the
  mailbox is occupied by the first of them exactly while there is one, and every command that was
  queued is accounted for. A property that sending keeps is kept by a callback (locale \<open>cmd_client\<close>).
\<close>

section \<open>Callbacks\<close>

text \<open>A request whose parameters fit the buffer.\<close>

definition req_ok :: "CmdReq \<Rightarrow> bool" where
  "req_ok r \<longleftrightarrow> unat (q_len r) \<le> 610 \<and> unat (q_len r) \<le> length (q_buf r)"

definition client_ok :: "(CmdCb list \<Rightarrow> CmdReq list) \<Rightarrow> bool" where
  "client_ok client \<longleftrightarrow> (\<forall>l. \<forall>r\<in>set (client l). req_ok r)"

locale cmd_client =
  fixes I :: "TCmdQueue \<Rightarrow> bool"
  assumes I_send: "I q \<Longrightarrow> req_ok r \<Longrightarrow> I (snd (cmdQueue_SendCommand r q))"
    and I_log: "I q \<Longrightarrow> I (q\<lparr>cbCalls := l\<rparr>)"
begin

lemma I_send_cmds: "I q \<Longrightarrow> \<forall>r\<in>set rs. req_ok r \<Longrightarrow> I (send_cmds rs q)"
  by (induction rs arbitrary: q) (simp_all add: I_send)

lemma I_call_back: "client_ok client \<Longrightarrow> I q \<Longrightarrow> I (call_back client cb q)"
  by (simp add: call_back_def Let_def client_ok_def I_send_cmds I_log)

lemma I_calls: "client_ok client \<Longrightarrow> I q \<Longrightarrow> I (foldl (\<lambda>q i. call_back client (f q i) q) q is)"
  by (induction "is" arbitrary: q) (simp_all add: I_call_back)

end

section \<open>The invariant\<close>

definition cmd_ok :: "TCmdQueueNode \<Rightarrow> bool" where
  "cmd_ok c \<longleftrightarrow> unat (uParamsLen c) \<le> 610 \<and> length (aParamsBuf c) = 610"

text \<open>The write of a command: its header, its parameters, and the padded length.\<close>

definition wire_ok :: "TCmdQueueNode \<Rightarrow> Command_t \<times> TI_UINT32 \<Rightarrow> bool" where
  "wire_ok c w \<longleftrightarrow> cmdID (fst w) = cmdType c \<and> cmdStatus (fst w) = 0 \<and> snd w = mbox_write_len (fst (cmd_lens c)) \<and>
     take (unat (fst (cmd_lens c))) (parameters (fst w)) = take (unat (fst (cmd_lens c))) (aParamsBuf c)"

fun cmd_writes :: "TwCall list \<Rightarrow> (Command_t \<times> TI_UINT32) list" where
  "cmd_writes [] = []"
| "cmd_writes (TwWriteCmd a c n # l) = (c, n) # cmd_writes l"
| "cmd_writes (_ # l) = cmd_writes l"

lemma cmd_writes_append [simp]: "cmd_writes (l @ l') = cmd_writes l @ cmd_writes l'"
  by (induction l rule: cmd_writes.induct) simp_all

definition was_sent :: "TCmdQueueNode \<times> CmdEnd \<Rightarrow> bool" where
  "was_sent x \<longleftrightarrow> snd x \<noteq> Dropped"

definition left_sent :: "TCmdQueue \<Rightarrow> TCmdQueueNode list" where
  "left_sent q = map fst (filter was_sent (outCmds q))"

definition cmdq_ring :: "TCmdQueue \<Rightarrow> bool" where
  "cmdq_ring q \<longleftrightarrow> length (aCmdQueue q) = 30 \<and> (\<forall>c\<in>set (aCmdQueue q). length (aParamsBuf c) = 610) \<and>
     unat (head q) < 30 \<and> unat (uNumberOfCommandInQueue q) \<le> 30 \<and>
     unat (tail q) = (unat (head q) + unat (uNumberOfCommandInQueue q)) mod 30"

definition cmdq_core :: "TCmdQueue \<Rightarrow> bool" where
  "cmdq_core q \<longleftrightarrow> cmdq_ring q \<and> length (aRecoveryQueue q) = 30 \<and> unat (uNumberOfRecoveryNodes q) \<le> 30 \<and>
     length (parameters (tCmdWrite q)) = 610 \<and> length (parameters (tCmdRead q)) = 610 \<and>
     accCmds q = map fst (outCmds q) @ pending q \<and> (\<forall>c\<in>set (accCmds q). cmd_ok c) \<and>
     list_all2 wire_ok (sentCmds q) (cmd_writes (twCalls q))"

text \<open>The three phases: nothing to do, a command with the firmware, and between a result and the next command.\<close>

definition cmdq_idle :: "TCmdQueue \<Rightarrow> bool" where
  "cmdq_idle q \<longleftrightarrow> cmdq_core q \<and> state q = CMDQUEUE_STATE_IDLE \<and> \<not> bCmdInProgress q \<and> \<not> bAwake q \<and> \<not> timerOn q \<and>
     pending q = [] \<and> sentCmds q = left_sent q"

definition cmdq_busy :: "TCmdQueue \<Rightarrow> bool" where
  "cmdq_busy q \<longleftrightarrow> cmdq_core q \<and> state q = CMDQUEUE_STATE_WAIT_FOR_COMPLETION \<and> bCmdInProgress q \<and> bAwake q \<and>
     pending q \<noteq> [] \<and> sentCmds q = left_sent q @ [hd (pending q)] \<and>
     uReadLen q = snd (cmd_lens (hd (pending q))) + CMDMBOX_HEADER_LEN"

definition cmdq_mid :: "TCmdQueue \<Rightarrow> bool" where
  "cmdq_mid q \<longleftrightarrow> cmdq_core q \<and> state q = CMDQUEUE_STATE_WAIT_FOR_COMPLETION \<and> \<not> bCmdInProgress q \<and> bAwake q \<and>
     \<not> timerOn q \<and> sentCmds q = left_sent q"

definition cmdq_inv :: "TCmdQueue \<Rightarrow> bool" where
  "cmdq_inv q \<longleftrightarrow> cmdq_idle q \<or> cmdq_busy q"

section \<open>The ring\<close>

lemma length_pending [simp]: "length (pending q) = unat (uNumberOfCommandInQueue q)"
  by (simp add: pending_def)

lemma pending_empty: "pending q = [] \<longleftrightarrow> uNumberOfCommandInQueue q = 0"
  using unat_eq_0 [of "uNumberOfCommandInQueue q"] by (simp flip: length_0_conv)

lemma hd_pending: "pending q \<noteq> [] \<Longrightarrow> unat (head q) < 30 \<Longrightarrow> hd (pending q) = cmd_head q"
  by (cases "unat (uNumberOfCommandInQueue q)") (auto simp: pending_def cmd_head_def upt_conv_Cons simp del: upt_Suc)

text \<open>Only these fields matter for the pending commands.\<close>

lemma pending_cong:
  "aCmdQueue q' = aCmdQueue q \<Longrightarrow> head q' = head q \<Longrightarrow> uNumberOfCommandInQueue q' = uNumberOfCommandInQueue q \<Longrightarrow>
   pending q' = pending q"
  by (simp add: pending_def)

lemma ring_cong:
  "aCmdQueue q' = aCmdQueue q \<Longrightarrow> head q' = head q \<Longrightarrow> uNumberOfCommandInQueue q' = uNumberOfCommandInQueue q \<Longrightarrow>
   tail q' = tail q \<Longrightarrow> cmdq_ring q' = cmdq_ring q"
  by (simp add: cmdq_ring_def)

text \<open>The end of \<open>cmdQueue_Push\<close>.\<close>

definition push_node :: "TCmdQueueNode \<Rightarrow> TCmdQueue \<Rightarrow> TCmdQueue" where
  "push_node c q =
     (let q = q\<lparr>aCmdQueue := (aCmdQueue q)[unat (tail q) := c], accCmds := accCmds q @ [c]\<rparr>;
          q = q\<lparr>tail := tail q + 1\<rparr>;
          q = (if tail q = CMDQUEUE_QUEUE_DEPTH then q\<lparr>tail := 0\<rparr> else q);
          q = q\<lparr>uNumberOfCommandInQueue := uNumberOfCommandInQueue q + 1\<rparr>
      in (if uMaxNumberOfCommandInQueue q < uNumberOfCommandInQueue q
          then q\<lparr>uMaxNumberOfCommandInQueue := uNumberOfCommandInQueue q\<rparr> else q))"

lemma Push_eq:
  "cmdQueue_Push r q =
     (if \<not> bMboxEnabled q then (RcTi TI_OK, q)
      else if uNumberOfCommandInQueue q = CMDQUEUE_QUEUE_DEPTH then (RcTi TI_NOK, q)
      else (let q = push_node (new_node r (aCmdQueue q ! unat (tail q))) q
            in if uNumberOfCommandInQueue q = 1 then cmdQueue_Run q else (RcTi TI_OK, q)))"
  by (simp add: cmdQueue_Push_def push_node_def Let_def)

lemma push_fields:
  "aCmdQueue (push_node c q) = (aCmdQueue q)[unat (tail q) := c]" "head (push_node c q) = head q"
  "uNumberOfCommandInQueue (push_node c q) = uNumberOfCommandInQueue q + 1" "accCmds (push_node c q) = accCmds q @ [c]"
  "tail (push_node c q) = (if tail q + 1 = CMDQUEUE_QUEUE_DEPTH then 0 else tail q + 1)"
  "state (push_node c q) = state q" "bCmdInProgress (push_node c q) = bCmdInProgress q" "bAwake (push_node c q) = bAwake q"
  "timerOn (push_node c q) = timerOn q" "sentCmds (push_node c q) = sentCmds q" "outCmds (push_node c q) = outCmds q"
  "twCalls (push_node c q) = twCalls q" "aRecoveryQueue (push_node c q) = aRecoveryQueue q"
  "uNumberOfRecoveryNodes (push_node c q) = uNumberOfRecoveryNodes q" "tCmdWrite (push_node c q) = tCmdWrite q"
  "tCmdRead (push_node c q) = tCmdRead q" "uReadLen (push_node c q) = uReadLen q" "bErrorFlag (push_node c q) = bErrorFlag q"
  "cbCalls (push_node c q) = cbCalls q" "bMboxEnabled (push_node c q) = bMboxEnabled q"
  by (simp_all add: push_node_def Let_def)

lemma unat_word_inc:
  fixes x :: TI_UINT32
  assumes "unat x < 30"
  shows "unat (x + 1) = Suc (unat x)"
  using assms by (simp add: unat_Suc_word)

lemma ring_index_neq: "i < n \<Longrightarrow> n < 30 \<Longrightarrow> (a + i) mod 30 \<noteq> (a + n) mod (30::nat)"
proof
  assume i: "i < n" "n < 30" and "(a + i) mod 30 = (a + n) mod 30"
  then have "30 dvd (a + n) - (a + i)" by (intro mod_eq_dvd_iff_nat [THEN iffD1]) simp_all
  with i show False by (auto dest!: dvd_imp_le)
qed

lemma ring_push:
  assumes "cmdq_ring q" "uNumberOfCommandInQueue q \<noteq> CMDQUEUE_QUEUE_DEPTH" "length (aParamsBuf c) = 610"
  shows "cmdq_ring (push_node c q)" "pending (push_node c q) = pending q @ [c]"
proof -
  have n: "unat (uNumberOfCommandInQueue q) < 30"
    using assms(1,2) by (auto simp: cmdq_ring_def CMDQUEUE_QUEUE_DEPTH_def word_unat_eq_iff le_less)
  have t: "unat (tail q) < 30" "unat (tail q) = (unat (head q) + unat (uNumberOfCommandInQueue q)) mod 30"
    using assms(1) by (simp_all add: cmdq_ring_def)
  have n1: "unat (uNumberOfCommandInQueue q + 1) = Suc (unat (uNumberOfCommandInQueue q))" by (rule unat_word_inc [OF n])
  have t1: "unat (tail q + 1) = Suc (unat (tail q))" by (rule unat_word_inc [OF t(1)])
  then have tl: "unat (tail (push_node c q)) = Suc (unat (tail q)) mod 30"
    using t(1) by (cases "unat (tail q) = 29") (simp_all add: push_fields CMDQUEUE_QUEUE_DEPTH_def word_unat_eq_iff)
  have "unat (tail (push_node c q)) = (unat (head q) + Suc (unat (uNumberOfCommandInQueue q))) mod 30"
    unfolding tl t(2) by (simp add: mod_Suc_eq)
  moreover have "\<forall>x\<in>set ((aCmdQueue q)[unat (tail q) := c]). length (aParamsBuf x) = 610"
    using assms(1,3) set_update_subset_insert [of "aCmdQueue q" "unat (tail q)" c] by (auto simp: cmdq_ring_def)
  ultimately show "cmdq_ring (push_node c q)"
    using n n1 assms(1) unfolding cmdq_ring_def by (simp add: push_fields(1-3))
  have "i < unat (uNumberOfCommandInQueue q) \<Longrightarrow> (unat (head q) + i) mod 30 \<noteq> unat (tail q)" for i
    unfolding t(2) using n by (intro ring_index_neq) auto
  then have old: "i < unat (uNumberOfCommandInQueue q) \<Longrightarrow>
      (aCmdQueue q)[unat (tail q) := c] ! ((unat (head q) + i) mod 30) = aCmdQueue q ! ((unat (head q) + i) mod 30)" for i
    by (intro nth_list_update_neq) metis
  have new: "(aCmdQueue q)[unat (tail q) := c] ! ((unat (head q) + unat (uNumberOfCommandInQueue q)) mod 30) = c"
  proof -
    have "unat (tail q) < length (aCmdQueue q)" using t(1) assms(1) by (simp add: cmdq_ring_def)
    then show ?thesis unfolding t(2) [symmetric] by simp
  qed
  show "pending (push_node c q) = pending q @ [c]" by (simp add: pending_def push_fields n1 old new)
qed


lemma ring_pop:
  assumes "cmdq_ring q" "pending q \<noteq> []"
  shows "cmdq_ring (pop_head q)" "pending (pop_head q) = tl (pending q)"
proof -
  have h: "unat (head q) < 30" using assms(1) by (simp add: cmdq_ring_def)
  have n: "unat (uNumberOfCommandInQueue q) \<noteq> 0" using assms(2) by (auto simp: pending_def)
  have n1: "unat (uNumberOfCommandInQueue q - 1) = unat (uNumberOfCommandInQueue q) - 1"
    using n by (intro unat_pred_word) (auto simp: unat_eq_0)
  have h1: "unat (head q + 1) = Suc (unat (head q))" by (rule unat_word_inc [OF h])
  have f: "aCmdQueue (pop_head q) = aCmdQueue q" "tail (pop_head q) = tail q"
    "uNumberOfCommandInQueue (pop_head q) = uNumberOfCommandInQueue q - 1"
    "head (pop_head q) = (if head q + 1 \<ge> CMDQUEUE_QUEUE_DEPTH then 0 else head q + 1)"
    by (simp_all add: pop_head_def Let_def)
  have hd: "unat (head (pop_head q)) = Suc (unat (head q)) mod 30"
    using h h1 by (cases "unat (head q) = 29") (auto simp: f CMDQUEUE_QUEUE_DEPTH_def word_le_nat_alt)
  have m: "(Suc (unat (head q)) mod 30 + i) mod 30 = (unat (head q) + Suc i) mod 30" for i
    by (simp add: mod_add_left_eq)
  from m [of "unat (uNumberOfCommandInQueue q) - 1"] n n1 assms(1) hd show "cmdq_ring (pop_head q)"
    by (auto simp: cmdq_ring_def f)
  have "pending (pop_head q) = map (\<lambda>i. aCmdQueue q ! ((unat (head q) + Suc i) mod 30)) [0..<unat (uNumberOfCommandInQueue q) - 1]"
    unfolding pending_def hd f(1,3) n1 m ..
  also have "\<dots> = map (\<lambda>i. aCmdQueue q ! ((unat (head q) + i) mod 30)) [Suc 0..<unat (uNumberOfCommandInQueue q)]"
  proof -
    obtain k where "unat (uNumberOfCommandInQueue q) = Suc k" using n by (cases "unat (uNumberOfCommandInQueue q)") auto
    then show ?thesis unfolding map_Suc_upt [symmetric] by (simp add: map_Suc_upt [symmetric] comp_def del: upt_Suc)
  qed
  also have "\<dots> = tl (pending q)" using n by (simp add: pending_def map_tl [symmetric] tl_upt)
  finally show "pending (pop_head q) = tl (pending q)" .
qed


section \<open>Sending\<close>

lemma length_copy: "n \<le> length src \<Longrightarrow> n \<le> length dst \<Longrightarrow> length (copy_bytes n src dst) = length dst"
  by (simp add: copy_bytes_def)

lemma take_copy: "n \<le> length src \<Longrightarrow> take n (copy_bytes n src dst) = take n src"
  by (simp add: copy_bytes_def)

lemma new_node_ok: "req_ok r \<Longrightarrow> length (aParamsBuf old) = 610 \<Longrightarrow> cmd_ok (new_node r old)"
  by (simp add: req_ok_def cmd_ok_def new_node_def length_copy)

lemma core_push:
  assumes "cmdq_core q" "uNumberOfCommandInQueue q \<noteq> CMDQUEUE_QUEUE_DEPTH" "cmd_ok c"
  shows "cmdq_core (push_node c q)" "pending (push_node c q) = pending q @ [c]"
    "left_sent (push_node c q) = left_sent q"
proof -
  note r = ring_push [of q c]
  show p: "pending (push_node c q) = pending q @ [c]" using r(2) assms by (simp add: cmdq_core_def cmd_ok_def)
  show "cmdq_core (push_node c q)" using r(1) assms p by (auto simp: cmdq_core_def cmd_ok_def push_fields)
  show "left_sent (push_node c q) = left_sent q" by (simp add: left_sent_def push_fields)
qed

text \<open>Only these fields matter for the core.\<close>

lemma core_cong:
  assumes "aCmdQueue q' = aCmdQueue q" "head q' = head q" "uNumberOfCommandInQueue q' = uNumberOfCommandInQueue q"
    "tail q' = tail q" "aRecoveryQueue q' = aRecoveryQueue q" "uNumberOfRecoveryNodes q' = uNumberOfRecoveryNodes q"
    "tCmdWrite q' = tCmdWrite q" "tCmdRead q' = tCmdRead q" "accCmds q' = accCmds q" "outCmds q' = outCmds q"
    "sentCmds q' = sentCmds q" "cmd_writes (twCalls q') = cmd_writes (twCalls q)"
  shows "cmdq_core q' = cmdq_core q" "pending q' = pending q" "left_sent q' = left_sent q"
proof -
  show p: "pending q' = pending q" by (rule pending_cong) (rule assms)+
  have "cmdq_ring q' = cmdq_ring q" by (rule ring_cong) (rule assms)+
  then show "cmdq_core q' = cmdq_core q" by (simp add: cmdq_core_def p assms)
  show "left_sent q' = left_sent q" by (simp add: left_sent_def assms)
qed

lemma cmd_lens_le: "cmd_ok c \<Longrightarrow> unat (fst (cmd_lens c)) \<le> 610 \<and> unat (snd (cmd_lens c)) \<le> 610"
  by (auto simp: cmd_ok_def cmd_lens_def CMDQUEUE_INFO_ELEM_HEADER_LEN_def)

text \<open>What the event RUN does in the idle state with the mailbox free.\<close>

lemma Run_idle:
  assumes "state q = CMDQUEUE_STATE_IDLE" "\<not> bCmdInProgress q"
  defines "q' \<equiv> snd (cmdQueue_Run q)"
  shows "fst (cmdQueue_Run q) = RcTxn TXN_STATUS_PENDING" "state q' = CMDQUEUE_STATE_WAIT_FOR_COMPLETION"
    "bCmdInProgress q'" "bAwake q'" "timerOn q'" "sentCmds q' = sentCmds q @ [cmd_head q]"
    "uReadLen q' = snd (cmd_lens (cmd_head q)) + CMDMBOX_HEADER_LEN" "outCmds q' = outCmds q" "accCmds q' = accCmds q"
    "tCmdWrite q' = \<lparr>cmdID = cmdType (cmd_head q), cmdStatus = 0,
       parameters = copy_bytes (unat (fst (cmd_lens (cmd_head q)))) (aParamsBuf (cmd_head q)) (parameters (tCmdWrite q))\<rparr>"
    "tCmdRead q' = tCmdRead q" "aRecoveryQueue q' = aRecoveryQueue q" "cbCalls q' = cbCalls q" "bErrorFlag q' = bErrorFlag q"
    "uNumberOfRecoveryNodes q' = uNumberOfRecoveryNodes q" "bMboxEnabled q' = bMboxEnabled q" "uFwAddr q' = uFwAddr q"
    "aCmdQueue q' = aCmdQueue q" "head q' = head q" "tail q' = tail q" "uNumberOfCommandInQueue q' = uNumberOfCommandInQueue q"
    "cmd_writes (twCalls q') = cmd_writes (twCalls q) @ [(tCmdWrite q', mbox_write_len (fst (cmd_lens (cmd_head q))))]"
  using assms(1,2)
  by (simp_all add: q'_def cmdQueue_Run_def queue_awake_def tw_call_def cmdMbox_SendCommand_def Let_def split_beta cmd_head_def)

lemma Run_wait: "state q = CMDQUEUE_STATE_WAIT_FOR_COMPLETION \<Longrightarrow> cmdQueue_Run q = (RcTxn TXN_STATUS_PENDING, q)"
  by (simp add: cmdQueue_Run_def)

lemma core_head_ok:
  assumes "cmdq_core q" "pending q \<noteq> []"
  shows "hd (pending q) = cmd_head q" "cmd_ok (cmd_head q)"
proof -
  show h: "hd (pending q) = cmd_head q" using assms by (intro hd_pending) (simp_all add: cmdq_core_def cmdq_ring_def)
  have "hd (pending q) \<in> set (accCmds q)" using assms by (simp add: cmdq_core_def)
  with assms h show "cmd_ok (cmd_head q)" by (simp add: cmdq_core_def)
qed

lemma Run_busy:
  assumes "cmdq_core q" "state q = CMDQUEUE_STATE_IDLE" "\<not> bCmdInProgress q" "pending q \<noteq> []" "sentCmds q = left_sent q"
  shows "cmdq_busy (snd (cmdQueue_Run q))" "pending (snd (cmdQueue_Run q)) = pending q"
proof -
  let ?q = "snd (cmdQueue_Run q)" and ?c = "cmd_head q"
  note R = Run_idle [OF assms(2,3)]
  note h = core_head_ok [OF assms(1,4)]
  show p: "pending ?q = pending q" by (rule pending_cong) (rule R)+
  have "cmdq_ring ?q = cmdq_ring q" by (rule ring_cong) (rule R)+
  moreover have l: "unat (fst (cmd_lens ?c)) \<le> length (aParamsBuf ?c)"
    using cmd_lens_le [OF h(2)] h(2) by (simp add: cmd_ok_def)
  then have "wire_ok ?c (tCmdWrite ?q, mbox_write_len (fst (cmd_lens ?c)))" by (simp add: wire_ok_def R take_copy)
  moreover have "length (parameters (tCmdWrite ?q)) = 610"
    using assms(1) l h(2) by (simp add: R(10) length_copy cmdq_core_def cmd_ok_def)
  ultimately have "cmdq_core ?q"
    using assms(1) p unfolding cmdq_core_def by (simp add: R(6,8,9,11,12,15,22) list_all2_appendI)
  then show "cmdq_busy ?q" using h p R assms(4,5) by (simp add: cmdq_busy_def left_sent_def)
qed

lemma mid_send: "cmdq_mid q \<Longrightarrow> req_ok r \<Longrightarrow> cmdq_mid (snd (cmdQueue_SendCommand r q))"
proof -
  assume mid: "cmdq_mid q" and r: "req_ok r"
  let ?c = "new_node r (aCmdQueue q ! unat (tail q))"
  have "unat (tail q) < 30" using mid by (simp add: cmdq_mid_def cmdq_core_def cmdq_ring_def)
  then have ok: "cmd_ok ?c" using mid by (intro new_node_ok r) (simp add: cmdq_mid_def cmdq_core_def cmdq_ring_def)
  have "cmdq_mid (push_node ?c q)" if "uNumberOfCommandInQueue q \<noteq> CMDQUEUE_QUEUE_DEPTH"
    using core_push [OF _ that ok] mid by (simp add: cmdq_mid_def push_fields)
  moreover have "cmdQueue_Run (push_node ?c q) = (RcTxn TXN_STATUS_PENDING, push_node ?c q)"
    using mid by (intro Run_wait) (simp add: cmdq_mid_def push_fields)
  ultimately show ?thesis using mid by (simp add: cmdQueue_SendCommand_def Push_eq Let_def split_beta)
qed

lemma mid_log: "cmdq_mid (q\<lparr>cbCalls := l\<rparr>) = cmdq_mid q"
  using core_cong [of "q\<lparr>cbCalls := l\<rparr>" q] by (simp add: cmdq_mid_def)

interpretation mid: cmd_client cmdq_mid
  by unfold_locales (simp_all add: mid_send mid_log)

lemma inv_send: "cmdq_inv q \<Longrightarrow> req_ok r \<Longrightarrow> cmdq_inv (snd (cmdQueue_SendCommand r q))"
proof -
  assume inv: "cmdq_inv q" and r: "req_ok r"
  let ?c = "new_node r (aCmdQueue q ! unat (tail q))" and ?p = "push_node (new_node r (aCmdQueue q ! unat (tail q))) q"
  have core: "cmdq_core q" using inv by (auto simp: cmdq_inv_def cmdq_idle_def cmdq_busy_def)
  have "unat (tail q) < 30" using core by (simp add: cmdq_core_def cmdq_ring_def)
  then have ok: "cmd_ok ?c" using core by (intro new_node_ok r) (simp add: cmdq_core_def cmdq_ring_def)
  show ?thesis
  proof (cases "bErrorFlag q \<or> \<not> bMboxEnabled q \<or> uNumberOfCommandInQueue q = CMDQUEUE_QUEUE_DEPTH")
    case True
    with inv show ?thesis by (auto simp: cmdQueue_SendCommand_def Push_eq Let_def split_beta)
  next
    case False
    then have s: "snd (cmdQueue_SendCommand r q) = (if uNumberOfCommandInQueue ?p = 1 then snd (cmdQueue_Run ?p) else ?p)"
      by (simp add: cmdQueue_SendCommand_def Push_eq Let_def split_beta)
    have "uNumberOfCommandInQueue q \<noteq> CMDQUEUE_QUEUE_DEPTH" using False by simp
    note p = core_push [OF core this ok]
    show ?thesis
    proof (cases "cmdq_idle q")
      case True
      then have "uNumberOfCommandInQueue ?p = 1" by (simp add: cmdq_idle_def push_fields pending_empty)
      moreover have "cmdq_busy (snd (cmdQueue_Run ?p))"
        by (rule Run_busy) (use True p in \<open>simp_all add: cmdq_idle_def push_fields\<close>)
      ultimately show ?thesis by (simp add: s cmdq_inv_def)
    next
      case False
      then have busy: "cmdq_busy q" using inv by (simp add: cmdq_inv_def)
      then have "cmdq_busy ?p" using p by (simp add: cmdq_busy_def push_fields)
      moreover from this have "cmdQueue_Run ?p = (RcTxn TXN_STATUS_PENDING, ?p)" by (intro Run_wait) (simp add: cmdq_busy_def)
      ultimately show ?thesis by (simp add: s cmdq_inv_def)
    qed
  qed
qed

lemma inv_cong:
  assumes "aCmdQueue q' = aCmdQueue q" "head q' = head q" "uNumberOfCommandInQueue q' = uNumberOfCommandInQueue q"
    "tail q' = tail q" "aRecoveryQueue q' = aRecoveryQueue q" "uNumberOfRecoveryNodes q' = uNumberOfRecoveryNodes q"
    "tCmdWrite q' = tCmdWrite q" "tCmdRead q' = tCmdRead q" "accCmds q' = accCmds q" "outCmds q' = outCmds q"
    "sentCmds q' = sentCmds q" "cmd_writes (twCalls q') = cmd_writes (twCalls q)" "state q' = state q"
    "bCmdInProgress q' = bCmdInProgress q" "bAwake q' = bAwake q" "timerOn q' \<longrightarrow> timerOn q" "uReadLen q' = uReadLen q"
  shows "cmdq_inv q \<Longrightarrow> cmdq_inv q'"
  using core_cong [OF assms(1-12)] assms(13-17) assms(11) by (auto simp: cmdq_inv_def cmdq_idle_def cmdq_busy_def)

interpretation cmdinv: cmd_client cmdq_inv
proof
  show "cmdq_inv q \<Longrightarrow> cmdq_inv (q\<lparr>cbCalls := l\<rparr>)" for q l by (rule inv_cong) simp_all
qed (rule inv_send)


section \<open>Completion\<close>

text \<open>The state in which the callback of a result is called.\<close>

definition popped :: "TCmdQueue \<Rightarrow> TCmdQueue" where
  "popped q =
     (let c = cmd_head q; q = pop_head q; q = q\<lparr>uCmdCompltCounter := uCmdCompltCounter q + 1\<rparr>; status = cmd_status q
      in q\<lparr>bErrorFlag := (status = CbTi TI_NOK), outCmds := outCmds q @ [(c, Completed status)]\<rparr>)"

lemma popped_fields:
  "cmdMbox_GetCmdParams (popped q) = cmdMbox_GetCmdParams q" "fCmdCompleteCb (popped q) = fCmdCompleteCb q"
  "hCmdCompleteCb (popped q) = hCmdCompleteCb q" "outCmds (popped q) = outCmds q @ [(cmd_head q, Completed (cmd_status q))]"
  "cbCalls (popped q) = cbCalls q" "bErrorFlag (popped q) = (cmd_status q = CbTi TI_NOK)" "accCmds (popped q) = accCmds q"
  "state (popped q) = state q" "bCmdInProgress (popped q) = bCmdInProgress q" "bAwake (popped q) = bAwake q"
  "timerOn (popped q) = timerOn q" "sentCmds (popped q) = sentCmds q" "bMboxEnabled (popped q) = bMboxEnabled q"
  by (simp_all add: popped_def pop_head_def Let_def cmd_status_def cmdMbox_GetStatus_def cmdMbox_GetCmdParams_def
      CMD_STATUS_REJECT_MEAS_SG_ACTIVE_def CMD_STATUS_SUCCESS_def)

lemma SM_complete:
  assumes "state q = CMDQUEUE_STATE_WAIT_FOR_COMPLETION"
  shows "cmdQueue_SM client CMDQUEUE_EVENT_COMPLETE q =
    cmd_next (case cmd_callback (cmd_head q) (cmd_status q) q of None \<Rightarrow> popped q | Some cb \<Rightarrow> call_back client cb (popped q))"
proof -
  have s: "cmd_status (pop_head q) = cmd_status q"
    by (simp add: cmd_status_def cmdMbox_GetStatus_def pop_head_def Let_def)
  have cs: "cmd_status (q'\<lparr>uCmdCompltCounter := n\<rparr>) = cmd_status q'" for q' n
    by (simp add: cmd_status_def cmdMbox_GetStatus_def)
  have cb: "cmd_callback c st (popped q) = cmd_callback c st q" for c st
    by (simp add: cmd_callback_def popped_fields)
  show ?thesis
    unfolding cb [symmetric] cmdQueue_SM_def popped_def Let_def s cs using assms by simp
qed

lemma core_popped:
  assumes "cmdq_core q" "pending q \<noteq> []"
  shows "cmdq_core (popped q)" "pending (popped q) = tl (pending q)" "left_sent (popped q) = left_sent q @ [cmd_head q]"
proof -
  have ring: "cmdq_ring q" using assms(1) by (simp add: cmdq_core_def)
  have f: "aCmdQueue (popped q) = aCmdQueue (pop_head q)" "head (popped q) = head (pop_head q)"
    "uNumberOfCommandInQueue (popped q) = uNumberOfCommandInQueue (pop_head q)" "tail (popped q) = tail (pop_head q)"
    "aRecoveryQueue (popped q) = aRecoveryQueue q" "uNumberOfRecoveryNodes (popped q) = uNumberOfRecoveryNodes q"
    "tCmdWrite (popped q) = tCmdWrite q" "tCmdRead (popped q) = tCmdRead q" "twCalls (popped q) = twCalls q"
    by (simp_all add: popped_def Let_def pop_head_def)
  have p: "pending (popped q) = pending (pop_head q)" by (rule pending_cong) (rule f)+
  with ring_pop(2) [OF ring assms(2)] show pt: "pending (popped q) = tl (pending q)" by simp
  have "cmdq_ring (popped q) = cmdq_ring (pop_head q)" by (rule ring_cong) (rule f)+
  moreover have "pending q = cmd_head q # tl (pending q)"
    using core_head_ok(1) [OF assms] assms(2) by (metis list.collapse)
  ultimately show "cmdq_core (popped q)"
    using assms(1) pt ring_pop(1) [OF ring assms(2)] by (simp add: cmdq_core_def f popped_fields)
  show "left_sent (popped q) = left_sent q @ [cmd_head q]" by (simp add: left_sent_def popped_fields was_sent_def)
qed

lemma mid_popped:
  assumes "cmdq_busy q" "\<not> timerOn q"
  shows "cmdq_mid (popped (q\<lparr>bCmdInProgress := False\<rparr>))"
    "pending (popped (q\<lparr>bCmdInProgress := False\<rparr>)) = tl (pending q)"
proof -
  let ?q = "q\<lparr>bCmdInProgress := False\<rparr>"
  have c: "cmdq_core ?q = cmdq_core q" "pending ?q = pending q" "left_sent ?q = left_sent q"
    by (rule core_cong; simp)+
  have ne: "pending ?q \<noteq> []" using assms(1) c by (simp add: cmdq_busy_def)
  have core: "cmdq_core ?q" using assms(1) c by (simp add: cmdq_busy_def)
  note p = core_popped [OF core ne]
  have h: "hd (pending q) = cmd_head ?q" using core_head_ok(1) [OF core ne] c by simp
  show "cmdq_mid (popped ?q)"
    using p assms h c by (simp add: cmdq_mid_def cmdq_busy_def popped_fields)
  show "pending (popped ?q) = tl (pending q)" using p(2) c by simp
qed

lemma cmd_next_inv:
  assumes "cmdq_mid q"
  shows "cmdq_inv (snd (cmd_next q))" "pending (snd (cmd_next q)) = pending q"
proof -
  have "cmdq_inv (snd (cmd_next q)) \<and> pending (snd (cmd_next q)) = pending q"
  proof (cases "uNumberOfCommandInQueue q > 0")
    case True
    let ?q = "q\<lparr>state := CMDQUEUE_STATE_IDLE\<rparr>"
    have c: "cmdq_core ?q = cmdq_core q" "pending ?q = pending q" "left_sent ?q = left_sent q"
      by (rule core_cong; simp)+
    have "pending q \<noteq> []" using True by (simp add: pending_empty)
    then have "cmdq_busy (snd (cmdQueue_Run ?q)) \<and> pending (snd (cmdQueue_Run ?q)) = pending ?q"
      using assms c by (intro conjI Run_busy) (simp_all add: cmdq_mid_def)
    with True c show ?thesis by (simp add: cmd_next_def cmdq_inv_def)
  next
    case False
    let ?q = "(tw_call TwSleep q)\<lparr>bAwake := False, state := CMDQUEUE_STATE_IDLE\<rparr>"
    have c: "cmdq_core ?q = cmdq_core q" "pending ?q = pending q" "left_sent ?q = left_sent q"
      by (rule core_cong; simp add: tw_call_def)+
    have "pending q = []" using False by (simp add: pending_empty word_gt_0)
    with False assms c show ?thesis by (simp add: cmd_next_def cmdq_inv_def cmdq_idle_def cmdq_mid_def tw_call_def)
  qed
  then show "cmdq_inv (snd (cmd_next q))" "pending (snd (cmd_next q)) = pending q" by auto
qed

lemma inv_transfer:
  assumes "client_ok client" "cmdq_busy q" "\<not> timerOn q"
  shows "cmdq_inv (snd (cmdMbox_TransferComplete client q))"
proof -
  let ?q = "q\<lparr>bCmdInProgress := False\<rparr>"
  have "state ?q = CMDQUEUE_STATE_WAIT_FOR_COMPLETION" using assms(2) by (simp add: cmdq_busy_def)
  note S = SM_complete [OF this, of client]
  note m = mid_popped(1) [OF assms(2,3)]
  have "cmdq_mid (case cmd_callback (cmd_head ?q) (cmd_status ?q) ?q of None \<Rightarrow> popped ?q | Some cb \<Rightarrow> call_back client cb (popped ?q))"
    using m mid.I_call_back [OF assms(1) m] by (cases "cmd_callback (cmd_head ?q) (cmd_status ?q) ?q") simp_all
  from cmd_next_inv(1) [OF this] show ?thesis
    by (simp add: cmdMbox_TransferComplete_def cmdQueue_ResultReceived_def S)
qed

lemma inv_read:
  assumes "cmdq_busy q" "length (parameters fw) = 610"
  shows "cmdq_busy (mbox_read fw q)" "timerOn (mbox_read fw q) = timerOn q" "pending (mbox_read fw q) = pending q"
proof -
  have b: "cmdq_core q" "pending q \<noteq> []" "uReadLen q = snd (cmd_lens (cmd_head q)) + CMDMBOX_HEADER_LEN"
    using assms(1) core_head_ok(1) [of q] by (auto simp: cmdq_busy_def)
  have "unat (uReadLen q - CMDMBOX_HEADER_LEN) \<le> 610" using cmd_lens_le [OF core_head_ok(2) [OF b(1,2)]] b(3) by simp
  then have l: "length (copy_bytes (unat (uReadLen q - CMDMBOX_HEADER_LEN)) (parameters fw) (parameters (tCmdRead q))) = 610"
    using assms(2) b(1) by (simp add: length_copy cmdq_core_def)
  show p: "pending (mbox_read fw q) = pending q" by (rule pending_cong) (simp_all add: mbox_read_def)
  have "cmdq_ring (mbox_read fw q) = cmdq_ring q" by (rule ring_cong) (simp_all add: mbox_read_def)
  with l p b(1) have "cmdq_core (mbox_read fw q)" by (simp add: cmdq_core_def mbox_read_def)
  with assms(1) p show "cmdq_busy (mbox_read fw q)" by (simp add: cmdq_busy_def mbox_read_def left_sent_def)
  show "timerOn (mbox_read fw q) = timerOn q" by (simp add: mbox_read_def)
qed

lemma busy_cong:
  assumes "aCmdQueue q' = aCmdQueue q" "head q' = head q" "uNumberOfCommandInQueue q' = uNumberOfCommandInQueue q"
    "tail q' = tail q" "aRecoveryQueue q' = aRecoveryQueue q" "uNumberOfRecoveryNodes q' = uNumberOfRecoveryNodes q"
    "tCmdWrite q' = tCmdWrite q" "tCmdRead q' = tCmdRead q" "accCmds q' = accCmds q" "outCmds q' = outCmds q"
    "sentCmds q' = sentCmds q" "cmd_writes (twCalls q') = cmd_writes (twCalls q)" "state q' = state q"
    "bCmdInProgress q' = bCmdInProgress q" "bAwake q' = bAwake q" "uReadLen q' = uReadLen q"
  shows "cmdq_busy q' = cmdq_busy q" "pending q' = pending q"
  using core_cong [OF assms(1-12)] assms(13-16) assms(11) by (simp_all add: cmdq_busy_def)

text \<open>The state when the reply of the firmware is being read.\<close>

definition reading :: "TCmdQueue \<Rightarrow> TCmdQueue" where
  "reading q = tw_call (TwReadCmd (uFwAddr q) (uReadLen q)) (q\<lparr>timerOn := False\<rparr>)"

lemma CommandComplete_eq:
  "snd (cmdMbox_CommandComplete client rc fw q) =
     (if rc = TXN_STATUS_COMPLETE then snd (cmdMbox_TransferComplete client (mbox_read fw (reading q))) else reading q)"
  by (simp add: cmdMbox_CommandComplete_def reading_def Let_def tw_call_def)

lemma busy_reading: "cmdq_busy (reading q) = cmdq_busy q" "pending (reading q) = pending q" "\<not> timerOn (reading q)"
  by (rule busy_cong; simp add: reading_def tw_call_def)+ (simp add: reading_def tw_call_def)

section \<open>Recovery\<close>

definition rec_of :: "TCmdQueueNode \<Rightarrow> TCmdQueueRecoveryNode" where
  "rec_of c = \<lparr>r_fCb = n_fCb c, r_hCb = n_hCb c, r_pInterrogateBuf = pInterrogateBuf c\<rparr>"

definition saved_cbs :: "TCmdQueueNode list \<Rightarrow> TCmdQueueRecoveryNode list" where
  "saved_cbs cs = map rec_of (filter (\<lambda>c. n_fCb c \<noteq> 0) cs)"

definition recovery_nodes :: "TCmdQueue \<Rightarrow> TCmdQueueRecoveryNode list" where
  "recovery_nodes q = take (unat (uNumberOfRecoveryNodes q)) (aRecoveryQueue q)"

text \<open>After \<open>k\<close> rounds: the callbacks of the first \<open>k\<close> commands are saved, and nothing else has changed.\<close>

definition saving :: "TCmdQueue \<Rightarrow> nat \<Rightarrow> TCmdQueue \<times> TI_UINT32 \<Rightarrow> bool" where
  "saving q k s \<longleftrightarrow> (\<exists>a n. fst s = q\<lparr>aRecoveryQueue := a, uNumberOfRecoveryNodes := n\<rparr> \<and> length a = 30 \<and> unat n \<le> k \<and>
     take (unat n) a = saved_cbs (take k (pending q))) \<and> unat (snd s) = (unat (head q) + k) mod 30"

lemma take_Suc_update: "i < length xs \<Longrightarrow> take (Suc i) (xs[i := x]) = take i xs @ [x]"
  by (simp add: take_Suc_conv_app_nth)

lemma next_index:
  assumes "unat x < 30"
  shows "unat (if x + 1 = CMDQUEUE_QUEUE_DEPTH then 0 else x + 1) = Suc (unat x) mod 30"
  using assms unat_word_inc [OF assms]
  by (cases "unat x = 29") (simp_all add: CMDQUEUE_QUEUE_DEPTH_def word_unat_eq_iff)

lemma saving_step:
  assumes "saving q k s" "k < unat (uNumberOfCommandInQueue q)" "cmdq_ring q"
  shows "saving q (Suc k) (save_round s i)"
proof -
  obtain a n where q1: "fst s = q\<lparr>aRecoveryQueue := a, uNumberOfRecoveryNodes := n\<rparr>" "length a = 30" "unat n \<le> k"
    "take (unat n) a = saved_cbs (take k (pending q))" and f: "unat (snd s) = (unat (head q) + k) mod 30"
    using assms(1) unfolding saving_def by blast
  have n30: "unat n < 30" using q1(3) assms(2,3) by (simp add: cmdq_ring_def)
  have n1: "unat (n + 1) = Suc (unat n)" by (rule unat_word_inc [OF n30])
  let ?c = "aCmdQueue q ! unat (snd s)"
  have c: "pending q ! k = ?c" using assms(2) f by (simp add: pending_def)
  have tk: "take (Suc k) (pending q) = take k (pending q) @ [?c]" using assms(2) c by (simp add: take_Suc_conv_app_nth)
  have idx: "unat (snd (save_round s i)) = (unat (head q) + Suc k) mod 30"
    using next_index [of "snd s"] f by (simp add: save_round_def Let_def split_beta mod_Suc_eq)
  have a1: "aCmdQueue (fst s) = aCmdQueue q" "aRecoveryQueue (fst s) = a" "uNumberOfRecoveryNodes (fst s) = n"
    by (simp_all add: q1(1))
  have "\<exists>a n. fst (save_round s i) = q\<lparr>aRecoveryQueue := a, uNumberOfRecoveryNodes := n\<rparr> \<and> length a = 30 \<and>
     unat n \<le> Suc k \<and> take (unat n) a = saved_cbs (take (Suc k) (pending q))"
  proof (cases "n_fCb ?c = 0")
    case True
    then have "fst (save_round s i) = q\<lparr>aRecoveryQueue := a, uNumberOfRecoveryNodes := n\<rparr>"
      by (simp add: save_round_def Let_def split_beta a1) (rule q1(1))
    with q1 True tk show ?thesis by (intro exI [of _ a] exI [of _ n]) (simp add: saved_cbs_def)
  next
    case False
    then have "fst (save_round s i) = q\<lparr>aRecoveryQueue := a[unat n := rec_of ?c], uNumberOfRecoveryNodes := n + 1\<rparr>"
      by (simp add: save_round_def Let_def split_beta a1 rec_of_def) (simp add: q1(1))
    moreover have "take (unat (n + 1)) (a[unat n := rec_of ?c]) = saved_cbs (take (Suc k) (pending q))"
      using take_Suc_update [of "unat n" a "rec_of ?c"] q1 n30 n1 False tk by (simp add: saved_cbs_def)
    ultimately show ?thesis using q1(2,3) n1 by (intro exI [of _ "a[unat n := rec_of ?c]"] exI [of _ "n + 1"]) simp
  qed
  with idx show ?thesis by (simp add: saving_def)
qed

lemma saving_all:
  assumes "cmdq_ring q" "length (aRecoveryQueue q) = 30" "uNumberOfRecoveryNodes q = 0"
  shows "k \<le> unat (uNumberOfCommandInQueue q) \<Longrightarrow> saving q k (foldl save_round (q, head q) [0..<k])"
proof (induction k)
  case 0
  have e: "fst (q, head q) = q\<lparr>aRecoveryQueue := aRecoveryQueue q, uNumberOfRecoveryNodes := 0\<rparr>" using assms(3) by simp
  have "unat (head q) mod 30 = unat (head q)" using assms(1) by (simp add: cmdq_ring_def)
  then show ?case unfolding saving_def using e assms(2)
    by (intro conjI exI [of _ "aRecoveryQueue q"] exI [of _ 0]) (simp_all add: saved_cbs_def)
next
  case (Suc k)
  then show ?case using saving_step [OF _ _ assms(1), of k _ k] by simp
qed

lemma restart_result:
  assumes "cmdq_core q"
  shows "\<exists>a n. snd (cmdQueue_Restart q) = q\<lparr>state := CMDQUEUE_STATE_IDLE, bAwake := False, aRecoveryQueue := a,
      uNumberOfRecoveryNodes := n, head := 0, tail := 0, uNumberOfCommandInQueue := 0,
      outCmds := outCmds q @ abort_log q\<rparr> \<and> length a = 30 \<and> unat n \<le> 30 \<and> take (unat n) a = saved_cbs (pending q)"
proof -
  let ?q = "q\<lparr>state := CMDQUEUE_STATE_IDLE, bAwake := False, uNumberOfRecoveryNodes := 0\<rparr>"
  let ?k = "unat (uNumberOfCommandInQueue q)"
  have ring: "cmdq_ring ?q = cmdq_ring q" by (rule ring_cong) simp_all
  have p: "pending ?q = pending q" by (rule pending_cong) simp_all
  have "saving ?q ?k (foldl save_round (?q, head ?q) [0..<?k])"
    by (rule saving_all) (use assms ring in \<open>simp_all add: cmdq_core_def\<close>)
  then obtain a n where a: "fst (foldl save_round (?q, head ?q) [0..<?k]) = ?q\<lparr>aRecoveryQueue := a, uNumberOfRecoveryNodes := n\<rparr>"
    "length a = 30" "unat n \<le> ?k" "take (unat n) a = saved_cbs (take ?k (pending q))"
    unfolding saving_def p by blast
  have "?k \<le> 30" using assms by (simp add: cmdq_core_def cmdq_ring_def)
  with a have "snd (cmdQueue_Restart q) = q\<lparr>state := CMDQUEUE_STATE_IDLE, bAwake := False, aRecoveryQueue := a,
      uNumberOfRecoveryNodes := n, head := 0, tail := 0, uNumberOfCommandInQueue := 0, outCmds := outCmds q @ abort_log q\<rparr>"
    by (simp add: cmdQueue_Restart_def Let_def split_beta)
  with a(2-4) \<open>?k \<le> 30\<close> show ?thesis by (intro exI [of _ a] exI [of _ n]) simp
qed

end
