(* ===== verification/WlCmdProps.thy ===== *)
theory WlCmdProps
  imports WlCmdInv
begin

text \<open>
  The properties of the command queue and the mailbox: the pipeline of commands in every reachable
  state, what a completion does, what sending answers, recovery, and the error flag.
\<close>

section \<open>Reachable states\<close>

text \<open>
  A state with the fact that a reply is being read. The firmware signals a completion only for the
  command that it has, and the bus ends only the read that was given to it.
\<close>

inductive cmd_step :: "(CmdCb list \<Rightarrow> CmdReq list) \<Rightarrow> bool \<times> TCmdQueue \<Rightarrow> bool \<times> TCmdQueue \<Rightarrow> bool" for client where
  send: "req_ok r \<Longrightarrow> cmd_step client (rd, q) (rd, snd (cmdQueue_SendCommand r q))"
| complete: "bCmdInProgress q \<Longrightarrow> length (parameters fw) = 610 \<Longrightarrow>
    cmd_step client (False, q) (rc = TXN_STATUS_PENDING, snd (cmdMbox_CommandComplete client rc fw q))"
| transfer: "length (parameters fw) = 610 \<Longrightarrow>
    cmd_step client (True, q) (False, snd (cmdMbox_TransferComplete client (mbox_read fw q)))"
| timeout: "timerOn q \<Longrightarrow> cmd_step client (rd, q) (rd, cmdMbox_TimeOut q)"
| stop: "cmd_step client (rd, q) (False, twd_stop q)"
| end_reconfig: "cmd_step client (rd, q) (rd, snd (cmdQueue_EndReconfig client q))"
| enable: "cmd_step client (rd, q) (rd, snd (cmdQueue_EnableMbox q))"
| disable: "cmd_step client (rd, q) (rd, snd (cmdQueue_DisableMbox q))"
| generic_cb: "cmd_step client (rd, q) (rd, snd (cmdQueue_RegisterCmdCompleteGenericCb f h q))"
| error_cb: "cmd_step client (rd, q) (rd, snd (cmdQueue_RegisterForErrorCb f h q))"
| config: "cmd_step client (rd, q) (rd, snd (cmdMbox_ConfigHw f h rc v q))"
| config_cb: "cmd_step client (rd, q) (rd, fst (cmdMbox_ConfigHwCb v q))"

definition cmdq_new :: "bool \<Rightarrow> TCmdQueue" where
  "cmdq_new tmr_ok = snd (cmdQueue_Init tmr_ok (the (cmdQueue_Create True (the (cmdMbox_Create True)))))"

definition cmd_reach :: "(CmdCb list \<Rightarrow> CmdReq list) \<Rightarrow> bool \<Rightarrow> TCmdQueue \<Rightarrow> bool" where
  "cmd_reach client rd q \<longleftrightarrow> (\<exists>tmr_ok. (cmd_step client)\<^sup>*\<^sup>* (False, cmdq_new tmr_ok) (rd, q))"

definition reach_inv :: "bool \<times> TCmdQueue \<Rightarrow> bool" where
  "reach_inv s \<longleftrightarrow> cmdq_inv (snd s) \<and> (fst s \<longrightarrow> cmdq_busy (snd s) \<and> \<not> timerOn (snd s))"

lemma busy_iff: "cmdq_inv q \<Longrightarrow> cmdq_busy q \<longleftrightarrow> bCmdInProgress q"
  by (auto simp: cmdq_inv_def cmdq_idle_def cmdq_busy_def)

lemma new_inv: "reach_inv (False, cmdq_new tmr_ok)"
  by (simp add: reach_inv_def cmdq_new_def cmdQueue_Create_def cmdMbox_Create_def cmdQueue_Init_def cmdMbox_Init_def Let_def
      cmdq_inv_def cmdq_idle_def cmdq_core_def cmdq_ring_def pending_def left_sent_def TCmdMbox.defs no_node_def
      no_command_def MAX_CMD_PARAMS_def CMDQUEUE_QUEUE_DEPTH_def)

lemma map_fst_abort: "map fst (abort_log q) = pending q"
  by (auto simp: abort_log_def comp_def split: list.splits)

lemma sent_abort: "map fst (filter was_sent (abort_log q)) = take 1 (pending q)"
  by (auto simp: abort_log_def was_sent_def filter_empty_conv split: list.splits)

lemma stop_result:
  assumes "cmdq_inv q"
  shows "cmdq_idle (twd_stop q)" "recovery_nodes (twd_stop q) = saved_cbs (pending q)" "cbCalls (twd_stop q) = cbCalls q"
    "accCmds (twd_stop q) = accCmds q" "sentCmds (twd_stop q) = sentCmds q" "bErrorFlag (twd_stop q) = bErrorFlag q"
    "twCalls (twd_stop q) = twCalls q"
proof -
  let ?m = "snd (cmdMbox_Restart q)"
  have m: "cmdq_core ?m = cmdq_core q" "pending ?m = pending q" "left_sent ?m = left_sent q"
    by (rule core_cong; simp add: cmdMbox_Restart_def)+
  have core: "cmdq_core q" using assms by (auto simp: cmdq_inv_def cmdq_idle_def cmdq_busy_def)
  then obtain a n where r: "snd (cmdQueue_Restart ?m) = ?m\<lparr>state := CMDQUEUE_STATE_IDLE, bAwake := False, aRecoveryQueue := a,
      uNumberOfRecoveryNodes := n, head := 0, tail := 0, uNumberOfCommandInQueue := 0,
      outCmds := outCmds ?m @ abort_log ?m\<rparr>" "length a = 30" "unat n \<le> 30" "take (unat n) a = saved_cbs (pending q)"
    using restart_result [of ?m] m by auto
  have ab: "abort_log ?m = abort_log q" by (simp add: abort_log_def m)
  have s: "twd_stop q = ?m\<lparr>state := CMDQUEUE_STATE_IDLE, bAwake := False, aRecoveryQueue := a,
      uNumberOfRecoveryNodes := n, head := 0, tail := 0, uNumberOfCommandInQueue := 0,
      outCmds := outCmds ?m @ abort_log q, bMboxEnabled := False\<rparr>"
    by (simp add: twd_stop_def r(1) cmdQueue_DisableMbox_def ab)
  show "recovery_nodes (twd_stop q) = saved_cbs (pending q)" by (simp add: recovery_nodes_def s r(4))
  show fr: "accCmds (twd_stop q) = accCmds q" "sentCmds (twd_stop q) = sentCmds q" "cbCalls (twd_stop q) = cbCalls q"
    "bErrorFlag (twd_stop q) = bErrorFlag q" "twCalls (twd_stop q) = twCalls q"
    by (simp_all add: s cmdMbox_Restart_def)
  have p: "pending (twd_stop q) = []" by (simp add: pending_def s)
  have "cmdq_ring (twd_stop q)" using core by (simp add: cmdq_core_def cmdq_ring_def s cmdMbox_Restart_def)
  then have "cmdq_core (twd_stop q)"
    using core p r(2,3) unfolding cmdq_core_def fr by (simp add: s cmdMbox_Restart_def map_fst_abort)
  moreover have "sentCmds q = left_sent q @ take 1 (pending q)"
    using assms by (auto simp: cmdq_inv_def cmdq_idle_def cmdq_busy_def neq_Nil_conv)
  then have "sentCmds (twd_stop q) = left_sent (twd_stop q)"
    using sent_abort [of q] unfolding fr by (simp add: left_sent_def s cmdMbox_Restart_def)
  ultimately show "cmdq_idle (twd_stop q)" using p by (simp add: cmdq_idle_def) (simp add: s cmdMbox_Restart_def)
qed

lemma push_busy:
  assumes "cmdq_busy q"
  shows "cmdQueue_SendCommand r q =
    (if bErrorFlag q then (TI_NOK, q) else if \<not> bMboxEnabled q then (TI_OK, q)
     else if uNumberOfCommandInQueue q = CMDQUEUE_QUEUE_DEPTH then (TI_NOK, q)
     else (TI_OK, push_node (new_node r (aCmdQueue q ! unat (tail q))) q))"
proof -
  have "cmdQueue_Run (push_node c q) = (RcTxn TXN_STATUS_PENDING, push_node c q)" for c
    using assms by (intro Run_wait) (simp add: cmdq_busy_def push_fields)
  then show ?thesis by (auto simp: cmdQueue_SendCommand_def Push_eq Let_def RC_CONVERT_def)
qed

text \<open>While a reply is being read, the mailbox stays occupied and the timer off.\<close>

lemma reading_send:
  assumes "cmdq_busy q \<and> \<not> timerOn q" "req_ok r"
  shows "cmdq_busy (snd (cmdQueue_SendCommand r q)) \<and> \<not> timerOn (snd (cmdQueue_SendCommand r q))"
proof -
  have "cmdq_inv (snd (cmdQueue_SendCommand r q))" using assms by (intro inv_send) (simp_all add: cmdq_inv_def)
  moreover have "bCmdInProgress (snd (cmdQueue_SendCommand r q))" "\<not> timerOn (snd (cmdQueue_SendCommand r q))"
    using assms by (simp_all add: push_busy push_fields) (simp add: cmdq_busy_def)
  ultimately show ?thesis by (simp add: busy_iff)
qed

interpretation rd: cmd_client "\<lambda>q. cmdq_busy q \<and> \<not> timerOn q"
proof
  show "cmdq_busy q \<and> \<not> timerOn q \<Longrightarrow> req_ok r \<Longrightarrow>
      cmdq_busy (snd (cmdQueue_SendCommand r q)) \<and> \<not> timerOn (snd (cmdQueue_SendCommand r q))" for q r
    by (rule reading_send)
  show "cmdq_busy q \<and> \<not> timerOn q \<Longrightarrow> cmdq_busy (q\<lparr>cbCalls := l\<rparr>) \<and> \<not> timerOn (q\<lparr>cbCalls := l\<rparr>)" for q l
    using busy_cong(1) [of "q\<lparr>cbCalls := l\<rparr>" q] by simp
qed

lemma clear_recovery:
  "cmdq_inv q \<Longrightarrow> cmdq_inv (q\<lparr>uNumberOfRecoveryNodes := 0\<rparr>)" "cmdq_busy q \<Longrightarrow> cmdq_busy (q\<lparr>uNumberOfRecoveryNodes := 0\<rparr>)"
proof -
  have p: "pending (q\<lparr>uNumberOfRecoveryNodes := 0\<rparr>) = pending q" by (rule pending_cong) simp_all
  have "cmdq_ring (q\<lparr>uNumberOfRecoveryNodes := 0\<rparr>) = cmdq_ring q" by (rule ring_cong) simp_all
  with p show "cmdq_inv q \<Longrightarrow> cmdq_inv (q\<lparr>uNumberOfRecoveryNodes := 0\<rparr>)"
    "cmdq_busy q \<Longrightarrow> cmdq_busy (q\<lparr>uNumberOfRecoveryNodes := 0\<rparr>)"
    by (auto simp: cmdq_inv_def cmdq_idle_def cmdq_busy_def cmdq_core_def left_sent_def)
qed

lemma end_reconfig_inv:
  assumes "client_ok client"
  shows "cmdq_inv q \<Longrightarrow> cmdq_inv (snd (cmdQueue_EndReconfig client q))"
    "cmdq_busy q \<and> \<not> timerOn q \<Longrightarrow> cmdq_busy (snd (cmdQueue_EndReconfig client q)) \<and> \<not> timerOn (snd (cmdQueue_EndReconfig client q))"
proof -
  let ?l = "foldl (\<lambda>q i. call_back client (recovery_cb (aRecoveryQueue q ! i)) q) q [0..<unat (uNumberOfRecoveryNodes q)]"
  have e: "snd (cmdQueue_EndReconfig client q) = ?l\<lparr>uNumberOfRecoveryNodes := 0\<rparr>"
    by (simp add: cmdQueue_EndReconfig_def Let_def)
  show "cmdq_inv q \<Longrightarrow> cmdq_inv (snd (cmdQueue_EndReconfig client q))"
    unfolding e by (intro clear_recovery cmdinv.I_calls [OF assms])
  assume "cmdq_busy q \<and> \<not> timerOn q"
  then have "cmdq_busy ?l \<and> \<not> timerOn ?l" by (rule rd.I_calls [OF assms])
  then show "cmdq_busy (snd (cmdQueue_EndReconfig client q)) \<and> \<not> timerOn (snd (cmdQueue_EndReconfig client q))"
    unfolding e by (simp add: clear_recovery)
qed

lemma reach_inv_cong:
  assumes "aCmdQueue q' = aCmdQueue q" "head q' = head q" "uNumberOfCommandInQueue q' = uNumberOfCommandInQueue q"
    "tail q' = tail q" "aRecoveryQueue q' = aRecoveryQueue q" "uNumberOfRecoveryNodes q' = uNumberOfRecoveryNodes q"
    "tCmdWrite q' = tCmdWrite q" "tCmdRead q' = tCmdRead q" "accCmds q' = accCmds q" "outCmds q' = outCmds q"
    "sentCmds q' = sentCmds q" "cmd_writes (twCalls q') = cmd_writes (twCalls q)" "state q' = state q"
    "bCmdInProgress q' = bCmdInProgress q" "bAwake q' = bAwake q" "uReadLen q' = uReadLen q" "timerOn q' \<longrightarrow> timerOn q"
    "reach_inv (rd, q)"
  shows "reach_inv (rd, q')"
  using inv_cong [OF assms(1-15,17,16)] busy_cong(1) [OF assms(1-16)] assms(17,18) by (auto simp: reach_inv_def)

lemma step_inv:
  assumes "client_ok client"
  shows "cmd_step client s s' \<Longrightarrow> reach_inv s \<Longrightarrow> reach_inv s'"
proof (induction rule: cmd_step.induct)
  case (send r rd q)
  then show ?case using inv_send [of q r] reading_send [of q r] by (simp add: reach_inv_def)
next
  case (complete q fw rc)
  then have b: "cmdq_busy (reading q)" "\<not> timerOn (reading q)" by (simp_all add: reach_inv_def busy_iff busy_reading)
  note r = inv_read [OF b(1) complete(2)]
  have "cmdq_inv (snd (cmdMbox_TransferComplete client (mbox_read fw (reading q))))"
    using inv_transfer [OF assms r(1)] r(2) b(2) by simp
  with b show ?case by (simp add: reach_inv_def CommandComplete_eq cmdq_inv_def)
next
  case (transfer fw q)
  then have b: "cmdq_busy q" "\<not> timerOn q" by (simp_all add: reach_inv_def)
  note r = inv_read [OF b(1) transfer(1)]
  from inv_transfer [OF assms r(1)] r(2) b(2) show ?case by (simp add: reach_inv_def)
next
  case (timeout q rd)
  show ?case by (rule reach_inv_cong [of _ q])
      (use timeout in \<open>simp_all add: cmdMbox_TimeOut_def cmdQueue_Error_def Let_def\<close>)
next
  case (stop rd q)
  then show ?case using stop_result(1) [of q] by (simp add: reach_inv_def cmdq_inv_def)
next
  case (end_reconfig rd q)
  then show ?case using end_reconfig_inv [OF assms, of q] by (simp add: reach_inv_def)
next
  case (enable rd q)
  show ?case by (rule reach_inv_cong [of _ q]) (use enable in \<open>simp_all add: cmdQueue_EnableMbox_def\<close>)
next
  case (disable rd q)
  show ?case by (rule reach_inv_cong [of _ q]) (use disable in \<open>simp_all add: cmdQueue_DisableMbox_def\<close>)
next
  case (generic_cb rd q f h)
  show ?case by (rule reach_inv_cong [of _ q]) (use generic_cb in \<open>simp_all add: cmdQueue_RegisterCmdCompleteGenericCb_def\<close>)
next
  case (error_cb rd q f h)
  show ?case by (rule reach_inv_cong [of _ q]) (use error_cb in \<open>simp_all add: cmdQueue_RegisterForErrorCb_def\<close>)
next
  case (config rd q f h rc v)
  show ?case by (rule reach_inv_cong [of _ q]) (use config in \<open>simp_all add: cmdMbox_ConfigHw_def Let_def tw_call_def\<close>)
next
  case (config_cb rd q v)
  show ?case by (rule reach_inv_cong [of _ q]) (use config_cb in \<open>simp_all add: cmdMbox_ConfigHwCb_def Let_def\<close>)
qed

lemma reach_cmdq:
  assumes "client_ok client" "cmd_reach client rd q"
  shows "reach_inv (rd, q)"
proof -
  have "(cmd_step client)\<^sup>*\<^sup>* s s' \<Longrightarrow> reach_inv s \<Longrightarrow> reach_inv s'" for s s'
    by (induction rule: rtranclp_induct) (auto intro: step_inv [OF assms(1)])
  then show ?thesis using assms(2) new_inv by (auto simp: cmd_reach_def)
qed


section \<open>The pipeline\<close>

text \<open>
  C5. The command pipeline, in every reachable state of the command queue and the mailbox, restarts
  included: the commands that were queued are, in their order, those that left and then those that are
  pending, at most 30 of them; those that were sent are the ones that left other than by being dropped
  and then the first pending one; each write to the firmware carries the type and the parameters of
  its command, in the order of sending; and a command is with the firmware, the mailbox occupied and
  the chip awake exactly as long as a command is pending, with the timer running at no other time.
\<close>

theorem cmdQueue_pipeline:
  assumes "client_ok client" "cmd_reach client rd q"
  shows "accCmds q = map fst (outCmds q) @ pending q \<and> length (pending q) \<le> 30 \<and>
    sentCmds q = map fst (filter was_sent (outCmds q)) @ take 1 (pending q) \<and>
    list_all2 wire_ok (sentCmds q) (cmd_writes (twCalls q)) \<and>
    (state q = CMDQUEUE_STATE_WAIT_FOR_COMPLETION \<longleftrightarrow> pending q \<noteq> []) \<and> (bCmdInProgress q \<longleftrightarrow> pending q \<noteq> []) \<and>
    (bAwake q \<longleftrightarrow> pending q \<noteq> []) \<and> (timerOn q \<longrightarrow> pending q \<noteq> [])"
proof -
  have inv: "cmdq_inv q" using reach_cmdq [OF assms] by (simp add: reach_inv_def)
  then have len: "length (pending q) \<le> 30"
    by (auto simp: cmdq_inv_def cmdq_idle_def cmdq_busy_def cmdq_core_def cmdq_ring_def)
  from inv show ?thesis unfolding cmdq_inv_def
  proof (elim disjE)
    assume "cmdq_idle q"
    with len show ?thesis by (auto simp: cmdq_idle_def cmdq_core_def left_sent_def)
  next
    assume "cmdq_busy q"
    with len show ?thesis
      by (cases "pending q") (auto simp: cmdq_busy_def cmdq_core_def left_sent_def simp del: length_pending)
  qed
qed

section \<open>Sending and completing\<close>

text \<open>Sending a command does not touch these.\<close>

lemma Run_frames:
  "cbCalls (snd (cmdQueue_Run q)) = cbCalls q" "outCmds (snd (cmdQueue_Run q)) = outCmds q"
  "bErrorFlag (snd (cmdQueue_Run q)) = bErrorFlag q" "aRecoveryQueue (snd (cmdQueue_Run q)) = aRecoveryQueue q"
  "uNumberOfRecoveryNodes (snd (cmdQueue_Run q)) = uNumberOfRecoveryNodes q" "accCmds (snd (cmdQueue_Run q)) = accCmds q"
  by (cases "state q"; simp add: cmdQueue_Run_def queue_awake_def tw_call_def cmdMbox_SendCommand_def Let_def split_beta)+

lemma cmd_send_frames:
  "cbCalls (snd (cmdQueue_SendCommand r q)) = cbCalls q" "outCmds (snd (cmdQueue_SendCommand r q)) = outCmds q"
  "bErrorFlag (snd (cmdQueue_SendCommand r q)) = bErrorFlag q" "aRecoveryQueue (snd (cmdQueue_SendCommand r q)) = aRecoveryQueue q"
  "uNumberOfRecoveryNodes (snd (cmdQueue_SendCommand r q)) = uNumberOfRecoveryNodes q"
  by (simp_all add: cmdQueue_SendCommand_def Push_eq Let_def split_beta Run_frames push_fields)

lemma call_back_frames:
  "cbCalls (call_back client cb q) = cbCalls q @ [cb]" "outCmds (call_back client cb q) = outCmds q"
  "bErrorFlag (call_back client cb q) = bErrorFlag q" "aRecoveryQueue (call_back client cb q) = aRecoveryQueue q"
  "uNumberOfRecoveryNodes (call_back client cb q) = uNumberOfRecoveryNodes q"
proof -
  have "cbCalls (send_cmds rs q) = cbCalls q \<and> outCmds (send_cmds rs q) = outCmds q \<and> bErrorFlag (send_cmds rs q) = bErrorFlag q \<and>
      aRecoveryQueue (send_cmds rs q) = aRecoveryQueue q \<and> uNumberOfRecoveryNodes (send_cmds rs q) = uNumberOfRecoveryNodes q"
    for rs q by (induction rs arbitrary: q) (simp_all add: cmd_send_frames)
  then show "cbCalls (call_back client cb q) = cbCalls q @ [cb]" "outCmds (call_back client cb q) = outCmds q"
    "bErrorFlag (call_back client cb q) = bErrorFlag q" "aRecoveryQueue (call_back client cb q) = aRecoveryQueue q"
    "uNumberOfRecoveryNodes (call_back client cb q) = uNumberOfRecoveryNodes q"
    by (simp_all add: call_back_def Let_def)
qed

text \<open>What a callback queues.\<close>

lemma mid_send_pending:
  assumes "cmdq_mid q" "req_ok r"
  shows "\<exists>new. accCmds (snd (cmdQueue_SendCommand r q)) = accCmds q @ new \<and>
     pending (snd (cmdQueue_SendCommand r q)) = pending q @ new"
proof -
  let ?c = "new_node r (aCmdQueue q ! unat (tail q))"
  have "cmdQueue_Run (push_node ?c q) = (RcTxn TXN_STATUS_PENDING, push_node ?c q)"
    using assms(1) by (intro Run_wait) (simp add: cmdq_mid_def push_fields)
  moreover have "unat (tail q) < 30" using assms(1) by (simp add: cmdq_mid_def cmdq_core_def cmdq_ring_def)
  then have "cmd_ok ?c" using assms by (intro new_node_ok) (simp_all add: cmdq_mid_def cmdq_core_def cmdq_ring_def)
  then have "uNumberOfCommandInQueue q \<noteq> CMDQUEUE_QUEUE_DEPTH \<Longrightarrow> pending (push_node ?c q) = pending q @ [?c]"
    using assms(1) by (intro core_push(2)) (simp_all add: cmdq_mid_def)
  ultimately show ?thesis by (auto simp: cmdQueue_SendCommand_def Push_eq Let_def split_beta push_fields)
qed

lemma mid_calls_pending:
  assumes "client_ok client" "cmdq_mid q"
  shows "\<exists>new. accCmds (call_back client cb q) = accCmds q @ new \<and> pending (call_back client cb q) = pending q @ new"
proof -
  have l: "cmdq_mid q \<Longrightarrow> \<forall>r\<in>set rs. req_ok r \<Longrightarrow>
      \<exists>new. accCmds (send_cmds rs q) = accCmds q @ new \<and> pending (send_cmds rs q) = pending q @ new" for rs q
  proof (induction rs arbitrary: q)
    case (Cons r rs)
    from mid_send_pending [of q r] Cons.prems obtain n1 where n1:
      "accCmds (snd (cmdQueue_SendCommand r q)) = accCmds q @ n1" "pending (snd (cmdQueue_SendCommand r q)) = pending q @ n1"
      by auto
    from Cons.IH [OF mid_send [of q r]] Cons.prems n1 show ?case by auto
  qed simp
  let ?q = "q\<lparr>cbCalls := cbCalls q @ [cb]\<rparr>"
  have "pending ?q = pending q" by (rule pending_cong) simp_all
  moreover have "\<exists>new. accCmds (send_cmds (client (cbCalls ?q)) ?q) = accCmds ?q @ new \<and>
      pending (send_cmds (client (cbCalls ?q)) ?q) = pending ?q @ new"
    by (rule l) (use assms mid_log in \<open>auto simp: client_ok_def\<close>)
  ultimately show ?thesis by (simp add: call_back_def)
qed


text \<open>The status of a reply and the callback for it.\<close>

definition reply_status :: "Command_t \<Rightarrow> CbStatus" where
  "reply_status fw = (if cmdStatus fw = CMD_STATUS_SUCCESS then CbTi TI_OK
     else if cmdStatus fw = CMD_STATUS_REJECT_MEAS_SG_ACTIVE then SG_REJECT_MEAS_SG_ACTIVE else CbTi TI_NOK)"

definition reply_cbs :: "TCmdQueueNode \<Rightarrow> Command_t \<Rightarrow> TCmdQueue \<Rightarrow> CmdCb list" where
  "reply_cbs c fw q =
     (if n_fCb c \<noteq> 0 \<and> pInterrogateBuf c \<noteq> 0
      then [InterrogateCb (n_fCb c) (n_hCb c) (reply_status fw) (pInterrogateBuf c) (take (unat (snd (cmd_lens c))) (parameters fw))]
      else if n_fCb c \<noteq> 0 then [ResultCb (n_fCb c) (n_hCb c) (reply_status fw)]
      else if fCmdCompleteCb q \<noteq> 0
        then [GenericCb (fCmdCompleteCb q) (hCmdCompleteCb q) (cmdType c) (cmd_param c) (reply_status fw)]
      else [])"

lemma cmd_next_frames:
  "cbCalls (snd (cmd_next q)) = cbCalls q" "outCmds (snd (cmd_next q)) = outCmds q"
  "bErrorFlag (snd (cmd_next q)) = bErrorFlag q" "accCmds (snd (cmd_next q)) = accCmds q"
  by (simp_all add: cmd_next_def Run_frames tw_call_def)

lemma reply_read:
  assumes "cmdq_inv q" "pending q = c # cs" "length (parameters fw) = 610"
  defines "q' \<equiv> (mbox_read fw (reading q))\<lparr>bCmdInProgress := False\<rparr>"
  shows "cmd_head q' = c" "cmd_status q' = reply_status fw"
    "cmd_callback c (reply_status fw) q' = (case reply_cbs c fw q of [] \<Rightarrow> None | x # _ \<Rightarrow> Some x)"
    "accCmds q' = accCmds q" "cbCalls q' = cbCalls q" "outCmds q' = outCmds q"
proof -
  let ?m = "mbox_read fw (reading q)"
  have busy: "cmdq_busy (reading q)" using assms(1,2) by (auto simp: busy_reading cmdq_inv_def cmdq_idle_def)
  note m = inv_read [OF busy assms(3)]
  show "cmd_head q' = c"
    using core_head_ok(1) [of ?m] m(1,3) assms(2) by (simp add: q'_def cmdq_busy_def busy_reading cmd_head_def)
  have "cmd_ok c" using assms(1,2) by (auto simp: cmdq_inv_def cmdq_idle_def cmdq_busy_def cmdq_core_def)
  then have l: "unat (snd (cmd_lens c)) \<le> 610" using cmd_lens_le by blast
  then have "\<not> snd (cmd_lens c) + CMDMBOX_HEADER_LEN < CMDMBOX_HEADER_LEN"
    by (simp add: CMDMBOX_HEADER_LEN_def word_less_nat_alt unat_add_small)
  moreover have u: "uReadLen (reading q) = snd (cmd_lens c) + CMDMBOX_HEADER_LEN"
    using busy assms(2) by (simp add: cmdq_busy_def busy_reading(2))
  ultimately have rd: "tCmdRead q' = \<lparr>cmdID = cmdID fw, cmdStatus = cmdStatus fw,
      parameters = copy_bytes (unat (snd (cmd_lens c))) (parameters fw) (parameters (tCmdRead (reading q)))\<rparr>"
    "uReadLen q' = uReadLen (reading q)"
    by (simp_all add: mbox_read_def q'_def)
  show "cmd_status q' = reply_status fw" by (simp add: cmd_status_def cmdMbox_GetStatus_def rd reply_status_def)
  have "cmdMbox_GetCmdParams q' = take (unat (snd (cmd_lens c))) (parameters fw)"
    using l assms(3) by (simp add: cmdMbox_GetCmdParams_def rd u take_copy)
  moreover have "fCmdCompleteCb q' = fCmdCompleteCb q" "hCmdCompleteCb q' = hCmdCompleteCb q"
    by (simp_all add: q'_def mbox_read_def reading_def tw_call_def)
  ultimately show "cmd_callback c (reply_status fw) q' = (case reply_cbs c fw q of [] \<Rightarrow> None | x # _ \<Rightarrow> Some x)"
    by (simp add: cmd_callback_def reply_cbs_def)
  show "accCmds q' = accCmds q" "cbCalls q' = cbCalls q" "outCmds q' = outCmds q"
    by (simp_all add: q'_def mbox_read_def reading_def tw_call_def)
qed

text \<open>
  C6. A completion, in every reachable state: when the firmware's reply to the first pending command is
  read, the command leaves the queue with the status of the reply, exactly one callback is made - the
  command's own, with the result bytes that it asked for if it gave a buffer, else the generic one if
  one is registered - and the other commands stay pending in their order, followed by those that the
  callback sent. The error flag is set for a failure other than the soft-gemini rejection.
\<close>

theorem cmdQueue_completion:
  assumes "client_ok client" "cmd_reach client False q" "pending q = c # cs" "length (parameters fw) = 610"
  shows "\<exists>new q'. cmdMbox_CommandComplete client TXN_STATUS_COMPLETE fw q = (TXN_STATUS_COMPLETE, q') \<and>
     pending q' = cs @ new \<and> accCmds q' = accCmds q @ new \<and> outCmds q' = outCmds q @ [(c, Completed (reply_status fw))] \<and>
     cbCalls q' = cbCalls q @ reply_cbs c fw q \<and> bErrorFlag q' = (reply_status fw = CbTi TI_NOK)"
proof -
  have inv: "cmdq_inv q" using reach_cmdq [OF assms(1,2)] by (simp add: reach_inv_def)
  then have busy: "cmdq_busy (reading q)" "\<not> timerOn (reading q)"
    using assms(3) by (auto simp: busy_reading cmdq_inv_def cmdq_idle_def)
  let ?m = "mbox_read fw (reading q)" let ?q = "?m\<lparr>bCmdInProgress := False\<rparr>" let ?p = "popped ?q"
  let ?cb = "cmd_callback c (reply_status fw) ?q"
  note m = inv_read [OF busy(1) assms(4)] and rr = reply_read [OF inv assms(3,4)]
  have mid: "cmdq_mid ?p" "pending ?p = cs" using mid_popped [OF m(1)] m(2,3) busy(2) assms(3) by (simp_all add: busy_reading)
  define r where "r = (case ?cb of None \<Rightarrow> ?p | Some cb \<Rightarrow> call_back client cb ?p)"
  have pf: "accCmds ?p = accCmds q" "cbCalls ?p = cbCalls q" "outCmds ?p = outCmds q @ [(c, Completed (reply_status fw))]"
    "bErrorFlag ?p = (reply_status fw = CbTi TI_NOK)" by (simp_all add: popped_fields rr)
  have "\<exists>new. accCmds r = accCmds q @ new \<and> pending r = cs @ new"
    using mid_calls_pending [OF assms(1) mid(1)] mid(2) pf(1) by (cases ?cb) (simp_all add: r_def)
  then obtain new where new: "accCmds r = accCmds q @ new" "pending r = cs @ new" by blast
  have midr: "cmdq_mid r" using mid(1) mid.I_call_back [OF assms(1) mid(1)] by (cases ?cb) (simp_all add: r_def)
  have rf: "cbCalls r = cbCalls q @ reply_cbs c fw q" "outCmds r = outCmds q @ [(c, Completed (reply_status fw))]"
    "bErrorFlag r = (reply_status fw = CbTi TI_NOK)"
    by (simp_all add: r_def rr call_back_frames pf split: list.split) (auto simp: reply_cbs_def)
  have "state ?q = CMDQUEUE_STATE_WAIT_FOR_COMPLETION" using m(1) by (simp add: cmdq_busy_def)
  from SM_complete [OF this, of client]
  have "snd (cmdMbox_CommandComplete client TXN_STATUS_COMPLETE fw q) = snd (cmd_next r)"
    by (simp add: CommandComplete_eq cmdMbox_TransferComplete_def cmdQueue_ResultReceived_def rr(1,2) r_def)
  moreover have "fst (cmdMbox_CommandComplete client TXN_STATUS_COMPLETE fw q) = TXN_STATUS_COMPLETE"
    by (simp add: cmdMbox_CommandComplete_def Let_def)
  ultimately show ?thesis using new rf cmd_next_inv(2) [OF midr]
    by (intro exI [of _ new] exI [of _ "snd (cmd_next r)"]) (simp add: cmd_next_frames prod_eq_iff)
qed


text \<open>
  C31. Sending a command, in every reachable state, on every branch: it is refused while the error flag
  is set and when 30 commands are pending, and ignored with TI_OK while the mailbox is disabled; the
  queue does not change then. Otherwise it becomes the last pending command with the type, parameters
  and callback of the request, and goes to the firmware at once exactly when it is the only one.
\<close>

theorem cmdQueue_send:
  assumes "client_ok client" "cmd_reach client rd q" "req_ok r" "cmdQueue_SendCommand r q = (st, q')"
  shows "if bErrorFlag q then st = TI_NOK \<and> q' = q
    else if \<not> bMboxEnabled q then st = TI_OK \<and> q' = q
    else if length (pending q) = 30 then st = TI_NOK \<and> q' = q
    else st = TI_OK \<and> cbCalls q' = cbCalls q \<and>
      (\<exists>c. pending q' = pending q @ [c] \<and> accCmds q' = accCmds q @ [c] \<and> cmdType c = q_type r \<and> uParamsLen c = q_len r \<and>
         take (unat (q_len r)) (aParamsBuf c) = take (unat (q_len r)) (q_buf r) \<and> n_fCb c = q_fCb r \<and> n_hCb c = q_hCb r \<and>
         pInterrogateBuf c = q_pCb r \<and> sentCmds q' = sentCmds q @ (if pending q = [] then [c] else []))"
proof -
  have inv: "cmdq_inv q" using reach_cmdq [OF assms(1,2)] by (simp add: reach_inv_def)
  have core: "cmdq_core q" using inv by (auto simp: cmdq_inv_def cmdq_idle_def cmdq_busy_def)
  have full: "uNumberOfCommandInQueue q = CMDQUEUE_QUEUE_DEPTH \<longleftrightarrow> length (pending q) = 30"
    by (simp add: CMDQUEUE_QUEUE_DEPTH_def word_unat_eq_iff)
  let ?c = "new_node r (aCmdQueue q ! unat (tail q))" let ?p = "push_node ?c q"
  have "unat (tail q) < 30" using core by (simp add: cmdq_core_def cmdq_ring_def)
  then have ok: "cmd_ok ?c" using core by (intro new_node_ok assms(3)) (simp add: cmdq_core_def cmdq_ring_def)
  have "unat (q_len r) \<le> length (q_buf r)" using assms(3) by (simp add: req_ok_def)
  then have c: "cmdType ?c = q_type r" "uParamsLen ?c = q_len r" "n_fCb ?c = q_fCb r" "n_hCb ?c = q_hCb r"
    "pInterrogateBuf ?c = q_pCb r" "take (unat (q_len r)) (aParamsBuf ?c) = take (unat (q_len r)) (q_buf r)"
    by (simp_all add: new_node_def take_copy)
  show ?thesis
  proof (cases "bErrorFlag q \<or> \<not> bMboxEnabled q \<or> uNumberOfCommandInQueue q = CMDQUEUE_QUEUE_DEPTH")
    case True
    with assms(4) show ?thesis unfolding full [symmetric]
      by (auto simp: cmdQueue_SendCommand_def Push_eq RC_CONVERT_def split: if_splits)
  next
    case False
    then have nf: "uNumberOfCommandInQueue q \<noteq> CMDQUEUE_QUEUE_DEPTH" by simp
    note p = core_push [OF core nf ok]
    have "st = TI_OK \<and> cbCalls q' = cbCalls q \<and> pending q' = pending q @ [?c] \<and> accCmds q' = accCmds q @ [?c] \<and>
        sentCmds q' = sentCmds q @ (if pending q = [] then [?c] else [])"
    proof (cases "cmdq_busy q")
      case True
      with False assms(4) p(2) show ?thesis by (auto simp: push_busy push_fields cmdq_busy_def)
    next
      case idle: False
      then have i: "cmdq_idle q" using inv by (simp add: cmdq_inv_def)
      then have n1: "uNumberOfCommandInQueue ?p = 1" by (simp add: cmdq_idle_def push_fields pending_empty)
      have s: "state ?p = CMDQUEUE_STATE_IDLE" "\<not> bCmdInProgress ?p" using i by (simp_all add: cmdq_idle_def push_fields)
      note R = Run_idle [OF s]
      have "pending (snd (cmdQueue_Run ?p)) = pending ?p" by (rule pending_cong) (rule R)+
      moreover have "cmd_head ?p = ?c" using core_head_ok(1) [OF p(1)] p(2) i by (simp add: cmdq_idle_def)
      moreover have "(st, q') = (TI_OK, snd (cmdQueue_Run ?p))"
        using False assms(4) n1 R(1) by (simp add: cmdQueue_SendCommand_def Push_eq Let_def split_beta RC_CONVERT_def)
      ultimately show ?thesis using R i p(2) by (simp add: push_fields cmdq_idle_def)
    qed
    with False full c show ?thesis by auto
  qed
qed

section \<open>Recovery\<close>

lemma end_reconfig_calls:
  "cbCalls (foldl (\<lambda>q i. call_back client (recovery_cb (aRecoveryQueue q ! i)) q) q xs) =
     cbCalls q @ map (\<lambda>i. recovery_cb (aRecoveryQueue q ! i)) xs"
  by (induction xs arbitrary: q) (simp_all add: call_back_frames)

lemma nodes_calls:
  assumes "unat (uNumberOfRecoveryNodes q) \<le> length (aRecoveryQueue q)"
  shows "map (\<lambda>i. recovery_cb (aRecoveryQueue q ! i)) [0..<unat (uNumberOfRecoveryNodes q)] = map recovery_cb (recovery_nodes q)"
  using assms by (intro nth_equalityI) (simp_all add: recovery_nodes_def)

text \<open>
  Recovery, in every reachable state: a stop empties the queue and frees the mailbox, and the end of
  the reconfiguration then calls, once each and in their order, the callbacks of the commands that were
  pending, with the firmware-reset status; a command without a callback of its own is forgotten.
\<close>

theorem cmdQueue_recovery:
  assumes "client_ok client" "cmd_reach client rd q"
  shows "pending (twd_stop q) = [] \<and> state (twd_stop q) = CMDQUEUE_STATE_IDLE \<and> \<not> bCmdInProgress (twd_stop q) \<and>
    \<not> bAwake (twd_stop q) \<and> \<not> timerOn (twd_stop q) \<and>
    cbCalls (snd (cmdQueue_EndReconfig client (twd_stop q))) = cbCalls q @ map recovery_cb (saved_cbs (pending q)) \<and>
    recovery_nodes (snd (cmdQueue_EndReconfig client (twd_stop q))) = []"
proof -
  have "cmdq_inv q" using reach_cmdq [OF assms] by (simp add: reach_inv_def)
  note s = stop_result [OF this]
  have "unat (uNumberOfRecoveryNodes (twd_stop q)) \<le> length (aRecoveryQueue (twd_stop q))"
    using s(1) by (simp add: cmdq_idle_def cmdq_core_def)
  from nodes_calls [OF this] s show ?thesis
    by (simp add: cmdQueue_EndReconfig_def Let_def end_reconfig_calls cmdq_idle_def)
      (simp add: recovery_nodes_def)
qed

section \<open>The error flag\<close>

definition stuck :: "(Command_t \<times> TI_UINT32) list \<Rightarrow> TCmdQueue \<Rightarrow> bool" where
  "stuck w q \<longleftrightarrow> bErrorFlag q \<and> uNumberOfCommandInQueue q = 0 \<and> cmd_writes (twCalls q) = w"

lemma stuck_send: "stuck w q \<Longrightarrow> cmdQueue_SendCommand r q = (TI_NOK, q)"
  by (simp add: stuck_def cmdQueue_SendCommand_def)

interpretation stk: cmd_client "stuck w" for w
  by unfold_locales (simp add: stuck_send, simp add: stuck_def)

lemma stuck_step:
  assumes "client_ok client"
  shows "cmd_step client s s' \<Longrightarrow> reach_inv s \<Longrightarrow> stuck w (snd s) \<Longrightarrow> stuck w (snd s')"
proof (induction rule: cmd_step.induct)
  case (complete q fw rc)
  then show ?case by (auto simp: reach_inv_def cmdq_inv_def cmdq_idle_def cmdq_busy_def stuck_def pending_empty)
next
  case (transfer fw q)
  then show ?case by (simp add: reach_inv_def cmdq_busy_def stuck_def pending_empty)
next
  case (stop rd q)
  then have "cmdq_inv q" by (simp add: reach_inv_def)
  from stop_result [OF this] stop show ?case by (simp add: stuck_def cmdq_idle_def pending_empty)
next
  case (end_reconfig rd q)
  then have "stuck w (foldl (\<lambda>q i. call_back client (recovery_cb (aRecoveryQueue q ! i)) q) q xs)" for xs
    by (intro stk.I_calls [OF assms]) simp
  then show ?case by (simp add: cmdQueue_EndReconfig_def Let_def stuck_def)
qed (simp_all add: stuck_send cmdMbox_TimeOut_def cmdQueue_Error_def Let_def cmdQueue_EnableMbox_def cmdQueue_DisableMbox_def
    cmdQueue_RegisterCmdCompleteGenericCb_def cmdQueue_RegisterForErrorCb_def cmdMbox_ConfigHw_def cmdMbox_ConfigHwCb_def
    tw_call_def, simp_all add: stuck_def)


text \<open>
  The error flag is final: once a command has failed with nothing else pending, then whatever
  happens later - enabling the mailbox, stopping the driver for recovery and the end of the
  reconfiguration included - every command is refused and nothing more is written to the firmware.
\<close>

theorem cmdQueue_error_final:
  assumes "client_ok client" "cmd_reach client rd q" "bErrorFlag q" "pending q = []"
    "(cmd_step client)\<^sup>*\<^sup>* (rd, q) (rd', q')"
  shows "bErrorFlag q' \<and> pending q' = [] \<and> cmd_writes (twCalls q') = cmd_writes (twCalls q) \<and>
    (\<forall>r. cmdQueue_SendCommand r q' = (TI_NOK, q'))"
proof -
  let ?w = "cmd_writes (twCalls q)"
  have s: "(cmd_step client)\<^sup>*\<^sup>* s s' \<Longrightarrow> reach_inv s \<and> stuck ?w (snd s) \<Longrightarrow> reach_inv s' \<and> stuck ?w (snd s')" for s s'
    by (induction rule: rtranclp_induct) (auto intro: step_inv [OF assms(1)] stuck_step [OF assms(1)])
  have "stuck ?w q'"
    using s [OF assms(5)] reach_cmdq [OF assms(1,2)] assms(3,4) by (simp add: stuck_def pending_empty)
  then show ?thesis using stuck_send by (auto simp: stuck_def pending_empty)
qed

section \<open>The length that is written\<close>

lemma low_bits: "unat (w AND 0x3) = unat w mod 4" for w :: TI_UINT32
proof -
  have "w AND 0x3 = take_bit 2 w" by (simp add: take_bit_eq_mask mask_eq_exp_minus_1)
  then have "unat (w AND 0x3) = take_bit 2 (unat w)" by (simp only: unsigned_take_bit_eq)
  then show ?thesis by (simp add: take_bit_eq_mod)
qed

lemma high_bits: "unat (w AND 0xFFFFFFFC) = 4 * (unat w div 4)" for w :: TI_UINT32
proof -
  have m: "(0xFFFFFFFC :: TI_UINT32) = NOT (mask 2)" by (simp add: mask_eq_exp_minus_1)
  have "w AND 0xFFFFFFFC = push_bit 2 (drop_bit 2 w)"
    unfolding m
  proof (rule bit_word_eqI)
    fix i assume "i < LENGTH(32)"
    moreover have "\<not> i < 2 \<Longrightarrow> Suc (Suc (i - 2)) = i" by simp
    ultimately show "bit (w AND NOT (mask 2)) i = bit (push_bit 2 (drop_bit 2 w)) i"
      by (cases "i < 2") (simp_all add: bit_simps)
  qed
  then have "unat (w AND 0xFFFFFFFC) = take_bit 32 (push_bit 2 (drop_bit 2 (take_bit 32 (unat w))))"
    by (simp only: unsigned_push_bit_eq unsigned_drop_bit_eq len_bit0 len_num1) simp
  moreover have "unat w < 4294967296" using unsigned_less [of w, where ?'a = nat] by simp
  ultimately show ?thesis by (simp add: take_bit_eq_mod push_bit_eq_mult drop_bit_eq_div ac_simps)
qed

text \<open>
  The length of a write to the mailbox: for parameters of up to 610 bytes it is the smallest
  multiple of four that covers the header and the parameters. The image of a command has 614 bytes;
  with 609 or 610 bytes of parameters the write reads two bytes beyond it.
\<close>

theorem cmdMbox_write_length:
  assumes "unat n \<le> 610"
  shows "unat (mbox_write_len n) mod 4 = 0 \<and> unat n + 4 \<le> unat (mbox_write_len n) \<and> unat (mbox_write_len n) < unat n + 8 \<and>
    (unat (mbox_write_len n) > 4 + MAX_CMD_PARAMS \<longleftrightarrow> 609 \<le> unat n)"
proof -
  have w: "unat (n + CMDMBOX_HEADER_LEN) = unat n + 4" "unat (n + CMDMBOX_HEADER_LEN + 4) = unat n + 8"
    using assms by (simp_all add: CMDMBOX_HEADER_LEN_def unat_add_small)
  have "unat (mbox_write_len n) = (if (unat n + 4) mod 4 \<noteq> 0 then 4 * ((unat n + 8) div 4) else unat n + 4)"
    using low_bits [of "n + CMDMBOX_HEADER_LEN"] high_bits [of "n + CMDMBOX_HEADER_LEN + 4"]
    by (simp add: mbox_write_len_def w word_unat_eq_iff)
  then show ?thesis using assms by (auto simp: MAX_CMD_PARAMS_def) presburger+
qed


section \<open>Witnesses\<close>

text \<open>
  A client that sends nothing; an interrogate command with its own callback and result buffer, a
  configuration command without callback; a reply with success and one with an error status.
\<close>

definition silent_client :: "CmdCb list \<Rightarrow> CmdReq list" where "silent_client l = []"

definition ex_interrogate :: CmdReq where
  "ex_interrogate = \<lparr>q_type = CMD_INTERROGATE, q_buf = [5, 0, 2, 0, 0, 0], q_len = 6, q_fCb = 1, q_hCb = 2, q_pCb = 3\<rparr>"

definition ex_configure :: CmdReq where
  "ex_configure = \<lparr>q_type = 2, q_buf = [7, 0, 1, 0, 9], q_len = 5, q_fCb = 0, q_hCb = 0, q_pCb = 0\<rparr>"

definition ex_reply :: "TI_UINT16 \<Rightarrow> Command_t" where
  "ex_reply st = \<lparr>cmdID = 1, cmdStatus = st, parameters = [5, 0, 2, 0, 8, 9] @ replicate 604 0\<rparr>"

definition ex_ready :: TCmdQueue where "ex_ready = snd (cmdQueue_EnableMbox (cmdq_new True))"
definition ex_two :: TCmdQueue where
  "ex_two = snd (cmdQueue_SendCommand ex_configure (snd (cmdQueue_SendCommand ex_interrogate ex_ready)))"
definition ex_failed :: TCmdQueue where
  "ex_failed = snd (cmdMbox_CommandComplete silent_client TXN_STATUS_COMPLETE (ex_reply 13)
     (snd (cmdQueue_SendCommand ex_interrogate ex_ready)))"

lemma silent_ok: "client_ok silent_client"
  by (simp add: client_ok_def silent_client_def)

lemmas ex_cmd_eval = ex_ready_def ex_interrogate_def ex_configure_def cmdq_new_def cmdQueue_Create_def cmdMbox_Create_def
  cmdQueue_Init_def cmdMbox_Init_def cmdQueue_EnableMbox_def TCmdMbox.defs cmdQueue_SendCommand_def cmdQueue_Push_def
  cmdQueue_Run_def queue_awake_def cmdMbox_SendCommand_def cmd_head_def cmd_lens_def new_node_def tw_call_def
  CMDQUEUE_QUEUE_DEPTH_def pending_def CMD_INTERROGATE_def CMD_TEST_def Let_def

lemma ex_req_ok: "req_ok ex_interrogate" "req_ok ex_configure"
  by code_simp+

lemma reach_step: "cmd_reach client rd q \<Longrightarrow> cmd_step client (rd, q) (rd', q') \<Longrightarrow> cmd_reach client rd' q'"
  unfolding cmd_reach_def by (meson rtranclp.rtrancl_into_rtrancl)

lemma upt_2: "[0..<2] = [0, 1::nat]"
  by code_simp

lemma ex_busy: "bCmdInProgress (snd (cmdQueue_SendCommand ex_interrogate ex_ready))"
  by (simp add: ex_cmd_eval)

lemma ex_reaches:
  "cmd_reach silent_client False ex_ready" "cmd_reach silent_client False ex_two" "cmd_reach silent_client False ex_failed"
proof -
  have "cmd_reach silent_client False (cmdq_new True)" unfolding cmd_reach_def by blast
  from reach_step [OF this cmd_step.enable] show r: "cmd_reach silent_client False ex_ready" unfolding ex_ready_def .
  from reach_step [OF reach_step [OF this cmd_step.send [OF ex_req_ok(1)]] cmd_step.send [OF ex_req_ok(2)]]
  show "cmd_reach silent_client False ex_two" unfolding ex_two_def .
  have "length (parameters (ex_reply 13)) = 610" by (simp add: ex_reply_def)
  from reach_step [OF reach_step [OF r cmd_step.send [OF ex_req_ok(1)]]
      cmd_step.complete [OF ex_busy this, where rc = TXN_STATUS_COMPLETE]]
  show "cmd_reach silent_client False ex_failed" unfolding ex_failed_def by simp
qed

lemma ex_two_pending: "map cmdType (pending ex_two) = [1, 2] \<and> map n_fCb (pending ex_two) = [1, 0] \<and> cbCalls ex_two = [] \<and>
    map pInterrogateBuf (pending ex_two) = [3, 0] \<and> map n_hCb (pending ex_two) = [2, 0] \<and> map uParamsLen (pending ex_two) = [6, 5]"
  by (simp add: ex_two_def ex_cmd_eval upt_2 comp_def)

lemma ex_failed_facts: "bErrorFlag ex_failed \<and> pending ex_failed = []"
  by code_simp


lemma ex_two_cases: "\<exists>c d. pending ex_two = [c, d] \<and> n_fCb c = 1 \<and> n_hCb c = 2 \<and> pInterrogateBuf c = 3 \<and> n_fCb d = 0 \<and>
    cmdType c = 1 \<and> uParamsLen c = 6"
  using ex_two_pending by (auto simp: map_eq_Cons_conv)

lemma ex_ready_facts: "bErrorFlag ex_ready = False \<and> bMboxEnabled ex_ready \<and> pending ex_ready = [] \<and> sentCmds ex_ready = []"
  by (simp add: ex_cmd_eval)

lemma cmdQueue_pipeline_witness:
  "accCmds ex_two = map fst (outCmds ex_two) @ pending ex_two \<and> bCmdInProgress ex_two \<and> pending ex_two \<noteq> []"
  using cmdQueue_pipeline [OF silent_ok ex_reaches(2)] ex_two_cases by auto

lemma cmdQueue_completion_witness:
  "\<exists>q'. cmdMbox_CommandComplete silent_client TXN_STATUS_COMPLETE (ex_reply 1) ex_two = (TXN_STATUS_COMPLETE, q') \<and>
     cbCalls q' = [InterrogateCb 1 2 (CbTi TI_OK) 3 [5, 0, 2, 0, 8, 9]] \<and> \<not> bErrorFlag q' \<and> pending q' \<noteq> []"
proof -
  obtain c d where c: "pending ex_two = [c, d]" "n_fCb c = 1" "n_hCb c = 2" "pInterrogateBuf c = 3" "cmdType c = 1" "uParamsLen c = 6"
    using ex_two_cases by blast
  have "length (parameters (ex_reply 1)) = 610" by (simp add: ex_reply_def)
  from cmdQueue_completion [OF silent_ok ex_reaches(2) c(1) this] c ex_two_pending show ?thesis
    by (auto simp: reply_cbs_def reply_status_def ex_reply_def cmd_lens_def CMD_INTERROGATE_def CMD_STATUS_SUCCESS_def)
qed

lemma cmdQueue_send_witness:
  "\<exists>q'. cmdQueue_SendCommand ex_interrogate ex_ready = (TI_OK, q') \<and>
     (\<exists>c. pending q' = [c] \<and> sentCmds q' = [c] \<and> take 6 (aParamsBuf c) = [5, 0, 2, 0, 0, 0])"
proof -
  obtain st q' where s: "cmdQueue_SendCommand ex_interrogate ex_ready = (st, q')" by force
  from cmdQueue_send [OF silent_ok ex_reaches(1) ex_req_ok(1) s] ex_ready_facts s show ?thesis
    by (auto simp: ex_interrogate_def)
qed

lemma cmdQueue_recovery_witness:
  "cbCalls (snd (cmdQueue_EndReconfig silent_client (twd_stop ex_two))) = [RecoveryInterrogateCb 1 2 CMD_STATUS_FW_RESET 3]"
  using cmdQueue_recovery [OF silent_ok ex_reaches(2)] ex_two_cases ex_two_pending
  by (auto simp: saved_cbs_def rec_of_def recovery_cb_def)

lemma cmdQueue_error_final_witness:
  "cmdQueue_SendCommand ex_interrogate (snd (cmdQueue_EnableMbox (twd_stop ex_failed))) =
     (TI_NOK, snd (cmdQueue_EnableMbox (twd_stop ex_failed)))"
proof -
  have "(cmd_step silent_client)\<^sup>*\<^sup>* (False, ex_failed) (False, snd (cmdQueue_EnableMbox (twd_stop ex_failed)))"
    by (meson cmd_step.stop cmd_step.enable rtranclp.rtrancl_into_rtrancl rtranclp.rtrancl_refl)
  from cmdQueue_error_final [OF silent_ok ex_reaches(3) _ _ this] ex_failed_facts show ?thesis by simp
qed

lemma cmdMbox_write_length_witness: "unat (mbox_write_len 609) = 616"
proof -
  have "unat (609 :: TI_UINT32) \<le> 610" by simp
  from cmdMbox_write_length [OF this] show ?thesis by simp presburger
qed

end
