(* ===== verification/WlScr.thy ===== *)
theory WlScr
  imports WlQueue
begin

text \<open>
  The serving channel requester of \<^verbatim>\<open>stad/src/Sta_Management/scr.c\<close>: eight clients ask for two
  resources, the serving channel and the periodic scan, and each resource is given to one of them at a
  time, by priority (the client number) and by the group that the driver is in. The C arrays are
  functions of their index. A client's callback is a parameter \<open>cb\<close>: what the call does to the object,
  through the calls that the client makes before it returns (theory \<open>WlScrProps\<close> says which functions
  these are); a call of it is recorded in \<open>scrCalls\<close>, which no operation reads. \<open>TI_DBG\<close> is defined.
\<close>

section \<open>Constants and configuration\<close>

type_synonym EScrModeId = nat

definition SCR_MID_NORMAL :: nat where "SCR_MID_NORMAL = 0"
definition SCR_MID_SG :: nat where "SCR_MID_SG = 1"
definition SCR_MID_NUM_OF_MODES :: nat where "SCR_MID_NUM_OF_MODES = 2"

type_synonym EScrGroupId = nat

definition SCR_GID_IDLE :: nat where "SCR_GID_IDLE = 0"
definition SCR_GID_DRV_SCAN :: nat where "SCR_GID_DRV_SCAN = 1"
definition SCR_GID_APP_SCAN :: nat where "SCR_GID_APP_SCAN = 2"
definition SCR_GID_CONNECT :: nat where "SCR_GID_CONNECT = 3"
definition SCR_GID_CONNECTED :: nat where "SCR_GID_CONNECTED = 4"
definition SCR_GID_ROAMING :: nat where "SCR_GID_ROAMING = 5"
definition SCR_GID_NUM_OF_GROUPS :: nat where "SCR_GID_NUM_OF_GROUPS = 6"

type_synonym EScrResourceId = nat

definition SCR_RESOURCE_SERVING_CHANNEL :: nat where "SCR_RESOURCE_SERVING_CHANNEL = 0"
definition SCR_RESOURCE_PERIODIC_SCAN :: nat where "SCR_RESOURCE_PERIODIC_SCAN = 1"
definition SCR_RESOURCE_NUM_OF_RESOURCES :: nat where "SCR_RESOURCE_NUM_OF_RESOURCES = 2"

text \<open>A higher number is a higher priority.\<close>

type_synonym EScrClientId = nat

definition SCR_CID_APP_SCAN :: nat where "SCR_CID_APP_SCAN = 0"
definition SCR_CID_DRIVER_FG_SCAN :: nat where "SCR_CID_DRIVER_FG_SCAN = 1"
definition SCR_CID_CONT_SCAN :: nat where "SCR_CID_CONT_SCAN = 2"
definition SCR_CID_XCC_MEASURE :: nat where "SCR_CID_XCC_MEASURE = 3"
definition SCR_CID_BASIC_MEASURE :: nat where "SCR_CID_BASIC_MEASURE = 4"
definition SCR_CID_CONNECT :: nat where "SCR_CID_CONNECT = 5"
definition SCR_CID_IMMED_SCAN :: nat where "SCR_CID_IMMED_SCAN = 6"
definition SCR_CID_SWITCH_CHANNEL :: nat where "SCR_CID_SWITCH_CHANNEL = 7"
definition SCR_CID_NUM_OF_CLIENTS :: nat where "SCR_CID_NUM_OF_CLIENTS = 8"
definition SCR_CID_NO_CLIENT :: nat where "SCR_CID_NO_CLIENT = 9"

lemmas scr_ids =
  SCR_MID_NORMAL_def SCR_MID_SG_def SCR_MID_NUM_OF_MODES_def SCR_GID_IDLE_def SCR_GID_DRV_SCAN_def
  SCR_GID_APP_SCAN_def SCR_GID_CONNECT_def SCR_GID_CONNECTED_def SCR_GID_ROAMING_def
  SCR_GID_NUM_OF_GROUPS_def SCR_RESOURCE_SERVING_CHANNEL_def SCR_RESOURCE_PERIODIC_SCAN_def
  SCR_RESOURCE_NUM_OF_RESOURCES_def SCR_CID_APP_SCAN_def SCR_CID_DRIVER_FG_SCAN_def
  SCR_CID_CONT_SCAN_def SCR_CID_XCC_MEASURE_def SCR_CID_BASIC_MEASURE_def SCR_CID_CONNECT_def
  SCR_CID_IMMED_SCAN_def SCR_CID_SWITCH_CHANNEL_def SCR_CID_NUM_OF_CLIENTS_def
  SCR_CID_NO_CLIENT_def

datatype EScrClientRequestStatus = SCR_CRS_RUN | SCR_CRS_PEND | SCR_CRS_ABORT | SCR_CRS_FW_RESET

datatype EScePendReason =
    SCR_PR_OTHER_CLIENT_ABORTING
  | SCR_PR_OTHER_CLIENT_RUNNING
  | SCR_PR_DIFFERENT_GROUP_RUNNING
  | SCR_PR_NONE

text \<open>The code compares pending reasons by their numbers.\<close>

primrec pr_num :: "EScePendReason \<Rightarrow> nat" where
  "pr_num SCR_PR_OTHER_CLIENT_ABORTING = 0"
| "pr_num SCR_PR_OTHER_CLIENT_RUNNING = 1"
| "pr_num SCR_PR_DIFFERENT_GROUP_RUNNING = 2"
| "pr_num SCR_PR_NONE = 3"

lemma pr_num_inject [simp]: "pr_num x = pr_num y \<longleftrightarrow> x = y"
  by (cases x; cases y) simp_all

instantiation EScePendReason :: linorder
begin

definition less_eq_EScePendReason :: "EScePendReason \<Rightarrow> EScePendReason \<Rightarrow> bool" where
  "less_eq_EScePendReason x y = (pr_num x \<le> pr_num y)"

definition less_EScePendReason :: "EScePendReason \<Rightarrow> EScePendReason \<Rightarrow> bool" where
  "less_EScePendReason x y = (pr_num x < pr_num y)"

instance
  by standard (auto simp: less_eq_EScePendReason_def less_EScePendReason_def)

end

definition abortOthers :: "EScrClientId list list" where
  "abortOthers = [
    [SCR_CID_NO_CLIENT, SCR_CID_NO_CLIENT, SCR_CID_NO_CLIENT, SCR_CID_NO_CLIENT,
     SCR_CID_NO_CLIENT, SCR_CID_BASIC_MEASURE, SCR_CID_BASIC_MEASURE, SCR_CID_BASIC_MEASURE],
    [SCR_CID_NO_CLIENT, SCR_CID_APP_SCAN, SCR_CID_NO_CLIENT, SCR_CID_NO_CLIENT,
     SCR_CID_NO_CLIENT, SCR_CID_DRIVER_FG_SCAN, SCR_CID_NO_CLIENT, SCR_CID_NO_CLIENT]]"

text \<open>Which client may run in which group: a row per group, a column per client.\<close>

definition clientStatus_serving_normal :: "bool list list" where
  "clientStatus_serving_normal = [
    [False, False, False, False, False, False, False, False],
    [True, False, False, False, False, False, False, False],
    [True, False, False, False, False, False, False, False],
    [False, True, False, False, False, True, False, False],
    [True, False, True, True, True, False, False, True],
    [False, False, False, False, False, True, True, False]]"

definition clientStatus_serving_sg :: "bool list list" where
  "clientStatus_serving_sg = [
    [False, False, False, False, False, False, False, False],
    [True, False, False, False, False, False, False, False],
    [True, False, False, False, False, False, False, False],
    [False, True, False, False, False, True, False, False],
    [True, False, True, True, True, False, False, True],
    [False, False, False, False, False, True, True, False]]"

definition clientStatus_periodic_normal :: "bool list list" where
  "clientStatus_periodic_normal = [
    [False, False, False, False, False, False, False, False],
    [False, True, False, False, False, False, False, False],
    [True, False, False, False, False, False, False, False],
    [False, False, False, False, False, True, False, False],
    [False, False, False, False, False, False, False, False],
    [False, False, False, False, False, True, False, False]]"

definition clientStatus_periodic_sg :: "bool list list" where
  "clientStatus_periodic_sg = [
    [False, False, False, False, False, False, False, False],
    [False, True, False, False, False, False, False, False],
    [True, False, False, False, False, False, False, False],
    [False, False, False, False, False, True, False, False],
    [False, False, False, False, False, False, False, False],
    [False, False, False, False, False, True, False, False]]"

definition clientStatus :: "bool list list list list" where
  "clientStatus =
    [[clientStatus_serving_normal, clientStatus_serving_sg],
     [clientStatus_periodic_normal, clientStatus_periodic_sg]]"

section \<open>The object\<close>

datatype EScrClientState = SCR_CS_IDLE | SCR_CS_PENDING | SCR_CS_RUNNING | SCR_CS_ABORTING

record TScrClient =
  state :: "EScrResourceId \<Rightarrow> EScrClientState"
  clientRequestCB :: addr
  ClientRequestCBObj :: addr
  currentPendingReason :: "EScrResourceId \<Rightarrow> EScePendReason"

text \<open>A call of a client's callback.\<close>

datatype ScrCall = ScrCall EScrClientId EScrClientRequestStatus EScrResourceId EScePendReason

record TScr =
  scr_hOS :: addr
  scr_hReport :: addr
  statusNotficationPending :: bool
  runningClient :: "EScrResourceId \<Rightarrow> EScrClientId"
  currentGroup :: EScrGroupId
  currentMode :: EScrModeId
  clientArray :: "EScrClientId \<Rightarrow> TScrClient"
  scrCalls :: "ScrCall list"

text \<open>Reading and writing the entries of a client for a resource.\<close>

definition cstate :: "TScr \<Rightarrow> EScrClientId \<Rightarrow> EScrResourceId \<Rightarrow> EScrClientState" where
  "cstate s c r = state (clientArray s c) r"

definition creason :: "TScr \<Rightarrow> EScrClientId \<Rightarrow> EScrResourceId \<Rightarrow> EScePendReason" where
  "creason s c r = currentPendingReason (clientArray s c) r"

definition set_state :: "EScrClientId \<Rightarrow> EScrResourceId \<Rightarrow> EScrClientState \<Rightarrow> TScr \<Rightarrow> TScr" where
  "set_state c r v s = s\<lparr>clientArray := (clientArray s)(c :=
     (clientArray s c)\<lparr>state := (state (clientArray s c))(r := v)\<rparr>)\<rparr>"

definition set_reason :: "EScrClientId \<Rightarrow> EScrResourceId \<Rightarrow> EScePendReason \<Rightarrow> TScr \<Rightarrow> TScr" where
  "set_reason c r v s = s\<lparr>clientArray := (clientArray s)(c :=
     (clientArray s c)\<lparr>currentPendingReason := (currentPendingReason (clientArray s c))(r := v)\<rparr>)\<rparr>"

definition set_running :: "EScrResourceId \<Rightarrow> EScrClientId \<Rightarrow> TScr \<Rightarrow> TScr" where
  "set_running r c s = s\<lparr>runningClient := (runningClient s)(r := c)\<rparr>"

text \<open>The entry of \<open>clientStatus\<close> for the current mode and group.\<close>

definition client_enabled :: "TScr \<Rightarrow> EScrResourceId \<Rightarrow> EScrClientId \<Rightarrow> bool" where
  "client_enabled s r c = clientStatus ! r ! currentMode s ! currentGroup s ! c"

text \<open>A client is notified if it registered a callback.\<close>

definition scr_notify :: "(ScrCall \<Rightarrow> TScr \<Rightarrow> TScr) \<Rightarrow> EScrClientId \<Rightarrow> EScrClientRequestStatus \<Rightarrow>
    EScrResourceId \<Rightarrow> EScePendReason \<Rightarrow> TScr \<Rightarrow> TScr" where
  "scr_notify cb c crs r pr s =
     (if clientRequestCB (clientArray s c) \<noteq> 0
      then cb (ScrCall c crs r pr) (s\<lparr>scrCalls := scrCalls s @ [ScrCall c crs r pr]\<rparr>)
      else s)"

section \<open>Operations\<close>

text \<open>\<open>scrFindHighest\<close> searches downwards with signed indexes, both ends included.\<close>

function scr_find :: "TScr \<Rightarrow> EScrClientState \<Rightarrow> EScrResourceId \<Rightarrow> int \<Rightarrow> int \<Rightarrow> EScrClientId" where
  "scr_find s requiredState r i iEndAt =
     (if iEndAt \<le> i
      then if client_enabled s r (nat i) \<and> requiredState = cstate s (nat i) r then nat i
           else scr_find s requiredState r (i - 1) iEndAt
      else SCR_CID_NO_CLIENT)"
  by pat_completeness auto

termination by (relation "measure (\<lambda>(_, _, _, i, iEndAt). nat (i - iEndAt + 1))") auto

declare scr_find.simps [simp del]

definition scrFindHighest ::
  "TScr \<Rightarrow> EScrClientState \<Rightarrow> EScrResourceId \<Rightarrow> TI_UINT32 \<Rightarrow> TI_UINT32 \<Rightarrow> EScrClientId" where
  "scrFindHighest s requiredState r startFrom endAt =
     scr_find s requiredState r (sint startFrom) (sint endAt)"

definition scr_create :: "bool \<Rightarrow> addr \<Rightarrow> TScr \<Rightarrow> TScr option" where
  "scr_create alloc_ok hOS mem = (if alloc_ok then Some (mem\<lparr>scr_hOS := hOS\<rparr>) else None)"

definition scr_init :: "addr \<Rightarrow> TScr \<Rightarrow> TScr" where
  "scr_init hReport s = s\<lparr>scr_hReport := hReport, currentGroup := SCR_GID_IDLE, currentMode := SCR_MID_NORMAL,
     statusNotficationPending := False,
     runningClient := fold (\<lambda>i f. f(i := SCR_CID_NO_CLIENT)) [0..<SCR_RESOURCE_NUM_OF_RESOURCES] (runningClient s),
     clientArray := fold (\<lambda>i f. f(i := (f i)\<lparr>
         state := fold (\<lambda>j g. g(j := SCR_CS_IDLE)) [0..<SCR_RESOURCE_NUM_OF_RESOURCES] (state (f i)),
         currentPendingReason :=
           fold (\<lambda>j g. g(j := SCR_PR_NONE)) [0..<SCR_RESOURCE_NUM_OF_RESOURCES] (currentPendingReason (f i)),
         clientRequestCB := 0, ClientRequestCBObj := 0\<rparr>))
       [0..<SCR_CID_NUM_OF_CLIENTS] (clientArray s)\<rparr>"

definition scr_registerClientCB :: "EScrClientId \<Rightarrow> addr \<Rightarrow> addr \<Rightarrow> TScr \<Rightarrow> TScr" where
  "scr_registerClientCB client callbackFunc callbackObj s =
     (if SCR_CID_NUM_OF_CLIENTS \<le> client then s
      else s\<lparr>clientArray := (clientArray s)(client := (clientArray s client)
        \<lparr>clientRequestCB := callbackFunc, ClientRequestCBObj := callbackObj\<rparr>)\<rparr>)"

text \<open>The loops over the resources; their bodies are definitions of their own.\<close>

definition fw_reset_resource :: "(ScrCall \<Rightarrow> TScr \<Rightarrow> TScr) \<Rightarrow> EScrResourceId \<Rightarrow> TScr \<Rightarrow> TScr" where
  "fw_reset_resource cb r s =
     (if runningClient s r \<noteq> SCR_CID_NO_CLIENT
      then scr_notify cb (runningClient s r) SCR_CRS_FW_RESET r SCR_PR_NONE s
      else s)"

definition scr_notifyFWReset :: "(ScrCall \<Rightarrow> TScr \<Rightarrow> TScr) \<Rightarrow> TScr \<Rightarrow> TScr" where
  "scr_notifyFWReset cb s = fold (fw_reset_resource cb) [0..<SCR_RESOURCE_NUM_OF_RESOURCES] s"

text \<open>The pending reason has escalated: the client was enabled and is not in the new group \<open>g\<close>.\<close>

definition escalate :: "(ScrCall \<Rightarrow> TScr \<Rightarrow> TScr) \<Rightarrow> EScrGroupId \<Rightarrow> EScrResourceId \<Rightarrow>
    EScrClientId \<Rightarrow> TScr \<Rightarrow> TScr" where
  "escalate cb g r i s =
     (if cstate s i r = SCR_CS_PENDING \<and> creason s i r < SCR_PR_DIFFERENT_GROUP_RUNNING \<and>
         \<not> clientStatus ! r ! currentMode s ! g ! i
      then scr_notify cb i SCR_CRS_PEND r SCR_PR_DIFFERENT_GROUP_RUNNING
             (set_reason i r SCR_PR_DIFFERENT_GROUP_RUNNING s)
      else s)"

text \<open>The resource is given to a client.\<close>

definition allocate :: "EScrClientId \<Rightarrow> EScrResourceId \<Rightarrow> TScr \<Rightarrow> TScr" where
  "allocate c r s = set_running r c (set_reason c r SCR_PR_NONE (set_state c r SCR_CS_RUNNING s))"

definition highest_pending :: "TScr \<Rightarrow> EScrResourceId \<Rightarrow> EScrClientId" where
  "highest_pending s r = scrFindHighest s SCR_CS_PENDING r (of_nat (SCR_CID_NUM_OF_CLIENTS - 1)) 0"

text \<open>If no client is running, the highest pending one is called.\<close>

definition grant_if_free :: "(ScrCall \<Rightarrow> TScr \<Rightarrow> TScr) \<Rightarrow> EScrResourceId \<Rightarrow> TScr \<Rightarrow> TScr" where
  "grant_if_free cb r s =
     (if runningClient s r = SCR_CID_NO_CLIENT
      then let highestPending = highest_pending s r
           in if highestPending \<noteq> SCR_CID_NO_CLIENT \<and> highestPending < SCR_CID_NUM_OF_CLIENTS
              then scr_notify cb highestPending SCR_CRS_RUN r SCR_PR_NONE (allocate highestPending r s)
              else s
      else s)"

definition set_group_resource ::
  "(ScrCall \<Rightarrow> TScr \<Rightarrow> TScr) \<Rightarrow> EScrGroupId \<Rightarrow> EScrResourceId \<Rightarrow> TScr \<Rightarrow> TScr" where
  "set_group_resource cb newGroup r s =
     grant_if_free cb r (fold (escalate cb newGroup r) [0..<SCR_CID_NUM_OF_CLIENTS] s)"

definition scr_setGroup :: "(ScrCall \<Rightarrow> TScr \<Rightarrow> TScr) \<Rightarrow> EScrGroupId \<Rightarrow> TScr \<Rightarrow> TScr" where
  "scr_setGroup cb newGroup s =
     (if SCR_GID_NUM_OF_GROUPS \<le> newGroup then s
      else fold (set_group_resource cb newGroup) [0..<SCR_RESOURCE_NUM_OF_RESOURCES]
             (s\<lparr>currentGroup := newGroup\<rparr>))"

text \<open>
  The body that \<open>SCR_ABORT_NOTIFY_ENABLED\<close> guards; whether it is compiled in is the parameter \<open>notify\<close>
  of \<open>scr_setMode\<close> (no build of the driver defines it).
\<close>

definition abort_disabled :: "(ScrCall \<Rightarrow> TScr \<Rightarrow> TScr) \<Rightarrow> EScrResourceId \<Rightarrow> TScr \<Rightarrow> TScr" where
  "abort_disabled cb r s =
     (if runningClient s r \<noteq> SCR_CID_NO_CLIENT \<and> \<not> client_enabled s r (runningClient s r)
      then scr_notify cb (runningClient s r) SCR_CRS_ABORT r SCR_PR_NONE
             (set_state (runningClient s r) r SCR_CS_ABORTING s)
      else s)"

definition set_mode_resource :: "(ScrCall \<Rightarrow> TScr \<Rightarrow> TScr) \<Rightarrow> EScrResourceId \<Rightarrow> TScr \<Rightarrow> TScr" where
  "set_mode_resource cb r s =
     (let s1 = abort_disabled cb r s;
          s2 = fold (\<lambda>i t. escalate cb (currentGroup t) r i t) [0..<SCR_CID_NUM_OF_CLIENTS] s1
      in if runningClient s2 r = SCR_CID_NO_CLIENT
         then let highestPending = highest_pending s2 r
              in if highestPending \<noteq> SCR_CID_NO_CLIENT
                 then scr_notify cb highestPending SCR_CRS_RUN r SCR_PR_NONE (allocate highestPending r s2)
                 else s2
         else s2)"

definition scr_setMode :: "bool \<Rightarrow> (ScrCall \<Rightarrow> TScr \<Rightarrow> TScr) \<Rightarrow> EScrModeId \<Rightarrow> TScr \<Rightarrow> TScr" where
  "scr_setMode notify cb newMode s =
     (if SCR_MID_NUM_OF_MODES \<le> newMode then s
      else let s1 = s\<lparr>currentMode := newMode\<rparr>
           in if notify then fold (set_mode_resource cb) [0..<SCR_RESOURCE_NUM_OF_RESOURCES] s1 else s1)"

section \<open>Request and completion\<close>

text \<open>The client waits, with the reason that is stored and returned.\<close>

definition pend :: "EScrClientId \<Rightarrow> EScrResourceId \<Rightarrow> EScePendReason \<Rightarrow> TScr \<Rightarrow>
    EScrClientRequestStatus \<times> EScePendReason option \<times> TScr" where
  "pend client r why s =
     (SCR_CRS_PEND, Some why, set_reason client r why (set_state client r SCR_CS_PENDING s))"

text \<open>A request while another client is aborting.\<close>

definition request_aborting :: "(ScrCall \<Rightarrow> TScr \<Rightarrow> TScr) \<Rightarrow> EScrClientId \<Rightarrow> EScrResourceId \<Rightarrow> TScr \<Rightarrow>
    EScrClientRequestStatus \<times> EScePendReason option \<times> TScr" where
  "request_aborting cb client r s =
     (let highestPending = scrFindHighest s SCR_CS_PENDING r (of_nat (SCR_CID_NUM_OF_CLIENTS - 1)) (of_nat client)
      in if highestPending = SCR_CID_NO_CLIENT \<or> highestPending < client
         then pend client r SCR_PR_OTHER_CLIENT_ABORTING
                (if highestPending \<noteq> SCR_CID_NO_CLIENT \<and>
                    creason s highestPending r = SCR_PR_OTHER_CLIENT_ABORTING
                 then scr_notify cb highestPending SCR_CRS_PEND r SCR_PR_OTHER_CLIENT_RUNNING s
                 else s)
         else pend client r SCR_PR_OTHER_CLIENT_RUNNING s)"

text \<open>A request that aborts the running client. The callback may complete and change the answer.\<close>

definition request_abort :: "(ScrCall \<Rightarrow> TScr \<Rightarrow> TScr) \<Rightarrow> EScrClientId \<Rightarrow> EScrResourceId \<Rightarrow> TScr \<Rightarrow>
    EScrClientRequestStatus \<times> EScePendReason option \<times> TScr" where
  "request_abort cb client r s =
     (let s1 = (set_state client r SCR_CS_PENDING s)\<lparr>statusNotficationPending := True\<rparr>;
          s2 = set_state (runningClient s1 r) r SCR_CS_ABORTING s1;
          s3 = (scr_notify cb (runningClient s2 r) SCR_CRS_ABORT r SCR_PR_NONE s2)
                 \<lparr>statusNotficationPending := False\<rparr>
      in if cstate s3 client r = SCR_CS_RUNNING then (SCR_CRS_RUN, Some SCR_PR_NONE, s3)
         else (SCR_CRS_PEND, Some SCR_PR_OTHER_CLIENT_ABORTING,
               set_reason client r SCR_PR_OTHER_CLIENT_ABORTING s3))"

text \<open>
  The status, the reason where the code writes one through \<open>pPendReason\<close>, and the object.
\<close>

definition scr_clientRequest :: "(ScrCall \<Rightarrow> TScr \<Rightarrow> TScr) \<Rightarrow> EScrClientId \<Rightarrow> EScrResourceId \<Rightarrow> TScr \<Rightarrow>
    EScrClientRequestStatus \<times> EScePendReason option \<times> TScr" where
  "scr_clientRequest cb client r s =
     (if SCR_CID_NUM_OF_CLIENTS \<le> client then (SCR_CRS_PEND, None, s)
      else if SCR_RESOURCE_NUM_OF_RESOURCES \<le> r then (SCR_CRS_PEND, None, s)
      else if statusNotficationPending s then (SCR_CRS_PEND, Some SCR_PR_NONE, s)
      else if client = runningClient s r then (SCR_CRS_RUN, Some SCR_PR_NONE, s)
      else if \<not> client_enabled s r client then pend client r SCR_PR_DIFFERENT_GROUP_RUNNING s
      else if runningClient s r = SCR_CID_NO_CLIENT
      then (SCR_CRS_RUN, Some SCR_PR_NONE, set_running r client (set_state client r SCR_CS_RUNNING s))
      else if cstate s (runningClient s r) r = SCR_CS_ABORTING then request_aborting cb client r s
      else if client < runningClient s r then pend client r SCR_PR_OTHER_CLIENT_RUNNING s
      else if abortOthers ! r ! client = SCR_CID_NO_CLIENT \<or> abortOthers ! r ! client < runningClient s r
      then pend client r SCR_PR_OTHER_CLIENT_RUNNING s
      else request_abort cb client r s)"

definition scr_clientComplete :: "(ScrCall \<Rightarrow> TScr \<Rightarrow> TScr) \<Rightarrow> EScrClientId \<Rightarrow> EScrResourceId \<Rightarrow> TScr \<Rightarrow> TScr" where
  "scr_clientComplete cb client r s =
     (if SCR_CID_NUM_OF_CLIENTS \<le> client then s
      else if SCR_RESOURCE_NUM_OF_RESOURCES \<le> r then s
      else let s1 = set_reason client r SCR_PR_NONE (set_state client r SCR_CS_IDLE s)
      in if runningClient s1 r = client
         then let s2 = set_running r SCR_CID_NO_CLIENT s1;
                  highestPending = highest_pending s2 r
              in if highestPending \<noteq> SCR_CID_NO_CLIENT \<and> highestPending < SCR_CID_NUM_OF_CLIENTS
                 then let s3 = allocate highestPending r s2
                      in if \<not> statusNotficationPending s3
                         then scr_notify cb highestPending SCR_CRS_RUN r SCR_PR_NONE s3
                         else s3
                 else s2
         else s1)"

end
