(* ===== verification/WlScrInv.thy ===== *)
theory WlScrInv
  imports WlScr
begin

text \<open>
  What the serving channel requester keeps, whatever the clients do in their callbacks: a property
  that the small changes of the object keep is kept by every operation (locale \<open>scr_inv\<close>), interpreted
  for the exclusive use of a resource, for the absence of idle waiting, and for the abort policy.
\<close>

section \<open>Fields\<close>

lemma cstate_simps [simp]:
  "cstate (set_state c r v s) c' r' = (if c' = c \<and> r' = r then v else cstate s c' r')"
  "cstate (set_reason c r w s) c' r' = cstate s c' r'"
  "cstate (set_running r c s) c' r' = cstate s c' r'"
  "cstate (s\<lparr>statusNotficationPending := b\<rparr>) c' r' = cstate s c' r'"
  "cstate (s\<lparr>scrCalls := l\<rparr>) c' r' = cstate s c' r'"
  "cstate (s\<lparr>currentGroup := g\<rparr>) c' r' = cstate s c' r'"
  "cstate (s\<lparr>currentMode := m\<rparr>) c' r' = cstate s c' r'"
  by (simp_all add: cstate_def set_state_def set_reason_def set_running_def)

lemma creason_simps [simp]:
  "creason (set_state c r v s) c' r' = creason s c' r'"
  "creason (set_reason c r w s) c' r' = (if c' = c \<and> r' = r then w else creason s c' r')"
  "creason (set_running r c s) c' r' = creason s c' r'"
  "creason (s\<lparr>statusNotficationPending := b\<rparr>) c' r' = creason s c' r'"
  "creason (s\<lparr>scrCalls := l\<rparr>) c' r' = creason s c' r'"
  "creason (s\<lparr>currentGroup := g\<rparr>) c' r' = creason s c' r'"
  "creason (s\<lparr>currentMode := m\<rparr>) c' r' = creason s c' r'"
  by (simp_all add: creason_def set_state_def set_reason_def set_running_def)

lemma running_simps [simp]:
  "runningClient (set_state c r v s) = runningClient s"
  "runningClient (set_reason c r w s) = runningClient s"
  "runningClient (set_running r c s) = (runningClient s)(r := c)"
  by (simp_all add: set_state_def set_reason_def set_running_def)

lemma other_simps [simp]:
  "currentGroup (set_state c r v s) = currentGroup s" "currentGroup (set_reason c r w s) = currentGroup s"
  "currentGroup (set_running r c s) = currentGroup s" "currentMode (set_state c r v s) = currentMode s"
  "currentMode (set_reason c r w s) = currentMode s" "currentMode (set_running r c s) = currentMode s"
  "scrCalls (set_state c r v s) = scrCalls s" "scrCalls (set_reason c r w s) = scrCalls s"
  "scrCalls (set_running r c s) = scrCalls s"
  "statusNotficationPending (set_state c r v s) = statusNotficationPending s"
  "statusNotficationPending (set_reason c r w s) = statusNotficationPending s"
  "statusNotficationPending (set_running r c s) = statusNotficationPending s"
  "clientRequestCB (clientArray (set_state c r v s) c') = clientRequestCB (clientArray s c')"
  "clientRequestCB (clientArray (set_reason c r w s) c') = clientRequestCB (clientArray s c')"
  "clientArray (set_running r c s) = clientArray s"
  by (simp_all add: set_state_def set_reason_def set_running_def)

lemma enabled_simps [simp]:
  "client_enabled (set_state c r v s) = client_enabled s"
  "client_enabled (set_reason c r w s) = client_enabled s"
  "client_enabled (set_running r c s) = client_enabled s"
  "client_enabled (s\<lparr>statusNotficationPending := b\<rparr>) = client_enabled s"
  "client_enabled (s\<lparr>scrCalls := l\<rparr>) = client_enabled s"
  by (simp_all add: fun_eq_iff client_enabled_def)

lemma register_simps [simp]:
  "cstate (scr_registerClientCB c f b s) c' r' = cstate s c' r'"
  "runningClient (scr_registerClientCB c f b s) = runningClient s"
  "client_enabled (scr_registerClientCB c f b s) = client_enabled s"
  "currentGroup (scr_registerClientCB c f b s) = currentGroup s"
  "currentMode (scr_registerClientCB c f b s) = currentMode s"
  "scrCalls (scr_registerClientCB c f b s) = scrCalls s"
  by (auto simp: scr_registerClientCB_def cstate_def client_enabled_def fun_eq_iff)

section \<open>The highest pending client\<close>

text \<open>The clients that wait for a resource and are enabled in the current group.\<close>

definition waiting :: "TScr \<Rightarrow> EScrResourceId \<Rightarrow> EScrClientId set" where
  "waiting s r = {c. c < 8 \<and> client_enabled s r c \<and> cstate s c r = SCR_CS_PENDING}"

lemma finite_waiting [simp]: "finite (waiting s r)"
  by (simp add: waiting_def)

lemma scr_find_Max:
  assumes "0 \<le> e"
  shows "scr_find s q r i e =
    (let M = {c. e \<le> int c \<and> int c \<le> i \<and> client_enabled s r c \<and> cstate s c r = q}
     in if M = {} then 9 else Max M)"
  using assms
proof (induction s q r i e rule: scr_find.induct)
  case (1 s q r i e)
  let ?M = "\<lambda>i. {c. e \<le> int c \<and> int c \<le> i \<and> client_enabled s r c \<and> cstate s c r = q}"
  have fin: "finite (?M j)" for j
    by (rule finite_subset [of _ "{..nat j}"]) auto
  show ?case
  proof (cases "e \<le> i")
    case False
    then have "?M i = {}" by auto
    with False show ?thesis by (simp add: scr_find.simps [of s q r i e] scr_ids)
  next
    case le: True
    show ?thesis
    proof (cases "client_enabled s r (nat i) \<and> q = cstate s (nat i) r")
      case True
      then have "nat i \<in> ?M i" using le "1.prems" by auto
      moreover have "\<forall>c\<in>?M i. c \<le> nat i" by auto
      ultimately have "Max (?M i) = nat i" using fin by (intro Max_eqI) auto
      with True le \<open>nat i \<in> ?M i\<close> show ?thesis
        by (subst scr_find.simps) (auto simp: Let_def)
    next
      case False
      have eq: "?M (i - 1) = ?M i"
      proof (intro set_eqI iffI)
        fix c assume "c \<in> ?M i"
        then have "c \<noteq> nat i" using False by auto
        with \<open>c \<in> ?M i\<close> show "c \<in> ?M (i - 1)" by auto
      qed auto
      have "scr_find s q r i e = scr_find s q r (i - 1) e"
        using le False by (subst scr_find.simps) auto
      with "1.IH" [OF le False "1.prems"] show ?thesis unfolding Let_def eq by (simp only:)
    qed
  qed
qed

lemma highest_pending_eq:
  "highest_pending s r = (if waiting s r = {} then 9 else Max (waiting s r))"
proof -
  have "{c. 0 \<le> int c \<and> int c \<le> 7 \<and> client_enabled s r c \<and> cstate s c r = SCR_CS_PENDING} = waiting s r"
    by (auto simp: waiting_def)
  then show ?thesis by (simp add: highest_pending_def scrFindHighest_def scr_find_Max scr_ids Let_def)
qed

lemma highest_pending_waiting: "highest_pending s r \<noteq> 9 \<Longrightarrow> highest_pending s r \<in> waiting s r"
  using Max_in [of "waiting s r"] by (auto simp: highest_pending_eq split: if_splits)

lemma highest_pending_none [simp]: "highest_pending s r = 9 \<longleftrightarrow> waiting s r = {}"
proof (cases "waiting s r = {}")
  case False
  then have "Max (waiting s r) \<in> waiting s r" by (rule Max_in [OF finite_waiting])
  then have "Max (waiting s r) \<noteq> 9" by (auto simp: waiting_def)
  with False show ?thesis by (simp add: highest_pending_eq)
qed (simp add: highest_pending_eq)

lemma highest_above:
  assumes "c < 8"
  shows "scrFindHighest s SCR_CS_PENDING r 7 (of_nat c) =
    (if {d \<in> waiting s r. c \<le> d} = {} then 9 else Max {d \<in> waiting s r. c \<le> d})"
proof -
  have c: "sint (of_nat c :: 32 word) = int c"
    using assms by (simp add: signed_of_nat signed_take_bit_int_eq_self)
  have "{d. int c \<le> int d \<and> int d \<le> 7 \<and> client_enabled s r d \<and> cstate s d r = SCR_CS_PENDING}
      = {d \<in> waiting s r. c \<le> d}"
    by (auto simp: waiting_def)
  then show ?thesis by (simp add: scrFindHighest_def scr_find_Max c Let_def)
qed

lemma request_aborting_eq:
  assumes "c < 8"
  shows "request_aborting cb c r s =
    pend c r (if \<exists>d\<in>waiting s r. c \<le> d then SCR_PR_OTHER_CLIENT_RUNNING else SCR_PR_OTHER_CLIENT_ABORTING) s"
proof -
  let ?M = "{d \<in> waiting s r. c \<le> d}"
  have M: "Max ?M \<in> waiting s r \<and> c \<le> Max ?M" if "?M \<noteq> {}"
    using Max_in [OF _ that] by simp
  show ?thesis
  proof (cases "?M = {}")
    case True
    then show ?thesis using highest_above [OF assms, of s r]
      by (auto simp: request_aborting_def Let_def scr_ids)
  next
    case False
    from M [OF this] have "Max ?M < 8" "\<not> Max ?M < c" by (simp_all add: waiting_def)
    then have "Max ?M \<noteq> 9" "\<not> Max ?M < c" by simp_all
    moreover have "\<exists>d\<in>waiting s r. c \<le> d" using False by auto
    ultimately show ?thesis using False highest_above [OF assms, of s r]
      by (simp only: request_aborting_def Let_def scr_ids) simp
  qed
qed

section \<open>Exclusive use\<close>

text \<open>The client uses the resource, or was told to stop using it and has not completed yet.\<close>

definition holds :: "TScr \<Rightarrow> EScrClientId \<Rightarrow> EScrResourceId \<Rightarrow> bool" where
  "holds s c r \<longleftrightarrow> cstate s c r = SCR_CS_RUNNING \<or> cstate s c r = SCR_CS_ABORTING"

definition scr_excl :: "TScr \<Rightarrow> bool" where
  "scr_excl s \<longleftrightarrow> currentGroup s < 6 \<and> currentMode s < 2 \<and>
     (\<forall>r<2. (runningClient s r < 8 \<or> runningClient s r = 9) \<and>
       (\<forall>c<8. holds s c r \<longleftrightarrow> runningClient s r = c))"

lemma scr_exclD:
  assumes "scr_excl s" "r < 2"
  shows "runningClient s r = 9 \<or> runningClient s r < 8" "c < 8 \<Longrightarrow> holds s c r \<longleftrightarrow> runningClient s r = c"
  using assms by (auto simp: scr_excl_def)

text \<open>The tables of the two modes agree, so the mode does not decide who is enabled.\<close>

lemma less_2_cases_nat: "r < 2 \<Longrightarrow> (r::nat) = 0 \<or> r = 1"
  by auto

lemma clientStatus_mode: "m < 2 \<Longrightarrow> clientStatus ! r ! m = clientStatus ! r ! 0" if "r < 2"
  using less_2_cases_nat [OF that] less_2_cases_nat [of m]
  by (auto simp: clientStatus_def clientStatus_serving_normal_def clientStatus_serving_sg_def
      clientStatus_periodic_normal_def clientStatus_periodic_sg_def)

lemma client_enabled_mode:
  "r < 2 \<Longrightarrow> m < 2 \<Longrightarrow> currentMode s < 2 \<Longrightarrow> client_enabled (s\<lparr>currentMode := m\<rparr>) r = client_enabled s r"
  using clientStatus_mode [of r m] clientStatus_mode [of r "currentMode s"]
  by (simp add: fun_eq_iff client_enabled_def)

section \<open>Every callback tells the truth\<close>

text \<open>The client \<open>c\<close> may be aborted for one of higher priority that is configured to do so.\<close>

definition abortable :: "EScrResourceId \<Rightarrow> EScrClientId \<Rightarrow> bool" where
  "abortable r c \<longleftrightarrow> r < 2 \<and> (\<exists>d<8. c < d \<and> abortOthers ! r ! d \<noteq> SCR_CID_NO_CLIENT \<and> c \<le> abortOthers ! r ! d)"

text \<open>
  What a call of a callback says is so in the state in which it is made; \<open>n\<close> tells whether the
  notification of a mode change is compiled in.
\<close>

definition call_ok :: "bool \<Rightarrow> TScr \<Rightarrow> ScrCall \<Rightarrow> bool" where
  "call_ok n s k = (case k of ScrCall c crs r pr \<Rightarrow> c < 8 \<and> r < 2 \<and>
     (case crs of
        SCR_CRS_RUN \<Rightarrow> runningClient s r = c \<and> cstate s c r = SCR_CS_RUNNING \<and> client_enabled s r c
      | SCR_CRS_PEND \<Rightarrow> cstate s c r = SCR_CS_PENDING
      | SCR_CRS_ABORT \<Rightarrow> runningClient s r = c \<and> cstate s c r = SCR_CS_ABORTING \<and> (n \<or> abortable r c)
      | SCR_CRS_FW_RESET \<Rightarrow> runningClient s r = c))"

section \<open>Operations\<close>

datatype ScrOp =
    OpRequest EScrClientId EScrResourceId
  | OpComplete EScrClientId EScrResourceId
  | OpSetGroup EScrGroupId
  | OpSetMode EScrModeId
  | OpFwReset
  | OpRegister EScrClientId addr addr

primrec scr_op :: "bool \<Rightarrow> (ScrCall \<Rightarrow> TScr \<Rightarrow> TScr) \<Rightarrow> ScrOp \<Rightarrow> TScr \<Rightarrow> TScr" where
  "scr_op n cb (OpRequest c r) s = snd (snd (scr_clientRequest cb c r s))"
| "scr_op n cb (OpComplete c r) s = scr_clientComplete cb c r s"
| "scr_op n cb (OpSetGroup g) s = scr_setGroup cb g s"
| "scr_op n cb (OpSetMode m) s = scr_setMode n cb m s"
| "scr_op n cb OpFwReset s = scr_notifyFWReset cb s"
| "scr_op n cb (OpRegister c f b) s = scr_registerClientCB c f b s"

text \<open>A client that completes leaves the resource to the highest one that waits.\<close>

definition hand_over :: "EScrClientId \<Rightarrow> EScrResourceId \<Rightarrow> TScr \<Rightarrow> TScr" where
  "hand_over c r s =
     (let s1 = set_running r SCR_CID_NO_CLIENT (set_reason c r SCR_PR_NONE (set_state c r SCR_CS_IDLE s))
      in if waiting s1 r = {} then s1 else allocate (Max (waiting s1 r)) r s1)"

text \<open>
  A property that the small changes keep. The callbacks keep it as they only make calls of the module.
\<close>

locale scr_inv =
  fixes n :: bool
    and P :: "TScr \<Rightarrow> bool"
  assumes P_excl: "P s \<Longrightarrow> scr_excl s"
    and P_log: "P s \<Longrightarrow> call_ok n s k \<Longrightarrow> P (s\<lparr>scrCalls := scrCalls s @ [k]\<rparr>)"
    and P_flag: "P s \<Longrightarrow> P (s\<lparr>statusNotficationPending := b\<rparr>)"
    and P_mode: "P s \<Longrightarrow> m < 2 \<Longrightarrow> P (s\<lparr>currentMode := m\<rparr>)"
    and P_register: "P s \<Longrightarrow> P (scr_registerClientCB c f obj s)"
    and P_reason: "P s \<Longrightarrow> c < 8 \<Longrightarrow> r < 2 \<Longrightarrow> P (set_reason c r v s)"
    and P_pend: "P s \<Longrightarrow> c < 8 \<Longrightarrow> r < 2 \<Longrightarrow> runningClient s r \<noteq> c \<Longrightarrow>
      runningClient s r \<noteq> 9 \<or> \<not> client_enabled s r c \<Longrightarrow> P (set_state c r SCR_CS_PENDING s)"
    and P_abort: "P s \<Longrightarrow> c < 8 \<Longrightarrow> r < 2 \<Longrightarrow> runningClient s r = c \<Longrightarrow> P (set_state c r SCR_CS_ABORTING s)"
    and P_alloc: "P s \<Longrightarrow> c < 8 \<Longrightarrow> r < 2 \<Longrightarrow> runningClient s r = 9 \<Longrightarrow> client_enabled s r c \<Longrightarrow>
      P (set_running r c (set_state c r SCR_CS_RUNNING s))"
    and P_release: "P s \<Longrightarrow> c < 8 \<Longrightarrow> r < 2 \<Longrightarrow> runningClient s r \<noteq> c \<Longrightarrow> P (set_state c r SCR_CS_IDLE s)"
    and P_hand_over: "P s \<Longrightarrow> c < 8 \<Longrightarrow> r < 2 \<Longrightarrow> runningClient s r = c \<Longrightarrow> P (hand_over c r s)"
begin

lemma P_notify:
  assumes "P s" "call_ok n s (ScrCall c crs r pr)" "\<And>k t. P t \<Longrightarrow> P (cb k t)"
  shows "P (scr_notify cb c crs r pr s)"
  using assms P_log by (simp add: scr_notify_def)

lemma P_allocate:
  assumes "P s" "c < 8" "r < 2" "runningClient s r = 9" "client_enabled s r c"
  shows "P (allocate c r s)"
proof -
  have "allocate c r s = set_reason c r SCR_PR_NONE (set_running r c (set_state c r SCR_CS_RUNNING s))"
    by (simp add: allocate_def set_reason_def set_running_def)
  then show ?thesis using assms by (simp add: P_alloc P_reason)
qed

lemma P_pending:
  assumes "P s" "c < 8" "r < 2" "runningClient s r \<noteq> c" "runningClient s r \<noteq> 9 \<or> \<not> client_enabled s r c"
  shows "P (snd (snd (pend c r why s)))"
  using assms by (simp add: pend_def P_pend P_reason)

lemma P_run_call:
  assumes "P s" "c \<in> waiting s r" "r < 2" "runningClient s r = 9" "\<And>k t. P t \<Longrightarrow> P (cb k t)"
  shows "P (scr_notify cb c SCR_CRS_RUN r SCR_PR_NONE (allocate c r s))"
proof (rule P_notify)
  show "P (allocate c r s)" using assms(1-4) by (intro P_allocate) (auto simp: waiting_def)
  show "call_ok n (allocate c r s) (ScrCall c SCR_CRS_RUN r SCR_PR_NONE)"
    using assms(2,3) by (simp add: call_ok_def allocate_def waiting_def)
qed (rule assms(5))

lemma P_request_abort:
  assumes "P s" "c < 8" "r < 2" "runningClient s r < c" "abortOthers ! r ! c \<noteq> 9"
    "\<not> abortOthers ! r ! c < runningClient s r" "\<And>k t. P t \<Longrightarrow> P (cb k t)"
  shows "P (snd (snd (request_abort cb c r s)))"
proof -
  let ?k = "runningClient s r"
  let ?s1 = "(set_state c r SCR_CS_PENDING s)\<lparr>statusNotficationPending := True\<rparr>"
  let ?s2 = "set_state ?k r SCR_CS_ABORTING ?s1"
  have k: "?k < 8" using assms(2,4) by simp
  have "P ?s1" using assms(1-4) by (intro P_flag P_pend) auto
  then have "P ?s2" using k assms(3) by (intro P_abort) simp_all
  moreover have "abortable r ?k" using assms(2-6) by (auto simp: abortable_def scr_ids)
  then have "call_ok n ?s2 (ScrCall ?k SCR_CRS_ABORT r SCR_PR_NONE)"
    using k assms(3) by (simp add: call_ok_def)
  ultimately have "P (scr_notify cb ?k SCR_CRS_ABORT r SCR_PR_NONE ?s2)"
    by (rule P_notify) (rule assms(7))
  then show ?thesis using assms(2,3) by (simp add: request_abort_def Let_def P_flag P_reason)
qed

lemma P_request:
  assumes "P s" "\<And>k t. P t \<Longrightarrow> P (cb k t)"
  shows "P (snd (snd (scr_clientRequest cb c r s)))"
proof (cases "8 \<le> c \<or> 2 \<le> r \<or> statusNotficationPending s \<or> c = runningClient s r")
  case True
  then show ?thesis using assms(1) by (auto simp: scr_clientRequest_def scr_ids)
next
  case False
  then have cr: "c < 8" "r < 2" "runningClient s r \<noteq> c" "\<not> statusNotficationPending s" by auto
  have run: "runningClient s r < 8" if "runningClient s r \<noteq> 9"
    using scr_exclD(1) [OF P_excl [OF assms(1)] cr(2)] that by blast
  consider "\<not> client_enabled s r c" | "client_enabled s r c" "runningClient s r = 9" |
    "client_enabled s r c" "runningClient s r \<noteq> 9" by blast
  then show ?thesis
  proof cases
    case 1
    then show ?thesis using cr assms(1) by (simp add: scr_clientRequest_def scr_ids P_pending)
  next
    case 2
    then show ?thesis using cr assms(1) by (simp add: scr_clientRequest_def scr_ids P_alloc)
  next
    case 3
    have pending: "P (snd (snd (pend c r why s)))" for why
      using cr assms(1) 3 by (intro P_pending) auto
    have "P (snd (snd (request_abort cb c r s)))"
      if "\<not> c < runningClient s r" "abortOthers ! r ! c \<noteq> 9" "\<not> abortOthers ! r ! c < runningClient s r"
      using cr that by (intro P_request_abort assms) auto
    then show ?thesis
      using cr 3 pending by (simp add: scr_clientRequest_def scr_ids request_aborting_eq)
  qed
qed

lemma hand_over_eq:
  assumes "runningClient s r = c"
  shows "hand_over c r s = (let s1 = set_running r 9 (set_reason c r SCR_PR_NONE (set_state c r SCR_CS_IDLE s))
    in if highest_pending s1 r = 9 then s1 else allocate (highest_pending s1 r) r s1)"
proof -
  have "Max (waiting t r) \<noteq> 9" if "waiting t r \<noteq> {}" for t
    using Max_in [OF finite_waiting that] by (auto simp: waiting_def)
  then show ?thesis by (simp add: hand_over_def Let_def highest_pending_eq scr_ids)
qed

lemma P_complete:
  assumes "P s" "\<And>k t. P t \<Longrightarrow> P (cb k t)"
  shows "P (scr_clientComplete cb c r s)"
proof (cases "8 \<le> c \<or> 2 \<le> r")
  case True
  then show ?thesis using assms(1) by (auto simp: scr_clientComplete_def scr_ids)
next
  case False
  then have cr: "c < 8" "r < 2" by auto
  show ?thesis
  proof (cases "runningClient s r = c")
    case False
    then show ?thesis using assms(1) cr
      by (simp add: scr_clientComplete_def scr_ids Let_def P_release P_reason)
  next
    case True
    let ?s1 = "set_running r 9 (set_reason c r SCR_PR_NONE (set_state c r SCR_CS_IDLE s))"
    let ?h = "highest_pending ?s1 r"
    have ho: "P (hand_over c r s)" using assms(1) cr True by (rule P_hand_over)
    show ?thesis
    proof (cases "?h = 9")
      case True
      with ho show ?thesis using \<open>runningClient s r = c\<close> cr
        by (simp add: hand_over_eq Let_def scr_clientComplete_def scr_ids)
    next
      case False
      then have h: "?h \<in> waiting ?s1 r" by (rule highest_pending_waiting)
      have P2: "P (allocate ?h r ?s1)" using ho False True by (simp add: hand_over_eq Let_def)
      have "call_ok n (allocate ?h r ?s1) (ScrCall ?h SCR_CRS_RUN r SCR_PR_NONE)"
        using h cr by (simp add: call_ok_def allocate_def waiting_def)
      with P2 have "P (scr_notify cb ?h SCR_CRS_RUN r SCR_PR_NONE (allocate ?h r ?s1))"
        by (rule P_notify) (rule assms(2))
      moreover have "?h < 8" using h by (simp add: waiting_def)
      ultimately show ?thesis using True False cr P2
        by (simp add: scr_clientComplete_def scr_ids Let_def)
    qed
  qed
qed

lemma P_fold: "(\<And>i t. i \<in> set is \<Longrightarrow> P t \<Longrightarrow> P (f i t)) \<Longrightarrow> P s \<Longrightarrow> P (fold f is s)"
  by (induction "is" arbitrary: s) simp_all

lemma P_fw_reset:
  assumes "P s" "\<And>k t. P t \<Longrightarrow> P (cb k t)"
  shows "P (scr_notifyFWReset cb s)"
  unfolding scr_notifyFWReset_def
proof (rule P_fold [OF _ assms(1)])
  fix r t assume "r \<in> set [0..<SCR_RESOURCE_NUM_OF_RESOURCES]" and t: "P t"
  then have "r < 2" by (simp add: scr_ids)
  then show "P (fw_reset_resource cb r t)"
    using scr_exclD(1) [OF P_excl [OF t], of r] t
    by (auto simp: fw_reset_resource_def scr_ids call_ok_def intro!: P_notify assms(2))
qed

lemma P_escalate:
  assumes "P s" "i < 8" "r < 2" "\<And>k t. P t \<Longrightarrow> P (cb k t)"
  shows "P (escalate cb g r i s)"
  using assms(1-3)
  by (auto simp: escalate_def call_ok_def intro!: P_notify P_reason assms(4))

lemma P_grant:
  assumes "P s" "r < 2" "\<And>k t. P t \<Longrightarrow> P (cb k t)"
  shows "P (grant_if_free cb r s)"
  using assms(1,2) highest_pending_waiting [of s r]
  by (auto simp: grant_if_free_def Let_def scr_ids intro!: P_run_call assms(3))

lemma P_set_mode_resource:
  assumes "P s" "r < 2" "\<And>k t. P t \<Longrightarrow> P (cb k t)" "n"
  shows "P (set_mode_resource cb r s)"
proof -
  let ?s1 = "abort_disabled cb r s"
  let ?s2 = "fold (\<lambda>i t. escalate cb (currentGroup t) r i t) [0..<SCR_CID_NUM_OF_CLIENTS] ?s1"
  have "P ?s1" using assms scr_exclD(1) [OF P_excl [OF assms(1)] assms(2)]
    by (auto simp: abort_disabled_def scr_ids call_ok_def intro!: P_notify P_abort)
  then have "P ?s2" using assms(2,3) by (intro P_fold) (auto simp: scr_ids intro!: P_escalate)
  then show ?thesis using assms(2,3) highest_pending_waiting [of ?s2 r]
    by (auto simp: set_mode_resource_def Let_def scr_ids intro!: P_run_call)
qed

lemma P_set_mode:
  assumes "P s" "\<And>k t. P t \<Longrightarrow> P (cb k t)"
  shows "P (scr_setMode n cb m s)"
proof (cases "m < 2")
  case True
  then have "P (s\<lparr>currentMode := m\<rparr>)" using assms(1) by (simp add: P_mode)
  then have "n \<Longrightarrow> P (fold (set_mode_resource cb) [0..<2] (s\<lparr>currentMode := m\<rparr>))"
    by (intro P_fold) (auto intro!: P_set_mode_resource assms(2))
  with True \<open>P (s\<lparr>currentMode := m\<rparr>)\<close> show ?thesis by (simp add: scr_setMode_def scr_ids Let_def)
qed (simp add: scr_setMode_def scr_ids assms(1))

lemma P_set_group_resource:
  assumes "P s" "r < 2" "\<And>k t. P t \<Longrightarrow> P (cb k t)"
  shows "P (set_group_resource cb g r s)"
  unfolding set_group_resource_def using assms(2,3)
  by (intro P_grant P_fold assms(1)) (auto simp: scr_ids intro!: P_escalate)

text \<open>Every operation but the change of the group.\<close>

lemma P_op:
  assumes "P s" "\<And>k t. P t \<Longrightarrow> P (cb k t)" "\<forall>g. op \<noteq> OpSetGroup g"
  shows "P (scr_op n cb op s)"
  using assms by (cases op) (simp_all add: P_request P_complete P_set_mode P_fw_reset P_register)

end

text \<open>A property that does not depend on the group is kept by the change of the group too.\<close>

locale scr_group_inv = scr_inv +
  assumes P_group: "P s \<Longrightarrow> g < 6 \<Longrightarrow> P (s\<lparr>currentGroup := g\<rparr>)"
begin

lemma P_set_group:
  assumes "P s" "\<And>k t. P t \<Longrightarrow> P (cb k t)"
  shows "P (scr_setGroup cb g s)"
proof (cases "g < 6")
  case True
  then have "P (s\<lparr>currentGroup := g\<rparr>)" using assms(1) by (simp add: P_group)
  then have "P (fold (set_group_resource cb g) [0..<2] (s\<lparr>currentGroup := g\<rparr>))"
    by (intro P_fold) (auto intro!: P_set_group_resource assms(2))
  with True show ?thesis by (simp add: scr_setGroup_def scr_ids)
qed (simp add: scr_setGroup_def scr_ids assms(1))

lemma P_any_op:
  assumes "P s" "\<And>k t. P t \<Longrightarrow> P (cb k t)"
  shows "P (scr_op n cb op s)"
  using assms P_op [of s cb op] by (cases op) (simp_all add: P_set_group)

end

section \<open>The invariants\<close>

lemma holds_simps [simp]:
  "holds (set_reason c r w s) c' r' = holds s c' r'"
  "holds (set_running r c s) c' r' = holds s c' r'"
  "holds (s\<lparr>statusNotficationPending := b\<rparr>) c' r' = holds s c' r'"
  "holds (s\<lparr>scrCalls := l\<rparr>) c' r' = holds s c' r'"
  "holds (s\<lparr>currentGroup := g\<rparr>) c' r' = holds s c' r'"
  "holds (s\<lparr>currentMode := m\<rparr>) c' r' = holds s c' r'"
  "holds (scr_registerClientCB c f ob s) c' r' = holds s c' r'"
  by (simp_all add: holds_def)

lemma excl_simps [simp]:
  "scr_excl (s\<lparr>scrCalls := l\<rparr>) = scr_excl s"
  "scr_excl (s\<lparr>statusNotficationPending := b\<rparr>) = scr_excl s"
  "scr_excl (scr_registerClientCB c f ob s) = scr_excl s"
  "scr_excl (set_reason c r v s) = scr_excl s"
  by (simp_all add: scr_excl_def)

lemma excl_group_mode:
  "scr_excl s \<Longrightarrow> g < 6 \<Longrightarrow> scr_excl (s\<lparr>currentGroup := g\<rparr>)"
  "scr_excl s \<Longrightarrow> m < 2 \<Longrightarrow> scr_excl (s\<lparr>currentMode := m\<rparr>)"
  by (simp_all add: scr_excl_def)

lemma excl_set_state:
  assumes "scr_excl s" "c < 8" "r < 2"
    "v = SCR_CS_RUNNING \<or> v = SCR_CS_ABORTING \<longleftrightarrow> runningClient s r = c"
  shows "scr_excl (set_state c r v s)"
  using assms by (auto simp: scr_excl_def holds_def)

lemma excl_alloc:
  assumes "scr_excl s" "c < 8" "r < 2" "runningClient s r = 9"
  shows "scr_excl (set_running r c (set_state c r SCR_CS_RUNNING s))"
  using assms by (auto simp: scr_excl_def holds_def)

lemma excl_free:
  assumes "scr_excl s" "c < 8" "r < 2" "runningClient s r = c"
  shows "scr_excl (set_running r 9 (set_reason c r v (set_state c r SCR_CS_IDLE s)))"
  using assms by (auto simp: scr_excl_def holds_def)

lemma allocate_alt: "allocate c r s = set_reason c r SCR_PR_NONE (set_running r c (set_state c r SCR_CS_RUNNING s))"
  by (simp add: allocate_def set_reason_def set_running_def)

lemma excl_hand_over:
  assumes "scr_excl s" "c < 8" "r < 2" "runningClient s r = c"
  shows "scr_excl (hand_over c r s)"
proof -
  let ?s1 = "set_running r 9 (set_reason c r SCR_PR_NONE (set_state c r SCR_CS_IDLE s))"
  have s1: "scr_excl ?s1" using assms by (rule excl_free)
  moreover have "scr_excl (allocate h r ?s1)" if "h \<in> waiting ?s1 r" for h
    using s1 that assms(3) by (auto simp: allocate_alt waiting_def intro!: excl_alloc)
  ultimately show ?thesis
    using Max_in [of "waiting ?s1 r"] by (auto simp: hand_over_def Let_def scr_ids)
qed

interpretation ex: scr_group_inv n scr_excl for n
proof
  show "scr_excl s \<Longrightarrow> c < 8 \<Longrightarrow> r < 2 \<Longrightarrow> runningClient s r \<noteq> c \<Longrightarrow>
      scr_excl (set_state c r SCR_CS_PENDING s)" for s c r
    by (rule excl_set_state) simp_all
  show "scr_excl s \<Longrightarrow> c < 8 \<Longrightarrow> r < 2 \<Longrightarrow> runningClient s r = c \<Longrightarrow>
      scr_excl (set_state c r SCR_CS_ABORTING s)" for s c r
    by (rule excl_set_state) simp_all
  show "scr_excl s \<Longrightarrow> c < 8 \<Longrightarrow> r < 2 \<Longrightarrow> runningClient s r \<noteq> c \<Longrightarrow>
      scr_excl (set_state c r SCR_CS_IDLE s)" for s c r
    by (rule excl_set_state) simp_all
qed (simp_all add: excl_group_mode excl_alloc excl_hand_over)

text \<open>A free resource has no enabled client waiting for it.\<close>

definition scr_work :: "EScrResourceId \<Rightarrow> TScr \<Rightarrow> bool" where
  "scr_work r s \<longleftrightarrow> (r < 2 \<longrightarrow> runningClient s r = 9 \<longrightarrow> waiting s r = {})"

lemma waiting_simps [simp]:
  "waiting (set_reason c r v s) = waiting s" "waiting (s\<lparr>scrCalls := l\<rparr>) = waiting s"
  "waiting (s\<lparr>statusNotficationPending := b\<rparr>) = waiting s" "waiting (set_running r c s) = waiting s"
  "waiting (scr_registerClientCB c f ob s) = waiting s"
  by (simp_all add: waiting_def fun_eq_iff)

lemma waiting_set_state:
  "waiting (set_state c r v s) r' = (if r' = r then
     {d \<in> waiting s r. d \<noteq> c} \<union> {d. d = c \<and> c < 8 \<and> client_enabled s r c \<and> v = SCR_CS_PENDING}
   else waiting s r')"
  by (auto simp: waiting_def)

lemma work_hand_over:
  assumes "scr_work r' s" "c < 8" "r < 2" "runningClient s r = c"
  shows "scr_work r' (hand_over c r s)"
proof -
  let ?s1 = "set_running r 9 (set_reason c r SCR_PR_NONE (set_state c r SCR_CS_IDLE s))"
  have w: "waiting ?s1 r' = waiting s r'" if "r' \<noteq> r" using that by (simp add: waiting_set_state)
  have "Max (waiting ?s1 r) \<noteq> 9" if "waiting ?s1 r \<noteq> {}"
    using Max_in [OF finite_waiting that] by (auto simp: waiting_def)
  then show ?thesis using assms w
    by (cases "r' = r") (auto simp: hand_over_def Let_def scr_ids scr_work_def allocate_def waiting_set_state)
qed

interpretation wk: scr_inv n "\<lambda>s. scr_excl s \<and> scr_work r' s" for n r'
proof
  show "scr_excl s \<and> scr_work r' s \<Longrightarrow> scr_excl s" for s by simp
  show "scr_excl s \<and> scr_work r' s \<Longrightarrow> call_ok n s k \<Longrightarrow>
      scr_excl (s\<lparr>scrCalls := scrCalls s @ [k]\<rparr>) \<and> scr_work r' (s\<lparr>scrCalls := scrCalls s @ [k]\<rparr>)" for s k
    by (simp add: ex.P_log scr_work_def)
  show "scr_excl s \<and> scr_work r' s \<Longrightarrow>
      scr_excl (s\<lparr>statusNotficationPending := b\<rparr>) \<and> scr_work r' (s\<lparr>statusNotficationPending := b\<rparr>)" for s b
    by (simp add: ex.P_flag scr_work_def)
  show "scr_excl s \<and> scr_work r' s \<Longrightarrow> m < 2 \<Longrightarrow>
      scr_excl (s\<lparr>currentMode := m\<rparr>) \<and> scr_work r' (s\<lparr>currentMode := m\<rparr>)" for s m
    using excl_group_mode(2) [of s m] client_enabled_mode [of r' m s]
    by (simp add: scr_work_def waiting_def scr_excl_def)
  show "scr_excl s \<and> scr_work r' s \<Longrightarrow>
      scr_excl (scr_registerClientCB c f ob s) \<and> scr_work r' (scr_registerClientCB c f ob s)" for s c f ob
    by (simp add: ex.P_register scr_work_def)
  show "scr_excl s \<and> scr_work r' s \<Longrightarrow> c < 8 \<Longrightarrow> r < 2 \<Longrightarrow>
      scr_excl (set_reason c r v s) \<and> scr_work r' (set_reason c r v s)" for s c r v
    by (simp add: scr_work_def)
  show "scr_excl s \<and> scr_work r' s \<Longrightarrow> c < 8 \<Longrightarrow> r < 2 \<Longrightarrow> runningClient s r \<noteq> c \<Longrightarrow>
      runningClient s r \<noteq> 9 \<or> \<not> client_enabled s r c \<Longrightarrow>
      scr_excl (set_state c r SCR_CS_PENDING s) \<and> scr_work r' (set_state c r SCR_CS_PENDING s)" for s c r
    by (auto simp: ex.P_pend scr_work_def waiting_set_state)
  show "scr_excl s \<and> scr_work r' s \<Longrightarrow> c < 8 \<Longrightarrow> r < 2 \<Longrightarrow> runningClient s r = c \<Longrightarrow>
      scr_excl (set_state c r SCR_CS_ABORTING s) \<and> scr_work r' (set_state c r SCR_CS_ABORTING s)" for s c r
    by (auto simp: ex.P_abort scr_work_def waiting_set_state)
  show "scr_excl s \<and> scr_work r' s \<Longrightarrow> c < 8 \<Longrightarrow> r < 2 \<Longrightarrow> runningClient s r = 9 \<Longrightarrow>
      client_enabled s r c \<Longrightarrow> scr_excl (set_running r c (set_state c r SCR_CS_RUNNING s)) \<and>
      scr_work r' (set_running r c (set_state c r SCR_CS_RUNNING s))" for s c r
    by (auto simp: ex.P_alloc scr_work_def waiting_set_state)
  show "scr_excl s \<and> scr_work r' s \<Longrightarrow> c < 8 \<Longrightarrow> r < 2 \<Longrightarrow> runningClient s r \<noteq> c \<Longrightarrow>
      scr_excl (set_state c r SCR_CS_IDLE s) \<and> scr_work r' (set_state c r SCR_CS_IDLE s)" for s c r
    by (auto simp: ex.P_release scr_work_def waiting_set_state)
  show "scr_excl s \<and> scr_work r' s \<Longrightarrow> c < 8 \<Longrightarrow> r < 2 \<Longrightarrow> runningClient s r = c \<Longrightarrow>
      scr_excl (hand_over c r s) \<and> scr_work r' (hand_over c r s)" for s c r
    by (auto simp: excl_hand_over work_hand_over)
qed

text \<open>The change of the group serves both resources.\<close>

lemma work_set_group_resource:
  assumes "scr_excl s" "r < 2" "\<And>k t. scr_excl t \<Longrightarrow> scr_excl (cb k t)"
    "\<And>k t. scr_excl t \<and> scr_work r t \<Longrightarrow> scr_excl (cb k t) \<and> scr_work r (cb k t)"
  shows "scr_work r (set_group_resource cb g r s)"
proof -
  let ?s = "fold (escalate cb g r) [0..<SCR_CID_NUM_OF_CLIENTS] s"
  have ex: "scr_excl ?s"
    using assms(1-3) by (intro ex.P_fold) (auto simp: scr_ids intro!: ex.P_escalate)
  show ?thesis
  proof (cases "runningClient ?s r = 9 \<and> highest_pending ?s r \<noteq> 9")
    case True
    then have h: "highest_pending ?s r \<in> waiting ?s r" using highest_pending_waiting by blast
    then have "scr_excl (allocate (highest_pending ?s r) r ?s)"
      using ex assms(2) True by (intro ex.P_allocate) (auto simp: waiting_def)
    moreover have "scr_work r (allocate (highest_pending ?s r) r ?s)"
      using True by (simp add: scr_work_def allocate_def)
    ultimately have "scr_work r (scr_notify cb (highest_pending ?s r) SCR_CRS_RUN r SCR_PR_NONE
        (allocate (highest_pending ?s r) r ?s))"
      using assms(4) by (simp add: scr_notify_def scr_work_def)
    then show ?thesis using True h by (auto simp: set_group_resource_def grant_if_free_def Let_def scr_ids waiting_def)
  next
    case False
    then show ?thesis
      by (auto simp: set_group_resource_def grant_if_free_def Let_def scr_ids scr_work_def)
  qed
qed

lemma work_set_group:
  assumes "scr_excl s" "scr_work r s" "r < 2" "\<And>k t. scr_excl t \<Longrightarrow> scr_excl (cb k t)"
    "\<And>r k t. scr_excl t \<and> scr_work r t \<Longrightarrow> scr_excl (cb k t) \<and> scr_work r (cb k t)"
  shows "scr_work r (scr_setGroup cb g s)"
proof (cases "g < 6")
  case True
  let ?f = "set_group_resource cb g" and ?s = "s\<lparr>currentGroup := g\<rparr>"
  have s0: "scr_excl ?s" using assms(1) True by (rule excl_group_mode)
  have s1: "scr_excl (?f 0 ?s)" using s0 assms(4) by (intro ex.P_set_group_resource) auto
  have w0: "scr_work 0 (?f 0 ?s)" using s0 assms(4,5) by (intro work_set_group_resource) auto
  have "scr_work 1 (?f 1 (?f 0 ?s))" using s1 assms(4,5) by (intro work_set_group_resource) auto
  moreover have "scr_excl (?f 1 (?f 0 ?s)) \<and> scr_work 0 (?f 1 (?f 0 ?s))"
    by (rule wk.P_set_group_resource) (use s1 w0 assms(5) in auto)
  moreover have "scr_setGroup cb g s = ?f 1 (?f 0 ?s)"
    using True by (simp add: scr_setGroup_def scr_ids numeral_2_eq_2)
  ultimately show ?thesis using less_2_cases_nat [OF assms(3)] by auto
qed (simp add: scr_setGroup_def scr_ids assms(2))

text \<open>Only clients that the configuration lets abort are told to.\<close>

definition aborts_ok :: "TScr \<Rightarrow> bool" where
  "aborts_ok s \<longleftrightarrow> (\<forall>c r pr. ScrCall c SCR_CRS_ABORT r pr \<in> set (scrCalls s) \<longrightarrow> abortable r c)"

lemma aborts_ok_cong: "scrCalls t = scrCalls s \<Longrightarrow> aborts_ok t = aborts_ok s"
  by (simp add: aborts_ok_def)

lemma aborts_ok_simps [simp]:
  "aborts_ok (set_state c r v s) = aborts_ok s" "aborts_ok (set_reason c r w s) = aborts_ok s"
  "aborts_ok (set_running r c s) = aborts_ok s" "aborts_ok (s\<lparr>currentMode := m\<rparr>) = aborts_ok s"
  "aborts_ok (s\<lparr>currentGroup := g\<rparr>) = aborts_ok s" "aborts_ok (allocate c r s) = aborts_ok s"
  "aborts_ok (s\<lparr>statusNotficationPending := b\<rparr>) = aborts_ok s"
  "aborts_ok (scr_registerClientCB c f ob s) = aborts_ok s" "aborts_ok (hand_over c r s) = aborts_ok s"
  by (simp_all add: aborts_ok_def allocate_def hand_over_def Let_def)

interpretation po: scr_group_inv False "\<lambda>s. scr_excl s \<and> aborts_ok s"
proof
  show "scr_excl s \<and> aborts_ok s \<Longrightarrow> call_ok False s k \<Longrightarrow>
      scr_excl (s\<lparr>scrCalls := scrCalls s @ [k]\<rparr>) \<and> aborts_ok (s\<lparr>scrCalls := scrCalls s @ [k]\<rparr>)" for s k
    by (cases k) (auto simp: aborts_ok_def call_ok_def)
qed (simp_all add: excl_group_mode excl_hand_over ex.P_pend ex.P_abort ex.P_alloc ex.P_release)

section \<open>The flag of a request in progress\<close>

lemma flag_notify:
  "(\<And>k t. statusNotficationPending (cb k t) = statusNotficationPending t) \<Longrightarrow>
   statusNotficationPending (scr_notify cb c crs r pr s) = statusNotficationPending s"
  by (simp add: scr_notify_def)

lemma flag_fold:
  "(\<And>i t. statusNotficationPending (f i t) = statusNotficationPending t) \<Longrightarrow>
   statusNotficationPending (fold f is s) = statusNotficationPending s"
  by (induction "is" arbitrary: s) simp_all

lemma flag_op:
  assumes "\<And>k t. statusNotficationPending (cb k t) = statusNotficationPending t"
  shows "statusNotficationPending (scr_op n cb op s) = statusNotficationPending s"
proof -
  note notify = flag_notify [of cb, OF assms]
  have alloc: "statusNotficationPending (allocate c r t) = statusNotficationPending t" for c r t
    by (simp add: allocate_def)
  have esc: "statusNotficationPending (escalate cb g r i t) = statusNotficationPending t" for g r i t
    by (simp add: escalate_def notify)
  have group: "statusNotficationPending (set_group_resource cb g r t) = statusNotficationPending t" for g r t
    by (simp add: set_group_resource_def grant_if_free_def Let_def notify alloc flag_fold esc)
  have mode: "statusNotficationPending (set_mode_resource cb r t) = statusNotficationPending t" for r t
    by (simp add: set_mode_resource_def abort_disabled_def Let_def notify alloc flag_fold esc)
  show ?thesis
  proof (cases op)
    case (OpRequest c r)
    then show ?thesis
      by (simp add: scr_clientRequest_def pend_def request_aborting_def request_abort_def Let_def notify)
  qed (simp_all add: scr_clientComplete_def scr_setGroup_def scr_setMode_def scr_notifyFWReset_def
      fw_reset_resource_def scr_registerClientCB_def Let_def notify alloc flag_fold group mode)
qed

end
