(* ===== verification/WlScrProps.thy ===== *)
theory WlScrProps
  imports WlScrInv
begin

text \<open>
  The properties of the serving channel requester in every state that calls of the module reach, with
  callbacks that make calls of the module themselves.
\<close>

section \<open>Reachable states\<close>

text \<open>
  \<open>scr_calls n s t\<close>: calls of the module lead from \<open>s\<close> to \<open>t\<close>. What a callback does is a function of
  the call and of the state, and it is again some sequence of calls of the module.
\<close>

inductive scr_calls :: "bool \<Rightarrow> TScr \<Rightarrow> TScr \<Rightarrow> bool" for n where
  none: "scr_calls n s s"
| call: "scr_calls n s t \<Longrightarrow> \<forall>k u. scr_calls n u (cb k u) \<Longrightarrow> scr_calls n s (scr_op n cb op t)"

definition scr_client :: "bool \<Rightarrow> (ScrCall \<Rightarrow> TScr \<Rightarrow> TScr) \<Rightarrow> bool" where
  "scr_client n cb \<longleftrightarrow> (\<forall>k u. scr_calls n u (cb k u))"

definition scr_reach :: "bool \<Rightarrow> TScr \<Rightarrow> bool" where
  "scr_reach n s \<longleftrightarrow> (\<exists>h m. scrCalls m = [] \<and> scr_calls n (scr_init h m) s)"

lemma calls_keep:
  assumes "scr_calls n s t"
    "\<And>s cb op. P s \<Longrightarrow> (\<And>k t. P t \<Longrightarrow> P (cb k t)) \<Longrightarrow> P (scr_op n cb op s)"
  shows "P s \<Longrightarrow> P t"
  using assms(1)
proof induction
  case (call s t cb op)
  then have "P t" "\<And>k u. P u \<Longrightarrow> P (cb k u)" by blast+
  then show ?case by (rule assms(2))
qed

lemma calls_excl: "scr_calls n s t \<Longrightarrow> scr_excl s \<Longrightarrow> scr_excl t"
  by (rule calls_keep [where P = scr_excl]) (auto intro: ex.P_any_op)

lemma calls_aborts:
  "scr_calls False s t \<Longrightarrow> scr_excl s \<and> aborts_ok s \<Longrightarrow> scr_excl t \<and> aborts_ok t"
proof (rule calls_keep [where P = "\<lambda>s. scr_excl s \<and> aborts_ok s"])
  show "scr_excl (scr_op False cb op u) \<and> aborts_ok (scr_op False cb op u)"
    if "scr_excl u \<and> aborts_ok u" "\<And>k t. scr_excl t \<and> aborts_ok t \<Longrightarrow> scr_excl (cb k t) \<and> aborts_ok (cb k t)"
    for u cb op using that by (rule po.P_any_op)
qed

lemma calls_flag: "scr_calls n s t \<Longrightarrow> statusNotficationPending t = statusNotficationPending s"
proof (induction rule: scr_calls.induct)
  case (call s t cb op)
  then show ?case using flag_op [of cb n op t] by simp
qed simp

lemma calls_work:
  assumes "scr_calls n s t" "scr_excl s" "scr_work r s"
  shows "scr_work r t"
proof -
  let ?W = "\<lambda>u. scr_excl u \<and> (\<forall>r<2. scr_work r u)"
  have "scr_excl t \<and> scr_work r t" if "scr_excl s \<and> scr_work r s" for r
    using assms(1) that
  proof (induction arbitrary: r rule: scr_calls.induct)
    case (call s t cb op)
    then have t: "scr_excl t \<and> scr_work r t" by blast
    have cb: "scr_excl u \<and> scr_work r' u \<Longrightarrow> scr_excl (cb k u) \<and> scr_work r' (cb k u)" for k u r'
      using call.IH(2) by blast
    have cb_ex: "scr_excl u \<Longrightarrow> scr_excl (cb k u)" for k u
      using cb [of u 2 k] by (simp add: scr_work_def)
    show ?case
    proof (cases "\<exists>g. op = OpSetGroup g")
      case True
      then obtain g where op: "op = OpSetGroup g" by blast
      have "scr_excl (scr_op n cb op t)" using t cb_ex by (intro ex.P_any_op) auto
      moreover have "scr_work r (scr_setGroup cb g t)"
        using work_set_group [of t r cb g] t cb cb_ex by (cases "r < 2") (auto simp: scr_work_def)
      ultimately show ?thesis using op by simp
    next
      case False
      show ?thesis by (rule wk.P_op [OF t cb]) (use False in auto)
    qed
  qed simp
  then show ?thesis using assms(2,3) by blast
qed

lemma fold_upd_upto: "fold (\<lambda>i f. f(i := v)) [0..<m] f = (\<lambda>i. if i < (m::nat) then v else f i)"
  by (induction m) (auto simp: fun_eq_iff)

lemma fold_upd_fun: "fold (\<lambda>i f. f(i := g (f i))) [0..<m] f = (\<lambda>i. if i < (m::nat) then g (f i) else f i)"
  by (induction m) (auto simp: fun_eq_iff)

lemma cstate_init: "r < 2 \<Longrightarrow> c < 8 \<Longrightarrow> cstate (scr_init h m) c r = SCR_CS_IDLE"
  using fold_upd_fun [of "\<lambda>x. x\<lparr>
      state := fold (\<lambda>j g. g(j := SCR_CS_IDLE)) [0..<2] (state x),
      currentPendingReason := fold (\<lambda>j g. g(j := SCR_PR_NONE)) [0..<2] (currentPendingReason x),
      clientRequestCB := 0, ClientRequestCBObj := 0\<rparr>" 8 "clientArray m"]
  by (simp add: scr_init_def cstate_def fold_upd_upto scr_ids)

lemma init_inv: "scr_excl (scr_init h m)" "scr_work r (scr_init h m)" "\<not> statusNotficationPending (scr_init h m)"
  using cstate_init [of _ _ h m]
  by (auto simp: scr_excl_def scr_work_def holds_def waiting_def scr_init_def fold_upd_upto scr_ids)

lemma scr_reach_inv:
  assumes "scr_reach n s"
  shows "scr_excl s" "scr_work r s" "\<not> statusNotficationPending s"
  using assms init_inv calls_excl calls_work calls_flag by (auto simp: scr_reach_def)

lemma scr_reach_step: "scr_reach n s \<Longrightarrow> scr_client n cb \<Longrightarrow> scr_reach n (scr_op n cb op s)"
  by (auto simp: scr_reach_def scr_client_def intro: scr_calls.call)

lemma reach_init: "scrCalls m = [] \<Longrightarrow> scr_reach n (scr_init h m)"
  by (auto simp: scr_reach_def intro: scr_calls.none)

text \<open>Clients that leave the module alone, and clients that complete when they are told to abort.\<close>

definition async_cb :: "ScrCall \<Rightarrow> TScr \<Rightarrow> TScr" where
  "async_cb k s = s"

definition abort_cb :: "ScrCall \<Rightarrow> TScr \<Rightarrow> TScr" where
  "abort_cb k s = (case k of ScrCall c crs r pr \<Rightarrow>
     if crs = SCR_CRS_ABORT then scr_clientComplete async_cb c r s else s)"

lemma async_client: "scr_client n async_cb"
  by (simp add: scr_client_def async_cb_def scr_calls.none)

lemma abort_client: "scr_client n abort_cb"
proof -
  have "scr_calls n s (scr_op n async_cb (OpComplete c r) s)" for c r s
    using async_client [of n] scr_calls.none by (intro scr_calls.call) (auto simp: scr_client_def)
  then show ?thesis by (auto simp: scr_client_def abort_cb_def scr_calls.none split: ScrCall.splits)
qed

text \<open>A fresh object, and a run of calls on it.\<close>

definition scr_mem :: TScr where
  "scr_mem = \<lparr>scr_hOS = 0, scr_hReport = 0, statusNotficationPending = True, runningClient = (\<lambda>r. 0),
     currentGroup = 0, currentMode = 0,
     clientArray = (\<lambda>c. \<lparr>state = (\<lambda>r. SCR_CS_RUNNING), clientRequestCB = 0, ClientRequestCBObj = 0,
       currentPendingReason = (\<lambda>r. SCR_PR_NONE)\<rparr>), scrCalls = []\<rparr>"

definition scr_ops :: "(ScrCall \<Rightarrow> TScr \<Rightarrow> TScr) \<Rightarrow> ScrOp list \<Rightarrow> TScr \<Rightarrow> TScr" where
  "scr_ops cb ops s = fold (scr_op False cb) ops s"

lemma reach_ops:
  assumes "scr_reach False s" "scr_client False cb"
  shows "scr_reach False (scr_ops cb ops s)"
  using assms(1) unfolding scr_ops_def
  by (induction ops arbitrary: s) (simp_all add: scr_reach_step assms(2))

definition scr_start :: TScr where
  "scr_start = scr_ops async_cb (map (\<lambda>c. OpRegister c 1 0) [0..<8]) (scr_init 0 scr_mem)"

lemma reach_start: "scr_reach False (scr_ops cb ops scr_start)" if "scr_client False cb"
  unfolding scr_start_def
  by (intro reach_ops that async_client reach_init) (simp add: scr_mem_def)

lemma highest_unfold:
  "highest_pending s r = (if client_enabled s r 7 \<and> SCR_CS_PENDING = cstate s 7 r then 7
    else if client_enabled s r 6 \<and> SCR_CS_PENDING = cstate s 6 r then 6
    else if client_enabled s r 5 \<and> SCR_CS_PENDING = cstate s 5 r then 5
    else if client_enabled s r 4 \<and> SCR_CS_PENDING = cstate s 4 r then 4
    else if client_enabled s r 3 \<and> SCR_CS_PENDING = cstate s 3 r then 3
    else if client_enabled s r 2 \<and> SCR_CS_PENDING = cstate s 2 r then 2
    else if client_enabled s r 1 \<and> SCR_CS_PENDING = cstate s 1 r then 1
    else if client_enabled s r 0 \<and> SCR_CS_PENDING = cstate s 0 r then 0 else 9)"
  by (simp add: highest_pending_def scrFindHighest_def scr_ids
      scr_find.simps [of s SCR_CS_PENDING r 7 0]
      scr_find.simps [of s SCR_CS_PENDING r 6 0]
      scr_find.simps [of s SCR_CS_PENDING r 5 0]
      scr_find.simps [of s SCR_CS_PENDING r 4 0]
      scr_find.simps [of s SCR_CS_PENDING r 3 0]
      scr_find.simps [of s SCR_CS_PENDING r 2 0]
      scr_find.simps [of s SCR_CS_PENDING r 1 0]
      scr_find.simps [of s SCR_CS_PENDING r 0 0]
      scr_find.simps [of s SCR_CS_PENDING r "-1" 0])

lemma register_cb [simp]:
  "clientRequestCB (clientArray (scr_registerClientCB c f ob s) d) =
     (if d = c \<and> c < 8 then f else clientRequestCB (clientArray s d))"
  by (simp add: scr_registerClientCB_def scr_ids)

lemma init_simps [simp]:
  "r < 2 \<Longrightarrow> runningClient (scr_init h m) r = 9" "currentGroup (scr_init h m) = 0"
  "currentMode (scr_init h m) = 0" "scrCalls (scr_init h m) = scrCalls m"
  by (simp_all add: scr_init_def fold_upd_upto scr_ids)

lemma scr_upt_2: "[0..<2] = [0, 1::nat]"
  by code_simp

lemma scr_upt_8: "[0..<8] = [0, 1, 2, 3, 4, 5, 6, 7::nat]"
  by code_simp

lemma start_simps [simp]:
  "r < 2 \<Longrightarrow> runningClient scr_start r = 9"
  "currentGroup scr_start = 0" "currentMode scr_start = 0" "scrCalls scr_start = []"
  "r < 2 \<Longrightarrow> c < 8 \<Longrightarrow> cstate scr_start c r = SCR_CS_IDLE"
  by (simp_all add: scr_start_def scr_ops_def scr_upt_8 cstate_init) (simp add: scr_mem_def)

lemma start_cb [simp]:
  assumes "c < 8"
  shows "clientRequestCB (clientArray scr_start c) = 1"
proof -
  from assms have "c = 0 \<or> c = 1 \<or> c = 2 \<or> c = 3 \<or> c = 4 \<or> c = 5 \<or> c = 6 \<or> c = 7" by linarith
  then show ?thesis by (elim disjE) (simp_all add: scr_start_def scr_ops_def scr_upt_8)
qed

lemmas scr_eval = scr_setGroup_def set_group_resource_def escalate_def grant_if_free_def
  scr_clientRequest_def scr_clientComplete_def request_abort_def pend_def allocate_def scr_notify_def
  highest_unfold client_enabled_def clientStatus_def clientStatus_serving_normal_def
  clientStatus_periodic_normal_def abortOthers_def scr_ids Let_def async_cb_def abort_cb_def scr_upt_8 scr_upt_2

lemma scr_ops_step [simp]: "scr_ops cb [] s = s" "scr_ops cb (op # ops) s = scr_ops cb ops (scr_op False cb op s)"
  by (simp_all add: scr_ops_def)

text \<open>What the runs below look at: only the serving channel is used, and every client has a callback.\<close>

definition scr_view :: "TScr \<Rightarrow> EScrGroupId \<Rightarrow> EScrClientId \<Rightarrow> (EScrClientId \<Rightarrow> EScrClientState) \<Rightarrow>
    ScrCall list \<Rightarrow> bool" where
  "scr_view s g k st calls \<longleftrightarrow> currentGroup s = g \<and> currentMode s = 0 \<and> runningClient s 0 = k \<and>
     runningClient s 1 = 9 \<and> \<not> statusNotficationPending s \<and> scrCalls s = calls \<and>
     (\<forall>c<8. cstate s c 0 = st c \<and> cstate s c 1 = SCR_CS_IDLE \<and> clientRequestCB (clientArray s c) = 1)"

lemma view_start: "scr_view scr_start 0 9 (\<lambda>c. SCR_CS_IDLE) []"
  using scr_reach_inv(3) [OF reach_start [OF async_client, of "[]"]] by (simp add: scr_view_def)

lemma escalate_none:
  assumes "\<forall>i\<in>set is. cstate s i r = SCR_CS_PENDING \<longrightarrow> \<not> creason s i r < SCR_PR_DIFFERENT_GROUP_RUNNING \<or>
    clientStatus ! r ! currentMode s ! g ! i"
  shows "fold (escalate cb g r) is s = s"
  using assms by (induction "is") (auto simp: escalate_def)

lemma view_group_4: "scr_view s 0 9 (\<lambda>c. SCR_CS_IDLE) [] \<Longrightarrow>
    scr_view (scr_setGroup cb 4 s) 4 9 (\<lambda>c. SCR_CS_IDLE) []"
  by (simp add: scr_view_def scr_eval escalate_none)

lemma view_request_2: "scr_view s 4 9 (\<lambda>c. SCR_CS_IDLE) [] \<Longrightarrow>
    scr_view (snd (snd (scr_clientRequest cb 2 0 s))) 4 2 (\<lambda>c. if c = 2 then SCR_CS_RUNNING else SCR_CS_IDLE) []"
  by (auto simp add: scr_view_def scr_eval)

lemma view_request_6:
  "scr_view s 4 2 (\<lambda>c. if c = 2 then SCR_CS_RUNNING else SCR_CS_IDLE) [] \<Longrightarrow>
    scr_clientRequest cb 6 0 s = pend 6 0 SCR_PR_DIFFERENT_GROUP_RUNNING s"
  by (simp add: scr_view_def scr_clientRequest_def client_enabled_def clientStatus_def
      clientStatus_serving_normal_def scr_ids)

lemma view_pend_6:
  "scr_view s g k st l \<Longrightarrow> scr_view (snd (snd (pend 6 0 why s))) g k (\<lambda>c. if c = 6 then SCR_CS_PENDING else st c) l"
  by (simp add: scr_view_def pend_def)

lemma view_group_5:
  assumes "scr_view s 4 2 st []" "\<forall>c<8. st c = SCR_CS_PENDING \<longrightarrow> creason s c 0 = SCR_PR_DIFFERENT_GROUP_RUNNING"
  shows "scr_view (scr_setGroup cb 5 s) 5 2 st []"
proof -
  have "fold (escalate cb 5 0) [0..<8] (s\<lparr>currentGroup := 5\<rparr>) = s\<lparr>currentGroup := 5\<rparr>"
    using assms by (intro escalate_none) (auto simp: scr_view_def less_EScePendReason_def)
  moreover have "fold (escalate cb 5 1) [0..<8] (s\<lparr>currentGroup := 5\<rparr>) = s\<lparr>currentGroup := 5\<rparr>"
    using assms by (intro escalate_none) (auto simp: scr_view_def)
  ultimately show ?thesis using assms(1)
    by (simp add: scr_setGroup_def set_group_resource_def grant_if_free_def scr_ids scr_upt_2 Let_def)
      (simp add: scr_view_def highest_unfold)
qed

lemma view_request_5:
  assumes "scr_view s 5 2 (\<lambda>c. if c = 6 then SCR_CS_PENDING else if c = 2 then SCR_CS_RUNNING else SCR_CS_IDLE) []"
  shows "fst (scr_clientRequest abort_cb 5 0 s) = SCR_CRS_PEND"
    "scr_view (snd (snd (scr_clientRequest abort_cb 5 0 s))) 5 6
      (\<lambda>c. if c = 6 then SCR_CS_RUNNING else if c = 5 then SCR_CS_PENDING else SCR_CS_IDLE)
      [ScrCall 2 SCR_CRS_ABORT 0 SCR_PR_NONE]"
  using assms by (simp_all add: scr_view_def scr_eval)

text \<open>The client \<open>c\<close> asks for a resource that it may take from the running client \<open>k\<close>.\<close>

definition may_preempt :: "TScr \<Rightarrow> EScrClientId \<Rightarrow> EScrResourceId \<Rightarrow> EScrClientId \<Rightarrow> bool" where
  "may_preempt s c r k \<longleftrightarrow> c < 8 \<and> r < 2 \<and> client_enabled s r c \<and> runningClient s r = k \<and> k < c \<and>
     cstate s k r = SCR_CS_RUNNING \<and> clientRequestCB (clientArray s k) \<noteq> 0 \<and>
     abortOthers ! r ! c \<noteq> SCR_CID_NO_CLIENT \<and> k \<le> abortOthers ! r ! c"

text \<open>A continuous scan runs, in the connected group and then in the roaming group.\<close>

definition scan_state :: TScr where
  "scan_state = scr_ops abort_cb [OpSetGroup 4, OpRequest 2 0] scr_start"

definition roam_state :: TScr where
  "roam_state = scr_setGroup abort_cb 5 scan_state"

lemma view_scan: "scr_view scan_state 4 2 (\<lambda>c. if c = 2 then SCR_CS_RUNNING else SCR_CS_IDLE) []"
  by (simp add: scan_state_def view_request_2 view_group_4 view_start)

lemma view_roam: "scr_view roam_state 5 2 (\<lambda>c. if c = 2 then SCR_CS_RUNNING else SCR_CS_IDLE) []"
  unfolding roam_state_def by (rule view_group_5 [OF view_scan]) simp

lemma reach_scan: "scr_reach False scan_state"
  unfolding scan_state_def by (rule reach_start [OF abort_client])

lemma reach_roam: "scr_reach False roam_state"
  using scr_reach_step [OF reach_scan abort_client, of "OpSetGroup 5"] by (simp add: roam_state_def)

text \<open>The connection asks, and the scan does not complete yet.\<close>

lemma view_request_5_later:
  assumes "scr_view s 5 2 (\<lambda>c. if c = 2 then SCR_CS_RUNNING else SCR_CS_IDLE) []"
  shows "scr_view (snd (snd (scr_clientRequest async_cb 5 0 s))) 5 2
      (\<lambda>c. if c = 5 then SCR_CS_PENDING else if c = 2 then SCR_CS_ABORTING else SCR_CS_IDLE)
      [ScrCall 2 SCR_CRS_ABORT 0 SCR_PR_NONE]"
  using assms by (simp add: scr_view_def scr_eval)

definition abort_state :: TScr where
  "abort_state = scr_op False async_cb (OpRequest 5 0) roam_state"

lemma view_abort: "scr_view abort_state 5 2
    (\<lambda>c. if c = 5 then SCR_CS_PENDING else if c = 2 then SCR_CS_ABORTING else SCR_CS_IDLE)
    [ScrCall 2 SCR_CRS_ABORT 0 SCR_PR_NONE]"
  using view_request_5_later [OF view_roam] by (simp add: abort_state_def)

lemma reach_abort: "scr_reach False abort_state"
  unfolding abort_state_def by (rule scr_reach_step [OF reach_roam async_client])

lemma view_waiting: "scr_view s g k st l \<Longrightarrow>
    waiting s 0 = {c. c < 8 \<and> clientStatus ! 0 ! 0 ! g ! c \<and> st c = SCR_CS_PENDING}"
  by (auto simp: scr_view_def waiting_def client_enabled_def)

lemma waiting_abort: "waiting abort_state 0 = {5}"
  unfolding view_waiting [OF view_abort]
  by (auto simp: clientStatus_def clientStatus_serving_normal_def split: if_splits)

lemma waiting_roam: "waiting roam_state 0 = {}"
  unfolding view_waiting [OF view_roam] by auto

lemma preempt_roam: "may_preempt roam_state 5 0 2"
  using view_roam by (simp add: may_preempt_def scr_view_def client_enabled_def clientStatus_def
      clientStatus_serving_normal_def abortOthers_def scr_ids)

section \<open>Completion and preemption\<close>

text \<open>The clients left waiting when \<open>c\<close> completes.\<close>

lemma hand_over_waiting:
  "hand_over c r s = (let s1 = set_running r 9 (set_reason c r SCR_PR_NONE (set_state c r SCR_CS_IDLE s)) in
    if waiting s r - {c} = {} then s1 else allocate (Max (waiting s r - {c})) r s1)"
proof -
  have "waiting (set_running r 9 (set_reason c r SCR_PR_NONE (set_state c r SCR_CS_IDLE s))) r = waiting s r - {c}"
    by (auto simp: waiting_set_state)
  then show ?thesis by (simp add: hand_over_def Let_def scr_ids)
qed

lemma Max_waiting: "W \<noteq> {} \<Longrightarrow> W \<subseteq> waiting s r \<Longrightarrow> Max W \<in> W \<and> Max W < 8"
proof -
  assume W: "W \<noteq> {}" "W \<subseteq> waiting s r"
  then have "Max W \<in> W" using finite_subset [OF W(2)] by (intro Max_in) auto
  with W show ?thesis by (auto simp: waiting_def)
qed

lemma hand_over_facts:
  assumes "W = waiting s r - {c}"
  shows "runningClient (hand_over c r s) r = (if W = {} then 9 else Max W)"
    "W \<noteq> {} \<Longrightarrow> cstate (hand_over c r s) (Max W) r = SCR_CS_RUNNING"
    "cstate (hand_over c r s) c r = SCR_CS_IDLE"
    "d \<noteq> c \<Longrightarrow> W = {} \<or> d \<noteq> Max W \<Longrightarrow> cstate (hand_over c r s) d r' = cstate s d r'"
    "r' \<noteq> r \<Longrightarrow> cstate (hand_over c r s) d r' = cstate s d r'"
    "scrCalls (hand_over c r s) = scrCalls s"
    "statusNotficationPending (hand_over c r s) = statusNotficationPending s"
    "clientRequestCB (clientArray (hand_over c r s) d) = clientRequestCB (clientArray s d)"
proof -
  have M: "W \<noteq> {} \<Longrightarrow> Max W \<noteq> c" using Max_waiting [of W s r] assms by auto
  show "runningClient (hand_over c r s) r = (if W = {} then 9 else Max W)"
    "W \<noteq> {} \<Longrightarrow> cstate (hand_over c r s) (Max W) r = SCR_CS_RUNNING"
    "cstate (hand_over c r s) c r = SCR_CS_IDLE"
    "d \<noteq> c \<Longrightarrow> W = {} \<or> d \<noteq> Max W \<Longrightarrow> cstate (hand_over c r s) d r' = cstate s d r'"
    "r' \<noteq> r \<Longrightarrow> cstate (hand_over c r s) d r' = cstate s d r'"
    "scrCalls (hand_over c r s) = scrCalls s"
    "statusNotficationPending (hand_over c r s) = statusNotficationPending s"
    "clientRequestCB (clientArray (hand_over c r s) d) = clientRequestCB (clientArray s d)"
    using M unfolding hand_over_waiting assms [symmetric] by (auto simp: Let_def allocate_def)
qed

text \<open>What a completion changes, exactly.\<close>

lemma hand_over_frame:
  assumes "W = waiting s r - {c}"
  shows "hand_over c r s = s\<lparr>clientArray := clientArray (hand_over c r s),
    runningClient := (runningClient s)(r := if W = {} then SCR_CID_NO_CLIENT else Max W)\<rparr>"
  unfolding hand_over_waiting assms [symmetric]
  by (simp add: Let_def allocate_def set_running_def set_reason_def set_state_def scr_ids)

lemma hand_over_array:
  assumes "W = waiting s r - {c}"
  shows "clientArray (hand_over c r s) = (let a = (clientArray s)(c := (clientArray s c)
      \<lparr>state := (state (clientArray s c))(r := SCR_CS_IDLE), currentPendingReason := (currentPendingReason (clientArray s c))(r := SCR_PR_NONE)\<rparr>)
    in if W = {} then a else a(Max W := (a (Max W))
      \<lparr>state := (state (a (Max W)))(r := SCR_CS_RUNNING), currentPendingReason := (currentPendingReason (a (Max W)))(r := SCR_PR_NONE)\<rparr>))"
  unfolding hand_over_waiting assms [symmetric]
  by (simp add: Let_def allocate_def set_running_def set_reason_def set_state_def)

lemma hand_over_states:
  assumes "W = waiting s r - {c}"
  shows "cstate (hand_over c r s) d r' = (if r' = r \<and> W \<noteq> {} \<and> d = Max W then SCR_CS_RUNNING
      else if r' = r \<and> d = c then SCR_CS_IDLE else cstate s d r')"
  by (simp add: cstate_def hand_over_array [OF assms] Let_def)

lemma hand_over_reasons:
  assumes "W = waiting s r - {c}"
  shows "creason (hand_over c r s) d r' = (if r' = r \<and> (d = c \<or> W \<noteq> {} \<and> d = Max W) then SCR_PR_NONE else creason s d r')"
    "clientRequestCB (clientArray (hand_over c r s) d) = clientRequestCB (clientArray s d)"
    "ClientRequestCBObj (clientArray (hand_over c r s) d) = ClientRequestCBObj (clientArray s d)"
  by (simp_all add: creason_def hand_over_array [OF assms] Let_def)

lemma complete_eq:
  assumes "c < 8" "r < 2" "runningClient s r = c" "W = waiting s r - {c}"
  shows "scr_clientComplete cb c r s =
    (if W = {} \<or> statusNotficationPending s then hand_over c r s
     else scr_notify cb (Max W) SCR_CRS_RUN r SCR_PR_NONE (hand_over c r s))"
proof -
  let ?s1 = "set_running r 9 (set_reason c r SCR_PR_NONE (set_state c r SCR_CS_IDLE s))"
  have W: "waiting ?s1 r = W" using assms(4) by (auto simp: waiting_set_state)
  then have h: "highest_pending ?s1 r = (if W = {} then 9 else Max W)" by (simp add: highest_pending_eq)
  show ?thesis
  proof (cases "W = {}")
    case True
    then show ?thesis using assms(1-3) h
      by (simp add: scr_clientComplete_def hand_over_waiting assms(4) [symmetric] Let_def scr_ids
          del: highest_pending_none)
  next
    case False
    then have "Max W < 8" using Max_waiting [of W s r] assms(4) by auto
    moreover from this have "Max W \<noteq> 9" by simp
    ultimately show ?thesis using assms(1-3) h False
      by (simp add: scr_clientComplete_def hand_over_waiting assms(4) [symmetric] Let_def scr_ids
          allocate_def del: highest_pending_none)
  qed
qed

text \<open>
  C34. A client that completes, outside of a request, leaves its resource to the waiting client of highest
  priority among those enabled in the current group, which is then running and is told so by exactly one
  call of its callback, made in that state; if nobody waits the resource is free, and if the client does
  not have the resource it keeps its owner, and no callback is called. Apart from the owner of this
  resource, and the state and the pending reason for this resource of the two clients, nothing changes:
  neither any other state, pending reason or owner nor the group, the mode, the callbacks or the log of
  calls. (Within the abort callback of a request the new owner is not called; a reachable state here is
  one between the calls of the module.)
\<close>
theorem scr_complete_next:
  assumes "scr_reach n s" "c < 8" "r < 2" "W = (if runningClient s r = c then waiting s r else {})"
  shows "\<exists>t. scr_clientComplete cb c r s =
      (if W = {} then t else scr_notify cb (Max W) SCR_CRS_RUN r SCR_PR_NONE t) \<and>
    t = s\<lparr>clientArray := clientArray t, runningClient := (runningClient s)(r :=
      if runningClient s r \<noteq> c then runningClient s r else if W = {} then SCR_CID_NO_CLIENT else Max W)\<rparr> \<and>
    (\<forall>d r'. cstate t d r' = (if r' = r \<and> W \<noteq> {} \<and> d = Max W then SCR_CS_RUNNING
       else if r' = r \<and> d = c then SCR_CS_IDLE else cstate s d r')) \<and>
    (\<forall>d r'. creason t d r' = (if r' = r \<and> (d = c \<or> W \<noteq> {} \<and> d = Max W) then SCR_PR_NONE else creason s d r')) \<and>
    (\<forall>d. clientRequestCB (clientArray t d) = clientRequestCB (clientArray s d) \<and>
       ClientRequestCBObj (clientArray t d) = ClientRequestCBObj (clientArray s d)) \<and>
    (\<forall>d\<in>W. d \<le> Max W)"
proof (cases "runningClient s r = c")
  case True
  have "holds s c r" using scr_exclD(2) [OF scr_reach_inv(1) [OF assms(1)] assms(3,2)] True by simp
  then have W: "W = waiting s r - {c}" using assms(4) True by (auto simp: holds_def waiting_def)
  have le: "d \<le> Max W" if "d \<in> W" for d using that assms(4) by (intro Max_ge) (auto split: if_splits)
  have "scr_clientComplete cb c r s =
      (if W = {} then hand_over c r s else scr_notify cb (Max W) SCR_CRS_RUN r SCR_PR_NONE (hand_over c r s))"
    using complete_eq [OF assms(2,3) True W, of cb] scr_reach_inv(3) [OF assms(1)] by simp
  moreover have "hand_over c r s = s\<lparr>clientArray := clientArray (hand_over c r s), runningClient := (runningClient s)(r :=
      if runningClient s r \<noteq> c then runningClient s r else if W = {} then SCR_CID_NO_CLIENT else Max W)\<rparr>"
    using hand_over_frame [OF W] True by simp
  ultimately show ?thesis using le by (intro exI [of _ "hand_over c r s"]) (simp add: hand_over_reasons [OF W] hand_over_states [OF W])
next
  case False
  let ?t = "set_reason c r SCR_PR_NONE (set_state c r SCR_CS_IDLE s)"
  have "scr_clientComplete cb c r s = ?t" "W = {}"
    using False assms(2-4) by (simp_all add: scr_clientComplete_def scr_ids Let_def)
  moreover have "?t = s\<lparr>clientArray := clientArray ?t, runningClient := (runningClient s)(r :=
      if runningClient s r \<noteq> c then runningClient s r else if W = {} then SCR_CID_NO_CLIENT else Max W)\<rparr>"
    using False by (simp add: set_reason_def set_state_def)
  moreover have "cstate ?t d r' = (if r' = r \<and> d = c then SCR_CS_IDLE else cstate s d r')"
    "creason ?t d r' = (if r' = r \<and> d = c then SCR_PR_NONE else creason s d r')"
    "clientRequestCB (clientArray ?t d) = clientRequestCB (clientArray s d)"
    "ClientRequestCBObj (clientArray ?t d) = ClientRequestCBObj (clientArray s d)" for d r'
    by (simp_all add: set_reason_def set_state_def cstate_def creason_def)
  ultimately show ?thesis by (intro exI [of _ ?t]) simp
qed

theorem scr_complete_next_witness:
  "\<exists>t. scr_clientComplete async_cb 2 0 abort_state = scr_notify async_cb 5 SCR_CRS_RUN 0 SCR_PR_NONE t \<and>
    runningClient t 0 = 5 \<and> cstate t 5 0 = SCR_CS_RUNNING \<and> cstate t 2 0 = SCR_CS_IDLE"
proof -
  have r: "runningClient abort_state 0 = 2" using view_abort by (simp add: scr_view_def)
  obtain t where t: "scr_clientComplete async_cb 2 0 abort_state = scr_notify async_cb 5 SCR_CRS_RUN 0 SCR_PR_NONE t"
      "t = abort_state\<lparr>clientArray := clientArray t, runningClient := (runningClient abort_state)(0 := 5)\<rparr>"
      "\<forall>d r'. cstate t d r' = (if r' = 0 \<and> d = 5 then SCR_CS_RUNNING else if r' = 0 \<and> d = 2 then SCR_CS_IDLE
        else cstate abort_state d r')"
    using scr_complete_next [OF reach_abort _ _ refl, of 2 0 async_cb] by (auto simp: waiting_abort r)
  have "runningClient t 0 = 5" by (subst t(2)) simp
  with t(1,3) show ?thesis by auto
qed

lemma preempt_request:
  assumes "may_preempt s c r k" "\<not> statusNotficationPending s"
  shows "scr_clientRequest cb c r s = request_abort cb c r s"
  using assms by (auto simp: may_preempt_def scr_clientRequest_def scr_ids)

definition preempt_state :: "TScr \<Rightarrow> EScrClientId \<Rightarrow> EScrResourceId \<Rightarrow> EScrClientId \<Rightarrow> TScr" where
  "preempt_state s c r k = (set_state k r SCR_CS_ABORTING ((set_state c r SCR_CS_PENDING s)
     \<lparr>statusNotficationPending := True\<rparr>))\<lparr>scrCalls := scrCalls s @ [ScrCall k SCR_CRS_ABORT r SCR_PR_NONE]\<rparr>"

lemma preempt_state_facts:
  assumes "may_preempt s c r k"
  shows "waiting (preempt_state s c r k) r = insert c (waiting s r)"
    "k \<notin> insert c (waiting s r)"
    "cstate (preempt_state s c r k) c r = SCR_CS_PENDING"
    "cstate (preempt_state s c r k) k r = SCR_CS_ABORTING"
    "runningClient (preempt_state s c r k) = runningClient s"
    "scrCalls (preempt_state s c r k) = scrCalls s @ [ScrCall k SCR_CRS_ABORT r SCR_PR_NONE]"
    "statusNotficationPending (preempt_state s c r k)"
  using assms by (auto simp: may_preempt_def preempt_state_def waiting_set_state waiting_def)

lemma request_abort_eq:
  assumes "may_preempt s c r k"
  shows "request_abort cb c r s =
    (let s3 = (cb (ScrCall k SCR_CRS_ABORT r SCR_PR_NONE) (preempt_state s c r k))\<lparr>statusNotficationPending := False\<rparr>
     in if cstate s3 c r = SCR_CS_RUNNING then (SCR_CRS_RUN, Some SCR_PR_NONE, s3)
        else (SCR_CRS_PEND, Some SCR_PR_OTHER_CLIENT_ABORTING, set_reason c r SCR_PR_OTHER_CLIENT_ABORTING s3))"
  using assms by (simp add: may_preempt_def request_abort_def Let_def preempt_state_def scr_notify_def)

text \<open>
  Preemption: an enabled client that asks for a resource whose running client it may abort has
  exactly one call made, the abort of that client. If the client completes later, the request waits
  with the reason that another client is aborting, and the completion gives the resource to the
  highest of the waiting clients, the asking one included, and calls it.
\<close>
theorem scr_preempts_later:
  assumes "scr_reach n s" "may_preempt s c r k" "M = Max (insert c (waiting s r))"
  shows "\<exists>t u. scr_clientRequest async_cb c r s = (SCR_CRS_PEND, Some SCR_PR_OTHER_CLIENT_ABORTING, t) \<and>
    runningClient t r = k \<and> cstate t k r = SCR_CS_ABORTING \<and> cstate t c r = SCR_CS_PENDING \<and>
    scrCalls t = scrCalls s @ [ScrCall k SCR_CRS_ABORT r SCR_PR_NONE] \<and>
    scr_clientComplete cb k r t = scr_notify cb M SCR_CRS_RUN r SCR_PR_NONE u \<and>
    runningClient u r = M \<and> cstate u M r = SCR_CS_RUNNING \<and> scrCalls u = scrCalls t"
proof -
  let ?p = "preempt_state s c r k"
  let ?t = "set_reason c r SCR_PR_OTHER_CLIENT_ABORTING (?p\<lparr>statusNotficationPending := False\<rparr>)"
  let ?W = "insert c (waiting s r)"
  note f = preempt_state_facts [OF assms(2)]
  have req: "scr_clientRequest async_cb c r s = (SCR_CRS_PEND, Some SCR_PR_OTHER_CLIENT_ABORTING, ?t)"
    using f(3) by (simp add: preempt_request [OF assms(2) scr_reach_inv(3) [OF assms(1)]]
        request_abort_eq [OF assms(2)] async_cb_def)
  have W: "?W = waiting ?t r - {k}" using f(1,2) by auto
  have k: "k < 8" "r < 2" "runningClient ?t r = k"
    using assms(2) f(5) by (auto simp: may_preempt_def)
  have M: "Max ?W = M" using assms(3) by simp
  have "scr_clientComplete cb k r ?t = scr_notify cb M SCR_CRS_RUN r SCR_PR_NONE (hand_over k r ?t)"
    using complete_eq [OF k W, of cb] M by simp
  then show ?thesis
    using req k hand_over_facts [OF W] f M by (intro exI [of _ ?t] exI [of _ "hand_over k r ?t"]) simp
qed

theorem scr_preempts_later_witness:
  "\<exists>t u. scr_clientRequest async_cb 5 0 roam_state = (SCR_CRS_PEND, Some SCR_PR_OTHER_CLIENT_ABORTING, t) \<and>
    scr_clientComplete async_cb 2 0 t = scr_notify async_cb 5 SCR_CRS_RUN 0 SCR_PR_NONE u \<and>
    runningClient u 0 = 5"
  using scr_preempts_later [OF reach_roam preempt_roam refl, of async_cb] by (auto simp: waiting_roam)

text \<open>
  Preemption, when the aborted client completes within its callback: the resource goes to the highest
  of the waiting clients, the asking one included. The answer is that the asking client runs exactly if
  it is that client. In every case the abort is the only call that is made.
\<close>
theorem scr_preempts_at_once:
  assumes "scr_reach n s" "may_preempt s c r k" "M = Max (insert c (waiting s r))"
  shows "\<exists>t. scr_clientRequest abort_cb c r s =
      (if M = c then (SCR_CRS_RUN, Some SCR_PR_NONE, t)
       else (SCR_CRS_PEND, Some SCR_PR_OTHER_CLIENT_ABORTING, t)) \<and>
    runningClient t r = M \<and> cstate t M r = SCR_CS_RUNNING \<and> cstate t k r = SCR_CS_IDLE \<and>
    (M \<noteq> c \<longrightarrow> cstate t c r = SCR_CS_PENDING) \<and>
    scrCalls t = scrCalls s @ [ScrCall k SCR_CRS_ABORT r SCR_PR_NONE]"
proof -
  let ?p = "preempt_state s c r k"
  let ?W = "insert c (waiting s r)"
  let ?h = "(hand_over k r ?p)\<lparr>statusNotficationPending := False\<rparr>"
  note f = preempt_state_facts [OF assms(2)]
  have W: "?W = waiting ?p r - {k}" using f(1,2) by auto
  have k: "k < 8" "r < 2" "runningClient ?p r = k" "c \<noteq> k"
    using assms(2) f(5) by (auto simp: may_preempt_def)
  have M: "Max ?W = M" using assms(3) by simp
  have "abort_cb (ScrCall k SCR_CRS_ABORT r SCR_PR_NONE) ?p = hand_over k r ?p"
    using complete_eq [OF k(1-3) W, of async_cb] f(7) by (simp add: abort_cb_def)
  note req = preempt_request [OF assms(2) scr_reach_inv(3) [OF assms(1)], of abort_cb]
    request_abort_eq [OF assms(2), of abort_cb, unfolded this]
  note h = hand_over_facts [OF W]
  show ?thesis
  proof (cases "M = c")
    case True
    then show ?thesis using req h f k M by (intro exI [of _ ?h]) (simp add: Let_def)
  next
    case False
    then have "cstate ?h c r = SCR_CS_PENDING" using h(4) [of c r] f(3) k(4) M by simp
    with False show ?thesis using req h f k M
      by (intro exI [of _ "set_reason c r SCR_PR_OTHER_CLIENT_ABORTING ?h"]) (simp add: Let_def)
  qed
qed

theorem scr_preempts_at_once_witness:
  "\<exists>t. scr_clientRequest abort_cb 5 0 roam_state = (SCR_CRS_RUN, Some SCR_PR_NONE, t) \<and>
    runningClient t 0 = 5 \<and> cstate t 2 0 = SCR_CS_IDLE"
  using scr_preempts_at_once [OF reach_roam preempt_roam refl] by (auto simp: waiting_roam)

section \<open>Exclusion, work and the abort policy\<close>

text \<open>
  C9. Exclusive use: in every state that calls of the module reach, whatever the clients call from
  their callbacks, a resource is either free, and then no client is running or aborting on it, or it is
  recorded for the one client that is. Between calls the module is not inside a request.
\<close>
theorem scr_exclusive:
  assumes "scr_reach n s" "r < 2"
  shows "\<not> statusNotficationPending s \<and>
    (if runningClient s r = SCR_CID_NO_CLIENT then \<forall>c<8. \<not> holds s c r
     else runningClient s r < 8 \<and> holds s (runningClient s r) r \<and>
       (\<forall>c<8. holds s c r \<longrightarrow> c = runningClient s r))"
  using scr_reach_inv(1,3) [OF assms(1)] scr_exclD [of s r] assms(2) by (auto simp: scr_ids)

theorem scr_exclusive_witness:
  "runningClient scan_state 0 = 2 \<and> holds scan_state 2 0 \<and> \<not> holds scan_state 5 0"
proof -
  have r: "runningClient scan_state 0 = 2" using view_scan by (simp add: scr_view_def)
  from scr_exclusive [OF reach_scan, of 0] have "holds scan_state 2 0" "\<forall>c<8. holds scan_state c 0 \<longrightarrow> c = 2"
    unfolding r by (simp_all add: scr_ids)
  with r show ?thesis by (auto dest!: spec [of _ 5])
qed

text \<open>
  C10. No client waits for nothing: in every reachable state each client that is enabled in the current
  group and mode is idle if the resource is free, so a resource never lies idle while somebody who may
  use it waits.
\<close>
theorem scr_no_idle_resource:
  assumes "scr_reach n s" "r < 2" "runningClient s r = SCR_CID_NO_CLIENT" "c < 8" "client_enabled s r c"
  shows "cstate s c r = SCR_CS_IDLE"
proof -
  have "\<not> holds s c r"
    using scr_exclD(2) [OF scr_reach_inv(1) [OF assms(1)] assms(2,4)] assms(3,4) by (simp add: scr_ids)
  moreover have "c \<notin> waiting s r"
    using scr_reach_inv(2) [OF assms(1), of r] assms(2,3) by (simp add: scr_work_def scr_ids)
  ultimately show ?thesis
    using assms(4,5) by (cases "cstate s c r") (simp_all add: holds_def waiting_def)
qed

theorem scr_no_idle_resource_witness:
  "cstate (scr_ops abort_cb [OpSetGroup 4] scr_start) 2 0 = SCR_CS_IDLE"
proof (rule scr_no_idle_resource)
  show "scr_reach False (scr_ops abort_cb [OpSetGroup 4] scr_start)" by (rule reach_start [OF abort_client])
  have "scr_view (scr_ops abort_cb [OpSetGroup 4] scr_start) 4 9 (\<lambda>c. SCR_CS_IDLE) []"
    by (simp add: view_group_4 view_start)
  then show "runningClient (scr_ops abort_cb [OpSetGroup 4] scr_start) 0 = SCR_CID_NO_CLIENT"
    "client_enabled (scr_ops abort_cb [OpSetGroup 4] scr_start) 0 2"
    by (simp_all add: scr_view_def scr_ids client_enabled_def clientStatus_def
        clientStatus_serving_normal_def del: scr_ops_step)
qed simp_all

text \<open>
  The abort policy, as the driver is built: no client other than the two scans of lowest priority is
  ever told to abort a periodic scan, and on the serving channel only scans and measurements are; the
  connection, the immediate scan and the channel switch are never told to.
\<close>
theorem scr_abort_policy:
  assumes "scr_reach False s" "ScrCall c SCR_CRS_ABORT r pr \<in> set (scrCalls s)"
  shows "r = SCR_RESOURCE_SERVING_CHANNEL \<and> c \<le> SCR_CID_BASIC_MEASURE \<or>
    r = SCR_RESOURCE_PERIODIC_SCAN \<and> c \<le> SCR_CID_DRIVER_FG_SCAN"
proof -
  obtain h m where m: "scrCalls m = []" "scr_calls False (scr_init h m) s"
    using assms(1) by (auto simp: scr_reach_def)
  then have "aborts_ok s" using calls_aborts [OF m(2)] init_inv(1) by (simp add: aborts_ok_def)
  with assms(2) have "abortable r c" by (auto simp: aborts_ok_def)
  then obtain d where "r < 2" "d < 8" "c < d" "abortOthers ! r ! d \<noteq> SCR_CID_NO_CLIENT" "c \<le> abortOthers ! r ! d"
    by (auto simp: abortable_def)
  moreover from this have "d = 0 \<or> d = 1 \<or> d = 2 \<or> d = 3 \<or> d = 4 \<or> d = 5 \<or> d = 6 \<or> d = 7" by linarith
  moreover from calculation(1) have "r = 0 \<or> r = 1" by (rule less_2_cases_nat)
  ultimately show ?thesis by (elim disjE) (simp_all add: abortOthers_def scr_ids)
qed

theorem scr_abort_policy_witness:
  "ScrCall 2 SCR_CRS_ABORT 0 SCR_PR_NONE \<in> set (scrCalls abort_state) \<and> 2 \<le> SCR_CID_BASIC_MEASURE"
proof -
  have c: "ScrCall 2 SCR_CRS_ABORT 0 SCR_PR_NONE \<in> set (scrCalls abort_state)"
    using view_abort by (simp add: scr_view_def)
  from scr_abort_policy [OF reach_abort this] c show ?thesis by (simp add: scr_ids)
qed

text \<open>
  A request while another client aborts never calls anybody: the search for a pending client of
  lower priority starts at the asking client, so the clients that this request overtakes are not told
  that their reason has changed. The answer names the aborting client exactly if no client at or
  above the asking one is waiting already.
\<close>
theorem scr_request_while_aborting:
  assumes "scr_reach n s" "c < 8" "r < 2" "client_enabled s r c" "runningClient s r \<noteq> c"
    "runningClient s r \<noteq> SCR_CID_NO_CLIENT" "cstate s (runningClient s r) r = SCR_CS_ABORTING"
  shows "\<exists>t. scr_clientRequest cb c r s =
      (SCR_CRS_PEND, Some (if \<exists>d\<in>waiting s r. c \<le> d then SCR_PR_OTHER_CLIENT_RUNNING
                           else SCR_PR_OTHER_CLIENT_ABORTING), t) \<and>
    scrCalls t = scrCalls s \<and> runningClient t = runningClient s \<and> waiting t r = insert c (waiting s r) \<and>
    (\<forall>d. d \<noteq> c \<longrightarrow> creason t d r = creason s d r)"
proof -
  have "scr_clientRequest cb c r s = request_aborting cb c r s"
    using assms(2-7) scr_reach_inv(3) [OF assms(1)] by (simp add: scr_clientRequest_def scr_ids eq_commute)
  then show ?thesis
    using assms(2,4) by (auto simp: request_aborting_eq pend_def waiting_set_state)
qed

theorem scr_request_while_aborting_witness:
  "\<exists>t. scr_clientRequest async_cb 6 0 abort_state = (SCR_CRS_PEND, Some SCR_PR_OTHER_CLIENT_ABORTING, t) \<and>
    scrCalls t = scrCalls abort_state \<and> creason t 5 0 = creason abort_state 5 0"
proof -
  have "runningClient abort_state 0 = 2" "cstate abort_state 2 0 = SCR_CS_ABORTING" "client_enabled abort_state 0 6"
    using view_abort by (simp_all add: scr_view_def client_enabled_def clientStatus_def
        clientStatus_serving_normal_def)
  then show ?thesis
    using scr_request_while_aborting [OF reach_abort, of 6 0 async_cb]
    by (auto simp: scr_ids waiting_abort)
qed

text \<open>
  A grant that nobody is told: the immediate scan asks while its group does not allow it, the group
  changes to roaming while a continuous scan runs, and the connection preempts the continuous scan,
  which completes within its callback. The immediate scan then holds the serving channel, its own request
  was answered with waiting, and it was never called; the connection waits behind it.
\<close>
theorem scr_grant_untold:
  "\<exists>s2 s5. s2 = scr_ops abort_cb [OpSetGroup SCR_GID_CONNECTED, OpRequest SCR_CID_CONT_SCAN 0] scr_start \<and>
    s5 = scr_ops abort_cb [OpRequest SCR_CID_IMMED_SCAN 0, OpSetGroup SCR_GID_ROAMING, OpRequest SCR_CID_CONNECT 0] s2 \<and>
    scr_reach False s5 \<and> fst (scr_clientRequest abort_cb SCR_CID_IMMED_SCAN 0 s2) = SCR_CRS_PEND \<and>
    runningClient s5 0 = SCR_CID_IMMED_SCAN \<and> cstate s5 SCR_CID_IMMED_SCAN 0 = SCR_CS_RUNNING \<and>
    cstate s5 SCR_CID_CONNECT 0 = SCR_CS_PENDING \<and>
    scrCalls s5 = [ScrCall SCR_CID_CONT_SCAN SCR_CRS_ABORT 0 SCR_PR_NONE]"
proof -
  let ?s2 = "scr_ops abort_cb [OpSetGroup 4, OpRequest 2 0] scr_start"
  let ?s3 = "snd (snd (pend 6 0 SCR_PR_DIFFERENT_GROUP_RUNNING ?s2))"
  let ?s5 = "scr_ops abort_cb [OpRequest 6 0, OpSetGroup 5, OpRequest 5 0] ?s2"
  have s2: "scr_view ?s2 4 2 (\<lambda>c. if c = 2 then SCR_CS_RUNNING else SCR_CS_IDLE) []"
    by (simp add: view_request_2 view_group_4 view_start)
  then have s3: "scr_view ?s3 4 2 (\<lambda>c. if c = 6 then SCR_CS_PENDING else if c = 2 then SCR_CS_RUNNING else SCR_CS_IDLE) []"
    by (rule view_pend_6)
  have s5: "?s5 = snd (snd (scr_clientRequest abort_cb 5 0 (scr_setGroup abort_cb 5 ?s3)))"
    by (simp add: view_request_6 [OF s2, simplified])
  have "creason ?s3 6 0 = SCR_PR_DIFFERENT_GROUP_RUNNING" by (simp add: pend_def)
  then have "scr_view (scr_setGroup abort_cb 5 ?s3) 5 2
      (\<lambda>c. if c = 6 then SCR_CS_PENDING else if c = 2 then SCR_CS_RUNNING else SCR_CS_IDLE) []"
    using s3 by (intro view_group_5) auto
  note v = view_request_5(2) [OF this, folded s5]
  have "fst (scr_clientRequest abort_cb 6 0 ?s2) = SCR_CRS_PEND"
    by (simp only: view_request_6 [OF s2]) (simp add: pend_def)
  moreover have "scr_reach False ?s5"
    using reach_ops [OF reach_start [OF abort_client] abort_client] .
  ultimately show ?thesis using v by (simp only: scr_ids) (simp add: scr_view_def del: scr_ops_step)
qed

end
