(* ===== verification/WlContext.thy ===== *)
theory WlContext
  imports WlQueue
begin

text \<open>
  The context engine of \<^verbatim>\<open>utils/context.c\<close>, which moves the handling of events from interrupt and
  timer contexts to the driver's task, and the three services of the operating system layer that it
  uses (\<^verbatim>\<open>platforms/os/linux/src/osapi.c\<close>, \<^verbatim>\<open>WlanDrvIf.c\<close>): the wake lock, which is counted, the
  request of the task, which is a work item that is queued or not, and the task that the work item
  runs. A work item leaves the queue when it starts to run, and only one runs at a time. Arrays are
  functions of their index. A client's callback is a parameter, and so is the driver task where a
  function calls it directly. \<open>TI_DBG\<close> is defined.
\<close>

section \<open>The object\<close>

definition MAX_CLIENTS :: nat where "MAX_CLIENTS = 8"
definition MAX_NAME_SIZE :: nat where "MAX_NAME_SIZE = 16"

record TClientName =
  uSize :: nat
  sName :: string

text \<open>
  \<open>uNumClients\<close> is at most \<open>MAX_CLIENTS\<close>. The last three fields are those of the operating system's
  object: the count of the wake lock, whether the lock is held, and whether the work item is queued.
\<close>

record TContext =
  ctx_hOs :: addr
  ctx_hReport :: addr
  bContextSwitchRequired :: bool
  hProtectionLock :: addr
  uNumClients :: nat
  aClientCbFunc :: "nat \<Rightarrow> addr"
  aClientCbHndl :: "nat \<Rightarrow> addr"
  aClientEnabled :: "nat \<Rightarrow> bool"
  aClientPending :: "nat \<Rightarrow> bool"
  aClientName :: "nat \<Rightarrow> TClientName"
  aRequestCount :: "nat \<Rightarrow> TI_UINT32"
  aInvokeCount :: "nat \<Rightarrow> TI_UINT32"
  wl_count :: nat
  wl_wifi :: bool
  work_queued :: bool

section \<open>Services of the operating system\<close>

definition os_wake_lock :: "'a TContext_scheme \<Rightarrow> 'a TContext_scheme" where
  "os_wake_lock s = (if wl_count s = 0 then s\<lparr>wl_wifi := True\<rparr> else s)\<lparr>wl_count := wl_count s + 1\<rparr>"

definition os_wake_unlock :: "'a TContext_scheme \<Rightarrow> 'a TContext_scheme" where
  "os_wake_unlock s =
     (if wl_count s \<noteq> 0
      then (if wl_count s - 1 = 0 then s\<lparr>wl_wifi := False\<rparr> else s)\<lparr>wl_count := wl_count s - 1\<rparr>
      else s)"

text \<open>\<open>queue_work\<close> refuses a work item that is queued already.\<close>

definition os_RequestSchedule :: "'a TContext_scheme \<Rightarrow> TI_STATUS \<times> 'a TContext_scheme" where
  "os_RequestSchedule s = (if work_queued s then (TI_NOK, s) else (TI_OK, s\<lparr>work_queued := True\<rparr>))"

section \<open>Creation and registration\<close>

definition context_Create :: "bool \<Rightarrow> TContext option" where
  "context_Create alloc_ok = (if alloc_ok then Some
     \<lparr>ctx_hOs = 0, ctx_hReport = 0, bContextSwitchRequired = False, hProtectionLock = 0, uNumClients = 0,
      aClientCbFunc = (\<lambda>i. 0), aClientCbHndl = (\<lambda>i. 0), aClientEnabled = (\<lambda>i. False),
      aClientPending = (\<lambda>i. False), aClientName = (\<lambda>i. \<lparr>uSize = 0, sName = replicate MAX_NAME_SIZE (CHR 0x00)\<rparr>),
      aRequestCount = (\<lambda>i. 0), aInvokeCount = (\<lambda>i. 0), wl_count = 0, wl_wifi = False, work_queued = False\<rparr>
   else None)"

definition context_Init :: "addr \<Rightarrow> addr \<Rightarrow> addr \<Rightarrow> 'a TContext_scheme \<Rightarrow> 'a TContext_scheme" where
  "context_Init hOs hReport lock s = s\<lparr>ctx_hOs := hOs, ctx_hReport := hReport, hProtectionLock := lock\<rparr>"

definition context_SetDefaults :: "bool \<Rightarrow> 'a TContext_scheme \<Rightarrow> TI_STATUS \<times> 'a TContext_scheme" where
  "context_SetDefaults switch s = (TI_OK, s\<lparr>bContextSwitchRequired := switch\<rparr>)"

definition context_RegisterClient :: "addr \<Rightarrow> addr \<Rightarrow> bool \<Rightarrow> string \<Rightarrow> nat \<Rightarrow>
    'a TContext_scheme \<Rightarrow> nat \<times> 'a TContext_scheme" where
  "context_RegisterClient fCbFunc hCbHndl bEnable name uNameSize s =
     (let uClientId = uNumClients s
      in if uClientId = MAX_CLIENTS then (0, s)
         else let s1 = s\<lparr>aClientCbFunc := (aClientCbFunc s)(uClientId := fCbFunc),
                         aClientCbHndl := (aClientCbHndl s)(uClientId := hCbHndl),
                         aClientEnabled := (aClientEnabled s)(uClientId := bEnable),
                         aClientPending := (aClientPending s)(uClientId := False)\<rparr>;
                  s2 = (if uNameSize \<le> MAX_NAME_SIZE
                        then s1\<lparr>aClientName := (aClientName s1)(uClientId :=
                               \<lparr>uSize = uNameSize,
                                sName = take uNameSize name @ drop uNameSize (sName (aClientName s1 uClientId))\<rparr>)\<rparr>
                        else s1)
              in (uClientId, s2\<lparr>uNumClients := uNumClients s2 + 1\<rparr>))"

section \<open>Requests and the driver task\<close>

text \<open>The first action of a request; then the task is asked for, in the order of the code.\<close>

definition set_pending :: "nat \<Rightarrow> 'a TContext_scheme \<Rightarrow> 'a TContext_scheme" where
  "set_pending uClientId s = s\<lparr>aRequestCount := (aRequestCount s)(uClientId := aRequestCount s uClientId + 1),
     aClientPending := (aClientPending s)(uClientId := True)\<rparr>"

definition schedule_task ::
  "('a TContext_scheme \<Rightarrow> 'a TContext_scheme) \<Rightarrow> 'a TContext_scheme \<Rightarrow> 'a TContext_scheme" where
  "schedule_task task s =
     (let s1 = os_wake_lock s
      in if bContextSwitchRequired s1
         then case os_RequestSchedule s1 of (st, s2) \<Rightarrow> if st \<noteq> TI_OK then os_wake_unlock s2 else s2
         else os_wake_unlock (task s1))"

definition context_RequestSchedule ::
  "('a TContext_scheme \<Rightarrow> 'a TContext_scheme) \<Rightarrow> nat \<Rightarrow> 'a TContext_scheme \<Rightarrow> 'a TContext_scheme" where
  "context_RequestSchedule task uClientId s = schedule_task task (set_pending uClientId s)"

text \<open>The task's test of a client, and what it does before it calls the client.\<close>

definition task_ready :: "nat \<Rightarrow> 'a TContext_scheme \<Rightarrow> bool" where
  "task_ready i s \<longleftrightarrow> aClientPending s i \<and> aClientEnabled s i"

definition task_clear :: "nat \<Rightarrow> 'a TContext_scheme \<Rightarrow> 'a TContext_scheme" where
  "task_clear i s = s\<lparr>aInvokeCount := (aInvokeCount s)(i := aInvokeCount s i + 1),
     aClientPending := (aClientPending s)(i := False)\<rparr>"

text \<open>
  The loop reads the number of clients each time; as it is at most \<open>MAX_CLIENTS\<close> and grows only in a
  callback, the loop is one over all places with that test.
\<close>

definition task_round :: "(addr \<Rightarrow> addr \<Rightarrow> 'a TContext_scheme \<Rightarrow> 'a TContext_scheme) \<Rightarrow> nat \<Rightarrow>
    'a TContext_scheme \<Rightarrow> 'a TContext_scheme" where
  "task_round cb i s =
     (if i < uNumClients s \<and> task_ready i s
      then let s1 = task_clear i s in cb (aClientCbFunc s1 i) (aClientCbHndl s1 i) s1
      else s)"

definition context_DriverTask :: "(addr \<Rightarrow> addr \<Rightarrow> 'a TContext_scheme \<Rightarrow> 'a TContext_scheme) \<Rightarrow>
    'a TContext_scheme \<Rightarrow> 'a TContext_scheme" where
  "context_DriverTask cb s = fold (task_round cb) [0..<MAX_CLIENTS] s"

text \<open>The work item: it has left the queue when it runs.\<close>

definition task_start :: "'a TContext_scheme \<Rightarrow> 'a TContext_scheme" where
  "task_start s = s\<lparr>work_queued := False\<rparr>"

definition wlanDrvIf_DriverTask :: "(addr \<Rightarrow> addr \<Rightarrow> 'a TContext_scheme \<Rightarrow> 'a TContext_scheme) \<Rightarrow>
    'a TContext_scheme \<Rightarrow> 'a TContext_scheme" where
  "wlanDrvIf_DriverTask cb s = os_wake_unlock (context_DriverTask cb (task_start s))"

text \<open>Enabling sets the flag, and then asks for the task if the client is pending.\<close>

definition set_enabled :: "nat \<Rightarrow> bool \<Rightarrow> 'a TContext_scheme \<Rightarrow> 'a TContext_scheme" where
  "set_enabled uClientId b s = s\<lparr>aClientEnabled := (aClientEnabled s)(uClientId := b)\<rparr>"

definition context_EnableClient ::
  "('a TContext_scheme \<Rightarrow> 'a TContext_scheme) \<Rightarrow> nat \<Rightarrow> 'a TContext_scheme \<Rightarrow> 'a TContext_scheme" where
  "context_EnableClient task uClientId s =
     (if aClientEnabled s uClientId then s
      else let s1 = set_enabled uClientId True s
           in if aClientPending s1 uClientId then schedule_task task s1 else s1)"

definition context_DisableClient :: "nat \<Rightarrow> 'a TContext_scheme \<Rightarrow> 'a TContext_scheme" where
  "context_DisableClient uClientId s =
     (if \<not> aClientEnabled s uClientId then s else set_enabled uClientId False s)"

end
