(* ===== verification/WlTimer.thy ===== *)
theory WlTimer
  imports WlContext
begin

text \<open>
  The timer module of \<^verbatim>\<open>utils/timer.c\<close>: expired timers are queued in the operating system's timer
  context and served in the driver's task, through the context engine, whose object this one extends.
  A timer is its address, and \<open>tmrMem\<close> its memory, \<open>None\<close> when it is freed; an operation that reads a
  freed timer has the result \<open>Freed\<close>. A queue is the list of its timers, oldest first (theory
  \<open>WlQueue\<close>), \<open>None\<close> before it is created; both queues link a timer through the same node, so a timer
  that is in one of them is refused. \<open>osTimers\<close> holds the running timers of the operating system. A
  user's callback is a parameter; a call of it is recorded in \<open>tmrCalls\<close>, which no operation reads.
\<close>

section \<open>The objects\<close>

record TTimerInfo =
  hTimerModule :: addr
  hOsTimerObj :: addr
  fExpiryCbFunc :: addr
  hExpiryCbHndl :: addr
  uIntervalMsec :: TI_UINT32
  bPeriodic :: bool
  bOperStateWhenStarted :: bool
  uTwdInitCountWhenStarted :: TI_UINT32

text \<open>A call of a user's callback: the timer, the function, its handle, and the recovery flag.\<close>

datatype TmrCall = TmrCall (tc_timer: addr) (tc_func: addr) (tc_hndl: addr) (tc_init: bool)

record TTimerModule = TContext +
  tmr_hOs :: addr
  tmr_hReport :: addr
  tmr_hContext :: addr
  uContextId :: nat
  hInitQueue :: "addr list option"
  hOperQueue :: "addr list option"
  bOperState :: bool
  uTwdInitCount :: TI_UINT32
  uTimersCount :: TI_UINT32
  tmrMem :: "addr \<Rightarrow> TTimerInfo option"
  osTimers :: "addr \<Rightarrow> TI_UINT32 option"
  tmrCalls :: "TmrCall list"

text \<open>The result of an operation on a timer.\<close>

datatype 'a tmr_result = Valid 'a | Freed

section \<open>Queues\<close>

definition tmr_items :: "addr list option \<Rightarrow> addr list" where
  "tmr_items h = (case h of None \<Rightarrow> [] | Some xs \<Rightarrow> xs)"

definition tmr_queued :: "'a TTimerModule_scheme \<Rightarrow> addr set" where
  "tmr_queued s = set (tmr_items (hInitQueue s)) \<union> set (tmr_items (hOperQueue s))"

definition tmr_enq :: "'a TTimerModule_scheme \<Rightarrow> addr \<Rightarrow> addr list option \<Rightarrow> addr list option" where
  "tmr_enq s t h = (case h of None \<Rightarrow> None | Some xs \<Rightarrow> if t \<in> tmr_queued s then Some xs else Some (xs @ [t]))"

definition tmr_deq :: "addr list option \<Rightarrow> addr option \<times> addr list option" where
  "tmr_deq h = (case h of Some (x # xs) \<Rightarrow> (Some x, Some xs) | _ \<Rightarrow> (None, h))"

text \<open>Dequeuing until the queue is empty.\<close>

fun tmr_drain :: "addr list option \<Rightarrow> addr list option" where
  "tmr_drain (Some (x # xs)) = tmr_drain (Some xs)"
| "tmr_drain h = h"

section \<open>The module\<close>

definition tmr_Create :: "bool \<Rightarrow> TContext \<Rightarrow> TTimerModule option" where
  "tmr_Create alloc_ok c = (if alloc_ok then Some (TContext.extend c
     \<lparr>tmr_hOs = 0, tmr_hReport = 0, tmr_hContext = 0, uContextId = 0, hInitQueue = None, hOperQueue = None,
      bOperState = False, uTwdInitCount = 0, uTimersCount = 0, tmrMem = (\<lambda>t. None), osTimers = (\<lambda>x. None),
      tmrCalls = []\<rparr>) else None)"

definition tmr_ClearInitQueue :: "'a TTimerModule_scheme \<Rightarrow> 'a TTimerModule_scheme" where
  "tmr_ClearInitQueue s = s\<lparr>hInitQueue := tmr_drain (hInitQueue s)\<rparr>"

definition tmr_ClearOperQueue :: "'a TTimerModule_scheme \<Rightarrow> 'a TTimerModule_scheme" where
  "tmr_ClearOperQueue s = s\<lparr>hOperQueue := tmr_drain (hOperQueue s)\<rparr>"

text \<open>\<open>cb\<close> is \<open>tmr_HandleExpiry\<close> and \<open>self\<close> the module's address; \<open>q1\<close>, \<open>q2\<close> tell whether the queues are allocated.\<close>

definition tmr_Init :: "addr \<Rightarrow> addr \<Rightarrow> addr \<Rightarrow> bool \<Rightarrow> bool \<Rightarrow> addr \<Rightarrow> addr \<Rightarrow>
    'a TTimerModule_scheme \<Rightarrow> 'a TTimerModule_scheme" where
  "tmr_Init hOs hReport hContext q1 q2 cb self s =
     (let s1 = s\<lparr>tmr_hOs := hOs, tmr_hReport := hReport, tmr_hContext := hContext, bOperState := False,
                 uTimersCount := 0, uTwdInitCount := 0,
                 hInitQueue := (if q1 then Some [] else None), hOperQueue := (if q2 then Some [] else None)\<rparr>
      in case context_RegisterClient cb self True ''TIMER'' 6 s1 of (ident, s2) \<Rightarrow> s2\<lparr>uContextId := ident\<rparr>)"

text \<open>The critical section of the change of the driver's state, which is a change.\<close>

definition update_state :: "bool \<Rightarrow> 'a TTimerModule_scheme \<Rightarrow> 'a TTimerModule_scheme" where
  "update_state oper s =
     (let s1 = s\<lparr>bOperState := oper\<rparr>
      in if oper then s1\<lparr>uTwdInitCount := uTwdInitCount s1 + 1, hInitQueue := tmr_drain (hInitQueue s1)\<rparr> else s1)"

definition tmr_UpdateDriverState :: "('a TTimerModule_scheme \<Rightarrow> 'a TTimerModule_scheme) \<Rightarrow> bool \<Rightarrow>
    'a TTimerModule_scheme \<Rightarrow> 'a TTimerModule_scheme" where
  "tmr_UpdateDriverState task oper s =
     (if oper = bOperState s then s
      else let s1 = update_state oper s
           in if oper then context_RequestSchedule task (uContextId s1) s1 else s1)"

section \<open>Timers\<close>

definition zero_timer :: TTimerInfo where
  "zero_timer = \<lparr>hTimerModule = 0, hOsTimerObj = 0, fExpiryCbFunc = 0, hExpiryCbHndl = 0, uIntervalMsec = 0,
     bPeriodic = False, bOperStateWhenStarted = False, uTwdInitCountWhenStarted = 0\<rparr>"

text \<open>\<open>mem\<close> and \<open>os\<close> are the addresses that the two allocations return, 0 when one fails.\<close>

definition tmr_CreateTimer :: "addr \<Rightarrow> addr \<Rightarrow> addr \<Rightarrow> 'a TTimerModule_scheme \<Rightarrow> addr \<times> 'a TTimerModule_scheme" where
  "tmr_CreateTimer self mem os s =
     (if mem = 0 then (0, s)
      else if os = 0 then (0, s)
      else (mem, s\<lparr>tmrMem := (tmrMem s)(mem \<mapsto> zero_timer\<lparr>hOsTimerObj := os, hTimerModule := self\<rparr>),
                   uTimersCount := uTimersCount s + 1\<rparr>))"

definition tmr_DestroyTimer :: "addr \<Rightarrow> 'a TTimerModule_scheme \<Rightarrow> (TI_STATUS \<times> 'a TTimerModule_scheme) tmr_result" where
  "tmr_DestroyTimer t s =
     (if t = 0 then Valid (TI_NOK, s)
      else case tmrMem s t of None \<Rightarrow> Freed
      | Some ti \<Rightarrow>
          if hTimerModule ti = 0 then Valid (TI_NOK, s)
          else let s1 = (if hOsTimerObj ti \<noteq> 0
                         then s\<lparr>osTimers := (osTimers s)(hOsTimerObj ti := None), uTimersCount := uTimersCount s - 1\<rparr>
                         else s)
               in Valid (TI_OK, s1\<lparr>tmrMem := (tmrMem s1)(t := None)\<rparr>))"

definition tmr_StartTimer :: "addr \<Rightarrow> addr \<Rightarrow> addr \<Rightarrow> TI_UINT32 \<Rightarrow> bool \<Rightarrow>
    'a TTimerModule_scheme \<Rightarrow> 'a TTimerModule_scheme tmr_result" where
  "tmr_StartTimer t f h ms per s =
     (case tmrMem s t of None \<Rightarrow> Freed
      | Some ti \<Rightarrow>
          if hTimerModule ti = 0 then Valid s
          else let ti1 = ti\<lparr>fExpiryCbFunc := f, hExpiryCbHndl := h, uIntervalMsec := ms, bPeriodic := per,
                            bOperStateWhenStarted := bOperState s, uTwdInitCountWhenStarted := uTwdInitCount s\<rparr>
               in Valid (s\<lparr>tmrMem := (tmrMem s)(t \<mapsto> ti1), osTimers := (osTimers s)(hOsTimerObj ti1 \<mapsto> ms)\<rparr>))"

definition tmr_StopTimer :: "addr \<Rightarrow> 'a TTimerModule_scheme \<Rightarrow> 'a TTimerModule_scheme tmr_result" where
  "tmr_StopTimer t s =
     (case tmrMem s t of None \<Rightarrow> Freed
      | Some ti \<Rightarrow>
          if hTimerModule ti = 0 then Valid s
          else Valid (s\<lparr>osTimers := (osTimers s)(hOsTimerObj ti := None),
                        tmrMem := (tmrMem s)(t \<mapsto> ti\<lparr>bPeriodic := False\<rparr>)\<rparr>))"

section \<open>Expiry\<close>

text \<open>The critical section of \<open>tmr_GetExpiry\<close>.\<close>

definition queue_expiry :: "addr \<Rightarrow> TTimerInfo \<Rightarrow> 'a TTimerModule_scheme \<Rightarrow> 'a TTimerModule_scheme" where
  "queue_expiry t ti s =
     (if bOperStateWhenStarted ti then s\<lparr>hOperQueue := tmr_enq s t (hOperQueue s)\<rparr>
      else if \<not> bOperState s then s\<lparr>hInitQueue := tmr_enq s t (hInitQueue s)\<rparr>
      else s)"

definition tmr_GetExpiry :: "('a TTimerModule_scheme \<Rightarrow> 'a TTimerModule_scheme) \<Rightarrow> addr \<Rightarrow>
    'a TTimerModule_scheme \<Rightarrow> 'a TTimerModule_scheme tmr_result" where
  "tmr_GetExpiry task t s =
     (case tmrMem s t of None \<Rightarrow> Freed
      | Some ti \<Rightarrow>
          if hTimerModule ti = 0 then Valid s
          else let s1 = queue_expiry t ti s in Valid (context_RequestSchedule task (uContextId s1) s1))"

text \<open>The critical section of \<open>tmr_HandleExpiry\<close>: the queue of the driver's state.\<close>

definition take_expiry :: "'a TTimerModule_scheme \<Rightarrow> addr option \<times> 'a TTimerModule_scheme" where
  "take_expiry s =
     (if bOperState s then case tmr_deq (hOperQueue s) of (t, h) \<Rightarrow> (t, s\<lparr>hOperQueue := h\<rparr>)
      else case tmr_deq (hInitQueue s) of (t, h) \<Rightarrow> (t, s\<lparr>hInitQueue := h\<rparr>))"

text \<open>The call of a user's callback, and the restart of a periodic timer after it.\<close>

definition call_user :: "(addr \<Rightarrow> addr \<Rightarrow> bool \<Rightarrow> 'a TTimerModule_scheme \<Rightarrow> 'a TTimerModule_scheme) \<Rightarrow>
    addr \<Rightarrow> 'a TTimerModule_scheme \<Rightarrow> 'a TTimerModule_scheme tmr_result" where
  "call_user cb t s =
     (case tmrMem s t of None \<Rightarrow> Freed
      | Some ti \<Rightarrow>
          let bTwdInitOccured = uTwdInitCount s \<noteq> uTwdInitCountWhenStarted ti
          in Valid (cb (fExpiryCbFunc ti) (hExpiryCbHndl ti) bTwdInitOccured
               (s\<lparr>tmrCalls := tmrCalls s @ [TmrCall t (fExpiryCbFunc ti) (hExpiryCbHndl ti) bTwdInitOccured]\<rparr>)))"

definition restart_periodic :: "addr \<Rightarrow> 'a TTimerModule_scheme \<Rightarrow> 'a TTimerModule_scheme tmr_result" where
  "restart_periodic t s =
     (case tmrMem s t of None \<Rightarrow> Freed
      | Some ti \<Rightarrow>
          if bPeriodic ti
          then tmr_StartTimer t (fExpiryCbFunc ti) (hExpiryCbHndl ti) (uIntervalMsec ti) (bPeriodic ti) s
          else Valid s)"

text \<open>The loop; \<open>None\<close> if it does not end because the callbacks make timers expire again and again.\<close>

partial_function (option) tmr_HandleExpiry ::
  "(addr \<Rightarrow> addr \<Rightarrow> bool \<Rightarrow> 'a TTimerModule_scheme \<Rightarrow> 'a TTimerModule_scheme) \<Rightarrow>
    'a TTimerModule_scheme \<Rightarrow> 'a TTimerModule_scheme tmr_result option" where
  "tmr_HandleExpiry cb s =
     (case take_expiry s of (pTimerInfo, s1) \<Rightarrow>
        (case pTimerInfo of
           None \<Rightarrow> Some (Valid s1)
         | Some t \<Rightarrow>
             (case call_user cb t s1 of
                Freed \<Rightarrow> Some Freed
              | Valid s2 \<Rightarrow>
                  (case restart_periodic t s2 of
                     Freed \<Rightarrow> Some Freed
                   | Valid s3 \<Rightarrow> tmr_HandleExpiry cb s3))))"

end
