(* ===== verification/WlTimerRun.thy ===== *)
theory WlTimerRun
  imports WlTimer "HOL-Library.Multiset"
begin

text \<open>
  The context engine and the timer module as they run: the driver's task, the timer contexts of the
  operating system and the interrupts interleave, between the actions that the code makes one after the
  other and outside of the critical sections. Users' callbacks, and the other clients of the engine, act
  through the same calls as the other contexts. The driver is configured to switch contexts. The functions
  of theories \<open>WlContext\<close> and \<open>WlTimer\<close> are steps too, each as a whole; they turn out to be sequences of the
  single actions, which ties the actions to the functions.
\<close>

section \<open>Steps\<close>

text \<open>
  What a context other than the task is about to do: set the pending flag of a client, take the wake
  lock, ask for the task, give the lock back as the task was asked for already, or test the pending flag
  of a client that it enabled.
\<close>

datatype ReqPc = RqSet nat | RqLock | RqSched | RqUnlock | EnCheck nat

text \<open>
  Where the task is: not running, at the test of client \<open>i\<close>, before it clears the flag and calls it, in its
  callback; for the timer module at the head of its loop, before the user's callback of timer \<open>t\<close>, and in
  this callback or before the restart of the timer.
\<close>

datatype TaskPc = TkIdle | TkAt nat | TkClear nat | TkCall nat | TkTimer nat | TkUser nat addr | TkRestart nat addr

type_synonym RunState = "TTimerModule \<times> ReqPc multiset \<times> TaskPc"

text \<open>The steps of what is under way already.\<close>

inductive run_step :: "RunState \<Rightarrow> RunState \<Rightarrow> bool" where
  set: "run_step (s, add_mset (RqSet i) fl, tk) (set_pending i s, add_mset RqLock fl, tk)"
| lock: "run_step (s, add_mset RqLock fl, tk) (os_wake_lock s, add_mset RqSched fl, tk)"
| sched: "os_RequestSchedule s = (st, s') \<Longrightarrow>
    run_step (s, add_mset RqSched fl, tk) (s', if st \<noteq> TI_OK then add_mset RqUnlock fl else fl, tk)"
| unlock: "run_step (s, add_mset RqUnlock fl, tk) (os_wake_unlock s, fl, tk)"
| check: "run_step (s, add_mset (EnCheck i) fl, tk) (s, if aClientPending s i then add_mset RqLock fl else fl, tk)"
| start: "work_queued s \<Longrightarrow> run_step (s, fl, TkIdle) (task_start s, fl, TkAt 0)"
| ready: "i < uNumClients s \<Longrightarrow> task_ready i s \<Longrightarrow> run_step (s, fl, TkAt i) (s, fl, TkClear i)"
| skip: "i < uNumClients s \<Longrightarrow> \<not> task_ready i s \<Longrightarrow> run_step (s, fl, TkAt i) (s, fl, TkAt (Suc i))"
| finish: "\<not> i < uNumClients s \<Longrightarrow> run_step (s, fl, TkAt i) (os_wake_unlock s, fl, TkIdle)"
| clear: "run_step (s, fl, TkClear i) (task_clear i s, fl, if i = uContextId s then TkTimer i else TkCall i)"
| return: "run_step (s, fl, TkCall i) (s, fl, TkAt (Suc i))"
| take: "take_expiry s = (Some t, s') \<Longrightarrow> run_step (s, fl, TkTimer i) (s', fl, TkUser i t)"
| empty: "take_expiry s = (None, s') \<Longrightarrow> run_step (s, fl, TkTimer i) (s', fl, TkAt (Suc i))"
| user: "call_user (\<lambda>f h b u. u) t s = Valid s' \<Longrightarrow> run_step (s, fl, TkUser i t) (s', fl, TkRestart i t)"
| restart: "restart_periodic t s = Valid s' \<Longrightarrow> run_step (s, fl, TkRestart i t) (s', fl, TkTimer i)"

text \<open>
  The steps that begin something: a timer expires, a client asks for the task, a client is enabled or
  disabled, the driver's state changes, timers are created, started, stopped and destroyed, a queue is
  cleared. The timer module's client is never disabled. With \<open>safe\<close>, no timer is destroyed while it waits
  for its callback or is in it, which \<open>tmr_DestroyTimer\<close> does not check; without, any timer is.
\<close>

definition in_service :: "TaskPc \<Rightarrow> addr set" where
  "in_service tk = (case tk of TkUser i t \<Rightarrow> {t} | TkRestart i t \<Rightarrow> {t} | _ \<Rightarrow> {})"

inductive env_step :: "bool \<Rightarrow> RunState \<Rightarrow> RunState \<Rightarrow> bool" for safe where
  expire: "tmrMem s t = Some ti \<Longrightarrow> hTimerModule ti \<noteq> 0 \<Longrightarrow> osTimers s (hOsTimerObj ti) \<noteq> None \<Longrightarrow>
    env_step safe (s, fl, tk) (queue_expiry t ti (s\<lparr>osTimers := (osTimers s)(hOsTimerObj ti := None)\<rparr>),
      add_mset (RqSet (uContextId s)) fl, tk)"
| request: "i < uNumClients s \<Longrightarrow> env_step safe (s, fl, tk) (s, add_mset (RqSet i) fl, tk)"
| enable: "i < uNumClients s \<Longrightarrow> \<not> aClientEnabled s i \<Longrightarrow>
    env_step safe (s, fl, tk) (set_enabled i True s, add_mset (EnCheck i) fl, tk)"
| disable: "i \<noteq> uContextId s \<Longrightarrow> env_step safe (s, fl, tk) (context_DisableClient i s, fl, tk)"
| update: "b \<noteq> bOperState s \<Longrightarrow> env_step safe (s, fl, tk)
    (update_state b s, if b then add_mset (RqSet (uContextId s)) fl else fl, tk)"
| create: "mem \<noteq> 0 \<Longrightarrow> tmrMem s mem = None \<Longrightarrow> self \<noteq> 0 \<Longrightarrow>
    env_step safe (s, fl, tk) (snd (tmr_CreateTimer self mem os s), fl, tk)"
| start_timer: "tmr_StartTimer t f h ms per s = Valid s' \<Longrightarrow> env_step safe (s, fl, tk) (s', fl, tk)"
| stop_timer: "tmr_StopTimer t s = Valid s' \<Longrightarrow> env_step safe (s, fl, tk) (s', fl, tk)"
| destroy: "(safe \<Longrightarrow> t \<notin> tmr_queued s \<union> in_service tk) \<Longrightarrow> tmr_DestroyTimer t s = Valid (st, s') \<Longrightarrow>
    env_step safe (s, fl, tk) (s', fl, tk)"
| clear_init: "env_step safe (s, fl, tk) (tmr_ClearInitQueue s, fl, tk)"
| clear_oper: "env_step safe (s, fl, tk) (tmr_ClearOperQueue s, fl, tk)"

text \<open>
  The functions as a whole: a request, the enabling of a client, a change of the driver's state and the
  expiry of a timer, which no other context interrupts, and a run of the task in which all timers that
  wait are still allocated. In it the callback of the timer module serves them.
\<close>

definition current_queue :: "'a TTimerModule_scheme \<Rightarrow> addr list" where
  "current_queue s = tmr_items (if bOperState s then hOperQueue s else hInitQueue s)"

definition driver_cb :: "addr \<Rightarrow> addr \<Rightarrow> TTimerModule \<Rightarrow> TTimerModule" where
  "driver_cb f h s =
     (if f = aClientCbFunc s (uContextId s)
      then case tmr_HandleExpiry (\<lambda>f h b u. u) s of Some (Valid s') \<Rightarrow> s' | _ \<Rightarrow> s
      else s)"

inductive call_step :: "RunState \<Rightarrow> RunState \<Rightarrow> bool" where
  call_request: "i < uNumClients s \<Longrightarrow> call_step (s, fl, tk) (context_RequestSchedule task i s, fl, tk)"
| call_enable: "i < uNumClients s \<Longrightarrow> call_step (s, fl, tk) (context_EnableClient task i s, fl, tk)"
| call_update: "call_step (s, fl, tk) (tmr_UpdateDriverState task b s, fl, tk)"
| call_expire: "tmrMem s t = Some ti \<Longrightarrow> hTimerModule ti \<noteq> 0 \<Longrightarrow> osTimers s (hOsTimerObj ti) \<noteq> None \<Longrightarrow>
    tmr_GetExpiry task t (s\<lparr>osTimers := (osTimers s)(hOsTimerObj ti := None)\<rparr>) = Valid s' \<Longrightarrow>
    call_step (s, fl, tk) (s', fl, tk)"
| call_task: "work_queued s \<Longrightarrow> \<forall>t\<in>set (current_queue s). tmrMem s t \<noteq> None \<Longrightarrow>
    call_step (s, fl, TkIdle) (wlanDrvIf_DriverTask driver_cb s, fl, TkIdle)"

text \<open>
  The module after its initialisation, when all clients have registered, each with its own function;
  the driver switches contexts.
\<close>

definition run_start :: "TTimerModule \<Rightarrow> bool" where
  "run_start s \<longleftrightarrow> uNumClients s \<le> MAX_CLIENTS \<and> uContextId s < uNumClients s \<and> aClientEnabled s (uContextId s) \<and>
     bContextSwitchRequired s \<and>
     (\<forall>i<uNumClients s. aClientCbFunc s i = aClientCbFunc s (uContextId s) \<longrightarrow> i = uContextId s) \<and>
     (\<forall>i. \<not> aClientPending s i) \<and> \<not> work_queued s \<and> wl_count s = 0 \<and> \<not> wl_wifi s \<and>
     tmr_items (hInitQueue s) = [] \<and> tmr_items (hOperQueue s) = [] \<and> \<not> bOperState s \<and> tmrMem s = (\<lambda>t. None)"

inductive run_reach :: "bool \<Rightarrow> RunState \<Rightarrow> bool" for safe where
  run_init: "run_start s \<Longrightarrow> run_reach safe (s, {#}, TkIdle)"
| run_run: "run_reach safe x \<Longrightarrow> run_step x y \<Longrightarrow> run_reach safe y"
| run_env: "run_reach safe x \<Longrightarrow> env_step safe x y \<Longrightarrow> run_reach safe y"
| run_call: "run_reach safe x \<Longrightarrow> call_step x y \<Longrightarrow> run_reach safe y"

inductive_cases run_stepE: "run_step x y"
inductive_cases env_stepE: "env_step safe x y"

section \<open>Invariants\<close>

text \<open>The contexts that hold the wake lock.\<close>

definition lock_holders :: "ReqPc multiset \<Rightarrow> nat" where
  "lock_holders fl = size (filter_mset (\<lambda>p. p = RqSched \<or> p = RqUnlock) fl)"

lemma lock_holders_simps [simp]:
  "lock_holders {#} = 0"
  "lock_holders (add_mset p fl) = lock_holders fl + (if p = RqSched \<or> p = RqUnlock then 1 else 0)"
  by (simp_all add: lock_holders_def)

definition lock_inv :: "RunState \<Rightarrow> bool" where
  "lock_inv x = (case x of (s, fl, tk) \<Rightarrow>
     wl_count s = (if work_queued s then 1 else 0) + (if tk = TkIdle then 0 else 1) + lock_holders fl \<and>
     wl_wifi s = (wl_count s \<noteq> 0))"

text \<open>The task will still test client \<open>i\<close> in this run.\<close>

fun ahead :: "TaskPc \<Rightarrow> nat \<Rightarrow> bool" where
  "ahead TkIdle i \<longleftrightarrow> False"
| "ahead (TkAt j) i \<longleftrightarrow> j \<le> i"
| "ahead (TkClear j) i \<longleftrightarrow> j \<le> i"
| "ahead (TkCall j) i \<longleftrightarrow> j < i"
| "ahead (TkTimer j) i \<longleftrightarrow> j < i"
| "ahead (TkUser j t) i \<longleftrightarrow> j < i"
| "ahead (TkRestart j t) i \<longleftrightarrow> j < i"

definition request_inv :: "RunState \<Rightarrow> bool" where
  "request_inv x = (case x of (s, fl, tk) \<Rightarrow>
     (\<forall>i<uNumClients s. aClientPending s i \<and> aClientEnabled s i \<longrightarrow>
        work_queued s \<or> RqLock \<in># fl \<or> RqSched \<in># fl \<or> EnCheck i \<in># fl \<or> ahead tk i))"

text \<open>The task is serving expired timers or about to.\<close>

fun serving :: "nat \<Rightarrow> TaskPc \<Rightarrow> bool" where
  "serving c (TkClear i) \<longleftrightarrow> i = c"
| "serving c (TkTimer i) \<longleftrightarrow> True"
| "serving c (TkUser i t) \<longleftrightarrow> True"
| "serving c (TkRestart i t) \<longleftrightarrow> True"
| "serving c tk \<longleftrightarrow> False"

definition timer_inv :: "RunState \<Rightarrow> bool" where
  "timer_inv x = (case x of (s, fl, tk) \<Rightarrow>
     uNumClients s \<le> 8 \<and> uContextId s < uNumClients s \<and> aClientEnabled s (uContextId s) \<and>
     (bOperState s \<longrightarrow> tmr_items (hInitQueue s) = []) \<and>
     (current_queue s \<noteq> [] \<longrightarrow> aClientPending s (uContextId s) \<or> RqSet (uContextId s) \<in># fl \<or>
        serving (uContextId s) tk))"

definition memory_inv :: "RunState \<Rightarrow> bool" where
  "memory_inv x = (case x of (s, fl, tk) \<Rightarrow> (\<forall>t\<in>tmr_queued s \<union> in_service tk. tmrMem s t \<noteq> None))"

lemmas ctx_defs = set_pending_def os_wake_lock_def os_wake_unlock_def os_RequestSchedule_def task_start_def
  task_clear_def task_ready_def set_enabled_def context_DisableClient_def

lemmas tmr_defs = take_expiry_def call_user_def restart_periodic_def tmr_StartTimer_def tmr_StopTimer_def
  tmr_DestroyTimer_def tmr_CreateTimer_def tmr_ClearInitQueue_def tmr_ClearOperQueue_def update_state_def
  queue_expiry_def Let_def

text \<open>What the timer operations change.\<close>

lemma start_shape:
  assumes "tmr_StartTimer t f h ms per s = Valid s'"
  shows "s' = s\<lparr>tmrMem := tmrMem s', osTimers := osTimers s'\<rparr>" "(tmrMem s' u = None) = (tmrMem s u = None)"
proof -
  obtain ti where ti: "tmrMem s t = Some ti" using assms by (cases "tmrMem s t") (simp_all add: tmr_StartTimer_def)
  let ?s = "s\<lparr>tmrMem := (tmrMem s)(t \<mapsto> ti\<lparr>fExpiryCbFunc := f, hExpiryCbHndl := h, uIntervalMsec := ms, bPeriodic := per,
      bOperStateWhenStarted := bOperState s, uTwdInitCountWhenStarted := uTwdInitCount s\<rparr>),
      osTimers := (osTimers s)(hOsTimerObj ti \<mapsto> ms)\<rparr>"
  have s': "s' = s \<or> s' = ?s"
    using assms ti by (cases "hTimerModule ti = 0") (simp_all add: tmr_StartTimer_def Let_def)
  then show "s' = s\<lparr>tmrMem := tmrMem s', osTimers := osTimers s'\<rparr>" by (elim disjE) (simp_all only:, simp_all)
  show "(tmrMem s' u = None) = (tmrMem s u = None)" using s' ti by (elim disjE) simp_all
qed

lemma stop_shape:
  assumes "tmr_StopTimer t s = Valid s'"
  shows "s' = s\<lparr>tmrMem := tmrMem s', osTimers := osTimers s'\<rparr>" "(tmrMem s' u = None) = (tmrMem s u = None)"
proof -
  obtain ti where ti: "tmrMem s t = Some ti" using assms by (cases "tmrMem s t") (simp_all add: tmr_StopTimer_def)
  let ?s = "s\<lparr>osTimers := (osTimers s)(hOsTimerObj ti := None), tmrMem := (tmrMem s)(t \<mapsto> ti\<lparr>bPeriodic := False\<rparr>)\<rparr>"
  have s': "s' = s \<or> s' = ?s"
    using assms ti by (cases "hTimerModule ti = 0") (simp_all add: tmr_StopTimer_def)
  then show "s' = s\<lparr>tmrMem := tmrMem s', osTimers := osTimers s'\<rparr>" by (elim disjE) (simp_all only:, simp_all)
  show "(tmrMem s' u = None) = (tmrMem s u = None)" using s' ti by (elim disjE) simp_all
qed

lemma restart_shape:
  assumes "restart_periodic t s = Valid s'"
  shows "s' = s\<lparr>tmrMem := tmrMem s', osTimers := osTimers s'\<rparr>" "(tmrMem s' u = None) = (tmrMem s u = None)"
proof -
  obtain ti where ti: "tmrMem s t = Some ti" using assms by (cases "tmrMem s t") (auto simp: restart_periodic_def)
  have "s' = s\<lparr>tmrMem := tmrMem s', osTimers := osTimers s'\<rparr> \<and> (tmrMem s' u = None) = (tmrMem s u = None)"
  proof (cases "bPeriodic ti")
    case True
    then have "tmr_StartTimer t (fExpiryCbFunc ti) (hExpiryCbHndl ti) (uIntervalMsec ti) True s = Valid s'"
      using assms ti by (simp add: restart_periodic_def)
    from start_shape [OF this] show ?thesis by blast
  next
    case False
    then have "s' = s" using assms ti by (simp add: restart_periodic_def)
    then show ?thesis by simp
  qed
  then show "s' = s\<lparr>tmrMem := tmrMem s', osTimers := osTimers s'\<rparr>" "(tmrMem s' u = None) = (tmrMem s u = None)"
    by blast+
qed

lemma user_shape:
  assumes "call_user (\<lambda>f h b u. u) t s = Valid s'"
  shows "s' = s\<lparr>tmrCalls := tmrCalls s'\<rparr>"
proof -
  obtain ti where "tmrMem s t = Some ti" using assms by (cases "tmrMem s t") (simp_all add: call_user_def)
  then have "s' = s\<lparr>tmrCalls := tmrCalls s @ [TmrCall t (fExpiryCbFunc ti) (hExpiryCbHndl ti)
      (uTwdInitCount s \<noteq> uTwdInitCountWhenStarted ti)]\<rparr>"
    using assms by (simp add: call_user_def Let_def)
  then show ?thesis by simp
qed

lemma destroy_shape:
  assumes "tmr_DestroyTimer t s = Valid (st, s')"
  shows "s' = s\<lparr>tmrMem := tmrMem s', osTimers := osTimers s', uTimersCount := uTimersCount s'\<rparr>"
    "u \<noteq> t \<Longrightarrow> tmrMem s' u = tmrMem s u"
proof -
  have "s' = s \<or> (\<exists>k c. s' = s\<lparr>tmrMem := (tmrMem s)(t := None), osTimers := k, uTimersCount := c\<rparr>)"
  proof (cases "t = 0")
    case True
    then show ?thesis using assms by (simp add: tmr_DestroyTimer_def)
  next
    case False
    then obtain ti where ti: "tmrMem s t = Some ti"
      using assms by (cases "tmrMem s t") (simp_all add: tmr_DestroyTimer_def)
    consider "hTimerModule ti = 0" | "hTimerModule ti \<noteq> 0" "hOsTimerObj ti = 0"
      | "hTimerModule ti \<noteq> 0" "hOsTimerObj ti \<noteq> 0" by blast
    then show ?thesis
    proof cases
      case 1
      then show ?thesis using assms ti False by (simp add: tmr_DestroyTimer_def)
    next
      case 2
      then have "s' = s\<lparr>tmrMem := (tmrMem s)(t := None)\<rparr>"
        using assms ti False by (simp add: tmr_DestroyTimer_def)
      then show ?thesis
        by (intro disjI2 exI [of _ "osTimers s"] exI [of _ "uTimersCount s"]) simp
    next
      case 3
      then have "s' = s\<lparr>tmrMem := (tmrMem s)(t := None), osTimers := (osTimers s)(hOsTimerObj ti := None),
          uTimersCount := uTimersCount s - 1\<rparr>"
        using assms ti False by (auto simp: tmr_DestroyTimer_def Let_def)
      then show ?thesis by blast
    qed
  qed
  then show "s' = s\<lparr>tmrMem := tmrMem s', osTimers := osTimers s', uTimersCount := uTimersCount s'\<rparr>"
    "u \<noteq> t \<Longrightarrow> tmrMem s' u = tmrMem s u"
    by (elim disjE exE; simp)+
qed

lemma deq_items:
  "tmr_deq h = (r, h') \<Longrightarrow> tmr_items h' = tl (tmr_items h) \<and>
    r = (if tmr_items h = [] then None else Some (hd (tmr_items h)))"
  by (auto simp: tmr_deq_def tmr_items_def split: option.splits list.splits)

lemma take_shape:
  assumes "take_expiry s = (r, s')"
  shows "s' = s\<lparr>hInitQueue := hInitQueue s', hOperQueue := hOperQueue s'\<rparr>"
    "tmr_items (hInitQueue s') = (if bOperState s then tmr_items (hInitQueue s) else tl (tmr_items (hInitQueue s)))"
    "tmr_items (hOperQueue s') = (if bOperState s then tl (tmr_items (hOperQueue s)) else tmr_items (hOperQueue s))"
    "r = (if current_queue s = [] then None else Some (hd (current_queue s)))"
proof -
  obtain a ha where a: "tmr_deq (hOperQueue s) = (a, ha)" by fastforce
  obtain b hb where b: "tmr_deq (hInitQueue s) = (b, hb)" by fastforce
  have s': "(r, s') = (if bOperState s then (a, s\<lparr>hOperQueue := ha\<rparr>) else (b, s\<lparr>hInitQueue := hb\<rparr>))"
    using assms unfolding take_expiry_def a b by (cases "bOperState s") simp_all
  show "s' = s\<lparr>hInitQueue := hInitQueue s', hOperQueue := hOperQueue s'\<rparr>"
    "tmr_items (hInitQueue s') = (if bOperState s then tmr_items (hInitQueue s) else tl (tmr_items (hInitQueue s)))"
    "tmr_items (hOperQueue s') = (if bOperState s then tl (tmr_items (hOperQueue s)) else tmr_items (hOperQueue s))"
    "r = (if current_queue s = [] then None else Some (hd (current_queue s)))"
    using s' deq_items [OF a] deq_items [OF b]
    by (cases "bOperState s"; simp add: current_queue_def)+
qed

lemma drain_items [simp]: "tmr_items (tmr_drain h) = []"
  by (induction h rule: tmr_drain.induct) (auto simp: tmr_items_def)

section \<open>The steps keep the invariants\<close>

text \<open>The fields of the context engine, and the driver's state.\<close>

definition same_ctx :: "TTimerModule \<Rightarrow> TTimerModule \<Rightarrow> bool" where
  "same_ctx s' s \<longleftrightarrow> wl_count s' = wl_count s \<and> wl_wifi s' = wl_wifi s \<and> work_queued s' = work_queued s \<and>
     uNumClients s' = uNumClients s \<and> aClientPending s' = aClientPending s \<and>
     aClientEnabled s' = aClientEnabled s \<and> uContextId s' = uContextId s \<and> bOperState s' = bOperState s \<and>
     bContextSwitchRequired s' = bContextSwitchRequired s \<and> aClientCbFunc s' = aClientCbFunc s"

text \<open>... and the queues.\<close>

definition same_queues :: "TTimerModule \<Rightarrow> TTimerModule \<Rightarrow> bool" where
  "same_queues s' s \<longleftrightarrow> hInitQueue s' = hInitQueue s \<and> hOperQueue s' = hOperQueue s"

lemma same_take:
  assumes "take_expiry s = (r, s')"
  shows "same_ctx s' s \<and> tmrMem s' = tmrMem s"
proof -
  obtain a b where "s' = s\<lparr>hInitQueue := a, hOperQueue := b\<rparr>" using take_shape(1) [OF assms] by blast
  then show ?thesis by (simp add: same_ctx_def)
qed

lemma same_user:
  assumes "call_user (\<lambda>f h b u. u) t s = Valid s'"
  shows "same_ctx s' s \<and> same_queues s' s \<and> tmrMem s' = tmrMem s"
proof -
  obtain l where "s' = s\<lparr>tmrCalls := l\<rparr>" using user_shape [OF assms] by blast
  then show ?thesis by (simp add: same_ctx_def same_queues_def)
qed

lemma same_mem:
  assumes "s' = s\<lparr>tmrMem := tmrMem s', osTimers := osTimers s'\<rparr>"
  shows "same_ctx s' s \<and> same_queues s' s"
proof -
  obtain m k where "s' = s\<lparr>tmrMem := m, osTimers := k\<rparr>" using assms by blast
  then show ?thesis by (simp add: same_ctx_def same_queues_def)
qed

lemmas same_restart = same_mem [OF restart_shape(1)]
lemmas same_start = same_mem [OF start_shape(1)]
lemmas same_stop = same_mem [OF stop_shape(1)]

lemma same_destroy:
  assumes "tmr_DestroyTimer t s = Valid (st, s')"
  shows "same_ctx s' s \<and> same_queues s' s"
proof -
  obtain m k c where "s' = s\<lparr>tmrMem := m, osTimers := k, uTimersCount := c\<rparr>"
    using destroy_shape(1) [OF assms] by blast
  then show ?thesis by (simp add: same_ctx_def same_queues_def)
qed

lemma same_create: "same_ctx (snd (tmr_CreateTimer self mem k s)) s \<and> same_queues (snd (tmr_CreateTimer self mem k s)) s"
  by (simp add: tmr_CreateTimer_def same_ctx_def same_queues_def)

lemma same_clear: "same_ctx (tmr_ClearInitQueue s) s" "same_ctx (tmr_ClearOperQueue s) s"
  by (simp_all add: tmr_ClearInitQueue_def tmr_ClearOperQueue_def same_ctx_def)

text \<open>An invariant reads the object through these fields.\<close>

lemma lock_cong: "same_ctx s' s \<Longrightarrow> lock_inv (s', fl, tk) = lock_inv (s, fl, tk)"
  by (simp add: lock_inv_def same_ctx_def)

lemma request_cong: "same_ctx s' s \<Longrightarrow> request_inv (s', fl, tk) = request_inv (s, fl, tk)"
  by (simp add: request_inv_def same_ctx_def)

lemma timer_cong: "same_ctx s' s \<Longrightarrow> same_queues s' s \<Longrightarrow> timer_inv (s', fl, tk) = timer_inv (s, fl, tk)"
  by (simp add: timer_inv_def same_ctx_def same_queues_def current_queue_def)

lemma lock_run:
  assumes "run_step x y" "lock_inv x"
  shows "lock_inv y"
  using assms(1)
proof cases
  case (sched s st s' fl tk)
  then show ?thesis using assms(2) by (auto simp: lock_inv_def os_RequestSchedule_def split: if_splits)
next
  case (take s t s' fl i)
  then show ?thesis using assms(2) same_take [OF take(3)] by (simp add: lock_inv_def same_ctx_def)
next
  case (empty s s' fl i)
  then show ?thesis using assms(2) same_take [OF empty(3)] by (simp add: lock_inv_def same_ctx_def)
next
  case (user t s s' fl i)
  then show ?thesis using assms(2) same_user [OF user(3)] by (simp add: lock_inv_def same_ctx_def)
next
  case (restart t s s' fl i)
  then show ?thesis using assms(2) same_restart [OF restart(3)] by (simp add: lock_inv_def same_ctx_def)
qed (use assms(2) in \<open>simp add: lock_inv_def ctx_defs\<close>)+

lemma lock_env:
  assumes "env_step safe x y" "lock_inv x"
  shows "lock_inv y"
  using assms(1)
proof cases
  case (start_timer t f h ms per s s' fl tk)
  then show ?thesis using assms(2) same_start [OF start_timer(3)] by (simp add: lock_inv_def same_ctx_def)
next
  case (stop_timer t s s' fl tk)
  then show ?thesis using assms(2) same_stop [OF stop_timer(3)] by (simp add: lock_inv_def same_ctx_def)
next
  case (destroy t s tk st s' fl)
  then show ?thesis using assms(2) same_destroy [OF destroy(4)] by (simp add: lock_inv_def same_ctx_def)
next
  case (create mem s self fl tk k)
  then show ?thesis using assms(2) same_create by (simp add: lock_inv_def same_ctx_def)
qed (use assms(2) in \<open>simp add: lock_inv_def ctx_defs tmr_ClearInitQueue_def tmr_ClearOperQueue_def
    update_state_def queue_expiry_def Let_def\<close>)+

lemma ahead_Suc: "ahead (TkCall i) j \<Longrightarrow> ahead (TkAt (Suc i)) j"
  by simp

lemma request_run:
  assumes "run_step x y" "request_inv x"
  shows "request_inv y"
  using assms(1)
proof cases
  case (sched s st s' fl tk)
  then show ?thesis using assms(2) by (auto simp: request_inv_def os_RequestSchedule_def split: if_splits)
next
  case (take s t s' fl i)
  then show ?thesis using assms(2) same_take [OF take(3)] by (simp add: request_inv_def same_ctx_def)
next
  case (empty s s' fl i)
  then show ?thesis using assms(2) same_take [OF empty(3)] by (simp add: request_inv_def same_ctx_def Suc_le_eq)
next
  case (user t s s' fl i)
  then show ?thesis using assms(2) same_user [OF user(3)] by (simp add: request_inv_def same_ctx_def)
next
  case (restart t s s' fl i)
  then show ?thesis using assms(2) same_restart [OF restart(3)] by (simp add: request_inv_def same_ctx_def)
next
  case (skip i s fl)
  have "Suc i \<le> j" if "aClientPending s j \<and> aClientEnabled s j" "i \<le> j" for j
    using that skip(4) by (cases "j = i") (auto simp: task_ready_def)
  then show ?thesis using assms(2) skip by (auto simp: request_inv_def)
next
  case (clear s fl i)
  then show ?thesis using assms(2) by (auto simp: request_inv_def ctx_defs le_less)
next
  case (return s fl i)
  then show ?thesis using assms(2) by (simp add: request_inv_def Suc_le_eq)
qed (use assms(2) in \<open>auto simp: request_inv_def ctx_defs\<close>)+

lemma request_env:
  assumes "env_step safe x y" "request_inv x"
  shows "request_inv y"
  using assms(1)
proof cases
  case (start_timer t f h ms per s s' fl tk)
  then show ?thesis using assms(2) same_start [OF start_timer(3)] by (simp add: request_inv_def same_ctx_def)
next
  case (stop_timer t s s' fl tk)
  then show ?thesis using assms(2) same_stop [OF stop_timer(3)] by (simp add: request_inv_def same_ctx_def)
next
  case (destroy t s tk st s' fl)
  then show ?thesis using assms(2) same_destroy [OF destroy(4)] by (simp add: request_inv_def same_ctx_def)
next
  case (create mem s self fl tk k)
  then show ?thesis using assms(2) same_create by (simp add: request_inv_def same_ctx_def)
qed (use assms(2) in \<open>auto simp: request_inv_def ctx_defs tmr_ClearInitQueue_def tmr_ClearOperQueue_def
    update_state_def queue_expiry_def Let_def\<close>)+

lemma timer_run:
  assumes "run_step x y" "timer_inv x"
  shows "timer_inv y"
  using assms(1)
proof cases
  case (sched s st s' fl tk)
  then show ?thesis using assms(2) by (auto simp: timer_inv_def os_RequestSchedule_def current_queue_def split: if_splits)
next
  case (take s t s' fl i)
  then show ?thesis using assms(2) same_take [OF take(3)] take_shape [OF take(3)]
    by (simp add: timer_inv_def same_ctx_def)
next
  case (empty s s' fl i)
  have "current_queue s = []" using take_shape(4) [OF empty(3)] by (simp split: if_splits)
  then have "current_queue s' = []"
    using same_take [OF empty(3)] take_shape(2,3) [OF empty(3)] by (auto simp: current_queue_def same_ctx_def)
  then show ?thesis using assms(2) same_take [OF empty(3)] take_shape(2) [OF empty(3)] empty(1,2)
    by (simp add: timer_inv_def same_ctx_def)
next
  case (user t s s' fl i)
  then show ?thesis using assms(2) same_user [OF user(3)] timer_cong [of s' s fl "TkRestart i t"]
    by (simp add: timer_inv_def)
next
  case (restart t s s' fl i)
  then show ?thesis using assms(2) same_restart [OF restart(3)] timer_cong [of s' s fl "TkTimer i"]
    by (simp add: timer_inv_def)
qed (use assms(2) in \<open>auto simp: timer_inv_def ctx_defs current_queue_def\<close>)+

lemma enq_items: "tmr_items (tmr_enq s t h) = tmr_items h \<or> tmr_items (tmr_enq s t h) = tmr_items h @ [t]"
  by (auto simp: tmr_enq_def tmr_items_def split: option.splits)

lemma queue_expiry_fields [simp]:
  "uNumClients (queue_expiry t ti s) = uNumClients s" "uContextId (queue_expiry t ti s) = uContextId s"
  "aClientEnabled (queue_expiry t ti s) = aClientEnabled s" "bOperState (queue_expiry t ti s) = bOperState s"
  "bOperState s \<Longrightarrow> hInitQueue (queue_expiry t ti s) = hInitQueue s" "tmrMem (queue_expiry t ti s) = tmrMem s"
  by (simp_all add: queue_expiry_def)

lemma timer_env:
  assumes "env_step safe x y" "timer_inv x"
  shows "timer_inv y"
  using assms(1)
proof cases
  case (start_timer t f h ms per s s' fl tk)
  then show ?thesis using assms(2) same_start [OF start_timer(3)] timer_cong by blast
next
  case (stop_timer t s s' fl tk)
  then show ?thesis using assms(2) same_stop [OF stop_timer(3)] timer_cong by blast
next
  case (destroy t s tk st s' fl)
  then show ?thesis using assms(2) same_destroy [OF destroy(4)] timer_cong by blast
next
  case (create mem s self fl tk k)
  then show ?thesis using assms(2) same_create timer_cong by blast
next
  case (expire s t ti fl tk)
  then show ?thesis using assms(2) by (simp add: timer_inv_def)
next
  case (update b s fl tk)
  then show ?thesis using assms(2)
    by (cases b) (simp_all add: timer_inv_def update_state_def Let_def current_queue_def)
next
  case (clear_init s fl tk)
  then show ?thesis using assms(2) by (auto simp: timer_inv_def tmr_ClearInitQueue_def current_queue_def)
next
  case (clear_oper s fl tk)
  then show ?thesis using assms(2) by (auto simp: timer_inv_def tmr_ClearOperQueue_def current_queue_def)
next
  case (disable i s fl tk)
  then show ?thesis using assms(2) by (auto simp: timer_inv_def ctx_defs current_queue_def)
next
  case (enable i s fl tk)
  then show ?thesis using assms(2) by (auto simp: timer_inv_def ctx_defs current_queue_def)
next
  case (request i s fl tk)
  then show ?thesis using assms(2) by (auto simp: timer_inv_def)
qed

lemma tl_set: "set (tl xs) \<subseteq> set xs"
  by (cases xs) auto

lemma queued_cong: "same_queues s' s \<Longrightarrow> tmr_queued s' = tmr_queued s"
  by (simp add: same_queues_def tmr_queued_def)

lemma ctx_frames [simp]:
  "tmr_queued (set_pending i s) = tmr_queued s" "tmr_queued (os_wake_lock s) = tmr_queued s"
  "tmr_queued (os_wake_unlock s) = tmr_queued s" "tmr_queued (task_start s) = tmr_queued s"
  "tmr_queued (task_clear i s) = tmr_queued s" "tmr_queued (set_enabled i b s) = tmr_queued s"
  "tmr_queued (context_DisableClient i s) = tmr_queued s" "tmr_queued (snd (os_RequestSchedule s)) = tmr_queued s"
  "tmrMem (set_pending i s) = tmrMem s" "tmrMem (os_wake_lock s) = tmrMem s"
  "tmrMem (os_wake_unlock s) = tmrMem s" "tmrMem (task_start s) = tmrMem s"
  "tmrMem (task_clear i s) = tmrMem s" "tmrMem (set_enabled i b s) = tmrMem s"
  "tmrMem (context_DisableClient i s) = tmrMem s" "tmrMem (snd (os_RequestSchedule s)) = tmrMem s"
  by (simp_all add: tmr_queued_def ctx_defs)

lemma memory_run:
  assumes "run_step x y" "memory_inv x"
  shows "memory_inv y"
  using assms(1)
proof cases
  case (take s t s' fl i)
  have "tmr_queued s' \<subseteq> tmr_queued s"
    using take_shape(2,3) [OF take(3)] tl_set [of "tmr_items (hInitQueue s)"] tl_set [of "tmr_items (hOperQueue s)"]
    by (auto simp: tmr_queued_def split: if_splits)
  moreover have "current_queue s \<noteq> []" "t = hd (current_queue s)"
    using take_shape(4) [OF take(3)] by (auto split: if_splits)
  then have "t \<in> set (current_queue s)" by simp
  then have "t \<in> tmr_queued s" by (auto simp: current_queue_def tmr_queued_def split: if_splits)
  ultimately show ?thesis using assms(2) take same_take [OF take(3)] by (auto simp: memory_inv_def in_service_def)
next
  case (empty s s' fl i)
  have "tmr_queued s' \<subseteq> tmr_queued s"
    using take_shape(2,3) [OF empty(3)] tl_set [of "tmr_items (hInitQueue s)"] tl_set [of "tmr_items (hOperQueue s)"]
    by (auto simp: tmr_queued_def split: if_splits)
  then show ?thesis using assms(2) empty same_take [OF empty(3)] by (auto simp: memory_inv_def in_service_def)
next
  case (user t s s' fl i)
  then show ?thesis using assms(2) same_user [OF user(3)] queued_cong [of s' s]
    by (simp add: memory_inv_def in_service_def)
next
  case (restart t s s' fl i)
  then show ?thesis using assms(2) same_restart [OF restart(3)] queued_cong [of s' s] restart_shape(2) [OF restart(3)]
    by (auto simp: memory_inv_def in_service_def simp del: not_None_eq)
next
  case (sched s st s' fl tk)
  then have "s' = snd (os_RequestSchedule s)" by simp
  then show ?thesis using assms(2) sched(1,2) by (simp add: memory_inv_def)
qed (use assms(2) in \<open>simp add: memory_inv_def in_service_def\<close>)+

lemma memory_env:
  assumes "env_step True x y" "memory_inv x"
  shows "memory_inv y"
  using assms(1)
proof cases
  case (start_timer t f h ms per s s' fl tk)
  then show ?thesis using assms(2) same_start [OF start_timer(3)] queued_cong [of s' s] start_shape(2) [OF start_timer(3)]
    by (simp add: memory_inv_def del: not_None_eq)
next
  case (stop_timer t s s' fl tk)
  then show ?thesis using assms(2) same_stop [OF stop_timer(3)] queued_cong [of s' s] stop_shape(2) [OF stop_timer(3)]
    by (simp add: memory_inv_def del: not_None_eq)
next
  case (destroy t s tk st s' fl)
  have "tmrMem s' u = tmrMem s u" if "u \<in> tmr_queued s \<union> in_service tk" for u
    using destroy(3) that by (intro destroy_shape(2) [OF destroy(4)]) auto
  then show ?thesis using assms(2) destroy same_destroy [OF destroy(4)] queued_cong [of s' s]
    by (auto simp: memory_inv_def)
next
  case (create mem s self fl tk k)
  then show ?thesis using assms(2) same_create [of self mem k s]
      queued_cong [of "snd (tmr_CreateTimer self mem k s)" s]
    by (auto simp: memory_inv_def tmr_CreateTimer_def)
next
  case (expire s t ti fl tk)
  have "tmr_queued (queue_expiry t ti (s\<lparr>osTimers := k\<rparr>)) \<subseteq> insert t (tmr_queued s)" for k
    using enq_items [of "s\<lparr>osTimers := k\<rparr>" t "hInitQueue s"] enq_items [of "s\<lparr>osTimers := k\<rparr>" t "hOperQueue s"]
    by (auto simp: queue_expiry_def tmr_queued_def)
  then show ?thesis using assms(2) expire by (fastforce simp: memory_inv_def)
next
  case (update b s fl tk)
  then show ?thesis using assms(2) by (auto simp: memory_inv_def tmr_queued_def update_state_def Let_def)
next
  case (clear_init s fl tk)
  then show ?thesis using assms(2) by (auto simp: memory_inv_def tmr_queued_def tmr_ClearInitQueue_def)
next
  case (clear_oper s fl tk)
  then show ?thesis using assms(2) by (auto simp: memory_inv_def tmr_queued_def tmr_ClearOperQueue_def)
qed (use assms(2) in \<open>simp add: memory_inv_def\<close>)+

text \<open>The configuration of the engine never changes.\<close>

definition config_inv :: "RunState \<Rightarrow> bool" where
  "config_inv x = (case x of (s, fl, tk) \<Rightarrow> bContextSwitchRequired s \<and> uNumClients s \<le> 8 \<and>
     uContextId s < uNumClients s \<and>
     (\<forall>i<uNumClients s. aClientCbFunc s i = aClientCbFunc s (uContextId s) \<longrightarrow> i = uContextId s))"

lemma config_cong: "same_ctx s' s \<Longrightarrow> config_inv (s', fl', tk') = config_inv (s, fl, tk)"
  by (simp add: config_inv_def same_ctx_def)

lemma config_run:
  assumes "run_step x y" "config_inv x"
  shows "config_inv y"
  using assms(1)
proof cases
  case (sched s st s' fl tk)
  then show ?thesis using assms(2) by (auto simp: config_inv_def os_RequestSchedule_def split: if_splits)
next
  case (take s t s' fl i)
  then show ?thesis using assms(2) same_take [OF take(3)] config_cong by blast
next
  case (empty s s' fl i)
  then show ?thesis using assms(2) same_take [OF empty(3)] config_cong by blast
next
  case (user t s s' fl i)
  then show ?thesis using assms(2) same_user [OF user(3)] config_cong by blast
next
  case (restart t s s' fl i)
  then show ?thesis using assms(2) same_restart [OF restart(3)] config_cong by blast
qed (use assms(2) in \<open>simp add: config_inv_def ctx_defs\<close>)+

lemma config_env:
  assumes "env_step safe x y" "config_inv x"
  shows "config_inv y"
  using assms(1)
proof cases
  case (start_timer t f h ms per s s' fl tk)
  then show ?thesis using assms(2) same_start [OF start_timer(3)] config_cong by blast
next
  case (stop_timer t s s' fl tk)
  then show ?thesis using assms(2) same_stop [OF stop_timer(3)] config_cong by blast
next
  case (destroy t s tk st s' fl)
  then show ?thesis using assms(2) same_destroy [OF destroy(4)] config_cong by blast
next
  case (create mem s self fl tk k)
  then show ?thesis using assms(2) same_create config_cong by blast
qed (use assms(2) in \<open>simp add: config_inv_def ctx_defs tmr_ClearInitQueue_def tmr_ClearOperQueue_def
    update_state_def queue_expiry_def Let_def\<close>)+

section \<open>The functions are sequences of steps\<close>

lemma schedule_path:
  assumes "bContextSwitchRequired s"
  shows "run_step\<^sup>*\<^sup>* (s, add_mset RqLock fl, tk) (schedule_task task s, fl, tk)"
proof -
  let ?s1 = "os_wake_lock s"
  obtain st s2 where st: "os_RequestSchedule ?s1 = (st, s2)" by fastforce
  have switch: "bContextSwitchRequired ?s1" using assms by (simp add: os_wake_lock_def)
  have "run_step (s, add_mset RqLock fl, tk) (?s1, add_mset RqSched fl, tk)" by (rule run_step.lock)
  moreover have "run_step (?s1, add_mset RqSched fl, tk) (s2, if st \<noteq> TI_OK then add_mset RqUnlock fl else fl, tk)"
    by (rule run_step.sched [OF st])
  ultimately have 1: "run_step\<^sup>*\<^sup>* (s, add_mset RqLock fl, tk) (s2, if st \<noteq> TI_OK then add_mset RqUnlock fl else fl, tk)"
    by (simp add: converse_rtranclp_into_rtranclp)
  show ?thesis
  proof (cases "st = TI_OK")
    case True
    then show ?thesis using 1 switch st by (simp add: schedule_task_def Let_def)
  next
    case False
    then have "run_step\<^sup>*\<^sup>* (s, add_mset RqLock fl, tk) (s2, add_mset RqUnlock fl, tk)" using 1 by simp
    moreover have "run_step (s2, add_mset RqUnlock fl, tk) (os_wake_unlock s2, fl, tk)" by (rule run_step.unlock)
    ultimately have "run_step\<^sup>*\<^sup>* (s, add_mset RqLock fl, tk) (os_wake_unlock s2, fl, tk)" by (rule rtranclp.rtrancl_into_rtrancl)
    then show ?thesis using False switch st by (simp add: schedule_task_def Let_def)
  qed
qed

lemma request_path:
  assumes "bContextSwitchRequired s"
  shows "run_step\<^sup>*\<^sup>* (s, add_mset (RqSet i) fl, tk) (context_RequestSchedule task i s, fl, tk)"
proof -
  have "run_step (s, add_mset (RqSet i) fl, tk) (set_pending i s, add_mset RqLock fl, tk)" by (rule run_step.set)
  moreover have "bContextSwitchRequired (set_pending i s)" using assms by (simp add: set_pending_def)
  ultimately show ?thesis unfolding context_RequestSchedule_def
    by (blast intro: converse_rtranclp_into_rtranclp schedule_path)
qed

lemma check_path:
  assumes "bContextSwitchRequired s"
  shows "run_step\<^sup>*\<^sup>* (s, add_mset (EnCheck i) fl, tk) (if aClientPending s i then schedule_task task s else s, fl, tk)"
proof -
  have "run_step (s, add_mset (EnCheck i) fl, tk) (s, if aClientPending s i then add_mset RqLock fl else fl, tk)"
    by (rule run_step.check)
  then show ?thesis using schedule_path [OF assms, of fl tk task]
    by (cases "aClientPending s i") (simp_all add: converse_rtranclp_into_rtranclp)
qed

text \<open>The service of the expired timers, when they are all allocated.\<close>

lemma call_user_ok: "tmrMem s t \<noteq> None \<Longrightarrow> \<exists>s'. call_user (\<lambda>f h b u. u) t s = Valid s'"
  by (auto simp: call_user_def Let_def)

lemma restart_ok: "tmrMem s t \<noteq> None \<Longrightarrow> \<exists>s'. restart_periodic t s = Valid s'"
  by (auto simp: restart_periodic_def tmr_StartTimer_def Let_def)

lemma take_queue:
  assumes "take_expiry (s :: TTimerModule) = (r, s')"
  shows "current_queue s' = tl (current_queue s)"
  using take_shape(2,3) [OF assms] same_take [OF assms] by (auto simp: current_queue_def same_ctx_def)

lemma same_current: "same_ctx s' s \<Longrightarrow> same_queues s' s \<Longrightarrow> current_queue s' = current_queue s"
  by (simp add: same_ctx_def same_queues_def current_queue_def)

lemma same_ctx_trans: "same_ctx s'' s' \<Longrightarrow> same_ctx s' s \<Longrightarrow> same_ctx s'' s"
  by (simp add: same_ctx_def)

lemma handle_path:
  assumes "\<forall>t\<in>set (current_queue s). tmrMem s t \<noteq> None"
  shows "\<exists>s'. tmr_HandleExpiry (\<lambda>f h b u. u) s = Some (Valid s') \<and> same_ctx s' s \<and> current_queue s' = [] \<and>
    run_step\<^sup>*\<^sup>* (s, fl, TkTimer i) (s', fl, TkAt (Suc i))"
  using assms
proof (induction "current_queue s" arbitrary: s)
  case Nil
  obtain r s1 where s1: "take_expiry s = (r, s1)" by fastforce
  then have r: "take_expiry s = (None, s1)" using take_shape(4) [OF s1] Nil by simp
  then have "tmr_HandleExpiry (\<lambda>f h b u. u) s = Some (Valid s1)" by (subst tmr_HandleExpiry.simps) simp
  moreover have "run_step\<^sup>*\<^sup>* (s, fl, TkTimer i) (s1, fl, TkAt (Suc i))"
    by (rule r_into_rtranclp) (rule run_step.empty [OF r])
  ultimately show ?case using same_take [OF r] take_queue [OF r] Nil by (intro exI [of _ s1]) simp
next
  case (Cons t ts)
  obtain r s1 where s1: "take_expiry s = (r, s1)" by fastforce
  then have r: "take_expiry s = (Some t, s1)" using take_shape(4) [OF s1] Cons(2) by (metis list.sel(1) list.distinct(1))
  have c1: "same_ctx s1 s" "tmrMem s1 = tmrMem s" "current_queue s1 = ts"
    using same_take [OF r] take_queue [OF r] Cons(2) by (simp_all, metis list.sel(3))
  have "tmrMem s1 t \<noteq> None" using Cons(2,3) c1(2) by (metis list.set_intros(1))
  then obtain s2 where u: "call_user (\<lambda>f h b u. u) t s1 = Valid s2" using call_user_ok by blast
  have c2: "same_ctx s2 s1" "tmrMem s2 = tmrMem s1" "current_queue s2 = ts"
    using same_user [OF u] same_current [of s2 s1] c1(3) by simp_all
  obtain s3 where v: "restart_periodic t s2 = Valid s3"
    using restart_ok [of s2 t] c2(2) \<open>tmrMem s1 t \<noteq> None\<close> by auto
  have c3: "same_ctx s3 s2" "current_queue s3 = ts"
    using same_restart [OF v] same_current [of s3 s2] c2(3) by simp_all
  have "\<forall>u\<in>set (current_queue s3). tmrMem s3 u \<noteq> None"
  proof
    fix w assume "w \<in> set (current_queue s3)"
    then have "tmrMem s2 w \<noteq> None" using Cons(2,3) c1(2) c2(2) c3(2) by (metis list.set_intros(2))
    then show "tmrMem s3 w \<noteq> None" using restart_shape(2) [OF v, of w] by simp
  qed
  then obtain s' where s': "tmr_HandleExpiry (\<lambda>f h b u. u) s3 = Some (Valid s')" "same_ctx s' s3" "current_queue s' = []"
      "run_step\<^sup>*\<^sup>* (s3, fl, TkTimer i) (s', fl, TkAt (Suc i))"
    using Cons(1) [of s3] c3(2) by blast
  have "tmr_HandleExpiry (\<lambda>f h b u. u) s = Some (Valid s')"
    using s'(1) by (subst tmr_HandleExpiry.simps) (simp add: r u v)
  moreover have "run_step\<^sup>*\<^sup>* (s, fl, TkTimer i) (s', fl, TkAt (Suc i))"
    using run_step.take [OF r, of fl i] run_step.user [OF u, of fl i] run_step.restart [OF v, of fl i] s'(4)
    by (meson converse_rtranclp_into_rtranclp)
  ultimately show ?case using s'(2,3) c1(1) c2(1) c3(1) same_ctx_trans by blast
qed

text \<open>One round of the task, and its run.\<close>

definition task_ok :: "TTimerModule \<Rightarrow> bool" where
  "task_ok s \<longleftrightarrow> config_inv (s, {#}, TkIdle) \<and> (\<forall>t\<in>set (current_queue s). tmrMem s t \<noteq> None)"

lemma round_path:
  assumes "task_ok s" "i < uNumClients s"
  shows "task_ok (task_round driver_cb i s) \<and> uNumClients (task_round driver_cb i s) = uNumClients s \<and>
    run_step\<^sup>*\<^sup>* (s, fl, TkAt i) (task_round driver_cb i s, fl, TkAt (Suc i))"
proof (cases "task_ready i s")
  case False
  then have "task_round driver_cb i s = s" by (simp add: task_round_def)
  then show ?thesis using assms run_step.skip [OF assms(2) False, of fl] by auto
next
  case True
  let ?s = "task_clear i s"
  have c: "config_inv (?s, {#}, TkIdle)" "current_queue ?s = current_queue s" "tmrMem ?s = tmrMem s"
      "uNumClients ?s = uNumClients s" "uContextId ?s = uContextId s" "aClientCbFunc ?s = aClientCbFunc s"
    using assms(1) by (simp_all add: task_ok_def config_inv_def task_clear_def current_queue_def)
  have r: "run_step\<^sup>*\<^sup>* (s, fl, TkAt i) (?s, fl, if i = uContextId s then TkTimer i else TkCall i)"
    using run_step.ready [OF assms(2) True, of fl] run_step.clear [of s fl i]
    by (meson converse_rtranclp_into_rtranclp r_into_rtranclp)
  have round: "task_round driver_cb i s = driver_cb (aClientCbFunc s i) (aClientCbHndl ?s i) ?s"
    using assms(2) True by (simp add: task_round_def Let_def c(6))
  show ?thesis
  proof (cases "i = uContextId s")
    case True
    obtain s' where s': "tmr_HandleExpiry (\<lambda>f h b u. u) ?s = Some (Valid s')" "same_ctx s' ?s" "current_queue s' = []"
        "run_step\<^sup>*\<^sup>* (?s, fl, TkTimer i) (s', fl, TkAt (Suc i))"
      using handle_path [of ?s fl i] assms(1) c(2,3) by (auto simp: task_ok_def)
    have "aClientCbFunc s i = aClientCbFunc ?s (uContextId ?s)" using c(5,6) True by simp
    then have "task_round driver_cb i s = s'" unfolding round driver_cb_def using s'(1) by simp
    moreover have "task_ok s'" using s'(2,3) c(1) config_cong by (simp add: task_ok_def) blast
    moreover have "uNumClients s' = uNumClients s" using s'(2) c(4) by (simp add: same_ctx_def)
    ultimately show ?thesis using r s'(4) True by simp
  next
    case False
    then have "aClientCbFunc s i \<noteq> aClientCbFunc ?s (uContextId ?s)"
      using assms c(5,6) by (auto simp: task_ok_def config_inv_def)
    then have "task_round driver_cb i s = ?s" unfolding round driver_cb_def by (rule if_not_P)
    moreover have "run_step (?s, fl, TkCall i) (?s, fl, TkAt (Suc i))" by (rule run_step.return)
    ultimately show ?thesis using r False assms(1) c by (auto simp: task_ok_def)
  qed
qed

lemma rounds_path:
  assumes "task_ok s" "i \<le> uNumClients s"
  shows "uNumClients (fold (task_round driver_cb) [i..<8] s) = uNumClients s \<and>
    run_step\<^sup>*\<^sup>* (s, fl, TkAt i) (fold (task_round driver_cb) [i..<8] s, fl, TkAt (uNumClients s))"
  using assms
proof (induction "8 - i" arbitrary: i s)
  case 0
  then have "i = uNumClients s" "\<not> i < 8" by (auto simp: task_ok_def config_inv_def)
  then show ?case by simp
next
  case (Suc n)
  then have i: "[i..<8] = i # [Suc i..<8]" by (simp add: upt_conv_Cons)
  show ?case
  proof (cases "i < uNumClients s")
    case True
    note r = round_path [OF Suc(3) True, of fl]
    then show ?thesis using Suc(1) [of "Suc i" "task_round driver_cb i s"] Suc(2) True unfolding i
      by (auto intro: rtranclp_trans)
  next
    case False
    have none: "fold (task_round driver_cb) xs s = s" if "\<forall>j\<in>set xs. uNumClients s \<le> j" for xs
      using that by (induction xs) (simp_all add: task_round_def)
    have "fold (task_round driver_cb) [i..<8] s = s" using False by (intro none) simp
    then show ?thesis using False Suc(4) by simp
  qed
qed

lemma task_path:
  assumes "task_ok s" "work_queued s"
  shows "run_step\<^sup>*\<^sup>* (s, fl, TkIdle) (wlanDrvIf_DriverTask driver_cb s, fl, TkIdle)"
proof -
  let ?s = "task_start s"
  define s' where "s' = fold (task_round driver_cb) [0..<8] ?s"
  have ok: "task_ok ?s" using assms(1) by (simp add: task_ok_def config_inv_def task_start_def current_queue_def)
  have 1: "run_step (s, fl, TkIdle) (?s, fl, TkAt 0)" by (rule run_step.start [OF assms(2)])
  have 2: "uNumClients s' = uNumClients ?s" "run_step\<^sup>*\<^sup>* (?s, fl, TkAt 0) (s', fl, TkAt (uNumClients ?s))"
    using rounds_path [OF ok le0, of fl] unfolding s'_def by (rule conjunct1, rule conjunct2)
  have 3: "run_step (s', fl, TkAt (uNumClients ?s)) (os_wake_unlock s', fl, TkIdle)"
    using 2(1) by (intro run_step.finish) simp
  have "wlanDrvIf_DriverTask driver_cb s = os_wake_unlock s'"
    unfolding wlanDrvIf_DriverTask_def context_DriverTask_def MAX_CLIENTS_def s'_def by (rule refl)
  then show ?thesis using converse_rtranclp_into_rtranclp [of run_step, OF 1 2(2)] 3
    by (simp add: rtranclp.rtrancl_into_rtrancl)
qed

text \<open>Every function is one event, if any, and then only actions of what is under way.\<close>

definition engine_path :: "RunState \<Rightarrow> RunState \<Rightarrow> bool" where
  "engine_path x y \<longleftrightarrow> (\<exists>z. (z = x \<or> env_step True x z) \<and> run_step\<^sup>*\<^sup>* z y)"

lemma engine_pathI: "env_step True x z \<Longrightarrow> run_step\<^sup>*\<^sup>* z y \<Longrightarrow> engine_path x y"
  unfolding engine_path_def by blast

lemma engine_path_run: "run_step\<^sup>*\<^sup>* x y \<Longrightarrow> engine_path x y"
  unfolding engine_path_def by blast

lemma call_path:
  assumes "call_step x y" "config_inv x"
  shows "engine_path x y"
  using assms(1)
proof cases
  case (call_request i s fl tk task)
  then have "run_step\<^sup>*\<^sup>* (s, add_mset (RqSet i) fl, tk) y"
    using request_path assms(2) by (simp add: config_inv_def)
  with env_step.request [OF call_request(3)] show ?thesis unfolding call_request(1) by (rule engine_pathI)
next
  case (call_enable i s fl tk task)
  show ?thesis
  proof (cases "aClientEnabled s i")
    case True
    then have "y = x" using call_enable by (simp add: context_EnableClient_def)
    then show ?thesis by (simp add: engine_path_run)
  next
    case False
    let ?s = "set_enabled i True s"
    have "bContextSwitchRequired ?s" using call_enable(1) assms(2) by (simp add: config_inv_def set_enabled_def)
    from check_path [OF this, of i fl tk task] have "run_step\<^sup>*\<^sup>* (?s, add_mset (EnCheck i) fl, tk) y"
      using False call_enable(2) by (simp add: context_EnableClient_def Let_def)
    with env_step.enable [OF call_enable(3) False] show ?thesis unfolding call_enable(1) by (rule engine_pathI)
  qed
next
  case (call_update s fl tk task b)
  show ?thesis
  proof (cases "b = bOperState s")
    case True
    then have "y = x" using call_update by (simp add: tmr_UpdateDriverState_def)
    then show ?thesis by (simp add: engine_path_run)
  next
    case False
    let ?s = "update_state b s"
    have c: "bContextSwitchRequired ?s" "uContextId ?s = uContextId s"
      using call_update(1) assms(2) by (simp_all add: config_inv_def update_state_def Let_def)
    have "run_step\<^sup>*\<^sup>* (?s, if b then add_mset (RqSet (uContextId s)) fl else fl, tk) y"
      using request_path [OF c(1), of "uContextId s" fl tk task] False call_update(2) c(2)
      by (cases b) (simp_all add: tmr_UpdateDriverState_def Let_def)
    with env_step.update [OF False] show ?thesis unfolding call_update(1) by (rule engine_pathI)
  qed
next
  case (call_expire s t ti task s' fl tk)
  let ?s = "queue_expiry t ti (s\<lparr>osTimers := (osTimers s)(hOsTimerObj ti := None)\<rparr>)"
  have c: "bContextSwitchRequired ?s" "uContextId ?s = uContextId s"
    using call_expire(1) assms(2) by (simp_all add: config_inv_def queue_expiry_def)
  have "run_step\<^sup>*\<^sup>* (?s, add_mset (RqSet (uContextId s)) fl, tk) y"
    using request_path [OF c(1), of "uContextId s" fl tk task] call_expire(2-4,6) c(2)
    by (simp add: tmr_GetExpiry_def Let_def)
  with env_step.expire [OF call_expire(3-5)] show ?thesis unfolding call_expire(1) by (rule engine_pathI)
next
  case (call_task s fl)
  then have "task_ok s" using assms(2) by (simp add: task_ok_def config_inv_def)
  from task_path [OF this call_task(3)] show ?thesis unfolding call_task(1,2) by (rule engine_path_run)
qed

lemma env_step_weaken: "env_step True x y \<Longrightarrow> env_step safe x y"
  by (induction rule: env_step.induct) (blast intro: env_step.intros)+

lemma run_path_inv:
  assumes "run_step\<^sup>*\<^sup>* x y" "P x" "\<And>a b. run_step a b \<Longrightarrow> P a \<Longrightarrow> P b"
  shows "P y"
  using assms by (induction rule: rtranclp_induct) blast+

definition run_inv :: "RunState \<Rightarrow> bool" where
  "run_inv x \<longleftrightarrow> lock_inv x \<and> request_inv x \<and> timer_inv x \<and> config_inv x"

lemma run_inv_step: "run_step x y \<Longrightarrow> run_inv x \<Longrightarrow> run_inv y"
  by (simp add: run_inv_def lock_run request_run timer_run config_run)

lemma run_inv_env: "env_step safe x y \<Longrightarrow> run_inv x \<Longrightarrow> run_inv y"
  by (simp add: run_inv_def lock_env request_env timer_env config_env)

lemma run_inv_call:
  assumes "call_step x y" "run_inv x"
  shows "run_inv y"
proof -
  obtain z where z: "z = x \<or> env_step True x z" "run_step\<^sup>*\<^sup>* z y"
    using call_path [OF assms(1)] assms(2) unfolding run_inv_def engine_path_def by blast
  then have "run_inv z" using assms(2) run_inv_env by blast
  with z(2) show ?thesis by (rule run_path_inv) (rule run_inv_step)
qed

lemma run_inv_start: "run_start s \<Longrightarrow> run_inv (s, {#}, TkIdle)"
  by (simp add: run_inv_def run_start_def lock_inv_def request_inv_def timer_inv_def config_inv_def
      current_queue_def tmr_queued_def in_service_def MAX_CLIENTS_def)

lemma reach_run_inv: "run_reach safe x \<Longrightarrow> run_inv x"
  by (induction rule: run_reach.induct) (blast intro: run_inv_start run_inv_step run_inv_env run_inv_call)+

text \<open>With orderly destruction no timer that waits or is served is freed.\<close>

lemma reach_memory: "run_reach True x \<Longrightarrow> memory_inv x"
proof (induction rule: run_reach.induct)
  case (run_init s)
  then show ?case by (simp add: memory_inv_def run_start_def tmr_queued_def in_service_def)
next
  case (run_run x y)
  then show ?case using memory_run by blast
next
  case (run_env x y)
  then show ?case using memory_env by blast
next
  case (run_call x y)
  have "config_inv x" using reach_run_inv [OF run_call(1)] by (simp add: run_inv_def)
  then obtain z where z: "z = x \<or> env_step True x z" "run_step\<^sup>*\<^sup>* z y"
    using call_path [OF run_call(2)] unfolding engine_path_def by blast
  then have "memory_inv z" using run_call(3) memory_env by blast
  with z(2) show ?case by (rule run_path_inv) (rule memory_run)
qed

end
