(* ===== verification/WlTimerProps.thy ===== *)
theory WlTimerProps
  imports WlTimerRun
begin

text \<open>
  The properties of the context engine and the timer module together: the engine always comes to rest,
  at rest no request and no expired timer is left and the system may sleep, and before it may not; what
  the service of expired timers does, also across a recovery and for a timer that was destroyed.
\<close>

section \<open>The engine comes to rest\<close>

definition at_rest :: "RunState \<Rightarrow> bool" where
  "at_rest x = (case x of (s, fl, tk) \<Rightarrow> fl = {#} \<and> tk = TkIdle \<and> \<not> work_queued s)"

text \<open>How often the task may still be started, and how far everything under way is from its end.\<close>

fun may_start :: "ReqPc \<Rightarrow> nat" where
  "may_start RqUnlock = 0"
| "may_start p = 1"

fun req_weight :: "ReqPc \<Rightarrow> nat" where
  "req_weight (RqSet i) = 4"
| "req_weight (EnCheck i) = 4"
| "req_weight RqLock = 3"
| "req_weight RqSched = 2"
| "req_weight RqUnlock = 1"

fun task_weight :: "nat \<Rightarrow> TaskPc \<Rightarrow> nat" where
  "task_weight n TkIdle = 0"
| "task_weight n (TkAt i) = 3 * (if i < n then 4 * (n - i) + 4 else 1)"
| "task_weight n (TkClear i) = 3 * (4 * (n - i) + 3)"
| "task_weight n (TkCall i) = 3 * (4 * (n - i) + 2)"
| "task_weight n (TkTimer i) = 3 * (4 * (n - i) + 2)"
| "task_weight n (TkUser i t) = 3 * (4 * (n - i) + 2) + 2"
| "task_weight n (TkRestart i t) = 3 * (4 * (n - i) + 2) + 1"

definition starts_left :: "RunState \<Rightarrow> nat" where
  "starts_left x = (case x of (s, fl, tk) \<Rightarrow>
     (\<Sum>p\<in>#fl. may_start p) + (if work_queued s then 1 else 0))"

definition work_left :: "RunState \<Rightarrow> nat" where
  "work_left x = (case x of (s, fl, tk) \<Rightarrow> (\<Sum>p\<in>#fl. req_weight p) + task_weight (uNumClients s) tk +
     3 * (length (tmr_items (hInitQueue s)) + length (tmr_items (hOperQueue s))))"

definition run_order :: "(RunState \<times> RunState) set" where
  "run_order = measures [starts_left, work_left]"

lemma wf_run_order: "wf run_order"
  by (simp add: run_order_def)

lemma same_queues_items:
  "same_queues s' s \<Longrightarrow> tmr_items (hInitQueue s') = tmr_items (hInitQueue s) \<and>
    tmr_items (hOperQueue s') = tmr_items (hOperQueue s)"
  by (simp add: same_queues_def)

lemma next_client_weight:
  "i < n \<Longrightarrow> task_weight n (TkAt (Suc i)) < task_weight n (TkAt i)"
  "task_weight n (TkAt (Suc i)) < task_weight n (TkCall i)"
  "task_weight n (TkAt (Suc i)) < task_weight n (TkTimer i)"
proof -
  have "Suc i < n \<Longrightarrow> n - i = Suc (n - Suc i)" by simp
  then show "i < n \<Longrightarrow> task_weight n (TkAt (Suc i)) < task_weight n (TkAt i)"
    "task_weight n (TkAt (Suc i)) < task_weight n (TkCall i)"
    "task_weight n (TkAt (Suc i)) < task_weight n (TkTimer i)"
    by (cases "Suc i < n"; simp)+
qed

lemma run_decreases:
  assumes "run_step x y"
  shows "(y, x) \<in> run_order"
  using assms
proof cases
  case (sched s st s' fl tk)
  then show ?thesis
    by (auto simp: run_order_def starts_left_def work_left_def os_RequestSchedule_def split: if_splits)
next
  case (take s t s' fl i)
  have "current_queue s \<noteq> []" using take_shape(4) [OF take(3)] by (auto split: if_splits)
  then have "length (tmr_items (hInitQueue s)) + length (tmr_items (hOperQueue s)) =
      Suc (length (tmr_items (hInitQueue s')) + length (tmr_items (hOperQueue s')))"
    using take_shape(2,3) [OF take(3)] by (auto simp: current_queue_def)
  then show ?thesis using take same_take [OF take(3)]
    by (simp add: run_order_def starts_left_def work_left_def same_ctx_def)
next
  case (empty s s' fl i)
  have "current_queue s = []" using take_shape(4) [OF empty(3)] by (simp split: if_splits)
  then have "length (tmr_items (hInitQueue s')) = length (tmr_items (hInitQueue s))"
    "length (tmr_items (hOperQueue s')) = length (tmr_items (hOperQueue s))"
    using take_shape(2,3) [OF empty(3)] by (auto simp: current_queue_def split: if_splits)
  then show ?thesis using empty same_take [OF empty(3)] next_client_weight(3) [of "uNumClients s" i]
    by (simp add: run_order_def starts_left_def work_left_def same_ctx_def del: task_weight.simps)
next
  case (user t s s' fl i)
  then show ?thesis using same_user [OF user(3)] same_queues_items [of s' s]
    by (simp add: run_order_def starts_left_def work_left_def same_ctx_def)
next
  case (restart t s s' fl i)
  then show ?thesis using same_restart [OF restart(3)] same_queues_items [of s' s]
    by (simp add: run_order_def starts_left_def work_left_def same_ctx_def)
next
  case (skip i s fl)
  then show ?thesis using next_client_weight(1) [of i "uNumClients s"]
    by (simp add: run_order_def starts_left_def work_left_def del: task_weight.simps)
next
  case (return s fl i)
  then show ?thesis using next_client_weight(2) [of "uNumClients s" i]
    by (simp add: run_order_def starts_left_def work_left_def del: task_weight.simps)
qed (simp add: run_order_def starts_left_def work_left_def ctx_defs)+

text \<open>The task is about to read a timer that was freed.\<close>

definition reads_freed :: "RunState \<Rightarrow> bool" where
  "reads_freed x = (case x of (s, fl, tk) \<Rightarrow> \<exists>t\<in>in_service tk. tmrMem s t = None)"

lemma task_can_step:
  assumes "\<not> reads_freed (s, fl, tk)" "tk \<noteq> TkIdle"
  shows "\<exists>y. run_step (s, fl, tk) y"
proof (cases tk)
  case (TkAt i)
  then show ?thesis
    by (cases "i < uNumClients s"; cases "task_ready i s") (blast intro: run_step.intros)+
next
  case (TkTimer i)
  obtain r s' where "take_expiry s = (r, s')" by fastforce
  then show ?thesis using TkTimer by (cases r) (blast intro: run_step.intros)+
next
  case (TkUser i t)
  then have "tmrMem s t \<noteq> None" using assms(1) by (simp add: reads_freed_def in_service_def)
  then show ?thesis using call_user_ok TkUser by (blast intro: run_step.intros)
next
  case (TkRestart i t)
  then have "tmrMem s t \<noteq> None" using assms(1) by (simp add: reads_freed_def in_service_def)
  then show ?thesis using restart_ok TkRestart by (blast intro: run_step.intros)
qed (use assms(2) in \<open>blast intro: run_step.intros\<close>)+

lemma request_can_step: "\<exists>y. run_step (s, add_mset p fl, tk) y"
proof (cases p)
  case RqSched
  obtain st s' where "os_RequestSchedule s = (st, s')" by fastforce
  then show ?thesis using RqSched by (blast intro: run_step.intros)
qed (blast intro: run_step.intros)+

lemma can_step:
  assumes "\<not> reads_freed x" "\<not> at_rest x"
  shows "\<exists>y. run_step x y"
proof -
  obtain s fl tk where x: "x = (s, fl, tk)" by (cases x) auto
  consider p fl' where "fl = add_mset p fl'" | "tk \<noteq> TkIdle" | "fl = {#}" "tk = TkIdle" "work_queued s"
    using assms(2) x by (cases fl) (auto simp: at_rest_def)
  then show ?thesis
  proof cases
    case 1
    then show ?thesis unfolding x by (simp only: request_can_step)
  next
    case 2
    then show ?thesis using assms(1) unfolding x by (intro task_can_step)
  next
    case 3
    then show ?thesis unfolding x by (blast intro: run_step.start)
  qed
qed

lemma reach_not_freed: "run_reach True x \<Longrightarrow> \<not> reads_freed x"
  using reach_memory [of x] by (cases x) (auto simp: memory_inv_def reads_freed_def)

lemma run_order_accp: "Wellfounded.accp (\<lambda>y x. run_step x y) x"
proof (induction x rule: wf_induct_rule [OF wf_run_order])
  case (1 x)
  show ?case by (rule accpI) (use 1 run_decreases in blast)
qed

text \<open>A rest is reached, as long as no new event begins.\<close>

lemma reaches_rest:
  assumes "run_reach True x"
  shows "\<exists>y. run_step\<^sup>*\<^sup>* x y \<and> run_reach True y \<and> at_rest y"
  using assms
proof (induction x rule: wf_induct_rule [OF wf_run_order])
  case (1 x)
  show ?case
  proof (cases "at_rest x")
    case True
    then show ?thesis using 1(2) by blast
  next
    case False
    then obtain z where z: "run_step x z" using can_step [of x] reach_not_freed [OF 1(2)] by blast
    then have "run_reach True z" using 1(2) by (blast intro: run_run)
    then obtain y where "run_step\<^sup>*\<^sup>* z y" "run_reach True y" "at_rest y" using 1(1) run_decreases [OF z] by blast
    with z show ?thesis by (blast intro: converse_rtranclp_into_rtranclp)
  qed
qed

text \<open>A run of the task, as a whole.\<close>

lemma reach_task_path:
  assumes "run_reach True (s, fl, TkIdle)" "work_queued s"
  shows "run_step\<^sup>*\<^sup>* (s, fl, TkIdle) (wlanDrvIf_DriverTask driver_cb s, fl, TkIdle)"
proof (rule task_path [OF _ assms(2)])
  have "set (current_queue s) \<subseteq> tmr_queued s" by (auto simp: current_queue_def tmr_queued_def)
  then show "task_ok s" using reach_run_inv [OF assms(1)] reach_memory [OF assms(1)]
    by (auto simp: task_ok_def run_inv_def config_inv_def memory_inv_def)
qed

text \<open>A module with the timer client only, and a state in which a timer has expired.\<close>

definition mod0 :: TTimerModule where
  "mod0 = \<lparr>ctx_hOs = 1, ctx_hReport = 1, bContextSwitchRequired = True, hProtectionLock = 1, uNumClients = 1,
     aClientCbFunc = (\<lambda>i. 1), aClientCbHndl = (\<lambda>i. 1), aClientEnabled = (\<lambda>i. True), aClientPending = (\<lambda>i. False),
     aClientName = (\<lambda>i. \<lparr>uSize = 0, sName = []\<rparr>), aRequestCount = (\<lambda>i. 0), aInvokeCount = (\<lambda>i. 0),
     wl_count = 0, wl_wifi = False, work_queued = False,
     tmr_hOs = 1, tmr_hReport = 1, tmr_hContext = 1, uContextId = 0, hInitQueue = Some [], hOperQueue = Some [],
     bOperState = False, uTwdInitCount = 0, uTimersCount = 0, tmrMem = (\<lambda>t. None), osTimers = (\<lambda>x. None),
     tmrCalls = []\<rparr>"

definition tmr0 :: TTimerInfo where
  "tmr0 = \<lparr>hTimerModule = 1, hOsTimerObj = 9, fExpiryCbFunc = 5, hExpiryCbHndl = 6, uIntervalMsec = 50,
     bPeriodic = False, bOperStateWhenStarted = False, uTwdInitCountWhenStarted = 0\<rparr>"

definition mod1 :: TTimerModule where
  "mod1 = mod0\<lparr>uTimersCount := 1, tmrMem := [7 \<mapsto> tmr0], osTimers := [9 \<mapsto> 50]\<rparr>"

definition mod2 :: TTimerModule where
  "mod2 = mod1\<lparr>osTimers := (\<lambda>x. None), hInitQueue := Some [7]\<rparr>"

lemma reach_mod1: "run_reach safe (mod1, {#}, TkIdle)"
proof -
  have "run_reach safe (mod0, {#}, TkIdle)"
    by (rule run_init) (simp add: run_start_def mod0_def MAX_CLIENTS_def tmr_items_def)
  moreover have "env_step safe (mod0, {#}, TkIdle) (snd (tmr_CreateTimer 1 7 9 mod0), {#}, TkIdle)"
    by (rule env_step.create) (simp_all add: mod0_def)
  ultimately have "run_reach safe (snd (tmr_CreateTimer 1 7 9 mod0), {#}, TkIdle)" by (rule run_env)
  moreover have "tmr_StartTimer 7 5 6 50 False (snd (tmr_CreateTimer 1 7 9 mod0)) = Valid mod1"
    by (simp add: tmr_StartTimer_def tmr_CreateTimer_def mod1_def tmr0_def zero_timer_def mod0_def)
  then have "env_step safe (snd (tmr_CreateTimer 1 7 9 mod0), {#}, TkIdle) (mod1, {#}, TkIdle)"
    by (rule env_step.start_timer)
  ultimately show ?thesis by (rule run_env)
qed

lemma reach_mod2: "run_reach safe (mod2, {#RqSet 0#}, TkIdle)"
proof -
  have ex: "queue_expiry 7 tmr0 (mod1\<lparr>osTimers := (osTimers mod1)(hOsTimerObj tmr0 := None)\<rparr>) = mod2"
    by (simp add: queue_expiry_def mod2_def mod1_def mod0_def tmr0_def tmr_enq_def tmr_queued_def tmr_items_def fun_eq_iff)
  have "env_step safe (mod1, {#}, TkIdle)
      (queue_expiry 7 tmr0 (mod1\<lparr>osTimers := (osTimers mod1)(hOsTimerObj tmr0 := None)\<rparr>),
       add_mset (RqSet (uContextId mod1)) {#}, TkIdle)"
    by (rule env_step.expire) (simp_all add: mod1_def tmr0_def mod0_def)
  moreover have "uContextId mod1 = 0" by (simp add: mod1_def mod0_def)
  ultimately have "env_step safe (mod1, {#}, TkIdle) (mod2, {#RqSet 0#}, TkIdle)" by (simp only: ex)
  with reach_mod1 show ?thesis by (rule run_env)
qed

text \<open>The state after a request for the driver's task.\<close>

lemma reach_request_mod2: "run_reach safe (context_RequestSchedule (\<lambda>u. u) 0 mod2, {#RqSet 0#}, TkIdle)"
proof -
  have "0 < uNumClients mod2" by (simp add: mod2_def mod1_def mod0_def)
  from call_request [OF this] show ?thesis by (rule run_call [OF reach_mod2])
qed

text \<open>
  C39. The functions of the context engine and of the timer module are what interleaves: in every
  reachable state, a request for the task, the enabling of a client, a change of the driver's state, the
  expiry of a timer, and a run of the task with the service of the timers in it, each done as a whole by
  its function, is the beginning of one event, or of none, and then only single actions of what is under
  way, and leaves no action of its own behind.
\<close>
theorem engine_calls_refine:
  assumes "run_reach safe x" "call_step x y"
  shows "\<exists>z. (z = x \<or> env_step True x z) \<and> run_step\<^sup>*\<^sup>* z y \<and> fst (snd y) = fst (snd x)"
proof -
  have "config_inv x" using reach_run_inv [OF assms(1)] by (simp add: run_inv_def)
  moreover have "fst (snd y) = fst (snd x)" using assms(2) by cases simp_all
  ultimately show ?thesis using call_path [OF assms(2)] unfolding engine_path_def by blast
qed

theorem engine_calls_refine_witness:
  "\<exists>z. run_step\<^sup>*\<^sup>* z (context_RequestSchedule (\<lambda>u. u) 0 mod2, {#RqSet 0#}, TkIdle) \<and>
    (z = (mod2, {#RqSet 0#}, TkIdle) \<or> env_step True (mod2, {#RqSet 0#}, TkIdle) z)"
proof -
  have "0 < uNumClients mod2" by (simp add: mod2_def mod1_def mod0_def)
  from engine_calls_refine [OF reach_mod2 call_request [OF this]] show ?thesis by blast
qed

text \<open>
  C18. The engine always comes to rest: from every reachable state, however requests, expiries and the
  task interleaved, every sequence of its steps ends when no new event begins, and it can only end with
  no request under way, the task not running and not asked for; or where the task is about to read a
  timer that was freed. The latter needs a timer that was destroyed while it waited for its callback or
  was in it, which \<open>tmr_DestroyTimer\<close> allows; when none is, it does not occur, and a run of the driver's
  task, with the loop over the expired timers, is such a sequence of steps: it returns.
\<close>
theorem engine_comes_to_rest:
  assumes "run_reach safe (s, fl, tk)"
  shows "Wellfounded.accp (\<lambda>y x. run_step x y) (s, fl, tk) \<and>
    (at_rest (s, fl, tk) \<or> (\<exists>y. run_step (s, fl, tk) y) \<or> (\<exists>t\<in>in_service tk. tmrMem s t = None)) \<and>
    (safe \<longrightarrow> \<not> (\<exists>t\<in>in_service tk. tmrMem s t = None)) \<and>
    (safe \<and> tk = TkIdle \<and> work_queued s \<longrightarrow>
      run_step\<^sup>*\<^sup>* (s, fl, TkIdle) (wlanDrvIf_DriverTask driver_cb s, fl, TkIdle))"
proof (intro conjI impI)
  show "Wellfounded.accp (\<lambda>y x. run_step x y) (s, fl, tk)" by (rule run_order_accp)
  show "at_rest (s, fl, tk) \<or> (\<exists>y. run_step (s, fl, tk) y) \<or> (\<exists>t\<in>in_service tk. tmrMem s t = None)"
    using can_step [of "(s, fl, tk)"] by (auto simp: reads_freed_def)
  show "\<not> (\<exists>t\<in>in_service tk. tmrMem s t = None)" if safe
    using reach_not_freed [of "(s, fl, tk)"] assms that by (simp add: reads_freed_def)
  show "run_step\<^sup>*\<^sup>* (s, fl, TkIdle) (wlanDrvIf_DriverTask driver_cb s, fl, TkIdle)"
    if "safe \<and> tk = TkIdle \<and> work_queued s"
    using reach_task_path [of s fl] assms that by simp
qed

theorem engine_comes_to_rest_witness:
  "Wellfounded.accp (\<lambda>y x. run_step x y) (mod2, {#RqSet 0#}, TkIdle) \<and> (\<exists>y. run_step (mod2, {#RqSet 0#}, TkIdle) y) \<and>
   run_step\<^sup>*\<^sup>* (context_RequestSchedule (\<lambda>u. u) 0 mod2, {#RqSet 0#}, TkIdle)
     (wlanDrvIf_DriverTask driver_cb (context_RequestSchedule (\<lambda>u. u) 0 mod2), {#RqSet 0#}, TkIdle)"
proof -
  have "work_queued (context_RequestSchedule (\<lambda>u. u) 0 mod2)"
    by (simp add: context_RequestSchedule_def schedule_task_def ctx_defs mod2_def mod1_def mod0_def)
  then show ?thesis
    using engine_comes_to_rest [of True, OF reach_mod2] engine_comes_to_rest [of True, OF reach_request_mod2]
    by (simp add: at_rest_def in_service_def)
qed

text \<open>
  C17. At rest nothing is lost: when no request is under way and the task is neither running nor asked
  for, no enabled client of the engine is pending, no expired timer waits in the queue of the driver's
  state, and the wake lock is released. Reachable are all states that the single actions and the
  functions as a whole lead to, whether or not waiting timers are destroyed.
\<close>
theorem engine_at_rest:
  assumes "run_reach safe (s, fl, tk)" "at_rest (s, fl, tk)"
  shows "current_queue s = [] \<and> \<not> (\<exists>i<uNumClients s. aClientPending s i \<and> aClientEnabled s i) \<and>
    wl_count s = 0 \<and> \<not> wl_wifi s"
proof -
  have inv: "lock_inv (s, {#}, TkIdle)" "request_inv (s, {#}, TkIdle)" "timer_inv (s, {#}, TkIdle)" "\<not> work_queued s"
    using reach_run_inv [OF assms(1)] assms(2) by (simp_all add: run_inv_def at_rest_def)
  have req: "\<not> (\<exists>i<uNumClients s. aClientPending s i \<and> aClientEnabled s i)"
    using inv(2,4) by (auto simp: request_inv_def)
  then have "current_queue s = []" using inv(3) by (auto simp: timer_inv_def)
  with req show ?thesis using inv(1,4) by (simp add: lock_inv_def)
qed

theorem engine_at_rest_witness:
  "\<exists>s. run_step\<^sup>*\<^sup>* (mod2, {#RqSet 0#}, TkIdle) (s, {#}, TkIdle) \<and> current_queue mod2 = [7] \<and> current_queue s = [] \<and> wl_count s = 0"
proof -
  obtain y where y: "run_step\<^sup>*\<^sup>* (mod2, {#RqSet 0#}, TkIdle) y" "run_reach True y" "at_rest y"
    using reaches_rest [OF reach_mod2] by blast
  obtain s where s: "y = (s, {#}, TkIdle)" using y(3) by (cases y) (simp add: at_rest_def)
  have "current_queue s = []" "wl_count s = 0" using engine_at_rest [of True s "{#}" TkIdle] y(2,3) s by simp_all
  moreover have "current_queue mod2 = [7]" by (simp add: current_queue_def tmr_items_def mod2_def mod1_def mod0_def)
  ultimately show ?thesis using y(1) s by blast
qed

text \<open>
  C35. The system does not sleep over an event: while the task runs or is asked for, and while an enabled
  client is pending, the wake lock is held, but for the moment in which the context that asked is about
  to take it. The lock is counted exactly: once for the queued work item, once for the running task,
  once for every request between taking the lock and its outcome. It is so in every state that the
  single actions and the functions as a whole lead to.
\<close>
theorem engine_wake_lock:
  assumes "run_reach safe (s, fl, tk)"
  shows "wl_count s = (if work_queued s then 1 else 0) + (if tk = TkIdle then 0 else 1) +
      size {#p \<in># fl. p = RqSched \<or> p = RqUnlock#} \<and>
    wl_wifi s = (0 < wl_count s) \<and>
    \<not> (\<exists>i<uNumClients s. aClientPending s i \<and> aClientEnabled s i \<and> \<not> wl_wifi s \<and>
      RqLock \<notin># fl \<and> EnCheck i \<notin># fl)"
proof -
  have inv: "lock_inv (s, fl, tk)" "request_inv (s, fl, tk)"
    using reach_run_inv [OF assms] by (simp_all add: run_inv_def)
  have "0 < wl_count s" if "i < uNumClients s" "aClientPending s i" "aClientEnabled s i" "RqLock \<notin># fl" "EnCheck i \<notin># fl" for i
  proof -
    have "work_queued s \<or> RqSched \<in># fl \<or> ahead tk i" using inv(2) that by (auto simp: request_inv_def)
    moreover have "ahead tk i \<Longrightarrow> tk \<noteq> TkIdle" by auto
    moreover have "RqSched \<in># fl \<Longrightarrow> 0 < lock_holders fl" by (auto simp: lock_holders_def dest: multi_member_split)
    ultimately show ?thesis using inv(1) by (auto simp: lock_inv_def)
  qed
  then have 1: "\<not> (\<exists>i<uNumClients s. aClientPending s i \<and> aClientEnabled s i \<and> \<not> 0 < wl_count s \<and>
      RqLock \<notin># fl \<and> EnCheck i \<notin># fl)"
    by (intro notI) (elim exE conjE, simp)
  have 2: "wl_wifi s = (0 < wl_count s)" "wl_count s = (if work_queued s then 1 else 0) +
      (if tk = TkIdle then 0 else 1) + size {#p \<in># fl. p = RqSched \<or> p = RqUnlock#}"
    using inv(1) by (simp_all add: lock_inv_def lock_holders_def)
  show ?thesis
  proof (intro conjI)
    show "\<not> (\<exists>i<uNumClients s. aClientPending s i \<and> aClientEnabled s i \<and> \<not> wl_wifi s \<and>
        RqLock \<notin># fl \<and> EnCheck i \<notin># fl)"
      using 1 unfolding 2(1) .
  qed (fact 2)+
qed

theorem engine_wake_lock_witness:
  "wl_wifi (context_RequestSchedule (\<lambda>u. u) 0 mod2) \<and> wl_count (context_RequestSchedule (\<lambda>u. u) 0 mod2) = 1 \<and>
   aClientPending (context_RequestSchedule (\<lambda>u. u) 0 mod2) 0"
proof -
  have "work_queued (context_RequestSchedule (\<lambda>u. u) 0 mod2)" "aClientPending (context_RequestSchedule (\<lambda>u. u) 0 mod2) 0"
    by (simp_all add: context_RequestSchedule_def schedule_task_def ctx_defs mod2_def mod1_def mod0_def)
  then show ?thesis using engine_wake_lock [OF reach_request_mod2] by simp
qed

section \<open>The service of expired timers\<close>

text \<open>The call that the expiry of a timer makes.\<close>

definition expiry_call :: "'a TTimerModule_scheme \<Rightarrow> addr \<Rightarrow> TmrCall" where
  "expiry_call s t = (let ti = the (tmrMem s t) in
     TmrCall t (fExpiryCbFunc ti) (hExpiryCbHndl ti) (uTwdInitCount s \<noteq> uTwdInitCountWhenStarted ti))"

text \<open>
  A callback that leaves the driver's state, the queues and the log alone, and every timer that still
  waits in a queue; it may start and stop the other timers, its own too, and create timers.
\<close>

definition orderly_cb :: "(addr \<Rightarrow> addr \<Rightarrow> bool \<Rightarrow> 'a TTimerModule_scheme \<Rightarrow> 'a TTimerModule_scheme) \<Rightarrow> bool" where
  "orderly_cb cb \<longleftrightarrow> (\<forall>f h b u. bOperState (cb f h b u) = bOperState u \<and> uTwdInitCount (cb f h b u) = uTwdInitCount u \<and>
     hInitQueue (cb f h b u) = hInitQueue u \<and> hOperQueue (cb f h b u) = hOperQueue u \<and>
     tmrCalls (cb f h b u) = tmrCalls u \<and> (\<forall>t\<in>tmr_queued u. tmrMem (cb f h b u) t = tmrMem u t) \<and>
     (\<forall>t. tmrMem u t \<noteq> None \<longrightarrow> tmrMem (cb f h b u) t \<noteq> None))"

lemma orderly_cbD:
  assumes "orderly_cb cb"
  shows "bOperState (cb f h b u) = bOperState u" "uTwdInitCount (cb f h b u) = uTwdInitCount u"
    "hInitQueue (cb f h b u) = hInitQueue u" "hOperQueue (cb f h b u) = hOperQueue u"
    "tmrCalls (cb f h b u) = tmrCalls u" "t \<in> tmr_queued u \<Longrightarrow> tmrMem (cb f h b u) t = tmrMem u t"
    "tmrMem u t \<noteq> None \<Longrightarrow> tmrMem (cb f h b u) t \<noteq> None"
  using assms unfolding orderly_cb_def by blast+

lemma orderly_id: "orderly_cb (\<lambda>f h b u. u)"
  by (simp add: orderly_cb_def)

lemma take_none:
  "current_queue s = [] \<Longrightarrow> take_expiry s = (None, s)"
  by (auto simp: take_expiry_def tmr_deq_def current_queue_def tmr_items_def split: option.splits list.splits if_splits)

lemma take_some:
  assumes "current_queue s = t # ts"
  obtains s1 where "take_expiry s = (Some t, s1)" "current_queue s1 = ts" "tmrCalls s1 = tmrCalls s" "tmrMem s1 = tmrMem s"
    "uTwdInitCount s1 = uTwdInitCount s"
proof -
  have "fst (take_expiry s) = Some t \<and> current_queue (snd (take_expiry s)) = ts \<and>
      tmrCalls (snd (take_expiry s)) = tmrCalls s \<and> tmrMem (snd (take_expiry s)) = tmrMem s \<and>
      uTwdInitCount (snd (take_expiry s)) = uTwdInitCount s"
    using assms
    by (auto simp: take_expiry_def tmr_deq_def current_queue_def tmr_items_def split: option.splits list.splits if_splits)
  then show thesis using that by (cases "take_expiry s") simp
qed

lemma current_queued: "set (current_queue s) \<subseteq> tmr_queued s"
  by (auto simp: current_queue_def tmr_queued_def)

text \<open>One turn of the loop.\<close>

lemma serve_one:
  assumes cb: "orderly_cb cb" and q: "current_queue s = t # ts" and t: "t \<notin> set ts" "tmrMem s t \<noteq> None"
  obtains s3 where "tmr_HandleExpiry cb s = tmr_HandleExpiry cb s3" "current_queue s3 = ts"
    "tmrCalls s3 = tmrCalls s @ [expiry_call s t]" "\<And>u. u \<in> set ts \<Longrightarrow> tmrMem s3 u = tmrMem s u"
    "uTwdInitCount s3 = uTwdInitCount s"
proof -
  obtain s1 where s1: "take_expiry s = (Some t, s1)" "current_queue s1 = ts" "tmrCalls s1 = tmrCalls s"
      "tmrMem s1 = tmrMem s" "uTwdInitCount s1 = uTwdInitCount s"
    using take_some [OF q] by metis
  obtain ti where ti: "tmrMem s t = Some ti" using t(2) by blast
  let ?b = "uTwdInitCount s1 \<noteq> uTwdInitCountWhenStarted ti"
  let ?u = "s1\<lparr>tmrCalls := tmrCalls s1 @ [TmrCall t (fExpiryCbFunc ti) (hExpiryCbHndl ti) ?b]\<rparr>"
  define s2 where "s2 = cb (fExpiryCbFunc ti) (hExpiryCbHndl ti) ?b ?u"
  have call: "call_user cb t s1 = Valid s2" by (simp add: call_user_def s1(4) ti s2_def Let_def)
  have queued: "tmr_queued ?u = tmr_queued s1" by (simp add: tmr_queued_def)
  have s2: "current_queue s2 = ts" "tmrCalls s2 = tmrCalls s @ [expiry_call s t]" "uTwdInitCount s2 = uTwdInitCount s"
    using orderly_cbD(1-5) [OF cb, of _ _ _ ?u] s1 ti
    by (cases "bOperState s1"; simp add: s2_def current_queue_def expiry_call_def Let_def)+
  have s2m: "tmrMem s2 u = tmrMem s u" if "u \<in> set ts" for u
  proof -
    have "u \<in> tmr_queued ?u" using that current_queued [of s1] s1(2) queued by blast
    then show ?thesis using orderly_cbD(6) [OF cb] s1(4) by (simp add: s2_def)
  qed
  have "tmrMem s2 t \<noteq> None" unfolding s2_def by (rule orderly_cbD(7) [OF cb]) (simp add: s1(4) ti)
  then obtain tj where tj: "tmrMem s2 t = Some tj" by blast
  then obtain s3 where s3: "restart_periodic t s2 = Valid s3" "current_queue s3 = current_queue s2" "tmrCalls s3 = tmrCalls s2"
      "uTwdInitCount s3 = uTwdInitCount s2" "\<And>u. u \<noteq> t \<Longrightarrow> tmrMem s3 u = tmrMem s2 u"
    by (cases "bPeriodic tj"; cases "hTimerModule tj = 0")
      (simp_all add: restart_periodic_def tmr_StartTimer_def Let_def current_queue_def)
  have "tmr_HandleExpiry cb s = tmr_HandleExpiry cb s3"
    by (subst tmr_HandleExpiry.simps) (simp add: s1(1) call s3(1))
  moreover have "tmrMem s3 u = tmrMem s u" if "u \<in> set ts" for u
    using that t(1) s3(5) s2m by metis
  ultimately show thesis using that s3(2-4) s2 by simp
qed

text \<open>
  The service of the expired timers: with callbacks that leave the waiting timers alone, the loop
  ends, every timer that waits in the queue of the driver's state has its callback called once, in the
  order of expiry, with its own function and handle and the flag that tells whether the driver was
  initialised again since the timer was started, and the queue is empty at the end.
\<close>
theorem tmr_HandleExpiry_serves:
  assumes "orderly_cb cb" "distinct (current_queue s)" "\<forall>t\<in>set (current_queue s). tmrMem s t \<noteq> None"
  shows "\<exists>s'. tmr_HandleExpiry cb s = Some (Valid s') \<and> current_queue s' = [] \<and>
    tmrCalls s' = tmrCalls s @ map (expiry_call s) (current_queue s)"
  using assms(2,3)
proof (induction "current_queue s" arbitrary: s)
  case Nil
  then show ?case using take_none [of s] by (subst tmr_HandleExpiry.simps) simp
next
  case (Cons t ts)
  have "t \<notin> set ts" "tmrMem s t \<noteq> None" using Cons(2-4) by (metis distinct.simps(2) list.set_intros(1))+
  then obtain s3 where s3: "tmr_HandleExpiry cb s = tmr_HandleExpiry cb s3" "current_queue s3 = ts"
      "tmrCalls s3 = tmrCalls s @ [expiry_call s t]" "\<And>u. u \<in> set ts \<Longrightarrow> tmrMem s3 u = tmrMem s u"
      "uTwdInitCount s3 = uTwdInitCount s"
    using serve_one [OF assms(1) Cons(2) [symmetric]] by metis
  have "distinct (current_queue s3)" "\<forall>u\<in>set (current_queue s3). tmrMem s3 u \<noteq> None"
    using Cons(2-4) s3(2,4) by (metis distinct.simps(2), metis list.set_intros(2))
  then obtain s' where s': "tmr_HandleExpiry cb s3 = Some (Valid s')" "current_queue s' = []"
      "tmrCalls s' = tmrCalls s3 @ map (expiry_call s3) ts"
    using Cons(1) [of s3] s3(2) by auto
  have "map (expiry_call s3) ts = map (expiry_call s) ts"
    using s3(4,5) by (auto simp: expiry_call_def Let_def)
  with s' s3(1,3) Cons(2) [symmetric] show ?case by simp
qed

theorem tmr_HandleExpiry_serves_witness:
  "\<exists>s'. tmr_HandleExpiry (\<lambda>f h b u. u) mod2 = Some (Valid s') \<and> tmrCalls s' = [TmrCall 7 5 6 False]"
proof -
  have "distinct (current_queue mod2)" "\<forall>t\<in>set (current_queue mod2). tmrMem mod2 t \<noteq> None"
    by (simp_all add: current_queue_def tmr_items_def mod2_def mod1_def mod0_def)
  from tmr_HandleExpiry_serves [OF orderly_id this] obtain s' where
    "tmr_HandleExpiry (\<lambda>f h b u. u) mod2 = Some (Valid s')"
    "tmrCalls s' = tmrCalls mod2 @ map (expiry_call mod2) (current_queue mod2)" by blast
  then show ?thesis
    by (simp add: current_queue_def tmr_items_def expiry_call_def mod2_def mod1_def mod0_def tmr0_def)
qed

lemma serve_alone:
  assumes "orderly_cb cb" "current_queue s = [t]" "tmrMem s t \<noteq> None"
  shows "\<exists>s'. tmr_HandleExpiry cb s = Some (Valid s') \<and> current_queue s' = [] \<and> tmrCalls s' = tmrCalls s @ [expiry_call s t]"
proof -
  obtain s3 where s3: "tmr_HandleExpiry cb s = tmr_HandleExpiry cb s3" "current_queue s3 = []"
      "tmrCalls s3 = tmrCalls s @ [expiry_call s t]"
    using serve_one [OF assms(1,2) _ assms(3)] by (metis empty_iff empty_set)
  then show ?thesis using take_none [of s3] by (subst s3(1), subst tmr_HandleExpiry.simps) simp
qed

text \<open>
  Recovery: a timer that is started while the driver is operational and expires after it has left
  this state, because the firmware is being recovered, is not served until the driver is operational
  again; then its callback is called once, and is told that the driver was initialised meanwhile.
\<close>
theorem tmr_recovery:
  assumes cb: "orderly_cb cb" and s: "tmrMem s t = Some ti" "hTimerModule ti \<noteq> 0" "bOperState s"
      "hInitQueue s = Some []" "hOperQueue s = Some []"
    and start: "tmr_StartTimer t f h ms per s = Valid s1"
  shows "\<exists>s2 s3. s2 = queue_expiry t (the (tmrMem s1 t)) (update_state False s1) \<and>
    tmr_HandleExpiry cb s2 = Some (Valid s2) \<and>
    tmr_HandleExpiry cb (update_state True s2) = Some (Valid s3) \<and>
    tmrCalls s3 = tmrCalls s @ [TmrCall t f h True]"
proof -
  let ?ti = "ti\<lparr>fExpiryCbFunc := f, hExpiryCbHndl := h, uIntervalMsec := ms, bPeriodic := per,
    bOperStateWhenStarted := True, uTwdInitCountWhenStarted := uTwdInitCount s\<rparr>"
  define s2 where "s2 = queue_expiry t (the (tmrMem s1 t)) (update_state False s1)"
  have s1: "s1 = s\<lparr>tmrMem := (tmrMem s)(t \<mapsto> ?ti), osTimers := (osTimers s)(hOsTimerObj ti \<mapsto> ms)\<rparr>"
    using start s(1-3) by (simp add: tmr_StartTimer_def Let_def)
  have s2: "hInitQueue s2 = Some []" "hOperQueue s2 = Some [t]" "\<not> bOperState s2" "tmrMem s2 t = Some ?ti"
      "uTwdInitCount s2 = uTwdInitCount s" "tmrCalls s2 = tmrCalls s"
    using s by (simp_all add: s2_def s1 queue_expiry_def update_state_def tmr_enq_def tmr_queued_def tmr_items_def Let_def)
  let ?s4 = "update_state True s2"
  have "take_expiry s2 = (None, s2)" by (rule take_none) (simp add: current_queue_def tmr_items_def s2)
  then have wait: "tmr_HandleExpiry cb s2 = Some (Valid s2)" by (subst tmr_HandleExpiry.simps) simp
  have s4: "current_queue ?s4 = [t]" "tmrMem ?s4 t \<noteq> None" "tmrCalls ?s4 = tmrCalls s"
      "expiry_call ?s4 t = TmrCall t f h True"
    using s2 by (simp_all add: update_state_def current_queue_def tmr_items_def expiry_call_def Let_def)
  obtain s3 where "tmr_HandleExpiry cb ?s4 = Some (Valid s3)" "tmrCalls s3 = tmrCalls s @ [TmrCall t f h True]"
    using serve_alone [OF cb s4(1,2)] s4(3,4) by auto
  with wait s2_def show ?thesis by blast
qed

definition mod3 :: TTimerModule where
  "mod3 = mod1\<lparr>bOperState := True, uTwdInitCount := 4294967295, osTimers := (\<lambda>x. None)\<rparr>"

theorem tmr_recovery_witness:
  "\<exists>s1 s3. tmr_StartTimer 7 5 6 50 False mod3 = Valid s1 \<and>
    tmr_HandleExpiry (\<lambda>f h b u. u)
      (update_state True (queue_expiry 7 (the (tmrMem s1 7)) (update_state False s1))) = Some (Valid s3) \<and>
    tmrCalls s3 = [TmrCall 7 5 6 True]"
proof -
  have m: "tmrMem mod3 7 = Some tmr0" "hTimerModule tmr0 \<noteq> 0" "bOperState mod3" "hInitQueue mod3 = Some []"
      "hOperQueue mod3 = Some []" "tmrCalls mod3 = []"
    by (simp_all add: mod3_def mod1_def mod0_def tmr0_def)
  obtain s1 where s1: "tmr_StartTimer 7 5 6 50 False mod3 = Valid s1"
    using m(1,2) by (simp add: tmr_StartTimer_def Let_def)
  show ?thesis using tmr_recovery [OF orderly_id m(1-5) s1] s1 m(6) by auto
qed

text \<open>
  A timer of the initialisation is dropped with it: a timer that was started before the driver became
  operational is never served in the operational state, whether it expired before the driver entered the
  state or expires after it.
\<close>
theorem tmr_init_timer_dropped:
  assumes s: "tmrMem s t = Some ti" "hTimerModule ti \<noteq> 0" "\<not> bOperState s" "hOperQueue s = Some []"
    and start: "tmr_StartTimer t f h ms per s = Valid s1"
    and late: "s2 = update_state True (queue_expiry t (the (tmrMem s1 t)) s1) \<or>
      s2 = queue_expiry t (the (tmrMem s1 t)) (update_state True s1)"
  shows "tmr_HandleExpiry cb s2 = Some (Valid s2) \<and> tmrCalls s2 = tmrCalls s"
proof -
  let ?ti = "ti\<lparr>fExpiryCbFunc := f, hExpiryCbHndl := h, uIntervalMsec := ms, bPeriodic := per,
    bOperStateWhenStarted := False, uTwdInitCountWhenStarted := uTwdInitCount s\<rparr>"
  have s1: "s1 = s\<lparr>tmrMem := (tmrMem s)(t \<mapsto> ?ti), osTimers := (osTimers s)(hOsTimerObj ti \<mapsto> ms)\<rparr>"
    using start s(1-3) by (simp add: tmr_StartTimer_def Let_def)
  have "current_queue s2 = [] \<and> tmrCalls s2 = tmrCalls s"
    using late s by (elim disjE)
      (simp_all add: s1 queue_expiry_def update_state_def current_queue_def tmr_items_def Let_def)
  then show ?thesis using take_none [of s2] by (subst tmr_HandleExpiry.simps) simp
qed

theorem tmr_init_timer_dropped_witness:
  "\<exists>s1. tmr_StartTimer 7 5 6 50 False mod1 = Valid s1 \<and>
    tmr_HandleExpiry (\<lambda>f h b u. u) (update_state True (queue_expiry 7 (the (tmrMem s1 7)) s1)) =
      Some (Valid (update_state True (queue_expiry 7 (the (tmrMem s1 7)) s1)))"
proof -
  have m: "tmrMem mod1 7 = Some tmr0" "hTimerModule tmr0 \<noteq> 0" "\<not> bOperState mod1" "hOperQueue mod1 = Some []"
    by (simp_all add: mod1_def mod0_def tmr0_def)
  obtain s1 where s1: "tmr_StartTimer 7 5 6 50 False mod1 = Valid s1"
    using m(1,2) by (simp add: tmr_StartTimer_def Let_def)
  show ?thesis using tmr_init_timer_dropped [OF m s1 disjI1 [OF refl]] s1 by blast
qed

text \<open>
  A destroyed timer is not taken out of the queue: a timer that has expired and waits first in the
  queue of the driver's state can be destroyed with success, and the service of the queue then reads the
  freed memory.
\<close>
theorem tmr_destroyed_in_queue:
  assumes "current_queue s = t # ts" "t \<noteq> 0" "tmrMem s t = Some ti" "hTimerModule ti \<noteq> 0"
  shows "\<exists>s1. tmr_DestroyTimer t s = Valid (TI_OK, s1) \<and> current_queue s1 = t # ts \<and>
    tmr_HandleExpiry cb s1 = Some Freed"
proof -
  obtain s1 where s1: "tmr_DestroyTimer t s = Valid (TI_OK, s1)" "tmrMem s1 t = None" "current_queue s1 = t # ts"
    using assms by (cases "hOsTimerObj ti = 0"; cases "bOperState s") (simp_all add: tmr_DestroyTimer_def Let_def current_queue_def)
  obtain s2 where "take_expiry s1 = (Some t, s2)" "tmrMem s2 t = None"
    using take_some [OF s1(3)] s1(2) by metis
  then have "tmr_HandleExpiry cb s1 = Some Freed"
    by (subst tmr_HandleExpiry.simps) (simp add: call_user_def)
  with s1 show ?thesis by blast
qed

theorem tmr_destroyed_in_queue_witness:
  "\<exists>s1. tmr_DestroyTimer 7 mod2 = Valid (TI_OK, s1) \<and> tmr_HandleExpiry (\<lambda>f h b u. u) s1 = Some Freed"
proof -
  have "current_queue mod2 = [7]" "(7::addr) \<noteq> 0" "tmrMem mod2 7 = Some tmr0" "hTimerModule tmr0 \<noteq> 0"
    by (simp_all add: current_queue_def tmr_items_def mod2_def mod1_def mod0_def tmr0_def)
  from tmr_destroyed_in_queue [OF this] show ?thesis by blast
qed

end
