(* ===== verification/WlTxPath.thy ===== *)
theory WlTxPath
  imports WlTxHwQueue
begin

text \<open>
  The transmit path above the firmware's queues, \<^verbatim>\<open>stad/src/Data_link\<close>: the management queues with
  their state machine (\<^verbatim>\<open>txMgmtQueue.c\<close>), the data queues (\<^verbatim>\<open>txDataQueue.c\<close>), the port that gives the path
  to one of them (\<^verbatim>\<open>txPort.c\<close>), and the part of \<^verbatim>\<open>txCtrl.c\<close> that chooses access categories, stops queues
  under backpressure and wakes them. They call each other, the accounting of the firmware's memory
  (theory \<open>WlTxHwQueue\<close>) and the table of control blocks (theory \<open>WlTxCtrlBlk\<close>), so the state is that of
  all of them. A packet is the index of its control block. Queues are lists, oldest first (theory
  \<open>WlQueue\<close>); a packet is in one queue at most. Other arrays are functions of their index.

  What is not modelled is a parameter, a field of \<open>TxEnv\<close>: the transfer to the bus, the classifier,
  the Ethernet type of the packet, and what is written into a control block when it is built. A
  request to the context engine sets a flag, \<open>mgmt_request\<close> or \<open>data_request\<close>, which the engine serves
  (theory \<open>WlTimerProps\<close>); \<open>pace_timer\<close> tells that the pacing timer runs and \<open>net_stopped\<close> that the network
  stack is stopped. \<open>sent\<close> records what is given to the transfer and is read by the transfer only.
\<close>

section \<open>The objects\<close>

definition MGMT_QUEUES_TID :: nat where "MGMT_QUEUES_TID = 7"
definition MGMT_QUEUES_DEPTH :: nat where "MGMT_QUEUES_DEPTH = 4"
definition QUEUE_TYPE_MGMT :: nat where "QUEUE_TYPE_MGMT = 0"
definition QUEUE_TYPE_EAPOL :: nat where "QUEUE_TYPE_EAPOL = 1"
definition NUM_OF_MGMT_QUEUES :: nat where "NUM_OF_MGMT_QUEUES = 2"
definition MAX_NUM_OF_802_1d_TAGS :: nat where "MAX_NUM_OF_802_1d_TAGS = 8"
definition DATA_QUEUE_DEPTH_BE :: nat where "DATA_QUEUE_DEPTH_BE = 60"
definition DATA_QUEUE_DEPTH_BK :: nat where "DATA_QUEUE_DEPTH_BK = 10"
definition DATA_QUEUE_DEPTH_VI :: nat where "DATA_QUEUE_DEPTH_VI = 32"
definition DATA_QUEUE_DEPTH_VO :: nat where "DATA_QUEUE_DEPTH_VO = 10"
definition TX_PKT_TYPE_MGMT :: TI_UINT8 where "TX_PKT_TYPE_MGMT = 1"
definition TX_PKT_TYPE_EAPOL :: TI_UINT8 where "TX_PKT_TYPE_EAPOL = 2"
definition TX_PKT_TYPE_ETHER :: TI_UINT8 where "TX_PKT_TYPE_ETHER = 3"
definition TX_CTRL_FLAG_SENT_TO_FW :: TI_UINT16 where "TX_CTRL_FLAG_SENT_TO_FW = 8"
definition ETHERTYPE_EAPOL :: TI_UINT16 where "ETHERTYPE_EAPOL = 0x888e"
definition MGMT_PKT_LIFETIME_TU :: nat where "MGMT_PKT_LIFETIME_TU = 2000"
definition SHIFT_BETWEEN_TU_AND_USEC :: nat where "SHIFT_BETWEEN_TU_AND_USEC = 10"

definition aTidToQueueTable :: "nat list" where
  "aTidToQueueTable = [0, 1, 1, 0, 2, 2, 3, 3]"

definition WMEQosAcToTid :: "TI_UINT8 list" where
  "WMEQosAcToTid = [0, 2, 4, 6]"

definition priorityOrderedAc :: "nat list" where
  "priorityOrderedAc = [QOS_AC_BK, QOS_AC_BE, QOS_AC_VI, QOS_AC_VO]"

datatype ESmEvent = SM_EVENT_CLOSE | SM_EVENT_MGMT | SM_EVENT_EAPOL | SM_EVENT_OPEN
  | SM_EVENT_QUEUES_EMPTY | SM_EVENT_QUEUES_NOT_EMPTY

datatype ESmState = SM_STATE_CLOSE | SM_STATE_MGMT | SM_STATE_EAPOL | SM_STATE_OPEN_MGMT | SM_STATE_OPEN_DATA

datatype ESmAction = SM_ACTION_NULL | SM_ACTION_ENABLE_DATA | SM_ACTION_ENABLE_MGMT | SM_ACTION_RUN_SCHEDULER

datatype ETxConnState = TX_CONN_STATE_CLOSE | TX_CONN_STATE_MGMT | TX_CONN_STATE_EAPOL | TX_CONN_STATE_OPEN

datatype EQueuesMuxState = MUX_MGMT_QUEUES | MUX_DATA_QUEUES

datatype EQueueAction = QUEUE_ACTION_NONE | QUEUE_ACTION_STOP | QUEUE_ACTION_WAKE

datatype EStatusXmit = STATUS_XMIT_SUCCESS | STATUS_XMIT_BUSY | STATUS_XMIT_ERROR

datatype ETrafficAdmState = AC_NOT_ADMITTED | AC_WAIT_ADMISSION | AC_ADMITTED

datatype EAdmissionState = ADMISSION_NOT_REQUIRED | ADMISSION_REQUIRED

record TDbgCount =
  aEnqueuePackets :: "nat \<Rightarrow> TI_UINT32"
  aDequeuePackets :: "nat \<Rightarrow> TI_UINT32"
  aRequeuePackets :: "nat \<Rightarrow> TI_UINT32"
  aDroppedPackets :: "nat \<Rightarrow> TI_UINT32"
  aXmittedPackets :: "nat \<Rightarrow> TI_UINT32"

record TTxMgmtQ =
  bMgmtPortEnable :: bool
  eSmState :: ESmState
  eTxConnState :: ETxConnState
  mq_aQueues :: "nat list list"
  mq_aQueueBusy :: "nat \<Rightarrow> bool"
  aQueueEnabledBySM :: "nat \<Rightarrow> bool"
  tDbgCounters :: TDbgCount

record TTxDataQueueDebugCnt =
  uEnqueuePacket :: TI_UINT32
  uDequeuePacket :: TI_UINT32
  uRequeuePacket :: TI_UINT32
  uXmittedPacket :: TI_UINT32
  uDroppedPacket :: TI_UINT32

record TTxDataQ =
  bDataPortEnable :: bool
  aQueueMaxSize :: "nat \<Rightarrow> nat"
  aTxSendPaceThresh :: "nat \<Rightarrow> nat"
  dq_aQueues :: "nat list list"
  dq_aQueueBusy :: "nat \<Rightarrow> bool"
  uLastQueId :: nat
  aNetStackQueueStopped :: "nat \<Rightarrow> bool"
  bStopNetStackTx :: bool
  aQueueCounters :: "nat \<Rightarrow> TTxDataQueueDebugCnt"
  uClsfrMismatchCount :: TI_UINT32
  uTxSendPaceTimeoutsCount :: TI_UINT32

record TTxPortObj =
  queuesMuxState :: EQueuesMuxState
  txSuspended :: bool
  mgmtQueueEnabled :: bool
  dataQueueEnabled :: bool

text \<open>The debug counters of \<open>txCtrl_XmitData\<close> and \<open>txCtrl_XmitMgmt\<close>.\<close>

record txDataDbgCounters_t =
  dbgNumPktsSent :: "nat \<Rightarrow> TI_UINT32"
  dbgNumPktsBackpressure :: "nat \<Rightarrow> TI_UINT32"
  dbgNumPktsBusy :: "nat \<Rightarrow> TI_UINT32"
  dbgNumPktsSuccess :: "nat \<Rightarrow> TI_UINT32"
  dbgNumPktsError :: "nat \<Rightarrow> TI_UINT32"

text \<open>The fields of the module that the modelled functions use.\<close>

record txCtrl_t =
  genericEthertype :: TI_UINT16
  busyAcBitmap :: TI_UINT32
  busyTidBitmap :: TI_UINT32
  admittedAcToTidMap :: "nat \<Rightarrow> TI_UINT32"
  highestAdmittedAc :: "nat \<Rightarrow> nat"
  admissionState :: "nat \<Rightarrow> ETrafficAdmState"
  admissionRequired :: "nat \<Rightarrow> EAdmissionState"
  dbgCounters :: txDataDbgCounters_t

text \<open>A packet given to the transfer: its type, and the state of the connection at that time.\<close>

datatype TxSent = TxSent (ts_pkt: nat) (ts_type: TI_UINT8) (ts_conn: ETxConnState)

record TxPath =
  tx_mgmt :: TTxMgmtQ
  tx_data :: TTxDataQ
  tx_port :: TTxPortObj
  tx_ctrl :: txCtrl_t
  tx_hw :: TTxHwQueue
  tx_blks :: TTxCtrlBlkObj
  mgmt_request :: bool
  data_request :: bool
  pace_timer :: bool
  net_stopped :: bool
  sent :: "TxSent list"

text \<open>
  \<open>xfer\<close> is \<open>TWD_txXfer_SendPacket\<close>, which may depend on all that was sent before; the two builders
  are given the access category and whether it is under backpressure.
\<close>

record TxEnv =
  xfer :: "TxSent list \<Rightarrow> nat \<Rightarrow> ETxnStatus"
  ether_type :: "nat \<Rightarrow> TI_UINT16"
  classify :: "nat \<Rightarrow> TI_UINT8 \<Rightarrow> TI_STATUS \<times> TI_UINT8"
  build_data :: "nat \<Rightarrow> bool \<Rightarrow> TTxCtrlBlk \<Rightarrow> TTxCtrlBlk"
  build_mgmt :: "nat \<Rightarrow> TTxCtrlBlk \<Rightarrow> TTxCtrlBlk"

section \<open>Updates of a part\<close>

definition on_mgmt :: "(TTxMgmtQ \<Rightarrow> TTxMgmtQ) \<Rightarrow> TxPath \<Rightarrow> TxPath" where
  "on_mgmt f s = s\<lparr>tx_mgmt := f (tx_mgmt s)\<rparr>"

definition on_data :: "(TTxDataQ \<Rightarrow> TTxDataQ) \<Rightarrow> TxPath \<Rightarrow> TxPath" where
  "on_data f s = s\<lparr>tx_data := f (tx_data s)\<rparr>"

definition on_ctrl :: "(txCtrl_t \<Rightarrow> txCtrl_t) \<Rightarrow> TxPath \<Rightarrow> TxPath" where
  "on_ctrl f s = s\<lparr>tx_ctrl := f (tx_ctrl s)\<rparr>"

definition on_blk :: "nat \<Rightarrow> (TTxCtrlBlk \<Rightarrow> TTxCtrlBlk) \<Rightarrow> TxPath \<Rightarrow> TxPath" where
  "on_blk p f s = s\<lparr>tx_blks := (tx_blks s)\<lparr>aTxCtrlBlkTbl :=
     (aTxCtrlBlkTbl (tx_blks s))[p := f (aTxCtrlBlkTbl (tx_blks s) ! p)]\<rparr>\<rparr>"

definition tx_blk :: "TxPath \<Rightarrow> nat \<Rightarrow> TTxCtrlBlk" where
  "tx_blk s p = aTxCtrlBlkTbl (tx_blks s) ! p"

text \<open>The fields of all control blocks that the proofs refer to.\<close>

definition tx_tids :: "TxPath \<Rightarrow> TI_UINT8 list" where
  "tx_tids s = map (\<lambda>b. td_tid (tTxDescriptor b)) (aTxCtrlBlkTbl (tx_blks s))"

definition tx_types :: "TxPath \<Rightarrow> TI_UINT8 list" where
  "tx_types s = map (\<lambda>b. uPktType (tTxPktParams b)) (aTxCtrlBlkTbl (tx_blks s))"

definition inc_at :: "nat \<Rightarrow> (nat \<Rightarrow> TI_UINT32) \<Rightarrow> nat \<Rightarrow> TI_UINT32" where
  "inc_at i f = f(i := f i + 1)"

definition count_dbg :: "(txDataDbgCounters_t \<Rightarrow> txDataDbgCounters_t) \<Rightarrow> TxPath \<Rightarrow> TxPath" where
  "count_dbg f = on_ctrl (\<lambda>c. c\<lparr>dbgCounters := f (dbgCounters c)\<rparr>)"

definition count_mgmt :: "(TDbgCount \<Rightarrow> TDbgCount) \<Rightarrow> TxPath \<Rightarrow> TxPath" where
  "count_mgmt f = on_mgmt (\<lambda>m. m\<lparr>tDbgCounters := f (tDbgCounters m)\<rparr>)"

definition count_data :: "nat \<Rightarrow> (TTxDataQueueDebugCnt \<Rightarrow> TTxDataQueueDebugCnt) \<Rightarrow> TxPath \<Rightarrow> TxPath" where
  "count_data q f = on_data (\<lambda>d. d\<lparr>aQueueCounters := (aQueueCounters d)(q := f (aQueueCounters d q))\<rparr>)"

text \<open>The queue at an index; there is none outside of the array, which the code never reads.\<close>

definition que_at :: "nat list list \<Rightarrow> nat \<Rightarrow> nat list" where
  "que_at qs i = (if i < length qs then qs ! i else [])"

definition set_mgmt_queue :: "nat \<Rightarrow> nat list \<Rightarrow> TxPath \<Rightarrow> TxPath" where
  "set_mgmt_queue i xs = on_mgmt (\<lambda>m. m\<lparr>mq_aQueues := (mq_aQueues m)[i := xs]\<rparr>)"

definition set_data_queue :: "nat \<Rightarrow> nat list \<Rightarrow> TxPath \<Rightarrow> TxPath" where
  "set_data_queue i xs = on_data (\<lambda>d. d\<lparr>dq_aQueues := (dq_aQueues d)[i := xs]\<rparr>)"

abbreviation mgmt_queue :: "TxPath \<Rightarrow> nat \<Rightarrow> nat list" where
  "mgmt_queue s i \<equiv> que_at (mq_aQueues (tx_mgmt s)) i"
abbreviation data_queue :: "TxPath \<Rightarrow> nat \<Rightarrow> nat list" where
  "data_queue s i \<equiv> que_at (dq_aQueues (tx_data s)) i"

section \<open>Backpressure of the queues\<close>

definition updateQueuesBusyMap :: "TI_UINT32 \<Rightarrow> TTxMgmtQ \<Rightarrow> TTxMgmtQ" where
  "updateQueuesBusyMap uTidBitMap m =
     (if uTidBitMap AND push_bit MGMT_QUEUES_TID 1 \<noteq> 0
      then m\<lparr>mq_aQueueBusy := (mq_aQueueBusy m)(QUEUE_TYPE_MGMT := True, QUEUE_TYPE_EAPOL := True)\<rparr>
      else m\<lparr>mq_aQueueBusy := (mq_aQueueBusy m)(QUEUE_TYPE_MGMT := False, QUEUE_TYPE_EAPOL := False)\<rparr>)"

definition txMgmtQ_StopQueue :: "TI_UINT32 \<Rightarrow> TxPath \<Rightarrow> TxPath" where
  "txMgmtQ_StopQueue uTidBitMap = on_mgmt (updateQueuesBusyMap uTidBitMap)"

definition txDataQ_UpdateQueuesBusyState :: "TI_UINT32 \<Rightarrow> TTxDataQ \<Rightarrow> TTxDataQ" where
  "txDataQ_UpdateQueuesBusyState uTidBitMap d =
     foldl (\<lambda>d uTidIdx. d\<lparr>dq_aQueueBusy := (dq_aQueueBusy d)(aTidToQueueTable ! uTidIdx :=
         drop_bit uTidIdx uTidBitMap AND 1 \<noteq> 0)\<rparr>) d [0..<MAX_NUM_OF_802_1d_TAGS]"

definition txDataQ_StopQueue :: "TI_UINT32 \<Rightarrow> TxPath \<Rightarrow> TxPath" where
  "txDataQ_StopQueue uTidBitMap = on_data (txDataQ_UpdateQueuesBusyState uTidBitMap)"

section \<open>Sending a packet\<close>

definition txCtrl_FreePacket :: "nat \<Rightarrow> TxPath \<Rightarrow> TxPath" where
  "txCtrl_FreePacket p s = s\<lparr>tx_blks := txCtrlBlk_Free (tx_blks s) p\<rparr>"

text \<open>The access category of a packet, and the packet with its TID downgraded.\<close>

definition SELECT_AC_FOR_TID :: "nat \<Rightarrow> TxPath \<Rightarrow> nat \<times> TxPath" where
  "SELECT_AC_FOR_TID p s =
     (let tid = unat (td_tid (tTxDescriptor (tx_blk s p)));
          ac = highestAdmittedAc (tx_ctrl s) (WMEQosTagToACTable ! tid)
      in if ac \<noteq> WMEQosTagToACTable ! tid
         then (ac, on_blk p (\<lambda>b. b\<lparr>tTxDescriptor := (tTxDescriptor b)\<lparr>td_tid := WMEQosAcToTid ! ac\<rparr>\<rparr>) s)
         else (ac, s))"

definition TWD_txHwQueue_AllocResources :: "nat \<Rightarrow> TxPath \<Rightarrow> ETxHwQueStatus \<times> TxPath" where
  "TWD_txHwQueue_AllocResources p s =
     (case txHwQueue_AllocResources (tx_hw s) (tTxDescriptor (tx_blk s p)) of (st, hw, d) \<Rightarrow>
        (st, on_blk p (\<lambda>b. b\<lparr>tTxDescriptor := d\<rparr>) (s\<lparr>tx_hw := hw\<rparr>)))"

text \<open>The transfer, with the record of what is given to it.\<close>

definition TWD_txXfer_SendPacket :: "TxEnv \<Rightarrow> nat \<Rightarrow> TxPath \<Rightarrow> ETxnStatus \<times> TxPath" where
  "TWD_txXfer_SendPacket e p s = (xfer e (sent s) p,
     s\<lparr>sent := sent s @ [TxSent p (uPktType (tTxPktParams (tx_blk s p))) (eTxConnState (tx_mgmt s))]\<rparr>)"

text \<open>The end of both functions: the transfer, and the release of the packet if it fails.\<close>

definition xmit_packet :: "TxEnv \<Rightarrow> nat \<Rightarrow> nat \<Rightarrow> TxPath \<Rightarrow> EStatusXmit \<times> TxPath" where
  "xmit_packet e uAc p s =
     (case TWD_txXfer_SendPacket e p s of (eStatus, s) \<Rightarrow>
        if eStatus = TXN_STATUS_ERROR
        then (STATUS_XMIT_ERROR, txCtrl_FreePacket p (count_dbg (\<lambda>c. c\<lparr>dbgNumPktsError := inc_at uAc (dbgNumPktsError c)\<rparr>) s))
        else (STATUS_XMIT_SUCCESS, count_dbg (\<lambda>c. c\<lparr>dbgNumPktsSuccess := inc_at uAc (dbgNumPktsSuccess c)\<rparr>) s))"

text \<open>\<open>stop\<close> is \<open>txDataQ_StopQueue\<close> or \<open>txMgmtQ_StopQueue\<close>, and \<open>build\<close> the builder: the two functions are the same else.\<close>

definition txCtrl_Xmit :: "TxEnv \<Rightarrow> (TI_UINT32 \<Rightarrow> TxPath \<Rightarrow> TxPath) \<Rightarrow> (nat \<Rightarrow> bool \<Rightarrow> TTxCtrlBlk \<Rightarrow> TTxCtrlBlk) \<Rightarrow>
    nat \<Rightarrow> TxPath \<Rightarrow> EStatusXmit \<times> TxPath" where
  "txCtrl_Xmit e stop build p s =
     (case SELECT_AC_FOR_TID p s of (uAc, s) \<Rightarrow>
        (case TWD_txHwQueue_AllocResources p
            (count_dbg (\<lambda>c. c\<lparr>dbgNumPktsSent := inc_at uAc (dbgNumPktsSent c)\<rparr>) s) of (eHwQueStatus, s) \<Rightarrow>
           if eHwQueStatus = TX_HW_QUE_STATUS_STOP_CURRENT
           then (STATUS_XMIT_BUSY, stop (admittedAcToTidMap (tx_ctrl s) uAc)
                   (count_dbg (\<lambda>c. c\<lparr>dbgNumPktsBusy := inc_at uAc (dbgNumPktsBusy c)\<rparr>) s))
           else
             let s1 = (if eHwQueStatus = TX_HW_QUE_STATUS_STOP_NEXT
                       then stop (admittedAcToTidMap (tx_ctrl s) uAc)
                         (on_ctrl (\<lambda>c. c\<lparr>busyAcBitmap := busyAcBitmap c OR push_bit uAc 1\<rparr>)
                           (count_dbg (\<lambda>c. c\<lparr>dbgNumPktsBackpressure := inc_at uAc (dbgNumPktsBackpressure c)\<rparr>) s))
                       else s);
                 s2 = on_blk p (build uAc (eHwQueStatus = TX_HW_QUE_STATUS_STOP_NEXT)) s1
             in xmit_packet e uAc p s2))"

definition txCtrl_XmitData :: "TxEnv \<Rightarrow> nat \<Rightarrow> TxPath \<Rightarrow> EStatusXmit \<times> TxPath" where
  "txCtrl_XmitData e = txCtrl_Xmit e txDataQ_StopQueue (build_data e)"

definition txCtrl_XmitMgmt :: "TxEnv \<Rightarrow> nat \<Rightarrow> TxPath \<Rightarrow> EStatusXmit \<times> TxPath" where
  "txCtrl_XmitMgmt e = txCtrl_Xmit e txMgmtQ_StopQueue (\<lambda>ac b. build_mgmt e ac)"

end
