(* ===== verification/WlTxQueues.thy ===== *)
theory WlTxQueues
  imports WlTxPath
begin

text \<open>
  The schedulers of the management queues (\<^verbatim>\<open>txMgmtQueue.c\<close>) and of the data queues (\<^verbatim>\<open>txDataQueue.c\<close>), and what
  sending one packet changes. The schedulers end because every round sends a packet or goes on to the
  next queue.
\<close>

section \<open>What sending changes\<close>

text \<open>What every scheduler leaves alone, and what sending a packet does, the queues too.\<close>

definition same_ctl :: "TxPath \<Rightarrow> TxPath \<Rightarrow> bool" where
  "same_ctl s' s \<longleftrightarrow> bMgmtPortEnable (tx_mgmt s') = bMgmtPortEnable (tx_mgmt s) \<and>
     eSmState (tx_mgmt s') = eSmState (tx_mgmt s) \<and> eTxConnState (tx_mgmt s') = eTxConnState (tx_mgmt s) \<and>
     aQueueEnabledBySM (tx_mgmt s') = aQueueEnabledBySM (tx_mgmt s) \<and>
     bDataPortEnable (tx_data s') = bDataPortEnable (tx_data s) \<and>
     aTxSendPaceThresh (tx_data s') = aTxSendPaceThresh (tx_data s) \<and> aQueueMaxSize (tx_data s') = aQueueMaxSize (tx_data s) \<and>
     bStopNetStackTx (tx_data s') = bStopNetStackTx (tx_data s) \<and>
     tx_port s' = tx_port s \<and> mgmt_request s' = mgmt_request s \<and> data_request s' = data_request s \<and>
     pace_timer s' = pace_timer s \<and> admittedAcToTidMap (tx_ctrl s') = admittedAcToTidMap (tx_ctrl s) \<and>
     highestAdmittedAc (tx_ctrl s') = highestAdmittedAc (tx_ctrl s)"

definition same_tx :: "TxPath \<Rightarrow> TxPath \<Rightarrow> bool" where
  "same_tx s' s \<longleftrightarrow> same_ctl s' s \<and> mq_aQueues (tx_mgmt s') = mq_aQueues (tx_mgmt s) \<and>
     dq_aQueues (tx_data s') = dq_aQueues (tx_data s) \<and> uLastQueId (tx_data s') = uLastQueId (tx_data s) \<and>
     aNetStackQueueStopped (tx_data s') = aNetStackQueueStopped (tx_data s) \<and> net_stopped s' = net_stopped s"

lemma same_ctl_refl [simp]: "same_ctl s s"
  by (simp add: same_ctl_def)

lemma same_ctl_trans: "same_ctl s'' s' \<Longrightarrow> same_ctl s' s \<Longrightarrow> same_ctl s'' s"
  by (simp add: same_ctl_def)

lemma same_tx_refl [simp]: "same_tx s s"
  by (simp add: same_tx_def)

lemma same_tx_trans: "same_tx s'' s' \<Longrightarrow> same_tx s' s \<Longrightarrow> same_tx s'' s"
  by (simp add: same_tx_def same_ctl_def)

lemmas tx_part_defs = on_mgmt_def on_data_def on_ctrl_def on_blk_def count_dbg_def count_mgmt_def count_data_def

lemma same_parts:
  "same_tx (on_ctrl (\<lambda>c. c\<lparr>busyAcBitmap := f c\<rparr>) s) s" "same_tx (count_dbg g s) s" "same_tx (on_blk p h s) s"
  "same_tx (txMgmtQ_StopQueue m s) s" "same_tx (txCtrl_FreePacket p s) s"
  "same_tx (s\<lparr>tx_hw := hw\<rparr>) s" "same_tx (s\<lparr>sent := l\<rparr>) s" "same_tx (count_mgmt i s) s" "same_tx (count_data q j s) s"
  by (simp_all add: same_tx_def same_ctl_def tx_part_defs txMgmtQ_StopQueue_def updateQueuesBusyMap_def txCtrl_FreePacket_def)

lemma foldl_busy_sel:
  "bDataPortEnable (foldl (\<lambda>d i. d\<lparr>dq_aQueueBusy := (dq_aQueueBusy d)(g i := b i)\<rparr>) d xs) = bDataPortEnable d"
  "dq_aQueues (foldl (\<lambda>d i. d\<lparr>dq_aQueueBusy := (dq_aQueueBusy d)(g i := b i)\<rparr>) d xs) = dq_aQueues d"
  "uLastQueId (foldl (\<lambda>d i. d\<lparr>dq_aQueueBusy := (dq_aQueueBusy d)(g i := b i)\<rparr>) d xs) = uLastQueId d"
  "aTxSendPaceThresh (foldl (\<lambda>d i. d\<lparr>dq_aQueueBusy := (dq_aQueueBusy d)(g i := b i)\<rparr>) d xs) = aTxSendPaceThresh d"
  "aQueueMaxSize (foldl (\<lambda>d i. d\<lparr>dq_aQueueBusy := (dq_aQueueBusy d)(g i := b i)\<rparr>) d xs) = aQueueMaxSize d"
  "bStopNetStackTx (foldl (\<lambda>d i. d\<lparr>dq_aQueueBusy := (dq_aQueueBusy d)(g i := b i)\<rparr>) d xs) = bStopNetStackTx d"
  "aNetStackQueueStopped (foldl (\<lambda>d i. d\<lparr>dq_aQueueBusy := (dq_aQueueBusy d)(g i := b i)\<rparr>) d xs) = aNetStackQueueStopped d"
  by (induction xs arbitrary: d) simp_all

lemma same_data_stop: "same_tx (txDataQ_StopQueue m s) s"
  by (simp add: same_tx_def same_ctl_def txDataQ_StopQueue_def on_data_def txDataQ_UpdateQueuesBusyState_def foldl_busy_sel)

lemma same_select: "SELECT_AC_FOR_TID p s = (ac, s') \<Longrightarrow> same_tx s' s"
  by (auto simp: SELECT_AC_FOR_TID_def Let_def same_parts split: if_splits)

lemma same_alloc: "TWD_txHwQueue_AllocResources p s = (st, s') \<Longrightarrow> same_tx s' s"
  by (auto simp: TWD_txHwQueue_AllocResources_def split: prod.splits intro: same_tx_trans [OF same_parts(3) same_parts(6)])

lemma same_xmit_packet: "same_tx (snd (xmit_packet e ac p s)) s"
  by (auto simp: xmit_packet_def TWD_txXfer_SendPacket_def
      intro!: same_tx_trans [OF same_parts(5)] same_tx_trans [OF same_parts(2) same_parts(7)])

lemma same_xmit:
  assumes "\<And>m u. same_tx (stop m u) u"
  shows "same_tx (snd (txCtrl_Xmit e stop build p s)) s"
proof -
  obtain ac s1 where 1: "SELECT_AC_FOR_TID p s = (ac, s1)" by fastforce
  let ?u = "count_dbg (\<lambda>c. c\<lparr>dbgNumPktsSent := inc_at ac (dbgNumPktsSent c)\<rparr>) s1"
  obtain st s2 where 2: "TWD_txHwQueue_AllocResources p ?u = (st, s2)" by fastforce
  have "same_tx s2 s"
    using same_select [OF 1] same_alloc [OF 2] same_parts(2) same_tx_trans by blast
  then show ?thesis
    by (auto simp: txCtrl_Xmit_def 1 2 Let_def
        intro!: same_tx_trans [OF same_xmit_packet] same_tx_trans [OF same_parts(3)] same_tx_trans [OF assms]
          same_tx_trans [OF same_parts(1)] same_tx_trans [OF same_parts(2)])
qed

lemma same_xmit_mgmt: "same_tx (snd (txCtrl_XmitMgmt e p s)) s"
  unfolding txCtrl_XmitMgmt_def by (rule same_xmit) (rule same_parts(4))

lemma same_xmit_data: "same_tx (snd (txCtrl_XmitData e p s)) s"
  unfolding txCtrl_XmitData_def by (rule same_xmit) (rule same_data_stop)

section \<open>The scheduler of the management queues\<close>

definition mgmt_waiting :: "TxPath \<Rightarrow> nat" where
  "mgmt_waiting s = sum_list (map length (mq_aQueues (tx_mgmt s)))"

definition data_waiting :: "TxPath \<Rightarrow> nat" where
  "data_waiting s = sum_list (map length (dq_aQueues (tx_data s)))"

lemma sum_list_length_update:
  "i < length xs \<Longrightarrow> sum_list (map length (xs[i := ys])) + length (xs ! i) = sum_list (map length xs) + length ys"
proof (induction xs arbitrary: i)
  case (Cons x xs)
  then show ?case by (cases i) simp_all
qed simp

lemma que_at_update [simp]: "i < length qs \<Longrightarrow> que_at (qs[i := xs]) j = (if j = i then xs else que_at qs j)"
  by (auto simp: que_at_def)

lemma que_at_ConsD: "que_at qs i = p # xs \<Longrightarrow> i < length qs \<and> qs ! i = p # xs"
  by (simp add: que_at_def split: if_splits)

text \<open>A queue whose first packet was taken, and perhaps put back.\<close>

lemma sum_list_length_deq:
  assumes "que_at qs i = p # xs"
  shows "sum_list (map length qs) = Suc (sum_list (map length (qs[i := xs])))"
    "length ys \<le> Suc (length xs) \<Longrightarrow> sum_list (map length (qs[i := ys])) \<le> sum_list (map length qs)"
  using que_at_ConsD [OF assms] sum_list_length_update [of i qs xs] sum_list_length_update [of i qs ys] by auto

lemma length_req: "length (snd (fifo_req n xs p)) \<le> Suc (length xs)"
  by (simp add: fifo_req_def)

text \<open>
  One packet of a queue: \<open>Some\<close> when there was one that could be sent or dropped, \<open>None\<close> when the queue is
  empty or the packet is put back.
\<close>

definition mgmt_send :: "TxEnv \<Rightarrow> nat \<Rightarrow> TxPath \<Rightarrow> bool \<times> TxPath" where
  "mgmt_send e uQueId s =
     (case fifo_deq (mgmt_queue s uQueId) of
        (None, xs) \<Rightarrow> (False, s)
      | (Some p, xs) \<Rightarrow>
          (case txCtrl_XmitMgmt e p (count_mgmt (\<lambda>c. c\<lparr>aDequeuePackets := inc_at uQueId (aDequeuePackets c)\<rparr>)
              (set_mgmt_queue uQueId xs s)) of (eStatus, s) \<Rightarrow>
             if eStatus = STATUS_XMIT_BUSY
             then (False, count_mgmt (\<lambda>c. c\<lparr>aRequeuePackets := inc_at uQueId (aRequeuePackets c)\<rparr>)
               (set_mgmt_queue uQueId (snd (fifo_req MGMT_QUEUES_DEPTH (mgmt_queue s uQueId) p)) s))
             else (True, count_mgmt (\<lambda>c. c\<lparr>aXmittedPackets := inc_at uQueId (aXmittedPackets c)\<rparr>) s)))"

text \<open>What one packet of a queue changes.\<close>

definition same_hw :: "TxPath \<Rightarrow> TxPath \<Rightarrow> bool" where
  "same_hw s' s \<longleftrightarrow> tx_hw s' = tx_hw s \<and> tx_ctrl s' = tx_ctrl s \<and> sent s' = sent s \<and>
     tx_tids s' = tx_tids s \<and> tx_types s' = tx_types s \<and>
     mq_aQueueBusy (tx_mgmt s') = mq_aQueueBusy (tx_mgmt s) \<and> dq_aQueueBusy (tx_data s') = dq_aQueueBusy (tx_data s)"

definition mgmt_queues_are :: "nat list list \<Rightarrow> TxPath \<Rightarrow> TxPath \<Rightarrow> bool" where
  "mgmt_queues_are qs s' s \<longleftrightarrow> mq_aQueues (tx_mgmt s') = qs \<and> dq_aQueues (tx_data s') = dq_aQueues (tx_data s) \<and>
     uLastQueId (tx_data s') = uLastQueId (tx_data s) \<and>
     aNetStackQueueStopped (tx_data s') = aNetStackQueueStopped (tx_data s) \<and> net_stopped s' = net_stopped s \<and> same_ctl s' s"

lemma set_mgmt_queue_are: "mgmt_queues_are ((mq_aQueues (tx_mgmt s))[i := xs]) (set_mgmt_queue i xs s) s" "same_hw (set_mgmt_queue i xs s) s"
  by (simp_all add: mgmt_queues_are_def same_hw_def same_ctl_def set_mgmt_queue_def on_mgmt_def tx_tids_def tx_types_def)

lemma count_mgmt_hw: "same_hw (count_mgmt f s) s"
  by (simp add: same_hw_def count_mgmt_def on_mgmt_def tx_tids_def tx_types_def)

lemma same_hw_trans: "same_hw s'' s' \<Longrightarrow> same_hw s' s \<Longrightarrow> same_hw s'' s"
  by (simp add: same_hw_def)

lemma queues_are_same: "same_tx s'' s' \<Longrightarrow> mgmt_queues_are qs s' s \<Longrightarrow> mgmt_queues_are qs s'' s"
  by (simp add: mgmt_queues_are_def same_tx_def same_ctl_def)

lemma queues_are_set: "mgmt_queues_are qs s' s \<Longrightarrow> mgmt_queues_are (qs[i := xs]) (set_mgmt_queue i xs s') s"
  by (simp add: mgmt_queues_are_def same_ctl_def set_mgmt_queue_def on_mgmt_def)

lemma mgmt_send_cases:
  assumes "mgmt_send e i s = (b, s')"
  obtains (empty) "mgmt_queue s i = []" "\<not> b" "s' = s"
  | (busy) p xs u v where "mgmt_queue s i = p # xs" "same_hw u s" "same_ctl u s"
      "txCtrl_XmitMgmt e p u = (STATUS_XMIT_BUSY, v)" "\<not> b" "same_hw s' v"
      "mgmt_queues_are ((mq_aQueues (tx_mgmt s))[i := snd (fifo_req MGMT_QUEUES_DEPTH xs p)]) s' s"
  | (handled) p xs u v st where "mgmt_queue s i = p # xs" "same_hw u s" "same_ctl u s"
      "txCtrl_XmitMgmt e p u = (st, v)" "st \<noteq> STATUS_XMIT_BUSY" b "same_hw s' v"
      "mgmt_queues_are ((mq_aQueues (tx_mgmt s))[i := xs]) s' s"
proof (cases "mgmt_queue s i")
  case Nil
  then have "mgmt_send e i s = (False, s)" by (simp add: mgmt_send_def)
  then show thesis using assms Nil by (intro empty) simp_all
next
  case (Cons p xs)
  define u where "u = count_mgmt (\<lambda>c. c\<lparr>aDequeuePackets := inc_at i (aDequeuePackets c)\<rparr>) (set_mgmt_queue i xs s)"
  obtain st v where v: "txCtrl_XmitMgmt e p u = (st, v)" by fastforce
  have i: "i < length (mq_aQueues (tx_mgmt s))" using que_at_ConsD [OF Cons] by simp
  have uhw: "same_hw u s" unfolding u_def by (rule same_hw_trans [OF count_mgmt_hw set_mgmt_queue_are(2)])
  have uq: "mgmt_queues_are ((mq_aQueues (tx_mgmt s))[i := xs]) u s"
    unfolding u_def by (rule queues_are_same [OF same_parts(8) set_mgmt_queue_are(1)])
  then have uctl: "same_ctl u s" by (simp add: mgmt_queues_are_def)
  have vq: "mgmt_queues_are ((mq_aQueues (tx_mgmt s))[i := xs]) v s"
    using queues_are_same [OF _ uq] same_xmit_mgmt [of e p u] by (simp add: v)
  then have qv: "mgmt_queue v i = xs" using i by (simp add: mgmt_queues_are_def)
  have send: "mgmt_send e i s =
     (if st = STATUS_XMIT_BUSY
      then (False, count_mgmt (\<lambda>c. c\<lparr>aRequeuePackets := inc_at i (aRequeuePackets c)\<rparr>)
        (set_mgmt_queue i (snd (fifo_req MGMT_QUEUES_DEPTH (mgmt_queue v i) p)) v))
      else (True, count_mgmt (\<lambda>c. c\<lparr>aXmittedPackets := inc_at i (aXmittedPackets c)\<rparr>) v))"
    unfolding mgmt_send_def Cons fifo_deq.simps prod.case option.case u_def [symmetric] v ..
  show thesis
  proof (cases "st = STATUS_XMIT_BUSY")
    case True
    let ?zs = "snd (fifo_req MGMT_QUEUES_DEPTH xs p)"
    have r: "b = False" "s' = count_mgmt (\<lambda>c. c\<lparr>aRequeuePackets := inc_at i (aRequeuePackets c)\<rparr>) (set_mgmt_queue i ?zs v)"
      using assms by (simp_all add: send qv True)
    have "same_hw s' v" unfolding r by (rule same_hw_trans [OF count_mgmt_hw set_mgmt_queue_are(2)])
    moreover have "mgmt_queues_are ((mq_aQueues (tx_mgmt s))[i := xs, i := ?zs]) s' s"
      unfolding r by (rule queues_are_same [OF same_parts(8)], rule queues_are_set, rule vq)
    ultimately show thesis using r(1) True by (intro busy [OF Cons uhw uctl]) (simp_all add: v)
  next
    case False
    have r: "b = True" "s' = count_mgmt (\<lambda>c. c\<lparr>aXmittedPackets := inc_at i (aXmittedPackets c)\<rparr>) v"
      using assms by (simp_all add: send False)
    have "same_hw s' v" unfolding r by (rule count_mgmt_hw)
    moreover have "mgmt_queues_are ((mq_aQueues (tx_mgmt s))[i := xs]) s' s"
      unfolding r by (rule queues_are_same [OF same_parts(8)], rule vq)
    ultimately show thesis using r(1) False by (intro handled [OF Cons uhw uctl v]) simp_all
  qed
qed

lemma mgmt_send_waiting:
  assumes "mgmt_send e i s = (b, s')"
  shows "mgmt_waiting s' < mgmt_waiting s \<or> \<not> b \<and> mgmt_waiting s' \<le> mgmt_waiting s"
  using assms
proof (cases rule: mgmt_send_cases)
  case (busy p xs u v)
  then show ?thesis using sum_list_length_deq(2) [OF busy(1) length_req] by (simp add: mgmt_waiting_def mgmt_queues_are_def)
next
  case (handled p xs u v st)
  then show ?thesis using sum_list_length_deq(1) [OF handled(1)] by (simp add: mgmt_waiting_def mgmt_queues_are_def)
qed simp

function runScheduler :: "TxEnv \<Rightarrow> nat \<Rightarrow> TxPath \<Rightarrow> TxPath" where
  "runScheduler e uQueId s =
     (if \<not> bMgmtPortEnable (tx_mgmt s) then s
      else case (if \<not> mq_aQueueBusy (tx_mgmt s) uQueId \<and> aQueueEnabledBySM (tx_mgmt s) uQueId
                 then mgmt_send e uQueId s else (False, s)) of (handled, s1) \<Rightarrow>
        if handled then runScheduler e 0 s1
        else if uQueId + 1 < NUM_OF_MGMT_QUEUES then runScheduler e (uQueId + 1) s1
        else s1)"
  by pat_completeness auto

termination
proof (relation "measures [\<lambda>(e, i, s). mgmt_waiting s, \<lambda>(e, i, s). NUM_OF_MGMT_QUEUES - i]")
  show "wf (measures [\<lambda>(e, i, s). mgmt_waiting s, \<lambda>(e, i, s). NUM_OF_MGMT_QUEUES - i])" by simp
qed (auto dest!: mgmt_send_waiting [OF sym] split: if_splits)

declare runScheduler.simps [simp del]


section \<open>The scheduler of the data queues\<close>

definition wlanDrvIf_ResumeTx :: "TxPath \<Rightarrow> TxPath" where
  "wlanDrvIf_ResumeTx s = s\<lparr>net_stopped := False\<rparr>"

definition wlanDrvIf_StopTx :: "TxPath \<Rightarrow> TxPath" where
  "wlanDrvIf_StopTx s = s\<lparr>net_stopped := True\<rparr>"

text \<open>The network stack is resumed when a queue that stopped it is empty.\<close>

definition resume_stack :: "nat \<Rightarrow> TxPath \<Rightarrow> TxPath" where
  "resume_stack uQueId s =
     (if bStopNetStackTx (tx_data s) \<and> aNetStackQueueStopped (tx_data s) uQueId
      then wlanDrvIf_ResumeTx (on_data (\<lambda>d. d\<lparr>aNetStackQueueStopped := (aNetStackQueueStopped d)(uQueId := False)\<rparr>) s)
      else s)"

text \<open>One packet of a queue that is not busy.\<close>

definition data_send :: "TxEnv \<Rightarrow> nat \<Rightarrow> TxPath \<Rightarrow> bool \<times> TxPath" where
  "data_send e uQueId s =
     (case fifo_deq (data_queue s uQueId) of
        (None, xs) \<Rightarrow> (False, resume_stack uQueId s)
      | (Some p, xs) \<Rightarrow>
          (case txCtrl_XmitData e p (count_data uQueId (\<lambda>c. c\<lparr>uDequeuePacket := uDequeuePacket c + 1\<rparr>)
              (set_data_queue uQueId xs s)) of (eStatus, s) \<Rightarrow>
             if eStatus = STATUS_XMIT_BUSY
             then (case fifo_req (aQueueMaxSize (tx_data s) uQueId) (data_queue s uQueId) p of (eQueStatus, ys) \<Rightarrow>
                let s1 = set_data_queue uQueId ys s;
                    s2 = (if eQueStatus \<noteq> TI_OK
                          then count_data uQueId (\<lambda>c. c\<lparr>uDroppedPacket := uDroppedPacket c + 1\<rparr>) (txCtrl_FreePacket p s1)
                          else s1)
                in (False, count_data uQueId (\<lambda>c. c\<lparr>uRequeuePacket := uRequeuePacket c + 1\<rparr>) s2))
             else (True, count_data uQueId (\<lambda>c. c\<lparr>uXmittedPacket := uXmittedPacket c + 1\<rparr>) s)))"

definition data_queues_are :: "nat list list \<Rightarrow> TxPath \<Rightarrow> TxPath \<Rightarrow> bool" where
  "data_queues_are qs s' s \<longleftrightarrow> dq_aQueues (tx_data s') = qs \<and> mq_aQueues (tx_mgmt s') = mq_aQueues (tx_mgmt s) \<and>
     uLastQueId (tx_data s') = uLastQueId (tx_data s) \<and> same_ctl s' s"

lemma set_data_queue_are: "data_queues_are ((dq_aQueues (tx_data s))[i := xs]) (set_data_queue i xs s) s" "same_hw (set_data_queue i xs s) s"
  by (simp_all add: data_queues_are_def same_hw_def same_ctl_def set_data_queue_def on_data_def tx_tids_def tx_types_def)

lemma count_data_hw: "same_hw (count_data q f s) s"
  by (simp add: same_hw_def count_data_def on_data_def tx_tids_def tx_types_def)

lemma map_set_next: "(\<And>b v. f (b\<lparr>pNextFreeEntry := v\<rparr>) = f b) \<Longrightarrow> map f (set_next e v t) = map f t"
  by (cases "e < length t") (auto intro!: nth_equalityI simp: set_next_def nth_list_update)

lemma free_hw: "same_hw (txCtrl_FreePacket p s) s"
  by (simp add: same_hw_def txCtrl_FreePacket_def tx_tids_def tx_types_def txCtrlBlk_Free_def Let_def map_set_next)

lemma resume_stack_are: "data_queues_are (dq_aQueues (tx_data s)) (resume_stack i s) s" "same_hw (resume_stack i s) s"
  by (simp_all add: data_queues_are_def same_hw_def same_ctl_def resume_stack_def wlanDrvIf_ResumeTx_def on_data_def tx_tids_def tx_types_def)

lemma data_queues_same: "same_tx s'' s' \<Longrightarrow> data_queues_are qs s' s \<Longrightarrow> data_queues_are qs s'' s"
  by (simp add: data_queues_are_def same_tx_def same_ctl_def)

lemma data_queues_set: "data_queues_are qs s' s \<Longrightarrow> data_queues_are (qs[i := xs]) (set_data_queue i xs s') s"
  by (simp add: data_queues_are_def same_ctl_def set_data_queue_def on_data_def)

lemma data_send_cases:
  assumes "data_send e i s = (b, s')"
  obtains (empty) "data_queue s i = []" "\<not> b" "same_hw s' s" "data_queues_are (dq_aQueues (tx_data s)) s' s"
  | (busy) p xs u v n where "data_queue s i = p # xs" "same_hw u s" "same_ctl u s"
      "txCtrl_XmitData e p u = (STATUS_XMIT_BUSY, v)" "\<not> b" "same_hw s' v"
      "data_queues_are ((dq_aQueues (tx_data s))[i := snd (fifo_req n xs p)]) s' s"
  | (handled) p xs u v st where "data_queue s i = p # xs" "same_hw u s" "same_ctl u s"
      "txCtrl_XmitData e p u = (st, v)" "st \<noteq> STATUS_XMIT_BUSY" b "same_hw s' v"
      "data_queues_are ((dq_aQueues (tx_data s))[i := xs]) s' s"
proof (cases "data_queue s i")
  case Nil
  then have "data_send e i s = (False, resume_stack i s)" by (simp add: data_send_def)
  then show thesis using assms Nil resume_stack_are by (intro empty) auto
next
  case (Cons p xs)
  define u where "u = count_data i (\<lambda>c. c\<lparr>uDequeuePacket := uDequeuePacket c + 1\<rparr>) (set_data_queue i xs s)"
  obtain st v where v: "txCtrl_XmitData e p u = (st, v)" by fastforce
  have i: "i < length (dq_aQueues (tx_data s))" using que_at_ConsD [OF Cons] by simp
  have uhw: "same_hw u s" unfolding u_def by (rule same_hw_trans [OF count_data_hw set_data_queue_are(2)])
  have uq: "data_queues_are ((dq_aQueues (tx_data s))[i := xs]) u s"
    unfolding u_def by (rule data_queues_same [OF same_parts(9) set_data_queue_are(1)])
  then have uctl: "same_ctl u s" by (simp add: data_queues_are_def)
  have vq: "data_queues_are ((dq_aQueues (tx_data s))[i := xs]) v s"
    using data_queues_same [OF _ uq] same_xmit_data [of e p u] by (simp add: v)
  then have qv: "data_queue v i = xs" using i by (simp add: data_queues_are_def)
  obtain qst ys where req: "fifo_req (aQueueMaxSize (tx_data v) i) xs p = (qst, ys)" by fastforce
  define w where "w = (if qst \<noteq> TI_OK
      then count_data i (\<lambda>c. c\<lparr>uDroppedPacket := uDroppedPacket c + 1\<rparr>) (txCtrl_FreePacket p (set_data_queue i ys v))
      else set_data_queue i ys v)"
  have send: "data_send e i s =
     (if st = STATUS_XMIT_BUSY then (False, count_data i (\<lambda>c. c\<lparr>uRequeuePacket := uRequeuePacket c + 1\<rparr>) w)
      else (True, count_data i (\<lambda>c. c\<lparr>uXmittedPacket := uXmittedPacket c + 1\<rparr>) v))"
    unfolding data_send_def Cons fifo_deq.simps prod.case option.case u_def [symmetric] v Let_def qv req w_def [symmetric] ..
  have whw: "same_hw w v"
    unfolding w_def using set_data_queue_are(2) [of i ys v]
    by (simp add: same_hw_trans [OF count_data_hw same_hw_trans [OF free_hw]])
  have wq: "data_queues_are ((dq_aQueues (tx_data s))[i := xs, i := ys]) w s"
    unfolding w_def using data_queues_set [OF vq, of i ys]
    by (simp add: data_queues_same [OF same_parts(9) data_queues_same [OF same_parts(5)]])
  show thesis
  proof (cases "st = STATUS_XMIT_BUSY")
    case True
    have r: "b = False" "s' = count_data i (\<lambda>c. c\<lparr>uRequeuePacket := uRequeuePacket c + 1\<rparr>) w"
      using assms by (simp_all add: send True)
    have "same_hw s' v" unfolding r by (rule same_hw_trans [OF count_data_hw whw])
    moreover have "data_queues_are ((dq_aQueues (tx_data s))[i := xs, i := ys]) s' s"
      unfolding r by (rule data_queues_same [OF same_parts(9) wq])
    moreover have "ys = snd (fifo_req (aQueueMaxSize (tx_data v) i) xs p)" using req by simp
    ultimately show thesis using r(1) True by (intro busy [OF Cons uhw uctl]) (simp_all add: v)
  next
    case False
    have r: "b = True" "s' = count_data i (\<lambda>c. c\<lparr>uXmittedPacket := uXmittedPacket c + 1\<rparr>) v"
      using assms by (simp_all add: send False)
    have "same_hw s' v" unfolding r by (rule count_data_hw)
    moreover have "data_queues_are ((dq_aQueues (tx_data s))[i := xs]) s' s"
      unfolding r by (rule data_queues_same [OF same_parts(9) vq])
    ultimately show thesis using r(1) False by (intro handled [OF Cons uhw uctl v]) simp_all
  qed
qed

lemma data_send_waiting:
  assumes "data_send e i s = (b, s')"
  shows "data_waiting s' < data_waiting s \<or> \<not> b \<and> data_waiting s' \<le> data_waiting s"
  using assms
proof (cases rule: data_send_cases)
  case empty
  then show ?thesis by (simp add: data_waiting_def data_queues_are_def)
next
  case (busy p xs u v)
  then show ?thesis using sum_list_length_deq(2) [OF busy(1) length_req] by (simp add: data_waiting_def data_queues_are_def)
next
  case (handled p xs u v st)
  then show ?thesis using sum_list_length_deq(1) [OF handled(1)] by (simp add: data_waiting_def data_queues_are_def)
qed

lemma data_waiting_last [simp]: "data_waiting (on_data (\<lambda>d. d\<lparr>uLastQueId := q\<rparr>) s) = data_waiting s"
  by (simp add: data_waiting_def on_data_def)

text \<open>The loop; the number of queues is \<open>MAX_NUM_OF_AC\<close>.\<close>

function data_loop :: "TxEnv \<Rightarrow> nat \<Rightarrow> nat \<Rightarrow> TxPath \<Rightarrow> TxPath" where
  "data_loop e uIdleIterationsCount uQueId s =
     (if \<not> bDataPortEnable (tx_data s) \<or> uIdleIterationsCount \<ge> MAX_NUM_OF_AC then s
      else
        let uQueId = (if uQueId + 1 = MAX_NUM_OF_AC then 0 else uQueId + 1);
            s1 = on_data (\<lambda>d. d\<lparr>uLastQueId := uQueId\<rparr>) s
        in case (if dq_aQueueBusy (tx_data s1) uQueId then (False, s1) else data_send e uQueId s1) of (handled, s2) \<Rightarrow>
             data_loop e (if handled then 0 else uIdleIterationsCount + 1) uQueId s2)"
  by pat_completeness auto

termination
proof (relation "measures [\<lambda>(e, n, i, s). data_waiting s, \<lambda>(e, n, i, s). MAX_NUM_OF_AC - n]")
  show "wf (measures [\<lambda>(e, n, i, s). data_waiting s, \<lambda>(e, n, i, s). MAX_NUM_OF_AC - n])" by simp
qed (auto dest!: data_send_waiting [OF sym] split: if_splits)

declare data_loop.simps [simp del]

definition txDataQ_RunScheduler :: "TxEnv \<Rightarrow> TxPath \<Rightarrow> TxPath" where
  "txDataQ_RunScheduler e s = data_loop e 0 (uLastQueId (tx_data s)) s"

definition txDataQ_TxSendPaceTimeout :: "TxEnv \<Rightarrow> TxPath \<Rightarrow> TxPath" where
  "txDataQ_TxSendPaceTimeout e s = txDataQ_RunScheduler e
     (on_data (\<lambda>d. d\<lparr>uTxSendPaceTimeoutsCount := uTxSendPaceTimeoutsCount d + 1\<rparr>) s)"

definition txDataQ_StopAll :: "TxPath \<Rightarrow> TxPath" where
  "txDataQ_StopAll = on_data (\<lambda>d. d\<lparr>bDataPortEnable := False\<rparr>)"

definition txDataQ_WakeAll :: "TxEnv \<Rightarrow> TxPath \<Rightarrow> TxPath" where
  "txDataQ_WakeAll e s = txDataQ_RunScheduler e (on_data (\<lambda>d. d\<lparr>bDataPortEnable := True\<rparr>) s)"

definition txDataQ_UpdateBusyMap :: "TxEnv \<Rightarrow> TI_UINT32 \<Rightarrow> TxPath \<Rightarrow> TxPath" where
  "txDataQ_UpdateBusyMap e tidBitMap s =
     txDataQ_RunScheduler e (on_data (txDataQ_UpdateQueuesBusyState tidBitMap) s)"

end
