(* ===== verification/WlTxFlow.thy ===== *)
theory WlTxFlow
  imports WlTxQueues
begin

text \<open>
  The state machine of the management queues (\<^verbatim>\<open>txMgmtQueue.c\<close>) and the port (\<^verbatim>\<open>txPort.c\<close>), which are
  mutually recursive, the functions that the modules offer to others, and the functions of \<^verbatim>\<open>txCtrl.c\<close>
  that map access categories and wake the queues.
\<close>

section \<open>The state machine and the port\<close>

definition all_mgmt_empty :: "TTxMgmtQ \<Rightarrow> bool" where
  "all_mgmt_empty m \<longleftrightarrow> length (que_at (mq_aQueues m) QUEUE_TYPE_MGMT) = 0 \<and> length (que_at (mq_aQueues m) QUEUE_TYPE_EAPOL) = 0"

definition enable_queues :: "bool \<Rightarrow> bool \<Rightarrow> TTxMgmtQ \<Rightarrow> TTxMgmtQ" where
  "enable_queues a b m = m\<lparr>aQueueEnabledBySM := (aQueueEnabledBySM m)(QUEUE_TYPE_MGMT := a, QUEUE_TYPE_EAPOL := b)\<rparr>"

text \<open>The transition: the new state and the action that is executed at the end.\<close>

definition sm_next :: "ESmEvent \<Rightarrow> TTxMgmtQ \<Rightarrow> TTxMgmtQ \<times> ESmAction" where
  "sm_next eSmEvent m =
     (let ePrevState = eSmState m
      in case eSmEvent of
        SM_EVENT_CLOSE \<Rightarrow>
          (enable_queues False False (m\<lparr>eSmState := SM_STATE_CLOSE\<rparr>),
           if ePrevState = SM_STATE_OPEN_DATA then SM_ACTION_ENABLE_MGMT else SM_ACTION_NULL)
      | SM_EVENT_MGMT \<Rightarrow>
          (enable_queues True False (m\<lparr>eSmState := SM_STATE_MGMT\<rparr>),
           if ePrevState = SM_STATE_OPEN_DATA then SM_ACTION_ENABLE_MGMT else SM_ACTION_RUN_SCHEDULER)
      | SM_EVENT_EAPOL \<Rightarrow>
          (enable_queues True True (m\<lparr>eSmState := SM_STATE_EAPOL\<rparr>), SM_ACTION_RUN_SCHEDULER)
      | SM_EVENT_OPEN \<Rightarrow>
          if all_mgmt_empty m
          then (enable_queues False False (m\<lparr>eSmState := SM_STATE_OPEN_DATA\<rparr>), SM_ACTION_ENABLE_DATA)
          else (m\<lparr>eSmState := SM_STATE_OPEN_MGMT\<rparr>, SM_ACTION_NULL)
      | SM_EVENT_QUEUES_EMPTY \<Rightarrow>
          if ePrevState = SM_STATE_OPEN_MGMT
          then (enable_queues False False (m\<lparr>eSmState := SM_STATE_OPEN_DATA\<rparr>), SM_ACTION_ENABLE_DATA)
          else (m, SM_ACTION_NULL)
      | SM_EVENT_QUEUES_NOT_EMPTY \<Rightarrow>
          if ePrevState = SM_STATE_OPEN_DATA
          then (enable_queues True True (m\<lparr>eSmState := SM_STATE_OPEN_MGMT\<rparr>), SM_ACTION_ENABLE_MGMT)
          else if ePrevState = SM_STATE_MGMT \<or> ePrevState = SM_STATE_EAPOL then (m, SM_ACTION_RUN_SCHEDULER)
          else (m, SM_ACTION_NULL))"

text \<open>The actions of the port on the management and on the data queues.\<close>

definition port_actions :: "TTxPortObj \<Rightarrow> EQueueAction \<times> EQueueAction" where
  "port_actions p =
     (if \<not> txSuspended p
      then if queuesMuxState p = MUX_MGMT_QUEUES
           then (if \<not> mgmtQueueEnabled p then QUEUE_ACTION_WAKE else QUEUE_ACTION_NONE,
                 if dataQueueEnabled p then QUEUE_ACTION_STOP else QUEUE_ACTION_NONE)
           else (if mgmtQueueEnabled p then QUEUE_ACTION_STOP else QUEUE_ACTION_NONE,
                 if \<not> dataQueueEnabled p then QUEUE_ACTION_WAKE else QUEUE_ACTION_NONE)
      else (if mgmtQueueEnabled p then QUEUE_ACTION_STOP else QUEUE_ACTION_NONE,
            if dataQueueEnabled p then QUEUE_ACTION_STOP else QUEUE_ACTION_NONE))"

definition on_port :: "(TTxPortObj \<Rightarrow> TTxPortObj) \<Rightarrow> TxPath \<Rightarrow> TxPath" where
  "on_port f s = s\<lparr>tx_port := f (tx_port s)\<rparr>"

definition txMgmtQ_StopAll :: "TxPath \<Rightarrow> TxPath" where
  "txMgmtQ_StopAll = on_mgmt (\<lambda>m. m\<lparr>bMgmtPortEnable := False\<rparr>)"

text \<open>The \<open>STOP\<close> actions, which come first.\<close>

definition port_stops :: "EQueueAction \<times> EQueueAction \<Rightarrow> TxPath \<Rightarrow> TxPath" where
  "port_stops a s =
     (let s1 = (if fst a = QUEUE_ACTION_STOP then txMgmtQ_StopAll (on_port (\<lambda>p. p\<lparr>mgmtQueueEnabled := False\<rparr>) s) else s)
      in if snd a = QUEUE_ACTION_STOP then txDataQ_StopAll (on_port (\<lambda>p. p\<lparr>dataQueueEnabled := False\<rparr>) s1) else s1)"

lemma sm_next_action:
  "snd (sm_next SM_EVENT_QUEUES_EMPTY m) \<noteq> SM_ACTION_ENABLE_MGMT"
  "snd (sm_next SM_EVENT_QUEUES_EMPTY m) \<noteq> SM_ACTION_RUN_SCHEDULER"
  by (simp_all add: sm_next_def Let_def)

lemma port_wake_mgmt: "fst (port_actions p) = QUEUE_ACTION_WAKE \<Longrightarrow> queuesMuxState p = MUX_MGMT_QUEUES"
  by (simp add: port_actions_def split: if_splits)

text \<open>How many calls may still follow.\<close>

definition port_rank :: "TxPath \<Rightarrow> nat" where
  "port_rank s = (if queuesMuxState (tx_port s) = MUX_MGMT_QUEUES then 6 else 1)"

definition sm_rank :: "ESmEvent \<Rightarrow> nat" where
  "sm_rank e = (if e = SM_EVENT_QUEUES_EMPTY then 3 else 8)"

lemma port_rank_set [simp]:
  "port_rank (on_port (\<lambda>p. p\<lparr>queuesMuxState := MUX_DATA_QUEUES\<rparr>) s) = 1"
  "port_rank (on_port (\<lambda>p. p\<lparr>queuesMuxState := MUX_MGMT_QUEUES\<rparr>) s) = 6"
  by (simp_all add: port_rank_def on_port_def)

lemma sm_rank_action:
  "(m', SM_ACTION_ENABLE_DATA) = sm_next ev m \<Longrightarrow> 2 < sm_rank ev"
  "(m', SM_ACTION_ENABLE_MGMT) = sm_next ev m \<Longrightarrow> 7 < sm_rank ev"
  using sm_next_action(1) [of m] by (auto simp: sm_rank_def dest!: sym [of "(m', _)"])

function mgmtQueuesSM :: "TxEnv \<Rightarrow> ESmEvent \<Rightarrow> TxPath \<Rightarrow> TxPath"
  and runSchedulerNotFromSm :: "TxEnv \<Rightarrow> TxPath \<Rightarrow> TxPath"
  and txMgmtQ_WakeAll :: "TxEnv \<Rightarrow> TxPath \<Rightarrow> TxPath"
  and updateQueuesStates :: "TxEnv \<Rightarrow> TxPath \<Rightarrow> TxPath"
  and txPort_enableData :: "TxEnv \<Rightarrow> TxPath \<Rightarrow> TxPath"
  and txPort_enableMgmt :: "TxEnv \<Rightarrow> TxPath \<Rightarrow> TxPath" where
  "mgmtQueuesSM e eSmEvent s =
     (case sm_next eSmEvent (tx_mgmt s) of (m, eSmAction) \<Rightarrow>
        let s1 = s\<lparr>tx_mgmt := m\<rparr>
        in case eSmAction of
          SM_ACTION_NULL \<Rightarrow> s1
        | SM_ACTION_ENABLE_DATA \<Rightarrow> txPort_enableData e s1
        | SM_ACTION_ENABLE_MGMT \<Rightarrow> txPort_enableMgmt e s1
        | SM_ACTION_RUN_SCHEDULER \<Rightarrow> runScheduler e 0 s1)"
| "runSchedulerNotFromSm e s =
     (if \<not> all_mgmt_empty (tx_mgmt s)
      then let s1 = runScheduler e 0 s
           in if all_mgmt_empty (tx_mgmt s1) then mgmtQueuesSM e SM_EVENT_QUEUES_EMPTY s1 else s1
      else s)"
| "txMgmtQ_WakeAll e s = runSchedulerNotFromSm e (on_mgmt (\<lambda>m. m\<lparr>bMgmtPortEnable := True\<rparr>) s)"
| "updateQueuesStates e s =
     (let a = port_actions (tx_port s);
          s1 = port_stops a s;
          s2 = (if fst a = QUEUE_ACTION_WAKE
                then txMgmtQ_WakeAll e (on_port (\<lambda>p. p\<lparr>mgmtQueueEnabled := True\<rparr>) s1) else s1)
      in if snd a = QUEUE_ACTION_WAKE
         then txDataQ_WakeAll e (on_port (\<lambda>p. p\<lparr>dataQueueEnabled := True\<rparr>) s2) else s2)"
| "txPort_enableData e s = updateQueuesStates e (on_port (\<lambda>p. p\<lparr>queuesMuxState := MUX_DATA_QUEUES\<rparr>) s)"
| "txPort_enableMgmt e s = updateQueuesStates e (on_port (\<lambda>p. p\<lparr>queuesMuxState := MUX_MGMT_QUEUES\<rparr>) s)"
  by pat_completeness auto

termination
proof (relation "measure (\<lambda>x. case x of
      Inl (Inl (e, ev, s)) \<Rightarrow> sm_rank ev | Inl (Inr (Inl (e, s))) \<Rightarrow> 4 | Inl (Inr (Inr (e, s))) \<Rightarrow> 5
    | Inr (Inl (e, s)) \<Rightarrow> port_rank s | Inr (Inr (Inl (e, s))) \<Rightarrow> 2 | Inr (Inr (Inr (e, s))) \<Rightarrow> 7)", goal_cases)
qed (auto simp: sm_rank_def port_rank_def on_port_def dest: port_wake_mgmt sm_rank_action)

declare mgmtQueuesSM.simps [simp del] runSchedulerNotFromSm.simps [simp del] txMgmtQ_WakeAll.simps [simp del]
  updateQueuesStates.simps [simp del] txPort_enableData.simps [simp del] txPort_enableMgmt.simps [simp del]

definition txPort_suspendTx :: "TxEnv \<Rightarrow> TxPath \<Rightarrow> TxPath" where
  "txPort_suspendTx e s = updateQueuesStates e (on_port (\<lambda>p. p\<lparr>txSuspended := True\<rparr>) s)"

definition txPort_resumeTx :: "TxEnv \<Rightarrow> TxPath \<Rightarrow> TxPath" where
  "txPort_resumeTx e s = updateQueuesStates e (on_port (\<lambda>p. p\<lparr>txSuspended := False\<rparr>) s)"

section \<open>The management queues\<close>

definition txMgmtQ_Xmit :: "TxEnv \<Rightarrow> nat \<Rightarrow> bool \<Rightarrow> TxPath \<Rightarrow> TI_STATUS \<times> TxPath" where
  "txMgmtQ_Xmit e p bExternalContext s =
     (let s1 = on_blk p (\<lambda>b. b\<lparr>tTxDescriptor := (tTxDescriptor b)\<lparr>td_tid := of_nat MGMT_QUEUES_TID\<rparr>\<rparr>) s;
          uQueId = (if uPktType (tTxPktParams (tx_blk s1 p)) = TX_PKT_TYPE_MGMT then QUEUE_TYPE_MGMT else QUEUE_TYPE_EAPOL)
      in case fifo_enq MGMT_QUEUES_DEPTH (mgmt_queue s1 uQueId) p of (eStatus, xs) \<Rightarrow>
        let s2 = set_mgmt_queue uQueId xs s1;
            uQueSize = length xs
        in if eStatus = TI_OK
           then let s3 = count_mgmt (\<lambda>c. c\<lparr>aEnqueuePackets := inc_at uQueId (aEnqueuePackets c)\<rparr>) s2
                in (eStatus,
                    if uQueSize = 1
                    then if bExternalContext then s3\<lparr>mgmt_request := True\<rparr>
                         else mgmtQueuesSM e SM_EVENT_QUEUES_NOT_EMPTY s3
                    else s3)
           else (eStatus, count_mgmt (\<lambda>c. c\<lparr>aDroppedPackets := inc_at uQueId (aDroppedPackets c)\<rparr>) (txCtrl_FreePacket p s2)))"

definition txMgmtQ_QueuesNotEmpty :: "TxEnv \<Rightarrow> TxPath \<Rightarrow> TxPath" where
  "txMgmtQ_QueuesNotEmpty e s = mgmtQueuesSM e SM_EVENT_QUEUES_NOT_EMPTY s"

definition txMgmtQ_UpdateBusyMap :: "TxEnv \<Rightarrow> TI_UINT32 \<Rightarrow> TxPath \<Rightarrow> TxPath" where
  "txMgmtQ_UpdateBusyMap e uTidBitMap s = runSchedulerNotFromSm e (on_mgmt (updateQueuesBusyMap uTidBitMap) s)"

definition txMgmtQ_SetConnState :: "TxEnv \<Rightarrow> ETxConnState \<Rightarrow> TxPath \<Rightarrow> TxPath" where
  "txMgmtQ_SetConnState e c s =
     (let s1 = on_mgmt (\<lambda>m. m\<lparr>eTxConnState := c\<rparr>) s
      in case c of
        TX_CONN_STATE_CLOSE \<Rightarrow> mgmtQueuesSM e SM_EVENT_CLOSE s1
      | TX_CONN_STATE_MGMT \<Rightarrow> mgmtQueuesSM e SM_EVENT_MGMT s1
      | TX_CONN_STATE_EAPOL \<Rightarrow> mgmtQueuesSM e SM_EVENT_EAPOL s1
      | TX_CONN_STATE_OPEN \<Rightarrow> mgmtQueuesSM e SM_EVENT_OPEN s1)"

text \<open>The queues are emptied one after the other, and their packets freed.\<close>

definition txMgmtQ_ClearQueues :: "TxPath \<Rightarrow> TxPath" where
  "txMgmtQ_ClearQueues s =
     foldl (\<lambda>s uQueId. set_mgmt_queue uQueId [] (foldl (\<lambda>s p. txCtrl_FreePacket p s) s (mgmt_queue s uQueId)))
       s [0..<NUM_OF_MGMT_QUEUES]"

definition txMgmtQ_ResetQueueStatistics :: "TxPath \<Rightarrow> TxPath" where
  "txMgmtQ_ResetQueueStatistics = count_mgmt (\<lambda>c. \<lparr>aEnqueuePackets = (\<lambda>i. 0), aDequeuePackets = (\<lambda>i. 0),
     aRequeuePackets = (\<lambda>i. 0), aDroppedPackets = (\<lambda>i. 0), aXmittedPackets = (\<lambda>i. 0)\<rparr>)"

section \<open>The data queues\<close>

text \<open>
  The critical section of \<open>txDataQ_InsertPacket\<close>: the queue, whether the packet is queued, whether the
  task is to be asked for and the network stack to be stopped. \<open>tid\<close> and \<open>matched\<close> are the classifier's.
\<close>

definition insert_critical :: "TI_STATUS \<times> TI_UINT8 \<Rightarrow> nat \<Rightarrow> TxPath \<Rightarrow> nat \<times> TI_STATUS \<times> bool \<times> bool \<times> TxPath" where
  "insert_critical cl p s =
     (case cl of (matched, tid) \<Rightarrow>
        let s1 = on_blk p (\<lambda>b. b\<lparr>tTxDescriptor := (tTxDescriptor b)\<lparr>td_tid := tid\<rparr>\<rparr>) s;
            s2 = (if matched \<noteq> TI_OK then on_data (\<lambda>d. d\<lparr>uClsfrMismatchCount := uClsfrMismatchCount d + 1\<rparr>) s1 else s1);
            uQueId = aTidToQueueTable ! unat tid
        in case fifo_enq (aQueueMaxSize (tx_data s2) uQueId) (data_queue s2 uQueId) p of (eStatus, xs) \<Rightarrow>
          let s3 = set_data_queue uQueId xs s2;
              uQueSize = length xs;
              thresh = aTxSendPaceThresh (tx_data s3) uQueId;
              busy = dq_aQueueBusy (tx_data s3) uQueId;
              s4 = (if \<not> busy \<and> uQueSize = thresh then s3\<lparr>pace_timer := False\<rparr>
                    else if \<not> busy \<and> uQueSize < thresh then s3\<lparr>pace_timer := True\<rparr> else s3);
              full = (bStopNetStackTx (tx_data s4) \<and> uQueSize = aQueueMaxSize (tx_data s4) uQueId);
              s5 = (if full then on_data (\<lambda>d. d\<lparr>aNetStackQueueStopped := (aNetStackQueueStopped d)(uQueId := True)\<rparr>) s4 else s4)
          in (uQueId, eStatus, \<not> busy \<and> uQueSize = thresh \<or> full, full, s5))"

text \<open>What follows: the request, the stop of the network stack, and the release of a refused packet.\<close>

definition insert_request :: "bool \<Rightarrow> TxPath \<Rightarrow> TxPath" where
  "insert_request bRequestSchedule s = (if bRequestSchedule then s\<lparr>data_request := True\<rparr> else s)"

definition insert_stop :: "bool \<Rightarrow> TxPath \<Rightarrow> TxPath" where
  "insert_stop bStopNetStack s = (if bStopNetStack then wlanDrvIf_StopTx s else s)"

definition insert_end :: "nat \<Rightarrow> TI_STATUS \<Rightarrow> nat \<Rightarrow> TxPath \<Rightarrow> TxPath" where
  "insert_end uQueId eStatus p s =
     (if eStatus \<noteq> TI_OK
      then count_data uQueId (\<lambda>c. c\<lparr>uDroppedPacket := uDroppedPacket c + 1\<rparr>) (txCtrl_FreePacket p s)
      else count_data uQueId (\<lambda>c. c\<lparr>uEnqueuePacket := uEnqueuePacket c + 1\<rparr>) s)"

definition set_pkt_type :: "nat \<Rightarrow> TI_UINT8 \<Rightarrow> TxPath \<Rightarrow> TxPath" where
  "set_pkt_type p t = on_blk p (\<lambda>b. b\<lparr>tTxPktParams := (tTxPktParams b)\<lparr>uPktType := t\<rparr>\<rparr>)"

definition txDataQ_InsertPacket :: "TxEnv \<Rightarrow> nat \<Rightarrow> TI_UINT8 \<Rightarrow> TxPath \<Rightarrow> TI_STATUS \<times> TxPath" where
  "txDataQ_InsertPacket e p uPacketDtag s =
     (if ether_type e p = ETHERTYPE_EAPOL \<or> ether_type e p = genericEthertype (tx_ctrl s)
      then txMgmtQ_Xmit e p True (set_pkt_type p TX_PKT_TYPE_EAPOL s)
      else case insert_critical (classify e p uPacketDtag) p (set_pkt_type p TX_PKT_TYPE_ETHER s) of
        (uQueId, eStatus, bRequestSchedule, bStopNetStack, s1) \<Rightarrow>
          (eStatus, insert_end uQueId eStatus p (insert_stop bStopNetStack (insert_request bRequestSchedule s1))))"

definition txDataQ_ClearQueues :: "TxPath \<Rightarrow> TxPath" where
  "txDataQ_ClearQueues s =
     foldl (\<lambda>s uQueId. set_data_queue uQueId [] (foldl (\<lambda>s p. txCtrl_FreePacket p s) s (data_queue s uQueId)))
       s [0..<MAX_NUM_OF_AC]"

definition txDataQ_SetDefaults :: "TI_STATUS \<Rightarrow> bool \<Rightarrow> nat \<Rightarrow> TxPath \<Rightarrow> TI_STATUS \<times> TxPath" where
  "txDataQ_SetDefaults clsfr_status stop_stack thresh s =
     (if clsfr_status \<noteq> TI_OK then (clsfr_status, s)
      else (TI_OK, on_data (\<lambda>d. d\<lparr>bStopNetStackTx := stop_stack,
        aTxSendPaceThresh := (aTxSendPaceThresh d)(QOS_AC_BE := thresh, QOS_AC_BK := thresh, QOS_AC_VI := thresh, QOS_AC_VO := 1)\<rparr>) s))"

definition txDataQ_ResetQueueStatistics :: "TxPath \<Rightarrow> TxPath" where
  "txDataQ_ResetQueueStatistics = on_data (\<lambda>d. d\<lparr>aQueueCounters := (\<lambda>q. \<lparr>uEnqueuePacket = 0, uDequeuePacket = 0,
     uRequeuePacket = 0, uXmittedPacket = 0, uDroppedPacket = 0\<rparr>), uTxSendPaceTimeoutsCount := 0\<rparr>)"

section \<open>Access categories and backpressure\<close>

text \<open>The search from an access category downwards, \<open>None\<close> when the loop ends below the lowest.\<close>

fun find_output :: "(nat \<Rightarrow> EAdmissionState) \<Rightarrow> nat \<Rightarrow> nat option" where
  "find_output req 0 = (if req (priorityOrderedAc ! 0) = ADMISSION_NOT_REQUIRED then Some (priorityOrderedAc ! 0) else None)"
| "find_output req (Suc n) = (if req (priorityOrderedAc ! Suc n) = ADMISSION_NOT_REQUIRED
     then Some (priorityOrderedAc ! Suc n) else find_output req n)"

definition txCtrl_UpdateHighestAdmittedAcTable :: "txCtrl_t \<Rightarrow> txCtrl_t" where
  "txCtrl_UpdateHighestAdmittedAcTable c =
     foldl (\<lambda>c inputIdx.
       let inputAc = priorityOrderedAc ! inputIdx;
           outputAc = (if admissionState c inputAc = AC_ADMITTED then inputAc
             else case find_output (admissionRequired c) inputIdx of Some ac \<Rightarrow> ac | None \<Rightarrow> QOS_AC_BE)
       in c\<lparr>highestAdmittedAc := (highestAdmittedAc c)(inputAc := outputAc)\<rparr>) c [0..<MAX_NUM_OF_AC]"

definition txCtrl_UpdateAcToTidMapping :: "txCtrl_t \<Rightarrow> txCtrl_t" where
  "txCtrl_UpdateAcToTidMapping c =
     foldl (\<lambda>c tid.
       let admittedAc = highestAdmittedAc c (WMEQosTagToACTable ! tid)
       in c\<lparr>admittedAcToTidMap := (admittedAcToTidMap c)(admittedAc := admittedAcToTidMap c admittedAc OR push_bit tid 1)\<rparr>)
       (c\<lparr>admittedAcToTidMap := (\<lambda>ac. 0)\<rparr>) [0..<MAX_NUM_OF_802_1d_TAGS]"

lemma drop_bit_1_less: "(w :: 'a::len word) \<noteq> 0 \<Longrightarrow> unat (drop_bit 1 w) < unat w"
proof -
  assume "w \<noteq> 0"
  then have "0 < unat w" by (simp add: unat_gt_0)
  moreover have "unat (drop_bit 1 w) = unat w div 2"
    by (simp only: unsigned_drop_bit_eq) (simp add: drop_bit_eq_div take_bit_nat_eq_self)
  ultimately show "unat (drop_bit 1 w) < unat w" by simp
qed

text \<open>The loop over the bits of the busy access categories.\<close>

function busy_tids :: "(nat \<Rightarrow> TI_UINT32) \<Rightarrow> TI_UINT32 \<Rightarrow> nat \<Rightarrow> TI_UINT32 \<Rightarrow> TI_UINT32" where
  "busy_tids admitted busyAc ac busyTid =
     (if busyAc = 0 then busyTid
      else busy_tids admitted (drop_bit 1 busyAc) (ac + 1)
        (if busyAc AND 1 \<noteq> 0 then busyTid OR admitted ac else busyTid))"
  by pat_completeness auto

termination
  by (relation "measure (\<lambda>(m, b, a, t). unat b)") (simp_all add: drop_bit_1_less del: One_nat_def)

declare busy_tids.simps [simp del]

definition txCtrl_UpdateBackpressure :: "TxEnv \<Rightarrow> TI_UINT32 \<Rightarrow> TxPath \<Rightarrow> TxPath" where
  "txCtrl_UpdateBackpressure e freedAcBitmap s =
     (let busyAc = busyAcBitmap (tx_ctrl s) AND NOT freedAcBitmap;
          busyTid = busy_tids (admittedAcToTidMap (tx_ctrl s)) busyAc 0 0;
          s1 = on_ctrl (\<lambda>c. c\<lparr>busyAcBitmap := busyAc, busyTidBitmap := busyTid\<rparr>) s
      in txMgmtQ_UpdateBusyMap e busyTid (txDataQ_UpdateBusyMap e busyTid s1))"

definition txCtrl_UpdateQueuesMapping :: "TxEnv \<Rightarrow> TxPath \<Rightarrow> TxPath" where
  "txCtrl_UpdateQueuesMapping e s = txCtrl_UpdateBackpressure e 0
     (on_ctrl (\<lambda>c. txCtrl_UpdateAcToTidMapping (txCtrl_UpdateHighestAdmittedAcTable c)) s)"

definition txCtrlParams_setAcAdmissionStatus :: "TxEnv \<Rightarrow> nat \<Rightarrow> EAdmissionState \<Rightarrow> ETrafficAdmState \<Rightarrow> TxPath \<Rightarrow> TxPath" where
  "txCtrlParams_setAcAdmissionStatus e ac req st s = txCtrl_UpdateQueuesMapping e
     (on_ctrl (\<lambda>c. c\<lparr>admissionRequired := (admissionRequired c)(ac := req), admissionState := (admissionState c)(ac := st)\<rparr>) s)"

text \<open>After a recovery the packets that were given to the firmware are freed.\<close>

definition free_sent :: "TxPath \<Rightarrow> nat \<Rightarrow> TxPath" where
  "free_sent s entry =
     (let b = tx_blk s entry
      in if pNextFreeEntry b = None \<and> uFlags (tTxPktParams b) AND TX_CTRL_FLAG_SENT_TO_FW \<noteq> 0
         then txCtrl_FreePacket entry s else s)"

definition txCtrl_NotifyFwReset :: "TxEnv \<Rightarrow> TxPath \<Rightarrow> TI_STATUS \<times> TxPath" where
  "txCtrl_NotifyFwReset e s =
     (TI_OK, foldl free_sent (txCtrl_UpdateBackpressure e 0 (on_ctrl (\<lambda>c. c\<lparr>busyAcBitmap := 0\<rparr>) s))
       [0..<CTRL_BLK_ENTRIES_NUM - 1])"

text \<open>\<open>now\<close> is the time stamp; ages wrap.\<close>

definition pkt_stuck :: "TI_UINT32 \<Rightarrow> TTxCtrlBlk \<Rightarrow> bool" where
  "pkt_stuck now b \<longleftrightarrow> pNextFreeEntry b = None \<and> uFlags (tTxPktParams b) AND TX_CTRL_FLAG_SENT_TO_FW = 0 \<and>
     now - startTime (tTxDescriptor b) > of_nat (MGMT_PKT_LIFETIME_TU * 2 ^ SHIFT_BETWEEN_TU_AND_USEC * 2)"

definition txCtrl_CheckForTxStuck :: "TI_UINT32 \<Rightarrow> TxPath \<Rightarrow> TI_STATUS" where
  "txCtrl_CheckForTxStuck now s =
     (if list_ex (\<lambda>entry. pkt_stuck now (tx_blk s entry)) [0..<CTRL_BLK_ENTRIES_NUM - 1] then TI_NOK else TI_OK)"

section \<open>Creation and initialisation\<close>

text \<open>A module is zeroed when it is created; \<open>None\<close> when the allocator fails. Zero is the first constructor of an enum.\<close>

definition txMgmtQ_Create :: "bool \<Rightarrow> TTxMgmtQ option" where
  "txMgmtQ_Create alloc_ok = (if \<not> alloc_ok then None else
     Some \<lparr>bMgmtPortEnable = False, eSmState = SM_STATE_CLOSE, eTxConnState = TX_CONN_STATE_CLOSE, mq_aQueues = [],
       mq_aQueueBusy = (\<lambda>i. False), aQueueEnabledBySM = (\<lambda>i. False),
       tDbgCounters = \<lparr>aEnqueuePackets = (\<lambda>i. 0), aDequeuePackets = (\<lambda>i. 0), aRequeuePackets = (\<lambda>i. 0),
         aDroppedPackets = (\<lambda>i. 0), aXmittedPackets = (\<lambda>i. 0)\<rparr>\<rparr>)"

definition txDataQ_Create :: "bool \<Rightarrow> TTxDataQ option" where
  "txDataQ_Create alloc_ok = (if \<not> alloc_ok then None else
     Some \<lparr>bDataPortEnable = False, aQueueMaxSize = (\<lambda>i. 0), aTxSendPaceThresh = (\<lambda>i. 0), dq_aQueues = [],
       dq_aQueueBusy = (\<lambda>i. False), uLastQueId = 0, aNetStackQueueStopped = (\<lambda>i. False), bStopNetStackTx = False,
       aQueueCounters = (\<lambda>q. \<lparr>uEnqueuePacket = 0, uDequeuePacket = 0, uRequeuePacket = 0, uXmittedPacket = 0, uDroppedPacket = 0\<rparr>),
       uClsfrMismatchCount = 0, uTxSendPaceTimeoutsCount = 0\<rparr>)"

definition txPort_create :: "bool \<Rightarrow> TTxPortObj option" where
  "txPort_create alloc_ok = (if \<not> alloc_ok then None else
     Some \<lparr>queuesMuxState = MUX_MGMT_QUEUES, txSuspended = False, mgmtQueueEnabled = False, dataQueueEnabled = False\<rparr>)"

definition txCtrl_Create :: "bool \<Rightarrow> txCtrl_t option" where
  "txCtrl_Create alloc_ok = (if \<not> alloc_ok then None else
     Some \<lparr>genericEthertype = 0, busyAcBitmap = 0, busyTidBitmap = 0, admittedAcToTidMap = (\<lambda>i. 0), highestAdmittedAc = (\<lambda>i. 0),
       admissionState = (\<lambda>i. AC_NOT_ADMITTED), admissionRequired = (\<lambda>i. ADMISSION_NOT_REQUIRED),
       dbgCounters = \<lparr>dbgNumPktsSent = (\<lambda>i. 0), dbgNumPktsBackpressure = (\<lambda>i. 0), dbgNumPktsBusy = (\<lambda>i. 0),
         dbgNumPktsSuccess = (\<lambda>i. 0), dbgNumPktsError = (\<lambda>i. 0)\<rparr>\<rparr>)"

text \<open>Destruction clears the queues; \<open>que_st\<close> is what destroying each of them answers.\<close>

definition txMgmtQ_Destroy :: "(nat \<Rightarrow> TI_STATUS) \<Rightarrow> TxPath \<Rightarrow> TI_STATUS \<times> TxPath" where
  "txMgmtQ_Destroy que_st s =
     (foldl (\<lambda>st i. if que_st i \<noteq> TI_OK then TI_NOK else st) TI_OK [0..<NUM_OF_MGMT_QUEUES], txMgmtQ_ClearQueues s)"

definition txDataQ_Destroy :: "(nat \<Rightarrow> TI_STATUS) \<Rightarrow> TxPath \<Rightarrow> TI_STATUS \<times> TxPath" where
  "txDataQ_Destroy que_st s =
     (foldl (\<lambda>st i. if que_st i \<noteq> TI_OK then TI_NOK else st) TI_OK [0..<MAX_NUM_OF_AC], (txDataQ_ClearQueues s)\<lparr>pace_timer := False\<rparr>)"

text \<open>\<open>ok\<close> tells whether the queues can be created; the module is freed if not. A new queue is empty.\<close>

definition txMgmtQ_Init :: "bool \<Rightarrow> TTxMgmtQ \<Rightarrow> TTxMgmtQ option" where
  "txMgmtQ_Init ok m = (if \<not> ok then None else
     Some (m\<lparr>bMgmtPortEnable := True, eSmState := SM_STATE_CLOSE, eTxConnState := TX_CONN_STATE_CLOSE,
       mq_aQueues := [[], []],
       mq_aQueueBusy := (mq_aQueueBusy m)(QUEUE_TYPE_MGMT := False, QUEUE_TYPE_EAPOL := False),
       aQueueEnabledBySM := (aQueueEnabledBySM m)(QUEUE_TYPE_MGMT := False, QUEUE_TYPE_EAPOL := False)\<rparr>))"

definition txDataQ_Init :: "bool \<Rightarrow> TTxDataQ \<Rightarrow> TTxDataQ option" where
  "txDataQ_Init ok d = (if \<not> ok then None else
     Some (foldl (\<lambda>d uQueId. d\<lparr>dq_aQueues := dq_aQueues d @ [[]],
       dq_aQueueBusy := (dq_aQueueBusy d)(uQueId := False),
       aNetStackQueueStopped := (aNetStackQueueStopped d)(uQueId := False),
       aTxSendPaceThresh := (aTxSendPaceThresh d)(uQueId := 1)\<rparr>)
     (d\<lparr>bDataPortEnable := False, uLastQueId := 0, dq_aQueues := [],
        aQueueMaxSize := (aQueueMaxSize d)(QOS_AC_BE := DATA_QUEUE_DEPTH_BE, QOS_AC_BK := DATA_QUEUE_DEPTH_BK,
          QOS_AC_VI := DATA_QUEUE_DEPTH_VI, QOS_AC_VO := DATA_QUEUE_DEPTH_VO)\<rparr>) [0..<MAX_NUM_OF_AC]))"

definition txPort_init :: "TTxPortObj \<Rightarrow> TTxPortObj" where
  "txPort_init p = p\<lparr>queuesMuxState := MUX_MGMT_QUEUES, txSuspended := False, mgmtQueueEnabled := True, dataQueueEnabled := False\<rparr>"

definition txCtrl_Init :: "txCtrl_t \<Rightarrow> txCtrl_t" where
  "txCtrl_Init c = foldl (\<lambda>c ac. c\<lparr>admissionState := (admissionState c)(ac := AC_ADMITTED),
       admissionRequired := (admissionRequired c)(ac := ADMISSION_NOT_REQUIRED)\<rparr>)
     (c\<lparr>busyAcBitmap := 0, genericEthertype := ETHERTYPE_EAPOL\<rparr>) [0..<MAX_NUM_OF_AC]"

end
