(* ===== verification/WlTxInv.thy ===== *)
theory WlTxInv
  imports WlTxFlow
begin

text \<open>
  What sending a packet and the two schedulers keep: the backpressure that the queues see is backed by
  the firmware's queues, and a scheduler leaves a packet waiting only under backpressure.
\<close>

section \<open>Backpressure\<close>

text \<open>Some queue of the firmware is waiting for memory; it is woken when memory is released.\<close>

definition hw_busy :: "TxPath \<Rightarrow> bool" where
  "hw_busy s \<longleftrightarrow> (\<exists>i<MAX_NUM_OF_AC. bQueueBusy (aTxHwQueueInfo (tx_hw s) ! i))"

definition busy_flag :: "TxPath \<Rightarrow> bool" where
  "busy_flag s \<longleftrightarrow> (\<exists>q<MAX_NUM_OF_AC. dq_aQueueBusy (tx_data s) q)"

text \<open>The flags of the management queues are updated after those of the data queues.\<close>

definition mgmt_busy_ok :: "TxPath \<Rightarrow> bool" where
  "mgmt_busy_ok s \<longleftrightarrow> (\<forall>j<2. mq_aQueueBusy (tx_mgmt s) j \<longrightarrow> hw_busy s)"

definition hw_core :: "TxPath \<Rightarrow> bool" where
  "hw_core s \<longleftrightarrow> length (aTxHwQueueInfo (tx_hw s)) = MAX_NUM_OF_AC \<and> (\<forall>t\<in>set (tx_tids s). unat t < MAX_NUM_OF_802_1d_TAGS) \<and>
     (\<forall>ac<MAX_NUM_OF_AC. highestAdmittedAc (tx_ctrl s) ac < MAX_NUM_OF_AC) \<and>
     (\<forall>ac. bit (busyAcBitmap (tx_ctrl s)) ac \<longrightarrow> ac < MAX_NUM_OF_AC \<and> bQueueBusy (aTxHwQueueInfo (tx_hw s) ! ac)) \<and>
     fUpdateBusyMapCb (tx_hw s) \<noteq> None"

definition hw_ok :: "TxPath \<Rightarrow> bool" where
  "hw_ok s \<longleftrightarrow> hw_core s \<and> (busy_flag s \<longrightarrow> hw_busy s)"

text \<open>The builders do not touch the TID and the type of a packet, and the classifier gives a TID.\<close>

definition env_ok :: "TxEnv \<Rightarrow> bool" where
  "env_ok e \<longleftrightarrow> (\<forall>ac bp b. td_tid (tTxDescriptor (build_data e ac bp b)) = td_tid (tTxDescriptor b) \<and>
       uPktType (tTxPktParams (build_data e ac bp b)) = uPktType (tTxPktParams b)) \<and>
     (\<forall>ac b. td_tid (tTxDescriptor (build_mgmt e ac b)) = td_tid (tTxDescriptor b) \<and>
       uPktType (tTxPktParams (build_mgmt e ac b)) = uPktType (tTxPktParams b)) \<and>
     (\<forall>p d. unat (snd (classify e p d)) < MAX_NUM_OF_802_1d_TAGS)"

definition same_fields :: "TxPath \<Rightarrow> TxPath \<Rightarrow> bool" where
  "same_fields s' s \<longleftrightarrow> tx_types s' = tx_types s \<and> eTxConnState (tx_mgmt s') = eTxConnState (tx_mgmt s) \<and>
     (hw_busy s \<longrightarrow> hw_busy s') \<and> (mgmt_busy_ok s \<longrightarrow> mgmt_busy_ok s')"

lemma same_hw_ok: "same_hw s' s \<Longrightarrow> hw_ok s' = hw_ok s" "same_hw s' s \<Longrightarrow> hw_busy s' = hw_busy s"
  "same_hw s' s \<Longrightarrow> hw_core s' = hw_core s" "same_hw s' s \<Longrightarrow> mgmt_busy_ok s' = mgmt_busy_ok s"
  by (simp_all add: same_hw_def hw_ok_def hw_core_def hw_busy_def busy_flag_def mgmt_busy_ok_def)

lemma length_tx_lists: "length (tx_tids s) = length (aTxCtrlBlkTbl (tx_blks s))" "length (tx_types s) = length (tx_tids s)"
  by (simp_all add: tx_tids_def tx_types_def)

lemma ac_bounds: "MAX_NUM_OF_AC = 4" "MAX_NUM_OF_802_1d_TAGS = 8"
  by (simp_all add: MAX_NUM_OF_AC_def MAX_NUM_OF_802_1d_TAGS_def)

lemma tag_ac_less: "n < MAX_NUM_OF_802_1d_TAGS \<Longrightarrow> WMEQosTagToACTable ! n < MAX_NUM_OF_AC"
  by (auto simp: ac_bounds numeral_eq_Suc less_Suc_eq WMEQosTagToACTable_def QOS_AC_BE_def QOS_AC_BK_def QOS_AC_VI_def QOS_AC_VO_def)

lemma ac_tid:
  assumes "ac < MAX_NUM_OF_AC"
  shows "unat (WMEQosAcToTid ! ac) < MAX_NUM_OF_802_1d_TAGS" "WMEQosTagToACTable ! unat (WMEQosAcToTid ! ac) = ac"
proof -
  have "ac \<in> {0, 1, 2, 3}" using assms by (auto simp: ac_bounds)
  then show "unat (WMEQosAcToTid ! ac) < MAX_NUM_OF_802_1d_TAGS" "WMEQosTagToACTable ! unat (WMEQosAcToTid ! ac) = ac"
    by (auto simp: ac_bounds WMEQosTagToACTable_def WMEQosAcToTid_def QOS_AC_BE_def QOS_AC_BK_def QOS_AC_VI_def QOS_AC_VO_def)
qed

lemma alloc_busy:
  assumes "txHwQueue_AllocResources q d = (st, q', d')" "length (aTxHwQueueInfo q) = MAX_NUM_OF_AC"
    "unat (td_tid d) < MAX_NUM_OF_802_1d_TAGS"
  shows "length (aTxHwQueueInfo q') = MAX_NUM_OF_AC" "td_tid d' = td_tid d" "fUpdateBusyMapCb q' = fUpdateBusyMapCb q"
    "i < MAX_NUM_OF_AC \<Longrightarrow> bQueueBusy (aTxHwQueueInfo q' ! i) =
      (bQueueBusy (aTxHwQueueInfo q ! i) \<or> i = WMEQosTagToACTable ! unat (td_tid d) \<and> st \<noteq> TX_HW_QUE_STATUS_SUCCESS)"
  using assms tag_ac_less [OF assms(3)]
  by (auto simp: txHwQueue_AllocResources_def Let_def nth_list_update split: if_splits prod.splits)

lemma tx_list_on_blk:
  "(\<And>b. uPktType (tTxPktParams (f b)) = uPktType (tTxPktParams b)) \<Longrightarrow> tx_types (on_blk p f s) = tx_types s"
  "p < length (tx_tids s) \<Longrightarrow> tx_tids (on_blk p f s) = (tx_tids s)[p := td_tid (tTxDescriptor (f (tx_blk s p)))]"
  "tx_hw (on_blk p f s) = tx_hw s" "tx_ctrl (on_blk p f s) = tx_ctrl s" "tx_mgmt (on_blk p f s) = tx_mgmt s"
  "tx_data (on_blk p f s) = tx_data s" "sent (on_blk p f s) = sent s"
  "p < length (tx_tids s) \<Longrightarrow> tx_blk (on_blk p f s) p = f (tx_blk s p)" "length (tx_tids (on_blk p f s)) = length (tx_tids s)"
proof -
  assume f: "\<And>b. uPktType (tTxPktParams (f b)) = uPktType (tTxPktParams b)"
  show "tx_types (on_blk p f s) = tx_types s"
    by (cases "p < length (aTxCtrlBlkTbl (tx_blks s))")
      (auto intro!: nth_equalityI simp: tx_types_def on_blk_def nth_list_update f)
qed (simp_all add: tx_tids_def on_blk_def tx_blk_def map_update)

lemma hw_core_blk:
  assumes "hw_core s" "p < length (tx_tids s)" "unat (td_tid (tTxDescriptor (f (tx_blk s p)))) < MAX_NUM_OF_802_1d_TAGS"
  shows "hw_core (on_blk p f s)"
  using assms set_update_subset_insert [of "tx_tids s" p "td_tid (tTxDescriptor (f (tx_blk s p)))"]
  by (auto simp: hw_core_def tx_list_on_blk)

lemma tx_blk_tid: "p < length (tx_tids s) \<Longrightarrow> td_tid (tTxDescriptor (tx_blk s p)) = tx_tids s ! p"
  "p < length (tx_tids s) \<Longrightarrow> uPktType (tTxPktParams (tx_blk s p)) = tx_types s ! p"
  by (simp_all add: tx_tids_def tx_types_def tx_blk_def)

lemma hw_core_tid: "hw_core s \<Longrightarrow> p < length (tx_tids s) \<Longrightarrow> unat (td_tid (tTxDescriptor (tx_blk s p))) < MAX_NUM_OF_802_1d_TAGS"
  by (simp add: hw_core_def tx_blk_tid)

lemma hw_busy_blk [simp]: "hw_busy (on_blk p f s) = hw_busy s" "busy_flag (on_blk p f s) = busy_flag s"
  "mgmt_busy_ok (on_blk p f s) = mgmt_busy_ok s"
  by (simp_all add: hw_busy_def busy_flag_def mgmt_busy_ok_def tx_list_on_blk)

text \<open>The management queues are not touched, or a queue of the firmware is busy.\<close>

lemma mgmt_busy_mono:
  "hw_busy s \<longrightarrow> hw_busy s' \<Longrightarrow> tx_mgmt s' = tx_mgmt s \<Longrightarrow> mgmt_busy_ok s \<longrightarrow> mgmt_busy_ok s'" "hw_busy s' \<Longrightarrow> mgmt_busy_ok s'"
  by (simp_all add: mgmt_busy_ok_def)

lemma select_ok:
  assumes "SELECT_AC_FOR_TID p s = (ac, s')" "hw_ok s" "p < length (tx_tids s)"
  shows "hw_ok s' \<and> same_fields s' s \<and> sent s' = sent s \<and> ac < MAX_NUM_OF_AC \<and> length (tx_tids s') = length (tx_tids s) \<and>
    WMEQosTagToACTable ! unat (td_tid (tTxDescriptor (tx_blk s' p))) = ac"
proof -
  let ?t = "unat (td_tid (tTxDescriptor (tx_blk s p)))"
  have core: "hw_core s" using assms(2) by (simp add: hw_ok_def)
  have ac: "ac = highestAdmittedAc (tx_ctrl s) (WMEQosTagToACTable ! ?t)"
    using assms(1) by (auto simp: SELECT_AC_FOR_TID_def Let_def split: if_splits)
  have less: "ac < MAX_NUM_OF_AC"
    using core tag_ac_less [OF hw_core_tid [OF core assms(3)]] by (simp add: ac hw_core_def)
  show ?thesis
  proof (cases "ac = WMEQosTagToACTable ! ?t")
    case True
    then have "s' = s" using assms(1) by (auto simp: SELECT_AC_FOR_TID_def Let_def split: if_splits)
    then show ?thesis using assms(2) less True by (simp add: same_fields_def)
  next
    case False
    let ?f = "\<lambda>b. b\<lparr>tTxDescriptor := (tTxDescriptor b)\<lparr>td_tid := WMEQosAcToTid ! ac\<rparr>\<rparr>"
    have s': "s' = on_blk p ?f s" using assms(1) False by (auto simp: SELECT_AC_FOR_TID_def Let_def split: if_splits)
    have "hw_core s'" unfolding s' by (rule hw_core_blk [OF core assms(3)]) (simp add: ac_tid(1) [OF less])
    then show ?thesis
      using assms(2,3) less ac_tid(2) [OF less] by (simp add: s' hw_ok_def same_fields_def tx_list_on_blk)
  qed
qed

lemma alloc_ok:
  assumes "TWD_txHwQueue_AllocResources p s = (st, s')" "hw_ok s" "p < length (tx_tids s)"
    "WMEQosTagToACTable ! unat (td_tid (tTxDescriptor (tx_blk s p))) = ac"
  shows "hw_ok s' \<and> same_fields s' s \<and> sent s' = sent s \<and> length (tx_tids s') = length (tx_tids s) \<and> tx_ctrl s' = tx_ctrl s \<and>
    (st \<noteq> TX_HW_QUE_STATUS_SUCCESS \<longrightarrow> bQueueBusy (aTxHwQueueInfo (tx_hw s') ! ac))"
proof -
  obtain hw d where alc: "txHwQueue_AllocResources (tx_hw s) (tTxDescriptor (tx_blk s p)) = (st, hw, d)"
    using assms(1) by (auto simp: TWD_txHwQueue_AllocResources_def split: prod.splits)
  have s': "s' = on_blk p (\<lambda>b. b\<lparr>tTxDescriptor := d\<rparr>) (s\<lparr>tx_hw := hw\<rparr>)"
    using assms(1) alc by (simp add: TWD_txHwQueue_AllocResources_def)
  have core: "hw_core s" using assms(2) by (simp add: hw_ok_def)
  have len: "length (aTxHwQueueInfo (tx_hw s)) = MAX_NUM_OF_AC" using core by (simp add: hw_core_def)
  have tid: "unat (td_tid (tTxDescriptor (tx_blk s p))) < MAX_NUM_OF_802_1d_TAGS" by (rule hw_core_tid [OF core assms(3)])
  note a = alloc_busy [OF alc len tid]
  have ac: "ac < MAX_NUM_OF_AC" using tag_ac_less [OF tid] assms(4) by simp
  have "hw_core (s\<lparr>tx_hw := hw\<rparr>)"
    using core a by (auto simp: hw_core_def tx_tids_def)
  then have "hw_core s'"
    unfolding s' using hw_core_tid [OF core assms(3)] assms(3) a(2) by (intro hw_core_blk) (simp_all add: tx_tids_def)
  moreover have mono: "hw_busy s \<Longrightarrow> hw_busy s'" using a(4) by (auto simp: s' hw_busy_def tx_list_on_blk)
  moreover have "busy_flag s' = busy_flag s" by (simp add: s' busy_flag_def tx_list_on_blk)
  moreover have "st \<noteq> TX_HW_QUE_STATUS_SUCCESS \<longrightarrow> bQueueBusy (aTxHwQueueInfo (tx_hw s') ! ac)"
    using a(4) [OF ac] assms(4) by (simp add: s' tx_list_on_blk)
  moreover have "tx_types s' = tx_types s"
    using tx_list_on_blk(1) [of "\<lambda>b. b\<lparr>tTxDescriptor := d\<rparr>" p "s\<lparr>tx_hw := hw\<rparr>"] by (simp add: s') (simp add: tx_types_def)
  moreover have "length (tx_tids s') = length (tx_tids s)" by (simp add: s' tx_list_on_blk) (simp add: tx_tids_def)
  moreover have "tx_mgmt s' = tx_mgmt s" by (simp add: s' tx_list_on_blk)
  ultimately show ?thesis using assms(2) mgmt_busy_mono(1) [of s s'] by (auto simp: hw_ok_def same_fields_def s' tx_list_on_blk)
qed


text \<open>A function that stops queues touches their busy flags only.\<close>

definition stop_ok :: "(TI_UINT32 \<Rightarrow> TxPath \<Rightarrow> TxPath) \<Rightarrow> bool" where
  "stop_ok stop \<longleftrightarrow> (\<forall>m u. tx_hw (stop m u) = tx_hw u \<and> tx_ctrl (stop m u) = tx_ctrl u \<and> tx_blks (stop m u) = tx_blks u \<and>
     sent (stop m u) = sent u \<and> eTxConnState (tx_mgmt (stop m u)) = eTxConnState (tx_mgmt u))"

lemma stop_ok_queues: "stop_ok txMgmtQ_StopQueue" "stop_ok txDataQ_StopQueue"
  by (simp_all add: stop_ok_def txMgmtQ_StopQueue_def txDataQ_StopQueue_def on_mgmt_def on_data_def updateQueuesBusyMap_def)

lemma count_dbg_sel [simp]:
  "tx_hw (count_dbg f s) = tx_hw s" "tx_blks (count_dbg f s) = tx_blks s" "sent (count_dbg f s) = sent s"
  "tx_mgmt (count_dbg f s) = tx_mgmt s" "tx_data (count_dbg f s) = tx_data s" "tx_tids (count_dbg f s) = tx_tids s"
  "tx_types (count_dbg f s) = tx_types s" "tx_blk (count_dbg f s) = tx_blk s"
  "busyAcBitmap (tx_ctrl (count_dbg f s)) = busyAcBitmap (tx_ctrl s)"
  "highestAdmittedAc (tx_ctrl (count_dbg f s)) = highestAdmittedAc (tx_ctrl s)"
  "admittedAcToTidMap (tx_ctrl (count_dbg f s)) = admittedAcToTidMap (tx_ctrl s)"
  by (simp_all add: count_dbg_def on_ctrl_def tx_tids_def tx_types_def tx_blk_def fun_eq_iff)

lemma count_dbg_ok [simp]: "hw_ok (count_dbg f s) = hw_ok s" "hw_busy (count_dbg f s) = hw_busy s" "hw_core (count_dbg f s) = hw_core s"
  "mgmt_busy_ok (count_dbg f s) = mgmt_busy_ok s"
  by (simp_all add: hw_ok_def hw_core_def hw_busy_def busy_flag_def mgmt_busy_ok_def)

lemma same_fields_trans: "same_fields s'' s' \<Longrightarrow> same_fields s' s \<Longrightarrow> same_fields s'' s"
  by (simp add: same_fields_def)

lemma same_fields_count [simp]: "same_fields (count_dbg f s) s' = same_fields s s'" "same_fields s' (count_dbg f s) = same_fields s' s"
  by (simp_all add: same_fields_def)

lemma stop_keeps:
  assumes "stop_ok stop" "hw_core u" "hw_busy u"
  shows "hw_ok (stop m u)" "hw_busy (stop m u)" "same_fields (stop m u) u" "sent (stop m u) = sent u"
    "tx_tids (stop m u) = tx_tids u" "hw_core (stop m u)" "tx_blk (stop m u) = tx_blk u"
  using assms by (simp_all add: stop_ok_def hw_ok_def hw_core_def hw_busy_def same_fields_def mgmt_busy_ok_def tx_tids_def tx_types_def tx_blk_def fun_eq_iff)

lemma bit_or_push: "bit (w OR 2 ^ ac :: TI_UINT32) n \<longleftrightarrow> bit w n \<or> n = ac \<and> n < 32"
  by (auto simp: bit_simps)

lemma set_busy_ok:
  assumes "hw_core s" "bQueueBusy (aTxHwQueueInfo (tx_hw s) ! ac)" "ac < MAX_NUM_OF_AC"
  shows "hw_core (on_ctrl (\<lambda>c. c\<lparr>busyAcBitmap := busyAcBitmap c OR push_bit ac 1\<rparr>) s)"
  using assms by (auto simp: hw_core_def on_ctrl_def tx_tids_def bit_or_push)

lemma xmit_packet_ok:
  assumes "hw_ok s" "p < length (tx_tids s)" "xmit_packet e ac p s = (st, s')"
  shows "hw_ok s' \<and> same_fields s' s \<and> st \<noteq> STATUS_XMIT_BUSY \<and> length (tx_tids s') = length (tx_tids s) \<and>
    sent s' = sent s @ [TxSent p (tx_types s ! p) (eTxConnState (tx_mgmt s))]"
proof -
  let ?s1 = "s\<lparr>sent := sent s @ [TxSent p (tx_types s ! p) (eTxConnState (tx_mgmt s))]\<rparr>"
  have 1: "TWD_txXfer_SendPacket e p s = (xfer e (sent s) p, ?s1)"
    using assms(2) by (simp add: TWD_txXfer_SendPacket_def tx_blk_tid)
  have 2: "hw_ok ?s1 = hw_ok s" "same_fields ?s1 s" "tx_tids ?s1 = tx_tids s"
    by (simp_all add: hw_ok_def hw_core_def hw_busy_def busy_flag_def same_fields_def mgmt_busy_ok_def tx_tids_def tx_types_def)
  show ?thesis
  proof (cases "xfer e (sent s) p = TXN_STATUS_ERROR")
    case True
    let ?u = "count_dbg (\<lambda>c. c\<lparr>dbgNumPktsError := inc_at ac (dbgNumPktsError c)\<rparr>) ?s1"
    have r: "st = STATUS_XMIT_ERROR" "s' = txCtrl_FreePacket p ?u"
      using assms(3) True by (simp_all add: xmit_packet_def 1)
    have "same_hw s' ?u" unfolding r by (rule free_hw)
    moreover have "tx_mgmt s' = tx_mgmt ?u" by (simp add: r txCtrl_FreePacket_def)
    ultimately show ?thesis
      using assms(1) 2 same_hw_ok [of s' ?u] by (simp add: r(1) same_hw_def same_fields_def)
  next
    case False
    then show ?thesis using assms(1,3) 2 by (auto simp: xmit_packet_def 1)
  qed
qed

lemma build_ok:
  assumes "env_ok e" "build = build_data e \<or> build = (\<lambda>ac bp. build_mgmt e ac)"
  shows "td_tid (tTxDescriptor (build ac bp b)) = td_tid (tTxDescriptor b)" "uPktType (tTxPktParams (build ac bp b)) = uPktType (tTxPktParams b)"
  using assms by (auto simp: env_ok_def)

lemma build_blk_ok:
  assumes "env_ok e" "build = build_data e \<or> build = (\<lambda>ac bp. build_mgmt e ac)" "hw_ok s" "p < length (tx_tids s)"
  shows "hw_ok (on_blk p (build ac bp) s)" "same_fields (on_blk p (build ac bp) s) s" "tx_types (on_blk p (build ac bp) s) = tx_types s"
  using assms(3,4) hw_core_blk [of s p "build ac bp"] hw_core_tid [of s p] build_ok [OF assms(1,2)]
  by (auto simp: hw_ok_def same_fields_def tx_list_on_blk)

text \<open>
  Sending keeps the backpressure; a packet that is put back leaves a queue of the firmware waiting, and
  any other is given to the transfer, with its type and the state of the connection.
\<close>

lemma txCtrl_Xmit_ok:
  assumes e: "env_ok e" and stop: "stop_ok stop" and build: "build = build_data e \<or> build = (\<lambda>ac bp. build_mgmt e ac)"
    and s: "hw_ok s" "p < length (tx_tids s)" and x: "txCtrl_Xmit e stop build p s = (st, s')"
  shows "hw_ok s' \<and> same_fields s' s \<and> length (tx_tids s') = length (tx_tids s) \<and>
    (if st = STATUS_XMIT_BUSY then hw_busy s' \<and> sent s' = sent s
     else sent s' = sent s @ [TxSent p (tx_types s ! p) (eTxConnState (tx_mgmt s))])"
proof -
  obtain ac s1 where sel: "SELECT_AC_FOR_TID p s = (ac, s1)" by fastforce
  note 1 = select_ok [OF sel s]
  let ?u = "count_dbg (\<lambda>c. c\<lparr>dbgNumPktsSent := inc_at ac (dbgNumPktsSent c)\<rparr>) s1"
  obtain hst s2 where alc: "TWD_txHwQueue_AllocResources p ?u = (hst, s2)" by fastforce
  have 2: "hw_ok s2 \<and> same_fields s2 s \<and> sent s2 = sent s \<and> length (tx_tids s2) = length (tx_tids s) \<and>
      (hst \<noteq> TX_HW_QUE_STATUS_SUCCESS \<longrightarrow> bQueueBusy (aTxHwQueueInfo (tx_hw s2) ! ac))"
    using alloc_ok [OF alc, of ac] 1 s(2) same_fields_trans [of s2 s1 s] by simp
  have ac: "ac < MAX_NUM_OF_AC" using 1 by simp
  have core2: "hw_core s2" using 2 by (simp add: hw_ok_def)
  show ?thesis
  proof (cases "hst = TX_HW_QUE_STATUS_STOP_CURRENT")
    case True
    let ?w = "count_dbg (\<lambda>c. c\<lparr>dbgNumPktsBusy := inc_at ac (dbgNumPktsBusy c)\<rparr>) s2"
    have "hw_busy s2" using 2 ac True by (auto simp: hw_busy_def)
    then show ?thesis
      using stop_keeps [OF stop, of ?w "admittedAcToTidMap (tx_ctrl s2) ac"] core2 2 x same_fields_trans [of _ s2 s]
      by (simp add: txCtrl_Xmit_def sel alc True)
  next
    case False
    let ?v = "on_ctrl (\<lambda>c. c\<lparr>busyAcBitmap := busyAcBitmap c OR push_bit ac 1\<rparr>)
      (count_dbg (\<lambda>c. c\<lparr>dbgNumPktsBackpressure := inc_at ac (dbgNumPktsBackpressure c)\<rparr>) s2)"
    define s3 where "s3 = (if hst = TX_HW_QUE_STATUS_STOP_NEXT then stop (admittedAcToTidMap (tx_ctrl s2) ac) ?v else s2)"
    define s4 where "s4 = on_blk p (build ac (hst = TX_HW_QUE_STATUS_STOP_NEXT)) s3"
    have 3: "hw_ok s3 \<and> same_fields s3 s \<and> sent s3 = sent s \<and> length (tx_tids s3) = length (tx_tids s)"
    proof (cases "hst = TX_HW_QUE_STATUS_STOP_NEXT")
      case True
      have b: "bQueueBusy (aTxHwQueueInfo (tx_hw s2) ! ac)" using 2 True by simp
      then have "hw_core ?v" using core2 ac by (intro set_busy_ok) simp_all
      moreover have v: "hw_busy ?v" "same_fields ?v s2" "sent ?v = sent s2" "tx_tids ?v = tx_tids s2"
        using b ac by (auto simp: hw_busy_def on_ctrl_def same_fields_def mgmt_busy_ok_def tx_types_def tx_tids_def count_dbg_def)
      ultimately show ?thesis
        using stop_keeps [OF stop, of ?v "admittedAcToTidMap (tx_ctrl s2) ac"] 2 same_fields_trans [of s3 ?v s2] same_fields_trans [of s3 s2 s]
        by (simp add: s3_def True)
    qed (use 2 in \<open>simp add: s3_def\<close>)
    then have p3: "p < length (tx_tids s3)" using s(2) by simp
    have 4: "hw_ok s4" "same_fields s4 s3" "tx_types s4 = tx_types s3" "sent s4 = sent s3" "length (tx_tids s4) = length (tx_tids s3)"
      using build_blk_ok [OF e build _ p3] 3 by (simp_all add: s4_def tx_list_on_blk)
    have "xmit_packet e ac p s4 = (st, s')"
      using x False by (simp add: txCtrl_Xmit_def sel alc s3_def [symmetric] s4_def [symmetric] Let_def)
    from xmit_packet_ok [OF 4(1) _ this] 4 3 p3
    show ?thesis by (auto simp: same_fields_def)
  qed
qed


section \<open>Queued packets and what may be sent\<close>

text \<open>The connection states in which a packet type may be sent.\<close>

definition permitted :: "ETxConnState \<Rightarrow> TI_UINT8 \<Rightarrow> bool" where
  "permitted c t = (if t = TX_PKT_TYPE_MGMT then c \<noteq> TX_CONN_STATE_CLOSE
     else if t = TX_PKT_TYPE_ETHER then c = TX_CONN_STATE_OPEN
     else c = TX_CONN_STATE_EAPOL \<or> c = TX_CONN_STATE_OPEN)"

definition log_ok :: "TxPath \<Rightarrow> bool" where
  "log_ok s \<longleftrightarrow> (\<forall>x\<in>set (sent s). permitted (ts_conn x) (ts_type x))"

text \<open>Which types a management queue holds.\<close>

definition mgmt_type :: "nat \<Rightarrow> TI_UINT8 \<Rightarrow> bool" where
  "mgmt_type j t = (if j = QUEUE_TYPE_MGMT then t = TX_PKT_TYPE_MGMT else t \<noteq> TX_PKT_TYPE_MGMT \<and> t \<noteq> TX_PKT_TYPE_ETHER)"

definition queue_ok :: "TxPath \<Rightarrow> bool" where
  "queue_ok s \<longleftrightarrow> length (mq_aQueues (tx_mgmt s)) = NUM_OF_MGMT_QUEUES \<and> length (dq_aQueues (tx_data s)) = MAX_NUM_OF_AC \<and>
     (\<forall>j. \<forall>p\<in>set (mgmt_queue s j). p < length (tx_types s) \<and> mgmt_type j (tx_types s ! p)) \<and>
     (\<forall>q. \<forall>p\<in>set (data_queue s q). p < length (tx_types s) \<and> tx_types s ! p = TX_PKT_TYPE_ETHER)"

definition tx_good :: "TxPath \<Rightarrow> bool" where
  "tx_good s \<longleftrightarrow> hw_ok s \<and> queue_ok s \<and> log_ok s"

text \<open>The enabled queues and the open data port are those that the connection permits.\<close>

definition gates_ok :: "TxPath \<Rightarrow> bool" where
  "gates_ok s \<longleftrightarrow>
     (aQueueEnabledBySM (tx_mgmt s) QUEUE_TYPE_MGMT \<longrightarrow> eTxConnState (tx_mgmt s) \<noteq> TX_CONN_STATE_CLOSE) \<and>
     (aQueueEnabledBySM (tx_mgmt s) QUEUE_TYPE_EAPOL \<longrightarrow>
        eTxConnState (tx_mgmt s) = TX_CONN_STATE_EAPOL \<or> eTxConnState (tx_mgmt s) = TX_CONN_STATE_OPEN)"

lemma que_types: "QUEUE_TYPE_MGMT = 0" "QUEUE_TYPE_EAPOL = 1" "NUM_OF_MGMT_QUEUES = 2"
  by (simp_all add: QUEUE_TYPE_MGMT_def QUEUE_TYPE_EAPOL_def NUM_OF_MGMT_QUEUES_def)

lemma gate_permits:
  assumes "gates_ok s" "aQueueEnabledBySM (tx_mgmt s) i" "i < NUM_OF_MGMT_QUEUES" "mgmt_type i t"
  shows "permitted (eTxConnState (tx_mgmt s)) t"
proof -
  consider "i = QUEUE_TYPE_MGMT" | "i = QUEUE_TYPE_EAPOL" using less_2_cases [of i] assms(3) by (auto simp: que_types)
  then show ?thesis using assms by cases (auto simp: gates_ok_def mgmt_type_def permitted_def que_types)
qed

lemma queue_okD:
  assumes "queue_ok s"
  shows "p \<in> set (mgmt_queue s j) \<Longrightarrow> p < length (tx_types s) \<and> mgmt_type j (tx_types s ! p)"
    "p \<in> set (data_queue s q) \<Longrightarrow> p < length (tx_types s) \<and> tx_types s ! p = TX_PKT_TYPE_ETHER"
    "length (mq_aQueues (tx_mgmt s)) = NUM_OF_MGMT_QUEUES" "length (dq_aQueues (tx_data s)) = MAX_NUM_OF_AC"
  using assms by (simp_all add: queue_ok_def)

lemma queue_ok_sub:
  assumes "queue_ok s" "tx_types s' = tx_types s" "length (mq_aQueues (tx_mgmt s')) = length (mq_aQueues (tx_mgmt s))"
    "length (dq_aQueues (tx_data s')) = length (dq_aQueues (tx_data s))"
    "\<And>j. set (mgmt_queue s' j) \<subseteq> set (mgmt_queue s j)" "\<And>q. set (data_queue s' q) \<subseteq> set (data_queue s q)"
  shows "queue_ok s'"
  unfolding queue_ok_def
proof (intro conjI allI ballI)
  fix j p assume "p \<in> set (mgmt_queue s' j)"
  then have "p \<in> set (mgmt_queue s j)" using assms(5) by blast
  then show "p < length (tx_types s')" "mgmt_type j (tx_types s' ! p)" using queue_okD(1) [OF assms(1)] by (simp_all add: assms(2))
next
  fix q p assume "p \<in> set (data_queue s' q)"
  then have "p \<in> set (data_queue s q)" using assms(6) by blast
  then show "p < length (tx_types s')" "tx_types s' ! p = TX_PKT_TYPE_ETHER"
    using queue_okD(2) [OF assms(1)] by (simp_all add: assms(2))
qed (simp_all add: assms(3,4) queue_okD(3,4) [OF assms(1)])

lemma set_req: "set (snd (fifo_req n xs p)) \<subseteq> insert p (set xs)"
  by (auto simp: fifo_req_def)

lemma log_snoc: "log_ok s \<Longrightarrow> sent s' = sent s @ [TxSent p t c] \<Longrightarrow> permitted c t \<Longrightarrow> log_ok s'"
  by (auto simp: log_ok_def)

lemma log_same: "log_ok s \<Longrightarrow> sent s' = sent s \<Longrightarrow> log_ok s'"
  by (simp add: log_ok_def)

text \<open>What \<open>txCtrl_Xmit\<close> does for the first packet of a queue.\<close>

lemma xmit_first:
  assumes "env_ok e" "tx_good s" "same_hw u s" "same_ctl u s" "same_hw s' v" "stop_ok stop"
    "build = build_data e \<or> build = (\<lambda>ac bp. build_mgmt e ac)" "txCtrl_Xmit e stop build p u = (st, v)" "p < length (tx_types s)"
  shows "hw_ok s'" "(hw_busy s \<longrightarrow> hw_busy s') \<and> (mgmt_busy_ok s \<longrightarrow> mgmt_busy_ok s')" "tx_types s' = tx_types s"
    "st = STATUS_XMIT_BUSY \<Longrightarrow> hw_busy s' \<and> sent s' = sent s"
    "st \<noteq> STATUS_XMIT_BUSY \<Longrightarrow> sent s' = sent s @ [TxSent p (tx_types s ! p) (eTxConnState (tx_mgmt s))]"
proof -
  have u: "hw_ok u" "p < length (tx_tids u)" "tx_types u = tx_types s" "sent u = sent s" "hw_busy u = hw_busy s" "mgmt_busy_ok u = mgmt_busy_ok s"
    "eTxConnState (tx_mgmt u) = eTxConnState (tx_mgmt s)"
    using assms(2,9) same_hw_ok [OF assms(3)] assms(3,4) by (simp_all add: tx_good_def same_hw_def same_ctl_def length_tx_lists)
  note x = txCtrl_Xmit_ok [OF assms(1,6,7) u(1,2) assms(8)]
  have v: "hw_ok s' = hw_ok v" "hw_busy s' = hw_busy v" "mgmt_busy_ok s' = mgmt_busy_ok v" "tx_types s' = tx_types v" "sent s' = sent v"
    using same_hw_ok [OF assms(5)] assms(5) by (simp_all add: same_hw_def)
  show "hw_ok s'" "(hw_busy s \<longrightarrow> hw_busy s') \<and> (mgmt_busy_ok s \<longrightarrow> mgmt_busy_ok s')" "tx_types s' = tx_types s"
    using x u(3,5,6) by (simp_all add: v same_fields_def)
  show "st = STATUS_XMIT_BUSY \<Longrightarrow> hw_busy s' \<and> sent s' = sent s" using x u(4) by (simp add: v)
  show "st \<noteq> STATUS_XMIT_BUSY \<Longrightarrow> sent s' = sent s @ [TxSent p (tx_types s ! p) (eTxConnState (tx_mgmt s))]"
    using x u(3,4,7) by (simp add: v)
qed

text \<open>One packet of a management queue.\<close>

lemma mgmt_send_good:
  assumes e: "env_ok e" and good: "tx_good s" and gate: "gates_ok s" "aQueueEnabledBySM (tx_mgmt s) i" "i < NUM_OF_MGMT_QUEUES"
    and send: "mgmt_send e i s = (b, s')"
  shows "tx_good s' \<and> (hw_busy s \<longrightarrow> hw_busy s') \<and> (mgmt_busy_ok s \<longrightarrow> mgmt_busy_ok s') \<and> (\<not> b \<longrightarrow> mgmt_queue s' i \<noteq> [] \<longrightarrow> hw_busy s') \<and>
    (\<forall>j. j \<noteq> i \<longrightarrow> mgmt_queue s' j = mgmt_queue s j) \<and> mgmt_queues_are (mq_aQueues (tx_mgmt s')) s' s"
  using send
proof (cases rule: mgmt_send_cases)
  case empty
  then show ?thesis using good by (simp add: mgmt_queues_are_def)
next
  case (busy p xs u v)
  let ?zs = "snd (fifo_req MGMT_QUEUES_DEPTH xs p)"
  have i: "i < length (mq_aQueues (tx_mgmt s))" using que_at_ConsD [OF busy(1)] by simp
  have qok: "queue_ok s" using good by (simp add: tx_good_def)
  have p: "p < length (tx_types s)" using queue_okD(1) [OF qok, of p i] busy(1) by simp
  note x = xmit_first [OF e good busy(2,3,6) stop_ok_queues(1) disjI2 [OF refl] busy(4) [unfolded txCtrl_XmitMgmt_def] p]
  have q: "mq_aQueues (tx_mgmt s') = (mq_aQueues (tx_mgmt s))[i := ?zs]" "dq_aQueues (tx_data s') = dq_aQueues (tx_data s)"
    using busy(7) by (simp_all add: mgmt_queues_are_def)
  have "queue_ok s'"
    by (rule queue_ok_sub [OF qok x(3)]) (use set_req [of MGMT_QUEUES_DEPTH xs p] i busy(1) in \<open>simp_all add: q\<close>)
  then have "tx_good s'" using good x(1,4) log_same [of s s'] by (simp add: tx_good_def)
  then show ?thesis using x(2,4) busy(5,7) i by (simp add: q)
next
  case (handled p xs u v st)
  have i: "i < length (mq_aQueues (tx_mgmt s))" using que_at_ConsD [OF handled(1)] by simp
  have qok: "queue_ok s" using good by (simp add: tx_good_def)
  have p: "p < length (tx_types s)" "mgmt_type i (tx_types s ! p)" using queue_okD(1) [OF qok, of p i] handled(1) by simp_all
  note x = xmit_first [OF e good handled(2,3,7) stop_ok_queues(1) disjI2 [OF refl] handled(4) [unfolded txCtrl_XmitMgmt_def] p(1)]
  have q: "mq_aQueues (tx_mgmt s') = (mq_aQueues (tx_mgmt s))[i := xs]" "dq_aQueues (tx_data s') = dq_aQueues (tx_data s)"
    using handled(8) by (simp_all add: mgmt_queues_are_def)
  have "queue_ok s'"
    by (rule queue_ok_sub [OF qok x(3)]) (use i handled(1) in \<open>auto simp: q\<close>)
  moreover have "log_ok s'"
    using good log_snoc [OF _ x(5) gate_permits [OF gate p(2)]] handled(5) by (simp add: tx_good_def)
  ultimately have "tx_good s'" using x(1) by (simp add: tx_good_def)
  then show ?thesis using x(2) handled(6,8) i by (simp add: q)
qed

definition mgmt_done :: "nat \<Rightarrow> TxPath \<Rightarrow> bool" where
  "mgmt_done j s \<longleftrightarrow> (bMgmtPortEnable (tx_mgmt s) \<and> aQueueEnabledBySM (tx_mgmt s) j \<and> mgmt_queue s j \<noteq> [] \<longrightarrow> hw_busy s)"

lemma queues_are_trans: "mgmt_queues_are qs s'' s' \<Longrightarrow> mgmt_queues_are qs' s' s \<Longrightarrow> mgmt_queues_are qs s'' s"
  by (simp add: mgmt_queues_are_def same_ctl_def)

lemma queues_are_refl: "mgmt_queues_are (mq_aQueues (tx_mgmt s)) s s"
  by (simp add: mgmt_queues_are_def)

lemma mgmt_doneI: "hw_busy s \<Longrightarrow> mgmt_done j s"
  by (simp add: mgmt_done_def)

text \<open>One round of the scheduler.\<close>

definition sched_round :: "TxEnv \<Rightarrow> nat \<Rightarrow> TxPath \<Rightarrow> bool \<times> TxPath" where
  "sched_round e i s = (if \<not> mq_aQueueBusy (tx_mgmt s) i \<and> aQueueEnabledBySM (tx_mgmt s) i then mgmt_send e i s else (False, s))"

lemma runScheduler_unfold:
  "runScheduler e i s = (if \<not> bMgmtPortEnable (tx_mgmt s) then s else case sched_round e i s of (b, s1) \<Rightarrow>
     if b then runScheduler e 0 s1 else if i + 1 < NUM_OF_MGMT_QUEUES then runScheduler e (i + 1) s1 else s1)"
  by (subst runScheduler.simps) (simp add: sched_round_def)

lemma sched_round_good:
  assumes "env_ok e" "tx_good s \<and> mgmt_busy_ok s" "gates_ok s" "i < NUM_OF_MGMT_QUEUES" "sched_round e i s = (b, s1)"
  shows "tx_good s1 \<and> mgmt_busy_ok s1 \<and> (hw_busy s \<longrightarrow> hw_busy s1) \<and> (\<not> b \<longrightarrow> mgmt_done i s1) \<and>
    (\<forall>j. j \<noteq> i \<longrightarrow> mgmt_queue s1 j = mgmt_queue s j) \<and> mgmt_queues_are (mq_aQueues (tx_mgmt s1)) s1 s"
proof (cases "\<not> mq_aQueueBusy (tx_mgmt s) i \<and> aQueueEnabledBySM (tx_mgmt s) i")
  case True
  then have "mgmt_send e i s = (b, s1)" using assms(5) by (simp add: sched_round_def)
  from mgmt_send_good [OF assms(1) _ assms(3) _ assms(4) this] True assms(2) show ?thesis by (simp add: mgmt_done_def)
next
  case False
  then have s1: "s1 = s" "\<not> b" using assms(5) by (auto simp: sched_round_def)
  have "mgmt_done i s"
  proof (cases "mq_aQueueBusy (tx_mgmt s) i")
    case True
    then show ?thesis using assms(2,4) by (intro mgmt_doneI) (auto simp: mgmt_busy_ok_def que_types)
  qed (use False in \<open>simp add: mgmt_done_def\<close>)
  then show ?thesis using assms(2) queues_are_refl by (simp add: s1)
qed

lemma mgmt_done_keep:
  assumes "mgmt_done j s" "mgmt_queue s1 j = mgmt_queue s j" "hw_busy s \<longrightarrow> hw_busy s1" "same_ctl s1 s"
  shows "mgmt_done j s1"
  using assms by (simp add: mgmt_done_def same_ctl_def)

lemma gates_same: "same_ctl s1 s \<Longrightarrow> gates_ok s1 = gates_ok s"
  by (simp add: gates_ok_def same_ctl_def)

lemma queues_areD: "mgmt_queues_are qs s1 s \<Longrightarrow> same_ctl s1 s"
  by (simp add: mgmt_queues_are_def)

text \<open>The scheduler of the management queues leaves a packet only under backpressure.\<close>

definition mgmt_sched_post :: "TxPath \<Rightarrow> TxPath \<Rightarrow> bool" where
  "mgmt_sched_post s' s \<longleftrightarrow> tx_good s' \<and> mgmt_busy_ok s' \<and> (hw_busy s \<longrightarrow> hw_busy s') \<and> (\<forall>j<NUM_OF_MGMT_QUEUES. mgmt_done j s') \<and>
     mgmt_queues_are (mq_aQueues (tx_mgmt s')) s' s"

lemma runScheduler_good:
  assumes "env_ok e" "tx_good s \<and> mgmt_busy_ok s" "gates_ok s" "i < NUM_OF_MGMT_QUEUES" "\<forall>j<i. mgmt_done j s"
  shows "mgmt_sched_post (runScheduler e i s) s"
  using assms(2-5)
proof (induction "(i, s)" arbitrary: i s rule: wf_induct_rule [OF wf_measures, of
    "[\<lambda>(i, s). mgmt_waiting s, \<lambda>(i, s). NUM_OF_MGMT_QUEUES - i]"])
  case (1 i s)
  show ?case
  proof (cases "bMgmtPortEnable (tx_mgmt s)")
    case False
    then have "runScheduler e i s = s" by (subst runScheduler_unfold) simp
    then show ?thesis using 1(2) False queues_are_refl by (simp add: mgmt_sched_post_def mgmt_done_def)
  next
    case port: True
    obtain b s1 where s1: "sched_round e i s = (b, s1)" by fastforce
    note g = sched_round_good [OF assms(1) 1(2,3,4) s1]
    have less: "mgmt_waiting s1 < mgmt_waiting s \<or> \<not> b \<and> mgmt_waiting s1 \<le> mgmt_waiting s"
      using s1 mgmt_send_waiting [of e i s b s1] by (auto simp: sched_round_def split: if_splits)
    have ctl: "same_ctl s1 s" using g queues_areD by blast
    have gates: "gates_ok s1" using 1(3) gates_same [OF ctl] by simp
    have dn: "\<not> b \<Longrightarrow> \<forall>j<Suc i. mgmt_done j s1"
      using g 1(5) mgmt_done_keep [OF _ _ _ ctl] by (metis less_SucE nat_neq_iff)
    have rec: "mgmt_sched_post (runScheduler e i s) s" if r: "runScheduler e i s = runScheduler e i' s1" "i' < NUM_OF_MGMT_QUEUES" "\<forall>j<i'. mgmt_done j s1"
        "((i', s1), (i, s)) \<in> measures [\<lambda>(i, s). mgmt_waiting s, \<lambda>(i, s). NUM_OF_MGMT_QUEUES - i]" for i'
    proof -
      have "mgmt_sched_post (runScheduler e i' s1) s1" using 1(1) [OF r(4) _ gates r(2,3)] g by blast
      then show ?thesis using g queues_are_trans unfolding r(1) mgmt_sched_post_def by blast
    qed
    show ?thesis
    proof (cases b)
      case True
      then have "runScheduler e i s = runScheduler e 0 s1" using port s1 by (subst runScheduler_unfold) simp
      then show ?thesis using less True by (intro rec [of 0]) (simp_all add: que_types)
    next
      case False
      show ?thesis
      proof (cases "i + 1 < NUM_OF_MGMT_QUEUES")
        case True
        then have "runScheduler e i s = runScheduler e (i + 1) s1"
          using False port s1 by (subst runScheduler_unfold) simp
        then show ?thesis using less True False dn by (intro rec [of "i + 1"]) auto
      next
        case last: False
        then have "runScheduler e i s = s1" using False port s1 by (subst runScheduler_unfold) simp
        moreover have "Suc i = NUM_OF_MGMT_QUEUES" using last 1(4) by simp
        ultimately show ?thesis using g dn False by (simp add: mgmt_sched_post_def)
      qed
    qed
  qed
qed


section \<open>The scheduler of the data queues\<close>

lemma data_send_good:
  assumes e: "env_ok e" and good: "tx_good s" and conn: "eTxConnState (tx_mgmt s) = TX_CONN_STATE_OPEN"
    and send: "data_send e i s = (b, s')"
  shows "tx_good s' \<and> ((hw_busy s \<longrightarrow> hw_busy s') \<and> (mgmt_busy_ok s \<longrightarrow> mgmt_busy_ok s')) \<and> (\<not> b \<longrightarrow> data_queue s' i \<noteq> [] \<longrightarrow> hw_busy s') \<and>
    (\<forall>j. j \<noteq> i \<longrightarrow> data_queue s' j = data_queue s j) \<and> data_queues_are (dq_aQueues (tx_data s')) s' s"
  using send
proof (cases rule: data_send_cases)
  case empty
  have q: "dq_aQueues (tx_data s') = dq_aQueues (tx_data s)" "mq_aQueues (tx_mgmt s') = mq_aQueues (tx_mgmt s)"
    using empty(4) by (simp_all add: data_queues_are_def)
  have t: "tx_types s' = tx_types s" "sent s' = sent s" using empty(3) by (simp_all add: same_hw_def)
  have qok: "queue_ok s" using good by (simp add: tx_good_def)
  have "queue_ok s'" by (rule queue_ok_sub [OF qok t(1)]) (simp_all add: q)
  then show ?thesis using empty good same_hw_ok [OF empty(3)] log_same [of s s'] q t by (simp add: tx_good_def)
next
  case (busy p xs u v n)
  let ?zs = "snd (fifo_req n xs p)"
  have i: "i < length (dq_aQueues (tx_data s))" using que_at_ConsD [OF busy(1)] by simp
  have qok: "queue_ok s" using good by (simp add: tx_good_def)
  have p: "p < length (tx_types s)" using queue_okD(2) [OF qok, of p i] busy(1) by simp
  note x = xmit_first [OF e good busy(2,3,6) stop_ok_queues(2) disjI1 [OF refl] busy(4) [unfolded txCtrl_XmitData_def] p]
  have q: "dq_aQueues (tx_data s') = (dq_aQueues (tx_data s))[i := ?zs]" "mq_aQueues (tx_mgmt s') = mq_aQueues (tx_mgmt s)"
    using busy(7) by (simp_all add: data_queues_are_def)
  have "queue_ok s'"
    by (rule queue_ok_sub [OF qok x(3)]) (use set_req [of n xs p] i busy(1) in \<open>simp_all add: q\<close>)
  then have "tx_good s'" using good x(1,4) log_same [of s s'] by (simp add: tx_good_def)
  then show ?thesis using x(2,4) busy(5,7) i by (simp add: q)
next
  case (handled p xs u v st)
  have i: "i < length (dq_aQueues (tx_data s))" using que_at_ConsD [OF handled(1)] by simp
  have qok: "queue_ok s" using good by (simp add: tx_good_def)
  have p: "p < length (tx_types s)" "tx_types s ! p = TX_PKT_TYPE_ETHER" using queue_okD(2) [OF qok, of p i] handled(1) by simp_all
  note x = xmit_first [OF e good handled(2,3,7) stop_ok_queues(2) disjI1 [OF refl] handled(4) [unfolded txCtrl_XmitData_def] p(1)]
  have q: "dq_aQueues (tx_data s') = (dq_aQueues (tx_data s))[i := xs]" "mq_aQueues (tx_mgmt s') = mq_aQueues (tx_mgmt s)"
    using handled(8) by (simp_all add: data_queues_are_def)
  have "queue_ok s'"
    by (rule queue_ok_sub [OF qok x(3)]) (use i handled(1) in \<open>auto simp: q\<close>)
  moreover have "permitted (eTxConnState (tx_mgmt s)) (tx_types s ! p)"
    by (simp add: conn p(2) permitted_def TX_PKT_TYPE_ETHER_def TX_PKT_TYPE_MGMT_def)
  then have "log_ok s'" using good log_snoc [OF _ x(5)] handled(5) by (simp add: tx_good_def)
  ultimately have "tx_good s'" using x(1) by (simp add: tx_good_def)
  then show ?thesis using x(2) handled(6,8) i by (simp add: q)
qed

text \<open>The queues that were visited in the last \<open>n\<close> rounds, the last one of them \<open>i\<close>.\<close>

definition visited :: "nat \<Rightarrow> nat \<Rightarrow> nat \<Rightarrow> bool" where
  "visited i n q \<longleftrightarrow> (\<exists>k<n. q = (i + MAX_NUM_OF_AC - k) mod MAX_NUM_OF_AC)"

lemma visited_step:
  assumes "i < MAX_NUM_OF_AC" "n < MAX_NUM_OF_AC" "visited (if i + 1 = MAX_NUM_OF_AC then 0 else i + 1) (n + 1) q"
  shows "q = (if i + 1 = MAX_NUM_OF_AC then 0 else i + 1) \<or> visited i n q"
proof -
  let ?i = "if i + 1 = MAX_NUM_OF_AC then 0 else i + 1"
  obtain k where k: "k < n + 1" "q = (?i + 4 - k) mod 4" using assms(3) by (auto simp: visited_def ac_bounds)
  show ?thesis
  proof (cases k)
    case 0
    then show ?thesis using k assms(1) by (auto simp: ac_bounds split: if_splits)
  next
    case (Suc m)
    have "i \<in> {0, 1, 2, 3}" "m \<in> {0, 1, 2}" using assms(1,2) k(1) Suc by (auto simp: ac_bounds)
    then have "(?i + 4 - Suc m) mod 4 = (i + 4 - m) mod 4" by (auto simp: ac_bounds)
    then have "visited i n q" using k Suc by (auto simp: visited_def ac_bounds)
    then show ?thesis ..
  qed
qed

lemma visited_all:
  assumes "i < MAX_NUM_OF_AC" "MAX_NUM_OF_AC \<le> n" "q < MAX_NUM_OF_AC"
  shows "visited i n q"
proof -
  have "i \<in> {0, 1, 2, 3}" "q \<in> {0, 1, 2, 3}" using assms(1,3) by (auto simp: ac_bounds)
  then have "q = (i + 4 - ((i + 4 - q) mod 4)) mod 4" by auto
  moreover have "(i + 4 - q) mod 4 < n" using assms(2) by (simp add: ac_bounds less_le_trans [of _ 4])
  ultimately show ?thesis by (auto simp: visited_def ac_bounds)
qed

definition data_sched_post :: "TxPath \<Rightarrow> TxPath \<Rightarrow> bool" where
  "data_sched_post s' s \<longleftrightarrow> tx_good s' \<and> ((hw_busy s \<longrightarrow> hw_busy s') \<and> (mgmt_busy_ok s \<longrightarrow> mgmt_busy_ok s')) \<and>
     (bDataPortEnable (tx_data s') \<longrightarrow> (\<forall>q<MAX_NUM_OF_AC. data_queue s' q \<noteq> [] \<longrightarrow> hw_busy s')) \<and>
     mq_aQueues (tx_mgmt s') = mq_aQueues (tx_mgmt s) \<and> same_ctl s' s \<and> uLastQueId (tx_data s') < MAX_NUM_OF_AC"

definition data_round :: "TxEnv \<Rightarrow> nat \<Rightarrow> TxPath \<Rightarrow> bool \<times> TxPath" where
  "data_round e i s = (let s1 = on_data (\<lambda>d. d\<lparr>uLastQueId := i\<rparr>) s
     in if dq_aQueueBusy (tx_data s1) i then (False, s1) else data_send e i s1)"

lemma data_loop_unfold:
  "data_loop e n i s = (if \<not> bDataPortEnable (tx_data s) \<or> n \<ge> MAX_NUM_OF_AC then s
     else let i' = (if i + 1 = MAX_NUM_OF_AC then 0 else i + 1)
       in case data_round e i' s of (b, s1) \<Rightarrow> data_loop e (if b then 0 else n + 1) i' s1)"
  by (subst data_loop.simps) (simp add: data_round_def Let_def)

lemma last_que_same: "same_hw (on_data (\<lambda>d. d\<lparr>uLastQueId := i\<rparr>) s) s" "same_ctl (on_data (\<lambda>d. d\<lparr>uLastQueId := i\<rparr>) s) s"
  "tx_mgmt (on_data (\<lambda>d. d\<lparr>uLastQueId := i\<rparr>) s) = tx_mgmt s" "dq_aQueues (tx_data (on_data (\<lambda>d. d\<lparr>uLastQueId := i\<rparr>) s)) = dq_aQueues (tx_data s)"
  by (simp_all add: same_hw_def same_ctl_def on_data_def tx_tids_def tx_types_def)

lemma data_round_good:
  assumes "env_ok e" "tx_good s" "eTxConnState (tx_mgmt s) = TX_CONN_STATE_OPEN" "data_round e i s = (b, s1)" "i < MAX_NUM_OF_AC"
  shows "tx_good s1 \<and> ((hw_busy s \<longrightarrow> hw_busy s1) \<and> (mgmt_busy_ok s \<longrightarrow> mgmt_busy_ok s1)) \<and> (\<not> b \<longrightarrow> data_queue s1 i \<noteq> [] \<longrightarrow> hw_busy s1) \<and>
    (\<forall>j. j \<noteq> i \<longrightarrow> data_queue s1 j = data_queue s j) \<and> mq_aQueues (tx_mgmt s1) = mq_aQueues (tx_mgmt s) \<and>
    same_ctl s1 s \<and> uLastQueId (tx_data s1) = i"
proof -
  let ?u = "on_data (\<lambda>d. d\<lparr>uLastQueId := i\<rparr>) s"
  have u: "hw_ok ?u = hw_ok s" "hw_busy ?u = hw_busy s" "mgmt_busy_ok ?u = mgmt_busy_ok s" "tx_types ?u = tx_types s" "sent ?u = sent s" "uLastQueId (tx_data ?u) = i"
    using same_hw_ok [OF last_que_same(1), of i s] last_que_same(1) [of i s] by (simp_all add: same_hw_def) (simp add: on_data_def)
  have qok: "queue_ok s" using assms(2) by (simp add: tx_good_def)
  have "queue_ok ?u" by (rule queue_ok_sub [OF qok u(4)]) (simp_all add: last_que_same)
  then have good: "tx_good ?u" using assms(2) log_same [of s ?u] u by (simp add: tx_good_def)
  show ?thesis
  proof (cases "dq_aQueueBusy (tx_data ?u) i")
    case True
    then have r: "s1 = ?u" "\<not> b" using assms(4) by (auto simp: data_round_def)
    have "hw_busy ?u" using good True assms(5) by (auto simp: tx_good_def hw_ok_def busy_flag_def)
    then show ?thesis using good u last_que_same by (simp add: r)
  next
    case False
    then have "data_send e i ?u = (b, s1)" using assms(4) by (simp add: data_round_def)
    note g = data_send_good [OF assms(1) good _ this]
    have open1: "eTxConnState (tx_mgmt ?u) = TX_CONN_STATE_OPEN" using assms(3) by (simp add: last_que_same)
    then have "same_ctl s1 ?u" using g by (simp add: data_queues_are_def)
    then have "same_ctl s1 s" by (rule same_ctl_trans [OF _ last_que_same(2)])
    then show ?thesis using g open1 u by (simp add: last_que_same data_queues_are_def)
  qed
qed

lemma data_sched_post_trans:
  assumes "data_sched_post s2 s1" "(hw_busy s \<longrightarrow> hw_busy s1) \<and> (mgmt_busy_ok s \<longrightarrow> mgmt_busy_ok s1)" "mq_aQueues (tx_mgmt s1) = mq_aQueues (tx_mgmt s)" "same_ctl s1 s"
  shows "data_sched_post s2 s"
  using assms same_ctl_trans [of s2 s1 s] by (simp add: data_sched_post_def)

text \<open>The scheduler of the data queues leaves a packet only under backpressure.\<close>

lemma data_loop_good:
  assumes "env_ok e" "tx_good s" "bDataPortEnable (tx_data s) \<longrightarrow> eTxConnState (tx_mgmt s) = TX_CONN_STATE_OPEN"
    "i < MAX_NUM_OF_AC" "uLastQueId (tx_data s) = i" "\<forall>q. visited i n q \<longrightarrow> data_queue s q \<noteq> [] \<longrightarrow> hw_busy s"
  shows "data_sched_post (data_loop e n i s) s"
  using assms(2-6)
proof (induction "(n, i, s)" arbitrary: n i s rule: wf_induct_rule [OF wf_measures, of
    "[\<lambda>(n, i, s). data_waiting s, \<lambda>(n, i, s). MAX_NUM_OF_AC - n]"])
  case (1 n i s)
  show ?case
  proof (cases "\<not> bDataPortEnable (tx_data s) \<or> n \<ge> MAX_NUM_OF_AC")
    case True
    then have "data_loop e n i s = s" by (subst data_loop_unfold) simp
    moreover have "\<forall>q<MAX_NUM_OF_AC. bDataPortEnable (tx_data s) \<longrightarrow> data_queue s q \<noteq> [] \<longrightarrow> hw_busy s"
      using True 1(6) visited_all [OF 1(4), of n] by blast
    ultimately show ?thesis using 1(2,4,5) by (simp add: data_sched_post_def)
  next
    case False
    define i' where "i' = (if i + 1 = MAX_NUM_OF_AC then 0 else i + 1)"
    have i': "i' < MAX_NUM_OF_AC" using 1(4) by (auto simp: i'_def)
    obtain b s1 where s1: "data_round e i' s = (b, s1)" by fastforce
    have open1: "eTxConnState (tx_mgmt s) = TX_CONN_STATE_OPEN" using 1(3) False by simp
    note g = data_round_good [OF assms(1) 1(2) open1 s1 i']
    let ?n = "if b then 0 else n + 1"
    have less: "data_waiting s1 < data_waiting s \<or> \<not> b \<and> data_waiting s1 \<le> data_waiting s"
      using s1 data_send_waiting [of e i' "on_data (\<lambda>d. d\<lparr>uLastQueId := i'\<rparr>) s" b s1]
      by (auto simp: data_round_def Let_def split: if_splits)
    have vis: "\<forall>q. visited i' ?n q \<longrightarrow> data_queue s1 q \<noteq> [] \<longrightarrow> hw_busy s1"
    proof (cases b)
      case True
      then show ?thesis by (simp add: visited_def)
    next
      case nb: False
      have n: "n < MAX_NUM_OF_AC" using False by simp
      show ?thesis
      proof (intro allI impI)
        fix q assume q: "visited i' ?n q" "data_queue s1 q \<noteq> []"
        then have "q = i' \<or> q \<noteq> i' \<and> visited i n q" using visited_step [OF 1(4) n, of q] nb by (auto simp: i'_def)
        then show "hw_busy s1" using g nb q(2) 1(6) by metis
      qed
    qed
    have "data_loop e n i s = data_loop e ?n i' s1"
      using False s1 by (subst data_loop_unfold) (simp add: i'_def)
    moreover have "data_sched_post (data_loop e ?n i' s1) s1"
    proof (rule 1(1))
      show "((?n, i', s1), (n, i, s)) \<in> measures [\<lambda>(n, i, s). data_waiting s, \<lambda>(n, i, s). MAX_NUM_OF_AC - n]"
        using less False by auto
      show "bDataPortEnable (tx_data s1) \<longrightarrow> eTxConnState (tx_mgmt s1) = TX_CONN_STATE_OPEN"
        using g open1 by (simp add: same_ctl_def)
    qed (use g i' vis in simp_all)
    ultimately show ?thesis using data_sched_post_trans [of _ s1 s] g by simp
  qed
qed

lemma txDataQ_RunScheduler_good:
  assumes "env_ok e" "tx_good s" "bDataPortEnable (tx_data s) \<longrightarrow> eTxConnState (tx_mgmt s) = TX_CONN_STATE_OPEN"
    "uLastQueId (tx_data s) < MAX_NUM_OF_AC"
  shows "data_sched_post (txDataQ_RunScheduler e s) s"
  unfolding txDataQ_RunScheduler_def by (rule data_loop_good [OF assms refl]) (simp add: visited_def)

end
