(* ===== verification/WlTxReach.thy ===== *)
theory WlTxReach
  imports WlTxInv
begin

text \<open>
  The invariants of the transmit path: the port and the state machine agree on who has the path and on
  what the connection permits (\<open>ctl_ok\<close>), and every packet that waits while it may be sent has a reason to
  (\<open>wait_ok\<close>). Each of the functions that call each other keeps them; the reachable states and the
  invariants of all operations follow.
\<close>

section \<open>The invariants\<close>

definition port_ok :: "TxPath \<Rightarrow> bool" where
  "port_ok s \<longleftrightarrow> mgmtQueueEnabled (tx_port s) = bMgmtPortEnable (tx_mgmt s) \<and>
     dataQueueEnabled (tx_port s) = bDataPortEnable (tx_data s) \<and>
     bMgmtPortEnable (tx_mgmt s) = (\<not> txSuspended (tx_port s) \<and> queuesMuxState (tx_port s) = MUX_MGMT_QUEUES) \<and>
     bDataPortEnable (tx_data s) = (\<not> txSuspended (tx_port s) \<and> queuesMuxState (tx_port s) = MUX_DATA_QUEUES)"

text \<open>The part of it that holds while the port is being changed.\<close>

definition port_agrees :: "TxPath \<Rightarrow> bool" where
  "port_agrees s \<longleftrightarrow> mgmtQueueEnabled (tx_port s) = bMgmtPortEnable (tx_mgmt s) \<and>
     dataQueueEnabled (tx_port s) = bDataPortEnable (tx_data s)"

text \<open>The state of the connection, and the enabled queues, in every state of the machine.\<close>

fun conn_of :: "ESmState \<Rightarrow> ETxConnState" where
  "conn_of SM_STATE_CLOSE = TX_CONN_STATE_CLOSE"
| "conn_of SM_STATE_MGMT = TX_CONN_STATE_MGMT"
| "conn_of SM_STATE_EAPOL = TX_CONN_STATE_EAPOL"
| "conn_of SM_STATE_OPEN_MGMT = TX_CONN_STATE_OPEN"
| "conn_of SM_STATE_OPEN_DATA = TX_CONN_STATE_OPEN"

fun flag_of :: "ESmState \<Rightarrow> nat \<Rightarrow> bool" where
  "flag_of SM_STATE_CLOSE j = False"
| "flag_of SM_STATE_MGMT j = (j = QUEUE_TYPE_MGMT)"
| "flag_of SM_STATE_EAPOL j = True"
| "flag_of SM_STATE_OPEN_MGMT j = True"
| "flag_of SM_STATE_OPEN_DATA j = False"

definition sm_ok :: "TxPath \<Rightarrow> bool" where
  "sm_ok s \<longleftrightarrow> (queuesMuxState (tx_port s) = MUX_DATA_QUEUES \<longleftrightarrow> eSmState (tx_mgmt s) = SM_STATE_OPEN_DATA) \<and>
     eTxConnState (tx_mgmt s) = conn_of (eSmState (tx_mgmt s)) \<and>
     (\<forall>j<NUM_OF_MGMT_QUEUES. aQueueEnabledBySM (tx_mgmt s) j = flag_of (eSmState (tx_mgmt s)) j)"

text \<open>A data packet waits for memory of the firmware, for the task or for the pacing timer.\<close>

definition data_wait :: "TxPath \<Rightarrow> bool" where
  "data_wait s \<longleftrightarrow> (bDataPortEnable (tx_data s) \<longrightarrow>
     (\<forall>q<MAX_NUM_OF_AC. data_queue s q \<noteq> [] \<longrightarrow> hw_busy s \<or> data_request s \<or> pace_timer s))"

definition thresh_ok :: "TxPath \<Rightarrow> bool" where
  "thresh_ok s \<longleftrightarrow> (\<forall>q<MAX_NUM_OF_AC. 0 < aTxSendPaceThresh (tx_data s) q)"

definition base_ok :: "TxPath \<Rightarrow> bool" where
  "base_ok s \<longleftrightarrow> tx_good s \<and> mgmt_busy_ok s \<and> uLastQueId (tx_data s) < MAX_NUM_OF_AC \<and> thresh_ok s"

definition ctl_ok :: "TxPath \<Rightarrow> bool" where
  "ctl_ok s \<longleftrightarrow> base_ok s \<and> port_ok s \<and> sm_ok s"

text \<open>
  A management or EAPOL packet waits for memory or for the task; in \<open>OPEN_MGMT\<close> the task would not help.
  The state \<open>OPEN_MGMT\<close>, in which data waits, is left when the queues are empty; in \<open>OPEN_DATA\<close>, in which the
  management queues wait, the task has been asked for.
\<close>

definition mgmt_wait :: "TxPath \<Rightarrow> bool" where
  "mgmt_wait s \<longleftrightarrow> (\<forall>j<NUM_OF_MGMT_QUEUES. bMgmtPortEnable (tx_mgmt s) \<and> aQueueEnabledBySM (tx_mgmt s) j \<and> mgmt_queue s j \<noteq> [] \<longrightarrow>
     hw_busy s \<or> mgmt_request s \<and> eSmState (tx_mgmt s) \<noteq> SM_STATE_OPEN_MGMT)"

definition open_ok :: "TxPath \<Rightarrow> bool" where
  "open_ok s \<longleftrightarrow> (eSmState (tx_mgmt s) = SM_STATE_OPEN_MGMT \<longrightarrow> \<not> all_mgmt_empty (tx_mgmt s)) \<and>
     (eSmState (tx_mgmt s) = SM_STATE_OPEN_DATA \<longrightarrow> \<not> all_mgmt_empty (tx_mgmt s) \<longrightarrow> mgmt_request s)"

definition wait_ok :: "TxPath \<Rightarrow> bool" where
  "wait_ok s \<longleftrightarrow> data_wait s \<and> mgmt_wait s \<and> open_ok s"

section \<open>Frames\<close>

lemma tx_good_same:
  assumes "same_hw s' s" "mq_aQueues (tx_mgmt s') = mq_aQueues (tx_mgmt s)" "dq_aQueues (tx_data s') = dq_aQueues (tx_data s)"
  shows "tx_good s' = tx_good s"
  using assms same_hw_ok [OF assms(1)] by (simp add: tx_good_def queue_ok_def log_ok_def same_hw_def)

lemma on_port_sel [simp]:
  "tx_mgmt (on_port f s) = tx_mgmt s" "tx_data (on_port f s) = tx_data s" "tx_port (on_port f s) = f (tx_port s)"
  "mgmt_request (on_port f s) = mgmt_request s" "data_request (on_port f s) = data_request s" "pace_timer (on_port f s) = pace_timer s"
  "hw_busy (on_port f s) = hw_busy s" "mgmt_busy_ok (on_port f s) = mgmt_busy_ok s" "tx_good (on_port f s) = tx_good s"
  by (simp_all add: on_port_def hw_busy_def tx_good_def hw_ok_def hw_core_def busy_flag_def mgmt_busy_ok_def queue_ok_def log_ok_def tx_tids_def tx_types_def)

text \<open>An update of the management module that touches neither its queues nor its busy flags.\<close>

lemma on_mgmt_sel:
  assumes "\<And>m. mq_aQueues (f m) = mq_aQueues m \<and> mq_aQueueBusy (f m) = mq_aQueueBusy m"
  shows "tx_good (on_mgmt f s) = tx_good s" "hw_busy (on_mgmt f s) = hw_busy s" "mgmt_busy_ok (on_mgmt f s) = mgmt_busy_ok s" "tx_mgmt (on_mgmt f s) = f (tx_mgmt s)"
    "tx_data (on_mgmt f s) = tx_data s" "tx_port (on_mgmt f s) = tx_port s" "mgmt_request (on_mgmt f s) = mgmt_request s"
    "data_request (on_mgmt f s) = data_request s" "pace_timer (on_mgmt f s) = pace_timer s"
  using assms by (simp_all add: on_mgmt_def hw_busy_def tx_good_def hw_ok_def hw_core_def busy_flag_def mgmt_busy_ok_def queue_ok_def log_ok_def tx_tids_def tx_types_def)

lemma on_data_sel:
  assumes "\<And>d. dq_aQueues (f d) = dq_aQueues d \<and> dq_aQueueBusy (f d) = dq_aQueueBusy d"
  shows "tx_good (on_data f s) = tx_good s" "hw_busy (on_data f s) = hw_busy s" "mgmt_busy_ok (on_data f s) = mgmt_busy_ok s" "tx_mgmt (on_data f s) = tx_mgmt s"
    "tx_data (on_data f s) = f (tx_data s)" "tx_port (on_data f s) = tx_port s" "mgmt_request (on_data f s) = mgmt_request s"
    "data_request (on_data f s) = data_request s" "pace_timer (on_data f s) = pace_timer s"
  using assms by (simp_all add: on_data_def hw_busy_def tx_good_def hw_ok_def hw_core_def busy_flag_def mgmt_busy_ok_def queue_ok_def log_ok_def tx_tids_def tx_types_def)

lemma txMgmtQ_StopAll_sel [simp]:
  "tx_good (txMgmtQ_StopAll s) = tx_good s" "hw_busy (txMgmtQ_StopAll s) = hw_busy s" "mgmt_busy_ok (txMgmtQ_StopAll s) = mgmt_busy_ok s"
  "tx_mgmt (txMgmtQ_StopAll s) = (tx_mgmt s)\<lparr>bMgmtPortEnable := False\<rparr>" "tx_data (txMgmtQ_StopAll s) = tx_data s"
  "tx_port (txMgmtQ_StopAll s) = tx_port s" "mgmt_request (txMgmtQ_StopAll s) = mgmt_request s"
  "data_request (txMgmtQ_StopAll s) = data_request s" "pace_timer (txMgmtQ_StopAll s) = pace_timer s"
  by (simp_all add: txMgmtQ_StopAll_def on_mgmt_sel)

lemma txDataQ_StopAll_sel [simp]:
  "tx_good (txDataQ_StopAll s) = tx_good s" "hw_busy (txDataQ_StopAll s) = hw_busy s" "mgmt_busy_ok (txDataQ_StopAll s) = mgmt_busy_ok s"
  "tx_data (txDataQ_StopAll s) = (tx_data s)\<lparr>bDataPortEnable := False\<rparr>" "tx_mgmt (txDataQ_StopAll s) = tx_mgmt s"
  "tx_port (txDataQ_StopAll s) = tx_port s" "mgmt_request (txDataQ_StopAll s) = mgmt_request s"
  "data_request (txDataQ_StopAll s) = data_request s" "pace_timer (txDataQ_StopAll s) = pace_timer s"
  by (simp_all add: txDataQ_StopAll_def on_data_sel)

lemma sm_gates: "sm_ok s \<Longrightarrow> gates_ok s"
  by (cases "eSmState (tx_mgmt s)") (simp_all add: sm_ok_def gates_ok_def que_types)

section \<open>The functions that call each other\<close>

lemma ctl_same:
  assumes "same_ctl s' s"
  shows "port_ok s' = port_ok s" "sm_ok s' = sm_ok s" "thresh_ok s' = thresh_ok s"
  using assms by (simp_all add: same_ctl_def sm_ok_def thresh_ok_def) (simp add: port_ok_def same_ctl_def)

lemma data_post_ctl:
  assumes "data_sched_post s' u" "port_ok u \<and> sm_ok u \<and> thresh_ok u \<and> mgmt_busy_ok u"
  shows "ctl_ok s'" "data_wait s'" "hw_busy u \<Longrightarrow> hw_busy s'" "mgmt_request s' = mgmt_request u"
    "mq_aQueues (tx_mgmt s') = mq_aQueues (tx_mgmt u)" "eSmState (tx_mgmt s') = eSmState (tx_mgmt u)"
  using assms ctl_same [of s' u] by (simp_all add: data_sched_post_def ctl_ok_def base_ok_def data_wait_def same_ctl_def)

definition flow_post :: "bool \<Rightarrow> TxPath \<Rightarrow> TxPath \<Rightarrow> bool" where
  "flow_post w s' s \<longleftrightarrow> ctl_ok s' \<and> (w \<longrightarrow> wait_ok s') \<and> (hw_busy s \<longrightarrow> hw_busy s') \<and> mgmt_request s' = mgmt_request s"

lemma flow_post_trans: "flow_post w s'' s' \<Longrightarrow> flow_post v s' s \<Longrightarrow> (w' \<longrightarrow> w) \<Longrightarrow> flow_post w' s'' s"
  by (simp add: flow_post_def)

text \<open>In \<open>OPEN_DATA\<close> no management queue is enabled.\<close>

lemma open_data_wait: "sm_ok s \<Longrightarrow> eSmState (tx_mgmt s) = SM_STATE_OPEN_DATA \<Longrightarrow> mgmt_wait s"
  by (simp add: sm_ok_def mgmt_wait_def)

text \<open>The data queues get the path.\<close>

lemma update_data_keeps:
  assumes e: "env_ok e" and s: "base_ok s" "port_agrees s" "sm_ok s" "queuesMuxState (tx_port s) = MUX_DATA_QUEUES"
    and s': "s' = updateQueuesStates e s"
  shows "flow_post (data_wait s \<and> open_ok s) s' s"
proof -
  let ?a = "port_actions (tx_port s)"
  let ?s1 = "port_stops ?a s"
  have open1: "eSmState (tx_mgmt s) = SM_STATE_OPEN_DATA" using s(3,4) by (simp add: sm_ok_def)
  have nowake: "fst ?a \<noteq> QUEUE_ACTION_WAKE" using port_wake_mgmt s(4) by force
  have s1: "tx_good ?s1 = tx_good s" "hw_busy ?s1 = hw_busy s" "mgmt_request ?s1 = mgmt_request s"
    "mq_aQueues (tx_mgmt ?s1) = mq_aQueues (tx_mgmt s)" "eSmState (tx_mgmt ?s1) = eSmState (tx_mgmt s)" 
    by (simp_all add: port_stops_def Let_def)
  have post: "ctl_ok s' \<and> (data_wait s \<longrightarrow> data_wait s') \<and> (hw_busy s \<longrightarrow> hw_busy s') \<and> mgmt_request s' = mgmt_request s \<and>
    mq_aQueues (tx_mgmt s') = mq_aQueues (tx_mgmt s) \<and> eSmState (tx_mgmt s') = eSmState (tx_mgmt s)"
  proof (cases "snd ?a = QUEUE_ACTION_WAKE")
    case False
    then have "s' = ?s1" using s' nowake by (simp add: updateQueuesStates.simps Let_def)
    then show ?thesis using s nowake False
      by (auto simp: ctl_ok_def base_ok_def thresh_ok_def port_ok_def port_agrees_def sm_ok_def data_wait_def port_stops_def port_actions_def Let_def
          split: if_splits)
  next
    case True
    let ?u = "on_data (\<lambda>d. d\<lparr>bDataPortEnable := True\<rparr>) (on_port (\<lambda>p. p\<lparr>dataQueueEnabled := True\<rparr>) ?s1)"
    have "s' = txDataQ_RunScheduler e ?u"
      using s' nowake True by (simp add: updateQueuesStates.simps Let_def txDataQ_WakeAll_def)
    moreover have u: "tx_good ?u" "eTxConnState (tx_mgmt ?u) = TX_CONN_STATE_OPEN" "uLastQueId (tx_data ?u) < MAX_NUM_OF_AC"
      using s open1 by (simp_all add: on_data_sel s1 base_ok_def sm_ok_def) (simp_all add: port_stops_def Let_def)
    moreover have cu: "port_ok ?u \<and> sm_ok ?u \<and> thresh_ok ?u \<and> mgmt_busy_ok ?u"
      using s nowake True
      by (auto simp: base_ok_def thresh_ok_def port_ok_def port_agrees_def sm_ok_def port_stops_def port_actions_def on_data_sel Let_def split: if_splits)
    ultimately have "data_sched_post s' ?u" using txDataQ_RunScheduler_good [OF e u(1)] by simp
    then have c: "ctl_ok s'" "data_wait s'" "hw_busy ?u \<Longrightarrow> hw_busy s'" "mgmt_request s' = mgmt_request ?u"
      "mq_aQueues (tx_mgmt s') = mq_aQueues (tx_mgmt ?u)" "eSmState (tx_mgmt s') = eSmState (tx_mgmt ?u)"
      using data_post_ctl [of s' ?u] cu by blast+
    show ?thesis using c s1 by (simp add: on_data_sel)
  qed
  then have "mgmt_wait s'" using open1 by (simp add: ctl_ok_def open_data_wait)
  then show ?thesis using post by (simp add: flow_post_def wait_ok_def open_ok_def all_mgmt_empty_def)
qed

text \<open>A step of the machine, without its action.\<close>

definition sm_step :: "ESmEvent \<Rightarrow> TxPath \<Rightarrow> TxPath" where
  "sm_step ev = on_mgmt (\<lambda>m. fst (sm_next ev m))"

lemma sm_next_sel [simp]:
  "mq_aQueues (fst (sm_next ev m)) = mq_aQueues m" "mq_aQueueBusy (fst (sm_next ev m)) = mq_aQueueBusy m"
  "eTxConnState (fst (sm_next ev m)) = eTxConnState m" "bMgmtPortEnable (fst (sm_next ev m)) = bMgmtPortEnable m"
  "all_mgmt_empty (fst (sm_next ev m)) = all_mgmt_empty m"
  by (simp_all add: sm_next_def enable_queues_def all_mgmt_empty_def Let_def split: ESmEvent.split)

lemma sm_step_sel [simp]:
  "tx_good (sm_step ev s) = tx_good s" "hw_busy (sm_step ev s) = hw_busy s" "mgmt_busy_ok (sm_step ev s) = mgmt_busy_ok s"
  "tx_mgmt (sm_step ev s) = fst (sm_next ev (tx_mgmt s))" "tx_data (sm_step ev s) = tx_data s" "tx_port (sm_step ev s) = tx_port s"
  "mgmt_request (sm_step ev s) = mgmt_request s" "data_request (sm_step ev s) = data_request s" "pace_timer (sm_step ev s) = pace_timer s"
  unfolding sm_step_def by (simp_all add: on_mgmt_sel)

lemma mgmtQueuesSM_unfold:
  "mgmtQueuesSM e ev s = (case snd (sm_next ev (tx_mgmt s)) of
     SM_ACTION_NULL \<Rightarrow> sm_step ev s
   | SM_ACTION_ENABLE_DATA \<Rightarrow> updateQueuesStates e (on_port (\<lambda>p. p\<lparr>queuesMuxState := MUX_DATA_QUEUES\<rparr>) (sm_step ev s))
   | SM_ACTION_ENABLE_MGMT \<Rightarrow> updateQueuesStates e (on_port (\<lambda>p. p\<lparr>queuesMuxState := MUX_MGMT_QUEUES\<rparr>) (sm_step ev s))
   | SM_ACTION_RUN_SCHEDULER \<Rightarrow> runScheduler e 0 (sm_step ev s))"
  by (subst mgmtQueuesSM.simps)
    (simp add: sm_step_def on_mgmt_def txPort_enableData.simps txPort_enableMgmt.simps Let_def split: prod.split ESmAction.split)

lemma data_closed: "ctl_ok s \<Longrightarrow> eSmState (tx_mgmt s) \<noteq> SM_STATE_OPEN_DATA \<Longrightarrow> \<not> bDataPortEnable (tx_data s)"
  by (cases "queuesMuxState (tx_port s)") (auto simp: ctl_ok_def port_ok_def sm_ok_def)

lemma base_ok_same:
  assumes "tx_good s' = tx_good s" "mgmt_busy_ok s' = mgmt_busy_ok s" "tx_data s' = tx_data s"
  shows "base_ok s' = base_ok s"
  using assms by (simp add: base_ok_def thresh_ok_def)

text \<open>The management queues have become empty.\<close>

lemma queues_empty_keeps:
  assumes "env_ok e" "ctl_ok s"
  shows "flow_post (if eSmState (tx_mgmt s) = SM_STATE_OPEN_MGMT then all_mgmt_empty (tx_mgmt s) else wait_ok s) (mgmtQueuesSM e SM_EVENT_QUEUES_EMPTY s) s"
proof (cases "eSmState (tx_mgmt s) = SM_STATE_OPEN_MGMT")
  case False
  then have "mgmtQueuesSM e SM_EVENT_QUEUES_EMPTY s = s"
    by (simp add: mgmtQueuesSM_unfold sm_next_def sm_step_def on_mgmt_def)
  then show ?thesis using assms(2) False by (simp add: flow_post_def)
next
  case True
  let ?u = "on_port (\<lambda>p. p\<lparr>queuesMuxState := MUX_DATA_QUEUES\<rparr>) (sm_step SM_EVENT_QUEUES_EMPTY s)"
  have r: "mgmtQueuesSM e SM_EVENT_QUEUES_EMPTY s = updateQueuesStates e ?u"
    using True by (simp add: mgmtQueuesSM_unfold sm_next_def)
  have "base_ok ?u" using assms(2) base_ok_same [of ?u s] by (simp add: ctl_ok_def)
  moreover have "port_agrees ?u" using assms(2) by (simp add: ctl_ok_def port_ok_def port_agrees_def)
  moreover have "sm_ok ?u" using assms(2) True by (auto simp: ctl_ok_def sm_ok_def sm_next_def enable_queues_def que_types less_2_cases_iff)
  ultimately have "flow_post (data_wait ?u \<and> open_ok ?u) (updateQueuesStates e ?u) ?u"
    by (intro update_data_keeps [OF assms(1)]) simp_all
  moreover have "data_wait ?u" using data_closed [OF assms(2)] True by (simp add: data_wait_def)
  moreover have "all_mgmt_empty (tx_mgmt s) \<Longrightarrow> open_ok ?u"
    using True by (simp add: open_ok_def) (simp add: sm_next_def enable_queues_def)
  ultimately show ?thesis using True by (simp add: r flow_post_def)
qed

text \<open>The scheduler, and what follows when it empties the queues.\<close>

lemma mgmt_post_ctl:
  assumes "mgmt_sched_post s' s" "base_ok s" "port_ok s" "sm_ok s"
  shows "ctl_ok s'" "mgmt_wait s'" "data_wait s \<longrightarrow> data_wait s'" "hw_busy s \<longrightarrow> hw_busy s'" "mgmt_request s' = mgmt_request s"
    "eSmState (tx_mgmt s') = eSmState (tx_mgmt s)"
  using assms ctl_same [of s' s]
  by (simp_all add: mgmt_sched_post_def mgmt_queues_are_def ctl_ok_def base_ok_def mgmt_wait_def mgmt_done_def)
    (auto simp: data_wait_def same_ctl_def)

lemma empty_wait: "all_mgmt_empty (tx_mgmt s) \<Longrightarrow> mgmt_wait s"
  by (auto simp: all_mgmt_empty_def mgmt_wait_def que_types less_2_cases_iff)

lemma runSchedulerNotFromSm_keeps:
  assumes e: "env_ok e" and s: "ctl_ok s"
  shows "flow_post (data_wait s \<and> open_ok s) (runSchedulerNotFromSm e s) s"
proof (cases "all_mgmt_empty (tx_mgmt s)")
  case True
  then show ?thesis using s empty_wait [OF True] by (simp add: runSchedulerNotFromSm.simps flow_post_def wait_ok_def)
next
  case False
  let ?s1 = "runScheduler e 0 s"
  have "mgmt_sched_post ?s1 s"
    using s sm_gates [of s] by (intro runScheduler_good [OF e]) (simp_all add: ctl_ok_def base_ok_def que_types)
  note p = mgmt_post_ctl [OF this]
  have c: "base_ok s" "port_ok s" "sm_ok s" using s by (simp_all add: ctl_ok_def)
  note p = p [OF c]
  have w: "flow_post (data_wait s \<and> open_ok s \<and> (eSmState (tx_mgmt s) = SM_STATE_OPEN_MGMT \<longrightarrow> \<not> all_mgmt_empty (tx_mgmt ?s1))) ?s1 s"
    using p False by (simp add: flow_post_def wait_ok_def open_ok_def)
  show ?thesis
  proof (cases "all_mgmt_empty (tx_mgmt ?s1)")
    case empty: True
    have "runSchedulerNotFromSm e s = mgmtQueuesSM e SM_EVENT_QUEUES_EMPTY ?s1"
      using False empty by (simp add: runSchedulerNotFromSm.simps)
    then show ?thesis using queues_empty_keeps [OF e p(1)] w p(6) empty by (auto simp: flow_post_def split: if_splits)
  next
    case nonempty: False
    then have "runSchedulerNotFromSm e s = ?s1" using False by (simp add: runSchedulerNotFromSm.simps)
    then show ?thesis using w nonempty by (simp add: flow_post_def)
  qed
qed

text \<open>The management queues get the path.\<close>

lemma update_mgmt_keeps:
  assumes e: "env_ok e" and s: "base_ok s" "port_agrees s" "sm_ok s" "queuesMuxState (tx_port s) = MUX_MGMT_QUEUES"
    and s': "s' = updateQueuesStates e s"
  shows "flow_post (open_ok s \<and> (bMgmtPortEnable (tx_mgmt s) \<longrightarrow> mgmt_wait s)) s' s"
proof -
  let ?a = "port_actions (tx_port s)"
  let ?s1 = "port_stops ?a s"
  have nowake: "snd ?a \<noteq> QUEUE_ACTION_WAKE" using s(4) by (simp add: port_actions_def)
  have closed: "\<not> bDataPortEnable (tx_data ?s1)"
    using s(2,4) by (auto simp: port_agrees_def port_stops_def port_actions_def Let_def)
  show ?thesis
  proof (cases "fst ?a = QUEUE_ACTION_WAKE")
    case False
    then have r: "s' = ?s1" using s' nowake by (simp add: updateQueuesStates.simps Let_def)
    have "ctl_ok s'" using s nowake False unfolding r
      by (auto simp: ctl_ok_def base_ok_def thresh_ok_def port_ok_def port_agrees_def sm_ok_def port_stops_def port_actions_def Let_def
          split: if_splits)
    moreover have "open_ok s' = open_ok s" unfolding r by (simp add: open_ok_def all_mgmt_empty_def port_stops_def Let_def)
    moreover have "(bMgmtPortEnable (tx_mgmt s) \<longrightarrow> mgmt_wait s) \<Longrightarrow> mgmt_wait s'"
      unfolding r by (auto simp: mgmt_wait_def port_stops_def Let_def)
    moreover have "hw_busy s' = hw_busy s \<and> mgmt_request s' = mgmt_request s" unfolding r by (simp add: port_stops_def Let_def)
    ultimately show ?thesis using closed by (simp add: flow_post_def wait_ok_def data_wait_def r)
  next
    case True
    let ?u = "on_mgmt (\<lambda>m. m\<lparr>bMgmtPortEnable := True\<rparr>) (on_port (\<lambda>p. p\<lparr>mgmtQueueEnabled := True\<rparr>) ?s1)"
    have r: "s' = runSchedulerNotFromSm e ?u"
      using s' nowake True by (simp add: updateQueuesStates.simps txMgmtQ_WakeAll.simps Let_def)
    have "ctl_ok ?u"
      using s nowake True
      by (auto simp: ctl_ok_def base_ok_def thresh_ok_def port_ok_def port_agrees_def sm_ok_def port_stops_def port_actions_def on_mgmt_sel Let_def
          split: if_splits)
    then have "flow_post (data_wait ?u \<and> open_ok ?u) s' ?u" unfolding r by (rule runSchedulerNotFromSm_keeps [OF e])
    moreover have "data_wait ?u" using closed by (simp add: data_wait_def on_mgmt_sel)
    moreover have "open_ok ?u = open_ok s" by (simp add: open_ok_def all_mgmt_empty_def on_mgmt_sel port_stops_def Let_def)
    moreover have "hw_busy ?u = hw_busy s \<and> mgmt_request ?u = mgmt_request s" by (simp add: on_mgmt_sel port_stops_def Let_def)
    ultimately show ?thesis by (simp add: flow_post_def)
  qed
qed

section \<open>The state machine\<close>

text \<open>
  Before an event: the connection already has the state that the event leads to, the flags and the port
  still belong to the old state. \<open>EAPOL\<close> does not come in \<open>OPEN_DATA\<close>, and \<open>OPEN\<close> comes in \<open>EAPOL\<close> only.
\<close>

definition sm_pre :: "ESmEvent \<Rightarrow> TxPath \<Rightarrow> bool" where
  "sm_pre ev s \<longleftrightarrow> base_ok s \<and> port_ok s \<and>
     (queuesMuxState (tx_port s) = MUX_DATA_QUEUES \<longleftrightarrow> eSmState (tx_mgmt s) = SM_STATE_OPEN_DATA) \<and>
     (\<forall>j<NUM_OF_MGMT_QUEUES. aQueueEnabledBySM (tx_mgmt s) j = flag_of (eSmState (tx_mgmt s)) j) \<and>
     eTxConnState (tx_mgmt s) = conn_of (eSmState (fst (sm_next ev (tx_mgmt s)))) \<and>
     (ev = SM_EVENT_EAPOL \<longrightarrow> eSmState (tx_mgmt s) \<noteq> SM_STATE_OPEN_DATA) \<and>
     (ev = SM_EVENT_OPEN \<longrightarrow> eSmState (tx_mgmt s) = SM_STATE_EAPOL)"

text \<open>When an event leaves no packet without a reason to wait.\<close>

definition sm_wait :: "ESmEvent \<Rightarrow> TxPath \<Rightarrow> bool" where
  "sm_wait ev s \<longleftrightarrow> (case ev of
     SM_EVENT_OPEN \<Rightarrow> all_mgmt_empty (tx_mgmt s) \<or> mgmt_wait s \<and> \<not> mgmt_request s
   | SM_EVENT_QUEUES_EMPTY \<Rightarrow> if eSmState (tx_mgmt s) = SM_STATE_OPEN_MGMT then all_mgmt_empty (tx_mgmt s) else wait_ok s
   | SM_EVENT_QUEUES_NOT_EMPTY \<Rightarrow> (eSmState (tx_mgmt s) \<in> {SM_STATE_OPEN_MGMT, SM_STATE_OPEN_DATA} \<longrightarrow> \<not> all_mgmt_empty (tx_mgmt s)) \<and>
       (eSmState (tx_mgmt s) = SM_STATE_OPEN_MGMT \<longrightarrow> mgmt_wait s)
   | _ \<Rightarrow> True)"

lemma flags_split: "(\<forall>j<NUM_OF_MGMT_QUEUES. P j) \<longleftrightarrow> P QUEUE_TYPE_MGMT \<and> P QUEUE_TYPE_EAPOL"
  by (auto simp: que_types less_2_cases_iff)

lemma sm_step_pre:
  assumes "sm_pre ev s"
  shows "base_ok (sm_step ev s)" "port_ok (sm_step ev s)" "\<And>f. base_ok (on_port f (sm_step ev s))"
    "\<And>m. port_agrees (on_port (\<lambda>p. p\<lparr>queuesMuxState := m\<rparr>) (sm_step ev s))"
    "snd (sm_next ev (tx_mgmt s)) \<in> {SM_ACTION_NULL, SM_ACTION_RUN_SCHEDULER} \<Longrightarrow> sm_ok (sm_step ev s)"
    "snd (sm_next ev (tx_mgmt s)) = SM_ACTION_ENABLE_DATA \<Longrightarrow> sm_ok (on_port (\<lambda>p. p\<lparr>queuesMuxState := MUX_DATA_QUEUES\<rparr>) (sm_step ev s))"
    "snd (sm_next ev (tx_mgmt s)) = SM_ACTION_ENABLE_MGMT \<Longrightarrow> sm_ok (on_port (\<lambda>p. p\<lparr>queuesMuxState := MUX_MGMT_QUEUES\<rparr>) (sm_step ev s))"
proof -
  have b: "base_ok s" "port_ok s" using assms by (simp_all add: sm_pre_def)
  show "base_ok (sm_step ev s)" "\<And>f. base_ok (on_port f (sm_step ev s))"
    using b(1) base_ok_same [of "sm_step ev s" s] base_ok_same [of "on_port f (sm_step ev s)" s for f] by simp_all
  show "port_ok (sm_step ev s)" "\<And>m. port_agrees (on_port (\<lambda>p. p\<lparr>queuesMuxState := m\<rparr>) (sm_step ev s))"
    using b(2) by (simp_all add: port_ok_def port_agrees_def)
qed (use assms in \<open>cases ev; cases "eSmState (tx_mgmt s)"; simp add: sm_pre_def sm_ok_def sm_next_def enable_queues_def flags_split que_types split: if_splits\<close>)+

text \<open>The waits after the step, and before its action.\<close>

lemma sm_step_waits:
  assumes "sm_pre ev s"
  defines "a \<equiv> snd (sm_next ev (tx_mgmt s))"
  shows "eSmState (tx_mgmt s) \<noteq> SM_STATE_OPEN_DATA \<Longrightarrow> data_wait (sm_step ev s)"
    "a = SM_ACTION_ENABLE_DATA \<Longrightarrow> sm_wait ev s \<Longrightarrow> eSmState (tx_mgmt s) \<noteq> SM_STATE_OPEN_DATA \<and> open_ok (sm_step ev s)"
    "a = SM_ACTION_ENABLE_MGMT \<Longrightarrow> sm_wait ev s \<Longrightarrow> \<not> bMgmtPortEnable (tx_mgmt s) \<and> open_ok (sm_step ev s)"
    "a = SM_ACTION_RUN_SCHEDULER \<Longrightarrow> eSmState (tx_mgmt s) \<noteq> SM_STATE_OPEN_DATA \<and>
       eSmState (tx_mgmt (sm_step ev s)) \<in> {SM_STATE_MGMT, SM_STATE_EAPOL}"
    "a = SM_ACTION_NULL \<Longrightarrow> sm_wait ev s \<Longrightarrow> wait_ok (sm_step ev s)"
proof -
  have closed: "\<not> bDataPortEnable (tx_data s)" if "eSmState (tx_mgmt s) \<noteq> SM_STATE_OPEN_DATA"
    using assms(1) that by (simp add: sm_pre_def port_ok_def)
  then show w: "eSmState (tx_mgmt s) \<noteq> SM_STATE_OPEN_DATA \<Longrightarrow> data_wait (sm_step ev s)" by (simp add: data_wait_def)
  show "a = SM_ACTION_NULL \<Longrightarrow> sm_wait ev s \<Longrightarrow> wait_ok (sm_step ev s)"
    using assms w unfolding wait_ok_def a_def
    by (cases ev; cases "eSmState (tx_mgmt s)")
      (auto simp: sm_pre_def sm_wait_def sm_next_def mgmt_wait_def open_ok_def wait_ok_def enable_queues_def flags_split que_types data_wait_def
        all_mgmt_empty_def split: if_splits)
qed (use assms in \<open>cases ev; cases "eSmState (tx_mgmt s)"; auto simp: sm_pre_def port_ok_def sm_wait_def sm_next_def open_ok_def
  enable_queues_def all_mgmt_empty_def split: if_splits\<close>)+

lemma mgmtQueuesSM_keeps:
  assumes e: "env_ok e" and s: "sm_pre ev s"
  shows "flow_post (sm_wait ev s) (mgmtQueuesSM e ev s) s"
proof (cases "snd (sm_next ev (tx_mgmt s))")
  case SM_ACTION_NULL
  then show ?thesis using sm_step_pre [OF s] sm_step_waits(5) [OF s] by (simp add: mgmtQueuesSM_unfold flow_post_def ctl_ok_def)
next
  case SM_ACTION_ENABLE_DATA
  let ?u = "on_port (\<lambda>p. p\<lparr>queuesMuxState := MUX_DATA_QUEUES\<rparr>) (sm_step ev s)"
  have "flow_post (data_wait ?u \<and> open_ok ?u) (updateQueuesStates e ?u) ?u"
    using sm_step_pre [OF s] SM_ACTION_ENABLE_DATA by (intro update_data_keeps [OF e]) simp_all
  moreover have "sm_wait ev s \<Longrightarrow> data_wait ?u \<and> open_ok ?u"
    using sm_step_waits(1,2) [OF s] SM_ACTION_ENABLE_DATA by (simp add: data_wait_def open_ok_def)
  ultimately show ?thesis using SM_ACTION_ENABLE_DATA by (auto simp: mgmtQueuesSM_unfold flow_post_def)
next
  case SM_ACTION_ENABLE_MGMT
  let ?u = "on_port (\<lambda>p. p\<lparr>queuesMuxState := MUX_MGMT_QUEUES\<rparr>) (sm_step ev s)"
  have "flow_post (open_ok ?u \<and> (bMgmtPortEnable (tx_mgmt ?u) \<longrightarrow> mgmt_wait ?u)) (updateQueuesStates e ?u) ?u"
    using sm_step_pre [OF s] SM_ACTION_ENABLE_MGMT by (intro update_mgmt_keeps [OF e]) simp_all
  moreover have "sm_wait ev s \<Longrightarrow> open_ok ?u \<and> \<not> bMgmtPortEnable (tx_mgmt ?u)"
    using sm_step_waits(3) [OF s] SM_ACTION_ENABLE_MGMT by (simp add: open_ok_def)
  ultimately show ?thesis using SM_ACTION_ENABLE_MGMT by (auto simp: mgmtQueuesSM_unfold flow_post_def)
next
  case SM_ACTION_RUN_SCHEDULER
  let ?u = "sm_step ev s"
  have ok: "base_ok ?u" "port_ok ?u" "sm_ok ?u" using sm_step_pre [OF s] SM_ACTION_RUN_SCHEDULER by simp_all
  then have "mgmt_sched_post (runScheduler e 0 ?u) ?u"
    using sm_gates [of ?u] by (intro runScheduler_good [OF e]) (simp_all add: base_ok_def que_types)
  note p = mgmt_post_ctl [OF this ok]
  have "data_wait ?u" "eSmState (tx_mgmt ?u) \<in> {SM_STATE_MGMT, SM_STATE_EAPOL}"
    using sm_step_waits(1,4) [OF s] SM_ACTION_RUN_SCHEDULER by simp_all
  then have "wait_ok (runScheduler e 0 ?u)" using p by (auto simp: wait_ok_def open_ok_def)
  then show ?thesis using p SM_ACTION_RUN_SCHEDULER by (simp add: mgmtQueuesSM_unfold flow_post_def)
qed

end
