(* ===== verification/WlTxOps.thy ===== *)
theory WlTxOps
  imports WlTxReach
begin

text \<open>
  The operations that the transmit path offers keep the invariants: those of \<^verbatim>\<open>txCtrl.c\<close> that change the
  backpressure, the connection state, the port, the entry of a packet, the tasks and the timer.
\<close>

section \<open>Backpressure\<close>

text \<open>An update of the flags of the queues.\<close>

lemma on_mgmt_queues:
  assumes "\<And>m. mq_aQueues (f m) = mq_aQueues m"
  shows "tx_good (on_mgmt f s) = tx_good s" "hw_busy (on_mgmt f s) = hw_busy s" "tx_mgmt (on_mgmt f s) = f (tx_mgmt s)"
    "tx_data (on_mgmt f s) = tx_data s" "tx_port (on_mgmt f s) = tx_port s" "mgmt_request (on_mgmt f s) = mgmt_request s"
    "data_request (on_mgmt f s) = data_request s" "pace_timer (on_mgmt f s) = pace_timer s"
  using assms by (simp_all add: on_mgmt_def hw_busy_def tx_good_def hw_ok_def hw_core_def busy_flag_def queue_ok_def log_ok_def tx_tids_def tx_types_def)

lemma busy_tids_0 [simp]: "busy_tids m 0 ac t = t"
  by (subst busy_tids.simps) simp

lemma no_busy_map: "txDataQ_UpdateQueuesBusyState 0 d = foldl (\<lambda>d i. d\<lparr>dq_aQueueBusy := (dq_aQueueBusy d)(aTidToQueueTable ! i := False)\<rparr>) d [0..<8]"
  by (simp add: txDataQ_UpdateQueuesBusyState_def ac_bounds)

lemma no_busy_flags: "q < MAX_NUM_OF_AC \<Longrightarrow> \<not> dq_aQueueBusy (txDataQ_UpdateQueuesBusyState 0 d) q"
  by (auto simp: no_busy_map ac_bounds upt_rec aTidToQueueTable_def)

lemma UpdateQueuesBusyState_sel [simp]:
  "bDataPortEnable (txDataQ_UpdateQueuesBusyState b d) = bDataPortEnable d" "dq_aQueues (txDataQ_UpdateQueuesBusyState b d) = dq_aQueues d"
  "uLastQueId (txDataQ_UpdateQueuesBusyState b d) = uLastQueId d" "aTxSendPaceThresh (txDataQ_UpdateQueuesBusyState b d) = aTxSendPaceThresh d"
  by (simp_all add: txDataQ_UpdateQueuesBusyState_def foldl_busy_sel)

lemma updateQueuesBusyMap_sel [simp]:
  "mq_aQueues (updateQueuesBusyMap b m) = mq_aQueues m" "bMgmtPortEnable (updateQueuesBusyMap b m) = bMgmtPortEnable m"
  "eSmState (updateQueuesBusyMap b m) = eSmState m" "eTxConnState (updateQueuesBusyMap b m) = eTxConnState m"
  "aQueueEnabledBySM (updateQueuesBusyMap b m) = aQueueEnabledBySM m"
  "j < 2 \<Longrightarrow> \<not> mq_aQueueBusy (updateQueuesBusyMap 0 m) j"
  by (auto simp: updateQueuesBusyMap_def que_types less_2_cases_iff)

text \<open>What has to hold before the backpressure is computed anew; \<open>f\<close> are the queues of the firmware that were freed.\<close>

definition back_pre :: "TI_UINT32 \<Rightarrow> TxPath \<Rightarrow> bool" where
  "back_pre f s \<longleftrightarrow> length (aTxHwQueueInfo (tx_hw s)) = MAX_NUM_OF_AC \<and> (\<forall>t\<in>set (tx_tids s). unat t < MAX_NUM_OF_802_1d_TAGS) \<and>
     (\<forall>ac<MAX_NUM_OF_AC. highestAdmittedAc (tx_ctrl s) ac < MAX_NUM_OF_AC) \<and> fUpdateBusyMapCb (tx_hw s) \<noteq> None \<and>
     (\<forall>ac. bit (busyAcBitmap (tx_ctrl s)) ac \<longrightarrow> \<not> bit f ac \<longrightarrow> ac < MAX_NUM_OF_AC \<and> bQueueBusy (aTxHwQueueInfo (tx_hw s) ! ac)) \<and>
     queue_ok s \<and> log_ok s \<and> uLastQueId (tx_data s) < MAX_NUM_OF_AC \<and> thresh_ok s \<and> port_ok s \<and> sm_ok s"

lemma UpdateBackpressure_keeps:
  assumes e: "env_ok e" and s: "back_pre f s"
  shows "ctl_ok (txCtrl_UpdateBackpressure e f s)" "open_ok s \<longrightarrow> wait_ok (txCtrl_UpdateBackpressure e f s)"
    "mgmt_request (txCtrl_UpdateBackpressure e f s) = mgmt_request s"
proof -
  define ac where "ac = busyAcBitmap (tx_ctrl s) AND NOT f"
  define tid where "tid = busy_tids (admittedAcToTidMap (tx_ctrl s)) ac 0 0"
  define s1 where "s1 = on_ctrl (\<lambda>c. c\<lparr>busyAcBitmap := ac, busyTidBitmap := tid\<rparr>) s"
  define s2 where "s2 = on_data (txDataQ_UpdateQueuesBusyState tid) s1"
  define s3 where "s3 = txDataQ_RunScheduler e s2"
  define s4 where "s4 = on_mgmt (updateQueuesBusyMap tid) s3"
  have r: "txCtrl_UpdateBackpressure e f s = runSchedulerNotFromSm e s4"
    by (simp add: txCtrl_UpdateBackpressure_def txMgmtQ_UpdateBusyMap_def txDataQ_UpdateBusyMap_def Let_def
        s4_def s3_def s2_def s1_def tid_def ac_def)
  have parts: "tx_mgmt s2 = tx_mgmt s" "tx_data s2 = txDataQ_UpdateQueuesBusyState tid (tx_data s)" "tx_port s2 = tx_port s"
    "tx_hw s2 = tx_hw s" "sent s2 = sent s" "tx_tids s2 = tx_tids s" "tx_types s2 = tx_types s" "mgmt_request s2 = mgmt_request s"
    "highestAdmittedAc (tx_ctrl s2) = highestAdmittedAc (tx_ctrl s)" "busyAcBitmap (tx_ctrl s2) = ac"
    by (simp_all add: s2_def s1_def on_data_def on_ctrl_def tx_tids_def tx_types_def)
  have core: "hw_core s2"
    using s unfolding back_pre_def hw_core_def parts ac_def by (auto simp: bit_simps)
  have busy: "tid \<noteq> 0 \<Longrightarrow> hw_busy s2"
  proof -
    assume "tid \<noteq> 0"
    then have "ac \<noteq> 0" by (auto simp: tid_def)
    then obtain i where "bit ac i" using bit_eq_iff [of ac 0] by auto
    then show ?thesis using core by (auto simp: hw_core_def hw_busy_def parts)
  qed
  have "busy_flag s2 \<Longrightarrow> tid \<noteq> 0" using no_busy_flags by (auto simp: busy_flag_def parts)
  then have good: "tx_good s2"
    using s core busy by (simp add: tx_good_def hw_ok_def back_pre_def queue_ok_def log_ok_def parts)
  have ctl2: "port_ok s2" "sm_ok s2" "thresh_ok s2" "uLastQueId (tx_data s2) < MAX_NUM_OF_AC"
    using s by (simp_all add: back_pre_def port_ok_def sm_ok_def thresh_ok_def parts)
  have "bDataPortEnable (tx_data s2) \<longrightarrow> eTxConnState (tx_mgmt s2) = TX_CONN_STATE_OPEN"
    using ctl2(1,2) by (auto simp: port_ok_def sm_ok_def)
  then have post: "data_sched_post s3 s2" unfolding s3_def by (intro txDataQ_RunScheduler_good [OF e good _ ctl2(4)])
  have "mgmt_busy_ok s4"
  proof (cases "tid = 0")
    case False
    then have "hw_busy s4" using post busy by (simp add: s4_def on_mgmt_queues data_sched_post_def)
    then show ?thesis by (simp add: mgmt_busy_ok_def)
  qed (simp add: mgmt_busy_ok_def s4_def on_mgmt_queues)
  moreover have "same_ctl s3 s2" using post by (simp add: data_sched_post_def)
  then have "port_ok s3" "sm_ok s3" "thresh_ok s3" using ctl2 ctl_same by blast+
  ultimately have ctl4: "ctl_ok s4"
    using post by (simp add: ctl_ok_def base_ok_def s4_def on_mgmt_queues data_sched_post_def)
      (simp add: port_ok_def sm_ok_def thresh_ok_def on_mgmt_queues)
  have "data_wait s4" using post by (simp add: data_wait_def s4_def on_mgmt_queues data_sched_post_def)
  moreover have "open_ok s4 = open_ok s"
    using post by (simp add: open_ok_def all_mgmt_empty_def s4_def on_mgmt_queues data_sched_post_def same_ctl_def parts)
  moreover have "mgmt_request s4 = mgmt_request s"
    using post by (simp add: s4_def on_mgmt_queues data_sched_post_def same_ctl_def parts)
  ultimately show "ctl_ok (txCtrl_UpdateBackpressure e f s)" "open_ok s \<longrightarrow> wait_ok (txCtrl_UpdateBackpressure e f s)"
    "mgmt_request (txCtrl_UpdateBackpressure e f s) = mgmt_request s"
    using runSchedulerNotFromSm_keeps [OF e ctl4] by (simp_all add: r flow_post_def)
qed

lemma ctl_back: "ctl_ok s \<Longrightarrow> back_pre f s"
  by (simp add: ctl_ok_def base_ok_def back_pre_def tx_good_def hw_ok_def hw_core_def)

text \<open>What the invariants depend on.\<close>

definition same_view :: "TxPath \<Rightarrow> TxPath \<Rightarrow> bool" where
  "same_view s' s \<longleftrightarrow> same_hw s' s \<and> same_ctl s' s \<and> mq_aQueues (tx_mgmt s') = mq_aQueues (tx_mgmt s) \<and>
     dq_aQueues (tx_data s') = dq_aQueues (tx_data s) \<and> uLastQueId (tx_data s') = uLastQueId (tx_data s)"

lemma same_viewI: "same_hw s' s \<Longrightarrow> same_tx s' s \<Longrightarrow> same_view s' s"
  by (simp add: same_view_def same_tx_def)

lemma same_view_trans: "same_view s'' s' \<Longrightarrow> same_view s' s \<Longrightarrow> same_view s'' s"
  by (auto simp: same_view_def intro: same_hw_trans same_ctl_trans)

lemma same_view_refl [simp]: "same_view s s"
  by (simp add: same_view_def same_hw_def)

lemma view_ok:
  assumes "same_view s' s"
  shows "ctl_ok s' = ctl_ok s" "wait_ok s' = wait_ok s" "open_ok s' = open_ok s"
proof -
  have h: "same_hw s' s" "same_ctl s' s" using assms by (simp_all add: same_view_def)
  have "tx_good s' = tx_good s" using assms h(1) by (intro tx_good_same) (simp_all add: same_view_def)
  then show "ctl_ok s' = ctl_ok s"
    using assms ctl_same [OF h(2)] same_hw_ok(4) [OF h(1)] by (simp add: ctl_ok_def base_ok_def same_view_def)
  show "wait_ok s' = wait_ok s" "open_ok s' = open_ok s"
    using assms same_hw_ok(2) [OF h(1)]
    by (simp_all add: wait_ok_def data_wait_def mgmt_wait_def open_ok_def all_mgmt_empty_def same_view_def same_ctl_def)
qed

text \<open>A report of the firmware: the released memory, and the callback when a queue of the firmware is woken.\<close>

definition fw_report :: "TxEnv \<Rightarrow> TI_UINT8 \<Rightarrow> TI_UINT32 list \<Rightarrow> TxPath \<Rightarrow> TxPath" where
  "fw_report e txResultsCntr txReleasedBlks s =
     (case txHwQueue_UpdateFreeResources (tx_hw s) txResultsCntr txReleasedBlks of (hw, woken_map) \<Rightarrow>
        case woken_map of None \<Rightarrow> s\<lparr>tx_hw := hw\<rparr> | Some m \<Rightarrow> txCtrl_UpdateBackpressure e m (s\<lparr>tx_hw := hw\<rparr>))"

lemma update_descriptors_busy [simp]:
  "aTxHwQueueInfo (update_descriptors q r) = aTxHwQueueInfo q" "fUpdateBusyMapCb (update_descriptors q r) = fUpdateBusyMapCb q"
  by (simp_all add: update_descriptors_def)

lemma UpdateFreeResources_busy:
  assumes "txHwQueue_UpdateFreeResources q r rel = (q', m)" "length (aTxHwQueueInfo q) = MAX_NUM_OF_AC" "fUpdateBusyMapCb q \<noteq> None"
  shows "length (aTxHwQueueInfo q') = MAX_NUM_OF_AC" "fUpdateBusyMapCb q' = fUpdateBusyMapCb q"
    "i < MAX_NUM_OF_AC \<Longrightarrow> bQueueBusy (aTxHwQueueInfo q' ! i) =
       (bQueueBusy (aTxHwQueueInfo q ! i) \<and> \<not> (case m of None \<Rightarrow> False | Some b \<Rightarrow> bit b i))"
    "m = Some b \<Longrightarrow> \<exists>i<MAX_NUM_OF_AC. bQueueBusy (aTxHwQueueInfo q ! i)"
proof -
  define u where "u = foldl (\<lambda>q i. txHwQueue_UpdateFreeBlocks q i (rel ! i)) (update_descriptors q r) [0..<MAX_NUM_OF_AC]"
  define w where "w = foldl (\<lambda>bm i. if woken u i then bm OR push_bit i 1 else bm) (0 :: TI_UINT32) [0..<MAX_NUM_OF_AC]"
  have u: "length (aTxHwQueueInfo u) = MAX_NUM_OF_AC" "fUpdateBusyMapCb u = fUpdateBusyMapCb q"
    "\<And>i. bQueueBusy (aTxHwQueueInfo u ! i) = bQueueBusy (aTxHwQueueInfo q ! i)"
    using assms(2) by (simp_all add: u_def UpdateFreeBlocks_busy_fold)
  have w: "bit w k = (k < MAX_NUM_OF_AC \<and> woken u k)" for k
    unfolding w_def by (rule wake_bits) (simp add: ac_bounds)
  have q': "q' = u\<lparr>aTxHwQueueInfo := map (\<lambda>i. if i < MAX_NUM_OF_AC \<and> woken u i then (aTxHwQueueInfo u ! i)\<lparr>bQueueBusy := False\<rparr>
        else aTxHwQueueInfo u ! i) [0..<MAX_NUM_OF_AC]\<rparr>" "m = (if w > 0 then Some w else None)"
    using assms(1,3) u(2) unfolding txHwQueue_UpdateFreeResources_def Let_def u_def [symmetric] wake_queue_fold [OF u(1) order_refl] w_def [symmetric]
    by auto
  show "length (aTxHwQueueInfo q') = MAX_NUM_OF_AC" "fUpdateBusyMapCb q' = fUpdateBusyMapCb q" by (simp_all add: q' u(2))
  have "w = 0 \<Longrightarrow> i < MAX_NUM_OF_AC \<Longrightarrow> \<not> woken u i" using w [of i] by simp
  then show "i < MAX_NUM_OF_AC \<Longrightarrow> bQueueBusy (aTxHwQueueInfo q' ! i) =
       (bQueueBusy (aTxHwQueueInfo q ! i) \<and> \<not> (case m of None \<Rightarrow> False | Some b \<Rightarrow> bit b i))"
    using w [of i] u(3) [of i] by (auto simp: q' woken_def word_gt_0)
  assume "m = Some b"
  then have "w \<noteq> 0" by (auto simp: q'(2) split: if_splits)
  then obtain k where "bit w k" using bit_eq_iff [of w 0] by auto
  then show "\<exists>i<MAX_NUM_OF_AC. bQueueBusy (aTxHwQueueInfo q ! i)" using w [of k] u(3) by (auto simp: woken_def)
qed

lemma hw_upd_sel [simp]:
  "tx_tids (s\<lparr>tx_hw := hw\<rparr>) = tx_tids s" "tx_types (s\<lparr>tx_hw := hw\<rparr>) = tx_types s" "queue_ok (s\<lparr>tx_hw := hw\<rparr>) = queue_ok s"
  "log_ok (s\<lparr>tx_hw := hw\<rparr>) = log_ok s" "thresh_ok (s\<lparr>tx_hw := hw\<rparr>) = thresh_ok s" "port_ok (s\<lparr>tx_hw := hw\<rparr>) = port_ok s"
  "sm_ok (s\<lparr>tx_hw := hw\<rparr>) = sm_ok s" "busy_flag (s\<lparr>tx_hw := hw\<rparr>) = busy_flag s" "open_ok (s\<lparr>tx_hw := hw\<rparr>) = open_ok s"
  by (simp_all add: tx_tids_def tx_types_def queue_ok_def log_ok_def thresh_ok_def port_ok_def sm_ok_def busy_flag_def open_ok_def)

text \<open>The invariants under a change of the firmware's queues that leaves the busy flags.\<close>

lemma hw_change:
  assumes "s' = s\<lparr>tx_hw := hw\<rparr>" "length (aTxHwQueueInfo hw) = MAX_NUM_OF_AC" "fUpdateBusyMapCb hw \<noteq> None"
    "length (aTxHwQueueInfo (tx_hw s)) = MAX_NUM_OF_AC" "fUpdateBusyMapCb (tx_hw s) \<noteq> None"
    "\<And>i. i < MAX_NUM_OF_AC \<Longrightarrow> bQueueBusy (aTxHwQueueInfo hw ! i) = bQueueBusy (aTxHwQueueInfo (tx_hw s) ! i)"
  shows "ctl_ok s' = ctl_ok s" "wait_ok s' = wait_ok s"
proof -
  have b: "hw_busy s' = hw_busy s" using assms by (auto simp: hw_busy_def)
  have "hw_core s' = hw_core s" using assms by (auto simp: hw_core_def)
  then show "ctl_ok s' = ctl_ok s"
    using b assms(1) by (simp add: ctl_ok_def base_ok_def tx_good_def hw_ok_def mgmt_busy_ok_def)
  show "wait_ok s' = wait_ok s"
    using b assms(1) by (simp add: wait_ok_def data_wait_def mgmt_wait_def)
qed

lemma ctl_hw: "ctl_ok s \<Longrightarrow> hw_core s" "ctl_ok s \<Longrightarrow> queue_ok s"
  by (simp_all add: ctl_ok_def base_ok_def tx_good_def hw_ok_def)

lemma fw_report_keeps:
  assumes e: "env_ok e" and s: "ctl_ok s"
  shows "ctl_ok (fw_report e r rel s)" "wait_ok s \<longrightarrow> wait_ok (fw_report e r rel s)"
proof -
  obtain hw m where u: "txHwQueue_UpdateFreeResources (tx_hw s) r rel = (hw, m)" by fastforce
  have len: "length (aTxHwQueueInfo (tx_hw s)) = MAX_NUM_OF_AC" "fUpdateBusyMapCb (tx_hw s) \<noteq> None"
    using ctl_hw(1) [OF s] by (simp_all add: hw_core_def)
  note b = UpdateFreeResources_busy [OF u len]
  have "ctl_ok (fw_report e r rel s) \<and> (wait_ok s \<longrightarrow> wait_ok (fw_report e r rel s))"
  proof (cases m)
    case None
    then show ?thesis
      using hw_change [OF refl, of hw s] b len s by (simp add: fw_report_def u)
  next
    case (Some f)
    have "back_pre f (s\<lparr>tx_hw := hw\<rparr>)"
      using ctl_back [OF s, of 0] b len Some
      by (simp add: back_pre_def)
    note k = UpdateBackpressure_keeps [OF e this]
    then show ?thesis using k Some by (simp add: fw_report_def u wait_ok_def)
  qed
  then show "ctl_ok (fw_report e r rel s)" "wait_ok s \<longrightarrow> wait_ok (fw_report e r rel s)" by simp_all
qed

section \<open>Admission control and recovery\<close>

lemma priority_less: "n < MAX_NUM_OF_AC \<Longrightarrow> priorityOrderedAc ! n < MAX_NUM_OF_AC"
  by (auto simp: ac_bounds numeral_eq_Suc less_Suc_eq priorityOrderedAc_def QOS_AC_BE_def QOS_AC_BK_def QOS_AC_VI_def QOS_AC_VO_def)

lemma find_output_less: "n < MAX_NUM_OF_AC \<Longrightarrow> find_output req n = Some ac \<Longrightarrow> ac < MAX_NUM_OF_AC"
  by (induction n) (auto simp: priority_less split: if_splits)

lemma priority_range: "ac < MAX_NUM_OF_AC \<Longrightarrow> ac \<in> (!) priorityOrderedAc ` {0..<MAX_NUM_OF_AC}"
proof -
  have "{0..<MAX_NUM_OF_AC} = {0, 1, 2, 3}" by (auto simp: ac_bounds)
  moreover assume "ac < MAX_NUM_OF_AC"
  then have "ac \<in> {0, 1, 2, 3}" by (auto simp: ac_bounds)
  ultimately show ?thesis by (auto simp: priorityOrderedAc_def QOS_AC_BE_def QOS_AC_BK_def QOS_AC_VI_def QOS_AC_VO_def)
qed

definition output_ac :: "txCtrl_t \<Rightarrow> nat \<Rightarrow> nat" where
  "output_ac c i = (if admissionState c (priorityOrderedAc ! i) = AC_ADMITTED then priorityOrderedAc ! i
     else case find_output (admissionRequired c) i of Some ac \<Rightarrow> ac | None \<Rightarrow> QOS_AC_BE)"

lemma output_ac_less: "i < MAX_NUM_OF_AC \<Longrightarrow> output_ac c i < MAX_NUM_OF_AC"
  using find_output_less [of i] ac_bounds(1) by (auto simp: output_ac_def priority_less QOS_AC_BE_def split: option.split)

text \<open>Every access category is mapped to one; the other fields stay.\<close>

definition highest_step :: "txCtrl_t \<Rightarrow> nat \<Rightarrow> txCtrl_t" where
  "highest_step c i = c\<lparr>highestAdmittedAc := (highestAdmittedAc c)(priorityOrderedAc ! i := output_ac c i)\<rparr>"

lemma highest_fold:
  "n \<le> MAX_NUM_OF_AC \<Longrightarrow> (\<forall>i<n. highestAdmittedAc (foldl highest_step c [0..<n]) (priorityOrderedAc ! i) < MAX_NUM_OF_AC) \<and>
     busyAcBitmap (foldl highest_step c [0..<n]) = busyAcBitmap c"
  by (induction n) (auto simp: highest_step_def output_ac_less less_Suc_eq)

lemma highest_step_fold: "txCtrl_UpdateHighestAdmittedAcTable c = foldl highest_step c [0..<MAX_NUM_OF_AC]"
  by (simp add: txCtrl_UpdateHighestAdmittedAcTable_def highest_step_def [abs_def] output_ac_def Let_def)

lemma highest_admitted:
  "ac < MAX_NUM_OF_AC \<Longrightarrow> highestAdmittedAc (txCtrl_UpdateHighestAdmittedAcTable c) ac < MAX_NUM_OF_AC"
  "busyAcBitmap (txCtrl_UpdateHighestAdmittedAcTable c) = busyAcBitmap c"
  using highest_fold [OF order_refl, of c] priority_range [of ac] by (auto simp: highest_step_fold)

lemma tid_map_fold:
  "highestAdmittedAc (foldl (\<lambda>c i. c\<lparr>admittedAcToTidMap := f c i\<rparr>) c xs) = highestAdmittedAc c"
  "busyAcBitmap (foldl (\<lambda>c i. c\<lparr>admittedAcToTidMap := f c i\<rparr>) c xs) = busyAcBitmap c"
  by (induction xs arbitrary: c) simp_all

lemma tid_map_sel:
  "highestAdmittedAc (txCtrl_UpdateAcToTidMapping c) = highestAdmittedAc c" "busyAcBitmap (txCtrl_UpdateAcToTidMapping c) = busyAcBitmap c"
  by (simp_all add: txCtrl_UpdateAcToTidMapping_def Let_def tid_map_fold)

text \<open>A change of the module \<^verbatim>\<open>txCtrl.c\<close> before the backpressure is computed.\<close>

lemma on_ctrl_view [simp]:
  "tx_tids (on_ctrl f s) = tx_tids s" "tx_types (on_ctrl f s) = tx_types s" "tx_hw (on_ctrl f s) = tx_hw s"
  "tx_ctrl (on_ctrl f s) = f (tx_ctrl s)" "tx_data (on_ctrl f s) = tx_data s" "queue_ok (on_ctrl f s) = queue_ok s"
  "log_ok (on_ctrl f s) = log_ok s" "thresh_ok (on_ctrl f s) = thresh_ok s" "port_ok (on_ctrl f s) = port_ok s"
  "sm_ok (on_ctrl f s) = sm_ok s" "open_ok (on_ctrl f s) = open_ok s"
  by (simp_all add: on_ctrl_def tx_tids_def tx_types_def queue_ok_def log_ok_def thresh_ok_def port_ok_def sm_ok_def open_ok_def)

lemma ctrl_back:
  assumes "back_pre 0 s" "\<And>ac. ac < MAX_NUM_OF_AC \<Longrightarrow> highestAdmittedAc (f (tx_ctrl s)) ac < MAX_NUM_OF_AC"
    "busyAcBitmap (f (tx_ctrl s)) = busyAcBitmap (tx_ctrl s) \<or> busyAcBitmap (f (tx_ctrl s)) = 0"
  shows "back_pre 0 (on_ctrl f s)" "open_ok (on_ctrl f s) = open_ok s"
  using assms by (auto simp: back_pre_def)

lemma setAcAdmissionStatus_keeps:
  assumes e: "env_ok e" and s: "ctl_ok s"
  shows "ctl_ok (txCtrlParams_setAcAdmissionStatus e ac req st s)"
    "wait_ok s \<longrightarrow> wait_ok (txCtrlParams_setAcAdmissionStatus e ac req st s)"
proof -
  let ?f = "\<lambda>c. txCtrl_UpdateAcToTidMapping (txCtrl_UpdateHighestAdmittedAcTable
    (c\<lparr>admissionRequired := (admissionRequired c)(ac := req), admissionState := (admissionState c)(ac := st)\<rparr>))"
  have r: "txCtrlParams_setAcAdmissionStatus e ac req st s = txCtrl_UpdateBackpressure e 0 (on_ctrl ?f s)"
    by (simp add: txCtrlParams_setAcAdmissionStatus_def txCtrl_UpdateQueuesMapping_def on_ctrl_def)
  have b: "back_pre 0 (on_ctrl ?f s)" "open_ok (on_ctrl ?f s) = open_ok s"
    by (rule ctrl_back [OF ctl_back [OF s]]; simp add: highest_admitted tid_map_sel)+
  show "ctl_ok (txCtrlParams_setAcAdmissionStatus e ac req st s)"
    "wait_ok s \<longrightarrow> wait_ok (txCtrlParams_setAcAdmissionStatus e ac req st s)"
    using UpdateBackpressure_keeps [OF e b(1)] b(2) by (simp_all add: r wait_ok_def)
qed

text \<open>The recovery: the queues of the firmware start anew, then the packets that were in the firmware are freed.\<close>

lemma Restart_fold:
  "length (aTxHwQueueInfo (foldl (\<lambda>q i. q\<lparr>aTxHwQueueInfo := (aTxHwQueueInfo q)[i := f q i], uNumTotalBlksReserved := g q i\<rparr>) q xs)) =
     length (aTxHwQueueInfo q)"
  "fUpdateBusyMapCb (foldl (\<lambda>q i. q\<lparr>aTxHwQueueInfo := (aTxHwQueueInfo q)[i := f q i], uNumTotalBlksReserved := g q i\<rparr>) q xs) = fUpdateBusyMapCb q"
  by (induction xs arbitrary: q) simp_all

lemma Restart_sel:
  "length (aTxHwQueueInfo (txHwQueue_Restart q)) = length (aTxHwQueueInfo q)" "fUpdateBusyMapCb (txHwQueue_Restart q) = fUpdateBusyMapCb q"
  by (simp_all add: txHwQueue_Restart_def Let_def Restart_fold)

lemma free_view: "same_view (txCtrl_FreePacket p s) s" "same_view (free_sent s p) s"
  using same_viewI [OF free_hw same_parts(5), of p s] by (simp_all add: free_sent_def Let_def)

lemma free_fold: "same_view (foldl free_sent s ps) s"
proof (induction ps arbitrary: s)
  case (Cons p ps)
  then show ?case using free_view(2) [of s p] same_view_trans [of _ "free_sent s p" s] by simp
qed simp

definition tx_recovery :: "TxEnv \<Rightarrow> TxPath \<Rightarrow> TxPath" where
  "tx_recovery e s = snd (txCtrl_NotifyFwReset e (s\<lparr>tx_hw := txHwQueue_Restart (tx_hw s)\<rparr>))"

lemma tx_recovery_keeps:
  assumes e: "env_ok e" and s: "ctl_ok s"
  shows "ctl_ok (tx_recovery e s)" "wait_ok s \<longrightarrow> wait_ok (tx_recovery e s)"
proof -
  let ?s1 = "s\<lparr>tx_hw := txHwQueue_Restart (tx_hw s)\<rparr>"
  let ?s2 = "on_ctrl (\<lambda>c. c\<lparr>busyAcBitmap := 0\<rparr>) ?s1"
  have b: "back_pre 0 ?s2" "open_ok ?s2 = open_ok s"
    using ctl_back [OF s, of 0]
    by (simp_all add: Restart_sel back_pre_def)
  let ?s3 = "txCtrl_UpdateBackpressure e 0 ?s2"
  have "tx_recovery e s = foldl free_sent ?s3 [0..<CTRL_BLK_ENTRIES_NUM - 1]"
    by (simp add: tx_recovery_def txCtrl_NotifyFwReset_def)
  then have "ctl_ok (tx_recovery e s) = ctl_ok ?s3" "wait_ok (tx_recovery e s) = wait_ok ?s3"
    using free_fold [of ?s3 "[0..<CTRL_BLK_ENTRIES_NUM - 1]"] view_ok by simp_all
  then show "ctl_ok (tx_recovery e s)" "wait_ok s \<longrightarrow> wait_ok (tx_recovery e s)"
    using UpdateBackpressure_keeps [OF e b(1)] b(2) by (simp_all add: wait_ok_def)
qed

section \<open>The connection, the port and the tasks\<close>

text \<open>The connection states in the order in which the connection managers set them.\<close>

definition conn_legal :: "ETxConnState \<Rightarrow> TxPath \<Rightarrow> bool" where
  "conn_legal c s \<longleftrightarrow> (case c of
     TX_CONN_STATE_EAPOL \<Rightarrow> eSmState (tx_mgmt s) \<noteq> SM_STATE_OPEN_DATA
   | TX_CONN_STATE_OPEN \<Rightarrow> eSmState (tx_mgmt s) = SM_STATE_EAPOL
   | _ \<Rightarrow> True)"

definition conn_event :: "ETxConnState \<Rightarrow> ESmEvent" where
  "conn_event c = (case c of TX_CONN_STATE_CLOSE \<Rightarrow> SM_EVENT_CLOSE | TX_CONN_STATE_MGMT \<Rightarrow> SM_EVENT_MGMT
     | TX_CONN_STATE_EAPOL \<Rightarrow> SM_EVENT_EAPOL | TX_CONN_STATE_OPEN \<Rightarrow> SM_EVENT_OPEN)"

lemma SetConnState_event: "txMgmtQ_SetConnState e c s = mgmtQueuesSM e (conn_event c) (on_mgmt (\<lambda>m. m\<lparr>eTxConnState := c\<rparr>) s)"
  by (simp add: txMgmtQ_SetConnState_def conn_event_def Let_def split: ETxConnState.split)

lemma conn_state_next:
  "conn_of (eSmState (fst (sm_next (conn_event c) m))) = c"
  by (simp add: conn_event_def sm_next_def enable_queues_def Let_def split: ETxConnState.split)

lemma SetConnState_keeps:
  assumes e: "env_ok e" and s: "ctl_ok s" and c: "conn_legal c s"
  shows "ctl_ok (txMgmtQ_SetConnState e c s)"
    "wait_ok s \<Longrightarrow> c = TX_CONN_STATE_OPEN \<longrightarrow> all_mgmt_empty (tx_mgmt s) \<or> \<not> mgmt_request s \<Longrightarrow> wait_ok (txMgmtQ_SetConnState e c s)"
proof -
  let ?u = "on_mgmt (\<lambda>m. m\<lparr>eTxConnState := c\<rparr>) s"
  have "sm_pre (conn_event c) ?u"
    using s c conn_state_next [of c]
    by (cases c) (simp_all add: sm_pre_def ctl_ok_def base_ok_def thresh_ok_def port_ok_def sm_ok_def on_mgmt_sel conn_event_def conn_legal_def)
  from mgmtQueuesSM_keeps [OF e this]
  have k: "ctl_ok (txMgmtQ_SetConnState e c s) \<and> (sm_wait (conn_event c) ?u \<longrightarrow> wait_ok (txMgmtQ_SetConnState e c s))"
    by (simp add: SetConnState_event flow_post_def)
  then show "ctl_ok (txMgmtQ_SetConnState e c s)" ..
  assume "wait_ok s" "c = TX_CONN_STATE_OPEN \<longrightarrow> all_mgmt_empty (tx_mgmt s) \<or> \<not> mgmt_request s"
  then have "sm_wait (conn_event c) ?u"
    by (cases c) (auto simp: sm_wait_def conn_event_def all_mgmt_empty_def wait_ok_def mgmt_wait_def on_mgmt_sel)
  then show "wait_ok (txMgmtQ_SetConnState e c s)" using k by simp
qed

text \<open>The request to the management queues is served.\<close>

definition serve_mgmt :: "TxEnv \<Rightarrow> TxPath \<Rightarrow> TxPath" where
  "serve_mgmt e s = txMgmtQ_QueuesNotEmpty e (s\<lparr>mgmt_request := False\<rparr>)"

definition serve_data :: "TxEnv \<Rightarrow> TxPath \<Rightarrow> TxPath" where
  "serve_data e s = txDataQ_RunScheduler e (s\<lparr>data_request := False\<rparr>)"

definition pace_expiry :: "TxEnv \<Rightarrow> TxPath \<Rightarrow> TxPath" where
  "pace_expiry e s = txDataQ_TxSendPaceTimeout e (s\<lparr>pace_timer := False\<rparr>)"

text \<open>The requests and the timer are seen by the waits only.\<close>

lemma request_view [simp]:
  "base_ok (s\<lparr>mgmt_request := b\<rparr>) = base_ok s" "port_ok (s\<lparr>mgmt_request := b\<rparr>) = port_ok s" "sm_ok (s\<lparr>mgmt_request := b\<rparr>) = sm_ok s"
  "base_ok (s\<lparr>data_request := b\<rparr>) = base_ok s" "port_ok (s\<lparr>data_request := b\<rparr>) = port_ok s" "sm_ok (s\<lparr>data_request := b\<rparr>) = sm_ok s"
  "base_ok (s\<lparr>pace_timer := b\<rparr>) = base_ok s" "port_ok (s\<lparr>pace_timer := b\<rparr>) = port_ok s" "sm_ok (s\<lparr>pace_timer := b\<rparr>) = sm_ok s"
  "tx_good (s\<lparr>mgmt_request := b\<rparr>) = tx_good s" "tx_good (s\<lparr>data_request := b\<rparr>) = tx_good s" "tx_good (s\<lparr>pace_timer := b\<rparr>) = tx_good s"
  "mgmt_busy_ok (s\<lparr>mgmt_request := b\<rparr>) = mgmt_busy_ok s" "mgmt_busy_ok (s\<lparr>data_request := b\<rparr>) = mgmt_busy_ok s"
  "mgmt_busy_ok (s\<lparr>pace_timer := b\<rparr>) = mgmt_busy_ok s"
  "hw_busy (s\<lparr>mgmt_request := b\<rparr>) = hw_busy s" "hw_busy (s\<lparr>data_request := b\<rparr>) = hw_busy s" "hw_busy (s\<lparr>pace_timer := b\<rparr>) = hw_busy s"
  by (simp_all add: base_ok_def port_ok_def sm_ok_def thresh_ok_def tx_good_def hw_ok_def hw_core_def hw_busy_def busy_flag_def mgmt_busy_ok_def
      queue_ok_def log_ok_def tx_tids_def tx_types_def)

lemma not_empty_pre: "ctl_ok s \<Longrightarrow> sm_pre SM_EVENT_QUEUES_NOT_EMPTY s"
  by (auto simp: sm_pre_def ctl_ok_def sm_ok_def sm_next_def enable_queues_def Let_def)

lemma serve_mgmt_keeps:
  assumes e: "env_ok e" and s: "ctl_ok s"
  shows "ctl_ok (serve_mgmt e s)"
    "wait_ok s \<Longrightarrow> eSmState (tx_mgmt s) = SM_STATE_OPEN_DATA \<longrightarrow> \<not> all_mgmt_empty (tx_mgmt s) \<Longrightarrow> wait_ok (serve_mgmt e s)"
proof -
  let ?u = "s\<lparr>mgmt_request := False\<rparr>"
  have "ctl_ok ?u" using s by (simp add: ctl_ok_def)
  from mgmtQueuesSM_keeps [OF e not_empty_pre [OF this]]
  have k: "ctl_ok (serve_mgmt e s) \<and> (sm_wait SM_EVENT_QUEUES_NOT_EMPTY ?u \<longrightarrow> wait_ok (serve_mgmt e s))"
    by (simp add: serve_mgmt_def txMgmtQ_QueuesNotEmpty_def flow_post_def)
  then show "ctl_ok (serve_mgmt e s)" ..
  assume "wait_ok s" "eSmState (tx_mgmt s) = SM_STATE_OPEN_DATA \<longrightarrow> \<not> all_mgmt_empty (tx_mgmt s)"
  then have "sm_wait SM_EVENT_QUEUES_NOT_EMPTY ?u" by (auto simp: sm_wait_def wait_ok_def open_ok_def mgmt_wait_def)
  then show "wait_ok (serve_mgmt e s)" using k by simp
qed

text \<open>The data scheduler runs.\<close>

lemma data_run_keeps:
  assumes e: "env_ok e" and u: "ctl_ok u"
  shows "ctl_ok (txDataQ_RunScheduler e u)" "mgmt_wait u \<and> open_ok u \<longrightarrow> wait_ok (txDataQ_RunScheduler e u)"
proof -
  have c: "port_ok u \<and> sm_ok u \<and> thresh_ok u \<and> mgmt_busy_ok u" "tx_good u" "uLastQueId (tx_data u) < MAX_NUM_OF_AC"
    using u by (simp_all add: ctl_ok_def base_ok_def)
  have "bDataPortEnable (tx_data u) \<longrightarrow> eTxConnState (tx_mgmt u) = TX_CONN_STATE_OPEN" using c(1) by (auto simp: port_ok_def sm_ok_def)
  from txDataQ_RunScheduler_good [OF e c(2) this c(3)]
  have post: "data_sched_post (txDataQ_RunScheduler e u) u" .
  note d = data_post_ctl [OF this c(1)]
  show "ctl_ok (txDataQ_RunScheduler e u)" by (rule d(1))
  show "mgmt_wait u \<and> open_ok u \<longrightarrow> wait_ok (txDataQ_RunScheduler e u)"
    using post d by (auto simp: wait_ok_def mgmt_wait_def open_ok_def all_mgmt_empty_def data_sched_post_def same_ctl_def)
qed

lemma serve_data_keeps:
  assumes e: "env_ok e" and s: "ctl_ok s"
  shows "ctl_ok (serve_data e s)" "wait_ok s \<longrightarrow> wait_ok (serve_data e s)"
proof -
  have "ctl_ok (s\<lparr>data_request := False\<rparr>)" using s by (simp add: ctl_ok_def)
  note d = data_run_keeps [OF e this]
  show "ctl_ok (serve_data e s)" using d(1) by (simp add: serve_data_def)
  show "wait_ok s \<longrightarrow> wait_ok (serve_data e s)"
    using d(2) by (simp add: serve_data_def wait_ok_def mgmt_wait_def open_ok_def)
qed

lemma pace_expiry_keeps:
  assumes e: "env_ok e" and s: "ctl_ok s"
  shows "ctl_ok (pace_expiry e s)" "wait_ok s \<longrightarrow> wait_ok (pace_expiry e s)"
proof -
  let ?u = "on_data (\<lambda>d. d\<lparr>uTxSendPaceTimeoutsCount := uTxSendPaceTimeoutsCount d + 1\<rparr>) (s\<lparr>pace_timer := False\<rparr>)"
  have "ctl_ok ?u" using s by (simp add: ctl_ok_def base_ok_def thresh_ok_def port_ok_def sm_ok_def on_data_sel)
  note d = data_run_keeps [OF e this]
  show "ctl_ok (pace_expiry e s)" using d(1) by (simp add: pace_expiry_def txDataQ_TxSendPaceTimeout_def)
  show "wait_ok s \<longrightarrow> wait_ok (pace_expiry e s)"
    using d(2) by (simp add: pace_expiry_def txDataQ_TxSendPaceTimeout_def wait_ok_def mgmt_wait_def open_ok_def on_data_sel)
qed

text \<open>The port is suspended and resumed.\<close>

lemma port_change_keeps:
  assumes e: "env_ok e" and s: "ctl_ok s" and f: "\<And>p. queuesMuxState (f p) = queuesMuxState p \<and> mgmtQueueEnabled (f p) = mgmtQueueEnabled p \<and>
    dataQueueEnabled (f p) = dataQueueEnabled p"
  shows "ctl_ok (updateQueuesStates e (on_port f s))" "wait_ok s \<longrightarrow> wait_ok (updateQueuesStates e (on_port f s))"
proof -
  let ?u = "on_port f s"
  have u: "base_ok ?u" "port_agrees ?u" "sm_ok ?u"
    using s f by (simp_all add: ctl_ok_def base_ok_def thresh_ok_def port_ok_def port_agrees_def sm_ok_def)
  have w: "wait_ok s \<Longrightarrow> wait_ok ?u" by (simp add: wait_ok_def data_wait_def mgmt_wait_def open_ok_def)
  have "ctl_ok (updateQueuesStates e ?u) \<and> (wait_ok s \<longrightarrow> wait_ok (updateQueuesStates e ?u))"
  proof (cases "queuesMuxState (tx_port ?u)")
    case MUX_MGMT_QUEUES
    from update_mgmt_keeps [OF e u this refl] show ?thesis using w by (auto simp: flow_post_def wait_ok_def)
  next
    case MUX_DATA_QUEUES
    from update_data_keeps [OF e u this refl] show ?thesis using w by (auto simp: flow_post_def wait_ok_def)
  qed
  then show "ctl_ok (updateQueuesStates e ?u)" "wait_ok s \<longrightarrow> wait_ok (updateQueuesStates e ?u)" by simp_all
qed

end
