(* ===== verification/WlTxEnter.thy ===== *)
theory WlTxEnter
  imports WlTxOps
begin

text \<open>
  The entry of a packet, its preparation by its builder, and the initialisation and clearing of the
  queues keep the invariants; the states that all operations reach satisfy them.
\<close>

section \<open>The control block of a packet\<close>

definition not_queued :: "TxPath \<Rightarrow> nat \<Rightarrow> bool" where
  "not_queued s p \<longleftrightarrow> (\<forall>j<NUM_OF_MGMT_QUEUES. p \<notin> set (mgmt_queue s j)) \<and> (\<forall>q<MAX_NUM_OF_AC. p \<notin> set (data_queue s q))"

lemma que_at_outside: "length qs \<le> i \<Longrightarrow> que_at qs i = []"
  by (simp add: que_at_def)

lemma queue_ok_blk:
  assumes "queue_ok s" "not_queued s p \<or> (\<forall>b. uPktType (tTxPktParams (f b)) = uPktType (tTxPktParams b))"
  shows "queue_ok (on_blk p f s)"
proof (cases "p < length (tx_types s) \<and> not_queued s p")
  case False
  then have "tx_types (on_blk p f s) = tx_types s"
    using assms(2) tx_list_on_blk(1) [of f p s] by (auto simp: tx_types_def on_blk_def list_update_beyond)
  then show ?thesis using assms(1) by (simp add: queue_ok_def tx_list_on_blk)
next
  case True
  have len: "length (mq_aQueues (tx_mgmt s)) = NUM_OF_MGMT_QUEUES" "length (dq_aQueues (tx_data s)) = MAX_NUM_OF_AC"
    using assms(1) by (simp_all add: queue_ok_def)
  have "p \<notin> set (mgmt_queue s j)" "p \<notin> set (data_queue s j)" for j
    using True que_at_outside [of "mq_aQueues (tx_mgmt s)" j] que_at_outside [of "dq_aQueues (tx_data s)" j] len
    by (cases "j < NUM_OF_MGMT_QUEUES"; cases "j < MAX_NUM_OF_AC"; auto simp: not_queued_def)+
  moreover have "tx_types (on_blk p f s) ! p' = tx_types s ! p'" "length (tx_types (on_blk p f s)) = length (tx_types s)" if "p' \<noteq> p" for p'
    using that by (simp_all add: tx_types_def on_blk_def map_update)
  ultimately show ?thesis using assms(1) by (fastforce simp: queue_ok_def tx_list_on_blk)
qed

text \<open>A packet that is not queued may be changed; of one that is, the type stays.\<close>

lemma blk_keeps:
  assumes s: "ctl_ok s" and f: "unat (td_tid (tTxDescriptor (f (tx_blk s p)))) < MAX_NUM_OF_802_1d_TAGS"
    "not_queued s p \<or> (\<forall>b. uPktType (tTxPktParams (f b)) = uPktType (tTxPktParams b))"
  shows "ctl_ok (on_blk p f s)" "wait_ok (on_blk p f s) = wait_ok s"
proof -
  have "hw_core (on_blk p f s)"
  proof (cases "p < length (tx_tids s)")
    case True
    then show ?thesis using hw_core_blk [of s p f] ctl_hw(1) [OF s] f(1) by simp
  next
    case False
    then have "on_blk p f s = s" by (simp add: on_blk_def tx_tids_def list_update_beyond)
    then show ?thesis using ctl_hw(1) [OF s] by simp
  qed
  moreover have "queue_ok (on_blk p f s)" using queue_ok_blk [OF _ f(2)] ctl_hw(2) [OF s] by simp
  moreover have c: "same_ctl (on_blk p f s) s" using same_parts(3) [of p f s] by (simp add: same_tx_def)
  ultimately show "ctl_ok (on_blk p f s)"
    using s ctl_same [OF c] by (simp add: ctl_ok_def base_ok_def tx_good_def hw_ok_def log_ok_def tx_list_on_blk)
  show "wait_ok (on_blk p f s) = wait_ok s"
    using c by (simp add: wait_ok_def data_wait_def mgmt_wait_def open_ok_def tx_list_on_blk same_ctl_def)
qed

section \<open>A packet for the management queues\<close>

lemma open_mgmt_busy:
  assumes "sm_ok s" "wait_ok s" "eSmState (tx_mgmt s) = SM_STATE_OPEN_MGMT" "bMgmtPortEnable (tx_mgmt s)"
  shows "hw_busy s"
  using assms by (auto simp: sm_ok_def wait_ok_def mgmt_wait_def open_ok_def all_mgmt_empty_def flags_split)

lemma set_mgmt_sel [simp]:
  "tx_mgmt (set_mgmt_queue j xs s) = (tx_mgmt s)\<lparr>mq_aQueues := (mq_aQueues (tx_mgmt s))[j := xs]\<rparr>"
  "tx_data (set_mgmt_queue j xs s) = tx_data s" "tx_port (set_mgmt_queue j xs s) = tx_port s" "hw_busy (set_mgmt_queue j xs s) = hw_busy s"
  "mgmt_request (set_mgmt_queue j xs s) = mgmt_request s" "data_request (set_mgmt_queue j xs s) = data_request s"
  "pace_timer (set_mgmt_queue j xs s) = pace_timer s" "tx_types (set_mgmt_queue j xs s) = tx_types s"
  "mgmt_busy_ok (set_mgmt_queue j xs s) = mgmt_busy_ok s" "hw_ok (set_mgmt_queue j xs s) = hw_ok s" "log_ok (set_mgmt_queue j xs s) = log_ok s"
  by (simp_all add: set_mgmt_queue_def on_mgmt_def hw_busy_def mgmt_busy_ok_def hw_ok_def hw_core_def busy_flag_def log_ok_def tx_types_def tx_tids_def)

lemma mgmt_enq_ctl:
  assumes "ctl_ok s" "j < NUM_OF_MGMT_QUEUES" "p < length (tx_types s)" "mgmt_type j (tx_types s ! p)"
  shows "ctl_ok (set_mgmt_queue j (mgmt_queue s j @ [p]) s)"
proof -
  have q: "queue_ok s" by (rule ctl_hw(2) [OF assms(1)])
  then have "queue_ok (set_mgmt_queue j (mgmt_queue s j @ [p]) s)" using assms(2-4) by (auto simp: queue_ok_def)
  then show ?thesis using assms(1) by (simp add: ctl_ok_def base_ok_def tx_good_def thresh_ok_def port_ok_def sm_ok_def)
qed

lemma mgmt_enq_waits:
  fixes p :: nat
  assumes s: "ctl_ok s" "wait_ok s" and j: "j < NUM_OF_MGMT_QUEUES"
  defines "u \<equiv> set_mgmt_queue j (mgmt_queue s j @ [p]) s"
  shows "mgmt_queue s j \<noteq> [] \<Longrightarrow> wait_ok u" "wait_ok (u\<lparr>mgmt_request := True\<rparr>)" "sm_wait SM_EVENT_QUEUES_NOT_EMPTY u"
proof -
  have len: "length (mq_aQueues (tx_mgmt s)) = NUM_OF_MGMT_QUEUES" using ctl_hw(2) [OF s(1)] by (simp add: queue_ok_def)
  have ne: "\<not> all_mgmt_empty (tx_mgmt u)" using len j by (auto simp: u_def all_mgmt_empty_def que_types less_2_cases_iff)
  have busy: "hw_busy u" if "eSmState (tx_mgmt u) = SM_STATE_OPEN_MGMT" "bMgmtPortEnable (tx_mgmt u)"
    using that open_mgmt_busy [OF _ s(2)] s(1) by (simp add: u_def ctl_ok_def)
  show "mgmt_queue s j \<noteq> [] \<Longrightarrow> wait_ok u"
    using s(2) len j unfolding u_def
    by (auto simp: wait_ok_def data_wait_def mgmt_wait_def open_ok_def all_mgmt_empty_def que_types less_2_cases_iff split: if_splits)
  show "wait_ok (u\<lparr>mgmt_request := True\<rparr>)"
    using s(2) ne busy by (auto simp: wait_ok_def data_wait_def mgmt_wait_def open_ok_def u_def)
  show "sm_wait SM_EVENT_QUEUES_NOT_EMPTY u" using ne busy by (auto simp: sm_wait_def mgmt_wait_def)
qed

text \<open>A packet that is refused is freed.\<close>

lemma count_view: "same_view (count_mgmt f s) s" "same_view (count_data q g s) s"
  using same_viewI [OF count_mgmt_hw same_parts(8)] same_viewI [OF count_data_hw same_parts(9)] by blast+

lemma set_mgmt_same: "same_view (set_mgmt_queue j (mgmt_queue s j) s) s"
  using set_mgmt_queue_are [where i = j and s = s and xs = "mgmt_queue s j"]
  by (cases "j < length (mq_aQueues (tx_mgmt s))")
    (simp_all add: same_view_def mgmt_queues_are_def que_at_def list_update_beyond)

lemma fifo_enq_cases:
  obtains (ok) "fifo_enq n xs p = (TI_OK, xs @ [p])" "length xs < n" | (refused) "fifo_enq n xs p = (TI_NOK, xs)"
  by (cases "length xs < n \<and> p \<notin> set xs") (simp_all add: fifo_enq_def)

text \<open>A management or EAPOL packet, once its TID is set; \<open>j\<close> is its queue.\<close>

definition mgmt_enter :: "TxEnv \<Rightarrow> nat \<Rightarrow> bool \<Rightarrow> nat \<Rightarrow> TxPath \<Rightarrow> TI_STATUS \<times> TxPath" where
  "mgmt_enter e p ext j s =
     (case fifo_enq MGMT_QUEUES_DEPTH (mgmt_queue s j) p of (eStatus, xs) \<Rightarrow>
        let s2 = set_mgmt_queue j xs s
        in if eStatus = TI_OK
           then let s3 = count_mgmt (\<lambda>c. c\<lparr>aEnqueuePackets := inc_at j (aEnqueuePackets c)\<rparr>) s2
                in (eStatus,
                    if length xs = 1
                    then if ext then s3\<lparr>mgmt_request := True\<rparr> else mgmtQueuesSM e SM_EVENT_QUEUES_NOT_EMPTY s3
                    else s3)
           else (eStatus, count_mgmt (\<lambda>c. c\<lparr>aDroppedPackets := inc_at j (aDroppedPackets c)\<rparr>) (txCtrl_FreePacket p s2)))"

lemma mgmt_request_cong: "same_view s' s \<Longrightarrow> same_view (s'\<lparr>mgmt_request := b\<rparr>) (s\<lparr>mgmt_request := b\<rparr>)"
  by (simp add: same_view_def same_hw_def same_ctl_def tx_tids_def tx_types_def)

lemma mgmt_enter_keeps:
  assumes e: "env_ok e" and s: "ctl_ok s" and p: "j < NUM_OF_MGMT_QUEUES" "p < length (tx_types s)" "mgmt_type j (tx_types s ! p)"
  shows "ctl_ok (snd (mgmt_enter e p ext j s))" "wait_ok s \<longrightarrow> wait_ok (snd (mgmt_enter e p ext j s))"
proof -
  have "ctl_ok (snd (mgmt_enter e p ext j s)) \<and> (wait_ok s \<longrightarrow> wait_ok (snd (mgmt_enter e p ext j s)))"
  proof (cases rule: fifo_enq_cases [of MGMT_QUEUES_DEPTH "mgmt_queue s j" p])
    case refused
    let ?u = "set_mgmt_queue j (mgmt_queue s j) s"
    have "same_view (snd (mgmt_enter e p ext j s)) s"
      using same_view_trans [OF count_view(1) same_view_trans [OF free_view(1) set_mgmt_same]]
      by (simp add: mgmt_enter_def refused Let_def)
    then show ?thesis using s view_ok by simp
  next
    case ok
    let ?q = "set_mgmt_queue j (mgmt_queue s j @ [p]) s"
    define u where "u = count_mgmt (\<lambda>c. c\<lparr>aEnqueuePackets := inc_at j (aEnqueuePackets c)\<rparr>) ?q"
    have v: "same_view u ?q" unfolding u_def by (rule count_view)
    have c: "ctl_ok u" using mgmt_enq_ctl [OF s p] view_ok(1) [OF v] by simp
    have w1: "wait_ok s \<Longrightarrow> mgmt_queue s j \<noteq> [] \<Longrightarrow> wait_ok u" using mgmt_enq_waits(1) [OF s _ p(1)] view_ok(2) [OF v] by simp
    have w2: "wait_ok s \<Longrightarrow> wait_ok (u\<lparr>mgmt_request := True\<rparr>)"
      using mgmt_enq_waits(2) [OF s _ p(1)] view_ok(2) [OF mgmt_request_cong [OF v]] by simp
    have w3: "wait_ok s \<Longrightarrow> sm_wait SM_EVENT_QUEUES_NOT_EMPTY u"
      using mgmt_enq_waits(3) [OF s _ p(1), of p] same_hw_ok(2) [of u ?q] v
      by (simp add: sm_wait_def mgmt_wait_def all_mgmt_empty_def same_view_def same_ctl_def)
    have r: "snd (mgmt_enter e p ext j s) = (if mgmt_queue s j = [] then
        if ext then u\<lparr>mgmt_request := True\<rparr> else mgmtQueuesSM e SM_EVENT_QUEUES_NOT_EMPTY u else u)"
      by (simp add: mgmt_enter_def ok Let_def u_def)
    show ?thesis
      using c w1 w2 w3 mgmtQueuesSM_keeps [OF e not_empty_pre [OF c]] by (auto simp: r flow_post_def ctl_ok_def)
  qed
  then show "ctl_ok (snd (mgmt_enter e p ext j s))" "wait_ok s \<longrightarrow> wait_ok (snd (mgmt_enter e p ext j s))" by simp_all
qed

lemma txMgmtQ_Xmit_keeps:
  assumes e: "env_ok e" and s: "ctl_ok s" and p: "p < length (tx_types s)" "tx_types s ! p \<noteq> TX_PKT_TYPE_ETHER"
  shows "ctl_ok (snd (txMgmtQ_Xmit e p ext s))" "wait_ok s \<longrightarrow> wait_ok (snd (txMgmtQ_Xmit e p ext s))"
proof -
  let ?f = "\<lambda>b. b\<lparr>tTxDescriptor := (tTxDescriptor b)\<lparr>td_tid := of_nat MGMT_QUEUES_TID\<rparr>\<rparr>"
  let ?s1 = "on_blk p ?f s"
  let ?j = "if uPktType (tTxPktParams (tx_blk ?s1 p)) = TX_PKT_TYPE_MGMT then QUEUE_TYPE_MGMT else QUEUE_TYPE_EAPOL"
  have r: "txMgmtQ_Xmit e p ext s = mgmt_enter e p ext ?j ?s1"
    by (simp add: txMgmtQ_Xmit_def mgmt_enter_def Let_def)
  have t: "tx_types ?s1 = tx_types s" by (rule tx_list_on_blk(1)) simp
  have b: "ctl_ok ?s1" "wait_ok ?s1 = wait_ok s"
    by (rule blk_keeps [OF s]; simp add: MGMT_QUEUES_TID_def ac_bounds)+
  have ty: "uPktType (tTxPktParams (tx_blk ?s1 p)) = tx_types s ! p"
    using tx_blk_tid(2) [of p ?s1] p(1) length_tx_lists(2) [of ?s1] by (simp only: t)
  have "mgmt_type ?j (tx_types ?s1 ! p)" "?j < NUM_OF_MGMT_QUEUES"
    using p(2) by (auto simp: t ty mgmt_type_def que_types)
  then show "ctl_ok (snd (txMgmtQ_Xmit e p ext s))" "wait_ok s \<longrightarrow> wait_ok (snd (txMgmtQ_Xmit e p ext s))"
    using mgmt_enter_keeps [OF e b(1), of ?j p ext] p(1) b(2) by (simp_all add: r t)
qed

section \<open>A packet of the network stack\<close>

lemma table_less: "unat tid < MAX_NUM_OF_802_1d_TAGS \<Longrightarrow> aTidToQueueTable ! unat (tid :: TI_UINT8) < MAX_NUM_OF_AC"
  by (auto simp: ac_bounds numeral_eq_Suc less_Suc_eq aTidToQueueTable_def)

lemma set_data_sel [simp]:
  "tx_data (set_data_queue j xs s) = (tx_data s)\<lparr>dq_aQueues := (dq_aQueues (tx_data s))[j := xs]\<rparr>"
  "tx_mgmt (set_data_queue j xs s) = tx_mgmt s" "tx_port (set_data_queue j xs s) = tx_port s" "hw_busy (set_data_queue j xs s) = hw_busy s"
  "mgmt_request (set_data_queue j xs s) = mgmt_request s" "data_request (set_data_queue j xs s) = data_request s"
  "pace_timer (set_data_queue j xs s) = pace_timer s" "tx_types (set_data_queue j xs s) = tx_types s"
  "mgmt_busy_ok (set_data_queue j xs s) = mgmt_busy_ok s" "hw_ok (set_data_queue j xs s) = hw_ok s" "log_ok (set_data_queue j xs s) = log_ok s"
  by (simp_all add: set_data_queue_def on_data_def hw_busy_def mgmt_busy_ok_def hw_ok_def hw_core_def busy_flag_def log_ok_def tx_types_def tx_tids_def)

text \<open>The queue, the timer and the request after a packet of queue \<open>q\<close> was queued or refused; \<open>xs\<close> is the new queue.\<close>

definition data_enter :: "nat \<Rightarrow> nat list \<Rightarrow> TxPath \<Rightarrow> TxPath" where
  "data_enter q xs s =
     (let s3 = set_data_queue q xs s; thresh = aTxSendPaceThresh (tx_data s3) q; busy = dq_aQueueBusy (tx_data s3) q
      in if \<not> busy \<and> length xs = thresh then s3\<lparr>pace_timer := False, data_request := True\<rparr>
         else if \<not> busy \<and> length xs < thresh then s3\<lparr>pace_timer := True\<rparr> else s3)"

lemma data_enter_keeps:
  assumes s: "ctl_ok s" and q: "q < MAX_NUM_OF_AC" and xs: "xs = data_queue s q \<or> xs = data_queue s q @ [p] \<and> p < length (tx_types s) \<and> tx_types s ! p = TX_PKT_TYPE_ETHER"
  shows "ctl_ok (data_enter q xs s)" "wait_ok s \<longrightarrow> wait_ok (data_enter q xs s)"
proof -
  let ?u = "set_data_queue q xs s"
  have qok: "queue_ok s" by (rule ctl_hw(2) [OF s])
  then have len: "length (dq_aQueues (tx_data s)) = MAX_NUM_OF_AC" by (simp add: queue_ok_def)
  have "queue_ok ?u" using qok q xs by (auto simp: queue_ok_def)
  then have u: "ctl_ok ?u" using s by (simp add: ctl_ok_def base_ok_def tx_good_def thresh_ok_def port_ok_def sm_ok_def)
  then show "ctl_ok (data_enter q xs s)" by (auto simp: data_enter_def Let_def ctl_ok_def)
  have busy: "dq_aQueueBusy (tx_data s) q \<Longrightarrow> hw_busy s"
    using s q by (auto simp: ctl_ok_def base_ok_def tx_good_def hw_ok_def busy_flag_def)
  have old: "data_queue s q \<noteq> []" if "\<not> length xs < aTxSendPaceThresh (tx_data s) q" "length xs \<noteq> aTxSendPaceThresh (tx_data s) q"
    using that xs s q by (auto simp: ctl_ok_def base_ok_def thresh_ok_def)
  show "wait_ok s \<longrightarrow> wait_ok (data_enter q xs s)"
  proof
    assume w: "wait_ok s"
    have "data_wait (data_enter q xs s)"
      using w busy old q len by (auto simp: data_enter_def wait_ok_def data_wait_def Let_def)
    then show "wait_ok (data_enter q xs s)"
      using w by (auto simp: data_enter_def wait_ok_def mgmt_wait_def open_ok_def Let_def)
  qed
qed

lemma net_view: "same_view (wlanDrvIf_StopTx s) s" "same_view (on_data (\<lambda>d. d\<lparr>aNetStackQueueStopped := f d\<rparr>) s) s"
  "same_view (on_data (\<lambda>d. d\<lparr>uClsfrMismatchCount := g d\<rparr>) s) s"
  by (simp_all add: same_view_def same_hw_def same_ctl_def wlanDrvIf_StopTx_def on_data_def tx_tids_def tx_types_def)

text \<open>The whole insertion is this update, but for the counters, the network stack and the release of a refused packet.\<close>

lemma insert_end_view: "same_view (insert_end q st p (insert_stop full s)) s"
proof -
  have "same_view (insert_stop full s) s" by (simp add: insert_stop_def net_view)
  moreover have "same_view (insert_end q st p u) u" for u
    unfolding insert_end_def using count_view(2) same_view_trans [OF count_view(2) free_view(1)] by simp
  ultimately show ?thesis using same_view_trans by blast
qed

lemma insert_request_cong: "same_view s' s \<Longrightarrow> same_view (insert_request b s') (insert_request b s)"
  by (simp add: insert_request_def same_view_def same_hw_def same_ctl_def tx_tids_def tx_types_def)

lemma insert_view:
  assumes "insert_critical (matched, tid) p s = (q, st, req, full, s5)"
    "s1 = on_blk p (\<lambda>b. b\<lparr>tTxDescriptor := (tTxDescriptor b)\<lparr>td_tid := tid\<rparr>\<rparr>) s"
  obtains xs u where "q = aTidToQueueTable ! unat tid" "xs = data_queue u q \<or> xs = data_queue u q @ [p]" "same_view u s1"
    "same_view (insert_end q st p (insert_stop full (insert_request req s5))) (insert_request full (data_enter q xs u))"
proof -
  define u where "u = (if matched \<noteq> TI_OK then on_data (\<lambda>d. d\<lparr>uClsfrMismatchCount := uClsfrMismatchCount d + 1\<rparr>) s1 else s1)"
  define q' where "q' = aTidToQueueTable ! unat tid"
  obtain st' xs where x: "fifo_enq (aQueueMaxSize (tx_data u) q') (data_queue u q') p = (st', xs)" by fastforce
  define s3 where "s3 = set_data_queue q' xs u"
  define th where "th = aTxSendPaceThresh (tx_data s3) q'"
  define bu where "bu = dq_aQueueBusy (tx_data s3) q'"
  define s4 where "s4 = (if \<not> bu \<and> length xs = th then s3\<lparr>pace_timer := False\<rparr>
    else if \<not> bu \<and> length xs < th then s3\<lparr>pace_timer := True\<rparr> else s3)"
  define fu where "fu = (bStopNetStackTx (tx_data s4) \<and> length xs = aQueueMaxSize (tx_data s4) q')"
  define s6 where "s6 = (if fu then on_data (\<lambda>d. d\<lparr>aNetStackQueueStopped := (aNetStackQueueStopped d)(q' := True)\<rparr>) s4 else s4)"
  have "insert_critical (matched, tid) p s = (q', st', \<not> bu \<and> length xs = th \<or> fu, fu, s6)"
    unfolding insert_critical_def prod.case assms(2) [symmetric] Let_def u_def [symmetric] q'_def [symmetric] x s3_def [symmetric]
      th_def [symmetric] bu_def [symmetric] s4_def [symmetric] fu_def [symmetric] s6_def [symmetric] ..
  then have eq: "q = q'" "req = (\<not> bu \<and> length xs = th \<or> fu)" "full = fu" "s5 = s6" using assms(1) by auto
  have "same_view s6 s4" by (simp add: s6_def net_view)
  moreover have "insert_request req s4 = insert_request full (data_enter q' xs u)"
    by (simp add: eq(2,3) insert_request_def data_enter_def Let_def s4_def th_def bu_def s3_def)
  ultimately have "same_view (insert_request req s5) (insert_request full (data_enter q' xs u))"
    using insert_request_cong [of s6 s4 req] by (simp add: eq(4))
  then have v: "same_view (insert_end q st p (insert_stop full (insert_request req s5))) (insert_request full (data_enter q xs u))"
    using same_view_trans [OF insert_end_view] by (simp add: eq(1))
  have "xs = data_queue u q \<or> xs = data_queue u q @ [p]" using x by (auto simp: eq(1) fifo_enq_def split: if_splits)
  moreover have "same_view u s1" by (simp add: u_def net_view)
  ultimately show thesis using that [of xs u] v by (simp add: eq(1) q'_def)
qed

lemma insert_request_ok: "ctl_ok s \<Longrightarrow> ctl_ok (insert_request b s)" "wait_ok s \<Longrightarrow> wait_ok (insert_request b s)"
  by (auto simp: insert_request_def ctl_ok_def wait_ok_def data_wait_def mgmt_wait_def open_ok_def)

lemma txDataQ_InsertPacket_keeps:
  assumes e: "env_ok e" and s: "ctl_ok s" and p: "p < length (tx_types s)" "not_queued s p"
  shows "ctl_ok (snd (txDataQ_InsertPacket e p dtag s))" "wait_ok s \<longrightarrow> wait_ok (snd (txDataQ_InsertPacket e p dtag s))"
proof -
  have ty: "ctl_ok (set_pkt_type p t s)" "wait_ok (set_pkt_type p t s) = wait_ok s"
    "length (tx_types (set_pkt_type p t s)) = length (tx_types s)" "tx_types (set_pkt_type p t s) ! p = t" for t
  proof -
    show "ctl_ok (set_pkt_type p t s)" "wait_ok (set_pkt_type p t s) = wait_ok s"
      unfolding set_pkt_type_def
      by (rule blk_keeps [OF s], use hw_core_tid [OF ctl_hw(1) [OF s], of p] p in \<open>simp_all add: length_tx_lists\<close>)+
    show "length (tx_types (set_pkt_type p t s)) = length (tx_types s)" "tx_types (set_pkt_type p t s) ! p = t"
      using p(1) by (simp_all add: set_pkt_type_def tx_types_def on_blk_def)
  qed
  have "ctl_ok (snd (txDataQ_InsertPacket e p dtag s)) \<and> (wait_ok s \<longrightarrow> wait_ok (snd (txDataQ_InsertPacket e p dtag s)))"
  proof (cases "ether_type e p = ETHERTYPE_EAPOL \<or> ether_type e p = genericEthertype (tx_ctrl s)")
    case True
    then have r: "txDataQ_InsertPacket e p dtag s = txMgmtQ_Xmit e p True (set_pkt_type p TX_PKT_TYPE_EAPOL s)"
      by (simp add: txDataQ_InsertPacket_def)
    show ?thesis
      using txMgmtQ_Xmit_keeps [OF e ty(1) [of TX_PKT_TYPE_EAPOL], of p] ty(2,3,4) p(1)
      by (simp add: r TX_PKT_TYPE_EAPOL_def TX_PKT_TYPE_ETHER_def)
  next
    case False
    let ?s0 = "set_pkt_type p TX_PKT_TYPE_ETHER s"
    obtain m tid where cl: "classify e p dtag = (m, tid)" by fastforce
    obtain q st req full s5 where i: "insert_critical (m, tid) p ?s0 = (q, st, req, full, s5)" by (metis prod_cases5)
    let ?s1 = "on_blk p (\<lambda>b. b\<lparr>tTxDescriptor := (tTxDescriptor b)\<lparr>td_tid := tid\<rparr>\<rparr>) ?s0"
    obtain xs u where x: "q = aTidToQueueTable ! unat tid" "xs = data_queue u q \<or> xs = data_queue u q @ [p]" "same_view u ?s1"
      "same_view (insert_end q st p (insert_stop full (insert_request req s5))) (insert_request full (data_enter q xs u))"
      using insert_view [OF i refl] by blast
    have tid: "unat tid < MAX_NUM_OF_802_1d_TAGS" using e cl unfolding env_ok_def by (metis snd_conv)
    have 1: "ctl_ok ?s1" "wait_ok ?s1 = wait_ok s"
      using blk_keeps [OF ty(1) [of TX_PKT_TYPE_ETHER], where f = "\<lambda>b. b\<lparr>tTxDescriptor := (tTxDescriptor b)\<lparr>td_tid := tid\<rparr>\<rparr>" and p = p] tid ty(2)
      by simp_all
    have u: "ctl_ok u" "wait_ok u = wait_ok s" using view_ok [OF x(3)] 1 by simp_all
    have "tx_types ?s1 = tx_types ?s0" by (rule tx_list_on_blk(1)) simp
    then have "tx_types u = tx_types ?s0" using x(3) by (simp add: same_view_def same_hw_def)
    then have t: "p < length (tx_types u)" "tx_types u ! p = TX_PKT_TYPE_ETHER" using ty(3,4) p(1) by simp_all
    have "ctl_ok (data_enter q xs u)" "wait_ok u \<longrightarrow> wait_ok (data_enter q xs u)"
      using data_enter_keeps [OF u(1), of q xs p] table_less [OF tid] x(1,2) t by simp_all
    then have "ctl_ok (insert_request full (data_enter q xs u))" "wait_ok s \<longrightarrow> wait_ok (insert_request full (data_enter q xs u))"
      using insert_request_ok u(2) by simp_all
    moreover have "snd (txDataQ_InsertPacket e p dtag s) = insert_end q st p (insert_stop full (insert_request req s5))"
      using False by (simp add: txDataQ_InsertPacket_def cl i)
    ultimately show ?thesis using view_ok [OF x(4)] by simp
  qed
  then show "ctl_ok (snd (txDataQ_InsertPacket e p dtag s))" "wait_ok s \<longrightarrow> wait_ok (snd (txDataQ_InsertPacket e p dtag s))"
    by simp_all
qed

section \<open>Clearing and defaults\<close>

lemma close_wait: "ctl_ok s \<Longrightarrow> eSmState (tx_mgmt s) = SM_STATE_CLOSE \<Longrightarrow> wait_ok s"
  using data_closed [of s] by (simp add: wait_ok_def data_wait_def mgmt_wait_def open_ok_def ctl_ok_def sm_ok_def)

lemma free_all_view: "same_view (foldl (\<lambda>s p. txCtrl_FreePacket p s) s ps) s"
proof (induction ps arbitrary: s)
  case (Cons p ps)
  then show ?case using free_view(1) [of p s] same_view_trans [of _ "txCtrl_FreePacket p s" s] by simp
qed simp

lemma empty_ctl:
  assumes "ctl_ok s"
  shows "ctl_ok (set_mgmt_queue j [] s)" "ctl_ok (set_data_queue j [] s)"
proof -
  have q: "queue_ok s" by (rule ctl_hw(2) [OF assms])
  have *: "set (que_at (qs[j := []]) i) \<subseteq> set (que_at qs i)" for qs :: "nat list list" and i
    by (cases "j < length qs") (auto simp: list_update_beyond)
  have "queue_ok (set_mgmt_queue j [] s)" "queue_ok (set_data_queue j [] s)"
    by (rule queue_ok_sub [OF q]; simp add: *)+
  then show "ctl_ok (set_mgmt_queue j [] s)" "ctl_ok (set_data_queue j [] s)"
    using assms by (simp_all add: ctl_ok_def base_ok_def tx_good_def thresh_ok_def port_ok_def sm_ok_def)
qed

lemma clear_step:
  assumes "ctl_ok s"
  shows "ctl_ok (set_mgmt_queue j [] (foldl (\<lambda>s p. txCtrl_FreePacket p s) s ps))"
    "eSmState (tx_mgmt (set_mgmt_queue j [] (foldl (\<lambda>s p. txCtrl_FreePacket p s) s ps))) = eSmState (tx_mgmt s)"
    "ctl_ok (set_data_queue j [] (foldl (\<lambda>s p. txCtrl_FreePacket p s) s ps))"
    "eSmState (tx_mgmt (set_data_queue j [] (foldl (\<lambda>s p. txCtrl_FreePacket p s) s ps))) = eSmState (tx_mgmt s)"
  using assms view_ok(1) [OF free_all_view, of s ps] free_all_view [of s ps]
  by (simp_all add: empty_ctl same_view_def same_ctl_def)

lemma fold_keeps: "P s \<Longrightarrow> (\<And>s x. P s \<Longrightarrow> P (f s x)) \<Longrightarrow> P (foldl f s xs)"
  by (induction xs arbitrary: s) simp_all

lemma clear_keeps:
  assumes "ctl_ok s" "eSmState (tx_mgmt s) = SM_STATE_CLOSE"
  shows "ctl_ok (txMgmtQ_ClearQueues (txDataQ_ClearQueues s))" "wait_ok (txMgmtQ_ClearQueues (txDataQ_ClearQueues s))"
proof -
  let ?P = "\<lambda>s. ctl_ok s \<and> eSmState (tx_mgmt s) = SM_STATE_CLOSE"
  have "?P (txDataQ_ClearQueues s)"
    unfolding txDataQ_ClearQueues_def by (rule fold_keeps [of ?P]) (use assms clear_step in simp_all)
  then have "?P (txMgmtQ_ClearQueues (txDataQ_ClearQueues s))"
    unfolding txMgmtQ_ClearQueues_def by (rule fold_keeps [of ?P]) (use clear_step in simp_all)
  then show "ctl_ok (txMgmtQ_ClearQueues (txDataQ_ClearQueues s))" "wait_ok (txMgmtQ_ClearQueues (txDataQ_ClearQueues s))"
    using close_wait by simp_all
qed

lemma SetDefaults_keeps:
  assumes "ctl_ok s" "0 < thresh"
  shows "ctl_ok (snd (txDataQ_SetDefaults st stop thresh s))" "wait_ok (snd (txDataQ_SetDefaults st stop thresh s)) = wait_ok s"
  using assms
  by (auto simp: txDataQ_SetDefaults_def ctl_ok_def base_ok_def thresh_ok_def port_ok_def sm_ok_def wait_ok_def data_wait_def mgmt_wait_def
      open_ok_def on_data_sel)

section \<open>Reachable states\<close>

text \<open>The modules after their initialisation; the queues of the firmware are idle and the callback is registered.\<close>

definition tx_init :: "TxPath \<Rightarrow> bool" where
  "tx_init s \<longleftrightarrow> (\<exists>m. txMgmtQ_Init True m = Some (tx_mgmt s)) \<and> (\<exists>d. txDataQ_Init True d = Some (tx_data s)) \<and>
     (\<exists>p. tx_port s = txPort_init p) \<and>
     (\<exists>c. tx_ctrl s = txCtrl_UpdateAcToTidMapping (txCtrl_UpdateHighestAdmittedAcTable (txCtrl_Init c))) \<and>
     length (aTxHwQueueInfo (tx_hw s)) = MAX_NUM_OF_AC \<and> fUpdateBusyMapCb (tx_hw s) \<noteq> None \<and>
     (\<forall>t\<in>set (tx_tids s). unat t < MAX_NUM_OF_802_1d_TAGS) \<and> \<not> mgmt_request s \<and> sent s = []"

lemma data_init_fold:
  fixes d :: TTxDataQ
  shows   "n \<le> 4 \<Longrightarrow> (let d' = foldl (\<lambda>d uQueId. d\<lparr>dq_aQueues := dq_aQueues d @ [[]],
       dq_aQueueBusy := (dq_aQueueBusy d)(uQueId := False),
       aNetStackQueueStopped := (aNetStackQueueStopped d)(uQueId := False),
       aTxSendPaceThresh := (aTxSendPaceThresh d)(uQueId := 1)\<rparr>) d [0..<n]
     in dq_aQueues d' = dq_aQueues d @ replicate n [] \<and> bDataPortEnable d' = bDataPortEnable d \<and> uLastQueId d' = uLastQueId d \<and>
       (\<forall>q<n. \<not> dq_aQueueBusy d' q \<and> aTxSendPaceThresh d' q = 1))"
  by (induction n) (auto simp: Let_def replicate_append_same less_Suc_eq)

lemma data_init:
  assumes "txDataQ_Init True d = Some d'"
  shows "dq_aQueues d' = replicate MAX_NUM_OF_AC []" "\<not> bDataPortEnable d'" "uLastQueId d' = 0"
    "q < MAX_NUM_OF_AC \<Longrightarrow> \<not> dq_aQueueBusy d' q \<and> aTxSendPaceThresh d' q = 1"
  using assms data_init_fold [of 4] by (auto simp: txDataQ_Init_def ac_bounds Let_def)

lemma ctrl_init: "busyAcBitmap (txCtrl_Init c) = 0"
proof -
  have "busyAcBitmap (foldl (\<lambda>c ac. c\<lparr>admissionState := (admissionState c)(ac := AC_ADMITTED),
       admissionRequired := (admissionRequired c)(ac := ADMISSION_NOT_REQUIRED)\<rparr>) c xs) = busyAcBitmap c" for c :: txCtrl_t and xs
    by (induction xs arbitrary: c) simp_all
  then show ?thesis by (simp add: txCtrl_Init_def)
qed

lemma que_at_empty [simp]: "que_at (replicate n []) i = []" "que_at [[], []] i = []"
  by (auto simp: que_at_def nth_Cons split: nat.split)

lemma tx_init_ok:
  assumes "tx_init s"
  shows "ctl_ok s" "wait_ok s"
proof -
  obtain m d c where i: "txMgmtQ_Init True m = Some (tx_mgmt s)" "txDataQ_Init True d = Some (tx_data s)"
    "tx_ctrl s = txCtrl_UpdateAcToTidMapping (txCtrl_UpdateHighestAdmittedAcTable (txCtrl_Init c))"
    using assms unfolding tx_init_def by blast
  have p: "queuesMuxState (tx_port s) = MUX_MGMT_QUEUES" "\<not> txSuspended (tx_port s)" "mgmtQueueEnabled (tx_port s)" "\<not> dataQueueEnabled (tx_port s)"
    using assms by (auto simp: tx_init_def txPort_init_def)
  have m: "eSmState (tx_mgmt s) = SM_STATE_CLOSE" "eTxConnState (tx_mgmt s) = TX_CONN_STATE_CLOSE" "bMgmtPortEnable (tx_mgmt s)"
    "mq_aQueues (tx_mgmt s) = [[], []]" "\<not> mq_aQueueBusy (tx_mgmt s) 0" "\<not> mq_aQueueBusy (tx_mgmt s) 1"
    "\<not> aQueueEnabledBySM (tx_mgmt s) 0" "\<not> aQueueEnabledBySM (tx_mgmt s) 1"
    using i(1) [symmetric] by (simp_all add: txMgmtQ_Init_def que_types)
  note d = data_init [OF i(2)]
  have c: "busyAcBitmap (tx_ctrl s) = 0" "\<forall>ac<MAX_NUM_OF_AC. highestAdmittedAc (tx_ctrl s) ac < MAX_NUM_OF_AC"
    by (simp_all add: i(3) tid_map_sel highest_admitted ctrl_init)
  have "hw_ok s" using assms c d(4) by (auto simp: hw_ok_def hw_core_def busy_flag_def tx_init_def)
  moreover have "queue_ok s" "log_ok s" "mgmt_busy_ok s"
    using assms m d by (auto simp: queue_ok_def log_ok_def mgmt_busy_ok_def tx_init_def que_types less_2_cases_iff)
  ultimately show "ctl_ok s"
    using p m d by (auto simp: ctl_ok_def base_ok_def tx_good_def thresh_ok_def port_ok_def sm_ok_def que_types less_2_cases_iff ac_bounds)
  then show "wait_ok s" using close_wait m(1) by simp
qed

text \<open>
  The steps: what builders, the network stack, the tasks, the timer, the connection managers, the main
  state machine, the admission control and the firmware do. A builder fills in a control block that is
  not queued. With \<open>races\<close>, the request to the management queues is also served in \<open>OPEN_DATA\<close> when they
  are empty, and the connection is also opened while a packet waits for the task.
\<close>

inductive tx_step :: "bool \<Rightarrow> TxEnv \<Rightarrow> TxPath \<Rightarrow> TxPath \<Rightarrow> bool" for races e where
  build: "not_queued s p \<Longrightarrow> unat (td_tid (tTxDescriptor (f (tx_blk s p)))) < MAX_NUM_OF_802_1d_TAGS \<Longrightarrow> tx_step races e s (on_blk p f s)"
| free: "tx_step races e s (txCtrl_FreePacket p s)"
| xmit: "p < length (tx_types s) \<Longrightarrow> tx_types s ! p \<noteq> TX_PKT_TYPE_ETHER \<Longrightarrow> tx_step races e s (snd (txMgmtQ_Xmit e p ext s))"
| insert: "p < length (tx_types s) \<Longrightarrow> not_queued s p \<Longrightarrow> tx_step races e s (snd (txDataQ_InsertPacket e p dtag s))"
| serve_mgmt: "mgmt_request s \<Longrightarrow> races \<or> eSmState (tx_mgmt s) \<noteq> SM_STATE_OPEN_DATA \<or> \<not> all_mgmt_empty (tx_mgmt s) \<Longrightarrow>
    tx_step races e s (serve_mgmt e s)"
| serve_data: "data_request s \<Longrightarrow> tx_step races e s (serve_data e s)"
| pace: "pace_timer s \<Longrightarrow> tx_step races e s (pace_expiry e s)"
| conn: "conn_legal c s \<Longrightarrow> races \<or> c \<noteq> TX_CONN_STATE_OPEN \<or> all_mgmt_empty (tx_mgmt s) \<or> \<not> mgmt_request s \<Longrightarrow>
    tx_step races e s (txMgmtQ_SetConnState e c s)"
| suspend: "tx_step races e s (txPort_suspendTx e s)"
| resume: "tx_step races e s (txPort_resumeTx e s)"
| report: "tx_step races e s (fw_report e txResultsCntr txReleasedBlks s)"
| admission: "tx_step races e s (txCtrlParams_setAcAdmissionStatus e ac req st s)"
| recovery: "txSuspended (tx_port s) \<Longrightarrow> tx_step races e s (tx_recovery e s)"
| clear: "eSmState (tx_mgmt s) = SM_STATE_CLOSE \<Longrightarrow> tx_step races e s (txMgmtQ_ClearQueues (txDataQ_ClearQueues s))"
| defaults: "0 < thresh \<Longrightarrow> tx_step races e s (snd (txDataQ_SetDefaults clsfr_status stop_stack thresh s))"

inductive tx_reach :: "bool \<Rightarrow> TxEnv \<Rightarrow> TxPath \<Rightarrow> bool" for races e where
  init: "tx_init s \<Longrightarrow> tx_reach races e s"
| step: "tx_reach races e s \<Longrightarrow> tx_step races e s s' \<Longrightarrow> tx_reach races e s'"

lemmas tx_keeps = txMgmtQ_Xmit_keeps txDataQ_InsertPacket_keeps serve_mgmt_keeps serve_data_keeps pace_expiry_keeps
  SetConnState_keeps fw_report_keeps setAcAdmissionStatus_keeps tx_recovery_keeps

lemma tx_step_ctl:
  assumes e: "env_ok e" and s: "ctl_ok s" and st: "tx_step r e s s'"
  shows "ctl_ok s'"
  using st
proof cases
  case (build p f)
  then show ?thesis using blk_keeps(1) [OF s] by simp
next
  case (free p)
  then show ?thesis using view_ok(1) [OF free_view(1)] s by simp
next
  case suspend
  then show ?thesis using port_change_keeps(1) [OF e s, of "\<lambda>p. p\<lparr>txSuspended := True\<rparr>"] by (simp add: txPort_suspendTx_def)
next
  case resume
  then show ?thesis using port_change_keeps(1) [OF e s, of "\<lambda>p. p\<lparr>txSuspended := False\<rparr>"] by (simp add: txPort_resumeTx_def)
qed (use tx_keeps [OF e s] s clear_keeps(1) SetDefaults_keeps(1) in simp_all)

lemma tx_step_wait:
  assumes e: "env_ok e" and s: "ctl_ok s" "wait_ok s" and st: "tx_step False e s s'"
  shows "wait_ok s'"
  using st
proof cases
  case (build p f)
  then show ?thesis using blk_keeps(2) [OF s(1)] s(2) by simp
next
  case (free p)
  then show ?thesis using view_ok(2) [OF free_view(1)] s(2) by simp
next
  case suspend
  then show ?thesis using port_change_keeps(2) [OF e s(1), of "\<lambda>p. p\<lparr>txSuspended := True\<rparr>"] s(2) by (simp add: txPort_suspendTx_def)
next
  case resume
  then show ?thesis using port_change_keeps(2) [OF e s(1), of "\<lambda>p. p\<lparr>txSuspended := False\<rparr>"] s(2) by (simp add: txPort_resumeTx_def)
next
  case serve_mgmt
  then show ?thesis using serve_mgmt_keeps(2) [OF e s] by blast
next
  case (conn c)
  then show ?thesis using SetConnState_keeps(2) [OF e s(1) _ s(2)] by blast
qed (use txMgmtQ_Xmit_keeps(2) [OF e s(1)] txDataQ_InsertPacket_keeps(2) [OF e s(1)] serve_data_keeps(2) [OF e s(1)] pace_expiry_keeps(2) [OF e s(1)]
    fw_report_keeps(2) [OF e s(1)] setAcAdmissionStatus_keeps(2) [OF e s(1)] tx_recovery_keeps(2) [OF e s(1)] clear_keeps(2) [OF s(1)]
    SetDefaults_keeps(2) [OF s(1)] s in simp_all)

lemma tx_reach_ctl: "tx_reach r e s \<Longrightarrow> env_ok e \<Longrightarrow> ctl_ok s"
  by (induction rule: tx_reach.induct) (simp_all add: tx_init_ok(1) tx_step_ctl)

lemma tx_reach_wait: "tx_reach False e s \<Longrightarrow> env_ok e \<Longrightarrow> wait_ok s"
  by (induction rule: tx_reach.induct) (auto simp: tx_init_ok(2) intro: tx_step_wait tx_reach_ctl)

end
