(* ===== verification/WlTxStuck.thy ===== *)
theory WlTxStuck
  imports WlTxEnter
begin

text \<open>
  The states in which the transmit path sends nothing more, how two races lead to them, and two runs
  of the model that show that the races happen.
\<close>

section \<open>Traffic in a stuck state\<close>

text \<open>
  The state machine is in \<open>OPEN_MGMT\<close> and no queue of the firmware is busy: the task does nothing in this
  state, and no queue will be woken.
\<close>

definition stuck :: "TxPath \<Rightarrow> bool" where
  "stuck s \<longleftrightarrow> ctl_ok s \<and> eSmState (tx_mgmt s) = SM_STATE_OPEN_MGMT \<and> \<not> hw_busy s"

text \<open>All that packets, tasks, the timer and the firmware do.\<close>

inductive traffic :: "TxEnv \<Rightarrow> TxPath \<Rightarrow> TxPath \<Rightarrow> bool" for e where
  build: "not_queued s p \<Longrightarrow> unat (td_tid (tTxDescriptor (f (tx_blk s p)))) < MAX_NUM_OF_802_1d_TAGS \<Longrightarrow> traffic e s (on_blk p f s)"
| free: "traffic e s (txCtrl_FreePacket p s)"
| xmit: "p < length (tx_types s) \<Longrightarrow> tx_types s ! p \<noteq> TX_PKT_TYPE_ETHER \<Longrightarrow> traffic e s (snd (txMgmtQ_Xmit e p ext s))"
| insert: "p < length (tx_types s) \<Longrightarrow> not_queued s p \<Longrightarrow> traffic e s (snd (txDataQ_InsertPacket e p dtag s))"
| serve_mgmt: "mgmt_request s \<Longrightarrow> traffic e s (serve_mgmt e s)"
| serve_data: "data_request s \<Longrightarrow> traffic e s (serve_data e s)"
| pace: "pace_timer s \<Longrightarrow> traffic e s (pace_expiry e s)"
| report: "traffic e s (fw_report e txResultsCntr txReleasedBlks s)"

text \<open>What leaves the machine, the firmware's queues and the record of what was sent alone.\<close>

definition same_core :: "TxPath \<Rightarrow> TxPath \<Rightarrow> bool" where
  "same_core s' s \<longleftrightarrow> eSmState (tx_mgmt s') = eSmState (tx_mgmt s) \<and> hw_busy s' = hw_busy s \<and> sent s' = sent s"

lemma same_core_refl [simp]: "same_core s s"
  by (simp add: same_core_def)

lemma same_core_trans: "same_core s'' s' \<Longrightarrow> same_core s' s \<Longrightarrow> same_core s'' s"
  by (simp add: same_core_def)

lemma view_core: "same_view s' s \<Longrightarrow> same_core s' s"
  using same_hw_ok(2) [of s' s] by (simp add: same_view_def same_core_def same_ctl_def same_hw_def)

lemma sent_upd [simp]:
  "sent (set_mgmt_queue j xs s) = sent s" "sent (set_data_queue j xs s) = sent s" "sent (on_blk p f s) = sent s"
  "sent (on_mgmt g s) = sent s" "sent (on_data h s) = sent s" "sent (on_port k s) = sent s" "sent (sm_step ev s) = sent s"
  by (simp_all add: set_mgmt_queue_def set_data_queue_def on_mgmt_def on_data_def on_blk_def on_port_def sm_step_def)

lemma blk_core: "same_core (on_blk p f s) s"
  by (simp add: same_core_def tx_list_on_blk)

lemma request_core: "same_core (s\<lparr>mgmt_request := b\<rparr>) s" "same_core (s\<lparr>data_request := b\<rparr>) s" "same_core (s\<lparr>pace_timer := b\<rparr>) s"
  by (simp_all add: same_core_def)

text \<open>In \<open>OPEN_MGMT\<close> the machine ignores that the queues are not empty.\<close>

lemma not_empty_ignored:
  "eSmState (tx_mgmt s) = SM_STATE_OPEN_MGMT \<Longrightarrow> mgmtQueuesSM e SM_EVENT_QUEUES_NOT_EMPTY s = s"
  by (simp add: mgmtQueuesSM_unfold sm_next_def sm_step_def on_mgmt_def)

lemma data_stopped: "\<not> bDataPortEnable (tx_data s) \<Longrightarrow> txDataQ_RunScheduler e s = s"
  unfolding txDataQ_RunScheduler_def by (subst data_loop.simps) simp

lemma mgmt_enter_core:
  assumes "eSmState (tx_mgmt s) = SM_STATE_OPEN_MGMT"
  shows "same_core (snd (mgmt_enter e p ext j s)) s"
proof (cases rule: fifo_enq_cases [of MGMT_QUEUES_DEPTH "mgmt_queue s j" p])
  case refused
  have "same_view (snd (mgmt_enter e p ext j s)) s"
    using same_view_trans [OF count_view(1) same_view_trans [OF free_view(1) set_mgmt_same]]
    by (simp add: mgmt_enter_def refused Let_def)
  then show ?thesis by (rule view_core)
next
  case ok
  define u where "u = count_mgmt (\<lambda>c. c\<lparr>aEnqueuePackets := inc_at j (aEnqueuePackets c)\<rparr>) (set_mgmt_queue j (mgmt_queue s j @ [p]) s)"
  have "same_core u (set_mgmt_queue j (mgmt_queue s j @ [p]) s)" unfolding u_def by (intro view_core count_view)
  then have c: "same_core u s" by (simp add: same_core_def)
  then have "mgmtQueuesSM e SM_EVENT_QUEUES_NOT_EMPTY u = u" using assms by (intro not_empty_ignored) (simp add: same_core_def)
  moreover have "snd (mgmt_enter e p ext j s) = (if length (mgmt_queue s j @ [p]) = 1
      then if ext then u\<lparr>mgmt_request := True\<rparr> else mgmtQueuesSM e SM_EVENT_QUEUES_NOT_EMPTY u else u)"
    unfolding mgmt_enter_def ok Let_def u_def by simp
  ultimately have "snd (mgmt_enter e p ext j s) \<in> {u\<lparr>mgmt_request := True\<rparr>, u}" by simp
  then show ?thesis using c same_core_trans [OF request_core(1) c] by auto
qed

lemma xmit_core:
  assumes "eSmState (tx_mgmt s) = SM_STATE_OPEN_MGMT"
  shows "same_core (snd (txMgmtQ_Xmit e p ext s)) s"
proof -
  let ?s1 = "on_blk p (\<lambda>b. b\<lparr>tTxDescriptor := (tTxDescriptor b)\<lparr>td_tid := of_nat MGMT_QUEUES_TID\<rparr>\<rparr>) s"
  have "same_core (snd (mgmt_enter e p ext j ?s1)) ?s1" for j
    using assms by (intro mgmt_enter_core) (simp add: tx_list_on_blk)
  then have "same_core (snd (mgmt_enter e p ext j ?s1)) s" for j by (rule same_core_trans) (rule blk_core)
  then show ?thesis by (simp add: txMgmtQ_Xmit_def mgmt_enter_def Let_def)
qed

lemma data_enter_core: "same_core (data_enter q xs s) s"
  by (auto simp: data_enter_def Let_def same_core_def)

lemma insert_core:
  assumes "eSmState (tx_mgmt s) = SM_STATE_OPEN_MGMT"
  shows "same_core (snd (txDataQ_InsertPacket e p dtag s)) s"
proof (cases "ether_type e p = ETHERTYPE_EAPOL \<or> ether_type e p = genericEthertype (tx_ctrl s)")
  case True
  have "same_core (snd (txMgmtQ_Xmit e p True (set_pkt_type p TX_PKT_TYPE_EAPOL s))) (set_pkt_type p TX_PKT_TYPE_EAPOL s)"
    using assms by (intro xmit_core) (simp add: set_pkt_type_def tx_list_on_blk)
  then have "same_core (snd (txMgmtQ_Xmit e p True (set_pkt_type p TX_PKT_TYPE_EAPOL s))) s"
    by (rule same_core_trans) (simp add: set_pkt_type_def blk_core)
  then show ?thesis using True by (simp add: txDataQ_InsertPacket_def)
next
  case False
  let ?s0 = "set_pkt_type p TX_PKT_TYPE_ETHER s"
  obtain m tid where cl: "classify e p dtag = (m, tid)" by fastforce
  obtain q st req full s5 where i: "insert_critical (m, tid) p ?s0 = (q, st, req, full, s5)" by (metis prod_cases5)
  obtain xs u where x: "same_view u (on_blk p (\<lambda>b. b\<lparr>tTxDescriptor := (tTxDescriptor b)\<lparr>td_tid := tid\<rparr>\<rparr>) ?s0)"
    "same_view (insert_end q st p (insert_stop full (insert_request req s5))) (insert_request full (data_enter q xs u))"
    using insert_view [OF i refl] by blast
  have "same_core (insert_request full (data_enter q xs u)) u"
    using same_core_trans [OF request_core(2) data_enter_core] data_enter_core by (simp add: insert_request_def)
  moreover have "same_core u s"
    using view_core [OF x(1)] blk_core same_core_trans unfolding set_pkt_type_def by blast
  ultimately have "same_core (insert_end q st p (insert_stop full (insert_request req s5))) s"
    using view_core [OF x(2)] same_core_trans by blast
  then show ?thesis using False by (simp add: txDataQ_InsertPacket_def cl i)
qed

text \<open>A report wakes no queue.\<close>

lemma report_core:
  assumes "ctl_ok s" "\<not> hw_busy s"
  shows "same_core (fw_report e r rel s) s"
proof -
  obtain hw m where u: "txHwQueue_UpdateFreeResources (tx_hw s) r rel = (hw, m)" by fastforce
  have len: "length (aTxHwQueueInfo (tx_hw s)) = MAX_NUM_OF_AC" "fUpdateBusyMapCb (tx_hw s) \<noteq> None"
    using ctl_hw(1) [OF assms(1)] by (simp_all add: hw_core_def)
  note b = UpdateFreeResources_busy [OF u len]
  have "m = None" using b(4) assms(2) by (cases m) (auto simp: hw_busy_def)
  then show ?thesis using b(3) assms(2) by (auto simp: fw_report_def u same_core_def hw_busy_def)
qed

lemma traffic_stuck:
  assumes e: "env_ok e" and s: "stuck s" and st: "traffic e s s'"
  shows "stuck s' \<and> sent s' = sent s"
proof -
  have c: "ctl_ok s" "eSmState (tx_mgmt s) = SM_STATE_OPEN_MGMT" "\<not> hw_busy s" using s by (simp_all add: stuck_def)
  have stop: "\<not> bDataPortEnable (tx_data s)" using data_closed [OF c(1)] c(2) by simp
  have "tx_step True e s s'" using st by (cases rule: traffic.cases) (auto intro: tx_step.intros)
  then have "ctl_ok s'" using tx_step_ctl [OF e c(1)] by blast
  moreover have "same_core s' s"
    using st
  proof cases
    case (build p f)
    then show ?thesis by (simp add: blk_core)
  next
    case (free p)
    then show ?thesis by (simp add: view_core [OF free_view(1)])
  next
    case serve_mgmt
    then show ?thesis using not_empty_ignored [of "s\<lparr>mgmt_request := False\<rparr>"] c(2) request_core(1)
      by (simp add: serve_mgmt_def txMgmtQ_QueuesNotEmpty_def)
  next
    case serve_data
    then show ?thesis using data_stopped [of "s\<lparr>data_request := False\<rparr>"] stop request_core(2) by (simp add: serve_data_def)
  next
    case pace
    let ?u = "on_data (\<lambda>d. d\<lparr>uTxSendPaceTimeoutsCount := uTxSendPaceTimeoutsCount d + 1\<rparr>) (s\<lparr>pace_timer := False\<rparr>)"
    have "same_core ?u s" by (simp add: same_core_def on_data_sel)
    then show ?thesis using pace data_stopped [of ?u e] stop by (simp add: pace_expiry_def txDataQ_TxSendPaceTimeout_def on_data_sel)
  qed (use c xmit_core insert_core report_core in simp_all)
  ultimately show ?thesis using c by (simp add: stuck_def same_core_def)
qed

lemma traffic_stuck_run:
  assumes "(traffic e)\<^sup>*\<^sup>* s s'" "env_ok e" "stuck s"
  shows "stuck s' \<and> sent s' = sent s"
  using assms by (induction rule: rtranclp_induct) (auto dest: traffic_stuck)

section \<open>How a stuck state is reached\<close>

lemma port_stops_sel [simp]:
  "eSmState (tx_mgmt (port_stops a s)) = eSmState (tx_mgmt s)" "all_mgmt_empty (tx_mgmt (port_stops a s)) = all_mgmt_empty (tx_mgmt s)"
  "hw_busy (port_stops a s) = hw_busy s" "sent (port_stops a s) = sent s"
  by (simp_all add: port_stops_def all_mgmt_empty_def txMgmtQ_StopAll_def txDataQ_StopAll_def on_mgmt_sel on_data_sel Let_def)

lemma all_mgmt_empty_upd [simp]: 
  "all_mgmt_empty (m\<lparr>eTxConnState := c\<rparr>) = all_mgmt_empty m" "all_mgmt_empty (m\<lparr>bMgmtPortEnable := b\<rparr>) = all_mgmt_empty m"
  by (simp_all add: all_mgmt_empty_def)

text \<open>The request of the task is served in \<open>OPEN_DATA\<close> although the management queues are empty.\<close>

lemma spurious_request_stuck:
  assumes e: "env_ok e" and s: "ctl_ok s" "eSmState (tx_mgmt s) = SM_STATE_OPEN_DATA" "all_mgmt_empty (tx_mgmt s)" "\<not> hw_busy s"
  shows "stuck (serve_mgmt e s)" "sent (serve_mgmt e s) = sent s"
proof -
  let ?u = "s\<lparr>mgmt_request := False\<rparr>"
  let ?v = "on_port (\<lambda>p. p\<lparr>queuesMuxState := MUX_MGMT_QUEUES\<rparr>) (sm_step SM_EVENT_QUEUES_NOT_EMPTY ?u)"
  have r: "serve_mgmt e s = updateQueuesStates e ?v"
    using s(2) by (simp add: serve_mgmt_def txMgmtQ_QueuesNotEmpty_def mgmtQueuesSM_unfold sm_next_def)
  have nowake: "snd (port_actions (tx_port ?v)) \<noteq> QUEUE_ACTION_WAKE" by (simp add: port_actions_def)
  have st: "eSmState (tx_mgmt ?v) = SM_STATE_OPEN_MGMT" "all_mgmt_empty (tx_mgmt ?v)"
    using s(2,3) by (simp_all add: sm_next_def enable_queues_def all_mgmt_empty_def)
  let ?w = "port_stops (port_actions (tx_port ?v)) ?v"
  have "serve_mgmt e s = ?w \<or> serve_mgmt e s = on_mgmt (\<lambda>m. m\<lparr>bMgmtPortEnable := True\<rparr>) (on_port (\<lambda>p. p\<lparr>mgmtQueueEnabled := True\<rparr>) ?w)"
    using nowake st(2) unfolding r
    by (simp add: updateQueuesStates.simps txMgmtQ_WakeAll.simps runSchedulerNotFromSm.simps Let_def on_mgmt_sel)
  then have k: "eSmState (tx_mgmt (serve_mgmt e s)) = SM_STATE_OPEN_MGMT \<and> hw_busy (serve_mgmt e s) = hw_busy s \<and> sent (serve_mgmt e s) = sent s"
    using st(1) by (elim disjE) (simp_all add: on_mgmt_sel)
  then show "stuck (serve_mgmt e s)" "sent (serve_mgmt e s) = sent s"
    using serve_mgmt_keeps(1) [OF e s(1)] s(4) by (simp_all add: stuck_def)
qed

text \<open>The connection is opened while a packet waits for the task.\<close>

lemma open_early_stuck:
  assumes e: "env_ok e" and s: "ctl_ok s" "eSmState (tx_mgmt s) = SM_STATE_EAPOL" "\<not> all_mgmt_empty (tx_mgmt s)" "\<not> hw_busy s"
  shows "stuck (txMgmtQ_SetConnState e TX_CONN_STATE_OPEN s)" "sent (txMgmtQ_SetConnState e TX_CONN_STATE_OPEN s) = sent s"
proof -
  let ?u = "on_mgmt (\<lambda>m. m\<lparr>eTxConnState := TX_CONN_STATE_OPEN\<rparr>) s"
  have r: "txMgmtQ_SetConnState e TX_CONN_STATE_OPEN s = sm_step SM_EVENT_OPEN ?u"
    using s(3) by (simp add: SetConnState_event conn_event_def mgmtQueuesSM_unfold sm_next_def on_mgmt_sel)
  have "eSmState (tx_mgmt (sm_step SM_EVENT_OPEN ?u)) = SM_STATE_OPEN_MGMT"
    using s(3) by (simp add: sm_next_def on_mgmt_sel)
  then show "stuck (txMgmtQ_SetConnState e TX_CONN_STATE_OPEN s)" "sent (txMgmtQ_SetConnState e TX_CONN_STATE_OPEN s) = sent s"
    using SetConnState_keeps(1) [OF e s(1), of TX_CONN_STATE_OPEN] s(2,4) by (simp_all add: stuck_def r conn_legal_def on_mgmt_sel)
qed

section \<open>Two runs\<close>

text \<open>Empty queues leave a scheduler nothing to do.\<close>

lemma empty_round: "mgmt_queue s i = [] \<Longrightarrow> sched_round e i s = (False, s)"
  by (simp add: sched_round_def mgmt_send_def)

lemma runScheduler_empty: "all_mgmt_empty (tx_mgmt s) \<Longrightarrow> runScheduler e 0 s = s"
  by (subst runScheduler_unfold, subst runScheduler_unfold) (simp add: empty_round all_mgmt_empty_def que_types)

lemma data_loop_empty:
  "\<forall>q. data_queue s q = [] \<Longrightarrow> tx_hw (data_loop e n i s) = tx_hw s \<and> mgmt_request (data_loop e n i s) = mgmt_request s \<and>
     tx_mgmt (data_loop e n i s) = tx_mgmt s"
proof (induction e n i s rule: data_loop.induct)
  case (1 e n i s)
  show ?case
  proof (cases "\<not> bDataPortEnable (tx_data s) \<or> n \<ge> MAX_NUM_OF_AC")
    case True
    then show ?thesis by (subst (1 2 3) data_loop_unfold) simp
  next
    case False
    define i' where "i' = (if i + 1 = MAX_NUM_OF_AC then 0 else i + 1)"
    define s1 where "s1 = on_data (\<lambda>d. d\<lparr>uLastQueId := i'\<rparr>) s"
    define s2 where "s2 = (if dq_aQueueBusy (tx_data s1) i' then s1 else resume_stack i' s1)"
    have q1: "data_queue s1 q = []" for q using 1(2) by (simp add: s1_def on_data_def)
    have r: "(if dq_aQueueBusy (tx_data s1) i' then (False, s1) else data_send e i' s1) = (False, s2)"
      by (simp add: s2_def data_send_def q1)
    have "\<forall>q. data_queue s2 q = []" "tx_hw s2 = tx_hw s" "mgmt_request s2 = mgmt_request s" "tx_mgmt s2 = tx_mgmt s"
      using q1 by (auto simp: s2_def s1_def resume_stack_def wlanDrvIf_ResumeTx_def on_data_def)
    moreover have "data_round e i' s = (False, s2)" using r unfolding data_round_def Let_def s1_def [symmetric] by simp
    then have "data_loop e n i s = data_loop e (n + 1) i' s2"
      using False unfolding data_loop_unfold [of e n i s] Let_def i'_def [symmetric] by simp
    ultimately show ?thesis
      using 1(1) [OF False i'_def s1_def r [symmetric]] by simp
  qed
qed

text \<open>The connection states while nothing waits.\<close>

lemma conn_empty:
  assumes "all_mgmt_empty (tx_mgmt s)" "eSmState (tx_mgmt s) \<noteq> SM_STATE_OPEN_DATA" "c \<in> {TX_CONN_STATE_MGMT, TX_CONN_STATE_EAPOL}"
  shows "txMgmtQ_SetConnState e c s = sm_step (conn_event c) (on_mgmt (\<lambda>m. m\<lparr>eTxConnState := c\<rparr>) s)"
  using assms by (auto simp: SetConnState_event mgmtQueuesSM_unfold conn_event_def sm_next_def on_mgmt_sel enable_queues_def all_mgmt_empty_def
      intro!: runScheduler_empty)

definition demo_env :: TxEnv where
  "demo_env = \<lparr>xfer = (\<lambda>l p. TXN_STATUS_COMPLETE), ether_type = (\<lambda>p. ETHERTYPE_EAPOL), classify = (\<lambda>p d. (TI_OK, 0)),
     build_data = (\<lambda>ac bp b. b), build_mgmt = (\<lambda>ac b. b)\<rparr>"

lemma demo_env_ok: "env_ok demo_env"
  by (simp add: env_ok_def demo_env_def ac_bounds)

definition demo_mgmt :: TTxMgmtQ where
  "demo_mgmt = the (txMgmtQ_Create True)"

definition demo_data :: TTxDataQ where
  "demo_data = the (txDataQ_Create True)"

definition demo_ctrl :: txCtrl_t where
  "demo_ctrl = the (txCtrl_Create True)"

text \<open>The modules after their initialisation, with a table of three control blocks.\<close>

definition demo_start :: TxPath where
  "demo_start = \<lparr>tx_mgmt = the (txMgmtQ_Init True demo_mgmt), tx_data = the (txDataQ_Init True demo_data),
     tx_port = txPort_init (the (txPort_create True)),
     tx_ctrl = txCtrl_UpdateAcToTidMapping (txCtrl_UpdateHighestAdmittedAcTable (txCtrl_Init demo_ctrl)),
     tx_hw = txHwQueue_RegisterCb hwq_start True 1 1, tx_blks = \<lparr>aTxCtrlBlkTbl = replicate 3 zero_ctrl_blk, uNumUsedEntries = 0\<rparr>,
     mgmt_request = False, data_request = False, pace_timer = False, net_stopped = False, sent = []\<rparr>"

text \<open>After a restart no queue of the firmware is busy.\<close>

lemma Restart_idle:
  "n \<le> length (aTxHwQueueInfo q) \<Longrightarrow> (\<And>q i. \<not> bQueueBusy (f q i)) \<Longrightarrow> i < n \<Longrightarrow>
     \<not> bQueueBusy (aTxHwQueueInfo (foldl (\<lambda>q i. q\<lparr>aTxHwQueueInfo := (aTxHwQueueInfo q)[i := f q i], uNumTotalBlksReserved := g q i\<rparr>) q [0..<n]) ! i)"
  by (induction n) (auto simp: less_Suc_eq Restart_fold)

lemma hwq_start_infos: "length (aTxHwQueueInfo hwq_start) = MAX_NUM_OF_AC" "i < MAX_NUM_OF_AC \<Longrightarrow> \<not> bQueueBusy (aTxHwQueueInfo hwq_start ! i)"
proof -
  show len: "length (aTxHwQueueInfo hwq_start) = MAX_NUM_OF_AC"
    using hwq_reach_invariant [OF hwq_start_reach] by (simp add: hwq_inv_def)
  assume "i < MAX_NUM_OF_AC"
  then show "\<not> bQueueBusy (aTxHwQueueInfo hwq_start ! i)"
    using len unfolding hwq_start_def txHwQueue_SetHwInfo_def txHwQueue_Restart_def Let_def
    by (intro Restart_idle) (simp_all add: Restart_fold restart_info_def)
qed

lemma demo_sel:
  "tx_mgmt demo_start = the (txMgmtQ_Init True demo_mgmt)" "tx_data demo_start = the (txDataQ_Init True demo_data)"
  "tx_ctrl demo_start = txCtrl_UpdateAcToTidMapping (txCtrl_UpdateHighestAdmittedAcTable (txCtrl_Init demo_ctrl))"
  "tx_hw demo_start = hwq_start\<lparr>fUpdateBusyMapCb := Some (1, 1)\<rparr>" "tx_tids demo_start = replicate 3 0" "\<not> mgmt_request demo_start"
  "sent demo_start = []" "tx_types demo_start = replicate 3 0"
  by (simp_all add: demo_start_def txHwQueue_RegisterCb_def tx_tids_def tx_types_def zero_ctrl_blk_def)

lemma demo_init: "tx_init demo_start"
  unfolding tx_init_def
proof (intro conjI)
  show "\<exists>m. txMgmtQ_Init True m = Some (tx_mgmt demo_start)"
    by (rule exI [of _ demo_mgmt]) (simp add: demo_sel txMgmtQ_Init_def)
  show "\<exists>d. txDataQ_Init True d = Some (tx_data demo_start)"
    by (rule exI [of _ demo_data]) (simp add: demo_sel txDataQ_Init_def)
  show "\<exists>p. tx_port demo_start = txPort_init p" by (simp add: demo_start_def) blast
  show "\<exists>c. tx_ctrl demo_start = txCtrl_UpdateAcToTidMapping (txCtrl_UpdateHighestAdmittedAcTable (txCtrl_Init c))"
    by (rule exI) (rule demo_sel)
qed (simp_all add: demo_sel hwq_start_infos(1) ac_bounds(2))

lemma demo_idle: "\<not> hw_busy demo_start"
proof -
  have "aTxHwQueueInfo (tx_hw demo_start) = aTxHwQueueInfo hwq_start" by (simp add: demo_start_def txHwQueue_RegisterCb_def)
  then show ?thesis using hwq_start_infos(2) by (simp add: hw_busy_def)
qed

text \<open>An EAPOL packet of the network stack enters an empty queue.\<close>

lemma insert_eapol:
  fixes dtag :: TI_UINT8
  assumes "ether_type e p = ETHERTYPE_EAPOL" "mgmt_queue s QUEUE_TYPE_EAPOL = []" "length (mq_aQueues (tx_mgmt s)) = NUM_OF_MGMT_QUEUES"
    "p < length (tx_types s)"
  defines "s' \<equiv> snd (txDataQ_InsertPacket e p dtag s)"
  shows "mgmt_request s'" "mq_aQueues (tx_mgmt s') = (mq_aQueues (tx_mgmt s))[QUEUE_TYPE_EAPOL := [p]]"
    "eSmState (tx_mgmt s') = eSmState (tx_mgmt s)" "tx_hw s' = tx_hw s" "tx_ctrl s' = tx_ctrl s" "tx_data s' = tx_data s"
    "mq_aQueueBusy (tx_mgmt s') = mq_aQueueBusy (tx_mgmt s)" "bMgmtPortEnable (tx_mgmt s') = bMgmtPortEnable (tx_mgmt s)"
    "tTxDescriptor (tx_blk s' p) = (tTxDescriptor (tx_blk s p))\<lparr>td_tid := 7\<rparr>" "sent s' = sent s" "hw_busy s' = hw_busy s"
    "length (tx_types s') = length (tx_types s)" "tx_port s' = tx_port s"
proof -
  let ?s0 = "set_pkt_type p TX_PKT_TYPE_EAPOL s"
  let ?s1 = "on_blk p (\<lambda>b. b\<lparr>tTxDescriptor := (tTxDescriptor b)\<lparr>td_tid := of_nat MGMT_QUEUES_TID\<rparr>\<rparr>) ?s0"
  have p: "p < length (aTxCtrlBlkTbl (tx_blks s))" using assms(4) by (simp add: tx_types_def)
  have t: "uPktType (tTxPktParams (tx_blk ?s1 p)) = TX_PKT_TYPE_EAPOL" "tTxDescriptor (tx_blk ?s1 p) = (tTxDescriptor (tx_blk s p))\<lparr>td_tid := 7\<rparr>"
    "tx_mgmt ?s1 = tx_mgmt s" "tx_data ?s1 = tx_data s" "tx_ctrl ?s1 = tx_ctrl s" "tx_hw ?s1 = tx_hw s" "sent ?s1 = sent s" "hw_busy ?s1 = hw_busy s"
    "length (tx_types ?s1) = length (tx_types s)" "tx_port ?s1 = tx_port s"
    using p by (simp_all add: set_pkt_type_def on_blk_def tx_blk_def MGMT_QUEUES_TID_def hw_busy_def tx_types_def)
  have ty: "TX_PKT_TYPE_EAPOL \<noteq> TX_PKT_TYPE_MGMT" by (simp add: TX_PKT_TYPE_EAPOL_def TX_PKT_TYPE_MGMT_def)
  have "s' = snd (txMgmtQ_Xmit e p True ?s0)" unfolding s'_def using assms(1) by (simp add: txDataQ_InsertPacket_def)
  also have "\<dots> = snd (mgmt_enter e p True QUEUE_TYPE_EAPOL ?s1)" using t(1) ty by (simp add: txMgmtQ_Xmit_def mgmt_enter_def Let_def)
  also have "\<dots> = (count_mgmt (\<lambda>c. c\<lparr>aEnqueuePackets := inc_at QUEUE_TYPE_EAPOL (aEnqueuePackets c)\<rparr>)
      (set_mgmt_queue QUEUE_TYPE_EAPOL [p] ?s1))\<lparr>mgmt_request := True\<rparr>"
    using assms(2) by (simp add: mgmt_enter_def t(3) fifo_enq_def MGMT_QUEUES_DEPTH_def)
  finally have r: "s' = (count_mgmt (\<lambda>c. c\<lparr>aEnqueuePackets := inc_at QUEUE_TYPE_EAPOL (aEnqueuePackets c)\<rparr>)
      (set_mgmt_queue QUEUE_TYPE_EAPOL [p] ?s1))\<lparr>mgmt_request := True\<rparr>" .
  have b: "tx_blk s' p = tx_blk ?s1 p" "tx_hw s' = tx_hw ?s1" by (simp_all add: r tx_blk_def count_mgmt_def on_mgmt_def set_mgmt_queue_def)
  show "mgmt_request s'" "mq_aQueues (tx_mgmt s') = (mq_aQueues (tx_mgmt s))[QUEUE_TYPE_EAPOL := [p]]"
    "eSmState (tx_mgmt s') = eSmState (tx_mgmt s)" "tx_hw s' = tx_hw s" "tx_ctrl s' = tx_ctrl s" "tx_data s' = tx_data s"
    "mq_aQueueBusy (tx_mgmt s') = mq_aQueueBusy (tx_mgmt s)" "bMgmtPortEnable (tx_mgmt s') = bMgmtPortEnable (tx_mgmt s)" "sent s' = sent s" "tx_port s' = tx_port s"
    using t by (simp_all add: r count_mgmt_def on_mgmt_def set_mgmt_queue_def)
  show "length (tx_types s') = length (tx_types s)"
    using t(9) by (simp add: r count_mgmt_def on_mgmt_def set_mgmt_queue_def tx_types_def)
  show "tTxDescriptor (tx_blk s' p) = (tTxDescriptor (tx_blk s p))\<lparr>td_tid := 7\<rparr>" using b t(2) by simp
  show "hw_busy s' = hw_busy s" using b(2) t(6) by (simp add: hw_busy_def)
qed

lemma alloc_ok_demo:
  "fst (txHwQueue_AllocResources (hwq_start\<lparr>fUpdateBusyMapCb := Some (1, 1)\<rparr>) ((tTxDescriptor zero_ctrl_blk)\<lparr>td_tid := 7\<rparr>)) = TX_HW_QUE_STATUS_SUCCESS"
  by code_simp

lemma adm: "highestAdmittedAc (txCtrl_UpdateHighestAdmittedAcTable (txCtrl_Init demo_ctrl)) 3 = 3"
  by code_simp

text \<open>A packet for which the firmware has memory and whose access category is admitted is sent.\<close>

lemma xmit_mgmt_success:
  assumes "ac = WMEQosTagToACTable ! unat (td_tid (tTxDescriptor (tx_blk w p)))" "highestAdmittedAc (tx_ctrl w) ac = ac"
    "txHwQueue_AllocResources (tx_hw w) (tTxDescriptor (tx_blk w p)) = (TX_HW_QUE_STATUS_SUCCESS, hw, d)" "\<And>l. xfer e l p = TXN_STATUS_COMPLETE"
  shows "fst (txCtrl_XmitMgmt e p w) = STATUS_XMIT_SUCCESS" "tx_hw (snd (txCtrl_XmitMgmt e p w)) = hw"
proof -
  have 1: "SELECT_AC_FOR_TID p w = (ac, w)" using assms(1,2) by (simp add: SELECT_AC_FOR_TID_def Let_def)
  let ?w = "count_dbg (\<lambda>c. c\<lparr>dbgNumPktsSent := inc_at ac (dbgNumPktsSent c)\<rparr>) w"
  have 2: "TWD_txHwQueue_AllocResources p ?w = (TX_HW_QUE_STATUS_SUCCESS, on_blk p (\<lambda>b. b\<lparr>tTxDescriptor := d\<rparr>) (?w\<lparr>tx_hw := hw\<rparr>))"
    using assms(3) by (simp add: TWD_txHwQueue_AllocResources_def)
  show "fst (txCtrl_XmitMgmt e p w) = STATUS_XMIT_SUCCESS" "tx_hw (snd (txCtrl_XmitMgmt e p w)) = hw"
    by (simp_all add: txCtrl_XmitMgmt_def txCtrl_Xmit_def 1 2 xmit_packet_def TWD_txXfer_SendPacket_def assms(4) tx_list_on_blk)
qed

lemma mgmt_send_success:
  assumes "mgmt_queue s i = [p]" "ac = WMEQosTagToACTable ! unat (td_tid (tTxDescriptor (tx_blk s p)))" "highestAdmittedAc (tx_ctrl s) ac = ac"
    "txHwQueue_AllocResources (tx_hw s) (tTxDescriptor (tx_blk s p)) = (TX_HW_QUE_STATUS_SUCCESS, hw, d)" "\<And>l. xfer e l p = TXN_STATUS_COMPLETE"
  obtains s' where "mgmt_send e i s = (True, s')" "tx_hw s' = hw" "mgmt_queues_are ((mq_aQueues (tx_mgmt s))[i := []]) s' s"
proof -
  let ?w = "count_mgmt (\<lambda>c. c\<lparr>aDequeuePackets := inc_at i (aDequeuePackets c)\<rparr>) (set_mgmt_queue i [] s)"
  have w: "tx_blk ?w p = tx_blk s p" "tx_hw ?w = tx_hw s" "tx_ctrl ?w = tx_ctrl s"
    by (simp_all add: tx_blk_def count_mgmt_def on_mgmt_def set_mgmt_queue_def)
  have x: "fst (txCtrl_XmitMgmt e p ?w) = STATUS_XMIT_SUCCESS" "tx_hw (snd (txCtrl_XmitMgmt e p ?w)) = hw"
    by (rule xmit_mgmt_success [of ac], use assms w in simp_all)+
  obtain st v where v: "txCtrl_XmitMgmt e p ?w = (st, v)" by fastforce
  let ?s = "count_mgmt (\<lambda>c. c\<lparr>aXmittedPackets := inc_at i (aXmittedPackets c)\<rparr>) v"
  have r: "mgmt_send e i s = (True, ?s)" using x(1) v by (simp add: mgmt_send_def assms(1))
  have "tx_hw ?s = hw" using x(2) v by (simp add: count_mgmt_def on_mgmt_def)
  moreover have "mgmt_queues_are ((mq_aQueues (tx_mgmt s))[i := []]) ?s s"
    using r by (cases rule: mgmt_send_cases) (use assms(1) in simp_all)
  ultimately show thesis using that r by blast
qed

text \<open>A frame enters while only management packets may be sent; then EAPOL packets are allowed and it is sent.\<close>

definition demo_wait :: TxPath where
  "demo_wait = snd (txDataQ_InsertPacket demo_env 0 0 (txMgmtQ_SetConnState demo_env TX_CONN_STATE_MGMT demo_start))"

definition demo_sent :: TxPath where
  "demo_sent = txMgmtQ_SetConnState demo_env TX_CONN_STATE_EAPOL demo_wait"

definition demo_open :: TxPath where
  "demo_open = txMgmtQ_SetConnState demo_env TX_CONN_STATE_OPEN demo_sent"

lemma demo_mgmt_sel: "tx_mgmt demo_start = demo_mgmt\<lparr>bMgmtPortEnable := True, mq_aQueues := [[], []],
    mq_aQueueBusy := (\<lambda>i. False), aQueueEnabledBySM := (\<lambda>i. False)\<rparr>"
  by (simp add: demo_sel txMgmtQ_Init_def demo_mgmt_def txMgmtQ_Create_def fun_eq_iff)

lemma demo_start_mgmt:
  "txMgmtQ_SetConnState demo_env TX_CONN_STATE_MGMT demo_start =
     sm_step SM_EVENT_MGMT (on_mgmt (\<lambda>m. m\<lparr>eTxConnState := TX_CONN_STATE_MGMT\<rparr>) demo_start)"
  using conn_empty [of demo_start TX_CONN_STATE_MGMT demo_env]
  by (simp add: demo_mgmt_sel demo_mgmt_def txMgmtQ_Create_def all_mgmt_empty_def conn_event_def)

lemma step_blk [simp]: "tx_blk (sm_step ev s) p = tx_blk s p" "tx_blk (on_mgmt f s) p = tx_blk s p" "tx_hw (sm_step ev s) = tx_hw s"
  "tx_hw (on_mgmt f s) = tx_hw s" "tx_ctrl (sm_step ev s) = tx_ctrl s" "tx_ctrl (on_mgmt f s) = tx_ctrl s" "tx_data (on_mgmt f s) = tx_data s"
  "tx_types (sm_step ev s) = tx_types s" "tx_types (on_mgmt f s) = tx_types s" "tx_mgmt (on_mgmt f s) = f (tx_mgmt s)"
  "tx_port (on_mgmt f s) = tx_port s"
  by (simp_all add: sm_step_def on_mgmt_def tx_blk_def tx_types_def)

lemma demo_wait_sel:
  "mgmt_request demo_wait" "mq_aQueues (tx_mgmt demo_wait) = [[], [0]]" "eSmState (tx_mgmt demo_wait) = SM_STATE_MGMT"
  "tx_hw demo_wait = tx_hw demo_start" "tx_ctrl demo_wait = tx_ctrl demo_start" "tx_data demo_wait = tx_data demo_start"
  "\<not> mq_aQueueBusy (tx_mgmt demo_wait) j" "bMgmtPortEnable (tx_mgmt demo_wait)"
  "tTxDescriptor (tx_blk demo_wait 0) = (tTxDescriptor zero_ctrl_blk)\<lparr>td_tid := 7\<rparr>"
proof -
  let ?s = "sm_step SM_EVENT_MGMT (on_mgmt (\<lambda>m. m\<lparr>eTxConnState := TX_CONN_STATE_MGMT\<rparr>) demo_start)"
  have "tx_blk demo_start 0 = zero_ctrl_blk" by (simp add: demo_start_def tx_blk_def)
  then have b: "tx_blk ?s 0 = zero_ctrl_blk" by simp
  have 1: "ether_type demo_env 0 = ETHERTYPE_EAPOL" "mgmt_queue ?s QUEUE_TYPE_EAPOL = []" "length (mq_aQueues (tx_mgmt ?s)) = NUM_OF_MGMT_QUEUES"
    "0 < length (tx_types ?s)"
    by (simp_all add: demo_env_def demo_mgmt_sel que_types demo_sel)
  note i = insert_eapol [OF 1, of 0, folded demo_start_mgmt, folded demo_wait_def]
  show "mgmt_request demo_wait" "mq_aQueues (tx_mgmt demo_wait) = [[], [0]]" "eSmState (tx_mgmt demo_wait) = SM_STATE_MGMT"
    "tx_hw demo_wait = tx_hw demo_start" "tx_ctrl demo_wait = tx_ctrl demo_start" "tx_data demo_wait = tx_data demo_start"
    "\<not> mq_aQueueBusy (tx_mgmt demo_wait) j" "bMgmtPortEnable (tx_mgmt demo_wait)"
    "tTxDescriptor (tx_blk demo_wait 0) = (tTxDescriptor zero_ctrl_blk)\<lparr>td_tid := 7\<rparr>"
    using i b by (simp_all add: demo_start_mgmt demo_mgmt_sel que_types sm_next_def enable_queues_def)
qed

lemma alloc_idle:
  assumes "txHwQueue_AllocResources q d = (TX_HW_QUE_STATUS_SUCCESS, q', d')" "length (aTxHwQueueInfo q) = MAX_NUM_OF_AC"
    "unat (td_tid d) < MAX_NUM_OF_802_1d_TAGS" "\<And>i. i < MAX_NUM_OF_AC \<Longrightarrow> \<not> bQueueBusy (aTxHwQueueInfo q ! i)" "i < MAX_NUM_OF_AC"
  shows "\<not> bQueueBusy (aTxHwQueueInfo q' ! i)"
  using alloc_busy(4) [OF assms(1-3,5)] assms(4,5) by simp

lemma demo_alloc: "fst (txHwQueue_AllocResources (tx_hw demo_start) ((tTxDescriptor zero_ctrl_blk)\<lparr>td_tid := 7\<rparr>)) = TX_HW_QUE_STATUS_SUCCESS"
  unfolding demo_sel by code_simp

lemma demo_admitted: "highestAdmittedAc (tx_ctrl demo_start) 3 = 3"
  unfolding demo_sel tid_map_sel by code_simp

lemma demo_sent_sel:
  "mgmt_request demo_sent" "all_mgmt_empty (tx_mgmt demo_sent)" "eSmState (tx_mgmt demo_sent) = SM_STATE_EAPOL" "\<not> hw_busy demo_sent"
  "dq_aQueues (tx_data demo_sent) = dq_aQueues (tx_data demo_start)"
proof -
  let ?u = "sm_step SM_EVENT_EAPOL (on_mgmt (\<lambda>m. m\<lparr>eTxConnState := TX_CONN_STATE_EAPOL\<rparr>) demo_wait)"
  note w = demo_wait_sel
  have u: "mq_aQueues (tx_mgmt ?u) = [[], [0]]" "bMgmtPortEnable (tx_mgmt ?u)" "eSmState (tx_mgmt ?u) = SM_STATE_EAPOL"
    "aQueueEnabledBySM (tx_mgmt ?u) 1" "\<not> mq_aQueueBusy (tx_mgmt ?u) 1" "mgmt_request ?u" "tx_data ?u = tx_data demo_start"
    using w by (simp_all add: sm_next_def enable_queues_def que_types on_mgmt_def)
  have r: "demo_sent = runScheduler demo_env 0 ?u"
    using w(3) by (simp add: demo_sent_def SetConnState_event conn_event_def mgmtQueuesSM_unfold sm_next_def)
  obtain hw d where a: "txHwQueue_AllocResources (tx_hw demo_start) ((tTxDescriptor zero_ctrl_blk)\<lparr>td_tid := 7\<rparr>) = (TX_HW_QUE_STATUS_SUCCESS, hw, d)"
    using demo_alloc by (metis prod.collapse)
  have idle: "\<not> bQueueBusy (aTxHwQueueInfo hw ! i)" if "i < MAX_NUM_OF_AC" for i
    using alloc_idle [OF a _ _ _ that] by (simp add: demo_sel hwq_start_infos ac_bounds(2))
  have x: "xfer demo_env l 0 = TXN_STATUS_COMPLETE" for l by (simp add: demo_env_def)
  have q1: "mgmt_queue ?u 1 = [0]" using u(1) by (simp add: que_at_def)
  obtain s' where s': "mgmt_send demo_env 1 ?u = (True, s')" "tx_hw s' = hw" "mgmt_queues_are ((mq_aQueues (tx_mgmt ?u))[1 := []]) s' ?u"
    by (rule mgmt_send_success [OF q1, of 3 hw d])
      (use w(4,5,9) a demo_admitted x in \<open>simp_all add: WMEQosTagToACTable_def QOS_AC_VO_def\<close>)
  have e: "all_mgmt_empty (tx_mgmt s')" using s'(3) u(1) by (simp add: mgmt_queues_are_def all_mgmt_empty_def que_at_def que_types nth_Cons split: nat.splits)
  have "mgmt_queue ?u 0 = []" using u(1) by (simp add: que_at_def)
  then have "runScheduler demo_env 0 ?u = runScheduler demo_env 1 ?u"
    using u(2) by (subst runScheduler_unfold) (simp add: empty_round que_types)
  also have "\<dots> = runScheduler demo_env 0 s'"
    using u(2,4,5) s'(1) by (subst runScheduler_unfold) (simp add: sched_round_def)
  finally have d: "demo_sent = s'" using runScheduler_empty [OF e] by (simp add: r)
  have c: "same_ctl s' ?u" using s'(3) by (simp add: mgmt_queues_are_def)
  show "mgmt_request demo_sent" "eSmState (tx_mgmt demo_sent) = SM_STATE_EAPOL" using c u by (simp_all add: d same_ctl_def)
  show "all_mgmt_empty (tx_mgmt demo_sent)" using e by (simp add: d)
  show "\<not> hw_busy demo_sent" using idle s'(2) by (simp add: d hw_busy_def)
  show "dq_aQueues (tx_data demo_sent) = dq_aQueues (tx_data demo_start)" using s'(3) u(7) by (simp add: d mgmt_queues_are_def)
qed

text \<open>The connection is opened while nothing waits.\<close>

lemma open_empty:
  fixes e :: TxEnv
  assumes "all_mgmt_empty (tx_mgmt s)" "\<forall>q. data_queue s q = []"
  defines "s' \<equiv> txMgmtQ_SetConnState e TX_CONN_STATE_OPEN s"
  shows "eSmState (tx_mgmt s') = SM_STATE_OPEN_DATA" "all_mgmt_empty (tx_mgmt s')" "hw_busy s' = hw_busy s" "mgmt_request s' = mgmt_request s"
proof -
  let ?v = "on_port (\<lambda>p. p\<lparr>queuesMuxState := MUX_DATA_QUEUES\<rparr>) (sm_step SM_EVENT_OPEN (on_mgmt (\<lambda>m. m\<lparr>eTxConnState := TX_CONN_STATE_OPEN\<rparr>) s))"
  let ?a = "port_actions (tx_port ?v)"
  let ?w = "port_stops ?a ?v"
  let ?x = "on_data (\<lambda>d. d\<lparr>bDataPortEnable := True\<rparr>) (on_port (\<lambda>p. p\<lparr>dataQueueEnabled := True\<rparr>) ?w)"
  have v: "eSmState (tx_mgmt ?v) = SM_STATE_OPEN_DATA" "all_mgmt_empty (tx_mgmt ?v)"
    using assms(1) by (simp_all add: sm_next_def enable_queues_def) (simp add: all_mgmt_empty_def)
  have w: "mgmt_request ?w = mgmt_request s" "\<forall>q. data_queue ?w q = []"
    using assms(2) by (simp_all add: port_stops_def Let_def on_mgmt_def)
  have "fst ?a \<noteq> QUEUE_ACTION_WAKE" by (simp add: port_actions_def)
  then have r: "s' = (if snd ?a = QUEUE_ACTION_WAKE then data_loop e 0 (uLastQueId (tx_data ?x)) ?x else ?w)"
    using assms(1) unfolding s'_def
    by (simp add: SetConnState_event conn_event_def mgmtQueuesSM_unfold sm_next_def updateQueuesStates.simps txDataQ_WakeAll_def
        txDataQ_RunScheduler_def Let_def)
  have x: "\<forall>q. data_queue ?x q = []" "tx_mgmt ?x = tx_mgmt ?w" "hw_busy ?x = hw_busy ?w" "mgmt_request ?x = mgmt_request ?w"
    using w(2) by (simp_all add: on_data_sel)
  have l: "tx_mgmt (data_loop e 0 i ?x) = tx_mgmt ?w" "hw_busy (data_loop e 0 i ?x) = hw_busy ?w" "mgmt_request (data_loop e 0 i ?x) = mgmt_request ?w" for i
    using data_loop_empty [OF x(1), of e 0 i] x by (simp_all add: hw_busy_def)
  have "tx_mgmt s' = tx_mgmt ?w" "hw_busy s' = hw_busy ?w" "mgmt_request s' = mgmt_request ?w" using l by (simp_all add: r)
  then show "eSmState (tx_mgmt s') = SM_STATE_OPEN_DATA" "all_mgmt_empty (tx_mgmt s')" "hw_busy s' = hw_busy s" "mgmt_request s' = mgmt_request s"
    using v w(1) by (simp_all add: on_mgmt_sel)
qed

lemma demo_queues: "\<forall>q. data_queue demo_start q = []"
  using data_init(1) [of demo_data "tx_data demo_start"] by (simp add: demo_sel txDataQ_Init_def)

lemma demo_open_sel:
  "mgmt_request demo_open" "all_mgmt_empty (tx_mgmt demo_open)" "eSmState (tx_mgmt demo_open) = SM_STATE_OPEN_DATA" "\<not> hw_busy demo_open"
proof -
  have "\<forall>q. data_queue demo_sent q = []" using demo_queues by (simp add: demo_sent_sel(5))
  from open_empty [OF demo_sent_sel(2) this, of demo_env]
  show "mgmt_request demo_open" "all_mgmt_empty (tx_mgmt demo_open)" "eSmState (tx_mgmt demo_open) = SM_STATE_OPEN_DATA" "\<not> hw_busy demo_open"
    using demo_sent_sel by (simp_all add: demo_open_def)
qed

text \<open>The same frame enters when EAPOL packets are allowed; the task is asked for.\<close>

definition demo_asked :: TxPath where
  "demo_asked = snd (txDataQ_InsertPacket demo_env 0 0 (txMgmtQ_SetConnState demo_env TX_CONN_STATE_EAPOL
     (txMgmtQ_SetConnState demo_env TX_CONN_STATE_MGMT demo_start)))"

lemma demo_start_eapol:
  "txMgmtQ_SetConnState demo_env TX_CONN_STATE_EAPOL (txMgmtQ_SetConnState demo_env TX_CONN_STATE_MGMT demo_start) =
     sm_step SM_EVENT_EAPOL (on_mgmt (\<lambda>m. m\<lparr>eTxConnState := TX_CONN_STATE_EAPOL\<rparr>)
       (sm_step SM_EVENT_MGMT (on_mgmt (\<lambda>m. m\<lparr>eTxConnState := TX_CONN_STATE_MGMT\<rparr>) demo_start)))"
  unfolding demo_start_mgmt
  using conn_empty [of "sm_step SM_EVENT_MGMT (on_mgmt (\<lambda>m. m\<lparr>eTxConnState := TX_CONN_STATE_MGMT\<rparr>) demo_start)" TX_CONN_STATE_EAPOL demo_env]
  by (simp add: demo_mgmt_sel demo_mgmt_def txMgmtQ_Create_def all_mgmt_empty_def conn_event_def sm_next_def enable_queues_def)

lemma demo_port: "\<not> txSuspended (tx_port demo_start)"
  by (simp add: demo_start_def txPort_init_def)

lemma demo_asked_sel:
  "mgmt_request demo_asked" "mq_aQueues (tx_mgmt demo_asked) = [[], [0]]" "eSmState (tx_mgmt demo_asked) = SM_STATE_EAPOL"
  "\<not> hw_busy demo_asked" "\<not> txSuspended (tx_port demo_asked)"
proof -
  let ?s = "sm_step SM_EVENT_EAPOL (on_mgmt (\<lambda>m. m\<lparr>eTxConnState := TX_CONN_STATE_EAPOL\<rparr>)
       (sm_step SM_EVENT_MGMT (on_mgmt (\<lambda>m. m\<lparr>eTxConnState := TX_CONN_STATE_MGMT\<rparr>) demo_start)))"
  have 1: "ether_type demo_env 0 = ETHERTYPE_EAPOL" "mgmt_queue ?s QUEUE_TYPE_EAPOL = []" "length (mq_aQueues (tx_mgmt ?s)) = NUM_OF_MGMT_QUEUES"
    "0 < length (tx_types ?s)"
    by (simp_all add: demo_env_def demo_mgmt_sel que_types demo_sel)
  note i = insert_eapol [OF 1, of 0, folded demo_start_eapol, folded demo_asked_def]
  have "hw_busy ?s = hw_busy demo_start" by (simp add: on_mgmt_sel)
  then show "mgmt_request demo_asked" "mq_aQueues (tx_mgmt demo_asked) = [[], [0]]" "eSmState (tx_mgmt demo_asked) = SM_STATE_EAPOL"
    "\<not> hw_busy demo_asked" "\<not> txSuspended (tx_port demo_asked)"
    using i demo_idle demo_port by (simp_all add: demo_start_eapol demo_mgmt_sel que_types sm_next_def enable_queues_def)
qed

text \<open>Both runs are steps of the model.\<close>

lemma demo_conn:
  assumes "tx_reach r demo_env s" "conn_legal c s" "c \<noteq> TX_CONN_STATE_OPEN \<or> r"
  shows "tx_reach r demo_env (txMgmtQ_SetConnState demo_env c s)"
  using assms by (blast intro: tx_reach.step tx_step.conn)

lemma demo_reach:
  "tx_reach r demo_env demo_asked" "tx_reach True demo_env demo_open"
proof -
  let ?m = "txMgmtQ_SetConnState demo_env TX_CONN_STATE_MGMT demo_start"
  let ?e = "txMgmtQ_SetConnState demo_env TX_CONN_STATE_EAPOL ?m"
  have m: "tx_reach r demo_env ?m" for r
    by (rule demo_conn) (auto intro: tx_reach.init demo_init simp: conn_legal_def)
  have "eSmState (tx_mgmt ?m) = SM_STATE_MGMT" by (simp add: demo_start_mgmt sm_next_def enable_queues_def)
  then have e: "tx_reach r demo_env ?e" for r by (intro demo_conn m) (simp_all add: conn_legal_def)
  have q: "not_queued ?m 0" "0 < length (tx_types ?m)"
    using demo_queues unfolding demo_start_mgmt by (simp_all add: not_queued_def demo_mgmt_sel demo_sel(8))
  have q': "not_queued ?e 0" "0 < length (tx_types ?e)"
    using demo_queues unfolding demo_start_eapol by (simp_all add: not_queued_def demo_mgmt_sel demo_sel(8))
  show "tx_reach r demo_env demo_asked"
    unfolding demo_asked_def by (rule tx_reach.step [OF e tx_step.insert [OF q'(2,1)]])
  have "tx_reach True demo_env demo_wait"
    unfolding demo_wait_def by (rule tx_reach.step [OF m tx_step.insert [OF q(2,1)]])
  then have "tx_reach True demo_env demo_sent"
    unfolding demo_sent_def by (rule demo_conn) (simp_all add: conn_legal_def demo_wait_sel)
  then show "tx_reach True demo_env demo_open"
    unfolding demo_open_def by (rule demo_conn) (simp_all add: conn_legal_def demo_sent_sel)
qed

end
