(* ===== verification/WlTxProps.thy ===== *)
theory WlTxProps
  imports WlTxStuck
begin

text \<open>The properties of the transmit path.\<close>

section \<open>Nothing waits without a reason\<close>

text \<open>The packets of a management queue that the connection permits.\<close>

definition queue_permitted :: "ETxConnState \<Rightarrow> nat \<Rightarrow> bool" where
  "queue_permitted c j = (if j = QUEUE_TYPE_MGMT then c \<noteq> TX_CONN_STATE_CLOSE else c = TX_CONN_STATE_EAPOL \<or> c = TX_CONN_STATE_OPEN)"

text \<open>In the terms of a user of the path.\<close>

lemma wait_reasons:
  assumes "ctl_ok s" "wait_ok s" "\<not> txSuspended (tx_port s)"
  shows "j < NUM_OF_MGMT_QUEUES \<Longrightarrow> queue_permitted (eTxConnState (tx_mgmt s)) j \<Longrightarrow> mgmt_queue s j \<noteq> [] \<Longrightarrow> hw_busy s \<or> mgmt_request s"
    "q < MAX_NUM_OF_AC \<Longrightarrow> eTxConnState (tx_mgmt s) = TX_CONN_STATE_OPEN \<Longrightarrow> data_queue s q \<noteq> [] \<Longrightarrow>
      hw_busy s \<or> data_request s \<or> pace_timer s \<or> mgmt_request s"
proof -
  have c: "port_ok s" "sm_ok s" using assms(1) by (simp_all add: ctl_ok_def)
  show "j < NUM_OF_MGMT_QUEUES \<Longrightarrow> queue_permitted (eTxConnState (tx_mgmt s)) j \<Longrightarrow> mgmt_queue s j \<noteq> [] \<Longrightarrow> hw_busy s \<or> mgmt_request s"
    using c assms(2,3)
    by (cases "eSmState (tx_mgmt s)"; cases "queuesMuxState (tx_port s)")
      (auto simp: port_ok_def sm_ok_def wait_ok_def mgmt_wait_def open_ok_def all_mgmt_empty_def queue_permitted_def que_types less_2_cases_iff)
  show "q < MAX_NUM_OF_AC \<Longrightarrow> eTxConnState (tx_mgmt s) = TX_CONN_STATE_OPEN \<Longrightarrow> data_queue s q \<noteq> [] \<Longrightarrow>
      hw_busy s \<or> data_request s \<or> pace_timer s \<or> mgmt_request s"
    using c assms(2,3) open_mgmt_busy [OF c(2) assms(2)]
    by (cases "eSmState (tx_mgmt s)"; cases "queuesMuxState (tx_port s)")
      (auto simp: port_ok_def sm_ok_def wait_ok_def data_wait_def)
qed

text \<open>
  C7. No stall: in every state that the operations of the transmit path, the connection managers, the
  tasks, the pacing timer, the recovery and the reports of the firmware reach, in any order but for two
  races, a packet waits only for a reason that ends. While the port is not suspended, a management or
  EAPOL packet that the connection permits waits for memory of the firmware or for the task, which has
  been asked for, and a data packet of an open connection for one of these, for its own task or for the
  pacing timer.
\<close>

theorem tx_no_stall:
  assumes "env_ok e" "tx_reach False e s" "\<not> txSuspended (tx_port s)"
  shows "(\<forall>j<NUM_OF_MGMT_QUEUES. queue_permitted (eTxConnState (tx_mgmt s)) j \<longrightarrow> mgmt_queue s j \<noteq> [] \<longrightarrow> hw_busy s \<or> mgmt_request s) \<and>
    (\<forall>q<MAX_NUM_OF_AC. eTxConnState (tx_mgmt s) = TX_CONN_STATE_OPEN \<longrightarrow> data_queue s q \<noteq> [] \<longrightarrow>
       hw_busy s \<or> data_request s \<or> pace_timer s \<or> mgmt_request s)"
  using wait_reasons [OF tx_reach_ctl [OF assms(2,1)] tx_reach_wait [OF assms(2,1)] assms(3)] by blast

text \<open>What is left after the tasks.\<close>

lemma serve_mgmt_request: "env_ok e \<Longrightarrow> ctl_ok s \<Longrightarrow> \<not> mgmt_request (serve_mgmt e s)"
  using mgmtQueuesSM_keeps [OF _ not_empty_pre, of e "s\<lparr>mgmt_request := False\<rparr>"]
  by (simp add: serve_mgmt_def txMgmtQ_QueuesNotEmpty_def flow_post_def ctl_ok_def)

lemma serve_data_rest:
  assumes "env_ok e" "ctl_ok s" "bDataPortEnable (tx_data s)" "q < MAX_NUM_OF_AC" "data_queue (serve_data e s) q \<noteq> []"
  shows "hw_busy (serve_data e s)"
proof -
  let ?u = "s\<lparr>data_request := False\<rparr>"
  have u: "tx_good ?u" "uLastQueId (tx_data ?u) < MAX_NUM_OF_AC" using assms(2) by (simp_all add: ctl_ok_def base_ok_def)
  have "bDataPortEnable (tx_data ?u) \<longrightarrow> eTxConnState (tx_mgmt ?u) = TX_CONN_STATE_OPEN"
    using assms(2) by (auto simp: ctl_ok_def port_ok_def sm_ok_def)
  from txDataQ_RunScheduler_good [OF assms(1) u(1) this u(2)]
  show ?thesis using assms(3-5) by (simp add: serve_data_def data_sched_post_def same_ctl_def)
qed

text \<open>
  C20. The tasks do their work. Management: in every state that is reached without the two races, when
  the task serves the request to the management queues while they hold a packet or the data queues do
  not have the path, and the port is not suspended, no permitted management or EAPOL packet waits any longer but for memory of the
  firmware. The races, which are left out here, are the opening of the connection with a packet in a
  management queue whose request is pending (\<^verbatim>\<open>txMgmtQueue.c:643\<close>), after which the task serves the
  request and a permitted EAPOL packet waits for nothing (\<open>tx_open_loses_request\<close>), and a request that is
  served when the queues are empty again (\<^verbatim>\<open>txMgmtQueue.c:667\<close>, \<open>tx_late_request_stops\<close>). Data: in every
  reachable state, the races included, when the task of the data queues runs with the data port open, no
  data packet waits any longer but for memory of the firmware.
\<close>

theorem tx_tasks_serve:
  assumes "env_ok e" "tx_reach races e s"
  shows "(\<not> races \<longrightarrow> (eSmState (tx_mgmt s) = SM_STATE_OPEN_DATA \<longrightarrow> \<not> all_mgmt_empty (tx_mgmt s)) \<longrightarrow>
      \<not> txSuspended (tx_port (serve_mgmt e s)) \<longrightarrow>
      (\<forall>j<NUM_OF_MGMT_QUEUES. queue_permitted (eTxConnState (tx_mgmt (serve_mgmt e s))) j \<longrightarrow>
         mgmt_queue (serve_mgmt e s) j \<noteq> [] \<longrightarrow> hw_busy (serve_mgmt e s))) \<and>
    (bDataPortEnable (tx_data s) \<longrightarrow> (\<forall>q<MAX_NUM_OF_AC. data_queue (serve_data e s) q \<noteq> [] \<longrightarrow> hw_busy (serve_data e s)))"
proof -
  have s: "ctl_ok s" using tx_reach_ctl [OF assms(2,1)] .
  have w: "wait_ok s" if "\<not> races" using tx_reach_wait [of e s] assms that by simp
  note m = serve_mgmt_keeps [OF assms(1) s]
  show ?thesis
    using wait_reasons(1) [OF m(1) m(2) [OF w]] serve_mgmt_request [OF assms(1) s] serve_data_rest [OF assms(1) s] by blast
qed

section \<open>What may be sent and who has the path\<close>

text \<open>
  C8. Nothing is sent early: whatever happens and in whatever order, each packet that was ever given to
  the bus transfer was permitted by the state of the connection at that moment: management packets in
  every state but the closed one, data packets on an open connection only, EAPOL and other packets from
  the moment when the connection managers allow them.
\<close>

theorem tx_sent_permitted:
  assumes "env_ok e" "tx_reach True e s"
  shows "\<forall>x\<in>set (sent s). permitted (ts_conn x) (ts_type x)"
  using tx_reach_ctl [OF assms(2,1)] by (simp add: ctl_ok_def base_ok_def tx_good_def log_ok_def)

text \<open>
  C19. The port, the two modules and the state machine agree, in every reachable state: the port knows
  which module is enabled, at most one is, none while transmission is suspended, and otherwise the data
  queues are exactly in the state \<open>OPEN_DATA\<close>; the machine is in the state of the connection.
\<close>

theorem tx_port_agrees:
  assumes "env_ok e" "tx_reach True e s"
  shows "mgmtQueueEnabled (tx_port s) = bMgmtPortEnable (tx_mgmt s) \<and> dataQueueEnabled (tx_port s) = bDataPortEnable (tx_data s) \<and>
    bDataPortEnable (tx_data s) = (\<not> txSuspended (tx_port s) \<and> eSmState (tx_mgmt s) = SM_STATE_OPEN_DATA) \<and>
    bMgmtPortEnable (tx_mgmt s) = (\<not> txSuspended (tx_port s) \<and> eSmState (tx_mgmt s) \<noteq> SM_STATE_OPEN_DATA) \<and>
    eTxConnState (tx_mgmt s) = conn_of (eSmState (tx_mgmt s))"
proof -
  have c: "port_ok s" "sm_ok s" using tx_reach_ctl [OF assms(2,1)] by (simp_all add: ctl_ok_def)
  then show ?thesis by (cases "queuesMuxState (tx_port s)") (auto simp: port_ok_def sm_ok_def)
qed

text \<open>
  C36. Queues hold what their users expect: there are two management and four data queues, every packet in
  one is an entry of the table of control blocks, and its type is management in the first, neither
  management nor Ethernet in the EAPOL queue, and Ethernet in the data queues.
\<close>

theorem tx_queue_types:
  assumes "env_ok e" "tx_reach True e s"
  shows "length (mq_aQueues (tx_mgmt s)) = NUM_OF_MGMT_QUEUES \<and> length (dq_aQueues (tx_data s)) = MAX_NUM_OF_AC \<and>
    (\<forall>j. \<forall>p\<in>set (mgmt_queue s j). p < length (aTxCtrlBlkTbl (tx_blks s)) \<and> mgmt_type j (uPktType (tTxPktParams (tx_blk s p)))) \<and>
    (\<forall>q. \<forall>p\<in>set (data_queue s q). p < length (aTxCtrlBlkTbl (tx_blks s)) \<and> uPktType (tTxPktParams (tx_blk s p)) = TX_PKT_TYPE_ETHER)"
proof -
  have q: "queue_ok s" by (rule ctl_hw(2) [OF tx_reach_ctl [OF assms(2,1)]])
  have t: "p < length (tx_types s) \<longleftrightarrow> p < length (aTxCtrlBlkTbl (tx_blks s))"
    "p < length (aTxCtrlBlkTbl (tx_blks s)) \<Longrightarrow> tx_types s ! p = uPktType (tTxPktParams (tx_blk s p))" for p
    by (simp_all add: tx_types_def tx_blk_def)
  show ?thesis using q t unfolding queue_ok_def by metis
qed

section \<open>Two races\<close>

text \<open>
  A late request stops the path: the request to the management queues can still be pending when they
  are empty and the data queues have the path. Serving it takes the path from the data queues, and from
  then on nothing is sent, whatever packets are queued, tasks run, timers expire and memory is released.
\<close>

theorem tx_late_request_stops:
  assumes "env_ok e" "tx_reach True e s" "mgmt_request s" "eSmState (tx_mgmt s) = SM_STATE_OPEN_DATA"
    "all_mgmt_empty (tx_mgmt s)" "\<not> hw_busy s" "(traffic e)\<^sup>*\<^sup>* (serve_mgmt e s) s'"
  shows "sent s' = sent s \<and> eSmState (tx_mgmt s') = SM_STATE_OPEN_MGMT \<and> \<not> bDataPortEnable (tx_data s')"
proof -
  have c: "ctl_ok s" by (rule tx_reach_ctl [OF assms(2,1)])
  note st = spurious_request_stuck [OF assms(1) c assms(4-6)]
  have k: "stuck s'" "sent s' = sent s" using traffic_stuck_run [OF assms(7,1) st(1)] st(2) by simp_all
  then show ?thesis using data_closed [of s'] by (simp add: stuck_def)
qed

text \<open>
  Opening the connection loses the request: when an EAPOL packet has been queued and the task asked
  for, and the connection is opened before the task runs, the task does nothing; from then on nothing is
  sent, neither this packet nor any that follows.
\<close>

theorem tx_open_loses_request:
  assumes "env_ok e" "tx_reach True e s" "mgmt_request s" "eSmState (tx_mgmt s) = SM_STATE_EAPOL"
    "\<not> all_mgmt_empty (tx_mgmt s)" "\<not> hw_busy s" "(traffic e)\<^sup>*\<^sup>* (txMgmtQ_SetConnState e TX_CONN_STATE_OPEN s) s'"
  shows "sent s' = sent s \<and> eSmState (tx_mgmt s') = SM_STATE_OPEN_MGMT \<and> \<not> bDataPortEnable (tx_data s')"
proof -
  have c: "ctl_ok s" by (rule tx_reach_ctl [OF assms(2,1)])
  note st = open_early_stuck [OF assms(1) c assms(4-6)]
  have k: "stuck s'" "sent s' = sent s" using traffic_stuck_run [OF assms(7,1) st(1)] st(2) by simp_all
  then show ?thesis using data_closed [of s'] by (simp add: stuck_def)
qed

section \<open>Backpressure\<close>

lemma word_and_1: "w AND 1 \<noteq> 0 \<longleftrightarrow> bit (w :: TI_UINT32) 0"
  by (auto simp: and_one_eq mod_2_eq_odd bit_0)

lemma drop_and_1: "drop_bit n w AND 1 \<noteq> 0 \<longleftrightarrow> bit (w :: TI_UINT32) n"
  by (simp add: word_and_1 bit_drop_bit_eq)

text \<open>
  Backpressure of one access category clears that of the others: \<open>txDataQ_StopQueue\<close>, which is given
  the TIDs of the access category that became busy, sets the flag of every data queue by the bit of
  the last TID of the queue, so a queue that was stopped before and has no bit in the map is taken for
  free.
\<close>

theorem txDataQ_StopQueue_flags:
  "map (dq_aQueueBusy (tx_data (txDataQ_StopQueue uTidBitMap s))) [QOS_AC_BE, QOS_AC_BK, QOS_AC_VI, QOS_AC_VO] =
     map (bit uTidBitMap) [3, 2, 5, 7]"
  by (simp add: eval_nat_numeral(2,3) txDataQ_StopQueue_def on_data_def txDataQ_UpdateQueuesBusyState_def ac_bounds upt_rec aTidToQueueTable_def drop_and_1
      QOS_AC_BE_def QOS_AC_BK_def QOS_AC_VI_def QOS_AC_VO_def)

section \<open>The test for a stuck transmission\<close>

text \<open>
  The age at which a packet counts as stuck: the test fails exactly when a control block in use has
  not been sent to the firmware and is older than 4096000, in the unit of the time stamps, which are
  milliseconds: after 68 minutes instead of the twice 2000 time units of 1.024 milliseconds.
\<close>

theorem txCtrl_stuck_age:
  "txCtrl_CheckForTxStuck now s = TI_NOK \<longleftrightarrow>
     (\<exists>entry<CTRL_BLK_ENTRIES_NUM - 1. pNextFreeEntry (tx_blk s entry) = None \<and>
        uFlags (tTxPktParams (tx_blk s entry)) AND TX_CTRL_FLAG_SENT_TO_FW = 0 \<and>
        4096000 < unat (now - startTime (tTxDescriptor (tx_blk s entry))))"
proof -
  have "(of_nat (MGMT_PKT_LIFETIME_TU * 2 ^ SHIFT_BETWEEN_TU_AND_USEC * 2) :: TI_UINT32) = 4096000"
    by (simp add: MGMT_PKT_LIFETIME_TU_def SHIFT_BETWEEN_TU_AND_USEC_def)
  then show ?thesis by (simp add: txCtrl_CheckForTxStuck_def list_ex_iff pkt_stuck_def word_less_nat_alt) (auto simp: Bex_def)
qed

section \<open>Witnesses\<close>

lemma demo_asked_ctl: "ctl_ok demo_asked"
  by (rule tx_reach_ctl [OF demo_reach(1) demo_env_ok])

lemma demo_asked_port: "mgmt_queue demo_asked QUEUE_TYPE_EAPOL = [0]" "eTxConnState (tx_mgmt demo_asked) = TX_CONN_STATE_EAPOL"
  using demo_asked_ctl by (simp_all add: demo_asked_sel que_types que_at_def ctl_ok_def sm_ok_def)

theorem tx_no_stall_witness: "mgmt_request demo_asked"
  using conjunct1 [OF tx_no_stall [OF demo_env_ok demo_reach(1) demo_asked_sel(5)], rule_format, of QUEUE_TYPE_EAPOL]
    demo_asked_port demo_asked_sel(4) by (simp add: que_types queue_permitted_def)

lemma demo_serve: "same_ctl (serve_mgmt demo_env demo_asked) (demo_asked\<lparr>mgmt_request := False\<rparr>)"
proof -
  let ?u = "sm_step SM_EVENT_QUEUES_NOT_EMPTY (demo_asked\<lparr>mgmt_request := False\<rparr>)"
  have u: "?u = demo_asked\<lparr>mgmt_request := False\<rparr>"
    by (simp add: sm_step_def on_mgmt_def sm_next_def demo_asked_sel)
  have r: "serve_mgmt demo_env demo_asked = runScheduler demo_env 0 ?u"
    by (simp add: serve_mgmt_def txMgmtQ_QueuesNotEmpty_def mgmtQueuesSM_unfold sm_next_def demo_asked_sel)
  have "mgmt_sched_post (runScheduler demo_env 0 ?u) ?u"
    using demo_asked_ctl sm_gates [of ?u] unfolding u
    by (intro runScheduler_good [OF demo_env_ok]) (simp_all add: ctl_ok_def base_ok_def que_types)
  then show ?thesis by (simp add: r u mgmt_sched_post_def mgmt_queues_are_def)
qed

theorem tx_tasks_serve_witness:
  "mgmt_queue (serve_mgmt demo_env demo_asked) QUEUE_TYPE_EAPOL = [] \<or> hw_busy (serve_mgmt demo_env demo_asked)"
  using tx_tasks_serve [OF demo_env_ok demo_reach(1), of False] demo_serve demo_asked_sel demo_asked_port(2)
  by (auto simp: same_ctl_def que_types queue_permitted_def)

theorem tx_sent_permitted_witness: "list_all (\<lambda>x. permitted (ts_conn x) (ts_type x)) (sent demo_open)"
  using tx_sent_permitted [OF demo_env_ok demo_reach(2)] by (simp add: list_all_iff)

theorem tx_port_agrees_witness:
  "bMgmtPortEnable (tx_mgmt demo_open) = (\<not> txSuspended (tx_port demo_open) \<and> eSmState (tx_mgmt demo_open) \<noteq> SM_STATE_OPEN_DATA)"
  using tx_port_agrees [OF demo_env_ok demo_reach(2)] by simp

theorem tx_queue_types_witness: "mgmt_type QUEUE_TYPE_EAPOL (uPktType (tTxPktParams (tx_blk demo_asked 0)))"
proof -
  have "0 \<in> set (mgmt_queue demo_asked QUEUE_TYPE_EAPOL)" by (simp add: demo_asked_port)
  then show ?thesis using tx_queue_types [OF demo_env_ok demo_reach(1) [of True]] by blast
qed

theorem tx_late_request_stops_witness:
  "sent (fw_report demo_env 1 [0, 0, 0, 3] (serve_mgmt demo_env demo_open)) = sent demo_open"
  using tx_late_request_stops [OF demo_env_ok demo_reach(2) demo_open_sel(1,3,2,4) r_into_rtranclp [of "traffic demo_env", OF traffic.report]]
  by blast

theorem tx_open_loses_request_witness:
  "sent (serve_mgmt demo_env (txMgmtQ_SetConnState demo_env TX_CONN_STATE_OPEN demo_asked)) = sent demo_asked"
proof -
  have ne: "\<not> all_mgmt_empty (tx_mgmt demo_asked)" using demo_asked_port(1) by (simp add: all_mgmt_empty_def)
  then have "mgmt_request (txMgmtQ_SetConnState demo_env TX_CONN_STATE_OPEN demo_asked)"
    by (simp add: SetConnState_event conn_event_def mgmtQueuesSM_unfold sm_next_def on_mgmt_sel demo_asked_sel)
  then show ?thesis
    using tx_open_loses_request [OF demo_env_ok demo_reach(1) demo_asked_sel(1,3) ne demo_asked_sel(4)
        r_into_rtranclp [of "traffic demo_env", OF traffic.serve_mgmt]] by blast
qed

end
