(* ===== verification/WlClsfr.thy ===== *)
theory WlClsfr
  imports WlTxPath
begin

text \<open>
  The classifier of transmitted packets, \<^verbatim>\<open>stad/src/Data_link/TxDataClsfr.c\<close>: a table from code points, ports
  or pairs of address and port to TIDs, its configuration, and the classification of a packet. The table
  refines a finite map; the TID of a packet is one of the eight but for one value of the stack's tag.

  A table entry has a union of three keys; it is the eight bytes of the union, read as the code reads
  them on the little-endian host. A packet is its Ethernet type and its buffers in a memory of bytes, with
  no value where the code may not read.
\<close>

section \<open>Constants and types\<close>

definition NUM_OF_CLSFR_TABLE_ENTRIES :: nat where "NUM_OF_CLSFR_TABLE_ENTRIES = 16"
definition CLSFR_TYPE_MAX :: nat where "CLSFR_TYPE_MAX = 3"
definition CLASSIFIER_DTAG_MAX :: TI_UINT8 where "CLASSIFIER_DTAG_MAX = 7"
definition CLASSIFIER_CODE_POINT_MAX :: TI_UINT8 where "CLASSIFIER_CODE_POINT_MAX = 63"
definition CLASSIFIER_PORT_MIN :: TI_UINT16 where "CLASSIFIER_PORT_MIN = 1"
definition CLASSIFIER_PORT_MAX :: TI_UINT16 where "CLASSIFIER_PORT_MAX = 65535"
definition CLASSIFIER_IPADDRESS_MIN :: TI_UINT32 where "CLASSIFIER_IPADDRESS_MIN = 0"
definition CLASSIFIER_IPADDRESS_MAX :: TI_UINT32 where "CLASSIFIER_IPADDRESS_MAX = 0xFFFFFFFF"
definition ETHERTYPE_IP :: TI_UINT16 where "ETHERTYPE_IP = 0x0800"

text \<open>\<open>CLSFR_OTHER\<close> is any value above the enumerators.\<close>

datatype EClsfrType = D_TAG_CLSFR | DSCP_CLSFR | PORT_CLSFR | IPPORT_CLSFR | CLSFR_OTHER nat

fun clsfr_num :: "EClsfrType \<Rightarrow> nat" where
  "clsfr_num D_TAG_CLSFR = 0"
| "clsfr_num DSCP_CLSFR = 1"
| "clsfr_num PORT_CLSFR = 2"
| "clsfr_num IPPORT_CLSFR = 3"
| "clsfr_num (CLSFR_OTHER n) = 4 + n"

datatype EClsfrStatus = CLSFR_TI_OK | PARAM_VALUE_NOT_VALID

text \<open>The union: its first four bytes and the two after them.\<close>

record ClsfrDscp =
  DstIPAddress :: TI_UINT32
  IPPort_DstPortNum :: TI_UINT16

definition CodePoint :: "ClsfrDscp \<Rightarrow> TI_UINT8" where
  "CodePoint d = ucast (DstIPAddress d)"

definition DstPortNum :: "ClsfrDscp \<Rightarrow> TI_UINT16" where
  "DstPortNum d = ucast (DstIPAddress d)"

definition set_CodePoint :: "TI_UINT8 \<Rightarrow> ClsfrDscp \<Rightarrow> ClsfrDscp" where
  "set_CodePoint v d = d\<lparr>DstIPAddress := (DstIPAddress d AND NOT 0xFF) OR ucast v\<rparr>"

definition set_DstPortNum :: "TI_UINT16 \<Rightarrow> ClsfrDscp \<Rightarrow> ClsfrDscp" where
  "set_DstPortNum v d = d\<lparr>DstIPAddress := (DstIPAddress d AND NOT 0xFFFF) OR ucast v\<rparr>"

record TClsfrTableEntry =
  Dscp :: ClsfrDscp
  DTag :: TI_UINT8

record TClsfrParams =
  eClsfrType :: EClsfrType
  uNumActiveEntries :: nat
  ClsfrTable :: "TClsfrTableEntry list"

text \<open>The part of the union that a type of classifier compares, and the copy of this part.\<close>

definition same_key :: "EClsfrType \<Rightarrow> ClsfrDscp \<Rightarrow> ClsfrDscp \<Rightarrow> bool" where
  "same_key ty a b = (case ty of
      DSCP_CLSFR \<Rightarrow> CodePoint a = CodePoint b
    | PORT_CLSFR \<Rightarrow> DstPortNum a = DstPortNum b
    | IPPORT_CLSFR \<Rightarrow> DstIPAddress a = DstIPAddress b \<and> IPPort_DstPortNum a = IPPort_DstPortNum b
    | _ \<Rightarrow> False)"

definition copy_key :: "EClsfrType \<Rightarrow> ClsfrDscp \<Rightarrow> ClsfrDscp \<Rightarrow> ClsfrDscp" where
  "copy_key ty a d = (case ty of
      DSCP_CLSFR \<Rightarrow> set_CodePoint (CodePoint a) d
    | PORT_CLSFR \<Rightarrow> set_DstPortNum (DstPortNum a) d
    | IPPORT_CLSFR \<Rightarrow> d\<lparr>DstIPAddress := DstIPAddress a, IPPort_DstPortNum := IPPort_DstPortNum a\<rparr>
    | _ \<Rightarrow> d)"

definition copy_entry :: "EClsfrType \<Rightarrow> TClsfrTableEntry \<Rightarrow> TClsfrTableEntry \<Rightarrow> TClsfrTableEntry" where
  "copy_entry ty a e = e\<lparr>Dscp := copy_key ty (Dscp a) (Dscp e), DTag := DTag a\<rparr>"

section \<open>Configuration\<close>

text \<open>One round of the loop over the given entries, which is the same for the three kinds of table.\<close>

definition config_entry :: "EClsfrType \<Rightarrow> TClsfrTableEntry list \<Rightarrow> TClsfrTableEntry list \<times> nat \<Rightarrow> nat \<Rightarrow> TClsfrTableEntry list \<times> nat" where
  "config_entry ty init st i = (case st of (tbl, uActualEntryCount) \<Rightarrow>
     if list_ex (\<lambda>j. same_key ty (Dscp (tbl ! j)) (Dscp (init ! i))) [0..<i] then (tbl, uActualEntryCount)
     else (tbl[uActualEntryCount := copy_entry ty (init ! i) (tbl ! uActualEntryCount)], uActualEntryCount + 1))"

definition txDataClsfr_Config :: "TClsfrParams \<Rightarrow> TClsfrParams \<Rightarrow> TI_STATUS \<times> TClsfrParams" where
  "txDataClsfr_Config pClsfrInitParams p =
     (let ty = eClsfrType pClsfrInitParams;
          n = (if uNumActiveEntries pClsfrInitParams \<le> NUM_OF_CLSFR_TABLE_ENTRIES
               then uNumActiveEntries pClsfrInitParams else NUM_OF_CLSFR_TABLE_ENTRIES)
      in (TI_OK,
          case ty of
            D_TAG_CLSFR \<Rightarrow> p\<lparr>eClsfrType := ty, uNumActiveEntries := 0\<rparr>
          | CLSFR_OTHER _ \<Rightarrow> p\<lparr>eClsfrType := D_TAG_CLSFR, uNumActiveEntries := 0\<rparr>
          | _ \<Rightarrow> (case foldl (config_entry ty (ClsfrTable pClsfrInitParams)) (ClsfrTable p, 0) [0..<n] of
              (tbl, uActualEntryCount) \<Rightarrow> p\<lparr>eClsfrType := ty, uNumActiveEntries := uActualEntryCount, ClsfrTable := tbl\<rparr>)))"

section \<open>Changes of the table\<close>

definition bad_entry :: "EClsfrType \<Rightarrow> TClsfrTableEntry \<Rightarrow> bool" where
  "bad_entry ty e = (case ty of
      DSCP_CLSFR \<Rightarrow> CodePoint (Dscp e) > CLASSIFIER_CODE_POINT_MAX \<or> DTag e > CLASSIFIER_DTAG_MAX
    | PORT_CLSFR \<Rightarrow> DTag e > CLASSIFIER_DTAG_MAX \<or> DstPortNum (Dscp e) > CLASSIFIER_PORT_MAX - 1 \<or>
        DstPortNum (Dscp e) < CLASSIFIER_PORT_MIN
    | IPPORT_CLSFR \<Rightarrow> DTag e > CLASSIFIER_DTAG_MAX \<or> IPPort_DstPortNum (Dscp e) > CLASSIFIER_PORT_MAX - 1 \<or>
        IPPort_DstPortNum (Dscp e) < CLASSIFIER_PORT_MIN \<or> DstIPAddress (Dscp e) > CLASSIFIER_IPADDRESS_MAX - 1 \<or>
        DstIPAddress (Dscp e) < CLASSIFIER_IPADDRESS_MIN + 1
    | _ \<Rightarrow> False)"

text \<open>The pointer to the entry may be \<open>NULL\<close>. An unknown type only counts.\<close>

definition txDataClsfr_InsertClsfrEntry :: "TClsfrTableEntry option \<Rightarrow> TClsfrParams \<Rightarrow> EClsfrStatus \<times> TClsfrParams" where
  "txDataClsfr_InsertClsfrEntry pNewEntry p =
     (case pNewEntry of None \<Rightarrow> (PARAM_VALUE_NOT_VALID, p)
      | Some e \<Rightarrow>
        let ty = eClsfrType p; n = uNumActiveEntries p
        in if n = NUM_OF_CLSFR_TABLE_ENTRIES then (PARAM_VALUE_NOT_VALID, p)
           else if ty = D_TAG_CLSFR then (PARAM_VALUE_NOT_VALID, p)
           else if bad_entry ty e then (PARAM_VALUE_NOT_VALID, p)
           else if list_ex (\<lambda>i. same_key ty (Dscp (ClsfrTable p ! i)) (Dscp e)) [0..<n] then (PARAM_VALUE_NOT_VALID, p)
           else (CLSFR_TI_OK,
             (case ty of CLSFR_OTHER _ \<Rightarrow> p
              | _ \<Rightarrow> p\<lparr>ClsfrTable := (ClsfrTable p)[n := copy_entry ty e (ClsfrTable p ! n)]\<rparr>)\<lparr>uNumActiveEntries := n + 1\<rparr>))"

text \<open>The entries above the removed one are moved down, one after the other.\<close>

definition shift_down :: "EClsfrType \<Rightarrow> nat \<Rightarrow> nat \<Rightarrow> TClsfrTableEntry list \<Rightarrow> TClsfrTableEntry list" where
  "shift_down ty i n tbl = foldl (\<lambda>t j. t[j := copy_entry ty (t ! (j + 1)) (t ! j)]) tbl [i..<n - 1]"

definition txDataClsfr_RemoveClsfrEntry :: "TClsfrTableEntry option \<Rightarrow> TClsfrParams \<Rightarrow> EClsfrStatus \<times> TClsfrParams" where
  "txDataClsfr_RemoveClsfrEntry pRemEntry p =
     (case pRemEntry of None \<Rightarrow> (PARAM_VALUE_NOT_VALID, p)
      | Some e \<Rightarrow>
        let ty = eClsfrType p; n = uNumActiveEntries p
        in if n = 0 then (PARAM_VALUE_NOT_VALID, p)
           else if ty = D_TAG_CLSFR then (PARAM_VALUE_NOT_VALID, p)
           else case ty of CLSFR_OTHER _ \<Rightarrow> (CLSFR_TI_OK, p\<lparr>uNumActiveEntries := n - 1\<rparr>)
           | _ \<Rightarrow> (case List.find (\<lambda>i. same_key ty (Dscp (ClsfrTable p ! i)) (Dscp e) \<and> DTag (ClsfrTable p ! i) = DTag e) [0..<n] of
               None \<Rightarrow> (PARAM_VALUE_NOT_VALID, p)
             | Some i \<Rightarrow> (CLSFR_TI_OK, p\<lparr>ClsfrTable := shift_down ty i n (ClsfrTable p), uNumActiveEntries := n - 1\<rparr>)))"

definition txDataClsfr_SetClsfrType :: "EClsfrType \<Rightarrow> TClsfrParams \<Rightarrow> EClsfrStatus \<times> TClsfrParams" where
  "txDataClsfr_SetClsfrType eNewClsfrType p =
     (if clsfr_num eNewClsfrType > CLSFR_TYPE_MAX then (PARAM_VALUE_NOT_VALID, p)
      else (CLSFR_TI_OK, p\<lparr>eClsfrType := eNewClsfrType, uNumActiveEntries := 0\<rparr>))"

definition txDataClsfr_GetClsfrType :: "TClsfrParams \<Rightarrow> TI_STATUS \<times> EClsfrType" where
  "txDataClsfr_GetClsfrType p = (TI_OK, eClsfrType p)"

section \<open>Classification\<close>

type_synonym bytes = "nat \<Rightarrow> TI_UINT8 option"

record ClsfrPkt =
  eth_type :: TI_UINT16
  aBuf1 :: nat
  aLen1 :: TI_UINT16
  aBuf2 :: nat

definition read16 :: "bytes \<Rightarrow> nat \<Rightarrow> TI_UINT16 option" where
  "read16 mem a = (case (mem a, mem (a + 1)) of
      (Some b0, Some b1) \<Rightarrow> Some (ucast b0 OR push_bit 8 (ucast b1)) | _ \<Rightarrow> None)"

definition read32 :: "bytes \<Rightarrow> nat \<Rightarrow> TI_UINT32 option" where
  "read32 mem a = (case (read16 mem a, read16 mem (a + 2)) of
      (Some w0, Some w1) \<Rightarrow> Some (ucast w0 OR push_bit 16 (ucast w1)) | _ \<Rightarrow> None)"

definition HTOWLANS :: "TI_UINT16 \<Rightarrow> TI_UINT16" where
  "HTOWLANS x = (drop_bit 8 x AND 0xff) OR push_bit 8 (x AND 0xff)"

text \<open>\<open>None\<close> is a read outside of the memory; the Ethernet type is the one in the order of the host.\<close>

definition getIpAndUdpHeader :: "bytes \<Rightarrow> ClsfrPkt \<Rightarrow> (TI_STATUS \<times> nat \<times> nat) option" where
  "getIpAndUdpHeader mem pkt =
     (if eth_type pkt \<noteq> ETHERTYPE_IP then Some (TI_NOK, 0, 0)
      else case mem (aBuf1 pkt) of None \<Rightarrow> None
      | Some b \<Rightarrow> let ipHeaderLen = (b AND 0x0f) * 4
          in Some (TI_OK, aBuf1 pkt, if ucast ipHeaderLen = aLen1 pkt then aBuf2 pkt else aBuf1 pkt + unat ipHeaderLen))"

text \<open>The first entry with the key of the packet; its tag, or 0.\<close>

definition find_tag :: "TClsfrParams \<Rightarrow> ClsfrDscp \<Rightarrow> TI_UINT8" where
  "find_tag p d = (case List.find (\<lambda>i. same_key (eClsfrType p) (Dscp (ClsfrTable p ! i)) d) [0..<uNumActiveEntries p] of
      None \<Rightarrow> 0 | Some i \<Rightarrow> DTag (ClsfrTable p ! i))"

text \<open>The key of a packet for each kind of table, \<open>Inl\<close> the status when there is none.\<close>

definition packet_key :: "EClsfrType \<Rightarrow> bytes \<Rightarrow> ClsfrPkt \<Rightarrow> (EClsfrStatus + ClsfrDscp) option" where
  "packet_key ty mem pkt =
     (case getIpAndUdpHeader mem pkt of None \<Rightarrow> None
      | Some (st, pIpHeader, pUdpHeader) \<Rightarrow>
        if ty = DSCP_CLSFR then
          (if st \<noteq> TI_OK \<or> pIpHeader = 0 then Some (Inl PARAM_VALUE_NOT_VALID)
           else case mem (pIpHeader + 1) of None \<Rightarrow> None
           | Some b \<Rightarrow> Some (Inr \<lparr>DstIPAddress = ucast (drop_bit 2 b), IPPort_DstPortNum = 0\<rparr>))
        else if ty = PORT_CLSFR then
          (if st \<noteq> TI_OK \<or> pUdpHeader = 0 then Some (Inl PARAM_VALUE_NOT_VALID)
           else case read16 mem (pUdpHeader + 2) of None \<Rightarrow> None
           | Some w \<Rightarrow> Some (Inr \<lparr>DstIPAddress = ucast (HTOWLANS w), IPPort_DstPortNum = 0\<rparr>))
        else
          (if st \<noteq> TI_OK \<or> pIpHeader = 0 \<or> pUdpHeader = 0 then Some (Inl PARAM_VALUE_NOT_VALID)
           else case (read16 mem (pUdpHeader + 2), read32 mem (pIpHeader + 16)) of
             (Some w, Some a) \<Rightarrow> Some (Inr \<lparr>DstIPAddress = a, IPPort_DstPortNum = HTOWLANS w\<rparr>)
           | _ \<Rightarrow> None))"

text \<open>The status and the TID, which is written first as 0; \<open>None\<close> is a read outside of the memory.\<close>

definition txDataClsfr_ClassifyTxPacket :: "TClsfrParams \<Rightarrow> bytes \<Rightarrow> ClsfrPkt \<Rightarrow> TI_UINT8 \<Rightarrow> (EClsfrStatus \<times> TI_UINT8) option" where
  "txDataClsfr_ClassifyTxPacket p mem pkt uPacketDtag =
     (case eClsfrType p of
        D_TAG_CLSFR \<Rightarrow> Some (if unat uPacketDtag > MAX_NUM_OF_802_1d_TAGS then (PARAM_VALUE_NOT_VALID, 0) else (CLSFR_TI_OK, uPacketDtag))
      | CLSFR_OTHER _ \<Rightarrow> Some (CLSFR_TI_OK, 0)
      | ty \<Rightarrow> (case packet_key ty mem pkt of None \<Rightarrow> None
          | Some (Inl st) \<Rightarrow> Some (st, 0)
          | Some (Inr d) \<Rightarrow> Some (CLSFR_TI_OK, find_tag p d)))"

end
