(* ===== verification/WlClsfrProps.thy ===== *)
theory WlClsfrProps
  imports WlClsfr WlTxInv
begin

text \<open>
  The table of the classifier as a finite map, what its configuration keeps of the given entries, and
  the range of the TIDs, on which the transmit path relies.
\<close>

section \<open>Keys\<close>

text \<open>The types of classifier that have a table.\<close>

definition table_type :: "EClsfrType \<Rightarrow> bool" where
  "table_type ty \<longleftrightarrow> ty = DSCP_CLSFR \<or> ty = PORT_CLSFR \<or> ty = IPPORT_CLSFR"

definition abs_key :: "EClsfrType \<Rightarrow> ClsfrDscp \<Rightarrow> nat \<times> nat" where
  "abs_key ty d = (case ty of
      DSCP_CLSFR \<Rightarrow> (unat (CodePoint d), 0)
    | PORT_CLSFR \<Rightarrow> (unat (DstPortNum d), 0)
    | IPPORT_CLSFR \<Rightarrow> (unat (DstIPAddress d), unat (IPPort_DstPortNum d))
    | _ \<Rightarrow> (0, 0))"

lemma same_key_abs: "table_type ty \<Longrightarrow> same_key ty a b \<longleftrightarrow> abs_key ty a = abs_key ty b"
  by (auto simp: table_type_def same_key_def abs_key_def word_unat_eq_iff)

lemma byte_masks: "(0xFF :: TI_UINT32) = mask 8" "(0xFFFF :: TI_UINT32) = mask 16"
  by (simp_all add: mask_eq_exp_minus_1)

lemma CodePoint_set [simp]: "CodePoint (set_CodePoint v d) = v"
  by (rule bit_word_eqI) (auto simp: CodePoint_def set_CodePoint_def byte_masks bit_simps)

lemma DstPortNum_set [simp]: "DstPortNum (set_DstPortNum v d) = v"
  by (rule bit_word_eqI) (auto simp: DstPortNum_def set_DstPortNum_def byte_masks bit_simps)

lemma abs_key_copy [simp]: "table_type ty \<Longrightarrow> abs_key ty (copy_key ty a d) = abs_key ty a"
  by (auto simp: table_type_def abs_key_def copy_key_def)

text \<open>The pair that an entry stands for.\<close>

definition entry_pair :: "EClsfrType \<Rightarrow> TClsfrTableEntry \<Rightarrow> (nat \<times> nat) \<times> TI_UINT8" where
  "entry_pair ty e = (abs_key ty (Dscp e), DTag e)"

lemma entry_pair_copy [simp]: "table_type ty \<Longrightarrow> entry_pair ty (copy_entry ty a e) = entry_pair ty a"
  by (simp add: entry_pair_def copy_entry_def)

definition entries :: "EClsfrType \<Rightarrow> nat \<Rightarrow> TClsfrTableEntry list \<Rightarrow> ((nat \<times> nat) \<times> TI_UINT8) list" where
  "entries ty n tbl = map (entry_pair ty) (take n tbl)"

lemma length_entries [simp]: "n \<le> length tbl \<Longrightarrow> length (entries ty n tbl) = n"
  by (simp add: entries_def)

lemma entries_nth: "i < n \<Longrightarrow> n \<le> length tbl \<Longrightarrow> entries ty n tbl ! i = entry_pair ty (tbl ! i)"
  by (simp add: entries_def)

lemma entries_upt: "n \<le> length tbl \<Longrightarrow> entries ty n tbl = map (\<lambda>i. entry_pair ty (tbl ! i)) [0..<n]"
  by (rule nth_equalityI) (simp_all add: entries_nth)

lemma entries_add:
  "table_type ty \<Longrightarrow> n < length tbl \<Longrightarrow> entries ty (Suc n) (tbl[n := copy_entry ty e (tbl ! n)]) = entries ty n tbl @ [entry_pair ty e]"
  by (simp add: entries_def take_Suc_conv_app_nth)

lemma shift_down_entries:
  assumes "table_type ty" "i < n" "n \<le> length tbl"
  shows "length (shift_down ty i n tbl) = length tbl \<and>
    entries ty (n - 1) (shift_down ty i n tbl) = take i (entries ty n tbl) @ drop (Suc i) (entries ty n tbl)"
proof -
  define f where "f = (\<lambda>(t :: TClsfrTableEntry list) j. t[j := copy_entry ty (t ! (j + 1)) (t ! j)])"
  have k: "i \<le> k \<Longrightarrow> k \<le> n - 1 \<Longrightarrow> length (foldl f tbl [i..<k]) = length tbl \<and>
      (\<forall>j<length tbl. entry_pair ty (foldl f tbl [i..<k] ! j) =
         (if i \<le> j \<and> j < k then entry_pair ty (tbl ! Suc j) else entry_pair ty (tbl ! j)) \<and>
         (k \<le> j \<longrightarrow> foldl f tbl [i..<k] ! j = tbl ! j))" for k
  proof (induction k)
    case (Suc k)
    show ?case
    proof (cases "i = Suc k")
      case False
      then show ?thesis using Suc assms by (auto simp: f_def nth_list_update)
    qed (use Suc in auto)
  qed auto
  from k [of "n - 1"] assms(2)
  have l: "length (shift_down ty i n tbl) = length tbl"
    and e: "\<And>j. j < n - 1 \<Longrightarrow> entry_pair ty (shift_down ty i n tbl ! j) = (if i \<le> j then entry_pair ty (tbl ! Suc j) else entry_pair ty (tbl ! j))"
    using assms(3) by (simp_all add: shift_down_def f_def)
  have "entries ty (n - 1) (shift_down ty i n tbl) = take i (entries ty n tbl) @ drop (Suc i) (entries ty n tbl)"
    using assms(2,3) by (intro nth_equalityI) (auto simp: l e entries_nth nth_append min_def)
  then show ?thesis using l by simp
qed

section \<open>The invariant and the map\<close>

definition clsfr_inv :: "TClsfrParams \<Rightarrow> bool" where
  "clsfr_inv p \<longleftrightarrow> length (ClsfrTable p) = NUM_OF_CLSFR_TABLE_ENTRIES \<and> uNumActiveEntries p \<le> NUM_OF_CLSFR_TABLE_ENTRIES \<and>
     clsfr_num (eClsfrType p) \<le> CLSFR_TYPE_MAX \<and> (eClsfrType p = D_TAG_CLSFR \<longrightarrow> uNumActiveEntries p = 0) \<and>
     distinct (map fst (entries (eClsfrType p) (uNumActiveEntries p) (ClsfrTable p))) \<and>
     (\<forall>x\<in>set (entries (eClsfrType p) (uNumActiveEntries p) (ClsfrTable p)). snd x \<le> CLASSIFIER_DTAG_MAX)"

definition clsfr_map :: "TClsfrParams \<Rightarrow> nat \<times> nat \<rightharpoonup> TI_UINT8" where
  "clsfr_map p = map_of (entries (eClsfrType p) (uNumActiveEntries p) (ClsfrTable p))"

lemma find_map: "List.find P (map f xs) = map_option f (List.find (P \<circ> f) xs)"
  by (induction xs) simp_all

lemma find_first_index:
  assumes "\<And>i. i < n \<Longrightarrow> P i \<longleftrightarrow> fst (xs ! i) = k" "n = length xs"
  shows "(case List.find P [0..<n] of None \<Rightarrow> None | Some i \<Rightarrow> Some (snd (xs ! i))) = map_of xs k"
  using assms
proof (induction xs arbitrary: P n)
  case (Cons x xs)
  have u: "List.find P [0..<n] = (if P 0 then Some 0 else map_option Suc (List.find (\<lambda>i. P (Suc i)) [0..<length xs]))"
    using Cons.prems(2) by (simp add: upt_conv_Cons find_map comp_def del: upt_Suc flip: map_Suc_upt)
  have "(case List.find (\<lambda>i. P (Suc i)) [0..<length xs] of None \<Rightarrow> None | Some i \<Rightarrow> Some (snd (xs ! i))) = map_of xs k"
    using Cons.prems by (intro Cons.IH) auto
  then have "(case List.find P [0..<n] of None \<Rightarrow> None | Some i \<Rightarrow> Some (snd ((x # xs) ! i))) = (if P 0 then Some (snd x) else map_of xs k)"
    unfolding u by (auto split: option.splits)
  then show ?case using Cons.prems(1) [of 0] Cons.prems(2) by (cases x) simp
qed simp

lemma clsfr_table_type: "clsfr_inv p \<Longrightarrow> eClsfrType p \<noteq> D_TAG_CLSFR \<Longrightarrow> table_type (eClsfrType p)"
proof -
  assume "clsfr_inv p" "eClsfrType p \<noteq> D_TAG_CLSFR"
  then have "clsfr_num (eClsfrType p) \<le> 3" unfolding clsfr_inv_def CLSFR_TYPE_MAX_def by blast
  then show "table_type (eClsfrType p)" using \<open>eClsfrType p \<noteq> D_TAG_CLSFR\<close> by (cases "eClsfrType p") (simp_all add: table_type_def)
qed

text \<open>The conflict test of an insertion, the search of a removal and the one of a classification.\<close>

lemma conflict_map:
  assumes "table_type ty" "n \<le> length tbl"
  shows "list_ex (\<lambda>i. same_key ty (Dscp (tbl ! i)) d) [0..<n] \<longleftrightarrow> abs_key ty d \<in> fst ` set (entries ty n tbl)"
proof -
  have "fst ` set (entries ty n tbl) = (\<lambda>i. abs_key ty (Dscp (tbl ! i))) ` {0..<n}"
    by (simp add: entries_upt [OF assms(2)] entry_pair_def image_image)
  then show ?thesis by (auto simp: list_ex_iff same_key_abs [OF assms(1)] intro: image_eqI [OF sym])
qed

lemma find_tag_map:
  assumes "table_type (eClsfrType p)" "uNumActiveEntries p \<le> length (ClsfrTable p)"
  shows "find_tag p d = (case clsfr_map p (abs_key (eClsfrType p) d) of None \<Rightarrow> 0 | Some t \<Rightarrow> t)"
proof -
  let ?n = "uNumActiveEntries p" and ?es = "entries (eClsfrType p) (uNumActiveEntries p) (ClsfrTable p)"
  have e: "i < ?n \<Longrightarrow> ?es ! i = (abs_key (eClsfrType p) (Dscp (ClsfrTable p ! i)), DTag (ClsfrTable p ! i))" for i
    using assms(2) by (simp add: entries_nth entry_pair_def)
  have "(case List.find (\<lambda>i. same_key (eClsfrType p) (Dscp (ClsfrTable p ! i)) d) [0..<?n] of None \<Rightarrow> None | Some i \<Rightarrow> Some (snd (?es ! i)))
      = clsfr_map p (abs_key (eClsfrType p) d)"
    unfolding clsfr_map_def using assms by (intro find_first_index) (simp_all add: e same_key_abs)
  moreover have "List.find (\<lambda>i. same_key (eClsfrType p) (Dscp (ClsfrTable p ! i)) d) [0..<?n] = Some i \<Longrightarrow> i < ?n" for i
    by (auto simp: find_Some_iff)
  ultimately show ?thesis by (auto simp: find_tag_def e split: option.splits)
qed

section \<open>The abstract table\<close>

text \<open>
  A classifier for its user: a type and a finite map from keys to tags, at most 16 of them, with
  insertions that never replace and removals that name the tag as well.
\<close>

datatype clsfr_op = Insert_entry "TClsfrTableEntry option" | Remove_entry "TClsfrTableEntry option" | Set_type EClsfrType

type_synonym clsfr_spec = "EClsfrType \<times> (nat \<times> nat \<rightharpoonup> TI_UINT8)"

fun spec_step :: "clsfr_op \<Rightarrow> clsfr_spec \<Rightarrow> EClsfrStatus \<times> clsfr_spec" where
  "spec_step (Insert_entry pe) (ty, m) = (case pe of None \<Rightarrow> (PARAM_VALUE_NOT_VALID, ty, m)
     | Some e \<Rightarrow> if card (dom m) = NUM_OF_CLSFR_TABLE_ENTRIES \<or> ty = D_TAG_CLSFR \<or> bad_entry ty e \<or> abs_key ty (Dscp e) \<in> dom m
         then (PARAM_VALUE_NOT_VALID, ty, m) else (CLSFR_TI_OK, ty, m(abs_key ty (Dscp e) \<mapsto> DTag e)))"
| "spec_step (Remove_entry pe) (ty, m) = (case pe of None \<Rightarrow> (PARAM_VALUE_NOT_VALID, ty, m)
     | Some e \<Rightarrow> if m (abs_key ty (Dscp e)) = Some (DTag e)
         then (CLSFR_TI_OK, ty, m(abs_key ty (Dscp e) := None)) else (PARAM_VALUE_NOT_VALID, ty, m))"
| "spec_step (Set_type ty') (ty, m) = (if clsfr_num ty' > CLSFR_TYPE_MAX then (PARAM_VALUE_NOT_VALID, ty, m)
     else (CLSFR_TI_OK, ty', Map.empty))"

fun code_step :: "clsfr_op \<Rightarrow> TClsfrParams \<Rightarrow> EClsfrStatus \<times> TClsfrParams" where
  "code_step (Insert_entry e) p = txDataClsfr_InsertClsfrEntry e p"
| "code_step (Remove_entry e) p = txDataClsfr_RemoveClsfrEntry e p"
| "code_step (Set_type ty) p = txDataClsfr_SetClsfrType ty p"

text \<open>The statuses of a sequence of calls and the state after it.\<close>

fun run_ops :: "('op \<Rightarrow> 's \<Rightarrow> EClsfrStatus \<times> 's) \<Rightarrow> 'op list \<Rightarrow> 's \<Rightarrow> EClsfrStatus list \<times> 's" where
  "run_ops f [] s = ([], s)"
| "run_ops f (op # ops) s = (case f op s of (st, s1) \<Rightarrow> case run_ops f ops s1 of (sts, s2) \<Rightarrow> (st # sts, s2))"

definition clsfr_abs :: "TClsfrParams \<Rightarrow> clsfr_spec" where
  "clsfr_abs p = (eClsfrType p, clsfr_map p)"

lemma card_dom_map:
  "clsfr_inv p \<Longrightarrow> card (dom (clsfr_map p)) = uNumActiveEntries p"
  by (simp add: clsfr_inv_def clsfr_map_def dom_map_of_conv_image_fst)
    (metis distinct_card length_entries length_map set_map)

lemma insert_refines:
  assumes "clsfr_inv p" "txDataClsfr_InsertClsfrEntry pe p = (st, p')"
  shows "clsfr_inv p'" "spec_step (Insert_entry pe) (clsfr_abs p) = (st, clsfr_abs p')"
proof -
  let ?ty = "eClsfrType p" and ?n = "uNumActiveEntries p"
  note i = assms(1) [unfolded clsfr_inv_def]
  have dom: "dom (clsfr_map p) = fst ` set (entries ?ty ?n (ClsfrTable p))"
    by (simp add: clsfr_map_def dom_map_of_conv_image_fst)
  have "clsfr_inv p' \<and> spec_step (Insert_entry pe) (clsfr_abs p) = (st, clsfr_abs p')"
  proof (cases pe)
    case (Some e)
    show ?thesis
    proof (cases "?n = NUM_OF_CLSFR_TABLE_ENTRIES \<or> ?ty = D_TAG_CLSFR \<or> bad_entry ?ty e \<or> abs_key ?ty (Dscp e) \<in> dom (clsfr_map p)")
      case True
      then have "st = PARAM_VALUE_NOT_VALID \<and> p' = p"
        using assms(2) i conflict_map [OF clsfr_table_type [OF assms(1)]]
        by (auto simp: txDataClsfr_InsertClsfrEntry_def Some Let_def dom split: if_splits)
      then show ?thesis using True assms(1) by (simp add: Some clsfr_abs_def card_dom_map)
    next
      case False
      then have n: "?n < NUM_OF_CLSFR_TABLE_ENTRIES" "table_type ?ty" using i clsfr_table_type [OF assms(1)] by auto
      have r: "st = CLSFR_TI_OK" "p' = p\<lparr>ClsfrTable := (ClsfrTable p)[?n := copy_entry ?ty e (ClsfrTable p ! ?n)], uNumActiveEntries := ?n + 1\<rparr>"
        using assms(2) False i conflict_map [OF n(2), of ?n "ClsfrTable p" "Dscp e"] n(2)
        by (auto simp: txDataClsfr_InsertClsfrEntry_def Some Let_def dom table_type_def split: if_splits EClsfrType.splits)
      have es: "entries ?ty (Suc ?n) (ClsfrTable p') = entries ?ty ?n (ClsfrTable p) @ [entry_pair ?ty e]"
        unfolding r using n i by (simp add: entries_add)
      have tag: "DTag e \<le> CLASSIFIER_DTAG_MAX" using False n(2) by (auto simp: bad_entry_def table_type_def)
      have "clsfr_inv p'" using i n False es tag by (auto simp: clsfr_inv_def r(2) entry_pair_def dom)
      moreover have "clsfr_map p' = (clsfr_map p)(abs_key ?ty (Dscp e) \<mapsto> DTag e)"
        using es False by (auto simp: clsfr_map_def r(2) entry_pair_def map_add_def dom_def fun_eq_iff split: option.splits)
      ultimately show ?thesis using False by (simp add: Some clsfr_abs_def card_dom_map assms(1) r)
    qed
  qed (use assms in \<open>simp add: txDataClsfr_InsertClsfrEntry_def clsfr_abs_def\<close>)
  then show "clsfr_inv p'" "spec_step (Insert_entry pe) (clsfr_abs p) = (st, clsfr_abs p')" by simp_all
qed


lemma find_pair:
  assumes "table_type ty" "n \<le> length tbl" "distinct (map fst (entries ty n tbl))"
  shows "(case List.find (\<lambda>i. same_key ty (Dscp (tbl ! i)) d \<and> DTag (tbl ! i) = t) [0..<n] of
      None \<Rightarrow> map_of (entries ty n tbl) (abs_key ty d) \<noteq> Some t
    | Some i \<Rightarrow> i < n \<and> entries ty n tbl ! i = (abs_key ty d, t) \<and> map_of (entries ty n tbl) (abs_key ty d) = Some t)"
proof -
  have e: "i < n \<Longrightarrow> entries ty n tbl ! i = (abs_key ty d, t) \<longleftrightarrow> same_key ty (Dscp (tbl ! i)) d \<and> DTag (tbl ! i) = t" for i
    by (simp add: entries_nth [OF _ assms(2)] entry_pair_def same_key_abs [OF assms(1)])
  show ?thesis
  proof (cases "List.find (\<lambda>i. same_key ty (Dscp (tbl ! i)) d \<and> DTag (tbl ! i) = t) [0..<n]")
    case None
    then have "(abs_key ty d, t) \<notin> set (entries ty n tbl)"
      using e assms(2) by (auto simp: find_None_iff in_set_conv_nth)
    then show ?thesis using None by (auto dest: map_of_SomeD)
  next
    case (Some i)
    then have i: "i < n" "entries ty n tbl ! i = (abs_key ty d, t)" using e by (auto simp: find_Some_iff)
    then have "(abs_key ty d, t) \<in> set (entries ty n tbl)" using assms(2) by (metis length_entries nth_mem)
    then show ?thesis using Some i assms(3) by simp
  qed
qed

lemma map_of_without:
  assumes "distinct (map fst xs)" "i < length xs"
  shows "map_of (take i xs @ drop (Suc i) xs) = (map_of xs)(fst (xs ! i) := None)"
proof -
  have x: "xs = take i xs @ (fst (xs ! i), snd (xs ! i)) # drop (Suc i) xs" using assms(2) by (simp add: id_take_nth_drop)
  have "distinct (map fst (take i xs @ (fst (xs ! i), snd (xs ! i)) # drop (Suc i) xs))" using assms(1) x by simp
  then have n: "map_of (take i xs) (fst (xs ! i)) = None" "map_of (drop (Suc i) xs) (fst (xs ! i)) = None"
    by (auto simp: map_of_eq_None_iff)
  have "map_of xs = map_of (take i xs @ (fst (xs ! i), snd (xs ! i)) # drop (Suc i) xs)" using x by simp
  then show ?thesis using n by (auto simp: fun_eq_iff map_add_def split: option.splits)
qed

lemma distinct_without: "distinct xs \<Longrightarrow> distinct (take i xs @ drop (Suc i) xs)"
  by (simp add: set_take_disj_set_drop_if_distinct)

lemma remove_refines:
  assumes "clsfr_inv p" "txDataClsfr_RemoveClsfrEntry pe p = (st, p')"
  shows "clsfr_inv p'" "spec_step (Remove_entry pe) (clsfr_abs p) = (st, clsfr_abs p')"
proof -
  let ?ty = "eClsfrType p" and ?n = "uNumActiveEntries p"
  let ?es = "entries ?ty ?n (ClsfrTable p)"
  note i = assms(1) [unfolded clsfr_inv_def]
  have "clsfr_inv p' \<and> spec_step (Remove_entry pe) (clsfr_abs p) = (st, clsfr_abs p')"
  proof (cases "pe = None \<or> ?n = 0")
    case True
    have "?n = 0 \<Longrightarrow> clsfr_map p = Map.empty" by (simp add: clsfr_map_def entries_def)
    then show ?thesis
      using True assms by (auto simp: txDataClsfr_RemoveClsfrEntry_def clsfr_abs_def Let_def split: option.splits)
  next
    case False
    then obtain e where pe: "pe = Some e" by auto
    have ty: "table_type ?ty" using False i clsfr_table_type [OF assms(1)] by auto
    have r: "(st, p') = (case List.find (\<lambda>i. same_key ?ty (Dscp (ClsfrTable p ! i)) (Dscp e) \<and> DTag (ClsfrTable p ! i) = DTag e) [0..<?n] of
          None \<Rightarrow> (PARAM_VALUE_NOT_VALID, p)
        | Some i \<Rightarrow> (CLSFR_TI_OK, p\<lparr>ClsfrTable := shift_down ?ty i ?n (ClsfrTable p), uNumActiveEntries := ?n - 1\<rparr>))"
      using assms(2) False ty by (auto simp: txDataClsfr_RemoveClsfrEntry_def pe Let_def table_type_def)
    have n: "?n \<le> length (ClsfrTable p)" using i by simp
    note f = find_pair [OF ty n, of "Dscp e" "DTag e"]
    show ?thesis
    proof (cases "List.find (\<lambda>i. same_key ?ty (Dscp (ClsfrTable p ! i)) (Dscp e) \<and> DTag (ClsfrTable p ! i) = DTag e) [0..<?n]")
      case None
      then show ?thesis using f r i assms(1) by (simp add: pe clsfr_abs_def clsfr_map_def)
    next
      case (Some k)
      then have k: "k < ?n" "?es ! k = (abs_key ?ty (Dscp e), DTag e)" "clsfr_map p (abs_key ?ty (Dscp e)) = Some (DTag e)"
        using f i by (simp_all add: clsfr_map_def)
      have es: "length (ClsfrTable p') = length (ClsfrTable p)" "eClsfrType p' = ?ty" "uNumActiveEntries p' = ?n - 1"
        "entries ?ty (?n - 1) (ClsfrTable p') = take k ?es @ drop (Suc k) ?es"
        using r Some shift_down_entries [OF ty k(1) n] by simp_all
      have "distinct (map fst (take k ?es @ drop (Suc k) ?es))"
        using distinct_without [of "map fst ?es" k] i by (simp add: take_map drop_map)
      moreover have "\<forall>x\<in>set (take k ?es @ drop (Suc k) ?es). snd x \<le> CLASSIFIER_DTAG_MAX"
        using i by (auto dest: in_set_takeD in_set_dropD)
      ultimately have "clsfr_inv p'" using i ty unfolding clsfr_inv_def es by (auto simp: table_type_def)
      moreover have "clsfr_map p' = (clsfr_map p)(abs_key ?ty (Dscp e) := None)"
        unfolding clsfr_map_def es using map_of_without [of ?es k] i k(1,2) n by simp
      ultimately show ?thesis using r Some k(3) by (simp add: pe clsfr_abs_def es)
    qed
  qed
  then show "clsfr_inv p'" "spec_step (Remove_entry pe) (clsfr_abs p) = (st, clsfr_abs p')" by simp_all
qed

lemma set_type_refines:
  assumes "clsfr_inv p" "txDataClsfr_SetClsfrType ty p = (st, p')"
  shows "clsfr_inv p'" "spec_step (Set_type ty) (clsfr_abs p) = (st, clsfr_abs p')"
proof -
  have "clsfr_inv p' \<and> spec_step (Set_type ty) (clsfr_abs p) = (st, clsfr_abs p')"
  proof (cases "clsfr_num ty > CLSFR_TYPE_MAX")
    case True
    then show ?thesis using assms by (simp add: txDataClsfr_SetClsfrType_def clsfr_abs_def)
  next
    case False
    then have "st = CLSFR_TI_OK" "p' = p\<lparr>eClsfrType := ty, uNumActiveEntries := 0\<rparr>"
      using assms(2) by (simp_all add: txDataClsfr_SetClsfrType_def)
    then show ?thesis using False assms(1) by (simp add: clsfr_inv_def clsfr_abs_def clsfr_map_def entries_def)
  qed
  then show "clsfr_inv p'" "spec_step (Set_type ty) (clsfr_abs p) = (st, clsfr_abs p')" by simp_all
qed

lemma code_step_refines:
  assumes "clsfr_inv p" "code_step op p = (st, p')"
  shows "clsfr_inv p' \<and> spec_step op (clsfr_abs p) = (st, clsfr_abs p')"
proof (cases op)
  case (Insert_entry e)
  then show ?thesis using insert_refines [OF assms(1), of e st p'] assms(2) by simp
next
  case (Remove_entry e)
  then show ?thesis using remove_refines [OF assms(1), of e st p'] assms(2) by simp
next
  case (Set_type ty)
  then show ?thesis using set_type_refines [OF assms(1), of ty st p'] assms(2) by simp
qed

lemma run_ops_refines:
  assumes "clsfr_inv p"
  shows "clsfr_inv (snd (run_ops code_step ops p)) \<and>
    run_ops spec_step ops (clsfr_abs p) = (fst (run_ops code_step ops p), clsfr_abs (snd (run_ops code_step ops p)))"
  using assms
proof (induction ops arbitrary: p)
  case (Cons op ops)
  obtain st p' where s: "code_step op p = (st, p')" by fastforce
  note r = code_step_refines [OF Cons.prems s]
  then show ?case using Cons.IH [of p'] by (simp add: s split_beta)
qed simp

section \<open>The configuration\<close>

lemma config_fold:
  assumes "table_type ty" "length tbl = NUM_OF_CLSFR_TABLE_ENTRIES" "k \<le> NUM_OF_CLSFR_TABLE_ENTRIES" "k \<le> length init"
    "foldl (config_entry ty init) (tbl, 0) [0..<k] = (tbl', c)"
  shows "length tbl' = NUM_OF_CLSFR_TABLE_ENTRIES \<and> c \<le> k \<and> distinct (map fst (entries ty c tbl')) \<and>
    set (entries ty c tbl') \<subseteq> set (entries ty k init) \<and>
    (distinct (map fst (entries ty k init)) \<longrightarrow> c = k \<and> entries ty k tbl' = entries ty k init)"
  using assms(3-5)
proof (induction k arbitrary: tbl' c)
  case 0
  then show ?case using assms(2) by (simp add: entries_def)
next
  case (Suc k)
  obtain t n where f: "foldl (config_entry ty init) (tbl, 0) [0..<k] = (t, n)" by fastforce
  have ih: "length t = NUM_OF_CLSFR_TABLE_ENTRIES" "n \<le> k" "distinct (map fst (entries ty n t))" "set (entries ty n t) \<subseteq> set (entries ty k init)"
    "distinct (map fst (entries ty k init)) \<longrightarrow> n = k \<and> entries ty k t = entries ty k init"
    using Suc.IH [OF _ _ f] Suc.prems by simp_all
  have step: "(tbl', c) = config_entry ty init (t, n) k" using Suc.prems(3) f by simp
  have kt: "k \<le> length t" using ih Suc.prems by simp
  have ini: "entries ty (Suc k) init = entries ty k init @ [entry_pair ty (init ! k)]"
    using Suc.prems by (simp add: entries_def take_Suc_conv_app_nth)
  have sub: "set (entries ty n t) \<subseteq> set (entries ty k t)"
    using ih(2) by (auto simp: entries_def dest: set_take_subset_set_take [THEN subsetD])
  note cf = conflict_map [OF assms(1) kt, of "Dscp (init ! k)"]
  show ?case
  proof (cases "list_ex (\<lambda>j. same_key ty (Dscp (t ! j)) (Dscp (init ! k))) [0..<k]")
    case True
    then have "(tbl', c) = (t, n)" using step by (simp add: config_entry_def)
    moreover have "\<not> distinct (map fst (entries ty (Suc k) init))"
    proof
      assume d: "distinct (map fst (entries ty (Suc k) init))"
      then have "entries ty k t = entries ty k init" using ih(5) by (simp add: ini)
      then show False using True d cf by (simp add: ini entry_pair_def)
    qed
    ultimately show ?thesis using ih by (simp add: ini) blast
  next
    case False
    then have r: "tbl' = t[n := copy_entry ty (init ! k) (t ! n)]" "c = Suc n" using step by (simp_all add: config_entry_def)
    have n: "n < length t" using ih Suc.prems by simp
    have es: "entries ty c tbl' = entries ty n t @ [entry_pair ty (init ! k)]"
      unfolding r by (rule entries_add [OF assms(1) n])
    have new: "abs_key ty (Dscp (init ! k)) \<notin> fst ` set (entries ty n t)" using False cf sub by blast
    have "distinct (map fst (entries ty (Suc k) init)) \<Longrightarrow> c = Suc k \<and> entries ty (Suc k) tbl' = entries ty (Suc k) init"
      using ih(5) es r(2) by (simp add: ini)
    then show ?thesis using ih new es r by (auto simp: ini entry_pair_def)
  qed
qed

section \<open>Properties\<close>

text \<open>What a packet is given by the map.\<close>

lemma classify_map:
  assumes "clsfr_inv p" "table_type (eClsfrType p)" "packet_key (eClsfrType p) mem pkt = Some (Inr d)"
  shows "txDataClsfr_ClassifyTxPacket p mem pkt uPacketDtag =
    Some (CLSFR_TI_OK, case clsfr_map p (abs_key (eClsfrType p) d) of None \<Rightarrow> 0 | Some t \<Rightarrow> t)"
proof -
  have "find_tag p d = (case clsfr_map p (abs_key (eClsfrType p) d) of None \<Rightarrow> 0 | Some t \<Rightarrow> t)"
    using assms(1) by (intro find_tag_map [OF assms(2)]) (simp add: clsfr_inv_def)
  then show ?thesis using assms(2,3) by (auto simp: txDataClsfr_ClassifyTxPacket_def table_type_def)
qed

text \<open>
  C21. The table is a finite map: over any sequence of insertions, removals and changes of the type the
  statuses and the table are those of a map from keys to tags with room for 16, where a key is inserted
  once and removed with its tag; and a packet with a key is given the tag that the map has for it, or 0.
\<close>

theorem clsfr_refines_map:
  assumes "clsfr_inv p" "run_ops code_step ops p = (sts, p')"
  shows "run_ops spec_step ops (clsfr_abs p) = (sts, clsfr_abs p') \<and> clsfr_inv p' \<and>
    (\<forall>mem pkt d uPacketDtag. table_type (eClsfrType p') \<longrightarrow> packet_key (eClsfrType p') mem pkt = Some (Inr d) \<longrightarrow>
       txDataClsfr_ClassifyTxPacket p' mem pkt uPacketDtag =
         Some (CLSFR_TI_OK, case clsfr_map p' (abs_key (eClsfrType p') d) of None \<Rightarrow> 0 | Some t \<Rightarrow> t))"
  using run_ops_refines [OF assms(1), of ops] assms(2) by (simp add: classify_map)

text \<open>
  The configuration establishes the invariant of the table, keeps only entries that were given, and
  keeps them all, in order, when no two of them have the same key.
\<close>

theorem clsfr_config:
  assumes "table_type (eClsfrType ini)" "uNumActiveEntries ini \<le> length (ClsfrTable ini)"
    "uNumActiveEntries ini \<le> NUM_OF_CLSFR_TABLE_ENTRIES" "length (ClsfrTable p) = NUM_OF_CLSFR_TABLE_ENTRIES"
    "\<forall>e\<in>set (take (uNumActiveEntries ini) (ClsfrTable ini)). DTag e \<le> CLASSIFIER_DTAG_MAX" "txDataClsfr_Config ini p = (st, p')"
  shows "st = TI_OK \<and> clsfr_inv p' \<and> eClsfrType p' = eClsfrType ini \<and>
    (let given = entries (eClsfrType ini) (uNumActiveEntries ini) (ClsfrTable ini);
         kept = entries (eClsfrType p') (uNumActiveEntries p') (ClsfrTable p')
     in set kept \<subseteq> set given \<and> (distinct (map fst given) \<longrightarrow> kept = given))"
proof -
  let ?ty = "eClsfrType ini" and ?n = "uNumActiveEntries ini"
  obtain tbl c where f: "foldl (config_entry ?ty (ClsfrTable ini)) (ClsfrTable p, 0) [0..<?n] = (tbl, c)" by fastforce
  have r: "st = TI_OK" "p' = p\<lparr>eClsfrType := ?ty, uNumActiveEntries := c, ClsfrTable := tbl\<rparr>"
    using assms(1,3,6) f by (auto simp: txDataClsfr_Config_def table_type_def)
  note k = config_fold [OF assms(1,4,3,2) f]
  have "\<forall>x\<in>set (entries ?ty ?n (ClsfrTable ini)). snd x \<le> CLASSIFIER_DTAG_MAX"
    using assms(5) by (simp add: entries_def entry_pair_def)
  then have t: "\<forall>x\<in>set (entries ?ty c tbl). snd x \<le> CLASSIFIER_DTAG_MAX" using k by blast
  have "c \<le> NUM_OF_CLSFR_TABLE_ENTRIES" using k assms(3) by simp
  then have "clsfr_inv p'" using k t assms(1) by (auto simp: clsfr_inv_def r(2) table_type_def CLSFR_TYPE_MAX_def)
  then show ?thesis using k by (auto simp: r Let_def)
qed

text \<open>Tables for runs of the model.\<close>

definition dscp_entry :: "TI_UINT8 \<Rightarrow> TI_UINT8 \<Rightarrow> TClsfrTableEntry" where
  "dscp_entry c t = \<lparr>Dscp = \<lparr>DstIPAddress = ucast c, IPPort_DstPortNum = 0\<rparr>, DTag = t\<rparr>"

definition zero_clsfr :: TClsfrParams where
  "zero_clsfr = \<lparr>eClsfrType = D_TAG_CLSFR, uNumActiveEntries = 0, ClsfrTable = replicate 16 (dscp_entry 0 0)\<rparr>"

definition dscp_config :: "(TI_UINT8 \<times> TI_UINT8) list \<Rightarrow> TClsfrParams" where
  "dscp_config xs = \<lparr>eClsfrType = DSCP_CLSFR, uNumActiveEntries = length xs, ClsfrTable = map (\<lambda>(c, t). dscp_entry c t) xs\<rparr>"

text \<open>
  A repeated key loses another entry: the test for conflicts reads entries of the table that were
  not written, so in the zeroed table of a new module the configuration 5, 5, 0 keeps neither the second
  entry, as it means to, nor the third, whose code point is no one's.
\<close>

theorem clsfr_config_drops:
  "(let p = snd (txDataClsfr_Config (dscp_config [(5, 1), (5, 2), (0, 3)]) zero_clsfr)
    in entries DSCP_CLSFR (uNumActiveEntries p) (ClsfrTable p)) = [((5, 0), 1)]"
  by code_simp

lemma tid_in_table:
  assumes "clsfr_inv p" "txDataClsfr_ClassifyTxPacket p mem pkt uPacketDtag = Some (st, tid)"
  shows "unat tid < length aTidToQueueTable \<longleftrightarrow> \<not> (eClsfrType p = D_TAG_CLSFR \<and> uPacketDtag = 8)"
proof (cases "eClsfrType p = D_TAG_CLSFR")
  case True
  have "unat uPacketDtag = 8 \<longleftrightarrow> uPacketDtag = 8" by (simp add: word_unat_eq_iff)
  then show ?thesis using True assms(2) by (auto simp: txDataClsfr_ClassifyTxPacket_def aTidToQueueTable_def MAX_NUM_OF_802_1d_TAGS_def split: if_splits)
next
  case False
  note ty = clsfr_table_type [OF assms(1) False]
  have "tid \<le> CLASSIFIER_DTAG_MAX"
  proof (cases "packet_key (eClsfrType p) mem pkt")
    case None
    then show ?thesis using assms(2) ty by (auto simp: txDataClsfr_ClassifyTxPacket_def table_type_def)
  next
    case (Some k)
    show ?thesis
    proof (cases k)
      case (Inl st')
      then show ?thesis using assms(2) ty Some by (auto simp: txDataClsfr_ClassifyTxPacket_def table_type_def)
    next
      case (Inr d)
      then have "tid = (case clsfr_map p (abs_key (eClsfrType p) d) of None \<Rightarrow> 0 | Some t \<Rightarrow> t)"
        using classify_map [OF assms(1) ty, of mem pkt d uPacketDtag] assms(2) Some by simp
      moreover have "clsfr_map p k = Some t \<Longrightarrow> t \<le> CLASSIFIER_DTAG_MAX" for k t
        using assms(1) by (auto simp: clsfr_map_def clsfr_inv_def dest!: map_of_SomeD)
      ultimately show ?thesis by (auto split: option.splits)
    qed
  qed
  then have "unat tid < 8" by (simp add: CLASSIFIER_DTAG_MAX_def word_le_nat_alt)
  then show ?thesis using False by (simp add: aTidToQueueTable_def)
qed

text \<open>
  C38. The TID of a classified packet is one of the eight, which the table from TIDs to queues has an
  entry for, in every case but one: the classifier by tag takes the tag 8, which is beyond the table.
\<close>

theorem clsfr_tid_range:
  assumes "clsfr_inv p" "txDataClsfr_ClassifyTxPacket p mem pkt uPacketDtag = Some (st, tid)"
  shows "unat tid < length aTidToQueueTable \<longleftrightarrow> \<not> (eClsfrType p = D_TAG_CLSFR \<and> uPacketDtag = 8)"
  by (rule tid_in_table [OF assms])

text \<open>
  The transmit path with this classifier: when packets can be read and the table is not the one by tag,
  what the path asks of its classifier (\<open>env_ok\<close>) holds.
\<close>

lemma clsfr_env_ok:
  assumes "clsfr_inv p" "eClsfrType p \<noteq> D_TAG_CLSFR"
    and b: "\<And>ac bp b. td_tid (tTxDescriptor (build_data e ac bp b)) = td_tid (tTxDescriptor b) \<and>
       uPktType (tTxPktParams (build_data e ac bp b)) = uPktType (tTxPktParams b)"
      "\<And>ac b. td_tid (tTxDescriptor (build_mgmt e ac b)) = td_tid (tTxDescriptor b) \<and>
       uPktType (tTxPktParams (build_mgmt e ac b)) = uPktType (tTxPktParams b)"
    and c: "\<And>q d. \<exists>st. txDataClsfr_ClassifyTxPacket p mem (pkt q) d = Some (st, snd (classify e q d))"
  shows "env_ok e"
proof -
  have "unat (snd (classify e q d)) < MAX_NUM_OF_802_1d_TAGS" for q d
  proof -
    obtain st where "txDataClsfr_ClassifyTxPacket p mem (pkt q) d = Some (st, snd (classify e q d))" using c by blast
    moreover have "length aTidToQueueTable = MAX_NUM_OF_802_1d_TAGS" by (simp add: aTidToQueueTable_def MAX_NUM_OF_802_1d_TAGS_def)
    ultimately show ?thesis using tid_in_table [OF assms(1)] assms(2) by metis
  qed
  then show ?thesis using b unfolding env_ok_def by blast
qed

section \<open>Witnesses\<close>

definition demo_clsfr :: TClsfrParams where
  "demo_clsfr = snd (txDataClsfr_Config (dscp_config [(8, 1), (40, 5)]) zero_clsfr)"

definition demo_mem :: bytes where
  "demo_mem a = (if a = 100 then Some 0x45 else if a = 101 then Some 0xA0 else None)"

definition demo_pkt :: ClsfrPkt where
  "demo_pkt = \<lparr>eth_type = 0x0800, aBuf1 = 100, aLen1 = 40, aBuf2 = 0\<rparr>"

lemma demo_clsfr_inv: "clsfr_inv demo_clsfr"
  by code_simp

theorem clsfr_refines_map_witness:
  "fst (run_ops spec_step [Insert_entry (Some (dscp_entry 56 6)), Remove_entry (Some (dscp_entry 8 1)), Remove_entry None]
     (clsfr_abs demo_clsfr)) = [CLSFR_TI_OK, CLSFR_TI_OK, PARAM_VALUE_NOT_VALID]"
proof -
  let ?ops = "[Insert_entry (Some (dscp_entry 56 6)), Remove_entry (Some (dscp_entry 8 1)), Remove_entry None]"
  have "fst (run_ops code_step ?ops demo_clsfr) = [CLSFR_TI_OK, CLSFR_TI_OK, PARAM_VALUE_NOT_VALID]" by code_simp
  then show ?thesis using clsfr_refines_map [OF demo_clsfr_inv surjective_pairing, of ?ops] by simp
qed

theorem clsfr_config_witness:
  "entries (eClsfrType demo_clsfr) (uNumActiveEntries demo_clsfr) (ClsfrTable demo_clsfr) = [((8, 0), 1), ((40, 0), 5)] \<and> clsfr_inv demo_clsfr"
proof -
  let ?i = "dscp_config [(8, 1), (40, 5)]"
  have h: "table_type (eClsfrType ?i)" "uNumActiveEntries ?i \<le> length (ClsfrTable ?i)"
    "uNumActiveEntries ?i \<le> NUM_OF_CLSFR_TABLE_ENTRIES" "length (ClsfrTable zero_clsfr) = NUM_OF_CLSFR_TABLE_ENTRIES"
    "\<forall>e\<in>set (take (uNumActiveEntries ?i) (ClsfrTable ?i)). DTag e \<le> CLASSIFIER_DTAG_MAX" "eClsfrType ?i = DSCP_CLSFR"
    by code_simp+
  have g: "entries DSCP_CLSFR (uNumActiveEntries ?i) (ClsfrTable ?i) = [((8, 0), 1), ((40, 0), 5)]" by code_simp
  have "distinct (map fst [((8, 0), 1), ((40, 0), 5 :: TI_UINT8)] :: (nat \<times> nat) list)" by simp
  then show ?thesis
    using clsfr_config [OF h(1-5) prod.collapse [symmetric], folded demo_clsfr_def] unfolding h(6) g Let_def by blast
qed

theorem clsfr_tid_range_witness:
  "txDataClsfr_ClassifyTxPacket demo_clsfr demo_mem demo_pkt 8 = Some (CLSFR_TI_OK, 5) \<and> unat (5 :: TI_UINT8) < length aTidToQueueTable"
proof -
  have c: "txDataClsfr_ClassifyTxPacket demo_clsfr demo_mem demo_pkt 8 = Some (CLSFR_TI_OK, 5)" by code_simp
  have "eClsfrType demo_clsfr = DSCP_CLSFR" by code_simp
  then show ?thesis using clsfr_tid_range [OF demo_clsfr_inv c] c by simp
qed

end
