(* ===== verification/WlTwIf.thy ===== *)
theory WlTwIf
  imports WlTxnReach "HOL-Library.Monad_Syntax"
begin

text \<open>
  The bus interface of \<^verbatim>\<open>TWD/TwIf/TwIf.c\<close>: it translates addresses, counts the transactions that are
  under way, wakes the device and lets it sleep, and calls the callbacks of completed transactions in
  the driver's context. It is the client of the transaction queue (theory \<open>WlTxnQueue\<close>), whose object is
  part of its record. Its callback for the queue calls nothing of the queue, so an operation of the
  queue is run first and its reports are handed to the callback afterwards, in their order. The bus
  driver writes the status of a transaction that it completes (\<open>bus_writes\<close>).

  Functions that use the queue's scheduler are option-valued as it is. \<open>tw_sched\<close> says that the context
  engine was asked for \<open>twIf_HandleTxnDone\<close>; the fields with the suffix \<open>Log\<close> record what happens and are
  read by no operation.
\<close>

section \<open>Data\<close>

datatype TwSmState = SM_STATE_AWAKE | SM_STATE_SLEEP | SM_STATE_WAIT_HW

datatype TwSmEvent = SM_EVENT_START | SM_EVENT_HW_AVAILABLE | SM_EVENT_SLEEP

record TPartition =
  uMemAdrr :: TI_UINT32
  uMemSize :: TI_UINT32

record TTwIfObj =
  hTxnQ :: TTxnQObj
  tw_eState :: TwSmState
  tw_hTxnDoneQueue :: "addr list option"
  fErrCb :: addr
  hErrCb :: addr
  fRecoveryCb :: addr
  hRecoveryCb :: addr
  uAwakeReqCount :: TI_UINT32
  uPendingTxnCount :: TI_UINT32
  tElpTxnSleep :: addr
  tElpTxnAwake :: addr
  uElpDataSleep :: TI_UINT8
  uElpDataAwake :: TI_UINT8
  uMemAddr1 :: TI_UINT32
  uMemSize1 :: TI_UINT32
  uMemAddr2 :: TI_UINT32
  uMemSize2 :: TI_UINT32
  uMemAddr3 :: TI_UINT32
  uMemSize3 :: TI_UINT32
  uMemAddr4 :: TI_UINT32
  uDbgCountAwake :: TI_UINT32
  uDbgCountSleep :: TI_UINT32
  uDbgCountTxn :: TI_UINT32
  uDbgCountTxnPending :: TI_UINT32
  uDbgCountTxnComplete :: TI_UINT32
  uDbgCountTxnDoneCb :: TI_UINT32
  bTxnDoneInRecovery :: bool
  bPendRestartTimerRunning :: bool
  hPendRestartTimer :: bool
  tw_sched :: bool
  regData :: "addr \<Rightarrow> TI_UINT32"
  elpLog :: "TI_UINT32 list"
  callLog :: "addr list"
  freeLog :: "addr list"
  errLog :: "addr list"
  recovLog :: nat

definition ELP_CTRL_REG_SLEEP :: TI_UINT32 where "ELP_CTRL_REG_SLEEP = 0"
definition ELP_CTRL_REG_AWAKE :: TI_UINT32 where "ELP_CTRL_REG_AWAKE = 1"
definition PARTITION_REGISTERS_ADDR :: TI_UINT32 where "PARTITION_REGISTERS_ADDR = 0x1FFC0"
definition ELP_CTRL_REG_ADDR :: TI_UINT32 where "ELP_CTRL_REG_ADDR = 0x1FFFC"
definition REGISTER_SIZE :: TI_UINT32 where "REGISTER_SIZE = 4"
definition TXN_NUM_PRIORITYS :: TI_UINT32 where "TXN_NUM_PRIORITYS = 2"

abbreviation (input) WLAN :: nat where "WLAN \<equiv> 2"

text \<open>The size of \<open>TPartitionRegTxn\<close> with 32-bit pointers: the transaction structure and its datum.\<close>

definition sizeof_TPartitionRegTxn :: TI_UINT32 where "sizeof_TPartitionRegTxn = 60"

section \<open>The queue below\<close>

definition no_client :: "addr list \<Rightarrow> addr list" where "no_client l = []"

definition txn_status :: "TTxnQObj \<Rightarrow> addr \<Rightarrow> TI_UINT32" where
  "txn_status q t = TXN_PARAM_GET_STATUS (txnMem q t)"

definition set_txn :: "addr \<Rightarrow> (TTxnStruct \<Rightarrow> TTxnStruct) \<Rightarrow> TTxnQObj \<Rightarrow> TTxnQObj" where
  "set_txn t f q = q\<lparr>txnMem := (txnMem q)(t := f (txnMem q t))\<rparr>"

text \<open>The statuses of the transactions that an operation from \<open>q\<close> to \<open>q'\<close> sent.\<close>

definition bus_writes :: "(addr list \<Rightarrow> ETxnStatus) \<Rightarrow> TTxnQObj \<Rightarrow> TTxnQObj \<Rightarrow> TTxnQObj" where
  "bus_writes bus q q' = foldl (\<lambda>r i. set_txn (busLog q' ! i)
       (TXN_PARAM_SET_STATUS (if bus (take (Suc i) (busLog q')) = TXN_STATUS_ERROR then TXN_PARAM_STATUS_ERROR else TXN_PARAM_STATUS_OK)) r)
     q' [length (busLog q)..<length (busLog q')]"

definition reports :: "TTxnQObj \<Rightarrow> TTxnQObj \<Rightarrow> addr list" where
  "reports q q' = filter (\<lambda>t. txn_func q' t = WLAN) (drop (length (cbLog q)) (cbLog q'))"

section \<open>Completions\<close>

definition dec_pending :: "TTwIfObj \<Rightarrow> TTwIfObj" where
  "dec_pending s = (if uPendingTxnCount s > 0 then s\<lparr>uPendingTxnCount := uPendingTxnCount s - 1\<rparr> else s)"

text \<open>The done queue links transactions through the same node as the queues below.\<close>

definition enq_txn_done :: "addr \<Rightarrow> TTwIfObj \<Rightarrow> TTwIfObj" where
  "enq_txn_done t s = s\<lparr>tw_hTxnDoneQueue :=
     snd (enq_h (linked_txn (hTxnQ s) t \<or> t \<in> set (items_h (tw_hTxnDoneQueue s))) (tw_hTxnDoneQueue s) t)\<rparr>"

definition twIf_TxnDoneCb :: "TTwIfObj \<Rightarrow> addr \<Rightarrow> TTwIfObj" where
  "twIf_TxnDoneCb s t =
     (let s = s\<lparr>uDbgCountTxnDoneCb := uDbgCountTxnDoneCb s + 1\<rparr>;
          pTxn = txnMem (hTxnQ s) t
      in if TXN_PARAM_GET_STATUS pTxn = TXN_PARAM_STATUS_RECOVERY \<and> fRecoveryCb s \<noteq> 0
         then s\<lparr>bTxnDoneInRecovery := True, tw_sched := True\<rparr>
         else if TXN_PARAM_GET_SINGLE_STEP pTxn \<noteq> 0 then s
         else (if fTxnDoneCb pTxn \<noteq> 0 then enq_txn_done t s else dec_pending s)\<lparr>tw_sched := True\<rparr>)"

text \<open>What follows an operation of the queue that ends in \<open>q'\<close>.\<close>

definition with_txnq :: "(addr list \<Rightarrow> ETxnStatus) \<Rightarrow> TTxnQObj \<Rightarrow> TTwIfObj \<Rightarrow> TTwIfObj" where
  "with_txnq bus q' s = foldl twIf_TxnDoneCb (s\<lparr>hTxnQ := bus_writes bus (hTxnQ s) q'\<rparr>) (reports (hTxnQ s) q')"

definition tw_transact :: "(addr list \<Rightarrow> ETxnStatus) \<Rightarrow> addr \<Rightarrow> TTwIfObj \<Rightarrow> (ETxnStatus \<times> TTwIfObj) option" where
  "tw_transact bus t s = do {
     (st, q) \<leftarrow> txnQ_Transact bus no_client t (hTxnQ s);
     Some (st, with_txnq bus q s) }"

section \<open>The state machine\<close>

definition twIf_WriteElpReg :: "(addr list \<Rightarrow> ETxnStatus) \<Rightarrow> TI_UINT32 \<Rightarrow> TTwIfObj \<Rightarrow> TTwIfObj option" where
  "twIf_WriteElpReg bus uValue s =
     map_option snd (tw_transact bus (if uValue = ELP_CTRL_REG_AWAKE then tElpTxnAwake s else tElpTxnSleep s)
       (s\<lparr>elpLog := elpLog s @ [uValue]\<rparr>))"

definition tw_run :: "(addr list \<Rightarrow> ETxnStatus) \<Rightarrow> TTwIfObj \<Rightarrow> TTwIfObj option" where
  "tw_run bus s = do { q \<leftarrow> txnQ_Run bus no_client WLAN (hTxnQ s); Some (with_txnq bus q s) }"

definition twIf_HandleSmEvent :: "(addr list \<Rightarrow> ETxnStatus) \<Rightarrow> TwSmEvent \<Rightarrow> TTwIfObj \<Rightarrow> TTwIfObj option" where
  "twIf_HandleSmEvent bus eEvent s =
     (case tw_eState s of
        SM_STATE_AWAKE \<Rightarrow>
          (if eEvent = SM_EVENT_SLEEP
           then twIf_WriteElpReg bus ELP_CTRL_REG_SLEEP (s\<lparr>tw_eState := SM_STATE_SLEEP, hTxnQ := txnQ_Stop WLAN (hTxnQ s)\<rparr>)
           else Some s)
      | SM_STATE_SLEEP \<Rightarrow>
          (if eEvent = SM_EVENT_START then twIf_WriteElpReg bus ELP_CTRL_REG_AWAKE (s\<lparr>tw_eState := SM_STATE_WAIT_HW\<rparr>)
           else if eEvent = SM_EVENT_HW_AVAILABLE then do {
             s \<leftarrow> twIf_WriteElpReg bus ELP_CTRL_REG_AWAKE (s\<lparr>tw_eState := SM_STATE_AWAKE\<rparr>);
             tw_run bus s }
           else Some s)
      | SM_STATE_WAIT_HW \<Rightarrow>
          (if eEvent = SM_EVENT_HW_AVAILABLE then tw_run bus (s\<lparr>tw_eState := SM_STATE_AWAKE\<rparr>) else Some s))"

text \<open>The sleep event, when no one needs the device.\<close>

definition sleep_check :: "(addr list \<Rightarrow> ETxnStatus) \<Rightarrow> TTwIfObj \<Rightarrow> TTwIfObj option" where
  "sleep_check bus s =
     (if uAwakeReqCount s = 0 \<and> uPendingTxnCount s = 0 then twIf_HandleSmEvent bus SM_EVENT_SLEEP s else Some s)"

definition twIf_Awake :: "TTwIfObj \<Rightarrow> TTwIfObj" where
  "twIf_Awake s = s\<lparr>uAwakeReqCount := uAwakeReqCount s + 1, uDbgCountAwake := uDbgCountAwake s + 1\<rparr>"

definition twIf_Sleep :: "(addr list \<Rightarrow> ETxnStatus) \<Rightarrow> TTwIfObj \<Rightarrow> TTwIfObj option" where
  "twIf_Sleep bus s =
     sleep_check bus ((if uAwakeReqCount s > 0 then s\<lparr>uAwakeReqCount := uAwakeReqCount s - 1\<rparr> else s)
       \<lparr>uDbgCountSleep := uDbgCountSleep s + 1\<rparr>)"

definition twIf_HwAvailable :: "(addr list \<Rightarrow> ETxnStatus) \<Rightarrow> TTwIfObj \<Rightarrow> TTwIfObj option" where
  "twIf_HwAvailable bus s = twIf_HandleSmEvent bus SM_EVENT_HW_AVAILABLE s"

section \<open>Transactions\<close>

text \<open>The error callback starts a recovery; it is the last thing that the functions do.\<close>

definition call_err :: "addr \<Rightarrow> TTwIfObj \<Rightarrow> TTwIfObj" where
  "call_err t s = (if fErrCb s \<noteq> 0 then s\<lparr>errLog := errLog s @ [t]\<rparr> else s)"

definition twIf_SendTransaction :: "(addr list \<Rightarrow> ETxnStatus) \<Rightarrow> addr \<Rightarrow> TTwIfObj \<Rightarrow> (ETxnStatus \<times> TTwIfObj) option" where
  "twIf_SendTransaction bus t s =
     (if uHwAddr (txnMem (hTxnQ s) t) AND 3 \<noteq> 0 then Some (TXN_STATUS_ERROR, s)
      else do {
        (eStatus, s) \<leftarrow> tw_transact bus t (s\<lparr>uPendingTxnCount := uPendingTxnCount s + 1\<rparr>);
        let s = s\<lparr>uDbgCountTxn := uDbgCountTxn s + 1\<rparr>;
        let s = (if eStatus = TXN_STATUS_COMPLETE then s\<lparr>uDbgCountTxnComplete := uDbgCountTxnComplete s + 1\<rparr>
                 else if eStatus = TXN_STATUS_PENDING then s\<lparr>uDbgCountTxnPending := uDbgCountTxnPending s + 1\<rparr> else s);
        if eStatus = TXN_STATUS_PENDING then do {
          s \<leftarrow> twIf_HandleSmEvent bus SM_EVENT_START s;
          Some (eStatus, s) }
        else do {
          s \<leftarrow> sleep_check bus (s\<lparr>uPendingTxnCount := uPendingTxnCount s - 1\<rparr>);
          Some (eStatus, if eStatus = TXN_STATUS_ERROR then call_err t s else s) } })"

text \<open>The address of a transaction on the bus.\<close>

definition translate :: "TTwIfObj \<Rightarrow> TI_UINT32 \<Rightarrow> TI_UINT32" where
  "translate s a =
     (if a \<ge> uMemAddr2 s \<and> a \<le> uMemAddr2 s + uMemSize2 s then a - uMemAddr2 s + uMemSize1 s else a - uMemAddr1 s)"

definition regular :: "TTxnStruct \<Rightarrow> TTxnStruct" where
  "regular x = TXN_PARAM_SET_SINGLE_STEP 0 (TXN_PARAM_SET_MORE 1 x)"

definition twIf_Transact :: "(addr list \<Rightarrow> ETxnStatus) \<Rightarrow> addr \<Rightarrow> TTwIfObj \<Rightarrow> (ETxnStatus \<times> TTwIfObj) option" where
  "twIf_Transact bus t s = twIf_SendTransaction bus t
     (s\<lparr>hTxnQ := set_txn t (\<lambda>x. regular (x\<lparr>uHwAddr := translate s (uHwAddr x)\<rparr>)) (hTxnQ s)\<rparr>)"

definition twIf_TransactReadFWStatus :: "(addr list \<Rightarrow> ETxnStatus) \<Rightarrow> addr \<Rightarrow> TTwIfObj \<Rightarrow> (ETxnStatus \<times> TTwIfObj) option" where
  "twIf_TransactReadFWStatus bus t s = twIf_SendTransaction bus t (s\<lparr>hTxnQ := set_txn t regular (hTxnQ s)\<rparr>)"

section \<open>The handler of completed transactions\<close>

text \<open>
  One loop over the done queue. \<open>cb\<close> is what the callback of a transaction does, which may be any
  sequence of calls of this module; the loop may go on for ever if it keeps being given work.
\<close>

partial_function (option) handle_loop ::
  "(addr list \<Rightarrow> ETxnStatus) \<Rightarrow> (addr \<Rightarrow> TTwIfObj \<Rightarrow> TTwIfObj option) \<Rightarrow> TTwIfObj \<Rightarrow> TTwIfObj option" where
  "handle_loop bus cb s =
     (case deq_h (tw_hTxnDoneQueue s) of
        (None, h) \<Rightarrow> sleep_check bus (s\<lparr>tw_hTxnDoneQueue := h\<rparr>)
      | (Some t, h) \<Rightarrow>
          (let s = dec_pending (s\<lparr>tw_hTxnDoneQueue := h\<rparr>);
               pTxn = txnMem (hTxnQ s) t
           in if TXN_PARAM_GET_STATUS pTxn = TXN_PARAM_STATUS_ERROR then Some (call_err t s)
              else Option.bind (if fTxnDoneCb pTxn \<noteq> 0 then cb t (s\<lparr>callLog := callLog s @ [t]\<rparr>) else Some s)
                (\<lambda>s. Option.bind (sleep_check bus s) (handle_loop bus cb))))"

definition twIf_HandleTxnDone ::
  "(addr list \<Rightarrow> ETxnStatus) \<Rightarrow> (addr \<Rightarrow> TTwIfObj \<Rightarrow> TTwIfObj option) \<Rightarrow> TTwIfObj \<Rightarrow> TTwIfObj option" where
  "twIf_HandleTxnDone bus cb s =
     (if bTxnDoneInRecovery s
      then Some (s\<lparr>bTxnDoneInRecovery := False, bPendRestartTimerRunning := False, recovLog := recovLog s + 1\<rparr>)
      else handle_loop bus cb s)"

section \<open>Restart\<close>

definition twIf_ClearTxnDoneQueue :: "TTwIfObj \<Rightarrow> TTwIfObj" where
  "twIf_ClearTxnDoneQueue s = (case tw_hTxnDoneQueue s of None \<Rightarrow> s
     | Some ts \<Rightarrow> foldl (\<lambda>s t. dec_pending s) (s\<lparr>tw_hTxnDoneQueue := Some []\<rparr>) ts)"

definition twIf_Restart :: "TTwIfObj \<Rightarrow> ETxnStatus \<times> TTwIfObj" where
  "twIf_Restart s =
     (let s = s\<lparr>tw_eState := SM_STATE_SLEEP, uAwakeReqCount := 0, uPendingTxnCount := 0, elpLog := []\<rparr>;
          s = twIf_ClearTxnDoneQueue s;
          (eStatus, q) = txnQ_Restart WLAN (hTxnQ s);
          s = s\<lparr>hTxnQ := q\<rparr>
      in (eStatus, if eStatus = TXN_STATUS_PENDING then s\<lparr>bPendRestartTimerRunning := True\<rparr> else s))"

definition twIf_PendRestratTimeout :: "TTwIfObj \<Rightarrow> TTwIfObj" where
  "twIf_PendRestratTimeout s =
     s\<lparr>bPendRestartTimerRunning := False, hTxnQ := txnQ_ClearQueues WLAN (hTxnQ s), recovLog := recovLog s + 1\<rparr>"

section \<open>Creation and initialisation\<close>

text \<open>The queue is a part of the record from the start, though the code stores its handle in \<open>twIf_Init\<close>.\<close>

definition twIf_Create :: "bool \<Rightarrow> TTxnQObj \<Rightarrow> addr \<Rightarrow> addr \<Rightarrow> TTwIfObj option" where
  "twIf_Create alloc_ok q slp awk =
     (if \<not> alloc_ok then None else Some
       \<lparr>hTxnQ = q, tw_eState = SM_STATE_AWAKE, tw_hTxnDoneQueue = None, fErrCb = 0, hErrCb = 0, fRecoveryCb = 0,
        hRecoveryCb = 0, uAwakeReqCount = 0, uPendingTxnCount = 0, tElpTxnSleep = slp, tElpTxnAwake = awk,
        uElpDataSleep = 0, uElpDataAwake = 0, uMemAddr1 = 0, uMemSize1 = 0, uMemAddr2 = 0, uMemSize2 = 0,
        uMemAddr3 = 0, uMemSize3 = 0, uMemAddr4 = 0, uDbgCountAwake = 0, uDbgCountSleep = 0, uDbgCountTxn = 0,
        uDbgCountTxnPending = 0, uDbgCountTxnComplete = 0, uDbgCountTxnDoneCb = 0, bTxnDoneInRecovery = False,
        bPendRestartTimerRunning = False, hPendRestartTimer = False, tw_sched = False, regData = (\<lambda>_. 0),
        elpLog = [], callLog = [], freeLog = [], errLog = [], recovLog = 0\<rparr>)"

definition twIf_Destroy :: "TTwIfObj \<Rightarrow> TTxnQObj" where
  "twIf_Destroy s = txnQ_Close WLAN (hTxnQ s)"

text \<open>The transaction of an ELP write; \<open>pBuf\<close> is the address of its datum.\<close>

definition elp_txn :: "TI_UINT32 \<Rightarrow> addr \<Rightarrow> TTxnStruct \<Rightarrow> TTxnStruct" where
  "elp_txn uMore pBuf x = BUILD_TTxnStruct ELP_CTRL_REG_ADDR pBuf 1 0 0
     (TXN_PARAM_SET_SINGLE_STEP 1 (TXN_PARAM_SET_MORE uMore
       (TXN_PARAM_SET TXN_LOW_PRIORITY TXN_FUNC_ID_WLAN TXN_DIRECTION_WRITE TXN_INC_ADDR x)))"

text \<open>
  \<open>buf_sleep\<close> and \<open>buf_awake\<close> are the addresses of the data, \<open>cb\<close> and \<open>hcb\<close> the module's callback for the
  queue and its handle.
\<close>

definition twIf_Init :: "addr \<Rightarrow> addr \<Rightarrow> addr \<Rightarrow> addr \<Rightarrow> addr \<Rightarrow> addr \<Rightarrow> bool \<Rightarrow> bool \<Rightarrow> (nat \<Rightarrow> bool) \<Rightarrow> TTwIfObj \<Rightarrow> TTwIfObj" where
  "twIf_Init fRecov hRecov buf_sleep buf_awake cb hcb que_ok timer_ok txnq_ok s =
     (let s = s\<lparr>fRecoveryCb := fRecov, hRecoveryCb := hRecov, uElpDataSleep := ucast ELP_CTRL_REG_SLEEP\<rparr>;
          s = s\<lparr>hTxnQ := set_txn (tElpTxnSleep s) (elp_txn 0 buf_sleep) (hTxnQ s), uElpDataAwake := ucast ELP_CTRL_REG_AWAKE\<rparr>;
          s = s\<lparr>hTxnQ := set_txn (tElpTxnAwake s) (elp_txn 1 buf_awake) (hTxnQ s),
                tw_hTxnDoneQueue := (if que_ok then Some [] else None), hPendRestartTimer := timer_ok\<rparr>
      in if \<not> timer_ok then s
         else (let s = s\<lparr>bPendRestartTimerRunning := False\<rparr>;
                   s = s\<lparr>hTxnQ := snd (txnQ_Open WLAN TXN_NUM_PRIORITYS cb hcb txnq_ok (hTxnQ s))\<rparr>
               in snd (twIf_Restart s)))"

definition twIf_RegisterErrCb :: "addr \<Rightarrow> addr \<Rightarrow> TTwIfObj \<Rightarrow> TTwIfObj" where
  "twIf_RegisterErrCb fCb hCb s = s\<lparr>fErrCb := fCb, hErrCb := hCb\<rparr>"

section \<open>The partition of the device's memory\<close>

text \<open>The seven registers with the values that are written to them, in the order of their transactions.\<close>

definition partition_regs :: "TTwIfObj \<Rightarrow> (TI_UINT32 \<times> TI_UINT32) list" where
  "partition_regs s =
     [(4, uMemAddr1 s), (0, uMemSize1 s), (12, uMemAddr2 s), (8, uMemSize2 s), (20, uMemAddr3 s), (16, uMemSize3 s), (24, uMemAddr4 s)]"

text \<open>The \<open>i\<close>-th transaction of the block at \<open>base\<close>; only the last has a callback, \<open>cb\<close> with the handle \<open>hcb\<close>.\<close>

definition part_addr :: "addr \<Rightarrow> nat \<Rightarrow> addr" where
  "part_addr base i = base + of_nat i * sizeof_TPartitionRegTxn"

definition zero_txn :: TTxnStruct where
  "zero_txn = \<lparr>uTxnParams = 0, uHwAddr = 0, fTxnDoneCb = 0, hCbHandle = 0, aLen = [0, 0, 0, 0], aBuf = [0, 0, 0, 0]\<rparr>"

definition part_header :: TTxnStruct where
  "part_header = TXN_PARAM_SET_SINGLE_STEP 0 (TXN_PARAM_SET_MORE 1
     (TXN_PARAM_SET TXN_LOW_PRIORITY TXN_FUNC_ID_WLAN TXN_DIRECTION_WRITE TXN_INC_ADDR zero_txn))"

definition part_txn :: "addr \<Rightarrow> addr \<Rightarrow> addr \<Rightarrow> TTwIfObj \<Rightarrow> nat \<Rightarrow> TTwIfObj" where
  "part_txn base cb hcb s i =
     (let (off, v) = partition_regs s ! i; buf = part_addr base i + 56;
          (f, h) = (if i = 6 then (cb, hcb) else (0, 0))
      in s\<lparr>hTxnQ := set_txn (part_addr base i) (\<lambda>x. BUILD_TTxnStruct (PARTITION_REGISTERS_ADDR + off) buf REGISTER_SIZE f h x) (hTxnQ s)\<rparr>)"

definition send_part :: "(addr list \<Rightarrow> ETxnStatus) \<Rightarrow> addr \<Rightarrow> addr \<Rightarrow> addr \<Rightarrow> nat \<Rightarrow> TTwIfObj \<Rightarrow> (ETxnStatus \<times> TTwIfObj) option" where
  "send_part bus base cb hcb i s = twIf_SendTransaction bus (part_addr base i) (part_txn base cb hcb s i)"

text \<open>The block is zeroed, the values are stored and the headers are prepared.\<close>

definition prepare_parts :: "addr \<Rightarrow> TTwIfObj \<Rightarrow> TTwIfObj" where
  "prepare_parts base s =
     foldl (\<lambda>s i. s\<lparr>regData := (regData s)(part_addr base i + 56 := snd (partition_regs s ! i)),
                     hTxnQ := set_txn (part_addr base i) (\<lambda>_. part_header) (hTxnQ s)\<rparr>) s [0..<7]"

text \<open>\<open>base\<close> is the block that the allocation gives, \<open>cb\<close> the address of \<open>twIf_PartitionTxnDoneCb\<close>.\<close>

definition twIf_SetPartition ::
  "(addr list \<Rightarrow> ETxnStatus) \<Rightarrow> addr \<Rightarrow> addr \<Rightarrow> addr \<Rightarrow> TPartition list \<Rightarrow> TTwIfObj \<Rightarrow> TTwIfObj option" where
  "twIf_SetPartition bus base cb hcb pPartition s = do {
     let s = s\<lparr>uMemAddr1 := uMemAdrr (pPartition ! 0), uMemSize1 := uMemSize (pPartition ! 0),
               uMemAddr2 := uMemAdrr (pPartition ! 1), uMemSize2 := uMemSize (pPartition ! 1),
               uMemAddr3 := uMemAdrr (pPartition ! 2), uMemSize3 := uMemSize (pPartition ! 2),
               uMemAddr4 := uMemAdrr (pPartition ! 3)\<rparr>;
     let s = prepare_parts base s;
     (_, s) \<leftarrow> send_part bus base cb hcb 0 s;
     (_, s) \<leftarrow> send_part bus base cb hcb 1 s;
     (_, s) \<leftarrow> send_part bus base cb hcb 2 s;
     (_, s) \<leftarrow> send_part bus base cb hcb 3 s;
     (_, s) \<leftarrow> send_part bus base cb hcb 4 s;
     (eStatus, s) \<leftarrow> send_part bus base cb hcb 5 s;
     (_, s) \<leftarrow> send_part bus base cb hcb 6 s;
     Some (if eStatus \<noteq> TXN_STATUS_PENDING then s\<lparr>freeLog := freeLog s @ [base]\<rparr> else s) }"

definition twIf_PartitionTxnDoneCb :: "addr \<Rightarrow> TTwIfObj \<Rightarrow> TTwIfObj" where
  "twIf_PartitionTxnDoneCb hTxn s = s\<lparr>freeLog := freeLog s @ [hTxn - 6 * sizeof_TPartitionRegTxn]\<rparr>"

section \<open>Validation of addresses\<close>

definition twIf_isValidMemoryAddr :: "TTwIfObj \<Rightarrow> TI_UINT32 \<Rightarrow> TI_UINT32 \<Rightarrow> bool" where
  "twIf_isValidMemoryAddr s Address Length \<longleftrightarrow> Address \<ge> uMemAddr1 s \<and> Address + Length < uMemAddr1 s + uMemSize1 s"

definition twIf_isValidRegAddr :: "TTwIfObj \<Rightarrow> TI_UINT32 \<Rightarrow> TI_UINT32 \<Rightarrow> bool" where
  "twIf_isValidRegAddr s Address Length \<longleftrightarrow> Address \<ge> uMemAddr2 s \<and> Address < uMemAddr2 s + uMemSize2 s"

end
