(* ===== verification/WlTwTxn.thy ===== *)
theory WlTwTxn
  imports WlTwIf
begin

text \<open>
  The transaction queue as the bus interface uses it, without submissions from callbacks: where the
  transactions under way are after each operation, and which of them it reports or returns.
\<close>

section \<open>Transactions under way\<close>

definition flight :: "TTxnQObj \<Rightarrow> addr multiset" where
  "flight q = waiting q + curr_txn q + mset (items_h (hTxnDoneQueue q))"

lemma flight_send:
  "pCurrTxn q = None \<Longrightarrow> txnQ_SelectTxn q = Some (t, q1) \<Longrightarrow> flight (send_txn t q1) = flight q"
  using select_waiting [of q t q1] select_logs(7) [of q t q1]
  by (simp add: flight_def curr_txn_def) (simp add: send_txn_def)

text \<open>A completed transaction is refused by the done queue only if it is under way a second time.\<close>

lemma done_enqueue_ok:
  assumes "hTxnDoneQueue q = Some ds" "distinct ds" "0 \<notin> set ds" "t \<noteq> 0"
  shows "hTxnDoneQueue (done_enqueue t q) = Some (ds @ [t]) \<and> dropLog (done_enqueue t q) = dropLog q \<and> t \<notin> set ds \<or>
    hTxnDoneQueue (done_enqueue t q) = Some ds \<and> dropLog (done_enqueue t q) = dropLog q @ [t] \<and> linked_txn q t"
proof (cases "linked_txn q t")
  case True
  then show ?thesis using assms(1) by (simp add: done_enqueue_def enq_h_def Let_def)
next
  case False
  then have "t \<notin> set ds" using assms(1) by (simp add: linked_txn_def items_h_def)
  then have "distinct (0 # t # ds)" using assms by simp
  then have "length (0 # t # ds) = card (set (0 # t # ds))" by (simp only: distinct_card)
  also have "\<dots> \<le> card (UNIV :: addr set)" by (rule card_mono) simp_all
  finally have "length ds + 2 \<le> 2 ^ 32" by (simp add: card_word)
  then have "length ds < TXN_QUE_SIZE" by (simp add: TXN_QUE_SIZE_def QUE_UNLIMITED_SIZE_def)
  then show ?thesis using False assms(1) \<open>t \<notin> set ds\<close> by (simp add: done_enqueue_def enq_h_def fifo_enq_def Let_def)
qed

lemma flight_complete:
  assumes "pCurrTxn q = Some t"
  shows "flight q = flight (q\<lparr>pCurrTxn := None, retLog := l\<rparr>) + {#t#}"
  using assms by (simp add: flight_def curr_txn_def)

lemma flight_done_ok:
  assumes "pCurrTxn q = Some t" "hTxnDoneQueue q = Some ds" "hTxnDoneQueue q' = Some (ds @ [t])"
    "waiting q' = waiting q" "pCurrTxn q' = None"
  shows "flight q' = flight q"
  using assms by (simp add: flight_def curr_txn_def items_h_def)

lemma linked_flight: "linked_txn q t \<Longrightarrow> 1 \<le> count (waiting q + mset (items_h (hTxnDoneQueue q))) t"
  by (auto simp: linked_txn_def waiting_def Suc_le_eq count_greater_zero_iff simp del: count_union)

text \<open>The fields that sending leaves as they are.\<close>

definition same_funcs :: "TTxnQObj \<Rightarrow> TTxnQObj \<Rightarrow> bool" where
  "same_funcs q q' \<longleftrightarrow> cbLog q' = cbLog q \<and> txnMem q' = txnMem q \<and> bSchedulerBusy q' = bSchedulerBusy q \<and>
     bSchedulerPend q' = bSchedulerPend q \<and> (\<forall>f. eState (func_info q' f) = eState (func_info q f))"

lemma same_funcs_trans: "same_funcs q q' \<Longrightarrow> same_funcs q' q'' \<Longrightarrow> same_funcs q q''"
  by (simp add: same_funcs_def)

lemma same_funcs_select: "txnQ_SelectTxn q = Some (t, q1) \<Longrightarrow> same_funcs q (send_txn t q1)"
  by (erule select_cases) (auto simp: same_funcs_def send_txn_def func_info_upd upd_func_def [of _ _ q] set_queue_def func_info_def nth_list_update)

lemma same_funcs_complete: "same_funcs q (complete_txn inp t q)"
  by (auto simp: same_funcs_def complete_txn_def done_enqueue_def Let_def split_beta func_info_def)

lemma select_busLog: "txnQ_SelectTxn q = Some (t, q1) \<Longrightarrow> busLog (send_txn t q1) = busLog q @ [t] \<and> retLog (send_txn t q1) = retLog q \<and>
    hTxnDoneQueue (send_txn t q1) = hTxnDoneQueue q \<and> pCurrTxn (send_txn t q1) = Some t"
  using select_logs [of q t q1] by (simp add: send_txn_def)

text \<open>The status of the caller's transaction tells whether it was returned.\<close>

definition input_result :: "addr option \<Rightarrow> ETxnStatus \<Rightarrow> TTxnQObj \<Rightarrow> addr list \<Rightarrow> ETxnStatus \<Rightarrow> bool" where
  "input_result inp st q rs st' \<longleftrightarrow> (case inp of None \<Rightarrow> rs = [] \<and> st' = st
     | Some t \<Rightarrow> set rs \<subseteq> {t} \<and> (t \<notin># waiting q \<longrightarrow> rs = [] \<and> st' = st) \<and>
         (count (flight q) t \<le> 1 \<longrightarrow> rs = [] \<and> (st' = st \<or> st' = TXN_STATUS_PENDING) \<or> rs = [t] \<and> st' \<noteq> TXN_STATUS_PENDING))"

definition loop_moves :: "TTxnQObj \<Rightarrow> TTxnQObj \<Rightarrow> addr list \<Rightarrow> addr list \<Rightarrow> addr list \<Rightarrow> bool" where
  "loop_moves q q' ds rs sent \<longleftrightarrow> (\<exists>xs. flight q = flight q' + mset rs + mset xs \<and> (\<forall>x\<in>set xs. 2 \<le> count (flight q) x) \<and>
     (\<exists>ds0. hTxnDoneQueue q = Some ds0 \<and> hTxnDoneQueue q' = Some (ds0 @ ds) \<and> distinct (ds0 @ ds)) \<and> set ds \<subseteq> set sent \<and> set sent \<subseteq> set_mset (flight q) \<and>
     retLog q' = retLog q @ rs \<and> busLog q' = busLog q @ sent \<and> same_funcs q q')"

lemma loop_moves_step:
  assumes m: "loop_moves q1 q' ds rs sent" and f: "flight q = flight q1 + mset r0 + mset x0" "\<forall>x\<in>set x0. 2 \<le> count (flight q) x"
    and d: "hTxnDoneQueue q = Some d0" "hTxnDoneQueue q1 = Some (d0 @ d1)" "set d1 \<subseteq> {t}"
    and l: "retLog q1 = retLog q @ r0" "busLog q1 = busLog q @ [t]" "same_funcs q q1" "t \<in># flight q"
  shows "loop_moves q q' (d1 @ ds) (r0 @ rs) (t # sent)"
proof -
  obtain xs ds0 where x: "flight q1 = flight q' + mset rs + mset xs" "\<forall>x\<in>set xs. 2 \<le> count (flight q1) x"
      "hTxnDoneQueue q1 = Some ds0" "hTxnDoneQueue q' = Some (ds0 @ ds)" "distinct (ds0 @ ds)" "set ds \<subseteq> set sent"
      "retLog q' = retLog q1 @ rs" "busLog q' = busLog q1 @ sent" "same_funcs q1 q'" "set sent \<subseteq> set_mset (flight q1)"
    using m by (auto simp: loop_moves_def)
  have "flight q = flight q' + mset (r0 @ rs) + mset (x0 @ xs)" using f(1) x(1) by simp
  moreover have "\<forall>x\<in>set (x0 @ xs). 2 \<le> count (flight q) x" using f x(2) by auto
  moreover have "\<exists>ds0. hTxnDoneQueue q = Some ds0 \<and> hTxnDoneQueue q' = Some (ds0 @ d1 @ ds) \<and> distinct (ds0 @ d1 @ ds)"
    using d x(3-5) by auto
  moreover have "set (d1 @ ds) \<subseteq> set (t # sent)" using d(3) x(6) by auto
  moreover have "same_funcs q q'" using same_funcs_trans l(3) x(9) by blast
  moreover have "set (t # sent) \<subseteq> set_mset (flight q)" using l(4) x(10) f(1) by auto
  ultimately show ?thesis using l(1,2) x(7,8) unfolding loop_moves_def by (intro exI [of _ "x0 @ xs"]) simp
qed

lemma send_loop_moves:
  assumes "pCurrTxn q = None" "hTxnDoneQueue q = Some d0" "distinct d0" "0 \<notin># flight q"
  shows "\<exists>ds rs sent. loop_moves q (snd (send_loop bus inp st q)) ds rs sent \<and>
    input_result inp st q rs (fst (send_loop bus inp st q))"
  using assms
proof (induction bus inp st q arbitrary: d0 rule: send_loop.induct)
  case (1 bus inp st q)
  show ?case
  proof (cases "txnQ_SelectTxn q")
    case None
    have "loop_moves q q [] [] []" using 1(3,4) by (auto simp: loop_moves_def same_funcs_def)
    moreover have "input_result inp st q [] st" by (auto simp: input_result_def split: option.splits)
    ultimately show ?thesis using None by (auto simp: send_loop.simps [of bus inp st q])
  next
    case (Some r)
    obtain t q1 where r: "r = (t, q1)" by force
    let ?q2 = "send_txn t q1"
    let ?e = "bus (busLog ?q2)"
    let ?st = "if Some t = inp then ?e else st"
    note sel = Some [unfolded r]
    have w: "waiting q = add_mset t (waiting ?q2)" using select_waiting [OF sel] by simp
    have f2: "flight ?q2 = flight q" by (rule flight_send [OF 1(2) sel])
    have c2: "pCurrTxn ?q2 = Some t" "hTxnDoneQueue ?q2 = Some d0" "busLog ?q2 = busLog q @ [t]" "retLog ?q2 = retLog q"
      using select_busLog [OF sel] 1(3) by auto
    note s2 = same_funcs_select [OF sel]
    show ?thesis
    proof (cases "?e = TXN_STATUS_PENDING")
      case True
      have "t \<in># flight q" using w by (simp add: flight_def)
      then have "loop_moves q ?q2 [] [] [t]" using c2 s2 f2 1(3,4) by (auto simp: loop_moves_def)
      moreover have "input_result inp st q [] ?st" using True w by (auto simp: input_result_def split: option.splits)
      moreover have "send_loop bus inp st q = (?st, ?q2)"
        using True Some r by (simp add: send_loop.simps [of bus inp st q] Let_def)
      ultimately show ?thesis unfolding fst_conv snd_conv by (metis fst_conv snd_conv)
    next
      case False
      let ?q3 = "complete_txn inp t ?q2"
      have run: "send_loop bus inp st q = send_loop bus inp ?st ?q3"
        using False Some r by (simp add: send_loop.simps [of bus inp st q] Let_def)
      have s3: "same_funcs q ?q3" using same_funcs_trans s2 same_funcs_complete by blast
      have w3: "waiting ?q3 = waiting ?q2" by simp
      have t0: "t \<noteq> 0" using 1(5) w by (auto simp: flight_def)
      have nz: "0 \<notin> set d0" using 1(3,5) by (auto simp: flight_def items_h_def)
      obtain r0 x0 d1 where d: "flight ?q2 = flight ?q3 + mset r0 + mset x0" "\<forall>x\<in>set x0. 2 \<le> count (flight q) x"
          "hTxnDoneQueue ?q3 = Some (d0 @ d1)" "set d1 \<subseteq> {t}" "distinct (d0 @ d1)" "retLog ?q3 = retLog ?q2 @ r0"
          "busLog ?q3 = busLog ?q2" "pCurrTxn ?q3 = None" "r0 = (if Some t = inp then [t] else [])"
      proof (cases "Some t = inp")
        case True
        have "?q3 = ?q2\<lparr>pCurrTxn := None, retLog := retLog ?q2 @ [t]\<rparr>" using True by (auto simp: complete_txn_def Let_def)
        then show ?thesis using that [of "[t]" "[]" "[]"] flight_complete [OF c2(1)] c2(2) 1(4) True by simp
      next
        case False
        let ?qn = "?q2\<lparr>pCurrTxn := None\<rparr>"
        have q3: "?q3 = done_enqueue t ?qn" using False by (simp add: complete_txn_def Let_def)
        have fr: "retLog ?q3 = retLog ?q2" "busLog ?q3 = busLog ?q2" "pCurrTxn ?q3 = None"
          unfolding q3 by (simp_all add: done_enqueue_def Let_def split_beta)
        have "hTxnDoneQueue ?qn = Some d0" using c2(2) by simp
        from done_enqueue_ok [OF this 1(4) nz t0] consider
            (ok) "hTxnDoneQueue ?q3 = Some (d0 @ [t])" "t \<notin> set d0" | (no) "hTxnDoneQueue ?q3 = Some d0" "linked_txn ?qn t"
          unfolding q3 by blast
        then show ?thesis
        proof cases
          case ok
          from flight_done_ok [OF c2(1,2) ok(1) _ fr(3)] have "flight ?q3 = flight ?q2" by simp
          then show ?thesis using that [of "[]" "[]" "[t]"] ok fr False 1(4) by auto
        next
          case no
          have f3: "flight ?q2 = flight ?q3 + {#t#}"
            using c2(1,2) no(1) fr(3) w3 by (simp add: flight_def curr_txn_def)
          have "1 \<le> count (waiting ?qn + mset (items_h (hTxnDoneQueue ?qn))) t" using linked_flight [OF no(2)] .
          then have "2 \<le> count (flight ?q2) t" using c2(1) by (simp add: flight_def curr_txn_def)
          then show ?thesis using that [of "[]" "[t]" "[]"] no(1) f3 f2 fr False 1(4) by auto
        qed
      qed
      have z: "0 \<notin># flight ?q3" using 1(5) d(1) f2 by auto
      obtain ds rs sent where ih: "loop_moves ?q3 (snd (send_loop bus inp ?st ?q3)) ds rs sent"
          "input_result inp ?st ?q3 rs (fst (send_loop bus inp ?st ?q3))"
        using 1(1) [OF Some r [symmetric] refl refl refl False [unfolded not_not] d(8) d(3) d(5) z] False by auto
      have tf: "t \<in># flight q" using w by (simp add: flight_def)
      have "loop_moves q (snd (send_loop bus inp ?st ?q3)) (d1 @ ds) (r0 @ rs) (t # sent)"
        by (rule loop_moves_step [OF ih(1) _ d(2) 1(3) d(3) d(4) _ _ _ tf]) (use d f2 c2 s3 in simp_all)
      moreover have "input_result inp st q (r0 @ rs) (fst (send_loop bus inp ?st ?q3))"
      proof (cases inp)
        case None
        then show ?thesis using ih(2) d(9) by (simp add: input_result_def)
      next
        case (Some i)
        show ?thesis
        proof (cases "i = t")
          case True
          have "t \<notin># waiting ?q3" if "count (flight q) t \<le> 1"
            using that w w3 by (simp add: flight_def not_in_iff)
          then show ?thesis using ih(2) d(9) Some True False w by (auto simp: input_result_def)
        next
          case i: False
          have "count (flight ?q3) i \<le> count (flight q) i" using d(1) f2 by simp
          then show ?thesis using ih(2) d(9) Some i w by (auto simp: input_result_def)
        qed
      qed
      ultimately show ?thesis unfolding run by blast
    qed
  qed
qed

text \<open>
  What an operation may do to the transactions under way: it reports \<open>cs\<close>, returns \<open>rs\<close>, and loses only
  what is under way twice.
\<close>

definition txn_moves :: "TTxnQObj \<Rightarrow> TTxnQObj \<Rightarrow> addr list \<Rightarrow> addr list \<Rightarrow> addr list \<Rightarrow> bool" where
  "txn_moves q q' cs rs sent \<longleftrightarrow> (\<exists>xs. flight q = flight q' + mset cs + mset rs + mset xs \<and>
     (\<forall>x\<in>set xs. 2 \<le> count (flight q) x) \<and> set cs \<subseteq> set (items_h (hTxnDoneQueue q)) \<union> set sent \<and>
     set sent \<subseteq> set_mset (flight q) \<and> cbLog q' = cbLog q @ cs \<and> retLog q' = retLog q @ rs \<and> busLog q' = busLog q @ sent \<and> txnMem q' = txnMem q \<and>
     (\<forall>f. eState (func_info q' f) = eState (func_info q f)))"

section \<open>The scheduler without submissions\<close>

lemma report_no_client: "report_txn no_client t q = q\<lparr>cbLog := cbLog q @ [t]\<rparr>"
  by (simp add: report_txn_def no_client_def Let_def)

lemma done_loop_no_client:
  "done_loop no_client q = q\<lparr>hTxnDoneQueue := map_option (\<lambda>_. []) (hTxnDoneQueue q), cbLog := cbLog q @ items_h (hTxnDoneQueue q)\<rparr>"
proof (induction q rule: done_loop_induct [where client = no_client])
  case (step q)
  obtain r h where d: "deq_h (hTxnDoneQueue q) = (r, h)" by force
  show ?case
  proof (cases r)
    case None
    with d deq_h_none [of "hTxnDoneQueue q" h] show ?thesis
      by (cases "hTxnDoneQueue q") (simp_all add: done_loop_eq [of no_client q] items_h_def)
  next
    case (Some t)
    with d deq_h_some [of "hTxnDoneQueue q" t h] step [of t] show ?thesis
      by (auto simp: done_loop_eq [of no_client q] report_no_client)
  qed
qed

lemma flight_frames [simp]:
  "flight (q\<lparr>bSchedulerBusy := b\<rparr>) = flight q" "flight (q\<lparr>bSchedulerPend := b\<rparr>) = flight q"
  "flight (q\<lparr>txnMem := m\<rparr>) = flight q" "flight (q\<lparr>cbLog := l\<rparr>) = flight q" "flight (q\<lparr>dropLog := l\<rparr>) = flight q"
  "flight (q\<lparr>accLog := l\<rparr>) = flight q"
  by (simp_all add: flight_def curr_txn_def)

lemma same_funcs_busy: "same_funcs (q\<lparr>bSchedulerBusy := b\<rparr>) q' \<Longrightarrow>
    cbLog q' = cbLog q \<and> txnMem q' = txnMem q \<and> bSchedulerPend q' = bSchedulerPend q \<and> (\<forall>f. eState (func_info q' f) = eState (func_info q f))"
  by (simp add: same_funcs_def func_info_def)

lemma run_no_client:
  assumes "txnq_quiet q" "hTxnDoneQueue q = Some d0" "distinct d0" "0 \<notin># flight q" "pCurrTxn q \<noteq> None \<Longrightarrow> d0 = []"
  shows "\<exists>st q' cs rs sent. txnQ_RunScheduler bus no_client inp q = Some (st, q') \<and> txn_moves q q' cs rs sent \<and>
    input_result inp TXN_STATUS_PENDING q rs st \<and> txnq_quiet q' \<and> hTxnDoneQueue q' = Some []"
proof (cases "pCurrTxn q")
  case (Some c)
  have "q\<lparr>bSchedulerBusy := False\<rparr> = q" using assms(1) by (simp add: txnq_quiet_def)
  then have "txnQ_RunScheduler bus no_client inp q = Some (TXN_STATUS_PENDING, q)"
    using assms(1) Some by (simp add: txnQ_RunScheduler_def txnQ_Scheduler_def txnq_quiet_def run_again.simps)
  moreover have "txn_moves q q [] [] []" by (auto simp: txn_moves_def)
  moreover have "input_result inp TXN_STATUS_PENDING q [] TXN_STATUS_PENDING" by (auto simp: input_result_def split: option.splits)
  ultimately show ?thesis using assms Some by blast
next
  case None
  let ?q = "q\<lparr>bSchedulerBusy := True\<rparr>"
  obtain st q1 where r: "send_loop bus inp TXN_STATUS_PENDING ?q = (st, q1)" by force
  obtain ds rs sent where m: "loop_moves ?q q1 ds rs sent" "input_result inp TXN_STATUS_PENDING ?q rs st"
    using send_loop_moves [of ?q d0 bus inp TXN_STATUS_PENDING] None assms r by auto
  let ?q' = "q1\<lparr>hTxnDoneQueue := Some [], cbLog := cbLog q1 @ d0 @ ds, bSchedulerBusy := False\<rparr>"
  obtain xs where x: "flight q = flight q1 + mset rs + mset xs" "\<forall>x\<in>set xs. 2 \<le> count (flight q) x"
      "hTxnDoneQueue q1 = Some (d0 @ ds)" "set ds \<subseteq> set sent" "retLog q1 = retLog q @ rs" "busLog q1 = busLog q @ sent"
      "same_funcs ?q q1" "set sent \<subseteq> set_mset (flight q)"
    using m(1) assms(2) by (auto simp: loop_moves_def)
  note fr = same_funcs_busy [OF x(7)]
  have d: "done_loop no_client q1 = q1\<lparr>hTxnDoneQueue := Some [], cbLog := cbLog q1 @ d0 @ ds\<rparr>"
    using x(3) by (simp add: done_loop_no_client items_h_def)
  have "txnQ_RunScheduler bus no_client inp q = Some (st, ?q')"
    using assms(1) None fr by (simp add: txnQ_RunScheduler_def txnQ_Scheduler_def txnq_quiet_def r d run_again.simps)
  moreover have "flight q1 = flight ?q' + mset (d0 @ ds)" using x(3) by (simp add: flight_def curr_txn_def items_h_def)
  then have "txn_moves q ?q' (d0 @ ds) rs sent"
    using x fr assms(2) unfolding txn_moves_def by (intro exI [of _ xs]) (auto simp: items_h_def)
  moreover have "input_result inp TXN_STATUS_PENDING q rs st"
    using m(2) by (auto simp: input_result_def split: option.splits)
  moreover have "txnq_quiet ?q'" using fr assms(1) by (simp add: txnq_quiet_def)
  ultimately show ?thesis by fastforce
qed

section \<open>Submitting\<close>

text \<open>A single step takes the place of the one that waits.\<close>

definition slot :: "TTxnQObj \<Rightarrow> nat \<Rightarrow> addr list" where
  "slot q f = (case pSingleStep (func_info q f) of None \<Rightarrow> [] | Some t \<Rightarrow> [t])"

lemma submit_flight:
  assumes "txnq_wf q" "txn_submit t q = (ok, q')"
  shows "if ok then flight q + {#t#} = flight q' + mset (if TXN_PARAM_GET_SINGLE_STEP (txnMem q t) \<noteq> 0 then slot q (txn_func q t) else [])
     else q' = q"
proof (cases "TXN_PARAM_GET_SINGLE_STEP (txnMem q t) = 0")
  case False
  let ?f = "txn_func q t"
  have "?f < length (aFuncInfo q)" using assms(1) txn_func_less by (simp add: txnq_wf_def)
  then have "waiting (upd_func ?f (\<lambda>fi. fi\<lparr>pSingleStep := Some t\<rparr>) (drop_single ?f q)) + mset (slot q ?f) = waiting q + {#t#}"
    using waiting_upd_func [of ?f "\<lambda>fi. fi\<lparr>pSingleStep := Some t\<rparr>" "drop_single ?f q"] by (simp add: slot_def)
  then show ?thesis using False assms(2) by (auto simp: txn_submit_def Let_def flight_def curr_txn_def ac_simps)
next
  case True
  obtain st h where e: "enq_h (linked_txn q t) (txn_queue q (txn_func q t) (txn_prio q t)) t = (st, h)" by force
  show ?thesis
  proof (cases "st = TI_OK")
    case False
    then show ?thesis using True e assms(2) by (auto simp: txn_submit_def Let_def)
  next
    case ok: True
    with enq_h_ok [of _ _ t h] e have "txn_queue q (txn_func q t) (txn_prio q t) \<noteq> None" by fastforce
    from waiting_set_queue [OF this, of h] enq_h_items [OF e] ok
    have "waiting (set_queue (txn_func q t) (txn_prio q t) h q) = add_mset t (waiting q)" by simp
    then show ?thesis using True e ok assms(2) by (auto simp: txn_submit_def Let_def flight_def curr_txn_def)
  qed
qed

lemma submit_same:
  assumes "txn_submit t q = (ok, q')"
  shows "cbLog q' = cbLog q \<and> retLog q' = retLog q \<and> busLog q' = busLog q \<and> txnMem q' = txnMem q \<and>
     hTxnDoneQueue q' = hTxnDoneQueue q \<and> pCurrTxn q' = pCurrTxn q \<and> (\<forall>f. eState (func_info q' f) = eState (func_info q f))"
proof -
  have "eState (func_info (drop_single g q) f) = eState (func_info q f)" for g f by simp
  moreover have "busLog (drop_single g q) = busLog q" "txnMem (drop_single g q) = txnMem q" for g
    by (simp_all add: drop_single_def split: option.splits)
  ultimately show ?thesis using assms by (auto simp: txn_submit_def Let_def split_beta func_info_upd split: if_splits)
qed

section \<open>Queues and slots hold transactions of their kind\<close>

text \<open>The WLAN function is the only one that is open.\<close>

definition class_ok :: "TTxnQObj \<Rightarrow> bool" where
  "class_ok q \<longleftrightarrow>
     (\<forall>f p. \<forall>t\<in>set (items_h (txn_queue q f p)). txn_func q t = f \<and> TXN_PARAM_GET_SINGLE_STEP (txnMem q t) = 0) \<and>
     (\<forall>f t. pSingleStep (func_info q f) = Some t \<longrightarrow> txn_func q t = f \<and> TXN_PARAM_GET_SINGLE_STEP (txnMem q t) \<noteq> 0) \<and>
     uMinFuncId q = WLAN \<and> uMaxFuncId q = WLAN"

lemma range_fields [simp]:
  "uMinFuncId (set_queue f p h q) = uMinFuncId q" "uMaxFuncId (set_queue f p h q) = uMaxFuncId q"
  "uMinFuncId (upd_func f g q) = uMinFuncId q" "uMaxFuncId (upd_func f g q) = uMaxFuncId q"
  by (simp_all add: set_queue_def upd_func_def)

lemma class_frames [simp]:
  "class_ok (q\<lparr>pAggregQueue := a\<rparr>) = class_ok q" "class_ok (q\<lparr>hTxnDoneQueue := d\<rparr>) = class_ok q"
  "class_ok (q\<lparr>pCurrTxn := c\<rparr>) = class_ok q" "class_ok (q\<lparr>bSchedulerBusy := b\<rparr>) = class_ok q"
  "class_ok (q\<lparr>bSchedulerPend := b\<rparr>) = class_ok q" "class_ok (q\<lparr>accLog := l\<rparr>) = class_ok q"
  "class_ok (q\<lparr>busLog := l\<rparr>) = class_ok q" "class_ok (q\<lparr>cbLog := l\<rparr>) = class_ok q" "class_ok (q\<lparr>retLog := l\<rparr>) = class_ok q"
  "class_ok (q\<lparr>dropLog := l\<rparr>) = class_ok q"
  by (simp_all add: class_ok_def func_info_def txn_queue_def)

lemma class_set_queue:
  assumes "class_ok q" "\<forall>t\<in>set (items_h h). txn_func q t = f \<and> TXN_PARAM_GET_SINGLE_STEP (txnMem q t) = 0"
  shows "class_ok (set_queue f p h q)"
  using assms by (auto simp: class_ok_def txn_queue_set)

lemma class_upd_func:
  assumes "class_ok q" "\<And>t. pSingleStep (g (func_info q f)) = Some t \<Longrightarrow>
    pSingleStep (func_info q f) = Some t \<or> txn_func q t = f \<and> TXN_PARAM_GET_SINGLE_STEP (txnMem q t) \<noteq> 0"
  shows "class_ok (upd_func f g q)"
  using assms by (auto simp: class_ok_def func_info_upd)

lemma class_upd [simp]:
  "class_ok q \<Longrightarrow> class_ok (upd_func f (\<lambda>fi. fi\<lparr>eState := s\<rparr>) q)"
  "class_ok q \<Longrightarrow> class_ok (upd_func f (\<lambda>fi. fi\<lparr>pSingleStep := None\<rparr>) q)"
  by (rule class_upd_func; simp)+

lemma class_select: "class_ok q \<Longrightarrow> txnQ_SelectTxn q = Some (t, q1) \<Longrightarrow> class_ok q1"
proof (erule select_cases, goal_cases)
  case (1 f)
  then show ?case by simp
next
  case (2 f p h a)
  from deq_h_some [OF 2(2)] have "set (items_h h) \<subseteq> set (items_h (txn_queue q f p))" by auto
  with 2(1) have "class_ok (set_queue f p h q)" by (intro class_set_queue) (auto simp: class_ok_def)
  with 2 show ?case by simp
qed

lemma class_submit: "class_ok q \<Longrightarrow> class_ok (snd (txn_submit t q))"
proof -
  assume c: "class_ok q"
  have d: "class_ok (drop_single f q)" "txnMem (drop_single f q) = txnMem q" for f
    using c by (simp_all add: drop_single_def split: option.splits)
  obtain st h where e: "enq_h (linked_txn q t) (txn_queue q (txn_func q t) (txn_prio q t)) t = (st, h)" by force
  have "\<forall>x\<in>set (items_h h). txn_func q x = txn_func q t \<and> TXN_PARAM_GET_SINGLE_STEP (txnMem q x) = 0"
    if "TXN_PARAM_GET_SINGLE_STEP (txnMem q t) = 0" using that enq_h_items [OF e] c by (auto simp: class_ok_def split: if_splits)
  then show ?thesis using e c d by (auto simp: txn_submit_def Let_def intro!: class_upd_func class_set_queue)
qed

lemma class_clear: "class_ok q \<Longrightarrow> class_ok (txnQ_ClearQueues f q)"
proof -
  have "class_ok q \<Longrightarrow> class_ok (clear_queue f q i)" for q i
    by (simp add: clear_queue_def class_set_queue items_h_def split: option.splits)
  then have "class_ok q \<Longrightarrow> class_ok (foldl (clear_queue f) q xs)" for q xs
    by (induction xs arbitrary: q) simp_all
  moreover assume "class_ok q"
  ultimately show ?thesis
    by (simp add: txnQ_ClearQueues_def Let_def drop_single_def split: option.splits)
qed

interpretation cls: txn_inv class_ok
proof (unfold_locales, goal_cases)
  case (1 q t q1)
  then show ?case using class_select [of q t q1] by (simp add: send_txn_def)
next
  case (2 q t inp)
  then show ?case by (simp add: complete_txn_def done_enqueue_def Let_def split_beta)
next
  case (3 q t)
  then show ?case by (simp add: done_enqueue_def Let_def split_beta)
next
  case (6 q t)
  then show ?case by (auto simp: class_ok_def TXN_SET_STATUS_get TXN_PARAM_STATUS_RECOVERY_def)
qed (simp_all add: class_submit class_clear)

section \<open>The invariant of the queue below the bus interface\<close>

text \<open>
  \<open>E\<close> are the two transactions of the ELP register. Every other transaction is under way once, all are
  the WLAN function's, which is the only one that is open.
\<close>

definition tw_q :: "addr set \<Rightarrow> TTxnQObj \<Rightarrow> bool" where
  "tw_q E q \<longleftrightarrow> txnq_wf q \<and> class_ok q \<and> txnq_quiet q \<and> 0 \<notin># flight q \<and> (\<forall>t. t \<notin> E \<longrightarrow> count (flight q) t \<le> 1) \<and>
     (\<forall>t. t \<in># flight q \<or> t \<in> E \<longrightarrow> txn_func q t = WLAN) \<and>
     (\<forall>t. t \<in># flight q \<or> t \<in> E \<longrightarrow> (TXN_PARAM_GET_SINGLE_STEP (txnMem q t) = 0 \<longleftrightarrow> t \<notin> E)) \<and>
     (\<forall>f. f \<noteq> WLAN \<longrightarrow> eState (func_info q f) = FUNC_STATE_NONE)"

definition regs :: "addr set \<Rightarrow> TTxnQObj \<Rightarrow> addr set" where
  "regs E q = {t. t \<in># flight q \<and> t \<notin> E}"

abbreviation reg_of :: "addr set \<Rightarrow> addr list \<Rightarrow> addr list" where
  "reg_of E \<equiv> filter (\<lambda>t. t \<notin> E)"

lemma finite_regs [simp]: "finite (regs E q)"
  by (rule finite_subset [of _ "set_mset (flight q)"]) (auto simp: regs_def)

lemma moves_regs:
  assumes "tw_q E q" "txn_moves q q' cs rs sent"
  shows "distinct (reg_of E (cs @ rs))" "set (reg_of E (cs @ rs)) \<subseteq> regs E q" "regs E q' = regs E q - set (cs @ rs)"
    "card (regs E q) = card (regs E q') + length (reg_of E cs) + length (reg_of E rs)"
proof -
  obtain xs where x: "flight q = flight q' + mset cs + mset rs + mset xs" "\<forall>x\<in>set xs. 2 \<le> count (flight q) x"
    using assms(2) by (auto simp: txn_moves_def)
  have one: "t \<notin> E \<Longrightarrow> count (flight q) t \<le> 1" for t using assms(1) by (simp add: tw_q_def)
  have xs: "count (mset xs) t = 0" if "t \<notin> E" for t
  proof -
    have "t \<notin> set xs" using x(2) one [OF that] by fastforce
    then show ?thesis by (simp add: count_list_0_iff)
  qed
  have c: "count (flight q) t = count (flight q') t + count (mset (cs @ rs)) t" if "t \<notin> E" for t
    using x(1) xs [OF that] by simp
  have "count (mset (reg_of E (cs @ rs))) t \<le> 1" for t
  proof (cases "t \<in> E")
    case True
    then show ?thesis by (simp add: not_in_iff [symmetric] del: count_mset)
  next
    case False
    then have "count (mset (reg_of E (cs @ rs))) t = count (mset (cs @ rs)) t"
      by simp
    then show ?thesis using c [OF False] one [OF False] by simp
  qed
  then show d: "distinct (reg_of E (cs @ rs))"
    by (simp only: distinct_count_atmost_1) (metis One_nat_def count_mset_0_iff le_Suc_eq le_zero_eq count_mset_gt_0 gr_zeroI)
  show s: "set (reg_of E (cs @ rs)) \<subseteq> regs E q" using x(1) by (auto simp: regs_def)
  show r: "regs E q' = regs E q - set (cs @ rs)"
  proof (rule set_eqI)
    fix t
    show "t \<in> regs E q' \<longleftrightarrow> t \<in> regs E q - set (cs @ rs)"
    proof (cases "t \<in> E")
      case False
      have "t \<in># flight q' \<longleftrightarrow> t \<in># flight q \<and> t \<notin> set (cs @ rs)"
        using c [OF False] one [OF False] unfolding count_greater_zero_iff [symmetric] set_mset_mset [symmetric] by linarith
      then show ?thesis using False by (simp add: regs_def)
    qed (simp add: regs_def)
  qed
  have "regs E q = regs E q' \<union> set (reg_of E (cs @ rs))" using r s by (auto simp: regs_def)
  moreover have "regs E q' \<inter> set (reg_of E (cs @ rs)) = {}" using r by auto
  ultimately have "card (regs E q) = card (regs E q') + card (set (reg_of E (cs @ rs)))"
    by (metis card_Un_disjoint finite_regs finite_set)
  then show "card (regs E q) = card (regs E q') + length (reg_of E cs) + length (reg_of E rs)"
    using distinct_card [OF d] by simp
qed

lemma moves_tw_q:
  assumes "tw_q E q" "txn_moves q q' cs rs sent" "txnq_wf q'" "class_ok q'" "txnq_quiet q'"
  shows "tw_q E q'"
proof -
  obtain xs where x: "flight q = flight q' + mset cs + mset rs + mset xs" "txnMem q' = txnMem q"
      "\<forall>f. eState (func_info q' f) = eState (func_info q f)"
    using assms(2) by (auto simp: txn_moves_def)
  have sub: "flight q' \<subseteq># flight q" using x(1) by simp
  then have c: "count (flight q') t \<le> count (flight q) t" for t by (rule mset_subset_eq_count)
  have m: "t \<in># flight q' \<Longrightarrow> t \<in># flight q" for t using sub by (rule mset_subset_eqD)
  have one: "count (flight q) t \<le> 1 \<Longrightarrow> count (flight q') t \<le> 1" for t using c [of t] by linarith
  then show ?thesis using assms m unfolding tw_q_def x(2) by (auto simp: x(3))
qed

section \<open>The operations\<close>

text \<open>What holds between the operations: nothing waits for its report, and the bus is used or has no work.\<close>

definition tw_rest :: "TTxnQObj \<Rightarrow> bool" where
  "tw_rest q \<longleftrightarrow> hTxnDoneQueue q = Some [] \<and> (pCurrTxn q \<noteq> None \<or> txnQ_SelectTxn q = None)"

text \<open>\<open>q1\<close> is the queue when the scheduler is started.\<close>

lemma run_tw:
  assumes "tw_q E q1" "hTxnDoneQueue q1 = Some d0" "distinct d0" "pCurrTxn q1 \<noteq> None \<Longrightarrow> d0 = []"
  shows "\<exists>st q' cs rs sent. txnQ_RunScheduler bus no_client inp q1 = Some (st, q') \<and> txn_moves q1 q' cs rs sent \<and>
    input_result inp TXN_STATUS_PENDING q1 rs st \<and> tw_q E q' \<and> tw_rest q'"
proof -
  have q: "txnq_wf q1" "class_ok q1" "txnq_quiet q1" "0 \<notin># flight q1" using assms(1) by (simp_all add: tw_q_def)
  obtain st q' cs rs sent where r: "txnQ_RunScheduler bus no_client inp q1 = Some (st, q')" "txn_moves q1 q' cs rs sent"
      "input_result inp TXN_STATUS_PENDING q1 rs st" "txnq_quiet q'" "hTxnDoneQueue q' = Some []"
    using run_no_client [OF q(3) assms(2,3) q(4) assms(4), of bus inp] by blast
  have "tw_q E q'"
    by (rule moves_tw_q [OF assms(1) r(2) wfq.I_RunScheduler [OF q(1) r(1)] cls.I_RunScheduler [OF q(2) r(1)] r(4)])
  moreover have "pCurrTxn q' \<noteq> None \<or> txnQ_SelectTxn q' = None"
    using run_returns [OF q(3), of 0 no_client bus inp] r(1) by (simp add: no_client_def)
  ultimately show ?thesis using r by (auto simp: tw_rest_def)
qed

lemma tw_q_fields:
  assumes "tw_q E q"
  shows "txnq_wf q" "class_ok q" "txnq_quiet q" "0 \<notin># flight q" "t \<notin> E \<Longrightarrow> count (flight q) t \<le> 1"
    "t \<in># flight q \<or> t \<in> E \<Longrightarrow> txn_func q t = WLAN"
    "t \<in># flight q \<or> t \<in> E \<Longrightarrow> TXN_PARAM_GET_SINGLE_STEP (txnMem q t) = 0 \<longleftrightarrow> t \<notin> E"
    "f \<noteq> WLAN \<Longrightarrow> eState (func_info q f) = FUNC_STATE_NONE"
  using assms by (auto simp: tw_q_def)

lemma slot_flight: "set (slot q f) \<subseteq> set_mset (flight q)"
proof -
  have "x \<in># flight q" if "pSingleStep (func_info q f) = Some x" for x
  proof -
    have "f < length (aFuncInfo q)" using that by (auto simp: func_info_def no_func_def split: if_splits)
    then have "aFuncInfo q ! f \<in> set (aFuncInfo q)" "pSingleStep (aFuncInfo q ! f) = Some x"
      using that by (simp_all add: func_info_def)
    then have "x \<in> set (singles q)" by (force simp: singles_def)
    then show ?thesis by (simp add: flight_def waiting_def)
  qed
  then show ?thesis by (auto simp: slot_def split: option.splits)
qed

text \<open>Submitting a transaction of the interface.\<close>

definition submitted :: "addr \<Rightarrow> TTxnQObj \<Rightarrow> TTxnQObj \<Rightarrow> bool" where
  "submitted t q q1 \<longleftrightarrow> cbLog q1 = cbLog q \<and> retLog q1 = retLog q \<and> busLog q1 = busLog q \<and> txnMem q1 = txnMem q \<and>
     pCurrTxn q1 = pCurrTxn q \<and> (\<forall>f. eState (func_info q1 f) = eState (func_info q f))"

lemma submit_tw:
  assumes q: "tw_q E q" and t: "t \<noteq> 0" "txn_func q t = WLAN" "TXN_PARAM_GET_SINGLE_STEP (txnMem q t) = 0 \<longleftrightarrow> t \<notin> E"
    "t \<notin> E \<Longrightarrow> t \<notin># flight q" and s: "txn_submit t q = (True, q1)"
  shows "tw_q E q1" "regs E q1 = regs E q \<union> (if t \<in> E then {} else {t})" "t \<notin> E \<Longrightarrow> count (flight q1) t = 1"
proof -
  note f = tw_q_fields [OF q]
  note same = submit_same [OF s]
  let ?old = "if TXN_PARAM_GET_SINGLE_STEP (txnMem q t) \<noteq> 0 then slot q WLAN else []"
  have fl: "flight q + {#t#} = flight q1 + mset ?old" using submit_flight [OF f(1) s] t(2) by simp
  have old: "set ?old \<subseteq> E"
  proof
    fix x assume "x \<in> set ?old"
    then have x: "pSingleStep (func_info q WLAN) = Some x" "x \<in> set (slot q WLAN)"
      by (auto simp: slot_def split: option.splits if_splits)
    then have "TXN_PARAM_GET_SINGLE_STEP (txnMem q x) \<noteq> 0" using f(2) by (simp add: class_ok_def)
    then show "x \<in> E" using f(7) x(2) slot_flight by blast
  qed
  have c: "count (flight q1) x = count (flight q) x + (if x = t then 1 else 0)" if "x \<notin> E" for x
  proof -
    have "count (mset ?old) x = 0" using old that by (meson count_mset_0_iff subsetD)
    then show ?thesis using arg_cong [OF fl, of "\<lambda>m. count m x"] by (auto split: if_splits)
  qed
  have m: "x \<in># flight q \<or> x = t" if "x \<in># flight q1" for x
  proof -
    have "x \<in># flight q + {#t#}" unfolding fl using that by simp
    then show ?thesis by auto
  qed
  show "regs E q1 = regs E q \<union> (if t \<in> E then {} else {t})"
  proof -
    have "x \<notin># flight q1 \<longleftrightarrow> x \<notin># flight q \<and> x \<noteq> t" if "x \<notin> E" for x using c [OF that] by (simp add: not_in_iff)
    then show ?thesis unfolding regs_def by (cases "t \<in> E") auto
  qed
  show "count (flight q1) t = 1" if "t \<notin> E" using c [OF that] t(4) [OF that] by (simp add: not_in_iff)
  have "txnq_wf q1" "class_ok q1" "txnq_quiet q1"
    using wfq.I_submit [OF f(1), of t] class_submit [OF f(2), of t] quiet_ops(1) [of t q] f(3) s by simp_all
  moreover have "count (flight q1) x \<le> 1" if "x \<notin> E" for x
    using c [OF that] f(5) [OF that] t(4) that by (cases "x = t") (auto simp: not_in_iff)
  ultimately show "tw_q E q1" using m f t(1-3) same unfolding tw_q_def by (metis (no_types, lifting))
qed

lemma transact_tw:
  assumes q: "tw_q E q" "tw_rest q" and t: "t \<noteq> 0" "txn_func q t = WLAN" "TXN_PARAM_GET_SINGLE_STEP (txnMem q t) = 0 \<longleftrightarrow> t \<notin> E"
    "t \<notin> E \<Longrightarrow> t \<notin># flight q"
  shows "\<exists>st q' acc q1 cs rs sent. txnQ_Transact bus no_client t q = Some (st, q') \<and> tw_q E q' \<and> tw_rest q' \<and> tw_q E q1 \<and>
    regs E q1 = regs E q \<union> (if acc \<and> t \<notin> E then {t} else {}) \<and> txn_moves q1 q' cs rs sent \<and> submitted t q q1 \<and>
    hTxnDoneQueue q1 = Some [] \<and> reg_of E rs = (if acc \<and> t \<notin> E \<and> st \<noteq> TXN_STATUS_PENDING then [t] else []) \<and>
    (acc \<or> st = TXN_STATUS_ERROR)"
proof -
  obtain ok q1 where s: "txn_submit t q = (ok, q1)" by force
  have d: "hTxnDoneQueue q = Some []" using q(2) by (simp add: tw_rest_def)
  show ?thesis
  proof (cases ok)
    case False
    then have "q1 = q" using submit_refused [of t q] s by simp
    then have "txnQ_Transact bus no_client t q = Some (TXN_STATUS_ERROR, q)" using False s by (simp add: txnQ_Transact_def)
    moreover have "txn_moves q q [] [] []" "submitted t q q" by (auto simp: txn_moves_def submitted_def)
    ultimately show ?thesis using q d
      by (intro exI [of _ TXN_STATUS_ERROR] exI [of _ q] exI [of _ False] exI [of _ "[]"]) simp
  next
    case True
    have s: "txn_submit t q = (True, q1)" using s True by simp
    note q1 = submit_tw [OF q(1) t s]
    note same = submit_same [OF s]
    have sub: "submitted t q q1" using same by (simp add: submitted_def)
    have d1: "hTxnDoneQueue q1 = Some []" using same d by simp
    obtain st q' cs rs sent where r: "txnQ_RunScheduler bus no_client (Some t) q1 = Some (st, q')" "txn_moves q1 q' cs rs sent"
        "input_result (Some t) TXN_STATUS_PENDING q1 rs st" "tw_q E q'" "tw_rest q'"
      using run_tw [OF q1(1) d1] by fastforce
    have "set rs \<subseteq> {t}" "t \<notin> E \<Longrightarrow> rs = (if st = TXN_STATUS_PENDING then [] else [t])"
      using r(3) q1(3) by (auto simp: input_result_def)
    then have "reg_of E rs = (if True \<and> t \<notin> E \<and> st \<noteq> TXN_STATUS_PENDING then [t] else [])"
      by (cases "t \<in> E") (auto simp: filter_empty_conv)
    moreover have "txnQ_Transact bus no_client t q = Some (st, q')" using s r(1) by (simp add: txnQ_Transact_def)
    moreover have "regs E q1 = regs E q \<union> (if True \<and> t \<notin> E then {t} else {})" using q1(2) by auto
    ultimately show ?thesis using r(2,4,5) q1(1) sub d1 by blast
  qed
qed

text \<open>Changes of the function's state.\<close>

lemma state_tw:
  assumes "tw_q E q" "s \<noteq> FUNC_STATE_NONE"
  defines "q1 \<equiv> upd_func WLAN (\<lambda>fi. fi\<lparr>eState := s\<rparr>) q"
  shows "tw_q E q1" "flight q1 = flight q" "eState (func_info q1 WLAN) = s" "hTxnDoneQueue q1 = hTxnDoneQueue q"
    "cbLog q1 = cbLog q" "busLog q1 = busLog q" "txnMem q1 = txnMem q" "pCurrTxn q1 = pCurrTxn q"
proof -
  have w: "waiting q1 = waiting q"
    using waiting_upd_func [of WLAN "\<lambda>fi. fi\<lparr>eState := s\<rparr>" q] unfolding q1_def
    by (cases "WLAN < length (aFuncInfo q)") (auto simp: func_info_def no_func_def)
  show fr: "hTxnDoneQueue q1 = hTxnDoneQueue q" "cbLog q1 = cbLog q" "busLog q1 = busLog q" "txnMem q1 = txnMem q"
    "pCurrTxn q1 = pCurrTxn q" by (simp_all add: q1_def)
  show fl: "flight q1 = flight q" using w fr by (simp add: flight_def curr_txn_def)
  note f = tw_q_fields [OF assms(1)]
  have "WLAN < length (aFuncInfo q)" using f(1) by (simp add: txnq_wf_def)
  then show "eState (func_info q1 WLAN) = s" by (simp add: q1_def func_info_upd)
  have "txnq_wf q1" "class_ok q1" "txnq_quiet q1" using f assms(2) by (simp_all add: q1_def wf_upd_func)
  moreover have "g \<noteq> WLAN \<Longrightarrow> func_info q1 g = func_info q g" for g by (simp add: q1_def func_info_upd)
  ultimately show "tw_q E q1" using assms(1) unfolding tw_q_def fl fr by simp
qed

lemma stop_rest:
  assumes "tw_rest q"
  shows "tw_rest (txnQ_Stop f q)"
proof -
  let ?q = "txnQ_Stop f q"
  have i: "pSingleStep (func_info ?q g) = pSingleStep (func_info q g)" "serves ?q g p \<Longrightarrow> serves q g p" for g p
    by (auto simp: txnQ_Stop_def func_info_upd serves_def split: if_splits)
  have r: "func_range ?q = func_range q" "prio_range ?q = prio_range q" "pAggregQueue ?q = pAggregQueue q"
    by (simp_all add: txnQ_Stop_def upd_func_def func_range_def prio_range_def)
  have "txnQ_SelectTxn q = None \<Longrightarrow> txnQ_SelectTxn ?q = None"
    unfolding select_none r i(1) using i(2) by (auto simp: txnQ_Stop_def split: option.splits)
  then show ?thesis using assms by (auto simp: tw_rest_def txnQ_Stop_def)
qed

lemma run_op_tw:
  assumes "tw_q E q" "tw_rest q"
  shows "\<exists>q1 q' cs sent. txnQ_Run bus no_client WLAN q = Some q' \<and> tw_q E q1 \<and> flight q1 = flight q \<and> txn_moves q1 q' cs [] sent \<and>
    cbLog q1 = cbLog q \<and> busLog q1 = busLog q \<and> txnMem q1 = txnMem q \<and> hTxnDoneQueue q1 = Some [] \<and>
    eState (func_info q1 WLAN) = FUNC_STATE_RUNNING \<and> tw_q E q' \<and> tw_rest q'"
proof -
  let ?q1 = "upd_func WLAN (\<lambda>fi. fi\<lparr>eState := FUNC_STATE_RUNNING\<rparr>) q"
  have "FUNC_STATE_RUNNING \<noteq> FUNC_STATE_NONE" by simp
  note s = state_tw [OF assms(1) this]
  have d: "hTxnDoneQueue ?q1 = Some []" using s assms(2) by (simp add: tw_rest_def)
  obtain st q' cs rs sent where r: "txnQ_RunScheduler bus no_client None ?q1 = Some (st, q')" "txn_moves ?q1 q' cs rs sent"
      "input_result None TXN_STATUS_PENDING ?q1 rs st" "tw_q E q'" "tw_rest q'"
    using run_tw [OF s(1) d] by fastforce
  then have "rs = []" by (simp add: input_result_def)
  moreover have "txnQ_Run bus no_client WLAN q = Some q'" using r(1) by (simp add: txnQ_Run_def)
  ultimately show ?thesis using r s d by blast
qed

text \<open>The completion of the transaction on the bus.\<close>

lemma complete_tw:
  assumes q: "tw_q E q" "tw_rest q" and t: "pCurrTxn q = Some t" and ns: "eState (func_info q WLAN) \<noteq> FUNC_STATE_RESTART"
  shows "\<exists>q1 q' cs sent. txnQ_TxnDoneCb bus no_client t q = Some q' \<and> tw_q E q1 \<and> regs E q1 = regs E q \<and> txn_moves q1 q' cs [] sent \<and>
    cbLog q1 = cbLog q \<and> busLog q1 = busLog q \<and> txnMem q1 = txnMem q \<and> set (items_h (hTxnDoneQueue q1)) \<subseteq> {t} \<and>
    (\<forall>f. eState (func_info q1 f) = eState (func_info q f)) \<and> tw_q E q' \<and> tw_rest q'"
proof -
  let ?q1 = "(done_enqueue t q)\<lparr>pCurrTxn := None\<rparr>"
  note f = tw_q_fields [OF q(1)]
  have tf: "t \<in># flight q" using t by (simp add: flight_def curr_txn_def)
  then have fn: "txn_func q t = WLAN" using f(6) by blast
  have d: "hTxnDoneQueue q = Some []" using q(2) by (simp add: tw_rest_def)
  have t0: "t \<noteq> 0" using tf f(4) by auto
  have w: "waiting ?q1 = waiting q" by simp
  have ok: "hTxnDoneQueue ?q1 = Some [t] \<and> flight ?q1 = flight q \<or>
      hTxnDoneQueue ?q1 = Some [] \<and> flight q = flight ?q1 + {#t#} \<and> t \<in> E"
  proof -
    consider (ok) "hTxnDoneQueue (done_enqueue t q) = Some [t]" | (no) "hTxnDoneQueue (done_enqueue t q) = Some []" "linked_txn q t"
      using done_enqueue_ok [OF d _ _ t0] by auto
    then show ?thesis
    proof cases
      case ok
      then show ?thesis using t d w by (simp add: flight_def curr_txn_def items_h_def)
    next
      case no
      have "2 \<le> count (flight q) t" using linked_flight [OF no(2)] t by (simp add: flight_def curr_txn_def)
      then have "t \<in> E" using f(5) by fastforce
      then show ?thesis using no t d w by (simp add: flight_def curr_txn_def items_h_def)
    qed
  qed
  have same: "cbLog ?q1 = cbLog q" "busLog ?q1 = busLog q" "txnMem ?q1 = txnMem q" "func_info ?q1 g = func_info q g" for g
    by (simp_all add: done_enqueue_def Let_def split_beta)
  have "tw_q E ?q1"
  proof -
    have "txnq_wf ?q1" "class_ok ?q1" "txnq_quiet ?q1" using f cls.I_done [OF f(2) t] by (simp_all add: wf_done_enqueue)
    moreover have "flight ?q1 \<subseteq># flight q" using ok by auto
    then have "count (flight ?q1) x \<le> count (flight q) x" "x \<in># flight ?q1 \<Longrightarrow> x \<in># flight q" for x
      by (rule mset_subset_eq_count, meson mset_subset_eqD)
    ultimately show ?thesis using f unfolding tw_q_def same by (meson order_trans)
  qed
  moreover have "regs E ?q1 = regs E q" using ok by (auto simp: regs_def)
  moreover obtain d0 where d1: "hTxnDoneQueue ?q1 = Some d0" "distinct d0" "set d0 \<subseteq> {t}" using ok by auto
  ultimately obtain st q' cs rs sent where r: "txnQ_RunScheduler bus no_client None ?q1 = Some (st, q')" "txn_moves ?q1 q' cs rs sent"
      "input_result None TXN_STATUS_PENDING ?q1 rs st" "tw_q E q'" "tw_rest q'"
    using run_tw [of E ?q1 d0 bus None] by auto
  have "txnQ_TxnDoneCb bus no_client t q = Some q'" using r(1) ns fn by (simp add: txnQ_TxnDoneCb_def Let_def)
  moreover have "rs = []" using r(3) by (simp add: input_result_def)
  moreover have "set (items_h (hTxnDoneQueue ?q1)) \<subseteq> {t}" using d1 by (simp add: items_h_def)
  ultimately show ?thesis using r \<open>tw_q E ?q1\<close> \<open>regs E ?q1 = regs E q\<close> same by metis
qed

section \<open>Restart\<close>

lemma queued_queue: "t \<in> set (queued q) \<Longrightarrow> \<exists>f p. t \<in> set (items_h (txn_queue q f p))"
  by (auto simp: queued_def txn_queue_def in_set_conv_nth) (metis nth_mem)

lemma clear_queue_same:
  "func_info (clear_queue f q i) g = func_info q g" "cbLog (clear_queue f q i) = cbLog q" "busLog (clear_queue f q i) = busLog q"
  "txnMem (clear_queue f q i) = txnMem q" "hTxnDoneQueue (clear_queue f q i) = hTxnDoneQueue q" "pCurrTxn (clear_queue f q i) = pCurrTxn q"
  "pAggregQueue (clear_queue f q i) = pAggregQueue q"
  by (simp_all add: clear_queue_def set_queue_def func_info_def split: option.splits)

lemma clear_fold_frames:
  "func_info (foldl (clear_queue f) q js) g = func_info q g" "cbLog (foldl (clear_queue f) q js) = cbLog q"
  "busLog (foldl (clear_queue f) q js) = busLog q" "txnMem (foldl (clear_queue f) q js) = txnMem q"
  "hTxnDoneQueue (foldl (clear_queue f) q js) = hTxnDoneQueue q" "pCurrTxn (foldl (clear_queue f) q js) = pCurrTxn q"
  by (induction js arbitrary: q) (simp_all add: clear_queue_same)

lemma clear_queue_queue:
  "txn_queue (clear_queue f q i) g p = (if g = f \<and> p = i \<and> txn_queue q f i \<noteq> None then Some [] else txn_queue q g p)"
proof (cases "txn_queue q f i")
  case None
  then show ?thesis by (simp add: clear_queue_def)
next
  case (Some xs)
  then have "f < length (aTxnQueues q) \<and> i < length (aTxnQueues q ! f)" by (auto simp: txn_queue_def split: if_splits)
  moreover have "txn_queue (clear_queue f q i) g p = txn_queue (set_queue f i (Some []) q) g p"
    using Some by (simp add: clear_queue_def txn_queue_def)
  ultimately show ?thesis using Some by (simp add: txn_queue_set)
qed

lemma clear_fold_queue:
  "txn_queue (foldl (clear_queue f) q js) g p = txn_queue q g p \<or> items_h (txn_queue (foldl (clear_queue f) q js) g p) = []"
  "p \<in> set js \<Longrightarrow> items_h (txn_queue (foldl (clear_queue f) q js) f p) = []"
proof -
  have one: "txn_queue (clear_queue f q i) g p = txn_queue q g p \<or> items_h (txn_queue (clear_queue f q i) g p) = []"
    "items_h (txn_queue (clear_queue f q i) f i) = []" for q i g p
    by (auto simp: clear_queue_queue items_h_def)
  show A: "txn_queue (foldl (clear_queue f) q js) g p = txn_queue q g p \<or> items_h (txn_queue (foldl (clear_queue f) q js) g p) = []" for q js g p
    by (induction js arbitrary: q) (simp, metis foldl_Cons one(1))
  show "p \<in> set js \<Longrightarrow> items_h (txn_queue (foldl (clear_queue f) q js) f p) = []"
  proof (induction js arbitrary: q)
    case (Cons i js)
    then show ?case using A [where q = "clear_queue f q i" and js = js and g = f and p = p] one(2) by auto
  qed simp
qed

lemma clear_tw:
  assumes q: "tw_q E q"
  defines "q1 \<equiv> txnQ_ClearQueues WLAN q"
  shows "waiting q1 = {#}" "cbLog q1 = cbLog q" "busLog q1 = busLog q" "txnMem q1 = txnMem q" "hTxnDoneQueue q1 = hTxnDoneQueue q"
    "pCurrTxn q1 = pCurrTxn q" "eState (func_info q1 f) = (if f = WLAN then FUNC_STATE_RUNNING else eState (func_info q f))"
    "txnq_wf q1" "class_ok q1" "txnq_quiet q1"
proof -
  note f = tw_q_fields [OF q]
  have len: "WLAN < length (aFuncInfo q)" using f(1) by (simp add: txnq_wf_def)
  let ?a = "upd_func WLAN (\<lambda>fi. fi\<lparr>pSingleStep := None\<rparr>) (drop_single WLAN q)"
  let ?is = "[0..<unat (uNumPrios (func_info ?a WLAN))]"
  let ?b = "foldl (clear_queue WLAN) ?a ?is"
  have q1: "q1 = upd_func WLAN (\<lambda>fi. fi\<lparr>eState := FUNC_STATE_RUNNING\<rparr>) ?b" by (simp add: q1_def txnQ_ClearQueues_def Let_def)
  have dr: "busLog (drop_single WLAN q) = busLog q" "txnMem (drop_single WLAN q) = txnMem q" "txn_queue (drop_single WLAN q) g p = txn_queue q g p" for g p
    by (simp_all add: drop_single_def split: option.splits)
  show "cbLog q1 = cbLog q" "busLog q1 = busLog q" "txnMem q1 = txnMem q" "hTxnDoneQueue q1 = hTxnDoneQueue q"
    "pCurrTxn q1 = pCurrTxn q"
    unfolding q1 by (simp_all add: clear_fold_frames dr)
  have lb: "length (aFuncInfo ?b) = length (aFuncInfo q)"
  proof -
    have "length (aFuncInfo (foldl (clear_queue WLAN) x js)) = length (aFuncInfo x)" for x js
      by (induction js arbitrary: x) (simp_all add: clear_queue_def split: option.splits)
    then show ?thesis by simp
  qed
  show "eState (func_info q1 f) = (if f = WLAN then FUNC_STATE_RUNNING else eState (func_info q f))"
    unfolding q1 using len lb by (simp add: func_info_upd clear_fold_frames)
  show "txnq_wf q1" "class_ok q1" "txnq_quiet q1" unfolding q1_def using f by (simp_all add: wf_clear class_clear)
  have "items_h (txn_queue q1 g p) = []" for g p
  proof (cases "g = WLAN")
    case True
    have n: "uNumPrios (func_info ?a WLAN) = uNumPrios (func_info q WLAN)" by (simp add: func_info_upd)
    show ?thesis
    proof (cases "p < unat (uNumPrios (func_info q WLAN))")
      case True
      then show ?thesis using clear_fold_queue(2) [of p ?is WLAN ?a] \<open>g = WLAN\<close> n unfolding q1 by simp
    next
      case False
      then have "txn_queue q WLAN p = None" using queue_used [OF f(1), of WLAN p] by blast
      then show ?thesis using clear_fold_queue(1) [of WLAN ?a ?is WLAN p] \<open>g = WLAN\<close> dr unfolding q1 by (auto simp: items_h_def)
    qed
  next
    case False
    then have "txn_queue q g p = None" using wf_no_func [OF f(1) f(8)] by blast
    then show ?thesis using clear_fold_queue(1) [of WLAN ?a ?is g p] dr unfolding q1 by (auto simp: items_h_def)
  qed
  then have nq: "queued q1 = []" using queued_queue [of _ q1] by (metis empty_iff list.set(1) list.set_intros(1) neq_Nil_conv)
  have "pSingleStep (func_info q1 g) = None" for g
  proof (cases "g = WLAN")
    case True
    then show ?thesis unfolding q1 using len lb by (simp add: func_info_upd clear_fold_frames)
  next
    case False
    have "pSingleStep (func_info q g) = None"
    proof (rule ccontr)
      assume "pSingleStep (func_info q g) \<noteq> None"
      then obtain x where x: "pSingleStep (func_info q g) = Some x" by auto
      then have "txn_func q x = g" "x \<in># flight q" using f(2) slot_flight [of q g] by (auto simp: class_ok_def slot_def)
      then show False using f(6) [of x] False by simp
    qed
    then show ?thesis using False unfolding q1 by (simp add: func_info_upd clear_fold_frames)
  qed
  then have "\<forall>fi\<in>set (aFuncInfo q1). pSingleStep fi = None"
    by (metis func_info_def in_set_conv_nth)
  then have "singles q1 = []" by (auto simp: singles_def)
  then show "waiting q1 = {#}" using nq by (simp add: waiting_def)
qed

lemma run_idle:
  assumes "txnq_quiet q" "pCurrTxn q = None" "txnQ_SelectTxn q = None" "hTxnDoneQueue q = Some []"
  shows "txnQ_RunScheduler bus no_client None q = Some (TXN_STATUS_PENDING, q)"
proof -
  let ?q = "q\<lparr>bSchedulerBusy := True\<rparr>"
  have n: "txnQ_SelectTxn ?q = None" using assms(3) by simp
  have "send_loop bus None TXN_STATUS_PENDING ?q = (TXN_STATUS_PENDING, ?q)"
    unfolding send_loop.simps [of bus None _ ?q] n by simp
  moreover have "done_loop no_client ?q = ?q" using assms(4) by (simp add: done_loop_no_client items_h_def)
  ultimately show ?thesis
    using assms(1,2) by (simp add: txnQ_RunScheduler_def txnQ_Scheduler_def txnq_quiet_def run_again.simps)
qed

lemma empty_rest: "flight q = {#} \<Longrightarrow> hTxnDoneQueue q = Some [] \<Longrightarrow> tw_rest q \<and> txnQ_SelectTxn q = None \<and> pCurrTxn q = None"
  using select_waiting [of q "fst (the (txnQ_SelectTxn q))" "snd (the (txnQ_SelectTxn q))"]
  by (cases "txnQ_SelectTxn q") (auto simp: tw_rest_def flight_def curr_txn_def split: option.splits)

lemma tw_q_empty:
  assumes "tw_q E q" "txnq_wf q'" "class_ok q'" "txnq_quiet q'" "flight q' = {#}"
    "\<And>t. t \<in> E \<Longrightarrow> txn_func q' t = WLAN \<and> TXN_PARAM_GET_SINGLE_STEP (txnMem q' t) \<noteq> 0"
    "\<And>f. f \<noteq> WLAN \<Longrightarrow> eState (func_info q' f) = FUNC_STATE_NONE"
  shows "tw_q E q'"
  using assms by (auto simp: tw_q_def)

lemma restart_tw:
  assumes q: "tw_q E q" "tw_rest q" and r: "txnQ_Restart WLAN q = (st, q1)"
  shows "tw_q E q1 \<and> tw_rest q1 \<and> cbLog q1 = cbLog q \<and> busLog q1 = busLog q \<and> txnMem q1 = txnMem q \<and>
    (if pCurrTxn q = None then st = TXN_STATUS_COMPLETE \<and> flight q1 = {#} \<and> eState (func_info q1 WLAN) = FUNC_STATE_RUNNING
     else st = TXN_STATUS_PENDING \<and> flight q1 = flight q \<and> pCurrTxn q1 = pCurrTxn q \<and> eState (func_info q1 WLAN) = FUNC_STATE_RESTART)"
proof (cases "pCurrTxn q")
  case None
  note c = clear_tw [OF q(1)]
  note f = tw_q_fields [OF q(1)]
  have q1: "q1 = txnQ_ClearQueues WLAN q" "st = TXN_STATUS_COMPLETE" using r None by (simp_all add: txnQ_Restart_def)
  have d: "hTxnDoneQueue q = Some []" using q(2) by (simp add: tw_rest_def)
  have e: "flight q1 = {#}" using c(1,5,6) None d by (simp add: q1 flight_def curr_txn_def items_h_def)
  have "tw_q E q1" by (rule tw_q_empty [OF q(1)]) (use c f e in \<open>simp_all add: q1\<close>)
  moreover have "tw_rest q1" using empty_rest [OF e] c(5) d by (simp add: q1)
  ultimately show ?thesis using None q1 c e by simp
next
  case (Some t)
  have ne: "FUNC_STATE_RESTART \<noteq> FUNC_STATE_NONE" by simp
  note s = state_tw [OF q(1) ne]
  have "txn_func q t = WLAN" using tw_q_fields(6) [OF q(1)] Some by (simp add: flight_def curr_txn_def)
  then have q1: "q1 = upd_func WLAN (\<lambda>fi. fi\<lparr>eState := FUNC_STATE_RESTART\<rparr>) q" "st = TXN_STATUS_PENDING"
    using r Some by (simp_all add: txnQ_Restart_def)
  have "tw_rest q1" using s(4,8) q(2) Some by (simp add: q1 tw_rest_def)
  then show ?thesis using s Some by (simp add: q1)
qed

lemma restart_done_tw:
  assumes q: "tw_q E q" "tw_rest q" and t: "pCurrTxn q = Some t" and rs: "eState (func_info q WLAN) = FUNC_STATE_RESTART"
  shows "\<exists>q'. txnQ_TxnDoneCb bus no_client t q = Some q' \<and> tw_q E q' \<and> tw_rest q' \<and> flight q' = {#} \<and> cbLog q' = cbLog q @ [t] \<and>
    busLog q' = busLog q \<and> txnMem q' = (txnMem q)(t := TXN_PARAM_SET_STATUS TXN_PARAM_STATUS_RECOVERY (txnMem q t)) \<and>
    eState (func_info q' WLAN) = FUNC_STATE_RUNNING"
proof -
  note f = tw_q_fields [OF q(1)]
  note c = clear_tw [OF q(1)]
  let ?c = "txnQ_ClearQueues WLAN q"
  let ?m = "(txnMem q)(t := TXN_PARAM_SET_STATUS TXN_PARAM_STATUS_RECOVERY (txnMem q t))"
  let ?q' = "?c\<lparr>txnMem := ?m, cbLog := cbLog q @ [t], pCurrTxn := None\<rparr>"
  have fn: "txn_func q t = WLAN" using f(6) t by (simp add: flight_def curr_txn_def)
  have d: "hTxnDoneQueue ?q' = Some []" using c(5) q(2) by (simp add: tw_rest_def)
  have e: "flight ?q' = {#}" using c(1) d by (simp add: flight_def curr_txn_def items_h_def)
  note er = empty_rest [OF e d]
  have "class_ok ?q'" using cls.I_recover [OF c(9), where t = t] c(2,4,6) t by simp
  have el: "txn_func ?q' x = txn_func q x" "TXN_PARAM_GET_SINGLE_STEP (txnMem ?q' x) = TXN_PARAM_GET_SINGLE_STEP (txnMem q x)" for x
    by (simp_all add: TXN_SET_STATUS_get TXN_PARAM_STATUS_RECOVERY_def)
  have tq: "tw_q E ?q'" by (rule tw_q_empty [OF q(1)]) (use c f e \<open>class_ok ?q'\<close> el in simp_all)
  have "txnQ_TxnDoneCb bus no_client t q = map_option snd (txnQ_RunScheduler bus no_client None ?q')"
    using rs fn c(2,4) by (simp add: txnQ_TxnDoneCb_def Let_def no_client_def)
  also have "\<dots> = Some ?q'" using run_idle [of ?q' bus] er d tq by (simp add: tw_q_def)
  finally show ?thesis using tq er e c by simp
qed

end
