(* ===== verification/WlTwIfInv.thy ===== *)
theory WlTwIfInv
  imports WlTwTxn
begin

text \<open>
  The reachable states of the bus interface and their invariant: what is pending is counted, the state
  of the device agrees with the queue and with what was written to the ELP register, and a completed
  transaction has the handler asked for.
\<close>

section \<open>The statuses that the bus driver writes\<close>

definition same_txn :: "TTxnStruct \<Rightarrow> TTxnStruct \<Rightarrow> bool" where
  "same_txn x y \<longleftrightarrow> uHwAddr x = uHwAddr y \<and> fTxnDoneCb x = fTxnDoneCb y \<and> TXN_PARAM_GET_FUNC_ID x = TXN_PARAM_GET_FUNC_ID y \<and>
     TXN_PARAM_GET_SINGLE_STEP x = TXN_PARAM_GET_SINGLE_STEP y"

definition status_ok :: "TTxnStruct \<Rightarrow> bool" where
  "status_ok x \<longleftrightarrow> TXN_PARAM_GET_STATUS x \<noteq> TXN_PARAM_STATUS_RECOVERY"

lemma status_consts [simp]:
  "take_bit 4 TXN_PARAM_STATUS_OK = TXN_PARAM_STATUS_OK" "take_bit 4 TXN_PARAM_STATUS_ERROR = TXN_PARAM_STATUS_ERROR"
  "take_bit 4 TXN_PARAM_STATUS_RECOVERY = TXN_PARAM_STATUS_RECOVERY"
  by (simp_all add: TXN_PARAM_STATUS_OK_def TXN_PARAM_STATUS_ERROR_def TXN_PARAM_STATUS_RECOVERY_def)

lemma set_status_same:
  "take_bit 4 v = v \<Longrightarrow> same_txn (TXN_PARAM_SET_STATUS v x) x"
  using TXN_SET_STATUS_get [of v x] by (simp add: same_txn_def) (simp add: TXN_PARAM_SET_STATUS_def)

lemma set_status_ok:
  "v = TXN_PARAM_STATUS_OK \<or> v = TXN_PARAM_STATUS_ERROR \<Longrightarrow> status_ok (TXN_PARAM_SET_STATUS v x)"
  using TXN_SET_STATUS_get(1) [of v x]
  by (auto simp: status_ok_def TXN_PARAM_STATUS_OK_def TXN_PARAM_STATUS_ERROR_def TXN_PARAM_STATUS_RECOVERY_def)

lemma set_txn_mem: "set_txn t f q = q\<lparr>txnMem := (txnMem q)(t := f (txnMem q t))\<rparr>"
  by (simp add: set_txn_def)

lemma writes_fold:
  assumes "\<And>i. g i = TXN_PARAM_STATUS_OK \<or> g i = TXN_PARAM_STATUS_ERROR"
  shows "\<exists>m. foldl (\<lambda>r i. set_txn (h i) (TXN_PARAM_SET_STATUS (g i)) r) q js = q\<lparr>txnMem := m\<rparr> \<and>
    (\<forall>t. same_txn (m t) (txnMem q t)) \<and> (\<forall>i\<in>set js. status_ok (m (h i))) \<and> (\<forall>t. (\<forall>i\<in>set js. h i \<noteq> t) \<longrightarrow> m t = txnMem q t)"
proof (induction js rule: rev_induct)
  case Nil
  show ?case by (intro exI [of _ "txnMem q"]) (simp add: same_txn_def)
next
  case (snoc i js)
  then obtain m where m: "foldl (\<lambda>r i. set_txn (h i) (TXN_PARAM_SET_STATUS (g i)) r) q js = q\<lparr>txnMem := m\<rparr>"
      "\<forall>t. same_txn (m t) (txnMem q t)" "\<forall>i\<in>set js. status_ok (m (h i))" "\<forall>t. (\<forall>i\<in>set js. h i \<noteq> t) \<longrightarrow> m t = txnMem q t"
    by blast
  let ?m = "m(h i := TXN_PARAM_SET_STATUS (g i) (m (h i)))"
  have "take_bit 4 (g i) = g i" using assms [of i] by auto
  then have "same_txn (?m t) (txnMem q t)" for t
    using set_status_same [of "g i" "m (h i)"] m(2) by (auto simp: same_txn_def)
  moreover have "status_ok (?m (h j))" if "j \<in> set (js @ [i])" for j
    using set_status_ok [OF assms, of i "m (h i)"] m(3) that by auto
  moreover have "foldl (\<lambda>r i. set_txn (h i) (TXN_PARAM_SET_STATUS (g i)) r) q (js @ [i]) = q\<lparr>txnMem := ?m\<rparr>"
    using m(1) by (simp add: set_txn_def)
  moreover have "\<forall>t. (\<forall>j\<in>set (js @ [i]). h j \<noteq> t) \<longrightarrow> ?m t = txnMem q t" using m(4) by auto
  ultimately show ?case by blast
qed

lemma bus_writes_mem:
  assumes "busLog q' = busLog q @ sent"
  shows "\<exists>m. bus_writes bus q q' = q'\<lparr>txnMem := m\<rparr> \<and> (\<forall>t. same_txn (m t) (txnMem q' t)) \<and>
    (\<forall>t\<in>set sent. status_ok (m t)) \<and> (\<forall>t. t \<notin> set sent \<longrightarrow> m t = txnMem q' t)"
proof -
  let ?js = "[length (busLog q)..<length (busLog q')]"
  have "\<exists>m. bus_writes bus q q' = q'\<lparr>txnMem := m\<rparr> \<and> (\<forall>t. same_txn (m t) (txnMem q' t)) \<and>
      (\<forall>i\<in>set ?js. status_ok (m (busLog q' ! i))) \<and> (\<forall>t. (\<forall>i\<in>set ?js. busLog q' ! i \<noteq> t) \<longrightarrow> m t = txnMem q' t)"
    unfolding bus_writes_def by (rule writes_fold) simp
  then obtain m where m: "bus_writes bus q q' = q'\<lparr>txnMem := m\<rparr>" "\<forall>t. same_txn (m t) (txnMem q' t)"
      "\<forall>i\<in>set ?js. status_ok (m (busLog q' ! i))" "\<forall>t. (\<forall>i\<in>set ?js. busLog q' ! i \<noteq> t) \<longrightarrow> m t = txnMem q' t"
    by blast
  have "map ((!) (busLog q')) ?js = sent" unfolding assms by (rule nth_equalityI) (simp_all add: nth_append)
  then have e: "set sent = (!) (busLog q') ` set ?js" by (metis set_map)
  have "m t = txnMem q' t" if "t \<notin> set sent" for t
  proof -
    have "\<forall>i\<in>set ?js. busLog q' ! i \<noteq> t" using that e by blast
    then show ?thesis using m(4) by blast
  qed
  moreover have "\<forall>t\<in>set sent. status_ok (m t)" unfolding e using m(3) by simp
  ultimately show ?thesis using m(1,2) by blast
qed

section \<open>The callback of the queue\<close>

text \<open>The regular transactions among the reported ones, those with a callback of their own and those without.\<close>

definition wants :: "TTxnQObj \<Rightarrow> addr \<Rightarrow> bool" where
  "wants q t \<longleftrightarrow> TXN_PARAM_GET_SINGLE_STEP (txnMem q t) = 0 \<and> fTxnDoneCb (txnMem q t) \<noteq> 0"

definition nocb :: "TTxnQObj \<Rightarrow> addr \<Rightarrow> bool" where
  "nocb q t \<longleftrightarrow> TXN_PARAM_GET_SINGLE_STEP (txnMem q t) = 0 \<and> fTxnDoneCb (txnMem q t) = 0"

definition isreg :: "TTxnQObj \<Rightarrow> addr \<Rightarrow> bool" where
  "isreg q t \<longleftrightarrow> TXN_PARAM_GET_SINGLE_STEP (txnMem q t) = 0"

lemma reg_split: "length (filter (isreg q) cs) = length (filter (wants q) cs) + length (filter (nocb q) cs)"
  by (induction cs) (auto simp: isreg_def wants_def nocb_def)

lemma enq_done_ok:
  assumes "distinct ds" "0 \<notin> set ds" "t \<noteq> 0" "t \<notin> set ds" "\<not> l"
  shows "enq_h (l \<or> t \<in> set ds) (Some ds) t = (TI_OK, Some (ds @ [t]))"
proof -
  have "distinct (0 # t # ds)" using assms by simp
  then have "length (0 # t # ds) = card (set (0 # t # ds))" by (simp only: distinct_card)
  also have "\<dots> \<le> card (UNIV :: addr set)" by (rule card_mono) simp_all
  finally have "length ds + 2 \<le> 2 ^ 32" by (simp add: card_word)
  then have "length ds < TXN_QUE_SIZE" by (simp add: TXN_QUE_SIZE_def QUE_UNLIMITED_SIZE_def)
  then show ?thesis using assms by (simp add: enq_h_def fifo_enq_def Let_def)
qed

lemma done_cbs:
  assumes "\<forall>t\<in>set cs. status_ok (txnMem (hTxnQ s) t)" "distinct (filter (isreg (hTxnQ s)) cs)"
    "\<forall>t\<in>set cs. isreg (hTxnQ s) t \<longrightarrow> \<not> linked_txn (hTxnQ s) t \<and> t \<notin> set ds \<and> t \<noteq> 0"
    "tw_hTxnDoneQueue s = Some ds" "distinct ds" "0 \<notin> set ds"
    "length (filter (nocb (hTxnQ s)) cs) \<le> unat (uPendingTxnCount s)"
  shows "foldl twIf_TxnDoneCb s cs = s\<lparr>tw_hTxnDoneQueue := Some (ds @ filter (wants (hTxnQ s)) cs),
    uPendingTxnCount := uPendingTxnCount s - of_nat (length (filter (nocb (hTxnQ s)) cs)),
    uDbgCountTxnDoneCb := uDbgCountTxnDoneCb s + of_nat (length cs),
    tw_sched := tw_sched s \<or> filter (isreg (hTxnQ s)) cs \<noteq> []\<rparr>"
  using assms
proof (induction cs arbitrary: s ds)
  case (Cons t cs)
  let ?q = "hTxnQ s"
  let ?s = "twIf_TxnDoneCb s t"
  have st: "status_ok (txnMem ?q t)" using Cons.prems(1) by simp
  show ?case
  proof (cases "isreg ?q t")
    case False
    then have s1: "?s = s\<lparr>uDbgCountTxnDoneCb := uDbgCountTxnDoneCb s + 1\<rparr>"
      using st by (simp add: twIf_TxnDoneCb_def isreg_def status_ok_def Let_def)
    show ?thesis using Cons.IH [of ?s ds] Cons.prems False unfolding s1
      by (simp add: s1 isreg_def wants_def nocb_def algebra_simps)
  next
    case True
    note t = Cons.prems(3) [rule_format, of t, simplified, OF True]
    show ?thesis
    proof (cases "fTxnDoneCb (txnMem ?q t) = 0")
      case True
      have n: "nocb ?q t" "\<not> wants ?q t" using True \<open>isreg ?q t\<close> by (simp_all add: nocb_def wants_def isreg_def)
      have p: "uPendingTxnCount s > 0" using Cons.prems(7) n by (simp add: word_less_nat_alt)
      have s1: "?s = s\<lparr>uDbgCountTxnDoneCb := uDbgCountTxnDoneCb s + 1, uPendingTxnCount := uPendingTxnCount s - 1, tw_sched := True\<rparr>"
        using st True p \<open>isreg ?q t\<close> by (simp add: twIf_TxnDoneCb_def isreg_def status_ok_def dec_pending_def Let_def)
      have "length (filter (nocb ?q) cs) \<le> unat (uPendingTxnCount s - 1)"
        using Cons.prems(7) n p by (simp add: unat_minus_one word_neq_0_conv [symmetric])
      then show ?thesis using Cons.IH [of ?s ds] Cons.prems n \<open>isreg ?q t\<close> unfolding s1
        by (simp add: s1 algebra_simps)
    next
      case False
      have n: "wants ?q t" "\<not> nocb ?q t" using False \<open>isreg ?q t\<close> by (simp_all add: nocb_def wants_def isreg_def)
      have s1: "?s = s\<lparr>uDbgCountTxnDoneCb := uDbgCountTxnDoneCb s + 1, tw_hTxnDoneQueue := Some (ds @ [t]), tw_sched := True\<rparr>"
        using st False \<open>isreg ?q t\<close> enq_done_ok [OF Cons.prems(5,6), of t "linked_txn ?q t"] t Cons.prems(4)
        by (simp add: twIf_TxnDoneCb_def isreg_def status_ok_def enq_txn_done_def items_h_def Let_def)
      have d: "\<forall>u\<in>set cs. isreg ?q u \<longrightarrow> \<not> linked_txn ?q u \<and> u \<notin> set (ds @ [t]) \<and> u \<noteq> 0"
        using Cons.prems(2,3) \<open>isreg ?q t\<close> by auto
      show ?thesis using Cons.IH [of ?s "ds @ [t]"] Cons.prems n \<open>isreg ?q t\<close> d t unfolding s1
        by (simp add: s1 algebra_simps)
    qed
  qed
qed simp

section \<open>The invariant\<close>

definition elps :: "TTwIfObj \<Rightarrow> addr set" where "elps s = {tElpTxnSleep s, tElpTxnAwake s}"

definition wst :: "TTwIfObj \<Rightarrow> EFuncState" where "wst s = eState (func_info (hTxnQ s) WLAN)"

definition doneq :: "TTwIfObj \<Rightarrow> addr list" where "doneq s = items_h (tw_hTxnDoneQueue s)"

abbreviation tw_regs :: "TTwIfObj \<Rightarrow> addr set" where "tw_regs s \<equiv> regs (elps s) (hTxnQ s)"

text \<open>\<open>k\<close> is what is counted more than is under way, which it is in the middle of some functions.\<close>

definition tw_core :: "nat \<Rightarrow> TTwIfObj \<Rightarrow> bool" where
  "tw_core k s \<longleftrightarrow> tw_q (elps s) (hTxnQ s) \<and> tw_rest (hTxnQ s) \<and> 0 \<notin> elps s \<and> tw_hTxnDoneQueue s = Some (doneq s) \<and>
     distinct (doneq s) \<and> 0 \<notin> set (doneq s) \<and> set (doneq s) \<inter> (elps s \<union> tw_regs s) = {} \<and>
     unat (uPendingTxnCount s) = card (tw_regs s) + length (doneq s) + k"

definition keeps :: "TTwIfObj \<Rightarrow> TTwIfObj \<Rightarrow> bool" where
  "keeps s s' \<longleftrightarrow> tElpTxnSleep s' = tElpTxnSleep s \<and> tElpTxnAwake s' = tElpTxnAwake s \<and> uAwakeReqCount s' = uAwakeReqCount s \<and>
     fRecoveryCb s' = fRecoveryCb s \<and> fErrCb s' = fErrCb s \<and> errLog s' = errLog s \<and> callLog s' = callLog s \<and>
     bTxnDoneInRecovery s' = bTxnDoneInRecovery s \<and> bPendRestartTimerRunning s' = bPendRestartTimerRunning s"

text \<open>A change of the count or of the done queue has the handler asked for.\<close>

definition told :: "TTwIfObj \<Rightarrow> TTwIfObj \<Rightarrow> bool" where
  "told s s' \<longleftrightarrow> (tw_sched s \<longrightarrow> tw_sched s') \<and>
     (tw_sched s' \<or> uPendingTxnCount s' = uPendingTxnCount s \<and> tw_hTxnDoneQueue s' = tw_hTxnDoneQueue s)"

lemma keeps_refl [simp]: "keeps s s" and told_refl [simp]: "told s s"
  by (simp_all add: keeps_def told_def)

lemma keeps_trans: "keeps s s' \<Longrightarrow> keeps s' s'' \<Longrightarrow> keeps s s''"
  by (simp add: keeps_def)

lemma told_trans: "told s s' \<Longrightarrow> told s' s'' \<Longrightarrow> told s s''"
  by (auto simp: told_def)

lemma keeps_elps: "keeps s s' \<Longrightarrow> elps s' = elps s"
  by (simp add: keeps_def elps_def)

lemma tw_q_mem:
  assumes "tw_q E q" "\<And>t. same_txn (m t) (txnMem q t)"
  shows "tw_q E (q\<lparr>txnMem := m\<rparr>)"
proof -
  have "TXN_PARAM_GET_FUNC_ID (m t) = TXN_PARAM_GET_FUNC_ID (txnMem q t)"
    "TXN_PARAM_GET_SINGLE_STEP (m t) = TXN_PARAM_GET_SINGLE_STEP (txnMem q t)" for t using assms(2) by (simp_all add: same_txn_def)
  then show ?thesis using assms(1) unfolding tw_q_def class_ok_def by simp
qed

lemma select_mem [simp]: "txnQ_SelectTxn (q\<lparr>txnMem := m\<rparr>) = None \<longleftrightarrow> txnQ_SelectTxn q = None"
proof -
  have "serves (q\<lparr>txnMem := m\<rparr>) = serves q" by (simp add: fun_eq_iff serves_def)
  moreover have "func_range (q\<lparr>txnMem := m\<rparr>) = func_range q" "prio_range (q\<lparr>txnMem := m\<rparr>) = prio_range q"
    by (simp_all add: func_range_def prio_range_def)
  ultimately show ?thesis unfolding select_none by (simp split: option.splits)
qed

lemma rest_mem [simp]: "tw_rest (q\<lparr>txnMem := m\<rparr>) = tw_rest q"
  by (simp add: tw_rest_def)

lemma regs_mem [simp]: "regs E (q\<lparr>txnMem := m\<rparr>) = regs E q"
  by (simp add: regs_def)

text \<open>What waits for the handler stays, as it is, and more may come behind it; no callback is called.\<close>

definition late :: "TTwIfObj \<Rightarrow> TTwIfObj \<Rightarrow> bool" where
  "late s s' \<longleftrightarrow> (\<exists>new. doneq s' = doneq s @ new) \<and>
     (\<forall>t\<in>set (doneq s). txnMem (hTxnQ s') t = txnMem (hTxnQ s) t) \<and> callLog s' = callLog s"

lemma late_refl [simp]: "late s s"
  by (simp add: late_def)

lemma late_trans: "late s s' \<Longrightarrow> late s' s'' \<Longrightarrow> late s s''"
  by (auto simp: late_def)

lemma late_empty: "doneq s = [] \<Longrightarrow> callLog s' = callLog s \<Longrightarrow> late s s'"
  by (simp add: late_def)

lemma late_eq:
  "tw_hTxnDoneQueue u = tw_hTxnDoneQueue s \<Longrightarrow> txnMem (hTxnQ u) = txnMem (hTxnQ s) \<Longrightarrow> callLog u = callLog s \<Longrightarrow>
     late u s' = late s s' \<and> late s' u = late s' s"
  by (simp add: late_def doneq_def)

text \<open>What follows an operation of the queue. \<open>A\<close> is what was submitted, \<open>q1\<close> the queue when its scheduler started.\<close>

lemma with_txnq_core:
  fixes bus
  assumes c: "tw_core (card A + k) s" and q1: "tw_q (elps s) q1" "regs (elps s) q1 = tw_regs s \<union> A"
    and A: "finite A" "A \<inter> (tw_regs s \<union> set (doneq s)) = {}"
    and l: "cbLog q1 = cbLog (hTxnQ s)" "busLog q1 = busLog (hTxnQ s)" "txnMem q1 = txnMem (hTxnQ s)"
    and m: "txn_moves q1 q' cs rs sent" "tw_q (elps s) q'" "tw_rest q'"
    and st: "\<forall>t\<in>set (items_h (hTxnDoneQueue q1)). status_ok (txnMem q1 t)"
  defines "s' \<equiv> with_txnq bus q' s"
  shows "tw_core (k + length (reg_of (elps s) rs)) s'" "keeps s s'" "told s s'" "tw_eState s' = tw_eState s" "elpLog s' = elpLog s"
    "wst s' = eState (func_info q1 WLAN)" "pCurrTxn (hTxnQ s') = pCurrTxn q'" "recovLog s' = recovLog s"
    "unat (uPendingTxnCount s') \<le> unat (uPendingTxnCount s)" "tw_regs s' = regs (elps s) q'" "late s s'"
proof -
  let ?E = "elps s" and ?ds = "doneq s"
  have C: "tw_hTxnDoneQueue s = Some ?ds" "distinct ?ds" "0 \<notin> set ?ds" "set ?ds \<inter> (?E \<union> tw_regs s) = {}" "0 \<notin> ?E"
    "unat (uPendingTxnCount s) = card (tw_regs s) + length ?ds + (card A + k)"
    using c by (auto simp: tw_core_def)
  obtain xs where x: "cbLog q' = cbLog q1 @ cs" "busLog q' = busLog q1 @ sent" "txnMem q' = txnMem q1"
      "set cs \<subseteq> set (items_h (hTxnDoneQueue q1)) \<union> set sent" "\<forall>f. eState (func_info q' f) = eState (func_info q1 f)"
      "flight q1 = flight q' + mset cs + mset rs + mset xs" "set sent \<subseteq> set_mset (flight q1)"
    using m(1) by (auto simp: txn_moves_def)
  note r = moves_regs [OF q1(1) m(1)]
  obtain m' where w: "bus_writes bus (hTxnQ s) q' = q'\<lparr>txnMem := m'\<rparr>" "\<forall>t. same_txn (m' t) (txnMem q' t)"
      "\<forall>t\<in>set sent. status_ok (m' t)" "\<forall>t. t \<notin> set sent \<longrightarrow> m' t = txnMem q' t"
    using bus_writes_mem [of q' "hTxnQ s" sent bus] x(2) l(2) by auto
  let ?q = "q'\<lparr>txnMem := m'\<rparr>" and ?s = "s\<lparr>hTxnQ := q'\<lparr>txnMem := m'\<rparr>\<rparr>"
  have csE: "t \<in># flight q1" if "t \<in> set cs" for t using that x(6) by simp
  have rp: "reports (hTxnQ s) q' = cs"
    using tw_q_fields(6) [OF q1(1)] csE x(1,3) l(1) by (simp add: reports_def filter_id_conv)
  have s': "s' = foldl twIf_TxnDoneCb ?s cs" by (simp add: s'_def with_txnq_def rp w(1))
  have iq: "isreg ?q t \<longleftrightarrow> t \<notin> ?E" if "t \<in> set cs" for t
    using tw_q_fields(7) [OF q1(1), of t] csE [OF that] w(2) x(3) by (simp add: isreg_def same_txn_def)
  have fe: "filter (isreg ?q) cs = reg_of ?E cs" using iq by (rule filter_cong [OF refl])
  have ln: "length (filter (nocb ?q) cs) \<le> length (reg_of ?E cs)" using reg_split [of ?q cs] fe by simp
  have card1: "card (regs ?E q1) = card (tw_regs s) + card A" unfolding q1(2) using A by (intro card_Un_disjoint) auto
  have sub: "set (reg_of ?E cs) \<subseteq> tw_regs s \<union> A" using r(2) q1(2) by auto
  have sts: "\<forall>t\<in>set cs. status_ok (txnMem (hTxnQ ?s) t)"
  proof
    fix t assume "t \<in> set cs"
    then show "status_ok (txnMem (hTxnQ ?s) t)" using x(3,4) st w(3,4) by (cases "t \<in> set sent") auto
  qed
  have nl: "\<forall>t\<in>set cs. isreg (hTxnQ ?s) t \<longrightarrow> \<not> linked_txn (hTxnQ ?s) t \<and> t \<notin> set ?ds \<and> t \<noteq> 0"
  proof (intro ballI impI)
    fix t assume t: "t \<in> set cs" "isreg (hTxnQ ?s) t"
    then have E: "t \<notin> ?E" using iq by simp
    then have "t \<in> set (reg_of ?E cs)" using t(1) by simp
    then have a: "t \<in> tw_regs s \<union> A" "t \<notin> regs ?E q'" using sub r(3) by auto
    then have "t \<notin># flight q'" using E by (simp add: regs_def)
    then have "\<not> linked_txn ?q t" using linked_flight [of ?q t] by (auto simp: flight_def linked_txn_def waiting_def items_h_def queued_def)
    moreover have "t \<noteq> 0" using csE [OF t(1)] tw_q_fields(4) [OF q1(1)] by auto
    ultimately show "\<not> linked_txn (hTxnQ ?s) t \<and> t \<notin> set ?ds \<and> t \<noteq> 0" using a C(4) A(2) by auto
  qed
  have dcs: "distinct (reg_of ?E cs)" using r(1) by simp
  have pl: "length (reg_of ?E cs) \<le> card (tw_regs s) + card A" using r(4) card1 by simp
  have eq: "s' = ?s\<lparr>tw_hTxnDoneQueue := Some (?ds @ filter (wants ?q) cs),
      uPendingTxnCount := uPendingTxnCount s - of_nat (length (filter (nocb ?q) cs)),
      uDbgCountTxnDoneCb := uDbgCountTxnDoneCb s + of_nat (length cs),
      tw_sched := tw_sched s \<or> reg_of ?E cs \<noteq> []\<rparr>"
    unfolding s' using done_cbs [OF sts _ nl, of] dcs C(1-3) ln pl C(6) fe by simp
  have pend: "unat (uPendingTxnCount s') + length (filter (nocb ?q) cs) = unat (uPendingTxnCount s)"
  proof -
    let ?n = "length (filter (nocb ?q) cs)"
    have n: "?n \<le> unat (uPendingTxnCount s)" using ln pl C(6) by simp
    have "unat (uPendingTxnCount s) < 2 ^ LENGTH(32)" by (rule unsigned_less)
    then have "?n < 2 ^ 32" using n by simp
    then have "unat (of_nat ?n :: TI_UINT32) = ?n" by (simp add: unat_of_nat)
    then show ?thesis using n by (simp add: eq unat_sub word_le_nat_alt)
  qed
  have we: "filter (wants ?q) cs = filter (\<lambda>t. fTxnDoneCb (txnMem ?q t) \<noteq> 0) (reg_of ?E cs)"
    unfolding fe [symmetric] filter_filter by (rule filter_cong) (auto simp: wants_def isreg_def)
  have dw: "distinct (filter (wants ?q) cs)" unfolding we by (rule distinct_filter [OF dcs])
  have ws: "set (filter (wants ?q) cs) \<subseteq> set (reg_of ?E cs)" unfolding we by auto
  show el: "keeps s s'" "tw_eState s' = tw_eState s" "elpLog s' = elpLog s" "pCurrTxn (hTxnQ s') = pCurrTxn q'" "recovLog s' = recovLog s"
    by (simp_all add: eq keeps_def)
  have E': "elps s' = ?E" by (rule keeps_elps [OF el(1)])
  show R: "tw_regs s' = regs ?E q'" unfolding E' by (simp add: eq)
  have dq: "doneq s' = ?ds @ filter (wants ?q) cs" by (simp add: eq doneq_def items_h_def)
  show "unat (uPendingTxnCount s') \<le> unat (uPendingTxnCount s)" using pend by simp
  have "t \<notin> set sent" if "t \<in> set ?ds" for t
  proof
    assume "t \<in> set sent"
    then have "t \<in> ?E \<union> regs ?E q1" using x(7) by (auto simp: regs_def)
    then show False using that C(4) A(2) q1(2) by auto
  qed
  then show "late s s'" using w(4) x(3) l(3) by (auto simp: late_def dq) (simp_all add: eq)
  show "told s s'" using reg_split [of ?q cs] fe by (auto simp: told_def eq C(1))
  show "wst s' = eState (func_info q1 WLAN)" using x(5) by (simp add: wst_def eq)
  have "tw_q ?E (hTxnQ s')" using tw_q_mem [OF m(2), of m'] w(2) by (simp add: eq)
  moreover have "tw_rest (hTxnQ s')" using m(3) by (simp add: eq)
  moreover have "distinct (doneq s')" unfolding dq using C(2) dw ws sub A(2) C(4) by auto
  moreover have "0 \<notin> set (doneq s')"
    unfolding dq using C(3) ws sub q1(2) tw_q_fields(4) [OF q1(1)] by (auto simp: regs_def)
  moreover have "set (doneq s') \<inter> (?E \<union> regs ?E q') = {}"
  proof -
    have "regs ?E q' \<subseteq> tw_regs s \<union> A" "set (reg_of ?E cs) \<inter> (?E \<union> regs ?E q') = {}" using r(3) q1(2) by auto
    then show ?thesis unfolding dq using C(4) ws A(2) by auto
  qed
  moreover have "unat (uPendingTxnCount s') = card (regs ?E q') + length (doneq s') + (k + length (reg_of ?E rs))"
    using pend C(6) card1 r(4) reg_split [of ?q cs] fe dq by simp
  ultimately show "tw_core (k + length (reg_of (elps s) rs)) s'"
    unfolding tw_core_def E' R using C(5) by (simp add: eq doneq_def items_h_def)
qed

section \<open>The functions\<close>

lemma moves_refl: "txn_moves q q [] [] []"
  by (auto simp: txn_moves_def)

text \<open>The outcome of a function that keeps the count.\<close>

definition tw_same :: "TTwIfObj \<Rightarrow> TTwIfObj \<Rightarrow> bool" where
  "tw_same s s' \<longleftrightarrow> keeps s s' \<and> told s s' \<and> recovLog s' = recovLog s \<and> unat (uPendingTxnCount s') \<le> unat (uPendingTxnCount s) \<and> late s s'"

lemma tw_same_refl [simp]: "tw_same s s"
  by (simp add: tw_same_def)

lemma tw_same_trans: "tw_same s s' \<Longrightarrow> tw_same s' s'' \<Longrightarrow> tw_same s s''"
  using keeps_trans told_trans late_trans [of s s' s''] by (auto simp: tw_same_def)

lemma core_elp:
  assumes "tw_core k s" "t \<in> elps s"
  shows "t \<noteq> 0" "txn_func (hTxnQ s) t = WLAN" "TXN_PARAM_GET_SINGLE_STEP (txnMem (hTxnQ s) t) = 0 \<longleftrightarrow> t \<notin> elps s"
  using assms tw_q_fields(6,7) [of "elps s" "hTxnQ s" t] by (auto simp: tw_core_def)

text \<open>A transaction is sent; \<open>k\<close> counts it when it is a regular one.\<close>

lemma tw_transact_core:
  assumes c: "tw_core k s" and t: "t \<noteq> 0" "txn_func (hTxnQ s) t = WLAN"
    "TXN_PARAM_GET_SINGLE_STEP (txnMem (hTxnQ s) t) = 0 \<longleftrightarrow> t \<notin> elps s"
    "t \<notin> elps s \<Longrightarrow> t \<notin># flight (hTxnQ s) \<and> t \<notin> set (doneq s) \<and> k = 1"
  shows "\<exists>st s'. tw_transact bus t s = Some (st, s') \<and> tw_same s s' \<and> tw_eState s' = tw_eState s \<and> elpLog s' = elpLog s \<and>
    wst s' = wst s \<and> tw_core (if t \<in> elps s then k else if st = TXN_STATUS_PENDING then 0 else 1) s'"
proof -
  let ?E = "elps s"
  have q: "tw_q ?E (hTxnQ s)" "tw_rest (hTxnQ s)" using c by (simp_all add: tw_core_def)
  have nf: "t \<notin> ?E \<Longrightarrow> t \<notin># flight (hTxnQ s)" using t(4) by blast
  obtain st q' acc q1 cs rs sent where r: "txnQ_Transact bus no_client t (hTxnQ s) = Some (st, q')" "tw_q ?E q'" "tw_rest q'" "tw_q ?E q1"
      "regs ?E q1 = tw_regs s \<union> (if acc \<and> t \<notin> ?E then {t} else {})" "txn_moves q1 q' cs rs sent" "submitted t (hTxnQ s) q1"
      "hTxnDoneQueue q1 = Some []" "reg_of ?E rs = (if acc \<and> t \<notin> ?E \<and> st \<noteq> TXN_STATUS_PENDING then [t] else [])"
      "acc \<or> st = TXN_STATUS_ERROR"
    using transact_tw [OF q t(1-3) nf, of bus] by blast
  let ?A = "if acc \<and> t \<notin> ?E then {t} else {}" and ?k = "if acc \<and> t \<notin> ?E then 0 else k"
  have A: "finite ?A" "?A \<inter> (tw_regs s \<union> set (doneq s)) = {}" using t(4) by (auto simp: regs_def)
  have c': "tw_core (card ?A + ?k) s" using c t(4) by auto
  have l: "cbLog q1 = cbLog (hTxnQ s)" "busLog q1 = busLog (hTxnQ s)" "txnMem q1 = txnMem (hTxnQ s)" "eState (func_info q1 WLAN) = wst s"
    using r(7) by (simp_all add: submitted_def wst_def)
  have d: "\<forall>x\<in>set (items_h (hTxnDoneQueue q1)). status_ok (txnMem q1 x)" using r(8) by (simp add: items_h_def)
  note w = with_txnq_core [OF c' r(4,5) A l(1-3) r(6,2,3) d, where bus = bus]
  have "?k + length (reg_of ?E rs) = (if t \<in> ?E then k else if st = TXN_STATUS_PENDING then 0 else 1)"
    using r(9,10) t(4) by auto
  then have "tw_core (if t \<in> ?E then k else if st = TXN_STATUS_PENDING then 0 else 1) (with_txnq bus q' s)"
    using w(1) by simp
  then show ?thesis using w l(4) r(1) by (simp add: tw_transact_def tw_same_def)
qed

lemma core_frames:
  "tw_core k (s\<lparr>elpLog := l\<rparr>) = tw_core k s" "tw_core k (s\<lparr>tw_eState := e\<rparr>) = tw_core k s" "tw_core k (s\<lparr>uDbgCountTxn := a\<rparr>) = tw_core k s"
  "tw_core k (s\<lparr>uDbgCountTxnPending := a\<rparr>) = tw_core k s" "tw_core k (s\<lparr>uDbgCountTxnComplete := a\<rparr>) = tw_core k s"
  "tw_core k (s\<lparr>uAwakeReqCount := a\<rparr>) = tw_core k s" "tw_core k (s\<lparr>uDbgCountAwake := a\<rparr>) = tw_core k s"
  "tw_core k (s\<lparr>uDbgCountSleep := a\<rparr>) = tw_core k s" "tw_core k (s\<lparr>errLog := l\<rparr>) = tw_core k s" "tw_core k (s\<lparr>callLog := l\<rparr>) = tw_core k s"
  "tw_core k (s\<lparr>tw_sched := b\<rparr>) = tw_core k s"
  by (simp_all add: tw_core_def elps_def doneq_def)

lemma write_elp:
  assumes "tw_core k s"
  shows "\<exists>s'. twIf_WriteElpReg bus v s = Some s' \<and> tw_same s s' \<and> tw_eState s' = tw_eState s \<and> elpLog s' = elpLog s @ [v] \<and>
    wst s' = wst s \<and> tw_core k s'"
proof -
  let ?s = "s\<lparr>elpLog := elpLog s @ [v]\<rparr>" and ?t = "if v = ELP_CTRL_REG_AWAKE then tElpTxnAwake s else tElpTxnSleep s"
  have c: "tw_core k ?s" using assms by (simp add: core_frames)
  have t: "?t \<in> elps ?s" by (simp add: elps_def)
  obtain st s' where r: "tw_transact bus ?t ?s = Some (st, s')" "tw_same ?s s'" "tw_eState s' = tw_eState ?s" "elpLog s' = elpLog ?s"
      "wst s' = wst ?s" "tw_core k s'"
    using tw_transact_core [OF c core_elp [OF c t], of bus] t by auto
  have "twIf_WriteElpReg bus v s = Some s'" using r(1) by (simp add: twIf_WriteElpReg_def)
  moreover have "tw_same s s'" using r(2) by (simp add: tw_same_def keeps_def told_def late_def doneq_def)
  ultimately show ?thesis using r by (simp add: wst_def)
qed

lemma tw_run_core:
  assumes "tw_core k s"
  shows "\<exists>s'. tw_run bus s = Some s' \<and> tw_same s s' \<and> tw_eState s' = tw_eState s \<and> elpLog s' = elpLog s \<and>
    wst s' = FUNC_STATE_RUNNING \<and> tw_core k s'"
proof -
  have q: "tw_q (elps s) (hTxnQ s)" "tw_rest (hTxnQ s)" using assms by (simp_all add: tw_core_def)
  obtain q1 q' cs sent where r: "txnQ_Run bus no_client WLAN (hTxnQ s) = Some q'" "tw_q (elps s) q1" "flight q1 = flight (hTxnQ s)"
      "txn_moves q1 q' cs [] sent" "cbLog q1 = cbLog (hTxnQ s)" "busLog q1 = busLog (hTxnQ s)" "txnMem q1 = txnMem (hTxnQ s)" "hTxnDoneQueue q1 = Some []"
      "eState (func_info q1 WLAN) = FUNC_STATE_RUNNING" "tw_q (elps s) q'" "tw_rest q'"
    using run_op_tw [OF q, of bus] by blast
  have c': "tw_core (card {} + k) s" using assms by simp
  have g: "regs (elps s) q1 = tw_regs s \<union> {}" using r(3) by (simp add: regs_def)
  have d: "\<forall>x\<in>set (items_h (hTxnDoneQueue q1)). status_ok (txnMem q1 x)" using r(8) by (simp add: items_h_def)
  note w = with_txnq_core [OF c' r(2) g finite.emptyI _ r(5-7,4,10,11) d, where bus = bus]
  show ?thesis using w r(1,9) by (simp add: tw_run_def tw_same_def)
qed

lemma stop_core:
  assumes "tw_core k s"
  shows "tw_core k (s\<lparr>hTxnQ := txnQ_Stop WLAN (hTxnQ s)\<rparr>) \<and> wst (s\<lparr>hTxnQ := txnQ_Stop WLAN (hTxnQ s)\<rparr>) = FUNC_STATE_STOPPED"
proof -
  have q: "tw_q (elps s) (hTxnQ s)" "tw_rest (hTxnQ s)" using assms by (simp_all add: tw_core_def)
  have ne: "FUNC_STATE_STOPPED \<noteq> FUNC_STATE_NONE" by simp
  note st = state_tw [OF q(1) ne, folded txnQ_Stop_def]
  show ?thesis using assms st stop_rest [OF q(2), of WLAN] by (simp add: tw_core_def elps_def doneq_def regs_def wst_def)
qed

section \<open>The state of the device\<close>

text \<open>
  The state machine, the queue and the ELP register. After a restart the queue runs though the state is
  SLEEP, until the device is first put to sleep.
\<close>

definition elp_inv :: "TTwIfObj \<Rightarrow> bool" where
  "elp_inv s \<longleftrightarrow> (case tw_eState s of
      SM_STATE_AWAKE \<Rightarrow> wst s = FUNC_STATE_RUNNING \<and> elpLog s \<noteq> [] \<and> last (elpLog s) = ELP_CTRL_REG_AWAKE
    | SM_STATE_WAIT_HW \<Rightarrow> elpLog s \<noteq> [] \<and> last (elpLog s) = ELP_CTRL_REG_AWAKE \<and>
        (wst s = FUNC_STATE_STOPPED \<or> wst s = FUNC_STATE_RUNNING \<and> ELP_CTRL_REG_SLEEP \<notin> set (elpLog s))
    | SM_STATE_SLEEP \<Rightarrow> elpLog s = [] \<and> (wst s = FUNC_STATE_RUNNING \<or> wst s = FUNC_STATE_RESTART) \<or>
        elpLog s \<noteq> [] \<and> last (elpLog s) = ELP_CTRL_REG_SLEEP \<and> wst s = FUNC_STATE_STOPPED)"

definition next_state :: "TwSmEvent \<Rightarrow> TwSmState \<Rightarrow> TwSmState" where
  "next_state e st = (case e of
      SM_EVENT_START \<Rightarrow> if st = SM_STATE_SLEEP then SM_STATE_WAIT_HW else st
    | SM_EVENT_HW_AVAILABLE \<Rightarrow> SM_STATE_AWAKE
    | SM_EVENT_SLEEP \<Rightarrow> if st = SM_STATE_AWAKE then SM_STATE_SLEEP else st)"

text \<open>A function that keeps the count and the device's state.\<close>

lemma sm_event:
  assumes c: "tw_core k s" and e: "elp_inv s" and r: "wst s \<noteq> FUNC_STATE_RESTART"
  shows "\<exists>s'. twIf_HandleSmEvent bus ev s = Some s' \<and> tw_same s s' \<and> tw_core k s' \<and> elp_inv s' \<and>
    tw_eState s' = next_state ev (tw_eState s) \<and> wst s' \<noteq> FUNC_STATE_RESTART"
proof (cases "tw_eState s")
  case SM_STATE_AWAKE
  show ?thesis
  proof (cases "ev = SM_EVENT_SLEEP")
    case False
    then show ?thesis using assms SM_STATE_AWAKE by (cases ev) (auto simp: twIf_HandleSmEvent_def next_state_def)
  next
    case True
    let ?s = "s\<lparr>tw_eState := SM_STATE_SLEEP, hTxnQ := txnQ_Stop WLAN (hTxnQ s)\<rparr>"
    have c1: "tw_core k ?s" and w1: "wst ?s = FUNC_STATE_STOPPED" using stop_core [OF c] core_frames(2) by (auto simp: wst_def tw_core_def elps_def doneq_def)
    obtain s' where w: "twIf_WriteElpReg bus ELP_CTRL_REG_SLEEP ?s = Some s'" "tw_same ?s s'" "tw_eState s' = tw_eState ?s"
        "elpLog s' = elpLog ?s @ [ELP_CTRL_REG_SLEEP]" "wst s' = wst ?s" "tw_core k s'"
      using write_elp [OF c1, of bus ELP_CTRL_REG_SLEEP] by blast
    have "txnMem (txnQ_Stop WLAN (hTxnQ s)) = txnMem (hTxnQ s)" by (simp add: txnQ_Stop_def)
    then have "tw_same s s'" using w(2) by (simp add: tw_same_def keeps_def told_def late_def doneq_def)
    moreover have "elp_inv s'" using w w1 by (simp add: elp_inv_def)
    ultimately show ?thesis using w w1 True SM_STATE_AWAKE by (simp add: twIf_HandleSmEvent_def next_state_def)
  qed
next
  case SM_STATE_SLEEP
  consider (st) "ev = SM_EVENT_START" | (hw) "ev = SM_EVENT_HW_AVAILABLE" | (sl) "ev = SM_EVENT_SLEEP" by (cases ev) auto
  then show ?thesis
  proof cases
    case st
    let ?s = "s\<lparr>tw_eState := SM_STATE_WAIT_HW\<rparr>"
    have c1: "tw_core k ?s" using c by (simp add: core_frames)
    obtain s' where w: "twIf_WriteElpReg bus ELP_CTRL_REG_AWAKE ?s = Some s'" "tw_same ?s s'" "tw_eState s' = tw_eState ?s"
        "elpLog s' = elpLog ?s @ [ELP_CTRL_REG_AWAKE]" "wst s' = wst ?s" "tw_core k s'"
      using write_elp [OF c1, of bus ELP_CTRL_REG_AWAKE] by blast
    have ws: "wst ?s = wst s" by (simp add: wst_def)
    have "tw_same s s'" using w(2) by (simp add: tw_same_def keeps_def told_def late_def doneq_def)
    moreover have "elp_inv s'" using w ws e r SM_STATE_SLEEP
      by (auto simp: elp_inv_def ELP_CTRL_REG_SLEEP_def ELP_CTRL_REG_AWAKE_def)
    ultimately show ?thesis using w ws r st SM_STATE_SLEEP by (simp add: twIf_HandleSmEvent_def next_state_def)
  next
    case hw
    let ?s = "s\<lparr>tw_eState := SM_STATE_AWAKE\<rparr>"
    have c1: "tw_core k ?s" using c by (simp add: core_frames)
    obtain s1 where w: "twIf_WriteElpReg bus ELP_CTRL_REG_AWAKE ?s = Some s1" "tw_same ?s s1" "tw_eState s1 = tw_eState ?s"
        "elpLog s1 = elpLog ?s @ [ELP_CTRL_REG_AWAKE]" "wst s1 = wst ?s" "tw_core k s1"
      using write_elp [OF c1, of bus ELP_CTRL_REG_AWAKE] by blast
    obtain s' where v: "tw_run bus s1 = Some s'" "tw_same s1 s'" "tw_eState s' = tw_eState s1" "elpLog s' = elpLog s1"
        "wst s' = FUNC_STATE_RUNNING" "tw_core k s'"
      using tw_run_core [OF w(6), of bus] by blast
    have "tw_same s s1" using w(2) by (simp add: tw_same_def keeps_def told_def late_def doneq_def)
    then have "tw_same s s'" using v(2) tw_same_trans by blast
    moreover have "elp_inv s'" using w v by (simp add: elp_inv_def)
    ultimately show ?thesis using w v hw SM_STATE_SLEEP by (simp add: twIf_HandleSmEvent_def next_state_def)
  next
    case sl
    then show ?thesis using assms SM_STATE_SLEEP by (auto simp: twIf_HandleSmEvent_def next_state_def)
  qed
next
  case SM_STATE_WAIT_HW
  show ?thesis
  proof (cases "ev = SM_EVENT_HW_AVAILABLE")
    case False
    then show ?thesis using assms SM_STATE_WAIT_HW by (cases ev) (auto simp: twIf_HandleSmEvent_def next_state_def)
  next
    case True
    let ?s = "s\<lparr>tw_eState := SM_STATE_AWAKE\<rparr>"
    have c1: "tw_core k ?s" using c by (simp add: core_frames)
    obtain s' where v: "tw_run bus ?s = Some s'" "tw_same ?s s'" "tw_eState s' = tw_eState ?s" "elpLog s' = elpLog ?s"
        "wst s' = FUNC_STATE_RUNNING" "tw_core k s'"
      using tw_run_core [OF c1, of bus] by blast
    have "tw_same s s'" using v(2) by (simp add: tw_same_def keeps_def told_def late_def doneq_def)
    moreover have "elp_inv s'" using e v SM_STATE_WAIT_HW by (simp add: elp_inv_def)
    ultimately show ?thesis using v True SM_STATE_WAIT_HW by (simp add: twIf_HandleSmEvent_def next_state_def)
  qed
qed

text \<open>The invariant outside of a pending restart, and during one.\<close>

definition tw_normal :: "TTwIfObj \<Rightarrow> bool" where
  "tw_normal s \<longleftrightarrow> tw_core 0 s \<and> wst s \<noteq> FUNC_STATE_RESTART \<and> elp_inv s \<and>
     (tw_eState s = SM_STATE_SLEEP \<longrightarrow> uPendingTxnCount s = 0)"

definition tw_restarting :: "TTwIfObj \<Rightarrow> bool" where
  "tw_restarting s \<longleftrightarrow> tw_q (elps s) (hTxnQ s) \<and> tw_rest (hTxnQ s) \<and> 0 \<notin> elps s \<and> tw_hTxnDoneQueue s = Some [] \<and>
     uPendingTxnCount s = 0 \<and> pCurrTxn (hTxnQ s) \<noteq> None \<and> wst s = FUNC_STATE_RESTART \<and> tw_eState s = SM_STATE_SLEEP \<and> elpLog s = []"

text \<open>After the restart completed, until the recovery callback was called, nothing is under way.\<close>

definition tw_recovering :: "TTwIfObj \<Rightarrow> bool" where
  "tw_recovering s \<longleftrightarrow> tw_normal s \<and> flight (hTxnQ s) = {#} \<and> doneq s = [] \<and> tw_eState s = SM_STATE_SLEEP \<and> elpLog s = []"

definition tw_inv :: "TTwIfObj \<Rightarrow> bool" where
  "tw_inv s \<longleftrightarrow> (if bTxnDoneInRecovery s then tw_recovering s else tw_normal s \<or> tw_restarting s) \<and>
     fRecoveryCb s \<noteq> 0 \<and> fErrCb s \<noteq> 0"

lemma tw_inv_normal: "tw_inv s \<Longrightarrow> wst s \<noteq> FUNC_STATE_RESTART \<Longrightarrow> tw_normal s"
  by (auto simp: tw_inv_def tw_recovering_def tw_restarting_def split: if_splits)

lemma sleep_check_normal:
  assumes "tw_normal s"
  shows "\<exists>s'. sleep_check bus s = Some s' \<and> tw_same s s' \<and> tw_normal s' \<and>
    \<not> (tw_eState s' = SM_STATE_AWAKE \<and> uAwakeReqCount s' = 0 \<and> uPendingTxnCount s' = 0) \<and>
    (s' = s \<or> tw_eState s' \<noteq> SM_STATE_AWAKE \<and> uPendingTxnCount s' = 0)"
proof (cases "uAwakeReqCount s = 0 \<and> uPendingTxnCount s = 0")
  case False
  then show ?thesis using assms by (auto simp: sleep_check_def)
next
  case True
  obtain s' where e: "twIf_HandleSmEvent bus SM_EVENT_SLEEP s = Some s'" "tw_same s s'" "tw_core 0 s'" "elp_inv s'"
      "tw_eState s' = next_state SM_EVENT_SLEEP (tw_eState s)" "wst s' \<noteq> FUNC_STATE_RESTART"
    using sm_event [of 0 s bus SM_EVENT_SLEEP] assms by (auto simp: tw_normal_def)
  have p: "uPendingTxnCount s' = 0" using e(2) True by (simp add: tw_same_def unat_eq_0)
  have "tw_eState s' \<noteq> SM_STATE_AWAKE" using e(5) by (simp add: next_state_def split: if_splits)
  then show ?thesis using e p True by (auto simp: sleep_check_def tw_normal_def)
qed

lemma sleep_check_restarting: "tw_eState s = SM_STATE_SLEEP \<Longrightarrow> sleep_check bus s = Some s"
  by (simp add: sleep_check_def twIf_HandleSmEvent_def)

section \<open>Sending\<close>

text \<open>A transaction that a client may write or send: it is not under way.\<close>

definition idle_txn :: "addr \<Rightarrow> TTwIfObj \<Rightarrow> bool" where
  "idle_txn t s \<longleftrightarrow> t \<noteq> 0 \<and> t \<notin> elps s \<and> t \<notin># flight (hTxnQ s) \<and> t \<notin> set (doneq s)"

text \<open>Who waits for the handler has it asked for, or an error was reported and a recovery follows.\<close>

definition served :: "TTwIfObj \<Rightarrow> bool" where
  "served s \<longleftrightarrow>
     ((tw_eState s = SM_STATE_AWAKE \<and> uAwakeReqCount s = 0 \<and> uPendingTxnCount s = 0 \<or> doneq s \<noteq> []) \<longrightarrow>
       tw_sched s \<or> errLog s \<noteq> []) \<and> (bTxnDoneInRecovery s \<longrightarrow> tw_sched s)"

definition grows :: "TTwIfObj \<Rightarrow> TTwIfObj \<Rightarrow> bool" where
  "grows s s' \<longleftrightarrow> fRecoveryCb s' = fRecoveryCb s \<and> fErrCb s' = fErrCb s \<and> elps s' = elps s \<and> (errLog s \<noteq> [] \<longrightarrow> errLog s' \<noteq> []) \<and>
     (tw_sched s \<longrightarrow> tw_sched s') \<and> (bTxnDoneInRecovery s' \<longrightarrow> bTxnDoneInRecovery s \<or> tw_sched s')"

lemma grows_trans: "grows s s' \<Longrightarrow> grows s' s'' \<Longrightarrow> grows s s''"
  by (auto simp: grows_def)

lemma same_grows: "tw_same s s' \<Longrightarrow> grows s s'"
  by (simp add: tw_same_def keeps_def told_def grows_def elps_def)

lemma pend_room:
  assumes "tw_core 0 s" "idle_txn t s"
  shows "unat (uPendingTxnCount s) + 2 \<le> 2 ^ 32"
proof -
  let ?X = "tw_regs s \<union> set (doneq s)"
  have f: "tw_q (elps s) (hTxnQ s)" using assms(1) by (simp add: tw_core_def)
  have n: "0 \<notin> ?X" "t \<notin> ?X" "t \<noteq> 0"
    using assms tw_q_fields(4) [OF f] by (auto simp: tw_core_def idle_txn_def regs_def)
  have "card ?X = card (tw_regs s) + length (doneq s)"
    using assms(1) by (subst card_Un_disjoint) (auto simp: tw_core_def distinct_card)
  moreover have "card (insert 0 (insert t ?X)) = Suc (Suc (card ?X))" using n by simp
  moreover have "card (insert 0 (insert t ?X)) \<le> card (UNIV :: addr set)" by (rule card_mono) simp_all
  ultimately show ?thesis using assms(1) by (simp add: tw_core_def card_word)
qed

lemma elp_inv_cong: "tw_eState s' = tw_eState s \<Longrightarrow> wst s' = wst s \<Longrightarrow> elpLog s' = elpLog s \<Longrightarrow> elp_inv s' = elp_inv s"
  by (simp add: elp_inv_def split: TwSmState.split)

lemma normal_cong:
  "tw_core 0 s' = tw_core 0 s \<Longrightarrow> hTxnQ s' = hTxnQ s \<Longrightarrow> tw_eState s' = tw_eState s \<Longrightarrow> elpLog s' = elpLog s \<Longrightarrow>
     uPendingTxnCount s' = uPendingTxnCount s \<Longrightarrow> tw_normal s' = tw_normal s"
  using elp_inv_cong [of s' s] by (simp add: tw_normal_def wst_def)

lemma normal_frames [simp]:
  "tw_normal (s\<lparr>errLog := l\<rparr>) = tw_normal s" "tw_normal (s\<lparr>callLog := l\<rparr>) = tw_normal s" "tw_normal (s\<lparr>tw_sched := b\<rparr>) = tw_normal s"
  "tw_normal (s\<lparr>uAwakeReqCount := a\<rparr>) = tw_normal s" "tw_normal (s\<lparr>uDbgCountAwake := a\<rparr>) = tw_normal s"
  "tw_normal (s\<lparr>uDbgCountSleep := a\<rparr>) = tw_normal s"
  by (rule normal_cong; simp add: core_frames)+

lemma call_err_frames:
  "tw_normal (call_err t s) = tw_normal s" "grows s (call_err t s)" "bTxnDoneInRecovery (call_err t s) = bTxnDoneInRecovery s"
  "served s \<Longrightarrow> served (call_err t s)"
  by (auto simp: call_err_def grows_def elps_def served_def doneq_def)

lemma send_normal:
  assumes n: "tw_normal s" and t: "idle_txn t s" "txn_func (hTxnQ s) t = WLAN" "TXN_PARAM_GET_SINGLE_STEP (txnMem (hTxnQ s) t) = 0"
  shows "\<exists>st s'. twIf_SendTransaction bus t s = Some (st, s') \<and> tw_normal s' \<and> grows s s' \<and> late s s' \<and>
    bTxnDoneInRecovery s' = bTxnDoneInRecovery s \<and> (served s \<longrightarrow> served s')"
proof (cases "uHwAddr (txnMem (hTxnQ s) t) AND 3 = 0")
  case False
  then show ?thesis using n by (auto simp: twIf_SendTransaction_def grows_def)
next
  case True
  let ?s1 = "s\<lparr>uPendingTxnCount := uPendingTxnCount s + 1\<rparr>"
  have room: "unat (uPendingTxnCount s + 1) = unat (uPendingTxnCount s) + 1"
    using pend_room [OF _ t(1)] n by (subst unat_add_lem [THEN iffD1]) (auto simp: tw_normal_def)
  have c1: "tw_core 1 ?s1" using n room by (simp add: tw_normal_def tw_core_def elps_def doneq_def)
  have ti: "t \<notin> elps ?s1" "t \<noteq> 0" using t(1) by (simp_all add: idle_txn_def elps_def)
  obtain st s2 where r: "tw_transact bus t ?s1 = Some (st, s2)" "tw_same ?s1 s2" "tw_eState s2 = tw_eState ?s1"
      "elpLog s2 = elpLog ?s1" "wst s2 = wst ?s1" "tw_core (if st = TXN_STATUS_PENDING then 0 else 1) s2"
    using tw_transact_core [OF c1, of t bus] t ti by (auto simp: idle_txn_def doneq_def)
  have e2: "elp_inv s2" using elp_inv_cong [of s2 s] r(3-5) n by (simp add: tw_normal_def wst_def)
  have w2: "wst s2 \<noteq> FUNC_STATE_RESTART" using r(5) n by (simp add: tw_normal_def wst_def)
  have b2: "bTxnDoneInRecovery s2 = bTxnDoneInRecovery s" "uAwakeReqCount s2 = uAwakeReqCount s" "grows s s2" "late s s2"
    using r(2) same_grows [OF r(2)] by (simp_all add: tw_same_def keeps_def grows_def elps_def late_def doneq_def)
  let ?d = "\<lambda>s. if st = TXN_STATUS_COMPLETE then s\<lparr>uDbgCountTxnComplete := uDbgCountTxnComplete s + 1\<rparr>
     else if st = TXN_STATUS_PENDING then s\<lparr>uDbgCountTxnPending := uDbgCountTxnPending s + 1\<rparr> else s"
  let ?s3 = "?d (s2\<lparr>uDbgCountTxn := uDbgCountTxn s2 + 1\<rparr>)"
  have f3: "tw_eState ?s3 = tw_eState s2" "wst ?s3 = wst s2" "elpLog ?s3 = elpLog s2" "uPendingTxnCount ?s3 = uPendingTxnCount s2"
    "tw_hTxnDoneQueue ?s3 = tw_hTxnDoneQueue s2" "tw_sched ?s3 = tw_sched s2" "errLog ?s3 = errLog s2" "grows s2 ?s3"
    "bTxnDoneInRecovery ?s3 = bTxnDoneInRecovery s2" "uAwakeReqCount ?s3 = uAwakeReqCount s2" "\<And>k. tw_core k ?s3 = tw_core k s2" "late s2 ?s3"
    by (auto simp: wst_def grows_def elps_def core_frames late_def doneq_def)
  have e3: "elp_inv ?s3" using elp_inv_cong [OF f3(1-3)] e2 by blast
  have told2: "tw_sched s \<longrightarrow> tw_sched s2" "tw_sched s2 \<or> uPendingTxnCount s2 = uPendingTxnCount s + 1 \<and> tw_hTxnDoneQueue s2 = tw_hTxnDoneQueue s"
    using r(2) by (simp_all add: tw_same_def told_def)
  show ?thesis
  proof (cases "st = TXN_STATUS_PENDING")
    case st: True
    have c3: "tw_core 0 ?s3" using r(6) st f3(11) by simp
    obtain s' where v: "twIf_HandleSmEvent bus SM_EVENT_START ?s3 = Some s'" "tw_same ?s3 s'" "tw_core 0 s'" "elp_inv s'"
        "tw_eState s' = next_state SM_EVENT_START (tw_eState ?s3)" "wst s' \<noteq> FUNC_STATE_RESTART"
      using sm_event [OF c3 e3, of bus SM_EVENT_START] w2 f3(2) by auto
    have "twIf_SendTransaction bus t s = Some (st, s')"
      using True r(1) v(1) st by (simp add: twIf_SendTransaction_def Let_def)
    moreover have "tw_normal s'" using v(3-6) by (simp add: tw_normal_def next_state_def split: if_splits)
    moreover have "grows s s'" using grows_trans [OF b2(3) grows_trans [OF f3(8) same_grows [OF v(2)]]] .
    moreover have "bTxnDoneInRecovery s' = bTxnDoneInRecovery s" using v(2) f3(9) b2(1) by (simp add: tw_same_def keeps_def)
    moreover have "late ?s3 s'" using v(2) by (simp add: tw_same_def)
    then have "late s s'" using late_trans [OF b2(4) late_trans [OF f3(12)]] by blast
    moreover have "served s'" if "served s"
    proof -
      have sch: "tw_sched s' \<or> uPendingTxnCount s' = uPendingTxnCount s + 1 \<and> tw_hTxnDoneQueue s' = tw_hTxnDoneQueue s"
        using v(2) f3(4-6) told2 by (auto simp: tw_same_def told_def)
      have "uPendingTxnCount s + 1 \<noteq> 0" using room by (metis add_is_0 unat_0 zero_neq_one)
      then show ?thesis using sch that \<open>grows s s'\<close> \<open>bTxnDoneInRecovery s' = bTxnDoneInRecovery s\<close> by (auto simp: served_def grows_def doneq_def)
    qed
    ultimately show ?thesis by blast
  next
    case st: False
    let ?s4 = "?s3\<lparr>uPendingTxnCount := uPendingTxnCount ?s3 - 1\<rparr>"
    have c2: "tw_core 1 s2" using r(6) st by simp
    then have p2: "unat (uPendingTxnCount s2) \<ge> 1" by (simp add: tw_core_def)
    then have p4: "unat (uPendingTxnCount s2 - 1) = unat (uPendingTxnCount s2) - 1"
      by (intro unat_minus_one) auto
    have c4: "tw_core 0 ?s4" using c2 p4 p2 by (auto simp: tw_core_def elps_def doneq_def)
    have n4: "tw_normal ?s4"
    proof -
      have "uPendingTxnCount ?s4 = 0" if "tw_eState ?s4 = SM_STATE_SLEEP"
      proof -
        have "uPendingTxnCount s = 0" using that n r(3) f3(1) by (simp add: tw_normal_def)
        then have "unat (uPendingTxnCount s2) \<le> 1" using r(2) by (simp add: tw_same_def)
        then have "uPendingTxnCount s2 = 1" using p2 by (simp add: word_unat_eq_iff)
        then show ?thesis using f3(4) by simp
      qed
      moreover have "elp_inv ?s4" using elp_inv_cong [of ?s4 ?s3] e3 by (simp add: wst_def)
      moreover have "wst ?s4 \<noteq> FUNC_STATE_RESTART" using w2 f3(2) by (simp add: wst_def)
      ultimately show ?thesis using c4 by (simp add: tw_normal_def)
    qed
    obtain s5 where v: "sleep_check bus ?s4 = Some s5" "tw_same ?s4 s5" "tw_normal s5"
        "\<not> (tw_eState s5 = SM_STATE_AWAKE \<and> uAwakeReqCount s5 = 0 \<and> uPendingTxnCount s5 = 0)"
      using sleep_check_normal [OF n4, of bus] by blast
    let ?s' = "if st = TXN_STATUS_ERROR then call_err t s5 else s5"
    have "twIf_SendTransaction bus t s = Some (st, ?s')"
      using True r(1) v(1) st by (auto simp: twIf_SendTransaction_def Let_def)
    moreover have "tw_normal ?s'" using v(3) call_err_frames(1) by simp
    moreover have g5: "grows s s5"
      using grows_trans [OF b2(3) grows_trans [OF f3(8) grows_trans [OF _ same_grows [OF v(2)]]]] by (simp add: grows_def elps_def)
    then have "grows s ?s'" using grows_trans [OF _ call_err_frames(2)] by auto
    moreover have b5: "bTxnDoneInRecovery s5 = bTxnDoneInRecovery s" using v(2) f3(9) b2(1) by (simp add: tw_same_def keeps_def)
    then have "bTxnDoneInRecovery ?s' = bTxnDoneInRecovery s" using call_err_frames(3) by simp
    moreover have "late ?s3 s5" using v(2) by (auto simp: tw_same_def late_def doneq_def)
    then have "late s s5" using late_trans [OF b2(4) late_trans [OF f3(12)]] by blast
    then have "late s ?s'" by (simp add: late_def call_err_def doneq_def)
    moreover have "served ?s'" if "served s"
    proof -
      have sch: "tw_sched s5 \<or> tw_hTxnDoneQueue s5 = tw_hTxnDoneQueue s"
        using v(2) f3(5,6) told2 by (auto simp: tw_same_def told_def)
      then have "served s5" using that g5 b5 v(4) by (auto simp: served_def grows_def doneq_def)
      then show ?thesis using call_err_frames(4) by simp
    qed
    ultimately show ?thesis by blast
  qed
qed

end
