(* ===== verification/WlTwReach.thy ===== *)
theory WlTwReach
  imports WlTwIfInv
begin

text \<open>
  The reachable states of the bus interface: its clients call its functions in any order, the bus
  driver completes transactions and the context engine runs the handler, whose callbacks are clients
  too. The invariants hold in all of them.
\<close>

section \<open>Preparation and completion\<close>

lemma tw_q_set_idle:
  assumes "tw_q E q" "t \<notin> E" "t \<notin># flight q"
  shows "tw_q E (set_txn t f q)"
proof -
  note F = tw_q_fields [OF assms(1)]
  have ne: "x \<noteq> t" if "x \<in># flight q \<or> x \<in> E" for x using that assms(2,3) by auto
  have qf: "x \<in># flight q" if "x \<in> set (items_h (txn_queue q g p))" for x g p
  proof -
    have "g < length (aTxnQueues q) \<and> p < length (aTxnQueues q ! g)" using that by (auto simp: txn_queue_def items_h_def split: if_splits)
    then have "x \<in> set (queued q)" using that by (auto simp: queued_def txn_queue_def) (metis nth_mem)
    then show ?thesis by (simp add: flight_def waiting_def)
  qed
  have sf: "x \<in># flight q" if "pSingleStep (func_info q g) = Some x" for x g
    using slot_flight [of q g] that by (auto simp: slot_def)
  have "class_ok (set_txn t f q)"
    using F(2) ne qf sf unfolding class_ok_def by (auto simp: set_txn_mem)
  then show ?thesis using F ne unfolding tw_q_def by (simp add: set_txn_mem)
qed

lemma inv_set_idle:
  assumes "tw_inv s" "idle_txn t s"
  shows "tw_inv (s\<lparr>hTxnQ := set_txn t f (hTxnQ s)\<rparr>)"
proof -
  let ?s = "s\<lparr>hTxnQ := set_txn t f (hTxnQ s)\<rparr>"
  have t: "t \<notin> elps s" "t \<notin># flight (hTxnQ s)" using assms(2) by (simp_all add: idle_txn_def)
  have fr: "elps ?s = elps s" "doneq ?s = doneq s" "wst ?s = wst s" "flight (hTxnQ ?s) = flight (hTxnQ s)"
    "tw_rest (hTxnQ ?s) = tw_rest (hTxnQ s)" "pCurrTxn (hTxnQ ?s) = pCurrTxn (hTxnQ s)"
    "regs E (hTxnQ ?s) = regs E (hTxnQ s)" for E
    by (simp_all add: elps_def doneq_def wst_def set_txn_mem)
  have q: "tw_q (elps s) (hTxnQ s) \<Longrightarrow> tw_q (elps ?s) (hTxnQ ?s)" using tw_q_set_idle [OF _ t] fr(1) by simp
  have c: "tw_core 0 s \<Longrightarrow> tw_core 0 ?s" using q fr unfolding tw_core_def by simp
  have n: "tw_normal s \<Longrightarrow> tw_normal ?s"
    using c elp_inv_cong [of ?s s] fr(3) unfolding tw_normal_def by simp
  have r: "tw_restarting s \<Longrightarrow> tw_restarting ?s" using q fr unfolding tw_restarting_def by simp
  show ?thesis using assms(1) n r fr unfolding tw_inv_def tw_recovering_def by (auto split: if_splits)
qed

lemma served_cong:
  "tw_eState s' = tw_eState s \<Longrightarrow> uAwakeReqCount s' = uAwakeReqCount s \<Longrightarrow> uPendingTxnCount s' = uPendingTxnCount s \<Longrightarrow>
   doneq s' = doneq s \<Longrightarrow> tw_sched s' = tw_sched s \<Longrightarrow> errLog s' = errLog s \<Longrightarrow> bTxnDoneInRecovery s' = bTxnDoneInRecovery s \<Longrightarrow>
   served s' = served s"
  by (simp add: served_def)

text \<open>The bus driver completes the transaction that it has with a status; it calls the queue, which calls the interface.\<close>

definition bus_completes :: "(addr list \<Rightarrow> ETxnStatus) \<Rightarrow> TI_UINT32 \<Rightarrow> addr \<Rightarrow> TTwIfObj \<Rightarrow> TTwIfObj option" where
  "bus_completes bus v t s = do {
     let s = s\<lparr>hTxnQ := set_txn t (TXN_PARAM_SET_STATUS v) (hTxnQ s)\<rparr>;
     q \<leftarrow> txnQ_TxnDoneCb bus no_client t (hTxnQ s);
     Some (with_txnq bus q s) }"

lemma same_served:
  assumes "tw_same s s'" "tw_eState s' = tw_eState s" "served s"
  shows "served s'"
  using assms by (auto simp: tw_same_def told_def keeps_def served_def doneq_def)

text \<open>The end of a restart that waited for the bus.\<close>

lemma complete_restarting:
  assumes rs: "tw_restarting s" and t: "pCurrTxn (hTxnQ s) = Some t" and v: "v = TXN_PARAM_STATUS_OK \<or> v = TXN_PARAM_STATUS_ERROR"
    and r: "fRecoveryCb s \<noteq> 0"
  shows "\<exists>q'. bus_completes bus v t s = Some (s\<lparr>hTxnQ := q', uDbgCountTxnDoneCb := uDbgCountTxnDoneCb s + 1,
      bTxnDoneInRecovery := True, tw_sched := True\<rparr>) \<and> tw_q (elps s) q' \<and> tw_rest q' \<and> flight q' = {#} \<and>
    eState (func_info q' WLAN) = FUNC_STATE_RUNNING \<and> busLog q' = busLog (hTxnQ s)"
proof -
  let ?s = "s\<lparr>hTxnQ := set_txn t (TXN_PARAM_SET_STATUS v) (hTxnQ s)\<rparr>"
  let ?q = "hTxnQ ?s"
  have st: "\<And>x. same_txn (txnMem ?q x) (txnMem (hTxnQ s) x)" using set_status_same [of v] v by (auto simp: set_txn_mem same_txn_def)
  have q: "tw_q (elps s) ?q" using tw_q_mem [of "elps s" "hTxnQ s" "txnMem ?q"] st rs by (simp add: tw_restarting_def set_txn_mem)
  have fr: "tw_rest ?q" "pCurrTxn ?q = Some t" "eState (func_info ?q WLAN) = FUNC_STATE_RESTART"
    using rs t by (simp_all add: tw_restarting_def wst_def set_txn_mem)
  obtain q' where q': "txnQ_TxnDoneCb bus no_client t ?q = Some q'" "tw_q (elps s) q'" "tw_rest q'" "flight q' = {#}"
      "cbLog q' = cbLog ?q @ [t]" "busLog q' = busLog ?q" "eState (func_info q' WLAN) = FUNC_STATE_RUNNING"
      "txnMem q' = (txnMem ?q)(t := TXN_PARAM_SET_STATUS TXN_PARAM_STATUS_RECOVERY (txnMem ?q t))"
    using restart_done_tw [OF q fr, of bus] by blast
  have tf: "t \<in># flight ?q" using fr(2) by (simp add: flight_def curr_txn_def)
  have fn: "txn_func q' t = WLAN" using tw_q_fields(6) [OF q] tf q'(8) by (simp add: TXN_SET_STATUS_get)
  have "bus_writes bus ?q q' = q'" using q'(6) by (simp add: bus_writes_def)
  moreover have "reports ?q q' = [t]" using q'(5) fn by (simp add: reports_def)
  moreover have "TXN_PARAM_GET_STATUS (txnMem q' t) = TXN_PARAM_STATUS_RECOVERY" using q'(8) by (simp add: TXN_SET_STATUS_get)
  ultimately have "with_txnq bus q' ?s = s\<lparr>hTxnQ := q', uDbgCountTxnDoneCb := uDbgCountTxnDoneCb s + 1,
      bTxnDoneInRecovery := True, tw_sched := True\<rparr>"
    using r by (simp add: with_txnq_def twIf_TxnDoneCb_def Let_def)
  then have "bus_completes bus v t s = Some (s\<lparr>hTxnQ := q', uDbgCountTxnDoneCb := uDbgCountTxnDoneCb s + 1,
      bTxnDoneInRecovery := True, tw_sched := True\<rparr>)" using q'(1) by (simp add: bus_completes_def Let_def)
  moreover have "busLog q' = busLog (hTxnQ s)" using q'(6) by (simp add: set_txn_mem)
  ultimately show ?thesis using q' by blast
qed

lemma late_set:
  assumes "t \<notin> set (doneq s)"
  shows "late s (s\<lparr>hTxnQ := set_txn t f (hTxnQ s)\<rparr>)" "late (s\<lparr>hTxnQ := set_txn t f (hTxnQ s)\<rparr>) s' \<Longrightarrow> late s s'"
proof -
  show 1: "late s (s\<lparr>hTxnQ := set_txn t f (hTxnQ s)\<rparr>)"
    using assms by (auto simp: late_def doneq_def set_txn_mem)
  show "late (s\<lparr>hTxnQ := set_txn t f (hTxnQ s)\<rparr>) s' \<Longrightarrow> late s s'" by (rule late_trans [OF 1])
qed

lemma complete_inv:
  assumes i: "tw_inv s" and t: "pCurrTxn (hTxnQ s) = Some t" and v: "v = TXN_PARAM_STATUS_OK \<or> v = TXN_PARAM_STATUS_ERROR"
  shows "\<exists>s'. bus_completes bus v t s = Some s' \<and> tw_inv s' \<and> grows s s' \<and> (served s \<longrightarrow> served s') \<and> late s s'"
proof -
  let ?s = "s\<lparr>hTxnQ := set_txn t (TXN_PARAM_SET_STATUS v) (hTxnQ s)\<rparr>"
  let ?q = "hTxnQ ?s"
  have st: "\<And>x. same_txn (txnMem ?q x) (txnMem (hTxnQ s) x)" "status_ok (txnMem ?q t)"
    using set_status_same [of v] set_status_ok [OF v] v by (auto simp: set_txn_mem same_txn_def)
  have fr: "elps ?s = elps s" "doneq ?s = doneq s" "wst ?s = wst s" "pCurrTxn ?q = Some t" "regs E ?q = regs E (hTxnQ s)"
    "tw_rest ?q = tw_rest (hTxnQ s)" for E
    using t by (simp_all add: elps_def doneq_def wst_def set_txn_mem)
  have nz: "flight (hTxnQ s) \<noteq> {#}" using t by (simp add: flight_def curr_txn_def)
  then have b: "\<not> bTxnDoneInRecovery s" "tw_normal s \<or> tw_restarting s" "fRecoveryCb s \<noteq> 0" "fErrCb s \<noteq> 0"
    using i by (auto simp: tw_inv_def tw_recovering_def split: if_splits)
  have q: "tw_q (elps s) ?q"
    using b(2) tw_q_mem [of "elps s" "hTxnQ s" "txnMem ?q"] st(1)
    by (auto simp: tw_normal_def tw_core_def tw_restarting_def set_txn_mem)
  have rest: "tw_rest ?q" using b(2) fr(6) by (auto simp: tw_normal_def tw_core_def tw_restarting_def)
  show ?thesis
  proof (cases "wst s = FUNC_STATE_RESTART")
    case False
    then have n: "tw_normal s" using b(2) by (auto simp: tw_restarting_def)
    then have c: "tw_core (card {} + 0) ?s" using q rest fr by (simp add: tw_normal_def tw_core_def)
    have ns: "eState (func_info ?q WLAN) \<noteq> FUNC_STATE_RESTART" using False fr(3) by (simp add: wst_def)
    obtain q1 q' cs sent where r: "txnQ_TxnDoneCb bus no_client t ?q = Some q'" "tw_q (elps s) q1" "regs (elps s) q1 = regs (elps s) ?q"
        "txn_moves q1 q' cs [] sent" "cbLog q1 = cbLog ?q" "busLog q1 = busLog ?q" "txnMem q1 = txnMem ?q"
        "set (items_h (hTxnDoneQueue q1)) \<subseteq> {t}" "\<forall>f. eState (func_info q1 f) = eState (func_info ?q f)" "tw_q (elps s) q'" "tw_rest q'"
      using complete_tw [OF q rest fr(4) ns, of bus] by blast
    have E: "elps ?s = elps s" by (rule fr(1))
    have g: "regs (elps ?s) q1 = tw_regs ?s \<union> {}" using r(3) fr(1) by simp
    have d: "\<forall>x\<in>set (items_h (hTxnDoneQueue q1)). status_ok (txnMem q1 x)" using r(7,8) st(2) by auto
    note w = with_txnq_core [OF c, unfolded E, OF r(2) g [unfolded E] finite.emptyI _ r(5-7,4,10,11) d, where bus = bus]
    let ?s' = "with_txnq bus q' ?s"
    have same: "tw_same ?s ?s'" using w by (simp add: tw_same_def)
    have w': "wst ?s' = wst s" using w(6) r(9) fr(3) by (simp add: wst_def)
    have "elp_inv ?s'" using elp_inv_cong [of ?s' s] w(4,5) w' n by (simp add: tw_normal_def)
    moreover have "tw_eState ?s' = SM_STATE_SLEEP \<Longrightarrow> uPendingTxnCount ?s' = 0"
      using w(4,9) n by (simp add: tw_normal_def unat_eq_0)
    ultimately have "tw_normal ?s'" using w(1) w' False by (simp add: tw_normal_def)
    moreover have k: "keeps ?s ?s'" using w(2) by simp
    ultimately have "tw_inv ?s'" using b by (simp add: tw_inv_def keeps_def)
    moreover have "grows s ?s'" using same_grows [OF same] by (simp add: grows_def elps_def)
    moreover have "served s \<longrightarrow> served ?s'"
      using same_served [OF same] w(4) served_cong [of ?s s] fr(2) by simp
    moreover have "bus_completes bus v t s = Some ?s'" using r(1) by (simp add: bus_completes_def Let_def)
    moreover have "t \<notin> set (doneq s)"
    proof -
      have "t \<in> elps s \<union> tw_regs s" using t by (auto simp: regs_def flight_def curr_txn_def)
      then show ?thesis using n by (auto simp: tw_normal_def tw_core_def)
    qed
    then have "late s ?s'" using same unfolding tw_same_def by (blast intro: late_set(2))
    ultimately show ?thesis by blast
  next
    case True
    then have rs: "tw_restarting s" using b(2) by (auto simp: tw_normal_def)
    obtain q' where r: "bus_completes bus v t s = Some (s\<lparr>hTxnQ := q', uDbgCountTxnDoneCb := uDbgCountTxnDoneCb s + 1,
        bTxnDoneInRecovery := True, tw_sched := True\<rparr>)" (is "_ = Some ?s'") "tw_q (elps s) q'" "tw_rest q'" "flight q' = {#}"
        "eState (func_info q' WLAN) = FUNC_STATE_RUNNING"
      using complete_restarting [OF rs t v b(3), of bus] by blast
    have e: "regs (elps s) q' = {}" using r(4) by (simp add: regs_def)
    have fx: "doneq ?s' = []" "elps ?s' = elps s" "wst ?s' = FUNC_STATE_RUNNING"
      using rs r(5) by (simp_all add: doneq_def elps_def wst_def tw_restarting_def items_h_def)
    have "tw_core 0 ?s'" using r(2,3) rs fx e by (simp add: tw_core_def tw_restarting_def items_h_def)
    moreover have "elp_inv ?s'" using rs fx(3) by (simp add: elp_inv_def tw_restarting_def)
    ultimately have "tw_recovering ?s'" using rs fx r(4) by (simp add: tw_recovering_def tw_normal_def tw_restarting_def)
    then have "tw_inv ?s'" using b by (simp add: tw_inv_def)
    moreover have "grows s ?s'" by (simp add: grows_def elps_def)
    moreover have "served ?s'" using fx(1) by (simp add: served_def)
    moreover have "late s ?s'" using rs by (intro late_empty) (simp_all add: tw_restarting_def doneq_def items_h_def)
    ultimately show ?thesis using r(1) by blast
  qed
qed

section \<open>Restart\<close>

lemma clear_done_queue:
  assumes "uPendingTxnCount s = 0" "tw_hTxnDoneQueue s = Some ds"
  shows "twIf_ClearTxnDoneQueue s = s\<lparr>tw_hTxnDoneQueue := Some []\<rparr>"
proof -
  have "foldl (\<lambda>s t. dec_pending s) u ds = u" if "uPendingTxnCount u = 0" for u and ds :: "addr list"
    using that by (induction ds) (simp_all add: dec_pending_def)
  then show ?thesis using assms by (simp add: twIf_ClearTxnDoneQueue_def)
qed

lemma restart_inv:
  assumes i: "tw_inv s" and r: "twIf_Restart s = (st, s')"
  shows "tw_inv s' \<and> grows s s' \<and> (served s \<longrightarrow> served s')"
proof -
  have b: "tw_q (elps s) (hTxnQ s)" "tw_rest (hTxnQ s)" "0 \<notin> elps s" "tw_hTxnDoneQueue s = Some (doneq s)"
    "fRecoveryCb s \<noteq> 0" "fErrCb s \<noteq> 0" "bTxnDoneInRecovery s \<Longrightarrow> flight (hTxnQ s) = {#}"
    using i by (auto simp: tw_inv_def tw_recovering_def tw_normal_def tw_core_def tw_restarting_def doneq_def items_h_def split: if_splits)
  let ?s0 = "s\<lparr>tw_eState := SM_STATE_SLEEP, uAwakeReqCount := 0, uPendingTxnCount := 0, elpLog := []\<rparr>"
  obtain eS q1 where q: "txnQ_Restart WLAN (hTxnQ s) = (eS, q1)" by force
  note t = restart_tw [OF b(1,2) q]
  let ?s1 = "?s0\<lparr>tw_hTxnDoneQueue := Some [], hTxnQ := q1\<rparr>"
  have cl: "twIf_ClearTxnDoneQueue ?s0 = ?s0\<lparr>tw_hTxnDoneQueue := Some []\<rparr>" using clear_done_queue [of ?s0] b(4) by simp
  have s': "s' = (if eS = TXN_STATUS_PENDING then ?s1\<lparr>bPendRestartTimerRunning := True\<rparr> else ?s1)"
    using r q unfolding twIf_Restart_def Let_def cl by (auto split: if_splits)
  have f: "elps s' = elps s" "doneq s' = []" "hTxnQ s' = q1" "tw_eState s' = SM_STATE_SLEEP" "uPendingTxnCount s' = 0" "elpLog s' = []"
    "tw_hTxnDoneQueue s' = Some []" "bTxnDoneInRecovery s' = bTxnDoneInRecovery s" "tw_sched s' = tw_sched s" "errLog s' = errLog s"
    "fRecoveryCb s' = fRecoveryCb s" "fErrCb s' = fErrCb s"
    by (simp_all add: s' elps_def doneq_def items_h_def)
  have "tw_inv s'"
  proof (cases "pCurrTxn (hTxnQ s)")
    case None
    then have e: "flight q1 = {#}" "eState (func_info q1 WLAN) = FUNC_STATE_RUNNING" using t by simp_all
    then have "tw_core 0 s'" using t b(3) f by (simp add: tw_core_def regs_def)
    moreover have "wst s' = FUNC_STATE_RUNNING" using e f(3) by (simp add: wst_def)
    ultimately have "tw_recovering s'" using e f by (simp add: tw_recovering_def tw_normal_def elp_inv_def)
    then show ?thesis using b f by (simp add: tw_inv_def tw_recovering_def)
  next
    case (Some c)
    then have nb: "\<not> bTxnDoneInRecovery s" using b(7) by (auto simp: flight_def curr_txn_def)
    have "tw_restarting s'" using t Some b(3) f by (simp add: tw_restarting_def wst_def)
    then show ?thesis using b f nb by (simp add: tw_inv_def)
  qed
  moreover have "grows s s'" using f by (simp add: grows_def)
  moreover have "served s \<longrightarrow> served s'" using f by (simp add: served_def)
  ultimately show ?thesis by blast
qed

section \<open>The other calls\<close>

text \<open>Clients are served: there is no restart under way, and none whose callback is to be called.\<close>

definition tw_open :: "TTwIfObj \<Rightarrow> bool" where
  "tw_open s \<longleftrightarrow> wst s \<noteq> FUNC_STATE_RESTART \<and> \<not> bTxnDoneInRecovery s"

lemma open_normal: "tw_inv s \<Longrightarrow> tw_open s \<Longrightarrow> tw_normal s"
  by (auto simp: tw_inv_def tw_open_def tw_restarting_def)

lemma normal_inv:
  "tw_normal s' \<Longrightarrow> bTxnDoneInRecovery s' = bTxnDoneInRecovery s \<Longrightarrow> tw_open s \<Longrightarrow> tw_inv s \<Longrightarrow> grows s s' \<Longrightarrow> tw_inv s'"
  by (auto simp: tw_inv_def tw_open_def grows_def)

lemma send_inv:
  assumes "tw_inv s" "tw_open s" "idle_txn t s" "txn_func (hTxnQ s) t = WLAN" "TXN_PARAM_GET_SINGLE_STEP (txnMem (hTxnQ s) t) = 0"
  shows "\<exists>st s'. twIf_SendTransaction bus t s = Some (st, s') \<and> tw_inv s' \<and> grows s s' \<and> (served s \<longrightarrow> served s') \<and> late s s'"
  using send_normal [OF open_normal [OF assms(1,2)] assms(3-5), of bus] normal_inv assms(1,2) by blast

lemma regular_fields:
  "TXN_PARAM_GET_SINGLE_STEP (regular x) = 0" "TXN_PARAM_GET_FUNC_ID (regular x) = TXN_PARAM_GET_FUNC_ID x"
  "fTxnDoneCb (regular x) = fTxnDoneCb x" "uHwAddr (regular x) = uHwAddr x"
  unfolding regular_def txn_get_defs txn_set_defs txn_field_masks uTxnParams_update
  by (rule field_eqs | rule trans [OF field_get_set_other] | rule refl | (simp; fail))+

lemma idle_set: "idle_txn t (s\<lparr>hTxnQ := set_txn t f (hTxnQ s)\<rparr>) = idle_txn t s"
  by (simp add: idle_txn_def elps_def doneq_def set_txn_mem)

lemma open_set: "tw_open (s\<lparr>hTxnQ := set_txn t f (hTxnQ s)\<rparr>) = tw_open s"
  by (simp add: tw_open_def wst_def set_txn_mem)

lemma served_set: "served (s\<lparr>hTxnQ := set_txn t f (hTxnQ s)\<rparr>) = served s"
  by (rule served_cong) (simp_all add: doneq_def)

lemma grows_set: "grows (s\<lparr>hTxnQ := q\<rparr>) s' = grows s s'"
  by (simp add: grows_def elps_def)

lemma transact_inv:
  assumes "tw_inv s" "tw_open s" "idle_txn t s" "txn_func (hTxnQ s) t = WLAN"
  shows "\<exists>st s'. twIf_Transact bus t s = Some (st, s') \<and> tw_inv s' \<and> grows s s' \<and> (served s \<longrightarrow> served s') \<and> late s s'"
    "\<exists>st s'. twIf_TransactReadFWStatus bus t s = Some (st, s') \<and> tw_inv s' \<and> grows s s' \<and> (served s \<longrightarrow> served s') \<and> late s s'"
proof -
  have td: "t \<notin> set (doneq s)" using assms(3) by (simp add: idle_txn_def)
  have A: "\<exists>st s'. twIf_SendTransaction bus t (s\<lparr>hTxnQ := set_txn t f (hTxnQ s)\<rparr>) = Some (st, s') \<and> tw_inv s' \<and> grows s s' \<and>
      (served s \<longrightarrow> served s') \<and> late s s'"
    if "\<And>x. TXN_PARAM_GET_SINGLE_STEP (f x) = 0" "\<And>x. TXN_PARAM_GET_FUNC_ID (f x) = TXN_PARAM_GET_FUNC_ID x" for f
  proof -
    let ?s = "s\<lparr>hTxnQ := set_txn t f (hTxnQ s)\<rparr>"
    have "txn_func (hTxnQ ?s) t = WLAN" "TXN_PARAM_GET_SINGLE_STEP (txnMem (hTxnQ ?s) t) = 0"
      using that assms(4) by (simp_all add: set_txn_mem)
    from send_inv [OF inv_set_idle [OF assms(1,3)] _ _ this, of bus] show ?thesis
      using assms late_set(2) [OF td, of f] by (simp add: idle_set open_set served_set grows_set) blast
  qed
  show "\<exists>st s'. twIf_TransactReadFWStatus bus t s = Some (st, s') \<and> tw_inv s' \<and> grows s s' \<and> (served s \<longrightarrow> served s') \<and> late s s'"
    unfolding twIf_TransactReadFWStatus_def by (rule A) (simp_all add: regular_fields)
  show "\<exists>st s'. twIf_Transact bus t s = Some (st, s') \<and> tw_inv s' \<and> grows s s' \<and> (served s \<longrightarrow> served s') \<and> late s s'"
    unfolding twIf_Transact_def
    by (rule A) (simp_all add: regular_fields, simp add: TXN_PARAM_GET_FUNC_ID_def)
qed

lemma hw_available_inv:
  assumes "tw_inv s" "tw_open s" "uAwakeReqCount s \<noteq> 0"
  shows "\<exists>s'. twIf_HwAvailable bus s = Some s' \<and> tw_inv s' \<and> grows s s' \<and> (served s \<longrightarrow> served s') \<and> tw_eState s' = SM_STATE_AWAKE \<and> late s s'"
proof -
  have n: "tw_normal s" by (rule open_normal [OF assms(1,2)])
  obtain s' where e: "twIf_HandleSmEvent bus SM_EVENT_HW_AVAILABLE s = Some s'" "tw_same s s'" "tw_core 0 s'" "elp_inv s'"
      "tw_eState s' = SM_STATE_AWAKE" "wst s' \<noteq> FUNC_STATE_RESTART"
    using sm_event [of 0 s bus SM_EVENT_HW_AVAILABLE] n by (auto simp: tw_normal_def next_state_def)
  have n': "tw_normal s'" using e by (simp add: tw_normal_def)
  have k: "bTxnDoneInRecovery s' = bTxnDoneInRecovery s" "uAwakeReqCount s' = uAwakeReqCount s" using e(2) by (simp_all add: tw_same_def keeps_def)
  have "served s'" if "served s"
    using that e(2) k assms(3) by (auto simp: served_def tw_same_def told_def keeps_def doneq_def)
  moreover have "late s s'" using e(2) by (simp add: tw_same_def)
  ultimately show ?thesis using e(1,5) normal_inv [OF n' k(1) assms(2,1) same_grows [OF e(2)]] same_grows [OF e(2)]
    by (simp add: twIf_HwAvailable_def)
qed

lemma awake_cong:
  assumes "tw_inv s"
  shows "tw_inv (s\<lparr>uAwakeReqCount := a, uDbgCountAwake := b\<rparr>)" "tw_inv (s\<lparr>uAwakeReqCount := a, uDbgCountSleep := b\<rparr>)"
proof -
  have "tw_restarting (s\<lparr>uAwakeReqCount := a, uDbgCountAwake := b\<rparr>) = tw_restarting s"
    "tw_restarting (s\<lparr>uAwakeReqCount := a, uDbgCountSleep := b\<rparr>) = tw_restarting s"
    by (simp_all add: tw_restarting_def elps_def wst_def)
  then show "tw_inv (s\<lparr>uAwakeReqCount := a, uDbgCountAwake := b\<rparr>)" "tw_inv (s\<lparr>uAwakeReqCount := a, uDbgCountSleep := b\<rparr>)"
    using assms by (auto simp: tw_inv_def tw_recovering_def doneq_def)
qed

lemma sleep_inv:
  assumes "tw_inv s"
  shows "\<exists>s'. sleep_check bus s = Some s' \<and> tw_inv s' \<and> grows s s' \<and>
     \<not> (tw_eState s' = SM_STATE_AWAKE \<and> uAwakeReqCount s' = 0 \<and> uPendingTxnCount s' = 0) \<and>
     (tw_sched s' \<or> tw_hTxnDoneQueue s' = tw_hTxnDoneQueue s) \<and> bTxnDoneInRecovery s' = bTxnDoneInRecovery s \<and> late s s'"
proof (cases "tw_eState s = SM_STATE_SLEEP")
  case True
  then show ?thesis using sleep_check_restarting [OF True, of bus] assms by (simp add: grows_def)
next
  case False
  then have n: "tw_normal s" "tw_open s" using assms
    by (auto simp: tw_inv_def tw_recovering_def tw_restarting_def tw_open_def tw_normal_def split: if_splits)
  obtain s' where e: "sleep_check bus s = Some s'" "tw_same s s'" "tw_normal s'"
      "\<not> (tw_eState s' = SM_STATE_AWAKE \<and> uAwakeReqCount s' = 0 \<and> uPendingTxnCount s' = 0)"
    using sleep_check_normal [OF n(1), of bus] by blast
  have k: "bTxnDoneInRecovery s' = bTxnDoneInRecovery s" using e(2) by (simp add: tw_same_def keeps_def)
  show ?thesis using e k same_grows [OF e(2)] normal_inv [OF e(3) k n(2) assms same_grows [OF e(2)]]
    by (auto simp: tw_same_def told_def)
qed

section \<open>Reachable states\<close>

text \<open>
  One call from outside of the handler. A client prepares and sends transactions that are not under way,
  with the WLAN function's number, while clients are served; the device is reported available by a
  client that holds it awake (\<^verbatim>\<open>FwEvent.c\<close> and \<^verbatim>\<open>TWD_InitHw\<close> call \<open>twIf_Awake\<close> first); \<open>send\<close> is the sending of a
  partition register. The guard timer of a restart does not expire here: \<open>twIf_PendRestratTimeout\<close> is not
  one of the calls.
\<close>

inductive tw_call :: "(addr list \<Rightarrow> ETxnStatus) \<Rightarrow> TTwIfObj \<Rightarrow> TTwIfObj \<Rightarrow> bool" for bus where
  awake: "uAwakeReqCount s + 1 \<noteq> 0 \<Longrightarrow> tw_call bus s (twIf_Awake s)"
| sleep: "twIf_Sleep bus s = Some s' \<Longrightarrow> tw_call bus s s'"
| hw_available: "tw_open s \<Longrightarrow> uAwakeReqCount s \<noteq> 0 \<Longrightarrow> twIf_HwAvailable bus s = Some s' \<Longrightarrow> tw_call bus s s'"
| prepare: "idle_txn t s \<Longrightarrow> tw_call bus s (s\<lparr>hTxnQ := set_txn t (\<lambda>_. x) (hTxnQ s)\<rparr>)"
| transact: "tw_open s \<Longrightarrow> idle_txn t s \<Longrightarrow> txn_func (hTxnQ s) t = WLAN \<Longrightarrow> twIf_Transact bus t s = Some (st, s') \<Longrightarrow> tw_call bus s s'"
| read_status: "tw_open s \<Longrightarrow> idle_txn t s \<Longrightarrow> txn_func (hTxnQ s) t = WLAN \<Longrightarrow>
    twIf_TransactReadFWStatus bus t s = Some (st, s') \<Longrightarrow> tw_call bus s s'"
| send: "tw_open s \<Longrightarrow> idle_txn t s \<Longrightarrow> txn_func (hTxnQ s) t = WLAN \<Longrightarrow> TXN_PARAM_GET_SINGLE_STEP (txnMem (hTxnQ s) t) = 0 \<Longrightarrow>
    twIf_SendTransaction bus t s = Some (st, s') \<Longrightarrow> tw_call bus s s'"
| completed: "pCurrTxn (hTxnQ s) = Some t \<Longrightarrow> v = TXN_PARAM_STATUS_OK \<or> v = TXN_PARAM_STATUS_ERROR \<Longrightarrow>
    bus_completes bus v t s = Some s' \<Longrightarrow> tw_call bus s s'"

text \<open>... or a restart.\<close>

inductive tw_api :: "(addr list \<Rightarrow> ETxnStatus) \<Rightarrow> TTwIfObj \<Rightarrow> TTwIfObj \<Rightarrow> bool" for bus where
  tw_call: "tw_call bus s s' \<Longrightarrow> tw_api bus s s'"
| restart: "twIf_Restart s = (st, s') \<Longrightarrow> tw_api bus s s'"

text \<open>The handler runs when it was asked for; what a callback does is a sequence of calls.\<close>

inductive tw_step :: "(addr list \<Rightarrow> ETxnStatus) \<Rightarrow> TTwIfObj \<Rightarrow> TTwIfObj \<Rightarrow> bool" for bus where
  api: "tw_api bus s s' \<Longrightarrow> tw_step bus s s'"
| handle: "tw_sched s \<Longrightarrow> (\<And>t u u'. cb t u = Some u' \<Longrightarrow> (tw_api bus)\<^sup>*\<^sup>* u u') \<Longrightarrow>
    twIf_HandleTxnDone bus cb (s\<lparr>tw_sched := False\<rparr>) = Some s' \<Longrightarrow> tw_step bus s s'"

lemma tw_step_call: "tw_call bus s s' \<Longrightarrow> tw_step bus s s'"
  by (rule tw_step.api [OF tw_api.tw_call])

inductive_simps tw_awake_simps: "tw_call bus s (twIf_Awake s)"

lemma call_inv:
  assumes "tw_call bus s s'" "tw_inv s"
  shows "tw_inv s' \<and> grows s s' \<and> (served s \<longrightarrow> served s') \<and> late s s'"
  using assms
proof (induction rule: tw_call.induct)
  case (awake s)
  then show ?case using awake_cong(1) [OF awake(2)]
    by (auto simp: twIf_Awake_def grows_def elps_def served_def doneq_def late_def)
next
  case (sleep s s')
  let ?s = "(if uAwakeReqCount s > 0 then s\<lparr>uAwakeReqCount := uAwakeReqCount s - 1\<rparr> else s)\<lparr>uDbgCountSleep := uDbgCountSleep s + 1\<rparr>"
  have e: "?s = s\<lparr>uAwakeReqCount := (if uAwakeReqCount s > 0 then uAwakeReqCount s - 1 else uAwakeReqCount s), uDbgCountSleep := uDbgCountSleep s + 1\<rparr>"
    by simp
  obtain s1 where k: "sleep_check bus ?s = Some s1" "tw_inv s1" "grows ?s s1"
      "\<not> (tw_eState s1 = SM_STATE_AWAKE \<and> uAwakeReqCount s1 = 0 \<and> uPendingTxnCount s1 = 0)"
      "tw_sched s1 \<or> tw_hTxnDoneQueue s1 = tw_hTxnDoneQueue ?s" "bTxnDoneInRecovery s1 = bTxnDoneInRecovery ?s" "late ?s s1"
    using sleep_inv [OF awake_cong(2) [OF sleep(2), where a = "if uAwakeReqCount s > 0 then uAwakeReqCount s - 1 else uAwakeReqCount s"
      and b = "uDbgCountSleep s + 1"], folded e, of bus]
    by blast
  have "s1 = s'" using k(1) sleep(1) by (simp add: twIf_Sleep_def)
  moreover have "grows s s1" using k(3) unfolding e by (simp add: grows_def elps_def)
  moreover have "late s s1" using k(7) unfolding e by (simp add: late_def doneq_def)
  moreover have "served s \<longrightarrow> served s1" using k(4-6) \<open>grows s s1\<close> unfolding e by (auto simp: served_def doneq_def grows_def)
  ultimately show ?case using k(2) by blast
next
  case (hw_available s s')
  then show ?case using hw_available_inv [of s bus] by auto
next
  case (prepare t s x)
  then show ?case using inv_set_idle [of s t "\<lambda>_. x"] late_set(1) [of t s "\<lambda>_. x"] by (simp add: served_set grows_def elps_def idle_txn_def)
next
  case (transact s t st s')
  then show ?case using transact_inv(1) [of s t bus] by auto
next
  case (read_status s t st s')
  then show ?case using transact_inv(2) [of s t bus] by auto
next
  case (send s t st s')
  then show ?case using send_inv [of s t bus] by auto
next
  case (completed s t v s')
  then show ?case using complete_inv [of s t v bus] by auto
qed

lemma api_inv:
  assumes "tw_api bus s s'" "tw_inv s"
  shows "tw_inv s' \<and> grows s s' \<and> (served s \<longrightarrow> served s')"
  using assms call_inv restart_inv by (cases rule: tw_api.cases) blast+

lemma api_star_inv: "(tw_api bus)\<^sup>*\<^sup>* s s' \<Longrightarrow> tw_inv s \<Longrightarrow> tw_inv s' \<and> grows s s'"
proof (induction rule: rtranclp_induct)
  case base
  then show ?case by (simp add: grows_def)
next
  case (step y z)
  then show ?case using api_inv [of bus y z] grows_trans [of s y z] by blast
qed

section \<open>The handler\<close>

lemma dequeue_inv:
  assumes i: "tw_inv s" and d: "deq_h (tw_hTxnDoneQueue s) = (Some t, h)"
  shows "tw_inv (dec_pending (s\<lparr>tw_hTxnDoneQueue := h\<rparr>)) \<and> \<not> bTxnDoneInRecovery s \<and> tw_eState s \<noteq> SM_STATE_SLEEP \<and>
    fErrCb (dec_pending (s\<lparr>tw_hTxnDoneQueue := h\<rparr>)) = fErrCb s"
proof -
  note q = deq_h_some [OF d]
  have dq: "doneq s = t # items_h h" using q by (simp add: doneq_def)
  have nb: "\<not> bTxnDoneInRecovery s" using i dq by (auto simp: tw_inv_def tw_recovering_def)
  then have n: "tw_normal s" using i dq by (auto simp: tw_inv_def tw_restarting_def doneq_def items_h_def)
  have p: "unat (uPendingTxnCount s) = card (tw_regs s) + length (doneq s)" using n by (simp add: tw_normal_def tw_core_def)
  then have p1: "unat (uPendingTxnCount s) \<ge> 1" using dq by simp
  then have gt: "uPendingTxnCount s > 0" by (simp add: word_less_nat_alt)
  let ?s = "s\<lparr>tw_hTxnDoneQueue := h, uPendingTxnCount := uPendingTxnCount s - 1\<rparr>"
  have e: "dec_pending (s\<lparr>tw_hTxnDoneQueue := h\<rparr>) = ?s" using gt by (simp add: dec_pending_def)
  have u: "unat (uPendingTxnCount s - 1) = unat (uPendingTxnCount s) - 1" using gt by (intro unat_minus_one) auto
  obtain r where h: "h = Some r" using q by auto
  have "tw_core 0 ?s" using n u p p1 dq h by (auto simp: tw_normal_def tw_core_def elps_def doneq_def items_h_def)
  moreover have ns: "tw_eState s \<noteq> SM_STATE_SLEEP" using n p1 by (auto simp: tw_normal_def)
  moreover have "elp_inv ?s" using n elp_inv_cong [of ?s s] by (simp add: tw_normal_def wst_def)
  ultimately have "tw_normal ?s" using n by (simp add: tw_normal_def wst_def)
  then show ?thesis using i nb ns unfolding e by (simp add: tw_inv_def)
qed

lemma handle_loop_inv:
  assumes "handle_loop bus cb s = Some s'" "\<And>t u u'. cb t u = Some u' \<Longrightarrow> (tw_api bus)\<^sup>*\<^sup>* u u'" "tw_inv s"
    "bTxnDoneInRecovery s \<longrightarrow> tw_sched s"
  shows "tw_inv s' \<and> grows s s' \<and> served s'"
  using assms
proof (induction rule: handle_loop.raw_induct [rotated 1, consumes 1])
  case (1 f bus cb s s')
  obtain r h where d: "deq_h (tw_hTxnDoneQueue s) = (r, h)" by force
  show ?case
  proof (cases r)
    case None
    then have dq: "doneq s = []" "h = tw_hTxnDoneQueue s" using d deq_h_none [of "tw_hTxnDoneQueue s" h] by (simp_all add: doneq_def)
    have e: "sleep_check bus s = Some s'" using 1(2) d None dq(2) by simp
    obtain s1 where "sleep_check bus s = Some s1" "tw_inv s1" "grows s s1"
        "\<not> (tw_eState s1 = SM_STATE_AWAKE \<and> uAwakeReqCount s1 = 0 \<and> uPendingTxnCount s1 = 0)"
        "tw_sched s1 \<or> tw_hTxnDoneQueue s1 = tw_hTxnDoneQueue s" "bTxnDoneInRecovery s1 = bTxnDoneInRecovery s"
      using sleep_inv [OF 1(4), of bus] by blast
    then show ?thesis using e dq(1) 1(5) by (auto simp: served_def doneq_def grows_def)
  next
    case (Some t)
    let ?s = "dec_pending (s\<lparr>tw_hTxnDoneQueue := h\<rparr>)"
    note q = dequeue_inv [OF 1(4) d [unfolded Some]]
    have g: "grows s ?s" and nb: "\<not> bTxnDoneInRecovery ?s" using q by (auto simp: dec_pending_def grows_def elps_def)
    show ?thesis
    proof (cases "TXN_PARAM_GET_STATUS (txnMem (hTxnQ ?s) t) = TXN_PARAM_STATUS_ERROR")
      case True
      then have e: "s' = call_err t ?s" using 1(2) d Some by (simp add: Let_def)
      have "fErrCb ?s \<noteq> 0" using q 1(4) by (simp add: tw_inv_def)
      then have e': "s' = ?s\<lparr>errLog := errLog ?s @ [t]\<rparr>" using e by (simp add: call_err_def)
      have "tw_inv s'" using q nb unfolding e' by (auto simp: tw_inv_def tw_restarting_def wst_def elps_def)
      moreover have "grows ?s s'" unfolding e by (rule call_err_frames)
      moreover have "served s'" using nb unfolding e' by (simp add: served_def)
      ultimately show ?thesis using grows_trans [OF g] by blast
    next
      case False
      obtain s1 s2 where c: "(if fTxnDoneCb (txnMem (hTxnQ ?s) t) \<noteq> 0 then cb t (?s\<lparr>callLog := callLog ?s @ [t]\<rparr>) else Some ?s) = Some s1"
          "sleep_check bus s1 = Some s2" "f bus cb s2 = Some s'"
        using 1(2) d Some False by (auto simp: Let_def Option.bind_eq_Some_conv split del: if_split)
      have l: "tw_inv (?s\<lparr>callLog := callLog ?s @ [t]\<rparr>)" "grows ?s (?s\<lparr>callLog := callLog ?s @ [t]\<rparr>)"
        using q nb by (auto simp: tw_inv_def tw_restarting_def wst_def elps_def grows_def)
      have s1: "tw_inv s1 \<and> grows ?s s1"
      proof (cases "fTxnDoneCb (txnMem (hTxnQ ?s) t) \<noteq> 0")
        case True
        then have "(tw_api bus)\<^sup>*\<^sup>* (?s\<lparr>callLog := callLog ?s @ [t]\<rparr>) s1" using c(1) 1(3) by simp
        then show ?thesis using api_star_inv l grows_trans [OF l(2)] by blast
      next
        case False
        then show ?thesis using c(1) q by (simp add: grows_def)
      qed
      have s2: "tw_inv s2 \<and> grows s1 s2" using sleep_inv [of s1 bus] s1 c(2) by auto
      have g2: "grows s s2" using grows_trans [OF g] grows_trans [of ?s s1 s2] s1 s2 by blast
      then have "bTxnDoneInRecovery s2 \<longrightarrow> tw_sched s2" using 1(5) by (auto simp: grows_def)
      then have "tw_inv s' \<and> grows s2 s' \<and> served s'" using s2 by (intro 1(1) [OF c(3)] 1(3)) auto
      then show ?thesis using grows_trans [OF g2] by blast
    qed
  qed
qed

text \<open>Any step of the interface keeps the invariant, and leaves no one waiting for a handler that was not asked for.\<close>

lemma tw_step_inv:
  assumes "tw_step bus s s'" "tw_inv s" "served s"
  shows "tw_inv s' \<and> served s'"
  using assms
proof (cases rule: tw_step.cases)
  case api
  then show ?thesis using api_inv assms(2,3) by blast
next
  case (handle cb)
  have i: "tw_inv (s\<lparr>tw_sched := False\<rparr>)"
    using assms(2) by (auto simp: tw_inv_def tw_recovering_def tw_restarting_def wst_def elps_def doneq_def)
  show ?thesis
  proof (cases "bTxnDoneInRecovery s")
    case False
    then show ?thesis using handle_loop_inv [OF _ handle(2) i] handle(3) by (simp add: twIf_HandleTxnDone_def)
  next
    case True
    then have s': "s' = s\<lparr>tw_sched := False, bTxnDoneInRecovery := False, bPendRestartTimerRunning := False, recovLog := recovLog s + 1\<rparr>"
      using handle(3) by (simp add: twIf_HandleTxnDone_def)
    have r: "tw_recovering s" "fRecoveryCb s \<noteq> 0" "fErrCb s \<noteq> 0" using assms(2) True by (simp_all add: tw_inv_def)
    have "tw_core 0 s' = tw_core 0 s" unfolding s' by (simp add: tw_core_def elps_def doneq_def)
    then have "tw_normal s'" using r(1) normal_cong [of s' s] s' by (simp add: tw_recovering_def)
    then show ?thesis using r unfolding s' by (simp add: tw_inv_def tw_recovering_def served_def doneq_def)
  qed
qed

end
