(* ===== verification/WlTwProps.thy ===== *)
theory WlTwProps
  imports WlTwReach
begin

text \<open>
  The properties of the bus interface: what is pending is counted exactly, the power state agrees with
  the queue and with the ELP register, nothing waits for ever, the functions return, restarts complete,
  and the translation and the checks of addresses.
\<close>

section \<open>Initialisation\<close>

lemma single_step_fields:
  assumes "take_bit 1 m = m" "take_bit 1 n = n"
  shows "TXN_PARAM_GET_SINGLE_STEP (TXN_PARAM_SET_SINGLE_STEP n (TXN_PARAM_SET_MORE m x)) = n"
    "TXN_PARAM_GET_FUNC_ID (TXN_PARAM_SET_SINGLE_STEP n (TXN_PARAM_SET_MORE m x)) = TXN_PARAM_GET_FUNC_ID x"
  unfolding txn_get_defs txn_set_defs txn_field_masks uTxnParams_update
  by (rule field_eqs | rule trans [OF field_get_set_other] | rule refl | rule assms | (simp; fail))+

lemma build_fields:
  "TXN_PARAM_GET_SINGLE_STEP (BUILD_TTxnStruct a b l f h x) = TXN_PARAM_GET_SINGLE_STEP x"
  "TXN_PARAM_GET_FUNC_ID (BUILD_TTxnStruct a b l f h x) = TXN_PARAM_GET_FUNC_ID x"
  by (simp_all add: BUILD_TTxnStruct_def TXN_PARAM_GET_SINGLE_STEP_def TXN_PARAM_GET_FUNC_ID_def)

lemma elp_txn_fields:
  assumes "take_bit 1 m = m"
  shows "TXN_PARAM_GET_SINGLE_STEP (elp_txn m b x) \<noteq> 0" "TXN_PARAM_GET_FUNC_ID (elp_txn m b x) = 2"
  using assms unfolding elp_txn_def build_fields
  by (subst single_step_fields; simp add: TXN_PARAM_SET_get TXN_LOW_PRIORITY_def TXN_FUNC_ID_WLAN_def TXN_DIRECTION_WRITE_def TXN_INC_ADDR_def)+

lemma fresh_open:
  fixes cb hcb
  assumes "txnQ_Create True True mem = Some q" "\<And>t. t \<in> E \<Longrightarrow> TXN_PARAM_GET_FUNC_ID (mem t) = 2 \<and> TXN_PARAM_GET_SINGLE_STEP (mem t) \<noteq> 0"
  defines "q2 \<equiv> snd (txnQ_Open WLAN TXN_NUM_PRIORITYS cb hcb (\<lambda>_. True) (txnQ_Init True q))"
  shows "tw_q E q2" "tw_rest q2" "pCurrTxn q2 = None"
proof -
  have q: "txnQ_Init True q = \<lparr>aFuncInfo = [no_func, no_func, no_func, no_func], aTxnQueues = [[None, None], [None, None], [None, None], [None, None]],
      hTxnDoneQueue = Some [], pCurrTxn = None, uMinFuncId = 4, uMaxFuncId = 0, bSchedulerBusy = False, bSchedulerPend = False,
      fConnectCb = 0, hConnectCb = 0, pAggregQueue = None, txnMem = mem, accLog = [], busLog = [], cbLog = [], retLog = [], dropLog = []\<rparr>"
    using assms(1) by (auto simp: txnQ_Create_def txnQ_Init_def MAX_FUNCTIONS_def MAX_PRIORITY_def eval_nat_numeral)
  let ?fi = "\<lparr>eState = FUNC_STATE_STOPPED, uNumPrios = 2, fTxnQueueDoneCb = cb, fi_hCbHandle = hcb, pSingleStep = None\<rparr>"
  have e: "q2 = \<lparr>aFuncInfo = [no_func, no_func, ?fi, no_func], aTxnQueues = [[None, None], [None, None], [Some [], Some []], [None, None]],
      hTxnDoneQueue = Some [], pCurrTxn = None, uMinFuncId = 2, uMaxFuncId = 2, bSchedulerBusy = False, bSchedulerPend = False,
      fConnectCb = 0, hConnectCb = 0, pAggregQueue = None, txnMem = mem, accLog = [], busLog = [], cbLog = [], retLog = [], dropLog = []\<rparr>"
  proof -
    have u: "unat (2 :: TI_UINT32) = 2" "[0..<2] = [0, Suc 0]" by (simp_all add: upt_rec)
    show ?thesis unfolding q2_def q txnQ_Open_def TXN_NUM_PRIORITYS_def u
      by (simp add: Let_def MAX_FUNCTIONS_def MAX_PRIORITY_def upd_func_def func_info_def no_func_def set_queue_def)
  qed
  have fi: "func_info q2 f = (if f = 2 then ?fi else no_func)" for f
    by (auto simp: e func_info_def nth_Cons' numeral_eq_Suc less_Suc_eq)
  have tq: "items_h (txn_queue q2 f p) = []" for f p
    by (auto simp: e txn_queue_def items_h_def less_Suc_eq numeral_eq_Suc)
  have fl: "flight q2 = {#}" by (simp add: e flight_def waiting_def queued_def singles_def curr_txn_def items_h_def no_func_def)
  have "txnq_inv (txnQ_Init True q)" by (rule reach_txnq_inv [OF txnq_reach.create [OF assms(1)]])
  moreover have "eState (func_info (txnQ_Init True q) WLAN) = FUNC_STATE_NONE" by (simp add: q func_info_def no_func_def)
  ultimately have "txnq_wf q2" unfolding q2_def by (blast dest: inv_open txnq_inv_def [THEN iffD1])
  moreover have "class_ok q2" by (simp add: class_ok_def fi tq no_func_def) (simp add: e)
  moreover have "txnq_quiet q2" by (simp add: e txnq_quiet_def)
  moreover have "txnMem q2 = mem" by (simp add: e)
  ultimately show "tw_q E q2" using assms(2) by (auto simp: tw_q_def fl fi no_func_def)
  show "tw_rest q2" "pCurrTxn q2 = None" using empty_rest [OF fl] by (simp_all add: e)
qed

text \<open>The module as its creation, its initialisation and the registration of the error callback leave it.\<close>

inductive tw_reach :: "(addr list \<Rightarrow> ETxnStatus) \<Rightarrow> TTwIfObj \<Rightarrow> bool" for bus where
  start: "txnQ_Create True True mem = Some q \<Longrightarrow> twIf_Create True (txnQ_Init True q) slp awk = Some s \<Longrightarrow>
    slp \<noteq> 0 \<Longrightarrow> awk \<noteq> 0 \<Longrightarrow> slp \<noteq> awk \<Longrightarrow> fRecov \<noteq> 0 \<Longrightarrow> fErr \<noteq> 0 \<Longrightarrow>
    tw_reach bus (twIf_RegisterErrCb fErr hErr (twIf_Init fRecov hRecov buf_sleep buf_awake cb hcb True True (\<lambda>_. True) s))"
| step: "tw_reach bus s \<Longrightarrow> tw_step bus s s' \<Longrightarrow> tw_reach bus s'"

lemma start_inv:
  assumes "txnQ_Create True True mem = Some q" "twIf_Create True (txnQ_Init True q) slp awk = Some s"
    "slp \<noteq> 0" "awk \<noteq> 0" "slp \<noteq> awk" "fRecov \<noteq> 0" "fErr \<noteq> 0"
  shows "tw_inv (twIf_RegisterErrCb fErr hErr (twIf_Init fRecov hRecov buf_sleep buf_awake cb hcb True True (\<lambda>_. True) s))" (is "tw_inv ?s")
    "served (twIf_RegisterErrCb fErr hErr (twIf_Init fRecov hRecov buf_sleep buf_awake cb hcb True True (\<lambda>_. True) s))"
proof -
  let ?m = "mem(slp := elp_txn 0 buf_sleep (mem slp), awk := elp_txn 1 buf_awake (mem awk))"
  let ?q = "q\<lparr>txnMem := ?m\<rparr>"
  let ?E = "{slp, awk}"
  have mem: "txnMem q = mem" using assms(1) by (auto simp: txnQ_Create_def)
  have c: "txnQ_Create True True ?m = Some ?q" using assms(1) by (auto simp: txnQ_Create_def)
  have m: "\<And>t. t \<in> ?E \<Longrightarrow> TXN_PARAM_GET_FUNC_ID (?m t) = 2 \<and> TXN_PARAM_GET_SINGLE_STEP (?m t) \<noteq> 0"
    using elp_txn_fields [of 0] elp_txn_fields [of 1] by auto
  let ?q2 = "snd (txnQ_Open WLAN TXN_NUM_PRIORITYS cb hcb (\<lambda>_. True) (txnQ_Init True ?q))"
  note o = fresh_open [OF c m, of ?E cb hcb]
  obtain st q3 where r: "txnQ_Restart WLAN ?q2 = (st, q3)" by force
  have t: "tw_q ?E q3" "tw_rest q3" "st = TXN_STATUS_COMPLETE" "flight q3 = {#}" "eState (func_info q3 WLAN) = FUNC_STATE_RUNNING"
    using restart_tw [OF o(1,2) r] o(3) by simp_all
  have s0: "hTxnQ s = txnQ_Init True q" "tElpTxnSleep s = slp" "tElpTxnAwake s = awk" "bTxnDoneInRecovery s = False"
    using assms(2) by (auto simp: twIf_Create_def)
  have tx: "set_txn awk (elp_txn 1 buf_awake) (set_txn slp (elp_txn 0 buf_sleep) (txnQ_Init True q)) = txnQ_Init True ?q"
    using assms(5) mem by (simp add: set_txn_mem txnQ_Init_def)
  let ?s1 = "s\<lparr>fRecoveryCb := fRecov, hRecoveryCb := hRecov, uElpDataSleep := ucast ELP_CTRL_REG_SLEEP, uElpDataAwake := ucast ELP_CTRL_REG_AWAKE,
    tw_hTxnDoneQueue := Some [], hPendRestartTimer := True, bPendRestartTimerRunning := False, hTxnQ := ?q2\<rparr>"
  have i: "twIf_Init fRecov hRecov buf_sleep buf_awake cb hcb True True (\<lambda>_. True) s = snd (twIf_Restart ?s1)"
    unfolding twIf_Init_def Let_def by (simp add: s0 tx)
  have "snd (twIf_Restart ?s1) = ?s1\<lparr>tw_eState := SM_STATE_SLEEP, uAwakeReqCount := 0, uPendingTxnCount := 0, elpLog := [],
      tw_hTxnDoneQueue := Some [], hTxnQ := q3\<rparr>"
    using r t(3) by (simp add: twIf_Restart_def twIf_ClearTxnDoneQueue_def)
  then have s: "hTxnQ ?s = q3" "elps ?s = ?E" "tw_eState ?s = SM_STATE_SLEEP" "tw_hTxnDoneQueue ?s = Some []" "uPendingTxnCount ?s = 0"
      "elpLog ?s = []" "bTxnDoneInRecovery ?s = False" "fRecoveryCb ?s = fRecov" "fErrCb ?s = fErr"
    unfolding i by (simp_all add: twIf_RegisterErrCb_def elps_def s0)
  have d: "doneq ?s = []" "wst ?s = FUNC_STATE_RUNNING" using s t by (simp_all add: doneq_def items_h_def wst_def)
  have "tw_normal ?s" using s d t assms(3,4) by (simp add: tw_normal_def tw_core_def elp_inv_def regs_def)
  then show "tw_inv ?s" using s assms by (simp add: tw_inv_def)
  show "served ?s" using s d by (simp add: served_def)
qed

lemma tw_reach_inv: "tw_reach bus s \<Longrightarrow> tw_inv s \<and> served s"
proof (induction rule: tw_reach.induct)
  case (start mem q slp awk s fRecov fErr hErr hRecov buf_sleep buf_awake cb hcb)
  then show ?case by (intro conjI start_inv [OF start])
next
  case (step s s')
  then show ?case using tw_step_inv by blast
qed

section \<open>What reaches the bus while the device sleeps\<close>

lemma stopped_select:
  assumes "class_ok q" "\<forall>f. eState (func_info q f) \<noteq> FUNC_STATE_RUNNING" "pAggregQueue q = None" "txnQ_SelectTxn q = Some (t, q1)"
  shows "\<not> isreg q t \<and> pAggregQueue q1 = None"
proof -
  have n: "sel_prio r q = None" for r using assms(2) by (auto simp: sel_prio_none serves_def)
  have s: "sel_single fs q = Some (t, q1) \<Longrightarrow> \<exists>f. pSingleStep (func_info q f) = Some t \<and> pAggregQueue q1 = None" for fs
    using assms(3) by (induction fs) (auto simp: upd_func_def split: option.splits)
  have "sel_single (func_range q) q = Some (t, q1)" using assms(3,4) n by (simp add: txnQ_SelectTxn_def split: option.splits)
  from s [OF this] obtain f where "pSingleStep (func_info q f) = Some t" "pAggregQueue q1 = None" by blast
  then show ?thesis using assms(1) unfolding class_ok_def isreg_def by blast
qed

lemma stopped_sends:
  assumes "class_ok q" "\<forall>f. eState (func_info q f) \<noteq> FUNC_STATE_RUNNING" "pAggregQueue q = None"
  shows "\<exists>sent. busLog (snd (send_loop bus inp st q)) = busLog q @ sent \<and> (\<forall>t\<in>set sent. \<not> isreg q t) \<and>
    pAggregQueue (snd (send_loop bus inp st q)) = None \<and> same_funcs q (snd (send_loop bus inp st q))"
  using assms
proof (induction bus inp st q rule: send_loop.induct)
  case (1 bus inp st q)
  show ?case
  proof (cases "txnQ_SelectTxn q")
    case None
    then show ?thesis using 1(4) by (simp add: send_loop.simps [of bus inp st q] same_funcs_def)
  next
    case (Some r)
    obtain t q1 where r: "r = (t, q1)" by force
    note sel = Some [unfolded r]
    let ?q2 = "send_txn t q1"
    let ?q3 = "complete_txn inp t ?q2"
    note s = stopped_select [OF 1(2-4) sel] and b = select_busLog [OF sel]
    have a2: "pAggregQueue ?q2 = None" using s by (simp add: send_txn_def)
    show ?thesis
    proof (cases "bus (busLog ?q2) = TXN_STATUS_PENDING")
      case True
      have "snd (send_loop bus inp st q) = ?q2"
        using True Some r by (simp add: send_loop.simps [of bus inp st q] Let_def)
      then show ?thesis using s b a2 same_funcs_select [OF sel] by simp
    next
      case False
      let ?st = "if Some t = inp then bus (busLog ?q2) else st"
      have run: "send_loop bus inp st q = send_loop bus inp ?st ?q3"
        using False Some r by (simp add: send_loop.simps [of bus inp st q] Let_def)
      have sf: "same_funcs q ?q3" using same_funcs_trans same_funcs_select [OF sel] same_funcs_complete by blast
      have f: "busLog ?q3 = busLog q @ [t]" "pAggregQueue ?q3 = None"
        using b a2 by (simp_all add: complete_txn_def done_enqueue_def Let_def split_beta)
      have c: "class_ok ?q3" using class_select [OF 1(2) sel] by (simp add: complete_txn_def done_enqueue_def send_txn_def Let_def split_beta)
      have "\<exists>sent. busLog (snd (send_loop bus inp ?st ?q3)) = busLog ?q3 @ sent \<and> (\<forall>t\<in>set sent. \<not> isreg ?q3 t) \<and>
          pAggregQueue (snd (send_loop bus inp ?st ?q3)) = None \<and> same_funcs ?q3 (snd (send_loop bus inp ?st ?q3))"
        using 1(1) [OF Some r [symmetric] refl refl refl] False c f(2) sf 1(3) by (simp add: same_funcs_def)
      then obtain sent where "busLog (snd (send_loop bus inp ?st ?q3)) = busLog ?q3 @ sent" "\<forall>t\<in>set sent. \<not> isreg ?q3 t"
          "pAggregQueue (snd (send_loop bus inp ?st ?q3)) = None" "same_funcs q (snd (send_loop bus inp ?st ?q3))"
        using same_funcs_trans [OF sf] by blast
      moreover have "isreg ?q3 = isreg q" using sf by (simp add: fun_eq_iff isreg_def same_funcs_def)
      ultimately show ?thesis using f s run by (intro exI [of _ "t # sent"]) simp
    qed
  qed
qed

lemma stopped_run:
  assumes "txnq_quiet q" "class_ok q" "\<forall>f. eState (func_info q f) \<noteq> FUNC_STATE_RUNNING" "pAggregQueue q = None"
    "txnQ_RunScheduler bus no_client inp q = Some (st, q')"
  shows "\<exists>sent. busLog q' = busLog q @ sent \<and> (\<forall>t\<in>set sent. \<not> isreg q t) \<and> pAggregQueue q' = None \<and> txnMem q' = txnMem q"
proof (cases "pCurrTxn q")
  case (Some c)
  have "q\<lparr>bSchedulerBusy := False\<rparr> = q" using assms(1) by (simp add: txnq_quiet_def)
  then show ?thesis
    using assms Some by (simp add: txnQ_RunScheduler_def txnQ_Scheduler_def txnq_quiet_def run_again.simps)
next
  case None
  let ?q = "q\<lparr>bSchedulerBusy := True\<rparr>"
  obtain s1 q1 where r: "send_loop bus inp TXN_STATUS_PENDING ?q = (s1, q1)" by force
  have c: "class_ok ?q" "\<forall>f. eState (func_info ?q f) \<noteq> FUNC_STATE_RUNNING" "pAggregQueue ?q = None" "isreg ?q = isreg q"
    using assms by (simp_all add: fun_eq_iff isreg_def)
  obtain sent where s: "busLog q1 = busLog q @ sent" "\<forall>t\<in>set sent. \<not> isreg q t" "pAggregQueue q1 = None" "same_funcs ?q q1"
    using stopped_sends [OF c(1-3), of bus inp TXN_STATUS_PENDING] c(4) r by auto
  have "bSchedulerPend (done_loop no_client q1) = bSchedulerPend q1" by (simp add: done_loop_no_client)
  moreover have "bSchedulerPend q1 = bSchedulerPend q" using s(4) by (simp add: same_funcs_def)
  ultimately have "q' = (done_loop no_client q1)\<lparr>bSchedulerBusy := False\<rparr>"
    using assms(1,5) None r by (simp add: txnQ_RunScheduler_def txnQ_Scheduler_def txnq_quiet_def run_again.simps)
  then show ?thesis using s by (simp add: done_loop_no_client same_funcs_def)
qed

text \<open>Between two states only writes of the ELP register were sent.\<close>

definition only_elp :: "TTwIfObj \<Rightarrow> TTwIfObj \<Rightarrow> bool" where
  "only_elp s s' \<longleftrightarrow> (\<exists>sent. busLog (hTxnQ s') = busLog (hTxnQ s) @ sent \<and> (\<forall>t\<in>set sent. \<not> isreg (hTxnQ s) t)) \<and>
     (pAggregQueue (hTxnQ s) = None \<longrightarrow> pAggregQueue (hTxnQ s') = None) \<and> isreg (hTxnQ s') = isreg (hTxnQ s)"

lemma only_elp_same: "hTxnQ s' = hTxnQ s \<Longrightarrow> only_elp s s'"
  by (simp add: only_elp_def)

lemma only_elp_trans: "only_elp s s' \<Longrightarrow> only_elp s' s'' \<Longrightarrow> only_elp s s''"
  unfolding only_elp_def by fastforce

lemma done_cbs_queue: "hTxnQ (foldl twIf_TxnDoneCb s cs) = hTxnQ s"
proof (induction cs arbitrary: s)
  case (Cons t cs)
  have "hTxnQ (twIf_TxnDoneCb s t) = hTxnQ s" by (simp add: twIf_TxnDoneCb_def enq_txn_done_def dec_pending_def Let_def)
  then show ?case using Cons by simp
qed simp

lemma with_txnq_only_elp:
  assumes "busLog q' = busLog (hTxnQ s) @ sent" "\<forall>t\<in>set sent. \<not> isreg (hTxnQ s) t" "pAggregQueue q' = None" "isreg q' = isreg (hTxnQ s)"
  shows "only_elp s (with_txnq bus q' s)"
proof -
  obtain m where m: "bus_writes bus (hTxnQ s) q' = q'\<lparr>txnMem := m\<rparr>" "\<forall>t. same_txn (m t) (txnMem q' t)"
    using bus_writes_mem [OF assms(1), of bus] by blast
  then have "isreg (q'\<lparr>txnMem := m\<rparr>) = isreg q'" by (simp add: fun_eq_iff isreg_def same_txn_def)
  then show ?thesis using assms m(1) by (simp add: only_elp_def with_txnq_def done_cbs_queue)
qed

lemma submit_aggreg: "pAggregQueue (snd (txn_submit t q)) = pAggregQueue q"
  by (simp add: txn_submit_def Let_def split_beta set_queue_def upd_func_def drop_single_def split: option.splits)

lemma stopped_transact:
  assumes c: "tw_core k s" and w: "wst s = FUNC_STATE_STOPPED" and a: "pAggregQueue (hTxnQ s) = None"
    and r: "tw_transact bus t s = Some (st, s')"
  shows "only_elp s s'"
proof -
  let ?q = "hTxnQ s"
  obtain ok q1 where s: "txn_submit t ?q = (ok, q1)" by force
  have tq: "tw_q (elps s) ?q" using c by (simp add: tw_core_def)
  note q = tw_q_fields [OF tq]
  have f: "eState (func_info ?q f) \<noteq> FUNC_STATE_RUNNING" for f using q(8) [of f] w by (cases "f = WLAN") (auto simp: wst_def)
  obtain q' where t: "txnQ_Transact bus no_client t ?q = Some (st, q')" "s' = with_txnq bus q' s"
    using r by (auto simp: tw_transact_def Option.bind_eq_Some_conv)
  note same = submit_same [OF s]
  show ?thesis
  proof (cases ok)
    case False
    then have "q' = ?q" using submit_refused [of t ?q] s t(1) by (simp add: txnQ_Transact_def)
    then show ?thesis using with_txnq_only_elp [of q' s "[]" bus] a t(2) by simp
  next
    case True
    then have run: "txnQ_RunScheduler bus no_client (Some t) q1 = Some (st, q')" using s t(1) by (simp add: txnQ_Transact_def)
    have e1: "q1 = snd (txn_submit t ?q)" using s by simp
    have q1: "txnq_quiet q1" "class_ok q1" "pAggregQueue q1 = None"
      using q(2,3) a unfolding e1 by (simp_all add: class_submit submit_aggreg)
    have f1: "\<forall>f. eState (func_info q1 f) \<noteq> FUNC_STATE_RUNNING" using same f by simp
    obtain sent where "busLog q' = busLog q1 @ sent" "\<forall>t\<in>set sent. \<not> isreg q1 t" "pAggregQueue q' = None" "txnMem q' = txnMem q1"
      using stopped_run [OF q1(1,2) f1 q1(3) run] by blast
    then show ?thesis unfolding t(2) using same by (intro with_txnq_only_elp) (auto simp: isreg_def fun_eq_iff)
  qed
qed

lemma stopped_complete:
  assumes n: "tw_normal s" and w: "wst s = FUNC_STATE_STOPPED" and a: "pAggregQueue (hTxnQ s) = None"
    and t: "pCurrTxn (hTxnQ s) = Some t" and v: "v = TXN_PARAM_STATUS_OK \<or> v = TXN_PARAM_STATUS_ERROR" and r: "bus_completes bus v t s = Some s'"
  shows "only_elp s s'"
proof -
  let ?s = "s\<lparr>hTxnQ := set_txn t (TXN_PARAM_SET_STATUS v) (hTxnQ s)\<rparr>"
  let ?q = "hTxnQ ?s"
  let ?q1 = "(done_enqueue t ?q)\<lparr>pCurrTxn := None\<rparr>"
  have st: "same_txn (txnMem ?q x) (txnMem (hTxnQ s) x)" for x
    using set_status_same [of v] v by (auto simp: set_txn_mem same_txn_def)
  have tq: "tw_q (elps s) ?q" using tw_q_mem [of "elps s" "hTxnQ s" "txnMem ?q"] st n
    by (simp add: tw_normal_def tw_core_def set_txn_mem)
  note q = tw_q_fields [OF tq]
  have fn: "txn_func ?q t = WLAN" using q(6) [of t] t by (simp add: flight_def curr_txn_def set_txn_mem)
  have ws: "eState (func_info ?q WLAN) = FUNC_STATE_STOPPED" using w by (simp add: wst_def set_txn_mem)
  have f: "eState (func_info ?q f) \<noteq> FUNC_STATE_RUNNING" for f using q(8) [of f] ws by (cases "f = WLAN") auto
  have ir: "isreg ?q = isreg (hTxnQ s)" using st by (simp add: fun_eq_iff isreg_def same_txn_def)
  obtain q' where b: "txnQ_TxnDoneCb bus no_client t ?q = Some q'" "s' = with_txnq bus q' ?s"
    using r by (auto simp: bus_completes_def Let_def Option.bind_eq_Some_conv)
  have "\<exists>st. txnQ_RunScheduler bus no_client None ?q1 = Some (st, q')" using b(1) ws fn by (auto simp: txnQ_TxnDoneCb_def Let_def)
  then obtain x where run: "txnQ_RunScheduler bus no_client None ?q1 = Some (x, q')" by blast
  have same: "busLog ?q1 = busLog ?q" "txnMem ?q1 = txnMem ?q" "pAggregQueue ?q1 = pAggregQueue ?q" "func_info ?q1 g = func_info ?q g"
      "txnq_quiet ?q1 = txnq_quiet ?q" for g
    by (simp_all add: done_enqueue_def Let_def split_beta txnq_quiet_def)
  have "class_ok ?q1" using cls.I_done [OF q(2)] t by (simp add: set_txn_mem)
  moreover have "pAggregQueue ?q1 = None" "txnq_quiet ?q1" "\<forall>f. eState (func_info ?q1 f) \<noteq> FUNC_STATE_RUNNING"
    unfolding same using a q(3) f by (simp_all add: set_txn_mem)
  ultimately obtain sent where "busLog q' = busLog ?q1 @ sent" "\<forall>t\<in>set sent. \<not> isreg ?q1 t" "pAggregQueue q' = None" "txnMem q' = txnMem ?q1"
    using stopped_run [OF _ _ _ _ run] by blast
  then have "only_elp ?s (with_txnq bus q' ?s)"
    using same by (intro with_txnq_only_elp) (auto simp: isreg_def fun_eq_iff)
  moreover have "only_elp s ?s" using ir by (simp add: only_elp_def) (simp add: set_txn_mem)
  ultimately show ?thesis unfolding b(2) by (rule only_elp_trans [rotated])
qed

lemma stopped_start:
  assumes c: "tw_core k s" and w: "wst s = FUNC_STATE_STOPPED" and a: "pAggregQueue (hTxnQ s) = None" and e: "tw_eState s \<noteq> SM_STATE_AWAKE"
    and r: "twIf_HandleSmEvent bus ev s = Some s'" "ev \<noteq> SM_EVENT_HW_AVAILABLE"
  shows "only_elp s s'"
proof (cases "tw_eState s = SM_STATE_SLEEP \<and> ev = SM_EVENT_START")
  case False
  then have "s' = s" using r e by (auto simp: twIf_HandleSmEvent_def split: TwSmState.splits if_splits)
  then show ?thesis by (simp add: only_elp_same)
next
  case True
  let ?s = "s\<lparr>tw_eState := SM_STATE_WAIT_HW, elpLog := elpLog s @ [ELP_CTRL_REG_AWAKE]\<rparr>"
  obtain st where t: "tw_transact bus (tElpTxnAwake s) ?s = Some (st, s')"
    using r(1) True by (auto simp: twIf_HandleSmEvent_def twIf_WriteElpReg_def)
  have "tw_core k ?s" "wst ?s = FUNC_STATE_STOPPED" "pAggregQueue (hTxnQ ?s) = None"
    using c w a by (simp_all add: core_frames wst_def)
  from stopped_transact [OF this t] have "only_elp ?s s'" .
  then show ?thesis using only_elp_trans [OF only_elp_same [of ?s s]] by simp
qed

lemma stopped_sleep:
  assumes "tw_normal s" "wst s = FUNC_STATE_STOPPED" "sleep_check bus s = Some s'"
  shows "s' = s"
  using assms by (auto simp: tw_normal_def elp_inv_def sleep_check_def twIf_HandleSmEvent_def split: TwSmState.splits if_splits)

lemma stopped_send:
  assumes n: "tw_normal s" and w: "wst s = FUNC_STATE_STOPPED" and a: "pAggregQueue (hTxnQ s) = None"
    and t: "idle_txn t s" "txn_func (hTxnQ s) t = WLAN" "TXN_PARAM_GET_SINGLE_STEP (txnMem (hTxnQ s) t) = 0"
    and r: "twIf_SendTransaction bus t s = Some (st, s')"
  shows "only_elp s s'"
proof (cases "uHwAddr (txnMem (hTxnQ s) t) AND 3 = 0")
  case False
  then show ?thesis using r by (simp add: twIf_SendTransaction_def only_elp_same)
next
  case True
  let ?s1 = "s\<lparr>uPendingTxnCount := uPendingTxnCount s + 1\<rparr>"
  have room: "unat (uPendingTxnCount s + 1) = unat (uPendingTxnCount s) + 1"
    using pend_room [OF _ t(1)] n by (subst unat_add_lem [THEN iffD1]) (auto simp: tw_normal_def)
  have c1: "tw_core 1 ?s1" using n room by (simp add: tw_normal_def tw_core_def elps_def doneq_def)
  have ti: "t \<notin> elps ?s1" "t \<noteq> 0" using t(1) by (simp_all add: idle_txn_def elps_def)
  obtain st1 s2 where r2: "tw_transact bus t ?s1 = Some (st1, s2)" and k: "tw_eState s2 = tw_eState ?s1" "wst s2 = wst ?s1"
      "tw_core (if st1 = TXN_STATUS_PENDING then 0 else 1) s2"
    using tw_transact_core [OF c1, of t bus] t ti by (auto simp: idle_txn_def doneq_def)
  have ns: "tw_eState s \<noteq> SM_STATE_AWAKE" using n w by (auto simp: tw_normal_def elp_inv_def)
  have "wst ?s1 = FUNC_STATE_STOPPED" "pAggregQueue (hTxnQ ?s1) = None" using w a by (simp_all add: wst_def)
  from stopped_transact [OF c1 this r2] have o: "only_elp s s2"
    using only_elp_trans [OF only_elp_same [of ?s1 s]] by simp
  then have a2: "pAggregQueue (hTxnQ s2) = None" using a by (simp add: only_elp_def)
  have w2: "wst s2 = FUNC_STATE_STOPPED" "tw_eState s2 \<noteq> SM_STATE_AWAKE" using k w ns by (simp_all add: wst_def)
  show ?thesis
  proof (cases "st1 = TXN_STATUS_PENDING")
    case st: True
    let ?s3 = "s2\<lparr>uDbgCountTxn := uDbgCountTxn s2 + 1, uDbgCountTxnPending := uDbgCountTxnPending s2 + 1\<rparr>"
    have v: "twIf_HandleSmEvent bus SM_EVENT_START ?s3 = Some s'"
      using r True st by (simp add: twIf_SendTransaction_def r2 Option.bind_eq_Some_conv)
    have "tw_core 0 ?s3" "wst ?s3 = FUNC_STATE_STOPPED" "pAggregQueue (hTxnQ ?s3) = None" "tw_eState ?s3 \<noteq> SM_STATE_AWAKE"
      using k st w2 a2 by (simp_all add: core_frames wst_def)
    from stopped_start [OF this v] have "only_elp ?s3 s'" by simp
    then show ?thesis using only_elp_trans [OF o only_elp_trans [OF only_elp_same [of ?s3 s2]]] by simp
  next
    case st: False
    let ?s3 = "let s = s2\<lparr>uDbgCountTxn := uDbgCountTxn s2 + 1\<rparr>;
      s = (if st1 = TXN_STATUS_COMPLETE then s\<lparr>uDbgCountTxnComplete := uDbgCountTxnComplete s + 1\<rparr> else s)
      in s\<lparr>uPendingTxnCount := uPendingTxnCount s - 1\<rparr>"
    obtain s5 where "sleep_check bus ?s3 = Some s5" "s' = (if st1 = TXN_STATUS_ERROR then call_err t s5 else s5)"
      using r True st by (cases st1) (auto simp: twIf_SendTransaction_def r2 Option.bind_eq_Some_conv Let_def)
    then obtain s3 s5 where v: "hTxnQ s3 = hTxnQ s2" "tw_eState s3 = tw_eState s2" "sleep_check bus s3 = Some s5" "hTxnQ s' = hTxnQ s5"
      using that [of ?s3 s5] by (simp add: Let_def call_err_def)
    have "s5 = s3" using v(2,3) w2(2)
      by (auto simp: sleep_check_def twIf_HandleSmEvent_def split: TwSmState.splits if_splits)
    then show ?thesis using only_elp_trans [OF o only_elp_same] v by simp
  qed
qed

section \<open>The pending count\<close>

text \<open>
  C14. The count of pending transactions is exact: in every state that the interface reaches as long as
  the guard timer of a restart does not expire (\<open>twIf_PendRestratTimeout\<close> is not among the calls of
  \<open>tw_reach\<close>; after it the count is wrong, see the restarts below), outside a restart that waits
  for the bus, uPendingTxnCount is the number of the regular transactions that the
  queue below holds or that are on the bus, plus the number of those whose callback is still to be
  called; these are distinct, none of them is under way twice, and none is both. While a restart
  waits for the bus nothing is counted and nothing waits for the handler.
\<close>

theorem twIf_pending_exact:
  assumes "tw_reach bus s"
  shows "if wst s = FUNC_STATE_RESTART then uPendingTxnCount s = 0 \<and> doneq s = [] \<and> pCurrTxn (hTxnQ s) \<noteq> None
    else unat (uPendingTxnCount s) = card (tw_regs s) + length (doneq s) \<and> distinct (doneq s) \<and> set (doneq s) \<inter> tw_regs s = {} \<and>
      (\<forall>t\<in>tw_regs s. count (flight (hTxnQ s)) t = 1)"
proof (cases "wst s = FUNC_STATE_RESTART")
  case True
  then show ?thesis using tw_reach_inv [OF assms]
    by (auto simp: tw_inv_def tw_normal_def tw_recovering_def tw_restarting_def doneq_def items_h_def split: if_splits)
next
  case False
  then have c: "tw_core 0 s" using tw_reach_inv [OF assms] tw_inv_normal by (auto simp: tw_normal_def)
  have "count (flight (hTxnQ s)) t = 1" if "t \<in> tw_regs s" for t
  proof -
    have "t \<in># flight (hTxnQ s)" "t \<notin> elps s" "tw_q (elps s) (hTxnQ s)" using that c by (simp_all add: regs_def tw_core_def)
    moreover from this have "count (flight (hTxnQ s)) t > 0" by simp
    ultimately show ?thesis using tw_q_fields(5) [of "elps s" "hTxnQ s" t] by linarith
  qed
  then show ?thesis using False c by (auto simp: tw_core_def)
qed

section \<open>Power\<close>

text \<open>
  C22. The power state agrees with the queue and with the device: in every state that is reached as long
  as the guard timer of a restart does not expire (after it the interface sleeps with a regular
  transaction under way and no restart waiting, see the restarts below), when the interface sleeps nothing is pending and no regular transaction is under way (other than the one on
  the bus that a restart waits for); when it is awake the queue runs and the last value that was
  written to the ELP register is AWAKE; when it waits for the device the last value is AWAKE and the
  queue is stopped, unless the device was never put to sleep since the restart; and when it sleeps,
  the last value is SLEEP and the queue is stopped, unless nothing was written since the restart.
\<close>

theorem twIf_power_agrees:
  assumes "tw_reach bus s"
  shows "case tw_eState s of
      SM_STATE_SLEEP \<Rightarrow> uPendingTxnCount s = 0 \<and> doneq s = [] \<and> (tw_regs s = {} \<or> wst s = FUNC_STATE_RESTART) \<and>
        (elpLog s = [] \<or> last (elpLog s) = ELP_CTRL_REG_SLEEP \<and> wst s = FUNC_STATE_STOPPED)
    | SM_STATE_AWAKE \<Rightarrow> wst s = FUNC_STATE_RUNNING \<and> elpLog s \<noteq> [] \<and> last (elpLog s) = ELP_CTRL_REG_AWAKE
    | SM_STATE_WAIT_HW \<Rightarrow> elpLog s \<noteq> [] \<and> last (elpLog s) = ELP_CTRL_REG_AWAKE \<and>
        (wst s = FUNC_STATE_STOPPED \<or> wst s = FUNC_STATE_RUNNING \<and> ELP_CTRL_REG_SLEEP \<notin> set (elpLog s))"
proof (cases "wst s = FUNC_STATE_RESTART")
  case True
  then have "tw_restarting s" using tw_reach_inv [OF assms] by (auto simp: tw_inv_def tw_normal_def tw_recovering_def split: if_splits)
  then show ?thesis using True by (simp add: tw_restarting_def doneq_def items_h_def)
next
  case False
  then have n: "tw_normal s" using tw_reach_inv [OF assms] tw_inv_normal by blast
  then have p: "tw_eState s = SM_STATE_SLEEP \<Longrightarrow> tw_regs s = {} \<and> doneq s = []" by (auto simp: tw_normal_def tw_core_def)
  show ?thesis using n p False by (auto simp: tw_normal_def elp_inv_def split: TwSmState.splits)
qed

text \<open>
  C15. Nothing but writes of the ELP register reaches a device that sleeps or wakes up, as long as no
  aggregation was left open: from a reachable state whose queue is stopped and has no aggregation open, a
  call of the interface, a completion or a restart sends only the ELP transactions, until the device was
  reported available. (With an aggregation open \<open>txnQ_SelectTxn\<close> serves its queue without looking at the
  state of the function.) States are reached without the guard timer of a restart.
\<close>

theorem twIf_asleep_quiet:
  assumes "tw_reach bus s" "wst s = FUNC_STATE_STOPPED" "pAggregQueue (hTxnQ s) = None"
    and "tw_api bus s s'" "tw_eState s' \<noteq> SM_STATE_AWAKE"
  shows "\<exists>sent. busLog (hTxnQ s') = busLog (hTxnQ s) @ sent \<and>
    (\<forall>t\<in>set sent. TXN_PARAM_GET_SINGLE_STEP (txnMem (hTxnQ s) t) \<noteq> 0)"
proof -
  have i: "tw_inv s" and n: "tw_normal s" using tw_reach_inv [OF assms(1)] tw_inv_normal [of s] assms(2) by auto
  have send: ?thesis if id: "idle_txn t s" "txn_func (hTxnQ s) t = WLAN"
      and f: "\<And>x. TXN_PARAM_GET_SINGLE_STEP (f x) = 0" "\<And>x. TXN_PARAM_GET_FUNC_ID (f x) = TXN_PARAM_GET_FUNC_ID x"
      and r: "twIf_SendTransaction bus t (s\<lparr>hTxnQ := set_txn t f (hTxnQ s)\<rparr>) = Some (st, s')" for t f st
  proof -
    let ?s = "s\<lparr>hTxnQ := set_txn t f (hTxnQ s)\<rparr>"
    have w: "wst ?s = FUNC_STATE_STOPPED" "pAggregQueue (hTxnQ ?s) = None" using assms(2,3) by (simp_all add: wst_def set_txn_mem)
    have x: "txn_func (hTxnQ ?s) t = WLAN" "TXN_PARAM_GET_SINGLE_STEP (txnMem (hTxnQ ?s) t) = 0" using id(2) f by (simp_all add: set_txn_mem)
    have "tw_normal ?s" using tw_inv_normal [OF inv_set_idle [OF i id(1)]] w(1) by simp
    from stopped_send [OF this w _ x r] id(1) have "only_elp ?s s'" by (simp add: idle_set)
    then obtain sent where "busLog (hTxnQ s') = busLog (hTxnQ s) @ sent" "\<forall>u\<in>set sent. \<not> isreg (hTxnQ ?s) u"
      by (auto simp: only_elp_def set_txn_mem)
    moreover have "isreg (hTxnQ ?s) t" using x(2) by (simp add: isreg_def)
    ultimately show ?thesis by (auto simp: isreg_def set_txn_mem split: if_splits)
  qed
  have same: ?thesis if "only_elp s s'" using that by (auto simp: only_elp_def isreg_def)
  show ?thesis
    using assms(4)
  proof (cases rule: tw_api.cases)
    case tw_call
    then show ?thesis
    proof (cases rule: tw_call.cases)
      case awake
      then show ?thesis by (simp add: twIf_Awake_def)
    next
      case sleep
      let ?s = "(if uAwakeReqCount s > 0 then s\<lparr>uAwakeReqCount := uAwakeReqCount s - 1\<rparr> else s)\<lparr>uDbgCountSleep := uDbgCountSleep s + 1\<rparr>"
      have "tw_normal ?s" "wst ?s = FUNC_STATE_STOPPED" using n assms(2) by (simp_all add: wst_def)
      then have "s' = ?s" using stopped_sleep sleep by (simp add: twIf_Sleep_def)
      then show ?thesis by simp
    next
      case hw_available
      then show ?thesis using hw_available_inv [OF i hw_available(1,2), of bus] assms(5) by auto
    next
      case (transact t st)
      show ?thesis by (rule send [OF transact(2,3) _ _ transact(4) [unfolded twIf_Transact_def]])
          (simp_all add: regular_fields, simp add: TXN_PARAM_GET_FUNC_ID_def)
    next
      case (read_status t st)
      show ?thesis by (rule send [OF read_status(2,3) _ _ read_status(4) [unfolded twIf_TransactReadFWStatus_def]])
          (simp_all add: regular_fields)
    next
      case (send t st)
      then show ?thesis using same stopped_send [OF n assms(2,3)] by blast
    next
      case (completed t v)
      then show ?thesis using same stopped_complete [OF n assms(2,3)] by blast
    qed (simp_all add: set_txn_mem)
  next
    case (restart st)
    obtain e q where r: "txnQ_Restart WLAN (hTxnQ s) = (e, q)" by force
    have "busLog (hTxnQ s') = busLog q"
      using restart r clear_done_queue n by (auto simp: twIf_Restart_def Let_def tw_normal_def tw_core_def split: if_splits)
    moreover have "busLog q = busLog (hTxnQ s)" using restart_tw [of "elps s", OF _ _ r] n by (simp add: tw_normal_def tw_core_def)
    ultimately show ?thesis by (intro exI [of _ "[]"]) simp
  qed
qed

section \<open>Nothing waits for ever\<close>

lemma reg_waits:
  assumes c: "tw_core 0 s" and t: "t \<in> tw_regs s" and n: "pCurrTxn (hTxnQ s) = None"
  shows "\<exists>p. t \<in> set (items_h (txn_queue (hTxnQ s) WLAN p)) \<and> p < unat (uNumPrios (func_info (hTxnQ s) WLAN)) \<and> p < MAX_PRIORITY"
proof -
  let ?q = "hTxnQ s"
  have q: "tw_q (elps s) ?q" "tw_rest ?q" using c by (simp_all add: tw_core_def)
  note f = tw_q_fields [OF q(1)]
  have tf: "t \<in># flight ?q" "t \<notin> elps s" using t by (simp_all add: regs_def)
  have "t \<in># waiting ?q" using tf q(2) n by (simp add: flight_def curr_txn_def tw_rest_def items_h_def)
  moreover have "t \<notin> set (singles ?q)"
  proof
    assume "t \<in> set (singles ?q)"
    then obtain fi where "fi \<in> set (aFuncInfo ?q)" "pSingleStep fi = Some t" by (auto simp: singles_def split: option.splits)
    then obtain g where "g < length (aFuncInfo ?q)" "pSingleStep (func_info ?q g) = Some t" by (auto simp: in_set_conv_nth func_info_def)
    then have "TXN_PARAM_GET_SINGLE_STEP (txnMem ?q t) \<noteq> 0" using f(2) by (auto simp: class_ok_def)
    then show False using f(7) tf by blast
  qed
  ultimately have "t \<in> set (queued ?q)" by (auto simp: waiting_def)
  then obtain g p where g: "t \<in> set (items_h (txn_queue ?q g p))" using queued_queue by blast
  then have "txn_func ?q t = g" using f(2) unfolding class_ok_def by blast
  then have "g = WLAN" using f(6) [of t] tf(1) by simp
  moreover have qn: "txn_queue ?q g p \<noteq> None" using g by (cases "txn_queue ?q g p") (simp_all add: items_h_def)
  moreover have "p < MAX_PRIORITY" using qn f(1) by (auto simp: txn_queue_def txnq_wf_def MAX_PRIORITY_def split: if_splits)
  ultimately show ?thesis using g queue_used [OF f(1) qn] by auto
qed

lemma running_serves:
  assumes c: "tw_core 0 s" and r: "wst s = FUNC_STATE_RUNNING" and a: "pAggregQueue (hTxnQ s) = None" and t: "t \<in> tw_regs s"
  shows "pCurrTxn (hTxnQ s) \<noteq> None"
proof
  assume n: "pCurrTxn (hTxnQ s) = None"
  obtain p where p: "t \<in> set (items_h (txn_queue (hTxnQ s) WLAN p))" "p < unat (uNumPrios (func_info (hTxnQ s) WLAN))" "p < MAX_PRIORITY"
    using reg_waits [OF c t n] by blast
  have "serves (hTxnQ s) WLAN p" using p r by (auto simp: serves_def wst_def)
  moreover have "(p, WLAN) \<in> set (prio_range (hTxnQ s))"
    using p(3) c by (auto simp: prio_range_def func_range_def tw_core_def tw_q_def class_ok_def)
  ultimately have "txnQ_SelectTxn (hTxnQ s) \<noteq> None" using a by (auto simp: select_none)
  then show False using c n by (simp add: tw_core_def tw_rest_def)
qed

text \<open>
  C16. No transaction waits for nothing: in every state reached without the guard timer of a restart,
  outside a pending restart and without an open aggregation, if a regular transaction is under way then the bus is busy, or the interface waits
  for the device, which it told to wake up and has not told to sleep since. And when the device is
  then reported available, the interface is awake, and the bus is busy, an aggregation is open or no
  regular transaction is left.
\<close>

theorem twIf_no_stall:
  assumes "tw_reach bus s" "wst s \<noteq> FUNC_STATE_RESTART" "t \<in> tw_regs s"
  shows "(pAggregQueue (hTxnQ s) = None \<longrightarrow> pCurrTxn (hTxnQ s) \<noteq> None \<or>
      tw_eState s = SM_STATE_WAIT_HW \<and> last (elpLog s) = ELP_CTRL_REG_AWAKE) \<and>
    (\<exists>s'. twIf_HwAvailable bus s = Some s' \<and> tw_eState s' = SM_STATE_AWAKE \<and>
      (pCurrTxn (hTxnQ s') \<noteq> None \<or> pAggregQueue (hTxnQ s') \<noteq> None \<or> tw_regs s' = {}))"
proof (intro conjI impI)
  have n: "tw_normal s" using tw_reach_inv [OF assms(1)] tw_inv_normal assms(2) by blast
  then have c: "tw_core 0 s" and e: "elp_inv s" by (simp_all add: tw_normal_def)
  have ns: "tw_eState s \<noteq> SM_STATE_SLEEP" using n assms(3) by (auto simp: tw_normal_def tw_core_def)
  show "pCurrTxn (hTxnQ s) \<noteq> None \<or> tw_eState s = SM_STATE_WAIT_HW \<and> last (elpLog s) = ELP_CTRL_REG_AWAKE"
    if "pAggregQueue (hTxnQ s) = None"
    using that running_serves [OF c _ _ assms(3)] ns e by (auto simp: elp_inv_def split: TwSmState.splits)
  obtain s' where s': "twIf_HandleSmEvent bus SM_EVENT_HW_AVAILABLE s = Some s'" "tw_core 0 s'" "elp_inv s'" "tw_eState s' = SM_STATE_AWAKE"
    using sm_event [of 0 s bus SM_EVENT_HW_AVAILABLE] c e assms(2) by (auto simp: next_state_def)
  have "wst s' = FUNC_STATE_RUNNING" using s'(3,4) by (simp add: elp_inv_def)
  then have "pCurrTxn (hTxnQ s') \<noteq> None \<or> pAggregQueue (hTxnQ s') \<noteq> None \<or> tw_regs s' = {}"
    using running_serves [OF s'(2)] by blast
  then show "\<exists>s'. twIf_HwAvailable bus s = Some s' \<and> tw_eState s' = SM_STATE_AWAKE \<and>
      (pCurrTxn (hTxnQ s') \<noteq> None \<or> pAggregQueue (hTxnQ s') \<noteq> None \<or> tw_regs s' = {})"
    using s' by (simp add: twIf_HwAvailable_def)
qed

text \<open>
  C23. Nothing waits for a handler that was not asked for: in every state reached without the guard timer
  of a restart, if a completed
  transaction's callback is still to be called, or the device is awake though no one asked for it and
  nothing is pending (so that it is to be put to sleep), then the context engine was asked for
  twIf_HandleTxnDone or an error was reported; and the end of a restart asks for it too.
\<close>

theorem twIf_handler_served:
  assumes "tw_reach bus s"
  shows "((doneq s \<noteq> [] \<or> tw_eState s = SM_STATE_AWAKE \<and> uAwakeReqCount s = 0 \<and> uPendingTxnCount s = 0) \<longrightarrow>
      tw_sched s \<or> errLog s \<noteq> []) \<and> (bTxnDoneInRecovery s \<longrightarrow> tw_sched s)"
  using tw_reach_inv [OF assms] by (auto simp: served_def)

text \<open>
  C27. The functions return: in every state reached without the guard timer of a restart twIf_Sleep returns, a completion by the bus driver
  is handled, and while clients are served twIf_HwAvailable (for a client that holds the device
  awake), twIf_Transact and twIf_TransactReadFWStatus (of a transaction that is not under way) return.
\<close>

theorem twIf_returns:
  assumes "tw_reach bus s"
  shows "(\<exists>s'. twIf_Sleep bus s = Some s') \<and>
    (pCurrTxn (hTxnQ s) = Some t \<longrightarrow> (\<exists>s'. bus_completes bus TXN_PARAM_STATUS_OK t s = Some s') \<and>
      (\<exists>s'. bus_completes bus TXN_PARAM_STATUS_ERROR t s = Some s')) \<and>
    (tw_open s \<and> uAwakeReqCount s \<noteq> 0 \<longrightarrow> (\<exists>s'. twIf_HwAvailable bus s = Some s')) \<and>
    (tw_open s \<and> idle_txn t s \<and> txn_func (hTxnQ s) t = WLAN \<longrightarrow>
      (\<exists>r. twIf_Transact bus t s = Some r) \<and> (\<exists>r. twIf_TransactReadFWStatus bus t s = Some r))"
proof (intro conjI impI)
  have i: "tw_inv s" using tw_reach_inv [OF assms] by simp
  let ?a = "if uAwakeReqCount s > 0 then uAwakeReqCount s - 1 else uAwakeReqCount s"
  have "(if uAwakeReqCount s > 0 then s\<lparr>uAwakeReqCount := uAwakeReqCount s - 1\<rparr> else s)\<lparr>uDbgCountSleep := uDbgCountSleep s + 1\<rparr> =
      s\<lparr>uAwakeReqCount := ?a, uDbgCountSleep := uDbgCountSleep s + 1\<rparr>" by simp
  then show "\<exists>s'. twIf_Sleep bus s = Some s'"
    using sleep_inv [OF awake_cong(2) [OF i], of bus "uDbgCountSleep s + 1" ?a] by (auto simp: twIf_Sleep_def simp del: if_split)
  show "\<exists>s'. bus_completes bus TXN_PARAM_STATUS_OK t s = Some s'" if "pCurrTxn (hTxnQ s) = Some t"
    using complete_inv [OF i that] by blast
  show "\<exists>s'. bus_completes bus TXN_PARAM_STATUS_ERROR t s = Some s'" if "pCurrTxn (hTxnQ s) = Some t"
    using complete_inv [OF i that] by blast
  show "\<exists>s'. twIf_HwAvailable bus s = Some s'" if "tw_open s \<and> uAwakeReqCount s \<noteq> 0"
    using hw_available_inv [OF i] that by blast
  show "\<exists>r. twIf_Transact bus t s = Some r" "\<exists>r. twIf_TransactReadFWStatus bus t s = Some r"
    if "tw_open s \<and> idle_txn t s \<and> txn_func (hTxnQ s) t = WLAN"
    using transact_inv [OF i, of t bus] that by blast+
qed

section \<open>The handler\<close>

lemma sleep_doneq:
  assumes "tw_inv s" "sleep_check bus s = Some s'"
  shows "tw_inv s' \<and> (s' = s \<or> doneq s' = [] \<and> doneq s = [] \<and> callLog s' = callLog s \<and> errLog s' = errLog s)"
proof (cases "tw_eState s = SM_STATE_SLEEP")
  case True
  then show ?thesis using assms sleep_check_restarting [of s bus] by simp
next
  case False
  then have n: "tw_normal s" using assms(1) by (auto simp: tw_inv_def tw_recovering_def tw_restarting_def split: if_splits)
  obtain s1 where e: "sleep_check bus s = Some s1" "tw_same s s1" "tw_normal s1" "s1 = s \<or> tw_eState s1 \<noteq> SM_STATE_AWAKE \<and> uPendingTxnCount s1 = 0"
    using sleep_check_normal [OF n, of bus] by blast
  have "doneq s1 = []" if "uPendingTxnCount s1 = 0" using e(3) that by (simp add: tw_normal_def tw_core_def)
  moreover have "doneq s = []" if "s1 \<noteq> s"
  proof -
    have "uPendingTxnCount s = 0" using e(1) that by (auto simp: sleep_check_def split: if_splits)
    then show ?thesis using n by (simp add: tw_normal_def tw_core_def)
  qed
  ultimately show ?thesis using e assms(2) sleep_inv [OF assms(1), of bus] by (auto simp: tw_same_def keeps_def)
qed

lemma dequeue_fields:
  assumes "deq_h (tw_hTxnDoneQueue s) = (Some t, h)"
  shows "doneq (dec_pending (s\<lparr>tw_hTxnDoneQueue := h\<rparr>)) = tl (doneq s)" "doneq s \<noteq> []" "hd (doneq s) = t"
    "hTxnQ (dec_pending (s\<lparr>tw_hTxnDoneQueue := h\<rparr>)) = hTxnQ s" "callLog (dec_pending (s\<lparr>tw_hTxnDoneQueue := h\<rparr>)) = callLog s"
    "errLog (dec_pending (s\<lparr>tw_hTxnDoneQueue := h\<rparr>)) = errLog s"
  using deq_h_some [OF assms] by (simp_all add: dec_pending_def doneq_def)

lemma log_inv: "tw_inv s \<Longrightarrow> tw_inv (s\<lparr>callLog := l\<rparr>)" "doneq (s\<lparr>callLog := l\<rparr>) = doneq s"
proof -
  have "tw_restarting (s\<lparr>callLog := l\<rparr>) = tw_restarting s" by (simp add: tw_restarting_def elps_def wst_def)
  then show "tw_inv s \<Longrightarrow> tw_inv (s\<lparr>callLog := l\<rparr>)" by (auto simp: tw_inv_def tw_recovering_def doneq_def)
  show "doneq (s\<lparr>callLog := l\<rparr>) = doneq s" by (simp add: doneq_def)
qed

lemma handle_returns:
  assumes "tw_inv s" "\<And>t u. \<exists>u'. cb t u = Some u' \<and> (tw_api bus)\<^sup>*\<^sup>* u u' \<and> length (doneq u') \<le> length (doneq u)"
  shows "\<exists>s'. handle_loop bus cb s = Some s'"
  using assms(1)
proof (induction "length (doneq s)" arbitrary: s rule: less_induct)
  case less
  obtain r h where d: "deq_h (tw_hTxnDoneQueue s) = (r, h)" by force
  show ?case
  proof (cases r)
    case None
    then have "h = tw_hTxnDoneQueue s" using d deq_h_none [of "tw_hTxnDoneQueue s" h] by simp
    then show ?thesis using d None sleep_inv [OF less(2), of bus] by (subst handle_loop.simps) auto
  next
    case (Some t)
    let ?s = "dec_pending (s\<lparr>tw_hTxnDoneQueue := h\<rparr>)"
    let ?l = "?s\<lparr>callLog := callLog ?s @ [t]\<rparr>"
    note q = dequeue_inv [OF less(2) d [unfolded Some]]
    note f = dequeue_fields [OF d [unfolded Some]]
    have l: "length (doneq ?s) < length (doneq s)" using f(1,2) by simp
    show ?thesis
    proof (cases "TXN_PARAM_GET_STATUS (txnMem (hTxnQ ?s) t) = TXN_PARAM_STATUS_ERROR")
      case True
      then show ?thesis using d Some by (subst handle_loop.simps) (simp add: Let_def)
    next
      case False
      obtain s1 where s1: "(if fTxnDoneCb (txnMem (hTxnQ ?s) t) \<noteq> 0 then cb t ?l else Some ?s) = Some s1"
          "tw_inv s1" "length (doneq s1) < length (doneq s)"
      proof (cases "fTxnDoneCb (txnMem (hTxnQ ?s) t) \<noteq> 0")
        case True
        obtain u where u: "cb t ?l = Some u" "(tw_api bus)\<^sup>*\<^sup>* ?l u" "length (doneq u) \<le> length (doneq ?l)" using assms(2) by blast
        have "tw_inv u" using api_star_inv [OF u(2)] log_inv(1) q by blast
        then show ?thesis using that [of u] u True l by (simp add: log_inv(2))
      next
        case False
        then show ?thesis using that [of ?s] q l by simp
      qed
      obtain s2 where s2: "sleep_check bus s1 = Some s2" using sleep_inv [OF s1(2), of bus] by blast
      have "tw_inv s2" "length (doneq s2) < length (doneq s)" using sleep_doneq [OF s1(2) s2] s1(3) by auto
      from less(1) [OF this(2,1)] obtain s' where "handle_loop bus cb s2 = Some s'" by blast
      then show ?thesis using d Some False s1(1) s2 by (subst handle_loop.simps) (simp add: Let_def)
    qed
  qed
qed

text \<open>
  C28. The handler returns: in every state reached without the guard timer of a restart, if every callback returns after any sequence of
  calls of the interface that leaves no more completed transactions waiting than there were, then so
  does twIf_HandleTxnDone, however many transactions are waiting.
\<close>

theorem twIf_handler_returns:
  assumes "tw_reach bus s"
    and "\<And>t u. \<exists>u'. cb t u = Some u' \<and> (tw_api bus)\<^sup>*\<^sup>* u u' \<and> length (doneq u') \<le> length (doneq u)"
  shows "\<exists>s'. twIf_HandleTxnDone bus cb s = Some s'"
  using handle_returns [OF _ assms(2)] tw_reach_inv [OF assms(1)] by (auto simp: twIf_HandleTxnDone_def)

text \<open>The handler stopped at a transaction that failed, and reported it.\<close>

definition handler_failed :: "TTwIfObj \<Rightarrow> bool" where
  "handler_failed s \<longleftrightarrow> errLog s \<noteq> [] \<and>
     TXN_PARAM_GET_STATUS (txnMem (hTxnQ s) (last (errLog s))) = TXN_PARAM_STATUS_ERROR"

text \<open>
  What the handler did with the transactions that waited for it: it called the callbacks of all of them
  and perhaps of later ones, or those of the ones before the first failed one.
\<close>

definition txn_good :: "TTwIfObj \<Rightarrow> addr \<Rightarrow> bool" where
  "txn_good s t \<longleftrightarrow> TXN_PARAM_GET_STATUS (txnMem (hTxnQ s) t) \<noteq> TXN_PARAM_STATUS_ERROR"

definition own_cbs :: "TTwIfObj \<Rightarrow> addr list \<Rightarrow> addr list" where
  "own_cbs s = filter (\<lambda>t. fTxnDoneCb (txnMem (hTxnQ s) t) \<noteq> 0)"

definition handled :: "TTwIfObj \<Rightarrow> TTwIfObj \<Rightarrow> bool" where
  "handled s s' \<longleftrightarrow> (\<exists>xs ys. doneq s = xs @ ys \<and> (\<forall>t\<in>set xs. txn_good s t) \<and>
     (ys = [] \<and> (\<exists>later. callLog s' = callLog s @ own_cbs s xs @ later) \<and> (doneq s' = [] \<or> handler_failed s') \<or>
      (\<exists>t zs new. ys = t # zs \<and> \<not> txn_good s t \<and> callLog s' = callLog s @ own_cbs s xs \<and> handler_failed s' \<and>
         last (errLog s') = t \<and> doneq s' = zs @ new)))"

lemma handled_all:
  "doneq s = xs \<Longrightarrow> \<forall>t\<in>set xs. txn_good s t \<Longrightarrow> callLog s' = callLog s @ own_cbs s xs @ later \<Longrightarrow>
     doneq s' = [] \<or> handler_failed s' \<Longrightarrow> handled s s'"
  unfolding handled_def by (intro exI [of _ xs] exI [of _ "[]"]) auto

lemma handled_some:
  "doneq s = xs @ t # zs \<Longrightarrow> \<forall>t\<in>set xs. txn_good s t \<Longrightarrow> \<not> txn_good s t \<Longrightarrow> callLog s' = callLog s @ own_cbs s xs \<Longrightarrow>
     handler_failed s' \<Longrightarrow> last (errLog s') = t \<Longrightarrow> doneq s' = zs @ new \<Longrightarrow> handled s s'"
  unfolding handled_def by (intro exI [of _ xs] exI [of _ "t # zs"]) blast

text \<open>One transaction is served, then the rest and what has come behind it.\<close>

lemma handled_step:
  assumes d: "doneq s = t # ds" "txn_good s t" "doneq u = ds @ new" "\<And>x. x \<in> set ds \<Longrightarrow> txnMem (hTxnQ u) x = txnMem (hTxnQ s) x"
    and l: "callLog u = callLog s @ own_cbs s [t]" and h: "handled u s'"
  shows "handled s s'"
proof -
  have good: "x \<in> set ds \<Longrightarrow> txn_good u x = txn_good s x" for x using d(4) by (simp add: txn_good_def)
  have cbs: "set xs \<subseteq> set ds \<Longrightarrow> own_cbs u xs = own_cbs s xs" for xs
    unfolding own_cbs_def by (rule filter_cong) (use d(4) in auto)
  have app: "own_cbs s (xs @ ys) = own_cbs s xs @ own_cbs s ys" "own_cbs u (xs @ ys) = own_cbs u xs @ own_cbs u ys"
    "own_cbs s (x # xs) = own_cbs s [x] @ own_cbs s xs" for x xs ys by (simp_all add: own_cbs_def)
  obtain xs ys where x: "ds @ new = xs @ ys" "\<forall>t\<in>set xs. txn_good u t"
    "ys = [] \<and> (\<exists>later. callLog s' = callLog u @ own_cbs u xs @ later) \<and> (doneq s' = [] \<or> handler_failed s') \<or>
      (\<exists>t zs new. ys = t # zs \<and> \<not> txn_good u t \<and> callLog s' = callLog u @ own_cbs u xs \<and> handler_failed s' \<and>
         last (errLog s') = t \<and> doneq s' = zs @ new)"
    using h d(3) unfolding handled_def by auto
  then consider (behind) us where "xs = ds @ us" | (before) us where "ds = xs @ us" "ys = us @ new" "us \<noteq> []"
  proof -
    obtain us where "ds = xs @ us \<and> us @ new = ys \<or> ds @ us = xs \<and> new = us @ ys"
      using x(1) unfolding append_eq_append_conv2 by blast
    then show thesis using that(1) [of us] that(1) [of "[]"] that(2) [of us] by (cases "us = []") auto
  qed
  then show ?thesis
  proof cases
    case behind
    then have "\<forall>x\<in>set (t # ds). txn_good s x" using x(2) d(2) good by auto
    moreover obtain later where "callLog s' = callLog u @ own_cbs u xs @ later" using x(3) by auto
    then have "callLog s' = callLog s @ own_cbs s (t # ds) @ own_cbs u us @ later"
      using l behind cbs [of ds] app(2) [of ds us] app(3) [of t ds] by simp
    moreover have "doneq s' = [] \<or> handler_failed s'" using x(3) by auto
    ultimately show ?thesis using handled_all [OF d(1)] by blast
  next
    case before
    then obtain a as nw where a: "us = a # as" "\<not> txn_good u a" "callLog s' = callLog u @ own_cbs u xs" "handler_failed s'"
        "last (errLog s') = a" "doneq s' = (as @ new) @ nw"
      using x(3) by (cases us) auto
    have "\<forall>y\<in>set (t # xs). txn_good s y" "\<not> txn_good s a" using x(2) d(2) good before(1) a(1,2) by auto
    moreover have "callLog s' = callLog s @ own_cbs s (t # xs)" using a(3) l cbs [of xs] before(1) app(3) [of t xs] by simp
    moreover have "doneq s = (t # xs) @ a # as" using d(1) before(1) a(1) by simp
    ultimately show ?thesis using handled_some [of s "t # xs" a as s' "new @ nw"] a(4-6) by simp
  qed
qed

lemma call_star_inv: "(tw_call bus)\<^sup>*\<^sup>* s s' \<Longrightarrow> tw_inv s \<Longrightarrow> tw_inv s' \<and> late s s'"
proof (induction rule: rtranclp_induct)
  case (step y z)
  then show ?case using call_inv [of bus y z] late_trans [of s y z] by blast
qed simp

lemma handle_calls:
  assumes "handle_loop bus cb s = Some s'" "\<And>t u u'. cb t u = Some u' \<Longrightarrow> (tw_call bus)\<^sup>*\<^sup>* u u'" "tw_inv s"
  shows "handled s s'"
  using assms
proof (induction rule: handle_loop.raw_induct [rotated 1, consumes 1])
  case (1 f bus cb s s')
  obtain r h where d: "deq_h (tw_hTxnDoneQueue s) = (r, h)" by force
  show ?case
  proof (cases r)
    case None
    then have dq: "doneq s = []" "h = tw_hTxnDoneQueue s" using d deq_h_none [of "tw_hTxnDoneQueue s" h] by (simp_all add: doneq_def)
    have "sleep_check bus s = Some s'" using 1(2) d None dq(2) by simp
    from sleep_doneq [OF 1(4) this] have "doneq s' = []" "callLog s' = callLog s" using dq(1) by auto
    then show ?thesis using handled_all [OF dq(1), of s' "[]"] by (simp add: own_cbs_def)
  next
    case (Some t)
    let ?s = "dec_pending (s\<lparr>tw_hTxnDoneQueue := h\<rparr>)"
    note q = dequeue_inv [OF 1(4) d [unfolded Some]]
    note f = dequeue_fields [OF d [unfolded Some]]
    have dq: "doneq s = t # doneq ?s" using f(1-3) by (metis list.collapse)
    show ?thesis
    proof (cases "txn_good s t")
      case False
      then have e: "s' = call_err t ?s" using 1(2) d Some f(4) by (simp add: Let_def txn_good_def)
      have "fErrCb ?s \<noteq> 0" using conjunct1 [OF q] by (simp add: tw_inv_def)
      then have "errLog s' = errLog s @ [t]" "callLog s' = callLog s" "doneq s' = doneq ?s" "hTxnQ s' = hTxnQ s"
        using e f(4-6) by (simp_all add: call_err_def) (simp add: doneq_def)
      moreover have "handler_failed s'" using False calculation by (simp add: handler_failed_def txn_good_def)
      ultimately show ?thesis using handled_some [of s "[]" t "doneq ?s" s' "[]"] dq False by (simp add: own_cbs_def)
    next
      case True
      then obtain s1 s2 where c: "(if fTxnDoneCb (txnMem (hTxnQ ?s) t) \<noteq> 0 then cb t (?s\<lparr>callLog := callLog ?s @ [t]\<rparr>) else Some ?s) = Some s1"
          "sleep_check bus s1 = Some s2" "f bus cb s2 = Some s'"
        using 1(2) d Some f(4) by (auto simp: Let_def txn_good_def Option.bind_eq_Some_conv split del: if_split)
      let ?l = "if fTxnDoneCb (txnMem (hTxnQ ?s) t) \<noteq> 0 then ?s\<lparr>callLog := callLog ?s @ [t]\<rparr> else ?s"
      have l: "tw_inv ?l" "doneq ?l = doneq ?s" "hTxnQ ?l = hTxnQ s" "callLog ?l = callLog s @ own_cbs s [t]"
        using q log_inv f(4,5) by (auto simp: own_cbs_def)
      have s1: "tw_inv s1 \<and> late ?l s1"
      proof (cases "fTxnDoneCb (txnMem (hTxnQ ?s) t) \<noteq> 0")
        case True
        then have "(tw_call bus)\<^sup>*\<^sup>* ?l s1" using c(1) 1(3) by simp
        then show ?thesis using call_star_inv l(1) by blast
      next
        case False
        then show ?thesis using c(1) l(1) by simp
      qed
      have s2: "tw_inv s2 \<and> late s1 s2" using sleep_inv [of s1 bus] s1 c(2) by auto
      then have late: "late ?l s2" using s1 late_trans by blast
      obtain new where n: "doneq s2 = doneq ?s @ new" "callLog s2 = callLog s @ own_cbs s [t]"
          "\<And>x. x \<in> set (doneq ?s) \<Longrightarrow> txnMem (hTxnQ s2) x = txnMem (hTxnQ s) x"
        using late unfolding late_def l(2-4) by blast
      have "handled s2 s'" using s2 by (intro 1(1) [OF c(3)] 1(3)) auto
      from handled_step [OF dq True n(1) n(3) n(2) this] show ?thesis .
    qed
  qed
qed

text \<open>
  C25. The handler calls the callbacks of the completed transactions once each, in the order of their
  completion, whatever calls of the interface the callbacks make, a restart excepted. Let xs be the
  transactions that wait when the handler starts, up to the first one that failed. The callbacks of xs
  are called in their order, of those that have one. If none failed, they are followed by those of
  transactions that completed meanwhile, until none is left or one of them failed. If one did, the
  error callback is called for it and its own is not, nothing else is called, and what completed after
  it stays in the queue. If no callback leaves more completed transactions than it found, the handler
  returns.
\<close>

theorem twIf_handler_calls:
  assumes "tw_reach bus s" "\<not> bTxnDoneInRecovery s" "\<forall>t u u'. cb t u = Some u' \<longrightarrow> (tw_call bus)\<^sup>*\<^sup>* u u'"
  defines "ok \<equiv> \<lambda>t. TXN_PARAM_GET_STATUS (txnMem (hTxnQ s) t) \<noteq> TXN_PARAM_STATUS_ERROR"
    and "cbs \<equiv> filter (\<lambda>t. fTxnDoneCb (txnMem (hTxnQ s) t) \<noteq> 0)"
  shows "(\<forall>s'. twIf_HandleTxnDone bus cb s = Some s' \<longrightarrow>
      (\<exists>xs ys. doneq s = xs @ ys \<and> (\<forall>t\<in>set xs. ok t) \<and>
        (ys = [] \<and> (\<exists>later. callLog s' = callLog s @ cbs xs @ later) \<and> (doneq s' = [] \<or> handler_failed s') \<or>
         (\<exists>t zs new. ys = t # zs \<and> \<not> ok t \<and> callLog s' = callLog s @ cbs xs \<and> handler_failed s' \<and> last (errLog s') = t \<and>
            doneq s' = zs @ new)))) \<and>
    ((\<forall>t u. \<exists>u'. cb t u = Some u' \<and> length (doneq u') \<le> length (doneq u)) \<longrightarrow> (\<exists>s'. twIf_HandleTxnDone bus cb s = Some s'))"
proof (intro conjI allI impI)
  have i: "tw_inv s" using tw_reach_inv [OF assms(1)] by simp
  have h: "twIf_HandleTxnDone bus cb s = handle_loop bus cb s" using assms(2) by (simp add: twIf_HandleTxnDone_def)
  show "\<exists>xs ys. doneq s = xs @ ys \<and> (\<forall>t\<in>set xs. ok t) \<and>
        (ys = [] \<and> (\<exists>later. callLog s' = callLog s @ cbs xs @ later) \<and> (doneq s' = [] \<or> handler_failed s') \<or>
         (\<exists>t zs new. ys = t # zs \<and> \<not> ok t \<and> callLog s' = callLog s @ cbs xs \<and> handler_failed s' \<and> last (errLog s') = t \<and>
            doneq s' = zs @ new))" if "twIf_HandleTxnDone bus cb s = Some s'" for s'
    using handle_calls [OF that [unfolded h] assms(3) [rule_format] i]
    unfolding handled_def own_cbs_def txn_good_def ok_def cbs_def .
  show "\<exists>s'. twIf_HandleTxnDone bus cb s = Some s'"
    if "\<forall>t u. \<exists>u'. cb t u = Some u' \<and> length (doneq u') \<le> length (doneq u)"
  proof -
    have "(tw_api bus)\<^sup>*\<^sup>* u u'" if "(tw_call bus)\<^sup>*\<^sup>* u u'" for u u'
      using that by (induction rule: rtranclp_induct) (auto intro: tw_api.tw_call rtranclp.rtrancl_into_rtrancl)
    then have "\<exists>u'. cb t u = Some u' \<and> (tw_api bus)\<^sup>*\<^sup>* u u' \<and> length (doneq u') \<le> length (doneq u)" for t u
      using that assms(3) by blast
    from handle_returns [OF i this] show ?thesis unfolding h .
  qed
qed

section \<open>Restarts\<close>

text \<open>
  C26. A restart while the bus is busy ends when the bus does: twIf_Restart returns PENDING and counts
  nothing; when the bus driver completes its transaction, with whatever status, everything that was
  queued is dropped, no client's callback is called (the comment of twIf_Restart says that each dropped
  transaction's is, with the status RECOVERY), the handler is asked for, and the handler calls the
  recovery callback once and serves clients again.
\<close>

theorem twIf_restart_completes:
  assumes "tw_reach bus s" "pCurrTxn (hTxnQ s) = Some t" "v = TXN_PARAM_STATUS_OK \<or> v = TXN_PARAM_STATUS_ERROR"
  shows "\<exists>s1 s2 s3. twIf_Restart s = (TXN_STATUS_PENDING, s1) \<and> uPendingTxnCount s1 = 0 \<and> bus_completes bus v t s1 = Some s2 \<and>
    tw_sched s2 \<and> flight (hTxnQ s2) = {#} \<and> busLog (hTxnQ s2) = busLog (hTxnQ s) \<and>
    twIf_HandleTxnDone bus cb (s2\<lparr>tw_sched := False\<rparr>) = Some s3 \<and> recovLog s3 = recovLog s + 1 \<and> callLog s3 = callLog s \<and>
    uPendingTxnCount s3 = 0 \<and> tw_eState s3 = SM_STATE_SLEEP \<and> tw_open s3"
proof -
  have i: "tw_inv s" using tw_reach_inv [OF assms(1)] by simp
  obtain st s1 where r: "twIf_Restart s = (st, s1)" by force
  have b: "tw_q (elps s) (hTxnQ s)" "tw_rest (hTxnQ s)" "\<not> bTxnDoneInRecovery s" "fRecoveryCb s \<noteq> 0" "tw_hTxnDoneQueue s = Some (doneq s)"
    using i assms(2) by (auto simp: tw_inv_def tw_recovering_def tw_normal_def tw_core_def tw_restarting_def doneq_def items_h_def
      flight_def curr_txn_def split: if_splits)
  obtain q1 where q1: "txnQ_Restart WLAN (hTxnQ s) = (TXN_STATUS_PENDING, q1)" "pCurrTxn q1 = Some t"
      "eState (func_info q1 WLAN) = FUNC_STATE_RESTART" "busLog q1 = busLog (hTxnQ s)"
    using restart_tw [OF b(1,2)] assms(2) by (cases "txnQ_Restart WLAN (hTxnQ s)") auto
  let ?s0 = "s\<lparr>tw_eState := SM_STATE_SLEEP, uAwakeReqCount := 0, uPendingTxnCount := 0, elpLog := []\<rparr>"
  have cl: "twIf_ClearTxnDoneQueue ?s0 = ?s0\<lparr>tw_hTxnDoneQueue := Some []\<rparr>" using clear_done_queue [of ?s0] b(5) by simp
  have s1: "st = TXN_STATUS_PENDING" "s1 = ?s0\<lparr>tw_hTxnDoneQueue := Some [], hTxnQ := q1, bPendRestartTimerRunning := True\<rparr>"
    using r q1(1) unfolding twIf_Restart_def Let_def cl by auto
  have w1: "wst s1 = FUNC_STATE_RESTART" using q1(3) s1(2) by (simp add: wst_def)
  then have rs: "tw_restarting s1" using restart_inv [OF i r] b(3) s1(2) by (auto simp: tw_inv_def tw_normal_def split: if_splits)
  have t1: "pCurrTxn (hTxnQ s1) = Some t" "fRecoveryCb s1 \<noteq> 0" using q1(2) s1(2) b(4) by simp_all
  obtain q2 where q2: "bus_completes bus v t s1 = Some (s1\<lparr>hTxnQ := q2, uDbgCountTxnDoneCb := uDbgCountTxnDoneCb s1 + 1,
      bTxnDoneInRecovery := True, tw_sched := True\<rparr>)" (is "_ = Some ?s2") "flight q2 = {#}" "eState (func_info q2 WLAN) = FUNC_STATE_RUNNING"
      "busLog q2 = busLog (hTxnQ s1)"
    using complete_restarting [OF rs t1(1) assms(3) t1(2), of bus] by blast
  let ?s3 = "?s2\<lparr>tw_sched := False, bTxnDoneInRecovery := False, bPendRestartTimerRunning := False, recovLog := recovLog s + 1\<rparr>"
  have h: "twIf_HandleTxnDone bus cb (?s2\<lparr>tw_sched := False\<rparr>) = Some ?s3" using s1(2) by (simp add: twIf_HandleTxnDone_def)
  show ?thesis
    by (rule exI [of _ s1], rule exI [of _ ?s2], rule exI [of _ ?s3], insert r s1 q1 q2 h rs)
      (simp add: tw_open_def wst_def tw_restarting_def)
qed

lemma busy_transact:
  assumes "txnq_quiet (hTxnQ s)" "pCurrTxn (hTxnQ s) = Some c"
  shows "\<exists>st q'. tw_transact bus t s = Some (st, s\<lparr>hTxnQ := q'\<rparr>) \<and> (st = TXN_STATUS_PENDING \<or> st = TXN_STATUS_ERROR) \<and> busLog q' = busLog (hTxnQ s) \<and>
    pCurrTxn q' = Some c \<and> txnq_quiet q'"
proof -
  let ?q = "hTxnQ s"
  obtain ok q1 where s: "txn_submit t ?q = (ok, q1)" by force
  note same = submit_same [OF s]
  have q1: "txnq_quiet q1" "pCurrTxn q1 = Some c" using quiet_ops(1) [of t ?q] s same assms by simp_all
  then have "q1\<lparr>bSchedulerBusy := False\<rparr> = q1" by (simp add: txnq_quiet_def)
  then have "txnQ_RunScheduler bus no_client (Some t) q1 = Some (TXN_STATUS_PENDING, q1)"
    using q1 by (simp add: txnQ_RunScheduler_def txnQ_Scheduler_def txnq_quiet_def run_again.simps)
  then have r: "txnQ_Transact bus no_client t ?q = Some (if ok then TXN_STATUS_PENDING else TXN_STATUS_ERROR, q1)"
    using s by (simp add: txnQ_Transact_def)
  have "with_txnq bus q1 s = s\<lparr>hTxnQ := q1\<rparr>" using same by (simp add: with_txnq_def bus_writes_def reports_def)
  then have "tw_transact bus t s = Some (if ok then TXN_STATUS_PENDING else TXN_STATUS_ERROR, s\<lparr>hTxnQ := q1\<rparr>)"
    using r by (simp add: tw_transact_def)
  then show ?thesis using q1 same by (intro exI [of _ "if ok then TXN_STATUS_PENDING else TXN_STATUS_ERROR"] exI [of _ q1]) simp
qed

lemma busy_send:
  assumes "txnq_quiet (hTxnQ s)" "pCurrTxn (hTxnQ s) = Some c" "tw_eState s = SM_STATE_SLEEP"
  shows "\<exists>st s'. twIf_SendTransaction bus t s = Some (st, s') \<and> st \<noteq> TXN_STATUS_COMPLETE \<and> busLog (hTxnQ s') = busLog (hTxnQ s)"
proof (cases "uHwAddr (txnMem (hTxnQ s) t) AND 3 = 0")
  case False
  then show ?thesis by (simp add: twIf_SendTransaction_def)
next
  case True
  let ?s1 = "s\<lparr>uPendingTxnCount := uPendingTxnCount s + 1\<rparr>"
  obtain st q where r: "tw_transact bus t ?s1 = Some (st, ?s1\<lparr>hTxnQ := q\<rparr>)" "st = TXN_STATUS_PENDING \<or> st = TXN_STATUS_ERROR" "busLog q = busLog (hTxnQ s)"
      "pCurrTxn q = Some c" "txnq_quiet q"
    using busy_transact [of ?s1 c bus t] assms by auto
  show ?thesis
  proof (cases "st = TXN_STATUS_PENDING")
    case st: True
    let ?s2 = "?s1\<lparr>hTxnQ := q, uDbgCountTxn := uDbgCountTxn s + 1, uDbgCountTxnPending := uDbgCountTxnPending s + 1,
      tw_eState := SM_STATE_WAIT_HW, elpLog := elpLog s @ [ELP_CTRL_REG_AWAKE]\<rparr>"
    obtain st' q' where w: "tw_transact bus (tElpTxnAwake s) ?s2 = Some (st', ?s2\<lparr>hTxnQ := q'\<rparr>)" "busLog q' = busLog q"
      using busy_transact [of ?s2 c bus "tElpTxnAwake s"] r(4,5) by auto
    then show ?thesis using True r st assms(3) by (simp add: twIf_SendTransaction_def twIf_HandleSmEvent_def twIf_WriteElpReg_def)
  next
    case False
    then have st: "st = TXN_STATUS_ERROR" using r(2) by simp
    show ?thesis using True r st assms(3)
      by (simp add: twIf_SendTransaction_def sleep_check_restarting call_err_def)
  qed
qed

text \<open>
  C29. When the guard timer of a restart expires, the interface is not restarted: the queue is cleared and
  the recovery callback is called, but the transaction that the bus driver did not complete stays the
  current one. It is under way and not counted, so the count is no longer exact, and whatever the
  recovery then sends is queued behind it: no transaction reaches the bus.
\<close>

theorem twIf_timeout_starves:
  assumes "tw_reach bus s" "wst s = FUNC_STATE_RESTART"
  defines "s1 \<equiv> twIf_PendRestratTimeout s"
  shows "recovLog s1 = recovLog s + 1 \<and> wst s1 = FUNC_STATE_RUNNING \<and> uPendingTxnCount s1 = 0 \<and>
    (\<exists>c. pCurrTxn (hTxnQ s1) = Some c \<and> (c \<notin> elps s \<longrightarrow> card (tw_regs s1) = 1)) \<and>
    (\<exists>st s2. twIf_SendTransaction bus t s1 = Some (st, s2) \<and> st \<noteq> TXN_STATUS_COMPLETE \<and>
      busLog (hTxnQ s2) = busLog (hTxnQ s))"
proof -
  have rs: "tw_restarting s" using tw_reach_inv [OF assms(1)] assms(2) by (auto simp: tw_inv_def tw_normal_def tw_recovering_def split: if_splits)
  then obtain c where c: "pCurrTxn (hTxnQ s) = Some c" by (auto simp: tw_restarting_def)
  have q: "tw_q (elps s) (hTxnQ s)" using rs by (simp add: tw_restarting_def)
  note cl = clear_tw [OF q]
  let ?q = "txnQ_ClearQueues WLAN (hTxnQ s)"
  have s1: "s1 = s\<lparr>bPendRestartTimerRunning := False, hTxnQ := ?q, recovLog := recovLog s + 1\<rparr>"
    by (simp add: s1_def twIf_PendRestratTimeout_def)
  have fl: "flight ?q = {#c#}" using cl(1,5,6) c rs by (simp add: flight_def curr_txn_def tw_restarting_def tw_rest_def items_h_def)
  have rg: "c \<notin> elps s \<Longrightarrow> tw_regs s1 = {c}" using fl by (auto simp: s1 regs_def elps_def)
  have "pCurrTxn (hTxnQ s1) = Some c" "txnq_quiet (hTxnQ s1)" "tw_eState s1 = SM_STATE_SLEEP" "busLog (hTxnQ s1) = busLog (hTxnQ s)"
    using cl(3,6,10) c rs by (simp_all add: s1 tw_restarting_def)
  moreover have "wst s1 = FUNC_STATE_RUNNING" using cl(7) by (simp add: s1 wst_def)
  moreover have "uPendingTxnCount s1 = 0" "recovLog s1 = recovLog s + 1" using rs by (simp_all add: s1 tw_restarting_def)
  ultimately show ?thesis using busy_send [of s1 c bus t] rg by auto
qed

section \<open>Addresses\<close>

text \<open>
  C37. The translation of addresses keeps accesses apart: when the memory partition and the register
  partition do not wrap and the memory does not meet the registers and the address behind them, every
  address of the two is translated into the space of the bus below the sum of their sizes, the memory
  first and the registers behind it, and two addresses are translated alike only if they are equal.
\<close>

theorem twIf_translate_injective:
  assumes "unat (uMemAddr1 s) + unat (uMemSize1 s) < 2 ^ 32" "unat (uMemAddr2 s) + unat (uMemSize2 s) < 2 ^ 32"
    "unat (uMemSize1 s) + unat (uMemSize2 s) < 2 ^ 32"
    "unat (uMemAddr1 s) + unat (uMemSize1 s) \<le> unat (uMemAddr2 s) \<or> unat (uMemAddr2 s) + unat (uMemSize2 s) < unat (uMemAddr1 s)"
    and "\<forall>x\<in>{a, b}. unat (uMemAddr1 s) \<le> unat x \<and> unat x < unat (uMemAddr1 s) + unat (uMemSize1 s) \<or>
      unat (uMemAddr2 s) \<le> unat x \<and> unat x < unat (uMemAddr2 s) + unat (uMemSize2 s)"
  shows "unat (translate s a) < unat (uMemSize1 s) + unat (uMemSize2 s) \<and> (translate s a = translate s b \<longrightarrow> a = b)"
proof -
  have two: "unat (uMemAddr2 s + uMemSize2 s) = unat (uMemAddr2 s) + unat (uMemSize2 s)"
    using assms(2) by (subst unat_add_lem [THEN iffD1]) simp_all
  have v: "unat (translate s x) = (if unat (uMemAddr2 s) \<le> unat x \<and> unat x < unat (uMemAddr2 s) + unat (uMemSize2 s)
      then unat x - unat (uMemAddr2 s) + unat (uMemSize1 s) else unat x - unat (uMemAddr1 s))" if "x \<in> {a, b}" for x
  proof -
    have x: "unat (uMemAddr1 s) \<le> unat x \<and> unat x < unat (uMemAddr1 s) + unat (uMemSize1 s) \<or>
      unat (uMemAddr2 s) \<le> unat x \<and> unat x < unat (uMemAddr2 s) + unat (uMemSize2 s)" using assms(5) that by blast
    show ?thesis
    proof (cases "unat (uMemAddr2 s) \<le> unat x \<and> unat x < unat (uMemAddr2 s) + unat (uMemSize2 s)")
      case True
      then have c: "uMemAddr2 s \<le> x" "x \<le> uMemAddr2 s + uMemSize2 s" by (simp_all add: word_le_nat_alt two)
      have d: "unat (x - uMemAddr2 s) = unat x - unat (uMemAddr2 s)" using c(1) by (simp add: unat_sub)
      have "unat (x - uMemAddr2 s) + unat (uMemSize1 s) < 2 ^ LENGTH(32)" using True d assms(3) by auto
      then have "unat (x - uMemAddr2 s + uMemSize1 s) = unat (x - uMemAddr2 s) + unat (uMemSize1 s)" by (simp add: unat_add_lem [THEN iffD1])
      then show ?thesis using True c d by (simp add: translate_def)
    next
      case False
      then have m: "unat (uMemAddr1 s) \<le> unat x" "unat x < unat (uMemAddr1 s) + unat (uMemSize1 s)" using x by auto
      then have "\<not> (uMemAddr2 s \<le> x \<and> x \<le> uMemAddr2 s + uMemSize2 s)" using assms(4) by (auto simp: word_le_nat_alt two)
      then have "translate s x = x - uMemAddr1 s" by (auto simp: translate_def)
      then show ?thesis using m(1) by (simp add: if_not_P [OF False] unat_sub word_le_nat_alt)
    qed
  qed
  note va = v [of a, simplified] and vb = v [of b, simplified]
  have a: "unat (uMemAddr1 s) \<le> unat a \<and> unat a < unat (uMemAddr1 s) + unat (uMemSize1 s) \<or>
      unat (uMemAddr2 s) \<le> unat a \<and> unat a < unat (uMemAddr2 s) + unat (uMemSize2 s)"
    and b: "unat (uMemAddr1 s) \<le> unat b \<and> unat b < unat (uMemAddr1 s) + unat (uMemSize1 s) \<or>
      unat (uMemAddr2 s) \<le> unat b \<and> unat b < unat (uMemAddr2 s) + unat (uMemSize2 s)" using assms(5) by simp_all
  have "unat (translate s a) < unat (uMemSize1 s) + unat (uMemSize2 s)" using va a by (auto split: if_splits)
  moreover have "a = b" if "translate s a = translate s b"
  proof -
    have "unat (translate s a) = unat (translate s b)" using that by simp
    then have "unat a = unat b" unfolding va vb using a b by (auto split: if_splits)
    then show ?thesis by (simp add: word_unat_eq_iff)
  qed
  ultimately show ?thesis by blast
qed

text \<open>
  What the check of a memory access accepts, for a memory partition that does not wrap: the access
  begins inside of the partition and the address behind it, taken modulo the word, is below the end
  of the partition; so an access that ends with the last byte is refused, and for every address from
  the partition's start on, one is accepted that runs to the end of the address space. The check of a
  register access does not look at the length.
\<close>

theorem twIf_address_checks:
  assumes "unat (uMemAddr1 s) + unat (uMemSize1 s) < 2 ^ 32" "unat (uMemAddr2 s) + unat (uMemSize2 s) < 2 ^ 32"
  shows "twIf_isValidMemoryAddr s a n = (unat (uMemAddr1 s) \<le> unat a \<and> (unat a + unat n) mod 2 ^ 32 < unat (uMemAddr1 s) + unat (uMemSize1 s)) \<and>
    (unat a + unat n = unat (uMemAddr1 s) + unat (uMemSize1 s) \<longrightarrow> \<not> twIf_isValidMemoryAddr s a n) \<and>
    (uMemSize1 s \<noteq> 0 \<and> unat (uMemAddr1 s) \<le> unat a \<longrightarrow> twIf_isValidMemoryAddr s a (- a)) \<and>
    twIf_isValidRegAddr s a n = (unat (uMemAddr2 s) \<le> unat a \<and> unat a < unat (uMemAddr2 s) + unat (uMemSize2 s))"
proof -
  have e: "unat (uMemAddr1 s + uMemSize1 s) = unat (uMemAddr1 s) + unat (uMemSize1 s)"
    "unat (uMemAddr2 s + uMemSize2 s) = unat (uMemAddr2 s) + unat (uMemSize2 s)"
    using assms by (subst unat_add_lem [THEN iffD1]; simp)+
  have m: "twIf_isValidMemoryAddr s a n = (unat (uMemAddr1 s) \<le> unat a \<and> (unat a + unat n) mod 2 ^ 32 < unat (uMemAddr1 s) + unat (uMemSize1 s))" for n
  proof -
    have "unat (a + n) = (unat a + unat n) mod 2 ^ 32" by (simp add: unat_word_ariths)
    then show ?thesis by (simp add: twIf_isValidMemoryAddr_def word_le_nat_alt word_less_nat_alt e)
  qed
  have "twIf_isValidMemoryAddr s a (- a)" if "uMemSize1 s \<noteq> 0" "unat (uMemAddr1 s) \<le> unat a"
    using that e(1) unat_gt_0 [of "uMemSize1 s"] by (simp add: twIf_isValidMemoryAddr_def word_le_nat_alt word_less_nat_alt)
  then show ?thesis using m assms by (auto simp: twIf_isValidRegAddr_def word_le_nat_alt word_less_nat_alt e)
qed

section \<open>Witnesses\<close>

text \<open>
  A module whose ELP transactions are 8 and 4, with every other transaction a regular one of the WLAN
  function with a callback; the bus answers PENDING, or COMPLETE.
\<close>

definition xw_mem :: "addr \<Rightarrow> TTxnStruct" where
  "xw_mem t = \<lparr>uTxnParams = 0x49, uHwAddr = 0, fTxnDoneCb = 7, hCbHandle = 0, aLen = [4, 0, 0, 0], aBuf = [0, 0, 0, 0]\<rparr>"

definition xw_async :: "addr list \<Rightarrow> ETxnStatus" where "xw_async l = TXN_STATUS_PENDING"
definition xw_sync :: "addr list \<Rightarrow> ETxnStatus" where "xw_sync l = TXN_STATUS_COMPLETE"

definition xw_new :: TTwIfObj where
  "xw_new = the (twIf_Create True (txnQ_Init True (the (txnQ_Create True True xw_mem))) 8 4)"

definition xw0 :: TTwIfObj where
  "xw0 = twIf_RegisterErrCb 1 0 (twIf_Init 1 0 0 0 0 0 True True (\<lambda>_. True) xw_new)"

lemma xw0_reach: "tw_reach bus xw0"
proof -
  have "txnQ_Create True True xw_mem = Some (the (txnQ_Create True True xw_mem))" by (simp add: txnQ_Create_def)
  moreover have "twIf_Create True (txnQ_Init True (the (txnQ_Create True True xw_mem))) 8 4 = Some xw_new"
    by (simp add: xw_new_def twIf_Create_def)
  ultimately show ?thesis unfolding xw0_def by (rule tw_reach.start) simp_all
qed

text \<open>The queue, with what it has at its second priority, the single step that waits, and the current transaction.\<close>

definition xw_q :: "EFuncState \<Rightarrow> addr list \<Rightarrow> addr option \<Rightarrow> addr option \<Rightarrow> addr list \<Rightarrow> addr list \<Rightarrow> addr list \<Rightarrow> (addr \<Rightarrow> TTxnStruct) \<Rightarrow> TTxnQObj" where
  "xw_q st q1 slt cur accs sent rets m =
     \<lparr>aFuncInfo = [no_func, no_func, \<lparr>eState = st, uNumPrios = 2, fTxnQueueDoneCb = 0, fi_hCbHandle = 0, pSingleStep = slt\<rparr>, no_func],
      aTxnQueues = [[None, None], [None, None], [Some [], Some q1], [None, None]], hTxnDoneQueue = Some [],
      pCurrTxn = cur, uMinFuncId = 2, uMaxFuncId = 2, bSchedulerBusy = False, bSchedulerPend = False,
      fConnectCb = 0, hConnectCb = 0, pAggregQueue = None, txnMem = m, accLog = accs, busLog = sent, cbLog = [], retLog = rets, dropLog = []\<rparr>"

definition xw_m0 :: "addr \<Rightarrow> TTxnStruct" where
  "xw_m0 = xw_mem(8 := elp_txn 0 0 (xw_mem 8), 4 := elp_txn 1 0 (xw_mem 4))"

lemma xw_lists:
  "[a, b, c, d][2 := x] = [a, b, x, d]" "[a, b, c, d] ! 2 = c" "[0..<2] = [0, 1::nat]" "[2..<3] = [2::nat]"
  "length [a, b, c, d] = 4" "length [u, v] = 2" "[u, v][1 := x] = [u, x]" "[u, v] ! 1 = v" "[u, v][0 := x] = [x, v]"
  "replicate 4 a = [a, a, a, a]" "replicate 2 a = [a, a]"
  by (simp_all add: upt_conv_Cons numeral_2_eq_2 [symmetric]) (simp_all add: eval_nat_numeral)

lemma xw_size [simp]: "TXN_QUE_SIZE = 4294967295"
  by (simp add: TXN_QUE_SIZE_def QUE_UNLIMITED_SIZE_def)

lemmas xw_eval = xw_q_def txnQ_RunScheduler_def txnQ_Scheduler_def send_loop.simps done_loop.simps run_again.simps
  txnQ_SelectTxn_def func_range_def prio_range_def MAX_PRIORITY_def MAX_FUNCTIONS_def upd_func_def func_info_def set_queue_def
  txn_queue_def items_h_def deq_h_def enq_h_def linked_txn_def queued_def send_txn_def complete_txn_def
  no_func_def Let_def xw_async_def xw_sync_def xw_lists txn_submit_def fifo_enq_def drop_single_def

lemma xw_fields:
  "unat (TXN_PARAM_GET_FUNC_ID (xw_m0 12)) = 2" "unat (TXN_PARAM_GET_PRIORITY (xw_m0 12)) = 1" "TXN_PARAM_GET_SINGLE_STEP (xw_m0 12) = 0"
  "TXN_PARAM_GET_AGGREGATE (xw_m0 12) = 0" "unat (TXN_PARAM_GET_FUNC_ID (xw_m0 4)) = 2" "TXN_PARAM_GET_SINGLE_STEP (xw_m0 4) = 1"
  "unat (TXN_PARAM_GET_FUNC_ID (xw_m0 8)) = 2" "TXN_PARAM_GET_SINGLE_STEP (xw_m0 8) = 1" "uHwAddr (xw_m0 12) = 0" "fTxnDoneCb (xw_m0 12) = 7"
  by code_simp+

lemma xw_start:
  "snd (txnQ_Open 2 2 0 0 (\<lambda>_. True) (txnQ_Init True (the (txnQ_Create True True xw_m0)))) = xw_q FUNC_STATE_STOPPED [] None None [] [] [] xw_m0"
  "set_txn 4 (elp_txn 1 0) (set_txn 8 (elp_txn 0 0) (txnQ_Init True (the (txnQ_Create True True xw_mem)))) =
      txnQ_Init True (the (txnQ_Create True True xw_m0))"
  "txnQ_Restart 2 (xw_q FUNC_STATE_STOPPED [] None None [] [] [] xw_m0) =
      (TXN_STATUS_COMPLETE, xw_q FUNC_STATE_RUNNING [] None None [] [] [] xw_m0)"
  by (simp add: txnQ_Create_def txnQ_Init_def txnQ_Open_def xw_eval)
    (simp_all add: set_txn_def txnQ_Init_def txnQ_Create_def xw_m0_def, simp add: txnQ_Restart_def txnQ_ClearQueues_def clear_queue_def xw_eval)

lemma xw0_state:
  "hTxnQ xw0 = xw_q FUNC_STATE_RUNNING [] None None [] [] [] xw_m0" "tw_eState xw0 = SM_STATE_SLEEP" "uPendingTxnCount xw0 = 0"
  "uAwakeReqCount xw0 = 0" "elpLog xw0 = []" "tw_hTxnDoneQueue xw0 = Some []" "tElpTxnAwake xw0 = 4" "tElpTxnSleep xw0 = 8"
  "bTxnDoneInRecovery xw0 = False" "recovLog xw0 = 0" "callLog xw0 = []" "errLog xw0 = []"
  by (simp_all add: xw0_def xw_new_def twIf_Create_def twIf_Init_def twIf_RegisterErrCb_def twIf_Restart_def twIf_ClearTxnDoneQueue_def
      TXN_NUM_PRIORITYS_def Let_def xw_start)

text \<open>A regular transaction is sent to the sleeping device.\<close>

definition xw1 :: TTwIfObj where "xw1 = snd (the (twIf_SendTransaction xw_async 12 xw0))"

definition xw_m1 :: "addr \<Rightarrow> TTxnStruct" where "xw_m1 = xw_m0(12 := TXN_PARAM_SET_STATUS TXN_PARAM_STATUS_OK (xw_m0 12))"

lemma xw_send:
  "txnQ_Transact xw_async no_client 12 (xw_q FUNC_STATE_RUNNING [] None None [] [] [] xw_m0) =
    Some (TXN_STATUS_PENDING, xw_q FUNC_STATE_RUNNING [] None (Some 12) [12] [12] [] xw_m0)"
  "txnQ_Transact xw_async no_client 4 (xw_q FUNC_STATE_RUNNING [] None (Some 12) [12] [12] [] xw_m1) =
    Some (TXN_STATUS_PENDING, xw_q FUNC_STATE_RUNNING [] (Some 4) (Some 12) [12, 4] [12] [] xw_m1)"
  by (simp_all add: txnQ_Transact_def xw_m1_def xw_eval xw_fields TXN_AGGREGATE_ON_def)

lemma xw_transact:
  "hTxnQ s = xw_q FUNC_STATE_RUNNING [] None None [] [] [] xw_m0 \<Longrightarrow>
    tw_transact xw_async 12 s = Some (TXN_STATUS_PENDING, s\<lparr>hTxnQ := xw_q FUNC_STATE_RUNNING [] None (Some 12) [12] [12] [] xw_m1\<rparr>)"
  "hTxnQ s = xw_q FUNC_STATE_RUNNING [] None (Some 12) [12] [12] [] xw_m1 \<Longrightarrow>
    tw_transact xw_async 4 s = Some (TXN_STATUS_PENDING, s\<lparr>hTxnQ := xw_q FUNC_STATE_RUNNING [] (Some 4) (Some 12) [12, 4] [12] [] xw_m1\<rparr>)"
  by (simp_all add: tw_transact_def xw_send)
    (simp_all add: with_txnq_def bus_writes_def reports_def xw_q_def xw_async_def set_txn_def xw_m1_def)

lemma xw1_send: "twIf_SendTransaction xw_async 12 xw0 = Some (TXN_STATUS_PENDING,
    xw0\<lparr>hTxnQ := xw_q FUNC_STATE_RUNNING [] (Some 4) (Some 12) [12, 4] [12] [] xw_m1, uPendingTxnCount := 1,
      uDbgCountTxn := uDbgCountTxn xw0 + 1, uDbgCountTxnPending := uDbgCountTxnPending xw0 + 1,
      tw_eState := SM_STATE_WAIT_HW, elpLog := [ELP_CTRL_REG_AWAKE]\<rparr>)"
proof -
  have "txnMem (hTxnQ xw0) = xw_m0" by (simp add: xw0_state xw_q_def)
  then show ?thesis
    by (simp add: twIf_SendTransaction_def xw_transact xw0_state xw_fields twIf_HandleSmEvent_def twIf_WriteElpReg_def)
qed

lemma xw1_state:
  "hTxnQ xw1 = xw_q FUNC_STATE_RUNNING [] (Some 4) (Some 12) [12, 4] [12] [] xw_m1" "tw_eState xw1 = SM_STATE_WAIT_HW"
  "uPendingTxnCount xw1 = 1" "uAwakeReqCount xw1 = 0" "bTxnDoneInRecovery xw1 = False" "tw_hTxnDoneQueue xw1 = Some []" "elpLog xw1 = [ELP_CTRL_REG_AWAKE]"
  "elps xw1 = {8, 4}" "recovLog xw1 = 0"
  by (simp_all add: xw1_def xw1_send xw0_state elps_def)

lemma xw_flight:
  "flight (xw_q st [] None None [] b r m) = {#}" "flight (xw_q FUNC_STATE_RUNNING [] (Some 4) (Some 12) [12, 4] [12] [] m) = {#4, 12#}"
  by (simp_all add: xw_q_def flight_def waiting_def queued_def singles_def curr_txn_def items_h_def no_func_def)

lemma xw1_reach: "tw_reach xw_async xw1"
proof -
  have "tw_call xw_async xw0 xw1"
  proof (rule tw_call.send)
    show "twIf_SendTransaction xw_async 12 xw0 = Some (TXN_STATUS_PENDING, xw1)" by (simp add: xw1_def xw1_send)
    show "tw_open xw0" by (simp add: tw_open_def wst_def xw0_state xw_q_def func_info_def)
    have m: "txnMem (hTxnQ xw0) = xw_m0" by (simp add: xw0_state xw_q_def)
    show "txn_func (hTxnQ xw0) 12 = WLAN" "TXN_PARAM_GET_SINGLE_STEP (txnMem (hTxnQ xw0) 12) = 0" by (simp_all add: m xw_fields)
    show "idle_txn 12 xw0" by (simp add: idle_txn_def xw0_state xw_flight elps_def doneq_def items_h_def)
  qed
  then show ?thesis using xw0_reach tw_reach.step tw_step_call by blast
qed

text \<open>The bus completes it; its callback waits for the handler.\<close>

definition xw2 :: TTwIfObj where "xw2 = the (bus_completes xw_async TXN_PARAM_STATUS_OK 12 xw1)"

definition xw_m2 :: "addr \<Rightarrow> TTxnStruct" where
  "xw_m2 = (xw_m1(12 := TXN_PARAM_SET_STATUS TXN_PARAM_STATUS_OK (xw_m1 12)))(4 := TXN_PARAM_SET_STATUS TXN_PARAM_STATUS_OK (xw_m1 4))"

lemma xw_fields2:
  "unat (TXN_PARAM_GET_FUNC_ID (xw_m2 12)) = 2" "TXN_PARAM_GET_SINGLE_STEP (xw_m2 12) = 0" "fTxnDoneCb (xw_m2 12) = 7"
  "TXN_PARAM_GET_STATUS (xw_m2 12) = TXN_PARAM_STATUS_OK" "unat (TXN_PARAM_GET_FUNC_ID (xw_m1 12)) = 2"
  by code_simp+

lemma xw_done:
  assumes "\<And>x. TXN_PARAM_GET_FUNC_ID (m x) = TXN_PARAM_GET_FUNC_ID (xw_m1 x)"
  shows "txnQ_TxnDoneCb xw_async no_client 12 (xw_q FUNC_STATE_RUNNING [] (Some 4) (Some 12) [12, 4] [12] [] m) =
    Some ((xw_q FUNC_STATE_RUNNING [] None (Some 4) [12, 4] [12, 4] [] m)\<lparr>cbLog := [12]\<rparr>)"
  using assms by (simp add: txnQ_TxnDoneCb_def done_enqueue_def xw_eval xw_fields2 report_no_client)

lemma xw2_complete:
  "bus_completes xw_async TXN_PARAM_STATUS_OK 12 xw1 = Some (xw1\<lparr>hTxnQ := (xw_q FUNC_STATE_RUNNING [] None (Some 4) [12, 4] [12, 4] [] xw_m2)\<lparr>cbLog := [12]\<rparr>,
    uDbgCountTxnDoneCb := uDbgCountTxnDoneCb xw1 + 1, tw_hTxnDoneQueue := Some [12], tw_sched := True\<rparr>)"
proof -
  let ?m = "xw_m1(12 := TXN_PARAM_SET_STATUS TXN_PARAM_STATUS_OK (xw_m1 12))"
  have s: "set_txn 12 (TXN_PARAM_SET_STATUS TXN_PARAM_STATUS_OK) (hTxnQ xw1) = xw_q FUNC_STATE_RUNNING [] (Some 4) (Some 12) [12, 4] [12] [] ?m"
    by (simp add: set_txn_def xw1_state xw_q_def)
  have d: "txnQ_TxnDoneCb xw_async no_client 12 (xw_q FUNC_STATE_RUNNING [] (Some 4) (Some 12) [12, 4] [12] [] ?m) =
      Some ((xw_q FUNC_STATE_RUNNING [] None (Some 4) [12, 4] [12, 4] [] ?m)\<lparr>cbLog := [12]\<rparr>)"
    by (rule xw_done) (simp add: TXN_SET_STATUS_get)
  have b: "bus_writes xw_async (xw_q FUNC_STATE_RUNNING [] (Some 4) (Some 12) [12, 4] [12] [] ?m) ((xw_q FUNC_STATE_RUNNING [] None (Some 4) [12, 4] [12, 4] [] ?m)\<lparr>cbLog := [12]\<rparr>)
      = (xw_q FUNC_STATE_RUNNING [] None (Some 4) [12, 4] [12, 4] [] xw_m2)\<lparr>cbLog := [12]\<rparr>"
    by (simp add: bus_writes_def xw_q_def xw_async_def set_txn_def xw_m2_def)
  have r: "reports (xw_q FUNC_STATE_RUNNING [] (Some 4) (Some 12) [12, 4] [12] [] ?m) ((xw_q FUNC_STATE_RUNNING [] None (Some 4) [12, 4] [12, 4] [] ?m)\<lparr>cbLog := [12]\<rparr>) = [12]"
    by (simp add: reports_def xw_q_def TXN_SET_STATUS_get xw_fields2)
  have st: "TXN_PARAM_STATUS_OK \<noteq> TXN_PARAM_STATUS_RECOVERY" by (simp add: TXN_PARAM_STATUS_OK_def TXN_PARAM_STATUS_RECOVERY_def)
  have l: "txnMem (xw_q FUNC_STATE_RUNNING [] None (Some 4) [12, 4] [12, 4] [] xw_m2) = xw_m2"
    "linked_txn ((xw_q FUNC_STATE_RUNNING [] None (Some 4) [12, 4] [12, 4] [] xw_m2)\<lparr>cbLog := [12]\<rparr>) 12 = False"
    by (simp_all add: xw_q_def linked_txn_def queued_def items_h_def)
  show ?thesis
    by (simp add: bus_completes_def s [unfolded xw1_state(1)] d with_txnq_def b r l xw_fields2 twIf_TxnDoneCb_def enq_txn_done_def enq_h_def fifo_enq_def st xw1_state items_h_def)
qed

lemma xw2_state:
  "hTxnQ xw2 = (xw_q FUNC_STATE_RUNNING [] None (Some 4) [12, 4] [12, 4] [] xw_m2)\<lparr>cbLog := [12]\<rparr>" "doneq xw2 = [12]" "tw_sched xw2"
  "bTxnDoneInRecovery xw2 = False" "callLog xw2 = []" "errLog xw2 = []"
  by (simp_all add: xw2_def xw2_complete xw1_state doneq_def items_h_def) (simp_all add: xw1_def xw1_send xw0_state)

lemma xw2_reach: "tw_reach xw_async xw2"
proof -
  have "pCurrTxn (hTxnQ xw1) = Some 12" by (simp add: xw1_state xw_q_def)
  moreover have "bus_completes xw_async TXN_PARAM_STATUS_OK 12 xw1 = Some xw2" by (simp add: xw2_def xw2_complete)
  ultimately have "tw_call xw_async xw1 xw2" by (intro tw_call.completed [where v = TXN_PARAM_STATUS_OK]) simp_all
  then show ?thesis using xw1_reach tw_reach.step tw_step_call by blast
qed

text \<open>On a bus that completes at once the device is woken and put to sleep again.\<close>

definition xw3 :: TTwIfObj where "xw3 = the (twIf_HwAvailable xw_sync (twIf_Awake xw0))"
definition xw4 :: TTwIfObj where "xw4 = the (twIf_Sleep xw_sync xw3)"

definition xw_m3 :: "addr \<Rightarrow> TTxnStruct" where "xw_m3 = xw_m0(4 := TXN_PARAM_SET_STATUS TXN_PARAM_STATUS_OK (xw_m0 4))"
definition xw_m4 :: "addr \<Rightarrow> TTxnStruct" where "xw_m4 = xw_m3(8 := TXN_PARAM_SET_STATUS TXN_PARAM_STATUS_OK (xw_m3 8))"

lemma xw_sync_send:
  "txnQ_Transact xw_sync no_client 4 (xw_q FUNC_STATE_RUNNING [] None None [] [] [] xw_m0) =
    Some (TXN_STATUS_COMPLETE, xw_q FUNC_STATE_RUNNING [] None None [4] [4] [4] xw_m0)"
  "txnQ_Run xw_sync no_client 2 (xw_q FUNC_STATE_RUNNING [] None None [4] [4] [4] xw_m3) = Some (xw_q FUNC_STATE_RUNNING [] None None [4] [4] [4] xw_m3)"
  "txnQ_Stop 2 (xw_q FUNC_STATE_RUNNING [] None None [4] [4] [4] xw_m3) = xw_q FUNC_STATE_STOPPED [] None None [4] [4] [4] xw_m3"
  "txnQ_Transact xw_sync no_client 8 (xw_q FUNC_STATE_STOPPED [] None None [4] [4] [4] xw_m3) =
    Some (TXN_STATUS_COMPLETE, xw_q FUNC_STATE_STOPPED [] None None [4, 8] [4, 8] [4, 8] xw_m3)"
  by (simp_all add: txnQ_Transact_def txnQ_Run_def txnQ_Stop_def xw_m3_def xw_eval xw_fields)

lemma xw_sync_transact:
  "hTxnQ s = xw_q FUNC_STATE_RUNNING [] None None [] [] [] xw_m0 \<Longrightarrow>
    tw_transact xw_sync 4 s = Some (TXN_STATUS_COMPLETE, s\<lparr>hTxnQ := xw_q FUNC_STATE_RUNNING [] None None [4] [4] [4] xw_m3\<rparr>)"
  "hTxnQ s = xw_q FUNC_STATE_RUNNING [] None None [4] [4] [4] xw_m3 \<Longrightarrow> tw_run xw_sync s = Some s"
  "hTxnQ s = xw_q FUNC_STATE_STOPPED [] None None [4] [4] [4] xw_m3 \<Longrightarrow>
    tw_transact xw_sync 8 s = Some (TXN_STATUS_COMPLETE, s\<lparr>hTxnQ := xw_q FUNC_STATE_STOPPED [] None None [4, 8] [4, 8] [4, 8] xw_m4\<rparr>)"
  by (simp_all add: tw_transact_def tw_run_def xw_sync_send)
    (simp_all add: with_txnq_def bus_writes_def reports_def xw_q_def xw_sync_def set_txn_def xw_m3_def xw_m4_def)

lemma xw3_wake: "twIf_HwAvailable xw_sync (twIf_Awake xw0) = Some (xw0\<lparr>uAwakeReqCount := 1, uDbgCountAwake := uDbgCountAwake xw0 + 1,
    tw_eState := SM_STATE_AWAKE, elpLog := [ELP_CTRL_REG_AWAKE], hTxnQ := xw_q FUNC_STATE_RUNNING [] None None [4] [4] [4] xw_m3\<rparr>)"
  by (simp add: twIf_HwAvailable_def twIf_Awake_def twIf_HandleSmEvent_def twIf_WriteElpReg_def xw0_state xw_sync_transact)

lemma xw4_sleep: "twIf_Sleep xw_sync xw3 = Some (xw3\<lparr>uAwakeReqCount := 0, uDbgCountSleep := uDbgCountSleep xw3 + 1,
    tw_eState := SM_STATE_SLEEP, elpLog := [ELP_CTRL_REG_AWAKE, ELP_CTRL_REG_SLEEP], hTxnQ := xw_q FUNC_STATE_STOPPED [] None None [4, 8] [4, 8] [4, 8] xw_m4\<rparr>)"
  by (simp add: twIf_Sleep_def sleep_check_def twIf_HandleSmEvent_def twIf_WriteElpReg_def xw3_def xw3_wake xw0_state xw_sync_send xw_sync_transact
    ELP_CTRL_REG_SLEEP_def ELP_CTRL_REG_AWAKE_def)

lemma xw4_state:
  "hTxnQ xw4 = xw_q FUNC_STATE_STOPPED [] None None [4, 8] [4, 8] [4, 8] xw_m4" "tw_eState xw4 = SM_STATE_SLEEP"
  "bTxnDoneInRecovery xw4 = False"
  by (simp_all add: xw4_def xw4_sleep) (simp add: xw3_def xw3_wake xw0_state)

lemma xw_open: "tw_open s = (eState (func_info (hTxnQ s) 2) \<noteq> FUNC_STATE_RESTART \<and> \<not> bTxnDoneInRecovery s)"
  by (simp add: tw_open_def wst_def)

lemma xw4_reach: "tw_reach xw_sync xw4"
proof -
  have "tw_call xw_sync xw0 (twIf_Awake xw0)" by (rule tw_call.awake) (simp add: xw0_state)
  then have "tw_reach xw_sync (twIf_Awake xw0)" using xw0_reach tw_reach.step tw_step_call by blast
  moreover have "tw_call xw_sync (twIf_Awake xw0) xw3"
    by (rule tw_call.hw_available) (simp_all add: xw_open xw3_def xw3_wake, simp_all add: twIf_Awake_def xw0_state xw_q_def func_info_def)
  ultimately have "tw_reach xw_sync xw3" using tw_reach.step tw_step_call by blast
  moreover have "tw_call xw_sync xw3 xw4" by (rule tw_call.sleep) (simp add: xw4_def xw4_sleep)
  ultimately show ?thesis using tw_reach.step tw_step_call by blast
qed

text \<open>The properties at concrete states.\<close>

lemma xw1_regs: "tw_regs xw1 = {12}" "wst xw1 = FUNC_STATE_RUNNING" "pCurrTxn (hTxnQ xw1) = Some 12" "pAggregQueue (hTxnQ xw1) = None"
proof -
  show "tw_regs xw1 = {12}" by (auto simp: regs_def xw1_state xw_flight)
  show "wst xw1 = FUNC_STATE_RUNNING" by (simp add: wst_def xw1_state) (simp add: xw_q_def func_info_def)
qed (simp_all add: xw1_state xw_q_def)

lemma twIf_pending_exact_witness: "unat (uPendingTxnCount xw1) = 1 \<and> count (flight (hTxnQ xw1)) 12 = 1"
  using twIf_pending_exact [OF xw1_reach] by (simp add: xw1_regs) (simp add: xw1_state doneq_def items_h_def)

lemma twIf_power_agrees_witness: "tw_eState xw1 = SM_STATE_WAIT_HW \<and> last (elpLog xw1) = ELP_CTRL_REG_AWAKE"
  using twIf_power_agrees [OF xw1_reach] by (simp add: xw1_state)

lemma twIf_asleep_quiet_witness:
  "\<exists>sent. busLog (hTxnQ (twIf_Awake xw4)) = busLog (hTxnQ xw4) @ sent \<and> set sent \<subseteq> {t. TXN_PARAM_GET_SINGLE_STEP (txnMem (hTxnQ xw4) t) \<noteq> 0}"
proof -
  have w: "wst xw4 = FUNC_STATE_STOPPED" by (simp add: wst_def xw4_state) (simp add: xw_q_def func_info_def)
  have a: "pAggregQueue (hTxnQ xw4) = None" by (simp add: xw4_state xw_q_def)
  have p: "tw_api xw_sync xw4 (twIf_Awake xw4)" "tw_eState (twIf_Awake xw4) \<noteq> SM_STATE_AWAKE"
    by (rule tw_api.tw_call [OF tw_call.awake]) (simp_all add: twIf_Awake_def xw4_state xw4_def xw4_sleep)
  show ?thesis using twIf_asleep_quiet [OF xw4_reach w a p] by auto
qed

lemma twIf_no_stall_witness: "\<exists>s. twIf_HwAvailable xw_async xw1 = Some s \<and> tw_eState s = SM_STATE_AWAKE"
  using twIf_no_stall [OF xw1_reach, of 12] by (auto simp: xw1_regs)

lemma twIf_handler_served_witness: "doneq xw2 = [12] \<and> tw_sched xw2"
  using twIf_handler_served [OF xw2_reach] by (simp add: xw2_state(2,6))

lemma twIf_returns_witness: "\<exists>s. bus_completes xw_async TXN_PARAM_STATUS_ERROR 12 xw1 = Some s"
  using twIf_returns [OF xw1_reach, of 12] by (simp add: xw1_regs)

lemma twIf_handler_returns_witness: "\<exists>s. twIf_HandleTxnDone xw_async (\<lambda>t u. Some u) xw2 = Some s"
  by (rule twIf_handler_returns [OF xw2_reach]) simp

lemma twIf_handler_calls_witness:
  "\<exists>s later. twIf_HandleTxnDone xw_async (\<lambda>t u. Some (if uAwakeReqCount u + 1 = 0 then u else twIf_Awake u)) xw2 = Some s \<and>
    callLog s = 12 # later \<and> (doneq s = [] \<or> handler_failed s)"
proof -
  let ?cb = "\<lambda>(t::addr) u. Some (if uAwakeReqCount u + 1 = 0 then u else twIf_Awake u)"
  have m: "txnMem (hTxnQ xw2) = xw_m2" "\<not> bTxnDoneInRecovery xw2" by (simp_all add: xw2_state xw_q_def)
  have c: "\<forall>t u u'. ?cb t u = Some u' \<longrightarrow> (tw_call xw_async)\<^sup>*\<^sup>* u u'" by (auto intro: tw_call.awake)
  note h = twIf_handler_calls [where cb = ?cb, OF xw2_reach m(2) c]
  have l: "\<forall>t u. \<exists>u'. ?cb t u = Some u' \<and> length (doneq u') \<le> length (doneq u)"
    by (simp add: twIf_Awake_def doneq_def)
  then obtain s where s: "twIf_HandleTxnDone xw_async ?cb xw2 = Some s" using h by blast
  obtain xs ys where x: "doneq xw2 = xs @ ys"
    "ys = [] \<and> (\<exists>later. callLog s = callLog xw2 @ filter (\<lambda>t. fTxnDoneCb (txnMem (hTxnQ xw2) t) \<noteq> 0) xs @ later) \<and> (doneq s = [] \<or> handler_failed s) \<or>
      (\<exists>t zs new. ys = t # zs \<and> \<not> TXN_PARAM_GET_STATUS (txnMem (hTxnQ xw2) t) \<noteq> TXN_PARAM_STATUS_ERROR)"
    using conjunct1 [OF h, rule_format, OF s] by blast
  have v: "TXN_PARAM_GET_STATUS (txnMem (hTxnQ xw2) 12) \<noteq> TXN_PARAM_STATUS_ERROR" "fTxnDoneCb (txnMem (hTxnQ xw2) 12) \<noteq> 0"
      "doneq xw2 = [12]" "callLog xw2 = []"
    using m(1) by (simp_all add: xw2_state xw_fields2 TXN_PARAM_STATUS_OK_def TXN_PARAM_STATUS_ERROR_def)
  have "set [12] = set xs \<union> set ys" using x(1) v(3) by (metis set_append)
  then have "ys = []" using x(2) v(1) by auto
  moreover from this have "xs = [12]" using x(1) v(3) by simp
  ultimately have "\<exists>later. callLog s = 12 # later" "doneq s = [] \<or> handler_failed s" using x(2) v by auto
  then show ?thesis using s by blast
qed

lemma twIf_restart_completes_witness:
  "\<exists>s1 s2 s3. twIf_Restart xw1 = (TXN_STATUS_PENDING, s1) \<and> bus_completes xw_async TXN_PARAM_STATUS_ERROR 12 s1 = Some s2 \<and>
    twIf_HandleTxnDone xw_async (\<lambda>t u. None) (s2\<lparr>tw_sched := False\<rparr>) = Some s3 \<and> recovLog s3 = 1"
  using twIf_restart_completes [OF xw1_reach xw1_regs(3), of TXN_PARAM_STATUS_ERROR "\<lambda>t u. None"] xw1_state(9) by fastforce

lemma xw5_restart: "tw_reach xw_async (snd (twIf_Restart xw1))" "wst (snd (twIf_Restart xw1)) = FUNC_STATE_RESTART"
proof -
  have "tw_api xw_async xw1 (snd (twIf_Restart xw1))" by (rule tw_api.restart [where st = "fst (twIf_Restart xw1)"]) simp
  then show "tw_reach xw_async (snd (twIf_Restart xw1))" using xw1_reach tw_reach.step tw_step.api by blast
  show "wst (snd (twIf_Restart xw1)) = FUNC_STATE_RESTART"
    by (simp add: twIf_Restart_def twIf_ClearTxnDoneQueue_def xw1_state wst_def)
      (simp add: txnQ_Restart_def xw_fields2 xw_q_def upd_func_def func_info_def)
qed

lemma twIf_timeout_starves_witness:
  "\<exists>st s. twIf_SendTransaction xw_async 16 (twIf_PendRestratTimeout (snd (twIf_Restart xw1))) = Some (st, s) \<and> st \<noteq> TXN_STATUS_COMPLETE"
  using twIf_timeout_starves [OF xw5_restart, of 16] by blast

lemma twIf_translate_injective_witness:
  "unat (translate (xw0\<lparr>uMemAddr1 := 0x20000, uMemSize1 := 0x8000, uMemAddr2 := 0x300000, uMemSize2 := 0x5800\<rparr>) 0x300004) < 0xD800"
  using twIf_translate_injective [of "xw0\<lparr>uMemAddr1 := 0x20000, uMemSize1 := 0x8000, uMemAddr2 := 0x300000, uMemSize2 := 0x5800\<rparr>" "0x300004" "0x20000"]
  by simp

lemma twIf_address_checks_witness:
  "\<not> twIf_isValidMemoryAddr (xw0\<lparr>uMemAddr1 := 0x20000, uMemSize1 := 0x8000, uMemAddr2 := 0x300000, uMemSize2 := 0x5800\<rparr>) 0x27FFC 4"
  using twIf_address_checks [of "xw0\<lparr>uMemAddr1 := 0x20000, uMemSize1 := 0x8000, uMemAddr2 := 0x300000, uMemSize2 := 0x5800\<rparr>" "0x27FFC" 4]
  by simp


end
