(* ===== verification/Spec2Isabelle.thy ===== *)
theory Spec2Isabelle
  imports WlRate WlTxHwQueue WlRxProps WlTxnProps WlCmdProps WlScrProps WlTimerProps WlTxProps WlClsfrProps WlTwProps
begin

text \<open>
  Verification library for the TI WL1271 wireless LAN driver, \<^verbatim>\<open>src/ti/wlan/wl1271\<close>.

  The program. The driver runs on the host and controls the firmware of the WLAN chip over a serial bus.
  Its task is one work item of the operating system; interrupts, timers and the network stack only
  queue what is to be done and ask for the task. Frames to send are kept in queues, charged against the
  firmware's memory, given a control block and sent over the bus as transactions; received frames come
  in through the bus and pass the reorder queue of the block-ack sessions on their way to the stack.
  Commands to the firmware go one at a time through a mailbox. The modules of the station management ask
  an arbiter for the radio before they scan, measure or connect. The library models the modules that
  carry this core logic, one group of theories per module.

  \<^bold>\<open>Shared base.\<close> Theory \<open>WlPrelude\<close> holds the C integer types as machine words, the status codes and the
  lemmas that several components use.

  \<^bold>\<open>Rates.\<close> Theory \<open>WlRate\<close>, \<^verbatim>\<open>utils/rate.c\<close>: the conversions between rate indices, rate elements of
  frames, driver and firmware bitmaps and numbers. The lemmas are round trips and exact descriptions;
  one rate does not come back (\<open>rate_number_roundtrip_but_MCS_0\<close>).

  \<^bold>\<open>Queues.\<close> Theory \<open>WlQueue\<close>, \<^verbatim>\<open>utils/queue.c\<close>: the doubly linked ring over a memory of node headers.
  \<open>que_refines_fifo\<close> shows that it is a bounded first-in first-out list; the locale \<open>bounded_fifo\<close> is that
  contract, interpreted on the ring and on lists, and the components above use lists.

  \<^bold>\<open>Transmission.\<close> Theory \<open>WlTxCtrlBlk\<close>, \<^verbatim>\<open>TWD/Data_Service/txCtrlBlk.c\<close>: the table of control blocks, a pool
  of identifiers (locale \<open>id_pool\<close>). Theory \<open>WlTxHwQueue\<close>, \<^verbatim>\<open>TWD/Data_Service/txHwQueue.c\<close>: the accounting
  of the firmware's memory blocks per access category, with conservation of blocks and the guarantee of
  the low thresholds.

  \<^bold>\<open>The transmit path.\<close> Theory \<open>WlTxPath\<close> has the objects of \<^verbatim>\<open>stad/src/Data_link\<close>, the record \<open>TxPath\<close> that puts
  them together with the accounting and the control blocks above, and the sending functions of
  \<^verbatim>\<open>txCtrl.c\<close>; \<open>WlTxQueues\<close> the schedulers of \<^verbatim>\<open>txMgmtQueue.c\<close> and \<^verbatim>\<open>txDataQueue.c\<close>; \<open>WlTxFlow\<close> the state machine
  of the management queues, the port (\<^verbatim>\<open>txPort.c\<close>), with which it is mutually recursive, the entry of
  packets and the mapping of access categories. The classifier, the builders of headers and the bus
  transfer are arguments (\<open>TxEnv\<close>; \<open>env_ok\<close> is what is asked of them, and \<open>clsfr_env_ok\<close> shows it of the
  classifier below). Theories \<open>WlTxInv\<close>, \<open>WlTxReach\<close> and
  \<open>WlTxOps\<close> have the invariants and show that each function keeps them, \<open>WlTxEnter\<close> the reachable states:
  \<open>tx_step\<close> has a step for each call from outside, in any order; an insertion by the network stack is one
  step, and the argument \<open>races\<close> tells whether two races are included. Theory \<open>WlTxStuck\<close> shows what the races
  lead to, with runs that reach them, and \<open>WlTxProps\<close> has the properties: no packet waits without a reason
  and the task of the management queues serves them, both but for the two races; and with the races, the
  task of the data queues serves them, nothing is sent that the connection does not permit, the port and
  the queues agree, and queues hold packets of their type.

  \<^bold>\<open>The classifier.\<close> Theory \<open>WlClsfr\<close>, \<^verbatim>\<open>stad/src/Data_link/TxDataClsfr.c\<close>: the table of classification entries, its
  configuration and the classification of a packet from its headers. Theory \<open>WlClsfrProps\<close> shows that the
  table refines a finite map, which entries the configuration keeps or loses, and the range of the TIDs.

  \<^bold>\<open>Reception.\<close> Theories \<open>WlRxQueue\<close> (the code of \<^verbatim>\<open>TWD/Data_Service/RxQueue.c\<close>), \<open>WlRxReorder\<close>, \<open>WlRxWindow\<close>
  (its loops on the window of one TID, locale \<open>tid_round\<close>), \<open>WlRxAccept\<close> (the three parts of the receive
  function as one operation), \<open>WlRxInv\<close>, \<open>WlRxEvents\<close> (what each kind of packet keeps) and \<open>WlRxProps\<close>. No
  buffer is lost or duplicated, delivery is in order, and the code is the reordering buffer of
  IEEE 802.11n, with late frames and copies handed up by themselves. These hold but for what
  \<open>rx_sane\<close> excludes: a second copy of the last frame of a window that wraps at 4096 and a block-ack
  request that starts at a stored frame, for which theorems show what goes wrong, and a session of size
  0. The last frame of a wrapping window itself departs from the standard (\<open>rxQueue_wrap_gives_up\<close>), and
  a timeout may never return (\<open>rxQueue_timeout_diverges\<close>).

  \<^bold>\<open>Bus transactions.\<close> Theory \<open>WlTxn\<close>: the transaction structure of \<^verbatim>\<open>Txn/BusDrv.h\<close>. Theories \<open>WlTxnQueue\<close>
  (\<^verbatim>\<open>Txn/TxnQueue.c\<close>), \<open>WlTxnInv\<close> (locale \<open>txn_inv\<close>: an invariant of the small steps is one of every
  function), \<open>WlTxnReach\<close> (reachable states, choice of the next transaction, the measure of the scheduler)
  and \<open>WlTxnProps\<close>: accounts, order, priority, bursts, restarts, and that the scheduler returns with no
  work left.

  \<^bold>\<open>The bus interface.\<close> Theory \<open>WlTwIf\<close>, \<^verbatim>\<open>TWD/TwIf/TwIf.c\<close>: the client of the transaction queue that translates
  addresses, wakes the device and lets it sleep, and calls the callbacks of completed transactions in the
  driver's context; its record contains the object of the queue, and its operations run those of the
  queue. Theory \<open>WlTwTxn\<close> follows transactions through the functions of the queue (what is under way, what
  was reported, what was returned), \<open>WlTwIfInv\<close> has the invariant of the interface, \<open>WlTwReach\<close> the calls that
  clients, the bus driver and the context engine make in any order, with what each keeps, and \<open>WlTwProps\<close>
  the properties: the count of pending transactions is exact, power state, queue and device agree,
  nothing but the ELP register is written to a sleeping device, nothing waits without a reason, the
  functions and the handler return, restarts complete or are given up, addresses do not collide. The
  callbacks that the handler calls may make any call of the module but a restart. The reachable states
  leave out the guard timer of a restart (\<open>twIf_PendRestratTimeout\<close>), after which the count is not exact;
  what it leads to is a theorem of its own (\<open>twIf_timeout_starves\<close>).

  \<^bold>\<open>Commands.\<close> Theories \<open>WlCmdMbox\<close> (\<^verbatim>\<open>TWD/FW_Transfer/CmdMBox.c\<close>), \<open>WlCmdQueue\<close> (\<^verbatim>\<open>TWD/Ctrl/CmdQueue.c\<close>, a ring of
  30 commands), \<open>WlCmdInv\<close> (locale \<open>cmd_client\<close>: what sending keeps, a callback keeps) and \<open>WlCmdProps\<close>: the
  pipeline of commands, completion, recovery and the error flag.

  \<^bold>\<open>Arbitration.\<close> Theories \<open>WlScr\<close> (\<^verbatim>\<open>stad/src/Sta_Management/scr.c\<close>), \<open>WlScrInv\<close> (locales \<open>scr_inv\<close> and
  \<open>scr_group_inv\<close>) and \<open>WlScrProps\<close>: exclusive use of a resource, no resource lies free while an enabled
  client waits, priority at completion and preemption, the abort policy, and a grant that nobody is
  told.

  \<^bold>\<open>The task and the timers.\<close> Theories \<open>WlContext\<close> (\<^verbatim>\<open>utils/context.c\<close> with the wake lock, the work item and
  the task of \<^verbatim>\<open>platforms/os/linux/src\<close>) and \<open>WlTimer\<close> (\<^verbatim>\<open>utils/timer.c\<close>, whose object extends the engine's)
  hold the functions of the code. Theory \<open>WlTimerRun\<close> runs them: the task, timer contexts and interrupts
  interleave between the actions that the code makes outside of critical sections (\<open>run_step\<close>,
  \<open>env_step\<close>), or a function of the code runs as a whole (\<open>call_step\<close>). Its invariants
  say who holds the wake lock, who will serve a pending client and where an expired timer waits, and its
  last lemmas show that each function as a whole is a sequence of the single actions. The argument \<open>safe\<close>
  tells whether a timer may be destroyed while it waits or is served, which \<open>tmr_DestroyTimer\<close> does not
  check. Theory \<open>WlTimerProps\<close>: the engine comes to rest (a measure of what is under way) or, when such a
  timer was destroyed, at the read of freed memory; nothing is lost at rest, the system does not sleep
  over an event, the functions refine the actions, and what the service of expired timers does.

  \<^bold>\<open>How the code is modelled.\<close> A C structure is a record with the code's field names; a pointer to an
  object of a table is its index, any other pointer an address; memory shared through pointers is a map
  from addresses. Counters keep their C widths where they can wrap. \<open>TI_DBG\<close> is defined in every build, so
  its statements are part of the model; traces and reports are not. Where the code calls something that
  is given to it at run time (a callback, the bus driver, an allocation) the definition has a parameter;
  callbacks may call the module again, and the theorems hold for all that do so through its functions.
  Fields named as logs record what happens and are read by no operation.

  \<^bold>\<open>Termination and bounds.\<close> Loops are total functions by a measure where they end for every input; the
  scheduler of the transaction queue, the search in the timeout of the receive queue and the loop over
  expired timers are option-valued partial functions, and that they return, or do not, is stated as
  such; so is the handler of completed transactions, whose callbacks may send more. No fuel is used.

  \<^bold>\<open>Not modelled.\<close> The modules above the ones here (connection, roaming, scan and measurement
  management, security, the command interface) and below (the bus drivers, firmware
  download, the layout of the firmware's commands) are not modelled: their logic is spread over calls of
  the operating system, of the firmware and of each other, and much of it is configuration. They appear
  as parameters and as steps. Of the transmit path, the headers and descriptors of packets, the
  completion of packets and its statistics are not modelled. Functions that only print, release memory or
  enter a critical section have no effect on the data and no definition. The other programs of the repository (the Broadcom
  driver, the media codecs, the radio interface and the board support) are independent of this one.
\<close>

end
